(* ===== verification/JsPrelude.thy ===== *)
theory JsPrelude
  imports Complex_Main
begin

text \<open>
  Shared vocabulary of the development: JavaScript strings as lists of UTF-16 code units,
  thrown values, the error monad in which the fallible code is written, and the lemmas about
  lists and binary search that several components use.
\<close>

section \<open>Strings\<close>

text \<open>
  A JavaScript string is a sequence of UTF-16 code units.  A code unit is what
  \<open>charCodeAt\<close> returns, a number from 0 to 65535; it is an integer here because the kernel
  evaluates integer literals in binary.  A literal of the source is written
  \<open>js ''abc''\<close>.
\<close>

type_synonym cu = int
type_synonym jstr = "int list"

definition js :: "string \<Rightarrow> jstr" where
  "js s = map of_char s"

abbreviation chr :: "char \<Rightarrow> cu" where
  "chr c \<equiv> of_char c"

definition units_ok :: "jstr \<Rightarrow> bool" where
  "units_ok s = (\<forall>c \<in> set s. 0 \<le> c \<and> c < 65536)"

fun str_lt :: "jstr \<Rightarrow> jstr \<Rightarrow> bool" where
  "str_lt xs [] = False"
| "str_lt [] (y # ys) = True"
| "str_lt (x # xs) (y # ys) = (x < y \<or> (x = y \<and> str_lt xs ys))"

lemma str_lt_irrefl [simp]: "\<not> str_lt s s"
  by (induction s) auto

lemma str_lt_trans: "str_lt a b \<Longrightarrow> str_lt b c \<Longrightarrow> str_lt a c"
proof (induction a b arbitrary: c rule: str_lt.induct)
  case (2 y ys)
  then show ?case by (cases c) auto
next
  case (3 x xs y ys)
  then show ?case by (cases c) auto
qed simp

lemma str_lt_total: "str_lt a b \<or> a = b \<or> str_lt b a"
proof (induction a b rule: str_lt.induct)
  case (1 xs)
  then show ?case by (cases xs) auto
qed auto

text \<open>\<open>Array.prototype.sort\<close> on strings: by code units.\<close>

fun insert_name :: "jstr \<Rightarrow> jstr list \<Rightarrow> jstr list" where
  "insert_name x [] = [x]"
| "insert_name x (y # ys) = (if str_lt y x then y # insert_name x ys else x # y # ys)"

fun sort_names :: "jstr list \<Rightarrow> jstr list" where
  "sort_names [] = []"
| "sort_names (x # xs) = insert_name x (sort_names xs)"

lemma set_insert_name [simp]: "set (insert_name x ys) = insert x (set ys)"
  by (induction ys) auto

lemma set_sort_names [simp]: "set (sort_names xs) = set xs"
  by (induction xs) auto

lemma distinct_insert_name: "x \<notin> set ys \<Longrightarrow> distinct ys \<Longrightarrow> distinct (insert_name x ys)"
  by (induction ys) auto

lemma distinct_sort_names: "distinct xs \<Longrightarrow> distinct (sort_names xs)"
  by (induction xs) (auto intro: distinct_insert_name)

lemma sorted_insert_name:
  "sorted_wrt (\<lambda>x y. \<not> str_lt y x) ys \<Longrightarrow> sorted_wrt (\<lambda>x y. \<not> str_lt y x) (insert_name x ys)"
proof (induction ys)
  case (Cons y ys)
  show ?case
  proof (cases "str_lt y x")
    case True
    then have "\<not> str_lt x y" using str_lt_trans str_lt_irrefl by blast
    with Cons True show ?thesis by auto
  next
    case False
    have "\<not> str_lt z x" if "z \<in> set ys" for z
      using Cons.prems that False str_lt_trans [of z x y] str_lt_total [of x y] by auto
    with Cons.prems False show ?thesis by simp
  qed
qed simp

lemma sorted_sort_names: "sorted_wrt (\<lambda>x y. \<not> str_lt y x) (sort_names xs)"
  by (induction xs) (auto intro: sorted_insert_name)

text \<open>\<open>indexOf\<close>, \<open>includes\<close>, \<open>startsWith\<close>, \<open>slice\<close> and \<open>split\<close> of the standard library.\<close>

fun prefix_of :: "'a list \<Rightarrow> 'a list \<Rightarrow> bool" where
  "prefix_of [] s = True"
| "prefix_of (p # ps) [] = False"
| "prefix_of (p # ps) (c # cs) = (p = c \<and> prefix_of ps cs)"

fun index_of :: "'a list \<Rightarrow> 'a list \<Rightarrow> nat option" where
  "index_of pat [] = (if pat = [] then Some 0 else None)"
| "index_of pat (c # cs) = (if prefix_of pat (c # cs) then Some 0 else map_option Suc (index_of pat cs))"

definition str_contains :: "'a list \<Rightarrow> 'a list \<Rightarrow> bool" where
  "str_contains s pat = (index_of pat s \<noteq> None)"

definition segment :: "'a list \<Rightarrow> nat \<Rightarrow> nat \<Rightarrow> 'a list" where
  "segment s i j = take (j - i) (drop i s)"

fun split_on :: "'a \<Rightarrow> 'a list \<Rightarrow> 'a list list" where
  "split_on d [] = [[]]"
| "split_on d (c # cs) = (if c = d then [] # split_on d cs
      else (case split_on d cs of [] \<Rightarrow> [[c]] | w # ws \<Rightarrow> (c # w) # ws))"

fun join_with :: "'a list \<Rightarrow> 'a list list \<Rightarrow> 'a list" where
  "join_with d [] = []"
| "join_with d [w] = w"
| "join_with d (w # ws) = w @ d @ join_with d ws"

definition ascii_lower_unit :: "cu \<Rightarrow> cu" where
  "ascii_lower_unit c = (if 65 \<le> c \<and> c \<le> 90 then c + 32 else c)"

definition ascii_lower :: "jstr \<Rightarrow> jstr" where
  "ascii_lower s = map ascii_lower_unit s"

lemma ascii_lower_idem [simp]: "ascii_lower (ascii_lower s) = ascii_lower s"
  by (simp add: ascii_lower_def ascii_lower_unit_def)

lemma prefix_of_append [simp]: "prefix_of p (p @ s)"
  by (induction p) auto

lemma prefix_of_iff: "prefix_of p s = (\<exists>r. s = p @ r)"
  by (induction p s rule: prefix_of.induct) auto

lemma index_of_Some:
  "index_of pat s = Some i \<Longrightarrow> i + length pat \<le> length s \<and> segment s i (i + length pat) = pat"
proof (induction s arbitrary: i)
  case Nil
  then show ?case by (auto simp: segment_def split: if_splits)
next
  case (Cons c cs)
  show ?case
  proof (cases "prefix_of pat (c # cs)")
    case True
    then obtain r where "c # cs = pat @ r" by (auto simp: prefix_of_iff)
    then have "take (length pat) (c # cs) = pat" and "length pat \<le> length (c # cs)" by simp_all
    moreover from True Cons.prems have "i = 0" by simp
    ultimately show ?thesis by (simp add: segment_def)
  next
    case False
    with Cons show ?thesis by (auto simp: segment_def)
  qed
qed

lemma index_of_None: "index_of pat s = None \<longleftrightarrow> (\<nexists>a b. s = a @ pat @ b)"
proof (induction s)
  case Nil
  then show ?case by auto
next
  case (Cons c cs)
  have "(\<exists>a b. c # cs = a @ pat @ b) \<longleftrightarrow> prefix_of pat (c # cs) \<or> (\<exists>a b. cs = a @ pat @ b)"
    (is "?l \<longleftrightarrow> ?r")
  proof
    assume ?l
    then obtain a b where ab: "c # cs = a @ pat @ b" by blast
    then show ?r by (cases a) (auto simp: prefix_of_iff)
  next
    assume ?r
    then show ?l
    proof
      assume "prefix_of pat (c # cs)"
      then show ?l by (metis append_Nil prefix_of_iff)
    next
      assume "\<exists>a b. cs = a @ pat @ b"
      then show ?l by (metis append_Cons)
    qed
  qed
  with Cons show ?case by auto
qed

lemma split_on_nonempty [simp]: "split_on d s \<noteq> []"
  by (cases s) (auto split: list.splits)

lemma join_with_Cons: "ws \<noteq> [] \<Longrightarrow> join_with d (w # ws) = w @ d @ join_with d ws"
  by (cases ws) auto

lemma join_split: "join_with [d] (split_on d s) = s"
proof (induction s)
  case (Cons c cs)
  show ?case
  proof (cases "split_on d cs")
    case Nil
    then show ?thesis by simp
  next
    case (Cons w ws)
    with Cons.IH show ?thesis by (cases ws) auto
  qed
qed simp

lemma split_on_no_sep: "d \<notin> set s \<Longrightarrow> split_on d s = [s]"
  by (induction s) auto

lemma split_on_sep_free: "w \<in> set (split_on d s) \<Longrightarrow> d \<notin> set w"
proof (induction s arbitrary: w)
  case (Cons c cs)
  then show ?case by (cases "split_on d cs") (auto split: if_splits)
qed simp

lemma split_on_append: "d \<notin> set w \<Longrightarrow> split_on d (w @ d # s) = w # split_on d s"
  by (induction w) auto

lemma split_join: "ws \<noteq> [] \<Longrightarrow> \<forall>w \<in> set ws. d \<notin> set w \<Longrightarrow> split_on d (join_with [d] ws) = ws"
  by (induction ws rule: induct_list012) (auto simp: split_on_no_sep split_on_append)

section \<open>Thrown values and the error monad\<close>

text \<open>
  What the code throws: a \<open>DOMException\<close> (its name; the message text is not modelled), a
  \<open>TypeError\<close>, a \<open>RangeError\<close>, or a value thrown by page code (a number stands for it).
\<close>

datatype exn = DomErr string | TypeErr | RangeErr | PageThrow nat

type_synonym 'a res = "exn + 'a"

definition rbind :: "('e + 'a) \<Rightarrow> ('a \<Rightarrow> 'e + 'b) \<Rightarrow> 'e + 'b" where
  "rbind r f = (case r of Inl e \<Rightarrow> Inl e | Inr x \<Rightarrow> f x)"

lemma rbind_simps [simp]: "rbind (Inl e) f = Inl e" "rbind (Inr x) f = f x"
  by (simp_all add: rbind_def)

lemma rbind_Inr_iff: "rbind r f = Inr y \<longleftrightarrow> (\<exists>x. r = Inr x \<and> f x = Inr y)"
  by (cases r) auto

lemma rbind_Inl_iff: "rbind r f = Inl e \<longleftrightarrow> r = Inl e \<or> (\<exists>x. r = Inr x \<and> f x = Inl e)"
  by (cases r) auto

lemma rbind_assoc: "rbind (rbind r f) g = rbind r (\<lambda>x. rbind (f x) g)"
  by (cases r) auto

fun rmap :: "('a \<Rightarrow> 'e + 'b) \<Rightarrow> 'a list \<Rightarrow> 'e + 'b list" where
  "rmap f [] = Inr []"
| "rmap f (x # xs) = rbind (f x) (\<lambda>y. rbind (rmap f xs) (\<lambda>ys. Inr (y # ys)))"

lemma rmap_Inr_length: "rmap f xs = Inr ys \<Longrightarrow> length ys = length xs"
  by (induction xs arbitrary: ys) (auto simp: rbind_Inr_iff)

section \<open>Lists\<close>

definition insert_at :: "nat \<Rightarrow> 'a \<Rightarrow> 'a list \<Rightarrow> 'a list" where
  "insert_at i x xs = take i xs @ x # drop i xs"

definition remove_at :: "nat \<Rightarrow> 'a list \<Rightarrow> 'a list" where
  "remove_at i xs = take i xs @ drop (Suc i) xs"

definition nth_opt :: "'a list \<Rightarrow> nat \<Rightarrow> 'a option" where
  "nth_opt xs i = (if i < length xs then Some (xs ! i) else None)"

lemma set_insert_at [simp]: "set (insert_at i x xs) = insert x (set xs)"
  by (metis append_take_drop_id insert_at_def list.simps(15) set_append Un_insert_right)

lemma length_insert_at [simp]: "length (insert_at i x xs) = Suc (length xs)"
  by (simp add: insert_at_def)

lemma remove_insert_at: "i \<le> length xs \<Longrightarrow> remove_at i (insert_at i x xs) = xs"
  by (simp add: insert_at_def remove_at_def min_def)

lemma insert_remove_at: "i < length xs \<Longrightarrow> insert_at i (xs ! i) (remove_at i xs) = xs"
  by (simp add: insert_at_def remove_at_def min_def Cons_nth_drop_Suc)

lemma length_remove_at: "i < length xs \<Longrightarrow> length (remove_at i xs) = length xs - 1"
  by (simp add: remove_at_def min_def)

lemma set_remove_at: "set (remove_at i xs) \<subseteq> set xs"
  by (auto simp: remove_at_def dest: in_set_takeD in_set_dropD)

lemma nth_opt_Some [simp]: "nth_opt xs i = Some x \<longleftrightarrow> i < length xs \<and> xs ! i = x"
  by (auto simp: nth_opt_def)

lemma nth_opt_None [simp]: "nth_opt xs i = None \<longleftrightarrow> length xs \<le> i"
  by (auto simp: nth_opt_def)

text \<open>
  A predicate that is false on a prefix and true on the rest splits a list at one index; both
  binary searches of the code compute that index.
\<close>

definition mono_on_list :: "('a \<Rightarrow> bool) \<Rightarrow> 'a list \<Rightarrow> bool" where
  "mono_on_list P xs = (\<forall>i j. i \<le> j \<longrightarrow> j < length xs \<longrightarrow> P (xs ! j) \<longrightarrow> P (xs ! i))"

lemma mono_on_listD: "mono_on_list P xs \<Longrightarrow> i \<le> j \<Longrightarrow> j < length xs \<Longrightarrow> P (xs ! j) \<Longrightarrow> P (xs ! i)"
  by (auto simp: mono_on_list_def)

lemma mono_on_list_split:
  assumes "mono_on_list P xs"
  shows "\<exists>k \<le> length xs. (\<forall>i < length xs. P (xs ! i) \<longleftrightarrow> i < k)"
proof (cases "\<exists>i < length xs. \<not> P (xs ! i)")
  case True
  define k where "k = (LEAST i. i < length xs \<and> \<not> P (xs ! i))"
  have k: "k < length xs" "\<not> P (xs ! k)"
    using True LeastI_ex [of "\<lambda>i. i < length xs \<and> \<not> P (xs ! i)"] by (auto simp: k_def)
  have "P (xs ! i) \<longleftrightarrow> i < k" if "i < length xs" for i
    using that k assms not_less_Least [of i "\<lambda>i. i < length xs \<and> \<not> P (xs ! i)"]
    by (metis k_def mono_on_listD not_less)
  with k show ?thesis by (intro exI [of _ k]) auto
next
  case False
  then show ?thesis by (intro exI [of _ "length xs"]) auto
qed

lemma filter_prefix_eq_take:
  assumes "k \<le> length xs" "\<forall>i < length xs. P (xs ! i) \<longleftrightarrow> i < k"
  shows "filter P xs = take k xs"
proof -
  have "filter P xs = filter P (take k xs) @ filter P (drop k xs)"
    by (metis append_take_drop_id filter_append)
  moreover have "filter P (take k xs) = take k xs"
    using assms by (auto simp: filter_id_conv in_set_conv_nth)
  moreover have "filter P (drop k xs) = []"
    using assms by (auto simp: filter_empty_conv in_set_conv_nth)
  ultimately show ?thesis by simp
qed

lemma filter_not_prefix_eq_drop:
  assumes "k \<le> length xs" "\<forall>i < length xs. P (xs ! i) \<longleftrightarrow> i < k"
  shows "filter (\<lambda>x. \<not> P x) xs = drop k xs"
proof -
  have "filter (\<lambda>x. \<not> P x) xs = filter (\<lambda>x. \<not> P x) (take k xs) @ filter (\<lambda>x. \<not> P x) (drop k xs)"
    by (metis append_take_drop_id filter_append)
  moreover have "filter (\<lambda>x. \<not> P x) (take k xs) = []"
    using assms by (auto simp: filter_empty_conv in_set_conv_nth)
  moreover have "filter (\<lambda>x. \<not> P x) (drop k xs) = drop k xs"
    using assms by (auto simp: filter_id_conv in_set_conv_nth)
  ultimately show ?thesis by simp
qed

end
