(* ===== verification/JsNum.thy ===== *)
theory JsNum
  imports JsPrelude
begin

text \<open>
  JavaScript numbers: IEEE 754 doubles with round-to-nearest-even, as a datatype over exact
  rationals.  Every operation computes the exact rational result and rounds it once, which is
  what the language requires of \<open>+\<close>, \<open>-\<close>, \<open>*\<close>, \<open>/\<close> and of the conversion of a decimal
  literal.  \<open>%\<close>, \<open>Math.floor\<close>, \<open>Math.ceil\<close> and \<open>Math.trunc\<close> are exact.  Number to string
  conversion is the algorithm of the language (shortest digits that read back).
\<close>

section \<open>Values\<close>

text \<open>\<open>Fin 0\<close> is the positive zero; \<open>NZero\<close> is the negative zero.\<close>

datatype jsnum = NaN | PInf | NInf | NZero | Fin rat

section \<open>Rounding to a double\<close>

fun nlog2 :: "int \<Rightarrow> int" where
  "nlog2 n = (if n < 2 then 0 else 1 + nlog2 (n div 2))"

declare nlog2.simps [simp del]

definition pow2 :: "int \<Rightarrow> rat" where
  "pow2 k = (if 0 \<le> k then 2 ^ nat k else 1 / 2 ^ nat (- k))"

definition ilog2 :: "rat \<Rightarrow> int" where
  "ilog2 x = (case quotient_of x of (p, q) \<Rightarrow>
     let e = nlog2 p - nlog2 q in if pow2 e \<le> x then e else e - 1)"

definition round_half_even :: "rat \<Rightarrow> int" where
  "round_half_even x = (let f = \<lfloor>x\<rfloor>; d = x - of_int f in
     if d < 1/2 then f else if d > 1/2 then f + 1 else if even f then f else f + 1)"

definition ulp :: "rat \<Rightarrow> rat" where
  "ulp x = pow2 (max (ilog2 x - 52) (-1074))"

definition signed_zero :: "bool \<Rightarrow> jsnum" where
  "signed_zero neg = (if neg then NZero else Fin 0)"

definition signed_inf :: "bool \<Rightarrow> jsnum" where
  "signed_inf neg = (if neg then NInf else PInf)"

text \<open>The double nearest to \<open>x\<close> (\<open>neg\<close>: to \<open>-x\<close>), for \<open>x \<ge> 0\<close>.\<close>

definition round64 :: "bool \<Rightarrow> rat \<Rightarrow> jsnum" where
  "round64 neg x = (if x = 0 then signed_zero neg else
     let v = of_int (round_half_even (x / ulp x)) * ulp x in
     if v = 0 then signed_zero neg
     else if 1024 \<le> ilog2 v then signed_inf neg
     else Fin (if neg then - v else v))"

definition round_rat :: "rat \<Rightarrow> jsnum" where
  "round_rat r = round64 (r < 0) \<bar>r\<bar>"

section \<open>Arithmetic\<close>

fun num_neg :: "jsnum \<Rightarrow> jsnum" where
  "num_neg NaN = NaN"
| "num_neg PInf = NInf"
| "num_neg NInf = PInf"
| "num_neg NZero = Fin 0"
| "num_neg (Fin r) = (if r = 0 then NZero else Fin (- r))"

text \<open>The sign bit and the magnitude of a finite number.\<close>

fun sign_bit :: "jsnum \<Rightarrow> bool" where
  "sign_bit NInf = True"
| "sign_bit NZero = True"
| "sign_bit (Fin r) = (r < 0)"
| "sign_bit _ = False"

fun fin_val :: "jsnum \<Rightarrow> rat option" where
  "fin_val NZero = Some 0"
| "fin_val (Fin r) = Some r"
| "fin_val _ = None"

fun num_add :: "jsnum \<Rightarrow> jsnum \<Rightarrow> jsnum" where
  "num_add NaN _ = NaN"
| "num_add _ NaN = NaN"
| "num_add PInf NInf = NaN"
| "num_add NInf PInf = NaN"
| "num_add PInf _ = PInf"
| "num_add _ PInf = PInf"
| "num_add NInf _ = NInf"
| "num_add _ NInf = NInf"
| "num_add NZero NZero = NZero"
| "num_add NZero (Fin b) = Fin b"
| "num_add (Fin a) NZero = Fin a"
| "num_add (Fin a) (Fin b) = round_rat (a + b)"

definition num_sub :: "jsnum \<Rightarrow> jsnum \<Rightarrow> jsnum" where
  "num_sub a b = num_add a (num_neg b)"

definition num_mul :: "jsnum \<Rightarrow> jsnum \<Rightarrow> jsnum" where
  "num_mul a b = (let neg = (sign_bit a \<noteq> sign_bit b) in
     if a = NaN \<or> b = NaN then NaN
     else case (fin_val a, fin_val b) of
       (Some x, Some y) \<Rightarrow> round64 neg \<bar>x * y\<bar>
     | (Some x, None) \<Rightarrow> if x = 0 then NaN else signed_inf neg
     | (None, Some y) \<Rightarrow> if y = 0 then NaN else signed_inf neg
     | (None, None) \<Rightarrow> signed_inf neg)"

definition num_div :: "jsnum \<Rightarrow> jsnum \<Rightarrow> jsnum" where
  "num_div a b = (let neg = (sign_bit a \<noteq> sign_bit b) in
     if a = NaN \<or> b = NaN then NaN
     else case (fin_val a, fin_val b) of
       (Some x, Some y) \<Rightarrow>
         if y = 0 then (if x = 0 then NaN else signed_inf neg) else round64 neg \<bar>x / y\<bar>
     | (Some x, None) \<Rightarrow> signed_zero neg
     | (None, Some y) \<Rightarrow> signed_inf neg
     | (None, None) \<Rightarrow> NaN)"

text \<open>\<open>%\<close> truncates: the result has the sign of the dividend and is exact.\<close>

definition num_rem :: "jsnum \<Rightarrow> jsnum \<Rightarrow> jsnum" where
  "num_rem a b = (if a = NaN \<or> b = NaN then NaN
     else case (fin_val a, fin_val b) of
       (None, _) \<Rightarrow> NaN
     | (Some x, None) \<Rightarrow> a
     | (Some x, Some y) \<Rightarrow>
         if y = 0 then NaN
         else let r = \<bar>x\<bar> - \<bar>y\<bar> * of_int \<lfloor>\<bar>x\<bar> / \<bar>y\<bar>\<rfloor> in
           if r = 0 then signed_zero (sign_bit a)
           else Fin (if sign_bit a then - r else r))"

definition signed_int :: "bool \<Rightarrow> int \<Rightarrow> jsnum" where
  "signed_int neg n = (if n = 0 then signed_zero neg else Fin (of_int n))"

fun num_floor :: "jsnum \<Rightarrow> jsnum" where
  "num_floor (Fin r) = signed_int (r < 0) \<lfloor>r\<rfloor>"
| "num_floor x = x"

fun num_ceil :: "jsnum \<Rightarrow> jsnum" where
  "num_ceil (Fin r) = signed_int (r < 0) \<lceil>r\<rceil>"
| "num_ceil x = x"

fun num_trunc :: "jsnum \<Rightarrow> jsnum" where
  "num_trunc (Fin r) = signed_int (r < 0) (if r < 0 then \<lceil>r\<rceil> else \<lfloor>r\<rfloor>)"
| "num_trunc x = x"

text \<open>\<open>Math.round\<close> rounds halves towards plus infinity and keeps the sign of a zero result.\<close>

fun num_round :: "jsnum \<Rightarrow> jsnum" where
  "num_round (Fin r) = signed_int (r < 0) \<lfloor>r + 1/2\<rfloor>"
| "num_round x = x"

section \<open>Comparison\<close>

fun num_eq :: "jsnum \<Rightarrow> jsnum \<Rightarrow> bool" where
  "num_eq NaN _ = False"
| "num_eq _ NaN = False"
| "num_eq NZero (Fin r) = (r = 0)"
| "num_eq (Fin r) NZero = (r = 0)"
| "num_eq a b = (a = b)"

fun num_lt :: "jsnum \<Rightarrow> jsnum \<Rightarrow> bool" where
  "num_lt NaN _ = False"
| "num_lt _ NaN = False"
| "num_lt NInf b = (b \<noteq> NInf)"
| "num_lt PInf b = False"
| "num_lt a PInf = True"
| "num_lt a NInf = False"
| "num_lt NZero NZero = False"
| "num_lt NZero (Fin b) = (0 < b)"
| "num_lt (Fin a) NZero = (a < 0)"
| "num_lt (Fin a) (Fin b) = (a < b)"

definition num_le :: "jsnum \<Rightarrow> jsnum \<Rightarrow> bool" where
  "num_le a b = (num_lt a b \<or> num_eq a b)"

definition num_max :: "jsnum \<Rightarrow> jsnum \<Rightarrow> jsnum" where
  "num_max a b = (if a = NaN \<or> b = NaN then NaN
     else if num_lt a b then b else if num_lt b a then a
     else if a = NZero then b else a)"

definition num_min :: "jsnum \<Rightarrow> jsnum \<Rightarrow> jsnum" where
  "num_min a b = (if a = NaN \<or> b = NaN then NaN
     else if num_lt a b then a else if num_lt b a then b
     else if b = NZero then b else a)"

definition num_of_int :: "int \<Rightarrow> jsnum" where
  "num_of_int n = round_rat (of_int n)"

section \<open>Number to string and back\<close>

fun digits_of :: "int \<Rightarrow> jstr" where
  "digits_of n = (if n < 10 then [48 + n] else digits_of (n div 10) @ [48 + n mod 10])"

declare digits_of.simps [simp del]

fun nlog10 :: "int \<Rightarrow> int" where
  "nlog10 n = (if n < 10 then 0 else 1 + nlog10 (n div 10))"

declare nlog10.simps [simp del]

definition pow10 :: "int \<Rightarrow> rat" where
  "pow10 k = (if 0 \<le> k then 10 ^ nat k else 1 / 10 ^ nat (- k))"

definition ilog10 :: "rat \<Rightarrow> int" where
  "ilog10 x = (case quotient_of x of (p, q) \<Rightarrow>
     let e = nlog10 p - nlog10 q in if pow10 e \<le> x then e else e - 1)"

text \<open>
  The shortest decimal \<open>s * 10^(n-k)\<close> with \<open>k\<close> digits that rounds to \<open>x\<close>; of two candidates of
  the same length the closer one.  The search starts with \<open>k\<close> digits and has \<open>fuel\<close> lengths left.
\<close>

definition dec_candidates :: "rat \<Rightarrow> int \<Rightarrow> nat \<Rightarrow> int list" where
  "dec_candidates x n k = (let y = x * pow10 (int k - n); f = \<lfloor>y\<rfloor> in
     if of_int f = y then [f]
     else if y - of_int f \<le> 1/2 then [f, f + 1] else [f + 1, f])"

definition reads_back :: "rat \<Rightarrow> int \<Rightarrow> nat \<Rightarrow> int \<Rightarrow> bool" where
  "reads_back x n k s = (s \<noteq> 0 \<and> round64 False (of_int s * pow10 (n - int k)) = Fin x)"

fun shortest :: "nat \<Rightarrow> rat \<Rightarrow> int \<Rightarrow> nat \<Rightarrow> int \<times> int \<times> nat" where
  "shortest 0 x n k = (\<lfloor>x * pow10 (int k - n)\<rfloor>, n, k)"
| "shortest (Suc fuel) x n k =
     (case filter (reads_back x n k) (dec_candidates x n k) of
        s # _ \<Rightarrow> if s = 10 ^ k then (1, n + 1, 1) else (s, n, k)
      | [] \<Rightarrow> shortest fuel x n (Suc k))"

definition shortest_digits :: "rat \<Rightarrow> int \<times> int \<times> nat" where
  "shortest_digits x = shortest 17 x (ilog10 x + 1) 1"

definition zeros :: "int \<Rightarrow> jstr" where
  "zeros n = replicate (nat n) 48"

text \<open>\<open>Number::toString\<close> of a positive finite number.\<close>

definition pos_to_string :: "rat \<Rightarrow> jstr" where
  "pos_to_string x = (case shortest_digits x of (s, n, k) \<Rightarrow>
     let ds = digits_of s; e = n - 1;
         es = (if e < 0 then chr (CHR ''-'') else chr (CHR ''+'')) # digits_of \<bar>e\<bar> in
     if int k \<le> n \<and> n \<le> 21 then ds @ zeros (n - int k)
     else if 0 < n \<and> n \<le> 21 then take (nat n) ds @ [46] @ drop (nat n) ds
     else if -6 < n \<and> n \<le> 0 then js ''0.'' @ zeros (- n) @ ds
     else if k = 1 then ds @ [101] @ es
     else take 1 ds @ [46] @ drop 1 ds @ [101] @ es)"

fun num_to_string :: "jsnum \<Rightarrow> jstr" where
  "num_to_string NaN = js ''NaN''"
| "num_to_string PInf = js ''Infinity''"
| "num_to_string NInf = js ''-Infinity''"
| "num_to_string NZero = js ''0''"
| "num_to_string (Fin r) = (if r = 0 then js ''0''
     else if r < 0 then 45 # pos_to_string (- r) else pos_to_string r)"

definition is_digit :: "cu \<Rightarrow> bool" where
  "is_digit c = (48 \<le> c \<and> c \<le> 57)"

fun digits_val :: "int \<Rightarrow> jstr \<Rightarrow> int" where
  "digits_val acc [] = acc"
| "digits_val acc (c # cs) = digits_val (10 * acc + (c - 48)) cs"

text \<open>The value of a decimal literal with integer digits \<open>i\<close> and fraction digits \<open>f\<close>.\<close>

definition decimal_val :: "bool \<Rightarrow> jstr \<Rightarrow> jstr \<Rightarrow> jsnum" where
  "decimal_val neg i f = round64 neg (of_int (digits_val 0 (i @ f)) * pow10 (- int (length f)))"

section \<open>Lemmas: powers and logarithms\<close>

lemma pow2_powi: "pow2 k = 2 powi k"
  by (simp add: pow2_def power_int_def power_inverse inverse_eq_divide power_one_over)

lemma pow2_pos [simp]: "0 < pow2 k"
  by (simp add: pow2_def)

lemma pow2_nonzero [simp]: "pow2 k \<noteq> 0"
  by (simp add: pow2_def)

lemma pow2_add: "pow2 (a + b) = pow2 a * pow2 b"
  by (simp add: pow2_powi power_int_add)

lemma pow2_diff: "pow2 (a - b) = pow2 a / pow2 b"
  by (simp add: pow2_powi power_int_diff)

lemma pow2_nat: "pow2 (int n) = 2 ^ n"
  by (simp add: pow2_def)

lemma pow2_less_iff [simp]: "pow2 a < pow2 b \<longleftrightarrow> a < b"
proof
  assume "a < b"
  then show "pow2 a < pow2 b" by (simp add: pow2_powi power_int_strict_increasing)
next
  assume l: "pow2 a < pow2 b"
  show "a < b"
  proof (rule ccontr)
    assume "\<not> a < b"
    then have "pow2 b \<le> pow2 a" by (simp add: pow2_powi power_int_increasing)
    with l show False by simp
  qed
qed

lemma pow2_le_iff [simp]: "pow2 a \<le> pow2 b \<longleftrightarrow> a \<le> b"
  by (simp add: not_less [symmetric])

lemma nlog2_bounds: "1 \<le> n \<Longrightarrow> 0 \<le> nlog2 n \<and> 2 ^ nat (nlog2 n) \<le> n \<and> n < 2 * 2 ^ nat (nlog2 n)"
proof (induction n rule: nlog2.induct)
  case (1 n)
  show ?case
  proof (cases "n < 2")
    case True
    with "1.prems" have "n = 1" by simp
    then show ?thesis by (simp add: nlog2.simps)
  next
    case False
    let ?m = "nlog2 (n div 2)"
    from False 1 have IH: "0 \<le> ?m" "2 ^ nat ?m \<le> n div 2" "n div 2 < 2 * 2 ^ nat ?m" by auto
    have eq: "nlog2 n = 1 + ?m" using False by (subst nlog2.simps) simp
    have p: "(2::int) ^ nat (1 + ?m) = 2 * 2 ^ nat ?m" using IH(1) by (simp add: nat_add_distrib)
    show ?thesis using IH unfolding eq p by linarith
  qed
qed

lemma ilog2_bounds:
  assumes "0 < x"
  shows "pow2 (ilog2 x) \<le> x \<and> x < pow2 (ilog2 x + 1)"
proof -
  obtain p q where pq: "quotient_of x = (p, q)" by fastforce
  have q: "0 < q" using pq by (rule quotient_of_denom_pos)
  have x: "x = of_int p / of_int q" using pq by (rule quotient_of_div)
  with assms q have p: "0 < p" by (simp add: zero_less_divide_iff)
  let ?a = "nlog2 p" and ?b = "nlog2 q"
  have a: "0 \<le> ?a" "2 ^ nat ?a \<le> p" "p < 2 * 2 ^ nat ?a" using nlog2_bounds [of p] p by auto
  have b: "0 \<le> ?b" "2 ^ nat ?b \<le> q" "q < 2 * 2 ^ nat ?b" using nlog2_bounds [of q] q by auto
  have pa: "pow2 ?a = of_int (2 ^ nat ?a)" "pow2 ?b = of_int (2 ^ nat ?b)"
    using a(1) b(1) by (simp_all add: pow2_def)
  have p_lo: "pow2 ?a \<le> of_int p" using a(2) unfolding pa by (simp only: of_int_le_iff)
  have p_hi: "of_int p < 2 * pow2 ?a" using a(3) unfolding pa by (metis of_int_less_iff of_int_mult of_int_numeral)
  have q_lo: "pow2 ?b \<le> of_int q" using b(2) unfolding pa by (simp only: of_int_le_iff)
  have q_hi: "of_int q < 2 * pow2 ?b" using b(3) unfolding pa by (metis of_int_less_iff of_int_mult of_int_numeral)
  have two: "pow2 1 = 2" by (simp add: pow2_def)
  have up: "x < pow2 (?a - ?b + 1)"
  proof -
    have "of_int p * pow2 ?b < 2 * pow2 ?a * pow2 ?b" using p_hi by simp
    also have "\<dots> \<le> 2 * pow2 ?a * of_int q" using q_lo by simp
    finally have "of_int p * pow2 ?b < 2 * pow2 ?a * of_int q" .
    then show ?thesis using q unfolding x by (simp add: pow2_add pow2_diff two field_simps)
  qed
  have lo: "pow2 (?a - ?b - 1) \<le> x"
  proof -
    have "pow2 ?a * of_int q \<le> of_int p * (2 * pow2 ?b)"
      using p_lo q_hi q p by (intro mult_mono) auto
    then show ?thesis using q unfolding x by (simp add: pow2_diff pow2_add two field_simps)
  qed
  show ?thesis
    using up lo by (auto simp: ilog2_def pq Let_def not_le)
qed

lemma ilog2_unique:
  assumes "pow2 e \<le> x" "x < pow2 (e + 1)"
  shows "ilog2 x = e"
proof -
  have x: "0 < x" using assms(1) pow2_pos [of e] by linarith
  from ilog2_bounds [OF x] assms have "pow2 e < pow2 (ilog2 x + 1)" "pow2 (ilog2 x) < pow2 (e + 1)"
    by linarith+
  then show ?thesis by simp
qed

lemma ilog2_mono: "0 < x \<Longrightarrow> x \<le> y \<Longrightarrow> ilog2 x \<le> ilog2 y"
proof -
  assume "0 < x" "x \<le> y"
  with ilog2_bounds [of x] ilog2_bounds [of y] have "pow2 (ilog2 x) < pow2 (ilog2 y + 1)" by linarith
  then show ?thesis by simp
qed

section \<open>Lemmas: rounding\<close>

lemma round_half_even_int [simp]: "round_half_even (of_int n) = n"
  by (simp add: round_half_even_def)

lemma round_half_even_near: "\<bar>of_int (round_half_even x) - x\<bar> \<le> 1/2"
proof -
  have "of_int \<lfloor>x\<rfloor> \<le> x" "x < of_int \<lfloor>x\<rfloor> + 1" by linarith+
  then show ?thesis
    by (simp add: round_half_even_def Let_def abs_le_iff)
qed

lemma round_half_even_ge: "of_int a \<le> x \<Longrightarrow> a \<le> round_half_even x"
proof -
  assume "of_int a \<le> x"
  then have "a \<le> \<lfloor>x\<rfloor>" by (simp add: le_floor_iff)
  then show ?thesis by (auto simp: round_half_even_def Let_def)
qed

lemma round_half_even_le: "x \<le> of_int a \<Longrightarrow> round_half_even x \<le> a"
proof -
  assume x: "x \<le> of_int a"
  show ?thesis
  proof (cases "x = of_int a")
    case True
    then show ?thesis by simp
  next
    case False
    with x have "\<lfloor>x\<rfloor> < a" by (simp add: floor_less_iff)
    then show ?thesis by (auto simp: round_half_even_def Let_def)
  qed
qed

text \<open>
  A positive rational is a double when it is a multiple of its unit in the last place and not
  too large.
\<close>

definition is_double :: "rat \<Rightarrow> bool" where
  "is_double r = (r = 0 \<or> (\<bar>r\<bar> / ulp \<bar>r\<bar> \<in> \<int> \<and> ilog2 \<bar>r\<bar> < 1024))"

fun valid_num :: "jsnum \<Rightarrow> bool" where
  "valid_num (Fin r) = is_double r"
| "valid_num _ = True"

lemma ulp_pos [simp]: "0 < ulp x"
  by (simp add: ulp_def)

lemma ulp_nonzero [simp]: "ulp x \<noteq> 0"
  by (simp add: ulp_def)

lemma round64_exact:
  assumes "0 < x" "is_double x"
  shows "round64 neg x = Fin (if neg then - x else x)"
proof -
  from assms have i: "x / ulp x \<in> \<int>" and e: "ilog2 x < 1024" by (auto simp: is_double_def)
  from i obtain n where n: "x / ulp x = of_int n" by (auto elim: Ints_cases)
  have "of_int (round_half_even (x / ulp x)) * ulp x = x"
    unfolding n round_half_even_int by (simp add: n [symmetric])
  with assms(1) e show ?thesis by (simp add: round64_def)
qed

lemma round_rat_exact: "is_double r \<Longrightarrow> round_rat r = Fin r"
proof (cases "r = 0")
  case True
  then show ?thesis by (simp add: round_rat_def round64_def signed_zero_def)
next
  case False
  assume "is_double r"
  then have "is_double \<bar>r\<bar>" by (simp add: is_double_def)
  with False show ?thesis by (auto simp: round_rat_def round64_exact)
qed

lemma ulp_mono_dvd:
  assumes "0 < x" "x \<le> y"
  shows "ulp y / ulp x \<in> \<int>"
proof -
  have "ilog2 x \<le> ilog2 y" using assms by (rule ilog2_mono)
  then have "0 \<le> max (ilog2 y - 52) (-1074) - max (ilog2 x - 52) (-1074)" by linarith
  then obtain n where "max (ilog2 y - 52) (-1074) - max (ilog2 x - 52) (-1074) = int n"
    using nonneg_int_cases by blast
  then show ?thesis by (metis pow2_diff pow2_nat ulp_def Ints_numeral Ints_power)
qed

text \<open>
  What rounding produces is again a double: below the exponent range it is a multiple of the
  smallest unit; otherwise the significand stays between \<open>2^52\<close> and \<open>2^53\<close>, and when it reaches
  the upper end the result is a power of two.
\<close>

lemma pow2_multiple_ulp:
  assumes "-1074 \<le> k"
  shows "pow2 k / ulp (pow2 k) \<in> \<int>"
proof -
  have "ilog2 (pow2 k) = k" by (rule ilog2_unique) auto
  then have "pow2 k / ulp (pow2 k) = pow2 (k - max (k - 52) (-1074))" by (simp add: ulp_def pow2_diff)
  moreover from assms obtain n where "k - max (k - 52) (-1074) = int n"
    by (metis diff_ge_0_iff_ge max.bounded_iff nonneg_int_cases diff_le_eq le_add_same_cancel1 zero_le_numeral)
  ultimately show ?thesis by (metis pow2_nat Ints_numeral Ints_power)
qed

lemma round_in_binade:
  assumes x: "0 < x"
  defines "v \<equiv> of_int (round_half_even (x / ulp x)) * ulp x"
  shows "v \<noteq> 0 \<Longrightarrow> 0 < v \<and> v / ulp v \<in> \<int>"
proof -
  assume v: "v \<noteq> 0"
  let ?e = "max (ilog2 x - 52) (-1074)"
  let ?n = "round_half_even (x / ulp x)"
  have u: "ulp x = pow2 ?e" by (simp add: ulp_def)
  have "0 \<le> x / ulp x" using x by (simp add: less_imp_le)
  then have "0 \<le> ?n" by (intro round_half_even_ge) simp
  with v have n: "1 \<le> ?n" by (cases "?n = 0") (auto simp: v_def)
  then have pos: "0 < v" by (auto simp: v_def)
  have top: "x < pow2 (?e + 53)"
  proof -
    have "x < pow2 (ilog2 x + 1)" using ilog2_bounds [OF x] by simp
    also have "\<dots> \<le> pow2 (?e + 53)" by simp
    finally show ?thesis .
  qed
  have nle: "?n \<le> 2 ^ 53"
  proof (rule round_half_even_le)
    have "pow2 53 = 2 ^ 53" by (simp add: pow2_def)
    with top show "x / ulp x \<le> of_int (2 ^ 53)" unfolding u by (simp add: pow2_add field_simps)
  qed
  show ?thesis
  proof (cases "?n = 2 ^ 53")
    case True
    then have "v = pow2 (?e + 53)" unfolding v_def u by (simp add: pow2_add pow2_def [of 53])
    moreover have "pow2 (?e + 53) / ulp (pow2 (?e + 53)) \<in> \<int>" by (rule pow2_multiple_ulp) simp
    ultimately show ?thesis using pos by simp
  next
    case False
    have "(of_int ?n :: rat) < of_int (2 ^ 53)" using nle False by (simp only: of_int_less_iff)
    then have "of_int ?n < pow2 53" by (simp add: pow2_def)
    then have lt: "v < pow2 (?e + 53)" unfolding v_def u by (simp add: pow2_add)
    have "pow2 (ilog2 v) < pow2 (?e + 53)" using ilog2_bounds [OF pos] lt by linarith
    then have "ilog2 v - 52 \<le> ?e" by simp
    then have "max (ilog2 v - 52) (-1074) \<le> ?e" by simp
    then obtain d where d: "?e - max (ilog2 v - 52) (-1074) = int d"
      using nonneg_int_cases by (metis diff_ge_0_iff_ge)
    have "v / ulp v = of_int ?n * pow2 (?e - max (ilog2 v - 52) (-1074))"
      by (simp add: v_def u ulp_def pow2_diff)
    also have "\<dots> = of_int (?n * 2 ^ d)" by (simp add: d pow2_nat)
    finally show ?thesis using pos by simp
  qed
qed

lemma round64_valid: "0 \<le> x \<Longrightarrow> valid_num (round64 neg x)"
proof (cases "x = 0")
  case True
  then show ?thesis by (simp add: round64_def signed_zero_def is_double_def)
next
  case False
  assume "0 \<le> x"
  with False have "0 < x" by simp
  from round_in_binade [OF this] show ?thesis
    by (auto simp: round64_def Let_def signed_zero_def signed_inf_def is_double_def)
qed

lemma round_rat_valid [simp]: "valid_num (round_rat r)"
  by (simp add: round_rat_def round64_valid)

text \<open>Integers up to \<open>2^53\<close> are doubles, so integer arithmetic in that range is exact.\<close>

lemma is_double_int:
  assumes "\<bar>n\<bar> \<le> 2 ^ 53"
  shows "is_double (of_int n)"
proof (cases "n = 0")
  case False
  let ?x = "of_int \<bar>n\<bar> :: rat"
  have x: "0 < ?x" using False by simp
  have "\<bar>n\<bar> \<le> 2 ^ 53" by fact
  show ?thesis
  proof (cases "\<bar>n\<bar> = 2 ^ 53")
    case True
    then have "?x = pow2 53" by (simp add: pow2_def)
    moreover have "ilog2 (pow2 53) = 53" by (rule ilog2_unique) auto
    ultimately show ?thesis using pow2_multiple_ulp [of 53] by (simp add: is_double_def)
  next
    case F: False
    with assms have "?x < of_int (2 ^ 53)" by (simp only: of_int_less_iff)
    then have "?x < pow2 53" by (simp add: pow2_def)
    moreover have l: "pow2 (ilog2 ?x) \<le> ?x" using ilog2_bounds [OF x] by simp
    ultimately have "pow2 (ilog2 ?x) < pow2 53" by linarith
    then have e: "ilog2 ?x \<le> 52" by simp
    then have "max (ilog2 ?x - 52) (-1074) \<le> 0" by simp
    then obtain d where "0 - max (ilog2 ?x - 52) (-1074) = int d"
      using nonneg_int_cases by (metis diff_ge_0_iff_ge)
    then have "pow2 0 / ulp ?x = 2 ^ d" unfolding ulp_def pow2_diff [symmetric] by (simp only: pow2_nat)
    then have "?x / ulp ?x = of_int (\<bar>n\<bar> * 2 ^ d)" by (simp add: pow2_def field_simps)
    then have "?x / ulp ?x \<in> \<int>" by simp
    with e show ?thesis by (simp add: is_double_def)
  qed
qed (simp add: is_double_def)

lemma num_of_int_exact: "\<bar>n\<bar> \<le> 2 ^ 53 \<Longrightarrow> num_of_int n = Fin (of_int n)"
  by (simp add: num_of_int_def round_rat_exact is_double_int)

end
