(* ===== verification/JsValues.thy ===== *)
theory JsValues
  imports JsNum "HOL-Library.Word"
begin

text \<open>
  Page values and their conversions to numbers, strings and booleans, as the language defines them.
  What an object answers (its conversions, its properties, whether it can be called) is page code,
  and comes as a parameter.
\<close>

unbundle bit_operations_syntax

datatype jsval = Undef | Null | Bool bool | Num jsnum | Str jstr | Obj nat

text \<open>The answers of objects: \<open>Number(o)\<close>, \<open>String(o)\<close>, \<open>o[key]\<close>, \<open>typeof o === 'function'\<close>.\<close>

record objs =
  obj_num :: "nat \<Rightarrow> jsnum res"
  obj_str :: "nat \<Rightarrow> jstr res"
  obj_get :: "nat \<Rightarrow> jstr \<Rightarrow> jsval res"
  obj_callable :: "nat \<Rightarrow> bool"

section \<open>Strings to numbers\<close>

definition js_space :: "cu \<Rightarrow> bool" where
  "js_space c = (c \<in> {9, 10, 11, 12, 13, 32, 160, 5760, 8232, 8233, 8239, 8287, 12288, 65279} \<or> (8192 \<le> c \<and> c \<le> 8202))"

definition js_trim :: "jstr \<Rightarrow> jstr" where
  "js_trim s = rev (dropWhile js_space (rev (dropWhile js_space s)))"

definition digit_of :: "cu \<Rightarrow> int" where
  "digit_of c = (if 48 \<le> c \<and> c \<le> 57 then c - 48 else if 97 \<le> c \<and> c \<le> 122 then c - 87 else if 65 \<le> c \<and> c \<le> 90 then c - 55 else 36)"

fun radix_val :: "int \<Rightarrow> int \<Rightarrow> jstr \<Rightarrow> int" where
  "radix_val r acc [] = acc"
| "radix_val r acc (c # cs) = radix_val r (r * acc + digit_of c) cs"

definition radix_literal :: "int \<Rightarrow> jstr \<Rightarrow> jsnum" where
  "radix_literal r ds = (if ds \<noteq> [] \<and> list_all (\<lambda>c. digit_of c < r) ds then round_rat (of_int (radix_val r 0 ds)) else NaN)"

text \<open>The exponent part of a decimal literal: nothing, or \<open>e\<close> with an optional sign and digits.\<close>

definition exponent_of :: "jstr \<Rightarrow> int option" where
  "exponent_of s = (case s of
     [] \<Rightarrow> Some 0
   | c # r \<Rightarrow>
       if c \<noteq> 101 \<and> c \<noteq> 69 then None
       else let neg = (r \<noteq> [] \<and> hd r = 45); ds = (if r \<noteq> [] \<and> (hd r = 45 \<or> hd r = 43) then tl r else r) in
         if ds \<noteq> [] \<and> list_all is_digit ds then Some (if neg then - digits_val 0 ds else digits_val 0 ds) else None)"

definition decimal_literal :: "bool \<Rightarrow> jstr \<Rightarrow> jsnum" where
  "decimal_literal neg s =
     (let i = takeWhile is_digit s; r = dropWhile is_digit s;
          point = (r \<noteq> [] \<and> hd r = 46);
          f = (if point then takeWhile is_digit (tl r) else []);
          r' = (if point then dropWhile is_digit (tl r) else r) in
      if i = [] \<and> f = [] then NaN
      else case exponent_of r' of
        None \<Rightarrow> NaN
      | Some e \<Rightarrow> round64 neg (of_int (digits_val 0 (i @ f)) * pow10 (e - int (length f))))"

definition signed_literal :: "bool \<Rightarrow> jstr \<Rightarrow> jsnum" where
  "signed_literal neg s = (if s = js ''Infinity'' then signed_inf neg else decimal_literal neg s)"

definition string_to_number :: "jstr \<Rightarrow> jsnum" where
  "string_to_number s = (case js_trim s of
     [] \<Rightarrow> Fin 0
   | c # r \<Rightarrow>
       if c = 48 \<and> r \<noteq> [] \<and> (hd r = 120 \<or> hd r = 88) then radix_literal 16 (tl r)
       else if c = 48 \<and> r \<noteq> [] \<and> (hd r = 111 \<or> hd r = 79) then radix_literal 8 (tl r)
       else if c = 48 \<and> r \<noteq> [] \<and> (hd r = 98 \<or> hd r = 66) then radix_literal 2 (tl r)
       else if c = 45 then signed_literal True r
       else if c = 43 then signed_literal False r
       else signed_literal False (c # r))"

section \<open>Conversions\<close>

definition to_number :: "objs \<Rightarrow> jsval \<Rightarrow> jsnum res" where
  "to_number po v = (case v of
     Undef \<Rightarrow> Inr NaN
   | Null \<Rightarrow> Inr (Fin 0)
   | Bool b \<Rightarrow> Inr (Fin (if b then 1 else 0))
   | Num n \<Rightarrow> Inr n
   | Str s \<Rightarrow> Inr (string_to_number s)
   | Obj i \<Rightarrow> obj_num po i)"

definition to_jstring :: "objs \<Rightarrow> jsval \<Rightarrow> jstr res" where
  "to_jstring po v = (case v of
     Undef \<Rightarrow> Inr (js ''undefined'')
   | Null \<Rightarrow> Inr (js ''null'')
   | Bool b \<Rightarrow> Inr (if b then js ''true'' else js ''false'')
   | Num n \<Rightarrow> Inr (num_to_string n)
   | Str s \<Rightarrow> Inr s
   | Obj i \<Rightarrow> obj_str po i)"

definition truthy :: "jsval \<Rightarrow> bool" where
  "truthy v = (case v of
     Undef \<Rightarrow> False | Null \<Rightarrow> False | Bool b \<Rightarrow> b
   | Num n \<Rightarrow> n \<noteq> NaN \<and> n \<noteq> NZero \<and> n \<noteq> Fin 0
   | Str s \<Rightarrow> s \<noteq> []
   | Obj i \<Rightarrow> True)"

definition nullish :: "jsval \<Rightarrow> bool" where
  "nullish v = (v = Undef \<or> v = Null)"

text \<open>
  \<open>ToInt32\<close> and its relatives: the integer part modulo a power of two, as a machine word;
  NaN and the infinities give zero.
\<close>

definition num_int :: "jsnum \<Rightarrow> int" where
  "num_int n = (case fin_val n of None \<Rightarrow> 0 | Some r \<Rightarrow> if r < 0 then \<lceil>r\<rceil> else \<lfloor>r\<rfloor>)"

definition to_word32 :: "jsnum \<Rightarrow> 32 word" where
  "to_word32 n = word_of_int (num_int n)"

definition to_int32 :: "jsnum \<Rightarrow> int" where
  "to_int32 n = sint (to_word32 n)"

definition to_uint32 :: "jsnum \<Rightarrow> int" where
  "to_uint32 n = uint (to_word32 n)"

text \<open>\<open>(n << 16) >> 16\<close> and \<open>n & 0xffff\<close>.\<close>

definition to_int16 :: "jsnum \<Rightarrow> int" where
  "to_int16 n = sint (signed_drop_bit 16 (push_bit 16 (to_word32 n)))"

definition to_uint16 :: "jsnum \<Rightarrow> int" where
  "to_uint16 n = uint (to_word32 n AND 0xffff)"

lemma to_int32_range: "- (2 ^ 31) \<le> to_int32 n \<and> to_int32 n < 2 ^ 31"
  using sint_range_size [of "to_word32 n"] by (simp add: to_int32_def word_size)

lemma to_uint32_range: "0 \<le> to_uint32 n \<and> to_uint32 n < 2 ^ 32"
  using uint_lt2p [of "to_word32 n"] by (simp add: to_uint32_def)

lemma to_int16_range: "- 32768 \<le> to_int16 n \<and> to_int16 n < 32768"
proof -
  let ?w = "push_bit 16 (to_word32 n)"
  have "- (2 ^ 31) \<le> sint ?w" "sint ?w < 2 ^ 31" using sint_range_size [of ?w] by (auto simp: word_size)
  then have "- 32768 \<le> sint ?w div 2 ^ 16" "sint ?w div 2 ^ 16 < 32768" by auto
  then show ?thesis by (simp add: to_int16_def sint_signed_drop_bit_eq drop_bit_eq_div)
qed

lemma to_uint16_range: "0 \<le> to_uint16 n \<and> to_uint16 n < 65536"
proof -
  have "uint (to_word32 n AND 0xffff) = uint (to_word32 n) AND 0xffff" by (simp add: uint_and)
  moreover have "uint (to_word32 n) AND 0xffff \<le> 0xffff" by (rule AND_upper2) simp
  ultimately show ?thesis by (simp add: to_uint16_def)
qed

end
