(* ===== verification/KeyOrder.thy ===== *)
theory KeyOrder
  imports JsPrelude
begin

text \<open>
  The interface between code that compares (keys, rows, document positions) and code that relies
  on the comparison being an order: sorted rows and binary search.  A comparator returns -1, 0 or
  1; it is a total preorder on the valid elements.
\<close>

locale comparator =
  fixes cmp :: "'k \<Rightarrow> 'k \<Rightarrow> int"
    and valid :: "'k \<Rightarrow> bool"
  assumes cmp_self: "valid a \<Longrightarrow> cmp a a = 0"
    and cmp_flip: "valid a \<Longrightarrow> valid b \<Longrightarrow> cmp b a = - cmp a b"
    and cmp_le_trans: "valid a \<Longrightarrow> valid b \<Longrightarrow> valid c \<Longrightarrow> cmp a b \<le> 0 \<Longrightarrow> cmp b c \<le> 0 \<Longrightarrow> cmp a c \<le> 0"
begin

lemma lt_le_trans:
  assumes "valid a" "valid b" "valid c" "cmp a b < 0" "cmp b c \<le> 0"
  shows "cmp a c < 0"
proof (rule ccontr)
  assume "\<not> cmp a c < 0"
  with assms have "cmp c a \<le> 0" by (simp add: cmp_flip [of a c])
  with assms have "cmp b a \<le> 0" using cmp_le_trans [of b c a] by blast
  with assms show False by (simp add: cmp_flip [of a b])
qed

lemma le_lt_trans:
  assumes "valid a" "valid b" "valid c" "cmp a b \<le> 0" "cmp b c < 0"
  shows "cmp a c < 0"
proof (rule ccontr)
  assume "\<not> cmp a c < 0"
  with assms have "cmp c a \<le> 0" by (simp add: cmp_flip [of a c])
  with assms have "cmp c b \<le> 0" using cmp_le_trans [of c a b] by blast
  with assms show False by (simp add: cmp_flip [of b c])
qed

lemma eq_trans:
  assumes "valid a" "valid b" "valid c" "cmp a b = 0" "cmp b c = 0"
  shows "cmp a c = 0"
proof -
  have "cmp a c \<le> 0" using assms cmp_le_trans [of a b c] by simp
  moreover have "cmp c a \<le> 0" using assms cmp_le_trans [of c b a] by (simp add: cmp_flip [of a b] cmp_flip [of b c])
  ultimately show ?thesis using assms by (simp add: cmp_flip [of a c])
qed

lemma eq_sym: "valid a \<Longrightarrow> valid b \<Longrightarrow> cmp a b = 0 \<Longrightarrow> cmp b a = 0"
  using cmp_flip [of a b] by simp

lemma eq_cong_left:
  assumes "valid a" "valid b" "valid c" "cmp a b = 0"
  shows "(cmp a c < 0 \<longleftrightarrow> cmp b c < 0) \<and> (cmp a c \<le> 0 \<longleftrightarrow> cmp b c \<le> 0)"
proof -
  have ba: "cmp b a = 0" using assms by (simp add: eq_sym)
  show ?thesis
    using assms ba le_lt_trans [of a b c] le_lt_trans [of b a c]
      cmp_le_trans [of a b c] cmp_le_trans [of b a c] by auto
qed

text \<open>Rows sorted by the order: a probe splits them at one index.\<close>

lemma sorted_probe_lt:
  assumes "sorted_wrt (\<lambda>a b. cmp a b \<le> 0) xs" "\<forall>x \<in> set xs. valid x" "valid k"
  shows "mono_on_list (\<lambda>x. cmp x k < 0) xs"
  unfolding mono_on_list_def
proof (intro allI impI)
  fix i j assume ij: "i \<le> j" "j < length xs" and lt: "cmp (xs ! j) k < 0"
  show "cmp (xs ! i) k < 0"
  proof (cases "i = j")
    case False
    with ij assms have "cmp (xs ! i) (xs ! j) \<le> 0" by (auto simp: sorted_wrt_iff_nth_less)
    with ij assms lt show ?thesis by (intro le_lt_trans [of "xs ! i" "xs ! j" k]) auto
  qed (use lt in simp)
qed

lemma sorted_probe_le:
  assumes "sorted_wrt (\<lambda>a b. cmp a b \<le> 0) xs" "\<forall>x \<in> set xs. valid x" "valid k"
  shows "mono_on_list (\<lambda>x. cmp x k \<le> 0) xs"
  unfolding mono_on_list_def
proof (intro allI impI)
  fix i j assume ij: "i \<le> j" "j < length xs" and lt: "cmp (xs ! j) k \<le> 0"
  show "cmp (xs ! i) k \<le> 0"
  proof (cases "i = j")
    case False
    with ij assms have "cmp (xs ! i) (xs ! j) \<le> 0" by (auto simp: sorted_wrt_iff_nth_less)
    with ij assms lt show ?thesis by (intro cmp_le_trans [of "xs ! i" "xs ! j" k]) auto
  qed (use lt in simp)
qed

end

text \<open>
  Lexicographic comparison of lists by a comparator of the elements, as the array and binary keys
  compare: the first difference decides, then the length.
\<close>

fun lex_cmp :: "('a \<Rightarrow> 'a \<Rightarrow> int) \<Rightarrow> 'a list \<Rightarrow> 'a list \<Rightarrow> int" where
  "lex_cmp cmp (x # xs) (y # ys) = (let c = cmp x y in if c \<noteq> 0 then c else lex_cmp cmp xs ys)"
| "lex_cmp cmp [] [] = 0"
| "lex_cmp cmp (x # xs) [] = 1"
| "lex_cmp cmp [] (y # ys) = -1"

text \<open>The laws an element obeys against all valid elements; they lift to lists of such elements.\<close>

definition cmp_laws_at :: "('a \<Rightarrow> 'a \<Rightarrow> int) \<Rightarrow> ('a \<Rightarrow> bool) \<Rightarrow> 'a \<Rightarrow> bool" where
  "cmp_laws_at cmp valid a = (valid a \<longrightarrow> cmp a a = 0 \<and>
     (\<forall>b. valid b \<longrightarrow> cmp b a = - cmp a b \<and>
        (\<forall>c. valid c \<longrightarrow> cmp a b \<le> 0 \<longrightarrow> cmp b c \<le> 0 \<longrightarrow>
           cmp a c \<le> 0 \<and> (cmp a b < 0 \<or> cmp b c < 0 \<longrightarrow> cmp a c < 0))))"

lemma cmp_laws_atD:
  assumes "cmp_laws_at cmp valid a" "valid a"
  shows "cmp a a = 0"
    and "valid b \<Longrightarrow> cmp b a = - cmp a b"
    and "valid b \<Longrightarrow> valid c \<Longrightarrow> cmp a b \<le> 0 \<Longrightarrow> cmp b c \<le> 0 \<Longrightarrow> cmp a c \<le> 0"
    and "valid b \<Longrightarrow> valid c \<Longrightarrow> cmp a b \<le> 0 \<Longrightarrow> cmp b c \<le> 0 \<Longrightarrow> cmp a b < 0 \<or> cmp b c < 0 \<Longrightarrow> cmp a c < 0"
  using assms unfolding cmp_laws_at_def by blast+

lemma comparator_of_laws:
  assumes "\<And>a. cmp_laws_at cmp valid a"
  shows "comparator cmp valid"
proof
  show "cmp a a = 0" if "valid a" for a
    using that by (rule cmp_laws_atD(1) [OF assms])
  show "cmp b a = - cmp a b" if "valid a" "valid b" for a b
    using that by (rule cmp_laws_atD(2) [OF assms])
  show "cmp a c \<le> 0" if "valid a" "valid b" "valid c" "cmp a b \<le> 0" "cmp b c \<le> 0" for a b c
    using that by (rule cmp_laws_atD(3) [OF assms])
qed

lemma comparator_laws_at:
  assumes "comparator cmp valid"
  shows "cmp_laws_at cmp valid a"
  unfolding cmp_laws_at_def
proof (intro impI allI conjI)
  assume a: "valid a"
  show "cmp a a = 0" using a by (rule comparator.cmp_self [OF assms])
  fix b assume b: "valid b"
  show "cmp b a = - cmp a b" using a b by (rule comparator.cmp_flip [OF assms])
  fix c assume c: "valid c" and le: "cmp a b \<le> 0" "cmp b c \<le> 0"
  show "cmp a c \<le> 0" using a b c le by (rule comparator.cmp_le_trans [OF assms])
  assume "cmp a b < 0 \<or> cmp b c < 0"
  then show "cmp a c < 0"
    using comparator.lt_le_trans [OF assms a b c _ le(2)] comparator.le_lt_trans [OF assms a b c le(1)] by blast
qed

lemma lex_flip:
  assumes "\<forall>x \<in> set xs. cmp_laws_at cmp valid x" "list_all valid xs" "list_all valid ys"
  shows "lex_cmp cmp ys xs = - lex_cmp cmp xs ys"
  using assms
proof (induction cmp xs ys rule: lex_cmp.induct)
  case (1 cmp x xs y ys)
  then have f: "cmp y x = - cmp x y" by (intro cmp_laws_atD(2) [of cmp valid]) auto
  show ?case
  proof (cases "cmp x y = 0")
    case True
    with 1 have "lex_cmp cmp ys xs = - lex_cmp cmp xs ys" by (intro "1.IH") auto
    with True f show ?thesis by (simp add: Let_def)
  qed (simp add: f Let_def)
qed auto

lemma lex_self:
  assumes "\<forall>x \<in> set xs. cmp_laws_at cmp valid x" "list_all valid xs"
  shows "lex_cmp cmp xs xs = 0"
  using assms
proof (induction xs)
  case (Cons x xs)
  then have "cmp x x = 0" by (intro cmp_laws_atD(1) [of cmp valid]) auto
  with Cons show ?case by (simp add: Let_def)
qed simp

lemma lex_trans:
  assumes "\<forall>x \<in> set xs. cmp_laws_at cmp valid x" "list_all valid xs" "list_all valid ys" "list_all valid zs"
    and "lex_cmp cmp xs ys \<le> 0" "lex_cmp cmp ys zs \<le> 0"
  shows "lex_cmp cmp xs zs \<le> 0 \<and> (lex_cmp cmp xs ys < 0 \<or> lex_cmp cmp ys zs < 0 \<longrightarrow> lex_cmp cmp xs zs < 0)"
  using assms
proof (induction xs arbitrary: ys zs)
  case Nil
  then show ?case by (cases ys; cases zs) auto
next
  case (Cons x xs)
  from Cons.prems obtain y ys' where ys: "ys = y # ys'" by (cases ys) auto
  from Cons.prems ys obtain z zs' where zs: "zs = z # zs'" by (cases zs) auto
  have v: "valid x" "valid y" "valid z" and at: "cmp_laws_at cmp valid x"
    using Cons.prems ys zs by auto
  have le: "cmp x y \<le> 0" "cmp y z \<le> 0"
    using Cons.prems(5,6) ys zs by (auto simp: Let_def split: if_splits)
  note D = cmp_laws_atD [OF at v(1)]
  show ?case
  proof (cases "cmp x y = 0 \<and> cmp y z = 0")
    case True
    have xz: "cmp x z \<le> 0" using D(3) [OF v(2,3) le] .
    show ?thesis
    proof (cases "cmp x z = 0")
      case z: True
      have IH: "lex_cmp cmp xs zs' \<le> 0 \<and>
          (lex_cmp cmp xs ys' < 0 \<or> lex_cmp cmp ys' zs' < 0 \<longrightarrow> lex_cmp cmp xs zs' < 0)"
        using Cons.prems True ys zs by (intro Cons.IH) (auto simp: Let_def)
      with True z ys zs show ?thesis by (simp add: Let_def)
    next
      case False
      with xz have "lex_cmp cmp (x # xs) zs < 0" using zs by (simp add: Let_def)
      then show ?thesis by simp
    qed
  next
    case False
    with le have "cmp x y < 0 \<or> cmp y z < 0" by linarith
    with D(4) [OF v(2,3) le] have "cmp x z < 0" by blast
    then have "lex_cmp cmp (x # xs) zs < 0" using zs by (simp add: Let_def)
    then show ?thesis by simp
  qed
qed

lemma lex_laws_at:
  assumes "\<forall>x \<in> set xs. cmp_laws_at cmp valid x"
  shows "cmp_laws_at (lex_cmp cmp) (list_all valid) xs"
  unfolding cmp_laws_at_def
  using lex_self [OF assms] lex_flip [OF assms] lex_trans [OF assms] by blast

section \<open>Binary search\<close>

text \<open>
  The loop shared by \<open>lowerIdx\<close> and \<open>upperIdx\<close>: \<open>below i\<close> says that the row at \<open>i\<close> is still
  before the answer.
\<close>

function bsearch :: "(nat \<Rightarrow> bool) \<Rightarrow> nat \<Rightarrow> nat \<Rightarrow> nat" where
  "bsearch below lo hi =
     (if lo < hi then
        (if below ((lo + hi) div 2) then bsearch below ((lo + hi) div 2 + 1) hi
         else bsearch below lo ((lo + hi) div 2))
      else lo)"
  by pat_completeness auto
termination
  by (relation "measure (\<lambda>(below, lo, hi). hi - lo)") auto

declare bsearch.simps [simp del]

lemma bsearch_split:
  assumes "lo \<le> k" "k \<le> hi" "\<And>i. lo \<le> i \<Longrightarrow> i < hi \<Longrightarrow> below i \<longleftrightarrow> i < k"
  shows "bsearch below lo hi = k"
  using assms
proof (induction below lo hi rule: bsearch.induct)
  case (1 below lo hi)
  show ?case
  proof (cases "lo < hi")
    case True
    then have mid: "lo \<le> (lo + hi) div 2" "(lo + hi) div 2 < hi" by auto
    show ?thesis
    proof (cases "below ((lo + hi) div 2)")
      case b: True
      with mid "1.prems" have "(lo + hi) div 2 < k" by blast
      then have "bsearch below ((lo + hi) div 2 + 1) hi = k"
        using "1.prems" mid by (intro "1.IH"(1) [OF True b]) auto
      with True b show ?thesis by (simp add: bsearch.simps [of below lo hi])
    next
      case b: False
      with mid "1.prems" have "k \<le> (lo + hi) div 2" by (meson not_less)
      then have "bsearch below lo ((lo + hi) div 2) = k"
        using "1.prems" mid by (intro "1.IH"(2) [OF True b]) auto
      with True b show ?thesis by (simp add: bsearch.simps [of below lo hi])
    qed
  next
    case False
    with "1.prems" show ?thesis by (simp add: bsearch.simps [of below lo hi])
  qed
qed

text \<open>On a list where the predicate holds on a prefix, the search returns the length of the prefix.\<close>

lemma bsearch_list:
  assumes "mono_on_list P xs"
  defines "k \<equiv> bsearch (\<lambda>i. P (xs ! i)) 0 (length xs)"
  shows "k \<le> length xs" "\<And>i. i < length xs \<Longrightarrow> P (xs ! i) \<longleftrightarrow> i < k"
proof -
  obtain m where m: "m \<le> length xs" "\<forall>i < length xs. P (xs ! i) \<longleftrightarrow> i < m"
    using mono_on_list_split [OF assms(1)] by blast
  have "k = m" unfolding k_def using m by (intro bsearch_split) auto
  with m show "k \<le> length xs" "\<And>i. i < length xs \<Longrightarrow> P (xs ! i) \<longleftrightarrow> i < k" by auto
qed

lemma bsearch_take:
  assumes "mono_on_list P xs"
  shows "take (bsearch (\<lambda>i. P (xs ! i)) 0 (length xs)) xs = filter P xs"
    and "drop (bsearch (\<lambda>i. P (xs ! i)) 0 (length xs)) xs = filter (\<lambda>x. \<not> P x) xs"
  using bsearch_list [OF assms] filter_prefix_eq_take [of _ xs P] filter_not_prefix_eq_drop [of _ xs P] by auto

end
