(* ===== verification/IdbKeys.thy ===== *)
theory IdbKeys
  imports JsValues KeyOrder "HOL-Library.AList"
begin

text \<open>
  Keys and key paths of \<open>45_indexeddb.js\<close> (lines 86--233): conversion of page values to keys with
  the cycle check, the key order, conversion back to values, and evaluation and injection at a
  key path.  Page values live in a heap of objects, so that shared and cyclic arrays are values of
  the model.
\<close>

section \<open>Page values\<close>

text \<open>
  A value is a primitive or a reference into the heap.  A slot of an object holds a value, or is
  a getter that throws (\<open>Inl\<close>); a hole of an array is \<open>None\<close>.
\<close>

type_synonym slot = "exn + jsval"

datatype objclass =
    CPlain
  | CArr "slot option list"
  | CDate jsnum
  | CBuf "int list" bool
  | CBlob jsnum jstr
  | CFile jsnum jstr jstr jsnum

record jsobj =
  o_cls :: objclass
  o_props :: "(jstr \<times> slot) list"

type_synonym heap = "jsobj list"

definition alloc :: "heap \<Rightarrow> objclass \<Rightarrow> heap \<times> jsval" where
  "alloc h c = (h @ [\<lparr>o_cls = c, o_props = []\<rparr>], Obj (length h))"

definition cls_of :: "heap \<Rightarrow> jsval \<Rightarrow> objclass option" where
  "cls_of h v = (case v of Obj r \<Rightarrow> (if r < length h then Some (o_cls (h ! r)) else None) | _ \<Rightarrow> None)"

definition is_obj :: "heap \<Rightarrow> jsval \<Rightarrow> bool" where
  "is_obj h v = (cls_of h v \<noteq> None)"

text \<open>
  \<open>Object.prototype.hasOwnProperty\<close> and \<open>value[id]\<close> for an identifier (never an array index):
  the properties of the object, and the \<open>length\<close> of an array.
\<close>

definition own_prop :: "heap \<Rightarrow> jsval \<Rightarrow> jstr \<Rightarrow> slot option" where
  "own_prop h v name = (case v of
     Obj r \<Rightarrow> if r < length h then
        (case o_cls (h ! r) of
           CArr xs \<Rightarrow> if name = js ''length'' then Some (Inr (Num (num_of_int (int (length xs)))))
                      else map_of (o_props (h ! r)) name
         | _ \<Rightarrow> map_of (o_props (h ! r)) name)
        else None
   | _ \<Rightarrow> None)"

definition define_prop :: "heap \<Rightarrow> jsval \<Rightarrow> jstr \<Rightarrow> jsval \<Rightarrow> heap" where
  "define_prop h v name x = (case v of
     Obj r \<Rightarrow> h[r := (h ! r)\<lparr>o_props := AList.update name (Inr x) (o_props (h ! r))\<rparr>]
   | _ \<Rightarrow> h)"

section \<open>Keys\<close>

datatype key = KNum jsnum | KDate jsnum | KStr jstr | KBin "int list" | KArr "key list"

text \<open>The type tags \<open>K_NUMBER\<close> .. \<open>K_ARRAY\<close>.\<close>

fun key_type :: "key \<Rightarrow> int" where
  "key_type (KNum _) = 1"
| "key_type (KDate _) = 2"
| "key_type (KStr _) = 3"
| "key_type (KBin _) = 4"
| "key_type (KArr _) = 5"

text \<open>
  \<open>toKey\<close>.  The result is a key, \<open>None\<close> for an invalid value, or the value thrown by a getter
  together with the arrays that are then still on the path (the code does not pop them).
\<close>

type_synonym key_res = "(exn \<times> nat list) + key option"

function to_key :: "heap \<Rightarrow> jsval \<Rightarrow> nat list \<Rightarrow> key_res"
  and to_key_elems :: "heap \<Rightarrow> slot option list \<Rightarrow> nat list \<Rightarrow> (exn \<times> nat list) + key list option" where
  "to_key h (Num n) seen = Inr (if n = NaN then None else Some (KNum n))"
| "to_key h (Str s) seen = Inr (Some (KStr s))"
| "to_key h Undef seen = Inr None"
| "to_key h Null seen = Inr None"
| "to_key h (Bool b) seen = Inr None"
| "to_key h (Obj r) seen =
     (if r < length h then
        (case o_cls (h ! r) of
           CDate ms \<Rightarrow> Inr (if ms = NaN then None else Some (KDate ms))
         | CBuf bytes detached \<Rightarrow> Inr (if detached then None else Some (KBin bytes))
         | CArr xs \<Rightarrow>
             if r \<in> set seen then Inr None
             else (case to_key_elems h xs (r # seen) of
                     Inl e \<Rightarrow> Inl e
                   | Inr None \<Rightarrow> Inr None
                   | Inr (Some ks) \<Rightarrow> Inr (Some (KArr ks)))
         | _ \<Rightarrow> Inr None)
      else Inr None)"
| "to_key_elems h [] seen = Inr (Some [])"
| "to_key_elems h (None # xs) seen = Inr None"
| "to_key_elems h (Some (Inl e) # xs) seen = Inl (e, seen)"
| "to_key_elems h (Some (Inr v) # xs) seen =
     (case to_key h v seen of
        Inl e \<Rightarrow> Inl e
      | Inr None \<Rightarrow> Inr None
      | Inr (Some k) \<Rightarrow>
          (case to_key_elems h xs seen of
             Inl e \<Rightarrow> Inl e
           | Inr None \<Rightarrow> Inr None
           | Inr (Some ks) \<Rightarrow> Inr (Some (k # ks))))"
  by pat_completeness auto
termination
  by (relation "measures [\<lambda>a. case a of Inl (h, v, seen) \<Rightarrow> card ({..<length h} - set seen)
                            | Inr (h, xs, seen) \<Rightarrow> card ({..<length h} - set seen),
                          \<lambda>a. case a of Inl _ \<Rightarrow> 0 | Inr (h, xs, seen) \<Rightarrow> length xs]")
     (auto intro!: diff_less simp: card_gt_0_iff)

definition drop_path :: "key_res \<Rightarrow> key option res" where
  "drop_path r = (case r of Inl (e, p) \<Rightarrow> Inl e | Inr k \<Rightarrow> Inr k)"

definition to_key_top :: "heap \<Rightarrow> jsval \<Rightarrow> key option res" where
  "to_key_top h v = drop_path (to_key h v [])"

definition to_key_or_throw :: "heap \<Rightarrow> jsval \<Rightarrow> key res" where
  "to_key_or_throw h v = (case to_key_top h v of
     Inl e \<Rightarrow> Inl e | Inr None \<Rightarrow> Inl (DomErr ''DataError'') | Inr (Some k) \<Rightarrow> Inr k)"

section \<open>The key order\<close>

definition cmp_num :: "jsnum \<Rightarrow> jsnum \<Rightarrow> int" where
  "cmp_num a b = (if num_eq a b then 0 else if num_lt b a then 1 else -1)"

definition cmp_str :: "jstr \<Rightarrow> jstr \<Rightarrow> int" where
  "cmp_str a b = (if a = b then 0 else if str_lt b a then 1 else -1)"

fun cmp_bytes :: "int list \<Rightarrow> int list \<Rightarrow> int" where
  "cmp_bytes (x # xs) (y # ys) = (if x = y then cmp_bytes xs ys else if x > y then 1 else -1)"
| "cmp_bytes [] [] = 0"
| "cmp_bytes (x # xs) [] = 1"
| "cmp_bytes [] (y # ys) = -1"

fun cmp_keys :: "key \<Rightarrow> key \<Rightarrow> int"
  and cmp_key_lists :: "key list \<Rightarrow> key list \<Rightarrow> int" where
  "cmp_keys (KNum a) (KNum b) = cmp_num a b"
| "cmp_keys (KDate a) (KDate b) = cmp_num a b"
| "cmp_keys (KStr a) (KStr b) = cmp_str a b"
| "cmp_keys (KBin a) (KBin b) = cmp_bytes a b"
| "cmp_keys (KArr a) (KArr b) = cmp_key_lists a b"
| "cmp_keys a b = (if key_type a > key_type b then 1 else -1)"
| "cmp_key_lists (x # xs) (y # ys) = (let c = cmp_keys x y in if c \<noteq> 0 then c else cmp_key_lists xs ys)"
| "cmp_key_lists [] [] = 0"
| "cmp_key_lists (x # xs) [] = 1"
| "cmp_key_lists [] (y # ys) = -1"

definition key_lt :: "key \<Rightarrow> key \<Rightarrow> bool" where
  "key_lt a b = (cmp_keys a b < 0)"

definition key_eq :: "key \<Rightarrow> key \<Rightarrow> bool" where
  "key_eq a b = (cmp_keys a b = 0)"

text \<open>
  \<open>toMultiEntryKey\<close>: members that are not keys (or throw) are dropped, and so are duplicates.
  The path is one array that the failed conversions leave their arrays on.
\<close>

fun multi_entry_loop :: "heap \<Rightarrow> slot option list \<Rightarrow> nat list \<Rightarrow> key list \<Rightarrow> key list" where
  "multi_entry_loop h [] seen keys = keys"
| "multi_entry_loop h (s # ss) seen keys =
     (case (case s of None \<Rightarrow> to_key h Undef seen | Some (Inl e) \<Rightarrow> Inl (e, seen) | Some (Inr v) \<Rightarrow> to_key h v seen) of
        Inl (e, seen') \<Rightarrow> multi_entry_loop h ss seen' keys
      | Inr None \<Rightarrow> multi_entry_loop h ss seen keys
      | Inr (Some k) \<Rightarrow>
          multi_entry_loop h ss seen (if list_ex (\<lambda>x. key_eq x k) keys then keys else keys @ [k]))"

definition to_multi_entry_key :: "heap \<Rightarrow> jsval \<Rightarrow> key option res" where
  "to_multi_entry_key h v = (case v of
     Obj r \<Rightarrow> (case cls_of h v of
        Some (CArr xs) \<Rightarrow> Inr (Some (KArr (multi_entry_loop h xs [r] [])))
      | _ \<Rightarrow> to_key_top h v)
   | _ \<Rightarrow> to_key_top h v)"

text \<open>\<open>keyToValue\<close> allocates dates, buffers and arrays anew.\<close>

fun key_to_value :: "heap \<Rightarrow> key \<Rightarrow> heap \<times> jsval"
  and key_to_values :: "heap \<Rightarrow> key list \<Rightarrow> heap \<times> jsval list" where
  "key_to_value h (KNum n) = (h, Num n)"
| "key_to_value h (KStr s) = (h, Str s)"
| "key_to_value h (KDate ms) = alloc h (CDate ms)"
| "key_to_value h (KBin bs) = alloc h (CBuf bs False)"
| "key_to_value h (KArr ks) = (case key_to_values h ks of
     (h1, vs) \<Rightarrow> alloc h1 (CArr (map (\<lambda>v. Some (Inr v)) vs)))"
| "key_to_values h [] = (h, [])"
| "key_to_values h (k # ks) = (case key_to_value h k of
     (h1, v) \<Rightarrow> (case key_to_values h1 ks of (h2, vs) \<Rightarrow> (h2, v # vs)))"

section \<open>Key paths\<close>

datatype keypath = KPath jstr | KPaths "jstr list"

text \<open>Code points of a string, as a regular expression with the \<open>u\<close> flag sees them.\<close>

fun code_points :: "jstr \<Rightarrow> int list" where
  "code_points (a # b # s) =
     (if 55296 \<le> a \<and> a \<le> 56319 \<and> 56320 \<le> b \<and> b \<le> 57343
      then (65536 + (a - 55296) * 1024 + (b - 56320)) # code_points s
      else a # code_points (b # s))"
| "code_points [a] = [a]"
| "code_points [] = []"

text \<open>
  \<open>IDENTIFIER_RE\<close>.  The Unicode properties \<open>ID_Start\<close> and \<open>ID_Continue\<close> are tables of the
  engine: predicates on code points.
\<close>

definition valid_identifier :: "(int \<Rightarrow> bool) \<Rightarrow> (int \<Rightarrow> bool) \<Rightarrow> jstr \<Rightarrow> bool" where
  "valid_identifier ids idc s = (case code_points s of
     [] \<Rightarrow> False
   | c # cs \<Rightarrow> (ids c \<or> c = 36 \<or> c = 95) \<and>
               list_all (\<lambda>d. idc d \<or> d = 36 \<or> d = 8204 \<or> d = 8205) cs)"

definition valid_path_string :: "(int \<Rightarrow> bool) \<Rightarrow> (int \<Rightarrow> bool) \<Rightarrow> jstr \<Rightarrow> bool" where
  "valid_path_string ids idc s = (s = [] \<or> list_all (valid_identifier ids idc) (split_on 46 s))"

fun is_valid_key_path :: "(int \<Rightarrow> bool) \<Rightarrow> (int \<Rightarrow> bool) \<Rightarrow> keypath \<Rightarrow> bool" where
  "is_valid_key_path ids idc (KPath s) = valid_path_string ids idc s"
| "is_valid_key_path ids idc (KPaths ss) = (ss \<noteq> [] \<and> list_all (valid_path_string ids idc) ss)"

text \<open>The last branch of the loop of \<open>evaluateKeyPath\<close>; \<open>None\<close> is the \<open>FAILURE\<close> value.\<close>

definition own_value :: "heap \<Rightarrow> jsval \<Rightarrow> jstr \<Rightarrow> jsval option res" where
  "own_value h v name = (case own_prop h v name of
     None \<Rightarrow> Inr None
   | Some (Inl e) \<Rightarrow> Inl e
   | Some (Inr x) \<Rightarrow> Inr (if x = Undef then None else Some x))"

definition path_step :: "heap \<Rightarrow> jsval \<Rightarrow> jstr \<Rightarrow> jsval option res" where
  "path_step h v name =
     (case v of
        Str s \<Rightarrow> Inr (if name = js ''length'' then Some (Num (num_of_int (int (length s)))) else None)
      | _ \<Rightarrow> (case cls_of h v of
            Some (CArr xs) \<Rightarrow>
              if name = js ''length'' then Inr (Some (Num (num_of_int (int (length xs)))))
              else own_value h v name
          | Some (CBlob sz ty) \<Rightarrow>
              if name = js ''size'' then Inr (Some (Num sz))
              else if name = js ''type'' then Inr (Some (Str ty))
              else own_value h v name
          | Some (CFile sz ty nm lm) \<Rightarrow>
              if name = js ''size'' then Inr (Some (Num sz))
              else if name = js ''type'' then Inr (Some (Str ty))
              else if name = js ''name'' then Inr (Some (Str nm))
              else if name = js ''lastModified'' then Inr (Some (Num lm))
              else own_value h v name
          | _ \<Rightarrow> own_value h v name))"

fun path_steps :: "heap \<Rightarrow> jsval \<Rightarrow> jstr list \<Rightarrow> jsval option res" where
  "path_steps h v [] = Inr (Some v)"
| "path_steps h v (name # names) = (case path_step h v name of
     Inl e \<Rightarrow> Inl e
   | Inr None \<Rightarrow> Inr None
   | Inr (Some x) \<Rightarrow> path_steps h x names)"

definition eval_path_string :: "heap \<Rightarrow> jsval \<Rightarrow> jstr \<Rightarrow> jsval option res" where
  "eval_path_string h v kp = (if kp = [] then Inr (Some v) else path_steps h v (split_on 46 kp))"

fun eval_path_strings :: "heap \<Rightarrow> jsval \<Rightarrow> jstr list \<Rightarrow> jsval list option res" where
  "eval_path_strings h v [] = Inr (Some [])"
| "eval_path_strings h v (kp # kps) = (case eval_path_string h v kp of
     Inl e \<Rightarrow> Inl e
   | Inr None \<Rightarrow> Inr None
   | Inr (Some x) \<Rightarrow> (case eval_path_strings h v kps of
       Inl e \<Rightarrow> Inl e | Inr None \<Rightarrow> Inr None | Inr (Some xs) \<Rightarrow> Inr (Some (x # xs))))"

text \<open>\<open>evaluateKeyPath\<close>; the array made for a list of paths is allocated in the returned heap.\<close>

fun evaluate_key_path :: "heap \<Rightarrow> jsval \<Rightarrow> keypath \<Rightarrow> (heap \<times> jsval) option res" where
  "evaluate_key_path h v (KPath kp) = (case eval_path_string h v kp of
     Inl e \<Rightarrow> Inl e | Inr None \<Rightarrow> Inr None | Inr (Some x) \<Rightarrow> Inr (Some (h, x)))"
| "evaluate_key_path h v (KPaths kps) = (case eval_path_strings h v kps of
     Inl e \<Rightarrow> Inl e | Inr None \<Rightarrow> Inr None
   | Inr (Some xs) \<Rightarrow> Inr (Some (alloc h (CArr (map (\<lambda>x. Some (Inr x)) xs)))))"

text \<open>\<open>extractKey\<close>: a key, \<open>Invalid\<close> (the code's \<open>null\<close>) or \<open>Failure\<close>.\<close>

datatype extracted = Failure | Invalid | Key key

definition extract_key :: "heap \<Rightarrow> jsval \<Rightarrow> keypath \<Rightarrow> bool \<Rightarrow> extracted res" where
  "extract_key h v kp multi_entry = (case evaluate_key_path h v kp of
     Inl e \<Rightarrow> Inl e
   | Inr None \<Rightarrow> Inr Failure
   | Inr (Some (h', x)) \<Rightarrow>
       (case (if multi_entry then to_multi_entry_key h' x else to_key_top h' x) of
          Inl e \<Rightarrow> Inl e | Inr None \<Rightarrow> Inr Invalid | Inr (Some k) \<Rightarrow> Inr (Key k)))"

text \<open>
  \<open>canInjectKey\<close> and \<open>injectKey\<close> walk the links but the last.  The values they see are clones
  (plain data properties), so a throwing slot cannot occur; it is reported as \<open>False\<close>.
\<close>

fun can_inject_links :: "heap \<Rightarrow> jsval \<Rightarrow> jstr list \<Rightarrow> bool" where
  "can_inject_links h v [] = is_obj h v"
| "can_inject_links h v (name # names) =
     (if \<not> is_obj h v then False
      else (case own_prop h v name of
              None \<Rightarrow> True
            | Some (Inr x) \<Rightarrow> can_inject_links h x names
            | Some (Inl e) \<Rightarrow> False))"

definition can_inject_key :: "heap \<Rightarrow> jsval \<Rightarrow> jstr \<Rightarrow> bool" where
  "can_inject_key h v kp = can_inject_links h v (butlast (split_on 46 kp))"

fun inject_links :: "heap \<Rightarrow> jsval \<Rightarrow> jstr list \<Rightarrow> heap \<times> jsval" where
  "inject_links h v [] = (h, v)"
| "inject_links h v (name # names) =
     (case own_prop h v name of
        Some (Inr x) \<Rightarrow> inject_links h x names
      | Some (Inl e) \<Rightarrow> (h, v)
      | None \<Rightarrow> (case alloc h CPlain of
           (h1, x) \<Rightarrow> inject_links (define_prop h1 v name x) x names))"

definition inject_key :: "heap \<Rightarrow> jsval \<Rightarrow> jstr \<Rightarrow> key \<Rightarrow> heap" where
  "inject_key h v kp k = (let ids = split_on 46 kp in
     case inject_links h v (butlast ids) of
       (h1, o1) \<Rightarrow> (case key_to_value h1 k of (h2, kv) \<Rightarrow> define_prop h2 o1 (last ids) kv))"


section \<open>The key order is a total preorder\<close>

fun valid_key :: "key \<Rightarrow> bool" where
  "valid_key (KNum n) = (n \<noteq> NaN)"
| "valid_key (KDate n) = (n \<noteq> NaN)"
| "valid_key (KArr ks) = list_all valid_key ks"
| "valid_key _ = True"

lemma num_eq_refl [simp]: "n \<noteq> NaN \<Longrightarrow> num_eq n n"
  by (cases n) auto

interpretation num_order: comparator cmp_num "\<lambda>n. n \<noteq> NaN"
proof
  show "cmp_num b a = - cmp_num a b" if "a \<noteq> NaN" "b \<noteq> NaN" for a b
    using that by (cases a; cases b) (auto simp: cmp_num_def)
  show "cmp_num a c \<le> 0" if "a \<noteq> NaN" "b \<noteq> NaN" "c \<noteq> NaN" "cmp_num a b \<le> 0" "cmp_num b c \<le> 0" for a b c
    using that by (cases a; cases b; cases c) (auto simp: cmp_num_def split: if_splits)
qed (simp add: cmp_num_def)

interpretation str_order: comparator cmp_str "\<lambda>s. True"
proof
  show "cmp_str b a = - cmp_str a b" for a b
    using str_lt_total [of a b] str_lt_trans [of a b a] by (auto simp: cmp_str_def)
  show "cmp_str a c \<le> 0" if "cmp_str a b \<le> 0" "cmp_str b c \<le> 0" for a b c
    using that str_lt_total [of a b] str_lt_total [of b c] str_lt_trans [of a b c] str_lt_trans [of a c a]
    by (auto simp: cmp_str_def split: if_splits)
qed (simp add: cmp_str_def)

definition cmp_byte :: "int \<Rightarrow> int \<Rightarrow> int" where
  "cmp_byte x y = (if x = y then 0 else if x > y then 1 else -1)"

interpretation byte_order: comparator cmp_byte "\<lambda>b. True"
proof
  show "cmp_byte b a = - cmp_byte a b" for a b by (simp add: cmp_byte_def)
  show "cmp_byte a c \<le> 0" if "cmp_byte a b \<le> 0" "cmp_byte b c \<le> 0" for a b c
    using that by (simp add: cmp_byte_def split: if_splits)
qed (simp add: cmp_byte_def)

lemma cmp_bytes_lex: "cmp_bytes xs ys = lex_cmp cmp_byte xs ys"
  by (induction xs ys rule: cmp_bytes.induct) (auto simp: cmp_byte_def Let_def)

lemma cmp_key_lists_lex: "cmp_key_lists xs ys = lex_cmp cmp_keys xs ys"
  by (induction xs arbitrary: ys; case_tac ys) (auto simp: Let_def)

lemma cmp_bytes_laws: "cmp_laws_at cmp_bytes (\<lambda>xs. True) xs"
proof -
  have "cmp_laws_at (lex_cmp cmp_byte) (list_all (\<lambda>b. True)) xs"
    by (rule lex_laws_at) (simp add: comparator_laws_at byte_order.comparator_axioms)
  moreover have "lex_cmp cmp_byte = cmp_bytes" by (intro ext) (simp add: cmp_bytes_lex)
  moreover have "list_all (\<lambda>b. True) = (\<lambda>xs :: int list. True)" by (intro ext) (simp add: list_all_iff)
  ultimately show ?thesis by simp
qed

lemma key_type_range [simp]: "1 \<le> key_type k" "key_type k \<le> 5"
  by (cases k; simp)+

text \<open>Keys of different types compare by the type alone.\<close>

lemma cmp_keys_types: "key_type a \<noteq> key_type b \<Longrightarrow> cmp_keys a b = (if key_type a > key_type b then 1 else -1)"
  by (cases a; cases b) auto

lemma cmp_keys_le_type: "cmp_keys a b \<le> 0 \<Longrightarrow> key_type a \<le> key_type b"
  using cmp_keys_types [of a b] by (cases "key_type a = key_type b") (auto split: if_splits)

text \<open>Within one type the comparison is that of the payloads.\<close>

lemma cmp_laws_same_type:
  assumes "\<And>b. valid_key a \<Longrightarrow> valid_key b \<Longrightarrow> key_type b = key_type a \<Longrightarrow> cmp_keys b a = - cmp_keys a b"
    and "valid_key a \<Longrightarrow> cmp_keys a a = 0"
    and "\<And>b c. valid_key a \<Longrightarrow> valid_key b \<Longrightarrow> valid_key c \<Longrightarrow> key_type b = key_type a \<Longrightarrow> key_type c = key_type a \<Longrightarrow>
       cmp_keys a b \<le> 0 \<Longrightarrow> cmp_keys b c \<le> 0 \<Longrightarrow>
       cmp_keys a c \<le> 0 \<and> (cmp_keys a b < 0 \<or> cmp_keys b c < 0 \<longrightarrow> cmp_keys a c < 0)"
  shows "cmp_laws_at cmp_keys valid_key a"
  unfolding cmp_laws_at_def
proof (intro impI allI conjI)
  assume va: "valid_key a"
  show "cmp_keys a a = 0" using va by (rule assms(2))
  show "cmp_keys b a = - cmp_keys a b" if "valid_key b" for b
    using assms(1) [OF va that] cmp_keys_types [of a b] cmp_keys_types [of b a]
    by (cases "key_type b = key_type a") auto
  fix b c assume v: "valid_key b" "valid_key c" and le: "cmp_keys a b \<le> 0" "cmp_keys b c \<le> 0"
  have t: "key_type a \<le> key_type b" "key_type b \<le> key_type c"
    using le cmp_keys_le_type by blast+
  consider "key_type a < key_type c" | "key_type b = key_type a" "key_type c = key_type a"
    using t by linarith
  then have "cmp_keys a c \<le> 0 \<and> (cmp_keys a b < 0 \<or> cmp_keys b c < 0 \<longrightarrow> cmp_keys a c < 0)"
  proof cases
    case 1
    then show ?thesis using cmp_keys_types [of a c] by simp
  next
    case 2
    with va v le show ?thesis by (intro assms(3))
  qed
  then show "cmp_keys a c \<le> 0" "cmp_keys a b < 0 \<or> cmp_keys b c < 0 \<Longrightarrow> cmp_keys a c < 0" by blast+
qed

lemma cmp_laws_payload:
  assumes L: "cmp_laws_at pc pv x"
    and C: "\<And>b. valid_key b \<Longrightarrow> key_type b = key_type (C x) \<Longrightarrow> \<exists>y. b = C y \<and> pv y"
    and eq: "\<And>y z. cmp_keys (C y) (C z) = pc y z"
    and vx: "valid_key (C x) \<Longrightarrow> pv x"
  shows "cmp_laws_at cmp_keys valid_key (C x)"
proof (rule cmp_laws_same_type)
  fix b assume a: "valid_key (C x)" and b: "valid_key b" "key_type b = key_type (C x)"
  obtain y where y: "b = C y" "pv y" using C [OF b] by blast
  show "cmp_keys b (C x) = - cmp_keys (C x) b"
    unfolding y(1) eq by (rule cmp_laws_atD(2) [OF L vx [OF a] y(2)])
  fix c assume c: "valid_key c" "key_type c = key_type (C x)" and le: "cmp_keys (C x) b \<le> 0" "cmp_keys b c \<le> 0"
  obtain z where z: "c = C z" "pv z" using C [OF c] by blast
  show "cmp_keys (C x) c \<le> 0 \<and> (cmp_keys (C x) b < 0 \<or> cmp_keys b c < 0 \<longrightarrow> cmp_keys (C x) c < 0)"
    using le cmp_laws_atD(3,4) [OF L vx [OF a] y(2) z(2)] unfolding y(1) z(1) eq by blast
next
  assume "valid_key (C x)"
  then show "cmp_keys (C x) (C x) = 0" unfolding eq by (rule cmp_laws_atD(1) [OF L vx])
qed

lemma key_type_cases:
  assumes "valid_key b"
  shows "key_type b = 1 \<Longrightarrow> \<exists>n. b = KNum n \<and> n \<noteq> NaN" "key_type b = 2 \<Longrightarrow> \<exists>n. b = KDate n \<and> n \<noteq> NaN"
    "key_type b = 3 \<Longrightarrow> \<exists>n. b = KStr n" "key_type b = 4 \<Longrightarrow> \<exists>n. b = KBin n"
    "key_type b = 5 \<Longrightarrow> \<exists>ks. b = KArr ks \<and> list_all valid_key ks"
  using assms by (cases b; simp)+

lemma cmp_keys_laws: "cmp_laws_at cmp_keys valid_key k"
proof (induction k)
  case (KNum n)
  show ?case
    by (rule cmp_laws_payload [OF comparator_laws_at [OF num_order.comparator_axioms]])
      (auto dest: key_type_cases)
next
  case (KDate n)
  show ?case
    by (rule cmp_laws_payload [OF comparator_laws_at [OF num_order.comparator_axioms]])
      (auto dest: key_type_cases)
next
  case (KStr s)
  show ?case
    by (rule cmp_laws_payload [OF comparator_laws_at [OF str_order.comparator_axioms]])
      (auto dest: key_type_cases)
next
  case (KBin bs)
  show ?case by (rule cmp_laws_payload [OF cmp_bytes_laws]) (auto dest: key_type_cases)
next
  case (KArr ks)
  have L: "cmp_laws_at (lex_cmp cmp_keys) (list_all valid_key) ks"
    by (rule lex_laws_at) (use KArr in blast)
  show ?case by (rule cmp_laws_payload [OF L]) (auto simp: cmp_key_lists_lex dest: key_type_cases)
qed

interpretation key_order: comparator cmp_keys valid_key
  by (rule comparator_of_laws) (rule cmp_keys_laws)

section \<open>Conversion\<close>

lemma to_key_valid:
  "to_key h v seen = Inr (Some k) \<Longrightarrow> valid_key k"
  "to_key_elems h xs seen = Inr (Some ks) \<Longrightarrow> list_all valid_key ks"
  by (induction h v seen and h xs seen arbitrary: k and ks rule: to_key_to_key_elems.induct)
    (auto split: if_splits objclass.splits sum.splits option.splits)

lemma to_key_top_valid: "to_key_top h v = Inr (Some k) \<Longrightarrow> valid_key k"
  by (auto simp: to_key_top_def drop_path_def split: sum.splits dest: to_key_valid)

lemma to_key_or_throw_valid: "to_key_or_throw h v = Inr k \<Longrightarrow> valid_key k"
  by (auto simp: to_key_or_throw_def split: sum.splits option.splits dest: to_key_top_valid)

text \<open>An array on the current path is not a key: cyclic arrays are rejected.\<close>

lemma to_key_on_path:
  "r < length h \<Longrightarrow> o_cls (h ! r) = CArr xs \<Longrightarrow> r \<in> set seen \<Longrightarrow> to_key h (Obj r) seen = Inr None"
  by simp

lemma key_to_value_extends:
  "\<exists>e. fst (key_to_value h k) = h @ e"
  "\<exists>e. fst (key_to_values h ks) = h @ e"
  by (induction h k and h ks rule: key_to_value_key_to_values.induct)
    (fastforce simp: alloc_def split: prod.splits)+

lemma key_to_value_round:
  "key_to_value h k = (h', v) \<Longrightarrow> valid_key k \<Longrightarrow> \<forall>r \<in> set seen. length h' \<le> r \<Longrightarrow>
     to_key (h' @ ext) v seen = Inr (Some k)"
  "key_to_values h ks = (h', vs) \<Longrightarrow> list_all valid_key ks \<Longrightarrow> \<forall>r \<in> set seen. length h' \<le> r \<Longrightarrow>
     to_key_elems (h' @ ext) (map (\<lambda>v. Some (Inr v)) vs) seen = Inr (Some ks)"
proof (induction h k and h ks arbitrary: h' v ext seen and h' vs ext seen rule: key_to_value_key_to_values.induct)
  case (5 h ks)
  obtain h1 vs where h1: "key_to_values h ks = (h1, vs)" by fastforce
  with "5.prems" have eq: "h' = h1 @ [\<lparr>o_cls = CArr (map (\<lambda>v. Some (Inr v)) vs), o_props = []\<rparr>]" "v = Obj (length h1)"
    by (auto simp: alloc_def)
  have "to_key_elems (h1 @ (drop (length h1) h' @ ext)) (map (\<lambda>v. Some (Inr v)) vs) (length h1 # seen) = Inr (Some ks)"
    using "5.prems" eq by (intro "5.IH" [OF h1]) auto
  moreover have "length h1 \<notin> set seen" using "5.prems"(3) eq by auto
  ultimately show ?case using eq by (simp add: nth_append)
next
  case (7 h k ks)
  obtain h1 v1 where h1: "key_to_value h k = (h1, v1)" by fastforce
  obtain h2 vs2 where h2: "key_to_values h1 ks = (h2, vs2)" by fastforce
  from h1 h2 "7.prems"(1) have eq: "h' = h2" "vs = v1 # vs2" by auto
  obtain e where e: "h2 = h1 @ e" using key_to_value_extends(2) [of h1 ks] h2 by auto
  have "to_key (h1 @ (e @ ext)) v1 seen = Inr (Some k)"
    using "7.prems" e eq by (intro "7.IH"(1) [OF h1]) auto
  moreover have "to_key_elems (h2 @ ext) (map (\<lambda>v. Some (Inr v)) vs2) seen = Inr (Some ks)"
    using "7.prems" eq h1 h2 by (intro "7.IH"(2) [OF h1 [symmetric] h2]) auto
  ultimately show ?case using eq e by simp
qed (auto simp: alloc_def nth_append)

lemma key_round_trip: "key_to_value h k = (h', v) \<Longrightarrow> valid_key k \<Longrightarrow> to_key_top h' v = Inr (Some k)"
  using key_to_value_round(1) [of h k h' v "[]" "[]"] by (simp add: to_key_top_def drop_path_def)

lemma multi_entry_loop_inv:
  assumes "sorted_wrt (\<lambda>x y. \<not> key_eq x y) keys" "list_all valid_key keys"
  shows "sorted_wrt (\<lambda>x y. \<not> key_eq x y) (multi_entry_loop h xs seen keys)
    \<and> list_all valid_key (multi_entry_loop h xs seen keys)"
  using assms
proof (induction h xs seen keys rule: multi_entry_loop.induct)
  case (2 h s ss seen keys)
  let ?r = "case s of None \<Rightarrow> to_key h Undef seen | Some (Inl e) \<Rightarrow> Inl (e, seen) | Some (Inr v) \<Rightarrow> to_key h v seen"
  consider e p where "?r = Inl (e, p)" | "?r = Inr None" | k where "?r = Inr (Some k)"
    by (metis old.prod.exhaust option.exhaust sum.exhaust)
  then show ?case
  proof cases
    case 1
    with 2 show ?thesis by simp
  next
    case 2
    with "2.IH" "2.prems" show ?thesis by simp
  next
    case 3
    then have "valid_key k" by (auto dest: to_key_valid split: option.splits sum.splits)
    with 3 "2.IH" "2.prems" show ?thesis
      by (auto simp: list_ex_iff sorted_wrt_append)
  qed
qed simp

lemma multi_entry_distinct:
  assumes "to_multi_entry_key h v = Inr (Some (KArr ks))" "v = Obj r" "cls_of h v = Some (CArr xs)"
  shows "sorted_wrt (\<lambda>x y. \<not> key_eq x y) ks \<and> list_all valid_key ks"
  using assms multi_entry_loop_inv [of "[]" h xs "[r]"] by (simp add: to_multi_entry_key_def)

end
