(* ===== verification/IdbRows.thy ===== *)
theory IdbRows
  imports IdbKeys
begin

text \<open>
  Key ranges and sorted rows of \<open>45_indexeddb.js\<close> (lines 235--360): the range constructors and
  their checks, the two binary searches, the span of a range, and the walks that collect the rows
  of a span in the four cursor directions.  The lemmas show that on rows sorted by key the searches
  return exactly the rows in the range.
\<close>

section \<open>Key ranges\<close>

record range =
  lo :: "key option"
  hi :: "key option"
  lo_open :: bool
  hi_open :: bool

definition in_range :: "range \<Rightarrow> key \<Rightarrow> bool" where
  "in_range r k =
     ((case lo r of None \<Rightarrow> True
       | Some l \<Rightarrow> (let c = cmp_keys k l in \<not> (c < 0 \<or> (c = 0 \<and> lo_open r)))) \<and>
      (case hi r of None \<Rightarrow> True
       | Some u \<Rightarrow> (let c = cmp_keys k u in \<not> (c > 0 \<or> (c = 0 \<and> hi_open r)))))"

definition only_range :: "key \<Rightarrow> range" where
  "only_range k = \<lparr>lo = Some k, hi = Some k, lo_open = False, hi_open = False\<rparr>"

text \<open>The static methods of \<open>IDBKeyRange\<close>.\<close>

definition range_only :: "heap \<Rightarrow> jsval \<Rightarrow> range res" where
  "range_only h v = (case to_key_or_throw h v of Inl e \<Rightarrow> Inl e | Inr k \<Rightarrow> Inr (only_range k))"

definition range_lower_bound :: "heap \<Rightarrow> jsval \<Rightarrow> bool \<Rightarrow> range res" where
  "range_lower_bound h v opn = (case to_key_or_throw h v of
     Inl e \<Rightarrow> Inl e
   | Inr k \<Rightarrow> Inr \<lparr>lo = Some k, hi = None, lo_open = opn, hi_open = True\<rparr>)"

definition range_upper_bound :: "heap \<Rightarrow> jsval \<Rightarrow> bool \<Rightarrow> range res" where
  "range_upper_bound h v opn = (case to_key_or_throw h v of
     Inl e \<Rightarrow> Inl e
   | Inr k \<Rightarrow> Inr \<lparr>lo = None, hi = Some k, lo_open = True, hi_open = opn\<rparr>)"

definition range_bound :: "heap \<Rightarrow> jsval \<Rightarrow> jsval \<Rightarrow> bool \<Rightarrow> bool \<Rightarrow> range res" where
  "range_bound h lower upper lower_open upper_open =
     (case to_key_or_throw h lower of
        Inl e \<Rightarrow> Inl e
      | Inr l \<Rightarrow> (case to_key_or_throw h upper of
          Inl e \<Rightarrow> Inl e
        | Inr u \<Rightarrow> (let c = cmp_keys l u in
            if c > 0 then Inl (DomErr ''DataError'')
            else if c = 0 \<and> (lower_open \<or> upper_open) then Inl (DomErr ''DataError'')
            else Inr \<lparr>lo = Some l, hi = Some u, lo_open = lower_open, hi_open = upper_open\<rparr>)))"

definition range_includes :: "heap \<Rightarrow> range \<Rightarrow> jsval \<Rightarrow> bool res" where
  "range_includes h r v = (case to_key_or_throw h v of Inl e \<Rightarrow> Inl e | Inr k \<Rightarrow> Inr (in_range r k))"

text \<open>A query argument of the page: an \<open>IDBKeyRange\<close> object or any other value.\<close>

datatype query = QRange range | QVal jsval

definition to_range :: "heap \<Rightarrow> query \<Rightarrow> bool \<Rightarrow> range option res" where
  "to_range h q null_disallowed = (case q of
     QRange r \<Rightarrow> Inr (Some r)
   | QVal v \<Rightarrow>
       if v = Undef \<or> v = Null then
         (if null_disallowed then Inl (DomErr ''DataError'') else Inr None)
       else (case to_key_or_throw h v of Inl e \<Rightarrow> Inl e | Inr k \<Rightarrow> Inr (Some (only_range k))))"

section \<open>Sorted rows\<close>

text \<open>
  A row of a store (\<open>rrec = None\<close>) or of an index, whose \<open>rrec\<close> is the store row it refers to.
  \<open>rid\<close> is the identity of the row object, which the code compares with \<open>===\<close>.  The value is
  a structured clone: an object graph of its own that nothing else refers to, kept as a private
  heap with its root.
\<close>

type_synonym clone = "heap \<times> jsval"

datatype row = Row (rid: nat) (rkey: key) (rpk: key) (rval: clone) (rrec: "row option")

definition value_of_row :: "row \<Rightarrow> clone" where
  "value_of_row r = (case rrec r of None \<Rightarrow> rval r | Some s \<Rightarrow> rval s)"

definition cmp_row :: "row \<Rightarrow> key \<Rightarrow> key option \<Rightarrow> int" where
  "cmp_row r k pk = (let c = cmp_keys (rkey r) k in
     if c \<noteq> 0 then c else (case pk of None \<Rightarrow> c | Some p \<Rightarrow> cmp_keys (rpk r) p))"

definition lower_idx :: "row list \<Rightarrow> key \<Rightarrow> key option \<Rightarrow> nat" where
  "lower_idx rows k pk = bsearch (\<lambda>i. cmp_row (rows ! i) k pk < 0) 0 (length rows)"

definition upper_idx :: "row list \<Rightarrow> key \<Rightarrow> key option \<Rightarrow> nat" where
  "upper_idx rows k pk = bsearch (\<lambda>i. cmp_row (rows ! i) k pk \<le> 0) 0 (length rows)"

definition span_of :: "row list \<Rightarrow> range option \<Rightarrow> nat \<times> nat" where
  "span_of rows rg = (case rg of
     None \<Rightarrow> (0, length rows)
   | Some r \<Rightarrow>
       (let s = (case lo r of None \<Rightarrow> 0
                 | Some l \<Rightarrow> if lo_open r then upper_idx rows l None else lower_idx rows l None);
            e = (case hi r of None \<Rightarrow> length rows
                 | Some u \<Rightarrow> if hi_open r then lower_idx rows u None else upper_idx rows u None)
        in (s, max s e)))"

datatype direction = Next | NextUnique | Prev | PrevUnique

text \<open>The limit of \<open>collect\<close>: 0 stands for no limit.\<close>

definition below_limit :: "nat \<Rightarrow> row list \<Rightarrow> bool" where
  "below_limit limit out = (limit = 0 \<or> length out < limit)"

function collect_next :: "row list \<Rightarrow> nat \<Rightarrow> nat \<Rightarrow> nat \<Rightarrow> row list \<Rightarrow> row list" where
  "collect_next rows i e limit out =
     (if i < e \<and> below_limit limit out then collect_next rows (i + 1) e limit (out @ [rows ! i]) else out)"
  by pat_completeness auto
termination
  by (relation "measure (\<lambda>(rows, i, e, limit, out). e - i)") auto

function collect_next_unique :: "row list \<Rightarrow> nat \<Rightarrow> nat \<Rightarrow> nat \<Rightarrow> nat \<Rightarrow> row list \<Rightarrow> row list" where
  "collect_next_unique rows s i e limit out =
     (if i < e \<and> below_limit limit out then
        collect_next_unique rows s (i + 1) e limit
          (if i = s \<or> cmp_keys (rkey (rows ! (i - 1))) (rkey (rows ! i)) \<noteq> 0 then out @ [rows ! i] else out)
      else out)"
  by pat_completeness auto
termination
  by (relation "measure (\<lambda>(rows, s, i, e, limit, out). e - i)") auto

text \<open>The backward loops count \<open>i + 1\<close>, so that the index stays a natural number.\<close>

fun collect_prev :: "row list \<Rightarrow> nat \<Rightarrow> nat \<Rightarrow> nat \<Rightarrow> row list \<Rightarrow> row list" where
  "collect_prev rows s 0 limit out = out"
| "collect_prev rows s (Suc i) limit out =
     (if s \<le> i \<and> below_limit limit out then collect_prev rows s i limit (out @ [rows ! i]) else out)"

fun run_start :: "row list \<Rightarrow> nat \<Rightarrow> key \<Rightarrow> nat \<Rightarrow> nat" where
  "run_start rows s k 0 = 0"
| "run_start rows s k (Suc j) =
     (if s \<le> j \<and> cmp_keys (rkey (rows ! j)) k = 0 then run_start rows s k j else Suc j)"

lemma run_start_le: "run_start rows s k j \<le> j"
  by (induction j) auto

function collect_prev_unique :: "row list \<Rightarrow> nat \<Rightarrow> nat \<Rightarrow> nat \<Rightarrow> row list \<Rightarrow> row list" where
  "collect_prev_unique rows s i limit out =
     (if s < i \<and> below_limit limit out then
        (let j = run_start rows s (rkey (rows ! (i - 1))) (i - 1)
         in collect_prev_unique rows s j limit (out @ [rows ! j]))
      else out)"
  by pat_completeness auto
termination
  by (relation "measure (\<lambda>(rows, s, i, limit, out). i)") (auto simp: le_less_trans [OF run_start_le])

definition collect_rows :: "row list \<Rightarrow> range option \<Rightarrow> direction \<Rightarrow> nat \<Rightarrow> row list" where
  "collect_rows rows rg dir limit = (case span_of rows rg of (s, e) \<Rightarrow>
     (case dir of
        Next \<Rightarrow> collect_next rows s e limit []
      | NextUnique \<Rightarrow> collect_next_unique rows s s e limit []
      | Prev \<Rightarrow> collect_prev rows s e limit []
      | PrevUnique \<Rightarrow> collect_prev_unique rows s e limit []))"

declare collect_next.simps [simp del] collect_next_unique.simps [simp del] collect_prev_unique.simps [simp del]

section \<open>Lemmas: search on sorted rows\<close>

definition valid_row :: "row \<Rightarrow> bool" where
  "valid_row r = (valid_key (rkey r) \<and> valid_key (rpk r))"

definition pair_of :: "row \<Rightarrow> key list" where
  "pair_of r = [rkey r, rpk r]"

definition row_lt :: "row \<Rightarrow> row \<Rightarrow> bool" where
  "row_lt a b = (lex_cmp cmp_keys (pair_of a) (pair_of b) < 0)"

definition rows_ok :: "row list \<Rightarrow> bool" where
  "rows_ok rows = (sorted_wrt row_lt rows \<and> (\<forall>r \<in> set rows. valid_row r))"

interpretation pair_order: comparator "lex_cmp cmp_keys" "list_all valid_key"
  by (rule comparator_of_laws) (blast intro: lex_laws_at cmp_keys_laws)

lemma valid_pair [simp]: "valid_row r \<Longrightarrow> list_all valid_key (pair_of r)"
  by (simp add: valid_row_def pair_of_def)

lemma cmp_row_None [simp]: "cmp_row r k None = cmp_keys (rkey r) k"
  by (simp add: cmp_row_def Let_def)

lemma cmp_row_Some: "cmp_row r k (Some p) = lex_cmp cmp_keys (pair_of r) [k, p]"
  by (simp add: cmp_row_def pair_of_def Let_def)

lemma row_lt_key: "row_lt a b \<Longrightarrow> cmp_keys (rkey a) (rkey b) \<le> 0"
  by (auto simp: row_lt_def pair_of_def Let_def split: if_splits)

lemma row_lt_pair: "row_lt a b \<Longrightarrow> lex_cmp cmp_keys (pair_of a) (pair_of b) \<le> 0"
  by (simp add: row_lt_def)

lemma rows_ok_keys:
  assumes "rows_ok rows"
  shows "sorted_wrt (\<lambda>a b. cmp_keys a b \<le> 0) (map rkey rows)" "\<forall>k \<in> set (map rkey rows). valid_key k"
  using assms by (auto simp: rows_ok_def sorted_wrt_map valid_row_def intro: sorted_wrt_mono_rel [rotated] row_lt_key)

lemma rows_ok_pairs:
  assumes "rows_ok rows"
  shows "sorted_wrt (\<lambda>a b. lex_cmp cmp_keys a b \<le> 0) (map pair_of rows)" "\<forall>p \<in> set (map pair_of rows). list_all valid_key p"
  using assms by (auto simp: rows_ok_def sorted_wrt_map intro: sorted_wrt_mono_rel [rotated] row_lt_pair)

lemma mono_on_list_map: "mono_on_list P (map f xs) = mono_on_list (\<lambda>x. P (f x)) xs"
  by (auto simp: mono_on_list_def)

lemma probe_mono:
  assumes "rows_ok rows" "valid_key k" "\<forall>p \<in> set_option pk. valid_key p"
  shows "mono_on_list (\<lambda>r. cmp_row r k pk < 0) rows" "mono_on_list (\<lambda>r. cmp_row r k pk \<le> 0) rows"
proof -
  show "mono_on_list (\<lambda>r. cmp_row r k pk < 0) rows"
  proof (cases pk)
    case None
    then show ?thesis using key_order.sorted_probe_lt [OF rows_ok_keys [OF assms(1)] assms(2)]
      by (simp add: mono_on_list_map)
  next
    case (Some p)
    with assms have "list_all valid_key [k, p]" by simp
    from pair_order.sorted_probe_lt [OF rows_ok_pairs [OF assms(1)] this] Some show ?thesis
      by (simp add: mono_on_list_map cmp_row_Some)
  qed
  show "mono_on_list (\<lambda>r. cmp_row r k pk \<le> 0) rows"
  proof (cases pk)
    case None
    then show ?thesis using key_order.sorted_probe_le [OF rows_ok_keys [OF assms(1)] assms(2)]
      by (simp add: mono_on_list_map)
  next
    case (Some p)
    with assms have "list_all valid_key [k, p]" by simp
    from pair_order.sorted_probe_le [OF rows_ok_pairs [OF assms(1)] this] Some show ?thesis
      by (simp add: mono_on_list_map cmp_row_Some)
  qed
qed

lemma lower_idx_spec:
  assumes "rows_ok rows" "valid_key k" "\<forall>p \<in> set_option pk. valid_key p"
  shows "lower_idx rows k pk \<le> length rows"
    and "i < length rows \<Longrightarrow> cmp_row (rows ! i) k pk < 0 \<longleftrightarrow> i < lower_idx rows k pk"
  using bsearch_list [OF probe_mono(1) [OF assms]] by (simp_all add: lower_idx_def)

lemma upper_idx_spec:
  assumes "rows_ok rows" "valid_key k" "\<forall>p \<in> set_option pk. valid_key p"
  shows "upper_idx rows k pk \<le> length rows"
    and "i < length rows \<Longrightarrow> cmp_row (rows ! i) k pk \<le> 0 \<longleftrightarrow> i < upper_idx rows k pk"
  using bsearch_list [OF probe_mono(2) [OF assms]] by (simp_all add: upper_idx_def)

definition valid_range :: "range option \<Rightarrow> bool" where
  "valid_range rg = (case rg of None \<Rightarrow> True
     | Some r \<Rightarrow> (\<forall>k \<in> set_option (lo r) \<union> set_option (hi r). valid_key k))"

definition in_range_opt :: "range option \<Rightarrow> key \<Rightarrow> bool" where
  "in_range_opt rg k = (case rg of None \<Rightarrow> True | Some r \<Rightarrow> in_range r k)"

lemma filter_interval:
  assumes "\<And>i. i < length xs \<Longrightarrow> P (xs ! i) \<longleftrightarrow> s \<le> i \<and> i < e" "e \<le> length xs"
  shows "filter P xs = segment xs s e"
proof -
  have eq: "xs = take e xs @ drop e xs" by simp
  have "filter P (drop e xs) = []"
    using assms by (auto simp: filter_empty_conv in_set_conv_nth)
  moreover have "filter P (take e xs) = segment xs s e"
  proof (cases "s \<le> e")
    case True
    have "take e xs = take s xs @ segment xs s e"
      using True by (simp add: segment_def) (metis le_add_diff_inverse take_add)
    moreover have "filter P (take s xs) = []"
      using assms True by (auto simp: filter_empty_conv in_set_conv_nth)
    moreover have "filter P (segment xs s e) = segment xs s e"
      using assms True by (auto simp: filter_id_conv in_set_conv_nth segment_def)
    ultimately show ?thesis by simp
  next
    case False
    have "filter P (take e xs) = []"
      using assms False by (auto simp: filter_empty_conv in_set_conv_nth)
    with False show ?thesis by (simp add: segment_def)
  qed
  ultimately show ?thesis by (metis append_Nil2 eq filter_append)
qed

text \<open>The span of a range holds exactly the rows whose key is in the range.\<close>

lemma span_of_spec:
  assumes "rows_ok rows" "valid_range rg" "span_of rows rg = (s, e)"
  shows "s \<le> e" "e \<le> length rows"
    and "i < length rows \<Longrightarrow> in_range_opt rg (rkey (rows ! i)) \<longleftrightarrow> s \<le> i \<and> i < e"
proof -
  have "s \<le> e \<and> e \<le> length rows \<and>
     (\<forall>i < length rows. in_range_opt rg (rkey (rows ! i)) \<longleftrightarrow> s \<le> i \<and> i < e)"
  proof (cases rg)
    case None
    with assms show ?thesis by (auto simp: span_of_def in_range_opt_def)
  next
    case (Some r)
    define s' where "s' = (case lo r of None \<Rightarrow> 0
                 | Some l \<Rightarrow> if lo_open r then upper_idx rows l None else lower_idx rows l None)"
    define e' where "e' = (case hi r of None \<Rightarrow> length rows
                 | Some u \<Rightarrow> if hi_open r then lower_idx rows u None else upper_idx rows u None)"
    have se: "s = s'" "e = max s' e'"
      using assms(3) Some by (auto simp: span_of_def s'_def e'_def Let_def)
    have vl: "\<And>l. lo r = Some l \<Longrightarrow> valid_key l" and vu: "\<And>u. hi r = Some u \<Longrightarrow> valid_key u"
      using assms(2) Some by (auto simp: valid_range_def)
    have le: "s' \<le> length rows" "e' \<le> length rows"
      using lower_idx_spec(1) [OF assms(1), of _ None] upper_idx_spec(1) [OF assms(1), of _ None] vl vu
      by (auto simp: s'_def e'_def split: option.splits)
    have lo_iff: "(case lo r of None \<Rightarrow> True | Some l \<Rightarrow> (let c = cmp_keys (rkey (rows ! i)) l in
        \<not> (c < 0 \<or> (c = 0 \<and> lo_open r)))) \<longleftrightarrow> s' \<le> i" if "i < length rows" for i
    proof (cases "lo r")
      case (Some l)
      then have v: "valid_key l" by (rule vl)
      from lower_idx_spec(2) [OF assms(1) v _ that, of None] upper_idx_spec(2) [OF assms(1) v _ that, of None] Some
      show ?thesis by (auto simp: s'_def Let_def)
    qed (simp add: s'_def)
    have hi_iff: "(case hi r of None \<Rightarrow> True | Some u \<Rightarrow> (let c = cmp_keys (rkey (rows ! i)) u in
        \<not> (c > 0 \<or> (c = 0 \<and> hi_open r)))) \<longleftrightarrow> i < e'" if "i < length rows" for i
    proof (cases "hi r")
      case (Some u)
      then have v: "valid_key u" by (rule vu)
      from lower_idx_spec(2) [OF assms(1) v _ that, of None] upper_idx_spec(2) [OF assms(1) v _ that, of None] Some
      show ?thesis by (auto simp: e'_def Let_def)
    qed (use that in \<open>simp add: e'_def\<close>)
    have "in_range_opt rg (rkey (rows ! i)) \<longleftrightarrow> s \<le> i \<and> i < e" if "i < length rows" for i
      using lo_iff [OF that] hi_iff [OF that] se Some by (auto simp: in_range_opt_def in_range_def)
    with se le show ?thesis by simp
  qed
  then show "s \<le> e" "e \<le> length rows"
    "i < length rows \<Longrightarrow> in_range_opt rg (rkey (rows ! i)) \<longleftrightarrow> s \<le> i \<and> i < e" by auto
qed

lemma span_filter:
  assumes "rows_ok rows" "valid_range rg" "span_of rows rg = (s, e)"
  shows "segment rows s e = filter (\<lambda>r. in_range_opt rg (rkey r)) rows"
  using filter_interval [of rows "\<lambda>r. in_range_opt rg (rkey r)" s e] span_of_spec [OF assms] by auto

section \<open>Lemmas: the collecting walks\<close>

definition take_limit :: "nat \<Rightarrow> 'a list \<Rightarrow> 'a list" where
  "take_limit limit xs = (if limit = 0 then xs else take limit xs)"

text \<open>What is still to be collected when \<open>out\<close> holds the rows so far.\<close>

definition room :: "nat \<Rightarrow> row list \<Rightarrow> 'a list \<Rightarrow> 'a list" where
  "room limit out xs = (if limit = 0 then xs else take (limit - length out) xs)"

lemma room_Nil [simp]: "room limit out [] = []"
  by (simp add: room_def)

lemma room_full: "\<not> below_limit limit out \<Longrightarrow> room limit out xs = []"
  by (simp add: room_def below_limit_def)

lemma room_Cons: "below_limit limit out \<Longrightarrow> room limit out (x # xs) = x # room limit (out @ [y]) xs"
  by (auto simp: room_def below_limit_def Suc_diff_Suc [symmetric])

lemma room_start [simp]: "room limit [] xs = take_limit limit xs"
  by (simp add: room_def take_limit_def)

lemma segment_Cons: "i < e \<Longrightarrow> e \<le> length xs \<Longrightarrow> segment xs i e = xs ! i # segment xs (Suc i) e"
  by (simp add: segment_def Suc_diff_Suc [symmetric] Cons_nth_drop_Suc [symmetric])

lemma segment_snoc: "s \<le> i \<Longrightarrow> i < length xs \<Longrightarrow> segment xs s (Suc i) = segment xs s i @ [xs ! i]"
  by (simp add: segment_def Suc_diff_le take_Suc_conv_app_nth)

lemma segment_split:
  assumes "s \<le> j" "j \<le> e"
  shows "segment xs s e = segment xs s j @ segment xs j e"
proof -
  have "e - s = (j - s) + (e - j)" using assms by simp
  then have "segment xs s e = take (j - s) (drop s xs) @ take (e - j) (drop (j - s) (drop s xs))"
    unfolding segment_def by (simp only: take_add)
  then show ?thesis using assms by (simp add: segment_def)
qed

lemma segment_empty [simp]: "e \<le> s \<Longrightarrow> segment xs s e = []"
  by (simp add: segment_def)

lemma collect_next_spec:
  "e \<le> length rows \<Longrightarrow> collect_next rows i e limit out = out @ room limit out (segment rows i e)"
proof (induction rows i e limit out rule: collect_next.induct)
  case (1 rows i e limit out)
  show ?case
  proof (cases "i < e \<and> below_limit limit out")
    case True
    with 1 show ?thesis
      by (simp add: collect_next.simps [of rows i e limit out] segment_Cons room_Cons [where y = "rows ! i"])
  next
    case False
    then show ?thesis by (auto simp: collect_next.simps [of rows i e limit out] room_full)
  qed
qed

text \<open>The first row of every run of rows with equal keys.\<close>

fun run_heads :: "key option \<Rightarrow> row list \<Rightarrow> row list" where
  "run_heads p [] = []"
| "run_heads p (r # rs) =
     (if (case p of None \<Rightarrow> True | Some k \<Rightarrow> cmp_keys k (rkey r) \<noteq> 0)
      then r # run_heads (Some (rkey r)) rs else run_heads (Some (rkey r)) rs)"

lemma collect_next_unique_spec:
  "s \<le> i \<Longrightarrow> e \<le> length rows \<Longrightarrow> collect_next_unique rows s i e limit out =
     out @ room limit out (run_heads (if i = s then None else Some (rkey (rows ! (i - 1)))) (segment rows i e))"
proof (induction rows s i e limit out rule: collect_next_unique.induct)
  case (1 rows s i e limit out)
  show ?case
  proof (cases "i < e \<and> below_limit limit out")
    case True
    with 1 show ?thesis
      by (auto simp: collect_next_unique.simps [of rows s i e limit out] segment_Cons room_Cons [where y = "rows ! i"])
  next
    case False
    then show ?thesis by (auto simp: collect_next_unique.simps [of rows s i e limit out] room_full)
  qed
qed

lemma collect_prev_spec:
  "i \<le> length rows \<Longrightarrow> collect_prev rows s i limit out = out @ room limit out (rev (segment rows s i))"
proof (induction rows s i limit out rule: collect_prev.induct)
  case (2 rows s i limit out)
  show ?case
  proof (cases "s \<le> i \<and> below_limit limit out")
    case True
    with 2 show ?thesis by (simp add: segment_snoc room_Cons [where y = "rows ! i"])
  next
    case False
    then show ?thesis by (auto simp: room_full)
  qed
qed simp

lemma run_heads_append:
  "run_heads p (xs @ ys) = run_heads p xs @ run_heads (if xs = [] then p else Some (rkey (last xs))) ys"
  by (induction xs arbitrary: p) auto

lemma run_heads_all_equal:
  assumes "valid_key k" "\<forall>r \<in> set rs. valid_key (rkey r) \<and> cmp_keys (rkey r) k = 0"
  shows "run_heads (Some k) rs = []"
  using assms
proof (induction rs arbitrary: k)
  case (Cons r rs)
  have r: "valid_key (rkey r)" "cmp_keys k (rkey r) = 0"
    using Cons.prems key_order.eq_sym by auto
  have "run_heads (Some (rkey r)) rs = []"
  proof (rule Cons.IH)
    show "\<forall>x \<in> set rs. valid_key (rkey x) \<and> cmp_keys (rkey x) (rkey r) = 0"
      using Cons.prems r by (auto intro: key_order.eq_trans [where b = k])
  qed (rule r(1))
  with r show ?case by simp
qed simp

lemma run_start_spec:
  assumes "s \<le> j" "run_start rows s k j = m"
  shows "s \<le> m" "m \<le> j" "\<forall>i. m \<le> i \<and> i < j \<longrightarrow> cmp_keys (rkey (rows ! i)) k = 0"
    "m = s \<or> cmp_keys (rkey (rows ! (m - 1))) k \<noteq> 0"
proof -
  have "s \<le> m \<and> m \<le> j \<and> (\<forall>i. m \<le> i \<and> i < j \<longrightarrow> cmp_keys (rkey (rows ! i)) k = 0)
    \<and> (m = s \<or> cmp_keys (rkey (rows ! (m - 1))) k \<noteq> 0)"
    using assms
  proof (induction j)
    case (Suc j)
    show ?case
    proof (cases "s \<le> j \<and> cmp_keys (rkey (rows ! j)) k = 0")
      case True
      with Suc have "s \<le> m \<and> m \<le> j \<and> (\<forall>i. m \<le> i \<and> i < j \<longrightarrow> cmp_keys (rkey (rows ! i)) k = 0)
        \<and> (m = s \<or> cmp_keys (rkey (rows ! (m - 1))) k \<noteq> 0)" by simp
      with True show ?thesis by (auto simp: less_Suc_eq)
    next
      case False
      with Suc.prems show ?thesis by auto
    qed
  qed auto
  then show "s \<le> m" "m \<le> j" "\<forall>i. m \<le> i \<and> i < j \<longrightarrow> cmp_keys (rkey (rows ! i)) k = 0"
    "m = s \<or> cmp_keys (rkey (rows ! (m - 1))) k \<noteq> 0" by auto
qed

lemma run_heads_last_run:
  assumes v: "\<forall>r \<in> set rows. valid_key (rkey r)" and i: "s < i" "i \<le> length rows"
    and j: "j = run_start rows s (rkey (rows ! (i - 1))) (i - 1)"
  shows "run_heads None (segment rows s i) = run_heads None (segment rows s j) @ [rows ! j]"
proof -
  let ?k = "rkey (rows ! (i - 1))"
  have sp: "s \<le> j" "j \<le> i - 1" "\<forall>m. j \<le> m \<and> m < i - 1 \<longrightarrow> cmp_keys (rkey (rows ! m)) ?k = 0"
    "j = s \<or> cmp_keys (rkey (rows ! (j - 1))) ?k \<noteq> 0"
    using run_start_spec [of s "i - 1" rows ?k j] i j by auto
  have vk: "valid_key (rkey (rows ! m))" if "m < length rows" for m
    using v that by simp
  have kk: "valid_key ?k" using i by (intro vk) simp
  have eqk: "cmp_keys (rkey (rows ! m)) ?k = 0" if "j \<le> m" "m < i" for m
    using sp(3) that kk by (cases "m = i - 1") (auto simp: key_order.cmp_self)
  have run: "segment rows j i = rows ! j # segment rows (Suc j) i"
    using sp i by (intro segment_Cons) auto
  have vj: "valid_key (rkey (rows ! j))" using sp i by (intro vk) simp
  have tail: "run_heads (Some (rkey (rows ! j))) (segment rows (Suc j) i) = []"
  proof (rule run_heads_all_equal)
    show "\<forall>r \<in> set (segment rows (Suc j) i). valid_key (rkey r) \<and> cmp_keys (rkey r) (rkey (rows ! j)) = 0"
    proof
      fix r assume "r \<in> set (segment rows (Suc j) i)"
      then obtain m where m: "j < m" "m < i" "r = rows ! m"
        using i by (auto simp: segment_def in_set_conv_nth intro!: that [of "Suc (j + _)"])
      then have "valid_key (rkey r)" using i vk by simp
      moreover have "cmp_keys (rkey r) ?k = 0" using m eqk by simp
      moreover have "cmp_keys ?k (rkey (rows ! j)) = 0"
        using eqk [of j] sp i by (intro key_order.eq_sym [OF vj kk]) auto
      ultimately show "valid_key (rkey r) \<and> cmp_keys (rkey r) (rkey (rows ! j)) = 0"
        using key_order.eq_trans [OF _ kk vj] by blast
    qed
  qed (rule vj)
  have head: "run_heads (if segment rows s j = [] then None else Some (rkey (last (segment rows s j)))) (segment rows j i) = [rows ! j]"
  proof (cases "j = s")
    case True
    show ?thesis using run tail unfolding True by simp
  next
    case False
    with sp have sj: "s < j" by simp
    then have snoc: "segment rows s j = segment rows s (j - 1) @ [rows ! (j - 1)]"
      using segment_snoc [of s "j - 1" rows] sp i by simp
    have "cmp_keys (rkey (rows ! (j - 1))) (rkey (rows ! j)) \<noteq> 0"
    proof
      assume "cmp_keys (rkey (rows ! (j - 1))) (rkey (rows ! j)) = 0"
      moreover have "valid_key (rkey (rows ! (j - 1)))" using sp i by (intro vk) simp
      moreover have "cmp_keys (rkey (rows ! j)) ?k = 0" using eqk [of j] sp i by auto
      ultimately have "cmp_keys (rkey (rows ! (j - 1))) ?k = 0"
        using key_order.eq_trans [OF _ vj kk] by blast
      with sp(4) False show False by simp
    qed
    then show ?thesis by (simp add: snoc run tail)
  qed
  have "segment rows s i = segment rows s j @ segment rows j i"
    using sp i by (intro segment_split) auto
  then show ?thesis by (simp add: run_heads_append head)
qed

lemma collect_prev_unique_spec:
  assumes "\<forall>r \<in> set rows. valid_key (rkey r)" "i \<le> length rows"
  shows "collect_prev_unique rows s i limit out = out @ room limit out (rev (run_heads None (segment rows s i)))"
  using assms
proof (induction rows s i limit out rule: collect_prev_unique.induct)
  case (1 rows s i limit out)
  show ?case
  proof (cases "s < i \<and> below_limit limit out")
    case True
    define j where "j = run_start rows s (rkey (rows ! (i - 1))) (i - 1)"
    have "j \<le> length rows" using "1.prems" run_start_le [of rows s "rkey (rows ! (i - 1))" "i - 1"]
      unfolding j_def by linarith
    with "1.IH" [OF True refl] "1.prems" have IH: "collect_prev_unique rows s j limit (out @ [rows ! j]) =
        (out @ [rows ! j]) @ room limit (out @ [rows ! j]) (rev (run_heads None (segment rows s j)))"
      by (simp add: j_def)
    have hd: "run_heads None (segment rows s i) = run_heads None (segment rows s j) @ [rows ! j]"
      using "1.prems" True by (intro run_heads_last_run) (auto simp: j_def)
    have "collect_prev_unique rows s i limit out = collect_prev_unique rows s j limit (out @ [rows ! j])"
      using True by (simp add: collect_prev_unique.simps [of rows s i limit out] Let_def j_def)
    with True hd IH show ?thesis by (simp add: room_Cons [where y = "rows ! j"])
  next
    case False
    then show ?thesis by (auto simp: collect_prev_unique.simps [of rows s i limit out] room_full)
  qed
qed

definition collect_spec :: "row list \<Rightarrow> direction \<Rightarrow> row list" where
  "collect_spec rows dir = (case dir of
     Next \<Rightarrow> rows | NextUnique \<Rightarrow> run_heads None rows
   | Prev \<Rightarrow> rev rows | PrevUnique \<Rightarrow> rev (run_heads None rows))"

lemma collect_rows_spec:
  assumes "rows_ok rows" "valid_range rg"
  shows "collect_rows rows rg dir limit =
     take_limit limit (collect_spec (filter (\<lambda>r. in_range_opt rg (rkey r)) rows) dir)"
proof -
  obtain s e where se: "span_of rows rg = (s, e)" by fastforce
  have le: "e \<le> length rows" using span_of_spec(2) [OF assms se] .
  have v: "\<forall>r \<in> set rows. valid_key (rkey r)" using assms(1) by (auto simp: rows_ok_def valid_row_def)
  show ?thesis
    using le v by (cases dir) (auto simp: collect_rows_def se span_filter [OF assms se, symmetric] collect_spec_def
      collect_next_spec collect_next_unique_spec collect_prev_spec collect_prev_unique_spec)
qed

text \<open>On sorted rows a run head is a row with no earlier row of the same key.\<close>

lemma run_heads_subset: "set (run_heads p rows) \<subseteq> set rows"
  by (induction p rows rule: run_heads.induct) auto

lemma run_heads_keys:
  assumes "\<forall>r \<in> set rows. valid_key (rkey r)" "r \<in> set rows"
  shows "(\<exists>q \<in> set (run_heads p rows). cmp_keys (rkey q) (rkey r) = 0) \<or>
     (\<exists>k. p = Some k \<and> (valid_key k \<longrightarrow> cmp_keys k (rkey r) = 0))"
  using assms
proof (induction p rows rule: run_heads.induct)
  case (2 p x xs)
  have vx: "valid_key (rkey x)" and vr: "valid_key (rkey r)" using 2 by auto
  show ?case
  proof (cases "r = x")
    case True
    with vx show ?thesis by (cases p) (auto simp: key_order.cmp_self)
  next
    case False
    with 2 have "(\<exists>q \<in> set (run_heads (Some (rkey x)) xs). cmp_keys (rkey q) (rkey r) = 0) \<or> cmp_keys (rkey x) (rkey r) = 0"
      by (auto split: if_splits)
    then show ?thesis
    proof
      assume "cmp_keys (rkey x) (rkey r) = 0"
      then show ?thesis using key_order.eq_trans [OF _ vx vr] by (cases p) auto
    qed auto
  qed
qed simp

end
