(* ===== verification/IdbStore.thy ===== *)
theory IdbStore
  imports IdbRows
begin

text \<open>
  The data operations of \<open>45_indexeddb.js\<close> (lines 362--493): object stores and their indexes, the
  undo log, insertion and removal of rows, index maintenance, deletion of ranges, the key generator
  and storing a record.  An operation returns the state together with its result or the value
  thrown, since what was changed before an exception stays changed until the log is rolled back.
\<close>

section \<open>State\<close>

text \<open>
  \<open>StoreData\<close> and \<open>IndexData\<close> objects are numbered; \<open>indexes\<close> is a \<open>Map\<close> in insertion order,
  \<open>maintained\<close> a \<open>Set\<close> in insertion order.
\<close>

record store_data =
  st_name :: jstr
  st_key_path :: "keypath option"
  st_auto :: bool
  st_next :: jsnum
  st_rows :: "row list"
  st_indexes :: "(jstr \<times> nat) list"
  st_maintained :: "nat list"
  st_deleted :: bool
  st_created_by :: nat

record index_data =
  ix_name :: jstr
  ix_key_path :: keypath
  ix_unique :: bool
  ix_multi :: bool
  ix_rows :: "row list"
  ix_store :: nat
  ix_populated :: bool
  ix_deleted :: bool
  ix_created_by :: nat

record db_data =
  db_version :: int
  db_stores :: "(jstr \<times> nat) list"

text \<open>\<open>Map.set\<close> keeps the position of a present key; \<open>Map.delete\<close>; \<open>Set.add\<close>; \<open>Set.delete\<close>.\<close>

definition map_set :: "'k \<Rightarrow> 'v \<Rightarrow> ('k \<times> 'v) list \<Rightarrow> ('k \<times> 'v) list" where
  "map_set k v m = AList.update k v m"

definition map_del :: "'k \<Rightarrow> ('k \<times> 'v) list \<Rightarrow> ('k \<times> 'v) list" where
  "map_del k m = AList.delete k m"

definition set_add :: "'a \<Rightarrow> 'a list \<Rightarrow> 'a list" where
  "set_add x xs = (if x \<in> set xs then xs else xs @ [x])"

definition set_del :: "'a \<Rightarrow> 'a list \<Rightarrow> 'a list" where
  "set_del x xs = filter (\<lambda>y. y \<noteq> x) xs"

text \<open>
  The closures of the undo log.  A closure captures a \<open>rows\<close> array; the array is named here by
  its owner, which still holds it when the closure runs because the log is undone last in, first
  out.
\<close>

datatype rows_ref = StoreRows nat | IndexRows nat

datatype undo =
    UnInsert rows_ref row
  | UnRemove rows_ref row
  | UnSplice nat nat "row list"
  | UnIndexRows nat "row list"
  | UnNextKey nat jsnum
  | UnPopulated nat
  | UnVersion nat int
  | UnCreateStore nat jstr nat
  | UnDeleteStore nat jstr nat
  | UnRenameStore nat jstr jstr nat "nat option"
  | UnCreateIndex nat jstr nat
  | UnDeleteIndex nat jstr nat
  | UnMaintained nat nat
  | UnRenameIndex nat jstr jstr nat "nat option"

text \<open>
  What a data operation works on: the stores, indexes and databases, the supply of identities, the
  names of the handles (a renaming changes the name of its handle too), and the undo log (its top
  first) and dirty flag of the running transaction.
\<close>

record work =
  stores :: "nat \<Rightarrow> store_data option"
  indexes :: "nat \<Rightarrow> index_data option"
  dbs :: "nat \<Rightarrow> db_data option"
  next_id :: nat
  handle_name :: "nat \<Rightarrow> jstr"
  undo_log :: "undo list"
  dirty :: bool

definition upd_store :: "nat \<Rightarrow> (store_data \<Rightarrow> store_data) \<Rightarrow> work \<Rightarrow> work" where
  "upd_store s f w = w\<lparr>stores := (stores w)(s := map_option f (stores w s))\<rparr>"

definition upd_index :: "nat \<Rightarrow> (index_data \<Rightarrow> index_data) \<Rightarrow> work \<Rightarrow> work" where
  "upd_index i f w = w\<lparr>indexes := (indexes w)(i := map_option f (indexes w i))\<rparr>"

definition upd_db :: "nat \<Rightarrow> (db_data \<Rightarrow> db_data) \<Rightarrow> work \<Rightarrow> work" where
  "upd_db d f w = w\<lparr>dbs := (dbs w)(d := map_option f (dbs w d))\<rparr>"

definition set_handle_name :: "nat option \<Rightarrow> jstr \<Rightarrow> work \<Rightarrow> work" where
  "set_handle_name h n w = (case h of None \<Rightarrow> w | Some i \<Rightarrow> w\<lparr>handle_name := (handle_name w)(i := n)\<rparr>)"

definition push_undo :: "undo \<Rightarrow> work \<Rightarrow> work" where
  "push_undo u w = w\<lparr>undo_log := u # undo_log w\<rparr>"

definition rows_at :: "work \<Rightarrow> rows_ref \<Rightarrow> row list" where
  "rows_at w r = (case r of
     StoreRows s \<Rightarrow> (case stores w s of None \<Rightarrow> [] | Some d \<Rightarrow> st_rows d)
   | IndexRows i \<Rightarrow> (case indexes w i of None \<Rightarrow> [] | Some d \<Rightarrow> ix_rows d))"

definition set_rows :: "rows_ref \<Rightarrow> row list \<Rightarrow> work \<Rightarrow> work" where
  "set_rows r rows w = (case r of
     StoreRows s \<Rightarrow> upd_store s (\<lambda>d. d\<lparr>st_rows := rows\<rparr>) w
   | IndexRows i \<Rightarrow> upd_index i (\<lambda>d. d\<lparr>ix_rows := rows\<rparr>) w)"

section \<open>The undo log\<close>

fun apply_undo :: "undo \<Rightarrow> work \<Rightarrow> work" where
  "apply_undo (UnInsert r row) w =
     set_rows r (remove_at (lower_idx (rows_at w r) (rkey row) (Some (rpk row))) (rows_at w r)) w"
| "apply_undo (UnRemove r row) w =
     set_rows r (insert_at (lower_idx (rows_at w r) (rkey row) (Some (rpk row))) row (rows_at w r)) w"
| "apply_undo (UnSplice s b removed) w =
     (let rows = rows_at w (StoreRows s) in
      set_rows (StoreRows s) (take b rows @ removed @ drop b rows) w)"
| "apply_undo (UnIndexRows i old) w = set_rows (IndexRows i) old w"
| "apply_undo (UnNextKey s n) w = upd_store s (\<lambda>d. d\<lparr>st_next := n\<rparr>) w"
| "apply_undo (UnPopulated i) w = upd_index i (\<lambda>d. d\<lparr>ix_populated := False\<rparr>) w"
| "apply_undo (UnVersion d v) w = upd_db d (\<lambda>x. x\<lparr>db_version := v\<rparr>) w"
| "apply_undo (UnCreateStore d n s) w =
     upd_store s (\<lambda>x. x\<lparr>st_deleted := True\<rparr>) (upd_db d (\<lambda>x. x\<lparr>db_stores := map_del n (db_stores x)\<rparr>) w)"
| "apply_undo (UnDeleteStore d n s) w =
     upd_store s (\<lambda>x. x\<lparr>st_deleted := False\<rparr>) (upd_db d (\<lambda>x. x\<lparr>db_stores := map_set n s (db_stores x)\<rparr>) w)"
| "apply_undo (UnRenameStore d old new s h) w =
     set_handle_name h old (upd_store s (\<lambda>x. x\<lparr>st_name := old\<rparr>)
       (upd_db d (\<lambda>x. x\<lparr>db_stores := map_set old s (map_del new (db_stores x))\<rparr>) w))"
| "apply_undo (UnCreateIndex s n i) w =
     upd_index i (\<lambda>x. x\<lparr>ix_deleted := True\<rparr>)
       (upd_store s (\<lambda>x. x\<lparr>st_indexes := map_del n (st_indexes x), st_maintained := set_del i (st_maintained x)\<rparr>) w)"
| "apply_undo (UnDeleteIndex s n i) w =
     upd_index i (\<lambda>x. x\<lparr>ix_deleted := False\<rparr>)
       (upd_store s (\<lambda>x. x\<lparr>st_indexes := map_set n i (st_indexes x)\<rparr>) w)"
| "apply_undo (UnMaintained s i) w = upd_store s (\<lambda>x. x\<lparr>st_maintained := set_add i (st_maintained x)\<rparr>) w"
| "apply_undo (UnRenameIndex s old new i h) w =
     set_handle_name h old (upd_index i (\<lambda>x. x\<lparr>ix_name := old\<rparr>)
       (upd_store s (\<lambda>x. x\<lparr>st_indexes := map_set old i (map_del new (st_indexes x))\<rparr>) w))"

text \<open>\<open>rollback(tx, mark)\<close> pops and runs closures until \<open>mark\<close> are left.\<close>

fun run_undo :: "undo list \<Rightarrow> work \<Rightarrow> work" where
  "run_undo [] w = w"
| "run_undo (u # us) w = run_undo us (apply_undo u w)"

definition rollback :: "nat \<Rightarrow> work \<Rightarrow> work" where
  "rollback mark w = (let k = length (undo_log w) - mark in
     run_undo (take k (undo_log w)) (w\<lparr>undo_log := drop k (undo_log w)\<rparr>))"

section \<open>Rows\<close>

definition rows_insert :: "rows_ref \<Rightarrow> row \<Rightarrow> work \<Rightarrow> work" where
  "rows_insert r row w =
     push_undo (UnInsert r row)
       (set_rows r (insert_at (upper_idx (rows_at w r) (rkey row) (Some (rpk row))) row (rows_at w r)) w)"

definition rows_remove :: "rows_ref \<Rightarrow> row \<Rightarrow> work \<Rightarrow> work" where
  "rows_remove r row w =
     (let i = lower_idx (rows_at w r) (rkey row) (Some (rpk row)) in
      case nth_opt (rows_at w r) i of
        None \<Rightarrow> w
      | Some x \<Rightarrow> if rid x \<noteq> rid row then w
                  else push_undo (UnRemove r row) (set_rows r (remove_at i (rows_at w r)) w))"

section \<open>Indexes\<close>

text \<open>\<open>indexKeysOf\<close>: no keys when the key path fails, is invalid or throws.\<close>

definition index_keys_of :: "index_data \<Rightarrow> clone \<Rightarrow> key list" where
  "index_keys_of ix v = (case extract_key (fst v) (snd v) (ix_key_path ix) (ix_multi ix) of
     Inr (Key k) \<Rightarrow> (case k of KArr ks \<Rightarrow> if ix_multi ix then ks else [k] | _ \<Rightarrow> [k])
   | _ \<Rightarrow> [])"

definition key_present :: "row list \<Rightarrow> key \<Rightarrow> bool" where
  "key_present rows k = (let i = lower_idx rows k None in
     i < length rows \<and> cmp_keys (rkey (rows ! i)) k = 0)"

fun index_insert_keys :: "nat \<Rightarrow> row \<Rightarrow> key list \<Rightarrow> work \<Rightarrow> work" where
  "index_insert_keys i row [] w = w"
| "index_insert_keys i row (k # ks) w =
     index_insert_keys i row ks
       (rows_insert (IndexRows i) (Row (next_id w) k (rkey row) (rval row) (Some row)) (w\<lparr>next_id := next_id w + 1\<rparr>))"

definition index_add :: "nat \<Rightarrow> row \<Rightarrow> work \<Rightarrow> work \<times> unit res" where
  "index_add i row w = (case indexes w i of
     None \<Rightarrow> (w, Inr ())
   | Some ix \<Rightarrow>
       if \<not> ix_populated ix then (w, Inr ())
       else if ix_unique ix \<and> list_ex (key_present (ix_rows ix)) (index_keys_of ix (rval row))
       then (w, Inl (DomErr ''ConstraintError''))
       else (index_insert_keys i row (index_keys_of ix (rval row)) w, Inr ()))"

fun index_remove_keys :: "nat \<Rightarrow> row \<Rightarrow> key list \<Rightarrow> work \<Rightarrow> work" where
  "index_remove_keys i row [] w = w"
| "index_remove_keys i row (k # ks) w =
     index_remove_keys i row ks
       (let rows = rows_at w (IndexRows i) in
        case nth_opt rows (lower_idx rows k (Some (rkey row))) of
          None \<Rightarrow> w
        | Some x \<Rightarrow> if map_option rid (rrec x) = Some (rid row) then rows_remove (IndexRows i) x w else w)"

definition index_remove :: "nat \<Rightarrow> row \<Rightarrow> work \<Rightarrow> work" where
  "index_remove i row w = (case indexes w i of
     None \<Rightarrow> w
   | Some ix \<Rightarrow> if \<not> ix_populated ix then w
                else index_remove_keys i row (index_keys_of ix (rval row)) w)"

definition maintained_of :: "work \<Rightarrow> nat \<Rightarrow> nat list" where
  "maintained_of w s = (case stores w s of None \<Rightarrow> [] | Some d \<Rightarrow> st_maintained d)"

text \<open>The loops \<open>for (const idx of store.maintained)\<close>; the first exception ends the loop.\<close>

fun index_remove_all :: "nat list \<Rightarrow> row \<Rightarrow> work \<Rightarrow> work" where
  "index_remove_all [] row w = w"
| "index_remove_all (i # ixs) row w = index_remove_all ixs row (index_remove i row w)"

fun index_add_all :: "nat list \<Rightarrow> row \<Rightarrow> work \<Rightarrow> work \<times> unit res" where
  "index_add_all [] row w = (w, Inr ())"
| "index_add_all (i # ixs) row w = (case index_add i row w of
     (w', Inl e) \<Rightarrow> (w', Inl e)
   | (w', Inr _) \<Rightarrow> index_add_all ixs row w')"

section \<open>Stores\<close>

definition store_row_remove :: "nat \<Rightarrow> row \<Rightarrow> work \<Rightarrow> work" where
  "store_row_remove s row w =
     index_remove_all (maintained_of w s) row (rows_remove (StoreRows s) row w)"

fun store_rows_remove :: "nat \<Rightarrow> row list \<Rightarrow> work \<Rightarrow> work" where
  "store_rows_remove s [] w = w"
| "store_rows_remove s (r # rs) w = store_rows_remove s rs (store_row_remove s r w)"

fun index_drop_rows :: "nat list \<Rightarrow> nat list \<Rightarrow> work \<Rightarrow> work" where
  "index_drop_rows [] gone w = w"
| "index_drop_rows (i # ixs) gone w =
     index_drop_rows ixs gone
       (let old = rows_at w (IndexRows i);
            kept = filter (\<lambda>r. case rrec r of None \<Rightarrow> True | Some x \<Rightarrow> rid x \<notin> set gone) old
        in if length kept = length old then w
           else push_undo (UnIndexRows i old) (set_rows (IndexRows i) kept w))"

definition store_delete :: "nat \<Rightarrow> range option \<Rightarrow> work \<Rightarrow> work" where
  "store_delete s rg w =
     (let rows = rows_at w (StoreRows s) in
      case span_of rows rg of (b, e) \<Rightarrow>
        if e = b then w
        else let w1 = w\<lparr>dirty := True\<rparr> in
          if e - b \<le> 8 then store_rows_remove s (segment rows b e) w1
          else index_drop_rows (maintained_of w1 s) (map rid (segment rows b e))
                 (push_undo (UnSplice s b (segment rows b e))
                   (set_rows (StoreRows s) (take b rows @ drop e rows) w1)))"

text \<open>The key generator: \<open>MAX_GENERATED\<close> is \<open>2^53\<close>.\<close>

definition max_generated :: jsnum where
  "max_generated = Fin 9007199254740992"

definition next_number :: "jsnum \<Rightarrow> jsnum" where
  "next_number n = (if num_le max_generated n then PInf else num_add n (Fin 1))"

definition next_key_of :: "work \<Rightarrow> nat \<Rightarrow> jsnum" where
  "next_key_of w s = (case stores w s of None \<Rightarrow> NaN | Some d \<Rightarrow> st_next d)"

definition generate_key :: "nat \<Rightarrow> work \<Rightarrow> work \<times> key res" where
  "generate_key s w = (let cur = next_key_of w s in
     if num_lt max_generated cur then (w, Inl (DomErr ''ConstraintError''))
     else (push_undo (UnNextKey s cur) (upd_store s (\<lambda>d. d\<lparr>st_next := next_number cur\<rparr>) w), Inr (KNum cur)))"

definition update_key_generator :: "nat \<Rightarrow> key \<Rightarrow> work \<Rightarrow> work" where
  "update_key_generator s k w = (case k of
     KNum n \<Rightarrow>
       (let v = num_floor (num_min n max_generated); old = next_key_of w s in
        if num_lt v old then w
        else push_undo (UnNextKey s old) (upd_store s (\<lambda>d. d\<lparr>st_next := next_number v\<rparr>) w))
   | _ \<Rightarrow> w)"

definition find_row :: "row list \<Rightarrow> key \<Rightarrow> row option" where
  "find_row rows k = (case nth_opt rows (lower_idx rows k None) of
     None \<Rightarrow> None
   | Some x \<Rightarrow> if cmp_keys (rkey x) k = 0 then Some x else None)"

text \<open>
  \<open>storeRecord\<close>: the key and value to store are settled first (\<open>resolve_key\<close>), then the record
  replaces one with an equal key.
\<close>

definition resolve_key :: "nat \<Rightarrow> clone \<Rightarrow> key option \<Rightarrow> work \<Rightarrow> work \<times> (key option \<times> clone) res" where
  "resolve_key s v k w = (case stores w s of
     None \<Rightarrow> (w, Inr (k, v))
   | Some d \<Rightarrow>
       if st_auto d then
         (case k of
            None \<Rightarrow> (case generate_key s w of
                (w', Inl e) \<Rightarrow> (w', Inl e)
              | (w', Inr g) \<Rightarrow> (case st_key_path d of
                    Some (KPath kp) \<Rightarrow> (w', Inr (Some g, (inject_key (fst v) (snd v) kp g, snd v)))
                  | _ \<Rightarrow> (w', Inr (Some g, v))))
          | Some key \<Rightarrow> (update_key_generator s key w, Inr (Some key, v)))
       else (w, Inr (k, v)))"

definition store_insert :: "nat \<Rightarrow> clone \<Rightarrow> key \<Rightarrow> work \<Rightarrow> work \<times> key res" where
  "store_insert s v k w =
     (let row = Row (next_id w) k k v None;
          w1 = rows_insert (StoreRows s) row (w\<lparr>next_id := next_id w + 1\<rparr>)
      in case index_add_all (maintained_of w1 s) row w1 of
           (w2, Inl e) \<Rightarrow> (w2, Inl e)
         | (w2, Inr _) \<Rightarrow> (w2\<lparr>dirty := True\<rparr>, Inr k))"

definition store_put :: "nat \<Rightarrow> clone \<Rightarrow> key \<Rightarrow> bool \<Rightarrow> work \<Rightarrow> work \<times> key res" where
  "store_put s v k no_overwrite w =
     (case find_row (rows_at w (StoreRows s)) k of
        Some x \<Rightarrow> if no_overwrite then (w, Inl (DomErr ''ConstraintError''))
                  else store_insert s v k (store_row_remove s x w)
      | None \<Rightarrow> store_insert s v k w)"

text \<open>
  A record without a key reaches this point only in a store with a generator; without one the
  caller has computed the key (\<open>IDBObjectStore.put\<close>), so the missing case is a \<open>TypeError\<close> of
  \<open>cmpKeys\<close>.
\<close>

definition store_record :: "nat \<Rightarrow> clone \<Rightarrow> key option \<Rightarrow> bool \<Rightarrow> work \<Rightarrow> work \<times> key res" where
  "store_record s v k no_overwrite w = (case resolve_key s v k w of
     (w1, Inl e) \<Rightarrow> (w1, Inl e)
   | (w1, Inr (None, v1)) \<Rightarrow> (w1, Inl TypeErr)
   | (w1, Inr (Some k1, v1)) \<Rightarrow> store_put s v1 k1 no_overwrite w1)"

text \<open>\<open>indexPopulate\<close>: a new index is filled from the rows of its store.\<close>

fun index_fill :: "nat \<Rightarrow> row list \<Rightarrow> work \<Rightarrow> work \<times> unit res" where
  "index_fill i [] w = (w, Inr ())"
| "index_fill i (r # rs) w = (case index_add i r w of
     (w', Inl e) \<Rightarrow> (w', Inl e)
   | (w', Inr _) \<Rightarrow> index_fill i rs w')"

definition index_populate :: "nat \<Rightarrow> work \<Rightarrow> work \<times> unit res" where
  "index_populate i w = (case indexes w i of
     None \<Rightarrow> (w, Inr ())
   | Some ix \<Rightarrow>
       (let w1 = push_undo (UnPopulated i) (upd_index i (\<lambda>x. x\<lparr>ix_populated := True\<rparr>) w)
        in index_fill i (rows_at w1 (StoreRows (ix_store ix))) w1))"

end
