(* ===== verification/IdbStoreLaws.thy ===== *)
theory IdbStoreLaws
  imports IdbStore
begin

text \<open>
  Laws of the data operations: what insertion and removal do to sorted rows, that every operation
  can be reverted by the entries it left in the undo log, that indexes stay derived from the rows
  of their store, and what storing, deleting and the key generator do.
\<close>

section \<open>Positions in sorted rows\<close>

lemma lower_idx_eqI:
  assumes "i \<le> length rows" "\<And>j. j < length rows \<Longrightarrow> cmp_row (rows ! j) k pk < 0 \<longleftrightarrow> j < i"
  shows "lower_idx rows k pk = i"
  unfolding lower_idx_def using assms by (intro bsearch_split) auto

lemma upper_idx_eqI:
  assumes "i \<le> length rows" "\<And>j. j < length rows \<Longrightarrow> cmp_row (rows ! j) k pk \<le> 0 \<longleftrightarrow> j < i"
  shows "upper_idx rows k pk = i"
  unfolding upper_idx_def using assms by (intro bsearch_split) auto

abbreviation pair_cmp :: "row \<Rightarrow> row \<Rightarrow> int" where
  "pair_cmp a b \<equiv> lex_cmp cmp_keys (pair_of a) (pair_of b)"

lemma cmp_row_pair: "cmp_row a (rkey b) (Some (rpk b)) = pair_cmp a b"
  by (simp add: cmp_row_Some) (simp add: pair_of_def)

lemma pair_flip: "valid_row a \<Longrightarrow> valid_row b \<Longrightarrow> pair_cmp b a = - pair_cmp a b"
  by (intro pair_order.cmp_flip) simp_all

lemma row_lt_flip: "valid_row a \<Longrightarrow> valid_row b \<Longrightarrow> row_lt a b \<longleftrightarrow> pair_cmp b a > 0"
  using pair_flip [of a b] by (simp add: row_lt_def)

lemma rows_ok_Nil [simp]: "rows_ok []"
  by (simp add: rows_ok_def)

lemma rows_okD: "rows_ok rows \<Longrightarrow> r \<in> set rows \<Longrightarrow> valid_row r"
  by (simp add: rows_ok_def)

lemma rows_ok_append:
  "rows_ok (xs @ ys) \<longleftrightarrow> rows_ok xs \<and> rows_ok ys \<and> (\<forall>x \<in> set xs. \<forall>y \<in> set ys. row_lt x y)"
  by (auto simp: rows_ok_def sorted_wrt_append)

lemma rows_ok_Cons: "rows_ok (x # ys) \<longleftrightarrow> valid_row x \<and> rows_ok ys \<and> (\<forall>y \<in> set ys. row_lt x y)"
  by (auto simp: rows_ok_def)

lemma rows_ok_filter: "rows_ok rows \<Longrightarrow> rows_ok (filter P rows)"
  by (auto simp: rows_ok_def sorted_wrt_filter)

text \<open>A row of the list is where the search for its key and primary key ends.\<close>

lemma lower_idx_member:
  assumes "rows_ok (xs @ x # ys)" "valid_row y" "pair_cmp x y = 0"
  shows "lower_idx (xs @ x # ys) (rkey y) (Some (rpk y)) = length xs"
proof (rule lower_idx_eqI)
  fix j assume j: "j < length (xs @ x # ys)"
  have vx: "valid_row x" and vs: "\<forall>z \<in> set xs \<union> set ys. valid_row z"
    using assms(1) by (auto simp: rows_ok_append rows_ok_Cons dest: rows_okD)
  have b: "pair_cmp z y < 0" if "z \<in> set xs" for z
    using that assms vx vs pair_order.lt_le_trans [of "pair_of z" "pair_of x" "pair_of y"]
    by (auto simp: rows_ok_append row_lt_def)
  have a: "\<not> pair_cmp z y < 0" if "z \<in> set ys" for z
  proof -
    have "pair_cmp y x = 0" using pair_flip [OF vx assms(2)] assms(3) by simp
    moreover have "pair_cmp x z < 0" using that assms(1) by (auto simp: rows_ok_append rows_ok_Cons row_lt_def)
    ultimately have "pair_cmp y z < 0"
      using pair_order.le_lt_trans [of "pair_of y" "pair_of x" "pair_of z"] that assms(2) vx vs
      by (simp del: lex_cmp.simps)
    then show ?thesis using that assms(2) vs pair_flip [of z y] by auto
  qed
  show "cmp_row ((xs @ x # ys) ! j) (rkey y) (Some (rpk y)) < 0 \<longleftrightarrow> j < length xs"
  proof (cases "j < length xs")
    case True
    with b show ?thesis by (simp add: cmp_row_pair nth_append)
  next
    case False
    then have "(xs @ x # ys) ! j = (x # ys) ! (j - length xs)" by (simp add: nth_append)
    with False j have "(xs @ x # ys) ! j \<in> set (x # ys)"
      using nth_mem [of "j - length xs" "x # ys"] by simp
    with a assms(3) False show ?thesis by (auto simp: cmp_row_pair simp del: lex_cmp.simps)
  qed
qed simp

text \<open>A probe equal to no row splits the rows at one position, which both searches return.\<close>

lemma probe_split:
  assumes "rows_ok rows" "valid_row y" "\<forall>z \<in> set rows. pair_cmp z y \<noteq> 0"
  obtains xs ys where "rows = xs @ ys" "rows_ok (xs @ y # ys)"
    "upper_idx rows (rkey y) (Some (rpk y)) = length xs" "lower_idx rows (rkey y) (Some (rpk y)) = length xs"
proof -
  have v: "valid_key (rkey y)" "\<forall>p \<in> set_option (Some (rpk y)). valid_key p"
    using assms(2) by (simp_all add: valid_row_def)
  define i where "i = upper_idx rows (rkey y) (Some (rpk y))"
  note U = upper_idx_spec [OF assms(1) v, folded i_def]
  have lt: "pair_cmp (rows ! j) y < 0 \<longleftrightarrow> j < i" if "j < length rows" for j
    using that U(2) [of j] assms(3) by (auto simp: cmp_row_pair order.order_iff_strict)
  have l: "lower_idx rows (rkey y) (Some (rpk y)) = i"
    using U(1) lt by (intro lower_idx_eqI) (auto simp: cmp_row_pair)
  have "rows_ok (take i rows) \<and> rows_ok (drop i rows) \<and> (\<forall>x \<in> set (take i rows). \<forall>y \<in> set (drop i rows). row_lt x y)"
    using assms(1) rows_ok_append [of "take i rows" "drop i rows"] by simp
  moreover have "row_lt z y" if z: "z \<in> set (take i rows)" for z
    using z lt U(1) by (auto simp: in_set_conv_nth row_lt_def)
  moreover have "row_lt y z" if z: "z \<in> set (drop i rows)" for z
  proof -
    from z have zr: "z \<in> set rows" by (meson in_set_dropD)
    from z obtain j where j: "j < length (drop i rows)" "z = drop i rows ! j" by (auto simp: in_set_conv_nth)
    with lt [of "i + j"] U(1) have "\<not> pair_cmp z y < 0" by simp
    with zr assms have "pair_cmp z y > 0" by force
    with zr assms show ?thesis by (simp add: row_lt_flip rows_okD)
  qed
  ultimately have "rows_ok (take i rows @ y # drop i rows)"
    using assms(2) by (auto simp: rows_ok_append rows_ok_Cons)
  then show ?thesis
    using l U(1) by (intro that [of "take i rows" "drop i rows"]) (simp_all add: i_def [symmetric])
qed

lemma insert_at_append [simp]: "insert_at (length xs) x (xs @ ys) = xs @ x # ys"
  by (simp add: insert_at_def)

lemma remove_at_append [simp]: "remove_at (length xs) (xs @ x # ys) = xs @ ys"
  by (simp add: remove_at_def)

section \<open>Reverting\<close>

text \<open>The data of a work state, which a rollback restores; identities and the dirty flag are not undone.\<close>

definition same_data :: "work \<Rightarrow> work \<Rightarrow> bool" where
  "same_data a b = (stores a = stores b \<and> indexes a = indexes b \<and> dbs a = dbs b)"

lemma same_data_refl [simp]: "same_data w w"
  and same_data_sym: "same_data a b \<Longrightarrow> same_data b a"
  and same_data_trans: "same_data a b \<Longrightarrow> same_data b c \<Longrightarrow> same_data a c"
  by (auto simp: same_data_def)

lemma same_data_rows_at: "same_data a b \<Longrightarrow> rows_at a r = rows_at b r"
  by (cases r) (auto simp: same_data_def rows_at_def)

lemma apply_undo_same: "same_data a b \<Longrightarrow> same_data (apply_undo u a) (apply_undo u b)"
  by (cases u) (auto simp: same_data_def rows_at_def set_rows_def upd_store_def upd_index_def upd_db_def Let_def
    set_handle_name_def split: rows_ref.splits option.splits)

lemma run_undo_same: "same_data a b \<Longrightarrow> same_data (run_undo us a) (run_undo us b)"
  by (induction us arbitrary: a b) (auto intro: apply_undo_same)

lemma run_undo_append: "run_undo (us @ vs) w = run_undo vs (run_undo us w)"
  by (induction us arbitrary: w) auto

definition reverts :: "work \<Rightarrow> work \<Rightarrow> bool" where
  "reverts w w' = (\<exists>us. undo_log w' = us @ undo_log w \<and> same_data (run_undo us w') w)"

lemma reverts_refl [intro]: "undo_log w' = undo_log w \<Longrightarrow> same_data w' w \<Longrightarrow> reverts w w'"
  unfolding reverts_def by (rule exI [of _ "[]"]) simp

lemma reverts_trans [trans]:
  assumes "reverts a b" "reverts b c"
  shows "reverts a c"
proof -
  obtain us vs where "undo_log b = us @ undo_log a" "same_data (run_undo us b) a"
    "undo_log c = vs @ undo_log b" "same_data (run_undo vs c) b"
    using assms by (auto simp: reverts_def)
  then have "undo_log c = (vs @ us) @ undo_log a" "same_data (run_undo (vs @ us) c) a"
    by (auto simp: run_undo_append intro: same_data_trans run_undo_same)
  then show ?thesis unfolding reverts_def by blast
qed

lemma reverts_push:
  assumes "undo_log w1 = undo_log w" "same_data (apply_undo u w1) w"
  shows "reverts w (push_undo u w1)"
proof -
  have "same_data (apply_undo u (push_undo u w1)) w"
    by (rule same_data_trans [OF apply_undo_same assms(2)]) (simp add: same_data_def push_undo_def)
  then show ?thesis
    unfolding reverts_def using assms(1) by (intro exI [of _ "[u]"]) (simp add: push_undo_def)
qed

lemma run_undo_log: "undo_log (apply_undo u w) = undo_log w"
  by (cases u) (auto simp: set_handle_name_def set_rows_def upd_store_def upd_index_def upd_db_def Let_def split: rows_ref.splits option.splits)

lemma run_undo_logs [simp]: "undo_log (run_undo us w) = undo_log w"
  by (induction us arbitrary: w) (simp_all add: run_undo_log)

text \<open>Rolling back to the length of the log before an operation restores the data and the log.\<close>

lemma rollback_reverts:
  assumes "reverts w w'"
  shows "same_data (rollback (length (undo_log w)) w') w"
    and "undo_log (rollback (length (undo_log w)) w') = undo_log w"
proof -
  obtain us where us: "undo_log w' = us @ undo_log w" "same_data (run_undo us w') w"
    using assms by (auto simp: reverts_def)
  have "same_data (run_undo us (w'\<lparr>undo_log := undo_log w\<rparr>)) w"
    by (rule same_data_trans [OF run_undo_same us(2)]) (simp add: same_data_def)
  then show "same_data (rollback (length (undo_log w)) w') w"
    "undo_log (rollback (length (undo_log w)) w') = undo_log w"
    using us(1) by (simp_all add: rollback_def)
qed

section \<open>Rows of a store or an index\<close>

definition has_rows :: "work \<Rightarrow> rows_ref \<Rightarrow> bool" where
  "has_rows w r = (case r of StoreRows s \<Rightarrow> stores w s \<noteq> None | IndexRows i \<Rightarrow> indexes w i \<noteq> None)"

lemma rows_at_set_rows [simp]:
  "has_rows w r \<Longrightarrow> rows_at (set_rows r rows w) r' = (if r = r' then rows else rows_at w r')"
  by (auto simp: has_rows_def set_rows_def rows_at_def upd_store_def upd_index_def split: rows_ref.splits)

lemma set_rows_twice [simp]: "set_rows r b (set_rows r a w) = set_rows r b w"
  by (auto simp: set_rows_def upd_store_def upd_index_def option.map_comp comp_def split: rows_ref.splits)

lemma set_rows_same [simp]: "has_rows w r \<Longrightarrow> set_rows r (rows_at w r) w = w"
  by (auto simp: has_rows_def set_rows_def rows_at_def upd_store_def upd_index_def fun_upd_idem split: rows_ref.splits)

lemma set_rows_log [simp]: "undo_log (set_rows r rows w) = undo_log w"
  "next_id (set_rows r rows w) = next_id w" "dirty (set_rows r rows w) = dirty w" "dbs (set_rows r rows w) = dbs w"
  by (auto simp: set_rows_def upd_store_def upd_index_def split: rows_ref.splits)

lemma push_undo_simps [simp]:
  "stores (push_undo u w) = stores w" "indexes (push_undo u w) = indexes w" "dbs (push_undo u w) = dbs w"
  "next_id (push_undo u w) = next_id w" "dirty (push_undo u w) = dirty w" "undo_log (push_undo u w) = u # undo_log w"
  "rows_at (push_undo u w) r = rows_at w r" "has_rows (push_undo u w) r = has_rows w r"
  by (auto simp: push_undo_def rows_at_def has_rows_def split: rows_ref.splits)

lemma has_rows_set_rows [simp]: "has_rows (set_rows r rows w) r' = has_rows w r'"
  by (auto simp: has_rows_def set_rows_def upd_store_def upd_index_def split: rows_ref.splits)

text \<open>
  Inserting a row that is equal to none keeps the order, adds exactly that row, and can be
  reverted; removing a row that is present likewise.
\<close>

lemma rows_insert_spec:
  assumes "has_rows w r" "rows_ok (rows_at w r)" "valid_row x" "\<forall>z \<in> set (rows_at w r). pair_cmp z x \<noteq> 0"
  obtains xs ys where "rows_at w r = xs @ ys" "rows_ok (xs @ x # ys)"
    "rows_insert r x w = push_undo (UnInsert r x) (set_rows r (xs @ x # ys) w)" "reverts w (rows_insert r x w)"
proof -
  obtain xs ys where s: "rows_at w r = xs @ ys" "rows_ok (xs @ x # ys)"
    "upper_idx (rows_at w r) (rkey x) (Some (rpk x)) = length xs"
    using probe_split [OF assms(2,3,4)] by blast
  have i: "rows_insert r x w = push_undo (UnInsert r x) (set_rows r (xs @ x # ys) w)"
    using s(3) by (simp add: rows_insert_def s(1))
  have l: "lower_idx (xs @ x # ys) (rkey x) (Some (rpk x)) = length xs"
    using s(2) assms(3) by (intro lower_idx_member) (simp_all add: pair_order.cmp_self)
  have "set_rows r (xs @ ys) w = w" using set_rows_same [OF assms(1)] s(1) by simp
  then have "reverts w (rows_insert r x w)"
    unfolding i using assms(1) l by (intro reverts_push) simp_all
  with s i that show ?thesis by blast
qed

lemma rows_remove_spec:
  assumes "has_rows w r" "rows_at w r = xs @ x # ys" "rows_ok (xs @ x # ys)"
  shows "rows_remove r x w = push_undo (UnRemove r x) (set_rows r (xs @ ys) w)" "reverts w (rows_remove r x w)"
proof -
  have v: "valid_row x" using assms(3) by (simp add: rows_ok_append rows_ok_Cons)
  have l: "lower_idx (xs @ x # ys) (rkey x) (Some (rpk x)) = length xs"
    using assms(3) v by (intro lower_idx_member) (simp_all add: pair_order.cmp_self)
  show i: "rows_remove r x w = push_undo (UnRemove r x) (set_rows r (xs @ ys) w)"
    using l assms(2) by (simp add: rows_remove_def Let_def nth_opt_def)
  have ok: "rows_ok (xs @ ys)" using assms(3) by (simp add: rows_ok_append rows_ok_Cons)
  have ne: "pair_cmp z x \<noteq> 0" if "z \<in> set (xs @ ys)" for z
    using that assms(3) v pair_flip [of x z]
    by (auto simp: rows_ok_append rows_ok_Cons row_lt_def rows_okD simp del: lex_cmp.simps)
  have l2: "lower_idx (xs @ ys) (rkey x) (Some (rpk x)) = length xs"
  proof (rule lower_idx_eqI)
    fix j assume j: "j < length (xs @ ys)"
    have b: "pair_cmp z x < 0" if "z \<in> set xs" for z
      using that assms(3) by (auto simp: rows_ok_append row_lt_def)
    have a: "\<not> pair_cmp z x < 0" if "z \<in> set ys" for z
      using that assms(3) v row_lt_flip [of x z] by (auto simp: rows_ok_append rows_ok_Cons rows_okD)
    show "cmp_row ((xs @ ys) ! j) (rkey x) (Some (rpk x)) < 0 \<longleftrightarrow> j < length xs"
      using j a [OF nth_mem, of "j - length xs"] b [OF nth_mem, of j] by (auto simp: cmp_row_pair nth_append)
  qed simp
  have "set_rows r (xs @ x # ys) w = w" using set_rows_same [OF assms(1)] assms(2) by simp
  then show "reverts w (rows_remove r x w)"
    unfolding i using assms(1) l2 by (intro reverts_push) simp_all
qed

section \<open>Lookup by key\<close>

lemma lower_key_split:
  assumes "rows_ok rows" "valid_key k"
  shows "lower_idx rows k None \<le> length rows"
    and "i < length rows \<Longrightarrow> cmp_keys (rkey (rows ! i)) k < 0 \<longleftrightarrow> i < lower_idx rows k None"
  using lower_idx_spec [of rows k None] assms by auto

lemma lower_key_hit:
  assumes "rows_ok rows" "valid_key k" "q \<in> set rows" "cmp_keys (rkey q) k = 0"
  shows "lower_idx rows k None < length rows \<and> cmp_keys (rkey (rows ! lower_idx rows k None)) k = 0"
proof -
  note L = lower_key_split [OF assms(1,2)]
  obtain j where j: "j < length rows" "rows ! j = q" using assms(3) by (auto simp: in_set_conv_nth)
  let ?i = "lower_idx rows k None"
  have ij: "?i \<le> j" using L(2) [OF j(1)] j(2) assms(4) by auto
  with j have lt: "?i < length rows" by simp
  have vi: "valid_key (rkey (rows ! ?i))" "valid_key (rkey q)"
    using rows_okD [OF assms(1) nth_mem [OF lt]] rows_okD [OF assms(1,3)] by (simp_all add: valid_row_def)
  have "cmp_keys (rkey (rows ! ?i)) k \<le> 0"
  proof (cases "?i = j")
    case False
    with ij j assms(1) have "row_lt (rows ! ?i) q" by (auto simp: rows_ok_def sorted_wrt_iff_nth_less)
    then have "cmp_keys (rkey (rows ! ?i)) (rkey q) \<le> 0" by (rule row_lt_key)
    with assms vi key_order.cmp_le_trans [of "rkey (rows ! ?i)" "rkey q" k] show ?thesis by simp
  qed (use j assms in simp)
  with L(2) [OF lt] lt show ?thesis by simp
qed

lemma key_present_iff:
  assumes "rows_ok rows" "valid_key k"
  shows "key_present rows k \<longleftrightarrow> (\<exists>q \<in> set rows. cmp_keys (rkey q) k = 0)"
  using lower_key_hit [OF assms] by (auto simp: key_present_def Let_def)

lemma find_row_Some: "find_row rows k = Some x \<Longrightarrow> x \<in> set rows \<and> cmp_keys (rkey x) k = 0"
  by (auto simp: find_row_def split: option.splits if_splits)

lemma find_row_None:
  assumes "rows_ok rows" "valid_key k" "find_row rows k = None"
  shows "\<forall>x \<in> set rows. cmp_keys (rkey x) k \<noteq> 0"
proof (intro ballI notI)
  fix x assume "x \<in> set rows" "cmp_keys (rkey x) k = 0"
  from lower_key_hit [OF assms(1,2) this] assms(3) show False by (simp add: find_row_def nth_opt_def)
qed

lemma find_row_hit:
  assumes "rows_ok rows" "valid_key k" "x \<in> set rows" "cmp_keys (rkey x) k = 0"
    "\<And>y. y \<in> set rows \<Longrightarrow> cmp_keys (rkey y) k = 0 \<Longrightarrow> y = x"
  shows "find_row rows k = Some x"
  using lower_key_hit [OF assms(1-4)] assms(5) [of "rows ! lower_idx rows k None"]
  by (simp add: find_row_def nth_opt_def)

section \<open>The keys of an index\<close>

lemma to_key_top_array: "to_key_top h v = Inr (Some (KArr ks)) \<Longrightarrow> \<exists>r xs. v = Obj r \<and> cls_of h v = Some (CArr xs)"
  by (cases v) (auto simp: to_key_top_def drop_path_def cls_of_def split: sum.splits option.splits if_splits objclass.splits)

lemma index_keys_ok: "sorted_wrt (\<lambda>x y. \<not> key_eq x y) (index_keys_of ix v) \<and> list_all valid_key (index_keys_of ix v)"
proof (cases "extract_key (fst v) (snd v) (ix_key_path ix) (ix_multi ix)")
  case (Inr e)
  show ?thesis
  proof (cases e)
    case (Key k)
    with Inr obtain h x where x: "(if ix_multi ix then to_multi_entry_key h x else to_key_top h x) = Inr (Some k)"
      by (auto simp: extract_key_def split: sum.splits option.splits)
    show ?thesis
    proof (cases "ix_multi ix \<and> (\<exists>r xs. x = Obj r \<and> cls_of h x = Some (CArr xs))")
      case True
      then obtain r xs where r: "x = Obj r" "cls_of h x = Some (CArr xs)" by blast
      with x True obtain ks where "k = KArr ks" by (auto simp: to_multi_entry_key_def)
      with True x r Inr Key multi_entry_distinct [of h x ks r xs] show ?thesis
        by (simp add: index_keys_of_def)
    next
      case False
      with x have t: "to_key_top h x = Inr (Some k)"
        by (auto simp: to_multi_entry_key_def split: jsval.splits option.splits objclass.splits if_splits)
      then have "valid_key k" by (rule to_key_top_valid)
      moreover have "index_keys_of ix v = [k]"
        using False Inr Key t to_key_top_array [of h x] by (auto simp: index_keys_of_def split: key.splits)
      ultimately show ?thesis by simp
    qed
  qed (use Inr in \<open>simp_all add: index_keys_of_def\<close>)
qed (simp add: index_keys_of_def)

section \<open>Index maintenance\<close>

lemma pair_cmp_0_iff:
  assumes "valid_row a" "valid_row b"
  shows "pair_cmp a b = 0 \<longleftrightarrow> cmp_keys (rkey a) (rkey b) = 0 \<and> cmp_keys (rpk a) (rpk b) = 0"
  by (auto simp: pair_of_def Let_def)

text \<open>\<open>rows'\<close> holds \<open>rows\<close> and one index row of \<open>row\<close> for each of the keys.\<close>

definition index_rows_added :: "row \<Rightarrow> key list \<Rightarrow> row list \<Rightarrow> row list \<Rightarrow> bool" where
  "index_rows_added row ks rows rows' =
     (rows_ok rows' \<and> set rows \<subseteq> set rows' \<and>
      (\<forall>q \<in> set rows' - set rows. rrec q = Some row \<and> rpk q = rkey row \<and> rkey q \<in> set ks) \<and>
      (\<forall>k \<in> set ks. \<exists>q \<in> set rows'. rrec q = Some row \<and> rpk q = rkey row \<and> rkey q = k) \<and>
      filter (\<lambda>q. rrec q \<noteq> Some row) rows' = filter (\<lambda>q. rrec q \<noteq> Some row) rows)"

text \<open>What an operation on one index leaves: its rows, and everything else as it was.\<close>

definition index_step :: "nat \<Rightarrow> row list \<Rightarrow> work \<Rightarrow> work \<Rightarrow> bool" where
  "index_step i rows' w w' = (same_data w' (set_rows (IndexRows i) rows' w) \<and> reverts w w' \<and>
     dirty w' = dirty w \<and> next_id w \<le> next_id w')"

lemma same_data_set_rows: "same_data a b \<Longrightarrow> same_data (set_rows r rows a) (set_rows r rows b)"
  by (auto simp: same_data_def set_rows_def upd_store_def upd_index_def split: rows_ref.splits)

lemma same_data_has_rows: "same_data a b \<Longrightarrow> has_rows a r = has_rows b r"
  by (auto simp: same_data_def has_rows_def split: rows_ref.splits)

lemma index_step_trans:
  assumes "index_step i a w w1" "index_step i b w1 w2"
  shows "index_step i b w w2"
  using assms same_data_trans [OF _ same_data_set_rows, of w2 "IndexRows i" b w1 "set_rows (IndexRows i) a w"]
  by (auto simp: index_step_def intro: reverts_trans)

lemma index_step_refl: "has_rows w (IndexRows i) \<Longrightarrow> index_step i (rows_at w (IndexRows i)) w w"
  by (auto simp: index_step_def)

lemma index_step_rows:
  assumes "index_step i rows w w'" "has_rows w (IndexRows i)"
  shows "rows_at w' (IndexRows i) = rows" "has_rows w' (IndexRows i)"
  using assms same_data_rows_at [of w' "set_rows (IndexRows i) rows w" "IndexRows i"]
  by (auto simp: index_step_def same_data_has_rows)

lemma reverts_start: "reverts (w\<lparr>next_id := n\<rparr>) w' \<longleftrightarrow> reverts w w'" "reverts (w\<lparr>dirty := b\<rparr>) w' \<longleftrightarrow> reverts w w'"
  by (auto simp: reverts_def same_data_def)

lemma fresh_id_simps [simp]:
  "rows_at (w\<lparr>next_id := n\<rparr>) r = rows_at w r" "has_rows (w\<lparr>next_id := n\<rparr>) r = has_rows w r"
  "rows_at (w\<lparr>dirty := b\<rparr>) r = rows_at w r" "has_rows (w\<lparr>dirty := b\<rparr>) r = has_rows w r"
  by (auto simp: rows_at_def has_rows_def split: rows_ref.splits)

lemma index_insert_keys_spec:
  assumes "has_rows w (IndexRows i)" "rows_ok (rows_at w (IndexRows i))" "valid_row row"
    "sorted_wrt (\<lambda>x y. \<not> key_eq x y) ks" "list_all valid_key ks"
    "\<forall>q \<in> set (rows_at w (IndexRows i)). cmp_keys (rpk q) (rkey row) = 0 \<longrightarrow> (\<forall>k \<in> set ks. cmp_keys (rkey q) k \<noteq> 0)"
  shows "\<exists>rows'. index_step i rows' w (index_insert_keys i row ks w) \<and>
     index_rows_added row ks (rows_at w (IndexRows i)) rows'"
  using assms
proof (induction ks arbitrary: w)
  case Nil
  then show ?case
    by (intro exI [of _ "rows_at w (IndexRows i)"]) (simp add: index_step_refl index_rows_added_def)
next
  case (Cons k ks)
  let ?x = "Row (next_id w) k (rkey row) (rval row) (Some row)"
  let ?w = "w\<lparr>next_id := next_id w + 1\<rparr>" and ?rows = "rows_at w (IndexRows i)"
  let ?w1 = "rows_insert (IndexRows i) ?x ?w"
  have vx: "valid_row ?x" using Cons.prems by (simp add: valid_row_def)
  have "\<forall>z \<in> set ?rows. pair_cmp z ?x \<noteq> 0"
    using Cons.prems(2,6) vx by (auto simp: pair_cmp_0_iff rows_okD simp del: lex_cmp.simps)
  then obtain xs ys where ins: "?rows = xs @ ys" "rows_ok (xs @ ?x # ys)"
      "?w1 = push_undo (UnInsert (IndexRows i) ?x) (set_rows (IndexRows i) (xs @ ?x # ys) ?w)" "reverts ?w ?w1"
    using rows_insert_spec [of ?w "IndexRows i" ?x] Cons.prems(1,2) vx by auto
  have s1: "index_step i (xs @ ?x # ys) w ?w1"
    using ins(3,4) by (auto simp: index_step_def reverts_start same_data_def set_rows_def upd_index_def)
  have r1: "rows_at ?w1 (IndexRows i) = xs @ ?x # ys" "has_rows ?w1 (IndexRows i)"
    using index_step_rows [OF s1 Cons.prems(1)] by auto
  have "\<forall>q \<in> set (rows_at ?w1 (IndexRows i)). cmp_keys (rpk q) (rkey row) = 0 \<longrightarrow> (\<forall>k' \<in> set ks. cmp_keys (rkey q) k' \<noteq> 0)"
    using Cons.prems(4,6) r1 ins(1) by (auto simp: key_eq_def)
  then obtain rows' where r': "index_step i rows' ?w1 (index_insert_keys i row ks ?w1)"
      "index_rows_added row ks (xs @ ?x # ys) rows'"
    using Cons.IH [of ?w1] Cons.prems(3-5) r1 ins(2) by auto
  have "\<exists>q \<in> set rows'. rrec q = Some row \<and> rpk q = rkey row \<and> rkey q = k"
    using r'(2) by (intro bexI [of _ ?x]) (auto simp: index_rows_added_def)
  then have "index_rows_added row (k # ks) ?rows rows'"
    using r'(2) ins(1) unfolding index_rows_added_def by auto
  with index_step_trans [OF s1 r'(1)] show ?case by auto
qed

text \<open>The index rows are exactly the rows derived from the rows of the store.\<close>

definition index_ok :: "index_data \<Rightarrow> row list \<Rightarrow> bool" where
  "index_ok ix rows =
     (rows_ok (ix_rows ix) \<and>
      (\<forall>q \<in> set (ix_rows ix). \<exists>r \<in> set rows. rrec q = Some r \<and> rpk q = rkey r \<and> rkey q \<in> set (index_keys_of ix (rval r))) \<and>
      (\<forall>r \<in> set rows. \<forall>k \<in> set (index_keys_of ix (rval r)). \<exists>q \<in> set (ix_rows ix). rrec q = Some r \<and> rkey q = k) \<and>
      (ix_unique ix \<longrightarrow> (\<forall>q \<in> set (ix_rows ix). \<forall>q' \<in> set (ix_rows ix). cmp_keys (rkey q) (rkey q') = 0 \<longrightarrow> q = q')))"

lemma index_keys_of_rows [simp]: "index_keys_of (ix\<lparr>ix_rows := rows\<rparr>) v = index_keys_of ix v"
  by (simp add: index_keys_of_def split: sum.split extracted.split key.split)

lemma rows_ok_inj:
  assumes "rows_ok rows" "a \<in> set rows" "b \<in> set rows" "cmp_keys (rkey a) (rkey b) = 0" "cmp_keys (rpk a) (rpk b) = 0"
  shows "a = b"
proof (rule ccontr)
  assume "a \<noteq> b"
  obtain i j where ij: "i < length rows" "j < length rows" "rows ! i = a" "rows ! j = b"
    using assms(2,3) by (auto simp: in_set_conv_nth)
  with \<open>a \<noteq> b\<close> have "row_lt a b \<or> row_lt b a"
    using assms(1) by (metis rows_ok_def sorted_wrt_iff_nth_less linorder_neqE_nat)
  moreover have "pair_cmp a b = 0" using assms by (simp add: pair_of_def Let_def)
  ultimately show False
    using pair_flip [of a b] rows_okD [OF assms(1,2)] rows_okD [OF assms(1,3)] by (simp add: row_lt_def)
qed

lemma index_ok_added:
  assumes ok: "index_ok ix rows" and new: "index_rows_added row ks (ix_rows ix) rows'"
    and ks: "ks = index_keys_of ix (rval row)" and rows2: "set rows2 = insert row (set rows)"
    and free: "ix_unique ix \<Longrightarrow> \<forall>k \<in> set ks. \<forall>q \<in> set (ix_rows ix). cmp_keys (rkey q) k \<noteq> 0"
    and vr: "valid_key (rkey row)"
  shows "index_ok (ix\<lparr>ix_rows := rows'\<rparr>) rows2"
proof -
  note O = ok [unfolded index_ok_def] and N = new [unfolded index_rows_added_def]
  have K: "sorted_wrt (\<lambda>x y. \<not> key_eq x y) ks" "list_all valid_key ks" using index_keys_ok ks by auto
  have uniq: "q = q'" if u: "ix_unique ix" and qs: "q \<in> set rows'" "q' \<in> set rows'" "cmp_keys (rkey q) (rkey q') = 0" for q q'
  proof -
    have v: "valid_key (rkey q)" "valid_key (rkey q')"
      using N qs by (auto dest: rows_okD simp: valid_row_def)
    have s: "cmp_keys (rkey q') (rkey q) = 0" using key_order.eq_sym [OF v qs(3)] .
    consider "q \<in> set (ix_rows ix)" "q' \<in> set (ix_rows ix)" | "q \<in> set (ix_rows ix)" "q' \<notin> set (ix_rows ix)"
      | "q \<notin> set (ix_rows ix)" "q' \<in> set (ix_rows ix)" | "q \<notin> set (ix_rows ix)" "q' \<notin> set (ix_rows ix)" by blast
    then show ?thesis
    proof cases
      case 4
      then have "rpk q = rkey row" "rpk q' = rkey row" using N qs by auto
      then have "cmp_keys (rpk q) (rpk q') = 0" using vr by (simp add: key_order.cmp_self)
      then show ?thesis using rows_ok_inj [OF _ qs(1,2,3)] N by blast
    qed (use O N u qs s free in blast)+
  qed
  have c2: "\<exists>r \<in> set rows2. rrec q = Some r \<and> rpk q = rkey r \<and> rkey q \<in> set (index_keys_of ix (rval r))" if "q \<in> set rows'" for q
  proof (cases "q \<in> set (ix_rows ix)")
    case True
    with O obtain r where "r \<in> set rows" "rrec q = Some r" "rpk q = rkey r" "rkey q \<in> set (index_keys_of ix (rval r))" by blast
    with rows2 show ?thesis by auto
  next
    case False
    with that N have "rrec q = Some row" "rpk q = rkey row" "rkey q \<in> set ks" by auto
    with rows2 ks show ?thesis by auto
  qed
  have c3: "\<exists>q \<in> set rows'. rrec q = Some r \<and> rkey q = k" if "r \<in> set rows2" "k \<in> set (index_keys_of ix (rval r))" for r k
  proof (cases "r = row")
    case True
    with that N ks show ?thesis by blast
  next
    case False
    with that rows2 have "r \<in> set rows" by simp
    with that O obtain q where "q \<in> set (ix_rows ix)" "rrec q = Some r" "rkey q = k" by blast
    with N show ?thesis by blast
  qed
  show ?thesis unfolding index_ok_def using N uniq c2 c3 by simp
qed

text \<open>A unique index already holds one of the keys.\<close>

definition index_conflict :: "index_data \<Rightarrow> clone \<Rightarrow> bool" where
  "index_conflict ix v = (ix_populated ix \<and> ix_unique ix \<and>
     (\<exists>k \<in> set (index_keys_of ix v). \<exists>q \<in> set (ix_rows ix). cmp_keys (rkey q) k = 0))"

lemma index_add_spec:
  assumes "indexes w i = Some ix" "ix_populated ix" "index_ok ix rows" "valid_row row"
    "\<forall>r \<in> set rows. cmp_keys (rkey r) (rkey row) \<noteq> 0" "set rows2 = insert row (set rows)"
  shows "if index_conflict ix (rval row) then index_add i row w = (w, Inl (DomErr ''ConstraintError''))
     else \<exists>rows' w'. index_add i row w = (w', Inr ()) \<and> index_step i rows' w w' \<and> index_ok (ix\<lparr>ix_rows := rows'\<rparr>) rows2"
proof -
  let ?ks = "index_keys_of ix (rval row)"
  have K: "sorted_wrt (\<lambda>x y. \<not> key_eq x y) ?ks" "list_all valid_key ?ks" using index_keys_ok by auto
  have at: "rows_at w (IndexRows i) = ix_rows ix" "has_rows w (IndexRows i)"
    using assms(1) by (simp_all add: rows_at_def has_rows_def)
  have ok: "rows_ok (ix_rows ix)" using assms(3) by (simp add: index_ok_def)
  have pres: "list_ex (key_present (ix_rows ix)) ?ks \<longleftrightarrow> (\<exists>k \<in> set ?ks. \<exists>q \<in> set (ix_rows ix). cmp_keys (rkey q) k = 0)"
    using K(2) by (auto simp: list_ex_iff list_all_iff key_present_iff [OF ok])
  show ?thesis
  proof (cases "ix_unique ix \<and> list_ex (key_present (ix_rows ix)) ?ks")
    case True
    with assms(1,2) pres show ?thesis by (simp add: index_add_def index_conflict_def)
  next
    case False
    have "\<forall>q \<in> set (ix_rows ix). cmp_keys (rpk q) (rkey row) = 0 \<longrightarrow> (\<forall>k \<in> set ?ks. cmp_keys (rkey q) k \<noteq> 0)"
      using assms(3,5) by (fastforce simp: index_ok_def)
    then obtain rows' where r': "index_step i rows' w (index_insert_keys i row ?ks w)"
        "index_rows_added row ?ks (ix_rows ix) rows'"
      using index_insert_keys_spec [of w i row ?ks] at ok assms(4) K by auto
    have "index_ok (ix\<lparr>ix_rows := rows'\<rparr>) rows2"
      using False pres assms(4) by (intro index_ok_added [OF assms(3) r'(2) refl assms(6)]) (auto simp: valid_row_def)
    with r'(1) False assms(1,2) pres show ?thesis by (auto simp: index_add_def index_conflict_def)
  qed
qed

text \<open>Removing the index rows of a row: the search finds each of them.\<close>

lemma index_remove_keys_spec:
  assumes "has_rows w (IndexRows i)" "rows_ok (rows_at w (IndexRows i))" "valid_row row" "rpk row = rkey row"
    "sorted_wrt (\<lambda>x y. \<not> key_eq x y) ks" "list_all valid_key ks"
    "\<forall>k \<in> set ks. \<exists>q \<in> set (rows_at w (IndexRows i)). rrec q = Some row \<and> rpk q = rkey row \<and> rkey q = k"
    "\<forall>q \<in> set (rows_at w (IndexRows i)). rrec q = Some row \<longrightarrow> rpk q = rkey row \<and> rkey q \<in> set ks"
  shows "index_step i (filter (\<lambda>q. rrec q \<noteq> Some row) (rows_at w (IndexRows i))) w (index_remove_keys i row ks w)"
  using assms
proof (induction ks arbitrary: w)
  case Nil
  then have "filter (\<lambda>q. rrec q \<noteq> Some row) (rows_at w (IndexRows i)) = rows_at w (IndexRows i)"
    by (simp add: filter_id_conv)
  with Nil show ?case using index_step_refl [of w i] by simp
next
  case (Cons k ks)
  let ?rows = "rows_at w (IndexRows i)"
  from Cons.prems(7) obtain q where q: "q \<in> set ?rows" "rrec q = Some row" "rpk q = rkey row" "rkey q = k" by auto
  from q(1) obtain xs ys where split: "?rows = xs @ q # ys" by (auto simp: in_set_conv_decomp)
  have ok: "rows_ok (xs @ q # ys)" using Cons.prems(2) split by simp
  have vq: "valid_row q" using ok by (simp add: rows_ok_append rows_ok_Cons)
  have "lower_idx ?rows k (Some (rkey row)) = length xs"
    using lower_idx_member [OF ok vq] vq q split by (simp add: pair_order.cmp_self)
  then have step: "index_remove_keys i row (k # ks) w = index_remove_keys i row ks (rows_remove (IndexRows i) q w)"
    using q split by (simp add: Let_def nth_opt_def)
  note R = rows_remove_spec [OF Cons.prems(1) split ok]
  let ?w1 = "rows_remove (IndexRows i) q w"
  have s1: "index_step i (xs @ ys) w ?w1"
    using R by (auto simp: index_step_def same_data_def)
  note r1 = index_step_rows [OF s1 Cons.prems(1)]
  have ne: "p \<noteq> q \<Longrightarrow> p \<in> set ?rows \<Longrightarrow> p \<in> set (xs @ ys)" for p using split by auto
  have k1: "\<forall>k' \<in> set ks. \<exists>p \<in> set (xs @ ys). rrec p = Some row \<and> rpk p = rkey row \<and> rkey p = k'"
  proof
    fix k' assume k': "k' \<in> set ks"
    with Cons.prems(7) obtain p where p: "p \<in> set ?rows" "rrec p = Some row" "rpk p = rkey row" "rkey p = k'" by auto
    have "\<not> key_eq k k'" using Cons.prems(5) k' by auto
    moreover have "valid_key k" using Cons.prems(6) by simp
    ultimately have "p \<noteq> q" using p q by (auto simp: key_eq_def key_order.cmp_self)
    with ne p show "\<exists>p \<in> set (xs @ ys). rrec p = Some row \<and> rpk p = rkey row \<and> rkey p = k'" by blast
  qed
  have k2: "\<forall>p \<in> set (xs @ ys). rrec p = Some row \<longrightarrow> rpk p = rkey row \<and> rkey p \<in> set ks"
  proof (intro ballI impI)
    fix p assume p: "p \<in> set (xs @ ys)" "rrec p = Some row"
    have "rkey p \<noteq> k"
    proof
      assume pk: "rkey p = k"
      have "rpk p = rkey row" using p split Cons.prems(8) by auto
      have "row_lt p q \<or> row_lt q p" using p(1) ok by (auto simp: rows_ok_append rows_ok_Cons)
      then have "pair_cmp p q \<noteq> 0" 
        using pair_flip [of p q] vq p(1) ok by (auto simp: row_lt_def rows_ok_append rows_ok_Cons rows_okD simp del: lex_cmp.simps)
      moreover have "pair_cmp p q = 0"
        using \<open>rpk p = rkey row\<close> pk q vq by (simp add: pair_of_def valid_row_def key_order.cmp_self)
      ultimately show False by simp
    qed
    with p split Cons.prems(8) show "rpk p = rkey row \<and> rkey p \<in> set ks" by auto
  qed
  have "index_step i (filter (\<lambda>q. rrec q \<noteq> Some row) (xs @ ys)) ?w1 (index_remove_keys i row ks ?w1)"
    using Cons.IH [of ?w1] Cons.prems(3-6) r1 k1 k2 ok by (simp add: rows_ok_append rows_ok_Cons)
  from index_step_trans [OF s1 this] show ?case using step split q(2) by simp
qed

lemma index_ok_rpk: "index_ok ix rows \<Longrightarrow> q \<in> set (ix_rows ix) \<Longrightarrow> rrec q = Some r \<Longrightarrow>
    r \<in> set rows \<and> rpk q = rkey r \<and> rkey q \<in> set (index_keys_of ix (rval r))"
  by (fastforce simp: index_ok_def)

lemma index_ok_row: "index_ok ix rows \<Longrightarrow> r \<in> set rows \<Longrightarrow> k \<in> set (index_keys_of ix (rval r)) \<Longrightarrow>
    \<exists>q \<in> set (ix_rows ix). rrec q = Some r \<and> rkey q = k"
  unfolding index_ok_def by blast

lemma index_remove_spec:
  assumes "indexes w i = Some ix" "ix_populated ix" "index_ok ix rows" "row \<in> set rows" "valid_row row" "rpk row = rkey row"
  shows "index_step i (filter (\<lambda>q. rrec q \<noteq> Some row) (ix_rows ix)) w (index_remove i row w)"
proof -
  let ?ks = "index_keys_of ix (rval row)"
  have at: "rows_at w (IndexRows i) = ix_rows ix" "has_rows w (IndexRows i)"
    using assms(1) by (simp_all add: rows_at_def has_rows_def)
  have c: "\<forall>k \<in> set ?ks. \<exists>q \<in> set (ix_rows ix). rrec q = Some row \<and> rpk q = rkey row \<and> rkey q = k"
  proof
    fix k assume "k \<in> set ?ks"
    with index_ok_row [OF assms(3,4)] obtain q where "q \<in> set (ix_rows ix)" "rrec q = Some row" "rkey q = k" by blast
    with index_ok_rpk [OF assms(3)] show "\<exists>q \<in> set (ix_rows ix). rrec q = Some row \<and> rpk q = rkey row \<and> rkey q = k" by blast
  qed
  have ok: "rows_ok (ix_rows ix)" using assms(3) by (simp add: index_ok_def)
  have "index_step i (filter (\<lambda>q. rrec q \<noteq> Some row) (rows_at w (IndexRows i))) w (index_remove_keys i row ?ks w)"
    using at ok assms(5,6) index_keys_ok c index_ok_rpk [OF assms(3)]
    by (intro index_remove_keys_spec) auto
  then show ?thesis using at assms(1,2) by (simp add: index_remove_def)
qed

section \<open>A store with its indexes\<close>

definition index_good :: "work \<Rightarrow> nat \<Rightarrow> row list \<Rightarrow> nat \<Rightarrow> bool" where
  "index_good w s rows i = (case indexes w i of None \<Rightarrow> False
     | Some ix \<Rightarrow> ix_store ix = s \<and> (if ix_populated ix then index_ok ix rows else ix_rows ix = []))"

definition own_row :: "row \<Rightarrow> bool" where
  "own_row r = (rrec r = None \<and> rpk r = rkey r)"

definition store_ok :: "work \<Rightarrow> nat \<Rightarrow> bool" where
  "store_ok w s = (case stores w s of None \<Rightarrow> False
     | Some d \<Rightarrow> rows_ok (st_rows d) \<and> list_all own_row (st_rows d) \<and> distinct (map rid (st_rows d)) \<and>
         (\<forall>r \<in> set (st_rows d). rid r < next_id w) \<and> distinct (st_maintained d) \<and>
         (\<forall>i \<in> set (st_maintained d). index_good w s (st_rows d) i))"

text \<open>The state in which the rows that satisfy \<open>P\<close> are gone, and the index rows that refer to them.\<close>

definition keeps :: "(row \<Rightarrow> bool) \<Rightarrow> row \<Rightarrow> bool" where
  "keeps P q = (case rrec q of None \<Rightarrow> True | Some r \<Rightarrow> \<not> P r)"

definition drop_index_rows :: "(row \<Rightarrow> bool) \<Rightarrow> nat list \<Rightarrow> work \<Rightarrow> work" where
  "drop_index_rows P is w = w\<lparr>indexes := \<lambda>i. if i \<in> set is
     then map_option (\<lambda>ix. ix\<lparr>ix_rows := filter (keeps P) (ix_rows ix)\<rparr>) (indexes w i) else indexes w i\<rparr>"

definition drop_rows :: "(row \<Rightarrow> bool) \<Rightarrow> nat \<Rightarrow> work \<Rightarrow> work" where
  "drop_rows P s w = drop_index_rows P (maintained_of w s)
     (set_rows (StoreRows s) (filter (\<lambda>r. \<not> P r) (rows_at w (StoreRows s))) w)"

lemma keeps_eq: "keeps (\<lambda>r. r = row) = (\<lambda>q. rrec q \<noteq> Some row)"
  by (auto simp: keeps_def fun_eq_iff split: option.splits)

lemma index_ok_drop:
  assumes "index_ok ix rows"
  shows "index_ok (ix\<lparr>ix_rows := filter (keeps P) (ix_rows ix)\<rparr>) (filter (\<lambda>r. \<not> P r) rows)"
proof -
  note O = assms [unfolded index_ok_def]
  have c2: "\<exists>r \<in> set (filter (\<lambda>r. \<not> P r) rows). rrec q = Some r \<and> rpk q = rkey r \<and> rkey q \<in> set (index_keys_of ix (rval r))"
    if "q \<in> set (filter (keeps P) (ix_rows ix))" for q
  proof -
    from that O obtain r where "r \<in> set rows" "rrec q = Some r" "rpk q = rkey r" "rkey q \<in> set (index_keys_of ix (rval r))"
      by auto
    with that show ?thesis by (auto simp: keeps_def)
  qed
  have c3: "\<exists>q \<in> set (filter (keeps P) (ix_rows ix)). rrec q = Some r \<and> rkey q = k"
    if "r \<in> set rows" "\<not> P r" "k \<in> set (index_keys_of ix (rval r))" for r k
  proof -
    from index_ok_row [OF assms that(1,3)] obtain q where "q \<in> set (ix_rows ix)" "rrec q = Some r" "rkey q = k" by blast
    with that show ?thesis by (auto simp: keeps_def)
  qed
  show ?thesis unfolding index_ok_def using O c2 c3 by (auto simp: rows_ok_filter)
qed

lemma index_ok_cong:
  "index_ok ix rows \<Longrightarrow> set rows' = set rows \<Longrightarrow> index_ok ix rows'"
  by (simp add: index_ok_def)

lemma drop_index_rows_simps [simp]:
  "stores (drop_index_rows P is w) = stores w" "dbs (drop_index_rows P is w) = dbs w"
  "next_id (drop_index_rows P is w) = next_id w" "dirty (drop_index_rows P is w) = dirty w"
  "undo_log (drop_index_rows P is w) = undo_log w"
  "rows_at (drop_index_rows P is w) (StoreRows s) = rows_at w (StoreRows s)"
  by (simp_all add: drop_index_rows_def rows_at_def)

lemma same_data_drop_index: "same_data a b \<Longrightarrow> same_data (drop_index_rows P is a) (drop_index_rows P is b)"
  by (auto simp: same_data_def drop_index_rows_def)

lemma same_data_maintained: "same_data a b \<Longrightarrow> maintained_of a s = maintained_of b s"
  by (simp add: same_data_def maintained_of_def)

lemma maintained_set_rows [simp]: "maintained_of (set_rows r rows w) s = maintained_of w s"
  by (auto simp: maintained_of_def set_rows_def upd_store_def upd_index_def split: rows_ref.splits option.splits)

lemma same_data_drop_rows: "same_data a b \<Longrightarrow> same_data (drop_rows P s a) (drop_rows P s b)"
  using same_data_rows_at [of a b "StoreRows s"] same_data_maintained [of a b s]
  by (auto simp: drop_rows_def intro: same_data_drop_index same_data_set_rows)

text \<open>An operation that left the data as \<open>drop_rows\<close> describes it.\<close>

definition drops :: "(row \<Rightarrow> bool) \<Rightarrow> nat \<Rightarrow> work \<Rightarrow> work \<Rightarrow> bool" where
  "drops P s w w' = (same_data w' (drop_rows P s w) \<and> reverts w w' \<and> next_id w \<le> next_id w')"

lemma drop_index_Nil: "drop_index_rows P [] w = w"
  by (simp add: drop_index_rows_def)

lemma drop_index_Cons:
  assumes "i \<notin> set is" "indexes w i = Some ix"
  shows "drop_index_rows P (i # is) w = drop_index_rows P is (set_rows (IndexRows i) (filter (keeps P) (ix_rows ix)) w)"
  using assms by (intro work.equality) (auto simp: drop_index_rows_def set_rows_def upd_index_def fun_eq_iff)

lemma set_index_store_rows [simp]:
  "indexes (set_rows (StoreRows s) rows w) = indexes w" "stores (set_rows (IndexRows i) rows w) = stores w"
  "i \<noteq> j \<Longrightarrow> indexes (set_rows (IndexRows i) rows w) j = indexes w j"
  by (simp_all add: set_rows_def upd_store_def upd_index_def)

lemma index_good_other:
  "same_data w' (set_rows (IndexRows i) rows w) \<Longrightarrow> i \<noteq> j \<Longrightarrow> index_good w' s r j = index_good w s r j"
  by (simp add: index_good_def same_data_def)

lemma index_remove_all_spec:
  assumes "distinct is" "\<forall>i \<in> set is. index_good w s rows i" "row \<in> set rows" "valid_row row" "own_row row"
  shows "same_data (index_remove_all is row w) (drop_index_rows (\<lambda>r. r = row) is w) \<and>
     reverts w (index_remove_all is row w) \<and> next_id w \<le> next_id (index_remove_all is row w)"
  using assms
proof (induction "is" arbitrary: w)
  case Nil
  then show ?case by (auto simp: drop_index_Nil)
next
  case (Cons i ixs)
  from Cons.prems(2) obtain ix where ix: "indexes w i = Some ix"
    and good: "if ix_populated ix then index_ok ix rows else ix_rows ix = []"
    by (auto simp: index_good_def split: option.splits)
  let ?f = "filter (keeps (\<lambda>r. r = row)) (ix_rows ix)" and ?w1 = "index_remove i row w"
  have step: "index_step i ?f w ?w1"
  proof (cases "ix_populated ix")
    case True
    with good index_remove_spec [OF ix True _ Cons.prems(3,4)] Cons.prems(5) show ?thesis
      by (simp add: own_row_def keeps_eq)
  next
    case False
    with good ix have "?w1 = w" "?f = rows_at w (IndexRows i)" by (simp_all add: index_remove_def rows_at_def)
    with ix show ?thesis using index_step_refl [of w i] by (simp add: has_rows_def)
  qed
  then have sd: "same_data ?w1 (set_rows (IndexRows i) ?f w)" by (simp add: index_step_def)
  have "\<forall>j \<in> set ixs. index_good ?w1 s rows j"
  proof
    fix j assume j: "j \<in> set ixs"
    with Cons.prems(1) have "i \<noteq> j" by auto
    from index_good_other [OF sd this] j Cons.prems(2) show "index_good ?w1 s rows j" by simp
  qed
  then have IH: "same_data (index_remove_all ixs row ?w1) (drop_index_rows (\<lambda>r. r = row) ixs ?w1)"
      "reverts ?w1 (index_remove_all ixs row ?w1)" "next_id ?w1 \<le> next_id (index_remove_all ixs row ?w1)"
    using Cons.IH [of ?w1] Cons.prems by auto
  have "same_data (drop_index_rows (\<lambda>r. r = row) ixs ?w1) (drop_index_rows (\<lambda>r. r = row) (i # ixs) w)"
    using same_data_drop_index [OF sd] drop_index_Cons [of i ixs w ix] ix Cons.prems(1) by simp
  then show ?case
    using IH step by (auto simp: index_step_def intro: same_data_trans reverts_trans)
qed

lemma store_okD:
  assumes "store_ok w s"
  obtains d where "stores w s = Some d" "rows_ok (st_rows d)" "list_all own_row (st_rows d)" "distinct (map rid (st_rows d))"
    "distinct (st_maintained d)" "\<forall>i \<in> set (st_maintained d). index_good w s (st_rows d) i"
    "rows_at w (StoreRows s) = st_rows d" "maintained_of w s = st_maintained d"
  using assms by (auto simp: store_ok_def rows_at_def maintained_of_def split: option.splits)

lemma store_ok_has_rows: "store_ok w s \<Longrightarrow> has_rows w (StoreRows s)"
  by (auto simp: store_ok_def has_rows_def split: option.splits)

text \<open>Dropping rows keeps a store and its indexes in order, and what is good stays good in equal data.\<close>

lemma store_ok_same: "same_data a b \<Longrightarrow> next_id b \<le> next_id a \<Longrightarrow> store_ok b s \<Longrightarrow> store_ok a s"
  by (auto simp: store_ok_def same_data_def index_good_def split: option.splits)

lemma distinct_map_filter: "distinct (map f xs) \<Longrightarrow> distinct (map f (filter P xs))"
  by (induction xs) auto

lemma store_ok_drop:
  assumes "store_ok w s"
  shows "store_ok (drop_rows P s w) s"
proof -
  obtain d where d: "stores w s = Some d" "distinct (st_maintained d)" "rows_at w (StoreRows s) = st_rows d"
      "\<forall>i \<in> set (st_maintained d). index_good w s (st_rows d) i" "maintained_of w s = st_maintained d"
    using assms by (rule store_okD)
  have sd: "stores (drop_rows P s w) s = Some (d\<lparr>st_rows := filter (\<lambda>r. \<not> P r) (st_rows d)\<rparr>)"
    using d by (simp add: drop_rows_def set_rows_def upd_store_def)
  have "index_good (drop_rows P s w) s (filter (\<lambda>r. \<not> P r) (st_rows d)) i" if "i \<in> set (st_maintained d)" for i
  proof -
    from d(4) that obtain ix where "indexes w i = Some ix" "ix_store ix = s"
      "if ix_populated ix then index_ok ix (st_rows d) else ix_rows ix = []"
      by (auto simp: index_good_def split: option.splits)
    with that d(5) show ?thesis
      by (auto simp: index_good_def drop_rows_def drop_index_rows_def index_ok_drop split: if_splits)
  qed
  with sd assms show ?thesis
    by (auto simp: store_ok_def d(1) rows_ok_filter list_all_iff distinct_map_filter drop_rows_def)
qed

lemma drops_ok: "drops P s w w' \<Longrightarrow> store_ok w s \<Longrightarrow> store_ok w' s"
  by (auto simp: drops_def drop_rows_def intro: store_ok_same [OF _ _ store_ok_drop])

lemma keeps_comp: "(\<lambda>q. keeps P q \<and> keeps Q q) = keeps (\<lambda>r. P r \<or> Q r)"
  by (auto simp: keeps_def fun_eq_iff split: option.splits)

lemma drop_rows_twice:
  assumes "store_ok w s"
  shows "drop_rows Q s (drop_rows P s w) = drop_rows (\<lambda>r. P r \<or> Q r) s w"
proof -
  have "maintained_of (drop_rows P s w) s = maintained_of w s"
    by (simp add: drop_rows_def maintained_of_def set_rows_def upd_store_def split: option.splits)
  then show ?thesis
    using assms
    by (intro work.equality)
       (auto simp: drop_rows_def drop_index_rows_def set_rows_def upd_store_def store_ok_def rows_at_def keeps_comp
          option.map_comp comp_def fun_eq_iff split: option.splits)
qed

lemma drops_trans:
  assumes "drops P s w w1" "drops Q s w1 w2" "store_ok w s"
  shows "drops (\<lambda>r. P r \<or> Q r) s w w2"
  using assms same_data_drop_rows [of w1 "drop_rows P s w" Q s] drop_rows_twice [OF assms(3), of Q P]
  by (auto simp: drops_def intro: same_data_trans reverts_trans)

lemma drops_cong:
  assumes "drops P s w w'" "store_ok w s" "\<And>r. r \<in> set (rows_at w (StoreRows s)) \<Longrightarrow> P r \<longleftrightarrow> Q r"
  shows "drops Q s w w'"
proof -
  obtain d where d: "stores w s = Some d" "rows_at w (StoreRows s) = st_rows d"
      "\<forall>i \<in> set (st_maintained d). index_good w s (st_rows d) i" "maintained_of w s = st_maintained d"
    using assms(2) by (rule store_okD)
  have f: "filter (keeps P) (ix_rows ix) = filter (keeps Q) (ix_rows ix)"
    if "i \<in> set (st_maintained d)" "indexes w i = Some ix" for i ix
  proof (rule filter_cong)
    fix q assume q: "q \<in> set (ix_rows ix)"
    with that d(3) have "index_ok ix (st_rows d)" by (fastforce simp: index_good_def split: if_splits)
    with q index_ok_rpk [OF this q] assms(3) d(2) show "keeps P q = keeps Q q"
      by (auto simp: keeps_def split: option.splits)
  qed simp
  have "filter (\<lambda>r. \<not> P r) (st_rows d) = filter (\<lambda>r. \<not> Q r) (st_rows d)"
    using assms(3) d(2) by (intro filter_cong) auto
  then have "drop_rows P s w = drop_rows Q s w"
    using d f by (intro work.equality) (auto simp: drop_rows_def drop_index_rows_def fun_eq_iff intro!: map_option_cong)
  with assms(1) show ?thesis by (simp add: drops_def)
qed

lemma store_row_remove_spec:
  assumes ok: "store_ok w s" and row: "row \<in> set (rows_at w (StoreRows s))"
  shows "drops (\<lambda>r. r = row) s w (store_row_remove s row w)"
proof -
  obtain d where d: "stores w s = Some d" "rows_ok (st_rows d)" "list_all own_row (st_rows d)" "distinct (map rid (st_rows d))"
    "distinct (st_maintained d)" "\<forall>i \<in> set (st_maintained d). index_good w s (st_rows d) i"
    "rows_at w (StoreRows s) = st_rows d" "maintained_of w s = st_maintained d"
    using ok by (rule store_okD)
  from row d(7) obtain xs ys where split: "st_rows d = xs @ row # ys" by (metis in_set_conv_decomp)
  have f: "filter (\<lambda>r. r \<noteq> row) (st_rows d) = xs @ ys"
  proof -
    have "row \<notin> set xs" "row \<notin> set ys" using d(4) split by auto
    then have "filter (\<lambda>r. r \<noteq> row) xs = xs" "filter (\<lambda>r. r \<noteq> row) ys = ys" by (auto simp: filter_id_conv)
    with split show ?thesis by simp
  qed
  let ?w1 = "rows_remove (StoreRows s) row w"
  have rok: "rows_ok (xs @ row # ys)" using d(2) split by simp
  note R = rows_remove_spec [OF store_ok_has_rows [OF ok] d(7) [unfolded split] rok]
  have sd: "same_data ?w1 (set_rows (StoreRows s) (xs @ ys) w)" "next_id ?w1 = next_id w" using R by (auto simp: same_data_def)
  have "\<forall>i \<in> set (st_maintained d). index_good ?w1 s (st_rows d) i"
    using d(6) sd by (simp add: index_good_def same_data_def)
  moreover have "maintained_of ?w1 s = st_maintained d" using same_data_maintained [OF sd(1), of s] d(8) by simp
  ultimately have A: "same_data (store_row_remove s row w) (drop_index_rows (\<lambda>r. r = row) (st_maintained d) ?w1)"
      "reverts ?w1 (store_row_remove s row w)" "next_id w \<le> next_id (store_row_remove s row w)"
    using index_remove_all_spec [OF d(5), of ?w1 s "st_rows d" row] row d(3,7,8) sd(2) rows_okD [OF d(2), of row]
    by (auto simp: store_row_remove_def list_all_iff)
  have "same_data (drop_index_rows (\<lambda>r. r = row) (st_maintained d) ?w1) (drop_rows (\<lambda>r. r = row) s w)"
    using same_data_drop_index [OF sd(1)] f d(7,8) by (simp add: drop_rows_def)
  with A R(2) show ?thesis by (auto simp: drops_def intro: same_data_trans reverts_trans)
qed

lemma drops_rows_at: "drops P s w w' \<Longrightarrow> store_ok w s \<Longrightarrow> rows_at w' (StoreRows s) = filter (\<lambda>r. \<not> P r) (rows_at w (StoreRows s))"
  using same_data_rows_at [of w' "drop_rows P s w" "StoreRows s"] by (simp add: drops_def drop_rows_def store_ok_has_rows)

lemma drop_rows_none: "store_ok w s \<Longrightarrow> drop_rows (\<lambda>r. False) s w = w"
  by (intro work.equality)
     (auto simp: drop_rows_def drop_index_rows_def keeps_def fun_eq_iff store_ok_has_rows option.map_ident_strong
        cong: option.case_cong split: option.splits)

lemma drops_none: "store_ok w s \<Longrightarrow> drops (\<lambda>r. False) s w w"
  by (auto simp: drops_def drop_rows_none)

lemma store_rows_remove_spec:
  assumes "store_ok w s" "set rs \<subseteq> set (rows_at w (StoreRows s))" "distinct rs"
  shows "drops (\<lambda>r. r \<in> set rs) s w (store_rows_remove s rs w)"
  using assms
proof (induction rs arbitrary: w)
  case Nil
  then show ?case by (simp add: drops_none)
next
  case (Cons r rs)
  let ?w1 = "store_row_remove s r w"
  have d: "drops (\<lambda>x. x = r) s w ?w1" using Cons.prems by (intro store_row_remove_spec) auto
  have "drops (\<lambda>x. x \<in> set rs) s ?w1 (store_rows_remove s rs ?w1)"
    using Cons.prems drops_ok [OF d] drops_rows_at [OF d] by (intro Cons.IH) auto
  from drops_trans [OF d this Cons.prems(1)] show ?case by simp
qed

text \<open>The bulk path replaces the rows of each index at once.\<close>

lemma index_drop_step:
  assumes "has_rows w (IndexRows i)"
  shows "index_step i (filter P (rows_at w (IndexRows i))) w
    (if length (filter P (rows_at w (IndexRows i))) = length (rows_at w (IndexRows i)) then w
     else push_undo (UnIndexRows i (rows_at w (IndexRows i))) (set_rows (IndexRows i) (filter P (rows_at w (IndexRows i))) w))"
proof (cases "length (filter P (rows_at w (IndexRows i))) = length (rows_at w (IndexRows i))")
  case True
  then have "filter P (rows_at w (IndexRows i)) = rows_at w (IndexRows i)"
    by (metis filter_True length_filter_less less_irrefl)
  with index_step_refl [OF assms] True show ?thesis by simp
next
  case False
  have "reverts w (push_undo (UnIndexRows i (rows_at w (IndexRows i))) (set_rows (IndexRows i) (filter P (rows_at w (IndexRows i))) w))"
    using assms by (intro reverts_push) simp_all
  with False show ?thesis by (simp add: index_step_def) (simp add: same_data_def)
qed

lemma index_drop_rows_spec:
  assumes "distinct is" "\<forall>i \<in> set is. index_good w s rows i" "\<forall>r \<in> set rows. rid r \<in> set gone \<longleftrightarrow> P r"
  shows "same_data (index_drop_rows is gone w) (drop_index_rows P is w) \<and>
     reverts w (index_drop_rows is gone w) \<and> next_id w \<le> next_id (index_drop_rows is gone w)"
  using assms
proof (induction "is" arbitrary: w)
  case Nil
  then show ?case by (auto simp: drop_index_Nil)
next
  case (Cons i ixs)
  from Cons.prems(2) obtain ix where ix: "indexes w i = Some ix"
    and good: "if ix_populated ix then index_ok ix rows else ix_rows ix = []"
    by (auto simp: index_good_def split: option.splits)
  let ?g = "\<lambda>q. case rrec q of None \<Rightarrow> True | Some x \<Rightarrow> rid x \<notin> set gone"
  let ?w1 = "if length (filter ?g (ix_rows ix)) = length (ix_rows ix) then w
     else push_undo (UnIndexRows i (ix_rows ix)) (set_rows (IndexRows i) (filter ?g (ix_rows ix)) w)"
  have at: "rows_at w (IndexRows i) = ix_rows ix" "has_rows w (IndexRows i)" using ix by (simp_all add: rows_at_def has_rows_def)
  have f: "filter ?g (ix_rows ix) = filter (keeps P) (ix_rows ix)"
  proof (rule filter_cong)
    fix q assume q: "q \<in> set (ix_rows ix)"
    with good have "index_ok ix rows" by (auto split: if_splits)
    with index_ok_rpk [OF this q] Cons.prems(3) show "?g q = keeps P q" by (auto simp: keeps_def split: option.splits)
  qed simp
  have step: "index_step i (filter (keeps P) (ix_rows ix)) w ?w1"
    using index_drop_step [OF at(2), of ?g] unfolding at f .
  then have sd: "same_data ?w1 (set_rows (IndexRows i) (filter (keeps P) (ix_rows ix)) w)" by (simp add: index_step_def)
  have "\<forall>j \<in> set ixs. index_good ?w1 s rows j"
  proof
    fix j assume j: "j \<in> set ixs"
    with Cons.prems(1) have "i \<noteq> j" by auto
    from index_good_other [OF sd this] j Cons.prems(2) show "index_good ?w1 s rows j" by simp
  qed
  then have IH: "same_data (index_drop_rows ixs gone ?w1) (drop_index_rows P ixs ?w1)"
      "reverts ?w1 (index_drop_rows ixs gone ?w1)" "next_id ?w1 \<le> next_id (index_drop_rows ixs gone ?w1)"
    using Cons.IH [of ?w1] Cons.prems by auto
  have "same_data (drop_index_rows P ixs ?w1) (drop_index_rows P (i # ixs) w)"
    using same_data_drop_index [OF sd] drop_index_Cons [of i ixs w ix] ix Cons.prems(1) by simp
  moreover have "index_drop_rows (i # ixs) gone w = index_drop_rows ixs gone ?w1" by (simp add: at Let_def)
  ultimately show ?case
    using IH step by (auto simp: index_step_def simp del: index_drop_rows.simps intro: same_data_trans reverts_trans)
qed

lemma same_data_reverts_start: "same_data a b \<Longrightarrow> undo_log a = undo_log b \<Longrightarrow> reverts a w \<longleftrightarrow> reverts b w"
  by (auto simp: reverts_def same_data_def)

lemma segment_parts:
  assumes "b \<le> e" "e \<le> length xs"
  shows "xs = take b xs @ segment xs b e @ drop e xs"
  using assms by (simp add: segment_def) (metis append_take_drop_id drop_drop le_add_diff_inverse2)

text \<open>Both paths of \<open>storeDelete\<close> remove exactly the rows in the range and their index rows.\<close>

lemma store_delete_spec:
  assumes ok: "store_ok w s" and vr: "valid_range rg"
  shows "drops (\<lambda>r. in_range_opt rg (rkey r)) s w (store_delete s rg w)"
proof -
  obtain d where d: "stores w s = Some d" "rows_ok (st_rows d)" "list_all own_row (st_rows d)" "distinct (map rid (st_rows d))"
    "distinct (st_maintained d)" "\<forall>i \<in> set (st_maintained d). index_good w s (st_rows d) i"
    "rows_at w (StoreRows s) = st_rows d" "maintained_of w s = st_maintained d"
    using ok by (rule store_okD)
  let ?rows = "st_rows d" and ?P = "\<lambda>r. in_range_opt rg (rkey r)" and ?wd = "w\<lparr>dirty := True\<rparr>"
  obtain b e where be: "span_of ?rows rg = (b, e)" by fastforce
  have le: "b \<le> e" "e \<le> length ?rows" using span_of_spec(1,2) [OF d(2) vr be] by auto
  let ?gone = "segment ?rows b e"
  have gone: "filter ?P ?rows = ?gone" using span_filter [OF d(2) vr be] by simp
  have in_gone: "r \<in> set ?gone \<longleftrightarrow> ?P r" if "r \<in> set ?rows" for r
    using that by (simp flip: gone)
  have parts: "?rows = take b ?rows @ ?gone @ drop e ?rows" by (rule segment_parts [OF le])
  have dist: "distinct ?rows" using d(4) by (rule distinct_map [THEN iffD1, THEN conjunct1])
  have dgone: "distinct ?gone" using dist unfolding gone [symmetric] by (rule distinct_filter)
  have okd: "store_ok ?wd s" by (rule store_ok_same [OF _ _ ok]) (simp_all add: same_data_def)
  have to_w: "drops ?P s w w'" if "drops ?P s ?wd w'" for w'
    using that same_data_drop_rows [of ?wd w ?P s] same_data_reverts_start [of ?wd w w']
    by (auto simp: drops_def same_data_def)
  show ?thesis
  proof (cases "e = b")
    case True
    then have "filter ?P ?rows = []" using gone by (simp add: segment_def)
    then have "\<not> ?P r" if "r \<in> set ?rows" for r using that by (auto simp: filter_empty_conv)
    then have "drops ?P s w w" using drops_cong [OF drops_none [OF ok] ok, of ?P] d(7) by simp
    then show ?thesis using True be d(7) by (simp add: store_delete_def)
  next
    case ne: False
    show ?thesis
    proof (cases "e - b \<le> 8")
      case True
      have "drops (\<lambda>r. r \<in> set ?gone) s ?wd (store_rows_remove s ?gone ?wd)"
        using gone d(7) dgone by (intro store_rows_remove_spec okd) (simp_all flip: gone)
      from drops_cong [OF this okd, of ?P] have "drops ?P s ?wd (store_rows_remove s ?gone ?wd)"
        using in_gone d(7) by simp
      then show ?thesis using to_w ne True be d(7) by (simp add: store_delete_def Let_def)
    next
      case False
      let ?w1 = "push_undo (UnSplice s b ?gone) (set_rows (StoreRows s) (take b ?rows @ drop e ?rows) ?wd)"
      have hr: "has_rows ?wd (StoreRows s)" using store_ok_has_rows [OF okd] .
      have sd: "same_data ?w1 (set_rows (StoreRows s) (take b ?rows @ drop e ?rows) w)"
        by (simp add: same_data_def set_rows_def upd_store_def)
      have undo: "take b (take b ?rows @ drop e ?rows) @ ?gone @ drop b (take b ?rows @ drop e ?rows) = ?rows"
      proof -
        have "length (take b ?rows) = b" using le by simp
        then have "take b (take b ?rows @ drop e ?rows) = take b ?rows" "drop b (take b ?rows @ drop e ?rows) = drop e ?rows"
          by (simp_all only: take_append drop_append take_take drop_take min.idem diff_self_eq_0 take_0 drop_0 append_Nil append_Nil2)
        then show ?thesis by (simp only: parts [symmetric])
      qed
      have "same_data (set_rows (StoreRows s) ?rows ?wd) w"
        using d(1) by (simp add: same_data_def set_rows_def upd_store_def fun_upd_idem)
      then have r1: "reverts w ?w1"
        using undo hr by (intro reverts_push) (simp, simp only: apply_undo.simps rows_at_set_rows set_rows_twice Let_def if_True simp_thms)
      have kept: "filter (\<lambda>r. \<not> ?P r) ?rows = take b ?rows @ drop e ?rows"
      proof -
        have "distinct (take b ?rows @ ?gone @ drop e ?rows)" using dist by (simp only: parts [symmetric])
        then have disj: "set (take b ?rows) \<inter> set ?gone = {}" "set (drop e ?rows) \<inter> set ?gone = {}"
          by (simp_all only: distinct_append set_append) blast+
        have "\<not> ?P r" if "r \<in> set (take b ?rows)" for r using that disj(1) in_gone [OF in_set_takeD [OF that]] by auto
        moreover have "\<not> ?P r" if "r \<in> set (drop e ?rows)" for r using that disj(2) in_gone [OF in_set_dropD [OF that]] by auto
        moreover have "?P r" if "r \<in> set ?gone" for r using that unfolding gone [symmetric] by simp
        ultimately have "filter (\<lambda>r. \<not> ?P r) (take b ?rows @ ?gone @ drop e ?rows) = take b ?rows @ drop e ?rows"
          by (simp add: filter_id_conv filter_empty_conv)
        with parts show ?thesis by simp
      qed
      have ig: "\<forall>i \<in> set (st_maintained d). index_good ?w1 s ?rows i"
        using d(6) by (simp add: index_good_def set_rows_def upd_store_def)
      have gone_ids: "\<forall>r \<in> set ?rows. rid r \<in> set (map rid ?gone) \<longleftrightarrow> ?P r"
      proof
        fix r assume r: "r \<in> set ?rows"
        have "x = r" if "x \<in> set ?gone" "rid x = rid r" for x
          using that r d(4) in_gone unfolding gone [symmetric] by (auto simp: distinct_map inj_on_def)
        with r in_gone [OF r] show "rid r \<in> set (map rid ?gone) \<longleftrightarrow> ?P r" by (auto simp flip: gone)
      qed
      let ?w2 = "index_drop_rows (st_maintained d) (map rid ?gone) ?w1"
      have I: "same_data ?w2 (drop_index_rows ?P (st_maintained d) ?w1)" "reverts ?w1 ?w2" "next_id ?w1 \<le> next_id ?w2"
        using index_drop_rows_spec [OF d(5) ig gone_ids] by auto
      have "same_data (drop_index_rows ?P (st_maintained d) ?w1) (drop_rows ?P s w)"
        using same_data_drop_index [OF sd] kept d(7,8) by (simp add: drop_rows_def)
      then have "drops ?P s w ?w2" using I r1 by (auto simp: drops_def intro: same_data_trans reverts_trans)
      then show ?thesis using ne False be d(7,8) by (simp add: store_delete_def Let_def maintained_of_def)
    qed
  qed
qed

section \<open>Storing a record\<close>

definition conflict_in :: "work \<Rightarrow> nat list \<Rightarrow> clone \<Rightarrow> bool" where
  "conflict_in w is v = (\<exists>i \<in> set is. \<exists>ix. indexes w i = Some ix \<and> index_conflict ix v)"

lemma index_good_grow:
  "indexes w i = Some ix \<Longrightarrow> \<not> ix_populated ix \<Longrightarrow> index_good w s rows i \<Longrightarrow> index_good w s rows2 i"
  by (simp add: index_good_def)

lemma index_add_all_spec:
  assumes "distinct is" "\<forall>i \<in> set is. index_good w s rows i" "valid_row row"
    "\<forall>r \<in> set rows. cmp_keys (rkey r) (rkey row) \<noteq> 0" "set rows2 = insert row (set rows)"
  shows "\<exists>w' r. index_add_all is row w = (w', r) \<and> reverts w w' \<and> stores w' = stores w \<and> dbs w' = dbs w \<and>
     dirty w' = dirty w \<and> next_id w \<le> next_id w' \<and> (\<forall>j. j \<notin> set is \<longrightarrow> indexes w' j = indexes w j) \<and>
     (if conflict_in w is (rval row) then r = Inl (DomErr ''ConstraintError'')
      else r = Inr () \<and> (\<forall>i \<in> set is. index_good w' s rows2 i))"
  using assms(1,2)
proof (induction "is" arbitrary: w)
  case Nil
  then show ?case by (auto simp: conflict_in_def)
next
  case (Cons i ixs)
  from Cons.prems(2) obtain ix where ix: "indexes w i = Some ix" "ix_store ix = s"
    and good: "if ix_populated ix then index_ok ix rows else ix_rows ix = []"
    by (auto simp: index_good_def split: option.splits)
  show ?case
  proof (cases "index_conflict ix (rval row)")
    case True
    then have "index_add i row w = (w, Inl (DomErr ''ConstraintError''))"
      using index_add_spec [OF ix(1) _ _ assms(3,4,5)] good by (simp add: index_conflict_def)
    with True ix show ?thesis by (auto simp: conflict_in_def)
  next
    case nc: False
    obtain rows' w1 where w1: "index_add i row w = (w1, Inr ())" "index_step i rows' w w1"
        "index_good w1 s rows2 i"
    proof (cases "ix_populated ix")
      case True
      with nc index_add_spec [OF ix(1) True _ assms(3,4,5)] good obtain rows' w' where
        w': "index_add i row w = (w', Inr ())" "index_step i rows' w w'" "index_ok (ix\<lparr>ix_rows := rows'\<rparr>) rows2"
        by auto
      have "indexes w' i = Some (ix\<lparr>ix_rows := rows'\<rparr>)"
        using w'(2) ix by (simp add: index_step_def same_data_def set_rows_def upd_index_def)
      with w' True ix that show ?thesis by (simp add: index_good_def)
    next
      case False
      with ix good have "index_add i row w = (w, Inr ())" "index_good w s rows2 i"
        by (simp_all add: index_add_def index_good_def)
      with that index_step_refl [of w i] ix show ?thesis by (simp add: has_rows_def)
    qed
    have other: "indexes w1 j = indexes w j" if "j \<noteq> i" for j
      using w1(2) that by (simp add: index_step_def same_data_def)
    have "\<forall>j \<in> set ixs. index_good w1 s rows j"
      using Cons.prems other by (metis (no_types, lifting) distinct.simps(2) index_good_def list.set_intros(2))
    then obtain w' r where IH: "index_add_all ixs row w1 = (w', r)" "reverts w1 w'" "stores w' = stores w1" "dbs w' = dbs w1"
        "dirty w' = dirty w1" "next_id w1 \<le> next_id w'" "\<forall>j. j \<notin> set ixs \<longrightarrow> indexes w' j = indexes w1 j"
        "if conflict_in w1 ixs (rval row) then r = Inl (DomErr ''ConstraintError'')
         else r = Inr () \<and> (\<forall>i \<in> set ixs. index_good w' s rows2 i)"
      using Cons.IH [of w1] Cons.prems(1) by auto
    have c: "conflict_in w1 ixs (rval row) \<longleftrightarrow> conflict_in w (i # ixs) (rval row)"
    proof -
      have "\<forall>j \<in> set ixs. indexes w1 j = indexes w j" using other Cons.prems(1) by (metis distinct.simps(2))
      then show ?thesis using nc ix(1) by (auto simp: conflict_in_def)
    qed
    have gi: "index_good w' s rows2 i"
      using w1(3) IH(7) Cons.prems(1) by (simp add: index_good_def)
    have "stores w1 = stores w" "dbs w1 = dbs w" "dirty w1 = dirty w" "next_id w \<le> next_id w1" "reverts w w1"
      using w1(2) by (auto simp: index_step_def same_data_def set_rows_def upd_index_def)
    with IH c gi other w1(1) show ?thesis by (auto intro: reverts_trans)
  qed
qed

text \<open>The row that \<open>storeRecord\<close> inserts, once no row has its key.\<close>

lemma store_insert_spec:
  fixes v :: clone
  assumes ok: "store_ok w s" and vk: "valid_key k" and free: "\<forall>r \<in> set (rows_at w (StoreRows s)). cmp_keys (rkey r) k \<noteq> 0"
    and row_def: "row = Row (next_id w) k k v None"
  shows "\<exists>w' r xs ys. store_insert s v k w = (w', r) \<and> reverts w w' \<and> next_id w \<le> next_id w' \<and>
     (if conflict_in w (maintained_of w s) v then r = Inl (DomErr ''ConstraintError'')
      else r = Inr k \<and> store_ok w' s \<and> rows_at w (StoreRows s) = xs @ ys \<and>
        rows_at w' (StoreRows s) = xs @ row # ys)"
proof -
  obtain d where d: "stores w s = Some d" "rows_ok (st_rows d)" "list_all own_row (st_rows d)" "distinct (map rid (st_rows d))"
    "distinct (st_maintained d)" "\<forall>i \<in> set (st_maintained d). index_good w s (st_rows d) i"
    "rows_at w (StoreRows s) = st_rows d" "maintained_of w s = st_maintained d"
    using ok by (rule store_okD)
  let ?wn = "w\<lparr>next_id := next_id w + 1\<rparr>"
  have vrow: "valid_row row" using vk by (simp add: row_def valid_row_def)
  have "\<forall>z \<in> set (st_rows d). pair_cmp z row \<noteq> 0"
    using free d(2,7) vrow by (auto simp: pair_cmp_0_iff rows_okD row_def simp del: lex_cmp.simps)
  then obtain xs ys where ins: "st_rows d = xs @ ys" "rows_ok (xs @ row # ys)"
      "rows_insert (StoreRows s) row ?wn = push_undo (UnInsert (StoreRows s) row) (set_rows (StoreRows s) (xs @ row # ys) ?wn)"
      "reverts ?wn (rows_insert (StoreRows s) row ?wn)"
    using rows_insert_spec [of ?wn "StoreRows s" row] store_ok_has_rows [OF ok] d(2,7) vrow by auto
  let ?w1 = "rows_insert (StoreRows s) row ?wn"
  have st1: "stores ?w1 s = Some (d\<lparr>st_rows := xs @ row # ys\<rparr>)" "indexes ?w1 = indexes w" "next_id ?w1 = next_id w + 1"
    using ins(3) d(1) by (simp_all add: set_rows_def upd_store_def)
  have r1: "reverts w ?w1" using ins(4) by (simp add: reverts_start)
  have m1: "maintained_of ?w1 s = st_maintained d" using st1(1) by (simp add: maintained_of_def)
  have ig: "\<forall>i \<in> set (st_maintained d). index_good ?w1 s (st_rows d) i"
    using d(6) st1(2) by (simp add: index_good_def)
  have c1: "conflict_in ?w1 (st_maintained d) v = conflict_in w (st_maintained d) v" using st1(2) by (simp add: conflict_in_def)
  obtain w2 r where A: "index_add_all (st_maintained d) row ?w1 = (w2, r)" "reverts ?w1 w2" "stores w2 = stores ?w1"
      "next_id ?w1 \<le> next_id w2"
      "if conflict_in w (st_maintained d) v then r = Inl (DomErr ''ConstraintError'')
       else r = Inr () \<and> (\<forall>i \<in> set (st_maintained d). index_good w2 s (xs @ row # ys) i)"
    using index_add_all_spec [OF d(5) ig vrow, of "xs @ row # ys"] free ins(1) d(7) c1 by (auto simp: row_def)
  show ?thesis
  proof (cases "conflict_in w (st_maintained d) v")
    case True
    with A have "store_insert s v k w = (w2, Inl (DomErr ''ConstraintError''))"
      using m1 by (simp add: store_insert_def Let_def row_def)
    with True A(4) st1(3) d(8) reverts_trans [OF r1 A(2)] show ?thesis by auto
  next
    case False
    with A have res: "store_insert s v k w = (w2\<lparr>dirty := True\<rparr>, Inr k)"
      using m1 by (simp add: store_insert_def Let_def row_def)
    have "reverts w (w2\<lparr>dirty := True\<rparr>)"
      using r1 A(2) by (intro reverts_trans [OF reverts_trans [OF r1 A(2)]]) (auto simp: same_data_def)
    moreover have "store_ok (w2\<lparr>dirty := True\<rparr>) s"
    proof -
      have s2: "stores w2 s = Some (d\<lparr>st_rows := xs @ row # ys\<rparr>)" using A(3) st1(1) by simp
      have "\<forall>r \<in> set (st_rows d). rid r < next_id w" using ok d(1) by (simp add: store_ok_def)
      then have ids: "r \<in> set xs \<union> set ys \<Longrightarrow> rid r < next_id w" for r using ins(1) by auto
      then have "\<forall>r \<in> set xs \<union> set ys. rid r \<noteq> next_id w" by force
      then have "distinct (map rid (xs @ row # ys))" using d(4) ins(1) by (auto simp: row_def)
      moreover have "\<forall>r \<in> set (xs @ row # ys). rid r < next_id w2"
        using ids A(4) st1(3) by (force simp: row_def)
      moreover have "list_all own_row (xs @ row # ys)" using d(3) ins(1) by (simp add: own_row_def row_def)
      moreover have "\<forall>i \<in> set (st_maintained d). index_good (w2\<lparr>dirty := True\<rparr>) s (xs @ row # ys) i"
        using A(5) False by (simp add: index_good_def)
      ultimately show ?thesis using s2 ins(2) d(5) by (simp add: store_ok_def)
    qed
    ultimately show ?thesis
      using False res ins(1) A(3,4) st1 d(7,8)
      by (intro exI [of _ "w2\<lparr>dirty := True\<rparr>"] exI [of _ "Inr k"] exI [of _ xs] exI [of _ ys]) (simp add: rows_at_def)
  qed
qed

lemma filter_ne_key:
  assumes "rows_ok rows" "own_row x" "list_all own_row rows" "x \<in> set rows" "cmp_keys (rkey x) k = 0" "valid_key k" "r \<in> set rows"
  shows "cmp_keys (rkey r) k = 0 \<longleftrightarrow> r = x"
proof
  assume e: "cmp_keys (rkey r) k = 0"
  have v: "valid_key (rkey r)" "valid_key (rkey x)"
    using rows_okD [OF assms(1,4)] rows_okD [OF assms(1,7)] by (simp_all add: valid_row_def)
  have "cmp_keys k (rkey x) = 0" using key_order.eq_sym [OF v(2) assms(6,5)] .
  then have c: "cmp_keys (rkey r) (rkey x) = 0" using key_order.eq_trans [OF v(1) assms(6) v(2) e] by simp
  have "rpk r = rkey r" "rpk x = rkey x" using assms(2,3,7) by (auto simp: own_row_def list_all_iff)
  with c show "r = x" by (intro rows_ok_inj [OF assms(1,7,4) c]) simp
qed (use assms in simp)

text \<open>
  What \<open>storeRecord\<close> leaves when it returns: the record under its key, the other records of the
  store as they were, and the store and its indexes in order.
\<close>

definition put_result :: "nat \<Rightarrow> key \<Rightarrow> clone \<Rightarrow> row list \<Rightarrow> work \<Rightarrow> key res \<Rightarrow> bool" where
  "put_result s k v others w' r = (case r of
     Inl e \<Rightarrow> e = DomErr ''ConstraintError''
   | Inr k' \<Rightarrow> k' = k \<and> store_ok w' s \<and>
       (\<exists>x. find_row (rows_at w' (StoreRows s)) k = Some x \<and> rval x = v \<and> rkey x = k) \<and>
       filter (\<lambda>r. cmp_keys (rkey r) k \<noteq> 0) (rows_at w' (StoreRows s)) = others)"

lemma store_insert_result:
  assumes ok: "store_ok w s" and vk: "valid_key k"
    and free: "\<forall>r \<in> set (rows_at w (StoreRows s)). cmp_keys (rkey r) k \<noteq> 0"
  shows "\<exists>w' r. store_insert s v k w = (w', r) \<and> reverts w w' \<and> put_result s k v (rows_at w (StoreRows s)) w' r"
proof -
  let ?row = "Row (next_id w) k k v None" and ?ne = "filter (\<lambda>r. cmp_keys (rkey r) k \<noteq> 0)"
  obtain w' r xs ys where I: "store_insert s v k w = (w', r)" "reverts w w'"
    "if conflict_in w (maintained_of w s) v then r = Inl (DomErr ''ConstraintError'')
     else r = Inr k \<and> store_ok w' s \<and> rows_at w (StoreRows s) = xs @ ys \<and> rows_at w' (StoreRows s) = xs @ ?row # ys"
    using store_insert_spec [OF ok vk free refl] by blast
  have "put_result s k v (rows_at w (StoreRows s)) w' r"
  proof (cases "conflict_in w (maintained_of w s) v")
    case False
    with I(3) have r: "r = Inr k" "store_ok w' s" "rows_at w (StoreRows s) = xs @ ys" "rows_at w' (StoreRows s) = xs @ ?row # ys"
      by auto
    have cc: "cmp_keys k k = 0" using vk by (rule key_order.cmp_self)
    have f: "?ne xs = xs" "?ne ys = ys" using free r(3) by (auto simp: filter_id_conv)
    have "rows_ok (rows_at w' (StoreRows s))" using r(2) by (auto elim: store_okD)
    then have "find_row (rows_at w' (StoreRows s)) k = Some ?row"
      using vk cc free r(3,4) by (intro find_row_hit) auto
    with r f cc show ?thesis by (simp add: put_result_def)
  qed (use I in \<open>simp add: put_result_def\<close>)
  with I show ?thesis by blast
qed

lemma store_put_spec:
  assumes ok: "store_ok w s" and vk: "valid_key k"
  shows "\<exists>w' r. store_put s v k no_overwrite w = (w', r) \<and> reverts w w' \<and>
     put_result s k v (filter (\<lambda>r. cmp_keys (rkey r) k \<noteq> 0) (rows_at w (StoreRows s))) w' r \<and>
     (no_overwrite \<and> find_row (rows_at w (StoreRows s)) k \<noteq> None \<longrightarrow> r = Inl (DomErr ''ConstraintError''))"
proof -
  let ?rows = "rows_at w (StoreRows s)" and ?ne = "filter (\<lambda>r. cmp_keys (rkey r) k \<noteq> 0)"
  have d: "rows_ok ?rows" "list_all own_row ?rows" using ok by (auto elim: store_okD)
  show ?thesis
  proof (cases "find_row ?rows k")
    case None
    from find_row_None [OF d(1) vk None] have free: "\<forall>r \<in> set ?rows. cmp_keys (rkey r) k \<noteq> 0" .
    then have "?ne ?rows = ?rows" by (simp add: filter_id_conv)
    with store_insert_result [OF ok vk free, of v] None show ?thesis by (simp add: store_put_def)
  next
    case (Some x)
    from find_row_Some [OF this] have x: "x \<in> set ?rows" "cmp_keys (rkey x) k = 0" by auto
    have own: "own_row x" using d(2) x(1) by (simp add: list_all_iff)
    note eq = filter_ne_key [OF d(1) own d(2) x vk]
    let ?w1 = "store_row_remove s x w"
    have dr: "drops (\<lambda>r. r = x) s w ?w1" by (rule store_row_remove_spec [OF ok x(1)])
    have rows1: "rows_at ?w1 (StoreRows s) = ?ne ?rows"
      unfolding drops_rows_at [OF dr ok] using eq by (intro filter_cong) auto
    then have free: "\<forall>r \<in> set (rows_at ?w1 (StoreRows s)). cmp_keys (rkey r) k \<noteq> 0" by simp
    have rv: "reverts w ?w1" using dr by (simp add: drops_def)
    show ?thesis
    proof (cases no_overwrite)
      case True
      have "reverts w w" by auto
      with True Some show ?thesis by (simp add: store_put_def put_result_def)
    next
      case False
      from store_insert_result [OF drops_ok [OF dr ok] vk free, of v] rows1
      obtain w' r where "store_insert s v k ?w1 = (w', r)" "reverts ?w1 w'" "put_result s k v (?ne ?rows) w' r" by auto
      with False Some reverts_trans [OF rv] show ?thesis by (auto simp: store_put_def)
    qed
  qed
qed

section \<open>The key generator\<close>

text \<open>The current number is an integer from 1 to \<open>2^53\<close>, or \<open>Infinity\<close> once it is used up.\<close>

definition gen_ok :: "jsnum \<Rightarrow> bool" where
  "gen_ok n = (n = PInf \<or> (\<exists>m::int. n = Fin (of_int m) \<and> 1 \<le> m \<and> m \<le> 2 ^ 53))"

lemma max_generated_int: "max_generated = Fin (of_int (2 ^ 53))"
  by (simp add: max_generated_def)

lemma next_number_Fin: "1 \<le> m \<Longrightarrow> m < 2 ^ 53 \<Longrightarrow> next_number (Fin (of_int m)) = Fin (of_int (m + 1))"
  using round_rat_exact [OF is_double_int [of "m + 1"]]
  by (simp add: next_number_def max_generated_def num_le_def)

lemma next_number_top: "2 ^ 53 \<le> m \<Longrightarrow> next_number (Fin (of_int m)) = PInf"
  by (auto simp: next_number_def max_generated_def num_le_def)

lemma next_number_cases:
  assumes "1 \<le> m" "m \<le> 2 ^ 53"
  obtains "next_number (Fin (of_int m)) = PInf"
  | "next_number (Fin (of_int m)) = Fin (of_int (m + 1))" "m + 1 \<le> 2 ^ 53"
proof (cases "m = 2 ^ 53")
  case True
  with next_number_top [of m] that(1) show ?thesis by simp
next
  case False
  with assms have "m < 2 ^ 53" by simp
  with next_number_Fin [of m] assms that(2) show ?thesis by simp
qed

lemma next_number_ok:
  assumes "1 \<le> m" "m \<le> 2 ^ 53"
  shows "gen_ok (next_number (Fin (of_int m)))" "num_lt (Fin (of_int m)) (next_number (Fin (of_int m)))"
    "r < of_int (m + 1) \<Longrightarrow> num_lt (Fin r) (next_number (Fin (of_int m)))"
proof -
  show "gen_ok (next_number (Fin (of_int m)))"
    by (rule next_number_cases [OF assms]) (use assms in \<open>auto simp: gen_ok_def intro!: exI [of _ "m + 1"]\<close>)
  show "num_lt (Fin (of_int m)) (next_number (Fin (of_int m)))"
    by (rule next_number_cases [OF assms]) auto
  show "num_lt (Fin r) (next_number (Fin (of_int m)))" if "r < of_int (m + 1)"
    by (rule next_number_cases [OF assms]) (use that in auto)
qed

lemma gen_ok_cases:
  assumes "gen_ok n"
  obtains "n = PInf" | m where "n = Fin (of_int m)" "1 \<le> m" "m \<le> 2 ^ 53"
  using assms by (auto simp: gen_ok_def)

text \<open>A generated key is the current number, and the next number is greater.\<close>

lemma generate_key_spec:
  assumes "stores w s = Some d" "gen_ok (st_next d)"
  shows "case generate_key s w of
      (w', Inl e) \<Rightarrow> w' = w \<and> e = DomErr ''ConstraintError'' \<and> st_next d = PInf
    | (w', Inr k) \<Rightarrow> k = KNum (st_next d) \<and> valid_key k \<and> gen_ok (next_number (st_next d)) \<and>
        num_lt (st_next d) (next_number (st_next d)) \<and>
        w' = push_undo (UnNextKey s (st_next d)) (upd_store s (\<lambda>x. x\<lparr>st_next := next_number (st_next d)\<rparr>) w)"
  using assms(2)
proof (cases rule: gen_ok_cases)
  case 1
  with assms(1) show ?thesis by (simp add: generate_key_def next_key_of_def max_generated_def)
next
  case (2 m)
  have "\<not> num_lt max_generated (Fin (of_int m))" using 2 by (simp add: max_generated_int del: of_int_power)
  with 2 assms(1) next_number_ok(1,2) [OF 2(2,3)] show ?thesis
    by (auto simp: generate_key_def next_key_of_def upd_store_def Let_def)
qed

lemma floor_min_cases:
  assumes "x \<noteq> NaN"
  obtains "x = NInf" "num_floor (num_min x max_generated) = NInf"
  | "x = NZero" "num_floor (num_min x max_generated) = NZero"
  | r where "x = Fin r" "num_floor (num_min x max_generated) = signed_int (r < 0) \<lfloor>r\<rfloor>" "r \<le> 2 ^ 53"
  | "x = PInf \<or> (\<exists>r. x = Fin r)" "num_floor (num_min x max_generated) = Fin (of_int (2 ^ 53))"
proof (cases x)
  case (Fin r)
  show ?thesis
  proof (cases "r \<le> 2 ^ 53")
    case True
    with Fin have "num_min x max_generated = Fin r" by (auto simp: num_min_def max_generated_def)
    with Fin True that(3) show ?thesis by simp
  next
    case False
    with Fin have "num_min x max_generated = max_generated" by (auto simp: num_min_def max_generated_def)
    with Fin that(4) show ?thesis by (simp add: max_generated_def signed_int_def)
  qed
qed (use assms that in \<open>auto simp: num_min_def max_generated_def signed_int_def\<close>)

lemma gen_past_old:
  assumes "x \<noteq> NaN" "gen_ok old" "num_lt (num_floor (num_min x max_generated)) old"
  shows "x = PInf \<and> old = PInf \<or> num_lt x old"
  using assms(1)
proof (cases rule: floor_min_cases)
  case (3 r)
  from assms(2) show ?thesis
  proof (cases rule: gen_ok_cases)
    case (2 m)
    with assms(3) 3 have "\<lfloor>r\<rfloor> < m" by (auto simp: signed_int_def signed_zero_def split: if_splits)
    with 2 3 show ?thesis by (simp add: floor_less_iff)
  qed (use 3 in simp)
next
  case 4
  with assms(2,3) show ?thesis by (auto elim!: gen_ok_cases)
qed (use assms in \<open>auto elim: gen_ok_cases\<close>)

lemma gen_past_new:
  assumes "x \<noteq> NaN" "gen_ok old" "\<not> num_lt (num_floor (num_min x max_generated)) old"
  defines "n \<equiv> next_number (num_floor (num_min x max_generated))"
  shows "gen_ok n \<and> num_le old n \<and> (x = PInf \<and> n = PInf \<or> num_lt x n)"
  using assms(1)
proof (cases rule: floor_min_cases)
  case (3 r)
  from assms(2) show ?thesis
  proof (cases rule: gen_ok_cases)
    case 1
    with 3 assms(3) show ?thesis by (auto simp: signed_int_def signed_zero_def split: if_splits)
  next
    case (2 m)
    with assms(3) 3 have m: "m \<le> \<lfloor>r\<rfloor>" by (auto simp: signed_int_def signed_zero_def split: if_splits)
    have v: "num_floor (num_min x max_generated) = Fin (of_int \<lfloor>r\<rfloor>)" using m 2 3 by (simp add: signed_int_def)
    have r1: "1 \<le> \<lfloor>r\<rfloor>" using m 2(2) by linarith
    have r2: "\<lfloor>r\<rfloor> \<le> 2 ^ 53" using 3(3) by (simp add: floor_le_iff)
    note r = r1 r2
    note N = next_number_ok(1,2) [OF r] next_number_ok(3) [OF r, of r] next_number_ok(3) [OF r, of "of_int m"]
    have "r < of_int (\<lfloor>r\<rfloor> + 1)" by linarith
    moreover have "of_int m < (of_int (\<lfloor>r\<rfloor> + 1) :: rat)" using m by linarith
    ultimately show ?thesis using N 2(1) 3(1) v by (simp add: n_def num_le_def)
  qed
next
  case 4
  then have "n = PInf" using next_number_top [of "2 ^ 53"] by (simp add: n_def)
  with assms(2) 4 show ?thesis by (auto simp: gen_ok_def num_le_def)
qed (use assms in \<open>auto elim: gen_ok_cases\<close>)

text \<open>After an explicit numeric key the generator is past that key.\<close>

lemma update_key_generator_spec:
  assumes d: "stores w s = Some d" and g: "gen_ok (st_next d)" and k: "valid_key k"
  shows "\<exists>n. gen_ok n \<and> num_le (st_next d) n \<and>
     (case k of KNum x \<Rightarrow> x = PInf \<and> n = PInf \<or> num_lt x n | _ \<Rightarrow> n = st_next d) \<and>
     (update_key_generator s k w = w \<and> n = st_next d \<or>
      update_key_generator s k w = push_undo (UnNextKey s (st_next d)) (upd_store s (\<lambda>d. d\<lparr>st_next := n\<rparr>) w))"
proof (cases k)
  case (KNum x)
  let ?v = "num_floor (num_min x max_generated)" and ?old = "st_next d"
  from k KNum have x: "x \<noteq> NaN" by simp
  have upd: "update_key_generator s k w = (if num_lt ?v ?old then w
      else push_undo (UnNextKey s ?old) (upd_store s (\<lambda>d. d\<lparr>st_next := next_number ?v\<rparr>) w))"
    using KNum d by (simp add: update_key_generator_def next_key_of_def)
  show ?thesis
  proof (cases "num_lt ?v ?old")
    case True
    with upd gen_past_old [OF x g] g KNum show ?thesis
      by (intro exI [of _ ?old]) (auto simp: num_le_def gen_ok_def)
  next
    case False
    from gen_past_new [OF x g this] upd False KNum show ?thesis
      by (intro exI [of _ "next_number ?v"]) auto
  qed
qed (use assms in \<open>auto simp: update_key_generator_def num_le_def gen_ok_def\<close>)

lemma store_ok_next:
  "store_ok (push_undo u (upd_store s (\<lambda>d. d\<lparr>st_next := n\<rparr>) w)) s \<longleftrightarrow> store_ok w s"
  by (auto simp: store_ok_def upd_store_def index_good_def split: option.splits)

lemma rows_at_next [simp]: "rows_at (upd_store s (\<lambda>d. d\<lparr>st_next := n\<rparr>) w) r = rows_at w r"
  by (auto simp: rows_at_def upd_store_def split: rows_ref.splits option.splits)

lemma reverts_next:
  "stores w s = Some d \<Longrightarrow> reverts w (push_undo (UnNextKey s (st_next d)) (upd_store s (\<lambda>d. d\<lparr>st_next := n\<rparr>) w))"
  by (rule reverts_push) (auto simp: upd_store_def same_data_def fun_upd_idem)

text \<open>The key that \<open>storeRecord\<close> settles on; the rows are untouched.\<close>

lemma resolve_key_spec:
  assumes d: "stores w s = Some d" and g: "gen_ok (st_next d)" and ok: "store_ok w s"
    and k: "\<forall>k' \<in> set_option k. valid_key k'"
  shows "\<exists>w' r. resolve_key s v k w = (w', r) \<and> reverts w w' \<and> store_ok w' s \<and>
     rows_at w' (StoreRows s) = rows_at w (StoreRows s) \<and>
     (case r of Inl e \<Rightarrow> e = DomErr ''ConstraintError'' \<and> k = None \<and> st_auto d \<and> st_next d = PInf
      | Inr (k1, v1) \<Rightarrow> (\<forall>k' \<in> set_option k1. valid_key k') \<and>
          (k \<noteq> None \<longrightarrow> k1 = k \<and> v1 = v) \<and> (k = None \<and> st_auto d \<longrightarrow> k1 = Some (KNum (st_next d))))"
proof (cases "st_auto d")
  case False
  have "reverts w w" by auto
  with False d k ok show ?thesis by (simp add: resolve_key_def)
next
  case auto: True
  show ?thesis
  proof (cases k)
    case (Some key)
    from k Some have vk: "valid_key key" by simp
    obtain n where n: "update_key_generator s key w = w \<or>
        update_key_generator s key w = push_undo (UnNextKey s (st_next d)) (upd_store s (\<lambda>d. d\<lparr>st_next := n\<rparr>) w)"
      using update_key_generator_spec [OF d g vk] by blast
    have "reverts w w" by auto
    then have "reverts w (update_key_generator s key w) \<and> store_ok (update_key_generator s key w) s \<and>
        rows_at (update_key_generator s key w) (StoreRows s) = rows_at w (StoreRows s)"
      using n ok reverts_next [of w s d n, OF d] by (auto simp: store_ok_next)
    with auto Some d vk show ?thesis by (simp add: resolve_key_def)
  next
    case None
    obtain w' r where gk: "generate_key s w = (w', r)" by fastforce
    note G = generate_key_spec [OF d g, unfolded gk]
    show ?thesis
    proof (cases r)
      case (Inl e)
      have "reverts w w" by auto
      with G Inl gk None auto d ok show ?thesis by (simp add: resolve_key_def)
    next
      case (Inr key)
      with G have w': "w' = push_undo (UnNextKey s (st_next d)) (upd_store s (\<lambda>x. x\<lparr>st_next := next_number (st_next d)\<rparr>) w)"
        "key = KNum (st_next d)" "valid_key key" by auto
      then have "reverts w w'" "store_ok w' s" "rows_at w' (StoreRows s) = rows_at w (StoreRows s)"
        using reverts_next [OF d] ok by (simp_all add: store_ok_next)
      with w'(2,3) Inr gk None auto d show ?thesis
        by (auto simp: resolve_key_def split: option.splits keypath.splits)
    qed
  qed
qed

lemma store_record_spec:
  assumes d: "stores w s = Some d" and g: "gen_ok (st_next d)" and ok: "store_ok w s"
    and k: "\<forall>k' \<in> set_option k. valid_key k'" and auto: "k = None \<longrightarrow> st_auto d"
  shows "\<exists>w' r key v1. store_record s v k no_overwrite w = (w', r) \<and> reverts w w' \<and>
     put_result s key v1 (filter (\<lambda>r. cmp_keys (rkey r) key \<noteq> 0) (rows_at w (StoreRows s))) w' r \<and>
     (case k of Some k' \<Rightarrow> key = k' \<and> v1 = v | None \<Rightarrow> key = KNum (st_next d))"
proof -
  obtain w1 r1 where R: "resolve_key s v k w = (w1, r1)" "reverts w w1" "store_ok w1 s"
      "rows_at w1 (StoreRows s) = rows_at w (StoreRows s)"
      "case r1 of Inl e \<Rightarrow> e = DomErr ''ConstraintError'' \<and> k = None \<and> st_auto d \<and> st_next d = PInf
      | Inr (k1, v1) \<Rightarrow> (\<forall>k' \<in> set_option k1. valid_key k') \<and>
          (k \<noteq> None \<longrightarrow> k1 = k \<and> v1 = v) \<and> (k = None \<and> st_auto d \<longrightarrow> k1 = Some (KNum (st_next d)))"
    using resolve_key_spec [OF d g ok k] by blast
  show ?thesis
  proof (cases r1)
    case (Inl e)
    with R auto show ?thesis
      by (intro exI [of _ w1] exI [of _ "Inl e"] exI [of _ "KNum (st_next d)"] exI [of _ v])
         (simp add: store_record_def put_result_def)
  next
    case (Inr p)
    obtain k1 v1 where p: "p = (k1, v1)" by (cases p)
    from R(5) Inr p auto obtain key where key: "k1 = Some key" "valid_key key"
      "case k of Some k' \<Rightarrow> key = k' \<and> v1 = v | None \<Rightarrow> key = KNum (st_next d)"
      by (cases k) auto
    from store_put_spec [OF R(3) key(2), of v1 no_overwrite] R(4)
    obtain w' r where S: "store_put s v1 key no_overwrite w1 = (w', r)" "reverts w1 w'"
      "put_result s key v1 (filter (\<lambda>r. cmp_keys (rkey r) key \<noteq> 0) (rows_at w (StoreRows s))) w' r" by auto
    have "store_record s v k no_overwrite w = (w', r)" using R(1) Inr p key(1) S(1) by (simp add: store_record_def)
    with S(3) key(3) reverts_trans [OF R(2) S(2)] show ?thesis by blast
  qed
qed

end
