(* ===== verification/IdbStoreProps.thy ===== *)
theory IdbStoreProps
  imports IdbStoreLaws
begin

text \<open>
  What the data operations of \<open>45_indexeddb.js\<close> promise, with concrete stores on which the
  promises are checked.
\<close>

section \<open>A store with a unique index\<close>

text \<open>Two records with a string property \<open>n\<close>, and a unique index on it.\<close>

definition ex_clone :: "string \<Rightarrow> clone" where
  "ex_clone s = ([\<lparr>o_cls = CPlain, o_props = [(js ''n'', Inr (Str (js s)))]\<rparr>], Obj 0)"

definition ex_row :: "nat \<Rightarrow> rat \<Rightarrow> string \<Rightarrow> row" where
  "ex_row i k s = Row i (KNum (Fin k)) (KNum (Fin k)) (ex_clone s) None"

definition ex_irow :: "nat \<Rightarrow> row \<Rightarrow> string \<Rightarrow> row" where
  "ex_irow i r s = Row i (KStr (js s)) (rkey r) (rval r) (Some r)"

definition ex_store :: store_data where
  "ex_store = \<lparr>st_name = js ''s'', st_key_path = None, st_auto = True, st_next = Fin 3,
     st_rows = [ex_row 0 1 ''a'', ex_row 1 2 ''b''], st_indexes = [(js ''i'', 0)], st_maintained = [0],
     st_deleted = False, st_created_by = 0\<rparr>"

definition ex_index :: index_data where
  "ex_index = \<lparr>ix_name = js ''i'', ix_key_path = KPath (js ''n''), ix_unique = True, ix_multi = False,
     ix_rows = [ex_irow 2 (ex_row 0 1 ''a'') ''a'', ex_irow 3 (ex_row 1 2 ''b'') ''b''],
     ix_store = 0, ix_populated = True, ix_deleted = False, ix_created_by = 0\<rparr>"

definition ex_work :: work where
  "ex_work = \<lparr>stores = [0 \<mapsto> ex_store], indexes = [0 \<mapsto> ex_index], dbs = Map.empty, next_id = 4, handle_name = (\<lambda>_. []),
     undo_log = [], dirty = False\<rparr>"

lemma ex_stores [simp]: "stores ex_work 0 = Some ex_store" "indexes ex_work 0 = Some ex_index"
  by (simp_all add: ex_work_def)

lemma ex_keys: "index_keys_of ex_index (ex_clone ''a'') = [KStr (js ''a'')]"
  "index_keys_of ex_index (ex_clone ''b'') = [KStr (js ''b'')]" "index_keys_of ex_index (ex_clone ''c'') = [KStr (js ''c'')]"
  by code_simp+

lemma ex_row_sel [simp]: "rid (ex_row i k s) = i" "rkey (ex_row i k s) = KNum (Fin k)" "rpk (ex_row i k s) = KNum (Fin k)"
  "rval (ex_row i k s) = ex_clone s" "rrec (ex_row i k s) = None"
  by (simp_all add: ex_row_def)

lemma ex_irow_sel [simp]: "rkey (ex_irow i r s) = KStr (js s)" "rpk (ex_irow i r s) = rkey r" "rrec (ex_irow i r s) = Some r"
  by (simp_all add: ex_irow_def)

lemma ex_ab: "cmp_str (js ''a'') (js ''b'') = -1" "cmp_str (js ''b'') (js ''a'') = 1" "cmp_str s s = 0"
  by (code_simp, code_simp, simp add: cmp_str_def)

lemma ex_num: "cmp_num (Fin 1) (Fin 2) = -1" "cmp_num (Fin 2) (Fin 1) = 1"
  by (simp_all add: cmp_num_def)

lemma ex_store_rows_ok: "rows_ok (st_rows ex_store)"
  by (simp add: ex_store_def rows_ok_def row_lt_def pair_of_def valid_row_def ex_num)

lemma ex_index_ok: "index_ok ex_index (st_rows ex_store)"
proof -
  have "rows_ok (ix_rows ex_index)"
    by (simp add: ex_index_def rows_ok_def row_lt_def pair_of_def valid_row_def ex_ab)
  moreover have "ix_rows ex_index = [ex_irow 2 (ex_row 0 1 ''a'') ''a'', ex_irow 3 (ex_row 1 2 ''b'') ''b'']"
    "st_rows ex_store = [ex_row 0 1 ''a'', ex_row 1 2 ''b'']"
    by (simp_all add: ex_index_def ex_store_def)
  ultimately show ?thesis by (simp add: index_ok_def ex_keys ex_ab)
qed

lemma ex_store_ok: "store_ok ex_work 0"
proof -
  have "index_good ex_work 0 (st_rows ex_store) 0"
    using ex_index_ok by (simp add: index_good_def) (simp add: ex_index_def)
  moreover have "st_maintained ex_store = [0]" "list_all own_row (st_rows ex_store)"
      "distinct (map rid (st_rows ex_store))" "\<forall>r \<in> set (st_rows ex_store). rid r < next_id ex_work"
    by (simp_all add: ex_store_def own_row_def ex_work_def)
  ultimately show ?thesis using ex_store_rows_ok by (simp add: store_ok_def)
qed

lemma ex_gen_ok: "gen_ok (st_next ex_store)"
  by (auto simp: ex_store_def gen_ok_def intro: exI [of _ 3])

lemma ex_rows [simp]: "rows_at ex_work (StoreRows 0) = st_rows ex_store" "maintained_of ex_work 0 = [0]"
  "rows_at ex_work (IndexRows 0) = ix_rows ex_index"
  by (simp_all add: rows_at_def maintained_of_def) (simp add: ex_store_def)

section \<open>Properties\<close>

lemma drops_index_rows:
  assumes "drops P s w w'" "store_ok w s" "i \<in> set (maintained_of w s)"
  shows "rows_at w' (IndexRows i) = filter (keeps P) (rows_at w (IndexRows i))"
proof -
  have "indexes w i \<noteq> None"
    using assms(2,3) by (auto simp: store_ok_def maintained_of_def index_good_def split: option.splits)
  moreover have "rows_at w' (IndexRows i) = rows_at (drop_rows P s w) (IndexRows i)"
    using assms(1) same_data_rows_at by (simp add: drops_def)
  ultimately show ?thesis
    using assms(3) by (auto simp: rows_at_def drop_rows_def drop_index_rows_def)
qed

text \<open>C7: Storing a record (\<open>storeRecord\<close>, the body of \<open>put\<close> and \<open>add\<close>) in a store that is in order either
  fails with a \<open>ConstraintError\<close>, or returns the key it stored under (the given one, or the generator's
  current number), after which the store and its indexes are in order again, looking the key up finds
  the record, and the records under other keys are those that were there.\<close>

theorem store_record_put_get:
  assumes "store_ok w s" "stores w s = Some d" "gen_ok (st_next d)"
    and "\<forall>k' \<in> set_option k. valid_key k'" "k = None \<longrightarrow> st_auto d"
    and "store_record s v k no_overwrite w = (w', r)"
  shows "case r of
      Inl e \<Rightarrow> e = DomErr ''ConstraintError''
    | Inr key \<Rightarrow> store_ok w' s \<and> key = (case k of Some k' \<Rightarrow> k' | None \<Rightarrow> KNum (st_next d)) \<and>
        (\<exists>x. find_row (rows_at w' (StoreRows s)) key = Some x \<and> rkey x = key \<and> (k \<noteq> None \<longrightarrow> rval x = v)) \<and>
        filter (\<lambda>r. cmp_keys (rkey r) key \<noteq> 0) (rows_at w' (StoreRows s)) =
        filter (\<lambda>r. cmp_keys (rkey r) key \<noteq> 0) (rows_at w (StoreRows s))"
  using store_record_spec [OF assms(2,3,1,4,5), of v no_overwrite] assms(6)
  by (cases k; cases r) (auto simp: put_result_def)

theorem store_record_put_get_witness:
  "case store_record 0 (ex_clone ''c'') None False ex_work of (w', r) \<Rightarrow>
     r = Inr (KNum (Fin 3)) \<and> store_ok w' 0 \<and> (\<exists>x. find_row (rows_at w' (StoreRows 0)) (KNum (Fin 3)) = Some x)"
proof -
  obtain w' r where r: "store_record 0 (ex_clone ''c'') None False ex_work = (w', r)" by fastforce
  have "snd (store_record 0 (ex_clone ''c'') None False ex_work) = Inr (KNum (Fin 3))" by code_simp
  with r have "r = Inr (KNum (Fin 3))" by simp
  with store_record_put_get [OF ex_store_ok ex_stores(1) ex_gen_ok _ _ r] r show ?thesis
    by (auto simp: ex_store_def)
qed

text \<open>C8: A storing request that fails leaves nothing behind: rolling the undo log back to where it was
  before the request (\<open>rollback(tx, mark)\<close> in \<open>runItem\<close>) restores every store, index and database and the
  log itself, although the failing \<open>storeRecord\<close> may have replaced the old record, moved the generator and
  added rows to some of the indexes.\<close>

theorem failed_record_rolls_back:
  assumes "store_ok w s" "stores w s = Some d" "gen_ok (st_next d)"
    and "\<forall>k' \<in> set_option k. valid_key k'" "k = None \<longrightarrow> st_auto d"
    and "store_record s v k no_overwrite w = (w', Inl e)"
  defines "w2 \<equiv> rollback (length (undo_log w)) w'"
  shows "stores w2 = stores w \<and> indexes w2 = indexes w \<and> dbs w2 = dbs w \<and> undo_log w2 = undo_log w"
proof -
  have "reverts w w'" using store_record_spec [OF assms(2,3,1,4,5), of v no_overwrite] assms(6) by auto
  from rollback_reverts [OF this] show ?thesis by (simp add: w2_def same_data_def)
qed

theorem failed_record_rolls_back_witness:
  "case store_record 0 (ex_clone ''b'') (Some (KNum (Fin 1))) False ex_work of (w', r) \<Rightarrow>
     r = Inl (DomErr ''ConstraintError'') \<and> length (undo_log w') > 2 \<and>
     stores (rollback 0 w') = stores ex_work \<and> indexes (rollback 0 w') = indexes ex_work"
proof -
  let ?r = "store_record 0 (ex_clone ''b'') (Some (KNum (Fin 1))) False ex_work"
  obtain w' r where r: "?r = (w', r)" by fastforce
  have "snd ?r = Inl (DomErr ''ConstraintError'')" by code_simp
  moreover have "length (undo_log (fst ?r)) > 2" by code_simp
  ultimately have "r = Inl (DomErr ''ConstraintError'')" "length (undo_log w') > 2" using r by auto
  moreover have "length (undo_log ex_work) = 0" by (simp add: ex_work_def)
  ultimately show ?thesis
    using failed_record_rolls_back [OF ex_store_ok ex_stores(1) ex_gen_ok _ _, of "Some (KNum (Fin 1))" "ex_clone ''b''" False w'] r
    by simp
qed

text \<open>C17: Deleting a range (\<open>storeDelete\<close>, the body of \<open>delete\<close>, \<open>clear\<close> and the cursor's \<open>delete\<close>)
  removes exactly the records whose key is in the range and the index rows that refer to them, on the
  row-by-row path and on the bulk path alike; other stores keep their rows, and the store and its indexes
  stay in order.\<close>

theorem store_delete_removes_range:
  assumes "store_ok w s" "valid_range rg"
  defines "w' \<equiv> store_delete s rg w"
  shows "rows_at w' (StoreRows s) = filter (\<lambda>r. \<not> in_range_opt rg (rkey r)) (rows_at w (StoreRows s)) \<and>
     (\<forall>i \<in> set (maintained_of w s). rows_at w' (IndexRows i) =
        filter (keeps (\<lambda>r. in_range_opt rg (rkey r))) (rows_at w (IndexRows i))) \<and>
     (\<forall>s'. s' \<noteq> s \<longrightarrow> rows_at w' (StoreRows s') = rows_at w (StoreRows s')) \<and> store_ok w' s"
proof -
  have d: "drops (\<lambda>r. in_range_opt rg (rkey r)) s w w'"
    unfolding w'_def by (rule store_delete_spec [OF assms(1,2)])
  have "rows_at w' (StoreRows s') = rows_at w (StoreRows s')" if "s' \<noteq> s" for s'
    using d same_data_rows_at [of w' _ "StoreRows s'"] that
    by (auto simp: drops_def drop_rows_def store_ok_has_rows [OF assms(1)])
  with drops_rows_at [OF d assms(1)] drops_index_rows [OF d assms(1)] drops_ok [OF d assms(1)] show ?thesis by blast
qed

theorem store_delete_removes_range_witness:
  "rows_at (store_delete 0 (Some (only_range (KNum (Fin 1)))) ex_work) (StoreRows 0) = [ex_row 1 2 ''b''] \<and>
   rows_at (store_delete 0 (Some (only_range (KNum (Fin 1)))) ex_work) (IndexRows 0) = [ex_irow 3 (ex_row 1 2 ''b'') ''b'']"
proof -
  have v: "valid_range (Some (only_range (KNum (Fin 1))))" by (simp add: valid_range_def only_range_def)
  have i: "in_range_opt (Some (only_range (KNum (Fin 1)))) (KNum (Fin 1))" "\<not> in_range_opt (Some (only_range (KNum (Fin 1)))) (KNum (Fin 2))"
    by (simp_all add: in_range_opt_def in_range_def only_range_def ex_num cmp_num_def)
  have "st_rows ex_store = [ex_row 0 1 ''a'', ex_row 1 2 ''b'']"
    "ix_rows ex_index = [ex_irow 2 (ex_row 0 1 ''a'') ''a'', ex_irow 3 (ex_row 1 2 ''b'') ''b'']"
    by (simp_all add: ex_store_def ex_index_def)
  with store_delete_removes_range [OF ex_store_ok v] i show ?thesis by (simp add: keeps_def)
qed

text \<open>C16: After a record has been stored, every filled index that the store maintains holds exactly the
  rows derived from the records: one row for each record and each key that the index's key path (with the
  multi-entry expansion) yields for it; and the rows of a unique index have pairwise different keys.\<close>

theorem indexes_follow_records:
  assumes "store_ok w s" "stores w s = Some d" "gen_ok (st_next d)"
    and "\<forall>k' \<in> set_option k. valid_key k'" "k = None \<longrightarrow> st_auto d"
    and "store_record s v k no_overwrite w = (w', Inr key)"
    and "stores w' s = Some d'" "i \<in> set (st_maintained d')" "indexes w' i = Some ix" "ix_populated ix"
  shows "(\<forall>r k'. (\<exists>q \<in> set (ix_rows ix). rkey q = k' \<and> rrec q = Some r) \<longleftrightarrow>
      r \<in> set (st_rows d') \<and> k' \<in> set (index_keys_of ix (rval r))) \<and>
    (ix_unique ix \<longrightarrow> (\<forall>q \<in> set (ix_rows ix). \<forall>q' \<in> set (ix_rows ix). cmp_keys (rkey q) (rkey q') = 0 \<longrightarrow> q = q'))"
proof -
  have "store_ok w' s"
    using store_record_spec [OF assms(2,3,1,4,5), of v no_overwrite] assms(6) by (auto simp: put_result_def)
  with assms(7-10) have "index_ok ix (st_rows d')" by (auto simp: store_ok_def index_good_def)
  then show ?thesis
    using index_ok_rpk [of ix "st_rows d'"] index_ok_row [of ix "st_rows d'"] unfolding index_ok_def by blast
qed

theorem indexes_follow_records_witness:
  "case store_record 0 (ex_clone ''c'') None False ex_work of (w', r) \<Rightarrow>
     (case indexes w' 0 of None \<Rightarrow> False
      | Some ix \<Rightarrow> length (ix_rows ix) = 3 \<and> (\<forall>q \<in> set (ix_rows ix). \<forall>q' \<in> set (ix_rows ix). cmp_keys (rkey q) (rkey q') = 0 \<longrightarrow> q = q'))"
proof -
  let ?r = "store_record 0 (ex_clone ''c'') None False ex_work"
  obtain w' r where r: "?r = (w', r)" by fastforce
  have c: "snd ?r = Inr (KNum (Fin 3))" by code_simp
  have i: "case indexes (fst ?r) 0 of None \<Rightarrow> False | Some ix \<Rightarrow> ix_populated ix \<and> ix_unique ix \<and> length (ix_rows ix) = 3" by code_simp
  have s: "case stores (fst ?r) 0 of None \<Rightarrow> False | Some d \<Rightarrow> st_maintained d = [0]" by code_simp
  from r c have rk: "?r = (w', Inr (KNum (Fin 3)))" by simp
  from i r obtain ix where ix: "indexes w' 0 = Some ix" "ix_populated ix" "ix_unique ix" "length (ix_rows ix) = 3"
    by (auto split: option.splits)
  from s r obtain d' where d': "stores w' 0 = Some d'" "0 \<in> set (st_maintained d')" by (auto split: option.splits)
  have "None = None \<longrightarrow> st_auto ex_store" by (simp add: ex_store_def)
  from indexes_follow_records [OF ex_store_ok ex_stores(1) ex_gen_ok _ this rk d'(1,2) ix(1,2)] ix r show ?thesis by auto
qed

text \<open>C18: The rows a query collects (\<open>collect\<close>, behind \<open>getAll\<close> and \<open>getAllKeys\<close>): on sorted rows they are the
  rows whose key is in the range, in the direction asked for, with one row per key for the unique directions
  (the first of its run), cut off at the limit.\<close>

theorem collect_is_filter:
  assumes "rows_ok rows" "valid_range rg"
  shows "collect_rows rows rg dir limit = take_limit limit
     (case dir of Next \<Rightarrow> filter (\<lambda>r. in_range_opt rg (rkey r)) rows
      | NextUnique \<Rightarrow> run_heads None (filter (\<lambda>r. in_range_opt rg (rkey r)) rows)
      | Prev \<Rightarrow> rev (filter (\<lambda>r. in_range_opt rg (rkey r)) rows)
      | PrevUnique \<Rightarrow> rev (run_heads None (filter (\<lambda>r. in_range_opt rg (rkey r)) rows)))"
  using collect_rows_spec [OF assms] by (simp add: collect_spec_def)

theorem collect_is_filter_witness:
  "collect_rows (st_rows ex_store) (Some (only_range (KNum (Fin 2)))) Prev 1 = [ex_row 1 2 ''b'']"
proof -
  have v: "valid_range (Some (only_range (KNum (Fin 2))))" by (simp add: valid_range_def only_range_def)
  have "st_rows ex_store = [ex_row 0 1 ''a'', ex_row 1 2 ''b'']" by (simp add: ex_store_def)
  with collect_is_filter [OF ex_store_rows_ok v, of Prev 1] show ?thesis
    by (simp add: in_range_opt_def in_range_def only_range_def ex_num cmp_num_def take_limit_def)
qed

text \<open>The key comparison (\<open>cmpKeys\<close>) is a total preorder on keys, across the five types and through
  nested arrays: reflexive, antisymmetric in the sign of its result, and transitive.\<close>

theorem key_order_total_preorder:
  assumes "valid_key a" "valid_key b" "valid_key c"
  shows "cmp_keys a a = 0 \<and> cmp_keys b a = - cmp_keys a b \<and>
    (cmp_keys a b \<le> 0 \<longrightarrow> cmp_keys b c \<le> 0 \<longrightarrow> cmp_keys a c \<le> 0)"
  using key_order.cmp_self [OF assms(1)] key_order.cmp_flip [OF assms(1,2)] key_order.cmp_le_trans [OF assms] by blast

theorem key_order_total_preorder_witness:
  "cmp_keys (KArr [KBin [], KArr []]) (KArr [KBin [3], KDate PInf]) = - cmp_keys (KArr [KBin [3], KDate PInf]) (KArr [KBin [], KArr []])"
  using key_order_total_preorder [of "KArr [KBin [3], KDate PInf]" "KArr [KBin [], KArr []]" "KNum NZero"] by simp

text \<open>Turning a key into a page value and back (\<open>keyToValue\<close>, then \<open>toKey\<close>) gives the key again, for
  keys of every type and nesting, whatever else is on the heap.\<close>

theorem key_value_round_trip:
  assumes "key_to_value h k = (h', v)" "valid_key k"
  shows "to_key_top h' v = Inr (Some k)"
  using assms by (rule key_round_trip)

theorem key_value_round_trip_witness:
  "case key_to_value [] (KArr [KDate (Fin 5), KArr [KBin [1, 2]]]) of (h', v) \<Rightarrow>
     to_key_top h' v = Inr (Some (KArr [KDate (Fin 5), KArr [KBin [1, 2]]]))"
  using key_value_round_trip [of "[]" "KArr [KDate (Fin 5), KArr [KBin [1, 2]]]"] by (simp split: prod.splits)

text \<open>The key generator: a generated key is the current number, which is then increased, exactly up to
  \<open>2^53\<close>; past it the generator refuses; an explicit numeric key moves the generator beyond that key and
  never back.\<close>

theorem key_generator_monotone:
  assumes "stores w s = Some d" "gen_ok (st_next d)" "valid_key k"
  shows "(case generate_key s w of
      (w', Inl e) \<Rightarrow> w' = w \<and> st_next d = PInf
    | (w', Inr g) \<Rightarrow> g = KNum (st_next d) \<and> gen_ok (next_key_of w' s) \<and> num_lt (st_next d) (next_key_of w' s)) \<and>
   (let n = next_key_of (update_key_generator s k w) s in
      gen_ok n \<and> num_le (st_next d) n \<and>
      (case k of KNum x \<Rightarrow> x = PInf \<and> n = PInf \<or> num_lt x n | _ \<Rightarrow> n = st_next d))"
proof -
  have cur: "next_key_of w s = st_next d" using assms(1) by (simp add: next_key_of_def)
  have upd: "next_key_of (push_undo u (upd_store s (\<lambda>x. x\<lparr>st_next := n\<rparr>) w)) s = n" for u n
    using assms(1) by (simp add: next_key_of_def upd_store_def)
  have g: "case generate_key s w of
      (w', Inl e) \<Rightarrow> w' = w \<and> st_next d = PInf
    | (w', Inr g) \<Rightarrow> g = KNum (st_next d) \<and> gen_ok (next_key_of w' s) \<and> num_lt (st_next d) (next_key_of w' s)"
    using generate_key_spec [OF assms(1,2)] by (auto simp: upd split: prod.splits sum.splits)
  obtain n where "gen_ok n" "num_le (st_next d) n" "case k of KNum x \<Rightarrow> x = PInf \<and> n = PInf \<or> num_lt x n | _ \<Rightarrow> n = st_next d"
    "next_key_of (update_key_generator s k w) s = n"
    using update_key_generator_spec [OF assms] upd cur by auto
  with g show ?thesis by (simp add: Let_def)
qed

theorem key_generator_monotone_witness:
  "num_le (Fin 3) (next_key_of (update_key_generator 0 (KNum (Fin (19/2))) ex_work) 0) \<and>
   num_lt (Fin (19/2)) (next_key_of (update_key_generator 0 (KNum (Fin (19/2))) ex_work) 0)"
  using key_generator_monotone [OF ex_stores(1) ex_gen_ok, of "KNum (Fin (19/2))"]
  by (simp add: Let_def) (simp add: ex_store_def)

end
