(* ===== verification/IdbWorld.thy ===== *)
theory IdbWorld
  imports IdbStore
begin

text \<open>
  The transient side of \<open>45_indexeddb.js\<close> (lines 493--500 and the records made in the rest of the
  file): live databases, connections, transactions, requests, handles and cursors, and the tasks
  that the layer has handed to the host's timers.  Objects are known by numbers; a table gives the
  fields of each, and holds no meaning for numbers that were not given out yet.
\<close>

section \<open>Objects\<close>

datatype tx_mode = ReadOnly | ReadWrite | VersionChange

datatype tx_state = Active | Inactive | Committing | Finished

text \<open>The kinds of \<open>getAll\<close>, \<open>getAllKeys\<close> and \<open>getAllRecords\<close>.\<close>

datatype all_kind = AllKeys | AllValues | AllRecords

text \<open>
  The closures given to \<open>execute\<close> and to the queue of a transaction: what a request does when its
  turn comes.  The first number is a handle, a cursor, a store or an index, as named.
\<close>

datatype idb_op =
    OpGet nat "range option" bool
  | OpGetAll nat "range option" direction nat all_kind
  | OpCount nat "range option"
  | OpIterate nat "key option" "key option" nat
  | OpStore nat clone "key option" bool
  | OpDelete nat "range option"
  | OpPopulate nat
  | OpUnmaintain nat nat

type_synonym queue_item = "nat option \<times> idb_op"

text \<open>Results of requests; keys and values are given to the page as fresh object graphs.\<close>

datatype idb_result =
    ResUndef
  | ResNull
  | ResNum nat
  | ResVal clone
  | ResVals "clone list"
  | ResRecords "(clone \<times> clone \<times> clone) list"
  | ResCursor nat
  | ResConn nat

datatype req_source = NoSource | SourceHandle nat | SourceCursor nat

record idb_req =
  q_source :: req_source
  q_tx :: "nat option"
  q_done :: bool
  q_result :: idb_result
  q_error :: "exn option"

record idb_tx =
  t_conn :: nat
  t_db :: jstr
  t_mode :: tx_mode
  t_scope :: "nat list option"
  t_durability :: jstr
  t_state :: tx_state
  t_queue :: "queue_item list"
  t_undo :: "undo list"
  t_error :: "exn option"
  t_aborted :: bool
  t_handles :: "(nat \<times> nat) list"
  t_scheduled :: bool
  t_seq :: nat
  t_hold :: bool
  t_pending :: "exn option"
  t_dirty :: bool
  t_on_finish :: "(nat \<times> nat) list"
  t_open_req :: "nat option"
  t_old_version :: int

record idb_conn =
  n_db :: jstr
  n_version :: int
  n_close_pending :: bool
  n_closed :: bool
  n_names :: "jstr list option"
  n_txs :: "nat list"

text \<open>Store handles (\<open>b_index = None\<close>) and index handles, whose \<open>b_oh\<close> is the handle of the store.\<close>

record idb_handle =
  b_tx :: nat
  b_store :: nat
  b_index :: "nat option"
  b_oh :: "nat option"
  b_indexes :: "(nat \<times> nat) list"

record idb_cursor =
  c_request :: nat
  c_source :: nat
  c_store :: nat
  c_index :: "nat option"
  c_tx :: nat
  c_direction :: direction
  c_range :: "range option"
  c_key_only :: bool
  c_position :: "key option"
  c_obj_pos :: "key option"
  c_key :: "key option"
  c_pk :: "key option"
  c_value :: "clone option"
  c_got :: bool

section \<open>The connection queue and the tasks\<close>

text \<open>
  A queued \<open>open\<close> (with the version asked for) or \<open>deleteDatabase\<close>, and its request.  What goes on
  after the \<open>versionchange\<close> events, or after connections have closed, is a continuation.
\<close>

datatype conn_job = Opening "int option" nat | Deleting nat

datatype continuation =
    AfterOpen jstr "nat list" nat nat int nat int
  | DoUpgrade jstr nat nat int nat
  | AfterDelete jstr "nat list" nat nat
  | DoDelete jstr nat nat

record live_db =
  v_origin :: jstr
  v_name :: jstr
  v_conns :: "nat list"
  v_txs :: "nat list"
  v_upgrade :: "nat option"
  v_queue :: "conn_job list"
  v_busy :: bool
  v_waiters :: "(nat list \<times> continuation) list"

datatype task =
    TaskConn jstr conn_job
  | TaskStep nat
  | TaskFinishOpen nat "exn + nat"
  | TaskFinishDelete nat int
  | TaskGo continuation
  | TaskVersionChange nat nat int "int option" continuation
  | TaskBlocked nat int "int option"
  | TaskDeleteBlocked nat nat
  | TaskUpgradeNeeded nat nat nat int int
  | TaskReqAborted nat
  | TaskTxAborted nat
  | TaskPage nat

text \<open>Events of the layer and the targets on their paths.\<close>

datatype idb_event =
    EvSuccess
  | EvError
  | EvComplete
  | EvAbort
  | EvVersion string int "int option"

datatype idb_target = TargetReq nat | TargetTx nat | TargetConn nat

section \<open>The state\<close>

text \<open>
  \<open>i_work\<close> holds the data; its undo log and dirty flag are those of a transaction only while an
  operation of that transaction runs.  \<open>i_memory\<close> is the backend's \<open>Map\<close> of each storage key,
  \<open>i_live\<close> is \<open>liveDbs\<close>, \<open>i_left\<close> the counters of \<open>fireVersionChange\<close>, \<open>i_seq\<close> the number the next
  timer gets, and \<open>i_tasks\<close> the timers with delay zero in the order they were set.
\<close>

record 'p idb =
  i_work :: work
  i_heap :: heap
  i_memory :: "jstr \<Rightarrow> (jstr \<times> nat) list"
  i_live :: "jstr \<Rightarrow> live_db option"
  i_conns :: "nat \<Rightarrow> idb_conn"
  i_txs :: "nat \<Rightarrow> idb_tx"
  i_reqs :: "nat \<Rightarrow> idb_req"
  i_handles :: "nat \<Rightarrow> idb_handle"
  i_cursors :: "nat \<Rightarrow> idb_cursor"
  i_left :: "nat \<Rightarrow> nat"
  i_next :: nat
  i_tasks :: "task list"
  i_seq :: nat
  i_reports :: "exn list"
  i_page :: 'p

text \<open>
  The code around the file.  The page's listeners run during a dispatch and may call anything; the
  result are the flags of the dispatch.  \<open>structuredClone\<close> runs getters of the page.  A persistent
  backend may refuse a commit.  \<open>a_objs\<close> gives the conversions of objects.  Identifier characters are tables of the engine.
\<close>

record 'p idb_env =
  a_listeners :: "idb_target list \<Rightarrow> idb_event \<Rightarrow> 'p idb \<Rightarrow> 'p idb \<times> int"
  a_timer :: "nat \<Rightarrow> 'p idb \<Rightarrow> 'p idb"
  a_clone :: "jsval \<Rightarrow> 'p idb \<Rightarrow> 'p idb \<times> clone res"
  a_commit :: "jstr \<Rightarrow> jstr \<Rightarrow> db_data option \<Rightarrow> exn option"
  a_objs :: objs
  a_id_start :: "int \<Rightarrow> bool"
  a_id_continue :: "int \<Rightarrow> bool"

definition upd_tx :: "nat \<Rightarrow> (idb_tx \<Rightarrow> idb_tx) \<Rightarrow> 'p idb \<Rightarrow> 'p idb" where
  "upd_tx t f w = w\<lparr>i_txs := (i_txs w)(t := f (i_txs w t))\<rparr>"

definition upd_conn :: "nat \<Rightarrow> (idb_conn \<Rightarrow> idb_conn) \<Rightarrow> 'p idb \<Rightarrow> 'p idb" where
  "upd_conn c f w = w\<lparr>i_conns := (i_conns w)(c := f (i_conns w c))\<rparr>"

definition upd_req :: "nat \<Rightarrow> (idb_req \<Rightarrow> idb_req) \<Rightarrow> 'p idb \<Rightarrow> 'p idb" where
  "upd_req r f w = w\<lparr>i_reqs := (i_reqs w)(r := f (i_reqs w r))\<rparr>"

definition upd_handle :: "nat \<Rightarrow> (idb_handle \<Rightarrow> idb_handle) \<Rightarrow> 'p idb \<Rightarrow> 'p idb" where
  "upd_handle h f w = w\<lparr>i_handles := (i_handles w)(h := f (i_handles w h))\<rparr>"

definition upd_cursor :: "nat \<Rightarrow> (idb_cursor \<Rightarrow> idb_cursor) \<Rightarrow> 'p idb \<Rightarrow> 'p idb" where
  "upd_cursor c f w = w\<lparr>i_cursors := (i_cursors w)(c := f (i_cursors w c))\<rparr>"

definition upd_live :: "jstr \<Rightarrow> (live_db \<Rightarrow> live_db) \<Rightarrow> 'p idb \<Rightarrow> 'p idb" where
  "upd_live k f w = w\<lparr>i_live := (i_live w)(k := map_option f (i_live w k))\<rparr>"

definition later :: "task \<Rightarrow> 'p idb \<Rightarrow> 'p idb" where
  "later x w = w\<lparr>i_tasks := i_tasks w @ [x], i_seq := i_seq w + 1\<rparr>"

text \<open>The text of the key of \<open>liveDbs\<close>, and the database it gives, made on first use.\<close>

definition live_key :: "jstr \<Rightarrow> jstr \<Rightarrow> jstr" where
  "live_key origin name = origin @ 0 # name"

definition live_db_for :: "jstr \<Rightarrow> jstr \<Rightarrow> 'p idb \<Rightarrow> 'p idb \<times> jstr" where
  "live_db_for origin name w = (let k = live_key origin name in
     (case i_live w k of
        Some d \<Rightarrow> w
      | None \<Rightarrow> w\<lparr>i_live := (i_live w)(k \<mapsto> \<lparr>v_origin = origin, v_name = name, v_conns = [], v_txs = [],
                   v_upgrade = None, v_queue = [], v_busy = False, v_waiters = []\<rparr>)\<rparr>, k))"

definition live :: "'p idb \<Rightarrow> jstr \<Rightarrow> live_db" where
  "live w k = (case i_live w k of Some d \<Rightarrow> d
     | None \<Rightarrow> \<lparr>v_origin = [], v_name = [], v_conns = [], v_txs = [], v_upgrade = None, v_queue = [], v_busy = False, v_waiters = []\<rparr>)"

definition data_of :: "'p idb \<Rightarrow> jstr \<Rightarrow> nat option" where
  "data_of w k = map_of (i_memory w (v_origin (live w k))) (v_name (live w k))"

definition db_of :: "'p idb \<Rightarrow> nat \<Rightarrow> db_data" where
  "db_of w d = (case dbs (i_work w) d of Some x \<Rightarrow> x | None \<Rightarrow> \<lparr>db_version = 0, db_stores = []\<rparr>)"

text \<open>The names of the stores of a database, sorted.\<close>

definition store_names :: "'p idb \<Rightarrow> jstr \<Rightarrow> jstr list" where
  "store_names w k = (case data_of w k of None \<Rightarrow> [] | Some d \<Rightarrow> sort_names (map fst (db_stores (db_of w d))))"

section \<open>Requests and data operations\<close>

definition new_request :: "req_source \<Rightarrow> nat option \<Rightarrow> 'p idb \<Rightarrow> 'p idb \<times> nat" where
  "new_request src t w = (w\<lparr>i_reqs := (i_reqs w)(i_next w := \<lparr>q_source = src, q_tx = t, q_done = False,
       q_result = ResUndef, q_error = None\<rparr>), i_next := i_next w + 1\<rparr>, i_next w)"

definition new_open_request :: "'p idb \<Rightarrow> 'p idb \<times> nat" where
  "new_open_request w = new_request NoSource None w"

text \<open>A data operation runs on the undo log and the dirty flag of its transaction.\<close>

definition in_tx :: "nat \<Rightarrow> (work \<Rightarrow> work \<times> 'a) \<Rightarrow> 'p idb \<Rightarrow> 'p idb \<times> 'a" where
  "in_tx t f w = (case f ((i_work w)\<lparr>undo_log := t_undo (i_txs w t), dirty := t_dirty (i_txs w t)\<rparr>) of
     (k, r) \<Rightarrow> (upd_tx t (\<lambda>x. x\<lparr>t_undo := undo_log k, t_dirty := dirty k\<rparr>)
                 (w\<lparr>i_work := k\<lparr>undo_log := [], dirty := False\<rparr>\<rparr>), r))"

definition rollback_tx :: "nat \<Rightarrow> nat \<Rightarrow> 'p idb \<Rightarrow> 'p idb" where
  "rollback_tx t mark w = fst (in_tx t (\<lambda>k. (rollback mark k, ())) w)"

end
