(* ===== verification/IdbCursor.thy ===== *)
theory IdbCursor
  imports IdbWorld
begin

text \<open>
  Cursor iteration and the execution of queued requests (\<open>45_indexeddb.js\<close>, lines 900--1000 and the
  closures of lines 895--1361): what \<open>get\<close>, \<open>getAll\<close>, \<open>count\<close>, a cursor move, \<open>put\<close>, \<open>delete\<close> and
  the filling of an index do when their turn comes.
\<close>

section \<open>Iterating a cursor\<close>

definition forward :: "direction \<Rightarrow> bool" where
  "forward d = (d = Next \<or> d = NextUnique)"

definition unique_dir :: "direction \<Rightarrow> bool" where
  "unique_dir d = (d = NextUnique \<or> d = PrevUnique)"

text \<open>
  One round of the loop of \<open>iterate\<close>: the row after (before) the position, and not before (after)
  the key asked for.  \<open>wpk\<close> says that equal keys are told apart by the primary key.
\<close>

definition seek_forward :: "row list \<Rightarrow> range option \<Rightarrow> bool \<Rightarrow> key option \<Rightarrow> key option \<Rightarrow> key option \<Rightarrow> key option \<Rightarrow> row option" where
  "seek_forward rows rg wpk k pk pos osp = (case span_of rows rg of (s, e) \<Rightarrow>
     let i1 = (case k of None \<Rightarrow> s | Some k' \<Rightarrow> max s (lower_idx rows k' pk));
         i2 = (case pos of None \<Rightarrow> i1 | Some p \<Rightarrow> max i1 (upper_idx rows p (if wpk then osp else None)))
      in if i2 < e then Some (rows ! i2) else None)"

definition seek_backward :: "row list \<Rightarrow> range option \<Rightarrow> bool \<Rightarrow> bool \<Rightarrow> key option \<Rightarrow> key option \<Rightarrow> key option \<Rightarrow> key option \<Rightarrow> row option" where
  "seek_backward rows rg uniq wpk k pk pos osp = (case span_of rows rg of (s, e) \<Rightarrow>
     let j1 = (case k of None \<Rightarrow> e | Some k' \<Rightarrow> min e (upper_idx rows k' pk));
         j2 = (case pos of None \<Rightarrow> j1 | Some p \<Rightarrow> min j1 (lower_idx rows p (if wpk then osp else None)))
      in if s < j2 then Some (if uniq then rows ! lower_idx rows (rkey (rows ! (j2 - 1))) None else rows ! (j2 - 1)) else None)"

definition seek :: "row list \<Rightarrow> range option \<Rightarrow> direction \<Rightarrow> bool \<Rightarrow> key option \<Rightarrow> key option \<Rightarrow> key option \<Rightarrow> key option \<Rightarrow> row option" where
  "seek rows rg dir is_index k pk pos osp =
     (let wpk = (is_index \<and> \<not> unique_dir dir) in
      if forward dir then seek_forward rows rg wpk k pk pos osp
      else seek_backward rows rg (dir = PrevUnique) wpk k pk pos osp)"

text \<open>The loop: the row found last, and the position it leaves.\<close>

fun seek_times :: "(key option \<Rightarrow> key option \<Rightarrow> row option) \<Rightarrow> nat \<Rightarrow> row option \<Rightarrow> key option \<Rightarrow> key option \<Rightarrow> row option" where
  "seek_times st 0 found pos osp = found"
| "seek_times st (Suc n) found pos osp = (case st pos osp of
     None \<Rightarrow> None
   | Some r \<Rightarrow> seek_times st n (Some r) (Some (rkey r)) (Some (rpk r)))"

definition move_to :: "row option \<Rightarrow> idb_cursor \<Rightarrow> idb_cursor" where
  "move_to found c = (case found of
     None \<Rightarrow> c\<lparr>c_key := None, c_pk := None, c_value := None,
               c_obj_pos := (if c_index c = None then c_obj_pos c else None)\<rparr>
   | Some r \<Rightarrow> c\<lparr>c_position := Some (rkey r), c_obj_pos := Some (rpk r), c_key := Some (rkey r), c_pk := Some (rpk r),
               c_value := (if c_key_only c then None else Some (value_of_row r)), c_got := True\<rparr>)"

definition cursor_rows :: "work \<Rightarrow> idb_cursor \<Rightarrow> row list" where
  "cursor_rows k c = rows_at k (case c_index c of Some i \<Rightarrow> IndexRows i | None \<Rightarrow> StoreRows (c_store c))"

definition find_next :: "work \<Rightarrow> idb_cursor \<Rightarrow> key option \<Rightarrow> key option \<Rightarrow> nat \<Rightarrow> row option" where
  "find_next k c key pk count =
     seek_times (seek (cursor_rows k c) (c_range c) (c_direction c) (c_index c \<noteq> None) key pk) count None (c_position c) (c_obj_pos c)"

definition iterate :: "nat \<Rightarrow> key option \<Rightarrow> key option \<Rightarrow> nat \<Rightarrow> 'p idb \<Rightarrow> 'p idb \<times> bool" where
  "iterate c key pk count w =
     (let found = find_next (i_work w) (i_cursors w c) key pk count in
      (upd_cursor c (move_to found) w, found \<noteq> None))"

section \<open>Running a request\<close>

definition handle_rows :: "'p idb \<Rightarrow> nat \<Rightarrow> row list" where
  "handle_rows w h = rows_at (i_work w)
     (case b_index (i_handles w h) of None \<Rightarrow> StoreRows (b_store (i_handles w h)) | Some i \<Rightarrow> IndexRows i)"

definition key_clone :: "key \<Rightarrow> clone" where
  "key_clone k = key_to_value [] k"

definition get_result :: "row list \<Rightarrow> range option \<Rightarrow> bool \<Rightarrow> idb_result" where
  "get_result rows rg key_only = (case span_of rows rg of (s, e) \<Rightarrow>
     if s = e then ResUndef
     else ResVal (if key_only then key_clone (rpk (rows ! s)) else value_of_row (rows ! s)))"

definition all_result :: "row list \<Rightarrow> all_kind \<Rightarrow> idb_result" where
  "all_result rows kind = (case kind of
     AllKeys \<Rightarrow> ResVals (map (\<lambda>r. key_clone (rpk r)) rows)
   | AllValues \<Rightarrow> ResVals (map value_of_row rows)
   | AllRecords \<Rightarrow> ResRecords (map (\<lambda>r. (key_clone (rkey r), key_clone (rpk r), value_of_row r)) rows))"

definition count_result :: "row list \<Rightarrow> range option \<Rightarrow> idb_result" where
  "count_result rows rg = (case span_of rows rg of (s, e) \<Rightarrow> ResNum (e - s))"

text \<open>An index stops being maintained when the request of \<open>deleteIndex\<close> runs.\<close>

definition unmaintain :: "nat \<Rightarrow> nat \<Rightarrow> work \<Rightarrow> work" where
  "unmaintain s i k = push_undo (UnMaintained s i) (upd_store s (\<lambda>x. x\<lparr>st_maintained := set_del i (st_maintained x)\<rparr>) k)"

fun run_op :: "nat \<Rightarrow> idb_op \<Rightarrow> 'p idb \<Rightarrow> 'p idb \<times> idb_result res" where
  "run_op t (OpGet h rg key_only) w = (w, Inr (get_result (handle_rows w h) rg key_only))"
| "run_op t (OpGetAll h rg dir limit kind) w = (w, Inr (all_result (collect_rows (handle_rows w h) rg dir limit) kind))"
| "run_op t (OpCount h rg) w = (w, Inr (count_result (handle_rows w h) rg))"
| "run_op t (OpIterate c k pk n) w = (case iterate c k pk n w of
     (w1, moved) \<Rightarrow> (w1, Inr (if moved then ResCursor c else ResNull)))"
| "run_op t (OpStore s v k no_overwrite) w = (case in_tx t (store_record s v k no_overwrite) w of
     (w1, Inl e) \<Rightarrow> (w1, Inl e)
   | (w1, Inr key) \<Rightarrow> (w1, Inr (ResVal (key_clone key))))"
| "run_op t (OpDelete s rg) w = (case in_tx t (\<lambda>k. (store_delete s rg k, ())) w of (w1, _) \<Rightarrow> (w1, Inr ResUndef))"
| "run_op t (OpPopulate i) w = (case in_tx t (index_populate i) w of
     (w1, Inl e) \<Rightarrow> (w1, Inl e)
   | (w1, Inr _) \<Rightarrow> (w1, Inr ResUndef))"
| "run_op t (OpUnmaintain s i) w = (case in_tx t (\<lambda>k. (unmaintain s i k, ())) w of (w1, _) \<Rightarrow> (w1, Inr ResUndef))"

end
