(* ===== verification/IdbTx.thy ===== *)
theory IdbTx
  imports IdbCursor
begin

text \<open>
  Connections, transactions and their scheduling (\<open>45_indexeddb.js\<close>, lines 508--723): the connection
  queue, the rules by which a transaction may start, the turns that drive it, and how it commits or
  aborts.
\<close>

section \<open>The connection queue\<close>

definition pump_queue :: "jstr \<Rightarrow> 'p idb \<Rightarrow> 'p idb" where
  "pump_queue d w = (if v_busy (live w d) then w else case v_queue (live w d) of
     [] \<Rightarrow> w
   | x # q \<Rightarrow> later (TaskConn d x) (upd_live d (\<lambda>v. v\<lparr>v_busy := True, v_queue := q\<rparr>) w))"

definition enqueue_conn :: "jstr \<Rightarrow> conn_job \<Rightarrow> 'p idb \<Rightarrow> 'p idb" where
  "enqueue_conn d x w = pump_queue d (upd_live d (\<lambda>v. v\<lparr>v_queue := v_queue v @ [x]\<rparr>) w)"

text \<open>The callback \<open>done\<close> given to an open or delete.\<close>

definition conn_done :: "jstr \<Rightarrow> 'p idb \<Rightarrow> 'p idb" where
  "conn_done d w = pump_queue d (upd_live d (\<lambda>v. v\<lparr>v_busy := False\<rparr>) w)"

definition all_closed :: "'p idb \<Rightarrow> nat list \<Rightarrow> bool" where
  "all_closed w cs = list_all (\<lambda>c. n_closed (i_conns w c)) cs"

definition wait_closed :: "jstr \<Rightarrow> nat list \<Rightarrow> continuation \<Rightarrow> 'p idb \<Rightarrow> 'p idb" where
  "wait_closed d cs k w = (if all_closed w cs then later (TaskGo k) w
     else upd_live d (\<lambda>v. v\<lparr>v_waiters := v_waiters v @ [(cs, k)]\<rparr>) w)"

definition check_waiters :: "jstr \<Rightarrow> 'p idb \<Rightarrow> 'p idb" where
  "check_waiters d w = (let ready = filter (\<lambda>(cs, k). all_closed w cs) (v_waiters (live w d)) in
     fold (\<lambda>(cs, k). later (TaskGo k)) ready
       (upd_live d (\<lambda>v. v\<lparr>v_waiters := filter (\<lambda>(cs, k). \<not> all_closed w cs) (v_waiters v)\<rparr>) w))"

definition maybe_closed :: "nat \<Rightarrow> 'p idb \<Rightarrow> 'p idb" where
  "maybe_closed c w = (let n = i_conns w c in
     if \<not> n_close_pending n \<or> n_closed n \<or> n_txs n \<noteq> [] then w
     else check_waiters (n_db n)
       (upd_live (n_db n) (\<lambda>v. v\<lparr>v_conns := set_del c (v_conns v)\<rparr>)
         (upd_conn c (\<lambda>x. x\<lparr>n_closed := True, n_names := Some (store_names w (n_db n))\<rparr>) w)))"

definition close_conn :: "nat \<Rightarrow> 'p idb \<Rightarrow> 'p idb" where
  "close_conn c w = maybe_closed c (upd_conn c (\<lambda>x. x\<lparr>n_close_pending := True\<rparr>) w)"

definition finish_open :: "jstr \<Rightarrow> nat \<Rightarrow> exn + nat \<Rightarrow> 'p idb \<Rightarrow> 'p idb" where
  "finish_open d r res w = conn_done d (later (TaskFinishOpen r res) w)"

section \<open>Scheduling\<close>

definition overlaps :: "idb_tx \<Rightarrow> idb_tx \<Rightarrow> bool" where
  "overlaps a b = (case (t_scope a, t_scope b) of
     (Some xs, Some ys) \<Rightarrow> list_ex (\<lambda>s. s \<in> set ys) xs
   | _ \<Rightarrow> True)"

definition conflicting :: "idb_tx \<Rightarrow> idb_tx \<Rightarrow> bool" where
  "conflicting a b = (overlaps a b \<and> (t_mode b \<noteq> ReadOnly \<or> t_mode a \<noteq> ReadOnly))"

text \<open>\<open>canStart\<close> looks at the transactions before its own.\<close>

fun start_ok :: "'p idb \<Rightarrow> nat \<Rightarrow> nat list \<Rightarrow> bool" where
  "start_ok w t [] = True"
| "start_ok w t (u # us) =
     (if u = t then True else if conflicting (i_txs w u) (i_txs w t) then False else start_ok w t us)"

definition can_start :: "'p idb \<Rightarrow> nat \<Rightarrow> bool" where
  "can_start w t = start_ok w t (v_txs (live w (t_db (i_txs w t))))"

definition schedule :: "nat \<Rightarrow> 'p idb \<Rightarrow> 'p idb" where
  "schedule t w = (if t_scheduled (i_txs w t) then w
     else (let w1 = later (TaskStep t) w in upd_tx t (\<lambda>x. x\<lparr>t_scheduled := True, t_seq := i_seq w1\<rparr>) w1))"

definition pump_db :: "jstr \<Rightarrow> 'p idb \<Rightarrow> 'p idb" where
  "pump_db d w = fold (\<lambda>t w. if t_state (i_txs w t) \<noteq> Finished then schedule t w else w) (v_txs (live w d)) w"

definition new_tx :: "nat \<Rightarrow> jstr \<Rightarrow> tx_mode \<Rightarrow> nat list option \<Rightarrow> jstr \<Rightarrow> idb_tx" where
  "new_tx c d mode scope dur = \<lparr>t_conn = c, t_db = d, t_mode = mode, t_scope = scope, t_durability = dur,
     t_state = Active, t_queue = [], t_undo = [], t_error = None, t_aborted = False, t_handles = [],
     t_scheduled = False, t_seq = 0, t_hold = False, t_pending = None, t_dirty = False, t_on_finish = [],
     t_open_req = None, t_old_version = 0\<rparr>"

definition create_tx :: "nat \<Rightarrow> tx_mode \<Rightarrow> nat list option \<Rightarrow> jstr \<Rightarrow> 'p idb \<Rightarrow> 'p idb \<times> nat" where
  "create_tx c mode scope dur w = (let t = i_next w; d = n_db (i_conns w c) in
     (upd_conn c (\<lambda>x. x\<lparr>n_txs := n_txs x @ [t]\<rparr>)
       (upd_live d (\<lambda>v. v\<lparr>v_txs := v_txs v @ [t]\<rparr>)
         (upd_tx t (\<lambda>_. new_tx c d mode scope dur) (w\<lparr>i_next := t + 1\<rparr>))), t))"

section \<open>Events\<close>

definition dispatch_at :: "'p idb_env \<Rightarrow> idb_target list \<Rightarrow> idb_event \<Rightarrow> 'p idb \<Rightarrow> 'p idb \<times> int" where
  "dispatch_at env path ev w = a_listeners env path ev w"

definition req_path :: "'p idb \<Rightarrow> nat \<Rightarrow> idb_target list" where
  "req_path w r = (case q_tx (i_reqs w r) of
     None \<Rightarrow> [TargetReq r]
   | Some t \<Rightarrow> [TargetReq r, TargetTx t, TargetConn (t_conn (i_txs w t))])"

definition tx_path :: "'p idb \<Rightarrow> nat \<Rightarrow> idb_target list" where
  "tx_path w t = [TargetTx t, TargetConn (t_conn (i_txs w t))]"

definition threw :: "int \<Rightarrow> bool" where
  "threw flags = (flags AND 8 \<noteq> 0)"

definition canceled :: "int \<Rightarrow> bool" where
  "canceled flags = (flags AND 1 \<noteq> 0)"

definition as_dom_error :: "exn \<Rightarrow> exn" where
  "as_dom_error e = (case e of DomErr n \<Rightarrow> DomErr n | _ \<Rightarrow> DomErr ''UnknownError'')"

definition note_error :: "exn \<Rightarrow> 'p idb \<Rightarrow> 'p idb" where
  "note_error e w = (case e of DomErr n \<Rightarrow> w | _ \<Rightarrow> w\<lparr>i_reports := i_reports w @ [e]\<rparr>)"

definition version_event :: "'p idb_env \<Rightarrow> string \<Rightarrow> nat \<Rightarrow> int \<Rightarrow> int option \<Rightarrow> 'p idb \<Rightarrow> 'p idb \<times> int" where
  "version_event env ty r old new w = dispatch_at env (req_path w r) (EvVersion ty old new) w"

section \<open>Commit and abort\<close>

definition execute :: "req_source \<Rightarrow> nat \<Rightarrow> idb_op \<Rightarrow> nat option \<Rightarrow> 'p idb \<Rightarrow> 'p idb \<times> nat" where
  "execute src t op req w = (case (case req of None \<Rightarrow> new_request src (Some t) w | Some r \<Rightarrow> (w, r)) of
     (w1, r) \<Rightarrow> (schedule t (upd_tx t (\<lambda>x. x\<lparr>t_queue := t_queue x @ [(Some r, op)]\<rparr>)
                  (upd_req r (\<lambda>q. q\<lparr>q_tx := Some t\<rparr>) w1)), r))"

definition freeze_scope :: "nat \<Rightarrow> 'p idb \<Rightarrow> 'p idb" where
  "freeze_scope t w = upd_tx t (\<lambda>x. x\<lparr>t_scope := Some (case data_of w (t_db x) of
     None \<Rightarrow> [] | Some d \<Rightarrow> map snd (db_stores (db_of w d)))\<rparr>) w"

definition forget_db :: "jstr \<Rightarrow> 'p idb \<Rightarrow> 'p idb" where
  "forget_db k w = (let o' = v_origin (live w k) in
     w\<lparr>i_memory := (i_memory w)(o' := map_del (v_name (live w k)) (i_memory w o'))\<rparr>)"

definition abort_upgrade :: "nat \<Rightarrow> 'p idb \<Rightarrow> 'p idb" where
  "abort_upgrade t w = (let k = t_db (i_txs w t); c = t_conn (i_txs w t) in
     case data_of w k of
       None \<Rightarrow> upd_conn c (\<lambda>x. x\<lparr>n_version := 0\<rparr>) w
     | Some d \<Rightarrow>
         (let w1 = upd_conn c (\<lambda>x. x\<lparr>n_version := db_version (db_of w d)\<rparr>) w in
          if db_version (db_of w d) = 0 then forget_db k w1 else w1))"

text \<open>The closure that \<open>upgrade\<close> leaves in \<open>onFinish\<close>.\<close>

definition upgrade_finished :: "nat \<Rightarrow> nat \<times> nat \<Rightarrow> 'p idb \<Rightarrow> 'p idb" where
  "upgrade_finished t cr w = (case cr of (c, r) \<Rightarrow> let d = t_db (i_txs w t) in
     if t_aborted (i_txs w t) then finish_open d r (Inl (DomErr ''AbortError'')) (close_conn c w)
     else if n_close_pending (i_conns w c) then finish_open d r (Inl (DomErr ''AbortError'')) w
     else finish_open d r (Inr c) w)"

definition finalize_tx :: "nat \<Rightarrow> 'p idb \<Rightarrow> 'p idb" where
  "finalize_tx t w = (let x = i_txs w t;
       w1 = upd_live (t_db x) (\<lambda>v. v\<lparr>v_txs := remove1 t (v_txs v)\<rparr>) w;
       w2 = upd_conn (t_conn x) (\<lambda>n. n\<lparr>n_txs := set_del t (n_txs n)\<rparr>) w1;
       w3 = fold (upgrade_finished t) (t_on_finish x) (upd_tx t (\<lambda>y. y\<lparr>t_on_finish := []\<rparr>) w2)
     in maybe_closed (t_conn x) (pump_db (t_db x) w3))"

fun report_aborted :: "queue_item list \<Rightarrow> 'p idb \<Rightarrow> 'p idb" where
  "report_aborted [] w = w"
| "report_aborted ((r, op) # items) w =
     report_aborted items (case r of None \<Rightarrow> w | Some q \<Rightarrow> later (TaskReqAborted q) w)"

definition abort_tx :: "nat \<Rightarrow> exn option \<Rightarrow> 'p idb \<Rightarrow> 'p idb" where
  "abort_tx t err w =
     (if t_state (i_txs w t) = Finished then w
      else let w1 = rollback_tx t 0 (upd_tx t (\<lambda>x. x\<lparr>t_aborted := True\<rparr>) w);
               w2 = (if t_mode (i_txs w1 t) = VersionChange then freeze_scope t (abort_upgrade t w1) else w1);
               pending = t_queue (i_txs w2 t);
               w3 = upd_tx t (\<lambda>x. x\<lparr>t_state := Finished, t_error := err, t_queue := []\<rparr>) w2
           in later (TaskTxAborted t) (report_aborted pending w3))"

definition commit_failure :: "'p idb_env \<Rightarrow> nat \<Rightarrow> 'p idb \<Rightarrow> exn option" where
  "commit_failure env t w = (let k = t_db (i_txs w t) in
     if t_dirty (i_txs w t) then a_commit env (v_origin (live w k)) (v_name (live w k)) (map_option (db_of w) (data_of w k)) else None)"

definition commit_tx :: "'p idb_env \<Rightarrow> nat \<Rightarrow> 'p idb \<Rightarrow> 'p idb" where
  "commit_tx env t w = (case commit_failure env t w of
     Some e \<Rightarrow> abort_tx t (Some (as_dom_error e)) (note_error e w)
   | None \<Rightarrow>
       (let w1 = upd_tx t (\<lambda>x. x\<lparr>t_undo := []\<rparr>) w;
            w2 = (if t_mode (i_txs w1 t) = VersionChange
                  then freeze_scope t (upd_live (t_db (i_txs w1 t)) (\<lambda>v. v\<lparr>v_upgrade := None\<rparr>) w1) else w1);
            w3 = fst (dispatch_at env (tx_path w2 t) EvComplete (upd_tx t (\<lambda>x. x\<lparr>t_state := Finished\<rparr>) w2));
            w4 = (case t_open_req (i_txs w3 t) of None \<Rightarrow> w3 | Some r \<Rightarrow> upd_req r (\<lambda>q. q\<lparr>q_tx := None\<rparr>) w3)
        in finalize_tx t w4))"

section \<open>The turns of a transaction\<close>

text \<open>A request is answered: its event may ask for the abort of the transaction.\<close>

definition settle :: "'p idb_env \<Rightarrow> nat \<Rightarrow> nat \<Rightarrow> idb_result res \<Rightarrow> 'p idb \<Rightarrow> 'p idb" where
  "settle env t r res w =
     (let w1 = upd_req r (\<lambda>q. case res of
            Inl e \<Rightarrow> q\<lparr>q_done := True, q_result := ResUndef, q_error := Some e\<rparr>
          | Inr v \<Rightarrow> q\<lparr>q_done := True, q_result := v, q_error := None\<rparr>) w;
          w2 = (if t_state (i_txs w1 t) = Inactive then upd_tx t (\<lambda>x. x\<lparr>t_state := Active\<rparr>) w1 else w1)
      in case dispatch_at env (req_path w2 r) (case res of Inl e \<Rightarrow> EvError | Inr v \<Rightarrow> EvSuccess) w2 of
           (w3, flags) \<Rightarrow>
             if t_state (i_txs w3 t) \<noteq> Active then w3
             else if threw flags then upd_tx t (\<lambda>x. x\<lparr>t_pending := Some (DomErr ''AbortError'')\<rparr>) w3
             else (case res of
                Inl e \<Rightarrow> if canceled flags then w3 else upd_tx t (\<lambda>x. x\<lparr>t_pending := Some e\<rparr>) w3
              | Inr v \<Rightarrow> w3))"

definition run_item :: "'p idb_env \<Rightarrow> nat \<Rightarrow> queue_item \<Rightarrow> 'p idb \<Rightarrow> 'p idb" where
  "run_item env t item w = (case item of (req, op) \<Rightarrow>
     let mark = length (t_undo (i_txs w t)) in
     case run_op t op w of
       (w1, Inl e) \<Rightarrow>
         (let w2 = rollback_tx t mark (note_error e w1); err = as_dom_error e in
          case req of
            None \<Rightarrow> abort_tx t (Some err) w2
          | Some r \<Rightarrow>
              if t_state (i_txs w2 t) = Committing
              then abort_tx t (Some err) (upd_tx t (\<lambda>x. x\<lparr>t_queue := item # t_queue x\<rparr>) w2)
              else settle env t r (Inl err) w2)
     | (w1, Inr v) \<Rightarrow> (case req of None \<Rightarrow> w1 | Some r \<Rightarrow> settle env t r (Inr v) w1))"

text \<open>The part of \<open>step\<close> after the transaction was found not active.\<close>

definition turn :: "'p idb_env \<Rightarrow> nat \<Rightarrow> 'p idb \<Rightarrow> 'p idb" where
  "turn env t w = (case t_pending (i_txs w t) of
     Some e \<Rightarrow> abort_tx t (Some e) (upd_tx t (\<lambda>x. x\<lparr>t_pending := None\<rparr>) w)
   | None \<Rightarrow>
       if \<not> can_start w t then w
       else (case t_queue (i_txs w t) of
          [] \<Rightarrow> if t_state (i_txs w t) = Committing then commit_tx env t w
               else schedule t (upd_tx t (\<lambda>x. x\<lparr>t_state := Committing\<rparr>) w)
        | item # q \<Rightarrow> run_item env t item (schedule t (upd_tx t (\<lambda>x. x\<lparr>t_queue := q\<rparr>) w))))"

definition step :: "'p idb_env \<Rightarrow> nat \<Rightarrow> 'p idb \<Rightarrow> 'p idb" where
  "step env t w =
     (let x = i_txs w t in
      if t_state x = Finished \<or> t_hold x then w
      else if t_state x = Active then
        (let w1 = upd_tx t (\<lambda>x. x\<lparr>t_state := Inactive\<rparr>) w in
         if t_pending x = None \<and> i_seq w \<noteq> t_seq x then schedule t w1 else turn env t w1)
      else turn env t w)"

end
