(* ===== verification/IdbOpen.thy ===== *)
theory IdbOpen
  imports IdbTx
begin

text \<open>
  Opening and deleting databases (\<open>45_indexeddb.js\<close>, lines 724--843), and the tasks: what each timer
  of the layer does when it fires.
\<close>

section \<open>Opening, upgrading, deleting\<close>

definition set_left :: "nat \<Rightarrow> nat \<Rightarrow> 'p idb \<Rightarrow> 'p idb" where
  "set_left i n w = w\<lparr>i_left := (i_left w)(i := n)\<rparr>"

definition fire_version_change :: "nat list \<Rightarrow> int \<Rightarrow> int option \<Rightarrow> continuation \<Rightarrow> 'p idb \<Rightarrow> 'p idb" where
  "fire_version_change cs old new k w =
     (let ls = filter (\<lambda>c. \<not> n_close_pending (i_conns w c)) cs; i = i_next w in
      if ls = [] then later (TaskGo k) w
      else fold (\<lambda>c. later (TaskVersionChange c i old new k)) ls (set_left i (length ls) (w\<lparr>i_next := i + 1\<rparr>)))"

definition new_conn :: "jstr \<Rightarrow> int \<Rightarrow> 'p idb \<Rightarrow> 'p idb \<times> nat" where
  "new_conn d version w = (let c = i_next w in
     (upd_conn c (\<lambda>_. \<lparr>n_db = d, n_version = version, n_close_pending = False, n_closed = False, n_names = None, n_txs = []\<rparr>)
       (w\<lparr>i_next := c + 1\<rparr>), c))"

text \<open>The data of the database, made with version 0 when there is none.\<close>

definition ensure_data :: "jstr \<Rightarrow> 'p idb \<Rightarrow> 'p idb \<times> nat" where
  "ensure_data k w = (case data_of w k of
     Some d \<Rightarrow> (w, d)
   | None \<Rightarrow>
       (let d = next_id (i_work w); o' = v_origin (live w k) in
        (w\<lparr>i_work := (i_work w)\<lparr>dbs := (dbs (i_work w))(d \<mapsto> \<lparr>db_version = 0, db_stores = []\<rparr>), next_id := d + 1\<rparr>,
           i_memory := (i_memory w)(o' := map_set (v_name (live w k)) d (i_memory w o'))\<rparr>, d)))"

definition version_asked :: "'p idb \<Rightarrow> jstr \<Rightarrow> int option \<Rightarrow> int" where
  "version_asked w k version = (case version of
     Some v \<Rightarrow> v
   | None \<Rightarrow> (case data_of w k of None \<Rightarrow> 1 | Some d \<Rightarrow> db_version (db_of w d)))"

definition run_open :: "jstr \<Rightarrow> int option \<Rightarrow> nat \<Rightarrow> 'p idb \<Rightarrow> 'p idb" where
  "run_open k version0 r w =
     (let version = version_asked w k version0 in
      case ensure_data k w of (w1, d) \<Rightarrow>
        let old = db_version (db_of w1 d) in
        if old > version then finish_open k r (Inl (DomErr ''VersionError'')) w1
        else (case new_conn k version w1 of (w2, c) \<Rightarrow>
          let others = v_conns (live w2 k);
              w3 = upd_live k (\<lambda>v. v\<lparr>v_conns := v_conns v @ [c]\<rparr>) w2
          in if old = version then finish_open k r (Inr c) w3
             else fire_version_change others old (Some version) (AfterOpen k others d c version r old) w3))"

definition after_open :: "jstr \<Rightarrow> nat list \<Rightarrow> nat \<Rightarrow> nat \<Rightarrow> int \<Rightarrow> nat \<Rightarrow> int \<Rightarrow> 'p idb \<Rightarrow> 'p idb" where
  "after_open k others d c version r old w =
     wait_closed k others (DoUpgrade k d c version r)
       (if all_closed w others then w else later (TaskBlocked r old (Some version)) w)"

definition upgrade :: "jstr \<Rightarrow> nat \<Rightarrow> nat \<Rightarrow> int \<Rightarrow> nat \<Rightarrow> 'p idb \<Rightarrow> 'p idb" where
  "upgrade k d c version r w =
     (let old = db_version (db_of w d) in
      case create_tx c VersionChange None (js ''default'') w of (w1, t) \<Rightarrow>
        let w2 = upd_tx t (\<lambda>x. x\<lparr>t_state := Inactive, t_hold := True, t_open_req := Some r, t_old_version := old\<rparr>) w1;
            w3 = upd_live k (\<lambda>v. v\<lparr>v_upgrade := Some t\<rparr>) w2;
            w4 = fst (in_tx t (\<lambda>j. ((push_undo (UnVersion d old) (upd_db d (\<lambda>x. x\<lparr>db_version := version\<rparr>) j))\<lparr>dirty := True\<rparr>, ())) w3);
            w5 = upd_tx t (\<lambda>x. x\<lparr>t_on_finish := t_on_finish x @ [(c, r)]\<rparr>) w4
        in later (TaskUpgradeNeeded t r c old version) w5)"

definition upgrade_needed :: "'p idb_env \<Rightarrow> nat \<Rightarrow> nat \<Rightarrow> nat \<Rightarrow> int \<Rightarrow> int \<Rightarrow> 'p idb \<Rightarrow> 'p idb" where
  "upgrade_needed env t r c old version w =
     (let w1 = upd_req r (\<lambda>q. q\<lparr>q_result := ResConn c, q_tx := Some t, q_done := True\<rparr>) w;
          w2 = schedule t (upd_tx t (\<lambda>x. x\<lparr>t_state := Active, t_hold := False\<rparr>) w1)
      in case version_event env ''upgradeneeded'' r old (Some version) w2 of (w3, flags) \<Rightarrow>
           if threw flags \<and> t_state (i_txs w3 t) = Active
           then upd_tx t (\<lambda>x. x\<lparr>t_pending := Some (DomErr ''AbortError'')\<rparr>) w3 else w3)"

definition finish_delete :: "jstr \<Rightarrow> nat \<Rightarrow> int \<Rightarrow> 'p idb \<Rightarrow> 'p idb" where
  "finish_delete k r old w = conn_done k (later (TaskFinishDelete r old) w)"

definition run_delete :: "jstr \<Rightarrow> nat \<Rightarrow> 'p idb \<Rightarrow> 'p idb" where
  "run_delete k r w = (case data_of w k of
     None \<Rightarrow> finish_delete k r 0 w
   | Some d \<Rightarrow> (let open = v_conns (live w k) in
       fire_version_change open (db_version (db_of w d)) None (AfterDelete k open d r) w))"

definition after_delete :: "jstr \<Rightarrow> nat list \<Rightarrow> nat \<Rightarrow> nat \<Rightarrow> 'p idb \<Rightarrow> 'p idb" where
  "after_delete k cs d r w =
     wait_closed k cs (DoDelete k d r)
       (if all_closed w cs then w else later (TaskDeleteBlocked r d) w)"

definition do_delete :: "jstr \<Rightarrow> nat \<Rightarrow> nat \<Rightarrow> 'p idb \<Rightarrow> 'p idb" where
  "do_delete k d r w = finish_delete k r (db_version (db_of w d)) (forget_db k w)"

section \<open>Tasks\<close>

fun run_continuation :: "continuation \<Rightarrow> 'p idb \<Rightarrow> 'p idb" where
  "run_continuation (AfterOpen k others d c version r old) w = after_open k others d c version r old w"
| "run_continuation (DoUpgrade k d c version r) w = upgrade k d c version r w"
| "run_continuation (AfterDelete k cs d r) w = after_delete k cs d r w"
| "run_continuation (DoDelete k d r) w = do_delete k d r w"

definition open_answer :: "'p idb_env \<Rightarrow> nat \<Rightarrow> exn + nat \<Rightarrow> 'p idb \<Rightarrow> 'p idb" where
  "open_answer env r res w = (case res of
     Inl e \<Rightarrow> (let w1 = upd_req r (\<lambda>q. q\<lparr>q_done := True, q_result := ResUndef, q_error := Some e\<rparr>) w in
              fst (dispatch_at env (req_path w1 r) EvError w1))
   | Inr c \<Rightarrow> (let w1 = upd_req r (\<lambda>q. q\<lparr>q_done := True, q_result := ResConn c, q_error := None\<rparr>) w in
              fst (dispatch_at env (req_path w1 r) EvSuccess w1)))"

definition version_change :: "'p idb_env \<Rightarrow> nat \<Rightarrow> nat \<Rightarrow> int \<Rightarrow> int option \<Rightarrow> continuation \<Rightarrow> 'p idb \<Rightarrow> 'p idb" where
  "version_change env c i old new k w =
     (let w1 = set_left i (i_left w i - 1) w;
          w2 = (if i_left w1 i = 0 then later (TaskGo k) w1 else w1)
      in if n_close_pending (i_conns w2 c) then w2
         else fst (dispatch_at env [TargetConn c] (EvVersion ''versionchange'' old new) w2))"

definition req_aborted :: "'p idb_env \<Rightarrow> nat \<Rightarrow> 'p idb \<Rightarrow> 'p idb" where
  "req_aborted env r w =
     (let w1 = upd_req r (\<lambda>q. q\<lparr>q_done := True, q_result := ResUndef, q_error := Some (DomErr ''AbortError'')\<rparr>) w
      in fst (dispatch_at env (req_path w1 r) EvError w1))"

definition tx_aborted :: "'p idb_env \<Rightarrow> nat \<Rightarrow> 'p idb \<Rightarrow> 'p idb" where
  "tx_aborted env t w =
     (let w1 = (if t_mode (i_txs w t) = VersionChange then upd_live (t_db (i_txs w t)) (\<lambda>v. v\<lparr>v_upgrade := None\<rparr>) w else w);
          w2 = fst (dispatch_at env (tx_path w1 t) EvAbort w1);
          w3 = (case t_open_req (i_txs w2 t) of None \<Rightarrow> w2
                | Some r \<Rightarrow> upd_req r (\<lambda>q. q\<lparr>q_tx := None, q_result := ResUndef, q_error := Some (DomErr ''AbortError''), q_done := False\<rparr>) w2)
      in finalize_tx t w3)"

fun run_task :: "'p idb_env \<Rightarrow> task \<Rightarrow> 'p idb \<Rightarrow> 'p idb" where
  "run_task env (TaskConn k (Opening v r)) w = run_open k v r w"
| "run_task env (TaskConn k (Deleting r)) w = run_delete k r w"
| "run_task env (TaskStep t) w = step env t (upd_tx t (\<lambda>x. x\<lparr>t_scheduled := False\<rparr>) w)"
| "run_task env (TaskFinishOpen r res) w = open_answer env r res w"
| "run_task env (TaskFinishDelete r old) w =
     fst (dispatch_at env [TargetReq r] (EvVersion ''success'' old None)
       (upd_req r (\<lambda>q. q\<lparr>q_done := True, q_result := ResUndef\<rparr>) w))"
| "run_task env (TaskGo k) w = run_continuation k w"
| "run_task env (TaskVersionChange c i old new k) w = version_change env c i old new k w"
| "run_task env (TaskBlocked r old new) w = fst (version_event env ''blocked'' r old new w)"
| "run_task env (TaskDeleteBlocked r d) w = fst (version_event env ''blocked'' r (db_version (db_of w d)) None w)"
| "run_task env (TaskUpgradeNeeded t r c old version) w = upgrade_needed env t r c old version w"
| "run_task env (TaskReqAborted r) w = req_aborted env r w"
| "run_task env (TaskTxAborted t) w = tx_aborted env t w"
| "run_task env (TaskPage n) w = a_timer env n w"

text \<open>The host fires the timers in the order they were set.\<close>

definition run_next :: "'p idb_env \<Rightarrow> 'p idb \<Rightarrow> 'p idb" where
  "run_next env w = (case i_tasks w of [] \<Rightarrow> w | x # xs \<Rightarrow> run_task env x (w\<lparr>i_tasks := xs\<rparr>))"

fun run_tasks :: "'p idb_env \<Rightarrow> nat \<Rightarrow> 'p idb \<Rightarrow> 'p idb" where
  "run_tasks env 0 w = w"
| "run_tasks env (Suc n) w = (if i_tasks w = [] then w else run_tasks env n (run_next env w))"

end
