(* ===== verification/IdbHandles.thy ===== *)
theory IdbHandles
  imports IdbOpen
begin

text \<open>
  Handles, the checks of request-making methods, and the methods of stores, indexes and cursors that
  place requests (\<open>45_indexeddb.js\<close>, lines 36--48, 845--965, 1088--1171 and 1337--1361).  A method
  returns the state with its result or the exception it throws.  The number of arguments is checked
  by the code before anything else; here the arguments are present.
\<close>

type_synonym ('p, 'a) api = "'p idb \<Rightarrow> 'p idb \<times> 'a res"

definition fail :: "exn \<Rightarrow> 'p idb \<Rightarrow> 'p idb \<times> 'a res" where
  "fail e w = (w, Inl e)"

text \<open>A pure check or conversion in front of the rest of a method.\<close>

definition check :: "'a res \<Rightarrow> ('a \<Rightarrow> ('p, 'b) api) \<Rightarrow> ('p, 'b) api" where
  "check r f w = (case r of Inl e \<Rightarrow> (w, Inl e) | Inr x \<Rightarrow> f x w)"

definition guard :: "bool \<Rightarrow> exn \<Rightarrow> ('p, 'b) api \<Rightarrow> ('p, 'b) api" where
  "guard bad e f w = (if bad then (w, Inl e) else f w)"

section \<open>Conversions\<close>

definition max_ulong :: int where
  "max_ulong = 4294967295"

definition max_safe :: int where
  "max_safe = 9007199254740991"

definition enforce_range :: "objs \<Rightarrow> jsval \<Rightarrow> int \<Rightarrow> int res" where
  "enforce_range po v mx = (case to_number po v of
     Inl e \<Rightarrow> Inl e
   | Inr n \<Rightarrow> (case fin_val n of
       None \<Rightarrow> Inl TypeErr
     | Some _ \<Rightarrow> if num_int n < 0 \<or> num_int n > mx then Inl TypeErr else Inr (num_int n)))"

definition to_direction :: "objs \<Rightarrow> jsval \<Rightarrow> direction res" where
  "to_direction po v = (if v = Undef then Inr Next else (case to_jstring po v of
     Inl e \<Rightarrow> Inl e
   | Inr s \<Rightarrow> if s = js ''next'' then Inr Next else if s = js ''nextunique'' then Inr NextUnique
             else if s = js ''prev'' then Inr Prev else if s = js ''prevunique'' then Inr PrevUnique else Inl TypeErr))"

text \<open>\<open>Array.from(v, (x) => `${x}`)\<close> for an array of the page; other iterables are not modelled.\<close>

fun slot_strings :: "objs \<Rightarrow> slot option list \<Rightarrow> jstr list res" where
  "slot_strings po [] = Inr []"
| "slot_strings po (x # xs) = (case (case x of None \<Rightarrow> Inr Undef | Some s \<Rightarrow> s) of
     Inl e \<Rightarrow> Inl e
   | Inr v \<Rightarrow> (case to_jstring po v of Inl e \<Rightarrow> Inl e | Inr s \<Rightarrow>
       (case slot_strings po xs of Inl e \<Rightarrow> Inl e | Inr ss \<Rightarrow> Inr (s # ss))))"

definition to_key_path :: "objs \<Rightarrow> heap \<Rightarrow> jsval \<Rightarrow> keypath option res" where
  "to_key_path po h v = (if nullish v then Inr None else (case cls_of h v of
     Some (CArr xs) \<Rightarrow> (case slot_strings po xs of Inl e \<Rightarrow> Inl e | Inr ss \<Rightarrow> Inr (Some (KPaths ss)))
   | _ \<Rightarrow> (case to_jstring po v of Inl e \<Rightarrow> Inl e | Inr s \<Rightarrow> Inr (Some (KPath s)))))"

definition names_list :: "objs \<Rightarrow> heap \<Rightarrow> jsval \<Rightarrow> jstr list res" where
  "names_list po h v = (case cls_of h v of
     Some (CArr xs) \<Rightarrow> slot_strings po xs
   | _ \<Rightarrow> (case to_jstring po v of Inl e \<Rightarrow> Inl e | Inr s \<Rightarrow> Inr [s]))"

section \<open>Handles\<close>

definition store_at :: "'p idb \<Rightarrow> nat \<Rightarrow> store_data" where
  "store_at w s = the (stores (i_work w) s)"

definition index_at :: "'p idb \<Rightarrow> nat \<Rightarrow> index_data" where
  "index_at w i = the (indexes (i_work w) i)"

definition new_handle :: "idb_handle \<Rightarrow> jstr \<Rightarrow> 'p idb \<Rightarrow> 'p idb \<times> nat" where
  "new_handle x n w = (let h = i_next w in
     (upd_handle h (\<lambda>_. x) (w\<lparr>i_next := h + 1, i_work := set_handle_name (Some h) n (i_work w)\<rparr>), h))"

definition store_handle :: "nat \<Rightarrow> nat \<Rightarrow> 'p idb \<Rightarrow> 'p idb \<times> nat" where
  "store_handle t s w = (case map_of (t_handles (i_txs w t)) s of
     Some h \<Rightarrow> (w, h)
   | None \<Rightarrow> (case new_handle \<lparr>b_tx = t, b_store = s, b_index = None, b_oh = None, b_indexes = []\<rparr> (st_name (store_at w s)) w of
       (w1, h) \<Rightarrow> (upd_tx t (\<lambda>x. x\<lparr>t_handles := map_set s h (t_handles x)\<rparr>) w1, h)))"

definition index_handle :: "nat \<Rightarrow> nat \<Rightarrow> 'p idb \<Rightarrow> 'p idb \<times> nat" where
  "index_handle oh i w = (case map_of (b_indexes (i_handles w oh)) i of
     Some h \<Rightarrow> (w, h)
   | None \<Rightarrow> (case new_handle \<lparr>b_tx = b_tx (i_handles w oh), b_store = b_store (i_handles w oh), b_index = Some i, b_oh = Some oh,
                              b_indexes = []\<rparr> (ix_name (index_at w i)) w of
       (w1, h) \<Rightarrow> (upd_handle oh (\<lambda>x. x\<lparr>b_indexes := map_set i h (b_indexes x)\<rparr>) w1, h)))"

definition source_deleted :: "'p idb \<Rightarrow> nat \<Rightarrow> nat option \<Rightarrow> bool" where
  "source_deleted w s i = (st_deleted (store_at w s) \<or> (case i of None \<Rightarrow> False | Some j \<Rightarrow> ix_deleted (index_at w j)))"

definition preflight :: "'p idb \<Rightarrow> nat \<Rightarrow> bool \<Rightarrow> unit res" where
  "preflight w h write = (let b = i_handles w h; x = i_txs w (b_tx b) in
     if source_deleted w (b_store b) (b_index b) then Inl (DomErr ''InvalidStateError'')
     else if t_state x \<noteq> Active then Inl (DomErr ''TransactionInactiveError'')
     else if write \<and> t_mode x = ReadOnly then Inl (DomErr ''ReadOnlyError'')
     else Inr ())"

text \<open>\<open>execute(...)\<close> as the last call of a method: the request is the result.\<close>

definition place :: "req_source \<Rightarrow> nat \<Rightarrow> idb_op \<Rightarrow> ('p, nat) api" where
  "place src t op w = (case execute src t op None w of (w1, r) \<Rightarrow> (w1, Inr r))"

definition clone_in_tx :: "'p idb_env \<Rightarrow> nat \<Rightarrow> jsval \<Rightarrow> ('p, clone) api" where
  "clone_in_tx env t v w = (let prev = t_state (i_txs w t) in
     case a_clone env v (upd_tx t (\<lambda>x. x\<lparr>t_state := Inactive\<rparr>) w) of
       (w1, r) \<Rightarrow> (if t_state (i_txs w1 t) = Inactive then upd_tx t (\<lambda>x. x\<lparr>t_state := prev\<rparr>) w1 else w1, r))"

section \<open>Queries\<close>

definition op_get :: "nat \<Rightarrow> query \<Rightarrow> bool \<Rightarrow> ('p, nat) api" where
  "op_get h q key_only w =
     check (preflight w h False) (\<lambda>_. check (to_range (i_heap w) q True) (\<lambda>rg.
       place (SourceHandle h) (b_tx (i_handles w h)) (OpGet h rg key_only))) w"

text \<open>
  The arguments of the \<open>getAll\<close> family: positional, or the members of an options object.  An array
  or a range in the place of the options has none of the members.
\<close>

datatype all_args = Positional query jsval | Options query jsval jsval

definition read_all_args :: "all_kind \<Rightarrow> all_args \<Rightarrow> (query \<times> jsval \<times> jsval) res" where
  "read_all_args kind a = (case a of
     Options q c d \<Rightarrow> Inr (q, c, d)
   | Positional q c \<Rightarrow>
       if kind \<noteq> AllRecords then Inr (q, c, Undef)
       else (case q of
          QVal v \<Rightarrow> if nullish v \<or> (case v of Obj _ \<Rightarrow> True | _ \<Rightarrow> False) then Inr (QVal Undef, Undef, Undef) else Inl TypeErr
        | QRange r \<Rightarrow> Inr (QVal Undef, Undef, Undef)))"

definition read_limit :: "objs \<Rightarrow> jsval \<Rightarrow> nat res" where
  "read_limit po c = (if c = Undef then Inr 0 else (case enforce_range po c max_ulong of Inl e \<Rightarrow> Inl e | Inr n \<Rightarrow> Inr (nat n)))"

definition op_get_all :: "objs \<Rightarrow> nat \<Rightarrow> all_kind \<Rightarrow> all_args \<Rightarrow> ('p, nat) api" where
  "op_get_all po h kind a w =
     check (read_all_args kind a) (\<lambda>(q, c, d). check (to_direction po d) (\<lambda>dir. check (read_limit po c) (\<lambda>limit.
       check (preflight w h False) (\<lambda>_. check (to_range (i_heap w) q False) (\<lambda>rg.
         place (SourceHandle h) (b_tx (i_handles w h)) (OpGetAll h rg dir limit kind)))))) w"

definition op_count :: "nat \<Rightarrow> query \<Rightarrow> ('p, nat) api" where
  "op_count h q w =
     check (preflight w h False) (\<lambda>_. check (to_range (i_heap w) q False) (\<lambda>rg.
       place (SourceHandle h) (b_tx (i_handles w h)) (OpCount h rg))) w"

definition new_cursor :: "nat \<Rightarrow> direction \<Rightarrow> range option \<Rightarrow> bool \<Rightarrow> 'p idb \<Rightarrow> 'p idb \<times> nat" where
  "new_cursor h dir rg key_only w = (let c = i_next w; b = i_handles w h in
     (upd_cursor c (\<lambda>_. \<lparr>c_request = 0, c_source = h, c_store = b_store b, c_index = b_index b, c_tx = b_tx b,
        c_direction = dir, c_range = rg, c_key_only = key_only, c_position = None, c_obj_pos = None, c_key = None,
        c_pk = None, c_value = None, c_got = False\<rparr>) (w\<lparr>i_next := c + 1\<rparr>), c))"

definition op_open_cursor :: "objs \<Rightarrow> nat \<Rightarrow> query \<Rightarrow> jsval \<Rightarrow> bool \<Rightarrow> ('p, nat) api" where
  "op_open_cursor po h q d key_only w =
     check (to_direction po d) (\<lambda>dir. check (preflight w h False) (\<lambda>_. check (to_range (i_heap w) q False) (\<lambda>rg w.
       case new_cursor h dir rg key_only w of (w1, c) \<Rightarrow>
         (case execute (SourceHandle h) (b_tx (i_handles w h)) (OpIterate c None None 1) None w1 of
            (w2, r) \<Rightarrow> (upd_cursor c (\<lambda>x. x\<lparr>c_request := r\<rparr>) w2, Inr r))))) w"

section \<open>Changes\<close>

definition op_delete :: "nat \<Rightarrow> query \<Rightarrow> ('p, nat) api" where
  "op_delete h q w =
     check (preflight w h True) (\<lambda>_. check (to_range (i_heap w) q True) (\<lambda>rg.
       place (SourceHandle h) (b_tx (i_handles w h)) (OpDelete (b_store (i_handles w h)) rg))) w"

definition op_clear :: "nat \<Rightarrow> ('p, nat) api" where
  "op_clear h w =
     check (preflight w h True) (\<lambda>_. place (SourceHandle h) (b_tx (i_handles w h)) (OpDelete (b_store (i_handles w h)) None)) w"

text \<open>The key that a value stored in a store with in-line keys gets; none when it will be generated.\<close>

definition inline_key :: "store_data \<Rightarrow> clone \<Rightarrow> key option \<Rightarrow> key option res" where
  "inline_key d v k = (case st_key_path d of
     None \<Rightarrow> Inr k
   | Some kp \<Rightarrow> (case extract_key (fst v) (snd v) kp False of
        Inl e \<Rightarrow> Inl e
      | Inr Invalid \<Rightarrow> Inl (DomErr ''DataError'')
      | Inr (Key k') \<Rightarrow> Inr (Some k')
      | Inr Failure \<Rightarrow>
          if \<not> st_auto d then Inl (DomErr ''DataError'')
          else (case kp of
             KPaths _ \<Rightarrow> Inl TypeErr
           | KPath p \<Rightarrow> if can_inject_key (fst v) (snd v) p then Inr k else Inl (DomErr ''DataError''))))"

definition add_or_put :: "'p idb_env \<Rightarrow> nat \<Rightarrow> jsval \<Rightarrow> jsval \<Rightarrow> bool \<Rightarrow> ('p, nat) api" where
  "add_or_put env h v k no_overwrite w =
     check (preflight w h True) (\<lambda>_.
       let s = b_store (i_handles w h); d = store_at w s; t = b_tx (i_handles w h) in
       guard (st_key_path d \<noteq> None \<and> k \<noteq> Undef) (DomErr ''DataError'')
       (guard (st_key_path d = None \<and> \<not> st_auto d \<and> k = Undef) (DomErr ''DataError'')
       (check (if k = Undef then Inr None else map_sum id Some (to_key_or_throw (i_heap w) k)) (\<lambda>key w.
          case clone_in_tx env t v w of
            (w1, Inl e) \<Rightarrow> (w1, Inl e)
          | (w1, Inr cl) \<Rightarrow> check (inline_key (store_at w1 s) cl key) (\<lambda>key'.
              place (SourceHandle h) t (OpStore s cl key' no_overwrite)) w1)))) w"

section \<open>Cursors\<close>

definition cursor_live :: "'p idb \<Rightarrow> idb_cursor \<Rightarrow> unit res" where
  "cursor_live w c = (if source_deleted w (c_store c) (c_index c) then Inl (DomErr ''InvalidStateError'')
     else if \<not> c_got c then Inl (DomErr ''InvalidStateError'') else Inr ())"

definition cursor_check :: "'p idb \<Rightarrow> idb_cursor \<Rightarrow> bool \<Rightarrow> unit res" where
  "cursor_check w c needs_index =
     (if t_state (i_txs w (c_tx c)) \<noteq> Active then Inl (DomErr ''TransactionInactiveError'')
      else if source_deleted w (c_store c) (c_index c) then Inl (DomErr ''InvalidStateError'')
      else if needs_index \<and> (c_index c = None \<or> (c_direction c \<noteq> Next \<and> c_direction c \<noteq> Prev))
      then Inl (DomErr ''InvalidAccessError'')
      else cursor_live w c)"

definition move_cursor :: "nat \<Rightarrow> key option \<Rightarrow> key option \<Rightarrow> nat \<Rightarrow> ('p, unit) api" where
  "move_cursor c k pk n w =
     (let x = i_cursors w c; w1 = upd_req (c_request x) (\<lambda>q. q\<lparr>q_done := False\<rparr>) (upd_cursor c (\<lambda>x. x\<lparr>c_got := False\<rparr>) w) in
      (fst (execute (SourceHandle (c_source x)) (c_tx x) (OpIterate c k pk n) (Some (c_request x)) w1), Inr ()))"

definition cursor_advance :: "objs \<Rightarrow> nat \<Rightarrow> jsval \<Rightarrow> ('p, unit) api" where
  "cursor_advance po c count w =
     check (enforce_range po count max_ulong) (\<lambda>n. guard (n = 0) TypeErr
       (check (cursor_check w (i_cursors w c) False) (\<lambda>_. move_cursor c None None (nat n)))) w"

definition not_past :: "direction \<Rightarrow> key \<Rightarrow> key option \<Rightarrow> bool" where
  "not_past dir k pos = (case pos of None \<Rightarrow> True | Some p \<Rightarrow> if forward dir then cmp_keys k p \<le> 0 else cmp_keys k p \<ge> 0)"

definition cursor_continue :: "nat \<Rightarrow> jsval \<Rightarrow> ('p, unit) api" where
  "cursor_continue c k w =
     check (cursor_check w (i_cursors w c) False) (\<lambda>_.
       if k = Undef then move_cursor c None None 1
       else check (to_key_or_throw (i_heap w) k) (\<lambda>key.
         guard (not_past (c_direction (i_cursors w c)) key (c_position (i_cursors w c))) (DomErr ''DataError'')
           (move_cursor c (Some key) None 1))) w"

definition pair_not_past :: "direction \<Rightarrow> key \<Rightarrow> key \<Rightarrow> key option \<Rightarrow> key option \<Rightarrow> bool" where
  "pair_not_past dir k pk pos osp = (case (pos, osp) of
     (Some p, Some q) \<Rightarrow>
       (let c = cmp_keys k p in
        (if dir = Next then c < 0 else c > 0) \<or> (c = 0 \<and> (if dir = Next then cmp_keys pk q \<le> 0 else cmp_keys pk q \<ge> 0)))
   | _ \<Rightarrow> True)"

definition cursor_continue_primary_key :: "nat \<Rightarrow> jsval \<Rightarrow> jsval \<Rightarrow> ('p, unit) api" where
  "cursor_continue_primary_key c k pk w =
     check (cursor_check w (i_cursors w c) True) (\<lambda>_. check (to_key_or_throw (i_heap w) k) (\<lambda>key.
       check (to_key_or_throw (i_heap w) pk) (\<lambda>pkey.
         guard (pair_not_past (c_direction (i_cursors w c)) key pkey (c_position (i_cursors w c)) (c_obj_pos (i_cursors w c)))
           (DomErr ''DataError'') (move_cursor c (Some key) (Some pkey) 1)))) w"

text \<open>The checks that \<open>update\<close> and \<open>delete\<close> share.\<close>

definition cursor_writable :: "'p idb \<Rightarrow> idb_cursor \<Rightarrow> unit res" where
  "cursor_writable w c =
     (if t_state (i_txs w (c_tx c)) \<noteq> Active then Inl (DomErr ''TransactionInactiveError'')
      else if t_mode (i_txs w (c_tx c)) = ReadOnly then Inl (DomErr ''ReadOnlyError'')
      else (case cursor_live w c of
         Inl e \<Rightarrow> Inl e
       | Inr _ \<Rightarrow> if c_key_only c then Inl (DomErr ''InvalidStateError'') else Inr ()))"

definition same_key :: "store_data \<Rightarrow> clone \<Rightarrow> key option \<Rightarrow> unit res" where
  "same_key d v pk = (case st_key_path d of
     None \<Rightarrow> Inr ()
   | Some kp \<Rightarrow> (case extract_key (fst v) (snd v) kp False of
        Inl e \<Rightarrow> Inl e
      | Inr (Key k) \<Rightarrow> (case pk of Some p \<Rightarrow> if cmp_keys k p = 0 then Inr () else Inl (DomErr ''DataError'') | None \<Rightarrow> Inl (DomErr ''DataError''))
      | Inr _ \<Rightarrow> Inl (DomErr ''DataError'')))"

definition cursor_update :: "'p idb_env \<Rightarrow> nat \<Rightarrow> jsval \<Rightarrow> ('p, nat) api" where
  "cursor_update env c v w =
     check (cursor_writable w (i_cursors w c)) (\<lambda>_ w.
       let x = i_cursors w c in
       case clone_in_tx env (c_tx x) v w of
         (w1, Inl e) \<Rightarrow> (w1, Inl e)
       | (w1, Inr cl) \<Rightarrow> check (same_key (store_at w1 (c_store x)) cl (c_pk (i_cursors w1 c))) (\<lambda>_.
           place (SourceCursor c) (c_tx x) (OpStore (c_store x) cl (c_pk (i_cursors w1 c)) False)) w1) w"

definition cursor_delete :: "nat \<Rightarrow> ('p, nat) api" where
  "cursor_delete c w =
     check (cursor_writable w (i_cursors w c)) (\<lambda>_.
       place (SourceCursor c) (c_tx (i_cursors w c))
         (OpDelete (c_store (i_cursors w c)) (map_option only_range (c_pk (i_cursors w c))))) w"

end
