(* ===== verification/IdbApi.thy ===== *)
theory IdbApi
  imports IdbHandles
begin

text \<open>
  The remaining methods of \<open>45_indexeddb.js\<close>: names and indexes of stores (lines 1189--1336),
  transactions (1382--1411), databases (1431--1506) and the factory (1518--1556).
\<close>

section \<open>Renaming\<close>

definition map_get :: "jstr \<Rightarrow> (jstr \<times> nat) list \<Rightarrow> nat option" where
  "map_get n m = map_of m n"

definition db_stores_of :: "'p idb \<Rightarrow> jstr \<Rightarrow> (jstr \<times> nat) list" where
  "db_stores_of w k = (case data_of w k of None \<Rightarrow> [] | Some d \<Rightarrow> db_stores (db_of w d))"

text \<open>An undo closure restores the name of the handle unless the transaction created the store.\<close>

definition restored_handle :: "nat \<Rightarrow> nat \<Rightarrow> nat \<Rightarrow> nat option" where
  "restored_handle creator t h = (if creator \<noteq> t then Some h else None)"

definition rename_index :: "nat \<Rightarrow> nat \<Rightarrow> jstr \<Rightarrow> jstr \<Rightarrow> nat option \<Rightarrow> nat \<Rightarrow> work \<Rightarrow> work" where
  "rename_index s i old n restored h k =
     push_undo (UnRenameIndex s old n i restored)
       ((set_handle_name (Some h) n
          (upd_index i (\<lambda>x. x\<lparr>ix_name := n\<rparr>)
            (upd_store s (\<lambda>x. x\<lparr>st_indexes := map_set n i (map_del old (st_indexes x))\<rparr>) k)))\<lparr>dirty := True\<rparr>)"

definition set_index_name :: "nat \<Rightarrow> jstr \<Rightarrow> ('p, unit) api" where
  "set_index_name h n w =
     (let b = i_handles w h; t = b_tx b; s = b_store b; i = the (b_index b); ix = index_at w i; d = store_at w s in
      guard (t_mode (i_txs w t) \<noteq> VersionChange) (DomErr ''InvalidStateError'')
      (guard (t_state (i_txs w t) \<noteq> Active) (DomErr ''TransactionInactiveError'')
      (guard (ix_deleted ix \<or> st_deleted d) (DomErr ''InvalidStateError'')
      (\<lambda>w. if ix_name ix = n then (w, Inr ())
           else guard (map_get n (st_indexes d) \<noteq> None) (DomErr ''ConstraintError'')
             (\<lambda>w. (fst (in_tx t (\<lambda>k. (rename_index s i (ix_name ix) n (restored_handle (ix_created_by ix) t h) h k, ())) w), Inr ())) w))) w)"

definition rename_store :: "nat \<Rightarrow> nat \<Rightarrow> jstr \<Rightarrow> jstr \<Rightarrow> nat option \<Rightarrow> nat \<Rightarrow> work \<Rightarrow> work" where
  "rename_store d s old n restored h k =
     push_undo (UnRenameStore d old n s restored)
       ((set_handle_name (Some h) n
          (upd_store s (\<lambda>x. x\<lparr>st_name := n\<rparr>)
            (upd_db d (\<lambda>x. x\<lparr>db_stores := map_set n s (map_del old (db_stores x))\<rparr>) k)))\<lparr>dirty := True\<rparr>)"

definition set_store_name :: "nat \<Rightarrow> jstr \<Rightarrow> ('p, unit) api" where
  "set_store_name h n w =
     (let b = i_handles w h; t = b_tx b; s = b_store b; d = store_at w s; k = t_db (i_txs w t) in
      guard (st_deleted d) (DomErr ''InvalidStateError'')
      (guard (t_mode (i_txs w t) \<noteq> VersionChange) (DomErr ''InvalidStateError'')
      (guard (t_state (i_txs w t) \<noteq> Active) (DomErr ''TransactionInactiveError'')
      (\<lambda>w. if st_name d = n then (w, Inr ())
           else guard (map_get n (db_stores_of w k) \<noteq> None) (DomErr ''ConstraintError'')
             (\<lambda>w. (fst (in_tx t (\<lambda>j. (rename_store (the (data_of w k)) s (st_name d) n (restored_handle (st_created_by d) t h) h j, ())) w), Inr ())) w))) w)"

section \<open>Indexes of a store\<close>

definition index_names :: "'p idb \<Rightarrow> nat \<Rightarrow> jstr list" where
  "index_names w h = (let d = store_at w (b_store (i_handles w h)) in
     if st_deleted d then [] else sort_names (map fst (st_indexes d)))"

definition get_index :: "nat \<Rightarrow> jstr \<Rightarrow> ('p, nat) api" where
  "get_index h n w = (let b = i_handles w h; d = store_at w (b_store b) in
     guard (st_deleted d) (DomErr ''InvalidStateError'')
     (guard (t_state (i_txs w (b_tx b)) = Finished) (DomErr ''InvalidStateError'')
     (\<lambda>w. case map_get n (st_indexes d) of
        None \<Rightarrow> fail (DomErr ''NotFoundError'') w
      | Some i \<Rightarrow> (case index_handle h i w of (w1, ih) \<Rightarrow> (w1, Inr ih)))) w)"

text \<open>The checks of a method that changes the indexes of a store in an upgrade.\<close>

definition schema_check :: "'p idb \<Rightarrow> nat \<Rightarrow> nat \<Rightarrow> unit res" where
  "schema_check w t s =
     (if t_mode (i_txs w t) \<noteq> VersionChange then Inl (DomErr ''InvalidStateError'')
      else if st_deleted (store_at w s) then Inl (DomErr ''InvalidStateError'')
      else if t_state (i_txs w t) \<noteq> Active then Inl (DomErr ''TransactionInactiveError'')
      else Inr ())"

definition enqueue_internal :: "nat \<Rightarrow> idb_op \<Rightarrow> 'p idb \<Rightarrow> 'p idb" where
  "enqueue_internal t op w = schedule t (upd_tx t (\<lambda>x. x\<lparr>t_queue := t_queue x @ [(None, op)]\<rparr>) w)"

definition add_index :: "nat \<Rightarrow> nat \<Rightarrow> jstr \<Rightarrow> keypath \<Rightarrow> bool \<Rightarrow> bool \<Rightarrow> work \<Rightarrow> work \<times> nat" where
  "add_index t s n kp unq multi k = (let i = next_id k in
     (push_undo (UnCreateIndex s n i)
       ((upd_store s (\<lambda>x. x\<lparr>st_indexes := map_set n i (st_indexes x), st_maintained := set_add i (st_maintained x)\<rparr>)
          (k\<lparr>indexes := (indexes k)(i \<mapsto> \<lparr>ix_name = n, ix_key_path = kp, ix_unique = unq, ix_multi = multi, ix_rows = [],
               ix_store = s, ix_populated = False, ix_deleted = False, ix_created_by = t\<rparr>), next_id := i + 1\<rparr>))\<lparr>dirty := True\<rparr>), i))"

definition create_index :: "'p idb_env \<Rightarrow> nat \<Rightarrow> jstr \<Rightarrow> jsval \<Rightarrow> bool \<Rightarrow> bool \<Rightarrow> ('p, nat) api" where
  "create_index env h n path unq multi w =
     (let b = i_handles w h; t = b_tx b; s = b_store b in
      check (to_key_path (a_objs env) (i_heap w) path) (\<lambda>kp0. check (schema_check w t s) (\<lambda>_.
        guard (map_get n (st_indexes (store_at w s)) \<noteq> None) (DomErr ''ConstraintError'')
        (case kp0 of
           None \<Rightarrow> fail (DomErr ''SyntaxError'')
         | Some kp \<Rightarrow>
             guard (\<not> is_valid_key_path (a_id_start env) (a_id_continue env) kp) (DomErr ''SyntaxError'')
             (guard (multi \<and> (case kp of KPaths _ \<Rightarrow> True | _ \<Rightarrow> False)) (DomErr ''InvalidAccessError'')
             (\<lambda>w. case in_tx t (add_index t s n kp unq multi) w of
                (w1, i) \<Rightarrow> (case index_handle h i (enqueue_internal t (OpPopulate i) w1) of (w2, ih) \<Rightarrow> (w2, Inr ih))))))) w)"

definition drop_index :: "nat \<Rightarrow> jstr \<Rightarrow> nat \<Rightarrow> work \<Rightarrow> work" where
  "drop_index s n i k =
     push_undo (UnDeleteIndex s n i)
       ((upd_index i (\<lambda>x. x\<lparr>ix_deleted := True\<rparr>)
          (upd_store s (\<lambda>x. x\<lparr>st_indexes := map_del n (st_indexes x)\<rparr>) k))\<lparr>dirty := True\<rparr>)"

definition delete_index :: "nat \<Rightarrow> jstr \<Rightarrow> ('p, unit) api" where
  "delete_index h n w =
     (let b = i_handles w h; t = b_tx b; s = b_store b in
      check (schema_check w t s) (\<lambda>_. case map_get n (st_indexes (store_at w s)) of
          None \<Rightarrow> fail (DomErr ''NotFoundError'')
        | Some i \<Rightarrow> (\<lambda>w. (enqueue_internal t (OpUnmaintain s i) (fst (in_tx t (\<lambda>k. (drop_index s n i k, ())) w)), Inr ()))) w)"

section \<open>Transactions\<close>

definition tx_store_names :: "'p idb \<Rightarrow> nat \<Rightarrow> jstr list" where
  "tx_store_names w t = sort_names (map (\<lambda>s. st_name (store_at w s)) (case t_scope (i_txs w t) of
     None \<Rightarrow> map snd (db_stores_of w (t_db (i_txs w t)))
   | Some ss \<Rightarrow> ss))"

definition find_store :: "'p idb \<Rightarrow> nat \<Rightarrow> jstr \<Rightarrow> nat option" where
  "find_store w t n = (case t_scope (i_txs w t) of
     None \<Rightarrow> map_get n (db_stores_of w (t_db (i_txs w t)))
   | Some ss \<Rightarrow> find (\<lambda>s. st_name (store_at w s) = n) ss)"

definition object_store :: "nat \<Rightarrow> jstr \<Rightarrow> ('p, nat) api" where
  "object_store t n w =
     guard (t_state (i_txs w t) = Finished) (DomErr ''InvalidStateError'')
     (\<lambda>w. case find_store w t n of
        None \<Rightarrow> fail (DomErr ''NotFoundError'') w
      | Some s \<Rightarrow> (case store_handle t s w of (w1, h) \<Rightarrow> (w1, Inr h))) w"

definition tx_commit :: "nat \<Rightarrow> ('p, unit) api" where
  "tx_commit t w =
     guard (t_state (i_txs w t) \<noteq> Active) (DomErr ''InvalidStateError'')
       (\<lambda>w. (schedule t (upd_tx t (\<lambda>x. x\<lparr>t_state := Committing\<rparr>) w), Inr ())) w"

definition tx_abort :: "nat \<Rightarrow> ('p, unit) api" where
  "tx_abort t w =
     guard (t_state (i_txs w t) = Committing \<or> t_state (i_txs w t) = Finished) (DomErr ''InvalidStateError'')
       (\<lambda>w. (abort_tx t None w, Inr ())) w"

section \<open>Databases\<close>

definition conn_store_names :: "'p idb \<Rightarrow> nat \<Rightarrow> jstr list" where
  "conn_store_names w c = (case n_names (i_conns w c) of Some ns \<Rightarrow> ns | None \<Rightarrow> store_names w (n_db (i_conns w c)))"

fun scope_of :: "(jstr \<times> nat) list \<Rightarrow> jstr list \<Rightarrow> nat list \<Rightarrow> nat list res" where
  "scope_of m [] acc = Inr acc"
| "scope_of m (n # ns) acc = (case map_get n m of
     None \<Rightarrow> Inl (DomErr ''NotFoundError'')
   | Some s \<Rightarrow> scope_of m ns (set_add s acc))"

definition read_mode :: "jstr \<Rightarrow> tx_mode res" where
  "read_mode m = (if m = js ''readonly'' then Inr ReadOnly else if m = js ''readwrite'' then Inr ReadWrite
     else if m = js ''versionchange'' then Inr VersionChange else Inl TypeErr)"

definition read_durability :: "objs \<Rightarrow> jsval \<Rightarrow> jstr res" where
  "read_durability po v = (if v = Undef then Inr (js ''default'') else (case to_jstring po v of
     Inl e \<Rightarrow> Inl e
   | Inr s \<Rightarrow> if s = js ''default'' \<or> s = js ''strict'' \<or> s = js ''relaxed'' then Inr s else Inl TypeErr))"

definition db_transaction :: "'p idb_env \<Rightarrow> nat \<Rightarrow> jsval \<Rightarrow> jstr \<Rightarrow> jsval \<Rightarrow> ('p, nat) api" where
  "db_transaction env c names m dur w =
     (let n = i_conns w c; k = n_db n in
      check (read_mode m) (\<lambda>mode. check (read_durability (a_objs env) dur) (\<lambda>durability.
      check (names_list (a_objs env) (i_heap w) names) (\<lambda>ns.
      guard (case v_upgrade (live w k) of None \<Rightarrow> False | Some t \<Rightarrow> t_conn (i_txs w t) = c) (DomErr ''InvalidStateError'')
      (guard (n_close_pending n) (DomErr ''InvalidStateError'')
      (check (scope_of (db_stores_of w k) ns []) (\<lambda>scope.
      guard (scope = []) (DomErr ''InvalidAccessError'')
      (guard (mode = VersionChange) TypeErr
      (\<lambda>w. case create_tx c mode (Some scope) durability w of (w1, t) \<Rightarrow> (schedule t w1, Inr t))))))))) w)"

text \<open>The upgrade transaction that runs on this connection.\<close>

definition upgrade_check :: "'p idb \<Rightarrow> nat \<Rightarrow> nat res" where
  "upgrade_check w c = (case v_upgrade (live w (n_db (i_conns w c))) of
     None \<Rightarrow> Inl (DomErr ''InvalidStateError'')
   | Some t \<Rightarrow> if t_conn (i_txs w t) \<noteq> c then Inl (DomErr ''InvalidStateError'')
              else if t_state (i_txs w t) \<noteq> Active then Inl (DomErr ''TransactionInactiveError'') else Inr t)"

definition add_store :: "nat \<Rightarrow> nat \<Rightarrow> jstr \<Rightarrow> keypath option \<Rightarrow> bool \<Rightarrow> work \<Rightarrow> work \<times> nat" where
  "add_store t d n kp auto_inc k = (let s = next_id k in
     (push_undo (UnCreateStore d n s)
       ((upd_db d (\<lambda>x. x\<lparr>db_stores := map_set n s (db_stores x)\<rparr>)
          (k\<lparr>stores := (stores k)(s \<mapsto> \<lparr>st_name = n, st_key_path = kp, st_auto = auto_inc, st_next = Fin 1, st_rows = [],
               st_indexes = [], st_maintained = [], st_deleted = False, st_created_by = t\<rparr>), next_id := s + 1\<rparr>))\<lparr>dirty := True\<rparr>), s))"

definition valid_path_option :: "'p idb_env \<Rightarrow> keypath option \<Rightarrow> bool" where
  "valid_path_option env kp = (case kp of None \<Rightarrow> True | Some p \<Rightarrow> is_valid_key_path (a_id_start env) (a_id_continue env) p)"

definition no_generator_path :: "keypath option \<Rightarrow> bool" where
  "no_generator_path kp = (case kp of None \<Rightarrow> False | Some (KPath p) \<Rightarrow> p = [] | Some (KPaths _) \<Rightarrow> True)"

definition create_object_store :: "'p idb_env \<Rightarrow> nat \<Rightarrow> jstr \<Rightarrow> jsval \<Rightarrow> bool \<Rightarrow> ('p, nat) api" where
  "create_object_store env c n path auto_inc w =
     (let k = n_db (i_conns w c) in
      check (upgrade_check w c) (\<lambda>t. check (to_key_path (a_objs env) (i_heap w) path) (\<lambda>kp.
        guard (\<not> valid_path_option env kp) (DomErr ''SyntaxError'')
        (guard (map_get n (db_stores_of w k) \<noteq> None) (DomErr ''ConstraintError'')
        (guard (auto_inc \<and> no_generator_path kp) (DomErr ''InvalidAccessError'')
        (\<lambda>w. case in_tx t (add_store t (the (data_of w k)) n kp auto_inc) w of
           (w1, s) \<Rightarrow> (case store_handle t s w1 of (w2, h) \<Rightarrow> (w2, Inr h))))))) w)"

definition drop_store :: "nat \<Rightarrow> jstr \<Rightarrow> nat \<Rightarrow> work \<Rightarrow> work" where
  "drop_store d n s k =
     push_undo (UnDeleteStore d n s)
       ((upd_store s (\<lambda>x. x\<lparr>st_deleted := True\<rparr>) (upd_db d (\<lambda>x. x\<lparr>db_stores := map_del n (db_stores x)\<rparr>) k))\<lparr>dirty := True\<rparr>)"

definition delete_object_store :: "nat \<Rightarrow> jstr \<Rightarrow> ('p, unit) api" where
  "delete_object_store c n w =
     (let k = n_db (i_conns w c) in
      check (upgrade_check w c) (\<lambda>t. case map_get n (db_stores_of w k) of
          None \<Rightarrow> fail (DomErr ''NotFoundError'')
        | Some s \<Rightarrow> (\<lambda>w. (fst (in_tx t (\<lambda>j. (drop_store (the (data_of w k)) n s j, ())) w), Inr ()))) w)"

section \<open>The factory\<close>

definition factory_open :: "objs \<Rightarrow> jstr \<Rightarrow> jstr \<Rightarrow> jsval \<Rightarrow> ('p, nat) api" where
  "factory_open po origin n v w =
     check (if v = Undef then Inr None else map_sum id Some (enforce_range po v max_safe)) (\<lambda>version.
       guard (version = Some 0) TypeErr
       (\<lambda>w. case new_open_request w of (w1, r) \<Rightarrow> (case live_db_for origin n w1 of
          (w2, k) \<Rightarrow> (enqueue_conn k (Opening version r) w2, Inr r)))) w"

definition factory_delete :: "jstr \<Rightarrow> jstr \<Rightarrow> 'p idb \<Rightarrow> 'p idb \<times> nat" where
  "factory_delete origin n w = (case new_open_request w of (w1, r) \<Rightarrow> (case live_db_for origin n w1 of
     (w2, k) \<Rightarrow> (enqueue_conn k (Deleting r) w2, r)))"

text \<open>\<open>databases()\<close>: the names and committed versions; a database first made by a running upgrade is left out.\<close>

definition committed_version :: "'p idb \<Rightarrow> jstr \<Rightarrow> nat \<Rightarrow> int" where
  "committed_version w k d = (case v_upgrade (live w k) of
     Some t \<Rightarrow> t_old_version (i_txs w t)
   | None \<Rightarrow> db_version (db_of w d))"

definition factory_databases :: "jstr \<Rightarrow> 'p idb \<Rightarrow> (jstr \<times> int) list" where
  "factory_databases origin w =
     filter (\<lambda>(n, v). v \<noteq> 0) (map (\<lambda>(n, d). (n, committed_version w (live_key origin n) d)) (i_memory w origin))"

definition factory_cmp :: "heap \<Rightarrow> jsval \<Rightarrow> jsval \<Rightarrow> int res" where
  "factory_cmp h a b = (case to_key_or_throw h a of
     Inl e \<Rightarrow> Inl e
   | Inr k \<Rightarrow> (case to_key_or_throw h b of Inl e \<Rightarrow> Inl e | Inr l \<Rightarrow> Inr (cmp_keys k l)))"

section \<open>What the page can do\<close>

text \<open>
  A call of the page: a method of the interfaces, a timer, or a change of its own state.  A
  transaction is unknown to the page while \<open>t_hold\<close> is set.
\<close>

definition known_tx :: "'p idb \<Rightarrow> nat \<Rightarrow> bool" where
  "known_tx w t = (t < i_next w \<and> \<not> t_hold (i_txs w t))"

inductive plain_call :: "'p idb_env \<Rightarrow> 'p idb \<Rightarrow> 'p idb \<Rightarrow> bool" for env where
  c_page: "plain_call env w (w\<lparr>i_page := p, i_heap := hp\<rparr>)"
| c_timer: "plain_call env w (later (TaskPage n) w)"
| c_get: "plain_call env w (fst (op_get h q ko w))"
| c_get_all: "plain_call env w (fst (op_get_all po h kind as w))"
| c_count: "plain_call env w (fst (op_count h q w))"
| c_cursor: "plain_call env w (fst (op_open_cursor po h q d ko w))"
| c_delete: "plain_call env w (fst (op_delete h q w))"
| c_clear: "plain_call env w (fst (op_clear h w))"
| c_advance: "plain_call env w (fst (cursor_advance po c v w))"
| c_continue: "plain_call env w (fst (cursor_continue c v w))"
| c_continue_pk: "plain_call env w (fst (cursor_continue_primary_key c v u w))"
| c_cursor_delete: "plain_call env w (fst (cursor_delete c w))"
| c_index_name: "plain_call env w (fst (set_index_name h n w))"
| c_store_name: "plain_call env w (fst (set_store_name h n w))"
| c_index: "plain_call env w (fst (get_index h n w))"
| c_create_index: "plain_call env w (fst (create_index env h n v unq multi w))"
| c_delete_index: "plain_call env w (fst (delete_index h n w))"
| c_object_store: "known_tx w t \<Longrightarrow> plain_call env w (fst (object_store t n w))"
| c_commit: "known_tx w t \<Longrightarrow> plain_call env w (fst (tx_commit t w))"
| c_abort: "known_tx w t \<Longrightarrow> plain_call env w (fst (tx_abort t w))"
| c_transaction: "plain_call env w (fst (db_transaction env c v m dur w))"
| c_close: "plain_call env w (close_conn c w)"
| c_create_store: "plain_call env w (fst (create_object_store env c n v ai w))"
| c_delete_store: "plain_call env w (fst (delete_object_store c n w))"
| c_open: "plain_call env w (fst (factory_open po origin n v w))"
| c_delete_db: "plain_call env w (fst (factory_delete origin n w))"

text \<open>
  Storing a value clones it first, which runs getters of the page; a getter makes plain calls
  (storing again from within a getter is left out).
\<close>

inductive idb_call :: "'p idb_env \<Rightarrow> 'p idb \<Rightarrow> 'p idb \<Rightarrow> bool" for env where
  c_plain: "plain_call env w w' \<Longrightarrow> idb_call env w w'"
| c_put: "idb_call env w (fst (add_or_put env h v k no w))"
| c_update: "idb_call env w (fst (cursor_update env c v w))"

definition page_acts :: "'p idb_env \<Rightarrow> bool" where
  "page_acts env = ((\<forall>path ev w. (idb_call env)\<^sup>*\<^sup>* w (fst (a_listeners env path ev w))) \<and>
     (\<forall>n w. (idb_call env)\<^sup>*\<^sup>* w (a_timer env n w)) \<and>
     (\<forall>v w. (plain_call env)\<^sup>*\<^sup>* w (fst (a_clone env v w))))"

text \<open>A step of the whole: the next task, or a call of the page between tasks (from a microtask).\<close>

inductive idb_step :: "'p idb_env \<Rightarrow> 'p idb \<Rightarrow> 'p idb \<Rightarrow> bool" for env where
  s_task: "i_tasks w = x # xs \<Longrightarrow> idb_step env w (run_task env x (w\<lparr>i_tasks := xs\<rparr>))"
| s_call: "idb_call env w w' \<Longrightarrow> idb_step env w w'"

end
