(* ===== verification/IdbTxLaws.thy ===== *)
theory IdbTxLaws
  imports IdbApi
begin

text \<open>
  What the engine and the page keep.  The interface \<open>idb_rel\<close> is a relation between states that every
  elementary change respects; then all methods and all tasks respect it.
\<close>

section \<open>Elementary changes\<close>

lemma txs_simps [simp]:
  "i_txs (later x w) = i_txs w" "i_txs (upd_req r f w) = i_txs w" "i_txs (upd_conn c g w) = i_txs w"
  "i_txs (upd_handle h b w) = i_txs w" "i_txs (upd_cursor u d w) = i_txs w" "i_txs (upd_live k e w) = i_txs w"
  "i_txs (set_left i n w) = i_txs w" "i_txs (note_error ex w) = i_txs w"
  by (simp_all add: later_def upd_req_def upd_conn_def upd_handle_def upd_cursor_def upd_live_def set_left_def note_error_def
    split: exn.split)

lemma txs_upd [simp]: "i_txs (upd_tx t f w) u = (if u = t then f (i_txs w t) else i_txs w u)"
  by (simp add: upd_tx_def)

lemma next_simps [simp]:
  "i_next (later x w) = i_next w" "i_next (upd_req r f w) = i_next w" "i_next (upd_conn c g w) = i_next w"
  "i_next (upd_handle h b w) = i_next w" "i_next (upd_cursor u d w) = i_next w" "i_next (upd_live k e w) = i_next w"
  "i_next (set_left i n w) = i_next w" "i_next (note_error ex w) = i_next w" "i_next (upd_tx t y w) = i_next w"
  by (simp_all add: later_def upd_req_def upd_conn_def upd_handle_def upd_cursor_def upd_live_def set_left_def note_error_def
    upd_tx_def split: exn.split)

lemma in_tx_state: "fst (in_tx t f w) = fst (in_tx t (\<lambda>k. (fst (f k), ())) w)"
  by (simp add: in_tx_def split: prod.split)

lemma txs_in_tx [simp]:
  "t_state (i_txs (fst (in_tx t f w)) u) = t_state (i_txs w u)" "t_mode (i_txs (fst (in_tx t f w)) u) = t_mode (i_txs w u)"
  "t_db (i_txs (fst (in_tx t f w)) u) = t_db (i_txs w u)" "t_queue (i_txs (fst (in_tx t f w)) u) = t_queue (i_txs w u)"
  "i_next (fst (in_tx t f w)) = i_next w"
  by (simp_all add: in_tx_def upd_tx_def split: prod.split)

lemma txs_rollback [simp]:
  "t_state (i_txs (rollback_tx t m w) u) = t_state (i_txs w u)" "t_mode (i_txs (rollback_tx t m w) u) = t_mode (i_txs w u)"
  "t_db (i_txs (rollback_tx t m w) u) = t_db (i_txs w u)" "t_queue (i_txs (rollback_tx t m w) u) = t_queue (i_txs w u)"
  "i_next (rollback_tx t m w) = i_next w"
  by (simp_all add: rollback_tx_def)

lemma txs_abort_upgrade [simp]: "i_txs (abort_upgrade t w) = i_txs w"
  by (simp add: abort_upgrade_def forget_db_def Let_def split: option.split)

lemma txs_freeze [simp]:
  "t_state (i_txs (freeze_scope t w) u) = t_state (i_txs w u)" "t_mode (i_txs (freeze_scope t w) u) = t_mode (i_txs w u)"
  by (simp_all add: freeze_scope_def)

lemma live_simps [simp]:
  "live (later x w) k = live w k" "live (upd_req r f w) k = live w k" "live (upd_conn c g w) k = live w k"
  "live (upd_handle h b w) k = live w k" "live (upd_cursor u d w) k = live w k" "live (upd_tx t y w) k = live w k"
  "live (set_left i n w) k = live w k" "live (note_error ex w) k = live w k"
  by (simp_all add: live_def later_def upd_req_def upd_conn_def upd_handle_def upd_cursor_def upd_tx_def set_left_def note_error_def
    split: exn.split)

lemma start_ok_cong:
  assumes "\<And>u. t_mode (i_txs w u) = t_mode (i_txs w' u)" "\<And>u. t_scope (i_txs w u) = t_scope (i_txs w' u)"
  shows "start_ok w t us = start_ok w' t us"
proof -
  have "conflicting (i_txs w u) (i_txs w v) = conflicting (i_txs w' u) (i_txs w' v)" for u v
    by (simp add: conflicting_def overlaps_def assms)
  then show ?thesis by (induction us) simp_all
qed

lemma can_start_upd: "(\<And>x. t_mode (f x) = t_mode x \<and> t_scope (f x) = t_scope x \<and> t_db (f x) = t_db x) \<Longrightarrow> can_start (upd_tx t f w) u = can_start w u"
  using start_ok_cong [of "upd_tx t f w" w u] by (simp add: can_start_def)

lemma can_start_later: "can_start (later x w) u = can_start w u"
  using start_ok_cong [of "later x w" w u] by (simp add: can_start_def)

lemma can_start_schedule: "can_start (schedule t w) u = can_start w u"
  by (simp add: schedule_def Let_def can_start_upd can_start_later)

text \<open>The parts of a transaction that its course does not change, and those that its end fixes.\<close>

definition same_shape :: "idb_tx \<Rightarrow> idb_tx \<Rightarrow> bool" where
  "same_shape x y = (t_mode x = t_mode y \<and> t_db x = t_db y \<and> t_scope x = t_scope y \<and> t_undo x = t_undo y)"

definition same_end :: "idb_tx \<Rightarrow> idb_tx \<Rightarrow> bool" where
  "same_end x y = (same_shape x y \<and> t_state x = t_state y \<and> t_error x = t_error y \<and> t_aborted x = t_aborted y)"

definition task_ok :: "'p idb \<Rightarrow> task \<Rightarrow> bool" where
  "task_ok w x = (case x of TaskUpgradeNeeded t r c old v \<Rightarrow> t_mode (i_txs w t) = VersionChange \<and> t < i_next w | _ \<Rightarrow> True)"

definition may_change :: "'p idb \<Rightarrow> nat \<Rightarrow> bool" where
  "may_change w t = (t_mode (i_txs w t) = VersionChange \<or> t_state (i_txs w t) \<noteq> Finished)"

text \<open>Databases and tasks refer to upgrade transactions as such; nothing is claimed of other states.\<close>

definition links_ok :: "'p idb \<Rightarrow> bool" where
  "links_ok w = ((\<forall>k t. v_upgrade (live w k) = Some t \<longrightarrow> t_mode (i_txs w t) = VersionChange \<and> t < i_next w) \<and>
     (\<forall>x \<in> set (i_tasks w). task_ok w x))"

locale idb_rel =
  fixes R :: "'p idb \<Rightarrow> 'p idb \<Rightarrow> bool"
  assumes refl: "R w w"
    and links: "R w a \<Longrightarrow> links_ok w \<Longrightarrow> links_ok a"
    and no_links: "\<not> links_ok w \<Longrightarrow> R w a"
    and trans: "R a b \<Longrightarrow> R b c \<Longrightarrow> R a c"
    and on_next: "i_next w \<le> n \<Longrightarrow> R w (w\<lparr>i_next := n\<rparr>)"
    and on_later: "task_ok w x \<Longrightarrow> R w (later x w)"
    and on_tasks: "set xs \<subseteq> set (i_tasks w) \<Longrightarrow> R w (w\<lparr>i_tasks := xs\<rparr>)"
    and on_page: "R w (w\<lparr>i_page := p, i_heap := hp\<rparr>)"
    and on_req: "R w (upd_req r fr w)"
    and on_conn: "R w (upd_conn cn fc w)"
    and on_handle: "R w (upd_handle h fh w)"
    and on_cursor: "R w (upd_cursor u fu w)"
    and on_left: "R w (set_left i n w)"
    and on_note: "R w (note_error e w)"
    and on_work: "R w (w\<lparr>i_work := k\<rparr>)"
    and on_memory: "R w (w\<lparr>i_memory := m\<rparr>)"
    and on_live_new: "R w (fst (live_db_for origin nm w))"
    and on_live: "(\<And>v. v_txs (g v) = v_txs v) \<Longrightarrow> (\<And>v. v_upgrade (g v) = v_upgrade v \<or> v_upgrade (g v) = None) \<Longrightarrow> R w (upd_live d g w)"
    and on_upgrade: "t_mode (i_txs w t) = VersionChange \<Longrightarrow> t < i_next w \<Longrightarrow> R w (upd_live d (\<lambda>v. v\<lparr>v_upgrade := Some t\<rparr>) w)"
    and on_forget: "R w (upd_live d (\<lambda>v. v\<lparr>v_txs := remove1 t (v_txs v)\<rparr>) w)"
    and on_tx: "(\<And>x. same_end (f x) x) \<Longrightarrow> R w (upd_tx t f w)"
    and on_open_tx: "may_change w t \<Longrightarrow> (\<And>x. same_shape (f x) x) \<Longrightarrow> R w (upd_tx t f w)"
    and on_scope: "t_mode (i_txs w t) = VersionChange \<Longrightarrow> R w (upd_tx t (\<lambda>x. x\<lparr>t_scope := sc x\<rparr>) w)"
    and on_no_undo: "R w (upd_tx t (\<lambda>x. x\<lparr>t_undo := []\<rparr>) w)"
    and on_change: "t_mode (i_txs w t) = VersionChange \<or> can_start w t \<Longrightarrow> R w (fst (in_tx t (\<lambda>k. (j k, ())) w))"
    and on_rollback: "R w (rollback_tx t mark w)"
    and on_create: "R w (fst (create_tx cn mode scope dur w))"
begin

text \<open>The same with a state before: \<open>R w a \<Longrightarrow> R w (f a)\<close>.\<close>

lemmas k_next = trans [OF _ on_next]
lemmas k_later = trans [OF _ on_later]
lemmas k_req = trans [OF _ on_req]
lemmas k_conn = trans [OF _ on_conn]
lemmas k_handle = trans [OF _ on_handle]
lemmas k_cursor = trans [OF _ on_cursor]
lemmas k_left = trans [OF _ on_left]
lemmas k_note = trans [OF _ on_note]
lemmas k_work = trans [OF _ on_work]
lemmas k_memory = trans [OF _ on_memory]
lemmas k_live_new = trans [OF _ on_live_new]
lemmas k_live = trans [OF _ on_live]
lemmas k_upgrade = trans [OF _ on_upgrade]
lemmas k_forget = trans [OF _ on_forget]
lemmas k_tx = trans [OF _ on_tx]
lemmas k_open_tx = trans [OF _ on_open_tx]
lemmas k_scope = trans [OF _ on_scope]
lemmas k_no_undo = trans [OF _ on_no_undo]
lemmas k_change = trans [OF _ on_change]
lemmas k_rollback = trans [OF _ on_rollback]
lemmas k_create = trans [OF _ on_create]

lemma k_pump_queue: "R w a \<Longrightarrow> R w (pump_queue d a)"
  by (auto simp: pump_queue_def task_ok_def split: list.split intro!: k_later k_live)

lemma k_enqueue: "R w a \<Longrightarrow> R w (enqueue_conn d x a)"
  by (auto simp: enqueue_conn_def intro!: k_pump_queue k_live)

lemma k_conn_done: "R w a \<Longrightarrow> R w (conn_done d a)"
  by (auto simp: conn_done_def intro!: k_pump_queue k_live)

lemma k_wait_closed: "R w a \<Longrightarrow> R w (wait_closed d cs k a)"
  by (auto simp: wait_closed_def task_ok_def intro!: k_later k_live)

lemma k_fold: "(\<And>x b. R w b \<Longrightarrow> R w (f x b)) \<Longrightarrow> R w a \<Longrightarrow> R w (fold f xs a)"
  by (induction xs arbitrary: a) auto

lemma k_check_waiters: "R w a \<Longrightarrow> R w (check_waiters d a)"
  unfolding check_waiters_def Let_def by (rule k_fold) (auto simp: task_ok_def intro!: k_later k_live)

lemma k_maybe_closed: "R w a \<Longrightarrow> R w (maybe_closed c a)"
  by (auto simp: maybe_closed_def Let_def intro!: k_check_waiters k_live k_conn)

lemma k_close_conn: "R w a \<Longrightarrow> R w (close_conn c a)"
  by (auto simp: close_conn_def intro!: k_maybe_closed k_conn)

lemma k_finish_open: "R w a \<Longrightarrow> R w (finish_open d r res a)"
  by (auto simp: finish_open_def task_ok_def intro!: k_conn_done k_later)

lemma k_schedule: "R w a \<Longrightarrow> R w (schedule t a)"
  by (auto simp: schedule_def Let_def task_ok_def same_end_def same_shape_def intro!: k_tx k_later)

lemma k_pump_db: "R w a \<Longrightarrow> R w (pump_db d a)"
  unfolding pump_db_def by (rule k_fold) (auto intro: k_schedule)

lemma k_new_request: "R w a \<Longrightarrow> R w (fst (new_request src t a))"
  using k_next [OF k_req [of w a "i_next a" "\<lambda>_. \<lparr>q_source = src, q_tx = t, q_done = False, q_result = ResUndef, q_error = None\<rparr>"], of "i_next a + 1"]
  by (simp add: new_request_def upd_req_def)

lemma k_execute: "R w a \<Longrightarrow> R w (fst (execute src t op r a))"
  by (cases r) (auto simp: execute_def same_end_def same_shape_def split: prod.split intro!: k_schedule k_tx k_req
    dest: k_new_request [of w a src "Some t"])

lemma k_forget_db: "R w a \<Longrightarrow> R w (forget_db k a)"
  by (auto simp: forget_db_def Let_def intro!: k_memory)

lemma k_abort_upgrade: "R w a \<Longrightarrow> R w (abort_upgrade t a)"
  by (auto simp: abort_upgrade_def Let_def split: option.split intro!: k_forget_db k_conn)

lemma k_freeze: "R w a \<Longrightarrow> t_mode (i_txs a t) = VersionChange \<Longrightarrow> R w (freeze_scope t a)"
  by (auto simp: freeze_scope_def intro!: k_scope)

lemma k_upgrade_finished: "R w a \<Longrightarrow> R w (upgrade_finished t cr a)"
  by (auto simp: upgrade_finished_def Let_def split: prod.split intro!: k_finish_open k_close_conn)

lemma k_finalize: "R w a \<Longrightarrow> R w (finalize_tx t a)"
  unfolding finalize_tx_def Let_def
  by (intro k_maybe_closed k_pump_db k_fold k_upgrade_finished k_tx k_conn k_forget) (simp_all add: same_end_def same_shape_def)

lemma k_report_aborted: "R w a \<Longrightarrow> R w (report_aborted items a)"
proof (induction items a rule: report_aborted.induct)
  case (2 r op items a)
  have "R w (later (TaskReqAborted q) a)" for q by (rule k_later [OF 2(2)]) (simp add: task_ok_def)
  with 2 show ?case by (auto split: option.split)
qed simp

lemma k_abort_tx: "R w a \<Longrightarrow> R w (abort_tx t e a)"
proof (cases "t_state (i_txs a t) = Finished")
  case False
  assume a: "R w a"
  define w1 where "w1 = rollback_tx t 0 (upd_tx t (\<lambda>x. x\<lparr>t_aborted := True\<rparr>) a)"
  define w2 where "w2 = (if t_mode (i_txs w1 t) = VersionChange then freeze_scope t (abort_upgrade t w1) else w1)"
  have "R w w1" unfolding w1_def
    using a False by (intro k_rollback k_open_tx) (simp_all add: may_change_def same_shape_def)
  then have "R w w2" unfolding w2_def by (auto intro!: k_freeze k_abort_upgrade)
  moreover have "t_state (i_txs w2 t) \<noteq> Finished" using False by (simp add: w2_def w1_def)
  ultimately have "R w (upd_tx t (\<lambda>x. x\<lparr>t_state := Finished, t_error := e, t_queue := []\<rparr>) w2)"
    by (intro k_open_tx) (simp_all add: may_change_def same_shape_def)
  with False show ?thesis
    by (auto simp: abort_tx_def Let_def w1_def [symmetric] w2_def [symmetric] task_ok_def intro!: k_later k_report_aborted)
qed (simp add: abort_tx_def)

lemma k_enqueue_internal: "R w a \<Longrightarrow> R w (enqueue_internal t op a)"
  by (auto simp: enqueue_internal_def same_end_def same_shape_def intro!: k_schedule k_tx)

text \<open>Methods.\<close>

lemma k_check: "R w a \<Longrightarrow> (\<And>x. r = Inr x \<Longrightarrow> R w (fst (f x a))) \<Longrightarrow> R w (fst (check r f a))"
  by (simp add: check_def split: sum.split)

lemma k_guard: "R w a \<Longrightarrow> (\<not> bad \<Longrightarrow> R w (fst (f a))) \<Longrightarrow> R w (fst (guard bad e f a))"
  by (simp add: guard_def)

lemma k_fail: "R w a \<Longrightarrow> R w (fst (fail e a))"
  by (simp add: fail_def)

lemma k_pair: "R w (fst p) \<Longrightarrow> (\<And>b x. p = (b, x) \<Longrightarrow> R w b \<Longrightarrow> R w (fst (g b x))) \<Longrightarrow> R w (fst (case p of (b, x) \<Rightarrow> g b x))"
  by (cases p) simp

lemma k_place: "R w a \<Longrightarrow> R w (fst (place src t op a))"
  unfolding place_def by (rule k_pair) (auto intro: k_execute)

lemma k_new_handle: "R w a \<Longrightarrow> R w (fst (new_handle x n a))"
proof -
  assume a: "R w a"
  have "R w (a\<lparr>i_next := i_next a + 1\<rparr>)" by (rule k_next [OF a]) simp
  from k_work [OF this, of "set_handle_name (Some (i_next a)) n (i_work a)"] show ?thesis
    by (auto simp: new_handle_def Let_def intro!: k_handle)
qed

lemma k_store_handle: "R w a \<Longrightarrow> R w (fst (store_handle t s a))"
  by (auto simp: store_handle_def same_end_def same_shape_def split: option.split prod.split intro!: k_tx
    dest: k_new_handle [of w a "\<lparr>b_tx = t, b_store = s, b_index = None, b_oh = None, b_indexes = []\<rparr>" "st_name (store_at a s)"])

lemma k_index_handle: "R w a \<Longrightarrow> R w (fst (index_handle oh i a))"
  by (auto simp: index_handle_def split: option.split prod.split intro!: k_handle
    dest: k_new_handle [of w a "\<lparr>b_tx = b_tx (i_handles a oh), b_store = b_store (i_handles a oh), b_index = Some i,
      b_oh = Some oh, b_indexes = []\<rparr>" "ix_name (index_at a i)"])

lemma k_new_cursor: "R w a \<Longrightarrow> R w (fst (new_cursor h dir rg ko a))"
proof -
  assume a: "R w a"
  have "R w (a\<lparr>i_next := i_next a + 1\<rparr>)" by (rule k_next [OF a]) simp
  then show ?thesis by (auto simp: new_cursor_def Let_def intro!: k_cursor)
qed

lemma k_open_cursor: "R w a \<Longrightarrow> R w (fst (op_open_cursor po h q d ko a))"
proof -
  assume a: "R w a"
  have "R w (fst (case new_cursor h dir rg ko a of (w1, c) \<Rightarrow>
      (case execute (SourceHandle h) (b_tx (i_handles a h)) (OpIterate c None None 1) None w1 of
        (w2, r) \<Rightarrow> (upd_cursor c (\<lambda>x. x\<lparr>c_request := r\<rparr>) w2, Inr r))))" for dir rg
    by (rule k_pair, rule k_new_cursor [OF a], rule k_pair) (auto intro: k_execute k_cursor)
  with a show ?thesis unfolding op_open_cursor_def by (auto intro!: k_check)
qed

lemma k_move_cursor: "R w a \<Longrightarrow> R w (fst (move_cursor c k pk n a))"
  by (auto simp: move_cursor_def Let_def intro!: k_execute k_req k_cursor)

lemma k_queries:
  assumes "R w a"
  shows "R w (fst (op_get h q ko a))" "R w (fst (op_get_all po h kind as a))" "R w (fst (op_count h q a))"
    "R w (fst (op_delete h q a))" "R w (fst (op_clear h a))"
  using assms unfolding op_get_def op_get_all_def op_count_def op_delete_def op_clear_def
  by (auto intro!: k_check k_place split: prod.split)

lemma k_cursor_calls:
  assumes "R w a"
  shows "R w (fst (cursor_advance po c v a))" "R w (fst (cursor_continue c v a))"
    "R w (fst (cursor_continue_primary_key c v u a))" "R w (fst (cursor_delete c a))"
  using assms unfolding cursor_advance_def cursor_continue_def cursor_continue_primary_key_def cursor_delete_def
  by (auto intro!: k_check k_guard k_move_cursor k_place)

lemma k_in_tx: "R w a \<Longrightarrow> t_mode (i_txs a t) = VersionChange \<or> can_start a t \<Longrightarrow> R w (fst (in_tx t j a))"
  unfolding in_tx_state [of t j] by (rule k_change)

lemma k_schema: "R w a \<Longrightarrow> t_mode (i_txs a t) = VersionChange \<Longrightarrow> R w (fst (in_tx t j a))"
  by (rule k_in_tx) simp_all

lemma k_names:
  assumes "R w a"
  shows "R w (fst (set_index_name h n a))" "R w (fst (set_store_name h n a))"
  unfolding set_index_name_def set_store_name_def Let_def
  by (intro k_guard assms; auto intro!: k_guard k_schema assms)+

lemma schema_check_mode: "schema_check w t s = Inr x \<Longrightarrow> t_mode (i_txs w t) = VersionChange"
  by (auto simp: schema_check_def split: if_splits)

lemma k_get_index: "R w a \<Longrightarrow> R w (fst (get_index h n a))"
  unfolding get_index_def Let_def
  by (auto intro!: k_guard k_fail k_pair [OF k_index_handle] split: option.split)

lemma k_create_index: "R w a \<Longrightarrow> R w (fst (create_index env h n v unq multi a))"
proof -
  assume a: "R w a"
  have "R w (fst (case in_tx t j a of (w1, i) \<Rightarrow>
      (case index_handle h i (enqueue_internal t (OpPopulate i) w1) of (w2, ih) \<Rightarrow> (w2, Inr ih))))"
    if m: "t_mode (i_txs a t) = VersionChange" for t and j :: "work \<Rightarrow> work \<times> nat"
    by (rule k_pair, rule k_schema [OF a m], rule k_pair) (auto intro: k_index_handle k_enqueue_internal)
  note c = this
  show ?thesis unfolding create_index_def Let_def
    by (intro k_check k_guard a; cases "to_key_path (a_objs env) (i_heap a) v")
       (auto split: option.split intro!: a k_fail k_guard c dest!: schema_check_mode)
qed

lemma k_delete_index: "R w a \<Longrightarrow> R w (fst (delete_index h n a))"
  unfolding delete_index_def Let_def
  by (auto intro!: k_check k_fail k_enqueue_internal k_schema split: option.split dest!: schema_check_mode)

lemma k_object_store: "R w a \<Longrightarrow> R w (fst (object_store t n a))"
  unfolding object_store_def
  by (auto intro!: k_guard k_fail k_pair [OF k_store_handle] split: option.split)

lemma k_tx_calls:
  assumes "R w a"
  shows "R w (fst (tx_commit t a))" "R w (fst (tx_abort t a))"
proof -
  show "R w (fst (tx_commit t a))" unfolding tx_commit_def
    using assms by (auto simp: may_change_def same_shape_def intro!: k_guard k_schedule k_open_tx)
  show "R w (fst (tx_abort t a))" unfolding tx_abort_def
    using assms by (auto intro!: k_guard k_abort_tx)
qed

lemma k_transaction: "R w a \<Longrightarrow> R w (fst (db_transaction env c v m dur a))"
proof -
  assume a: "R w a"
  have "R w (fst (case create_tx c mode sc du a of (w1, t) \<Rightarrow> (schedule t w1, Inr t)))" for mode sc du
    using k_create [OF a, of c mode sc du] by (auto split: prod.split intro!: k_schedule)
  with a show ?thesis unfolding db_transaction_def Let_def by (auto intro!: k_check k_guard)
qed

lemma k_open_request:
  assumes "R w a"
  shows "R w (fst (case new_open_request a of (w1, r) \<Rightarrow> (case live_db_for origin n w1 of
      (w2, k) \<Rightarrow> (enqueue_conn k (x r) w2, y r))))"
  unfolding new_open_request_def
  by (rule k_pair, rule k_new_request [OF assms], rule k_pair) (auto intro: k_live_new k_enqueue)

lemma k_factory:
  assumes "R w a"
  shows "R w (fst (factory_open po origin n v a))" "R w (fst (factory_delete origin n a))"
proof -
  note l = k_open_request [OF assms]
  show "R w (fst (factory_delete origin n a))" unfolding factory_delete_def by (rule l)
  show "R w (fst (factory_open po origin n v a))" unfolding factory_open_def
    by (intro k_check k_guard assms l)
qed

lemma upgrade_check_mode: "links_ok w \<Longrightarrow> upgrade_check w c = Inr t \<Longrightarrow> t_mode (i_txs w t) = VersionChange"
  by (auto simp: upgrade_check_def links_ok_def split: option.splits if_splits)

lemma k_upgrade_check:
  assumes "R w a" "\<And>t. t_mode (i_txs a t) = VersionChange \<Longrightarrow> R w (fst (f t a))"
  shows "R w (fst (check (upgrade_check a c) f a))"
proof (cases "links_ok w")
  case True
  with links [OF assms(1)] show ?thesis using upgrade_check_mode [of a c] assms by (intro k_check) auto
qed (rule no_links)

lemma k_create_store: "R w a \<Longrightarrow> R w (fst (create_object_store env c n v ai a))"
  unfolding create_object_store_def Let_def
  by (rule k_upgrade_check, assumption) (intro k_check k_guard; auto intro!: k_pair [OF k_schema] k_pair [OF k_store_handle])

lemma k_delete_store: "R w a \<Longrightarrow> R w (fst (delete_object_store c n a))"
  unfolding delete_object_store_def Let_def
  by (rule k_upgrade_check, assumption) (auto intro!: k_fail k_schema split: option.split)

lemma plain_call_keeps: "plain_call env w w' \<Longrightarrow> R w w'"
  by (induction rule: plain_call.induct)
     (auto intro!: refl k_queries k_cursor_calls k_names k_tx_calls k_factory k_open_cursor k_get_index k_create_index k_delete_index
       k_object_store k_transaction k_close_conn k_create_store k_delete_store on_page on_later simp: task_ok_def)

lemma plain_calls_keep: "(plain_call env)\<^sup>*\<^sup>* w w' \<Longrightarrow> R w w'"
  by (induction rule: rtranclp_induct) (auto intro: refl trans plain_call_keeps)

end

section \<open>With the page\<close>

locale idb_page_rel = idb_rel R for R :: "'p idb \<Rightarrow> 'p idb \<Rightarrow> bool" +
  fixes env :: "'p idb_env"
  assumes acts: "page_acts env"
begin

lemma k_user_clone: "R w a \<Longrightarrow> R w (fst (a_clone env v a))"
  using acts plain_calls_keep [of env a] trans by (auto simp: page_acts_def)

lemma k_clone_in_tx:
  assumes "R w a" "t_state (i_txs a t) = Active"
  shows "R w (fst (clone_in_tx env t v a))"
proof -
  have "R w (upd_tx t (\<lambda>x. x\<lparr>t_state := Inactive\<rparr>) a)"
    using assms by (intro k_open_tx) (simp_all add: may_change_def same_shape_def)
  then show ?thesis unfolding clone_in_tx_def Let_def
    by (intro k_pair [OF k_user_clone]) (auto simp: may_change_def same_shape_def intro!: k_open_tx)
qed

lemma k_put: "R w a \<Longrightarrow> R w (fst (add_or_put env h v k no a))"
proof -
  assume a: "R w a"
  have "R w (fst (case clone_in_tx env t v a of
            (w1, Inl e) \<Rightarrow> (w1, Inl e)
          | (w1, Inr cl) \<Rightarrow> check (inline_key (store_at w1 s) cl key) (\<lambda>key'.
              place (SourceHandle h) t (OpStore s cl key' no)) w1))"
    if "t_state (i_txs a t) = Active" for t s key
    by (rule k_pair, rule k_clone_in_tx [OF a that]) (auto split: sum.split intro!: k_check k_place)
  note c = this
  show ?thesis unfolding add_or_put_def Let_def
    by (intro k_check k_guard a) (auto simp: preflight_def Let_def split: if_splits intro!: c)
qed

lemma k_update: "R w a \<Longrightarrow> R w (fst (cursor_update env c v a))"
proof -
  assume a: "R w a"
  have "R w (fst (case clone_in_tx env t v a of
            (w1, Inl e) \<Rightarrow> (w1, Inl e)
          | (w1, Inr cl) \<Rightarrow> check (same_key (store_at w1 s) cl (c_pk (i_cursors w1 c))) (\<lambda>_.
              place (SourceCursor c) t (OpStore s cl (c_pk (i_cursors w1 c)) False)) w1))"
    if "t_state (i_txs a t) = Active" for t s
    by (rule k_pair, rule k_clone_in_tx [OF a that]) (auto split: sum.split intro!: k_check k_place)
  note u = this
  show ?thesis unfolding cursor_update_def Let_def
    by (intro k_check a) (auto simp: cursor_writable_def split: if_splits intro!: u)
qed

lemma call_keeps: "idb_call env w w' \<Longrightarrow> R w w'"
  by (induction rule: idb_call.induct) (auto intro: plain_call_keeps k_put k_update refl)

lemma calls_keep: "(idb_call env)\<^sup>*\<^sup>* w w' \<Longrightarrow> R w w'"
  by (induction rule: rtranclp_induct) (auto intro: refl trans call_keeps)

lemma k_dispatch: "R w a \<Longrightarrow> R w (fst (dispatch_at env path ev a))"
  using acts calls_keep [of a] trans by (auto simp: dispatch_at_def page_acts_def)

lemma k_timer: "R w a \<Longrightarrow> R w (a_timer env n a)"
  using acts calls_keep [of a] trans by (auto simp: page_acts_def)

text \<open>The turns of a transaction.\<close>

lemma k_settle: "R w a \<Longrightarrow> R w (settle env t r res a)"
proof -
  assume a: "R w a"
  define w2 where "w2 = (let w1 = upd_req r (\<lambda>q. case res of
            Inl e \<Rightarrow> q\<lparr>q_done := True, q_result := ResUndef, q_error := Some e\<rparr>
          | Inr v \<Rightarrow> q\<lparr>q_done := True, q_result := v, q_error := None\<rparr>) a
     in if t_state (i_txs w1 t) = Inactive then upd_tx t (\<lambda>x. x\<lparr>t_state := Active\<rparr>) w1 else w1)"
  have "R w w2" unfolding w2_def Let_def
    using a by (auto simp: may_change_def same_shape_def intro!: k_open_tx k_req)
  from k_dispatch [OF this] have "R w (fst (dispatch_at env path ev w2))" for path ev .
  then show ?thesis unfolding settle_def Let_def w2_def [unfolded Let_def, symmetric]
    by (cases res) (auto simp: same_end_def same_shape_def split: prod.split intro!: k_tx; metis fst_conv)+
qed

lemma k_run_op: "R w a \<Longrightarrow> t_mode (i_txs a t) = VersionChange \<or> can_start a t \<Longrightarrow> R w (fst (run_op t op a))"
proof (induction t op a rule: run_op.induct)
  case (4 t c k pk n a)
  then show ?case by (auto simp: iterate_def Let_def intro!: k_cursor)
qed (auto split: sum.split intro!: k_pair [OF k_in_tx])

lemma k_run_item:
  assumes "R w a" "t_mode (i_txs a t) = VersionChange \<or> can_start a t"
  shows "R w (run_item env t item a)"
proof -
  obtain req op where item: "item = (req, op)" by fastforce
  obtain w1 r where r: "run_op t op a = (w1, r)" by fastforce
  have w1: "R w w1" using k_run_op [OF assms, of op] r by simp
  then have w2: "R w (rollback_tx t m (note_error e w1))" for m e by (intro k_rollback k_note)
  have q: "R w (abort_tx t e (upd_tx t (\<lambda>x. x\<lparr>t_queue := item # t_queue x\<rparr>) b))" if "R w b" for e b item
    using that by (intro k_abort_tx k_tx) (simp_all add: same_end_def same_shape_def)
  show ?thesis
    using w1 w2 by (cases r; cases req) (auto simp: run_item_def item r Let_def intro!: k_abort_tx k_settle q)
qed

lemma k_commit:
  assumes "R w a" "t_state (i_txs a t) \<noteq> Finished"
  shows "R w (commit_tx env t a)"
proof (cases "commit_failure env t a")
  case (Some e)
  then show ?thesis using assms(1) by (auto simp: commit_tx_def intro!: k_abort_tx k_note)
next
  case None
  define w1 where "w1 = upd_tx t (\<lambda>x. x\<lparr>t_undo := []\<rparr>) a"
  define w2 where "w2 = (if t_mode (i_txs w1 t) = VersionChange
      then freeze_scope t (upd_live (t_db (i_txs w1 t)) (\<lambda>v. v\<lparr>v_upgrade := None\<rparr>) w1) else w1)"
  define w3 where "w3 = fst (dispatch_at env (tx_path w2 t) EvComplete (upd_tx t (\<lambda>x. x\<lparr>t_state := Finished\<rparr>) w2))"
  have "R w w1" unfolding w1_def using assms(1) by (intro k_no_undo)
  then have "R w w2" by (auto simp: w2_def intro!: k_freeze k_live)
  moreover have "t_state (i_txs w2 t) \<noteq> Finished" using assms(2) by (simp add: w2_def w1_def)
  ultimately have "R w w3" unfolding w3_def
    by (intro k_dispatch k_open_tx) (simp_all add: may_change_def same_shape_def)
  then have "R w (finalize_tx t (case t_open_req (i_txs w3 t) of None \<Rightarrow> w3 | Some r \<Rightarrow> upd_req r (\<lambda>q. q\<lparr>q_tx := None\<rparr>) w3))"
    by (auto split: option.split intro!: k_finalize k_req)
  then show ?thesis
    unfolding commit_tx_def None option.case Let_def w1_def [symmetric] w2_def [symmetric] w3_def [symmetric] .
qed

lemma k_turn:
  assumes "R w a" "t_state (i_txs a t) \<noteq> Finished"
  shows "R w (turn env t a)"
proof (cases "t_pending (i_txs a t)")
  case (Some e)
  then show ?thesis using assms(1) by (auto simp: turn_def same_end_def same_shape_def intro!: k_abort_tx k_tx)
next
  case None
  have "R w (run_item env t item (schedule t (upd_tx t (\<lambda>x. x\<lparr>t_queue := q\<rparr>) a)))" if "can_start a t" for item q
    using assms(1) that
    by (intro k_run_item k_schedule k_tx) (simp_all add: same_end_def same_shape_def can_start_schedule can_start_upd)
  moreover have "R w (schedule t (upd_tx t (\<lambda>x. x\<lparr>t_state := Committing\<rparr>) a))"
    using assms by (intro k_schedule k_open_tx) (simp_all add: may_change_def same_shape_def)
  ultimately show ?thesis
    using None assms by (auto simp: turn_def split: list.split intro!: k_commit)
qed

lemma k_step: "R w a \<Longrightarrow> R w (step env t a)"
proof -
  assume a: "R w a"
  have i: "R w (upd_tx t (\<lambda>x. x\<lparr>t_state := Inactive\<rparr>) a)" if "t_state (i_txs a t) = Active"
    using a that by (intro k_open_tx) (simp_all add: may_change_def same_shape_def)
  show ?thesis using a i by (auto simp: step_def Let_def intro!: k_schedule k_turn)
qed

text \<open>Tasks.\<close>

lemma k_version_event: "R w a \<Longrightarrow> R w (fst (version_event env ty r old new a))"
  by (simp add: version_event_def k_dispatch)

lemma k_fire_version_change: "R w a \<Longrightarrow> R w (fire_version_change cs old new k a)"
proof -
  assume a: "R w a"
  have "R w (set_left i n (a\<lparr>i_next := i_next a + 1\<rparr>))" for i n by (intro k_left k_next a) simp
  with a show ?thesis by (auto simp: fire_version_change_def Let_def task_ok_def intro!: k_later k_fold)
qed

lemma k_new_conn: "R w a \<Longrightarrow> R w (fst (new_conn d v a))"
proof -
  assume a: "R w a"
  have "R w (a\<lparr>i_next := i_next a + 1\<rparr>)" by (intro k_next a) simp
  then show ?thesis by (auto simp: new_conn_def Let_def intro!: k_conn)
qed

lemma k_ensure_data: "R w a \<Longrightarrow> R w (fst (ensure_data k a))"
proof -
  assume a: "R w a"
  have "R w (a\<lparr>i_work := x, i_memory := m\<rparr>)" for x m using k_memory [OF k_work [OF a, of x], of m] by simp
  with a show ?thesis by (auto simp: ensure_data_def Let_def split: option.split)
qed

lemma k_run_open: "R w a \<Longrightarrow> R w (run_open k v r a)"
proof -
  assume a: "R w a"
  obtain w1 d where d: "ensure_data k a = (w1, d)" by fastforce
  then have w1: "R w w1" using k_ensure_data [OF a, of k] by simp
  obtain w2 c where c: "new_conn k (version_asked a k v) w1 = (w2, c)" by fastforce
  then have "R w w2" using k_new_conn [OF w1, of k] by (metis fst_conv)
  with w1 show ?thesis
    by (auto simp: run_open_def d c Let_def intro!: k_finish_open k_fire_version_change k_live)
qed

lemma k_after:
  assumes "R w a"
  shows "R w (after_open k others d c v r old a)" "R w (after_delete k cs d r a)"
  using assms by (auto simp: after_open_def after_delete_def task_ok_def intro!: k_wait_closed k_later)

lemma k_finish_delete: "R w a \<Longrightarrow> R w (finish_delete k r old a)"
  by (auto simp: finish_delete_def task_ok_def intro!: k_conn_done k_later)

lemma k_upgrade_tx: "R w a \<Longrightarrow> R w (upgrade k d c v r a)"
proof -
  assume a: "R w a"
  define t where "t = i_next a"
  define w1 where "w1 = fst (create_tx c VersionChange None (js ''default'') a)"
  have c: "create_tx c VersionChange None (js ''default'') a = (w1, t)" by (simp add: w1_def t_def create_tx_def Let_def)
  have w1: "R w w1" unfolding w1_def by (rule k_create [OF a])
  have m: "t_mode (i_txs w1 t) = VersionChange" "t < i_next w1" by (simp_all add: w1_def t_def create_tx_def Let_def new_tx_def)
  define w2 where "w2 = upd_tx t (\<lambda>x. x\<lparr>t_state := Inactive, t_hold := True, t_open_req := Some r, t_old_version := db_version (db_of a d)\<rparr>) w1"
  have w2: "R w w2" unfolding w2_def using w1 m by (intro k_open_tx) (simp_all add: may_change_def same_shape_def)
  have m2: "t_mode (i_txs w2 t) = VersionChange" "t < i_next w2" using m by (simp_all add: w2_def)
  define w3 where "w3 = upd_live k (\<lambda>v. v\<lparr>v_upgrade := Some t\<rparr>) w2"
  have w3: "R w w3" unfolding w3_def using w2 m2 by (intro k_upgrade)
  define w4 where "w4 = fst (in_tx t (\<lambda>j. ((push_undo (UnVersion d (db_version (db_of a d))) (upd_db d (\<lambda>x. x\<lparr>db_version := v\<rparr>) j))\<lparr>dirty := True\<rparr>, ())) w3)"
  have w4: "R w w4" unfolding w4_def using w3 m2 by (intro k_schema) (simp_all add: w3_def)
  have "R w (later (TaskUpgradeNeeded t r c (db_version (db_of a d)) v) (upd_tx t (\<lambda>x. x\<lparr>t_on_finish := t_on_finish x @ [(c, r)]\<rparr>) w4))"
    using w4 m2 by (intro k_later k_tx) (simp_all add: same_end_def same_shape_def task_ok_def w4_def w3_def)
  then show ?thesis by (simp add: upgrade_def Let_def c w2_def [symmetric] w3_def [symmetric] w4_def [symmetric])
qed

lemma k_continuation: "R w a \<Longrightarrow> R w (run_continuation k a)"
  by (cases k) (auto simp: do_delete_def intro!: k_after k_upgrade_tx k_finish_delete k_forget_db)

lemma k_upgrade_needed: "R w a \<Longrightarrow> t_mode (i_txs a t) = VersionChange \<Longrightarrow> R w (upgrade_needed env t r c old v a)"
proof -
  assume a: "R w a" and m: "t_mode (i_txs a t) = VersionChange"
  have w2: "R w (schedule t (upd_tx t (\<lambda>x. x\<lparr>t_state := Active, t_hold := False\<rparr>)
      (upd_req r (\<lambda>q. q\<lparr>q_result := ResConn c, q_tx := Some t, q_done := True\<rparr>) a)))"
    using a m by (intro k_schedule k_open_tx k_req) (simp_all add: may_change_def same_shape_def)
  show ?thesis
    using k_version_event [OF w2, of "''upgradeneeded''" r old "Some v"]
    by (auto simp: upgrade_needed_def Let_def same_end_def same_shape_def split: prod.split intro!: k_tx)
qed

lemma k_answers:
  assumes "R w a"
  shows "R w (open_answer env r res a)" "R w (version_change env c i old new k a)" "R w (req_aborted env r a)"
  using assms by (auto simp: open_answer_def version_change_def req_aborted_def Let_def task_ok_def split: sum.split
    intro!: k_dispatch k_req k_later k_left)

lemma k_tx_aborted: "R w a \<Longrightarrow> R w (tx_aborted env t a)"
proof -
  assume a: "R w a"
  define w1 where "w1 = (if t_mode (i_txs a t) = VersionChange then upd_live (t_db (i_txs a t)) (\<lambda>v. v\<lparr>v_upgrade := None\<rparr>) a else a)"
  have "R w w1" unfolding w1_def using a by (auto intro!: k_live)
  then show ?thesis
    by (auto simp: tx_aborted_def Let_def w1_def [symmetric] split: option.split intro!: k_finalize k_req k_dispatch)
qed

lemma k_run_task: "R w a \<Longrightarrow> task_ok a x \<Longrightarrow> R w (run_task env x a)"
  by (cases "(env, x, a)" rule: run_task.cases)
     (auto simp: run_delete_def Let_def task_ok_def same_end_def same_shape_def split: option.split
    intro!: k_run_open k_finish_delete k_fire_version_change k_step k_tx k_answers k_dispatch k_req k_continuation
      k_version_event k_upgrade_needed k_tx_aborted k_timer)

lemma step_keeps: "idb_step env w w' \<Longrightarrow> R w w'"
proof (induction rule: idb_step.induct)
  case (s_task w x xs)
  show ?case
  proof (cases "links_ok w")
    case True
    with s_task have x: "task_ok w x" by (simp add: links_ok_def)
    have "R w (w\<lparr>i_tasks := xs\<rparr>)" by (rule on_tasks) (use s_task in auto)
    then show ?thesis by (rule k_run_task) (use x in \<open>simp add: task_ok_def split: task.splits\<close>)
  qed (rule no_links)
qed (rule call_keeps)

lemma steps_keep: "(idb_step env)\<^sup>*\<^sup>* w w' \<Longrightarrow> R w w'"
  by (induction rule: rtranclp_induct) (auto intro: refl trans step_keeps)

end

end
