(* ===== verification/IdbTxInv.thy ===== *)
theory IdbTxInv
  imports IdbTxLaws
begin

text \<open>
  Two invariants of transactions, as instances of \<open>idb_rel\<close>: finished transactions keep their outcome,
  and conflicting ones do not mix.
\<close>

section \<open>Elementary changes and live databases\<close>

lemma tasks_simps [simp]:
  "i_tasks (later x w) = i_tasks w @ [x]" "i_tasks (upd_req r f w) = i_tasks w" "i_tasks (upd_conn c g w) = i_tasks w"
  "i_tasks (upd_handle h b w) = i_tasks w" "i_tasks (upd_cursor u d w) = i_tasks w" "i_tasks (upd_live k e w) = i_tasks w"
  "i_tasks (set_left i n w) = i_tasks w" "i_tasks (note_error ex w) = i_tasks w" "i_tasks (upd_tx t y w) = i_tasks w"
  "i_tasks (fst (in_tx t j w)) = i_tasks w" "i_tasks (fst (live_db_for og nm w)) = i_tasks w" "i_tasks (rollback_tx t m w) = i_tasks w"
  "i_tasks (fst (create_tx cn md sc du w)) = i_tasks w"
  by (simp_all add: later_def upd_req_def upd_conn_def upd_handle_def upd_cursor_def upd_live_def set_left_def note_error_def
    upd_tx_def in_tx_def live_db_for_def rollback_tx_def create_tx_def Let_def split: exn.split prod.split option.split)

lemma live_upd: "live (upd_live k f w) j = (if j = k \<and> i_live w k \<noteq> None then f (live w k) else live w j)"
  by (auto simp: live_def upd_live_def split: option.split)

lemma live_new [simp]: "live (fst (live_db_for a b w)) k = (if k = live_key a b \<and> i_live w k = None
    then \<lparr>v_origin = a, v_name = b, v_conns = [], v_txs = [], v_upgrade = None, v_queue = [], v_busy = False, v_waiters = []\<rparr>
    else live w k)"
  by (auto simp: live_db_for_def live_def Let_def split: option.split)

lemma live_in_tx [simp]: "live (fst (in_tx t j w)) k = live w k" "live (rollback_tx t m w) k = live w k"
  by (simp_all add: in_tx_def rollback_tx_def live_def upd_tx_def split: prod.split)

lemma live_create: "live (fst (create_tx c md sc du w)) k =
    (if k = n_db (i_conns w c) \<and> i_live w k \<noteq> None then (live w k)\<lparr>v_txs := v_txs (live w k) @ [i_next w]\<rparr> else live w k)"
  by (auto simp: create_tx_def Let_def live_upd) (auto simp: live_def upd_tx_def)

lemma txs_create: "i_txs (fst (create_tx c md sc du w)) t =
    (if t = i_next w then new_tx c (n_db (i_conns w c)) md sc du else i_txs w t)"
  by (simp add: create_tx_def Let_def upd_tx_def upd_conn_def upd_live_def)

lemma next_create [simp]: "i_next (fst (create_tx c md sc du w)) = i_next w + 1"
  by (simp add: create_tx_def Let_def)

lemma txs_live_new [simp]: "i_txs (fst (live_db_for a b w)) = i_txs w" "i_next (fst (live_db_for a b w)) = i_next w"
  by (simp_all add: live_db_for_def Let_def split: option.split)

lemma live_fields [simp]:
  "live (w\<lparr>i_next := n\<rparr>) k = live w k" "live (w\<lparr>i_tasks := xs\<rparr>) k = live w k" "live (w\<lparr>i_page := p, i_heap := hp\<rparr>) k = live w k"
  "live (w\<lparr>i_work := x\<rparr>) k = live w k" "live (w\<lparr>i_memory := m\<rparr>) k = live w k"
  by (simp_all add: live_def)

lemma txs_in_tx_other: "u \<noteq> t \<Longrightarrow> i_txs (fst (in_tx t j w)) u = i_txs w u"
  by (simp add: in_tx_def upd_tx_def split: prod.split)

lemma txs_in_tx_same [simp]:
  "t_scope (i_txs (fst (in_tx t j w)) u) = t_scope (i_txs w u)" "t_error (i_txs (fst (in_tx t j w)) u) = t_error (i_txs w u)"
  "t_aborted (i_txs (fst (in_tx t j w)) u) = t_aborted (i_txs w u)"
  "t_scope (i_txs (rollback_tx t m w) u) = t_scope (i_txs w u)" "t_error (i_txs (rollback_tx t m w) u) = t_error (i_txs w u)"
  "t_aborted (i_txs (rollback_tx t m w) u) = t_aborted (i_txs w u)"
  by (simp_all add: in_tx_def rollback_tx_def upd_tx_def split: prod.split)

section \<open>Links\<close>

text \<open>Changes that keep the modes, add no reference, and take back no number.\<close>

lemma links_mono:
  assumes "links_ok w" "\<And>t. t < i_next w \<Longrightarrow> t_mode (i_txs a t) = t_mode (i_txs w t)" "i_next w \<le> i_next a"
    and "\<And>k t. v_upgrade (live a k) = Some t \<Longrightarrow> v_upgrade (live w k) = Some t \<or> t_mode (i_txs w t) = VersionChange \<and> t < i_next w"
    and "\<And>x. x \<in> set (i_tasks a) \<Longrightarrow> x \<in> set (i_tasks w) \<or> task_ok w x"
  shows "links_ok a"
proof -
  have "task_ok a x" if "x \<in> set (i_tasks a)" for x
  proof -
    have "task_ok w x" using assms(1) assms(5) [OF that] by (auto simp: links_ok_def)
    with assms(2,3) show ?thesis by (auto simp: task_ok_def split: task.splits)
  qed
  moreover have "t_mode (i_txs a t) = VersionChange \<and> t < i_next a" if "v_upgrade (live a k) = Some t" for k t
  proof -
    have "t_mode (i_txs w t) = VersionChange \<and> t < i_next w" using assms(1) assms(4) [OF that] by (auto simp: links_ok_def)
    with assms(2) [of t] assms(3) show ?thesis by simp
  qed
  ultimately show ?thesis by (auto simp: links_ok_def)
qed

section \<open>Finished transactions\<close>

text \<open>A transaction that has finished keeps its outcome; upgrades are treated apart.\<close>

definition outcome :: "idb_tx \<Rightarrow> tx_state \<times> exn option \<times> bool" where
  "outcome x = (t_state x, t_error x, t_aborted x)"

definition ended_kept :: "'p idb \<Rightarrow> 'p idb \<Rightarrow> bool" where
  "ended_kept w a = (links_ok w \<longrightarrow> links_ok a \<and> i_next w \<le> i_next a \<and>
     (\<forall>t < i_next w. t_mode (i_txs a t) = t_mode (i_txs w t) \<and>
        (t_mode (i_txs w t) \<noteq> VersionChange \<and> t_state (i_txs w t) = Finished \<longrightarrow> outcome (i_txs a t) = outcome (i_txs w t))))"

lemma ended_keptI:
  assumes "i_next w \<le> i_next a"
    and "\<And>t. t < i_next w \<Longrightarrow> t_mode (i_txs a t) = t_mode (i_txs w t)"
    and "\<And>t. t < i_next w \<Longrightarrow> t_mode (i_txs w t) \<noteq> VersionChange \<Longrightarrow> t_state (i_txs w t) = Finished \<Longrightarrow> outcome (i_txs a t) = outcome (i_txs w t)"
    and "\<And>k t. v_upgrade (live a k) = Some t \<Longrightarrow> v_upgrade (live w k) = Some t \<or> t_mode (i_txs w t) = VersionChange \<and> t < i_next w"
    and "\<And>x. x \<in> set (i_tasks a) \<Longrightarrow> x \<in> set (i_tasks w) \<or> task_ok w x"
  shows "ended_kept w a"
  using links_mono [of w a] assms by (auto simp: ended_kept_def)

interpretation ended: idb_rel ended_kept
proof
  show "ended_kept w w" for w :: "'a idb" by (simp add: ended_kept_def)
  show "ended_kept a c" if "ended_kept a b" "ended_kept b c" for a b c :: "'a idb"
    using that by (auto simp: ended_kept_def outcome_def)
  show "links_ok a" if "ended_kept w a" "links_ok w" for w a :: "'a idb" using that by (simp add: ended_kept_def)
  show "ended_kept w a" if "\<not> links_ok w" for w a :: "'a idb" using that by (simp add: ended_kept_def)
  show "ended_kept w (upd_tx t f w)" if "\<And>x. same_end (f x) x" for w :: "'a idb" and t f
    using that by (intro ended_keptI) (auto simp: same_end_def same_shape_def outcome_def)
  show "ended_kept w (upd_tx t f w)" if "may_change w t" "\<And>x. same_shape (f x) x" for w :: "'a idb" and t f
    using that by (intro ended_keptI) (auto simp: same_shape_def may_change_def)
  show "ended_kept w (upd_live d g w)"
    if "\<And>v. v_txs (g v) = v_txs v" "\<And>v. v_upgrade (g v) = v_upgrade v \<or> v_upgrade (g v) = None" for w :: "'a idb" and d g
  proof (rule ended_keptI)
    fix k t assume "v_upgrade (live (upd_live d g w) k) = Some t"
    with that(2) [of "live w d"] show "v_upgrade (live w k) = Some t \<or> t_mode (i_txs w t) = VersionChange \<and> t < i_next w"
      by (auto simp: live_upd split: if_splits)
  qed simp_all
qed (auto intro!: ended_keptI simp: live_upd live_create txs_create new_tx_def outcome_def split: if_splits)

text \<open>A world in which no transaction is alive and no task is waiting, such as the first one.\<close>

definition idle_world :: "'p idb \<Rightarrow> bool" where
  "idle_world w = ((\<forall>k. v_txs (live w k) = [] \<and> v_upgrade (live w k) = None) \<and> i_tasks w = [])"

lemma links_idle: "idle_world w \<Longrightarrow> links_ok w"
  by (simp add: links_ok_def idle_world_def)

section \<open>Isolation\<close>

text \<open>
  In the list of a database, a transaction has changed nothing as long as an earlier one that it
  conflicts with is unfinished.
\<close>

definition unmixed :: "'p idb \<Rightarrow> nat \<Rightarrow> nat \<Rightarrow> bool" where
  "unmixed w u t = (t_mode (i_txs w u) \<noteq> VersionChange \<and> t_mode (i_txs w t) \<noteq> VersionChange \<and>
     conflicting (i_txs w u) (i_txs w t) \<longrightarrow> t_undo (i_txs w t) = [])"

definition isolated :: "'p idb \<Rightarrow> bool" where
  "isolated w = ((\<forall>k. sorted_wrt (unmixed w) (v_txs (live w k)) \<and> distinct (v_txs (live w k))) \<and>
     (\<forall>k. \<forall>t \<in> set (v_txs (live w k)). t_db (i_txs w t) = k \<and> t < i_next w))"

definition isolation_kept :: "'p idb \<Rightarrow> 'p idb \<Rightarrow> bool" where
  "isolation_kept w a = (links_ok w \<longrightarrow> links_ok a \<and> (isolated w \<longrightarrow> isolated a))"

lemma start_ok_before: "start_ok w t (us @ t # vs) \<Longrightarrow> t \<notin> set us \<Longrightarrow> \<forall>u \<in> set us. \<not> conflicting (i_txs w u) (i_txs w t)"
  by (induction us) (auto split: if_splits)

text \<open>Transactions of the lists keep what the invariant is about.\<close>

lemma isolated_mono:
  assumes "isolated w" "i_next w \<le> i_next a"
    and "\<And>k. \<exists>P. v_txs (live a k) = filter P (v_txs (live w k))"
    and "\<And>t. t < i_next w \<Longrightarrow> t_db (i_txs a t) = t_db (i_txs w t) \<and> t_mode (i_txs a t) = t_mode (i_txs w t)"
    and "\<And>t. t < i_next w \<Longrightarrow> t_mode (i_txs w t) \<noteq> VersionChange \<Longrightarrow> t_scope (i_txs a t) = t_scope (i_txs w t)"
    and "\<And>t. t < i_next w \<Longrightarrow> t_undo (i_txs w t) = [] \<Longrightarrow> t_mode (i_txs w t) \<noteq> VersionChange \<Longrightarrow> t_undo (i_txs a t) = []"
  shows "isolated a"
  unfolding isolated_def
proof (intro conjI allI ballI)
  fix k
  let ?us = "v_txs (live w k)"
  obtain P where P: "v_txs (live a k) = filter P ?us" using assms(3) by blast
  have w: "sorted_wrt (unmixed w) ?us" "distinct ?us" "\<forall>t \<in> set ?us. t_db (i_txs w t) = k \<and> t < i_next w"
    using assms(1) by (auto simp: isolated_def)
  have u: "unmixed a x y" if "x \<in> set ?us" "y \<in> set ?us" "unmixed w x y" for x y
  proof (cases "t_mode (i_txs w x) \<noteq> VersionChange \<and> t_mode (i_txs w y) \<noteq> VersionChange")
    case True
    with that(1,2) w(3) assms(4,5) have "t_scope (i_txs a x) = t_scope (i_txs w x)" "t_scope (i_txs a y) = t_scope (i_txs w y)"
      "t_mode (i_txs a x) = t_mode (i_txs w x)" "t_mode (i_txs a y) = t_mode (i_txs w y)" by auto
    then have "conflicting (i_txs a x) (i_txs a y) = conflicting (i_txs w x) (i_txs w y)"
      by (simp add: conflicting_def overlaps_def)
    with True that(2,3) w(3) assms(6) show ?thesis by (auto simp: unmixed_def)
  next
    case False
    with that(1,2) w(3) assms(4) show ?thesis by (auto simp: unmixed_def)
  qed
  have "sorted_wrt (unmixed a) ?us" by (rule sorted_wrt_mono_rel [OF u w(1)])
  with P show "sorted_wrt (unmixed a) (v_txs (live a k))" by (simp add: sorted_wrt_filter)
  show "distinct (v_txs (live a k))" using P w(2) by simp
  fix t assume "t \<in> set (v_txs (live a k))"
  with P w(3) assms(2,4) show "t_db (i_txs a t) = k" "t < i_next a" by fastforce+
qed

lemma isolation_keptI:
  assumes "i_next w \<le> i_next a" "\<And>k. \<exists>P. v_txs (live a k) = filter P (v_txs (live w k))"
    and "\<And>t. t < i_next w \<Longrightarrow> t_db (i_txs a t) = t_db (i_txs w t) \<and> t_mode (i_txs a t) = t_mode (i_txs w t)"
    and "\<And>t. t < i_next w \<Longrightarrow> t_mode (i_txs w t) \<noteq> VersionChange \<Longrightarrow> t_scope (i_txs a t) = t_scope (i_txs w t)"
    and "\<And>t. t < i_next w \<Longrightarrow> t_undo (i_txs w t) = [] \<Longrightarrow> t_mode (i_txs w t) \<noteq> VersionChange \<Longrightarrow> t_undo (i_txs a t) = []"
    and "\<And>k t. v_upgrade (live a k) = Some t \<Longrightarrow> v_upgrade (live w k) = Some t \<or> t_mode (i_txs w t) = VersionChange \<and> t < i_next w"
    and "\<And>x. x \<in> set (i_tasks a) \<Longrightarrow> x \<in> set (i_tasks w) \<or> task_ok w x"
  shows "isolation_kept w a"
  using links_mono [of w a] isolated_mono [of w a] assms by (simp add: isolation_kept_def)

lemma all_kept: "\<exists>P. xs = filter P xs"
  by (rule exI [of _ "\<lambda>_. True"]) simp

lemma no_undo_rollback: "t_undo (i_txs w u) = [] \<Longrightarrow> t_undo (i_txs (rollback_tx t m w) u) = []"
  by (auto simp: rollback_tx_def in_tx_def rollback_def Let_def upd_tx_def)

text \<open>A transaction that may start, or an upgrade, changes data.\<close>

lemma isolated_change:
  assumes i: "isolated w" and c: "t_mode (i_txs w t) = VersionChange \<or> can_start w t"
  shows "isolated (fst (in_tx t j w))"
proof -
  let ?a = "fst (in_tx t j w)"
  have "sorted_wrt (unmixed ?a) (v_txs (live w k))" for k
  proof (cases "t \<in> set (v_txs (live w k)) \<and> t_mode (i_txs w t) \<noteq> VersionChange")
    case False
    have "unmixed ?a u v" if "u \<in> set (v_txs (live w k))" "v \<in> set (v_txs (live w k))" "unmixed w u v" for u v
      using that False by (cases "v = t") (auto simp: unmixed_def conflicting_def overlaps_def txs_in_tx_other)
    then show ?thesis by (rule sorted_wrt_mono_rel) (use i in \<open>auto simp: isolated_def\<close>)
  next
    case True
    then obtain xs ys where us: "v_txs (live w k) = xs @ t # ys" by (meson split_list)
    have "t_db (i_txs w t) = k" "distinct (v_txs (live w k))" using i True by (auto simp: isolated_def)
    with us c True start_ok_before [of w t xs ys] have nc: "\<forall>u \<in> set xs. \<not> conflicting (i_txs w u) (i_txs w t)"
      by (auto simp: can_start_def)
    have "sorted_wrt (unmixed w) (v_txs (live w k))" "distinct (v_txs (live w k))" using i by (auto simp: isolated_def)
    with us have s: "sorted_wrt (unmixed w) (xs @ t # ys)" and d: "t \<notin> set (xs @ ys)" by auto
    have e: "unmixed ?a u v" if "v \<noteq> t" "unmixed w u v" for u v
      using that by (auto simp: unmixed_def conflicting_def overlaps_def txs_in_tx_other)
    have "unmixed ?a u t" if "u \<in> set xs" for u
      using nc that by (auto simp: unmixed_def conflicting_def overlaps_def)
    moreover have "sorted_wrt (unmixed ?a) zs" if "sorted_wrt (unmixed w) zs" "t \<notin> set zs" for zs
    proof (rule sorted_wrt_mono_rel [OF _ that(1)])
      fix x y assume "x \<in> set zs" "y \<in> set zs" "unmixed w x y"
      with that(2) show "unmixed ?a x y" by (intro e) auto
    qed
    moreover have "unmixed ?a u v" if "u \<in> set (xs @ [t])" "v \<in> set ys" for u v
      using that s d by (intro e) (auto simp: sorted_wrt_append)
    ultimately show ?thesis using s d unfolding us by (simp add: sorted_wrt_append)
  qed
  with i show ?thesis by (simp add: isolated_def)
qed

lemma isolated_create:
  assumes i: "isolated w"
  shows "isolated (fst (create_tx c md sc du w))"
proof -
  let ?a = "fst (create_tx c md sc du w)"
  have "sorted_wrt (unmixed ?a) (v_txs (live w k))" for k
  proof -
    have "unmixed ?a u v" if "u \<in> set (v_txs (live w k))" "v \<in> set (v_txs (live w k))" "unmixed w u v" for u v
      using that i by (auto simp: unmixed_def isolated_def txs_create)
    then show ?thesis by (rule sorted_wrt_mono_rel) (use i in \<open>auto simp: isolated_def\<close>)
  qed
  moreover have "unmixed ?a u (i_next w)" for u by (simp add: unmixed_def txs_create new_tx_def)
  ultimately show ?thesis
    using i by (auto simp: isolated_def live_create sorted_wrt_append txs_create new_tx_def less_Suc_eq)
qed

interpretation isolation: idb_rel isolation_kept
proof
  show "isolation_kept w w" for w :: "'a idb" by (simp add: isolation_kept_def)
  show "isolation_kept a c" if "isolation_kept a b" "isolation_kept b c" for a b c :: "'a idb"
    using that by (auto simp: isolation_kept_def)
  show "links_ok a" if "isolation_kept w a" "links_ok w" for w a :: "'a idb" using that by (simp add: isolation_kept_def)
  show "isolation_kept w a" if "\<not> links_ok w" for w a :: "'a idb" using that by (simp add: isolation_kept_def)
  show "isolation_kept w (upd_tx t f w)" if "\<And>x. same_end (f x) x" for w :: "'a idb" and t f
    using that by (intro isolation_keptI) (auto simp: same_end_def same_shape_def intro: all_kept)
  show "isolation_kept w (upd_tx t f w)" if "may_change w t" "\<And>x. same_shape (f x) x" for w :: "'a idb" and t f
    using that by (intro isolation_keptI) (auto simp: same_shape_def intro: all_kept)
  show "isolation_kept w (upd_live d g w)"
    if "\<And>v. v_txs (g v) = v_txs v" "\<And>v. v_upgrade (g v) = v_upgrade v \<or> v_upgrade (g v) = None" for w :: "'a idb" and d g
  proof (rule isolation_keptI)
    fix k t assume "v_upgrade (live (upd_live d g w) k) = Some t"
    with that(2) [of "live w d"] show "v_upgrade (live w k) = Some t \<or> t_mode (i_txs w t) = VersionChange \<and> t < i_next w"
      by (auto simp: live_upd split: if_splits)
  next
    fix k
    have "v_txs (live (upd_live d g w) k) = v_txs (live w k)" using that(1) by (simp add: live_upd)
    then show "\<exists>P. v_txs (live (upd_live d g w) k) = filter P (v_txs (live w k))" by (simp only:) (rule all_kept)
  qed simp_all
  show "isolation_kept w (upd_live d (\<lambda>v. v\<lparr>v_txs := remove1 t (v_txs v)\<rparr>) w)" for w :: "'a idb" and d t
  proof -
    let ?a = "upd_live d (\<lambda>v. v\<lparr>v_txs := remove1 t (v_txs v)\<rparr>) w"
    have "isolated ?a" if i: "isolated w"
    proof (rule isolated_mono [OF i])
      fix k
      have "remove1 t (v_txs (live w k)) = filter (\<lambda>x. t \<noteq> x) (v_txs (live w k))"
        using i by (simp add: isolated_def distinct_remove1_removeAll removeAll_filter_not_eq)
      then show "\<exists>P. v_txs (live ?a k) = filter P (v_txs (live w k))"
        using all_kept by (auto simp: live_upd)
    qed auto
    moreover have "links_ok ?a" if "links_ok w"
      by (rule links_mono [OF that]) (auto simp: live_upd split: if_splits)
    ultimately show ?thesis by (simp add: isolation_kept_def)
  qed
  show "isolation_kept w (fst (in_tx t (\<lambda>k. (j k, ())) w))" if "t_mode (i_txs w t) = VersionChange \<or> can_start w t"
    for w :: "'a idb" and t j
    using that isolated_change [of w t] links_mono [of w "fst (in_tx t (\<lambda>k. (j k, ())) w)"] by (auto simp: isolation_kept_def)
  show "isolation_kept w (fst (create_tx c md sc du w))" for w :: "'a idb" and c md sc du
  proof -
    have "links_ok (fst (create_tx c md sc du w))" if "links_ok w"
      by (rule links_mono [OF that]) (auto simp: txs_create live_create split: if_splits)
    with isolated_create [of w] show ?thesis by (simp add: isolation_kept_def)
  qed
  show "isolation_kept w (fst (live_db_for og nm w))" for w :: "'a idb" and og nm
  proof (rule isolation_keptI)
    fix k
    have "v_txs (live (fst (live_db_for og nm w)) k) = v_txs (live w k)"
      by (cases "i_live w k") (simp_all add: live_def [of w])
    then show "\<exists>P. v_txs (live (fst (live_db_for og nm w)) k) = filter P (v_txs (live w k))" by (simp only:) (rule all_kept)
  qed (auto split: if_splits)
  show "isolation_kept w (rollback_tx t m w)" for w :: "'a idb" and t m
    by (rule isolation_keptI) (auto intro: all_kept no_undo_rollback)
qed (auto intro!: isolation_keptI all_kept simp: live_upd split: if_splits)

section \<open>Pages\<close>

text \<open>A page without scripts, and the page of an environment if it acts through calls.\<close>

definition quiet_env :: "'p idb_env \<Rightarrow> 'p idb_env" where
  "quiet_env env = env\<lparr>a_listeners := \<lambda>path ev w. (w, 0), a_timer := \<lambda>n w. w, a_clone := \<lambda>v w. (w, Inl TypeErr)\<rparr>"

lemma quiet_acts: "page_acts (quiet_env env)"
  by (simp add: page_acts_def quiet_env_def)

definition acting_env :: "'p idb_env \<Rightarrow> 'p idb_env" where
  "acting_env env = (if page_acts env then env else quiet_env env)"

lemma acting_acts: "page_acts (acting_env env)"
  by (simp add: acting_env_def quiet_acts)

interpretation ended_page: idb_page_rel ended_kept "acting_env env" for env
  by unfold_locales (rule acting_acts)

interpretation isolation_page: idb_page_rel isolation_kept "acting_env env" for env
  by unfold_locales (rule acting_acts)

end
