(* ===== verification/IdbTxLive.thy ===== *)
theory IdbTxLive
  imports IdbTxInv
begin

text \<open>
  Progress: on a page whose listeners only look on, the transactions that are under way drive each other: each
  request is answered, a transaction that waits for a conflicting one starts when that one has finished, and in
  the end all have finished, within a number of tasks that the lengths of their queues bound.
\<close>

section \<open>States in which only transactions are under way\<close>

text \<open>
  Listeners and timers of the page that make no calls: they change only the page's own state, but an event may
  be canceled and a listener may throw.  The backend may refuse any commit.
\<close>

definition observing :: "'p idb_env \<Rightarrow> bool" where
  "observing env = ((\<forall>path ev w. \<exists>p hp. fst (a_listeners env path ev w) = w\<lparr>i_page := p, i_heap := hp\<rparr>) \<and>
     (\<forall>n w. \<exists>p hp. a_timer env n w = w\<lparr>i_page := p, i_heap := hp\<rparr>))"

text \<open>Tasks that are not part of opening, upgrading or deleting a database.\<close>

definition quiet_task :: "task \<Rightarrow> bool" where
  "quiet_task x = (case x of TaskConn k j \<Rightarrow> False | TaskGo c \<Rightarrow> False | TaskVersionChange c i v u k \<Rightarrow> False
     | TaskUpgradeNeeded t r c v u \<Rightarrow> False | _ \<Rightarrow> True)"

definition alive_txs :: "'p idb \<Rightarrow> nat set" where
  "alive_txs w = {t. \<exists>k. t \<in> set (v_txs (live w k))}"

text \<open>Where a transaction of a database stands: its end is announced, its turn is announced, or it is blocked.\<close>

definition placed_ok :: "'p idb \<Rightarrow> nat \<Rightarrow> bool" where
  "placed_ok w t = (if t_state (i_txs w t) = Finished then TaskTxAborted t \<in> set (i_tasks w)
     else if t_scheduled (i_txs w t) then TaskStep t \<in> set (i_tasks w) else \<not> can_start w t)"

definition tx_plain :: "idb_tx \<Rightarrow> bool" where
  "tx_plain x = (t_mode x \<noteq> VersionChange \<and> \<not> t_hold x \<and> t_on_finish x = [])"

definition ends :: "task list \<Rightarrow> nat list" where
  "ends xs = concat (map (\<lambda>x. case x of TaskTxAborted t \<Rightarrow> [t] | _ \<Rightarrow> []) xs)"

text \<open>
  No opening, upgrade or deletion is under way, and every transaction in the list of a database is either
  finished with its end announced, waits for a turn that is announced, or is held up by an earlier transaction.
\<close>

definition flowing :: "'p idb \<Rightarrow> bool" where
  "flowing w = (list_all quiet_task (i_tasks w) \<and> (\<forall>k. v_waiters (live w k) = [] \<and> distinct (v_txs (live w k))) \<and>
     (\<forall>k. \<forall>t \<in> set (v_txs (live w k)). t_db (i_txs w t) = k \<and> tx_plain (i_txs w t) \<and> placed_ok w t) \<and> finite (alive_txs w) \<and>
     (\<forall>t. TaskStep t \<in> set (i_tasks w) \<longrightarrow> t \<in> alive_txs w \<or> t_state (i_txs w t) = Finished) \<and>
     distinct (ends (i_tasks w)) \<and> (\<forall>t \<in> set (ends (i_tasks w)). t \<in> alive_txs w \<and> t_state (i_txs w t) = Finished))"

text \<open>What is left to do: the turns of a transaction, its end, and the tasks that are waiting.\<close>

definition turns_left :: "idb_tx \<Rightarrow> nat" where
  "turns_left x = (if t_state x = Finished then 1
     else 4 * length (t_queue x) + 3 + (case t_state x of Active \<Rightarrow> 2 | Inactive \<Rightarrow> 1 | _ \<Rightarrow> 0))"

definition potential :: "nat \<Rightarrow> 'p idb \<Rightarrow> nat" where
  "potential n w = (n + 2) * (\<Sum>t \<in> alive_txs w. turns_left (i_txs w t)) + length (i_tasks w)"

section \<open>What the turns leave as it was\<close>

definition same_static :: "idb_tx \<Rightarrow> idb_tx \<Rightarrow> bool" where
  "same_static x y = (t_mode x = t_mode y \<and> t_db x = t_db y \<and> t_scope x = t_scope y \<and> t_hold x = t_hold y \<and> t_on_finish x = t_on_finish y)"

definition same_course :: "idb_tx \<Rightarrow> idb_tx \<Rightarrow> bool" where
  "same_course x y = (same_static x y \<and> t_state x = t_state y \<and> t_queue x = t_queue y \<and> t_scheduled x = t_scheduled y \<and> t_pending x = t_pending y)"

lemma course_refl: "same_course x x" "same_static x x"
  by (simp_all add: same_course_def same_static_def)

text \<open>Only the transaction \<open>t\<close> has moved.\<close>

definition moved :: "nat \<Rightarrow> 'p idb \<Rightarrow> 'p idb \<Rightarrow> bool" where
  "moved t w a = (i_next w \<le> i_next a \<and> (\<forall>u. same_static (i_txs a u) (i_txs w u)) \<and> (\<forall>u. u \<noteq> t \<longrightarrow> same_course (i_txs a u) (i_txs w u)) \<and>
     (\<forall>k. v_txs (live a k) = v_txs (live w k) \<and> v_waiters (live a k) = v_waiters (live w k)))"

lemma moved_refl: "moved t w w"
  by (simp add: moved_def course_refl)

lemma moved_trans: "moved t a b \<Longrightarrow> moved t b c \<Longrightarrow> moved t a c"
  unfolding moved_def same_course_def same_static_def by simp

lemma moved_same: "(\<And>u. same_course (i_txs a u) (i_txs w u)) \<Longrightarrow> (\<And>k. live a k = live w k) \<Longrightarrow> i_next w \<le> i_next a \<Longrightarrow> moved t w a"
  by (simp add: moved_def same_course_def)

lemma moved_upd: "(\<And>x. same_static (f x) x) \<Longrightarrow> moved t w (upd_tx t f w)"
  by (simp add: moved_def course_refl)

lemma moved_alive: "moved t w a \<Longrightarrow> alive_txs a = alive_txs w"
  by (simp add: moved_def alive_txs_def)

lemma moved_start: "moved t w a \<Longrightarrow> can_start a u = can_start w u"
  using start_ok_cong [of a w u] by (simp add: moved_def can_start_def same_static_def)

lemma moved_frame: "moved t w (upd_req r fr w)" "moved t w (note_error e w)" "moved t w (later x w)" "moved t w (w\<lparr>i_page := p, i_heap := hp\<rparr>)"
    "moved t w (w\<lparr>i_tasks := xs\<rparr>)" "moved t w (fst (in_tx t j w))" "moved t w (rollback_tx t m w)"
proof -
  have in_tx: "same_course (i_txs (fst (in_tx t j w)) u) (i_txs w u)" for j :: "work \<Rightarrow> work \<times> 'c" and u
    by (simp add: same_course_def same_static_def in_tx_def upd_tx_def split: prod.split)
  have rb: "same_course (i_txs (rollback_tx t m w) u) (i_txs w u)" for u
    by (simp add: same_course_def same_static_def rollback_tx_def in_tx_def upd_tx_def split: prod.split)
  show "moved t w (fst (in_tx t j w))" "moved t w (rollback_tx t m w)" using in_tx rb by (auto intro!: moved_same)
qed (auto intro!: moved_same simp: course_refl)

lemma moved_schedule: "moved t w (schedule t w)"
  by (auto simp: schedule_def Let_def same_static_def intro: moved_trans [OF moved_frame(3) moved_upd] moved_refl)

lemma schedule_sel:
  "i_tasks (schedule t w) = (if t_scheduled (i_txs w t) then i_tasks w else i_tasks w @ [TaskStep t])" "t_scheduled (i_txs (schedule t w) t)"
  "t_state (i_txs (schedule t w) u) = t_state (i_txs w u)" "t_queue (i_txs (schedule t w) u) = t_queue (i_txs w u)"
  "t_pending (i_txs (schedule t w) u) = t_pending (i_txs w u)"
  by (simp_all add: schedule_def Let_def)

section \<open>Requests and their answers\<close>

lemma observed:
  assumes "observing env"
  shows "i_txs (fst (dispatch_at env path ev w)) = i_txs w" "i_tasks (fst (dispatch_at env path ev w)) = i_tasks w"
    "live (fst (dispatch_at env path ev w)) k = live w k" "moved t w (fst (dispatch_at env path ev w))"
    "i_next (fst (dispatch_at env path ev w)) = i_next w"
proof -
  obtain p hp where "fst (dispatch_at env path ev w) = w\<lparr>i_page := p, i_heap := hp\<rparr>"
    using assms unfolding observing_def dispatch_at_def by meson
  then show "i_txs (fst (dispatch_at env path ev w)) = i_txs w" "i_tasks (fst (dispatch_at env path ev w)) = i_tasks w"
    "live (fst (dispatch_at env path ev w)) k = live w k" "moved t w (fst (dispatch_at env path ev w))"
    "i_next (fst (dispatch_at env path ev w)) = i_next w"
    by (simp_all add: moved_frame(4))
qed

lemma report_effect:
  "moved t w (report_aborted items w) \<and> i_txs (report_aborted items w) = i_txs w \<and>
   (\<exists>rs. i_tasks (report_aborted items w) = i_tasks w @ map TaskReqAborted rs \<and> length rs \<le> length items)"
proof (induction items w rule: report_aborted.induct)
  case (1 w)
  then show ?case by (simp add: moved_refl)
next
  case (2 r op items w)
  show ?case
  proof (cases r)
    case None
    with 2 show ?thesis by (simp del: length_map) (meson le_SucI)
  next
    case (Some q)
    from 2 Some obtain rs where rs: "i_tasks (report_aborted items (later (TaskReqAborted q) w)) = i_tasks w @ TaskReqAborted q # map TaskReqAborted rs"
      "length rs \<le> length items" by auto
    from 2 Some have "moved t w (report_aborted items (later (TaskReqAborted q) w))" by (auto intro: moved_trans [OF moved_frame(3)])
    with rs 2 Some show ?thesis by (auto intro!: exI [of _ "q # rs"])
  qed
qed

lemma abort_effect:
  assumes "t_state (i_txs w t) \<noteq> Finished" "t_mode (i_txs w t) \<noteq> VersionChange"
  shows "moved t w (abort_tx t e w)" "t_state (i_txs (abort_tx t e w) t) = Finished"
    "\<exists>rs. i_tasks (abort_tx t e w) = i_tasks w @ map TaskReqAborted rs @ [TaskTxAborted t] \<and> length rs \<le> length (t_queue (i_txs w t))"
proof -
  define w1 where "w1 = rollback_tx t 0 (upd_tx t (\<lambda>x. x\<lparr>t_aborted := True\<rparr>) w)"
  define w3 where "w3 = upd_tx t (\<lambda>x. x\<lparr>t_state := Finished, t_error := e, t_queue := []\<rparr>) w1"
  have q: "t_queue (i_txs w1 t) = t_queue (i_txs w t)" "t_mode (i_txs w1 t) \<noteq> VersionChange" using assms(2) by (simp_all add: w1_def)
  then have a: "abort_tx t e w = later (TaskTxAborted t) (report_aborted (t_queue (i_txs w t)) w3)"
    using assms(1) by (simp add: abort_tx_def Let_def w1_def [symmetric] w3_def [symmetric])
  have "moved t w w3" unfolding w3_def w1_def
    by (intro moved_trans [OF moved_trans [OF moved_upd moved_frame(7)] moved_upd]) (simp_all add: same_static_def)
  then show "moved t w (abort_tx t e w)" unfolding a using report_effect [of t w3] by (meson moved_trans moved_frame(3))
  show "t_state (i_txs (abort_tx t e w) t) = Finished" unfolding a using report_effect [of t w3 "t_queue (i_txs w t)"] by (simp add: w3_def)
  have "i_tasks w3 = i_tasks w" by (simp add: w3_def w1_def)
  with report_effect [of t w3 "t_queue (i_txs w t)"]
  show "\<exists>rs. i_tasks (abort_tx t e w) = i_tasks w @ map TaskReqAborted rs @ [TaskTxAborted t] \<and> length rs \<le> length (t_queue (i_txs w t))"
    unfolding a by auto
qed

text \<open>What an answer leaves: the tasks, and of the transaction all but a change from inactive to active.\<close>

definition answered :: "nat \<Rightarrow> 'p idb \<Rightarrow> 'p idb \<Rightarrow> bool" where
  "answered t w a = (moved t w a \<and> i_tasks a = i_tasks w \<and> t_queue (i_txs a t) = t_queue (i_txs w t) \<and>
     t_scheduled (i_txs a t) = t_scheduled (i_txs w t) \<and>
     (t_state (i_txs a t) = t_state (i_txs w t) \<or> t_state (i_txs w t) = Inactive \<and> t_state (i_txs a t) = Active))"

lemma answered_course: "moved t w a \<Longrightarrow> i_tasks a = i_tasks w \<Longrightarrow> same_course (i_txs a t) (i_txs w t) \<Longrightarrow> answered t w a"
  by (simp add: answered_def same_course_def)

lemma answered_trans: "answered t a b \<Longrightarrow> answered t b c \<Longrightarrow> answered t a c"
  unfolding answered_def by (metis moved_trans tx_state.distinct(1))

lemma run_op_effect: "answered t w (fst (run_op t op w))"
proof -
  have r: "answered t w (fst (in_tx t j w))" for j :: "work \<Rightarrow> work \<times> 'c"
  proof (rule answered_course [OF moved_frame(6)])
    show "same_course (i_txs (fst (in_tx t j w)) t) (i_txs w t)"
      by (simp add: same_course_def same_static_def in_tx_def upd_tx_def split: prod.split)
  qed simp
  have f: "fst (case p of (b, x) \<Rightarrow> (b, g x)) = fst p" for p :: "'a idb \<times> 'c" and g :: "'c \<Rightarrow> 'd" by (simp split: prod.split)
  have n: "answered t w w" by (simp add: answered_def moved_refl)
  have k: "fst (case p of (b, Inl e) \<Rightarrow> (b, Inl e) | (b, Inr v) \<Rightarrow> (b, Inr (g v))) = fst p" for p :: "'a idb \<times> ('c + 'd)" and g :: "'d \<Rightarrow> 'e"
    by (simp split: prod.split sum.split)
  show ?thesis
  proof (cases op)
    case (OpIterate c k1 k2 m)
    have "answered t w (upd_cursor c g w)" for g
      by (rule answered_course) (auto intro!: moved_same simp: course_refl)
    then show ?thesis using n by (simp add: OpIterate iterate_def Let_def)
  qed (simp_all add: r n f k)
qed

lemma settle_effect:
  assumes "observing env"
  shows "answered t w (settle env t r res w)"
proof -
  define w1 where "w1 = upd_req r (\<lambda>q. case res of
            Inl e \<Rightarrow> q\<lparr>q_done := True, q_result := ResUndef, q_error := Some e\<rparr>
          | Inr v \<Rightarrow> q\<lparr>q_done := True, q_result := v, q_error := None\<rparr>) w"
  define w2 where "w2 = (if t_state (i_txs w1 t) = Inactive then upd_tx t (\<lambda>x. x\<lparr>t_state := Active\<rparr>) w1 else w1)"
  obtain w3 flags where w3: "dispatch_at env (req_path w2 r) (case res of Inl e \<Rightarrow> EvError | Inr v \<Rightarrow> EvSuccess) w2 = (w3, flags)" by fastforce
  have "moved t w w1" unfolding w1_def by (rule moved_frame(1))
  moreover have "moved t w1 w2" by (auto simp: w2_def same_static_def intro: moved_upd moved_refl)
  ultimately have a2: "answered t w w2" by (auto simp: answered_def w2_def w1_def intro: moved_trans)
  have "answered t w2 w3"
    using observed [where path = "req_path w2 r" and ev = "case res of Inl e \<Rightarrow> EvError | Inr v \<Rightarrow> EvSuccess" and w = w2, OF assms] w3
    by (simp add: answered_def)
  then have a3: "answered t w w3" by (rule answered_trans [OF a2])
  have p: "answered t w (upd_tx t (\<lambda>x. x\<lparr>t_pending := e\<rparr>) w3)" for e
  proof (rule answered_trans [OF a3])
    show "answered t w3 (upd_tx t (\<lambda>x. x\<lparr>t_pending := e\<rparr>) w3)" by (simp add: answered_def moved_upd same_static_def)
  qed
  have "settle env t r res w = (if t_state (i_txs w3 t) \<noteq> Active then w3
             else if threw flags then upd_tx t (\<lambda>x. x\<lparr>t_pending := Some (DomErr ''AbortError'')\<rparr>) w3
             else (case res of
                Inl e \<Rightarrow> if canceled flags then w3 else upd_tx t (\<lambda>x. x\<lparr>t_pending := Some e\<rparr>) w3
              | Inr v \<Rightarrow> w3))"
    unfolding settle_def Let_def w1_def [symmetric] w2_def [symmetric] w3 by simp
  with a3 p show ?thesis by (simp split: sum.split)
qed

text \<open>A transaction that was ended by an error has announced its end, and that its requests are aborted.\<close>

definition aborted :: "nat \<Rightarrow> 'p idb \<Rightarrow> 'p idb \<Rightarrow> bool" where
  "aborted t w a = (moved t w a \<and> t_state (i_txs a t) = Finished \<and>
     (\<exists>rs. i_tasks a = i_tasks w @ map TaskReqAborted rs @ [TaskTxAborted t] \<and> length rs \<le> Suc (length (t_queue (i_txs w t)))))"

lemma aborted_after:
  assumes "answered t w b" "t_state (i_txs b t) \<noteq> Finished" "t_mode (i_txs b t) \<noteq> VersionChange"
  shows "aborted t w (abort_tx t e b)"
  using abort_effect [OF assms(2,3), of e] assms(1) by (auto simp: aborted_def answered_def intro: moved_trans)

lemma run_item_effect:
  assumes "observing env" "t_state (i_txs w t) \<noteq> Finished" "t_mode (i_txs w t) \<noteq> VersionChange"
  shows "answered t w (run_item env t item w) \<or> aborted t w (run_item env t item w)"
proof -
  obtain req op where item: "item = (req, op)" by fastforce
  obtain w1 r where r: "run_op t op w = (w1, r)" by fastforce
  have a1: "answered t w w1" using run_op_effect [of t w op] r by simp
  have kept: "t_state (i_txs b t) \<noteq> Finished \<and> t_mode (i_txs b t) \<noteq> VersionChange" if "answered t w b" for b
    using that assms(2,3) by (auto simp: answered_def moved_def same_static_def)
  show ?thesis
  proof (cases r)
    case (Inr v)
    with r item show ?thesis using a1 answered_trans [OF a1 settle_effect [OF assms(1)]] by (cases req) (simp_all add: run_item_def Let_def)
  next
    case (Inl e)
    define w2 where "w2 = rollback_tx t (length (t_undo (i_txs w t))) (note_error e w1)"
    have "answered t w1 (note_error e w1)" by (rule answered_course [OF moved_frame(2)]) (simp_all add: course_refl)
    moreover have "answered t (note_error e w1) w2" unfolding w2_def
      by (rule answered_course [OF moved_frame(7)]) (simp_all add: same_course_def same_static_def rollback_tx_def in_tx_def upd_tx_def split: prod.split)
    ultimately have a2: "answered t w w2" using a1 by (blast intro: answered_trans)
    define w3 where "w3 = upd_tx t (\<lambda>x. x\<lparr>t_queue := item # t_queue x\<rparr>) w2"
    have m3: "moved t w w3" using a2 unfolding w3_def answered_def by (intro moved_trans [OF _ moved_upd]) (simp_all add: same_static_def)
    have k3: "t_state (i_txs w3 t) \<noteq> Finished" "t_mode (i_txs w3 t) \<noteq> VersionChange" using kept [OF a2] by (simp_all add: w3_def)
    have "i_tasks w3 = i_tasks w" "length (t_queue (i_txs w3 t)) = Suc (length (t_queue (i_txs w t)))" using a2 by (simp_all add: w3_def answered_def)
    then have "aborted t w (abort_tx t x w3)" for x
      using abort_effect [OF k3, of x] m3 by (auto simp: aborted_def intro: moved_trans)
    then show ?thesis
      using Inl r item aborted_after [OF a2] kept [OF a2] answered_trans [OF a2 settle_effect [OF assms(1)]]
      by (cases req) (simp_all add: run_item_def Let_def w2_def [symmetric] w3_def)
  qed
qed

section \<open>The end of a transaction\<close>

text \<open>The transactions that \<open>pumpDb\<close> gives a turn.\<close>

definition idle_tx :: "'p idb \<Rightarrow> nat \<Rightarrow> bool" where
  "idle_tx w u = (t_state (i_txs w u) \<noteq> Finished \<and> \<not> t_scheduled (i_txs w u))"

definition give_turn :: "nat \<Rightarrow> 'p idb \<Rightarrow> 'p idb" where
  "give_turn t w = (if t_state (i_txs w t) \<noteq> Finished then schedule t w else w)"

lemma pump_effect:
  assumes "distinct us"
  shows "i_tasks (fold give_turn us w) = i_tasks w @ map TaskStep (filter (idle_tx w) us) \<and>
    (\<forall>u. same_static (i_txs (fold give_turn us w) u) (i_txs w u) \<and> t_state (i_txs (fold give_turn us w) u) = t_state (i_txs w u) \<and>
      t_queue (i_txs (fold give_turn us w) u) = t_queue (i_txs w u) \<and>
      t_scheduled (i_txs (fold give_turn us w) u) = (t_scheduled (i_txs w u) \<or> u \<in> set us \<and> t_state (i_txs w u) \<noteq> Finished)) \<and>
    live (fold give_turn us w) = live w \<and> i_next (fold give_turn us w) = i_next w"
  using assms
proof (induction us arbitrary: w)
  case (Cons t us)
  define b where "b = give_turn t w"
  have b: "i_tasks b = i_tasks w @ (if idle_tx w t then [TaskStep t] else [])" "live b = live w" "i_next b = i_next w"
    "same_static (i_txs b u) (i_txs w u) \<and> t_state (i_txs b u) = t_state (i_txs w u) \<and> t_queue (i_txs b u) = t_queue (i_txs w u) \<and>
     t_scheduled (i_txs b u) = (t_scheduled (i_txs w u) \<or> u = t \<and> t_state (i_txs w u) \<noteq> Finished)" for u
    by (auto simp: b_def give_turn_def idle_tx_def schedule_def Let_def same_static_def)
  have f: "fold give_turn (t # us) w = fold give_turn us b" by (simp add: b_def)
  have d: "distinct us" using Cons.prems by simp
  have "filter (idle_tx b) us = filter (idle_tx w) us" using Cons.prems b(4) by (intro filter_cong) (auto simp: idle_tx_def)
  with Cons.IH [OF d, of b] b show ?case unfolding f by (auto simp: same_static_def)
qed (simp add: course_refl)

lemma pump_db_turns: "pump_db d w = fold give_turn (v_txs (live w d)) w"
  by (simp add: pump_db_def give_turn_def [abs_def])

text \<open>A finished transaction leaves its database, and the others of that database get a turn.\<close>

definition left_db :: "nat \<Rightarrow> 'p idb \<Rightarrow> 'p idb \<Rightarrow> bool" where
  "left_db t w a = (i_next a = i_next w \<and> (\<exists>k us. k = t_db (i_txs w t) \<and> us = remove1 t (v_txs (live w k)) \<and>
     i_tasks a = i_tasks w @ map TaskStep (filter (idle_tx w) us) \<and>
     (\<forall>u. same_static (i_txs a u) (i_txs w u) \<and> t_state (i_txs a u) = t_state (i_txs w u) \<and> t_queue (i_txs a u) = t_queue (i_txs w u) \<and>
       t_scheduled (i_txs a u) = (t_scheduled (i_txs w u) \<or> u \<in> set us \<and> t_state (i_txs w u) \<noteq> Finished)) \<and>
     (\<forall>j. v_waiters (live a j) = [] \<and> v_txs (live a j) = (if j = k then us else v_txs (live w j)))))"

lemma closed_effect:
  assumes "\<And>k. v_waiters (live w k) = []"
  shows "i_tasks (maybe_closed c w) = i_tasks w \<and> i_txs (maybe_closed c w) = i_txs w \<and> i_next (maybe_closed c w) = i_next w \<and>
    v_txs (live (maybe_closed c w) k) = v_txs (live w k) \<and> v_waiters (live (maybe_closed c w) k) = []"
  using assms by (simp add: maybe_closed_def Let_def check_waiters_def live_upd)

lemma finalize_effect:
  assumes "t_on_finish (i_txs w t) = []" "t \<in> set (v_txs (live w (t_db (i_txs w t))))" "\<And>k. v_waiters (live w k) = [] \<and> distinct (v_txs (live w k))"
  shows "left_db t w (finalize_tx t w)"
proof -
  define k where "k = t_db (i_txs w t)"
  define us where "us = remove1 t (v_txs (live w k))"
  define w2 where "w2 = upd_tx t (\<lambda>y. y\<lparr>t_on_finish := []\<rparr>)
     (upd_conn (t_conn (i_txs w t)) (\<lambda>n. n\<lparr>n_txs := set_del t (n_txs n)\<rparr>) (upd_live k (\<lambda>v. v\<lparr>v_txs := remove1 t (v_txs v)\<rparr>) w))"
  define a where "a = pump_db k w2"
  have "i_live w k \<noteq> None" using assms(2) by (cases "i_live w k") (simp_all add: live_def k_def)
  then have l2: "live w2 j = (if j = k then (live w k)\<lparr>v_txs := us\<rparr> else live w j)" for j
    by (simp add: w2_def live_upd us_def)
  have t2: "i_txs w2 = i_txs w" using assms(1) by (auto simp: w2_def)
  have d: "distinct us" using assms(3) by (simp add: us_def)
  have "a = fold give_turn us w2" by (simp add: a_def pump_db_turns l2)
  with pump_effect [OF d, of w2] have p: "i_tasks a = i_tasks w2 @ map TaskStep (filter (idle_tx w2) us)" "live a = live w2" "i_next a = i_next w2"
    "same_static (i_txs a u) (i_txs w2 u) \<and> t_state (i_txs a u) = t_state (i_txs w2 u) \<and> t_queue (i_txs a u) = t_queue (i_txs w2 u) \<and>
     t_scheduled (i_txs a u) = (t_scheduled (i_txs w2 u) \<or> u \<in> set us \<and> t_state (i_txs w2 u) \<noteq> Finished)" for u by simp_all
  have i: "idle_tx w2 = idle_tx w" by (simp add: idle_tx_def t2 fun_eq_iff)
  have w: "v_waiters (live a j) = []" for j using assms(3) by (simp add: p(2) l2)
  have e: "finalize_tx t w = maybe_closed (t_conn (i_txs w t)) a"
    using assms(1) by (simp add: finalize_tx_def Let_def a_def w2_def k_def)
  have "i_tasks w2 = i_tasks w" "i_next w2 = i_next w" by (simp_all add: w2_def)
  then show ?thesis
    unfolding left_db_def e using p(1,3,4) closed_effect [OF w] by (simp add: t2 i p(2) l2 us_def k_def)
qed
section \<open>A turn\<close>

text \<open>
  A turn of \<open>t\<close> ends in one of four ways: another turn is announced and less is left to do; an earlier
  transaction is in its way; it was aborted; or it has committed.
\<close>

definition goes_on :: "nat \<Rightarrow> 'p idb \<Rightarrow> 'p idb \<Rightarrow> bool" where
  "goes_on t w a = (moved t w a \<and> t_state (i_txs a t) \<noteq> Finished \<and> t_scheduled (i_txs a t) \<and> i_tasks a = i_tasks w @ [TaskStep t] \<and>
     turns_left (i_txs a t) < turns_left (i_txs w t))"

definition blocked :: "nat \<Rightarrow> 'p idb \<Rightarrow> 'p idb \<Rightarrow> bool" where
  "blocked t w a = (moved t w a \<and> t_state (i_txs a t) \<noteq> Finished \<and> \<not> t_scheduled (i_txs a t) \<and> i_tasks a = i_tasks w \<and>
     \<not> can_start w t \<and> turns_left (i_txs a t) \<le> turns_left (i_txs w t))"

definition ended_by :: "nat \<Rightarrow> 'p idb \<Rightarrow> 'p idb \<Rightarrow> bool" where
  "ended_by t w a = (moved t w a \<and> t_state (i_txs a t) = Finished \<and> (\<exists>new rs. i_tasks a = i_tasks w @ new @ map TaskReqAborted rs @ [TaskTxAborted t] \<and>
     (new = [] \<or> new = [TaskStep t]) \<and> length rs \<le> Suc (length (t_queue (i_txs w t)))))"

definition committed :: "nat \<Rightarrow> 'p idb \<Rightarrow> 'p idb \<Rightarrow> bool" where
  "committed t w a = (\<exists>b. moved t w b \<and> i_tasks b = i_tasks w \<and> t_state (i_txs b t) = Finished \<and> left_db t b a)"

definition stepped :: "nat \<Rightarrow> 'p idb \<Rightarrow> 'p idb \<Rightarrow> bool" where
  "stepped t w a = (goes_on t w a \<or> blocked t w a \<or> ended_by t w a \<or> committed t w a)"

text \<open>A transaction whose turn it is.\<close>

definition has_turn :: "nat \<Rightarrow> 'p idb \<Rightarrow> bool" where
  "has_turn t w = (t_state (i_txs w t) \<noteq> Finished \<and> tx_plain (i_txs w t) \<and> \<not> t_scheduled (i_txs w t) \<and>
     t \<in> set (v_txs (live w (t_db (i_txs w t)))) \<and> (\<forall>k. v_waiters (live w k) = [] \<and> distinct (v_txs (live w k))))"

lemma aborted_ended: "aborted t w a \<Longrightarrow> ended_by t w a"
  unfolding aborted_def ended_by_def by (metis append_Nil)

lemma commit_effect:
  assumes "observing env" "has_turn t w"
  shows "committed t w (commit_tx env t w) \<or> ended_by t w (commit_tx env t w)"
proof (cases "commit_failure env t w")
  case (Some e)
  have "answered t w (note_error e w)" by (rule answered_course [OF moved_frame(2)]) (simp_all add: course_refl)
  from aborted_after [OF this] assms(2) have "aborted t w (abort_tx t x (note_error e w))" for x
    by (simp add: has_turn_def tx_plain_def)
  then have "ended_by t w (abort_tx t x (note_error e w))" for x by (rule aborted_ended)
  with Some show ?thesis by (simp add: commit_tx_def)
next
  case None
  have m: "t_mode (i_txs w t) \<noteq> VersionChange" using assms(2) by (simp add: has_turn_def tx_plain_def)
  define w2 where "w2 = upd_tx t (\<lambda>x. x\<lparr>t_state := Finished\<rparr>) (upd_tx t (\<lambda>x. x\<lparr>t_undo := []\<rparr>) w)"
  define w3 where "w3 = fst (dispatch_at env (tx_path (upd_tx t (\<lambda>x. x\<lparr>t_undo := []\<rparr>) w) t) EvComplete w2)"
  define w4 where "w4 = (case t_open_req (i_txs w3 t) of None \<Rightarrow> w3 | Some r \<Rightarrow> upd_req r (\<lambda>q. q\<lparr>q_tx := None\<rparr>) w3)"
  have e: "commit_tx env t w = finalize_tx t w4" using None m by (simp add: commit_tx_def Let_def w2_def w3_def w4_def cong: option.case_cong)
  have "moved t w w2" unfolding w2_def by (intro moved_trans [OF moved_upd moved_upd]) (simp_all add: same_static_def)
  moreover have "moved t w2 w3" unfolding w3_def by (rule observed(4) [OF assms(1)])
  moreover have "moved t w3 w4" by (auto simp: w4_def moved_refl moved_frame split: option.split)
  ultimately have m4: "moved t w w4" by (meson moved_trans)
  have t4: "i_tasks w4 = i_tasks w" "t_state (i_txs w4 t) = Finished"
    using observed(1,2) [OF assms(1)] by (simp_all add: w4_def w3_def w2_def split: option.split)
  have "left_db t w4 (finalize_tx t w4)"
    by (rule finalize_effect) (use m4 assms(2) in \<open>auto simp: moved_def same_static_def has_turn_def tx_plain_def\<close>)
  with m4 t4 show ?thesis unfolding e committed_def by blast
qed

lemma turn_effect:
  assumes "observing env" "has_turn t w" "t_state (i_txs w t) \<noteq> Active"
  shows "stepped t w (turn env t w)"
proof (cases "t_pending (i_txs w t)")
  case (Some e)
  have "answered t w (upd_tx t (\<lambda>x. x\<lparr>t_pending := None\<rparr>) w)" by (simp add: answered_def moved_upd same_static_def)
  from aborted_after [OF this] assms(2) have "aborted t w (abort_tx t x (upd_tx t (\<lambda>x. x\<lparr>t_pending := None\<rparr>) w))" for x
    by (simp add: has_turn_def tx_plain_def)
  with Some show ?thesis by (simp add: turn_def stepped_def aborted_ended)
next
  case None
  have w: "t_state (i_txs w t) \<noteq> Finished" "t_mode (i_txs w t) \<noteq> VersionChange" "\<not> t_scheduled (i_txs w t)"
    using assms(2) by (simp_all add: has_turn_def tx_plain_def)
  show ?thesis
  proof (cases "can_start w t")
    case False
    then have "blocked t w w" using w by (simp add: blocked_def moved_refl)
    with False None show ?thesis by (simp add: turn_def stepped_def)
  next
    case True
    show ?thesis
    proof (cases "t_queue (i_txs w t)")
      case Nil
      define a where "a = schedule t (upd_tx t (\<lambda>x. x\<lparr>t_state := Committing\<rparr>) w)"
      have "moved t w a" unfolding a_def by (intro moved_trans [OF moved_upd moved_schedule]) (simp add: same_static_def)
      moreover have "turns_left (i_txs a t) < turns_left (i_txs w t)" if "t_state (i_txs w t) \<noteq> Committing"
        using that w(1) assms(3) by (cases "t_state (i_txs w t)") (simp_all add: a_def turns_left_def schedule_sel)
      ultimately have "goes_on t w a" if "t_state (i_txs w t) \<noteq> Committing"
        using that w by (simp add: goes_on_def a_def schedule_sel)
      with commit_effect [OF assms(1,2)] True Nil None show ?thesis
        by (cases "t_state (i_txs w t) = Committing") (auto simp: turn_def stepped_def a_def)
    next
      case (Cons item q)
      define b where "b = schedule t (upd_tx t (\<lambda>x. x\<lparr>t_queue := q\<rparr>) w)"
      have b: "moved t w b" unfolding b_def by (intro moved_trans [OF moved_upd moved_schedule]) (simp add: same_static_def)
      have bs: "t_state (i_txs b t) = t_state (i_txs w t)" "t_queue (i_txs b t) = q" "t_scheduled (i_txs b t)" "i_tasks b = i_tasks w @ [TaskStep t]"
        "t_mode (i_txs b t) \<noteq> VersionChange"
        using w b by (simp_all add: b_def schedule_sel moved_def same_static_def)
      define a where "a = run_item env t item b"
      have "goes_on t w a" if "answered t b a"
        using that b bs w(1) assms(3) Cons by (auto simp: goes_on_def answered_def turns_left_def intro: moved_trans split: tx_state.split)
      moreover have "ended_by t w a" if "aborted t b a"
      proof -
        from that obtain rs where "i_tasks a = i_tasks w @ [TaskStep t] @ map TaskReqAborted rs @ [TaskTxAborted t]" "length rs \<le> Suc (length q)"
          by (auto simp: aborted_def bs)
        moreover have "moved t w a" "t_state (i_txs a t) = Finished" using that b by (auto simp: aborted_def intro: moved_trans)
        moreover have "Suc (length q) \<le> Suc (length (t_queue (i_txs w t)))" using Cons by simp
        ultimately show ?thesis unfolding ended_by_def
          by (intro conjI exI [of _ "[TaskStep t]"] exI [of _ rs]) simp_all
      qed
      ultimately have "stepped t w a" using run_item_effect [OF assms(1), of b t item] bs w(1) by (auto simp: stepped_def a_def)
      with True Cons None show ?thesis by (simp add: turn_def a_def b_def)
    qed
  qed
qed

lemma step_effect:
  assumes "observing env" "has_turn t w"
  shows "stepped t w (step env t w)"
proof (cases "t_state (i_txs w t) = Active")
  case False
  with turn_effect [OF assms False] assms(2) show ?thesis by (simp add: step_def Let_def has_turn_def tx_plain_def)
next
  case True
  define b where "b = upd_tx t (\<lambda>x. x\<lparr>t_state := Inactive\<rparr>) w"
  have b: "moved t w b" unfolding b_def by (rule moved_upd) (simp add: same_static_def)
  have l: "turns_left (i_txs b t) < turns_left (i_txs w t)" "i_tasks b = i_tasks w" "t_queue (i_txs b t) = t_queue (i_txs w t)"
    using True by (simp_all add: b_def turns_left_def)
  have h: "has_turn t b" using assms(2) by (auto simp: has_turn_def b_def tx_plain_def)
  have "stepped t w (schedule t b)"
    using moved_trans [OF b moved_schedule] l assms(2) unfolding stepped_def goes_on_def
    by (simp add: schedule_sel b_def has_turn_def turns_left_def)
  moreover have "stepped t w a" if "stepped t b a" for a
    using that b l moved_trans [OF b] moved_start [OF b, of t]
    by (auto simp: stepped_def goes_on_def blocked_def ended_by_def committed_def)
  ultimately show ?thesis
    using True turn_effect [OF assms(1) h] assms(2) by (auto simp: step_def Let_def b_def has_turn_def tx_plain_def)
qed
section \<open>The tasks\<close>

lemma ends_append [simp]: "ends (xs @ ys) = ends xs @ ends ys" "ends [] = []"
  by (simp_all add: ends_def)

lemma ends_one [simp]: "ends (x # xs) = (case x of TaskTxAborted t \<Rightarrow> t # ends xs | _ \<Rightarrow> ends xs)"
  by (simp add: ends_def split: task.split)

lemma ends_none [simp]: "ends (map TaskStep us) = []" "ends (map TaskReqAborted rs) = []"
  by (induction us, simp_all, induction rs, simp_all)

lemma ends_in [simp]: "t \<in> set (ends xs) \<longleftrightarrow> TaskTxAborted t \<in> set xs"
  by (induction xs) (auto split: task.split)

lemma flowingD:
  assumes "flowing w"
  shows "list_all quiet_task (i_tasks w)" "v_waiters (live w k) = []" "distinct (v_txs (live w k))" "finite (alive_txs w)"
    "distinct (ends (i_tasks w))" "TaskTxAborted t \<in> set (i_tasks w) \<Longrightarrow> t \<in> alive_txs w \<and> t_state (i_txs w t) = Finished"
    "TaskStep t \<in> set (i_tasks w) \<Longrightarrow> t \<in> alive_txs w \<or> t_state (i_txs w t) = Finished"
    "t \<in> set (v_txs (live w k)) \<Longrightarrow> t_db (i_txs w t) = k \<and> tx_plain (i_txs w t) \<and> placed_ok w t"
  using assms by (auto simp: flowing_def)

lemma alive_at: "flowing w \<Longrightarrow> t \<in> alive_txs w \<Longrightarrow> t \<in> set (v_txs (live w (t_db (i_txs w t)))) \<and> tx_plain (i_txs w t) \<and> placed_ok w t"
  using flowingD(8) unfolding alive_txs_def by blast

lemma aliveI: "t \<in> set (v_txs (live w k)) \<Longrightarrow> t \<in> alive_txs w"
  by (auto simp: alive_txs_def)

lemma plain_static: "same_static x y \<Longrightarrow> tx_plain x = tx_plain y"
  by (simp add: same_static_def tx_plain_def)

text \<open>A task that moves one transaction.\<close>

lemma flow_moved:
  assumes "flowing w" "i_tasks w = x # xs" "moved t w a" "i_tasks a = xs @ new" "list_all quiet_task new"
    and "\<And>u. x \<noteq> TaskTxAborted u" "\<And>u. x = TaskStep u \<Longrightarrow> u = t" "\<And>u. TaskStep u \<in> set new \<Longrightarrow> u = t"
    and "ends new = [] \<or> ends new = [t] \<and> t_state (i_txs w t) \<noteq> Finished \<and> t_state (i_txs a t) = Finished \<and> t \<in> alive_txs w"
    and "t_state (i_txs w t) = Finished \<Longrightarrow> t_state (i_txs a t) = Finished" "t \<in> alive_txs w \<Longrightarrow> placed_ok a t"
    and "TaskStep t \<in> set new \<Longrightarrow> t \<in> alive_txs w"
  shows "flowing a"
proof -
  note f = flowingD [OF assms(1)]
  have al: "alive_txs a = alive_txs w" by (rule moved_alive [OF assms(3)])
  have v: "v_txs (live a k) = v_txs (live w k)" "v_waiters (live a k) = []" for k using assms(3) f(2) by (simp_all add: moved_def)
  have c: "u \<noteq> t \<Longrightarrow> t_state (i_txs a u) = t_state (i_txs w u) \<and> t_scheduled (i_txs a u) = t_scheduled (i_txs w u)" for u
    using assms(3) by (simp add: moved_def same_course_def)
  have e: "ends xs = ends (i_tasks w)" using assms(2,6) by (simp split: task.split)
  have fin: "t_state (i_txs w u) = Finished \<Longrightarrow> t_state (i_txs a u) = Finished" for u using c assms(10) by (cases "u = t") auto
  have m: "\<lbrakk>u \<noteq> t; y = TaskStep u \<or> y = TaskTxAborted u; y \<in> set (i_tasks w)\<rbrakk> \<Longrightarrow> y \<in> set (i_tasks a)" for u y
    using assms(2,4,6,7) by auto
  have p: "placed_ok a u" if "u \<in> alive_txs w" for u
  proof (cases "u = t")
    case False
    have "placed_ok w u" using alive_at [OF assms(1) that] by simp
    with c [OF False] m [OF False] moved_start [OF assms(3), of u] show ?thesis by (auto simp: placed_ok_def)
  qed (use assms(11) that in simp)
  have st: "t_db (i_txs a u) = t_db (i_txs w u) \<and> tx_plain (i_txs a u) = tx_plain (i_txs w u)" for u
    using assms(3) plain_static [of "i_txs a u"] by (simp add: moved_def same_static_def)
  have "\<forall>k. \<forall>u \<in> set (v_txs (live a k)). t_db (i_txs a u) = k \<and> tx_plain (i_txs a u) \<and> placed_ok a u"
  proof (intro allI ballI)
    fix k u
    assume "u \<in> set (v_txs (live a k))"
    then have "u \<in> set (v_txs (live w k))" by (simp add: v)
    from f(8) [OF this] p [OF aliveI [OF this]] st [of u]
    show "t_db (i_txs a u) = k \<and> tx_plain (i_txs a u) \<and> placed_ok a u" by simp
  qed
  moreover have "TaskStep u \<in> set (i_tasks a) \<Longrightarrow> u \<in> alive_txs a \<or> t_state (i_txs a u) = Finished" for u
  proof -
    assume "TaskStep u \<in> set (i_tasks a)"
    then have "TaskStep u \<in> set (i_tasks w) \<or> u = t \<and> TaskStep t \<in> set new" using assms(8) [of u] by (auto simp: assms(2,4))
    with f(7) [of u] fin [of u] assms(12) show ?thesis by (auto simp: al)
  qed
  moreover have "distinct (ends (i_tasks a))" using assms(9) f(5,6) e by (auto simp: assms(4) ends_in [symmetric] simp del: ends_in)
  moreover have "u \<in> alive_txs a \<and> t_state (i_txs a u) = Finished" if "u \<in> set (ends (i_tasks a))" for u
    using that assms(9) f(6) [of u] e fin al by (auto simp: assms(4) ends_in [symmetric] simp del: ends_in)
  moreover have "list_all quiet_task (i_tasks a)" using f(1) assms(2,4,5) by simp
  ultimately show ?thesis unfolding flowing_def using v f(3,4) al by simp
qed

text \<open>A task after which a transaction has left its database.\<close>

lemma flow_left:
  assumes "flowing w" "i_tasks w = x # xs" "moved t w b" "i_tasks b = xs" "t_state (i_txs b t) = Finished" "left_db t b a"
    and "t \<in> alive_txs w" "x = TaskTxAborted t \<or> x = TaskStep t \<and> t_state (i_txs w t) \<noteq> Finished"
  shows "flowing a" "alive_txs a = alive_txs w - {t}"
proof -
  note f = flowingD [OF assms(1)]
  define k where "k = t_db (i_txs w t)"
  have k: "t \<in> set (v_txs (live w k))" using alive_at [OF assms(1,7)] by (simp add: k_def)
  have kb: "t_db (i_txs b t) = k" using assms(3) by (simp add: moved_def same_static_def k_def)
  define us where "us = remove1 t (v_txs (live w k))"
  have b: "v_txs (live b j) = v_txs (live w j)" for j using assms(3) by (simp add: moved_def)
  have a: "i_tasks a = xs @ map TaskStep (filter (idle_tx b) us)"
    "same_static (i_txs a u) (i_txs b u)" "t_state (i_txs a u) = t_state (i_txs b u)"
    "t_scheduled (i_txs a u) = (t_scheduled (i_txs b u) \<or> u \<in> set us \<and> t_state (i_txs b u) \<noteq> Finished)"
    "v_waiters (live a j) = []" "v_txs (live a j) = (if j = k then us else v_txs (live w j))" for u j
    using assms(6) by (simp_all add: left_db_def kb b us_def assms(4))
  have us: "set us = set (v_txs (live w k)) - {t}" "distinct us" using f(3) by (simp_all add: us_def)
  have other: "t \<notin> set (v_txs (live w j))" if "j \<noteq> k" for j using f(8) [of t j] that by (auto simp: k_def)
  show al: "alive_txs a = alive_txs w - {t}"
  proof -
    have "u \<in> alive_txs a \<longleftrightarrow> u \<in> alive_txs w \<and> u \<noteq> t" for u
    proof
      assume "u \<in> alive_txs a"
      then obtain j where "u \<in> set (if j = k then us else v_txs (live w j))" by (auto simp: alive_txs_def a(6))
      with us(1) other show "u \<in> alive_txs w \<and> u \<noteq> t" by (cases "j = k") (auto simp: alive_txs_def)
    next
      assume "u \<in> alive_txs w \<and> u \<noteq> t"
      then obtain j where "u \<in> set (v_txs (live w j))" "u \<noteq> t" by (auto simp: alive_txs_def)
      then have "u \<in> set (v_txs (live a j))" using us(1) by (auto simp: a(6))
      then show "u \<in> alive_txs a" by (rule aliveI)
    qed
    then show ?thesis by blast
  qed
  have c: "u \<noteq> t \<Longrightarrow> t_state (i_txs b u) = t_state (i_txs w u) \<and> t_scheduled (i_txs b u) = t_scheduled (i_txs w u)" for u
    using assms(3) by (simp add: moved_def same_course_def)
  have fin: "t_state (i_txs w u) = Finished \<Longrightarrow> t_state (i_txs a u) = Finished" for u using c a(3) assms(5) by (cases "u = t") auto
  have st: "t_db (i_txs a u) = t_db (i_txs w u) \<and> tx_plain (i_txs a u) = tx_plain (i_txs w u) \<and>
      t_mode (i_txs a u) = t_mode (i_txs w u) \<and> t_scope (i_txs a u) = t_scope (i_txs w u)" for u
    using assms(3) a(2) [of u] by (auto simp: moved_def same_static_def tx_plain_def)
  have no: "TaskTxAborted t \<notin> set xs"
    using assms(8) f(5) f(6) [of t] by (auto simp: assms(2))
  have m: "u \<noteq> t \<Longrightarrow> y = TaskStep u \<or> y = TaskTxAborted u \<Longrightarrow> y \<in> set (i_tasks w) \<Longrightarrow> y \<in> set (i_tasks a)" for u y
    using assms(8) by (auto simp: assms(2) a(1))
  have p: "placed_ok a u" if u: "u \<in> set (v_txs (live a j))" for u j
  proof -
    have w: "u \<noteq> t" "u \<in> set (v_txs (live w j))" using u us(1) other by (auto simp: a(6) split: if_splits)
    then have pw: "placed_ok w u" "t_db (i_txs w u) = j" using f(8) by auto
    show ?thesis
    proof (cases "j = k \<and> idle_tx b u")
      case True
      then have "u \<in> set us" using u by (simp add: a(6))
      with True show ?thesis by (auto simp: placed_ok_def a(3,4) idle_tx_def a(1))
    next
      case False
      have "can_start a u = can_start w u" if "j \<noteq> k"
        using start_ok_cong [of a w u] st that pw(2) by (simp add: can_start_def a(6))
      moreover have "u \<in> set us \<Longrightarrow> t_db (i_txs w u) = k" using us(1) f(8) [of u k] by simp
      ultimately show ?thesis using False pw w(1) u c [of u] m [of u]
        by (auto simp: placed_ok_def a(3,4,6) idle_tx_def split: if_splits)
    qed
  qed
  have "TaskStep u \<in> set (i_tasks a) \<Longrightarrow> u \<in> alive_txs a \<or> t_state (i_txs a u) = Finished" for u
  proof -
    assume "TaskStep u \<in> set (i_tasks a)"
    then have "TaskStep u \<in> set (i_tasks w) \<or> u \<in> set us" by (auto simp: a(1) assms(2))
    with f(7) [of u] fin us(1) al aliveI [of u w k] a(3) [of t] assms(5) show ?thesis by (cases "u = t") auto
  qed
  moreover have "distinct (ends (i_tasks a))" using f(5) by (simp add: a(1) assms(2) split: task.splits)
  moreover have "u \<in> alive_txs a \<and> t_state (i_txs a u) = Finished" if "u \<in> set (ends (i_tasks a))" for u
  proof -
    have x: "TaskTxAborted u \<in> set xs" using that by (auto simp: a(1))
    then have "u \<noteq> t" using no by auto
    with x f(6) [of u] fin al show ?thesis by (simp add: assms(2))
  qed
  moreover have "list_all quiet_task (i_tasks a)" using f(1) by (auto simp: a(1) assms(2) quiet_task_def list_all_iff)
  moreover have "\<forall>j. \<forall>u \<in> set (v_txs (live a j)). t_db (i_txs a u) = j \<and> tx_plain (i_txs a u) \<and> placed_ok a u"
    using p st f(8) us(1) by (auto simp: a(6) split: if_splits)
  ultimately show "flowing a" unfolding flowing_def using a(5,6) f(3,4) us(2) al by simp
qed

text \<open>What a task leaves to do.\<close>

lemma less_left: "(s'::nat) + d \<le> s \<Longrightarrow> l' < l + (n + 2) * d \<Longrightarrow> (n + 2) * s' + l' < (n + 2) * s + l"
proof -
  assume a: "s' + d \<le> s" "l' < l + (n + 2) * d"
  have "(n + 2) * s' + (n + 2) * d \<le> (n + 2) * s" using mult_le_mono2 [OF a(1), of "n + 2"] by (simp add: distrib_left)
  with a(2) show ?thesis by linarith
qed

lemma turns_moved: "moved t w a \<Longrightarrow> u \<noteq> t \<Longrightarrow> turns_left (i_txs a u) = turns_left (i_txs w u)"
  by (simp add: moved_def same_course_def turns_left_def)

lemma potential_moved:
  assumes "moved t w a" "finite (alive_txs w)" "t \<in> alive_txs w" "turns_left (i_txs a t) + d \<le> turns_left (i_txs w t)"
    and "length (i_tasks a) < length (i_tasks w) + (n + 2) * d"
  shows "potential n a < potential n w"
proof -
  have al: "alive_txs a = alive_txs w" by (rule moved_alive [OF assms(1)])
  have "(\<Sum>u \<in> alive_txs w. turns_left (i_txs v u)) = turns_left (i_txs v t) + (\<Sum>u \<in> alive_txs w - {t}. turns_left (i_txs v u))" for v :: "'a idb"
    using assms(2,3) by (rule sum.remove)
  moreover have "(\<Sum>u \<in> alive_txs w - {t}. turns_left (i_txs a u)) = (\<Sum>u \<in> alive_txs w - {t}. turns_left (i_txs w u))"
    using turns_moved [OF assms(1)] by (intro sum.cong) auto
  ultimately have "(\<Sum>u \<in> alive_txs w. turns_left (i_txs a u)) + d \<le> (\<Sum>u \<in> alive_txs w. turns_left (i_txs w u))"
    using assms(4) by simp
  from less_left [OF this assms(5)] show ?thesis by (simp add: potential_def al)
qed

lemma potential_left:
  assumes "moved t w b" "left_db t b a" "finite (alive_txs w)" "t \<in> alive_txs w" "alive_txs a = alive_txs w - {t}"
    and "length (i_tasks a) < length (i_tasks w) + (n + 2) * turns_left (i_txs w t)"
  shows "potential n a < potential n w"
proof -
  have "turns_left (i_txs a u) = turns_left (i_txs w u)" if "u \<noteq> t" for u
  proof -
    have "t_state (i_txs a u) = t_state (i_txs b u)" "t_queue (i_txs a u) = t_queue (i_txs b u)" using assms(2) by (simp_all add: left_db_def)
    then have "turns_left (i_txs a u) = turns_left (i_txs b u)" by (simp add: turns_left_def)
    with turns_moved [OF assms(1) that] show ?thesis by simp
  qed
  then have "(\<Sum>u \<in> alive_txs w - {t}. turns_left (i_txs a u)) = (\<Sum>u \<in> alive_txs w - {t}. turns_left (i_txs w u))"
    by (intro sum.cong) auto
  moreover have "(\<Sum>u \<in> alive_txs w. turns_left (i_txs w u)) = turns_left (i_txs w t) + (\<Sum>u \<in> alive_txs w - {t}. turns_left (i_txs w u))"
    using assms(3,4) by (rule sum.remove)
  ultimately have "(\<Sum>u \<in> alive_txs w - {t}. turns_left (i_txs a u)) + turns_left (i_txs w t) \<le> (\<Sum>u \<in> alive_txs w. turns_left (i_txs w u))" by simp
  from less_left [OF this assms(6)] show ?thesis by (simp add: potential_def assms(5))
qed

lemma left_tasks:
  assumes "flowing w" "left_db t b a" "moved t w b" "t \<in> alive_txs w" "card (alive_txs w) \<le> n"
  shows "length (i_tasks a) \<le> length (i_tasks b) + n"
proof -
  define us where "us = remove1 t (v_txs (live b (t_db (i_txs b t))))"
  have "distinct us" "set us \<subseteq> alive_txs w" using flowingD(3) [OF assms(1)] assms(3) set_remove1_subset [of t]
    by (auto simp: us_def moved_def alive_txs_def)
  then have "length us \<le> n" using card_mono [OF flowingD(4) [OF assms(1)], of "set us"] assms(5) by (simp add: distinct_card)
  moreover have "i_tasks a = i_tasks b @ map TaskStep (filter (idle_tx b) us)" using assms(2) by (simp add: left_db_def us_def)
  ultimately show ?thesis using le_trans [OF length_filter_le [of "idle_tx b" us]] by simp
qed

text \<open>The invariant, and that less is left.\<close>

definition advances :: "nat \<Rightarrow> 'p idb \<Rightarrow> 'p idb \<Rightarrow> bool" where
  "advances n w a = (flowing a \<and> i_next w \<le> i_next a \<and> potential n a < potential n w \<and> alive_txs a \<subseteq> alive_txs w \<and>
     (\<forall>u. t_state (i_txs w u) = Finished \<longrightarrow> t_state (i_txs a u) = Finished) \<and>
     (\<forall>u \<in> alive_txs w - alive_txs a. t_state (i_txs a u) = Finished))"

lemma moved_finished: "moved t w a \<Longrightarrow> u \<noteq> t \<Longrightarrow> t_state (i_txs a u) = t_state (i_txs w u)"
  by (simp add: moved_def same_course_def)

lemma advances_moved:
  assumes "flowing a" "potential n a < potential n w" "moved t w a" "t_state (i_txs w t) = Finished \<Longrightarrow> t_state (i_txs a t) = Finished"
  shows "advances n w a"
proof -
  have "t_state (i_txs w u) = Finished \<Longrightarrow> t_state (i_txs a u) = Finished" for u
    using assms(4) moved_finished [OF assms(3), of u] by (cases "u = t") simp_all
  with assms(1-3) show ?thesis unfolding advances_def moved_alive [OF assms(3)] by (simp add: moved_def)
qed

lemma advances_left:
  assumes "flowing w" "i_tasks w = x # xs" "moved t w b" "i_tasks b = xs" "t_state (i_txs b t) = Finished" "left_db t b a"
    and "t \<in> alive_txs w" "x = TaskTxAborted t \<or> x = TaskStep t \<and> t_state (i_txs w t) \<noteq> Finished" "card (alive_txs w) \<le> n"
  shows "advances n w a"
proof -
  note l = flow_left [OF assms(1-8)]
  have "length (i_tasks a) < length (i_tasks w) + n" using left_tasks [OF assms(1,6,3,7,9)] assms(2,4) by simp
  moreover have "1 \<le> turns_left (i_txs w t)" by (simp add: turns_left_def)
  from mult_le_mono2 [OF this, of "n + 2"] have "n + 2 \<le> (n + 2) * turns_left (i_txs w t)" by simp
  ultimately have p: "potential n a < potential n w"
    by (intro potential_left [OF assms(3,6) flowingD(4) [OF assms(1)] assms(7) l(2)]) linarith
  have s: "t_state (i_txs a u) = (if u = t then Finished else t_state (i_txs w u))" for u
    using assms(5,6) moved_finished [OF assms(3), of u] by (simp add: left_db_def)
  have "i_next w \<le> i_next a" using assms(3,6) by (simp add: left_db_def moved_def)
  then show ?thesis unfolding advances_def l(2) using l(1) p s by auto
qed

lemma advances_idle:
  assumes "flowing w" "i_tasks w = x # xs" "\<And>u. x \<noteq> TaskTxAborted u" "\<And>u. x = TaskStep u \<Longrightarrow> u = t \<and> t_state (i_txs w t) = Finished"
    and "moved t w a" "i_tasks a = xs" "t_state (i_txs a t) = t_state (i_txs w t)" "t_queue (i_txs a t) = t_queue (i_txs w t)"
    and "t_state (i_txs w t) \<noteq> Finished \<Longrightarrow> t_scheduled (i_txs a t) = t_scheduled (i_txs w t)"
  shows "advances n w a"
proof -
  have p: "placed_ok a t" if "t \<in> alive_txs w"
  proof -
    have "placed_ok w t" using alive_at [OF assms(1) that] by simp
    with assms(2,6,7,9) assms(3) [of t] assms(4) [of t] moved_start [OF assms(5), of t] show ?thesis
      by (cases "t_state (i_txs w t) = Finished") (auto simp: placed_ok_def)
  qed
  have f: "flowing a"
    by (rule flow_moved [where new = "[]", OF assms(1,2,5)]) (use assms(3,4,6,7) p in auto)
  have "turns_left (i_txs a u) = turns_left (i_txs w u)" for u
    using turns_moved [OF assms(5)] assms(7,8) by (cases "u = t") (simp_all add: turns_left_def)
  then have "potential n a < potential n w" using assms(2,6) by (simp add: potential_def moved_alive [OF assms(5)])
  then show ?thesis by (rule advances_moved [OF f _ assms(5)]) (simp only: assms(7))
qed

text \<open>A task that only tells the page about something.\<close>

definition tells :: "'p idb \<Rightarrow> 'p idb \<Rightarrow> bool" where
  "tells w a = (i_next a = i_next w \<and> i_txs a = i_txs w \<and> i_tasks a = i_tasks w \<and> live a = live w)"

lemma tells_event: "observing env \<Longrightarrow> tells w (fst (dispatch_at env path ev (upd_req r f w)))" "observing env \<Longrightarrow> tells w (fst (dispatch_at env path ev w))"
  using observed(1,2,3,5) [of env] by (simp_all add: tells_def fun_eq_iff)

lemma tells_task:
  assumes "observing env" "quiet_task x" "\<And>t. x \<noteq> TaskStep t" "\<And>t. x \<noteq> TaskTxAborted t"
  shows "tells w (run_task env x w)"
proof (cases x)
  case (TaskPage n)
  obtain p hp where "a_timer env n w = w\<lparr>i_page := p, i_heap := hp\<rparr>" using assms(1) unfolding observing_def by meson
  then show ?thesis by (simp add: TaskPage tells_def fun_eq_iff)
qed (use assms in \<open>auto simp: quiet_task_def open_answer_def req_aborted_def version_event_def Let_def tells_event split: sum.split\<close>)

lemma advances_step:
  assumes "observing env" "flowing w" "i_tasks w = TaskStep t # xs" "card (alive_txs w) \<le> n" "t_state (i_txs w t) \<noteq> Finished"
  shows "advances n w (run_next env w)"
proof -
  define b where "b = upd_tx t (\<lambda>x. x\<lparr>t_scheduled := False\<rparr>) (w\<lparr>i_tasks := xs\<rparr>)"
  define a where "a = step env t b"
  have r: "run_next env w = a" by (simp add: run_next_def assms(3) a_def b_def)
  note f = flowingD [OF assms(2)]
  have al: "t \<in> alive_txs w" using f(7) [of t] assms(3,5) by simp
  have b: "moved t w b" unfolding b_def by (intro moved_trans [OF moved_frame(5) moved_upd]) (simp add: same_static_def)
  have bt: "i_tasks b = xs" "turns_left (i_txs b t) = turns_left (i_txs w t)" "t_queue (i_txs b t) = t_queue (i_txs w t)"
    by (simp_all add: b_def turns_left_def)
  have "has_turn t b" using alive_at [OF assms(2) al] f(2,3) assms(5) by (auto simp: has_turn_def b_def tx_plain_def)
  from step_effect [OF assms(1) this] consider "goes_on t b a" | "blocked t b a" | "ended_by t b a" | "committed t b a"
    by (auto simp: stepped_def a_def)
  then have "advances n w a"
  proof cases
    case 1
    then have g: "moved t w a" "t_state (i_txs a t) \<noteq> Finished" "t_scheduled (i_txs a t)" "i_tasks a = xs @ [TaskStep t]"
      "turns_left (i_txs a t) < turns_left (i_txs w t)"
      using moved_trans [OF b] by (simp_all add: goes_on_def bt)
    have "flowing a" by (rule flow_moved [OF assms(2,3) g(1,4)]) (use g al assms(5) in \<open>auto simp: quiet_task_def placed_ok_def\<close>)
    moreover have "potential n a < potential n w"
      by (rule potential_moved [where d = 1, OF g(1) f(4) al]) (use g(4,5) assms(3) in simp_all)
    ultimately show "advances n w a" by (rule advances_moved [OF _ _ g(1)]) (use assms(5) in simp)
  next
    case 2
    then have g: "moved t w a" "t_state (i_txs a t) \<noteq> Finished" "\<not> t_scheduled (i_txs a t)" "i_tasks a = xs"
      "turns_left (i_txs a t) \<le> turns_left (i_txs w t)" "\<not> can_start b t"
      using moved_trans [OF b] by (simp_all add: blocked_def bt)
    have "\<not> can_start a t" using g(6) moved_start [OF b, of t] moved_start [OF g(1), of t] by simp
    then have "flowing a"
      by (intro flow_moved [where new = "[]" and a = a, OF assms(2,3) g(1)]) (use g assms(5) in \<open>auto simp: placed_ok_def\<close>)
    moreover have "potential n a < potential n w"
      by (rule potential_moved [where d = 0, OF g(1) f(4) al]) (use g(4,5) assms(3) in simp_all)
    ultimately show "advances n w a" by (rule advances_moved [OF _ _ g(1)]) (use assms(5) in simp)
  next
    case 3
    then obtain new rs where g: "moved t w a" "t_state (i_txs a t) = Finished" "new = [] \<or> new = [TaskStep t]"
      "length rs \<le> Suc (length (t_queue (i_txs w t)))" "i_tasks a = xs @ new @ map TaskReqAborted rs @ [TaskTxAborted t]"
      using moved_trans [OF b] by (auto simp: ended_by_def bt)
    have "flowing a"
      by (rule flow_moved [OF assms(2,3) g(1,5)]) (use g al assms(5) in \<open>auto simp: quiet_task_def placed_ok_def list_all_iff\<close>)
    moreover have "potential n a < potential n w"
    proof (rule potential_moved [OF g(1) f(4) al])
      show "turns_left (i_txs a t) + (4 * length (t_queue (i_txs w t)) + 2) \<le> turns_left (i_txs w t)"
        using g(2) assms(5) by (simp add: turns_left_def)
      have l: "length (i_tasks a) \<le> length (i_tasks w) + length (t_queue (i_txs w t)) + 2" using g(3-5) assms(3) by auto
      define m where "m = (n + 2) * (4 * length (t_queue (i_txs w t)) + 2)"
      have "2 * (4 * length (t_queue (i_txs w t)) + 2) \<le> m" unfolding m_def by (rule mult_le_mono1) simp
      with l have "length (i_tasks a) < length (i_tasks w) + m" by simp
      then show "length (i_tasks a) < length (i_tasks w) + (n + 2) * (4 * length (t_queue (i_txs w t)) + 2)" by (simp only: m_def)
    qed
    ultimately show "advances n w a" by (rule advances_moved [OF _ _ g(1)]) (use g(2) in simp)
  next
    case 4
    then obtain c where c: "moved t w c" "i_tasks c = xs" "t_state (i_txs c t) = Finished" "left_db t c a"
      using moved_trans [OF b] by (auto simp: committed_def bt)
    show "advances n w a" by (rule advances_left [OF assms(2,3) c al _ assms(4)]) (use assms(5) in simp)
  qed
  then show ?thesis by (simp add: r)
qed

theorem next_advances:
  assumes "observing env" "flowing w" "i_tasks w \<noteq> []" "card (alive_txs w) \<le> n"
  shows "advances n w (run_next env w)"
proof -
  obtain x xs where x: "i_tasks w = x # xs" using assms(3) by (cases "i_tasks w") auto
  note f = flowingD [OF assms(2)]
  consider (step) t where "x = TaskStep t" | (ends) t where "x = TaskTxAborted t" | (tells) "\<And>t. x \<noteq> TaskStep t" "\<And>t. x \<noteq> TaskTxAborted t"
    by (cases x) auto
  then show ?thesis
  proof cases
    case step
    show ?thesis
    proof (cases "t_state (i_txs w t) = Finished")
      case True
      then have r: "run_next env w = upd_tx t (\<lambda>x. x\<lparr>t_scheduled := False\<rparr>) (w\<lparr>i_tasks := xs\<rparr>)"
        by (simp add: run_next_def x step step_def Let_def)
      have "moved t w (run_next env w)" unfolding r by (intro moved_trans [OF moved_frame(5) moved_upd]) (simp add: same_static_def)
      then show ?thesis by (intro advances_idle [OF assms(2) x]) (use step True r in auto)
    qed (use advances_step [OF assms(1,2) _ assms(4)] x step in simp)
  next
    case ends
    have t: "t \<in> alive_txs w" "t_state (i_txs w t) = Finished" using f(6) [of t] x ends by simp_all
    have p: "t_mode (i_txs w t) \<noteq> VersionChange" "t_on_finish (i_txs w t) = []" "t \<in> set (v_txs (live w (t_db (i_txs w t))))"
      using alive_at [OF assms(2) t(1)] by (simp_all add: tx_plain_def)
    define v where "v = w\<lparr>i_tasks := xs\<rparr>"
    define b where "b = (let w2 = fst (dispatch_at env (tx_path v t) EvAbort v) in case t_open_req (i_txs w2 t) of None \<Rightarrow> w2
        | Some r \<Rightarrow> upd_req r (\<lambda>q. q\<lparr>q_tx := None, q_result := ResUndef, q_error := Some (DomErr ''AbortError''), q_done := False\<rparr>) w2)"
    have e: "run_next env w = finalize_tx t b" using p(1) by (simp add: run_next_def x ends tx_aborted_def Let_def b_def v_def)
    have "moved t v (fst (dispatch_at env (tx_path v t) EvAbort v))" by (rule observed(4) [OF assms(1)])
    then have m: "moved t w b" using moved_frame(5) [of t w xs] by (auto simp: b_def v_def Let_def split: option.split intro: moved_trans moved_frame)
    have b: "i_tasks b = xs" "i_txs b = i_txs w" "live b k = live w k" for k
      using observed(1,2,3) [OF assms(1)] by (simp_all add: b_def v_def Let_def split: option.split)
    have "left_db t b (finalize_tx t b)" by (rule finalize_effect) (use p f(2,3) in \<open>simp_all add: b\<close>)
    then show ?thesis unfolding e by (intro advances_left [OF assms(2) x m b(1) _ _ t(1) _ assms(4)]) (use t ends b in simp_all)
  next
    case tells
    have q: "quiet_task x" using f(1) x by simp
    have "tells (w\<lparr>i_tasks := xs\<rparr>) (run_next env w)" using tells_task [OF assms(1) q tells] by (simp add: run_next_def x)
    then have r: "i_txs (run_next env w) = i_txs w" "i_tasks (run_next env w) = xs" "live (run_next env w) = live w" "i_next (run_next env w) = i_next w"
      by (simp_all add: tells_def fun_eq_iff)
    have "moved t w (run_next env w)" for t by (rule moved_same) (simp_all add: r course_refl)
    then show ?thesis by (intro advances_idle [OF assms(2) x]) (use tells r in auto)
  qed
qed

text \<open>Where no task is left, every transaction has left its database: the first in a list is never blocked.\<close>

lemma flowing_done:
  assumes "flowing w" "i_tasks w = []"
  shows "alive_txs w = {}"
proof -
  have "v_txs (live w k) = []" for k
  proof (cases "v_txs (live w k)")
    case (Cons t us)
    have "t_db (i_txs w t) = k" "placed_ok w t" using flowingD(8) [OF assms(1), of t k] Cons by simp_all
    with Cons assms(2) show ?thesis by (auto simp: placed_ok_def can_start_def split: if_splits)
  qed
  then show ?thesis by (simp add: alive_txs_def)
qed

section \<open>States that calls and tasks lead to\<close>

text \<open>
  The page begins transactions on connections to live databases, places requests in transactions that are not
  finished, and commits and aborts them; in between, tasks run.
\<close>

inductive tx_course :: "'p idb_env \<Rightarrow> 'p idb \<Rightarrow> bool" for env where
  course_start: "i_tasks w = [] \<Longrightarrow> \<forall>k. v_txs (live w k) = [] \<and> v_waiters (live w k) = [] \<Longrightarrow> tx_course env w"
| course_begin: "tx_course env w \<Longrightarrow> i_live w (n_db (i_conns w c)) \<noteq> None \<Longrightarrow> tx_course env (fst (db_transaction env c names m dur w))"
| course_request: "tx_course env w \<Longrightarrow> t \<in> alive_txs w \<Longrightarrow> t_state (i_txs w t) \<noteq> Finished \<Longrightarrow> tx_course env (fst (execute src t op req w))"
| course_commit: "tx_course env w \<Longrightarrow> t \<in> alive_txs w \<Longrightarrow> tx_course env (fst (tx_commit t w))"
| course_abort: "tx_course env w \<Longrightarrow> t \<in> alive_txs w \<Longrightarrow> tx_course env (fst (tx_abort t w))"
| course_task: "tx_course env w \<Longrightarrow> tx_course env (run_next env w)"

definition flows :: "'p idb \<Rightarrow> bool" where
  "flows w = (flowing w \<and> alive_txs w \<subseteq> {..<i_next w})"

text \<open>A call that moves one transaction, seen as a task.\<close>

lemma flows_call:
  assumes "flows w" "moved t w a" "i_tasks a = i_tasks w @ new" "list_all quiet_task new"
    and "\<And>u. TaskStep u \<in> set new \<Longrightarrow> u = t" "t \<in> alive_txs w"
    and "ends new = [] \<or> ends new = [t] \<and> t_state (i_txs w t) \<noteq> Finished \<and> t_state (i_txs a t) = Finished"
    and "t_state (i_txs w t) = Finished \<Longrightarrow> t_state (i_txs a t) = Finished" "placed_ok a t"
  shows "flows a"
proof -
  let ?w = "w\<lparr>i_tasks := TaskPage 0 # i_tasks w\<rparr>"
  have c: "can_start ?w u = can_start w u" for u by (rule moved_start [OF moved_frame(5)])
  have al: "alive_txs ?w = alive_txs w" by (simp add: alive_txs_def)
  have f: "flowing w" using assms(1) by (simp add: flows_def)
  have "placed_ok w u \<Longrightarrow> placed_ok ?w u" for u by (auto simp: placed_ok_def c)
  with f have "flowing ?w" unfolding flowing_def al by (auto simp: quiet_task_def)
  moreover have "i_tasks ?w = TaskPage 0 # i_tasks w" by simp
  moreover have "moved t ?w a" using assms(2) by (auto simp: moved_def)
  ultimately have "flowing a"
  proof (rule flow_moved [OF _ _ _ assms(3,4)])
    show "TaskStep u \<in> set new \<Longrightarrow> u = t" for u by (rule assms(5))
    show "ends new = [] \<or> ends new = [t] \<and> t_state (i_txs ?w t) \<noteq> Finished \<and> t_state (i_txs a t) = Finished \<and> t \<in> alive_txs ?w"
      using assms(6,7) by (simp add: al)
    show "t_state (i_txs ?w t) = Finished \<Longrightarrow> t_state (i_txs a t) = Finished" using assms(8) by simp
  qed (use assms(6,9) in \<open>simp_all add: al\<close>)
  moreover have "alive_txs a = alive_txs w" "i_next w \<le> i_next a" using moved_alive [OF assms(2)] assms(2) by (simp_all add: moved_def)
  ultimately show ?thesis using assms(1) by (auto simp: flows_def)
qed

lemma flows_begin:
  assumes "flows w" "i_live w (n_db (i_conns w c)) \<noteq> None" "mode \<noteq> VersionChange"
    and a: "a = schedule (i_next w) (fst (create_tx c mode sc dur w))"
  shows "flows a"
proof -
  define t where "t = i_next w"
  define k where "k = n_db (i_conns w c)"
  have f: "flowing w" "alive_txs w \<subseteq> {..<t}" using assms(1) by (simp_all add: flows_def t_def)
  note fl = flowingD [OF f(1)]
  have tx: "i_txs a u = (if u = t then (new_tx c k mode sc dur)\<lparr>t_scheduled := True, t_seq := i_seq w + 1\<rparr> else i_txs w u)" for u
    by (simp add: a schedule_def Let_def txs_create t_def k_def new_tx_def) (simp add: later_def create_tx_def Let_def upd_conn_def upd_live_def upd_tx_def)
  have lv: "v_txs (live a j) = (if j = k then v_txs (live w k) @ [t] else v_txs (live w j))" "v_waiters (live a j) = v_waiters (live w j)" for j
    using assms(2) by (auto simp: a schedule_def Let_def live_create k_def t_def)
  have ta: "i_tasks a = i_tasks w @ [TaskStep t]" by (simp add: a schedule_def Let_def txs_create new_tx_def t_def)
  have al: "alive_txs a = insert t (alive_txs w)" by (auto simp: alive_txs_def lv split: if_splits)
  have new: "t \<notin> alive_txs w" using f(2) by auto
  have s: "start_ok a u us = start_ok w u us" if "t \<notin> set us" "u \<noteq> t" for u us
    using that by (induction us) (auto simp: conflicting_def overlaps_def tx)
  have e: "start_ok a u (us @ vs) = start_ok a u us" if "u \<in> set us" for u us vs using that by (induction us) auto
  have p: "placed_ok a u" if u: "u \<in> set (v_txs (live w j))" for u j
  proof -
    have n: "u \<noteq> t" using aliveI [OF u] new by auto
    have "t \<notin> set (v_txs (live w j))" using aliveI [of t w j] new by auto
    then have "can_start a u = can_start w u"
      using fl(8) [OF u] n u s [of "v_txs (live w j)" u] e [of u "v_txs (live w j)" "[t]"] by (auto simp: can_start_def tx lv)
    with fl(8) [OF u] n show ?thesis by (auto simp: placed_ok_def tx ta)
  qed
  have "placed_ok a t" by (simp add: placed_ok_def tx ta new_tx_def)
  moreover have "tx_plain (i_txs a t)" "t_db (i_txs a t) = k" using assms(3) by (simp_all add: tx tx_plain_def new_tx_def)
  ultimately have "\<forall>j. \<forall>u \<in> set (v_txs (live a j)). t_db (i_txs a u) = j \<and> tx_plain (i_txs a u) \<and> placed_ok a u"
    using p fl(8) new by (auto simp: lv tx dest: aliveI split: if_splits)
  moreover have "\<forall>u. TaskStep u \<in> set (i_tasks a) \<longrightarrow> u \<in> alive_txs a \<or> t_state (i_txs a u) = Finished"
    using fl(7) by (auto simp: ta al tx)
  moreover have "\<forall>u \<in> set (ends (i_tasks a)). u \<in> alive_txs a \<and> t_state (i_txs a u) = Finished"
    using fl(6) new by (auto simp: ta al tx)
  moreover have "\<forall>j. v_waiters (live a j) = [] \<and> distinct (v_txs (live a j))" using fl(2,3) aliveI [of t w k] new by (auto simp: lv)
  moreover have "distinct (ends (i_tasks a))" "list_all quiet_task (i_tasks a)" "finite (alive_txs a)"
    using fl(1,4,5) by (simp_all add: ta al quiet_task_def)
  ultimately have "flowing a" unfolding flowing_def by blast
  moreover have "t < i_next a" by (simp add: a schedule_def Let_def t_def)
  moreover have "i_next w \<le> i_next a" by (simp add: a schedule_def Let_def)
  ultimately show ?thesis using f(2) unfolding flows_def al t_def by auto
qed

lemma flows_execute:
  assumes "flows w" "t \<in> alive_txs w" "t_state (i_txs w t) \<noteq> Finished"
  shows "flows (fst (execute src t op req w))"
proof -
  obtain w1 r where r: "(case req of None \<Rightarrow> new_request src (Some t) w | Some r \<Rightarrow> (w, r)) = (w1, r)" by fastforce
  have w1: "moved t w w1" "i_txs w1 = i_txs w" "i_tasks w1 = i_tasks w"
    using r by (auto simp: new_request_def live_def course_refl split: option.splits intro!: moved_same)
  define b where "b = upd_tx t (\<lambda>x. x\<lparr>t_queue := t_queue x @ [(Some r, op)]\<rparr>) (upd_req r (\<lambda>q. q\<lparr>q_tx := Some t\<rparr>) w1)"
  have "moved t w1 b" unfolding b_def by (intro moved_trans [OF moved_frame(1) moved_upd]) (simp add: same_static_def)
  then have b: "moved t w b" "i_tasks b = i_tasks w" "t_state (i_txs b t) = t_state (i_txs w t)" "t_scheduled (i_txs b t) = t_scheduled (i_txs w t)"
    using w1 by (auto simp: b_def intro: moved_trans)
  have e: "fst (execute src t op req w) = schedule t b" by (simp add: execute_def r b_def)
  have p: "placed_ok w t" using alive_at assms(1,2) by (auto simp: flows_def)
  show ?thesis unfolding e
    by (rule flows_call [where new = "if t_scheduled (i_txs w t) then [] else [TaskStep t]", OF assms(1) moved_trans [OF b(1) moved_schedule]])
       (use b p assms(2,3) in \<open>auto simp: schedule_sel quiet_task_def placed_ok_def split: if_splits\<close>)
qed

lemma flows_commit:
  assumes "flows w" "t \<in> alive_txs w"
  shows "flows (fst (tx_commit t w))"
proof (cases "t_state (i_txs w t) = Active")
  case True
  define b where "b = upd_tx t (\<lambda>x. x\<lparr>t_state := Committing\<rparr>) w"
  have b: "moved t w b" unfolding b_def by (rule moved_upd) (simp add: same_static_def)
  have e: "fst (tx_commit t w) = schedule t b" using True by (simp add: tx_commit_def guard_def b_def)
  have p: "placed_ok w t" using alive_at assms(1,2) by (auto simp: flows_def)
  show ?thesis unfolding e
    by (rule flows_call [where new = "if t_scheduled (i_txs w t) then [] else [TaskStep t]", OF assms(1) moved_trans [OF b moved_schedule]])
       (use p assms(2) True in \<open>auto simp: b_def schedule_sel quiet_task_def placed_ok_def split: if_splits\<close>)
qed (use assms(1) in \<open>simp add: tx_commit_def guard_def\<close>)

lemma flows_abort:
  assumes "flows w" "t \<in> alive_txs w"
  shows "flows (fst (tx_abort t w))"
proof (cases "t_state (i_txs w t) = Committing \<or> t_state (i_txs w t) = Finished")
  case False
  have e: "fst (tx_abort t w) = abort_tx t None w" using False by (simp add: tx_abort_def guard_def)
  have m: "t_mode (i_txs w t) \<noteq> VersionChange" using alive_at assms by (auto simp: flows_def tx_plain_def)
  have u: "t_state (i_txs w t) \<noteq> Finished" using False by simp
  obtain rs where rs: "i_tasks (abort_tx t None w) = i_tasks w @ map TaskReqAborted rs @ [TaskTxAborted t]"
    using abort_effect(3) [OF u m, of None] by blast
  show ?thesis unfolding e
    by (rule flows_call [OF assms(1) abort_effect(1) [OF u m] rs])
       (use u abort_effect(2) [OF u m] assms(2) rs in \<open>auto simp: quiet_task_def placed_ok_def list_all_iff\<close>)
qed (use assms(1) in \<open>auto simp: tx_abort_def guard_def\<close>)

lemma flows_next: "observing env \<Longrightarrow> flows w \<Longrightarrow> flows (run_next env w)"
proof (cases "i_tasks w = []")
  case False
  assume "observing env" "flows w"
  with next_advances [of env w "card (alive_txs w)"] False show ?thesis by (auto simp: flows_def advances_def)
qed (simp add: run_next_def)

theorem course_flows: "tx_course env w \<Longrightarrow> observing env \<Longrightarrow> flows w"
proof (induction rule: tx_course.induct)
  case (course_start w)
  then show ?case by (auto simp: flows_def flowing_def alive_txs_def)
next
  case (course_begin w c names m dur)
  have "flows (schedule t w1)" if "create_tx c mode sc d w = (w1, t)" "mode \<noteq> VersionChange" for mode sc d w1 t
  proof (rule flows_begin [OF course_begin.IH [OF course_begin.prems] course_begin.hyps(2) that(2)])
    have "t = i_next w" using that(1) by (auto simp: create_tx_def Let_def)
    then show "schedule t w1 = schedule (i_next w) (fst (create_tx c mode sc d w))" using that(1) by simp
  qed
  with course_begin show ?case by (auto simp: db_transaction_def Let_def check_def guard_def split: sum.split prod.split)
qed (auto intro: flows_execute flows_commit flows_abort flows_next)

end
