(* ===== verification/IdbCursorLaws.thy ===== *)
theory IdbCursorLaws
  imports IdbCursor IdbStoreLaws
begin

text \<open>
  Cursors enumerate what \<open>getAll\<close> collects: a seek finds the first (last) row of the range beyond the
  position, so that repeated moves visit the rows of the range one after another.
\<close>

section \<open>A seek as a search in a list\<close>

definition beyond :: "key option \<Rightarrow> key option \<Rightarrow> row \<Rightarrow> bool" where
  "beyond pos osp r = (case pos of None \<Rightarrow> True | Some p \<Rightarrow> cmp_row r p osp > 0)"

definition short_of :: "key option \<Rightarrow> key option \<Rightarrow> row \<Rightarrow> bool" where
  "short_of pos osp r = (case pos of None \<Rightarrow> True | Some p \<Rightarrow> cmp_row r p osp < 0)"

definition first_of :: "'a list \<Rightarrow> 'a option" where
  "first_of xs = (case xs of [] \<Rightarrow> None | x # _ \<Rightarrow> Some x)"

lemma first_of_simps [simp]: "first_of [] = None" "first_of (x # xs) = Some x"
  by (simp_all add: first_of_def)

lemma first_segment: "e \<le> length xs \<Longrightarrow> first_of (segment xs s e) = (if s < e then Some (xs ! s) else None)"
  by (simp add: segment_Cons)

lemma last_segment: "e \<le> length xs \<Longrightarrow> first_of (rev (segment xs s e)) = (if s < e then Some (xs ! (e - 1)) else None)"
  using segment_snoc [of s "e - 1" xs] by (cases e) (auto simp: not_less)

lemma key_le: "a \<in> set xs \<Longrightarrow> b \<in> set ys \<Longrightarrow> rows_ok (xs @ ys) \<Longrightarrow> cmp_keys (rkey a) (rkey b) \<le> 0"
  by (auto simp: rows_ok_append intro: row_lt_key)

lemma key_flip: "valid_row a \<Longrightarrow> valid_row b \<Longrightarrow> cmp_keys (rkey b) (rkey a) = - cmp_keys (rkey a) (rkey b)"
  by (rule key_order.cmp_flip) (simp_all add: valid_row_def)

text \<open>A range does not tell equal keys apart.\<close>

lemma in_range_eq:
  assumes "valid_range rg" "valid_key a" "valid_key b" "cmp_keys a b = 0"
  shows "in_range_opt rg a \<longleftrightarrow> in_range_opt rg b"
proof (cases rg)
  case (Some r)
  have c: "(cmp_keys a k < 0 \<longleftrightarrow> cmp_keys b k < 0) \<and> (cmp_keys a k = 0 \<longleftrightarrow> cmp_keys b k = 0)" if "valid_key k" for k
    using key_order.eq_cong_left [OF assms(2,3) that assms(4)] by auto
  have l: "\<And>l. lo r = Some l \<Longrightarrow> valid_key l" and u: "\<And>u. hi r = Some u \<Longrightarrow> valid_key u"
    using assms(1) Some by (auto simp: valid_range_def)
  from c [OF l] c [OF u] have "in_range r a \<longleftrightarrow> in_range r b"
    by (auto simp: in_range_def Let_def not_less split: option.split dest: order.antisym)
  with Some show ?thesis by (simp add: in_range_opt_def)
qed (simp add: in_range_opt_def)

locale row_scan =
  fixes rows :: "row list" and rg :: "range option"
  assumes rows: "rows_ok rows" and range: "valid_range rg"
begin

abbreviation inside :: "row list" where
  "inside \<equiv> filter (\<lambda>r. in_range_opt rg (rkey r)) rows"

lemma valid_inside: "r \<in> set inside \<Longrightarrow> valid_row r"
  using rows by (auto dest: rows_okD)

lemma inside_ok: "rows_ok inside"
  using rows by (rule rows_ok_filter)

lemma seek_forward_first:
  assumes "\<forall>p \<in> set_option pos. valid_key p" "\<forall>p \<in> set_option osp. valid_key p"
  shows "seek_forward rows rg wpk None None pos osp = first_of (filter (beyond pos (if wpk then osp else None)) inside)"
proof -
  obtain s e where se: "span_of rows rg = (s, e)" by fastforce
  note S = span_of_spec [OF rows range se]
  define i where "i = (case pos of None \<Rightarrow> s | Some p \<Rightarrow> max s (upper_idx rows p (if wpk then osp else None)))"
  have "i \<le> j \<longleftrightarrow> s \<le> j \<and> beyond pos (if wpk then osp else None) (rows ! j)" if "j < length rows" for j
  proof (cases pos)
    case (Some p)
    have "\<forall>q \<in> set_option (if wpk then osp else None). valid_key q" using assms(2) by simp
    with upper_idx_spec(2) [OF rows _ this that, of p] Some assms(1) show ?thesis
      by (auto simp: beyond_def i_def not_le [symmetric])
  qed (simp add: beyond_def i_def)
  then have "filter (\<lambda>r. in_range_opt rg (rkey r) \<and> beyond pos (if wpk then osp else None) r) rows = segment rows i e"
    using S by (intro filter_interval) auto
  moreover have "seek_forward rows rg wpk None None pos osp = (if i < e then Some (rows ! i) else None)"
    by (simp add: seek_forward_def se i_def Let_def split: option.split)
  ultimately show ?thesis using first_segment [OF S(2)] by (simp add: conj_commute)
qed

lemma seek_backward_last:
  assumes "\<forall>p \<in> set_option pos. valid_key p" "\<forall>p \<in> set_option osp. valid_key p"
  shows "seek_backward rows rg uniq wpk None None pos osp =
     map_option (\<lambda>r. if uniq then rows ! lower_idx rows (rkey r) None else r)
       (first_of (rev (filter (short_of pos (if wpk then osp else None)) inside)))"
proof -
  obtain s e where se: "span_of rows rg = (s, e)" by fastforce
  note S = span_of_spec [OF rows range se]
  define i where "i = (case pos of None \<Rightarrow> e | Some p \<Rightarrow> min e (lower_idx rows p (if wpk then osp else None)))"
  have "j < i \<longleftrightarrow> j < e \<and> short_of pos (if wpk then osp else None) (rows ! j)" if "j < length rows" for j
  proof (cases pos)
    case (Some p)
    have "\<forall>q \<in> set_option (if wpk then osp else None). valid_key q" using assms(2) by simp
    with lower_idx_spec(2) [OF rows _ this that, of p] Some assms(1) show ?thesis
      by (auto simp: short_of_def i_def)
  qed (simp add: short_of_def i_def)
  moreover have i: "i \<le> length rows" using S(2) by (auto simp: i_def split: option.split)
  ultimately have "filter (\<lambda>r. in_range_opt rg (rkey r) \<and> short_of pos (if wpk then osp else None) r) rows = segment rows s i"
    using S by (intro filter_interval) auto
  moreover have "seek_backward rows rg uniq wpk None None pos osp =
      (if s < i then Some (if uniq then rows ! lower_idx rows (rkey (rows ! (i - 1))) None else rows ! (i - 1)) else None)"
    by (simp add: seek_backward_def se i_def Let_def split: option.split)
  ultimately show ?thesis using last_segment [OF i] by (simp add: conj_commute)
qed

end

section \<open>Walks\<close>

text \<open>The rows found by opening a cursor and moving it on, one record at a time.\<close>

fun walk :: "(key option \<Rightarrow> key option \<Rightarrow> row option) \<Rightarrow> nat \<Rightarrow> key option \<Rightarrow> key option \<Rightarrow> row list" where
  "walk st 0 pos osp = []"
| "walk st (Suc n) pos osp = (case st pos osp of
     None \<Rightarrow> [] | Some r \<Rightarrow> r # walk st n (Some (rkey r)) (Some (rpk r)))"

text \<open>Moving \<open>n\<close> records at once ends where \<open>n\<close> moves end.\<close>

lemma seek_times_walk:
  "seek_times st n found pos osp =
     (if n = 0 then found else if length (walk st n pos osp) = n then Some (last (walk st n pos osp)) else None)"
proof (induction n arbitrary: found pos osp)
  case (Suc n)
  show ?case
  proof (cases "st pos osp")
    case (Some r)
    with Suc [of "Some r" "Some (rkey r)" "Some (rpk r)"] show ?thesis by auto
  qed simp
qed simp

context row_scan
begin

text \<open>Strictly ordered walks: the position tells the rows before it from those after it.\<close>

lemma walk_strict_next:
  assumes strict: "\<And>xs r ys. inside = xs @ r # ys \<Longrightarrow> filter (beyond (Some (rkey r)) (if wpk then Some (rpk r) else None)) inside = ys"
    and split: "inside = xs @ ys" "xs \<noteq> [] \<Longrightarrow> pos = Some (rkey (last xs)) \<and> osp = Some (rpk (last xs))" "xs = [] \<Longrightarrow> pos = None \<and> osp = None"
  shows "walk (seek_forward rows rg wpk None None) n pos osp = take n ys"
  using split
proof (induction n arbitrary: xs ys pos osp)
  case (Suc n)
  have v: "\<forall>p \<in> set_option pos. valid_key p" "\<forall>p \<in> set_option osp. valid_key p"
    using Suc.prems valid_inside [of "last xs"] by (cases "xs = []"; auto simp: valid_row_def)+
  have "filter (beyond pos (if wpk then osp else None)) inside = ys"
  proof (cases "xs = []")
    case True
    with Suc.prems show ?thesis by (simp add: beyond_def)
  next
    case False
    with Suc.prems have i: "inside = butlast xs @ last xs # ys" by simp
    have p: "pos = Some (rkey (last xs))" "osp = Some (rpk (last xs))" using Suc.prems(2) False by simp_all
    show ?thesis unfolding p by (rule strict [OF i])
  qed
  with seek_forward_first [OF v] have s: "seek_forward rows rg wpk None None pos osp = first_of ys" by simp
  show ?case
  proof (cases ys)
    case (Cons y zs)
    with Suc.IH [of "xs @ [y]" zs "Some (rkey y)" "Some (rpk y)"] Suc.prems(1) s show ?thesis by simp
  qed (use s in simp)
qed simp

lemma walk_strict_prev:
  assumes strict: "\<And>xs r ys. inside = xs @ r # ys \<Longrightarrow> filter (short_of (Some (rkey r)) (if wpk then Some (rpk r) else None)) inside = xs"
    and split: "inside = xs @ ys" "ys \<noteq> [] \<Longrightarrow> pos = Some (rkey (hd ys)) \<and> osp = Some (rpk (hd ys))" "ys = [] \<Longrightarrow> pos = None \<and> osp = None"
  shows "walk (seek_backward rows rg False wpk None None) n pos osp = take n (rev xs)"
  using split
proof (induction n arbitrary: xs ys pos osp)
  case (Suc n)
  have v: "\<forall>p \<in> set_option pos. valid_key p" "\<forall>p \<in> set_option osp. valid_key p"
    using Suc.prems valid_inside [of "hd ys"] by (cases "ys = []"; auto simp: valid_row_def)+
  have "filter (short_of pos (if wpk then osp else None)) inside = xs"
  proof (cases ys)
    case Nil
    with Suc.prems show ?thesis by (simp add: short_of_def)
  next
    case (Cons y zs)
    with Suc.prems have i: "inside = xs @ y # zs" and p: "pos = Some (rkey y)" "osp = Some (rpk y)" by simp_all
    show ?thesis unfolding p by (rule strict [OF i])
  qed
  with seek_backward_last [OF v] have s: "seek_backward rows rg False wpk None None pos osp = first_of (rev xs)"
    by (simp add: option.map_ident)
  show ?case
  proof (cases xs rule: rev_cases)
    case (snoc zs y)
    with Suc.IH [of zs "y # ys" "Some (rkey y)" "Some (rpk y)"] Suc.prems(1) s show ?thesis by simp
  qed (use s in simp)
qed simp


text \<open>Walks over distinct keys: each move leaves the whole run of the position behind.\<close>

lemma run_heads_after:
  assumes "rows_ok (r # ys)"
  shows "run_heads (Some (rkey r)) ys = (case filter (beyond (Some (rkey r)) None) ys of
     [] \<Rightarrow> [] | z # zs \<Rightarrow> z # run_heads (Some (rkey z)) zs)"
  using assms
proof (induction ys arbitrary: r)
  case (Cons y ys)
  have v: "valid_row r" "valid_row y" "\<forall>z \<in> set ys. valid_row z" using Cons.prems by (auto simp: rows_ok_Cons dest: rows_okD)
  have le: "cmp_keys (rkey r) (rkey y) \<le> 0" "\<forall>z \<in> set ys. cmp_keys (rkey y) (rkey z) \<le> 0"
    using Cons.prems by (auto simp: rows_ok_Cons intro: row_lt_key)
  show ?case
  proof (cases "cmp_keys (rkey r) (rkey y) = 0")
    case True
    have "beyond (Some (rkey r)) None z \<longleftrightarrow> beyond (Some (rkey y)) None z" if z: "z \<in> set ys" for z
      using key_order.eq_cong_left [of "rkey r" "rkey y" "rkey z"] True v z key_flip [of r z] key_flip [of y z]
      by (auto simp: beyond_def valid_row_def)
    then have "filter (beyond (Some (rkey r)) None) ys = filter (beyond (Some (rkey y)) None) ys" by (rule filter_cong [OF refl])
    moreover have "\<not> beyond (Some (rkey r)) None y" using True key_flip [OF v(1,2)] by (simp add: beyond_def)
    ultimately show ?thesis using True Cons.IH [of y] Cons.prems by (simp add: rows_ok_Cons)
  next
    case False
    with le key_flip [OF v(1,2)] have y: "beyond (Some (rkey r)) None y" by (simp add: beyond_def)
    have "beyond (Some (rkey r)) None z" if z: "z \<in> set ys" for z
    proof -
      have "cmp_keys (rkey r) (rkey z) < 0"
        using key_order.lt_le_trans [of "rkey r" "rkey y" "rkey z"] le False v z by (simp add: valid_row_def)
      with key_flip [of r z] v z show ?thesis by (simp add: beyond_def)
    qed
    then have "filter (beyond (Some (rkey r)) None) ys = ys" by (simp add: filter_id_conv)
    with y False show ?thesis by simp
  qed
qed simp

lemma walk_next_unique:
  assumes "inside = xs @ r # ys" "valid_key p"
  shows "walk (seek_forward rows rg False None None) n (Some (rkey r)) (Some p) = take n (run_heads (Some (rkey r)) ys)"
  using assms
proof (induction n arbitrary: xs r ys p)
  case (Suc n)
  have ok: "rows_ok (xs @ r # ys)" using inside_ok Suc.prems by simp
  have v: "valid_row r" using valid_inside Suc.prems by auto
  have "\<not> beyond (Some (rkey r)) None z" if "z \<in> set xs" for z
    using key_le [OF that _ ok, of r] by (simp add: beyond_def)
  moreover have "\<not> beyond (Some (rkey r)) None r" using v by (simp add: beyond_def valid_row_def key_order.cmp_self)
  ultimately have "filter (beyond (Some (rkey r)) None) inside = filter (beyond (Some (rkey r)) None) ys"
    using Suc.prems by (simp add: filter_empty_conv)
  with seek_forward_first [of "Some (rkey r)" "Some p" False] v Suc.prems(2)
  have s: "seek_forward rows rg False None None (Some (rkey r)) (Some p) = first_of (filter (beyond (Some (rkey r)) None) ys)"
    by (simp add: valid_row_def)
  have h: "run_heads (Some (rkey r)) ys = (case filter (beyond (Some (rkey r)) None) ys of
      [] \<Rightarrow> [] | z # zs \<Rightarrow> z # run_heads (Some (rkey z)) zs)"
    using ok by (intro run_heads_after) (simp add: rows_ok_append)
  show ?case
  proof (cases "filter (beyond (Some (rkey r)) None) ys")
    case Nil
    with s h show ?thesis by simp
  next
    case (Cons z zs)
    then obtain as bs where ys: "ys = as @ z # bs" "\<forall>a \<in> set as. \<not> beyond (Some (rkey r)) None a" "zs = filter (beyond (Some (rkey r)) None) bs"
      by (auto simp: filter_eq_Cons_iff)
    have vz: "valid_row z" using valid_inside Suc.prems(1) ys(1) by auto
    have z: "beyond (Some (rkey r)) None z" using Cons by (metis filter_eq_ConsD)
    have "beyond (Some (rkey r)) None b" if b: "b \<in> set bs" for b
    proof -
      have "rows_ok ((xs @ r # as) @ z # bs)" using ok ys(1) by simp
      then have "rows_ok (z # bs)" by (simp only: rows_ok_append)
      then have "cmp_keys (rkey z) (rkey b) \<le> 0" using b by (auto simp: rows_ok_Cons intro: row_lt_key)
      moreover have vb: "valid_row b" using valid_inside Suc.prems(1) ys(1) b by auto
      moreover have "cmp_keys (rkey r) (rkey z) < 0" using z key_flip [OF v vz] by (simp add: beyond_def)
      ultimately have "cmp_keys (rkey r) (rkey b) < 0"
        using key_order.lt_le_trans [of "rkey r" "rkey z" "rkey b"] v vz by (simp add: valid_row_def)
      with key_flip [OF v vb] show ?thesis by (simp add: beyond_def)
    qed
    then have "zs = bs" using ys(3) by (simp add: filter_id_conv)
    moreover have "walk (seek_forward rows rg False None None) n (Some (rkey z)) (Some (rpk z)) = take n (run_heads (Some (rkey z)) bs)"
      using Suc.prems(1) ys(1) vz by (intro Suc.IH [of "xs @ r # as"]) (simp_all add: valid_row_def)
    ultimately show ?thesis using s h Cons by simp
  qed
qed simp


text \<open>The first row of the run that a row of the range belongs to.\<close>

lemma run_first:
  assumes q: "q \<in> set inside" and h: "h = rows ! lower_idx rows (rkey q) None"
  obtains xs zs where "inside = xs @ h # zs" "\<forall>x \<in> set xs. cmp_keys (rkey x) (rkey q) < 0" "cmp_keys (rkey h) (rkey q) = 0"
proof -
  define i where "i = lower_idx rows (rkey q) None"
  have vq: "valid_key (rkey q)" using valid_inside [OF q] by (simp add: valid_row_def)
  have lt: "cmp_keys (rkey (rows ! j)) (rkey q) < 0 \<longleftrightarrow> j < i" if "j < length rows" for j
    using lower_idx_spec(2) [OF rows vq _ that, of None] by (simp add: i_def)
  from q obtain j where j: "j < length rows" "rows ! j = q" by (auto simp: in_set_conv_nth)
  have ij: "i \<le> j" using lt [OF j(1)] j(2) vq by (simp add: key_order.cmp_self not_less)
  have i: "i < length rows" using ij j(1) by simp
  have vh: "valid_key (rkey h)" using rows i h by (auto simp: rows_ok_def valid_row_def i_def)
  have "cmp_keys (rkey h) (rkey q) \<le> 0"
  proof (cases "i = j")
    case True
    with j(2) h vq show ?thesis by (simp add: i_def key_order.cmp_self)
  next
    case False
    with rows ij j h show ?thesis by (auto simp: rows_ok_def sorted_wrt_iff_nth_less i_def intro: row_lt_key)
  qed
  with lt [OF i] h have eq: "cmp_keys (rkey h) (rkey q) = 0" by (simp add: i_def)
  obtain s e where se: "span_of rows rg = (s, e)" by fastforce
  have "in_range_opt rg (rkey q)" using q by simp
  have rr: "in_range_opt rg (rkey h)"
    using in_range_eq [OF range vh vq eq] q by simp
  have split: "rows = take i rows @ h # drop (Suc i) rows" using i h by (simp add: i_def id_take_nth_drop [symmetric])
  have "inside = filter (\<lambda>r. in_range_opt rg (rkey r)) (take i rows) @ h # filter (\<lambda>r. in_range_opt rg (rkey r)) (drop (Suc i) rows)"
    using rr by (subst split) simp
  moreover have "\<forall>x \<in> set (filter (\<lambda>r. in_range_opt rg (rkey r)) (take i rows)). cmp_keys (rkey x) (rkey q) < 0"
    using lt by (auto simp: in_set_conv_nth)
  ultimately show ?thesis using eq by (rule that)
qed

lemma walk_prev_unique:
  assumes "inside = xs @ ys" "ys = [] \<Longrightarrow> pos = None" "\<forall>p \<in> set_option osp. valid_key p"
    and "ys \<noteq> [] \<Longrightarrow> pos = Some (rkey (hd ys)) \<and> (\<forall>x \<in> set xs. cmp_keys (rkey x) (rkey (hd ys)) < 0)"
  shows "walk (seek_backward rows rg True False None None) n pos osp = take n (rev (run_heads None xs))"
  using assms
proof (induction n arbitrary: xs ys pos osp)
  case (Suc n)
  have ok: "rows_ok (xs @ ys)" using inside_ok Suc.prems(1) by simp
  have vx: "\<forall>x \<in> set (xs @ ys). valid_row x" using ok by (auto dest: rows_okD)
  have vp: "\<forall>p \<in> set_option pos. valid_key p" using Suc.prems(2,4) vx by (cases ys) (auto simp: valid_row_def)
  have "filter (short_of pos None) inside = xs"
  proof (cases ys)
    case Nil
    with Suc.prems show ?thesis by (simp add: short_of_def)
  next
    case (Cons r zs)
    have "\<not> short_of pos None z" if z: "z \<in> set ys" for z
    proof -
      have "cmp_keys (rkey r) (rkey z) \<le> 0"
      proof (cases "z = r")
        case True
        then show ?thesis using vx Cons by (simp add: valid_row_def key_order.cmp_self)
      next
        case False
        have "rows_ok ys" using ok by (simp add: rows_ok_append)
        with Cons False z show ?thesis by (auto simp: rows_ok_Cons intro: row_lt_key)
      qed
      moreover have "valid_row r" "valid_row z" using vx Cons z by auto
      ultimately show ?thesis using Suc.prems(4) Cons key_flip [of r z] by (simp add: short_of_def)
    qed
    then have "filter (short_of pos None) ys = []" by (simp add: filter_empty_conv)
    moreover have "filter (short_of pos None) xs = xs"
      using Suc.prems(4) Cons by (simp add: short_of_def filter_id_conv)
    ultimately show ?thesis using Suc.prems(1) by simp
  qed
  with seek_backward_last [OF vp Suc.prems(3), of True False]
  have s: "seek_backward rows rg True False None None pos osp =
      map_option (\<lambda>r. rows ! lower_idx rows (rkey r) None) (first_of (rev xs))" by simp
  show ?case
  proof (cases xs rule: rev_cases)
    case Nil
    with s show ?thesis by simp
  next
    case (snoc ws q)
    define h where "h = rows ! lower_idx rows (rkey q) None"
    have vq: "valid_row q" using vx snoc by simp
    have qi: "q \<in> set inside" using Suc.prems(1) snoc by simp
    obtain xs1 zs where r: "inside = xs1 @ h # zs" "\<forall>x \<in> set xs1. cmp_keys (rkey x) (rkey q) < 0" "cmp_keys (rkey h) (rkey q) = 0"
      by (rule run_first [OF qi h_def])
    have vh: "valid_row h" using valid_inside r(1) by simp
    have "q \<notin> set xs1" using r(2) vq key_order.cmp_self [of "rkey q"] by (auto simp: valid_row_def)
    moreover have "xs1 @ h # zs = xs @ ys" using r(1) Suc.prems(1) by simp
    moreover have "q \<in> set xs" using snoc by simp
    ultimately obtain us where us: "xs = xs1 @ us" "h # zs = us @ ys"
      by (auto simp: append_eq_append_conv2)
    with \<open>q \<notin> set xs1\<close> \<open>q \<in> set xs\<close> obtain as where as: "xs = xs1 @ h # as" "zs = as @ ys"
      by (cases us) auto
    have "run_heads (Some (rkey h)) as = []"
    proof (rule run_heads_all_equal)
      show "\<forall>a \<in> set as. valid_key (rkey a) \<and> cmp_keys (rkey a) (rkey h) = 0"
      proof
        fix a assume a: "a \<in> set as"
        have va: "valid_row a" using vx as a by simp
        have ha: "cmp_keys (rkey h) (rkey a) \<le> 0"
          using ok as a by (auto simp: rows_ok_append rows_ok_Cons intro: row_lt_key)
        have "cmp_keys (rkey a) (rkey q) \<le> 0"
        proof (cases "a = q")
          case True
          then show ?thesis using vq by (simp add: valid_row_def key_order.cmp_self)
        next
          case False
          obtain cs where "as = cs @ [q]" "ws = xs1 @ h # cs" using as(1) snoc a by (cases as rule: rev_cases) auto
          with a False have "a \<in> set ws" by simp
          with ok snoc show ?thesis by (auto simp: rows_ok_append rows_ok_Cons intro: row_lt_key)
        qed
        with key_order.eq_cong_left [of "rkey h" "rkey q" "rkey a"] r(3) va vh vq ha key_flip [OF va vq] key_flip [OF va vh]
        show "valid_key (rkey a) \<and> cmp_keys (rkey a) (rkey h) = 0" by (auto simp: valid_row_def)
      qed
    qed (use vh in \<open>simp add: valid_row_def\<close>)
    moreover have below: "\<forall>x \<in> set xs1. cmp_keys (rkey x) (rkey h) < 0"
    proof
      fix x assume x: "x \<in> set xs1"
      then have vx': "valid_row x" using vx as by simp
      with x r(2,3) key_order.lt_le_trans [of "rkey x" "rkey q" "rkey h"] vq vh key_flip [OF vh vq]
      show "cmp_keys (rkey x) (rkey h) < 0" by (simp add: valid_row_def)
    qed
    ultimately have "run_heads None xs = run_heads None xs1 @ [h]"
      using as(1) last_in_set [of xs1] by (fastforce simp: run_heads_append)
    moreover have "walk (seek_backward rows rg True False None None) n (Some (rkey h)) (Some (rpk h)) = take n (rev (run_heads None xs1))"
      by (rule Suc.IH [OF r(1)]) (use below vh in \<open>auto simp: valid_row_def\<close>)
    ultimately show ?thesis using s snoc by (simp add: h_def [symmetric])
  qed
qed simp

end


text \<open>Rows that the positions of a cursor tell apart: those of an index by key and primary key, those of a store by key.\<close>

definition told_apart :: "bool \<Rightarrow> row list \<Rightarrow> bool" where
  "told_apart wpk rows = (\<forall>a \<in> set rows. \<forall>b \<in> set rows. row_lt a b \<longrightarrow>
     cmp_row b (rkey a) (if wpk then Some (rpk a) else None) > 0 \<and> cmp_row a (rkey b) (if wpk then Some (rpk b) else None) < 0)"

lemma told_apart_index: "rows_ok rows \<Longrightarrow> told_apart True rows"
  using pair_flip by (fastforce simp: told_apart_def cmp_row_pair row_lt_def dest: rows_okD simp del: lex_cmp.simps)

lemma told_apart_store:
  assumes "rows_ok rows" "\<forall>r \<in> set rows. rpk r = rkey r"
  shows "told_apart False rows"
proof -
  have "cmp_keys (rkey a) (rkey b) < 0 \<and> cmp_keys (rkey b) (rkey a) > 0" if "a \<in> set rows" "b \<in> set rows" "row_lt a b" for a b
  proof -
    have lt: "cmp_keys (rkey a) (rkey b) < 0"
      using that assms(2) by (auto simp: row_lt_def pair_of_def Let_def split: if_splits)
    moreover have "valid_row a" "valid_row b" using that assms(1) by (auto dest: rows_okD)
    ultimately show ?thesis using key_flip [of a b] by linarith
  qed
  then show ?thesis by (simp add: told_apart_def)
qed

lemma own_position: "valid_row r \<Longrightarrow> cmp_row r (rkey r) (if wpk then Some (rpk r) else None) = 0"
  by (simp add: cmp_row_def valid_row_def key_order.cmp_self)

context row_scan
begin

lemma split_around:
  assumes "told_apart wpk rows" "inside = xs @ r # ys"
  shows "filter (beyond (Some (rkey r)) (if wpk then Some (rpk r) else None)) inside = ys"
    and "filter (short_of (Some (rkey r)) (if wpk then Some (rpk r) else None)) inside = xs"
proof -
  have ok: "rows_ok (xs @ r # ys)" using inside_ok assms(2) by simp
  then have r: "\<forall>x \<in> set xs. row_lt x r" "\<forall>y \<in> set ys. row_lt r y" by (auto simp: rows_ok_append rows_ok_Cons)
  have "set (xs @ r # ys) \<subseteq> set rows" unfolding assms(2) [symmetric] by auto
  with assms(1) r have x: "\<forall>x \<in> set xs. cmp_row x (rkey r) (if wpk then Some (rpk r) else None) < 0"
    and y: "\<forall>y \<in> set ys. cmp_row y (rkey r) (if wpk then Some (rpk r) else None) > 0"
    unfolding told_apart_def by auto
  have o0: "cmp_row r (rkey r) (if wpk then Some (rpk r) else None) = 0"
    using ok by (intro own_position) (auto dest: rows_okD)
  have "filter (beyond (Some (rkey r)) (if wpk then Some (rpk r) else None)) (xs @ r # ys) = ys"
    using x y o0 by (auto simp: beyond_def filter_empty_conv filter_id_conv)
  with assms(2) show "filter (beyond (Some (rkey r)) (if wpk then Some (rpk r) else None)) inside = ys" by simp
  have "filter (short_of (Some (rkey r)) (if wpk then Some (rpk r) else None)) (xs @ r # ys) = xs"
    using x y o0 by (auto simp: short_of_def filter_empty_conv filter_id_conv)
  with assms(2) show "filter (short_of (Some (rkey r)) (if wpk then Some (rpk r) else None)) inside = xs" by simp
qed

lemma walk_collects:
  assumes "is_index \<or> (\<forall>r \<in> set rows. rpk r = rkey r)"
  shows "walk (seek rows rg dir is_index None None) n None None = take n (collect_spec inside dir)"
proof -
  let ?wpk = "is_index \<and> \<not> unique_dir dir"
  have ta: "told_apart ?wpk rows" if "\<not> unique_dir dir"
    using that assms told_apart_index [OF rows] told_apart_store [OF rows] by (cases is_index) auto
  have sk: "seek rows rg dir is_index None None = (if forward dir then seek_forward rows rg ?wpk None None
      else seek_backward rows rg (dir = PrevUnique) ?wpk None None)"
    by (intro ext) (simp add: seek_def Let_def)
  show ?thesis
  proof (cases dir)
    case Next
    have "walk (seek_forward rows rg ?wpk None None) n None None = take n inside"
      by (rule walk_strict_next [where xs = "[]", OF split_around(1) [OF ta]]) (simp_all add: Next unique_dir_def)
    with Next show ?thesis unfolding sk by (simp add: collect_spec_def forward_def)
  next
    case Prev
    have "walk (seek_backward rows rg False ?wpk None None) n None None = take n (rev inside)"
      by (rule walk_strict_prev [where ys = "[]", OF split_around(2) [OF ta]]) (simp_all add: Prev unique_dir_def)
    with Prev show ?thesis unfolding sk by (simp add: collect_spec_def forward_def)
  next
    case PrevUnique
    have "walk (seek_backward rows rg True False None None) n None None = take n (rev (run_heads None inside))"
      by (rule walk_prev_unique [where ys = "[]"]) simp_all
    with PrevUnique show ?thesis unfolding sk by (simp add: collect_spec_def forward_def unique_dir_def)
  next
    case NextUnique
    have s: "seek_forward rows rg False None None None None = first_of inside"
      using seek_forward_first [of None None False] by (simp add: beyond_def)
    have "walk (seek_forward rows rg False None None) n None None = take n (run_heads None inside)"
    proof (cases n)
      case (Suc m)
      show ?thesis
      proof (cases inside)
        case (Cons r ys)
        have "valid_key (rpk r)" using valid_inside Cons by (simp add: valid_row_def)
        from walk_next_unique [of "[]" r ys _ m, OF _ this] Cons s Suc show ?thesis by simp
      qed (use s Suc in simp)
    qed simp
    with NextUnique show ?thesis unfolding sk by (simp add: collect_spec_def forward_def unique_dir_def)
  qed
qed

end

text \<open>The rows and the range of a cursor of the model; both in order, or empty.\<close>

definition scan_rows :: "work \<Rightarrow> idb_cursor \<Rightarrow> row list" where
  "scan_rows k c = (if rows_ok (cursor_rows k c) then cursor_rows k c else [])"

definition scan_range :: "idb_cursor \<Rightarrow> range option" where
  "scan_range c = (if valid_range (c_range c) then c_range c else None)"

interpretation scan: row_scan "scan_rows k c" "scan_range c" for k c
  by unfold_locales (simp_all add: scan_rows_def scan_range_def valid_range_def)

end
