(* ===== verification/IdbCursorProps.thy ===== *)
theory IdbCursorProps
  imports IdbCursorLaws
begin

text \<open>Properties of cursors: what repeated moves visit, and moving several records at once.\<close>

text \<open>Opening a cursor and calling \<open>continue()\<close>: the keys, primary keys and values it shows.\<close>

fun cursor_visits :: "nat \<Rightarrow> nat \<Rightarrow> 'p idb \<Rightarrow> (key option \<times> key option \<times> clone option) list" where
  "cursor_visits 0 c w = []"
| "cursor_visits (Suc n) c w = (case iterate c None None 1 w of (w1, moved) \<Rightarrow>
     if moved then (c_key (i_cursors w1 c), c_pk (i_cursors w1 c), c_value (i_cursors w1 c)) # cursor_visits n c w1 else [])"

definition shown :: "bool \<Rightarrow> row \<Rightarrow> key option \<times> key option \<times> clone option" where
  "shown key_only r = (Some (rkey r), Some (rpk r), if key_only then None else Some (value_of_row r))"

lemma iterate_one:
  "iterate c None None 1 w = (let x = i_cursors w c;
     found = seek (cursor_rows (i_work w) x) (c_range x) (c_direction x) (c_index x \<noteq> None) None None (c_position x) (c_obj_pos x)
   in (upd_cursor c (move_to found) w, found \<noteq> None))"
  by (simp add: iterate_def find_next_def Let_def split: option.split)

lemmas iterate_Suc0 = iterate_one [unfolded One_nat_def]

lemma move_to_keeps [simp]:
  "cursor_rows k (move_to f x) = cursor_rows k x" "c_range (move_to f x) = c_range x" "c_direction (move_to f x) = c_direction x"
  "c_index (move_to f x) = c_index x" "c_key_only (move_to f x) = c_key_only x"
  by (cases f; cases "c_index x"; simp add: cursor_rows_def move_to_def)+

lemma move_to_row [simp]:
  "c_position (move_to (Some r) x) = Some (rkey r)" "c_obj_pos (move_to (Some r) x) = Some (rpk r)"
  by (simp_all add: move_to_def)

lemma visits_walk:
  "cursor_visits n c w = (let x = i_cursors w c in map (shown (c_key_only x))
     (walk (seek (cursor_rows (i_work w) x) (c_range x) (c_direction x) (c_index x \<noteq> None) None None) n (c_position x) (c_obj_pos x)))"
proof (induction n arbitrary: w)
  case (Suc n)
  define x where "x = i_cursors w c"
  define st where "st = seek (cursor_rows (i_work w) x) (c_range x) (c_direction x) (c_index x \<noteq> None) None None"
  show ?case
  proof (cases "st (c_position x) (c_obj_pos x)")
    case None
    then show ?thesis by (simp add: iterate_Suc0 Let_def x_def st_def)
  next
    case (Some r)
    define w1 where "w1 = upd_cursor c (move_to (Some r)) w"
    have i: "iterate c None None 1 w = (w1, True)" using Some by (simp add: iterate_Suc0 Let_def x_def st_def w1_def)
    have c: "i_cursors w1 c = move_to (Some r) x" "i_work w1 = i_work w" by (simp_all add: w1_def upd_cursor_def x_def)
    have s: "seek (cursor_rows (i_work w1) (i_cursors w1 c)) (c_range (i_cursors w1 c)) (c_direction (i_cursors w1 c))
        (c_index (i_cursors w1 c) \<noteq> None) None None = st"
      by (simp add: c st_def)
    have "cursor_visits n c w1 = map (shown (c_key_only x)) (walk st n (Some (rkey r)) (Some (rpk r)))"
      using Suc [of w1] unfolding Let_def s by (simp add: c)
    moreover have "(c_key (i_cursors w1 c), c_pk (i_cursors w1 c), c_value (i_cursors w1 c)) = shown (c_key_only x) r"
      by (simp add: c move_to_def shown_def)
    ultimately show ?thesis unfolding Let_def x_def [symmetric] st_def [symmetric] using i Some by simp
  qed
qed simp

text \<open>C9: Opening a cursor and moving it on visits exactly the records that \<open>getAll\<close> with the same range and
  direction collects, in the same order, in all four directions, on a store and on an index: neither a record
  is skipped or shown twice, nor are two records with the same key shown in a unique direction.\<close>

theorem cursor_visits_what_getall_collects:
  assumes "rows_ok (cursor_rows (i_work w) (i_cursors w c))" "valid_range (c_range (i_cursors w c))"
    and "c_position (i_cursors w c) = None" "c_obj_pos (i_cursors w c) = None"
    and "c_index (i_cursors w c) = None \<longrightarrow> (\<forall>r \<in> set (cursor_rows (i_work w) (i_cursors w c)). rpk r = rkey r)"
  shows "cursor_visits n c w = take n (map (shown (c_key_only (i_cursors w c)))
     (collect_rows (cursor_rows (i_work w) (i_cursors w c)) (c_range (i_cursors w c)) (c_direction (i_cursors w c)) 0))"
proof -
  let ?x = "i_cursors w c"
  have r: "scan_rows (i_work w) ?x = cursor_rows (i_work w) ?x" "scan_range ?x = c_range ?x"
    using assms(1,2) by (simp_all add: scan_rows_def scan_range_def)
  have "c_index ?x \<noteq> None \<or> (\<forall>r \<in> set (cursor_rows (i_work w) ?x). rpk r = rkey r)" using assms(5) by blast
  then show ?thesis
    using scan.walk_collects [of "c_index ?x \<noteq> None" "i_work w" ?x "c_direction ?x" n] collect_rows_spec [OF assms(1,2), of "c_direction ?x" 0]
    by (simp add: visits_walk Let_def assms(3,4) r take_map take_limit_def)
qed

text \<open>A store of three records and a cursor that goes back over those from the second on.\<close>

definition cur_row :: "nat \<Rightarrow> row" where
  "cur_row n = Row n (KNum (Fin (of_nat n))) (KNum (Fin (of_nat n))) ([], Num (Fin (of_nat n))) None"

definition cur_store :: store_data where
  "cur_store = \<lparr>st_name = js ''s'', st_key_path = None, st_auto = False, st_next = Fin 1,
     st_rows = [cur_row 1, cur_row 2, cur_row 3], st_indexes = [], st_maintained = [], st_deleted = False, st_created_by = 0\<rparr>"

definition cur_cursor :: idb_cursor where
  "cur_cursor = \<lparr>c_request = 0, c_source = 0, c_store = 0, c_index = None, c_tx = 0, c_direction = Prev,
     c_range = Some \<lparr>lo = Some (KNum (Fin 2)), hi = None, lo_open = False, hi_open = True\<rparr>, c_key_only = False,
     c_position = None, c_obj_pos = None, c_key = None, c_pk = None, c_value = None, c_got = False\<rparr>"

definition cur_world :: "unit idb" where
  "cur_world = \<lparr>i_work = \<lparr>stores = [0 \<mapsto> cur_store], indexes = Map.empty, dbs = Map.empty, next_id = 4, handle_name = (\<lambda>_. []),
       undo_log = [], dirty = False\<rparr>,
     i_heap = [], i_memory = (\<lambda>_. []), i_live = Map.empty, i_conns = (\<lambda>_. undefined), i_txs = (\<lambda>_. undefined),
     i_reqs = (\<lambda>_. undefined), i_handles = (\<lambda>_. undefined), i_cursors = (\<lambda>_. cur_cursor), i_left = (\<lambda>_. 0),
     i_next = 1, i_tasks = [], i_seq = 0, i_reports = [], i_page = ()\<rparr>"

lemma cur_rows_ok: "rows_ok (cursor_rows (i_work cur_world) (i_cursors cur_world 0))"
  by (simp add: cur_world_def cur_cursor_def cursor_rows_def rows_at_def cur_store_def cur_row_def rows_ok_def row_lt_def
    pair_of_def valid_row_def cmp_num_def Let_def)

theorem cursor_visits_what_getall_collects_witness:
  "cursor_visits 5 0 cur_world = map (shown False) [cur_row 3, cur_row 2]"
proof -
  have v: "valid_range (c_range (i_cursors cur_world 0))" by (simp add: valid_range_def cur_world_def cur_cursor_def)
  have c: "collect_rows (cursor_rows (i_work cur_world) (i_cursors cur_world 0)) (c_range (i_cursors cur_world 0))
      (c_direction (i_cursors cur_world 0)) 0 = [cur_row 3, cur_row 2]" by code_simp
  show ?thesis
    using cursor_visits_what_getall_collects [OF cur_rows_ok v, of 5] c
    by (simp add: cur_world_def cur_cursor_def cursor_rows_def rows_at_def cur_store_def cur_row_def)
qed

text \<open>\<open>n\<close> moves by one record, which end early when one finds nothing.\<close>

fun move_times :: "nat \<Rightarrow> nat \<Rightarrow> 'p idb \<Rightarrow> 'p idb \<times> bool" where
  "move_times 0 c w = (w, True)"
| "move_times (Suc n) c w = (case iterate c None None 1 w of (w1, moved) \<Rightarrow>
     if moved then move_times n c w1 else (w1, False))"

lemma move_twice: "upd_cursor c (move_to (Some r)) (upd_cursor c (move_to (Some q)) w) = upd_cursor c (move_to (Some r)) w"
  by (simp add: upd_cursor_def move_to_def)

lemma move_times_seek:
  assumes "st = seek (cursor_rows (i_work w) (i_cursors w c)) (c_range (i_cursors w c)) (c_direction (i_cursors w c))
     (c_index (i_cursors w c) \<noteq> None) None None"
  shows "(case seek_times st (Suc n) None (c_position (i_cursors w c)) (c_obj_pos (i_cursors w c)) of
      None \<Rightarrow> \<not> snd (move_times (Suc n) c w)
    | Some r \<Rightarrow> move_times (Suc n) c w = (upd_cursor c (move_to (Some r)) w, True))"
  using assms
proof (induction n arbitrary: w)
  case 0
  then show ?case by (simp add: iterate_Suc0 Let_def split: option.split)
next
  case (Suc n)
  define x where "x = i_cursors w c"
  have i: "iterate c None None 1 w = (upd_cursor c (move_to (st (c_position x) (c_obj_pos x))) w, st (c_position x) (c_obj_pos x) \<noteq> None)"
    using Suc.prems by (simp add: iterate_Suc0 Let_def x_def)
  show ?case
  proof (cases "st (c_position x) (c_obj_pos x)")
    case None
    with i show ?thesis by (simp add: x_def)
  next
    case (Some q)
    define w1 where "w1 = upd_cursor c (move_to (Some q)) w"
    have c: "i_cursors w1 c = move_to (Some q) x" "i_work w1 = i_work w" by (simp_all add: w1_def upd_cursor_def x_def)
    have p: "c_position (i_cursors w1 c) = Some (rkey q)" "c_obj_pos (i_cursors w1 c) = Some (rpk q)" by (simp_all add: c)
    have st1: "st = seek (cursor_rows (i_work w1) (i_cursors w1 c)) (c_range (i_cursors w1 c)) (c_direction (i_cursors w1 c))
        (c_index (i_cursors w1 c) \<noteq> None) None None"
      using Suc.prems by (simp add: c x_def)
    have m: "move_times (Suc (Suc n)) c w = move_times (Suc n) c w1" using i Some by (simp add: w1_def)
    have s: "seek_times st (Suc (Suc n)) None (c_position x) (c_obj_pos x) = seek_times st (Suc n) None (Some (rkey q)) (Some (rpk q))"
      using Some by (simp split: option.split)
    have u: "upd_cursor c (move_to (Some r)) w1 = upd_cursor c (move_to (Some r)) w" for r by (simp add: w1_def move_twice)
    from Suc.IH [OF st1] show ?thesis unfolding p m [symmetric] s [symmetric] u x_def .
  qed
qed

text \<open>\<open>advance(n)\<close> ends where \<open>n\<close> calls of \<open>continue()\<close> end: it finds a record exactly when all of them
  do, and the cursor then holds the same record at the same position.\<close>

theorem advance_is_repeated_continue:
  assumes "0 < n"
  shows "snd (iterate c None None n w) = snd (move_times n c w) \<and>
     (snd (move_times n c w) \<longrightarrow> iterate c None None n w = move_times n c w)"
proof -
  from assms obtain m where n: "n = Suc m" by (cases n) auto
  define st where "st = seek (cursor_rows (i_work w) (i_cursors w c)) (c_range (i_cursors w c)) (c_direction (i_cursors w c))
     (c_index (i_cursors w c) \<noteq> None) None None"
  define f where "f = seek_times st (Suc m) None (c_position (i_cursors w c)) (c_obj_pos (i_cursors w c))"
  have i: "iterate c None None n w = (upd_cursor c (move_to f) w, f \<noteq> None)"
    by (simp add: iterate_def find_next_def f_def st_def n Let_def del: seek_times.simps)
  from move_times_seek [OF st_def, of m, folded f_def n] i show ?thesis by (cases f) auto
qed

theorem advance_is_repeated_continue_witness:
  "iterate 0 None None 2 cur_world = move_times 2 0 cur_world \<and> c_key (i_cursors (fst (iterate 0 None None 2 cur_world)) 0) = Some (KNum (Fin 2))"
proof -
  have m: "snd (move_times 2 0 cur_world)" by code_simp
  moreover have "c_key (i_cursors (fst (move_times 2 0 cur_world)) 0) = Some (KNum (Fin 2))" by code_simp
  ultimately show ?thesis using advance_is_repeated_continue [of 2 0 cur_world] by simp
qed

end
