(* ===== verification/IdbTxProps.thy ===== *)
theory IdbTxProps
  imports IdbTxLive IdbCursorProps
begin

text \<open>
  Properties of transactions under every course of events: tasks in the order of the timers, and calls
  of the page from listeners, getters, timers and between tasks.
\<close>

section \<open>A run\<close>

text \<open>
  An open connection to a database with one store, and a page that begins two writing transactions on
  the store.
\<close>

definition run_env :: "unit idb_env" where
  "run_env = \<lparr>a_listeners = (\<lambda>path ev w. (w, 0)), a_timer = (\<lambda>n w. w), a_clone = (\<lambda>v w. (w, Inr ([], v))),
     a_commit = (\<lambda>origin name d. None),
     a_objs = \<lparr>obj_num = (\<lambda>_. Inr NaN), obj_str = (\<lambda>_. Inr []), obj_get = (\<lambda>_ _. Inr Undef), obj_callable = (\<lambda>_. False)\<rparr>,
     a_id_start = (\<lambda>_. True), a_id_continue = (\<lambda>_. True)\<rparr>"

definition run_key :: jstr where
  "run_key = live_key [] (js ''d'')"

definition run_db :: live_db where
  "run_db = \<lparr>v_origin = [], v_name = js ''d'', v_conns = [0], v_txs = [], v_upgrade = None, v_queue = [], v_busy = False, v_waiters = []\<rparr>"

definition run_conn :: idb_conn where
  "run_conn = \<lparr>n_db = run_key, n_version = 1, n_close_pending = False, n_closed = False, n_names = None, n_txs = []\<rparr>"

definition world_start :: "unit idb" where
  "world_start = \<lparr>i_work = \<lparr>stores = [0 \<mapsto> cur_store], indexes = Map.empty, dbs = [0 \<mapsto> \<lparr>db_version = 1, db_stores = [(js ''s'', 0)]\<rparr>],
       next_id = 4, handle_name = (\<lambda>_. []), undo_log = [], dirty = False\<rparr>,
     i_heap = [], i_memory = (\<lambda>_. [(js ''d'', 0)]), i_live = [run_key \<mapsto> run_db], i_conns = (\<lambda>_. run_conn),
     i_txs = (\<lambda>_. new_tx 0 [] ReadOnly None []),
     i_reqs = (\<lambda>_. \<lparr>q_source = NoSource, q_tx = None, q_done = False, q_result = ResUndef, q_error = None\<rparr>),
     i_handles = (\<lambda>_. \<lparr>b_tx = 0, b_store = 0, b_index = None, b_oh = None, b_indexes = []\<rparr>), i_cursors = (\<lambda>_. cur_cursor),
     i_left = (\<lambda>_. 0), i_next = 1, i_tasks = [], i_seq = 1, i_reports = [], i_page = ()\<rparr>"

definition begin_tx :: "unit idb \<Rightarrow> unit idb" where
  "begin_tx w = fst (db_transaction run_env 0 (Str (js ''s'')) (js ''readwrite'') Undef w)"

lemma run_next_step: "i_tasks w \<noteq> [] \<Longrightarrow> idb_step env w (run_next env w)"
  by (cases "i_tasks w") (auto simp: run_next_def intro: s_task)

lemma run_tasks_steps: "(idb_step env)\<^sup>*\<^sup>* w (run_tasks env n w)"
proof (induction n arbitrary: w)
  case (Suc n)
  then show ?case using run_next_step [of w env] by (auto intro: converse_rtranclp_into_rtranclp)
qed simp

lemma run_acts: "page_acts run_env"
  by (simp add: page_acts_def run_env_def)

lemma run_idle: "idle_world world_start"
  by (simp add: idle_world_def world_start_def live_def run_db_def)

lemmas run_defs = live_def later_def upd_conn_def upd_live_def upd_tx_def data_of_def db_of_def check_def guard_def create_tx_def
  schedule_def read_mode_def read_durability_def names_list_def cls_of_def to_jstring_def map_get_def db_stores_of_def set_add_def
  new_tx_def Let_def

lemma run_strings:
  "js ''s'' = [115]" "js ''d'' = [100]" "js ''readwrite'' = [114, 101, 97, 100, 119, 114, 105, 116, 101]"
  "js ''readonly'' = [114, 101, 97, 100, 111, 110, 108, 121]" "js ''default'' = [100, 101, 102, 97, 117, 108, 116]"
  by code_simp+

text \<open>The transaction that a call on the running connection begins.\<close>

lemma begin_tx_eq:
  assumes "i_conns w 0 = run_conn\<lparr>n_txs := ts\<rparr>" "i_live w = [run_key \<mapsto> run_db\<lparr>v_txs := us\<rparr>]"
    "i_memory w = i_memory world_start" "i_work w = i_work world_start"
  shows "begin_tx w = w\<lparr>i_live := [run_key \<mapsto> run_db\<lparr>v_txs := us @ [i_next w]\<rparr>],
      i_conns := (i_conns w)(0 := run_conn\<lparr>n_txs := ts @ [i_next w]\<rparr>),
      i_txs := (i_txs w)(i_next w := (new_tx 0 run_key ReadWrite (Some [0]) (js ''default''))\<lparr>t_scheduled := True, t_seq := i_seq w + 1\<rparr>),
      i_next := i_next w + 1, i_tasks := i_tasks w @ [TaskStep (i_next w)], i_seq := i_seq w + 1\<rparr>"
  using assms
  by (simp add: begin_tx_def db_transaction_def run_defs run_strings run_conn_def run_db_def world_start_def run_key_def live_key_def
    fun_upd_def [symmetric])

definition run_two :: "unit idb" where
  "run_two = begin_tx (begin_tx world_start)"

lemma run_one_eq:
  "begin_tx world_start = world_start\<lparr>i_live := [run_key \<mapsto> run_db\<lparr>v_txs := [1]\<rparr>], i_conns := (i_conns world_start)(0 := run_conn\<lparr>n_txs := [1]\<rparr>),
     i_txs := (i_txs world_start)(1 := (new_tx 0 run_key ReadWrite (Some [0]) (js ''default''))\<lparr>t_scheduled := True, t_seq := 2\<rparr>),
     i_next := 2, i_tasks := [TaskStep 1], i_seq := 2\<rparr>"
  by (subst begin_tx_eq [where ts = "[]" and us = "[]"]) (simp_all add: world_start_def run_conn_def run_db_def numeral_2_eq_2)

lemma run_two_eq:
  "run_two = world_start\<lparr>i_live := [run_key \<mapsto> run_db\<lparr>v_txs := [1, 2]\<rparr>], i_conns := (i_conns world_start)(0 := run_conn\<lparr>n_txs := [1, 2]\<rparr>),
     i_txs := (i_txs world_start)(1 := (new_tx 0 run_key ReadWrite (Some [0]) (js ''default''))\<lparr>t_scheduled := True, t_seq := 2\<rparr>,
                               2 := (new_tx 0 run_key ReadWrite (Some [0]) (js ''default''))\<lparr>t_scheduled := True, t_seq := 3\<rparr>),
     i_next := 3, i_tasks := [TaskStep 1, TaskStep 2], i_seq := 3\<rparr>"
  unfolding run_two_def run_one_eq
  by (subst begin_tx_eq [where ts = "[1]" and us = "[1]"]) (simp_all add: world_start_def)

lemma run_two_steps: "(idb_step run_env)\<^sup>*\<^sup>* world_start run_two"
proof -
  have "idb_step run_env w (begin_tx w)" for w
    unfolding begin_tx_def by (intro s_call c_plain c_transaction)
  then show ?thesis unfolding run_two_def by (meson rtranclp.rtrancl_into_rtrancl rtranclp.rtrancl_refl)
qed

section \<open>The properties\<close>

text \<open>C1: Transactions with overlapping scopes, one of which may write, do not mix: in every state that can be
  reached from an idle start, whatever the page does in its listeners, getters and timers, a transaction in
  the list of a database has changed nothing (its undo log is empty) as long as an earlier conflicting one is
  still in the list.  Upgrade transactions, which run alone, are left out.\<close>

theorem conflicting_transactions_do_not_mix:
  assumes "page_acts env" "idle_world w" "(idb_step env)\<^sup>*\<^sup>* w w'"
    and "v_txs (live w' k) = us @ u # vs @ t # rest" "conflicting (i_txs w' u) (i_txs w' t)"
    and "t_mode (i_txs w' u) \<noteq> VersionChange" "t_mode (i_txs w' t) \<noteq> VersionChange"
  shows "t_undo (i_txs w' t) = []"
proof -
  have "isolation_kept w w'" using isolation_page.steps_keep [of env w w'] assms(1,3) by (simp add: acting_env_def)
  moreover have "isolated w" using assms(2) by (simp add: isolated_def idle_world_def)
  ultimately have "isolated w'" using links_idle [OF assms(2)] by (simp add: isolation_kept_def)
  then have "sorted_wrt (unmixed w') (us @ u # vs @ t # rest)" using assms(4) by (metis isolated_def)
  then have "unmixed w' u t" by (simp add: sorted_wrt_append)
  with assms(5-7) show ?thesis by (simp add: unmixed_def)
qed

theorem conflicting_transactions_do_not_mix_witness:
  "v_txs (live run_two run_key) = [1, 2] \<and> t_undo (i_txs run_two 2) = []"
proof -
  have v: "v_txs (live run_two run_key) = [] @ 1 # [] @ 2 # []" by (simp add: run_two_eq live_def)
  moreover have c: "conflicting (i_txs run_two 1) (i_txs run_two 2)"
    by (simp add: run_two_eq conflicting_def overlaps_def new_tx_def)
  moreover have m: "t_mode (i_txs run_two 1) \<noteq> VersionChange" "t_mode (i_txs run_two 2) \<noteq> VersionChange"
    by (simp_all add: run_two_eq new_tx_def)
  ultimately show ?thesis
    using conflicting_transactions_do_not_mix [OF run_acts run_idle run_two_steps v c m] by simp
qed

text \<open>C3: A read or read-write transaction that has finished stays finished, with the same error and the same
  answer to whether it was aborted, whatever the page and the engine do afterwards.\<close>

theorem finished_transactions_keep_their_outcome:
  assumes "page_acts env" "idle_world w" "(idb_step env)\<^sup>*\<^sup>* w w1" "(idb_step env)\<^sup>*\<^sup>* w1 w2"
    and "t < i_next w1" "t_mode (i_txs w1 t) \<noteq> VersionChange" "t_state (i_txs w1 t) = Finished"
  shows "t_state (i_txs w2 t) = Finished \<and> t_error (i_txs w2 t) = t_error (i_txs w1 t) \<and> t_aborted (i_txs w2 t) = t_aborted (i_txs w1 t)"
proof -
  have "ended_kept w w1" "ended_kept w1 w2"
    using ended_page.steps_keep [of env] assms(1,3,4) by (simp_all add: acting_env_def)
  with links_idle [OF assms(2)] assms(5-7) show ?thesis by (auto simp: ended_kept_def outcome_def)
qed

text \<open>The page aborts the first transaction; then the tasks run.\<close>

theorem finished_transactions_keep_their_outcome_witness:
  "t_state (i_txs (run_tasks run_env 3 (fst (tx_abort 1 run_two))) 1) = Finished"
proof -
  let ?w = "fst (tx_abort 1 run_two)"
  have "known_tx run_two 1" by (simp add: known_tx_def run_two_eq new_tx_def)
  then have "idb_step run_env run_two ?w" by (intro s_call c_plain c_abort)
  with run_two_steps have "(idb_step run_env)\<^sup>*\<^sup>* world_start ?w" by (rule rtranclp.rtrancl_into_rtrancl)
  moreover have "1 < i_next ?w" "t_mode (i_txs ?w 1) \<noteq> VersionChange" "t_state (i_txs ?w 1) = Finished"
    by (simp_all add: tx_abort_def guard_def abort_tx_def Let_def run_two_eq new_tx_def)
  ultimately show ?thesis
    using finished_transactions_keep_their_outcome [OF run_acts run_idle _ run_tasks_steps] by blast
qed

text \<open>C4: Progress, without deadlock: the page has begun read and read-write transactions on connections to live
  databases, has placed any requests in them, and has committed and aborted some, in any order and with tasks
  run in between, starting where no task is waiting and nothing is under way.  When it makes no further calls (its
  listeners may look on, cancel events and throw, and the backend may refuse commits), then after a number of tasks
  bounded by the requests that are queued no task is left and every transaction, also one that had to wait for
  conflicting ones before it, has finished and left its database.  Opening, upgrading, deleting and closing are not
  among the calls.\<close>

theorem transactions_finish:
  assumes "observing env" "tx_course env w"
  shows "\<exists>n \<le> (card (alive_txs w) + 2) * (\<Sum>t \<in> alive_txs w. 4 * length (t_queue (i_txs w t)) + 5) + length (i_tasks w).
    i_tasks (run_tasks env n w) = [] \<and> alive_txs (run_tasks env n w) = {} \<and>
    (\<forall>t \<in> alive_txs w. t_state (i_txs (run_tasks env n w) t) = Finished)"
proof -
  define c where "c = card (alive_txs w)"
  have f: "flowing w" using course_flows [OF assms(2,1)] by (simp add: flows_def)
  have "\<exists>n \<le> potential c w. i_tasks (run_tasks env n w) = [] \<and> alive_txs (run_tasks env n w) = {} \<and>
      (\<forall>t. t \<in> alive_txs w \<or> t_state (i_txs w t) = Finished \<longrightarrow> t_state (i_txs (run_tasks env n w) t) = Finished)"
    if "flowing w" "card (alive_txs w) \<le> c" for w
    using that
  proof (induction "potential c w" arbitrary: w rule: less_induct)
    case less
    show ?case
    proof (cases "i_tasks w = []")
      case True
      with flowing_done [OF less.prems(1)] show ?thesis by (intro exI [of _ 0]) simp
    next
      case False
      from next_advances [OF assms(1) less.prems(1) False less.prems(2)]
      have a: "flowing (run_next env w)" "potential c (run_next env w) < potential c w" "alive_txs (run_next env w) \<subseteq> alive_txs w"
        "t \<in> alive_txs w \<or> t_state (i_txs w t) = Finished \<Longrightarrow> t \<in> alive_txs (run_next env w) \<or> t_state (i_txs (run_next env w) t) = Finished" for t
        by (auto simp: advances_def)
      have "card (alive_txs (run_next env w)) \<le> c" using card_mono [OF flowingD(4) [OF less.prems(1)] a(3)] less.prems(2) by simp
      from less.hyps [OF a(2,1) this] obtain m where "m \<le> potential c (run_next env w)" "i_tasks (run_tasks env m (run_next env w)) = []"
        "alive_txs (run_tasks env m (run_next env w)) = {}"
        "t \<in> alive_txs (run_next env w) \<or> t_state (i_txs (run_next env w) t) = Finished \<Longrightarrow> t_state (i_txs (run_tasks env m (run_next env w)) t) = Finished" for t
        by blast
      with False a(2,4) show ?thesis by (intro exI [of _ "Suc m"]) auto
    qed
  qed
  from this [OF f] obtain n where "n \<le> potential c w" "i_tasks (run_tasks env n w) = []" "alive_txs (run_tasks env n w) = {}"
    "\<forall>t \<in> alive_txs w. t_state (i_txs (run_tasks env n w) t) = Finished" by (auto simp: c_def)
  moreover have "(\<Sum>t \<in> alive_txs w. turns_left (i_txs w t)) \<le> (\<Sum>t \<in> alive_txs w. 4 * length (t_queue (i_txs w t)) + 5)"
    by (rule sum_mono) (simp add: turns_left_def split: tx_state.split)
  from mult_le_mono2 [OF this, of "c + 2"]
  have "potential c w \<le> (c + 2) * (\<Sum>t \<in> alive_txs w. 4 * length (t_queue (i_txs w t)) + 5) + length (i_tasks w)"
    by (simp only: potential_def add_le_cancel_right)
  ultimately show ?thesis unfolding c_def by (meson le_trans)
qed

text \<open>Two transactions that write to the same store, the second with a request: it waits for the first.\<close>

theorem transactions_finish_witness:
  "\<exists>n. i_tasks (run_tasks run_env n (fst (execute (SourceHandle 0) 2 (OpCount 0 None) None run_two))) = [] \<and>
     t_state (i_txs (run_tasks run_env n (fst (execute (SourceHandle 0) 2 (OpCount 0 None) None run_two))) 1) = Finished \<and>
     t_state (i_txs (run_tasks run_env n (fst (execute (SourceHandle 0) 2 (OpCount 0 None) None run_two))) 2) = Finished"
proof -
  let ?w = "fst (execute (SourceHandle 0) 2 (OpCount 0 None) None run_two)"
  have o: "observing run_env" unfolding observing_def
  proof (intro conjI allI exI)
    show "fst (a_listeners run_env path ev w) = w\<lparr>i_page := i_page w, i_heap := i_heap w\<rparr>" for path ev w by (simp add: run_env_def)
    show "a_timer run_env n w = w\<lparr>i_page := i_page w, i_heap := i_heap w\<rparr>" for n w by (simp add: run_env_def)
  qed
  have "tx_course run_env world_start" by (rule course_start) (simp_all add: world_start_def live_def run_db_def)
  then have "tx_course run_env (begin_tx world_start)" unfolding begin_tx_def
    by (rule course_begin) (simp add: world_start_def run_conn_def)
  then have two: "tx_course run_env run_two" unfolding run_two_def begin_tx_def [of "begin_tx world_start"]
    by (rule course_begin) (simp add: begin_tx_eq [where ts = "[]" and us = "[]"] world_start_def run_conn_def run_db_def)
  have al: "alive_txs run_two = {1, 2}" by (auto simp: alive_txs_def run_two_eq live_def)
  have "2 \<in> alive_txs run_two" "t_state (i_txs run_two 2) \<noteq> Finished" using al by (simp, simp add: run_two_eq new_tx_def)
  then have c: "tx_course run_env ?w" by (rule course_request [OF two])
  have "live (w\<lparr>i_reqs := q, i_next := n\<rparr>) k = live w k" for w :: "unit idb" and q n k by (simp add: live_def)
  then have "live ?w k = live run_two k" for k by (simp add: execute_def new_request_def schedule_def Let_def)
  then have "alive_txs ?w = {1, 2}" using al by (simp add: alive_txs_def)
  with transactions_finish [OF o c] show ?thesis by auto
qed

text \<open>A page whose value has a getter that aborts the transaction.\<close>

definition abort_env :: "unit idb_env" where
  "abort_env = run_env\<lparr>a_clone := \<lambda>v w. (fst (tx_abort 1 w), Inr ([], v))\<rparr>"

definition abort_start :: "unit idb" where
  "abort_start = fst (object_store 1 (js ''s'') (begin_tx world_start))"

definition abort_put :: "unit idb \<times> nat res" where
  "abort_put = add_or_put abort_env 2 (Num (Fin 5)) (Num (Fin 7)) False abort_start"

lemma abort_start_eq:
  "abort_start = (begin_tx world_start)\<lparr>i_work := (i_work world_start)\<lparr>handle_name := (\<lambda>_. [])(2 := js ''s'')\<rparr>,
     i_handles := (i_handles world_start)(2 := \<lparr>b_tx = 1, b_store = 0, b_index = None, b_oh = None, b_indexes = []\<rparr>),
     i_txs := (i_txs (begin_tx world_start))(1 := (i_txs (begin_tx world_start) 1)\<lparr>t_handles := [(0, 2)]\<rparr>), i_next := 3\<rparr>"
  unfolding abort_start_def run_one_eq
  by (simp add: object_store_def guard_def new_tx_def find_store_def store_at_def world_start_def store_handle_def new_handle_def
    cur_store_def set_handle_name_def upd_handle_def upd_tx_def map_set_def Let_def run_strings)

lemma abort_put_eq:
  "snd abort_put = Inr 3" "i_tasks (fst abort_put) = [TaskStep 1, TaskTxAborted 1]"
  "t_state (i_txs (fst abort_put) 1) = Finished" "q_done (i_reqs (fst abort_put) 3) = False"
  "t_queue (i_txs (fst abort_put) 1) = [(Some 3, OpStore 0 ([], Num (Fin 5)) (Some (KNum (Fin 7))) False)]"
  unfolding abort_put_def abort_start_eq run_one_eq
  by (simp_all add: add_or_put_def check_def guard_def preflight_def Let_def new_tx_def source_deleted_def store_at_def world_start_def
    cur_store_def to_key_or_throw_def to_key_top_def drop_path_def clone_in_tx_def abort_env_def run_env_def tx_abort_def abort_tx_def
    rollback_tx_def in_tx_def rollback_def inline_key_def place_def execute_def new_request_def schedule_def later_def upd_tx_def
    upd_req_def)

lemma abort_put_conn: "n_close_pending (i_conns (fst abort_put) 0) = False" "t_conn (i_txs (fst abort_put) 1) = 0"
  "t_mode (i_txs (fst abort_put) 1) = ReadWrite" "t_open_req (i_txs (fst abort_put) 1) = None" "t_on_finish (i_txs (fst abort_put) 1) = []"
  "t_db (i_txs (fst abort_put) 1) = run_key" "v_txs (live (fst abort_put) run_key) = [1]" "i_live (fst abort_put) run_key \<noteq> None"
  unfolding abort_put_def abort_start_eq run_one_eq
  by (simp_all add: add_or_put_def check_def guard_def preflight_def Let_def new_tx_def source_deleted_def store_at_def world_start_def
    cur_store_def to_key_or_throw_def to_key_top_def drop_path_def clone_in_tx_def abort_env_def run_env_def tx_abort_def abort_tx_def
    rollback_tx_def in_tx_def rollback_def inline_key_def place_def execute_def new_request_def schedule_def later_def upd_tx_def
    upd_req_def run_conn_def live_def)

lemma other_fields:
  "i_conns (upd_tx t f w) = i_conns w" "i_conns (upd_live k g w) = i_conns w"
  "i_conns (upd_conn c h w) = (i_conns w)(c := h (i_conns w c))"
  "i_reqs (upd_tx t f w) = i_reqs w" "i_reqs (upd_live k g w) = i_reqs w" "i_reqs (upd_conn c h w) = i_reqs w"
  by (simp_all add: upd_tx_def upd_live_def upd_conn_def)

lemma abort_put_run:
  "i_tasks (run_tasks abort_env (Suc (Suc n)) (fst abort_put)) = [] \<and> i_reqs (run_tasks abort_env m (fst abort_put)) = i_reqs (fst abort_put)"
proof -
  define w where "w = fst abort_put"
  define w1 where "w1 = upd_tx 1 (\<lambda>x. x\<lparr>t_scheduled := False\<rparr>) (w\<lparr>i_tasks := [TaskTxAborted 1]\<rparr>)"
  define w2 where "w2 = finalize_tx 1 (w1\<lparr>i_tasks := []\<rparr>)"
  note facts = abort_put_eq abort_put_conn
  have 1: "run_next abort_env w = w1" using facts by (simp add: run_next_def w_def w1_def step_def Let_def)
  have 2: "run_next abort_env w1 = w2"
    using facts by (simp add: run_next_def w1_def w2_def w_def tx_aborted_def dispatch_at_def abort_env_def run_env_def Let_def)
  have "i_tasks w2 = [] \<and> i_reqs w2 = i_reqs w"
    using facts by (simp add: w2_def w1_def w_def finalize_tx_def Let_def pump_db_def maybe_closed_def live_upd other_fields)
  moreover have "i_tasks w \<noteq> []" "i_tasks w1 \<noteq> []" "i_reqs w1 = i_reqs w" using facts by (simp_all add: w_def w1_def upd_tx_def)
  moreover have "run_tasks abort_env k v = v" if "i_tasks v = []" for k v using that by (cases k) simp_all
  ultimately show ?thesis unfolding w_def [symmetric]
    by (cases m; cases "m - 1") (auto simp: 1 2)
qed

text \<open>A request can be lost.  When a getter of the value given to \<open>put()\<close> aborts the transaction, \<open>put()\<close> does
  not throw but returns a request, which is queued on the transaction that has just finished: no task
  answers it, with neither success nor error, however long the page waits.\<close>

theorem put_in_aborted_transaction_is_never_answered:
  "snd abort_put = Inr 3 \<and> (\<forall>n. \<not> q_done (i_reqs (run_tasks abort_env n (fst abort_put)) 3)) \<and>
   (\<exists>n. i_tasks (run_tasks abort_env n (fst abort_put)) = [])"
proof -
  have "i_tasks (run_tasks abort_env (Suc (Suc 0)) (fst abort_put)) = []" using abort_put_run by blast
  then show ?thesis using abort_put_eq abort_put_run by metis
qed

end
