(* ===== verification/XDom.thy ===== *)
theory XDom
  imports JsPrelude KeyOrder
begin

text \<open>
  The nodes an XPath expression sees (\<open>25_xpath.js\<close>, lines 40--140 and 250--285): the native
  tree as the layer's natives present it, the access functions over natives and wrapper cache,
  and document order.
\<close>

section \<open>The native tree\<close>

text \<open>
  A native node is known by its id, a positive number.  \<open>i_nkind\<close> and \<open>i_nns\<close> are what the natives
  report; a node with a wrapper in the cache (\<open>i_cached\<close>) also has the type and namespace code of
  its stamp, which know CDATA sections, processing instructions, doctypes and namespaces of XML
  documents.  \<open>i_name\<close> is the \<open>nodeName\<close> of a processing instruction.
\<close>

record ninfo =
  i_nkind :: int
  i_nns :: "jstr option"
  i_cached :: bool
  i_kind :: int
  i_ns_code :: int
  i_ns_other :: "jstr option"
  i_prefix :: "jstr option"
  i_local :: jstr
  i_name :: jstr
  i_text :: jstr
  i_attrs :: "(jstr \<times> jstr) list"

datatype tree = T (tid: nat) (tinfo: ninfo) (tkids: "tree list")

text \<open>
  \<open>d_trees\<close> holds the tree of the document and the detached trees; \<open>d_html\<close> tells for a document
  node whether its content type is \<open>text/html\<close>; \<open>d_node_docs\<close> is the \<open>nodeDocs\<close> map of detached roots.
\<close>

record dom =
  d_trees :: "tree list"
  d_document :: nat
  d_html :: "(nat \<times> bool) list"
  d_detached :: nat
  d_node_docs :: "(nat \<times> nat) list"

fun find_tree :: "nat \<Rightarrow> tree \<Rightarrow> tree option"
  and find_trees :: "nat \<Rightarrow> tree list \<Rightarrow> tree option" where
  "find_tree x (T i n ks) = (if i = x then Some (T i n ks) else find_trees x ks)"
| "find_trees x [] = None"
| "find_trees x (t # ts) = (case find_tree x t of Some u \<Rightarrow> Some u | None \<Rightarrow> find_trees x ts)"

fun parent_tree :: "nat \<Rightarrow> nat \<Rightarrow> tree \<Rightarrow> nat option"
  and parent_trees :: "nat \<Rightarrow> nat \<Rightarrow> tree list \<Rightarrow> nat option" where
  "parent_tree x p (T i n ks) = (if i = x then Some p else parent_trees x i ks)"
| "parent_trees x p [] = None"
| "parent_trees x p (t # ts) = (case parent_tree x p t of Some q \<Rightarrow> Some q | None \<Rightarrow> parent_trees x p ts)"

fun pre_tree :: "tree \<Rightarrow> nat list"
  and pre_trees :: "tree list \<Rightarrow> nat list" where
  "pre_tree (T i n ks) = i # pre_trees ks"
| "pre_trees [] = []"
| "pre_trees (t # ts) = pre_tree t @ pre_trees ts"

definition node :: "dom \<Rightarrow> nat \<Rightarrow> tree option" where
  "node d x = find_trees x (d_trees d)"

definition info :: "dom \<Rightarrow> nat \<Rightarrow> ninfo option" where
  "info d x = map_option tinfo (node d x)"

text \<open>The natives \<open>parent\<close>, \<open>childIds\<close>, \<open>nextSibling\<close>, \<open>prevSibling\<close>, \<open>contains\<close>; \<open>0\<close> is no node.\<close>

definition parent :: "dom \<Rightarrow> nat \<Rightarrow> nat" where
  "parent d x = (case parent_trees x 0 (d_trees d) of None \<Rightarrow> 0 | Some p \<Rightarrow> p)"

definition child_ids :: "dom \<Rightarrow> nat \<Rightarrow> nat list" where
  "child_ids d x = (case node d x of None \<Rightarrow> [] | Some t \<Rightarrow> map tid (tkids t))"

fun after :: "nat \<Rightarrow> nat list \<Rightarrow> nat" where
  "after x (a # b # xs) = (if a = x then b else after x (b # xs))"
| "after x _ = 0"

definition siblings :: "dom \<Rightarrow> nat \<Rightarrow> nat list" where
  "siblings d x = (if parent d x = 0 then [] else child_ids d (parent d x))"

definition next_sibling :: "dom \<Rightarrow> nat \<Rightarrow> nat" where
  "next_sibling d x = after x (siblings d x)"

definition prev_sibling :: "dom \<Rightarrow> nat \<Rightarrow> nat" where
  "prev_sibling d x = after x (rev (siblings d x))"

definition subtree_ids :: "dom \<Rightarrow> nat \<Rightarrow> nat list" where
  "subtree_ids d x = (case node d x of None \<Rightarrow> [] | Some t \<Rightarrow> pre_tree t)"

definition contains :: "dom \<Rightarrow> nat \<Rightarrow> nat \<Rightarrow> bool" where
  "contains d a b = (b \<in> set (subtree_ids d a))"

definition all_ids :: "dom \<Rightarrow> nat list" where
  "all_ids d = pre_trees (d_trees d)"

text \<open>
  \<open>compareDocumentPosition\<close>: the bits \<open>PRECEDING\<close> (2) and \<open>FOLLOWING\<close> (4) of \<open>b\<close> relative to \<open>a\<close>, by
  position in preorder; nodes of different trees are ordered by their trees.
\<close>

fun pos_in :: "nat \<Rightarrow> nat list \<Rightarrow> nat" where
  "pos_in x [] = 0"
| "pos_in x (y # ys) = (if x = y then 0 else Suc (pos_in x ys))"

definition doc_pos :: "dom \<Rightarrow> nat \<Rightarrow> nat" where
  "doc_pos d x = pos_in x (all_ids d)"

definition compare_position :: "dom \<Rightarrow> nat \<Rightarrow> nat \<Rightarrow> int" where
  "compare_position d a b =
     (if doc_pos d a < doc_pos d b then 4 else if doc_pos d b < doc_pos d a then 2 else 0)"

text \<open>\<open>textContent\<close>, \<open>getText\<close>, \<open>getAttr\<close>, \<open>attrNames\<close>.\<close>

fun text_tree :: "tree \<Rightarrow> jstr"
  and text_trees :: "tree list \<Rightarrow> jstr" where
  "text_tree (T i n ks) = (if i_nkind n = 3 then i_text n else text_trees ks)"
| "text_trees [] = []"
| "text_trees (t # ts) = text_tree t @ text_trees ts"

definition text_content :: "dom \<Rightarrow> nat \<Rightarrow> jstr" where
  "text_content d x = (case node d x of None \<Rightarrow> [] | Some t \<Rightarrow> text_trees (tkids t))"

definition get_text :: "dom \<Rightarrow> nat \<Rightarrow> jstr" where
  "get_text d x = (case info d x of None \<Rightarrow> [] | Some n \<Rightarrow> i_text n)"

definition attr_names :: "dom \<Rightarrow> nat \<Rightarrow> jstr list" where
  "attr_names d x = (case info d x of None \<Rightarrow> [] | Some n \<Rightarrow> map fst (i_attrs n))"

definition get_attr :: "dom \<Rightarrow> nat \<Rightarrow> jstr \<Rightarrow> jstr option" where
  "get_attr d x name = (case info d x of None \<Rightarrow> None | Some n \<Rightarrow> map_of (i_attrs n) name)"

section \<open>Node access\<close>

definition ns_html :: jstr where "ns_html = js ''http://www.w3.org/1999/xhtml''"
definition ns_svg :: jstr where "ns_svg = js ''http://www.w3.org/2000/svg''"
definition ns_mathml :: jstr where "ns_mathml = js ''http://www.w3.org/1998/Math/MathML''"
definition ns_xlink :: jstr where "ns_xlink = js ''http://www.w3.org/1999/xlink''"
definition ns_xml :: jstr where "ns_xml = js ''http://www.w3.org/XML/1998/namespace''"
definition ns_xmlns :: jstr where "ns_xmlns = js ''http://www.w3.org/2000/xmlns/''"

definition ns_code :: "jstr option \<Rightarrow> int" where
  "ns_code uri = (case uri of
     None \<Rightarrow> 4
   | Some u \<Rightarrow> if u = ns_html \<or> u = [] then 0 else if u = ns_svg then 1 else if u = ns_mathml then 2 else 3)"

definition ns_uri_of_code :: "int \<Rightarrow> jstr option" where
  "ns_uri_of_code c = (if c = 0 then Some ns_html else if c = 1 then Some ns_svg else if c = 2 then Some ns_mathml else None)"

text \<open>A node of a node-set: a native id, the attribute of an element, or an attribute without owner.\<close>

datatype xnode =
    Nd nat
  | At nat jstr
  | Orphan nat jstr "jstr option" "jstr option" jstr

definition kind_of :: "dom \<Rightarrow> nat \<Rightarrow> int" where
  "kind_of d x = (case info d x of None \<Rightarrow> 0 | Some n \<Rightarrow> if i_cached n then i_kind n else i_nkind n)"

definition has_children :: "int \<Rightarrow> bool" where
  "has_children k = (k = 1 \<or> k = 9 \<or> k = 11)"

definition el_local :: "dom \<Rightarrow> nat \<Rightarrow> jstr" where
  "el_local d x = (case info d x of None \<Rightarrow> [] | Some n \<Rightarrow> i_local n)"

definition el_ns :: "dom \<Rightarrow> nat \<Rightarrow> jstr option" where
  "el_ns d x = (case info d x of
     None \<Rightarrow> None
   | Some n \<Rightarrow>
       if i_cached n then
         (if i_ns_code n = 3 then (if i_ns_other n = Some [] then None else i_ns_other n) else ns_uri_of_code (i_ns_code n))
       else (if ns_code (i_nns n) = 3 then i_nns n else ns_uri_of_code (ns_code (i_nns n))))"

fun owner_id :: "xnode \<Rightarrow> nat" where
  "owner_id (Nd x) = x"
| "owner_id (At e name) = e"
| "owner_id (Orphan i l ns p v) = 0"

text \<open>
  The loops \<open>for (p = id; p !== 0; p = N.parent(p))\<close>.  A chain of parents is no longer than the number
  of nodes, which bounds the loop.
\<close>

fun up :: "dom \<Rightarrow> nat \<Rightarrow> nat \<Rightarrow> nat list" where
  "up d 0 x = []"
| "up d (Suc fuel) x = (if x = 0 then [] else x # up d fuel (parent d x))"

definition ancestors_self :: "dom \<Rightarrow> nat \<Rightarrow> nat list" where
  "ancestors_self d x = up d (Suc (length (all_ids d))) x"

definition root_of :: "dom \<Rightarrow> xnode \<Rightarrow> xnode" where
  "root_of d n = (if owner_id n = 0 then n else Nd (last (ancestors_self d (owner_id n))))"

definition plain_attrs :: "dom \<Rightarrow> bool \<Rightarrow> nat \<Rightarrow> bool" where
  "plain_attrs d html x = (html \<and> el_ns d x = Some ns_html)"

definition is_ns_decl :: "dom \<Rightarrow> bool \<Rightarrow> nat \<Rightarrow> jstr \<Rightarrow> bool" where
  "is_ns_decl d html x name =
     ((name = js ''xmlns'' \<or> prefix_of (js ''xmlns:'') name) \<and> \<not> plain_attrs d html x)"

text \<open>The search for the declaration of a prefix; an empty value counts as none (\<open>|| null\<close>).\<close>

fun scope_ns :: "dom \<Rightarrow> jstr \<Rightarrow> nat list \<Rightarrow> jstr option" where
  "scope_ns d name [] = None"
| "scope_ns d name (e # es) =
     (case (if kind_of d e = 1 then get_attr d e name else None) of
        Some u \<Rightarrow> if u = [] then scope_ns d name es else Some u
      | None \<Rightarrow> scope_ns d name es)"

definition attr_ns :: "dom \<Rightarrow> bool \<Rightarrow> nat \<Rightarrow> jstr \<Rightarrow> jstr option" where
  "attr_ns d html x prefix =
     (if prefix = js ''xmlns'' then Some ns_xmlns
      else if prefix = js ''xml'' then Some ns_xml
      else case (if html then None else scope_ns d (js ''xmlns:'' @ prefix) (ancestors_self d x)) of
             Some u \<Rightarrow> Some u
           | None \<Rightarrow> if prefix = js ''xlink'' then Some ns_xlink else None)"

definition attr_parts :: "dom \<Rightarrow> bool \<Rightarrow> nat \<Rightarrow> jstr \<Rightarrow> jstr \<times> jstr option \<times> jstr option" where
  "attr_parts d html x name =
     (if plain_attrs d html x then (name, None, None)
      else case index_of (js '':'') name of
             Some (Suc i) \<Rightarrow>
               (case attr_ns d html x (take (Suc i) name) of
                  None \<Rightarrow> (name, None, None)
                | Some u \<Rightarrow> (drop (Suc (Suc i)) name, Some u, Some (take (Suc i) name)))
           | _ \<Rightarrow> if name = js ''xmlns'' then (name, Some ns_xmlns, None) else (name, None, None))"

definition name_parts :: "dom \<Rightarrow> bool \<Rightarrow> xnode \<Rightarrow> (jstr \<times> jstr option \<times> jstr option) option" where
  "name_parts d html n = (case n of
     At e name \<Rightarrow> Some (attr_parts d html e name)
   | Orphan i l ns p v \<Rightarrow> Some (l, ns, p)
   | Nd x \<Rightarrow>
       if kind_of d x = 1 then
         Some (el_local d x, el_ns d x, case info d x of None \<Rightarrow> None | Some n \<Rightarrow> if i_prefix n = Some [] then None else i_prefix n)
       else if kind_of d x = 7 then Some (case info d x of None \<Rightarrow> [] | Some n \<Rightarrow> i_name n, None, None)
       else None)"

definition string_value :: "dom \<Rightarrow> xnode \<Rightarrow> jstr" where
  "string_value d n = (case n of
     At e name \<Rightarrow> (case get_attr d e name of None \<Rightarrow> [] | Some v \<Rightarrow> v)
   | Orphan i l ns p v \<Rightarrow> v
   | Nd x \<Rightarrow>
       (let k = kind_of d x in
        if k = 1 \<or> k = 9 \<or> k = 11 then text_content d x
        else if k = 3 \<or> k = 4 \<or> k = 7 \<or> k = 8 then get_text d x
        else []))"

section \<open>Document order\<close>

text \<open>An item of the sort: the node, the id it is ordered by, and the place among the attributes.\<close>

definition attr_index :: "dom \<Rightarrow> xnode \<Rightarrow> int" where
  "attr_index d n = (case n of
     At e name \<Rightarrow> if e = 0 then 0
       else 1 + (if name \<in> set (attr_names d e) then int (length (takeWhile (\<lambda>m. m \<noteq> name) (attr_names d e))) else -1)
   | _ \<Rightarrow> 0)"

definition cmp_items :: "dom \<Rightarrow> xnode \<Rightarrow> xnode \<Rightarrow> int" where
  "cmp_items d a b =
     (if owner_id a = owner_id b then attr_index d a - attr_index d b
      else let r = compare_position d (owner_id a) (owner_id b) in
        if r = 4 then -1 else if r = 2 then 1 else 0)"

text \<open>\<open>Array.from(new Set(nodes))\<close>: the first occurrence of each node.\<close>

fun first_occurrences :: "'a list \<Rightarrow> 'a list \<Rightarrow> 'a list" where
  "first_occurrences seen [] = []"
| "first_occurrences seen (x # xs) =
     (if x \<in> set seen then first_occurrences seen xs else x # first_occurrences (x # seen) xs)"

text \<open>\<open>Array.prototype.sort\<close> with a comparison function: a stable sort.\<close>

fun insert_cmp :: "('a \<Rightarrow> 'a \<Rightarrow> int) \<Rightarrow> 'a \<Rightarrow> 'a list \<Rightarrow> 'a list" where
  "insert_cmp cmp x [] = [x]"
| "insert_cmp cmp x (y # ys) = (if cmp x y \<le> 0 then x # y # ys else y # insert_cmp cmp x ys)"

fun sort_cmp :: "('a \<Rightarrow> 'a \<Rightarrow> int) \<Rightarrow> 'a list \<Rightarrow> 'a list" where
  "sort_cmp cmp [] = []"
| "sort_cmp cmp (x # xs) = insert_cmp cmp x (sort_cmp cmp xs)"

definition doc_order :: "dom \<Rightarrow> xnode list \<Rightarrow> xnode list" where
  "doc_order d nodes =
     (if length nodes < 2 then nodes
      else let uniq = first_occurrences [] nodes in
        if length uniq < 2 then uniq else sort_cmp (cmp_items d) uniq)"

section \<open>The document of a node\<close>

definition is_connected :: "dom \<Rightarrow> nat \<Rightarrow> bool" where
  "is_connected d x = contains d (d_document d) x"

definition owner_document_of :: "dom \<Rightarrow> nat \<Rightarrow> nat" where
  "owner_document_of d x =
     (if d_detached d = 0 then d_document d
      else if is_connected d x then d_document d
      else let r = last (ancestors_self d x) in
        case info d r of
          Some n \<Rightarrow> if i_cached n
                    then (if map_of (d_html d) r \<noteq> None then r
                          else case map_of (d_node_docs d) r of Some o1 \<Rightarrow> o1 | None \<Rightarrow> d_document d)
                    else d_document d
        | None \<Rightarrow> d_document d)"

end
