(* ===== verification/XConv.thy ===== *)
theory XConv
  imports XDom JsNum
begin

text \<open>
  Values of XPath expressions, their conversions and comparisons (\<open>25_xpath.js\<close>, lines 140--250).
\<close>

datatype xval = XNum jsnum | XStr jstr | XBool bool | XSet "xnode list"

definition is_set :: "xval \<Rightarrow> bool" where
  "is_set v = (case v of XSet _ \<Rightarrow> True | _ \<Rightarrow> False)"

definition node_set_of :: "xval \<Rightarrow> xnode list res" where
  "node_set_of v = (case v of XSet ns \<Rightarrow> Inr ns | _ \<Rightarrow> Inl (DomErr ''SyntaxError''))"

section \<open>Numbers and strings\<close>

definition is_space :: "cu \<Rightarrow> bool" where
  "is_space c = (c = 32 \<or> c = 9 \<or> c = 13 \<or> c = 10)"

definition trim_spaces :: "jstr \<Rightarrow> jstr" where
  "trim_spaces s = rev (dropWhile is_space (rev (dropWhile is_space s)))"

text \<open>The body of \<open>NUMBER_RE\<close> after the sign: digits with an optional fraction, or a point and digits.\<close>

definition unsigned_num :: "bool \<Rightarrow> jstr \<Rightarrow> jsnum" where
  "unsigned_num neg s =
     (let i = takeWhile is_digit s; r = dropWhile is_digit s in
      if i \<noteq> [] then
        (case r of
           [] \<Rightarrow> decimal_val neg i []
         | c # f \<Rightarrow> if c = 46 \<and> list_all is_digit f then decimal_val neg i f else NaN)
      else
        (case r of
           c # f \<Rightarrow> if c = 46 \<and> f \<noteq> [] \<and> list_all is_digit f then decimal_val neg [] f else NaN
         | [] \<Rightarrow> NaN))"

definition str_to_num :: "jstr \<Rightarrow> jsnum" where
  "str_to_num s = (case trim_spaces s of
     [] \<Rightarrow> NaN
   | c # r \<Rightarrow> if c = 45 then unsigned_num True r else unsigned_num False (c # r))"

text \<open>
  \<open>numToStr\<close>: the language's own rendering, with an exponent spelled out.  \<open>split_exp\<close> is the match
  of the regular expression: sign, digits, fraction and exponent.
\<close>

definition split_exp :: "jstr \<Rightarrow> (jstr \<times> jstr \<times> int) option" where
  "split_exp s =
     (let neg = prefix_of (js ''-'') s; body = (if neg then drop 1 s else s);
          m = takeWhile (\<lambda>c. c \<noteq> 101) body; e = dropWhile (\<lambda>c. c \<noteq> 101) body in
      case e of
        c # sg # ds \<Rightarrow>
          (let digits = filter is_digit m; x = digits_val 0 ds in
           Some (if neg then js ''-'' else [], digits, if sg = 45 then - x else x))
      | _ \<Rightarrow> None)"

definition xnum_to_str :: "jsnum \<Rightarrow> jstr" where
  "xnum_to_str v =
     (if v = NaN then js ''NaN''
      else if num_eq v (Fin 0) then js ''0''
      else if v = PInf then js ''Infinity''
      else if v = NInf then js ''-Infinity''
      else let s = num_to_string v in
        case split_exp s of
          None \<Rightarrow> s
        | Some (sg, digits, e) \<Rightarrow>
            if e < 0 then sg @ js ''0.'' @ zeros (- e - 1) @ digits
            else if int (length digits) \<le> 1 + e then sg @ digits @ zeros (1 + e - int (length digits))
            else sg @ take (nat (1 + e)) digits @ js ''.'' @ drop (nat (1 + e)) digits)"

definition to_str :: "dom \<Rightarrow> xval \<Rightarrow> jstr" where
  "to_str d v = (case v of
     XStr s \<Rightarrow> s
   | XNum n \<Rightarrow> xnum_to_str n
   | XBool b \<Rightarrow> if b then js ''true'' else js ''false''
   | XSet [] \<Rightarrow> []
   | XSet (n # _) \<Rightarrow> string_value d n)"

definition to_num :: "dom \<Rightarrow> xval \<Rightarrow> jsnum" where
  "to_num d v = (case v of
     XNum n \<Rightarrow> n
   | XStr s \<Rightarrow> str_to_num s
   | XBool b \<Rightarrow> if b then Fin 1 else Fin 0
   | XSet _ \<Rightarrow> str_to_num (to_str d v))"

definition to_bool :: "xval \<Rightarrow> bool" where
  "to_bool v = (case v of
     XBool b \<Rightarrow> b
   | XNum n \<Rightarrow> \<not> num_eq n (Fin 0) \<and> n \<noteq> NaN
   | XStr s \<Rightarrow> s \<noteq> []
   | XSet ns \<Rightarrow> ns \<noteq> [])"

section \<open>Comparisons\<close>

datatype cmpop = CEq | CNe | CLt | CLe | CGt | CGe

fun cmp_num_op :: "cmpop \<Rightarrow> jsnum \<Rightarrow> jsnum \<Rightarrow> bool" where
  "cmp_num_op CEq a b = num_eq a b"
| "cmp_num_op CNe a b = (\<not> num_eq a b)"
| "cmp_num_op CLt a b = num_lt a b"
| "cmp_num_op CLe a b = num_le a b"
| "cmp_num_op CGt a b = num_lt b a"
| "cmp_num_op CGe a b = num_le b a"

definition is_bool_val :: "xval \<Rightarrow> bool" where
  "is_bool_val v = (case v of XBool _ \<Rightarrow> True | _ \<Rightarrow> False)"

definition is_num_val :: "xval \<Rightarrow> bool" where
  "is_num_val v = (case v of XNum _ \<Rightarrow> True | _ \<Rightarrow> False)"

definition prim_eq :: "dom \<Rightarrow> xval \<Rightarrow> xval \<Rightarrow> bool" where
  "prim_eq d x y =
     (if is_bool_val x \<or> is_bool_val y then to_bool x = to_bool y
      else if is_num_val x \<or> is_num_val y then num_eq (to_num d x) (to_num d y)
      else x = y)"

definition cmp_prim :: "dom \<Rightarrow> cmpop \<Rightarrow> xval \<Rightarrow> xval \<Rightarrow> bool" where
  "cmp_prim d op x y = (case op of
     CEq \<Rightarrow> prim_eq d x y
   | CNe \<Rightarrow> \<not> prim_eq d x y
   | _ \<Rightarrow> cmp_num_op op (to_num d x) (to_num d y))"

text \<open>The loops of \<open>compare\<close>; for \<open>=\<close> the strings of the right operand are put in a set first.\<close>

fun any_right :: "dom \<Rightarrow> cmpop \<Rightarrow> jstr \<Rightarrow> jstr list \<Rightarrow> bool" where
  "any_right d op s [] = False"
| "any_right d op s (t # ts) = (if cmp_prim d op (XStr s) (XStr t) then True else any_right d op s ts)"

fun any_left :: "dom \<Rightarrow> cmpop \<Rightarrow> xnode list \<Rightarrow> jstr list \<Rightarrow> bool" where
  "any_left d op [] strs = False"
| "any_left d op (n # ns) strs =
     (if op = CEq then (if string_value d n \<in> set strs then True else any_left d op ns strs)
      else if any_right d op (string_value d n) strs then True else any_left d op ns strs)"

fun any_other :: "dom \<Rightarrow> cmpop \<Rightarrow> bool \<Rightarrow> xnode list \<Rightarrow> xval \<Rightarrow> bool" where
  "any_other d op left [] v = False"
| "any_other d op left (n # ns) v =
     (if (if left then cmp_prim d op (XStr (string_value d n)) v else cmp_prim d op v (XStr (string_value d n)))
      then True else any_other d op left ns v)"

definition compare_vals :: "dom \<Rightarrow> cmpop \<Rightarrow> xval \<Rightarrow> xval \<Rightarrow> bool" where
  "compare_vals d op x y = (case (x, y) of
     (XSet xs, XSet ys) \<Rightarrow> any_left d op xs (map (string_value d) ys)
   | (XSet xs, XBool b) \<Rightarrow> cmp_prim d op (XBool (xs \<noteq> [])) (XBool b)
   | (XBool b, XSet ys) \<Rightarrow> cmp_prim d op (XBool b) (XBool (ys \<noteq> []))
   | (XSet xs, v) \<Rightarrow> any_other d op True xs v
   | (v, XSet ys) \<Rightarrow> any_other d op False ys v
   | (v, w) \<Rightarrow> cmp_prim d op v w)"

section \<open>Properties\<close>

lemma any_right_iff: "any_right d op s ts \<longleftrightarrow> (\<exists>t \<in> set ts. cmp_prim d op (XStr s) (XStr t))"
  by (induction ts) auto

lemma cmp_prim_strings: "cmp_prim d CEq (XStr s) (XStr t) \<longleftrightarrow> s = t"
  by (simp add: cmp_prim_def prim_eq_def is_bool_val_def is_num_val_def)

lemma any_left_iff: "any_left d op ns ts \<longleftrightarrow>
    (\<exists>n \<in> set ns. \<exists>t \<in> set ts. cmp_prim d op (XStr (string_value d n)) (XStr t))"
  by (induction ns) (auto simp: any_right_iff cmp_prim_strings)

lemma any_other_iff: "any_other d op left ns v \<longleftrightarrow> (\<exists>n \<in> set ns.
    if left then cmp_prim d op (XStr (string_value d n)) v else cmp_prim d op v (XStr (string_value d n)))"
  by (induction ns) auto

text \<open>Comparing two node-sets (\<open>compare\<close>) is true exactly when some node of the one and some node of
  the other have string-values for which the comparison holds, although equality is decided through a hash
  set of the strings and stops at the first hit.\<close>

theorem compare_sets_exists:
  "compare_vals d op (XSet xs) (XSet ys) \<longleftrightarrow>
     (\<exists>m \<in> set xs. \<exists>n \<in> set ys. cmp_prim d op (XStr (string_value d m)) (XStr (string_value d n)))"
  by (auto simp: compare_vals_def any_left_iff)

text \<open>Comparing a node-set with a number or a string holds when it holds for the string-value of some
  node, on whichever side the set stands; comparing it with a boolean compares with its non-emptiness.\<close>

theorem compare_set_with_value:
  "compare_vals d op (XSet xs) (XNum v) = (\<exists>n \<in> set xs. cmp_prim d op (XStr (string_value d n)) (XNum v)) \<and>
   compare_vals d op (XNum v) (XSet xs) = (\<exists>n \<in> set xs. cmp_prim d op (XNum v) (XStr (string_value d n))) \<and>
   compare_vals d op (XSet xs) (XStr s) = (\<exists>n \<in> set xs. cmp_prim d op (XStr (string_value d n)) (XStr s)) \<and>
   compare_vals d op (XStr s) (XSet xs) = (\<exists>n \<in> set xs. cmp_prim d op (XStr s) (XStr (string_value d n))) \<and>
   compare_vals d op (XSet xs) (XBool b) = cmp_prim d op (XBool (xs \<noteq> [])) (XBool b)"
  by (simp add: compare_vals_def any_other_iff)

end
