(* ===== verification/XLex.thy ===== *)
theory XLex
  imports XConv
begin

text \<open>
  The lexer of \<open>25_xpath.js\<close> (lines 285--375).  The code advances an index into the source; the model
  consumes the rest of the string.
\<close>

datatype axis = Ancestor | AncestorOrSelf | Attribute | Child | Descendant | DescendantOrSelf
  | Following | FollowingSibling | NamespaceAxis | Parent | Preceding | PrecedingSibling | Self

definition axis_table :: "(jstr \<times> axis) list" where
  "axis_table = [(js ''ancestor'', Ancestor), (js ''ancestor-or-self'', AncestorOrSelf), (js ''attribute'', Attribute),
     (js ''child'', Child), (js ''descendant'', Descendant), (js ''descendant-or-self'', DescendantOrSelf),
     (js ''following'', Following), (js ''following-sibling'', FollowingSibling), (js ''namespace'', NamespaceAxis),
     (js ''parent'', Parent), (js ''preceding'', Preceding), (js ''preceding-sibling'', PrecedingSibling), (js ''self'', Self)]"

datatype ntype = NtComment | NtText | NtPi | NtNode

definition ntype_table :: "(jstr \<times> ntype) list" where
  "ntype_table = [(js ''comment'', NtComment), (js ''text'', NtText), (js ''processing-instruction'', NtPi), (js ''node'', NtNode)]"

datatype tok =
    LParen | RParen | LBrack | RBrack | AtSign | Comma | Bar | Plus | Minus | EqT | NeT | LtT | LeT | GtT | GeT
  | Slash | DSlash | Dot | DDot | MulT | AndT | OrT | ModT | DivT
  | Lit jstr | NumT jsnum | AxisT axis | NameT "jstr option" jstr | NType ntype | PiT | Func jstr | VarT | Eof

text \<open>Tokens after which \<open>*\<close> and the names and/or/mod/div are not operators.\<close>

definition not_before_operand :: "tok \<Rightarrow> bool" where
  "not_before_operand t = (case t of
     AtSign \<Rightarrow> True | AxisT _ \<Rightarrow> True | LParen \<Rightarrow> True | LBrack \<Rightarrow> True | Comma \<Rightarrow> True | AndT \<Rightarrow> True | OrT \<Rightarrow> True
   | MulT \<Rightarrow> True | ModT \<Rightarrow> True | DivT \<Rightarrow> True | Slash \<Rightarrow> True | DSlash \<Rightarrow> True | Bar \<Rightarrow> True | Plus \<Rightarrow> True | Minus \<Rightarrow> True
   | EqT \<Rightarrow> True | NeT \<Rightarrow> True | LtT \<Rightarrow> True | LeT \<Rightarrow> True | GtT \<Rightarrow> True | GeT \<Rightarrow> True | _ \<Rightarrow> False)"

definition operator_context :: "tok option \<Rightarrow> bool" where
  "operator_context prev = (case prev of None \<Rightarrow> False | Some t \<Rightarrow> \<not> not_before_operand t)"

text \<open>
  \<open>NAME_START\<close> and \<open>NAME_CHAR\<close> are tests of Unicode properties of a code point, tables of the engine.
  A lexer failure is \<open>XPathError(false)\<close>, an unknown prefix \<open>XPathError(true)\<close>.
\<close>

record unicode =
  name_start :: "int \<Rightarrow> bool"
  name_char :: "int \<Rightarrow> bool"

datatype xerror = BadExpression | BadNamespace

type_synonym 'a xres = "xerror + 'a"

text \<open>\<open>scanName\<close>: the name and what follows it.\<close>

fun scan_name :: "unicode \<Rightarrow> bool \<Rightarrow> jstr \<Rightarrow> jstr \<times> jstr" where
  "scan_name u start [] = ([], [])"
| "scan_name u start [a] = (if (if start then name_start u a else name_char u a) then ([a], []) else ([], [a]))"
| "scan_name u start (a # b # s) =
     (if 55296 \<le> a \<and> a \<le> 56319 \<and> 56320 \<le> b \<and> b \<le> 57343 then
        (let c = 65536 + (a - 55296) * 1024 + (b - 56320) in
         if (if start then name_start u c else name_char u c)
         then (case scan_name u False s of (n, r) \<Rightarrow> (a # b # n, r)) else ([], a # b # s))
      else if (if start then name_start u a else name_char u a)
      then (case scan_name u False (b # s) of (n, r) \<Rightarrow> (a # n, r)) else ([], a # b # s))"

lemma scan_name_append: "scan_name u start s = (n, r) \<Longrightarrow> s = n @ r"
  by (induction u start s arbitrary: n r rule: scan_name.induct) (auto simp: Let_def split: if_splits prod.splits)

definition skip_space :: "jstr \<Rightarrow> jstr" where
  "skip_space s = dropWhile is_space s"

lemma skip_space_length: "length (skip_space s) \<le> length s"
  by (simp add: skip_space_def length_dropWhile_le)

text \<open>The one-character tokens.\<close>

definition single_tok :: "cu \<Rightarrow> tok option" where
  "single_tok c =
     (if c = 40 then Some LParen else if c = 41 then Some RParen else if c = 91 then Some LBrack
      else if c = 93 then Some RBrack else if c = 64 then Some AtSign else if c = 44 then Some Comma
      else if c = 124 then Some Bar else if c = 43 then Some Plus else if c = 45 then Some Minus
      else if c = 61 then Some EqT else None)"

text \<open>A quoted literal: what is before the closing quote and after it.\<close>

definition quoted :: "cu \<Rightarrow> jstr \<Rightarrow> (jstr \<times> jstr) option" where
  "quoted q s = (case index_of [q] s of None \<Rightarrow> None | Some i \<Rightarrow> Some (take i s, drop (Suc i) s))"

definition lex_var :: "unicode \<Rightarrow> jstr \<Rightarrow> (tok \<times> jstr) xres" where
  "lex_var u s = (case scan_name u True s of
     ([], r) \<Rightarrow> Inl BadExpression
   | (n, c # r) \<Rightarrow>
       if c = 58 then (case scan_name u True r of ([], r2) \<Rightarrow> Inl BadExpression | (n2, r2) \<Rightarrow> Inr (VarT, r2))
       else Inr (VarT, c # r)
   | (n, []) \<Rightarrow> Inr (VarT, []))"

text \<open>\<open>NUM_RE\<close> at a position where a digit, or a point and a digit, stands.\<close>

definition lex_num :: "jstr \<Rightarrow> tok \<times> jstr" where
  "lex_num s =
     (let i = takeWhile is_digit s; r = dropWhile is_digit s in
      case r of
        [] \<Rightarrow> (NumT (decimal_val False i []), [])
      | c # f \<Rightarrow> if c = 46 then (NumT (decimal_val False i (takeWhile is_digit f)), dropWhile is_digit f)
                 else (NumT (decimal_val False i []), r))"

text \<open>A name: an axis, an operator, a node type, a function or a name test.\<close>

definition lex_call :: "jstr option \<Rightarrow> jstr \<Rightarrow> jstr \<Rightarrow> tok" where
  "lex_call prefix loc r =
     (case skip_space r of
        c # _ \<Rightarrow>
          if c = 40 then
            (case (if prefix = None then map_of ntype_table loc else None) of
               Some NtPi \<Rightarrow> PiT
             | Some t \<Rightarrow> NType t
             | None \<Rightarrow> Func (case prefix of None \<Rightarrow> loc | Some p \<Rightarrow> p @ js '':'' @ loc))
          else NameT prefix loc
      | [] \<Rightarrow> NameT prefix loc)"

definition lex_qname :: "unicode \<Rightarrow> jstr \<Rightarrow> jstr \<Rightarrow> (tok \<times> jstr) xres" where
  "lex_qname u name r =
     (case r of
        c # r1 \<Rightarrow>
          if c = 58 then
            (case r1 of
               c2 # r2 \<Rightarrow>
                 if c2 = 42 then Inr (lex_call (Some name) (js ''*'') r2, r2)
                 else (case scan_name u True r1 of
                         ([], _) \<Rightarrow> Inl BadExpression
                       | (loc, r3) \<Rightarrow> Inr (lex_call (Some name) loc r3, r3))
             | [] \<Rightarrow> Inl BadExpression)
          else Inr (lex_call None name r, r)
      | [] \<Rightarrow> Inr (lex_call None name r, r))"

definition operator_tok :: "jstr \<Rightarrow> tok option" where
  "operator_tok name =
     (if name = js ''and'' then Some AndT else if name = js ''or'' then Some OrT
      else if name = js ''mod'' then Some ModT else if name = js ''div'' then Some DivT else None)"

definition lex_name :: "unicode \<Rightarrow> bool \<Rightarrow> jstr \<Rightarrow> (tok \<times> jstr) xres" where
  "lex_name u op_ctx s = (case scan_name u True s of
     ([], r) \<Rightarrow> Inl BadExpression
   | (name, r) \<Rightarrow>
       if prefix_of (js ''::'') (skip_space r) then
         (case map_of axis_table name of None \<Rightarrow> Inl BadExpression | Some a \<Rightarrow> Inr (AxisT a, drop 2 (skip_space r)))
       else case (if op_ctx then operator_tok name else None) of
              Some t \<Rightarrow> Inr (t, r)
            | None \<Rightarrow> lex_qname u name r)"

text \<open>One token from a string that does not start with a space.\<close>

definition lex_tok :: "unicode \<Rightarrow> bool \<Rightarrow> cu \<Rightarrow> jstr \<Rightarrow> (tok \<times> jstr) xres" where
  "lex_tok u op_ctx c r =
     (case single_tok c of
        Some t \<Rightarrow> Inr (t, r)
      | None \<Rightarrow>
          if c = 34 \<or> c = 39 then
            (case quoted c r of None \<Rightarrow> Inl BadExpression | Some (v, r2) \<Rightarrow> Inr (Lit v, r2))
          else if c = 46 \<and> prefix_of (js ''.'') r then Inr (DDot, drop 1 r)
          else if c = 46 \<and> (case r of [] \<Rightarrow> True | x # _ \<Rightarrow> \<not> is_digit x) then Inr (Dot, r)
          else if c = 47 then (if prefix_of (js ''/'') r then Inr (DSlash, drop 1 r) else Inr (Slash, r))
          else if c = 33 then (if prefix_of (js ''='') r then Inr (NeT, drop 1 r) else Inl BadExpression)
          else if c = 60 then (if prefix_of (js ''='') r then Inr (LeT, drop 1 r) else Inr (LtT, r))
          else if c = 62 then (if prefix_of (js ''='') r then Inr (GeT, drop 1 r) else Inr (GtT, r))
          else if c = 42 then Inr (if op_ctx then MulT else NameT None (js ''*''), r)
          else if c = 36 then lex_var u r
          else if is_digit c \<or> c = 46 then Inr (lex_num (c # r))
          else lex_name u op_ctx (c # r))"

text \<open>Every token takes at least one character, so the lexer ends.\<close>

lemma scan_name_length: "scan_name u start s = (n, r) \<Longrightarrow> length s = length n + length r"
  using scan_name_append by fastforce

lemma lex_var_length: "lex_var u s = Inr (t, r) \<Longrightarrow> length r \<le> length s"
  by (auto simp: lex_var_def dest!: scan_name_length split: prod.splits list.splits if_splits)

lemma lex_num_length: "c = 46 \<or> is_digit c \<Longrightarrow> length (snd (lex_num (c # r))) \<le> length r"
  using length_dropWhile_le [of is_digit r]
  by (auto simp: lex_num_def Let_def is_digit_def split: list.splits
      intro: order_trans [OF length_dropWhile_le] dest!: arg_cong [of _ _ length])

lemma lex_qname_length: "lex_qname u name s = Inr (t, r) \<Longrightarrow> length r \<le> length s"
  by (auto simp: lex_qname_def dest!: scan_name_length split: list.splits if_splits prod.splits)

lemma lex_name_length:
  assumes "lex_name u b (c # s) = Inr (t, r)"
  shows "length r \<le> length s"
proof -
  obtain n r1 where n: "scan_name u True (c # s) = (n, r1)" by fastforce
  with assms have ne: "n \<noteq> []" by (auto simp: lex_name_def)
  with scan_name_length [OF n] have "length r1 \<le> length s" by (cases n) auto
  moreover have "length r \<le> length r1"
    using assms n ne skip_space_length [of r1]
    by (auto simp: lex_name_def neq_Nil_conv dest!: lex_qname_length split: if_splits option.splits)
  ultimately show ?thesis by simp
qed

lemma quoted_length: "quoted q s = Some (v, r) \<Longrightarrow> length r \<le> length s"
  by (auto simp: quoted_def split: option.splits)

lemma lex_tok_length: "lex_tok u b c r = Inr (t, r2) \<Longrightarrow> length r2 \<le> length r"
  using lex_num_length [of c r]
  by (auto simp: lex_tok_def dest: lex_var_length lex_name_length quoted_length split: option.splits if_splits)

text \<open>\<open>tokenize\<close>; \<open>prev\<close> is the last token pushed.\<close>

function lex :: "unicode \<Rightarrow> tok option \<Rightarrow> jstr \<Rightarrow> tok list xres" where
  "lex u prev s = (case skip_space s of
     [] \<Rightarrow> Inr [Eof]
   | c # r \<Rightarrow> (case lex_tok u (operator_context prev) c r of
       Inl e \<Rightarrow> Inl e
     | Inr (t, r2) \<Rightarrow> (case lex u (Some t) r2 of Inl e \<Rightarrow> Inl e | Inr ts \<Rightarrow> Inr (t # ts))))"
  by pat_completeness auto
termination
proof (relation "measure (\<lambda>(u, prev, s). length s)")
  fix u prev s c r b t r2
  assume "skip_space s = c # r" "lex_tok u (operator_context prev) c r = Inr b" "(t, r2) = b"
  then show "((u, Some t, r2), (u, prev, s)) \<in> measure (\<lambda>(u, prev, s). length s)"
    using lex_tok_length [of u "operator_context prev" c r t r2] skip_space_length [of s] by auto
qed simp

declare lex.simps [simp del]

definition tokenize :: "unicode \<Rightarrow> jstr \<Rightarrow> tok list xres" where
  "tokenize u s = lex u None s"

end
