(* ===== verification/XParse.thy ===== *)
theory XParse
  imports XLex
begin

text \<open>
  The function table and the parser of \<open>25_xpath.js\<close> (lines 375--405 and 500--620): recursive
  descent from tokens to the abstract syntax.
\<close>

section \<open>Functions\<close>

datatype fn = FLast | FPosition | FCount | FId | FLocalName | FNamespaceUri | FName | FString | FConcat | FStartsWith
  | FContains | FSubstringBefore | FSubstringAfter | FSubstring | FStringLength | FNormalizeSpace | FTranslate | FBoolean
  | FNot | FTrue | FFalse | FLang | FNumber | FSum | FFloor | FCeiling | FRound

datatype vtype = TyNumber | TyString | TyBoolean | TyNodeset

text \<open>The arguments of \<open>def\<close>: name, minimal and maximal number of arguments (\<open>None\<close>: any), result type.\<close>

definition fn_table :: "(jstr \<times> fn \<times> nat \<times> nat option \<times> vtype) list" where
  "fn_table = [
     (js ''last'', FLast, 0, Some 0, TyNumber), (js ''position'', FPosition, 0, Some 0, TyNumber),
     (js ''count'', FCount, 1, Some 1, TyNumber), (js ''id'', FId, 1, Some 1, TyNodeset),
     (js ''local-name'', FLocalName, 0, Some 1, TyString), (js ''namespace-uri'', FNamespaceUri, 0, Some 1, TyString),
     (js ''name'', FName, 0, Some 1, TyString), (js ''string'', FString, 0, Some 1, TyString),
     (js ''concat'', FConcat, 2, None, TyString), (js ''starts-with'', FStartsWith, 2, Some 2, TyBoolean),
     (js ''contains'', FContains, 2, Some 2, TyBoolean), (js ''substring-before'', FSubstringBefore, 2, Some 2, TyString),
     (js ''substring-after'', FSubstringAfter, 2, Some 2, TyString), (js ''substring'', FSubstring, 2, Some 3, TyString),
     (js ''string-length'', FStringLength, 0, Some 1, TyNumber), (js ''normalize-space'', FNormalizeSpace, 0, Some 1, TyString),
     (js ''translate'', FTranslate, 3, Some 3, TyString), (js ''boolean'', FBoolean, 1, Some 1, TyBoolean),
     (js ''not'', FNot, 1, Some 1, TyBoolean), (js ''true'', FTrue, 0, Some 0, TyBoolean), (js ''false'', FFalse, 0, Some 0, TyBoolean),
     (js ''lang'', FLang, 1, Some 1, TyBoolean), (js ''number'', FNumber, 0, Some 1, TyNumber), (js ''sum'', FSum, 1, Some 1, TyNumber),
     (js ''floor'', FFloor, 1, Some 1, TyNumber), (js ''ceiling'', FCeiling, 1, Some 1, TyNumber), (js ''round'', FRound, 1, Some 1, TyNumber)]"

definition fn_type :: "fn \<Rightarrow> vtype" where
  "fn_type f = (case find (\<lambda>e. fst (snd e) = f) fn_table of Some (_, _, _, _, ty) \<Rightarrow> ty | None \<Rightarrow> TyNodeset)"

definition fn_args :: "fn \<Rightarrow> nat \<Rightarrow> bool" where
  "fn_args f n = (case find (\<lambda>e. fst (snd e) = f) fn_table of
     Some (_, _, lo, hi, _) \<Rightarrow> lo \<le> n \<and> (case hi of None \<Rightarrow> True | Some h \<Rightarrow> n \<le> h)
   | None \<Rightarrow> False)"

section \<open>Abstract syntax\<close>

datatype arith = AAdd | ASub | AMul | ADiv | AMod

datatype test = TNode | TText | TComment | TPi "jstr option" | TName jstr jstr "jstr option" bool

text \<open>\<open>SlashSlash\<close> is the shared step object \<open>DESCENDANT_OR_SELF\<close> that \<open>//\<close> stands for.\<close>

datatype ast =
    ANum jsnum
  | AStr jstr
  | AOr ast ast
  | AAnd ast ast
  | ACmp cmpop ast ast
  | AArith arith ast ast
  | ANeg ast
  | AUnion "ast list"
  | ACall fn "ast list"
  | AFilter ast "ast list"
  | APath "ast option" bool "step list"
and step = Step axis test "ast list" | SlashSlash

fun step_axis :: "step \<Rightarrow> axis" where
  "step_axis (Step a t ps) = a" | "step_axis SlashSlash = DescendantOrSelf"

fun step_test :: "step \<Rightarrow> test" where
  "step_test (Step a t ps) = t" | "step_test SlashSlash = TNode"

fun step_preds :: "step \<Rightarrow> ast list" where
  "step_preds (Step a t ps) = ps" | "step_preds SlashSlash = []"

section \<open>Parser\<close>

definition peek :: "tok list \<Rightarrow> tok" where
  "peek ts = (case ts of [] \<Rightarrow> Eof | t # _ \<Rightarrow> t)"

text \<open>The operators of a level and the nodes they build; the levels go from \<open>or\<close> to \<open>*\<close>.\<close>

definition bin_op :: "nat \<Rightarrow> tok \<Rightarrow> (ast \<Rightarrow> ast \<Rightarrow> ast) option" where
  "bin_op l t =
     (if l = 0 then (if t = OrT then Some AOr else None)
      else if l = 1 then (if t = AndT then Some AAnd else None)
      else if l = 2 then (if t = EqT then Some (ACmp CEq) else if t = NeT then Some (ACmp CNe) else None)
      else if l = 3 then (if t = LtT then Some (ACmp CLt) else if t = LeT then Some (ACmp CLe)
        else if t = GtT then Some (ACmp CGt) else if t = GeT then Some (ACmp CGe) else None)
      else if l = 4 then (if t = Plus then Some (AArith AAdd) else if t = Minus then Some (AArith ASub) else None)
      else (if t = MulT then Some (AArith AMul) else if t = DivT then Some (AArith ADiv)
        else if t = ModT then Some (AArith AMod) else None))"

definition starts_step :: "tok \<Rightarrow> bool" where
  "starts_step t = (case t of NameT _ _ \<Rightarrow> True | AxisT _ \<Rightarrow> True | AtSign \<Rightarrow> True | NType _ \<Rightarrow> True | PiT \<Rightarrow> True
     | Dot \<Rightarrow> True | DDot \<Rightarrow> True | _ \<Rightarrow> False)"

text \<open>\<open>L.stripWS\<close> also strips form feeds.\<close>

definition strip_ws :: "jstr \<Rightarrow> jstr" where
  "strip_ws s = (let ws = (\<lambda>c. c \<in> {9, 10, 12, 13, 32}) in rev (dropWhile ws (rev (dropWhile ws s))))"

definition name_test :: "(jstr \<Rightarrow> jstr option) \<Rightarrow> jstr option \<Rightarrow> jstr \<Rightarrow> test xres" where
  "name_test lookup prefix loc = (case prefix of
     None \<Rightarrow> Inr (TName loc (ascii_lower loc) None (loc = js ''*''))
   | Some p \<Rightarrow> (case lookup p of
       None \<Rightarrow> Inl BadNamespace
     | Some u \<Rightarrow> Inr (TName loc (ascii_lower loc) (Some u) (loc = js ''*''))))"

definition ntype_test :: "ntype \<Rightarrow> test" where
  "ntype_test t = (case t of NtComment \<Rightarrow> TComment | NtText \<Rightarrow> TText | NtPi \<Rightarrow> TPi None | NtNode \<Rightarrow> TNode)"

definition expect :: "tok \<Rightarrow> tok list \<Rightarrow> tok list xres" where
  "expect t ts = (if peek ts = t then Inr (tl ts) else Inl BadExpression)"

text \<open>The axis of a step and the tokens after it.\<close>

definition parse_axis :: "tok list \<Rightarrow> axis \<times> tok list" where
  "parse_axis ts = (case peek ts of AxisT a \<Rightarrow> (a, tl ts) | AtSign \<Rightarrow> (Attribute, tl ts) | _ \<Rightarrow> (Child, ts))"

definition parse_test :: "(jstr \<Rightarrow> jstr option) \<Rightarrow> tok list \<Rightarrow> (test \<times> tok list) xres" where
  "parse_test lookup ts = (case peek ts of
     NameT p l \<Rightarrow> (case name_test lookup p l of Inl e \<Rightarrow> Inl e | Inr t \<Rightarrow> Inr (t, tl ts))
   | NType n \<Rightarrow> (case expect LParen (tl ts) of Inl e \<Rightarrow> Inl e
       | Inr t1 \<Rightarrow> (case expect RParen t1 of Inl e \<Rightarrow> Inl e | Inr t2 \<Rightarrow> Inr (ntype_test n, t2)))
   | PiT \<Rightarrow> (case expect LParen (tl ts) of Inl e \<Rightarrow> Inl e
       | Inr t1 \<Rightarrow> (case peek t1 of
           Lit v \<Rightarrow> (case expect RParen (tl t1) of Inl e \<Rightarrow> Inl e | Inr t2 \<Rightarrow> Inr (TPi (Some (strip_ws v)), t2))
         | _ \<Rightarrow> (case expect RParen t1 of Inl e \<Rightarrow> Inl e | Inr t2 \<Rightarrow> Inr (TPi None, t2))))
   | _ \<Rightarrow> Inl BadExpression)"

text \<open>
  The parsing functions, closures of \<open>parse\<close> in the code.  Only \<open>parseOr\<close> is called from inside
  (predicates, parentheses, arguments), so the others take it as the parameter \<open>por\<close>; \<open>p_or\<close> ties
  the knot and counts the depth of that nesting.  \<open>k\<close> bounds the turns of a loop.  \<open>TooDeep\<close>
  stands for running out of either (the code's \<open>RangeError\<close> of the stack); \<open>parse\<close> below starts
  with enough of both.
\<close>

datatype perror = PErr xerror | TooDeep

type_synonym 'a pres = "perror + 'a \<times> tok list"
type_synonym parser = "tok list \<Rightarrow> ast pres"

definition lift_err :: "'a xres \<Rightarrow> perror + 'a" where
  "lift_err r = (case r of Inl e \<Rightarrow> Inl (PErr e) | Inr x \<Rightarrow> Inr x)"

fun p_preds :: "parser \<Rightarrow> nat \<Rightarrow> tok list \<Rightarrow> ast list pres" where
  "p_preds por 0 ts = Inl TooDeep"
| "p_preds por (Suc k) ts =
     (if peek ts = LBrack then
        (case por (tl ts) of
           Inl e \<Rightarrow> Inl e
         | Inr (p, ts1) \<Rightarrow> (case lift_err (expect RBrack ts1) of
             Inl e \<Rightarrow> Inl e
           | Inr ts2 \<Rightarrow> (case p_preds por k ts2 of Inl e \<Rightarrow> Inl e | Inr (ps, ts3) \<Rightarrow> Inr (p # ps, ts3))))
      else Inr ([], ts))"

fun p_args :: "parser \<Rightarrow> nat \<Rightarrow> tok list \<Rightarrow> ast list pres" where
  "p_args por 0 ts = Inl TooDeep"
| "p_args por (Suc k) ts = (case por ts of
     Inl e \<Rightarrow> Inl e
   | Inr (a, ts1) \<Rightarrow>
       if peek ts1 = Comma then
         (case p_args por k (tl ts1) of Inl e \<Rightarrow> Inl e | Inr (as, ts2) \<Rightarrow> Inr (a # as, ts2))
       else Inr ([a], ts1))"

definition p_call :: "parser \<Rightarrow> jstr \<Rightarrow> tok list \<Rightarrow> ast pres" where
  "p_call por name ts = (case map_of fn_table name of
     None \<Rightarrow> Inl (PErr BadExpression)
   | Some (f, _) \<Rightarrow> (case lift_err (expect LParen ts) of
       Inl e \<Rightarrow> Inl e
     | Inr ts1 \<Rightarrow> (case (if peek ts1 = RParen then Inr ([], ts1) else p_args por (Suc (length ts1)) ts1) of
         Inl e \<Rightarrow> Inl e
       | Inr (as, ts2) \<Rightarrow> (case lift_err (expect RParen ts2) of
           Inl e \<Rightarrow> Inl e
         | Inr ts3 \<Rightarrow> if fn_args f (length as) then Inr (ACall f as, ts3) else Inl (PErr BadExpression)))))"

definition p_primary :: "parser \<Rightarrow> tok list \<Rightarrow> ast pres" where
  "p_primary por ts = (case peek ts of
     NumT v \<Rightarrow> Inr (ANum v, tl ts)
   | Lit s \<Rightarrow> Inr (AStr s, tl ts)
   | VarT \<Rightarrow> Inr (AStr [], tl ts)
   | LParen \<Rightarrow> (case por (tl ts) of
       Inl e \<Rightarrow> Inl e
     | Inr (a, ts1) \<Rightarrow> (case lift_err (expect RParen ts1) of Inl e \<Rightarrow> Inl e | Inr ts2 \<Rightarrow> Inr (a, ts2)))
   | Func name \<Rightarrow> p_call por name (tl ts)
   | _ \<Rightarrow> Inl (PErr BadExpression))"

definition p_step :: "(jstr \<Rightarrow> jstr option) \<Rightarrow> parser \<Rightarrow> tok list \<Rightarrow> step pres" where
  "p_step lk por ts =
     (if peek ts = Dot then Inr (Step Self TNode [], tl ts)
      else if peek ts = DDot then Inr (Step Parent TNode [], tl ts)
      else (case parse_axis ts of (ax, ts1) \<Rightarrow>
        (case lift_err (parse_test lk ts1) of
           Inl e \<Rightarrow> Inl e
         | Inr (t, ts2) \<Rightarrow> (case p_preds por (Suc (length ts2)) ts2 of
             Inl e \<Rightarrow> Inl e | Inr (ps, ts3) \<Rightarrow> Inr (Step ax t ps, ts3)))))"

fun p_relative :: "(jstr \<Rightarrow> jstr option) \<Rightarrow> parser \<Rightarrow> nat \<Rightarrow> tok list \<Rightarrow> step list pres" where
  "p_relative lk por 0 ts = Inl TooDeep"
| "p_relative lk por (Suc k) ts = (case p_step lk por ts of
     Inl e \<Rightarrow> Inl e
   | Inr (s, ts1) \<Rightarrow>
       if peek ts1 = Slash then
         (case p_relative lk por k (tl ts1) of Inl e \<Rightarrow> Inl e | Inr (ss, ts2) \<Rightarrow> Inr (s # ss, ts2))
       else if peek ts1 = DSlash then
         (case p_relative lk por k (tl ts1) of Inl e \<Rightarrow> Inl e | Inr (ss, ts2) \<Rightarrow> Inr (s # SlashSlash # ss, ts2))
       else Inr ([s], ts1))"

definition p_rel :: "(jstr \<Rightarrow> jstr option) \<Rightarrow> parser \<Rightarrow> tok list \<Rightarrow> step list pres" where
  "p_rel lk por ts = p_relative lk por (Suc (length ts)) ts"

text \<open>The last part of \<open>parsePath\<close>: a primary expression with predicates, and a path from it.\<close>

definition p_filter :: "(jstr \<Rightarrow> jstr option) \<Rightarrow> parser \<Rightarrow> tok list \<Rightarrow> ast pres" where
  "p_filter lk por ts = (case p_primary por ts of
     Inl e \<Rightarrow> Inl e
   | Inr (e, ts1) \<Rightarrow> (case p_preds por (Suc (length ts1)) ts1 of
       Inl er \<Rightarrow> Inl er
     | Inr (ps, ts2) \<Rightarrow>
         (let e1 = (if ps = [] then e else AFilter e ps) in
          if peek ts2 = Slash \<or> peek ts2 = DSlash then
            (case p_rel lk por (tl ts2) of
               Inl er \<Rightarrow> Inl er
             | Inr (ss, ts3) \<Rightarrow>
                 Inr (APath (Some e1) False (if peek ts2 = DSlash then SlashSlash # ss else ss), ts3))
          else Inr (e1, ts2))))"

definition p_path :: "(jstr \<Rightarrow> jstr option) \<Rightarrow> parser \<Rightarrow> tok list \<Rightarrow> ast pres" where
  "p_path lk por ts =
     (if peek ts = Slash then
        (if starts_step (peek (tl ts)) then
           (case p_rel lk por (tl ts) of Inl e \<Rightarrow> Inl e | Inr (ss, ts1) \<Rightarrow> Inr (APath None True ss, ts1))
         else Inr (APath None True [], tl ts))
      else if peek ts = DSlash then
        (case p_rel lk por (tl ts) of Inl e \<Rightarrow> Inl e | Inr (ss, ts1) \<Rightarrow> Inr (APath None True (SlashSlash # ss), ts1))
      else if starts_step (peek ts) then
        (case p_rel lk por ts of Inl e \<Rightarrow> Inl e | Inr (ss, ts1) \<Rightarrow> Inr (APath None False ss, ts1))
      else p_filter lk por ts)"

fun p_paths :: "(jstr \<Rightarrow> jstr option) \<Rightarrow> parser \<Rightarrow> nat \<Rightarrow> tok list \<Rightarrow> ast list pres" where
  "p_paths lk por 0 ts = Inl TooDeep"
| "p_paths lk por (Suc k) ts = (case p_path lk por ts of
     Inl e \<Rightarrow> Inl e
   | Inr (p, ts1) \<Rightarrow>
       if peek ts1 = Bar then
         (case p_paths lk por k (tl ts1) of Inl e \<Rightarrow> Inl e | Inr (ps, ts2) \<Rightarrow> Inr (p # ps, ts2))
       else Inr ([p], ts1))"

definition p_union :: "(jstr \<Rightarrow> jstr option) \<Rightarrow> parser \<Rightarrow> parser" where
  "p_union lk por ts = (case p_paths lk por (Suc (length ts)) ts of
     Inl e \<Rightarrow> Inl e
   | Inr (ps, ts1) \<Rightarrow> Inr (case ps of [p] \<Rightarrow> p | _ \<Rightarrow> AUnion ps, ts1))"

text \<open>\<open>parseUnary\<close> recurses after a minus sign, on fewer tokens.\<close>

fun p_unary :: "(jstr \<Rightarrow> jstr option) \<Rightarrow> parser \<Rightarrow> parser" where
  "p_unary lk por (t # ts) =
     (if t = Minus then (case p_unary lk por ts of Inl e \<Rightarrow> Inl e | Inr (a, ts1) \<Rightarrow> Inr (ANeg a, ts1))
      else p_union lk por (t # ts))"
| "p_unary lk por [] = p_union lk por []"

text \<open>\<open>binary(next, ops, kind)\<close>.\<close>

fun p_loop :: "nat \<Rightarrow> parser \<Rightarrow> nat \<Rightarrow> ast \<Rightarrow> tok list \<Rightarrow> ast pres" where
  "p_loop l nxt 0 a ts = Inl TooDeep"
| "p_loop l nxt (Suc k) a ts = (case bin_op l (peek ts) of
     None \<Rightarrow> Inr (a, ts)
   | Some mk \<Rightarrow> (case nxt (tl ts) of
       Inl e \<Rightarrow> Inl e
     | Inr (b, ts1) \<Rightarrow> p_loop l nxt k (mk a b) ts1))"

definition p_binary :: "nat \<Rightarrow> parser \<Rightarrow> parser" where
  "p_binary l nxt ts = (case nxt ts of
     Inl e \<Rightarrow> Inl e
   | Inr (a, ts1) \<Rightarrow> p_loop l nxt (Suc (length ts1)) a ts1)"

fun p_or :: "(jstr \<Rightarrow> jstr option) \<Rightarrow> nat \<Rightarrow> parser" where
  "p_or lk 0 = (\<lambda>ts. Inl TooDeep)"
| "p_or lk (Suc n) =
     p_binary 0 (p_binary 1 (p_binary 2 (p_binary 3 (p_binary 4 (p_binary 5 (p_unary lk (p_or lk n)))))))"

definition parse_toks :: "(jstr \<Rightarrow> jstr option) \<Rightarrow> nat \<Rightarrow> tok list \<Rightarrow> perror + ast" where
  "parse_toks lk fuel ts = (case p_or lk fuel ts of
     Inl e \<Rightarrow> Inl e
   | Inr (a, ts1) \<Rightarrow> if peek ts1 = Eof then Inr a else Inl (PErr BadExpression))"

text \<open>The nesting is less deep than there are tokens.\<close>

definition parse :: "unicode \<Rightarrow> (jstr \<Rightarrow> jstr option) \<Rightarrow> jstr \<Rightarrow> perror + ast" where
  "parse u lk s = (case tokenize u s of Inl e \<Rightarrow> Inl (PErr e) | Inr ts \<Rightarrow> parse_toks lk (Suc (length ts)) ts)"

section \<open>The parser always answers\<close>

text \<open>A result that is not \<open>TooDeep\<close> and leaves fewer tokens (or at most as many).\<close>

definition shrinks :: "nat \<Rightarrow> 'a pres \<Rightarrow> bool" where
  "shrinks n r = (r \<noteq> Inl TooDeep \<and> (\<forall>a ts. r = Inr (a, ts) \<longrightarrow> length ts < n))"

lemma shrinks_simps [simp]:
  "shrinks n (Inl (PErr e))" "shrinks n (Inr (a, ts)) \<longleftrightarrow> length ts < n"
  by (auto simp: shrinks_def)

lemma shrinks_mono: "shrinks m r \<Longrightarrow> m \<le> n \<Longrightarrow> shrinks n r"
  by (auto simp: shrinks_def)

lemma shrinks_bind:
  assumes "shrinks m r" "\<And>a ts1. length ts1 < m \<Longrightarrow> shrinks n (f a ts1)"
  shows "shrinks n (case r of Inl e \<Rightarrow> Inl e | Inr (a, ts1) \<Rightarrow> f a ts1)"
  using assms by (auto simp: shrinks_def split: sum.splits prod.splits)

lemma peek_length: "peek ts \<noteq> Eof \<Longrightarrow> length (tl ts) < length ts"
  by (cases ts) (auto simp: peek_def)

lemma shrinks_expect:
  assumes "\<And>ts2. length ts2 \<le> length ts1 \<Longrightarrow> t \<noteq> Eof \<longrightarrow> length ts2 < length ts1 \<Longrightarrow> shrinks n (f ts2)"
  shows "shrinks n (case lift_err (expect t ts1) of Inl e \<Rightarrow> Inl e | Inr ts2 \<Rightarrow> f ts2)"
  using assms [of "tl ts1"] peek_length [of ts1] by (auto simp: lift_err_def expect_def)

definition good :: "nat \<Rightarrow> parser \<Rightarrow> bool" where
  "good n por = (\<forall>ts. length ts < n \<longrightarrow> shrinks (length ts) (por ts))"

lemma goodD: "good n por \<Longrightarrow> length ts < n \<Longrightarrow> shrinks (length ts) (por ts)"
  by (simp add: good_def)

lemma goodD': "good n por \<Longrightarrow> length ts \<le> m \<Longrightarrow> m < n \<Longrightarrow> shrinks m (por ts)"
  using goodD [of n por ts] shrinks_mono by fastforce

lemma p_preds_shrinks:
  "good n por \<Longrightarrow> length ts \<le> n \<Longrightarrow> length ts < k \<Longrightarrow> shrinks (Suc (length ts)) (p_preds por k ts)"
proof (induction k arbitrary: ts)
  case (Suc k)
  show ?case
  proof (cases "peek ts = LBrack")
    case True
    then have l: "length (tl ts) < length ts" by (intro peek_length) simp
    have IH: "shrinks (Suc (length ts2)) (p_preds por k ts2)" if "length ts2 < length ts" for ts2
      using Suc that by simp
    have "shrinks (length (tl ts)) (por (tl ts))" using Suc.prems l by (intro goodD [of n]) auto
    then show ?thesis
      using True l IH
      by (auto intro!: shrinks_bind [where m = "length (tl ts)"] shrinks_expect shrinks_bind [OF IH])
  qed simp
qed simp

lemma p_args_shrinks: "good n por \<Longrightarrow> length ts < n \<Longrightarrow> length ts < k \<Longrightarrow> shrinks (length ts) (p_args por k ts)"
proof (induction k arbitrary: ts)
  case (Suc k)
  have IH: "shrinks (length ts2) (p_args por k ts2)" if "length ts2 < length ts" for ts2
    using Suc that by simp
  show ?case
    using goodD [OF Suc.prems(1,2)]
    by (auto intro!: shrinks_bind [where m = "length ts"] shrinks_bind [OF IH] dest: peek_length)
qed simp

lemma p_call_shrinks:
  assumes g: "good n por" and n: "length ts \<le> n"
  shows "shrinks (length ts) (p_call por name ts)"
proof -
  have as: "shrinks (length ts) (if peek ts1 = RParen then Inr ([], ts1) else p_args por (Suc (length ts1)) ts1)"
    if "length ts1 < length ts" for ts1
    using that n by (auto intro: shrinks_mono [OF p_args_shrinks [OF g]] simp del: p_args.simps)
  show ?thesis
    unfolding p_call_def
    by (auto split: option.splits intro!: shrinks_expect shrinks_bind [OF as] simp del: p_args.simps)
qed

lemma p_primary_shrinks: "good n por \<Longrightarrow> length ts \<le> n \<Longrightarrow> shrinks (length ts) (p_primary por ts)"
proof -
  assume g: "good n por" and n: "length ts \<le> n"
  show ?thesis
  proof (cases "peek ts = Eof")
    case False
    then have l: "length (tl ts) < length ts" by (rule peek_length)
    with n have l2: "length (tl ts) < n" by simp
    have c: "shrinks (length ts) (p_call por name (tl ts))" for name
      using l n by (intro shrinks_mono [OF p_call_shrinks [OF g]]) auto
    have o1: "shrinks (length (tl ts)) (por (tl ts))" using goodD [OF g l2] .
    show ?thesis
      using l c by (auto simp: p_primary_def split: tok.splits intro!: shrinks_bind [OF o1] shrinks_expect)
  qed (simp add: p_primary_def)
qed

lemma parse_test_shrinks: "shrinks (length ts) (lift_err (parse_test lk ts))"
proof (cases "peek ts = Eof")
  case False
  then have "length (tl ts) < length ts" by (rule peek_length)
  then show ?thesis
    by (auto simp: parse_test_def lift_err_def expect_def split: tok.splits sum.splits if_splits)
qed (simp add: parse_test_def lift_err_def)

lemma parse_axis_length: "parse_axis ts = (a, ts1) \<Longrightarrow> length ts1 \<le> length ts"
  by (auto simp: parse_axis_def split: tok.splits)

lemma p_step_shrinks:
  assumes g: "good n por" and n: "length ts \<le> n"
  shows "shrinks (length ts) (p_step lk por ts)"
proof -
  obtain ax ts1 where ax: "parse_axis ts = (ax, ts1)" by fastforce
  note l1 = parse_axis_length [OF ax]
  have ps: "shrinks (Suc (length ts2)) (p_preds por (Suc (length ts2)) ts2)" if "length ts2 < length ts1" for ts2
    using that l1 n by (intro p_preds_shrinks [OF g]) auto
  have "shrinks (length ts) (case lift_err (parse_test lk ts1) of Inl e \<Rightarrow> Inl e
      | Inr (t, ts2) \<Rightarrow> (case p_preds por (Suc (length ts2)) ts2 of
          Inl e \<Rightarrow> Inl e | Inr (ps, ts3) \<Rightarrow> Inr (Step ax t ps, ts3)))"
    using l1 by (auto intro!: shrinks_bind [OF parse_test_shrinks] shrinks_bind [OF ps])
  moreover have "peek ts = Dot \<or> peek ts = DDot \<Longrightarrow> length (tl ts) < length ts"
    by (intro peek_length) auto
  ultimately show ?thesis by (auto simp: p_step_def ax)
qed

lemma p_relative_shrinks: "good n por \<Longrightarrow> length ts \<le> n \<Longrightarrow> length ts < k \<Longrightarrow> shrinks (length ts) (p_relative lk por k ts)"
proof (induction k arbitrary: ts)
  case (Suc k)
  have IH: "shrinks (length ts2) (p_relative lk por k ts2)" if "length ts2 < length ts" for ts2
    using Suc that by simp
  show ?case
    using p_step_shrinks [OF Suc.prems(1,2)]
    by (auto intro!: shrinks_bind [where m = "length ts"] shrinks_bind [OF IH] dest: peek_length)
qed simp

lemma p_rel_shrinks: "good n por \<Longrightarrow> length ts \<le> n \<Longrightarrow> shrinks (length ts) (p_rel lk por ts)"
  by (simp add: p_rel_def p_relative_shrinks del: p_relative.simps)

lemma p_filter_shrinks:
  assumes g: "good n por" and n: "length ts \<le> n"
  shows "shrinks (length ts) (p_filter lk por ts)"
proof -
  have ps: "shrinks (Suc (length ts1)) (p_preds por (Suc (length ts1)) ts1)" if "length ts1 < length ts" for ts1
    using that n by (intro p_preds_shrinks [OF g]) auto
  have rl: "shrinks (length ts2) (p_rel lk por (tl ts2))" if "length ts2 < length ts" for ts2
    using that n by (intro shrinks_mono [OF p_rel_shrinks [OF g]]) auto
  show ?thesis
    unfolding p_filter_def Let_def
    by (auto intro!: shrinks_bind [OF p_primary_shrinks [OF g n]] shrinks_bind [OF ps] shrinks_bind [OF rl])
qed

lemma p_path_shrinks:
  assumes g: "good n por" and n: "length ts \<le> n"
  shows "shrinks (length ts) (p_path lk por ts)"
proof -
  have l: "peek ts \<noteq> Eof \<Longrightarrow> length (tl ts) < length ts" by (rule peek_length)
  have r0: "shrinks (length ts) (p_rel lk por ts)" by (rule p_rel_shrinks [OF g n])
  have r1: "shrinks (length (tl ts)) (p_rel lk por (tl ts))" using n by (intro p_rel_shrinks [OF g]) auto
  show ?thesis
    using l p_filter_shrinks [OF g n]
    by (auto simp: p_path_def intro!: shrinks_bind [OF r0] shrinks_bind [OF r1])
qed

lemma p_paths_shrinks: "good n por \<Longrightarrow> length ts \<le> n \<Longrightarrow> length ts < k \<Longrightarrow> shrinks (length ts) (p_paths lk por k ts)"
proof (induction k arbitrary: ts)
  case (Suc k)
  have IH: "shrinks (length ts2) (p_paths lk por k ts2)" if "length ts2 < length ts" for ts2
    using Suc that by simp
  show ?case
    using p_path_shrinks [OF Suc.prems(1,2)]
    by (auto intro!: shrinks_bind [where m = "length ts"] shrinks_bind [OF IH] dest: peek_length)
qed simp

lemma p_union_shrinks: "good n por \<Longrightarrow> length ts \<le> n \<Longrightarrow> shrinks (length ts) (p_union lk por ts)"
  unfolding p_union_def by (rule shrinks_bind [OF p_paths_shrinks [of n]]) auto

lemma p_unary_shrinks: "good n por \<Longrightarrow> length ts \<le> n \<Longrightarrow> shrinks (length ts) (p_unary lk por ts)"
proof (induction ts)
  case (Cons t ts)
  have r: "shrinks (length ts) (p_unary lk por ts)" using Cons by simp
  show ?case
    using p_union_shrinks [OF Cons.prems(1), of "t # ts"] Cons.prems
    by (auto intro!: shrinks_bind [OF r])
qed (simp add: p_union_shrinks [where ts = "[]", simplified])

text \<open>A binary level is good when the level below it is.\<close>

lemma p_loop_shrinks: "good n nxt \<Longrightarrow> length ts < n \<Longrightarrow> length ts < k \<Longrightarrow> shrinks (Suc (length ts)) (p_loop l nxt k a ts)"
proof (induction k arbitrary: a ts)
  case (Suc k)
  show ?case
  proof (cases "bin_op l (peek ts)")
    case (Some mk)
    then have "peek ts \<noteq> Eof" by (auto simp: bin_op_def split: if_splits)
    then have l: "length (tl ts) < length ts" by (rule peek_length)
    have IH: "shrinks (Suc (length ts)) (p_loop l nxt k a2 ts2)" if "length ts2 < length ts" for a2 ts2
      using Suc that by (intro shrinks_mono [OF Suc.IH]) auto
    have "shrinks (length (tl ts)) (nxt (tl ts))" using Suc.prems l by (intro goodD [of n]) auto
    then show ?thesis using Some l IH by (auto intro!: shrinks_bind [where m = "length (tl ts)"])
  qed simp
qed simp

lemma p_binary_good: "good n nxt \<Longrightarrow> good n (p_binary l nxt)"
  unfolding good_def
proof (intro allI impI)
  fix ts :: "tok list"
  assume g: "\<forall>ts. length ts < n \<longrightarrow> shrinks (length ts) (nxt ts)" and n: "length ts < n"
  have r: "shrinks (length ts) (p_loop l nxt (Suc (length ts1)) a ts1)" if "length ts1 < length ts" for a ts1
    using g n that by (intro shrinks_mono [OF p_loop_shrinks [of n]]) (auto simp: good_def)
  show "shrinks (length ts) (p_binary l nxt ts)"
    unfolding p_binary_def using g n r by (auto intro!: shrinks_bind [where m = "length ts"] simp del: p_loop.simps)
qed

lemma p_or_good: "good n (p_or lk n)"
proof (induction n)
  case (Suc n)
  have "good (Suc n) (p_unary lk (p_or lk n))"
    using p_unary_shrinks [OF Suc] by (simp add: good_def)
  then show ?case by (simp add: p_binary_good)
qed (simp add: good_def)

text \<open>The parser always answers: with a syntax tree, a syntax error or an unresolvable prefix; on no source
  does it run out of the depth and the loop turns the model gives it (one more than there are tokens), so the
  recursive descent of the code ends on every input.\<close>

theorem parse_never_too_deep:
  "parse u lk s \<noteq> Inl TooDeep"
proof (cases "tokenize u s")
  case (Inr ts)
  have "shrinks (length ts) (p_or lk (Suc (length ts)) ts)"
    using p_or_good [of "Suc (length ts)" lk] by (rule goodD) simp
  then have "p_or lk (Suc (length ts)) ts \<noteq> Inl TooDeep" unfolding shrinks_def by (rule conjunct1)
  then show ?thesis
    using Inr by (auto simp: parse_def parse_toks_def simp del: p_or.simps split: sum.splits prod.splits)
qed (simp add: parse_def)

end
