(* ===== verification/XFuns.thy ===== *)
theory XFuns
  imports XParse
begin

text \<open>
  The function library of \<open>25_xpath.js\<close> (lines 375--500): what each function computes from the values
  of its arguments.  The arguments of a call are evaluated once each, from left to right, before
  their values are used.
\<close>

record xenv =
  e_dom :: dom
  e_html :: bool

section \<open>Nodes by id\<close>

text \<open>
  The natives \<open>getElementById\<close> and \<open>querySelector(rt, '#' + id)\<close> return the first element of the
  tree in document order whose \<open>id\<close> attribute is the given string.
\<close>

fun first_with_id :: "dom \<Rightarrow> jstr \<Rightarrow> nat list \<Rightarrow> nat" where
  "first_with_id d s [] = 0"
| "first_with_id d s (x # xs) =
     (if (case info d x of None \<Rightarrow> False | Some n \<Rightarrow> i_nkind n = 1) \<and> get_attr d x (js ''id'') = Some s then x
      else first_with_id d s xs)"

definition element_by_id :: "dom \<Rightarrow> nat \<Rightarrow> jstr \<Rightarrow> nat" where
  "element_by_id d rt s =
     (if s = [] then 0
      else if rt = d_document d then first_with_id d s (subtree_ids d rt)
      else if kind_of d rt = 1 \<and> get_attr d rt (js ''id'') = Some s then rt
      else first_with_id d s (tl (subtree_ids d rt)))"

text \<open>\<open>split(/[\t\n\r ]+/)\<close>; the empty tokens at the ends select nothing, and are left out.\<close>

fun words :: "jstr \<Rightarrow> jstr \<Rightarrow> jstr list" where
  "words acc [] = (if acc = [] then [] else [acc])"
| "words acc (c # s) = (if is_space c then (if acc = [] then words [] s else acc # words [] s) else words (acc @ [c]) s)"

definition id_nodes :: "dom \<Rightarrow> xnode \<Rightarrow> jstr \<Rightarrow> xnode list" where
  "id_nodes d n s = (case root_of d n of
     Nd rt \<Rightarrow> doc_order d (map Nd (filter (\<lambda>x. x \<noteq> 0) (map (element_by_id d rt) (words [] s))))
   | _ \<Rightarrow> [])"

section \<open>The language of a node\<close>

fun lang_of :: "dom \<Rightarrow> bool \<Rightarrow> nat list \<Rightarrow> jstr option" where
  "lang_of d html [] = None"
| "lang_of d html (x # xs) =
     (if kind_of d x \<noteq> 1 \<or> plain_attrs d html x then lang_of d html xs
      else case get_attr d x (js ''xml:lang'') of Some v \<Rightarrow> Some v | None \<Rightarrow> lang_of d html xs)"

definition xml_lang :: "xenv \<Rightarrow> xnode \<Rightarrow> jstr option" where
  "xml_lang e n = lang_of (e_dom e) (e_html e) (ancestors_self (e_dom e) (owner_id n))"

definition lang_matches :: "xenv \<Rightarrow> xnode \<Rightarrow> jstr \<Rightarrow> bool" where
  "lang_matches e n s = (let want = ascii_lower s in
     case xml_lang e n of
       None \<Rightarrow> False
     | Some have0 \<Rightarrow> (let h = ascii_lower have0 in h = want \<or> prefix_of (want @ js ''-'') h))"

section \<open>Strings\<close>

definition pick_name :: "fn \<Rightarrow> jstr \<times> jstr option \<times> jstr option \<Rightarrow> jstr" where
  "pick_name f p = (case p of (l, ns, pre) \<Rightarrow>
     if f = FLocalName then l
     else if f = FNamespaceUri then (case ns of None \<Rightarrow> [] | Some u \<Rightarrow> u)
     else (case pre of None \<Rightarrow> l | Some q \<Rightarrow> q @ js '':'' @ l))"

definition name_of :: "xenv \<Rightarrow> fn \<Rightarrow> xnode \<Rightarrow> jstr" where
  "name_of e f n = (case name_parts (e_dom e) (e_html e) n of None \<Rightarrow> [] | Some p \<Rightarrow> pick_name f p)"

definition substring_before :: "jstr \<Rightarrow> jstr \<Rightarrow> jstr" where
  "substring_before x y = (case index_of y x of None \<Rightarrow> [] | Some i \<Rightarrow> take i x)"

definition substring_after :: "jstr \<Rightarrow> jstr \<Rightarrow> jstr" where
  "substring_after x y = (case index_of y x of None \<Rightarrow> [] | Some i \<Rightarrow> drop (i + length y) x)"

definition num_nat :: "jsnum \<Rightarrow> nat" where
  "num_nat n = (case fin_val n of None \<Rightarrow> 0 | Some r \<Rightarrow> nat \<lfloor>r\<rfloor>)"

definition xp_substring :: "jstr \<Rightarrow> jsnum \<Rightarrow> jsnum option \<Rightarrow> jstr" where
  "xp_substring x start0 len =
     (let start = num_round start0;
          end0 = (case len of None \<Rightarrow> PInf | Some l \<Rightarrow> num_add start (num_round l)) in
      if start = NaN \<or> end0 = NaN then []
      else let from0 = num_max start (Fin 1); to0 = num_min end0 (Fin (of_nat (length x + 1))) in
        if num_lt from0 to0 then segment x (num_nat from0 - 1) (num_nat to0 - 1) else [])"

text \<open>\<open>replace(/[\t\n\r ]+/g, ' ')\<close>; \<open>sp\<close> says that the last character was white space.\<close>

fun collapse :: "bool \<Rightarrow> jstr \<Rightarrow> jstr" where
  "collapse sp [] = []"
| "collapse sp (c # s) = (if is_space c then (if sp then collapse True s else 32 # collapse True s) else c # collapse False s)"

definition trim_one :: "jstr \<Rightarrow> jstr" where
  "trim_one s = (let s1 = (case s of c # r \<Rightarrow> if c = 32 then r else s | [] \<Rightarrow> []) in
     if s1 \<noteq> [] \<and> last s1 = 32 then butlast s1 else s1)"

definition normalize_space :: "jstr \<Rightarrow> jstr" where
  "normalize_space s = trim_one (collapse False s)"

fun xp_translate :: "jstr \<Rightarrow> jstr \<Rightarrow> jstr \<Rightarrow> jstr" where
  "xp_translate from0 to0 [] = []"
| "xp_translate from0 to0 (c # s) = (case index_of [c] from0 of
     None \<Rightarrow> c # xp_translate from0 to0 s
   | Some j \<Rightarrow> if j < length to0 then to0 ! j # xp_translate from0 to0 s else xp_translate from0 to0 s)"

fun sum_values :: "dom \<Rightarrow> jsnum \<Rightarrow> xnode list \<Rightarrow> jsnum" where
  "sum_values d acc [] = acc"
| "sum_values d acc (n # ns) = sum_values d (num_add acc (str_to_num (string_value d n))) ns"

section \<open>Calls\<close>

definition arg_str :: "dom \<Rightarrow> xval list \<Rightarrow> nat \<Rightarrow> jstr" where
  "arg_str d vs i = to_str d (vs ! i)"

text \<open>\<open>stringArg\<close>: the string-value of the context node, or the argument as a string.\<close>

definition opt_str :: "dom \<Rightarrow> xnode \<Rightarrow> xval list \<Rightarrow> jstr" where
  "opt_str d n vs = (case vs of [] \<Rightarrow> string_value d n | v # _ \<Rightarrow> to_str d v)"

definition call_name :: "xenv \<Rightarrow> fn \<Rightarrow> xnode \<Rightarrow> xval list \<Rightarrow> jstr" where
  "call_name e f n vs = (case vs of
     [] \<Rightarrow> name_of e f n
   | XSet (m # _) # _ \<Rightarrow> name_of e f m
   | _ \<Rightarrow> [])"

definition call_fn :: "xenv \<Rightarrow> fn \<Rightarrow> xnode \<Rightarrow> nat \<Rightarrow> nat \<Rightarrow> xval list \<Rightarrow> xval res" where
  "call_fn e f n pos sz vs = (let d = e_dom e in case f of
     FLast \<Rightarrow> Inr (XNum (Fin (of_nat sz)))
   | FPosition \<Rightarrow> Inr (XNum (Fin (of_nat pos)))
   | FCount \<Rightarrow> (case node_set_of (vs ! 0) of Inl x \<Rightarrow> Inl x | Inr ns \<Rightarrow> Inr (XNum (Fin (of_nat (length ns)))))
   | FId \<Rightarrow> Inr (XSet (id_nodes d n (case vs ! 0 of XSet ns \<Rightarrow> join_with [32] (map (string_value d) ns) | v \<Rightarrow> to_str d v)))
   | FLocalName \<Rightarrow> Inr (XStr (call_name e FLocalName n vs))
   | FNamespaceUri \<Rightarrow> Inr (XStr (call_name e FNamespaceUri n vs))
   | FName \<Rightarrow> Inr (XStr (call_name e FName n vs))
   | FString \<Rightarrow> Inr (XStr (opt_str d n vs))
   | FConcat \<Rightarrow> Inr (XStr (concat (map (to_str d) vs)))
   | FStartsWith \<Rightarrow> Inr (XBool (prefix_of (arg_str d vs 1) (arg_str d vs 0)))
   | FContains \<Rightarrow> Inr (XBool (str_contains (arg_str d vs 0) (arg_str d vs 1)))
   | FSubstringBefore \<Rightarrow> Inr (XStr (substring_before (arg_str d vs 0) (arg_str d vs 1)))
   | FSubstringAfter \<Rightarrow> Inr (XStr (substring_after (arg_str d vs 0) (arg_str d vs 1)))
   | FSubstring \<Rightarrow> Inr (XStr (xp_substring (arg_str d vs 0) (to_num d (vs ! 1))
       (if length vs = 3 then Some (to_num d (vs ! 2)) else None)))
   | FStringLength \<Rightarrow> Inr (XNum (Fin (of_nat (length (opt_str d n vs)))))
   | FNormalizeSpace \<Rightarrow> Inr (XStr (normalize_space (opt_str d n vs)))
   | FTranslate \<Rightarrow> Inr (XStr (xp_translate (arg_str d vs 1) (arg_str d vs 2) (arg_str d vs 0)))
   | FBoolean \<Rightarrow> Inr (XBool (to_bool (vs ! 0)))
   | FNot \<Rightarrow> Inr (XBool (\<not> to_bool (vs ! 0)))
   | FTrue \<Rightarrow> Inr (XBool True)
   | FFalse \<Rightarrow> Inr (XBool False)
   | FLang \<Rightarrow> Inr (XBool (lang_matches e n (arg_str d vs 0)))
   | FNumber \<Rightarrow> Inr (XNum (case vs of [] \<Rightarrow> str_to_num (string_value d n) | v # _ \<Rightarrow> to_num d v))
   | FSum \<Rightarrow> Inr (XNum (case vs ! 0 of XSet ns \<Rightarrow> sum_values d (Fin 0) ns | _ \<Rightarrow> Fin 0))
   | FFloor \<Rightarrow> Inr (XNum (num_floor (to_num d (vs ! 0))))
   | FCeiling \<Rightarrow> Inr (XNum (num_ceil (to_num d (vs ! 0))))
   | FRound \<Rightarrow> Inr (XNum (num_round (to_num d (vs ! 0)))))"

end
