(* ===== verification/XEval.thy ===== *)
theory XEval
  imports XFuns
begin

text \<open>
  Steps and evaluation (\<open>25_xpath.js\<close>, lines 620--955): node tests, axes, predicates, the reduction
  of inputs, the merging of \<open>//\<close> steps, and the closures that \<open>compile\<close> builds, applied to a context.
\<close>

section \<open>Node tests\<close>

definition element_matches :: "xenv \<Rightarrow> nat \<Rightarrow> test \<Rightarrow> bool" where
  "element_matches e x t = (case t of
     TName l lower ns any \<Rightarrow>
       (let d = e_dom e; html = e_html e in
        if any then ns = None \<or> ns = el_ns d x
        else
          let same = (el_local d x = l) in
          if \<not> same \<and> \<not> (html \<and> ascii_lower (el_local d x) = lower) then False
          else if html \<and> el_ns d x = Some ns_html then ns = None \<or> ns = Some ns_html
          else same \<and> ns = el_ns d x \<and> (ns \<noteq> None \<or> \<not> html))
   | _ \<Rightarrow> False)"

definition attribute_matches :: "xenv \<Rightarrow> nat \<Rightarrow> jstr \<Rightarrow> test \<Rightarrow> bool" where
  "attribute_matches e x name t = (case t of
     TName l lower ns any \<Rightarrow>
       (let d = e_dom e; html = e_html e in
        if is_ns_decl d html x name then False
        else
          let p = (case index_of (js '':'') name of Some (Suc i) \<Rightarrow> attr_parts d html x name | _ \<Rightarrow> (name, None, None));
              loc = fst p; ans = fst (snd p) in
          if any then ns = None \<or> ns = ans
          else if html \<and> ns = None \<and> ans = None \<and> el_ns d x = Some ns_html then ascii_lower loc = lower
          else loc = l \<and> ans = ns)
   | _ \<Rightarrow> False)"

text \<open>\<open>treeTest\<close>: a predicate on a tree node and its kind.\<close>

definition tree_test :: "xenv \<Rightarrow> test \<Rightarrow> nat \<Rightarrow> int \<Rightarrow> bool" where
  "tree_test e t x k = (case t of
     TNode \<Rightarrow> True
   | TText \<Rightarrow> k = 3 \<or> k = 4
   | TComment \<Rightarrow> k = 8
   | TPi None \<Rightarrow> k = 7
   | TPi (Some target) \<Rightarrow> k = 7 \<and> (case info (e_dom e) x of None \<Rightarrow> False | Some n \<Rightarrow> i_name n = target)
   | TName _ _ _ _ \<Rightarrow> k = 1 \<and> element_matches e x t)"

text \<open>\<open>step.attr\<close> of \<open>compileStep\<close>.\<close>

definition attr_test :: "xenv \<Rightarrow> test \<Rightarrow> nat \<Rightarrow> jstr \<Rightarrow> bool" where
  "attr_test e t x name = (case t of
     TName _ _ _ _ \<Rightarrow> attribute_matches e x name t
   | TNode \<Rightarrow> \<not> is_ns_decl (e_dom e) (e_html e) x name
   | _ \<Rightarrow> False)"

definition passes :: "xenv \<Rightarrow> test \<Rightarrow> nat \<Rightarrow> bool" where
  "passes e t x = tree_test e t x (kind_of (e_dom e) x)"

section \<open>Axes\<close>

text \<open>
  \<open>descend\<close> keeps a stack of child lists with a position in each; the model keeps what is left of
  each list.  A turn pops a list or takes a node, and the lists on the stack belong to different
  nodes, so twice the number of nodes bounds the turns.
\<close>

fun descend_loop :: "xenv \<Rightarrow> test \<Rightarrow> nat \<Rightarrow> nat list list \<Rightarrow> nat list \<Rightarrow> nat list" where
  "descend_loop e t 0 st out = out"
| "descend_loop e t (Suc n) [] out = out"
| "descend_loop e t (Suc n) ([] # st) out = descend_loop e t n st out"
| "descend_loop e t (Suc n) ((c # cs) # st) out =
     descend_loop e t n
       (if kind_of (e_dom e) c = 1 \<and> child_ids (e_dom e) c \<noteq> [] then child_ids (e_dom e) c # cs # st else cs # st)
       (if passes e t c then out @ [c] else out)"

definition descend :: "xenv \<Rightarrow> test \<Rightarrow> nat \<Rightarrow> nat list" where
  "descend e t x = descend_loop e t (2 * length (all_ids (e_dom e)) + 2) [child_ids (e_dom e) x] []"

text \<open>The loops over \<open>nextSibling\<close> and \<open>prevSibling\<close>.\<close>

fun sibling_chain :: "(nat \<Rightarrow> nat) \<Rightarrow> nat \<Rightarrow> nat \<Rightarrow> nat list" where
  "sibling_chain nxt 0 x = []"
| "sibling_chain nxt (Suc n) x = (if nxt x = 0 then [] else nxt x # sibling_chain nxt n (nxt x))"

definition next_siblings :: "dom \<Rightarrow> nat \<Rightarrow> nat list" where
  "next_siblings d x = sibling_chain (next_sibling d) (length (all_ids d)) x"

definition prev_siblings :: "dom \<Rightarrow> nat \<Rightarrow> nat list" where
  "prev_siblings d x = sibling_chain (prev_sibling d) (length (all_ids d)) x"

text \<open>A sibling and what is below it, as \<open>following\<close> and \<open>preceding\<close> collect it.\<close>

definition with_descendants :: "xenv \<Rightarrow> test \<Rightarrow> nat \<Rightarrow> nat list" where
  "with_descendants e t s =
     (if passes e t s then [s] else []) @ (if kind_of (e_dom e) s = 1 then descend e t s else [])"

fun following_from :: "xenv \<Rightarrow> test \<Rightarrow> nat list \<Rightarrow> nat list" where
  "following_from e t [] = []"
| "following_from e t (a # as) =
     concat (map (with_descendants e t) (next_siblings (e_dom e) a)) @ following_from e t as"

definition following :: "xenv \<Rightarrow> test \<Rightarrow> nat \<Rightarrow> nat list" where
  "following e t x = following_from e t (ancestors_self (e_dom e) x)"

fun preceding_from :: "xenv \<Rightarrow> test \<Rightarrow> nat list \<Rightarrow> nat list" where
  "preceding_from e t [] = []"
| "preceding_from e t (a # as) =
     concat (map (\<lambda>s. rev (with_descendants e t s)) (prev_siblings (e_dom e) a)) @ preceding_from e t as"

definition preceding :: "xenv \<Rightarrow> test \<Rightarrow> nat \<Rightarrow> nat list" where
  "preceding e t x = preceding_from e t (ancestors_self (e_dom e) x)"

text \<open>A compiled step.\<close>

datatype cstep = CStep (cs_axis: axis) (cs_test: test) (cs_preds: "ast list")

text \<open>\<open>collectFromAttr\<close>: an attribute has no children, siblings or attributes.\<close>

definition collect_attr :: "xenv \<Rightarrow> axis \<Rightarrow> test \<Rightarrow> xnode \<Rightarrow> xnode list" where
  "collect_attr e ax t n =
     (let oid = owner_id n; self = (t = TNode); d = e_dom e in
      case ax of
        Self \<Rightarrow> if self then [n] else []
      | DescendantOrSelf \<Rightarrow> if self then [n] else []
      | Parent \<Rightarrow> if oid \<noteq> 0 \<and> tree_test e t oid 1 then [Nd oid] else []
      | Ancestor \<Rightarrow> map Nd (filter (passes e t) (ancestors_self d oid))
      | AncestorOrSelf \<Rightarrow> (if self then [n] else []) @ map Nd (filter (passes e t) (ancestors_self d oid))
      | Following \<Rightarrow> if oid \<noteq> 0 then map Nd (following e t oid) else []
      | Preceding \<Rightarrow> if oid \<noteq> 0 then map Nd (preceding e t oid) else []
      | _ \<Rightarrow> [])"

definition collect_node :: "xenv \<Rightarrow> axis \<Rightarrow> test \<Rightarrow> nat \<Rightarrow> xnode list" where
  "collect_node e ax t x =
     (let d = e_dom e; k = kind_of d x in
      case ax of
        Child \<Rightarrow> if has_children k then map Nd (filter (passes e t) (child_ids d x)) else []
      | Descendant \<Rightarrow> if has_children k then map Nd (descend e t x) else []
      | DescendantOrSelf \<Rightarrow> (if passes e t x then [Nd x] else []) @ (if has_children k then map Nd (descend e t x) else [])
      | Self \<Rightarrow> if passes e t x then [Nd x] else []
      | Parent \<Rightarrow> if parent d x \<noteq> 0 \<and> passes e t (parent d x) then [Nd (parent d x)] else []
      | Ancestor \<Rightarrow> map Nd (filter (passes e t) (ancestors_self d (parent d x)))
      | AncestorOrSelf \<Rightarrow> (if passes e t x then [Nd x] else []) @ map Nd (filter (passes e t) (ancestors_self d (parent d x)))
      | FollowingSibling \<Rightarrow> map Nd (filter (passes e t) (next_siblings d x))
      | PrecedingSibling \<Rightarrow> map Nd (filter (passes e t) (prev_siblings d x))
      | Following \<Rightarrow> map Nd (following e t x)
      | Preceding \<Rightarrow> map Nd (preceding e t x)
      | Attribute \<Rightarrow> if k = 1 then map (At x) (filter (attr_test e t x) (attr_names d x)) else []
      | NamespaceAxis \<Rightarrow> [])"

definition collect :: "xenv \<Rightarrow> axis \<Rightarrow> test \<Rightarrow> xnode \<Rightarrow> xnode list" where
  "collect e ax t n = (case n of Nd x \<Rightarrow> collect_node e ax t x | _ \<Rightarrow> collect_attr e ax t n)"

definition reverse_axis :: "axis \<Rightarrow> bool" where
  "reverse_axis a = (a \<in> {Ancestor, AncestorOrSelf, Preceding, PrecedingSibling})"

definition keeps_order :: "axis \<Rightarrow> bool" where
  "keeps_order a = (a \<in> {Attribute, Self})"

section \<open>Reducing the inputs of following and preceding\<close>

fun innermost :: "dom \<Rightarrow> nat \<Rightarrow> xnode list \<Rightarrow> nat" where
  "innermost d best [] = best"
| "innermost d best (n # ns) = innermost d (if contains d best (owner_id n) then owner_id n else best) ns"

definition is_nd :: "xnode \<Rightarrow> bool" where
  "is_nd n = (case n of Nd _ \<Rightarrow> True | _ \<Rightarrow> False)"

definition reduce_inputs :: "dom \<Rightarrow> cstep \<Rightarrow> xnode list \<Rightarrow> xnode list" where
  "reduce_inputs d s input =
     (if cs_preds s \<noteq> [] \<or> (cs_axis s \<noteq> Following \<and> cs_axis s \<noteq> Preceding) then input
      else if \<not> list_all is_nd input then input
      else if cs_axis s = Preceding then [last input]
      else case input of [] \<Rightarrow> [] | n # ns \<Rightarrow> [Nd (innermost d (owner_id n) ns)])"

lemma reduce_inputs_length: "input \<noteq> [] \<Longrightarrow> length (reduce_inputs d s input) \<le> length input"
  by (cases input) (auto simp: reduce_inputs_def)

lemma reduce_inputs_less: "Suc 0 < length input \<Longrightarrow> length (reduce_inputs d s input) < Suc (length input)"
  using reduce_inputs_length [of input d s] by (cases input) auto

section \<open>Static analysis\<close>

definition static_type :: "ast \<Rightarrow> vtype" where
  "static_type a = (case a of
     ANum _ \<Rightarrow> TyNumber | AArith _ _ _ \<Rightarrow> TyNumber | ANeg _ \<Rightarrow> TyNumber
   | AStr _ \<Rightarrow> TyString
   | AOr _ _ \<Rightarrow> TyBoolean | AAnd _ _ \<Rightarrow> TyBoolean | ACmp _ _ _ \<Rightarrow> TyBoolean
   | ACall f _ \<Rightarrow> fn_type f
   | _ \<Rightarrow> TyNodeset)"

fun uses_position :: "ast \<Rightarrow> bool"
  and uses_position_step :: "step \<Rightarrow> bool" where
  "uses_position (ACall f as) = (f = FPosition \<or> f = FLast \<or> list_ex uses_position as)"
| "uses_position (AOr a b) = (uses_position a \<or> uses_position b)"
| "uses_position (AAnd a b) = (uses_position a \<or> uses_position b)"
| "uses_position (ACmp op a b) = (uses_position a \<or> uses_position b)"
| "uses_position (AArith op a b) = (uses_position a \<or> uses_position b)"
| "uses_position (ANeg a) = uses_position a"
| "uses_position (AUnion as) = list_ex uses_position as"
| "uses_position (AFilter a ps) = (uses_position a \<or> list_ex uses_position ps)"
| "uses_position (APath start ab ss) =
     ((case start of None \<Rightarrow> False | Some a \<Rightarrow> uses_position a) \<or> list_ex uses_position_step ss)"
| "uses_position (ANum v) = False"
| "uses_position (AStr s) = False"
| "uses_position_step (Step a t ps) = list_ex uses_position ps"
| "uses_position_step SlashSlash = False"

definition positional :: "ast \<Rightarrow> bool" where
  "positional p = (static_type p = TyNumber \<or> uses_position p)"

fun merge_steps :: "step list \<Rightarrow> cstep list" where
  "merge_steps [] = []"
| "merge_steps (SlashSlash # Step a t ps # ss) =
     (if a = Child \<and> \<not> list_ex positional ps then CStep Descendant t ps # merge_steps ss
      else CStep DescendantOrSelf TNode [] # merge_steps (Step a t ps # ss))"
| "merge_steps (s # ss) = CStep (step_axis s) (step_test s) (step_preds s) # merge_steps ss"

section \<open>Evaluation\<close>

text \<open>The closures of \<open>compile\<close>, applied to a context node, position and size.\<close>

definition arith_op :: "arith \<Rightarrow> jsnum \<Rightarrow> jsnum \<Rightarrow> jsnum" where
  "arith_op op a b = (case op of
     AAdd \<Rightarrow> num_add a b | ASub \<Rightarrow> num_sub a b | AMul \<Rightarrow> num_mul a b | ADiv \<Rightarrow> num_div a b | AMod \<Rightarrow> num_rem a b)"

text \<open>Whether a predicate value selects the node at position \<open>i\<close>.\<close>

definition selects :: "xval \<Rightarrow> nat \<Rightarrow> bool" where
  "selects v i = (case v of XNum n \<Rightarrow> num_eq n (Fin (of_nat i)) | _ \<Rightarrow> to_bool v)"

lemma step_preds_size [simp]: "size_list size (step_preds s) \<le> size s"
  by (cases s) auto

lemma merge_steps_size:
  "size_list (\<lambda>c. size_list size (cs_preds c)) (merge_steps ss) \<le> size_list size ss"
  apply (induction ss rule: merge_steps.induct)
      apply auto
  subgoal for s va
    using step_preds_size [of s] by linarith
  done

text \<open>
  Every call is on a smaller expression, or on the same with the next part of a loop: the size comes
  first, then the rank of the function, then the length of the list.
\<close>

abbreviation preds_size :: "cstep \<Rightarrow> nat" where
  "preds_size s \<equiv> size_list size (cs_preds s)"

function (sequential) eval :: "xenv \<Rightarrow> ast \<Rightarrow> xnode \<Rightarrow> nat \<Rightarrow> nat \<Rightarrow> xval res"
  and eval_args :: "xenv \<Rightarrow> ast list \<Rightarrow> xnode \<Rightarrow> nat \<Rightarrow> nat \<Rightarrow> xval list res"
  and eval_union :: "xenv \<Rightarrow> ast list \<Rightarrow> xnode list \<Rightarrow> xnode \<Rightarrow> nat \<Rightarrow> nat \<Rightarrow> xnode list res"
  and apply_pred :: "xenv \<Rightarrow> ast \<Rightarrow> nat \<Rightarrow> nat \<Rightarrow> xnode list \<Rightarrow> xnode list res"
  and apply_preds :: "xenv \<Rightarrow> ast list \<Rightarrow> xnode list \<Rightarrow> xnode list res"
  and step_from :: "xenv \<Rightarrow> cstep \<Rightarrow> xnode \<Rightarrow> xnode list res"
  and step_each :: "xenv \<Rightarrow> cstep \<Rightarrow> xnode list \<Rightarrow> xnode list res"
  and eval_step :: "xenv \<Rightarrow> cstep \<Rightarrow> xnode list \<Rightarrow> xnode list res"
  and eval_steps :: "xenv \<Rightarrow> cstep list \<Rightarrow> xnode list \<Rightarrow> xnode list res" where
  "eval e (ANum v) n p z = Inr (XNum v)"
| "eval e (AStr s) n p z = Inr (XStr s)"
| "eval e (AOr a b) n p z = (case eval e a n p z of
     Inl x \<Rightarrow> Inl x
   | Inr v \<Rightarrow> if to_bool v then Inr (XBool True)
              else (case eval e b n p z of Inl x \<Rightarrow> Inl x | Inr w \<Rightarrow> Inr (XBool (to_bool w))))"
| "eval e (AAnd a b) n p z = (case eval e a n p z of
     Inl x \<Rightarrow> Inl x
   | Inr v \<Rightarrow> if \<not> to_bool v then Inr (XBool False)
              else (case eval e b n p z of Inl x \<Rightarrow> Inl x | Inr w \<Rightarrow> Inr (XBool (to_bool w))))"
| "eval e (ACmp op a b) n p z = (case eval e a n p z of
     Inl x \<Rightarrow> Inl x
   | Inr v \<Rightarrow> (case eval e b n p z of Inl x \<Rightarrow> Inl x | Inr w \<Rightarrow> Inr (XBool (compare_vals (e_dom e) op v w))))"
| "eval e (ANeg a) n p z = (case eval e a n p z of
     Inl x \<Rightarrow> Inl x | Inr v \<Rightarrow> Inr (XNum (num_neg (to_num (e_dom e) v))))"
| "eval e (AArith op a b) n p z = (case eval e a n p z of
     Inl x \<Rightarrow> Inl x
   | Inr v \<Rightarrow> (case eval e b n p z of
       Inl x \<Rightarrow> Inl x | Inr w \<Rightarrow> Inr (XNum (arith_op op (to_num (e_dom e) v) (to_num (e_dom e) w)))))"
| "eval e (AUnion []) n p z = Inr (XSet [])"
| "eval e (AUnion (a # as)) n p z = (case eval e a n p z of
     Inl x \<Rightarrow> Inl x
   | Inr v \<Rightarrow> (case node_set_of v of
       Inl x \<Rightarrow> Inl x
     | Inr ns \<Rightarrow> (case eval_union e as ns n p z of Inl x \<Rightarrow> Inl x | Inr all \<Rightarrow> Inr (XSet all))))"
| "eval e (ACall f as) n p z = (case eval_args e as n p z of Inl x \<Rightarrow> Inl x | Inr vs \<Rightarrow> call_fn e f n p z vs)"
| "eval e (AFilter a ps) n p z = (case eval e a n p z of
     Inl x \<Rightarrow> Inl x
   | Inr v \<Rightarrow> (case node_set_of v of
       Inl x \<Rightarrow> Inl x
     | Inr ns \<Rightarrow> (case apply_preds e ps ns of Inl x \<Rightarrow> Inl x | Inr l \<Rightarrow> Inr (XSet l))))"
| "eval e (APath None ab ss) n p z =
     (case eval_steps e (merge_steps ss) [if ab then root_of (e_dom e) n else n] of Inl x \<Rightarrow> Inl x | Inr l \<Rightarrow> Inr (XSet l))"
| "eval e (APath (Some a) ab ss) n p z = (case eval e a n p z of
     Inl x \<Rightarrow> Inl x
   | Inr v \<Rightarrow> (case node_set_of v of
       Inl x \<Rightarrow> Inl x
     | Inr ns \<Rightarrow> (case eval_steps e (merge_steps ss) ns of Inl x \<Rightarrow> Inl x | Inr l \<Rightarrow> Inr (XSet l))))"
| "eval_args e [] n p z = Inr []"
| "eval_args e (a # as) n p z = (case eval e a n p z of
     Inl x \<Rightarrow> Inl x
   | Inr v \<Rightarrow> (case eval_args e as n p z of Inl x \<Rightarrow> Inl x | Inr vs \<Rightarrow> Inr (v # vs)))"
| "eval_union e [] all n p z = Inr all"
| "eval_union e (a # as) all n p z = (case eval e a n p z of
     Inl x \<Rightarrow> Inl x
   | Inr v \<Rightarrow> (case node_set_of v of
       Inl x \<Rightarrow> Inl x
     | Inr ns \<Rightarrow> eval_union e as (doc_order (e_dom e) (all @ ns)) n p z))"
| "apply_pred e a sz i [] = Inr []"
| "apply_pred e a sz i (m # ms) = (case eval e a m i sz of
     Inl x \<Rightarrow> Inl x
   | Inr v \<Rightarrow> (case apply_pred e a sz (Suc i) ms of
       Inl x \<Rightarrow> Inl x
     | Inr l \<Rightarrow> Inr (if selects v i then m # l else l)))"
| "apply_preds e [] l = Inr l"
| "apply_preds e (a # as) [] = Inr []"
| "apply_preds e (a # as) (m # ms) = (case apply_pred e a (length (m # ms)) 1 (m # ms) of
     Inl x \<Rightarrow> Inl x | Inr l \<Rightarrow> apply_preds e as l)"
| "step_from e (CStep ax t ps) m = (case apply_preds e ps (collect e ax t m) of
     Inl x \<Rightarrow> Inl x | Inr l \<Rightarrow> Inr (if reverse_axis ax then rev l else l))"
| "step_each e s [] = Inr []"
| "step_each e s (m # ms) = (case step_from e s m of
     Inl x \<Rightarrow> Inl x
   | Inr l \<Rightarrow> (case step_each e s ms of Inl x \<Rightarrow> Inl x | Inr r \<Rightarrow> Inr (l @ r)))"
| "eval_step e s input =
     (let inp = (if 1 < length input then reduce_inputs (e_dom e) s input else input) in
      case inp of
        [m] \<Rightarrow> step_from e s m
      | _ \<Rightarrow> (case step_each e s inp of
          Inl x \<Rightarrow> Inl x
        | Inr out \<Rightarrow> Inr (if keeps_order (cs_axis s) then out else doc_order (e_dom e) out)))"
| "eval_steps e [] cur = Inr cur"
| "eval_steps e (s # ss) [] = Inr []"
| "eval_steps e (s # ss) (m # ms) = (case eval_step e s (m # ms) of
     Inl x \<Rightarrow> Inl x | Inr cur \<Rightarrow> eval_steps e ss cur)"
  by pat_completeness auto

termination
proof (relation "measures
    [case_sum
       (case_sum (case_sum (\<lambda>(e, a, n, p, z). size a) (\<lambda>(e, as, n, p, z). size_list size as))
                 (case_sum (\<lambda>(e, as, l, n, p, z). size_list size as) (\<lambda>(e, a, sz, i, l). size a)))
       (case_sum (case_sum (\<lambda>(e, as, l). size_list size as) (\<lambda>(e, s, m). preds_size s))
                 (case_sum (\<lambda>(e, s, l). preds_size s)
                           (case_sum (\<lambda>(e, s, l). preds_size s) (\<lambda>(e, ss, l). size_list preds_size ss)))),
     case_sum
       (case_sum (case_sum (\<lambda>_. 0) (\<lambda>_. 0)) (case_sum (\<lambda>_. 0) (\<lambda>(e, a, sz, i, l). Suc (length l))))
       (case_sum (case_sum (\<lambda>_. 0) (\<lambda>_. 1)) (case_sum (\<lambda>(e, s, l). 2 + length l) (case_sum (\<lambda>(e, s, l). 3 + length l) (\<lambda>_. 0))))]")
qed (auto simp: le_imp_less_Suc [OF merge_steps_size] le_imp_less_Suc [OF le_trans [OF merge_steps_size]]
     intro: reduce_inputs_less split: if_splits)

end
