(* ===== verification/XApi.thy ===== *)
theory XApi
  imports XEval
begin

text \<open>
  The page's interface to XPath (\<open>25_xpath.js\<close>, lines 960--1156): compilation with a namespace
  resolver, \<open>XPathResult\<close>, and the entry points of \<open>XPathExpression\<close>, \<open>XPathEvaluator\<close> and
  \<open>Document\<close>.
\<close>

section \<open>Compilation\<close>

text \<open>
  A resolver is the page's function or object; calling it with a prefix gives the string it
  returned, nothing (\<open>null\<close> or \<open>undefined\<close>), or what it threw, which is reported and then ignored.
\<close>

type_synonym resolver = "jstr \<Rightarrow> exn + jstr option"

definition resolver_fn :: "resolver option \<Rightarrow> jstr \<Rightarrow> jstr option" where
  "resolver_fn r prefix = (case r of
     None \<Rightarrow> None
   | Some f \<Rightarrow> (case f prefix of Inl e \<Rightarrow> None | Inr x \<Rightarrow> x))"

definition compile_expression :: "unicode \<Rightarrow> jstr \<Rightarrow> resolver option \<Rightarrow> ast res" where
  "compile_expression u src r = (case parse u (resolver_fn r) src of
     Inl (PErr BadNamespace) \<Rightarrow> Inl (DomErr ''NamespaceError'')
   | Inl (PErr BadExpression) \<Rightarrow> Inl (DomErr ''SyntaxError'')
   | Inl TooDeep \<Rightarrow> Inl (DomErr ''SyntaxError'')
   | Inr a \<Rightarrow> Inr a)"

section \<open>Results\<close>

text \<open>\<open>ANY_TYPE\<close> .. \<open>FIRST_ORDERED_NODE_TYPE\<close> are the numbers 0 to 9.\<close>

record xresult =
  r_type :: int
  r_value :: xval
  r_pos :: nat
  r_tree :: nat
  r_attr :: nat

text \<open>The mutation epochs of the document, \<open>L.state\<close>.\<close>

record epochs =
  ep_tree :: nat
  ep_attr :: nat

definition new_result :: "epochs \<Rightarrow> int \<Rightarrow> xval \<Rightarrow> xresult" where
  "new_result ep ty v = \<lparr>r_type = ty, r_value = v, r_pos = 0, r_tree = ep_tree ep, r_attr = ep_attr ep\<rparr>"

definition number_value :: "xresult \<Rightarrow> xval res" where
  "number_value r = (if r_type r \<noteq> 1 then Inl TypeErr else Inr (r_value r))"

definition string_value_of :: "xresult \<Rightarrow> xval res" where
  "string_value_of r = (if r_type r \<noteq> 2 then Inl TypeErr else Inr (r_value r))"

definition boolean_value :: "xresult \<Rightarrow> xval res" where
  "boolean_value r = (if r_type r \<noteq> 3 then Inl TypeErr else Inr (r_value r))"

definition nodes_of :: "xresult \<Rightarrow> xnode list" where
  "nodes_of r = (case r_value r of XSet ns \<Rightarrow> ns | _ \<Rightarrow> [])"

definition single_node_value :: "xresult \<Rightarrow> xnode option res" where
  "single_node_value r =
     (if r_type r \<noteq> 8 \<and> r_type r \<noteq> 9 then Inl TypeErr
      else Inr (case nodes_of r of [] \<Rightarrow> None | n # _ \<Rightarrow> Some n))"

definition invalid_iterator_state :: "epochs \<Rightarrow> xresult \<Rightarrow> bool" where
  "invalid_iterator_state ep r =
     (if r_type r \<noteq> 4 \<and> r_type r \<noteq> 5 then False else r_tree r \<noteq> ep_tree ep \<or> r_attr r \<noteq> ep_attr ep)"

definition snapshot_length :: "xresult \<Rightarrow> nat res" where
  "snapshot_length r = (if r_type r \<noteq> 6 \<and> r_type r \<noteq> 7 then Inl TypeErr else Inr (length (nodes_of r)))"

definition iterate_next :: "epochs \<Rightarrow> xresult \<Rightarrow> xresult \<times> xnode option res" where
  "iterate_next ep r =
     (if r_type r \<noteq> 4 \<and> r_type r \<noteq> 5 then (r, Inl TypeErr)
      else if invalid_iterator_state ep r then (r, Inl (DomErr ''InvalidStateError''))
      else if r_pos r < length (nodes_of r)
      then (r\<lparr>r_pos := r_pos r + 1\<rparr>, Inr (Some (nodes_of r ! r_pos r)))
      else (r, Inr None))"

text \<open>\<open>Number(v) >>> 0\<close> and \<open>Number(v) & 0xffff\<close> of a number.\<close>

definition to_uint :: "nat \<Rightarrow> jsnum \<Rightarrow> nat" where
  "to_uint w n = (case fin_val (num_trunc n) of None \<Rightarrow> 0 | Some r \<Rightarrow> nat (\<lfloor>r\<rfloor> mod 2 ^ w))"

definition snapshot_item :: "xresult \<Rightarrow> jsnum \<Rightarrow> xnode option res" where
  "snapshot_item r index =
     (if r_type r \<noteq> 6 \<and> r_type r \<noteq> 7 then Inl TypeErr
      else Inr (nth_opt (nodes_of r) (to_uint 32 index)))"

definition make_result :: "dom \<Rightarrow> epochs \<Rightarrow> xval \<Rightarrow> int \<Rightarrow> xresult res" where
  "make_result d ep v ty =
     (if ty = 1 then Inr (new_result ep ty (XNum (to_num d v)))
      else if ty = 2 then Inr (new_result ep ty (XStr (to_str d v)))
      else if ty = 3 then Inr (new_result ep ty (XBool (to_bool v)))
      else if 4 \<le> ty \<and> ty \<le> 9 then
        (case v of XSet _ \<Rightarrow> Inr (new_result ep ty v) | _ \<Rightarrow> Inl TypeErr)
      else Inr (new_result ep (case v of XSet _ \<Rightarrow> 4 | XNum _ \<Rightarrow> 1 | XStr _ \<Rightarrow> 2 | XBool _ \<Rightarrow> 3) v))"

section \<open>Entry points\<close>

text \<open>An argument of the page, as far as the checks tell values apart.\<close>

datatype parg = PNode xnode | PResult | PResolver resolver | PObject | PNullish | PPrimitive

definition to_context :: "parg \<Rightarrow> xnode res" where
  "to_context a = (case a of PNode n \<Rightarrow> Inr n | _ \<Rightarrow> Inl TypeErr)"

text \<open>An object without a \<open>lookupNamespaceURI\<close> function is a resolver whose calls throw.\<close>

definition to_resolver :: "parg \<Rightarrow> resolver option res" where
  "to_resolver a = (case a of
     PNullish \<Rightarrow> Inr None
   | PPrimitive \<Rightarrow> Inl TypeErr
   | PResolver f \<Rightarrow> Inr (Some f)
   | _ \<Rightarrow> Inr (Some (\<lambda>p. Inl TypeErr)))"

definition check_result_arg :: "parg \<Rightarrow> unit res" where
  "check_result_arg a = (case a of PNullish \<Rightarrow> Inr () | PResult \<Rightarrow> Inr () | _ \<Rightarrow> Inl TypeErr)"

definition context_doc :: "dom \<Rightarrow> xnode \<Rightarrow> nat" where
  "context_doc d n = (case n of
     Nd x \<Rightarrow> if kind_of d x = 9 then x else owner_document_of d x
   | At el name \<Rightarrow> owner_document_of d el
   | Orphan i l ns p v \<Rightarrow> d_document d)"

definition run_expression :: "dom \<Rightarrow> epochs \<Rightarrow> ast \<Rightarrow> xnode \<Rightarrow> int \<Rightarrow> xresult res" where
  "run_expression d ep a n ty =
     (if (case n of Nd x \<Rightarrow> kind_of d x = 10 \<or> kind_of d x = 11 | _ \<Rightarrow> False) then Inl (DomErr ''NotSupportedError'')
      else let e = \<lparr>e_dom = d, e_html = (map_of (d_html d) (context_doc d n) = Some True)\<rparr> in
        case eval e a n 1 1 of Inl x \<Rightarrow> Inl x | Inr v \<Rightarrow> make_result d ep v ty)"

text \<open>\<open>XPathExpression.evaluate\<close>.\<close>

definition expression_evaluate :: "dom \<Rightarrow> epochs \<Rightarrow> ast \<Rightarrow> parg \<Rightarrow> jsnum \<Rightarrow> parg \<Rightarrow> xresult res" where
  "expression_evaluate d ep a ctx ty result = (case to_context ctx of
     Inl x \<Rightarrow> Inl x
   | Inr n \<Rightarrow> (case check_result_arg result of
       Inl x \<Rightarrow> Inl x
     | Inr _ \<Rightarrow> run_expression d ep a n (int (to_uint 16 ty))))"

text \<open>\<open>createExpression\<close> and \<open>evaluate\<close> of \<open>XPathEvaluator\<close> and \<open>Document\<close>; \<open>brand\<close> is the receiver check.\<close>

definition create_expression :: "unicode \<Rightarrow> bool \<Rightarrow> jstr \<Rightarrow> parg \<Rightarrow> ast res" where
  "create_expression u brand src r =
     (if \<not> brand then Inl TypeErr
      else case to_resolver r of Inl x \<Rightarrow> Inl x | Inr f \<Rightarrow> compile_expression u src f)"

definition create_ns_resolver :: "bool \<Rightarrow> parg \<Rightarrow> xnode res" where
  "create_ns_resolver brand a = (if \<not> brand then Inl TypeErr else to_context a)"

definition document_evaluate :: "unicode \<Rightarrow> dom \<Rightarrow> epochs \<Rightarrow> bool \<Rightarrow> jstr \<Rightarrow> parg \<Rightarrow> parg \<Rightarrow> jsnum \<Rightarrow> parg \<Rightarrow> xresult res" where
  "document_evaluate u d ep brand src ctx r ty result =
     (if \<not> brand then Inl TypeErr
      else case to_context ctx of
        Inl x \<Rightarrow> Inl x
      | Inr n \<Rightarrow> (case to_resolver r of
          Inl x \<Rightarrow> Inl x
        | Inr f \<Rightarrow> (case check_result_arg result of
            Inl x \<Rightarrow> Inl x
          | Inr _ \<Rightarrow> (case compile_expression u src f of
              Inl x \<Rightarrow> Inl x
            | Inr a \<Rightarrow> run_expression d ep a n (int (to_uint 16 ty))))))"

end
