(* ===== verification/XTree.thy ===== *)
theory XTree
  imports XDom
begin

text \<open>
  The subtrees of a tree and what \<open>find_tree\<close> finds, shared by the laws of XPath and of the live ranges.
\<close>

section \<open>Subtrees\<close>

fun subs :: "tree \<Rightarrow> tree list"
  and subs_list :: "tree list \<Rightarrow> tree list" where
  "subs (T i n ks) = T i n ks # subs_list ks"
| "subs_list [] = []"
| "subs_list (t # ts) = subs t @ subs_list ts"

lemma pre_subs: "pre_tree t = map tid (subs t)" "pre_trees ts = map tid (subs_list ts)"
  by (induction t and ts rule: subs_subs_list.induct) auto

lemma subs_self: "t \<in> set (subs t)"
  by (cases t) simp

lemma subs_kids: "subs t = t # subs_list (tkids t)"
  by (cases t) simp

lemma kid_in_subs: "u \<in> set ts \<Longrightarrow> set (subs u) \<subseteq> set (subs_list ts)"
  by (induction ts) auto

lemma subs_trans: "u \<in> set (subs t) \<Longrightarrow> set (subs u) \<subseteq> set (subs t)"
  "u \<in> set (subs_list ts) \<Longrightarrow> set (subs u) \<subseteq> set (subs_list ts)"
  by (induction t and ts rule: subs_subs_list.induct) (auto simp: subs_self)

lemma find_none: "x \<notin> set (pre_tree t) \<Longrightarrow> find_tree x t = None" "x \<notin> set (pre_trees ts) \<Longrightarrow> find_trees x ts = None"
  by (induction t and ts rule: subs_subs_list.induct) auto

lemma find_some: "find_tree x t = Some u \<Longrightarrow> u \<in> set (subs t) \<and> tid u = x" "find_trees x ts = Some u \<Longrightarrow> u \<in> set (subs_list ts) \<and> tid u = x"
  by (induction t and ts rule: subs_subs_list.induct) (auto split: if_splits option.splits)

lemma find_sub: "distinct (pre_tree t) \<Longrightarrow> u \<in> set (subs t) \<Longrightarrow> find_tree (tid u) t = Some u"
  "distinct (pre_trees ts) \<Longrightarrow> u \<in> set (subs_list ts) \<Longrightarrow> find_trees (tid u) ts = Some u"
proof (induction t and ts rule: subs_subs_list.induct)
  case (1 i n ks)
  then have "tid u = i \<Longrightarrow> u = T i n ks" by (auto simp: pre_subs)
  with 1 show ?case by (auto simp: pre_subs)
next
  case (3 t ts)
  have "tid u \<notin> set (pre_tree t)" if "u \<in> set (subs_list ts)"
    using that 3(3) by (auto simp: pre_subs)
  with 3 show ?case by (auto simp: find_none split: option.splits)
qed auto

definition subs_of :: "dom \<Rightarrow> tree list" where
  "subs_of d = subs_list (d_trees d)"

lemma all_ids_subs: "all_ids d = map tid (subs_of d)"
  by (simp add: all_ids_def subs_of_def pre_subs)

lemma node_in: "node d x = Some u \<Longrightarrow> u \<in> set (subs_of d) \<and> tid u = x"
  by (simp add: node_def subs_of_def find_some)

lemma kids_in_subs_of: "u \<in> set (subs_of d) \<Longrightarrow> set (subs_list (tkids u)) \<subseteq> set (subs_of d)"
  using subs_trans(2) [of u "d_trees d"] by (simp add: subs_of_def subs_kids)

lemma kid_in_subs_of: "u \<in> set (subs_of d) \<Longrightarrow> v \<in> set (tkids u) \<Longrightarrow> v \<in> set (subs_of d)"
  using kids_in_subs_of [of u d] kid_in_subs [of v "tkids u"] subs_self [of v] by blast

lemma subs_list_cases: "u \<in> set (subs_list ts) \<Longrightarrow> \<exists>t \<in> set ts. u \<in> set (subs t)"
  by (induction ts) auto

lemma set_first_occurrences: "set (first_occurrences seen xs) = set xs - set seen"
  by (induction seen xs rule: first_occurrences.induct) auto

lemma distinct_first_occurrences: "distinct (first_occurrences seen xs)"
  by (induction seen xs rule: first_occurrences.induct) (auto simp: set_first_occurrences)

end
