(* ===== verification/XOrder.thy ===== *)
theory XOrder
  imports XApi XTree
begin

text \<open>
  Document order and the tree behind it: sorting by a comparator, the order of nodes and
  attributes, and what the walks over the tree visit.
\<close>

section \<open>Sorting by a comparator\<close>

lemma set_insert_cmp [simp]: "set (insert_cmp cmp x ys) = insert x (set ys)"
  by (induction ys) auto

lemma set_sort_cmp [simp]: "set (sort_cmp cmp xs) = set xs"
  by (induction xs) auto

lemma distinct_insert_cmp [simp]: "distinct (insert_cmp cmp x ys) \<longleftrightarrow> x \<notin> set ys \<and> distinct ys"
  by (induction ys) auto

lemma distinct_sort_cmp [simp]: "distinct (sort_cmp cmp xs) = distinct xs"
  by (induction xs) auto

context comparator begin

lemma insert_sorted:
  assumes "sorted_wrt (\<lambda>a b. cmp a b \<le> 0) ys" "valid x" "\<forall>y \<in> set ys. valid y"
  shows "sorted_wrt (\<lambda>a b. cmp a b \<le> 0) (insert_cmp cmp x ys)"
  using assms
proof (induction ys)
  case (Cons y ys)
  show ?case
  proof (cases "cmp x y \<le> 0")
    case True
    have "cmp x z \<le> 0" if "z \<in> set ys" for z
      using True that Cons.prems cmp_le_trans [of x y z] by auto
    with True Cons.prems show ?thesis by auto
  next
    case False
    then have "cmp y x \<le> 0" using cmp_flip [of x y] Cons.prems by simp
    with False Cons show ?thesis by auto
  qed
qed simp

lemma sort_sorted:
  assumes "\<forall>x \<in> set xs. valid x"
  shows "sorted_wrt (\<lambda>a b. cmp a b \<le> 0) (sort_cmp cmp xs)"
  using assms by (induction xs) (auto intro: insert_sorted)

end

section \<open>Document order is an order\<close>

text \<open>The nodes of a dom: elements and other tree nodes, attributes of elements, attributes without owner.\<close>

definition known :: "dom \<Rightarrow> xnode \<Rightarrow> bool" where
  "known d n = (owner_id n = 0 \<or> owner_id n \<in> set (all_ids d))"

lemma pos_in_less: "x \<in> set xs \<Longrightarrow> pos_in x xs < length xs \<and> xs ! pos_in x xs = x"
  by (induction xs) auto

lemma pos_in_none: "x \<notin> set xs \<Longrightarrow> pos_in x xs = length xs"
  by (induction xs) auto

lemma doc_pos_inj:
  assumes "0 \<notin> set (all_ids d)" "x = 0 \<or> x \<in> set (all_ids d)" "y = 0 \<or> y \<in> set (all_ids d)" "doc_pos d x = doc_pos d y"
  shows "x = y"
  using assms pos_in_less [of x "all_ids d"] pos_in_less [of y "all_ids d"] pos_in_none [of 0 "all_ids d"]
  unfolding doc_pos_def by (metis less_irrefl)

lemma cmp_items_le:
  assumes "0 \<notin> set (all_ids d)" "known d a" "known d b"
  shows "cmp_items d a b \<le> 0 \<longleftrightarrow> doc_pos d (owner_id a) < doc_pos d (owner_id b) \<or>
     doc_pos d (owner_id a) = doc_pos d (owner_id b) \<and> attr_index d a \<le> attr_index d b"
  using doc_pos_inj [OF assms(1), of "owner_id a" "owner_id b"] assms(2,3)
  by (auto simp: cmp_items_def compare_position_def known_def Let_def)

lemma cmp_items_comparator:
  assumes "0 \<notin> set (all_ids d)"
  shows "comparator (cmp_items d) (known d)"
proof
  show "cmp_items d a a = 0" for a by (simp add: cmp_items_def)
  show "cmp_items d b a = - cmp_items d a b" for a b
    by (auto simp: cmp_items_def compare_position_def Let_def)
  show "cmp_items d a c \<le> 0" if "known d a" "known d b" "known d c" "cmp_items d a b \<le> 0" "cmp_items d b c \<le> 0" for a b c
    using that cmp_items_le [OF assms, of a b] cmp_items_le [OF assms, of b c] cmp_items_le [OF assms, of a c] by linarith
qed

text \<open>The documents of the model keep a fixed tree with all its ids positive; then the comparator is the interface's.\<close>

interpretation doc_cmp: comparator "cmp_items d" "\<lambda>n. 0 \<notin> set (all_ids d) \<and> known d n"
proof (cases "0 \<in> set (all_ids d)")
  case False
  from cmp_items_comparator [OF this] False show "comparator (cmp_items d) (\<lambda>n. 0 \<notin> set (all_ids d) \<and> known d n)"
    by simp
qed (unfold_locales, auto)

lemma short_list: "length xs < 2 \<Longrightarrow> sorted_wrt P xs" "length xs < 2 \<Longrightarrow> distinct xs"
  by (cases xs; cases "tl xs"; auto)+

lemma doc_order_sorted:
  assumes "0 \<notin> set (all_ids d)" "\<forall>n \<in> set ns. known d n"
  shows "sorted_wrt (\<lambda>a b. cmp_items d a b \<le> 0) (doc_order d ns)" "distinct (doc_order d ns)" "set (doc_order d ns) = set ns"
proof -
  have e: "set (first_occurrences [] ns) = set ns" by (simp add: set_first_occurrences)
  show "sorted_wrt (\<lambda>a b. cmp_items d a b \<le> 0) (doc_order d ns)"
    using assms e doc_cmp.sort_sorted [of "first_occurrences [] ns" d]
    by (auto simp: doc_order_def Let_def intro: short_list(1))
  show "distinct (doc_order d ns)"
    by (auto simp: doc_order_def Let_def distinct_first_occurrences intro: short_list(2))
  show "set (doc_order d ns) = set ns" using e by (simp add: doc_order_def Let_def)
qed

section \<open>Well-formed trees\<close>

text \<open>
  A well-formed tree: every node has its own positive id, and only the roots of the trees (documents
  and fragments) and elements have children.
\<close>

definition kinds_ok :: "dom \<Rightarrow> tree \<Rightarrow> bool" where
  "kinds_ok d t = list_all (\<lambda>u. tkids u = [] \<or> kind_of d (tid u) = 1) (subs_list (tkids t))"

definition wf_dom :: "dom \<Rightarrow> bool" where
  "wf_dom d = (distinct (all_ids d) \<and> 0 \<notin> set (all_ids d) \<and>
     list_all (\<lambda>t. kinds_ok d t \<and> (tkids t = [] \<or> has_children (kind_of d (tid t)))) (d_trees d))"

lemma node_sub: "wf_dom d \<Longrightarrow> u \<in> set (subs_of d) \<Longrightarrow> node d (tid u) = Some u"
  by (simp add: node_def wf_dom_def all_ids_def subs_of_def find_sub)

lemma node_exists: "wf_dom d \<Longrightarrow> x \<in> set (all_ids d) \<Longrightarrow> \<exists>u. node d x = Some u"
  by (auto simp: all_ids_subs dest: node_sub)

lemma child_ids_sub: "wf_dom d \<Longrightarrow> u \<in> set (subs_of d) \<Longrightarrow> child_ids d (tid u) = map tid (tkids u)"
  by (simp add: child_ids_def node_sub)

lemma subtree_ids_sub: "wf_dom d \<Longrightarrow> u \<in> set (subs_of d) \<Longrightarrow> subtree_ids d (tid u) = pre_tree u"
  by (simp add: subtree_ids_def node_sub)

text \<open>Below a node only elements have children.\<close>

lemma below_kinds:
  assumes "wf_dom d" "u \<in> set (subs_of d)" "v \<in> set (subs_list (tkids u))"
  shows "tkids v = [] \<or> kind_of d (tid v) = 1"
proof -
  obtain t where t: "t \<in> set (d_trees d)" "u \<in> set (subs t)"
    using subs_list_cases assms(2) by (auto simp: subs_of_def)
  have "set (subs_list (tkids u)) \<subseteq> set (subs_list (tkids t))"
  proof (cases "u = t")
    case False
    with t(2) have "u \<in> set (subs_list (tkids t))" by (simp add: subs_kids)
    from subs_trans(2) [OF this] show ?thesis by (simp add: subs_kids)
  qed simp
  with assms t(1) show ?thesis by (auto simp: wf_dom_def kinds_ok_def list_all_iff)
qed

lemma has_children_kids:
  assumes "wf_dom d" "u \<in> set (subs_of d)"
  shows "tkids u = [] \<or> has_children (kind_of d (tid u))"
proof -
  obtain t where t: "t \<in> set (d_trees d)" "u \<in> set (subs t)"
    using subs_list_cases assms(2) by (auto simp: subs_of_def)
  show ?thesis
  proof (cases "u = t")
    case False
    with t(2) have "u \<in> set (subs_list (tkids t))" by (simp add: subs_kids)
    with assms t(1) show ?thesis by (auto simp: wf_dom_def kinds_ok_def list_all_iff has_children_def)
  qed (use assms t in \<open>auto simp: wf_dom_def list_all_iff\<close>)
qed

section \<open>Walks over the tree\<close>

text \<open>What is left on the stack of \<open>descend\<close>, as trees.\<close>

fun nodes_left :: "tree list list \<Rightarrow> nat" where
  "nodes_left [] = 0"
| "nodes_left (ts # st) = Suc (2 * length (subs_list ts)) + nodes_left st"

lemma length_subs_pos: "length (subs t) = Suc (length (subs_list (tkids t)))"
  by (cases t) simp

lemma descend_loop_trees:
  assumes "wf_dom (e_dom e)"
    and "\<forall>ts \<in> set st. \<forall>u \<in> set (subs_list ts). u \<in> set (subs_of (e_dom e)) \<and> (tkids u = [] \<or> kind_of (e_dom e) (tid u) = 1)"
    and "nodes_left st < n"
  shows "descend_loop e t n (map (map tid) st) out = out @ filter (passes e t) (concat (map pre_trees st))"
  using assms(2,3)
proof (induction n arbitrary: st out)
  case (Suc n)
  show ?case
  proof (cases st)
    case (Cons ts st')
    show ?thesis
    proof (cases ts)
      case Nil
      with Suc Cons show ?thesis by simp
    next
      case (Cons u us)
      note st = \<open>st = ts # st'\<close> \<open>ts = u # us\<close>
      let ?kids = "if kind_of (e_dom e) (tid u) = 1 \<and> child_ids (e_dom e) (tid u) \<noteq> [] then [tkids u] else []"
      have u: "u \<in> set (subs_of (e_dom e))" "tkids u = [] \<or> kind_of (e_dom e) (tid u) = 1"
        using Suc.prems(1) st subs_self [of u] by auto
      have c: "child_ids (e_dom e) (tid u) = map tid (tkids u)" using child_ids_sub [OF assms(1) u(1)] .
      have below: "v \<in> set (subs_of (e_dom e)) \<and> (tkids v = [] \<or> kind_of (e_dom e) (tid v) = 1)"
        if "v \<in> set (subs_list (tkids u))" for v
        using that kids_in_subs_of [OF u(1)] below_kinds [OF assms(1) u(1)] by blast
      have inv: "\<forall>ts \<in> set (?kids @ us # st'). \<forall>v \<in> set (subs_list ts).
          v \<in> set (subs_of (e_dom e)) \<and> (tkids v = [] \<or> kind_of (e_dom e) (tid v) = 1)"
        using Suc.prems(1) st below by auto
      have len: "nodes_left (?kids @ us # st') < n"
        using Suc.prems(2) st by (auto simp: length_subs_pos)
      have pre: "pre_tree u = tid u # concat (map pre_trees ?kids)"
        using u(2) c by (cases u) auto
      have "descend_loop e t (Suc n) (map (map tid) st) out =
          descend_loop e t n (map (map tid) (?kids @ us # st')) (if passes e t (tid u) then out @ [tid u] else out)"
        using st c by simp
      also have "\<dots> = (if passes e t (tid u) then out @ [tid u] else out) @
          filter (passes e t) (concat (map pre_trees (?kids @ us # st')))"
        using Suc.IH [OF inv len] .
      finally show ?thesis using st pre by (simp del: descend_loop.simps)
    qed
  qed simp
qed simp

lemma length_subs_of: "u \<in> set (subs t) \<Longrightarrow> length (subs u) \<le> length (subs t)"
  "u \<in> set (subs_list ts) \<Longrightarrow> length (subs u) \<le> length (subs_list ts)"
  by (induction t and ts rule: subs_subs_list.induct) auto

text \<open>\<open>descend\<close> visits exactly the proper descendants, in document order.\<close>

lemma descend_spec:
  assumes "wf_dom (e_dom e)" "u \<in> set (subs_of (e_dom e))"
  shows "descend e t (tid u) = filter (passes e t) (pre_trees (tkids u))"
proof -
  have "length (subs u) \<le> length (all_ids (e_dom e))"
    using length_subs_of(2) [of u "d_trees (e_dom e)"] assms(2) by (simp add: subs_of_def all_ids_subs)
  then have "nodes_left [tkids u] < 2 * length (all_ids (e_dom e)) + 2"
    by (simp add: length_subs_pos)
  from descend_loop_trees [OF assms(1) _ this, where t = t and out = "[]"]
  show ?thesis
    using kids_in_subs_of [OF assms(2)] below_kinds [OF assms] child_ids_sub [OF assms]
    by (auto simp: descend_def)
qed

end
