(* ===== verification/XLaws.thy ===== *)
theory XLaws
  imports XOrder
begin

text \<open>
  What the evaluation of \<open>25_xpath.js\<close> promises: results do not depend on the position unless an
  expression uses it, merging the steps of \<open>//\<close> and reducing the inputs of \<open>following\<close> and
  \<open>preceding\<close> change no result, and step results are in document order.
\<close>

section \<open>Expressions that do not use the position\<close>

lemma call_fn_independent:
  "f \<noteq> FPosition \<Longrightarrow> f \<noteq> FLast \<Longrightarrow> call_fn e f n p z vs = call_fn e f n p' z' vs"
  by (cases f) (simp_all add: call_fn_def Let_def)

lemma eval_independent1:
  "\<not> uses_position a \<Longrightarrow> eval e a n p z = eval e a n 1 1"
  "\<not> list_ex uses_position as \<Longrightarrow> eval_args e as n p z = eval_args e as n 1 1"
  "\<not> list_ex uses_position bs \<Longrightarrow> eval_union e bs l n p z = eval_union e bs l n 1 1"
  "apply_pred e a1 sz i l1 = apply_pred e a1 sz i l1" "apply_preds e as2 l2 = apply_preds e as2 l2"
  "step_from e s3 m3 = step_from e s3 m3" "step_each e s4 l4 = step_each e s4 l4"
  "eval_step e s5 l5 = eval_step e s5 l5" "eval_steps e s6 l6 = eval_steps e s6 l6"
proof (induction e a n p z and e as n p z and e bs l n p z and e a1 sz i l1 and e as2 l2 and e s3 m3 and e s4 l4 and e s5 l5 and e s6 l6
    rule: eval_eval_args_eval_union_apply_pred_apply_preds_step_from_step_each_eval_step_eval_steps.induct)
  case (10 e f as n p z)
  then show ?case using call_fn_independent [of f e n p z _ 1 1] by (simp split: sum.splits)
qed (simp_all split: sum.splits del: eval_steps.simps eval_step.simps apply_preds.simps)

lemma eval_independent: "\<not> uses_position a \<Longrightarrow> eval e a n p z = eval e a n p' z'"
  using eval_independent1(1) [of a e n p z] eval_independent1(1) [of a e n p' z'] by simp

section \<open>Errors and types\<close>

text \<open>The only error an evaluation raises is that of a value that is no node-set.\<close>

lemma eval_error:
  "eval e a n p z = Inl x \<Longrightarrow> x = DomErr ''SyntaxError''"
  "eval_args e as n p z = Inl x \<Longrightarrow> x = DomErr ''SyntaxError''"
  "eval_union e bs l n p z = Inl x \<Longrightarrow> x = DomErr ''SyntaxError''"
  "apply_pred e a1 sz i l1 = Inl x \<Longrightarrow> x = DomErr ''SyntaxError''"
  "apply_preds e as2 l2 = Inl x \<Longrightarrow> x = DomErr ''SyntaxError''"
  "step_from e s3 m3 = Inl x \<Longrightarrow> x = DomErr ''SyntaxError''"
  "step_each e s4 l4 = Inl x \<Longrightarrow> x = DomErr ''SyntaxError''"
  "eval_step e s5 l5 = Inl x \<Longrightarrow> x = DomErr ''SyntaxError''"
  "eval_steps e s6 l6 = Inl x \<Longrightarrow> x = DomErr ''SyntaxError''"
proof (induction e a n p z and e as n p z and e bs l n p z and e a1 sz i l1 and e as2 l2 and e s3 m3 and e s4 l4 and e s5 l5 and e s6 l6
    rule: eval_eval_args_eval_union_apply_pred_apply_preds_step_from_step_each_eval_step_eval_steps.induct)
  case (10 e f as n p z)
  then show ?case
    by (auto simp: call_fn_def node_set_of_def Let_def split: sum.splits fn.splits xval.splits)
next
  case (26 e s input)
  define inp where "inp = (if 1 < length input then reduce_inputs (e_dom e) s input else input)"
  have "inp = [] \<or> (\<exists>m. inp = [m]) \<or> (\<exists>m m2 ms. inp = m # m2 # ms)"
    by (metis list.exhaust)
  note res = "26.prems" [unfolded eval_step.simps Let_def, folded inp_def]
  from \<open>inp = [] \<or> (\<exists>m. inp = [m]) \<or> (\<exists>m m2 ms. inp = m # m2 # ms)\<close>
  show ?case
  proof (elim disjE exE)
    assume "inp = []"
    with res show ?thesis by simp
  next
    fix m assume "inp = [m]"
    with "26.IH"(2) [OF inp_def] res show ?thesis by simp
  next
    fix m m2 ms assume "inp = m # m2 # ms"
    with "26.IH"(3) [OF inp_def] res show ?thesis by (auto simp del: step_each.simps split: sum.splits)
  qed
qed (auto simp: node_set_of_def split: sum.splits xval.splits if_splits)

lemma fn_types [simp]:
  "fn_type FLast = TyNumber" "fn_type FPosition = TyNumber" "fn_type FCount = TyNumber" "fn_type FStringLength = TyNumber"
  "fn_type FNumber = TyNumber" "fn_type FSum = TyNumber" "fn_type FFloor = TyNumber" "fn_type FCeiling = TyNumber"
  "fn_type FRound = TyNumber"
  by (simp_all add: fn_type_def fn_table_def)

text \<open>The static type of a value, and of the result of a call.\<close>

fun val_type :: "xval \<Rightarrow> vtype" where
  "val_type (XNum v) = TyNumber"
| "val_type (XStr s) = TyString"
| "val_type (XBool b) = TyBoolean"
| "val_type (XSet ns) = TyNodeset"

lemma node_set_type: "val_type v = TyNodeset \<Longrightarrow> \<exists>ns. v = XSet ns \<and> node_set_of v = Inr ns"
  by (cases v) (simp_all add: node_set_of_def)

lemma node_set_other: "val_type v \<noteq> TyNodeset \<Longrightarrow> node_set_of v = Inl (DomErr ''SyntaxError'')"
  by (cases v) (simp_all add: node_set_of_def)

lemma call_fn_type: "call_fn e f n p z vs = Inr v \<Longrightarrow> val_type v = fn_type f"
  by (cases f) (auto simp: call_fn_def Let_def fn_type_def fn_table_def split: sum.splits)

lemma eval_type: "eval e a n p z = Inr v \<Longrightarrow> val_type v = static_type a"
  by (cases "(e, a, n, p, z)" rule: eval.cases)
     (auto simp: static_type_def dest: call_fn_type split: sum.splits if_splits simp del: eval_steps.simps apply_preds.simps)

text \<open>Expressions in which every operand that has to be a node-set has this type.\<close>

fun sets_where_needed :: "ast \<Rightarrow> bool"
  and step_sets :: "step \<Rightarrow> bool" where
  "sets_where_needed (ANum v) = True"
| "sets_where_needed (AStr s) = True"
| "sets_where_needed (AOr a b) = (sets_where_needed a \<and> sets_where_needed b)"
| "sets_where_needed (AAnd a b) = (sets_where_needed a \<and> sets_where_needed b)"
| "sets_where_needed (ACmp op a b) = (sets_where_needed a \<and> sets_where_needed b)"
| "sets_where_needed (AArith op a b) = (sets_where_needed a \<and> sets_where_needed b)"
| "sets_where_needed (ANeg a) = sets_where_needed a"
| "sets_where_needed (AUnion as) = list_all (\<lambda>a. static_type a = TyNodeset \<and> sets_where_needed a) as"
| "sets_where_needed (ACall f as) = (list_all sets_where_needed as \<and> (f = FCount \<longrightarrow> as \<noteq> [] \<and> static_type (hd as) = TyNodeset))"
| "sets_where_needed (AFilter a ps) = (static_type a = TyNodeset \<and> sets_where_needed a \<and> list_all sets_where_needed ps)"
| "sets_where_needed (APath start ab ss) =
     ((case start of None \<Rightarrow> True | Some a \<Rightarrow> static_type a = TyNodeset \<and> sets_where_needed a) \<and> list_all step_sets ss)"
| "step_sets (Step a t ps) = list_all sets_where_needed ps"
| "step_sets SlashSlash = True"

lemma step_preds_sets: "step_sets s \<Longrightarrow> list_all sets_where_needed (step_preds s)"
  by (cases s) auto

lemma merged_sets: "list_all step_sets ss \<Longrightarrow> list_all (\<lambda>s. list_all sets_where_needed (cs_preds s)) (merge_steps ss)"
  using step_preds_sets by (induction ss rule: merge_steps.induct) auto

lemma call_fn_total: "(f = FCount \<Longrightarrow> vs \<noteq> [] \<and> val_type (hd vs) = TyNodeset) \<Longrightarrow> \<exists>v. call_fn e f n p z vs = Inr v"
  using node_set_type [of "vs ! 0"] by (cases f) (auto simp: call_fn_def Let_def hd_conv_nth)

lemma eval_args_types: "eval_args e as n p z = Inr vs \<Longrightarrow> map val_type vs = map static_type as"
  by (induction as arbitrary: vs) (auto dest: eval_type split: sum.splits)

lemma eval_total:
  "sets_where_needed a \<Longrightarrow> \<exists>v. eval e a n p z = Inr v"
  "list_all sets_where_needed as \<Longrightarrow> \<exists>v. eval_args e as n p z = Inr v"
  "list_all (\<lambda>a. static_type a = TyNodeset \<and> sets_where_needed a) bs \<Longrightarrow> \<exists>v. eval_union e bs l n p z = Inr v"
  "sets_where_needed a1 \<Longrightarrow> \<exists>v. apply_pred e a1 sz i l1 = Inr v"
  "list_all sets_where_needed as2 \<Longrightarrow> \<exists>v. apply_preds e as2 l2 = Inr v"
  "list_all sets_where_needed (cs_preds s3) \<Longrightarrow> \<exists>v. step_from e s3 m3 = Inr v"
  "list_all sets_where_needed (cs_preds s4) \<Longrightarrow> \<exists>v. step_each e s4 l4 = Inr v"
  "list_all sets_where_needed (cs_preds s5) \<Longrightarrow> \<exists>v. eval_step e s5 l5 = Inr v"
  "list_all (\<lambda>s. list_all sets_where_needed (cs_preds s)) s6 \<Longrightarrow> \<exists>v. eval_steps e s6 l6 = Inr v"
proof (induction e a n p z and e as n p z and e bs l n p z and e a1 sz i l1 and e as2 l2 and e s3 m3 and e s4 l4 and e s5 l5 and e s6 l6
    rule: eval_eval_args_eval_union_apply_pred_apply_preds_step_from_step_each_eval_step_eval_steps.induct)
  case (9 e a as n p z)
  then obtain v where v: "eval e a n p z = Inr v" by auto
  then obtain ns where ns: "node_set_of v = Inr ns" using node_set_type [of v] eval_type [OF v] 9(3) by auto
  with 9(2) [OF v ns] 9(3) v show ?case by auto
next
  case (10 e f as n p z)
  then obtain vs where vs: "eval_args e as n p z = Inr vs" by auto
  have "\<exists>v. call_fn e f n p z vs = Inr v"
    using 10(2) eval_args_types [OF vs] by (intro call_fn_total) (cases as; cases vs; auto)
  with vs show ?case by simp
next
  case (11 e a ps n p z)
  then obtain v where v: "eval e a n p z = Inr v" by auto
  then obtain ns where ns: "node_set_of v = Inr ns" using node_set_type [of v] eval_type [OF v] 11(3) by auto
  with 11(2) [OF v ns] 11(3) v show ?case by (auto simp del: apply_preds.simps)
next
  case (12 e ab ss n p z)
  with merged_sets [of ss] show ?case by (auto simp del: eval_steps.simps)
next
  case (13 e a ab ss n p z)
  then obtain v where v: "eval e a n p z = Inr v" by auto
  then obtain ns where ns: "node_set_of v = Inr ns" using node_set_type [of v] eval_type [OF v] 13(3) by auto
  with 13(2) [OF v ns] 13(3) v merged_sets [of ss] show ?case by (auto simp del: eval_steps.simps)
next
  case (17 e a as all n p z)
  then obtain v where v: "eval e a n p z = Inr v" by auto
  then obtain ns where ns: "node_set_of v = Inr ns" using node_set_type [of v] eval_type [OF v] 17(3) by auto
  with 17(2) [OF v ns] 17(3) v show ?case by auto
next
  case (26 e s input)
  define inp where "inp = (if 1 < length input then reduce_inputs (e_dom e) s input else input)"
  note res = eval_step.simps [of e s input, unfolded Let_def, folded inp_def]
  consider "inp = []" | m where "inp = [m]" | m m2 ms where "inp = m # m2 # ms" by (metis list.exhaust)
  then show ?case
  proof cases
    case 1
    then show ?thesis by (simp add: res del: eval_step.simps)
  next
    case 2
    with "26.IH"(2) [OF inp_def] 26(4) show ?thesis by (simp add: res del: eval_step.simps)
  next
    case 3
    then obtain out where "step_each e s inp = Inr out" using "26.IH"(3) [OF inp_def, of m "m2 # ms"] 26(4) by auto
    with 3 show ?thesis by (simp add: res del: eval_step.simps step_each.simps)
  qed
qed (auto simp del: eval_step.simps)

text \<open>Only an expression of static type number evaluates to a number.\<close>

lemma eval_number: "eval e a n p z = Inr (XNum v) \<Longrightarrow> static_type a = TyNumber"
  by (drule eval_type) simp

section \<open>Predicates that do not use the position\<close>

definition holds :: "xenv \<Rightarrow> ast \<Rightarrow> xnode \<Rightarrow> bool res" where
  "holds e a m = (case eval e a m 1 1 of Inl x \<Rightarrow> Inl x | Inr v \<Rightarrow> Inr (to_bool v))"

lemma holds_error: "holds e a m = Inl x \<Longrightarrow> x = DomErr ''SyntaxError''"
  by (auto simp: holds_def dest: eval_error(1) split: sum.splits)

text \<open>A list of predicates on one node: the first that fails or raises an error decides.\<close>

fun holds_all :: "xenv \<Rightarrow> ast list \<Rightarrow> xnode \<Rightarrow> bool res" where
  "holds_all e [] m = Inr True"
| "holds_all e (a # as) m = (case holds e a m of
     Inl x \<Rightarrow> Inl x
   | Inr b \<Rightarrow> if b then holds_all e as m else Inr False)"

lemma holds_all_error: "holds_all e as m = Inl x \<Longrightarrow> x = DomErr ''SyntaxError''"
  by (induction as) (auto dest: holds_error split: sum.splits if_splits)

definition filter_res :: "('a \<Rightarrow> bool res) \<Rightarrow> 'a list \<Rightarrow> 'a list res" where
  "filter_res P l = (if \<exists>m \<in> set l. \<exists>x. P m = Inl x then Inl (DomErr ''SyntaxError'')
     else Inr (filter (\<lambda>m. P m = Inr True) l))"

lemma apply_pred_free:
  assumes "\<not> positional a"
  shows "apply_pred e a sz i l = filter_res (holds e a) l"
proof (induction l arbitrary: i)
  case (Cons m l)
  have ind: "eval e a m i sz = eval e a m 1 1"
    using assms by (intro eval_independent) (simp add: positional_def)
  show ?case
  proof (cases "eval e a m 1 1")
    case (Inl x)
    with eval_error(1) [OF Inl] ind show ?thesis by (auto simp: filter_res_def holds_def)
  next
    case (Inr v)
    have "\<nexists>y. v = XNum y" using assms eval_number [of e a m 1 1] Inr by (auto simp: positional_def)
    then have "selects v i = to_bool v" by (cases v) (auto simp: selects_def)
    with Inr ind Cons show ?thesis by (auto simp: filter_res_def holds_def split: sum.splits if_splits)
  qed
qed (simp add: filter_res_def)

lemma apply_preds_free:
  assumes "\<not> list_ex positional as"
  shows "apply_preds e as l = filter_res (holds_all e as) l"
  using assms
proof (induction as arbitrary: l)
  case (Cons a as)
  show ?case
  proof (cases l)
    case (Cons m ms)
    have a: "apply_pred e a (length l) 1 l = filter_res (holds e a) l" using Cons.prems by (intro apply_pred_free) simp
    show ?thesis
    proof (cases "\<exists>m \<in> set l. \<exists>x. holds e a m = Inl x")
      case True
      then obtain m x where m: "m \<in> set l" "holds e a m = Inl x" by blast
      then have "holds_all e (a # as) m = Inl x" by simp
      with m have "\<exists>m \<in> set l. \<exists>x. holds_all e (a # as) m = Inl x" by blast
      with True a Cons show ?thesis by (simp add: filter_res_def)
    next
      case False
      have eq: "holds_all e (a # as) m = (if holds e a m = Inr True then holds_all e as m else Inr False)" if "m \<in> set l" for m
        using False that by (cases "holds e a m") auto
      have IH: "apply_preds e as l' = filter_res (holds_all e as) l'" for l' using Cons.IH Cons.prems by simp
      have "apply_preds e (a # as) l = filter_res (holds_all e as) (filter (\<lambda>m. holds e a m = Inr True) l)"
        using a False Cons IH by (simp add: filter_res_def)
      also have "\<dots> = filter_res (holds_all e (a # as)) l"
        using eq by (auto simp: filter_res_def simp del: holds_all.simps split: if_splits intro: filter_cong)
      finally show ?thesis .
    qed
  qed (simp add: filter_res_def)
qed (simp add: filter_res_def)

end
