(* ===== verification/XSteps.thy ===== *)
theory XSteps
  imports XLaws
begin

text \<open>
  What a step selects: lists of nodes in document order, the values of the axes, and the theorem
  that the merged \<open>//\<close> steps select what the two steps of the grammar select.
\<close>

section \<open>Lists in document order\<close>

definition in_order :: "dom \<Rightarrow> nat set \<Rightarrow> nat list" where
  "in_order d S = filter (\<lambda>x. x \<in> S) (all_ids d)"

lemma set_in_order: "set (in_order d S) = S \<inter> set (all_ids d)"
  by (auto simp: in_order_def)

lemma pos_in_nth: "distinct xs \<Longrightarrow> i < length xs \<Longrightarrow> pos_in (xs ! i) xs = i"
proof (induction xs arbitrary: i)
  case (Cons x xs)
  then show ?case by (cases i) auto
qed simp

lemma pos_in_sorted: "distinct xs \<Longrightarrow> sorted_wrt (<) (map (\<lambda>x. pos_in x xs) xs)"
  by (simp add: sorted_wrt_iff_nth_less pos_in_nth)

lemma sorted_filter_map: "sorted_wrt P (map f xs) \<Longrightarrow> sorted_wrt P (map f (filter Q xs))"
  by (induction xs) auto

text \<open>Two lists of node ids in strict document order with the same elements are equal.\<close>

lemma in_order_unique:
  assumes "distinct (all_ids d)" "set xs \<subseteq> set (all_ids d)" "sorted_wrt (\<lambda>x y. doc_pos d x < doc_pos d y) xs"
  shows "xs = in_order d (set xs)"
proof -
  let ?p = "doc_pos d"
  have s1: "sorted_wrt (<) (map ?p xs)" using assms(3) by (simp add: sorted_wrt_map)
  have s2: "sorted_wrt (<) (map ?p (in_order d (set xs)))"
    unfolding in_order_def using pos_in_sorted [OF assms(1)]
    by (intro sorted_filter_map) (simp add: doc_pos_def [abs_def])
  have "set (in_order d (set xs)) = set xs" using assms(2) by (auto simp: set_in_order)
  then have "map ?p xs = map ?p (in_order d (set xs))"
    using strict_sorted_equal [OF s1 s2] by simp
  moreover have "inj_on ?p (set (all_ids d))"
    unfolding inj_on_def doc_pos_def using pos_in_less by metis
  then have "inj_on ?p (set xs \<union> set (in_order d (set xs)))"
    by (rule inj_on_subset) (use assms(2) in \<open>auto simp: set_in_order\<close>)
  ultimately show ?thesis by (rule map_inj_on)
qed

lemma doc_order_nodes:
  assumes "wf_dom d" "set xs \<subseteq> set (all_ids d)"
  shows "doc_order d (map Nd xs) = map Nd (in_order d (set xs))"
proof -
  have z: "0 \<notin> set (all_ids d)" "distinct (all_ids d)" using assms(1) by (auto simp: wf_dom_def)
  have k: "\<forall>n \<in> set (map Nd xs). known d n" using assms(2) by (auto simp: known_def)
  note o = doc_order_sorted [OF z(1) k]
  have "\<forall>n \<in> set (doc_order d (map Nd xs)). \<exists>x. n = Nd x" using o(3) by auto
  then obtain ys where ys: "doc_order d (map Nd xs) = map Nd ys"
    unfolding ex_map_conv [symmetric] by blast
  have sy: "set ys = set xs" using o(3) ys by (auto simp: image_iff)
  have "sorted_wrt (\<lambda>a b. cmp_items d a b \<le> 0 \<and> a \<noteq> b) (map Nd ys)"
    using o(1,2) ys by (simp add: sorted_wrt_iff_nth_less distinct_conv_nth)
  then have s: "sorted_wrt (\<lambda>a b. cmp_items d (Nd a) (Nd b) \<le> 0 \<and> Nd a \<noteq> Nd b) ys"
    by (simp add: sorted_wrt_map)
  have "sorted_wrt (\<lambda>a b. doc_pos d a < doc_pos d b) ys"
  proof (rule sorted_wrt_mono_rel [OF _ s])
    fix a b assume ab: "a \<in> set ys" "b \<in> set ys" "cmp_items d (Nd a) (Nd b) \<le> 0 \<and> Nd a \<noteq> Nd b"
    then have "known d (Nd a)" "known d (Nd b)" using k sy by auto
    with cmp_items_le [OF z(1)] ab doc_pos_inj [OF z(1), of a b] show "doc_pos d a < doc_pos d b"
      by (auto simp: known_def)
  qed
  from in_order_unique [OF z(2) _ this] sy assms(2) ys show ?thesis by simp
qed

lemma in_order_sublist:
  assumes "distinct (all_ids d)" "all_ids d = as @ xs @ bs"
  shows "filter P xs = in_order d (set (filter P xs))"
proof -
  have "filter (\<lambda>x. x \<in> set (filter P xs)) as = []" "filter (\<lambda>x. x \<in> set (filter P xs)) bs = []"
    using assms by (auto simp: filter_empty_conv)
  moreover have "filter (\<lambda>x. x \<in> set (filter P xs)) xs = filter P xs" by (intro filter_cong) auto
  ultimately show ?thesis unfolding in_order_def assms(2) by simp
qed

text \<open>A subtree is a contiguous part of the preorder.\<close>

lemma sub_contiguous:
  "u \<in> set (subs t) \<Longrightarrow> \<exists>as bs. pre_tree t = as @ pre_tree u @ bs"
  "u \<in> set (subs_list ts) \<Longrightarrow> \<exists>as bs. pre_trees ts = as @ pre_tree u @ bs"
proof (induction t and ts rule: subs_subs_list.induct)
  case (1 i n ks)
  show ?case
  proof (cases "u = T i n ks")
    case True
    then have "pre_tree (T i n ks) = [] @ pre_tree u @ []" by simp
    then show ?thesis by blast
  next
    case False
    with 1 obtain as bs where "pre_trees ks = as @ pre_tree u @ bs" by auto
    then have "pre_tree (T i n ks) = (i # as) @ pre_tree u @ bs" by simp
    then show ?thesis by blast
  qed
next
  case (3 t ts)
  then consider as bs where "pre_tree t = as @ pre_tree u @ bs" | as bs where "pre_trees ts = as @ pre_tree u @ bs" by auto
  then show ?case
  proof cases
    case 1
    then have "pre_trees (t # ts) = as @ pre_tree u @ (bs @ pre_trees ts)" by simp
    then show ?thesis by blast
  next
    case 2
    then have "pre_trees (t # ts) = (pre_tree t @ as) @ pre_tree u @ bs" by simp
    then show ?thesis by blast
  qed
qed simp

lemma sub_in_all_ids:
  assumes "u \<in> set (subs_of d)"
  obtains as bs where "all_ids d = as @ tid u # pre_trees (tkids u) @ bs"
proof -
  obtain as bs where "all_ids d = as @ pre_tree u @ bs"
    using sub_contiguous(2) [of u "d_trees d"] assms unfolding subs_of_def all_ids_def by blast
  then have "all_ids d = as @ tid u # pre_trees (tkids u) @ bs" by (cases u) simp
  then show thesis by (rule that)
qed


section \<open>Where the axes lead\<close>

lemma parent_in:
  "parent_tree x p t = Some q \<Longrightarrow> q = p \<or> q \<in> set (pre_tree t)"
  "parent_trees x p ts = Some q \<Longrightarrow> q = p \<or> q \<in> set (pre_trees ts)"
  by (induction x p t and x p ts rule: parent_tree_parent_trees.induct) (auto split: if_splits option.splits)

lemma parent_known: "parent d x = 0 \<or> parent d x \<in> set (all_ids d)"
  using parent_in(2) [of x 0 "d_trees d"] by (auto simp: parent_def all_ids_def split: option.splits)

lemma up_zero: "up d n 0 = []"
  by (cases n) auto

lemma up_known: "y \<in> set (up d n x) \<Longrightarrow> y = x \<or> y \<in> set (all_ids d)"
proof (induction n arbitrary: x)
  case (Suc n)
  then consider "y = x" | "y \<in> set (up d n (parent d x))" by (auto split: if_splits)
  then show ?case
  proof cases
    case 2
    with Suc.IH [OF 2] parent_known [of d x] show ?thesis by (auto simp: up_zero)
  qed simp
qed simp

lemma ancestors_self_known: "x = 0 \<or> x \<in> set (all_ids d) \<Longrightarrow> set (ancestors_self d x) \<subseteq> set (all_ids d)"
  using up_known [of _ d _ x] by (auto simp: ancestors_self_def up_zero simp del: up.simps)

lemma child_ids_known: "set (child_ids d x) \<subseteq> set (all_ids d)"
proof (cases "node d x")
  case (Some u)
  then have "u \<in> set (subs_of d)" using node_in by blast
  with Some kid_in_subs_of [OF this] show ?thesis by (auto simp: child_ids_def all_ids_subs)
qed (simp add: child_ids_def)

lemma after_in: "after x ys \<noteq> 0 \<Longrightarrow> after x ys \<in> set ys"
  by (induction x ys rule: after.induct) (auto split: if_splits)

lemma siblings_known: "set (siblings d x) \<subseteq> set (all_ids d)"
  using child_ids_known by (auto simp: siblings_def)

lemma chain_known:
  assumes "\<And>y. nxt y \<noteq> 0 \<Longrightarrow> nxt y \<in> S"
  shows "set (sibling_chain nxt n x) \<subseteq> S"
  using assms by (induction n arbitrary: x) auto

lemma next_siblings_known: "set (next_siblings d x) \<subseteq> set (all_ids d)"
  unfolding next_siblings_def
  by (rule chain_known) (use after_in siblings_known in \<open>unfold next_sibling_def, blast\<close>)

lemma prev_siblings_known: "set (prev_siblings d x) \<subseteq> set (all_ids d)"
  unfolding prev_siblings_def
  by (rule chain_known) (use after_in [of _ "rev (siblings d _)"] siblings_known in \<open>unfold prev_sibling_def, fastforce\<close>)

lemma descend_loop_known:
  "(\<forall>l \<in> set st. set l \<subseteq> set (all_ids (e_dom e))) \<Longrightarrow> set out \<subseteq> set (all_ids (e_dom e)) \<Longrightarrow>
   set (descend_loop e t n st out) \<subseteq> set (all_ids (e_dom e))"
proof (induction e t n st out rule: descend_loop.induct)
  case (4 e t n c cs st out)
  then show ?case using child_ids_known [of "e_dom e" c] by simp
qed auto

lemma descend_known: "set (descend e t x) \<subseteq> set (all_ids (e_dom e))"
  unfolding descend_def by (rule descend_loop_known) (simp_all add: child_ids_known)

lemma with_descendants_known: "s \<in> set (all_ids (e_dom e)) \<Longrightarrow> set (with_descendants e t s) \<subseteq> set (all_ids (e_dom e))"
  using descend_known [of e t s] by (auto simp: with_descendants_def)

lemma following_known: "set (following_from e t as) \<subseteq> set (all_ids (e_dom e))"
proof (induction as)
  case (Cons a as)
  have "y \<in> set (all_ids (e_dom e))" if "s \<in> set (next_siblings (e_dom e) a)" "y \<in> set (with_descendants e t s)" for s y
    using that next_siblings_known [of "e_dom e" a] with_descendants_known [of s e t] by blast
  with Cons show ?case by auto
qed simp

lemma preceding_known: "set (preceding_from e t as) \<subseteq> set (all_ids (e_dom e))"
proof (induction as)
  case (Cons a as)
  have "y \<in> set (all_ids (e_dom e))" if "s \<in> set (prev_siblings (e_dom e) a)" "y \<in> set (with_descendants e t s)" for s y
    using that prev_siblings_known [of "e_dom e" a] with_descendants_known [of s e t] by blast
  with Cons show ?case by auto
qed simp

lemma collect_known:
  assumes "known (e_dom e) m" "n \<in> set (collect e ax t m)"
  shows "known (e_dom e) n"
proof (cases m)
  case (Nd x)
  have x: "x = 0 \<or> x \<in> set (all_ids (e_dom e))" using assms(1) Nd by (simp add: known_def)
  from assms(2) Nd x show ?thesis
    using parent_known [of "e_dom e" x] ancestors_self_known [OF parent_known, of "e_dom e" x] child_ids_known [of "e_dom e" x]
      descend_known [of e t x] next_siblings_known [of "e_dom e" x] prev_siblings_known [of "e_dom e" x]
      following_known [of e t "ancestors_self (e_dom e) x"] preceding_known [of e t "ancestors_self (e_dom e) x"]
    by (cases ax) (auto simp: collect_def collect_node_def known_def following_def preceding_def Let_def split: if_splits)
next
  case (At x name)
  have x: "x = 0 \<or> x \<in> set (all_ids (e_dom e))" using assms(1) At by (simp add: known_def)
  from assms(2) At x show ?thesis
    using ancestors_self_known [OF x] following_known [of e t "ancestors_self (e_dom e) x"]
      preceding_known [of e t "ancestors_self (e_dom e) x"]
    by (cases ax) (auto simp: collect_def collect_attr_def known_def following_def preceding_def Let_def split: if_splits)
next
  case (Orphan i l ns p v)
  from assms(2) Orphan show ?thesis
    using ancestors_self_known [of 0 "e_dom e"]
    by (cases ax) (auto simp: collect_def collect_attr_def known_def Let_def split: if_splits)
qed


text \<open>Predicates keep some of the nodes, so a step stays within the dom.\<close>

lemma apply_pred_subset: "apply_pred e a sz i l = Inr r \<Longrightarrow> set r \<subseteq> set l"
proof (induction l arbitrary: i r)
  case (Cons m l)
  from Cons.prems obtain b where "apply_pred e a sz (Suc i) l = Inr b" "set r \<subseteq> insert m (set b)"
    by (auto split: sum.splits if_splits)
  with Cons.IH show ?case by fastforce
qed simp

lemma apply_preds_subset: "apply_preds e as l = Inr r \<Longrightarrow> set r \<subseteq> set l"
proof (induction as arbitrary: l)
  case (Cons a as)
  then show ?case
  proof (cases l)
    case (Cons m ms)
    with Cons.prems obtain l' where "apply_pred e a (length l) 1 l = Inr l'" "apply_preds e as l' = Inr r"
      by (auto simp del: apply_pred.simps split: sum.splits)
    with Cons.IH [of l'] apply_pred_subset show ?thesis by blast
  qed simp
qed simp

lemma step_from_known: "known (e_dom e) m \<Longrightarrow> step_from e s m = Inr r \<Longrightarrow> \<forall>n \<in> set r. known (e_dom e) n"
  by (cases s) (auto dest!: apply_preds_subset dest: collect_known subsetD split: sum.splits if_splits)

lemma step_each_known:
  "\<forall>m \<in> set l. known (e_dom e) m \<Longrightarrow> step_each e s l = Inr r \<Longrightarrow> \<forall>n \<in> set r. known (e_dom e) n"
proof (induction l arbitrary: r)
  case (Cons m l)
  from Cons.prems(2) obtain a b where "step_from e s m = Inr a" "step_each e s l = Inr b" "r = a @ b"
    by (auto simp del: step_from.simps split: sum.splits)
  moreover have "\<forall>n \<in> set a. known (e_dom e) n"
    using step_from_known [of e m s a] calculation(1) Cons.prems(1) by simp
  moreover have "\<forall>n \<in> set b. known (e_dom e) n"
    using Cons.IH [of b] calculation(2) Cons.prems(1) by simp
  ultimately show ?case by auto
qed simp

lemma innermost_in: "innermost d best ns \<in> insert best (owner_id ` set ns)"
  by (induction d best ns rule: innermost.induct) auto

lemma owner_nd: "is_nd n \<Longrightarrow> Nd (owner_id n) = n"
  by (cases n) (auto simp: is_nd_def)

lemma reduce_inputs_subset:
  assumes "input \<noteq> []"
  shows "set (reduce_inputs d s input) \<subseteq> set input" "reduce_inputs d s input \<noteq> []"
proof -
  obtain n ns where input: "input = n # ns" using assms by (cases input) auto
  have "Nd (innermost d (owner_id n) ns) \<in> set input" if "list_all is_nd input"
    using that innermost_in [of d "owner_id n" ns] input owner_nd by (fastforce simp: list_all_iff)
  with assms input show "set (reduce_inputs d s input) \<subseteq> set input" "reduce_inputs d s input \<noteq> []"
    by (auto simp: reduce_inputs_def)
qed

lemma eval_step_known:
  assumes "0 \<notin> set (all_ids (e_dom e))" "\<forall>m \<in> set l. known (e_dom e) m" "eval_step e s l = Inr r"
  shows "\<forall>n \<in> set r. known (e_dom e) n"
proof -
  define inp where "inp = (if 1 < length l then reduce_inputs (e_dom e) s l else l)"
  have "set inp \<subseteq> set l"
    using reduce_inputs_subset(1) [of l "e_dom e" s] by (cases "l = []") (auto simp: inp_def)
  then have k: "\<forall>m \<in> set inp. known (e_dom e) m" using assms(2) by blast
  have "step_each e s inp = Inr out \<Longrightarrow> \<forall>n \<in> set (if keeps_order (cs_axis s) then out else doc_order (e_dom e) out). known (e_dom e) n" for out
    using step_each_known [OF k] doc_order_sorted(3) [OF assms(1), of out] by auto
  moreover have "inp = [m] \<Longrightarrow> step_from e s m = Inr r \<Longrightarrow> ?thesis" for m
    using step_from_known [of e m s r] k by auto
  moreover have "(case inp of [m] \<Rightarrow> step_from e s m
      | _ \<Rightarrow> (case step_each e s inp of
          Inl x \<Rightarrow> Inl x
        | Inr out \<Rightarrow> Inr (if keeps_order (cs_axis s) then out else doc_order (e_dom e) out))) = Inr r"
    using assms(3) unfolding eval_step.simps Let_def inp_def .
  ultimately show ?thesis
    by (cases inp; cases "tl inp"; cases "step_each e s inp") (auto simp del: step_each.simps step_from.simps)
qed


section \<open>Child and descendant steps\<close>

lemma filter_res_in: "filter_res P l = Inr r \<Longrightarrow> r = filter (\<lambda>m. P m = Inr True) l"
  by (simp add: filter_res_def split: if_splits)

lemma filter_res_append:
  "filter_res P (xs @ ys) = (case filter_res P xs of
     Inl x \<Rightarrow> Inl x
   | Inr l \<Rightarrow> (case filter_res P ys of Inl x \<Rightarrow> Inl x | Inr r \<Rightarrow> Inr (l @ r)))"
  by (auto simp: filter_res_def)

lemma step_each_free:
  assumes "\<not> list_ex positional ps" "\<not> reverse_axis ax"
  shows "step_each e (CStep ax t ps) l = filter_res (holds_all e ps) (concat (map (collect e ax t) l))"
  using assms
  by (induction l) (simp_all add: apply_preds_free filter_res_append filter_res_def [where l = "[]"] split: sum.splits)

lemma kids_in_order:
  assumes "distinct (pre_trees ts)"
  shows "map tid ts = filter (\<lambda>x. x \<in> set (map tid ts)) (pre_trees ts)"
  using assms
proof (induction ts)
  case (Cons t ts)
  obtain i n ks where t: "t = T i n ks" by (cases t)
  have roots: "set (map tid ts) \<subseteq> set (pre_trees ts)"
    using kid_in_subs [of _ ts] subs_self by (fastforce simp: pre_subs)
  have d: "set (pre_tree t) \<inter> set (pre_trees ts) = {}" "distinct (pre_trees ts)" "i \<notin> set (pre_trees ks)"
    using Cons.prems t by auto
  define Q where "Q x = (x \<in> set (map tid (t # ts)))" for x
  have "filter Q (pre_trees ks) = []"
    using d roots t by (auto simp: Q_def filter_empty_conv)
  moreover have "filter Q (pre_trees ts) = filter (\<lambda>x. x \<in> set (map tid ts)) (pre_trees ts)"
    using d t roots by (intro filter_cong) (auto simp: Q_def)
  then have "filter Q (pre_trees ts) = map tid ts" by (rule trans) (rule Cons.IH [OF d(2), symmetric])
  moreover have "Q i" using t by (simp add: Q_def)
  ultimately show ?case unfolding Q_def [symmetric] using t by simp
qed simp

definition down :: "axis \<Rightarrow> tree \<Rightarrow> nat set" where
  "down ax u = (if ax = Child then tid ` set (tkids u) else tid ` set (subs_list (tkids u)))"

text \<open>The children or descendants of a node that pass the test, in document order.\<close>

lemma collect_down:
  assumes "wf_dom (e_dom e)" "u \<in> set (subs_of (e_dom e))" "ax = Child \<or> ax = Descendant"
  shows "collect e ax t (Nd (tid u)) = map Nd (in_order (e_dom e) {x \<in> down ax u. passes e t x})"
proof -
  let ?d = "e_dom e"
  have dist: "distinct (all_ids ?d)" using assms(1) by (simp add: wf_dom_def)
  obtain as bs where ab: "all_ids ?d = as @ tid u # pre_trees (tkids u) @ bs" using sub_in_all_ids [OF assms(2)] .
  then have ab': "all_ids ?d = (as @ [tid u]) @ pre_trees (tkids u) @ bs" by simp
  note sub = in_order_sublist [OF dist ab']
  have dk: "distinct (pre_trees (tkids u))" using dist ab by simp
  have g: "\<not> has_children (kind_of ?d (tid u)) \<Longrightarrow> tkids u = []" using has_children_kids [OF assms(1,2)] by blast
  have "filter (passes e t) (map tid (tkids u)) = filter (\<lambda>x. x \<in> set (map tid (tkids u)) \<and> passes e t x) (pre_trees (tkids u))"
    by (subst kids_in_order [OF dk]) (simp add: conj_commute)
  also have "\<dots> = in_order ?d {x \<in> tid ` set (tkids u). passes e t x}"
  proof (subst sub, rule arg_cong [of _ _ "in_order ?d"])
    have "tid ` set (tkids u) \<subseteq> set (pre_trees (tkids u))" using kid_in_subs subs_self by (fastforce simp: pre_subs)
    then show "set (filter (\<lambda>x. x \<in> set (map tid (tkids u)) \<and> passes e t x) (pre_trees (tkids u))) = {x \<in> tid ` set (tkids u). passes e t x}"
      by auto
  qed
  finally have c: "filter (passes e t) (map tid (tkids u)) = in_order ?d {x \<in> tid ` set (tkids u). passes e t x}" .
  have "filter (passes e t) (pre_trees (tkids u)) = in_order ?d {x \<in> tid ` set (subs_list (tkids u)). passes e t x}"
    by (subst sub) (auto simp: pre_subs intro: arg_cong [of _ _ "in_order ?d"])
  then show ?thesis
    using c assms(3) g child_ids_sub [OF assms(1,2)] descend_spec [OF assms(1,2), of t]
    by (auto simp: collect_def collect_node_def down_def in_order_def Let_def)
qed


lemma collect_unknown:
  assumes "x \<notin> set (all_ids (e_dom e))" "ax = Child \<or> ax = Descendant"
  shows "collect e ax t (Nd x) = []"
proof -
  have n: "node (e_dom e) x = None" using assms(1) node_in [of "e_dom e" x] by (cases "node (e_dom e) x") (auto simp: all_ids_subs)
  then have "child_ids (e_dom e) x = []" by (simp add: child_ids_def)
  moreover have "descend_loop e t k [[]] [] = []" for k by (cases k; cases "k - 1") simp_all
  ultimately show ?thesis using assms(2) by (auto simp: collect_def collect_node_def descend_def Let_def)
qed

text \<open>The nodes that a step down reaches from one node, with the test.\<close>

definition reached :: "xenv \<Rightarrow> axis \<Rightarrow> test \<Rightarrow> xnode \<Rightarrow> nat set" where
  "reached e ax t m = (case m of
     Nd x \<Rightarrow> (case node (e_dom e) x of None \<Rightarrow> {} | Some u \<Rightarrow> {x \<in> down ax u. passes e t x})
   | _ \<Rightarrow> {})"

lemma collect_reached:
  assumes "wf_dom (e_dom e)" "ax = Child \<or> ax = Descendant"
  shows "collect e ax t m = map Nd (in_order (e_dom e) (reached e ax t m))"
proof (cases m)
  case (Nd x)
  show ?thesis
  proof (cases "node (e_dom e) x")
    case None
    then have "x \<notin> set (all_ids (e_dom e))" using node_exists [OF assms(1), of x] by auto
    from collect_unknown [OF this assms(2)] Nd None show ?thesis by (simp add: reached_def in_order_def)
  next
    case (Some u)
    with node_in [OF Some] collect_down [OF assms(1) _ assms(2), of u t] Nd show ?thesis by (simp add: reached_def)
  qed
qed (use assms(2) in \<open>auto simp: collect_def collect_attr_def reached_def in_order_def Let_def\<close>)

text \<open>A step down with free predicates selects, in document order, what is reached and holds.\<close>

lemma down_step:
  assumes "wf_dom (e_dom e)" "ax = Child \<or> ax = Descendant" "\<not> list_ex positional ps" "l \<noteq> []"
  shows "eval_step e (CStep ax t ps) l =
    (let S = (\<Union>m \<in> set l. reached e ax t m) \<inter> set (all_ids (e_dom e)) in
     if \<exists>x \<in> S. \<exists>z. holds_all e ps (Nd x) = Inl z then Inl (DomErr ''SyntaxError'')
     else Inr (map Nd (in_order (e_dom e) {x \<in> S. holds_all e ps (Nd x) = Inr True})))"
proof -
  let ?d = "e_dom e"
  let ?H = "holds_all e ps"
  define S where "S = (\<Union>m \<in> set l. reached e ax t m) \<inter> set (all_ids ?d)"
  have na: "\<not> reverse_axis ax" "\<not> keeps_order ax" "ax \<noteq> Following" "ax \<noteq> Preceding" using assms(2) by (auto simp: reverse_axis_def keeps_order_def)
  define xs where "xs = concat (map (\<lambda>m. in_order ?d (reached e ax t m)) l)"
  have xs: "set xs = S" by (auto simp: xs_def S_def set_in_order)
  have each: "step_each e (CStep ax t ps) l = filter_res ?H (map Nd xs)"
    unfolding step_each_free [OF assms(3) na(1)] collect_reached [OF assms(1,2)] xs_def by (simp add: map_concat comp_def)
  have fm: "filter_res ?H (map Nd ys) = (if \<exists>x \<in> set ys. \<exists>z. ?H (Nd x) = Inl z then Inl (DomErr ''SyntaxError'')
      else Inr (map Nd (filter (\<lambda>x. ?H (Nd x) = Inr True) ys)))" for ys
    by (simp add: filter_res_def filter_map comp_def)
  have S: "{x \<in> S. ?H (Nd x) = Inr True} = set (filter (\<lambda>x. ?H (Nd x) = Inr True) xs)" by (simp add: xs)
  show ?thesis
  proof (cases "tl l = []")
    case True
    then obtain m where l: "l = [m]" using assms(4) by (cases l) auto
    have x: "xs = in_order ?d S" using l by (auto simp: xs_def S_def in_order_def intro!: filter_cong)
    have "filter (\<lambda>x. ?H (Nd x) = Inr True) xs = in_order ?d {x \<in> S. ?H (Nd x) = Inr True}"
      unfolding x in_order_def by (simp add: conj_commute)
    moreover have "eval_step e (CStep ax t ps) l = step_each e (CStep ax t ps) l"
      using l by (simp split: sum.splits)
    ultimately show ?thesis unfolding each fm S_def [symmetric] xs Let_def by presburger
  next
    case False
    then obtain m m2 ms where l: "l = m # m2 # ms" using assms(4) by (cases l; cases "tl l") auto
    have r: "reduce_inputs ?d (CStep ax t ps) l = l" using na by (simp add: reduce_inputs_def)
    have k: "set (filter (\<lambda>x. ?H (Nd x) = Inr True) xs) \<subseteq> set (all_ids ?d)" using xs by (auto simp: S_def)
    have "eval_step e (CStep ax t ps) l = (case step_each e (CStep ax t ps) l of Inl x \<Rightarrow> Inl x | Inr out \<Rightarrow> Inr (doc_order ?d out))"
      using r na l by (simp add: Let_def del: step_each.simps split: sum.split)
    then show ?thesis
      unfolding each fm S_def [symmetric] Let_def S using doc_order_nodes [OF assms(1) k] by (simp add: xs)
  qed
qed


section \<open>Merging the steps of //\<close>

lemma dos_step:
  assumes "wf_dom (e_dom e)" "\<forall>m \<in> set l. known (e_dom e) m" "l \<noteq> []"
  obtains D where "eval_step e (CStep DescendantOrSelf TNode []) l = Inr D" "D \<noteq> []"
    "set D = (\<Union>m \<in> set l. set (collect e DescendantOrSelf TNode m))"
proof -
  let ?d = "e_dom e" and ?s = "CStep DescendantOrSelf TNode []"
  have z: "0 \<notin> set (all_ids ?d)" using assms(1) by (simp add: wf_dom_def)
  define out where "out = concat (map (collect e DescendantOrSelf TNode) l)"
  have so: "set out = (\<Union>m \<in> set l. set (collect e DescendantOrSelf TNode m))" by (simp add: out_def)
  have sf: "m \<in> set (collect e DescendantOrSelf TNode m)" for m
    by (cases m) (auto simp: collect_def collect_node_def collect_attr_def passes_def tree_test_def Let_def)
  have "hd l \<in> set out" using assms(3) sf [of "hd l"] so by auto
  then have ne: "out \<noteq> []" by auto
  have each: "step_each e ?s l = Inr out"
    by (subst step_each_free) (simp_all add: reverse_axis_def filter_res_def out_def)
  have ko: "\<forall>n \<in> set out. known ?d n" using so assms(2) collect_known by fastforce
  have do: "set (doc_order ?d out) = set out" using doc_order_sorted(3) [OF z ko] .
  show thesis
  proof (cases "tl l = []")
    case True
    then obtain m where l: "l = [m]" using assms(3) by (cases l) auto
    have "eval_step e ?s l = step_each e ?s l" using l by (simp split: sum.splits)
    with each ne so that show thesis by simp
  next
    case False
    then obtain m m2 ms where l: "l = m # m2 # ms" using assms(3) by (cases l; cases "tl l") auto
    have r: "reduce_inputs ?d ?s l = l" by (simp add: reduce_inputs_def)
    have "eval_step e ?s l = (case step_each e ?s l of Inl x \<Rightarrow> Inl x | Inr out \<Rightarrow> Inr (doc_order ?d out))"
      using r l by (simp add: keeps_order_def Let_def del: step_each.simps split: sum.split)
    with each do ne so that show thesis by (metis set_empty sum.case(2))
  qed
qed

lemma down_union:
  "set (subs t) = {t} \<union> (\<Union>v \<in> set (subs t). set (tkids v))"
  "set (subs_list ts) = set ts \<union> (\<Union>v \<in> set (subs_list ts). set (tkids v))"
proof (induction t and ts rule: subs_subs_list.induct)
  case (1 i n ks)
  have "set (subs (T i n ks)) = {T i n ks} \<union> set (subs_list ks)" by simp
  also have "\<dots> = {T i n ks} \<union> (set ks \<union> (\<Union>v \<in> set (subs_list ks). set (tkids v)))" using 1 by (rule arg_cong)
  also have "\<dots> = {T i n ks} \<union> (\<Union>v \<in> set (subs (T i n ks)). set (tkids v))" by simp
  finally show ?case .
next
  case (3 t ts)
  have "set (subs_list (t # ts)) = set (subs t) \<union> set (subs_list ts)" by simp
  also have "\<dots> = ({t} \<union> (\<Union>v \<in> set (subs t). set (tkids v))) \<union> (set ts \<union> (\<Union>v \<in> set (subs_list ts). set (tkids v)))"
    using 3 by (rule arg_cong2)
  also have "\<dots> = set (t # ts) \<union> (\<Union>v \<in> set (subs_list (t # ts)). set (tkids v))" by (simp add: Un_ac)
  finally show ?case .
qed simp

lemma reached_dos:
  assumes "wf_dom (e_dom e)"
  shows "(\<Union>n \<in> set (collect e DescendantOrSelf TNode m). reached e Child t n) = reached e Descendant t m"
proof (cases m)
  case (Nd x)
  show ?thesis
  proof (cases "node (e_dom e) x")
    case None
    then have "x \<notin> set (all_ids (e_dom e))" using node_exists [OF assms, of x] by auto
    then have "collect e DescendantOrSelf TNode m = [m]"
      using collect_unknown [of x e Descendant TNode] Nd
      by (auto simp: collect_def collect_node_def passes_def tree_test_def Let_def split: if_splits)
    with Nd None show ?thesis by (simp add: reached_def)
  next
    case (Some u)
    note u = node_in [OF Some]
    have "set (collect e DescendantOrSelf TNode m) = Nd ` tid ` set (subs u)"
    proof -
      have "has_children (kind_of (e_dom e) x) \<or> tkids u = []" using has_children_kids [OF assms, of u] u by auto
      then show ?thesis
        using Nd u descend_spec [OF assms, of u TNode]
        by (auto simp: collect_def collect_node_def passes_def tree_test_def subs_kids pre_subs Let_def)
    qed
    moreover have "node (e_dom e) (tid v) = Some v" if "v \<in> set (subs u)" for v
      using that subs_trans(2) [of u "d_trees (e_dom e)"] u by (intro node_sub [OF assms]) (auto simp: subs_of_def)
    ultimately have "(\<Union>n \<in> set (collect e DescendantOrSelf TNode m). reached e Child t n) =
        {y \<in> (\<Union>v \<in> set (subs u). tid ` set (tkids v)). passes e t y}"
      by (auto simp: reached_def down_def)
    also have "(\<Union>v \<in> set (subs u). tid ` set (tkids v)) = tid ` set (subs_list (tkids u))"
      unfolding subs_kids by (subst down_union(2)) auto
    finally show ?thesis using Nd Some by (simp add: reached_def down_def)
  qed
qed (auto simp: collect_def collect_attr_def reached_def Let_def)

lemma merged_step:
  assumes "wf_dom (e_dom e)" "\<forall>m \<in> set l. known (e_dom e) m" "l \<noteq> []" "\<not> list_ex positional ps"
  shows "eval_steps e [CStep DescendantOrSelf TNode [], CStep Child t ps] l = eval_step e (CStep Descendant t ps) l"
proof -
  obtain D where D: "eval_step e (CStep DescendantOrSelf TNode []) l = Inr D" "D \<noteq> []"
      "set D = (\<Union>m \<in> set l. set (collect e DescendantOrSelf TNode m))"
    using dos_step [OF assms(1-3)] .
  have "(\<Union>m \<in> set D. reached e Child t m) = (\<Union>m \<in> set l. reached e Descendant t m)"
    unfolding D(3) reached_dos [OF assms(1), symmetric] by blast
  then have "eval_step e (CStep Child t ps) D = eval_step e (CStep Descendant t ps) l"
    unfolding down_step [OF assms(1) disjI1 [OF refl] assms(4) D(2)] down_step [OF assms(1) disjI2 [OF refl] assms(4,3)] by simp
  moreover have "eval_steps e [CStep DescendantOrSelf TNode [], CStep Child t ps] l = eval_step e (CStep Child t ps) D"
    using D(1,2) assms(3) by (cases l; cases D) (auto simp del: eval_step.simps split: sum.splits)
  ultimately show ?thesis by simp
qed

end
