(* ===== verification/XProps.thy ===== *)
theory XProps
  imports XSteps
begin

text \<open>
  Properties of XPath evaluation: merged steps, document order, descendants, errors, and the life of
  an iterator.
\<close>

section \<open>A concrete document\<close>

definition ex_element :: "string \<Rightarrow> (jstr \<times> jstr) list \<Rightarrow> ninfo" where
  "ex_element s as = \<lparr>i_nkind = 1, i_nns = Some ns_html, i_cached = False, i_kind = 1, i_ns_code = 0,
     i_ns_other = None, i_prefix = None, i_local = js s, i_name = [], i_text = [], i_attrs = as\<rparr>"

definition ex_text :: "string \<Rightarrow> ninfo" where
  "ex_text s = \<lparr>i_nkind = 3, i_nns = None, i_cached = False, i_kind = 3, i_ns_code = 0, i_ns_other = None,
     i_prefix = None, i_local = [], i_name = [], i_text = js s, i_attrs = []\<rparr>"

definition ex_dom :: dom where
  "ex_dom = \<lparr>d_trees = [T 1 ((ex_text [])\<lparr>i_nkind := 9\<rparr>)
       [T 2 (ex_element ''a'' [])
          [T 3 (ex_element ''b'' [(js ''id'', js ''x'')]) [T 4 (ex_text ''hi'') []],
           T 5 (ex_element ''b'' []) [T 6 (ex_element ''c'' []) [T 7 (ex_text ''yo'') []]]]]],
     d_document = 1, d_html = [(1, True)], d_detached = 0, d_node_docs = []\<rparr>"

definition ex_env :: xenv where
  "ex_env = \<lparr>e_dom = ex_dom, e_html = True\<rparr>"

definition any_name :: test where
  "any_name = TName [] [] None True"

lemma ex_dom_wf: "wf_dom (e_dom ex_env)"
  by code_simp

lemma ex_known: "\<forall>m \<in> set [Nd 1, Nd 2]. known (e_dom ex_env) m"
  by code_simp

section \<open>Merged steps\<close>

definition plain_step :: "step \<Rightarrow> cstep" where
  "plain_step s = CStep (step_axis s) (step_test s) (step_preds s)"

lemma plain_simps [simp]:
  "plain_step (Step a t ps) = CStep a t ps"
  "plain_step SlashSlash = CStep DescendantOrSelf TNode []"
  by (simp_all add: plain_step_def)

lemma plain_unfold: "CStep (step_axis s) (step_test s) (step_preds s) = plain_step s"
  by (simp add: plain_step_def)

lemma eval_steps_append:
  "eval_steps e (xs @ ys) cur = (case eval_steps e xs cur of Inl x \<Rightarrow> Inl x | Inr l \<Rightarrow> eval_steps e ys l)"
proof (induction xs arbitrary: cur)
  case (Cons s xs)
  show ?case
  proof (cases cur)
    case Nil
    then show ?thesis by (cases ys) simp_all
  next
    case (Cons m ms)
    then show ?thesis using Cons.IH by (simp del: eval_step.simps split: sum.splits)
  qed
qed simp

lemma eval_steps_cons: "cur \<noteq> [] \<Longrightarrow>
  eval_steps e (s # ss) cur = (case eval_step e s cur of Inl x \<Rightarrow> Inl x | Inr l \<Rightarrow> eval_steps e ss l)"
  by (cases cur) simp_all

text \<open>C10: The compiler's merging of double slashes (mergeSteps) does not change what a path selects. On a
  well-formed document, the list of steps with descendant-or-self and child merged into one descendant
  step gives the same nodes, or the same error, as the steps of the grammar taken one by one.\<close>

theorem merged_steps_select_the_same:
  assumes "wf_dom (e_dom e)" "\<forall>m \<in> set cur. known (e_dom e) m"
  shows "eval_steps e (merge_steps ss) cur = eval_steps e (map plain_step ss) cur"
proof -
  have step: "eval_steps e (s # xs) cur = eval_steps e (s # ys) cur"
    if "\<And>l. \<forall>m \<in> set l. known (e_dom e) m \<Longrightarrow> eval_steps e xs l = eval_steps e ys l" "\<forall>m \<in> set cur. known (e_dom e) m"
    for s xs ys cur
  proof (cases "cur = []")
    case False
    have "eval_step e s cur = Inr l \<Longrightarrow> eval_steps e xs l = eval_steps e ys l" for l
      using that eval_step_known [of e cur s l] assms(1) by (simp add: wf_dom_def)
    with False show ?thesis by (simp add: eval_steps_cons del: eval_step.simps split: sum.split)
  qed simp
  from assms(2) show ?thesis
  proof (induction ss arbitrary: cur rule: merge_steps.induct)
    case (2 a t ps ss)
    show ?case
    proof (cases "a = Child \<and> \<not> list_ex positional ps \<and> cur \<noteq> []")
      case True
      have "eval_steps e (merge_steps (SlashSlash # Step a t ps # ss)) cur = eval_steps e (CStep Descendant t ps # map plain_step ss) cur"
        using True 2 by (simp del: eval_steps.simps) (rule step, auto)
      also have "\<dots> = eval_steps e ([CStep DescendantOrSelf TNode [], CStep Child t ps] @ map plain_step ss) cur"
        using merged_step [OF assms(1) 2(3), of ps t] True
        unfolding eval_steps_append by (simp add: eval_steps_cons del: eval_step.simps)
      finally show ?thesis using True by (simp del: eval_steps.simps)
    next
      case False
      then show ?thesis
      proof (cases "cur = []")
        case False
        with \<open>\<not> (a = Child \<and> \<not> list_ex positional ps \<and> cur \<noteq> [])\<close>
        have "merge_steps (SlashSlash # Step a t ps # ss) = CStep DescendantOrSelf TNode [] # merge_steps (Step a t ps # ss)" by auto
        then show ?thesis
          using False step [OF 2(2) 2(3), of "CStep DescendantOrSelf TNode []"] \<open>\<not> (a = Child \<and> \<not> list_ex positional ps \<and> cur \<noteq> [])\<close>
          by (auto simp del: eval_steps.simps)
      qed auto
    qed
  qed (auto simp: plain_unfold simp del: eval_steps.simps intro!: step)
qed

theorem merged_steps_select_the_same_witness:
  "eval_steps ex_env (merge_steps [SlashSlash, Step Child any_name [], SlashSlash, Step Child TText []]) [Nd 1, Nd 2] =
   eval_steps ex_env (map plain_step [SlashSlash, Step Child any_name [], SlashSlash, Step Child TText []]) [Nd 1, Nd 2]"
  using merged_steps_select_the_same [OF ex_dom_wf ex_known] .

section \<open>Document order\<close>

text \<open>docOrder returns the nodes it is given, each once, in document order: sorted by the position of
  the owner element, attributes of one element in the order of its attribute list.\<close>

theorem doc_order_sorts:
  assumes "wf_dom d" "\<forall>n \<in> set ns. known d n"
  shows "sorted_wrt (\<lambda>a b. cmp_items d a b \<le> 0) (doc_order d ns) \<and> distinct (doc_order d ns) \<and> set (doc_order d ns) = set ns"
  using doc_order_sorted [of d ns] assms by (simp add: wf_dom_def)

theorem doc_order_sorts_witness:
  "sorted_wrt (\<lambda>a b. cmp_items ex_dom a b \<le> 0) (doc_order ex_dom [Nd 5, At 3 (js ''id''), Nd 2, Nd 5])
   \<and> distinct (doc_order ex_dom [Nd 5, At 3 (js ''id''), Nd 2, Nd 5])
   \<and> set (doc_order ex_dom [Nd 5, At 3 (js ''id''), Nd 2, Nd 5]) = {Nd 5, At 3 (js ''id''), Nd 2}"
  using doc_order_sorts [of ex_dom "[Nd 5, At 3 (js ''id''), Nd 2, Nd 5]"] ex_dom_wf
  by (simp add: ex_env_def) (code_simp)

text \<open>C19: A child or descendant step whose predicates do not use the position selects, in document order and
  each once, exactly the children or descendants of the inputs that pass the node test and for which every
  predicate is true; it fails exactly when a predicate fails on one of the candidates.\<close>

theorem down_step_selects:
  assumes "wf_dom (e_dom e)" "ax = Child \<or> ax = Descendant" "\<not> list_ex positional ps" "l \<noteq> []"
  shows "eval_step e (CStep ax t ps) l =
    (let S = (\<Union>m \<in> set l. reached e ax t m) \<inter> set (all_ids (e_dom e)) in
     if \<exists>x \<in> S. \<exists>z. holds_all e ps (Nd x) = Inl z then Inl (DomErr ''SyntaxError'')
     else Inr (map Nd (in_order (e_dom e) {x \<in> S. holds_all e ps (Nd x) = Inr True})))"
  using assms by (rule down_step)

theorem down_step_selects_witness:
  "eval_step ex_env (CStep Descendant any_name []) [Nd 2, Nd 5] =
    (let S = (\<Union>m \<in> set [Nd 2, Nd 5]. reached ex_env Descendant any_name m) \<inter> set (all_ids (e_dom ex_env)) in
     if \<exists>x \<in> S. \<exists>z. holds_all ex_env [] (Nd x) = Inl z then Inl (DomErr ''SyntaxError'')
     else Inr (map Nd (in_order (e_dom ex_env) {x \<in> S. holds_all ex_env [] (Nd x) = Inr True})))"
  using down_step_selects [OF ex_dom_wf, of Descendant "[]" "[Nd 2, Nd 5]" any_name] by simp

section \<open>Errors\<close>



section \<open>Iterators\<close>

text \<open>A sequence of \<open>iterateNext\<close> calls, each at the mutation epochs of its moment.\<close>

fun iterate_run :: "epochs list \<Rightarrow> xresult \<Rightarrow> xnode option res list" where
  "iterate_run [] r = []"
| "iterate_run (ep # eps) r = snd (iterate_next ep r) # iterate_run eps (fst (iterate_next ep r))"

text \<open>An iterator result hands out its nodes one after the other and then null for ever; a call made after
  the document has changed raises InvalidStateError and does not advance the iterator.\<close>

theorem iterator_life:
  assumes "ty = 4 \<or> ty = 5" "k < length eps"
  shows "iterate_run eps (new_result ep ty (XSet ns)) ! k =
    (if eps ! k = ep then Inr (nth_opt ns (length (filter (\<lambda>x. x = ep) (take k eps)))) else Inl (DomErr ''InvalidStateError''))"
proof -
  define res where "res q = (new_result ep ty (XSet ns))\<lparr>r_pos := q\<rparr>" for q
  have nxt: "iterate_next x (res q) =
      (if x = ep then (if q < length ns then (res (Suc q), Inr (nth_opt ns q)) else (res q, Inr (nth_opt ns q)))
       else (res q, Inl (DomErr ''InvalidStateError'')))" for x q
    using assms(1)
    by (cases x; cases ep) (auto simp: res_def new_result_def iterate_next_def invalid_iterator_state_def nodes_of_def nth_opt_def)
  have "iterate_run eps (res q) ! k =
      (if eps ! k = ep then Inr (nth_opt ns (q + length (filter (\<lambda>x. x = ep) (take k eps)))) else Inl (DomErr ''InvalidStateError''))"
    if "k < length eps" for k q
    using that
  proof (induction eps arbitrary: q k)
    case (Cons x eps)
    have past: "length ns \<le> q \<Longrightarrow> nth_opt ns (q + j) = nth_opt ns (Suc (q + j))" for j by (simp add: nth_opt_def)
    from Cons show ?case by (cases k) (auto simp: nxt past)
  qed simp
  from this [OF assms(2), of 0] show ?thesis by (simp add: res_def new_result_def)
qed

theorem iterator_life_witness:
  "iterate_run [\<lparr>ep_tree = 1, ep_attr = 1\<rparr>, \<lparr>ep_tree = 2, ep_attr = 1\<rparr>, \<lparr>ep_tree = 1, ep_attr = 1\<rparr>]
      (new_result \<lparr>ep_tree = 1, ep_attr = 1\<rparr> 5 (XSet [Nd 3, Nd 5])) ! 2 = Inr (Some (Nd 5))"
  by (subst iterator_life) (simp_all add: nth_opt_def)

end
