(* ===== verification/EvtEvents.thy ===== *)
theory EvtEvents
  imports JsValues
begin

text \<open>
  The event objects of \<open>10_events.js\<close> (lines 8--600): the private fields of \<open>Event\<close> and of the
  classes that extend it, their constructors from an init dictionary, their accessors and their
  legacy \<open>init...Event\<close> methods.
\<close>

section \<open>Init dictionaries and numbers\<close>

text \<open>\<open>initDict\<close>: no dictionary, the object, or a type error.\<close>

definition init_dict :: "jsval \<Rightarrow> nat option res" where
  "init_dict v = (case v of Undef \<Rightarrow> Inr None | Null \<Rightarrow> Inr None | Obj o1 \<Rightarrow> Inr (Some o1) | _ \<Rightarrow> Inl TypeErr)"

definition num_or_zero :: "jsnum \<Rightarrow> jsnum" where
  "num_or_zero n = (if n = NaN then Fin 0 else n)"

text \<open>Members of a dictionary: as a double, a long, an unsigned long, a boolean, a string, a value.\<close>

definition get_num :: "objs \<Rightarrow> nat \<Rightarrow> string \<Rightarrow> jsnum res" where
  "get_num po d k = rbind (obj_get po d (js k)) (\<lambda>v. rbind (to_number po v) (\<lambda>n. Inr (num_or_zero n)))"

definition get_lng :: "objs \<Rightarrow> nat \<Rightarrow> string \<Rightarrow> int res" where
  "get_lng po d k = rbind (obj_get po d (js k)) (\<lambda>v. rbind (to_number po v) (\<lambda>n. Inr (to_int32 n)))"

definition get_ulng :: "objs \<Rightarrow> nat \<Rightarrow> string \<Rightarrow> int res" where
  "get_ulng po d k = rbind (obj_get po d (js k)) (\<lambda>v. rbind (to_number po v) (\<lambda>n. Inr (to_uint32 n)))"

definition get_bool :: "objs \<Rightarrow> nat \<Rightarrow> string \<Rightarrow> bool res" where
  "get_bool po d k = rbind (obj_get po d (js k)) (\<lambda>v. Inr (truthy v))"

text \<open>\<open>d.k === undefined ? def : `${d.k}`\<close>, and the same for numbers.\<close>

definition get_str :: "objs \<Rightarrow> nat \<Rightarrow> string \<Rightarrow> jstr \<Rightarrow> jstr res" where
  "get_str po d k def = rbind (obj_get po d (js k)) (\<lambda>v. if v = Undef then Inr def else to_jstring po v)"

definition get_num_or :: "objs \<Rightarrow> nat \<Rightarrow> string \<Rightarrow> jsnum \<Rightarrow> jsnum res" where
  "get_num_or po d k def = rbind (obj_get po d (js k)) (\<lambda>v.
     if v = Undef then Inr def else rbind (to_number po v) (\<lambda>n. Inr (num_or_zero n)))"

text \<open>A dictionary that is missing reads like an empty object.\<close>

definition in_dict :: "nat option \<Rightarrow> 'a \<Rightarrow> (nat \<Rightarrow> 'a res) \<Rightarrow> 'a res" where
  "in_dict d def f = (case d of None \<Rightarrow> Inr def | Some i \<Rightarrow> f i)"

section \<open>Class data\<close>

record ui_data =
  ui_view :: jsval
  ui_detail :: int
  ui_which :: int

text \<open>The members of the modifier object that are true.\<close>

type_synonym mods = "jstr list"

record mouse_data =
  m_screen_x :: jsnum
  m_screen_y :: jsnum
  m_client_x :: jsnum
  m_client_y :: jsnum
  m_button :: int
  m_buttons :: int
  m_movement_x :: jsnum
  m_movement_y :: jsnum
  m_page_x :: "jsnum option"
  m_page_y :: "jsnum option"
  m_offset_x :: "jsnum option"
  m_offset_y :: "jsnum option"
  m_mods :: mods

record pointer_data =
  pt_id :: int
  pt_width :: jsnum
  pt_height :: jsnum
  pt_pressure :: jsnum
  pt_tangential :: jsnum
  pt_tilt_x :: int
  pt_tilt_y :: int
  pt_twist :: int
  pt_altitude :: jsnum
  pt_azimuth :: jsnum
  pt_type :: jstr
  pt_primary :: bool
  pt_device :: int
  pt_coalesced :: "jsval list"
  pt_predicted :: "jsval list"

record wheel_data =
  w_delta_x :: jsnum
  w_delta_y :: jsnum
  w_delta_z :: jsnum
  w_delta_mode :: int

record key_data =
  k_key :: jstr
  k_code :: jstr
  k_location :: int
  k_repeat :: bool
  k_composing :: bool
  k_char_code :: int
  k_key_code :: int
  k_mods :: mods

record input_data =
  i_data :: "jstr option"
  i_composing :: bool
  i_input_type :: jstr
  i_transfer :: jsval
  i_ranges :: "jsval list"

record touch_data =
  t_touches :: "jsval list"
  t_target_touches :: "jsval list"
  t_changed :: "jsval list"
  t_mods :: mods

record message_data =
  g_data :: jsval
  g_origin :: jstr
  g_last_id :: jstr
  g_source :: jsval
  g_ports :: "jsval list"

text \<open>The class of an event with the private fields it adds.\<close>

datatype ev_data =
    DEvent
  | DCustom jsval
  | DUi ui_data
  | DMouse ui_data mouse_data
  | DPointer ui_data mouse_data pointer_data
  | DWheel ui_data mouse_data wheel_data
  | DDrag ui_data mouse_data jsval
  | DKey ui_data key_data
  | DFocus ui_data
  | DInput ui_data input_data
  | DComposition ui_data jstr
  | DTouch ui_data touch_data
  | DSimple string "(string \<times> jsval) list"
  | DMessage message_data
  | DBeforeUnload jstr

section \<open>Event\<close>

text \<open>The bits of \<open>#flags\<close>.\<close>

definition F_STOP :: "32 word" where "F_STOP = 1"
definition F_STOP_IMM :: "32 word" where "F_STOP_IMM = 2"
definition F_CANCELED :: "32 word" where "F_CANCELED = 4"
definition F_PASSIVE :: "32 word" where "F_PASSIVE = 8"
definition F_DISPATCH :: "32 word" where "F_DISPATCH = 16"
definition F_UNINIT :: "32 word" where "F_UNINIT = 32"
definition F_THREW :: "32 word" where "F_THREW = 64"

record event =
  e_type :: jstr
  e_bubbles :: bool
  e_cancelable :: bool
  e_composed :: bool
  e_trusted :: bool
  e_ts :: jsnum
  e_target :: "nat option"
  e_current :: "nat option"
  e_phase :: nat
  e_flags :: "32 word"
  e_path :: "nat list option"
  e_related :: jsval
  e_data :: ev_data

definition has_flag :: "event \<Rightarrow> 32 word \<Rightarrow> bool" where
  "has_flag e f = (e_flags e AND f \<noteq> 0)"

definition set_flag :: "32 word \<Rightarrow> event \<Rightarrow> event" where
  "set_flag f e = e\<lparr>e_flags := e_flags e OR f\<rparr>"

definition clear_flag :: "32 word \<Rightarrow> event \<Rightarrow> event" where
  "clear_flag f e = e\<lparr>e_flags := e_flags e AND NOT f\<rparr>"

text \<open>The constructor; the first argument is absent when the page passes none.\<close>

definition new_event :: "objs \<Rightarrow> jsnum \<Rightarrow> jsval option \<Rightarrow> jsval \<Rightarrow> event res" where
  "new_event po now ty init = (case ty of
     None \<Rightarrow> Inl TypeErr
   | Some t \<Rightarrow>
       rbind (to_jstring po t) (\<lambda>ts. rbind (init_dict init) (\<lambda>d.
       rbind (in_dict d (False, False, False) (\<lambda>i.
         rbind (get_bool po i ''bubbles'') (\<lambda>b. rbind (get_bool po i ''cancelable'') (\<lambda>c.
         rbind (get_bool po i ''composed'') (\<lambda>m. Inr (b, c, m)))))) (\<lambda>(b, c, m).
       Inr \<lparr>e_type = ts, e_bubbles = b, e_cancelable = c, e_composed = m, e_trusted = False, e_ts = now,
            e_target = None, e_current = None, e_phase = 0, e_flags = 0, e_path = None,
            e_related = Null, e_data = DEvent\<rparr>))))"

definition composed_path :: "event \<Rightarrow> nat list" where
  "composed_path e = (case e_path e of None \<Rightarrow> [] | Some p \<Rightarrow> p)"

definition stop_propagation :: "event \<Rightarrow> event" where
  "stop_propagation e = set_flag F_STOP e"

definition cancel_bubble :: "event \<Rightarrow> bool" where
  "cancel_bubble e = has_flag e F_STOP"

definition set_cancel_bubble :: "jsval \<Rightarrow> event \<Rightarrow> event" where
  "set_cancel_bubble v e = (if truthy v then set_flag F_STOP e else e)"

definition stop_immediate_propagation :: "event \<Rightarrow> event" where
  "stop_immediate_propagation e = set_flag (F_STOP OR F_STOP_IMM) e"

definition prevent_default :: "event \<Rightarrow> event" where
  "prevent_default e = (if e_cancelable e \<and> \<not> has_flag e F_PASSIVE then set_flag F_CANCELED e else e)"

definition default_prevented :: "event \<Rightarrow> bool" where
  "default_prevented e = has_flag e F_CANCELED"

definition return_value :: "event \<Rightarrow> bool" where
  "return_value e = (\<not> has_flag e F_CANCELED)"

definition set_return_value :: "jsval \<Rightarrow> event \<Rightarrow> event" where
  "set_return_value v e = (if \<not> truthy v then prevent_default e else e)"

text \<open>The conversion of the type may throw, after the flags, the trust and the target are reset.\<close>

definition init_event :: "objs \<Rightarrow> jsval \<Rightarrow> jsval \<Rightarrow> jsval \<Rightarrow> event \<Rightarrow> event \<times> unit res" where
  "init_event po ty bubbles cancelable e =
     (if has_flag e F_DISPATCH then (e, Inr ())
      else let e1 = e\<lparr>e_flags := 0, e_trusted := False, e_target := None\<rparr> in
        case to_jstring po ty of
          Inl x \<Rightarrow> (e1, Inl x)
        | Inr t \<Rightarrow> (e1\<lparr>e_type := t, e_bubbles := truthy bubbles, e_cancelable := truthy cancelable\<rparr>, Inr ()))"

lemma flag_set [simp]: "has_flag (set_flag f e) g \<longleftrightarrow> has_flag e g \<or> f AND g \<noteq> 0"
  by (simp add: has_flag_def set_flag_def bit.conj_disj_distrib2 or_eq_0_iff)

lemma flag_clear: "has_flag (clear_flag f e) g \<longleftrightarrow> e_flags e AND (NOT f AND g) \<noteq> 0"
  by (simp add: has_flag_def clear_flag_def and.assoc)

lemma event_set_flag [simp]:
  "e_type (set_flag f e) = e_type e" "e_bubbles (set_flag f e) = e_bubbles e" "e_cancelable (set_flag f e) = e_cancelable e"
  "e_target (set_flag f e) = e_target e" "e_current (set_flag f e) = e_current e" "e_phase (set_flag f e) = e_phase e"
  "e_path (set_flag f e) = e_path e" "e_data (set_flag f e) = e_data e" "e_trusted (set_flag f e) = e_trusted e"
  by (simp_all add: set_flag_def)

lemma event_clear_flag [simp]:
  "e_type (clear_flag f e) = e_type e" "e_bubbles (clear_flag f e) = e_bubbles e" "e_cancelable (clear_flag f e) = e_cancelable e"
  "e_target (clear_flag f e) = e_target e" "e_current (clear_flag f e) = e_current e" "e_phase (clear_flag f e) = e_phase e"
  "e_path (clear_flag f e) = e_path e" "e_data (clear_flag f e) = e_data e" "e_trusted (clear_flag f e) = e_trusted e"
  by (simp_all add: clear_flag_def)

lemmas flag_values = F_STOP_def F_STOP_IMM_def F_CANCELED_def F_PASSIVE_def F_DISPATCH_def F_UNINIT_def F_THREW_def


section \<open>The classes\<close>

text \<open>Every constructor starts with that of the base class (\<open>super(type, init)\<close>).\<close>

definition new_custom :: "objs \<Rightarrow> jsnum \<Rightarrow> jsval option \<Rightarrow> jsval \<Rightarrow> event res" where
  "new_custom po now ty init = rbind (new_event po now ty init) (\<lambda>e. rbind (init_dict init) (\<lambda>d.
     rbind (in_dict d Null (\<lambda>i. rbind (obj_get po i (js ''detail'')) (\<lambda>v. Inr (if v = Undef then Null else v)))) (\<lambda>v.
     Inr (e\<lparr>e_data := DCustom v\<rparr>))))"

definition init_custom_event :: "objs \<Rightarrow> jsval \<Rightarrow> jsval \<Rightarrow> jsval \<Rightarrow> jsval \<Rightarrow> event \<Rightarrow> event \<times> unit res" where
  "init_custom_event po ty bubbles cancelable detail e =
     (if has_flag e F_DISPATCH then (e, Inr ())
      else case init_event po ty bubbles cancelable e of
        (e1, Inl x) \<Rightarrow> (e1, Inl x)
      | (e1, Inr _) \<Rightarrow> (e1\<lparr>e_data := DCustom detail\<rparr>, Inr ()))"

definition new_ui_data :: "objs \<Rightarrow> nat option \<Rightarrow> ui_data res" where
  "new_ui_data po d = in_dict d \<lparr>ui_view = Null, ui_detail = 0, ui_which = 0\<rparr> (\<lambda>i.
     rbind (obj_get po i (js ''view'')) (\<lambda>v. rbind (get_lng po i ''detail'') (\<lambda>n. rbind (get_ulng po i ''which'') (\<lambda>w.
     Inr \<lparr>ui_view = (if v = Undef then Null else v), ui_detail = n, ui_which = w\<rparr>))))"

text \<open>An event of a class above \<open>UIEvent\<close>: the event, the dictionary and the data of \<open>UIEvent\<close>.\<close>

definition new_ui_base :: "objs \<Rightarrow> jsnum \<Rightarrow> jsval option \<Rightarrow> jsval \<Rightarrow> (event \<times> nat option \<times> ui_data) res" where
  "new_ui_base po now ty init = rbind (new_event po now ty init) (\<lambda>e. rbind (init_dict init) (\<lambda>d.
     rbind (new_ui_data po d) (\<lambda>u. Inr (e, d, u))))"

definition new_ui :: "objs \<Rightarrow> jsnum \<Rightarrow> jsval option \<Rightarrow> jsval \<Rightarrow> event res" where
  "new_ui po now ty init = rbind (new_ui_base po now ty init) (\<lambda>(e, d, u). Inr (e\<lparr>e_data := DUi u\<rparr>))"

fun ui_of :: "ev_data \<Rightarrow> ui_data option" where
  "ui_of (DUi u) = Some u"
| "ui_of (DMouse u m) = Some u"
| "ui_of (DPointer u m p) = Some u"
| "ui_of (DWheel u m w) = Some u"
| "ui_of (DDrag u m v) = Some u"
| "ui_of (DKey u k) = Some u"
| "ui_of (DFocus u) = Some u"
| "ui_of (DInput u i) = Some u"
| "ui_of (DComposition u s) = Some u"
| "ui_of (DTouch u t) = Some u"
| "ui_of _ = None"

fun set_ui :: "ui_data \<Rightarrow> ev_data \<Rightarrow> ev_data" where
  "set_ui u (DUi _) = DUi u"
| "set_ui u (DMouse _ m) = DMouse u m"
| "set_ui u (DPointer _ m p) = DPointer u m p"
| "set_ui u (DWheel _ m w) = DWheel u m w"
| "set_ui u (DDrag _ m v) = DDrag u m v"
| "set_ui u (DKey _ k) = DKey u k"
| "set_ui u (DFocus _) = DFocus u"
| "set_ui u (DInput _ i) = DInput u i"
| "set_ui u (DComposition _ s) = DComposition u s"
| "set_ui u (DTouch _ t) = DTouch u t"
| "set_ui u d = d"

text \<open>\<open>initUIEvent\<close> on an event of \<open>UIEvent\<close> or a class above it; the view is set before the detail is read.\<close>

definition init_ui_event :: "objs \<Rightarrow> jsval \<Rightarrow> jsval \<Rightarrow> jsval \<Rightarrow> jsval \<Rightarrow> jsval \<Rightarrow> event \<Rightarrow> event \<times> unit res" where
  "init_ui_event po ty bubbles cancelable view detail e =
     (if has_flag e F_DISPATCH then (e, Inr ())
      else case init_event po ty bubbles cancelable e of
        (e1, Inl x) \<Rightarrow> (e1, Inl x)
      | (e1, Inr _) \<Rightarrow> (case ui_of (e_data e1) of
          None \<Rightarrow> (e1, Inl TypeErr)
        | Some u \<Rightarrow> (case to_number po detail of
            Inl x \<Rightarrow> (e1\<lparr>e_data := set_ui (u\<lparr>ui_view := view\<rparr>) (e_data e1)\<rparr>, Inl x)
          | Inr n \<Rightarrow> (e1\<lparr>e_data := set_ui (u\<lparr>ui_view := view, ui_detail := to_int32 n\<rparr>) (e_data e1)\<rparr>, Inr ()))))"

text \<open>\<open>MODIFIER_KEYS\<close>: the key of \<open>getModifierState\<close> and the member of the dictionary.\<close>

definition modifier_keys :: "(jstr \<times> jstr) list" where
  "modifier_keys = map (\<lambda>(k, f). (js k, js f))
    [(''Control'', ''ctrlKey''), (''Shift'', ''shiftKey''), (''Alt'', ''altKey''), (''Meta'', ''metaKey''),
     (''AltGraph'', ''modifierAltGraph''), (''CapsLock'', ''modifierCapsLock''), (''Fn'', ''modifierFn''),
     (''FnLock'', ''modifierFnLock''), (''Hyper'', ''modifierHyper''), (''NumLock'', ''modifierNumLock''),
     (''ScrollLock'', ''modifierScrollLock''), (''Super'', ''modifierSuper''), (''Symbol'', ''modifierSymbol''),
     (''SymbolLock'', ''modifierSymbolLock'')]"

fun read_members :: "objs \<Rightarrow> nat \<Rightarrow> jstr list \<Rightarrow> mods res" where
  "read_members po d [] = Inr []"
| "read_members po d (f # fs) = rbind (obj_get po d f) (\<lambda>v. rbind (read_members po d fs) (\<lambda>m.
     Inr (if truthy v then f # m else m)))"

definition read_modifiers :: "objs \<Rightarrow> nat option \<Rightarrow> mods res" where
  "read_modifiers po d = in_dict d [] (\<lambda>i. read_members po i (map snd modifier_keys))"

definition get_modifier_state :: "mods \<Rightarrow> jstr \<Rightarrow> bool" where
  "get_modifier_state m key = (case map_of modifier_keys key of None \<Rightarrow> False | Some f \<Rightarrow> f \<in> set m)"

definition four_mods :: "jsval \<Rightarrow> jsval \<Rightarrow> jsval \<Rightarrow> jsval \<Rightarrow> mods" where
  "four_mods ctrl alt shift meta =
     (if truthy ctrl then [js ''ctrlKey''] else []) @ (if truthy alt then [js ''altKey''] else []) @
     (if truthy shift then [js ''shiftKey''] else []) @ (if truthy meta then [js ''metaKey''] else [])"


subsection \<open>Mouse, pointer, wheel and drag events\<close>

definition get_opt_num :: "objs \<Rightarrow> nat \<Rightarrow> string \<Rightarrow> jsnum option res" where
  "get_opt_num po d k = rbind (obj_get po d (js k)) (\<lambda>v.
     if v = Undef then Inr None else rbind (to_number po v) (\<lambda>n. Inr (Some (num_or_zero n))))"

definition plain_mouse :: "mods \<Rightarrow> mouse_data" where
  "plain_mouse m = \<lparr>m_screen_x = Fin 0, m_screen_y = Fin 0, m_client_x = Fin 0, m_client_y = Fin 0, m_button = 0,
     m_buttons = 0, m_movement_x = Fin 0, m_movement_y = Fin 0, m_page_x = None, m_page_y = None,
     m_offset_x = None, m_offset_y = None, m_mods = m\<rparr>"

text \<open>The page and offset coordinates come from native input only (\<open>native\<close>).\<close>

definition native_coords :: "objs \<Rightarrow> bool \<Rightarrow> nat \<Rightarrow> mouse_data \<Rightarrow> mouse_data res" where
  "native_coords po native i m =
     (if \<not> native then Inr m
      else rbind (get_opt_num po i ''pageX'') (\<lambda>px. rbind (get_opt_num po i ''pageY'') (\<lambda>py.
           rbind (get_opt_num po i ''offsetX'') (\<lambda>ox. rbind (get_opt_num po i ''offsetY'') (\<lambda>oy.
           Inr (m\<lparr>m_page_x := px, m_page_y := py, m_offset_x := ox, m_offset_y := oy\<rparr>))))))"

definition read_mouse :: "objs \<Rightarrow> bool \<Rightarrow> mods \<Rightarrow> nat \<Rightarrow> (mouse_data \<times> jsval) res" where
  "read_mouse po native mods i =
     rbind (get_num po i ''screenX'') (\<lambda>sx. rbind (get_num po i ''screenY'') (\<lambda>sy.
     rbind (get_num po i ''clientX'') (\<lambda>cx. rbind (get_num po i ''clientY'') (\<lambda>cy.
     rbind (obj_get po i (js ''button'')) (\<lambda>bv. rbind (to_number po bv) (\<lambda>b.
     rbind (obj_get po i (js ''buttons'')) (\<lambda>bsv. rbind (to_number po bsv) (\<lambda>bs.
     rbind (get_num po i ''movementX'') (\<lambda>mx. rbind (get_num po i ''movementY'') (\<lambda>my.
     rbind (obj_get po i (js ''relatedTarget'')) (\<lambda>rel.
     rbind (native_coords po native i ((plain_mouse mods)\<lparr>m_screen_x := sx, m_screen_y := sy, m_client_x := cx,
        m_client_y := cy, m_button := to_int16 b, m_buttons := to_uint16 bs, m_movement_x := mx, m_movement_y := my\<rparr>)) (\<lambda>m.
     Inr (m, rel)))))))))))))"

definition new_mouse_base :: "objs \<Rightarrow> bool \<Rightarrow> jsnum \<Rightarrow> jsval option \<Rightarrow> jsval \<Rightarrow> (event \<times> nat option \<times> ui_data \<times> mouse_data) res" where
  "new_mouse_base po native now ty init = rbind (new_ui_base po now ty init) (\<lambda>(e, d, u).
     rbind (read_modifiers po d) (\<lambda>mods.
     rbind (in_dict d (plain_mouse mods, Undef) (read_mouse po native mods)) (\<lambda>(m, rel).
     Inr (if nullish rel then e else e\<lparr>e_related := rel\<rparr>, d, u, m))))"

definition new_mouse :: "objs \<Rightarrow> bool \<Rightarrow> jsnum \<Rightarrow> jsval option \<Rightarrow> jsval \<Rightarrow> event res" where
  "new_mouse po native now ty init = rbind (new_mouse_base po native now ty init) (\<lambda>(e, d, u, m). Inr (e\<lparr>e_data := DMouse u m\<rparr>))"

text \<open>The getters that compute: the scroll offsets and the target's rectangle are given.\<close>

definition page_coord :: "jsnum option \<Rightarrow> jsnum \<Rightarrow> jsnum \<Rightarrow> jsnum" where
  "page_coord page client scroll = (case page of Some x \<Rightarrow> x | None \<Rightarrow> num_add client scroll)"

definition offset_coord :: "jsnum option \<Rightarrow> jsnum \<Rightarrow> jsnum option \<Rightarrow> jsnum" where
  "offset_coord offset client origin = (case offset of
     Some x \<Rightarrow> x
   | None \<Rightarrow> (case origin of Some r \<Rightarrow> num_sub client r | None \<Rightarrow> client))"

definition mouse_which :: "mouse_data \<Rightarrow> int" where
  "mouse_which m = m_button m + 1"

definition target_val :: "event \<Rightarrow> jsval" where
  "target_val e = (case e_target e of None \<Rightarrow> Null | Some t \<Rightarrow> Obj t)"

definition from_element :: "event \<Rightarrow> jsval" where
  "from_element e = (if e_type e \<in> {js ''mouseover'', js ''mouseenter'', js ''pointerover''} then e_related e else target_val e)"

definition to_element :: "event \<Rightarrow> jsval" where
  "to_element e = (if e_type e \<in> {js ''mouseout'', js ''mouseleave'', js ''pointerout''} then e_related e else target_val e)"

fun mouse_of :: "ev_data \<Rightarrow> mouse_data option" where
  "mouse_of (DMouse u m) = Some m"
| "mouse_of (DPointer u m p) = Some m"
| "mouse_of (DWheel u m w) = Some m"
| "mouse_of (DDrag u m v) = Some m"
| "mouse_of _ = None"

fun set_mouse :: "mouse_data \<Rightarrow> ev_data \<Rightarrow> ev_data" where
  "set_mouse m (DMouse u _) = DMouse u m"
| "set_mouse m (DPointer u _ p) = DPointer u m p"
| "set_mouse m (DWheel u _ w) = DWheel u m w"
| "set_mouse m (DDrag u _ v) = DDrag u m v"
| "set_mouse m d = d"

text \<open>The coordinates and the button of \<open>initMouseEvent\<close>; a conversion that throws leaves what is set so far.\<close>

fun set_mouse_nums :: "objs \<Rightarrow> (jsval \<times> (jsnum \<Rightarrow> mouse_data \<Rightarrow> mouse_data)) list \<Rightarrow> mouse_data \<Rightarrow> mouse_data \<times> unit res" where
  "set_mouse_nums po [] m = (m, Inr ())"
| "set_mouse_nums po ((v, put) # rest) m = (case to_number po v of
     Inl x \<Rightarrow> (m, Inl x)
   | Inr n \<Rightarrow> set_mouse_nums po rest (put n m))"

definition init_mouse_event :: "objs \<Rightarrow> jsval \<Rightarrow> jsval \<Rightarrow> jsval \<Rightarrow> jsval \<Rightarrow> jsval \<Rightarrow> jsval \<Rightarrow> jsval \<Rightarrow> jsval \<Rightarrow> jsval \<Rightarrow>
    mods \<Rightarrow> jsval \<Rightarrow> jsval \<Rightarrow> event \<Rightarrow> event \<times> unit res" where
  "init_mouse_event po ty bubbles cancelable view detail sx sy cx cy mods button rel e =
     (if has_flag e F_DISPATCH then (e, Inr ())
      else case init_ui_event po ty bubbles cancelable view detail e of
        (e1, Inl x) \<Rightarrow> (e1, Inl x)
      | (e1, Inr _) \<Rightarrow> (case mouse_of (e_data e1) of
          None \<Rightarrow> (e1, Inl TypeErr)
        | Some m \<Rightarrow> (case set_mouse_nums po
              [(sx, \<lambda>n. m_screen_x_update (\<lambda>_. num_or_zero n)), (sy, \<lambda>n. m_screen_y_update (\<lambda>_. num_or_zero n)),
               (cx, \<lambda>n. m_client_x_update (\<lambda>_. num_or_zero n)),
               (cy, \<lambda>n m. m\<lparr>m_client_y := num_or_zero n, m_mods := mods\<rparr>),
               (button, \<lambda>n. m_button_update (\<lambda>_. to_int16 n))] m of
            (m1, Inl x) \<Rightarrow> (e1\<lparr>e_data := set_mouse m1 (e_data e1)\<rparr>, Inl x)
          | (m1, Inr _) \<Rightarrow> (e1\<lparr>e_data := set_mouse m1 (e_data e1), e_related := rel\<rparr>, Inr ()))))"

text \<open>Arrays of the page: the elements of \<open>Array.isArray(v) ? v.slice() : []\<close> are given by \<open>elems\<close>.\<close>

type_synonym elems = "jsval \<Rightarrow> jsval list"

definition plain_pointer :: "jsnum \<Rightarrow> pointer_data" where
  "plain_pointer half_pi = \<lparr>pt_id = 0, pt_width = Fin 1, pt_height = Fin 1, pt_pressure = Fin 0, pt_tangential = Fin 0,
     pt_tilt_x = 0, pt_tilt_y = 0, pt_twist = 0, pt_altitude = half_pi, pt_azimuth = Fin 0, pt_type = [],
     pt_primary = False, pt_device = 0, pt_coalesced = [], pt_predicted = []\<rparr>"

definition read_pointer :: "objs \<Rightarrow> elems \<Rightarrow> jsnum \<Rightarrow> nat \<Rightarrow> pointer_data res" where
  "read_pointer po arr half_pi i =
     rbind (get_lng po i ''pointerId'') (\<lambda>pid. rbind (get_num_or po i ''width'' (Fin 1)) (\<lambda>w.
     rbind (get_num_or po i ''height'' (Fin 1)) (\<lambda>h. rbind (get_num po i ''pressure'') (\<lambda>pr.
     rbind (get_num po i ''tangentialPressure'') (\<lambda>tp. rbind (get_lng po i ''tiltX'') (\<lambda>tx.
     rbind (get_lng po i ''tiltY'') (\<lambda>ty. rbind (get_lng po i ''twist'') (\<lambda>tw.
     rbind (get_num_or po i ''altitudeAngle'' half_pi) (\<lambda>al. rbind (get_num po i ''azimuthAngle'') (\<lambda>az.
     rbind (get_str po i ''pointerType'' []) (\<lambda>ptype. rbind (get_bool po i ''isPrimary'') (\<lambda>prim.
     rbind (get_lng po i ''persistentDeviceId'') (\<lambda>dev. rbind (obj_get po i (js ''coalescedEvents'')) (\<lambda>co.
     rbind (obj_get po i (js ''predictedEvents'')) (\<lambda>pe.
     Inr \<lparr>pt_id = pid, pt_width = w, pt_height = h, pt_pressure = pr, pt_tangential = tp, pt_tilt_x = tx, pt_tilt_y = ty,
          pt_twist = tw, pt_altitude = al, pt_azimuth = az, pt_type = ptype, pt_primary = prim, pt_device = dev,
          pt_coalesced = arr co, pt_predicted = arr pe\<rparr>)))))))))))))))"

definition new_pointer :: "objs \<Rightarrow> elems \<Rightarrow> jsnum \<Rightarrow> bool \<Rightarrow> jsnum \<Rightarrow> jsval option \<Rightarrow> jsval \<Rightarrow> event res" where
  "new_pointer po arr half_pi native now ty init = rbind (new_mouse_base po native now ty init) (\<lambda>(e, d, u, m).
     rbind (in_dict d (plain_pointer half_pi) (read_pointer po arr half_pi)) (\<lambda>p. Inr (e\<lparr>e_data := DPointer u m p\<rparr>)))"

definition new_wheel :: "objs \<Rightarrow> bool \<Rightarrow> jsnum \<Rightarrow> jsval option \<Rightarrow> jsval \<Rightarrow> event res" where
  "new_wheel po native now ty init = rbind (new_mouse_base po native now ty init) (\<lambda>(e, d, u, m).
     rbind (in_dict d \<lparr>w_delta_x = Fin 0, w_delta_y = Fin 0, w_delta_z = Fin 0, w_delta_mode = 0\<rparr> (\<lambda>i.
       rbind (get_num po i ''deltaX'') (\<lambda>x. rbind (get_num po i ''deltaY'') (\<lambda>y. rbind (get_num po i ''deltaZ'') (\<lambda>z.
       rbind (get_ulng po i ''deltaMode'') (\<lambda>m. Inr \<lparr>w_delta_x = x, w_delta_y = y, w_delta_z = z, w_delta_mode = m\<rparr>)))))) (\<lambda>w.
     Inr (e\<lparr>e_data := DWheel u m w\<rparr>)))"

text \<open>\<open>wheelDelta\<close>: \<open>1.2\<close> is the double nearest to six fifths.\<close>

definition scaled_delta :: "jsnum \<Rightarrow> jsnum" where
  "scaled_delta d = num_round (num_mul (num_neg d) (round_rat (6/5)))"

definition wheel_delta :: "wheel_data \<Rightarrow> jsnum" where
  "wheel_delta w = scaled_delta (if truthy (Num (w_delta_y w)) then w_delta_y w else w_delta_x w)"

definition new_drag :: "objs \<Rightarrow> bool \<Rightarrow> jsnum \<Rightarrow> jsval option \<Rightarrow> jsval \<Rightarrow> event res" where
  "new_drag po native now ty init = rbind (new_mouse_base po native now ty init) (\<lambda>(e, d, u, m).
     rbind (in_dict d Null (\<lambda>i. rbind (obj_get po i (js ''dataTransfer'')) (\<lambda>v. Inr (if v = Undef then Null else v)))) (\<lambda>v.
     Inr (e\<lparr>e_data := DDrag u m v\<rparr>)))"


subsection \<open>Keyboard events\<close>

definition key_codes :: "(jstr \<times> int) list" where
  "key_codes = map (\<lambda>(k, c). (js k, c))
    [(''Backspace'', 8), (''Tab'', 9), (''Enter'', 13), (''Shift'', 16), (''Control'', 17), (''Alt'', 18), (''Pause'', 19),
     (''CapsLock'', 20), (''Escape'', 27), ('' '', 32), (''PageUp'', 33), (''PageDown'', 34), (''End'', 35), (''Home'', 36),
     (''ArrowLeft'', 37), (''ArrowUp'', 38), (''ArrowRight'', 39), (''ArrowDown'', 40), (''PrintScreen'', 44),
     (''Insert'', 45), (''Delete'', 46), (''Meta'', 91), (''ContextMenu'', 93), (''NumLock'', 144), (''ScrollLock'', 145),
     ('';'', 186), (''='', 187), ('','', 188), (''-'', 189), (''.'', 190), (''/'', 191), (''`'', 192), (''['', 219),
     ([CHR 0x5C], 220), ('']'', 221), ([CHR 0x27], 222), ('':'', 186), (''+'', 187), (''<'', 188), (''_'', 189), (''>'', 190),
     (''?'', 191), (''~'', 192), (''{'', 219), (''|'', 220), (''}'', 221), ([CHR 0x22], 222), (''!'', 49), (''@'', 50),
     (''#'', 51), (''$'', 52), (''%'', 53), (''^'', 54), (''&'', 55), (''*'', 56), (''('', 57), ('')'', 48)]"

text \<open>A match of \<open>^<prefix>([lo-hi])$\<close>: the one unit after the prefix.\<close>

definition one_after :: "string \<Rightarrow> int \<Rightarrow> int \<Rightarrow> jstr \<Rightarrow> int option" where
  "one_after pre lo hi s = (if prefix_of (js pre) s then
     (case drop (length pre) s of [c] \<Rightarrow> if lo \<le> c \<and> c \<le> hi then Some c else None | _ \<Rightarrow> None) else None)"

definition function_key :: "jstr \<Rightarrow> int option" where
  "function_key s = (case s of
     c # ds \<Rightarrow> if c = 70 \<and> (length ds = 1 \<or> length ds = 2) \<and> list_all is_digit ds then Some (111 + digits_val 0 ds) else None
   | [] \<Rightarrow> None)"

text \<open>
  \<open>deriveKeyCode\<close>.  \<open>upper\<close> is \<open>toUpperCase\<close>, which needs the Unicode tables.  Names of members that every
  object inherits are not keys.
\<close>

definition key_from_code :: "jstr \<Rightarrow> int option" where
  "key_from_code code = (case one_after ''Key'' 65 90 code of
     Some c \<Rightarrow> Some c
   | None \<Rightarrow> (case one_after ''Digit'' 48 57 code of
       Some c \<Rightarrow> Some (48 + (c - 48))
     | None \<Rightarrow> (case one_after ''Numpad'' 48 57 code of
         Some c \<Rightarrow> Some (96 + (c - 48))
       | None \<Rightarrow> function_key code)))"

definition str_le :: "jstr \<Rightarrow> jstr \<Rightarrow> bool" where
  "str_le a b = (\<not> str_lt b a)"

definition derive_key_code :: "(jstr \<Rightarrow> jstr) \<Rightarrow> jstr \<Rightarrow> jstr \<Rightarrow> int" where
  "derive_key_code upper key code = (case key_from_code code of
     Some k \<Rightarrow> k
   | None \<Rightarrow>
       let c = upper key in
       if length key = 1 \<and> (str_le (js ''A'') c \<and> str_le c (js ''Z'') \<or> str_le (js ''0'') c \<and> str_le c (js ''9'')) then hd c
       else case map_of key_codes key of
         Some k \<Rightarrow> k
       | None \<Rightarrow> (case function_key key of Some k \<Rightarrow> k | None \<Rightarrow> 0))"

text \<open>Key and character codes that native input leaves out.\<close>

definition fill_codes :: "(jstr \<Rightarrow> jstr) \<Rightarrow> jstr \<Rightarrow> key_data \<Rightarrow> key_data" where
  "fill_codes upper ty s =
     (let press = (ty = js ''keypress'');
          s1 = (if k_key_code s = 0 then s\<lparr>k_key_code := (if press then 0 else derive_key_code upper (k_key s) (k_code s))\<rparr> else s) in
      if press \<and> k_char_code s1 = 0 then
        let cc = (if k_key s1 = js ''Enter'' then 13 else case k_key s1 of [c] \<Rightarrow> c | _ \<Rightarrow> 0) in
        s1\<lparr>k_char_code := cc, k_key_code := (if k_key_code s1 = 0 then cc else k_key_code s1)\<rparr>
      else s1)"

definition plain_key :: "mods \<Rightarrow> key_data" where
  "plain_key m = \<lparr>k_key = [], k_code = [], k_location = 0, k_repeat = False, k_composing = False,
     k_char_code = 0, k_key_code = 0, k_mods = m\<rparr>"

definition read_key :: "objs \<Rightarrow> mods \<Rightarrow> nat \<Rightarrow> key_data res" where
  "read_key po mods i =
     rbind (get_str po i ''key'' []) (\<lambda>k. rbind (get_str po i ''code'' []) (\<lambda>c.
     rbind (get_ulng po i ''location'') (\<lambda>l. rbind (get_bool po i ''repeat'') (\<lambda>r.
     rbind (get_bool po i ''isComposing'') (\<lambda>cm. rbind (get_ulng po i ''charCode'') (\<lambda>cc.
     rbind (get_ulng po i ''keyCode'') (\<lambda>kc.
     Inr \<lparr>k_key = k, k_code = c, k_location = l, k_repeat = r, k_composing = cm, k_char_code = cc,
          k_key_code = kc, k_mods = mods\<rparr>)))))))"

text \<open>\<open>type === 'keypress'\<close> compares the argument itself, not its string.\<close>

definition new_keyboard :: "objs \<Rightarrow> (jstr \<Rightarrow> jstr) \<Rightarrow> bool \<Rightarrow> jsnum \<Rightarrow> jsval option \<Rightarrow> jsval \<Rightarrow> event res" where
  "new_keyboard po upper native now ty init = rbind (new_ui_base po now ty init) (\<lambda>(e, d, u).
     rbind (read_modifiers po d) (\<lambda>mods. rbind (in_dict d (plain_key mods) (\<lambda>i. rbind (read_key po mods i) (\<lambda>k.
       Inr (if native then fill_codes upper (case ty of Some (Str s) \<Rightarrow> s | _ \<Rightarrow> []) k else k)))) (\<lambda>k.
     Inr (e\<lparr>e_data := DKey u k\<rparr>))))"

definition key_which :: "jstr \<Rightarrow> key_data \<Rightarrow> int" where
  "key_which ty k = (if ty = js ''keypress'' then (if k_char_code k \<noteq> 0 then k_char_code k else k_key_code k) else k_key_code k)"

definition init_keyboard_event :: "objs \<Rightarrow> jsval \<Rightarrow> jsval \<Rightarrow> jsval \<Rightarrow> jsval \<Rightarrow> jsval \<Rightarrow> jsval \<Rightarrow> mods \<Rightarrow> event \<Rightarrow> event \<times> unit res" where
  "init_keyboard_event po ty bubbles cancelable view key location mods e =
     (if has_flag e F_DISPATCH then (e, Inr ())
      else case init_ui_event po ty bubbles cancelable view (Num (Fin 0)) e of
        (e1, Inl x) \<Rightarrow> (e1, Inl x)
      | (e1, Inr _) \<Rightarrow> (case e_data e1 of
          DKey u k \<Rightarrow> (case to_jstring po key of
            Inl x \<Rightarrow> (e1, Inl x)
          | Inr ks \<Rightarrow> (case to_number po location of
              Inl x \<Rightarrow> (e1\<lparr>e_data := DKey u (k\<lparr>k_key := ks\<rparr>)\<rparr>, Inl x)
            | Inr n \<Rightarrow> (e1\<lparr>e_data := DKey u (k\<lparr>k_key := ks, k_location := to_uint32 n, k_mods := mods\<rparr>)\<rparr>, Inr ())))
        | _ \<Rightarrow> (e1, Inl TypeErr)))"

subsection \<open>Focus, input, composition and touch events\<close>

definition new_focus :: "objs \<Rightarrow> jsnum \<Rightarrow> jsval option \<Rightarrow> jsval \<Rightarrow> event res" where
  "new_focus po now ty init = rbind (new_ui_base po now ty init) (\<lambda>(e, d, u).
     rbind (in_dict d Null (\<lambda>i. obj_get po i (js ''relatedTarget''))) (\<lambda>rel.
     Inr ((if nullish rel then e else e\<lparr>e_related := rel\<rparr>)\<lparr>e_data := DFocus u\<rparr>)))"

definition new_input :: "objs \<Rightarrow> elems \<Rightarrow> jsnum \<Rightarrow> jsval option \<Rightarrow> jsval \<Rightarrow> event res" where
  "new_input po arr now ty init = rbind (new_ui_base po now ty init) (\<lambda>(e, d, u).
     rbind (in_dict d \<lparr>i_data = None, i_composing = False, i_input_type = [], i_transfer = Null, i_ranges = []\<rparr> (\<lambda>i.
       rbind (obj_get po i (js ''data'')) (\<lambda>dv. rbind (if nullish dv then Inr None else rbind (to_jstring po dv) (\<lambda>s. Inr (Some s))) (\<lambda>s.
       rbind (get_bool po i ''isComposing'') (\<lambda>c. rbind (get_str po i ''inputType'' []) (\<lambda>it.
       rbind (obj_get po i (js ''dataTransfer'')) (\<lambda>tr. rbind (obj_get po i (js ''targetRanges'')) (\<lambda>rs.
       Inr \<lparr>i_data = s, i_composing = c, i_input_type = it, i_transfer = (if tr = Undef then Null else tr), i_ranges = arr rs\<rparr>)))))))) (\<lambda>x.
     Inr (e\<lparr>e_data := DInput u x\<rparr>)))"

definition new_composition :: "objs \<Rightarrow> jsnum \<Rightarrow> jsval option \<Rightarrow> jsval \<Rightarrow> event res" where
  "new_composition po now ty init = rbind (new_ui_base po now ty init) (\<lambda>(e, d, u).
     rbind (in_dict d [] (\<lambda>i. rbind (obj_get po i (js ''data'')) (\<lambda>v. if nullish v then Inr [] else to_jstring po v))) (\<lambda>s.
     Inr (e\<lparr>e_data := DComposition u s\<rparr>)))"

text \<open>Unlike its siblings, \<open>initCompositionEvent\<close> has no test of the dispatch flag of its own.\<close>

definition init_composition_event :: "objs \<Rightarrow> jsval \<Rightarrow> jsval \<Rightarrow> jsval \<Rightarrow> jsval \<Rightarrow> jsval \<Rightarrow> event \<Rightarrow> event \<times> unit res" where
  "init_composition_event po ty bubbles cancelable view data e =
     (case init_ui_event po ty bubbles cancelable view (Num (Fin 0)) e of
        (e1, Inl x) \<Rightarrow> (e1, Inl x)
      | (e1, Inr _) \<Rightarrow> (case to_jstring po data of
          Inl x \<Rightarrow> (e1, Inl x)
        | Inr s \<Rightarrow> (case e_data e1 of
            DComposition u _ \<Rightarrow> (e1\<lparr>e_data := DComposition u s\<rparr>, Inr ())
          | _ \<Rightarrow> (e1, Inl TypeErr))))"

definition new_touch_event :: "objs \<Rightarrow> elems \<Rightarrow> jsnum \<Rightarrow> jsval option \<Rightarrow> jsval \<Rightarrow> event res" where
  "new_touch_event po arr now ty init = rbind (new_ui_base po now ty init) (\<lambda>(e, d, u).
     rbind (in_dict d \<lparr>t_touches = [], t_target_touches = [], t_changed = [], t_mods = []\<rparr> (\<lambda>i.
       rbind (obj_get po i (js ''touches'')) (\<lambda>a. rbind (obj_get po i (js ''targetTouches'')) (\<lambda>b.
       rbind (obj_get po i (js ''changedTouches'')) (\<lambda>c. rbind (read_modifiers po (Some i)) (\<lambda>m.
       Inr \<lparr>t_touches = arr a, t_target_touches = arr b, t_changed = arr c, t_mods = m\<rparr>)))))) (\<lambda>x.
     Inr (e\<lparr>e_data := DTouch u x\<rparr>)))"

text \<open>\<open>Touch\<close> and the \<open>item\<close> method of \<open>TouchList\<close>.\<close>

record touch =
  th_identifier :: int
  th_target :: jsval
  th_coords :: "jsnum list"

fun read_nums :: "objs \<Rightarrow> nat \<Rightarrow> string list \<Rightarrow> jsnum list res" where
  "read_nums po i [] = Inr []"
| "read_nums po i (k # ks) = rbind (get_num po i k) (\<lambda>n. rbind (read_nums po i ks) (\<lambda>ns. Inr (n # ns)))"

definition touch_members :: "string list" where
  "touch_members = [''clientX'', ''clientY'', ''screenX'', ''screenY'', ''pageX'', ''pageY'', ''radiusX'', ''radiusY'', ''rotationAngle'', ''force'']"

definition new_touch :: "objs \<Rightarrow> jsval \<Rightarrow> touch res" where
  "new_touch po init = (case init of
     Obj i \<Rightarrow> rbind (obj_get po i (js ''identifier'')) (\<lambda>iv. if iv = Undef then Inl TypeErr else
       rbind (obj_get po i (js ''target'')) (\<lambda>tv. if tv = Undef then Inl TypeErr else
       rbind (to_number po iv) (\<lambda>n. rbind (read_nums po i touch_members) (\<lambda>cs.
       Inr \<lparr>th_identifier = to_int32 n, th_target = tv, th_coords = cs\<rparr>))))
   | _ \<Rightarrow> Inl TypeErr)"

definition touch_item :: "jsval list \<Rightarrow> jsnum \<Rightarrow> jsval" where
  "touch_item items i = (case nth_opt items (nat (to_uint32 i)) of None \<Rightarrow> Null | Some v \<Rightarrow> if v = Undef then Null else v)"


subsection \<open>Record-like event classes\<close>

text \<open>\<open>simpleEvent\<close>: the members with their defaults; the type of the default says how a value is converted.\<close>

definition simple_events :: "(string \<times> (string \<times> jsval) list) list" where
  "simple_events = (let s = Str []; z = Num (Fin 0); f = Bool False; n = Null in
    [(''ErrorEvent'', [(''message'', s), (''filename'', s), (''lineno'', z), (''colno'', z), (''error'', n)]),
     (''ProgressEvent'', [(''lengthComputable'', f), (''loaded'', z), (''total'', z)]),
     (''PopStateEvent'', [(''state'', n), (''hasUAVisualTransition'', f)]),
     (''HashChangeEvent'', [(''oldURL'', s), (''newURL'', s)]),
     (''PageTransitionEvent'', [(''persisted'', f)]),
     (''AnimationEvent'', [(''animationName'', s), (''elapsedTime'', z), (''pseudoElement'', s)]),
     (''TransitionEvent'', [(''propertyName'', s), (''elapsedTime'', z), (''pseudoElement'', s)]),
     (''AnimationPlaybackEvent'', [(''currentTime'', n), (''timelineTime'', n)]),
     (''SubmitEvent'', [(''submitter'', n)]),
     (''FormDataEvent'', [(''formData'', n)]),
     (''PromiseRejectionEvent'', [(''promise'', n), (''reason'', Undef)]),
     (''MediaQueryListEvent'', [(''media'', s), (''matches'', f)]),
     (''ToggleEvent'', [(''oldState'', s), (''newState'', s)]),
     (''TrackEvent'', [(''track'', n)]),
     (''ClipboardEvent'', [(''clipboardData'', n)]),
     (''SecurityPolicyViolationEvent'',
       [(''documentURI'', s), (''referrer'', s), (''blockedURI'', s), (''violatedDirective'', s), (''effectiveDirective'', s),
        (''originalPolicy'', s), (''sourceFile'', s), (''sample'', s), (''disposition'', Str (js ''enforce'')),
        (''statusCode'', z), (''lineNumber'', z), (''columnNumber'', z)]),
     (''StorageEvent'', [(''key'', n), (''oldValue'', n), (''newValue'', n), (''url'', s), (''storageArea'', n)]),
     (''CloseEvent'', [(''wasClean'', f), (''code'', z), (''reason'', s)])])"

definition convert_like :: "objs \<Rightarrow> jsval \<Rightarrow> jsval \<Rightarrow> jsval res" where
  "convert_like po def v = (if v = Undef then Inr def else case def of
     Num _ \<Rightarrow> rbind (to_number po v) (\<lambda>n. Inr (Num n))
   | Str _ \<Rightarrow> rbind (to_jstring po v) (\<lambda>s. Inr (Str s))
   | Bool _ \<Rightarrow> Inr (Bool (truthy v))
   | _ \<Rightarrow> Inr v)"

fun read_simple :: "objs \<Rightarrow> nat option \<Rightarrow> (string \<times> jsval) list \<Rightarrow> (string \<times> jsval) list res" where
  "read_simple po d [] = Inr []"
| "read_simple po d ((k, def) # ms) =
     rbind (in_dict d Undef (\<lambda>i. obj_get po i (js k))) (\<lambda>v. rbind (convert_like po def v) (\<lambda>w.
     rbind (read_simple po d ms) (\<lambda>rest. Inr ((k, w) # rest))))"

definition new_simple :: "objs \<Rightarrow> jsnum \<Rightarrow> string \<Rightarrow> jsval option \<Rightarrow> jsval \<Rightarrow> event res" where
  "new_simple po now name ty init = (case map_of simple_events name of
     None \<Rightarrow> Inl TypeErr
   | Some ms \<Rightarrow> rbind (new_event po now ty init) (\<lambda>e. rbind (init_dict init) (\<lambda>d. rbind (read_simple po d ms) (\<lambda>s.
       Inr (e\<lparr>e_data := DSimple name s\<rparr>)))))"

definition simple_member :: "event \<Rightarrow> string \<Rightarrow> jsval res" where
  "simple_member e k = (case e_data e of
     DSimple name s \<Rightarrow> (case map_of s k of None \<Rightarrow> Inr Undef | Some v \<Rightarrow> Inr v)
   | _ \<Rightarrow> Inl TypeErr)"

text \<open>\<open>initStorageEvent\<close> writes the members whether or not the event is being dispatched.\<close>

definition init_storage_event :: "objs \<Rightarrow> jsval \<Rightarrow> jsval \<Rightarrow> jsval \<Rightarrow> jsval \<Rightarrow> jsval \<Rightarrow> jsval \<Rightarrow> jsval \<Rightarrow> jsval \<Rightarrow> event \<Rightarrow> event \<times> unit res" where
  "init_storage_event po ty bubbles cancelable key old new url area e =
     (case init_event po ty bubbles cancelable e of
        (e1, Inl x) \<Rightarrow> (e1, Inl x)
      | (e1, Inr _) \<Rightarrow> (case to_jstring po url of
          Inl x \<Rightarrow> (e1, Inl x)
        | Inr u \<Rightarrow> (e1\<lparr>e_data := DSimple ''StorageEvent''
            [(''key'', key), (''oldValue'', old), (''newValue'', new), (''url'', Str u), (''storageArea'', area)]\<rparr>, Inr ())))"

definition new_message :: "objs \<Rightarrow> elems \<Rightarrow> jsnum \<Rightarrow> jsval option \<Rightarrow> jsval \<Rightarrow> event res" where
  "new_message po arr now ty init = rbind (new_event po now ty init) (\<lambda>e. rbind (init_dict init) (\<lambda>d.
     rbind (in_dict d \<lparr>g_data = Null, g_origin = [], g_last_id = [], g_source = Null, g_ports = []\<rparr> (\<lambda>i.
       rbind (obj_get po i (js ''data'')) (\<lambda>dv. rbind (get_str po i ''origin'' []) (\<lambda>og.
       rbind (get_str po i ''lastEventId'' []) (\<lambda>le. rbind (obj_get po i (js ''source'')) (\<lambda>sv.
       rbind (obj_get po i (js ''ports'')) (\<lambda>ps.
       Inr \<lparr>g_data = (if dv = Undef then Null else dv), g_origin = og, g_last_id = le,
            g_source = (if sv = Undef then Null else sv), g_ports = arr ps\<rparr>))))))) (\<lambda>m.
     Inr (e\<lparr>e_data := DMessage m\<rparr>))))"

text \<open>\<open>initMessageEvent\<close>, too, writes its members during a dispatch; \<open>ports\<close> is the list of \<open>Array.from\<close>.\<close>

definition init_message_event :: "objs \<Rightarrow> jsval \<Rightarrow> jsval \<Rightarrow> jsval \<Rightarrow> jsval \<Rightarrow> jsval \<Rightarrow> jsval \<Rightarrow> jsval \<Rightarrow> jsval list \<Rightarrow> event \<Rightarrow> event \<times> unit res" where
  "init_message_event po ty bubbles cancelable data origin last_id source ports e =
     (case init_event po ty bubbles cancelable e of
        (e1, Inl x) \<Rightarrow> (e1, Inl x)
      | (e1, Inr _) \<Rightarrow> (case to_jstring po origin of
          Inl x \<Rightarrow> (e1, Inl x)
        | Inr og \<Rightarrow> (case to_jstring po last_id of
            Inl x \<Rightarrow> (e1, Inl x)
          | Inr le \<Rightarrow> (e1\<lparr>e_data := DMessage \<lparr>g_data = data, g_origin = og, g_last_id = le, g_source = source, g_ports = ports\<rparr>\<rparr>, Inr ()))))"

definition new_before_unload :: "objs \<Rightarrow> jsnum \<Rightarrow> jsval option \<Rightarrow> jsval \<Rightarrow> event res" where
  "new_before_unload po now ty init = rbind (new_event po now ty init) (\<lambda>e. Inr (e\<lparr>e_data := DBeforeUnload []\<rparr>))"

definition set_before_unload :: "objs \<Rightarrow> jsval \<Rightarrow> event \<Rightarrow> event \<times> unit res" where
  "set_before_unload po v e = (case to_jstring po v of
     Inl x \<Rightarrow> (e, Inl x)
   | Inr s \<Rightarrow> (let e1 = e\<lparr>e_data := DBeforeUnload s\<rparr> in (if s \<noteq> [] then prevent_default e1 else e1, Inr ())))"

section \<open>The class of a native event\<close>

datatype evclass = CEvent | CUi | CMouse | CPointer | CWheel | CDrag | CKeyboard | CFocus | CInput | CComposition | CTouch
  | CClipboard | CSubmit | CToggle

definition native_classes :: "(string list \<times> evclass) list" where
  "native_classes =
    [([''click'', ''auxclick'', ''contextmenu'', ''pointerdown'', ''pointerup'', ''pointermove'', ''pointerover'', ''pointerout'',
       ''pointerenter'', ''pointerleave'', ''pointercancel'', ''gotpointercapture'', ''lostpointercapture'', ''pointerrawupdate''], CPointer),
     ([''mousedown'', ''mouseup'', ''mousemove'', ''mouseover'', ''mouseout'', ''mouseenter'', ''mouseleave'', ''dblclick''], CMouse),
     ([''wheel'', ''mousewheel''], CWheel),
     ([''keydown'', ''keyup'', ''keypress''], CKeyboard),
     ([''focus'', ''blur'', ''focusin'', ''focusout''], CFocus),
     ([''beforeinput''], CInput),
     ([''compositionstart'', ''compositionupdate'', ''compositionend''], CComposition),
     ([''touchstart'', ''touchmove'', ''touchend'', ''touchcancel''], CTouch),
     ([''drag'', ''dragstart'', ''dragend'', ''dragenter'', ''dragleave'', ''dragover'', ''drop''], CDrag),
     ([''copy'', ''cut'', ''paste''], CClipboard),
     ([''select'', ''selectstart'', ''selectionchange''], CEvent), ([''resize''], CUi),
     ([''submit''], CSubmit), ([''toggle'', ''beforetoggle''], CToggle)]"

fun class_in :: "(string list \<times> evclass) list \<Rightarrow> jstr \<Rightarrow> evclass" where
  "class_in [] ty = CEvent"
| "class_in ((names, c) # rest) ty = (if list_ex (\<lambda>n. js n = ty) names then c else class_in rest ty)"

text \<open>\<open>nativeEventClass\<close>; an \<open>input\<close> event is an \<open>InputEvent\<close> when the dictionary has an input type.\<close>

definition native_event_class :: "jstr \<Rightarrow> bool \<Rightarrow> evclass" where
  "native_event_class ty has_input_type =
     (if ty = js ''input'' then (if has_input_type then CInput else CEvent) else class_in native_classes ty)"

end
