(* ===== verification/EvtTargets.thy ===== *)
theory EvtTargets
  imports EvtEvents
begin

text \<open>
  Event targets and dispatch (\<open>10_events.js\<close>, lines 602--1106): listener lists, event handler
  attributes, the path of an event and the three phases of its dispatch.  Page callbacks are a
  parameter that may change the whole state.
\<close>

section \<open>State\<close>

text \<open>What a listener calls: a function, an object with \<open>handleEvent\<close>, or an event handler record.\<close>

datatype callback = CbFun nat | CbObj nat | CbHandler nat

record listener =
  l_type :: jstr
  l_callback :: callback
  l_capture :: bool
  l_once :: bool
  l_passive :: bool
  l_removed :: bool
  l_handler :: "nat option"

text \<open>The value of a handler: nothing, the source text of a content attribute, or a page object.\<close>

datatype hval = HNone | HCode jstr | HObj nat

record handler_rec =
  h_value :: hval
  h_listener :: "nat option"
  h_scope :: "nat option"
  h_type :: jstr
  h_target :: nat

text \<open>Algorithms of an abort signal: remove a listener, abort a dependent signal, anything else.\<close>

datatype algo = ARemove nat nat | ADepend nat nat | AOther nat

text \<open>The reason of an abort: a page value, or a \<open>DOMException\<close> made by the layer (its name).\<close>

datatype reason = RVal jsval | RDom string

record signal =
  s_aborted :: bool
  s_reason :: reason
  s_algos :: "algo list"

text \<open>
  Targets, events and signals are objects, known by their ids.  Listeners and handler records are
  kept in the order of their creation.  \<open>w_page\<close> is the state of the page's own scripts.
\<close>

record 'p world =
  w_events :: "nat \<Rightarrow> event option"
  w_listeners :: "listener list"
  w_lists :: "nat \<Rightarrow> jstr \<Rightarrow> nat list"
  w_handlers :: "handler_rec list"
  w_hs :: "nat \<Rightarrow> jstr \<Rightarrow> nat option"
  w_signals :: "nat \<Rightarrow> signal option"
  w_current :: "nat option"
  w_reports :: "exn list"
  w_last_activation :: jsnum
  w_page :: 'p

text \<open>
  What dispatch asks of the rest of the layer: the page's functions (function, \<open>this\<close>, arguments),
  the node tree, the compiler of inline handlers, the identity of a new object, and the click activation behaviour.
\<close>

record 'p env =
  v_page :: "nat \<Rightarrow> nat \<Rightarrow> jsval list \<Rightarrow> 'p world \<Rightarrow> 'p world \<times> jsval res"
  v_objs :: objs
  v_window :: nat
  v_document :: nat
  v_is_node :: "nat \<Rightarrow> bool"
  v_name :: "nat \<Rightarrow> jstr"
  v_ns :: "nat \<Rightarrow> int"
  v_connected :: "nat \<Rightarrow> bool"
  v_attr :: "nat \<Rightarrow> jstr \<Rightarrow> jstr option"
  v_body :: "nat option"
  v_host :: "nat \<Rightarrow> nat option"
  v_parent :: "nat \<Rightarrow> nat option"
  v_depth :: nat
  v_compile :: "jstr \<Rightarrow> nat option \<Rightarrow> nat res"
  v_now :: jsnum
  v_fresh :: "'p world \<Rightarrow> nat"
  v_begin :: "(nat list \<Rightarrow> nat \<Rightarrow> 'p world \<Rightarrow> 'p world \<times> nat option res) option"
  v_end :: "nat \<Rightarrow> nat \<Rightarrow> bool \<Rightarrow> 'p world \<Rightarrow> 'p world \<times> bool res"

definition upd_event :: "nat \<Rightarrow> (event \<Rightarrow> event) \<Rightarrow> 'p world \<Rightarrow> 'p world" where
  "upd_event ev f w = w\<lparr>w_events := (w_events w)(ev := map_option f (w_events w ev))\<rparr>"

definition ev_has :: "'p world \<Rightarrow> nat \<Rightarrow> 32 word \<Rightarrow> bool" where
  "ev_has w ev f = (case w_events w ev of None \<Rightarrow> False | Some e \<Rightarrow> has_flag e f)"

definition report :: "exn \<Rightarrow> 'p world \<Rightarrow> 'p world" where
  "report x w = w\<lparr>w_reports := w_reports w @ [x]\<rparr>"

definition set_list :: "nat \<Rightarrow> jstr \<Rightarrow> nat list \<Rightarrow> 'p world \<Rightarrow> 'p world" where
  "set_list t ty l w = w\<lparr>w_lists := (w_lists w)(t := (w_lists w t)(ty := l))\<rparr>"

section \<open>Listener lists\<close>

definition push_listener :: "listener \<Rightarrow> 'p world \<Rightarrow> 'p world \<times> nat" where
  "push_listener l w = (w\<lparr>w_listeners := w_listeners w @ [l]\<rparr>, length (w_listeners w))"

definition new_listener :: "jstr \<Rightarrow> callback \<Rightarrow> bool \<Rightarrow> bool \<Rightarrow> bool \<Rightarrow> listener" where
  "new_listener ty cb capture once passive = \<lparr>l_type = ty, l_callback = cb, l_capture = capture, l_once = once,
     l_passive = passive, l_removed = False, l_handler = None\<rparr>"

definition lst :: "'p world \<Rightarrow> nat \<Rightarrow> listener" where
  "lst w i = w_listeners w ! i"

definition add_listener :: "nat \<Rightarrow> nat \<Rightarrow> 'p world \<Rightarrow> 'p world" where
  "add_listener t i w = set_list t (l_type (lst w i)) (w_lists w t (l_type (lst w i)) @ [i]) w"

definition prepend_listener :: "nat \<Rightarrow> nat \<Rightarrow> 'p world \<Rightarrow> 'p world" where
  "prepend_listener t i w = set_list t (l_type (lst w i)) (i # w_lists w t (l_type (lst w i))) w"

definition mark_removed :: "nat \<Rightarrow> 'p world \<Rightarrow> 'p world" where
  "mark_removed i w = w\<lparr>w_listeners := (w_listeners w)[i := (lst w i)\<lparr>l_removed := True\<rparr>]\<rparr>"

text \<open>\<open>indexOf\<close> and \<open>splice\<close> take out the first occurrence.\<close>

definition remove_listener :: "nat \<Rightarrow> nat \<Rightarrow> 'p world \<Rightarrow> 'p world" where
  "remove_listener t i w = (let w1 = mark_removed i w; ty = l_type (lst w i) in
     set_list t ty (remove1 i (w_lists w1 t ty)) w1)"

definition has_listeners :: "'p world \<Rightarrow> nat \<Rightarrow> jstr \<Rightarrow> bool" where
  "has_listeners w t ty = (w_lists w t ty \<noteq> [])"

definition flatten_capture :: "objs \<Rightarrow> jsval \<Rightarrow> bool res" where
  "flatten_capture po v = (case v of
     Obj i \<Rightarrow> if obj_callable po i then Inr True else rbind (obj_get po i (js ''capture'')) (\<lambda>c. Inr (truthy c))
   | _ \<Rightarrow> Inr (truthy v))"

definition resolve_target :: "'p env \<Rightarrow> nat option \<Rightarrow> nat" where
  "resolve_target env t = (case t of None \<Rightarrow> v_window env | Some x \<Rightarrow> x)"

definition default_passive :: "'p env \<Rightarrow> nat \<Rightarrow> jstr \<Rightarrow> bool" where
  "default_passive env t ty =
     (if ty \<notin> {js ''touchstart'', js ''touchmove'', js ''wheel'', js ''mousewheel''} then False
      else if t = v_window env \<or> t = v_document env then True
      else v_is_node env t \<and> (v_name env t = js ''html'' \<or> v_name env t = js ''body'') \<and> v_ns env t = 0 \<and> v_connected env t)"

text \<open>The match of \<open>addEventListener\<close> and \<open>removeEventListener\<close>: callback and capture, handlers apart.\<close>

definition matches :: "callback \<Rightarrow> bool \<Rightarrow> 'p world \<Rightarrow> nat \<Rightarrow> bool" where
  "matches cb capture w i = (l_handler (lst w i) = None \<and> l_callback (lst w i) = cb \<and> l_capture (lst w i) = capture)"

text \<open>Options of \<open>addEventListener\<close>: capture, once, passive if given, and the signal.\<close>

definition read_options :: "objs \<Rightarrow> 'p world \<Rightarrow> jsval \<Rightarrow> (bool \<times> bool \<times> bool option \<times> nat option) res" where
  "read_options po w v = (case v of
     Obj i \<Rightarrow>
       if obj_callable po i then Inr (True, False, None, None)
       else rbind (obj_get po i (js ''capture'')) (\<lambda>c. rbind (obj_get po i (js ''once'')) (\<lambda>o1.
         rbind (obj_get po i (js ''passive'')) (\<lambda>p. rbind (obj_get po i (js ''signal'')) (\<lambda>s.
         rbind (case s of Undef \<Rightarrow> Inr None
                | Obj k \<Rightarrow> if w_signals w k = None then Inl TypeErr else Inr (Some k)
                | _ \<Rightarrow> Inl TypeErr) (\<lambda>sig.
         Inr (truthy c, truthy o1, if p = Undef then None else Some (truthy p), sig))))))
   | _ \<Rightarrow> Inr (truthy v, False, None, None))"

definition signal_aborted :: "'p world \<Rightarrow> nat \<Rightarrow> bool" where
  "signal_aborted w s = (case w_signals w s of None \<Rightarrow> False | Some g \<Rightarrow> s_aborted g)"

definition add_algorithm :: "nat \<Rightarrow> algo \<Rightarrow> 'p world \<Rightarrow> 'p world" where
  "add_algorithm s a w = (case w_signals w s of
     None \<Rightarrow> w
   | Some g \<Rightarrow> if s_aborted g then w
               else w\<lparr>w_signals := (w_signals w)(s := Some (g\<lparr>s_algos := s_algos g @ [a]\<rparr>))\<rparr>)"

definition callback_of :: "objs \<Rightarrow> nat \<Rightarrow> callback" where
  "callback_of po i = (if obj_callable po i then CbFun i else CbObj i)"

definition add_event_listener :: "'p env \<Rightarrow> nat option \<Rightarrow> jsval \<Rightarrow> jsval \<Rightarrow> jsval \<Rightarrow> 'p world \<Rightarrow> 'p world \<times> unit res" where
  "add_event_listener env this ty callback options w = (case callback of
     Undef \<Rightarrow> (w, Inr ())
   | Null \<Rightarrow> (w, Inr ())
   | Obj i \<Rightarrow>
       (case to_jstring (v_objs env) ty of
          Inl x \<Rightarrow> (w, Inl x)
        | Inr tys \<Rightarrow> (case read_options (v_objs env) w options of
            Inl x \<Rightarrow> (w, Inl x)
          | Inr (capture, once, passive, sig) \<Rightarrow>
              if (case sig of None \<Rightarrow> False | Some s \<Rightarrow> signal_aborted w s) then (w, Inr ())
              else let t = resolve_target env this; cb = callback_of (v_objs env) i;
                       p = (case passive of None \<Rightarrow> default_passive env t tys | Some b \<Rightarrow> b) in
                if list_ex (matches cb capture w) (w_lists w t tys) then (w, Inr ())
                else case push_listener (new_listener tys cb capture once p) w of (w1, k) \<Rightarrow>
                  let w2 = add_listener t k w1 in
                  (case sig of None \<Rightarrow> w2 | Some s \<Rightarrow> add_algorithm s (ARemove t k) w2, Inr ())))
   | _ \<Rightarrow> (w, Inl TypeErr))"

fun first_match :: "('a \<Rightarrow> bool) \<Rightarrow> 'a list \<Rightarrow> 'a option" where
  "first_match P [] = None"
| "first_match P (x # xs) = (if P x then Some x else first_match P xs)"

text \<open>A callback that is not an object matches no listener.\<close>

definition remove_event_listener :: "'p env \<Rightarrow> nat option \<Rightarrow> jsval \<Rightarrow> jsval \<Rightarrow> jsval \<Rightarrow> 'p world \<Rightarrow> 'p world \<times> unit res" where
  "remove_event_listener env this ty callback options w =
     (if nullish callback then (w, Inr ())
      else case to_jstring (v_objs env) ty of
        Inl x \<Rightarrow> (w, Inl x)
      | Inr tys \<Rightarrow> (case flatten_capture (v_objs env) options of
          Inl x \<Rightarrow> (w, Inl x)
        | Inr capture \<Rightarrow> (case callback of
            Obj i \<Rightarrow> (let t = resolve_target env this in
              case first_match (matches (callback_of (v_objs env) i) capture w) (w_lists w t tys) of
                None \<Rightarrow> (w, Inr ())
              | Some k \<Rightarrow> (let w1 = mark_removed k w in set_list t tys (remove1 k (w_lists w1 t tys)) w1, Inr ()))
          | _ \<Rightarrow> (w, Inr ()))))"


section \<open>Event handler attributes\<close>

definition global_handlers :: "string list" where
  "global_handlers = [
     ''onabort'', ''onanimationend'', ''onanimationiteration'', ''onanimationstart'', ''onauxclick'',
     ''onbeforeinput'', ''onbeforematch'', ''onbeforetoggle'', ''onblur'', ''oncancel'', ''oncanplay'',
     ''oncanplaythrough'', ''onchange'', ''onclick'', ''onclose'', ''oncontentvisibilityautostatechange'',
     ''oncontextlost'', ''oncontextmenu'', ''oncontextrestored'', ''oncopy'', ''oncuechange'', ''oncut'',
     ''ondblclick'', ''ondrag'', ''ondragend'', ''ondragenter'', ''ondragleave'', ''ondragover'',
     ''ondragstart'', ''ondrop'', ''ondurationchange'', ''onemptied'', ''onended'', ''onerror'', ''onfocus'',
     ''onfocusin'', ''onfocusout'', ''onformdata'', ''ongotpointercapture'', ''oninput'', ''oninvalid'',
     ''onkeydown'', ''onkeypress'', ''onkeyup'', ''onload'', ''onloadeddata'', ''onloadedmetadata'',
     ''onloadstart'', ''onlostpointercapture'', ''onmousedown'', ''onmouseenter'', ''onmouseleave'',
     ''onmousemove'', ''onmouseout'', ''onmouseover'', ''onmouseup'', ''onmousewheel'', ''onpaste'',
     ''onpause'', ''onplay'', ''onplaying'', ''onpointercancel'', ''onpointerdown'', ''onpointerenter'',
     ''onpointerleave'', ''onpointermove'', ''onpointerout'', ''onpointerover'', ''onpointerrawupdate'',
     ''onpointerup'', ''onprogress'', ''onratechange'', ''onreset'', ''onresize'', ''onscroll'',
     ''onscrollend'', ''onsecuritypolicyviolation'', ''onseeked'', ''onseeking'', ''onselect'',
     ''onselectionchange'', ''onselectstart'', ''onslotchange'', ''onstalled'', ''onsubmit'', ''onsuspend'',
     ''ontimeupdate'', ''ontoggle'', ''ontransitioncancel'', ''ontransitionend'', ''ontransitionrun'',
     ''ontransitionstart'', ''onvolumechange'', ''onwaiting'', ''onwebkitanimationend'',
     ''onwebkitanimationiteration'', ''onwebkitanimationstart'', ''onwebkittransitionend'', ''onwheel'']"

definition window_handlers :: "string list" where
  "window_handlers = [
     ''onafterprint'', ''onbeforeprint'', ''onbeforeunload'', ''onhashchange'', ''onlanguagechange'',
     ''onmessage'', ''onmessageerror'', ''onoffline'', ''ononline'', ''onpagehide'', ''onpageshow'',
     ''onpopstate'', ''onrejectionhandled'', ''onstorage'', ''onunhandledrejection'', ''onunload'',
     ''onpagereveal'', ''onpageswap'']"

definition body_forwarded :: "string list" where
  "body_forwarded = [''onblur'', ''onerror'', ''onfocus'', ''onload'', ''onresize'', ''onscroll''] @ window_handlers"

definition document_handlers :: "string list" where
  "document_handlers = [
     ''onreadystatechange'', ''onvisibilitychange'', ''onfullscreenchange'', ''onfullscreenerror'',
     ''onpointerlockchange'', ''onpointerlockerror'', ''onfreeze'', ''onresume'', ''onprerenderingchange'',
     ''onwebkitfullscreenchange'', ''onwebkitfullscreenerror'', ''onbeforecopy'', ''onbeforecut'',
     ''onbeforepaste'', ''onsearch'']"

text \<open>\<open>handlerType\<close>: the event type of a handler name.\<close>

definition special_types :: "(string \<times> string) list" where
  "special_types = [(''onwebkitanimationend'', ''webkitAnimationEnd''), (''onwebkitanimationiteration'', ''webkitAnimationIteration''),
     (''onwebkitanimationstart'', ''webkitAnimationStart''), (''onwebkittransitionend'', ''webkitTransitionEnd'')]"

definition handler_type :: "string \<Rightarrow> string" where
  "handler_type name = (case map_of special_types name of Some t \<Rightarrow> t | None \<Rightarrow> drop 2 name)"

text \<open>The content attribute of an event type: the last name of that type in the three lists.\<close>

definition type_attr :: "jstr \<Rightarrow> string option" where
  "type_attr ty = map_of (map (\<lambda>n. (js (handler_type n), n)) (rev (global_handlers @ window_handlers @ document_handlers))) ty"

definition is_handler_attr :: "string \<Rightarrow> bool" where
  "is_handler_attr n = (n \<in> set (global_handlers @ window_handlers))"

definition type_of_any :: "string list \<Rightarrow> jstr \<Rightarrow> bool" where
  "type_of_any names ty = list_ex (\<lambda>n. js (handler_type n) = ty) names"

definition is_body_like :: "'p env \<Rightarrow> nat \<Rightarrow> bool" where
  "is_body_like env t = ((v_name env t = js ''body'' \<or> v_name env t = js ''frameset'') \<and> v_ns env t = 0)"

definition hrec :: "'p world \<Rightarrow> nat \<Rightarrow> handler_rec" where
  "hrec w r = w_handlers w ! r"

definition set_hrec :: "nat \<Rightarrow> handler_rec \<Rightarrow> 'p world \<Rightarrow> 'p world" where
  "set_hrec r h w = w\<lparr>w_handlers := (w_handlers w)[r := h]\<rparr>"

text \<open>\<open>handlerRec(target, type, true)\<close>\<close>

definition ensure_hrec :: "nat \<Rightarrow> jstr \<Rightarrow> 'p world \<Rightarrow> 'p world \<times> nat" where
  "ensure_hrec t ty w = (case w_hs w t ty of
     Some r \<Rightarrow> (w, r)
   | None \<Rightarrow> (w\<lparr>w_handlers := w_handlers w @ [\<lparr>h_value = HNone, h_listener = None, h_scope = None, h_type = ty, h_target = t\<rparr>],
               w_hs := (w_hs w)(t := (w_hs w t)(ty \<mapsto> length (w_handlers w)))\<rparr>, length (w_handlers w)))"

definition activate :: "nat \<Rightarrow> bool \<Rightarrow> 'p world \<Rightarrow> 'p world" where
  "activate r prepend w = (let h = hrec w r in
     if h_listener h \<noteq> None then w
     else case push_listener ((new_listener (h_type h) (CbHandler r) False False False)\<lparr>l_handler := Some r\<rparr>) w of (w1, k) \<Rightarrow>
       let w2 = set_hrec r (h\<lparr>h_listener := Some k\<rparr>) w1 in
       if prepend then prepend_listener (h_target h) k w2 else add_listener (h_target h) k w2)"

definition deactivate :: "nat \<Rightarrow> 'p world \<Rightarrow> 'p world" where
  "deactivate r w = (let h = hrec w r;
       w1 = (case h_listener h of None \<Rightarrow> w | Some k \<Rightarrow> remove_listener (h_target h) k w) in
     set_hrec r (h\<lparr>h_listener := None, h_value := HNone\<rparr>) w1)"

text \<open>The source handed to the compiler: the code in a function, in the scopes of document, form and element.\<close>

definition handler_source :: "'p env \<Rightarrow> handler_rec \<Rightarrow> jstr \<Rightarrow> jstr" where
  "handler_source env h code =
     (let name = (case type_attr (h_type h) of Some n \<Rightarrow> js n | None \<Rightarrow> js ''on'' @ h_type h);
          params = (if h_type h = js ''error'' \<and> h_target h = v_window env then js ''event, source, lineno, colno, error'' else js ''event'') in
      js ''with(__d)with(__f)with(__e){return function '' @ name @ js ''('' @ params @ js ''){'' @ [10] @ code @ [10] @ js ''}}'')"

definition handler_value :: "'p env \<Rightarrow> nat \<Rightarrow> 'p world \<Rightarrow> 'p world \<times> nat option" where
  "handler_value env r w = (let h = hrec w r in case h_value h of
     HNone \<Rightarrow> (w, None)
   | HObj f \<Rightarrow> (w, Some f)
   | HCode code \<Rightarrow> (case v_compile env (handler_source env h code) (h_scope h) of
       Inl x \<Rightarrow> (set_hrec r (h\<lparr>h_value := HNone\<rparr>) (report x w), None)
     | Inr f \<Rightarrow> (set_hrec r (h\<lparr>h_value := HObj f\<rparr>) w, Some f)))"

text \<open>The arguments of an \<open>onerror\<close> handler of the window.\<close>

definition error_args :: "event \<Rightarrow> jsval list option" where
  "error_args e = (case e_data e of
     DSimple name s \<Rightarrow> if name = ''ErrorEvent''
       then Some (map (\<lambda>k. case map_of s k of Some v \<Rightarrow> v | None \<Rightarrow> Undef) [''message'', ''filename'', ''lineno'', ''colno'', ''error''])
       else None
   | _ \<Rightarrow> None)"

text \<open>What the value that a handler returned does to its event.\<close>

definition after_handler :: "'p env \<Rightarrow> jstr \<Rightarrow> nat \<Rightarrow> jsval \<Rightarrow> 'p world \<Rightarrow> 'p world \<times> unit res" where
  "after_handler env ty ev ret w =
     (if ty = js ''beforeunload'' then
        (if nullish ret then (w, Inr ())
         else let w1 = upd_event ev prevent_default w in
           case w_events w1 ev of
             Some e \<Rightarrow> (if e_data e = DBeforeUnload [] then
                 (case to_jstring (v_objs env) ret of
                    Inl x \<Rightarrow> (w1, Inl x)
                  | Inr s \<Rightarrow> (upd_event ev (\<lambda>e. fst (set_before_unload (v_objs env) (Str s) e)) w1, Inr ()))
               else (w1, Inr ()))
           | None \<Rightarrow> (w1, Inr ()))
      else if ret = Bool False then (upd_event ev prevent_default w, Inr ())
      else (w, Inr ()))"

definition run_handler :: "'p env \<Rightarrow> nat \<Rightarrow> nat \<Rightarrow> nat \<Rightarrow> 'p world \<Rightarrow> 'p world \<times> unit res" where
  "run_handler env r this ev w = (case handler_value env r w of
     (w1, None) \<Rightarrow> (w1, Inr ())
   | (w1, Some f) \<Rightarrow>
       if \<not> obj_callable (v_objs env) f then (w1, Inr ())
       else let h = hrec w1 r; args = (case w_events w1 ev of Some e \<Rightarrow> error_args e | None \<Rightarrow> None) in
         case (if h_type h = js ''error'' \<and> h_target h = v_window env then args else None) of
           Some as \<Rightarrow> (case v_page env f this as w1 of
             (w2, Inl x) \<Rightarrow> (w2, Inl x)
           | (w2, Inr ret) \<Rightarrow> (if ret = Bool True then upd_event ev prevent_default w2 else w2, Inr ()))
         | None \<Rightarrow> (case v_page env f this [Obj ev] w1 of
             (w2, Inl x) \<Rightarrow> (w2, Inl x)
           | (w2, Inr ret) \<Rightarrow> after_handler env (h_type h) ev ret w2))"

text \<open>\<open>discoverInline\<close>: the element whose content attribute the handler of a target comes from.\<close>

definition inline_element :: "'p env \<Rightarrow> nat \<Rightarrow> jstr \<Rightarrow> nat option" where
  "inline_element env t ty =
     (if t = v_window env then (if type_of_any body_forwarded ty then v_body env else None)
      else if v_is_node env t \<and> v_name env t \<noteq> [] then
        (if \<not> type_of_any global_handlers ty then None
         else if type_of_any body_forwarded ty \<and> is_body_like env t then None
         else Some t)
      else None)"

definition discover_inline :: "'p env \<Rightarrow> nat \<Rightarrow> jstr \<Rightarrow> 'p world \<Rightarrow> 'p world" where
  "discover_inline env t ty w =
     (if w_hs w t ty \<noteq> None then w
      else case type_attr ty of
        None \<Rightarrow> w
      | Some attr \<Rightarrow> (case inline_element env t ty of
          None \<Rightarrow> w
        | Some el \<Rightarrow> (case v_attr env el (js attr) of
            None \<Rightarrow> w
          | Some code \<Rightarrow> (case ensure_hrec t ty w of (w1, r) \<Rightarrow>
              activate r True (set_hrec r ((hrec w1 r)\<lparr>h_value := HCode code, h_scope := Some el\<rparr>) w1)))))"

text \<open>The IDL attribute (\<open>getHandlerIDL\<close>, \<open>setHandlerIDL\<close>) and the content attribute (\<open>handlerAttrChanged\<close>).\<close>

definition get_handler :: "'p env \<Rightarrow> nat \<Rightarrow> jstr \<Rightarrow> 'p world \<Rightarrow> 'p world \<times> nat option" where
  "get_handler env t ty w = (let w1 = discover_inline env t ty w in
     case w_hs w1 t ty of None \<Rightarrow> (w1, None) | Some r \<Rightarrow> handler_value env r w1)"

definition set_handler :: "'p env \<Rightarrow> nat \<Rightarrow> jstr \<Rightarrow> jsval \<Rightarrow> 'p world \<Rightarrow> 'p world" where
  "set_handler env t ty v w = (case ensure_hrec t ty (discover_inline env t ty w) of (w1, r) \<Rightarrow>
     (case v of
        Obj f \<Rightarrow> activate r False (set_hrec r ((hrec w1 r)\<lparr>h_value := HObj f\<rparr>) w1)
      | _ \<Rightarrow> deactivate r w1))"

definition handler_attr_changed :: "'p env \<Rightarrow> nat \<Rightarrow> string \<Rightarrow> jstr option \<Rightarrow> 'p world \<Rightarrow> 'p world" where
  "handler_attr_changed env el name value w =
     (if \<not> is_handler_attr name then w
      else let ty = js (handler_type name); fwd = (is_body_like env el \<and> type_of_any body_forwarded ty) in
        if fwd \<and> v_body env \<noteq> Some el then w
        else if \<not> fwd \<and> \<not> type_of_any global_handlers ty then w
        else case ensure_hrec (if fwd then v_window env else el) ty w of (w1, r) \<Rightarrow>
          (case value of
             None \<Rightarrow> deactivate r w1
           | Some code \<Rightarrow> activate r False (set_hrec r ((hrec w1 r)\<lparr>h_value := HCode code, h_scope := Some el\<rparr>) w1)))"


section \<open>Dispatch\<close>

text \<open>
  \<open>eventParent\<close> and the loop of \<open>buildPath\<close>; the chain of parents of a node ends at a root, and
  \<open>v_depth\<close> bounds its length.
\<close>

definition event_parent :: "'p env \<Rightarrow> jstr \<Rightarrow> nat \<Rightarrow> nat option" where
  "event_parent env ty t =
     (if \<not> v_is_node env t then None
      else if t = v_document env then (if ty = js ''load'' then None else Some (v_window env))
      else case v_host env t of Some h \<Rightarrow> Some h | None \<Rightarrow> v_parent env t)"

fun parents_from :: "'p env \<Rightarrow> jstr \<Rightarrow> nat \<Rightarrow> nat \<Rightarrow> nat list" where
  "parents_from env ty 0 t = []"
| "parents_from env ty (Suc n) t = (case event_parent env ty t of None \<Rightarrow> [] | Some p \<Rightarrow> p # parents_from env ty n p)"

definition build_path :: "'p env \<Rightarrow> jstr \<Rightarrow> nat \<Rightarrow> nat list" where
  "build_path env ty t = t # parents_from env ty (v_depth env) t"

text \<open>The call of one listener: a function, an object's \<open>handleEvent\<close>, or the handler's own function.\<close>

definition call_listener :: "'p env \<Rightarrow> nat \<Rightarrow> nat \<Rightarrow> callback \<Rightarrow> 'p world \<Rightarrow> 'p world \<times> unit res" where
  "call_listener env ct ev cb w = (case cb of
     CbFun f \<Rightarrow> (case v_page env f ct [Obj ev] w of (w1, Inl x) \<Rightarrow> (w1, Inl x) | (w1, Inr v) \<Rightarrow> (w1, Inr ()))
   | CbObj o1 \<Rightarrow> (case obj_get (v_objs env) o1 (js ''handleEvent'') of
       Inl x \<Rightarrow> (w, Inl x)
     | Inr (Obj f) \<Rightarrow>
         if obj_callable (v_objs env) f
         then (case v_page env f o1 [Obj ev] w of (w1, Inl x) \<Rightarrow> (w1, Inl x) | (w1, Inr v) \<Rightarrow> (w1, Inr ()))
         else (w, Inl TypeErr)
     | Inr v \<Rightarrow> (w, Inl TypeErr))
   | CbHandler r \<Rightarrow> run_handler env r ct ev w)"

text \<open>Whether a listener is run in a pass: 1 for the capturing ones, 2 for the others.\<close>

definition in_pass :: "nat \<Rightarrow> listener \<Rightarrow> bool" where
  "in_pass pass l = (if pass = 1 then l_capture l else \<not> l_capture l)"

definition run_listener :: "'p env \<Rightarrow> nat \<Rightarrow> nat \<Rightarrow> nat \<Rightarrow> 'p world \<Rightarrow> 'p world" where
  "run_listener env ct ev i w =
     (let l = lst w i;
          w1 = (if l_once l then remove_listener ct i w else w);
          w2 = (if l_passive l then upd_event ev (set_flag F_PASSIVE) w1 else w1) in
      case call_listener env ct ev (l_callback l) (w2\<lparr>w_current := Some ev\<rparr>) of (w3, r) \<Rightarrow>
        let w4 = (case r of Inl x \<Rightarrow> report x (upd_event ev (set_flag F_THREW) w3) | Inr _ \<Rightarrow> w3);
            w5 = w4\<lparr>w_current := w_current w2\<rparr> in
        if l_passive l then upd_event ev (clear_flag F_PASSIVE) w5 else w5)"

fun invoke_loop :: "'p env \<Rightarrow> nat \<Rightarrow> nat \<Rightarrow> nat \<Rightarrow> nat list \<Rightarrow> 'p world \<Rightarrow> 'p world" where
  "invoke_loop env ct ev pass [] w = w"
| "invoke_loop env ct ev pass (i # ixs) w =
     (if l_removed (lst w i) \<or> \<not> in_pass pass (lst w i) then invoke_loop env ct ev pass ixs w
      else let w1 = run_listener env ct ev i w in
        if ev_has w1 ev F_STOP_IMM then w1 else invoke_loop env ct ev pass ixs w1)"

definition invoke :: "'p env \<Rightarrow> nat \<Rightarrow> nat \<Rightarrow> nat \<Rightarrow> nat \<Rightarrow> jstr \<Rightarrow> 'p world \<Rightarrow> 'p world" where
  "invoke env ct ev phase pass ty w =
     (if w_lists w ct ty = [] then w
      else invoke_loop env ct ev pass (w_lists w ct ty)
             (upd_event ev (\<lambda>e. e\<lparr>e_phase := phase, e_current := Some ct\<rparr>) w))"

text \<open>The targets of a phase, one after the other until propagation is stopped.\<close>

fun invoke_each :: "'p env \<Rightarrow> nat \<Rightarrow> nat \<Rightarrow> nat \<Rightarrow> jstr \<Rightarrow> nat list \<Rightarrow> 'p world \<Rightarrow> 'p world" where
  "invoke_each env ev phase pass ty [] w = w"
| "invoke_each env ev phase pass ty (t # ts) w =
     (if ev_has w ev F_STOP then w
      else invoke_each env ev phase pass ty ts (invoke env t ev phase pass ty w))"

definition activation_types :: "jstr list" where
  "activation_types = map js [''click'', ''mousedown'', ''pointerdown'', ''keydown'', ''touchend'']"

text \<open>\<open>L.activation.begin\<close> for a click that is a mouse event; an error is reported and there is no activation.\<close>

definition begin_activation :: "'p env \<Rightarrow> nat list \<Rightarrow> nat \<Rightarrow> jstr \<Rightarrow> 'p world \<Rightarrow> 'p world \<times> nat option" where
  "begin_activation env path ev ty w =
     (case (if ty = js ''click'' \<and> (case w_events w ev of None \<Rightarrow> False | Some e \<Rightarrow> mouse_of (e_data e) \<noteq> None)
            then v_begin env else None) of
        None \<Rightarrow> (w, None)
      | Some f \<Rightarrow> (case f path ev w of (w1, Inl x) \<Rightarrow> (report x w1, None) | (w1, Inr a) \<Rightarrow> (w1, a)))"

text \<open>The three phases.\<close>

definition run_phases :: "'p env \<Rightarrow> nat \<Rightarrow> jstr \<Rightarrow> nat list \<Rightarrow> 'p world \<Rightarrow> 'p world" where
  "run_phases env ev ty path w =
     (let w1 = invoke_each env ev 1 1 ty (rev (tl path)) w;
          w2 = invoke_each env ev 2 1 ty [hd path] w1;
          w3 = invoke_each env ev 2 2 ty [hd path] w2;
          bubbles = (case w_events w3 ev of None \<Rightarrow> False | Some e \<Rightarrow> e_bubbles e) in
      if bubbles then invoke_each env ev 3 2 ty (tl path) w3 else w3)"

text \<open>The result bits: 1 canceled, 2 propagation stopped, 8 a listener threw; 4 is set by the activation.\<close>

definition result_bits :: "event \<Rightarrow> 32 word" where
  "result_bits e = (if has_flag e F_CANCELED then 1 else 0) OR (if has_flag e F_STOP then 2 else 0)
     OR (if has_flag e F_THREW then 8 else 0)"

definition reset_event :: "event \<Rightarrow> event" where
  "reset_event e = clear_flag (F_DISPATCH OR F_STOP OR F_STOP_IMM OR F_THREW) (e\<lparr>e_phase := 0, e_current := None, e_path := Some []\<rparr>)"

definition end_activation :: "'p env \<Rightarrow> nat option \<Rightarrow> nat \<Rightarrow> 32 word \<Rightarrow> 'p world \<Rightarrow> 'p world \<times> 32 word" where
  "end_activation env act ev res w = (case act of
     None \<Rightarrow> (w, res)
   | Some a \<Rightarrow> (case v_end env a ev (res AND 1 \<noteq> 0) w of
       (w1, Inl x) \<Rightarrow> (report x w1, res)
     | (w1, Inr done1) \<Rightarrow> (w1, if done1 then res OR 4 else res)))"

definition discover_path :: "'p env \<Rightarrow> jstr \<Rightarrow> nat list \<Rightarrow> 'p world \<Rightarrow> 'p world" where
  "discover_path env ty path w = (if type_attr ty = None then w else fold (\<lambda>t. discover_inline env t ty) path w)"

text \<open>\<open>dispatchCore\<close>; \<open>over\<close> is the path override, \<open>tover\<close> the target override.\<close>

definition dispatch_core :: "'p env \<Rightarrow> nat \<Rightarrow> nat \<Rightarrow> nat list option \<Rightarrow> nat option \<Rightarrow> 'p world \<Rightarrow> 'p world \<times> 32 word" where
  "dispatch_core env target ev over tover w = (case w_events w ev of
     None \<Rightarrow> (w, 0)
   | Some e0 \<Rightarrow>
       let ty = e_type e0;
           path = (case over of Some p \<Rightarrow> p | None \<Rightarrow> build_path env ty target);
           et = (case tover of None \<Rightarrow> target | Some t \<Rightarrow> t);
           w1 = upd_event ev (\<lambda>e. (set_flag F_DISPATCH e)\<lparr>e_target := Some et, e_path := Some path\<rparr>) w;
           w2 = discover_path env ty path w1;
           w3 = (if e_trusted e0 \<and> ty \<in> set activation_types then w2\<lparr>w_last_activation := v_now env\<rparr> else w2) in
       case begin_activation env path ev ty w3 of (w4, act) \<Rightarrow>
         let w5 = run_phases env ev ty path w4;
             res = (case w_events w5 ev of None \<Rightarrow> 0 | Some e \<Rightarrow> result_bits e) in
         end_activation env act ev res (upd_event ev reset_event w5))"

text \<open>\<open>dispatchEvent\<close>; the result says whether the default action may go on.\<close>

definition dispatch_event :: "'p env \<Rightarrow> nat option \<Rightarrow> jsval \<Rightarrow> 'p world \<Rightarrow> 'p world \<times> bool res" where
  "dispatch_event env this evv w = (case evv of
     Obj ev \<Rightarrow> (case w_events w ev of
       None \<Rightarrow> (w, Inl TypeErr)
     | Some e \<Rightarrow>
         if has_flag e F_DISPATCH \<or> has_flag e F_UNINIT then (w, Inl (DomErr ''InvalidStateError''))
         else case dispatch_core env (resolve_target env this) ev None None (upd_event ev (e_trusted_update (\<lambda>_. False)) w) of
           (w1, bits) \<Rightarrow> (w1, Inr (bits AND 1 = 0)))
   | _ \<Rightarrow> (w, Inl TypeErr))"

text \<open>\<open>L.dispatch\<close>, \<open>L.fire\<close> and \<open>L.fireAtWindowWithDocumentTarget\<close> for an event that the layer made.\<close>

definition dispatch_internal :: "'p env \<Rightarrow> nat \<Rightarrow> nat \<Rightarrow> bool \<Rightarrow> 'p world \<Rightarrow> 'p world \<times> bool" where
  "dispatch_internal env target ev trusted w =
     (case dispatch_core env target ev None None (upd_event ev (e_trusted_update (\<lambda>_. trusted)) w) of
        (w1, bits) \<Rightarrow> (w1, bits AND 1 = 0))"

text \<open>\<open>id\<close> is the identity of the new event object.\<close>

definition fire :: "'p env \<Rightarrow> nat \<Rightarrow> nat \<Rightarrow> jstr \<Rightarrow> jsval \<Rightarrow> bool \<Rightarrow> 'p world \<Rightarrow> 'p world \<times> bool res" where
  "fire env target ev ty init trusted w = (case new_event (v_objs env) (v_now env) (Some (Str ty)) init of
     Inl x \<Rightarrow> (w, Inl x)
   | Inr e \<Rightarrow> (case dispatch_internal env target ev trusted (w\<lparr>w_events := (w_events w)(ev \<mapsto> e)\<rparr>) of
       (w1, ok) \<Rightarrow> (w1, Inr ok)))"

definition fire_at_window :: "'p env \<Rightarrow> nat \<Rightarrow> jstr \<Rightarrow> jsval \<Rightarrow> 'p world \<Rightarrow> 'p world \<times> bool res" where
  "fire_at_window env ev ty init w = (case new_event (v_objs env) (v_now env) (Some (Str ty)) init of
     Inl x \<Rightarrow> (w, Inl x)
   | Inr e \<Rightarrow> (case dispatch_core env (v_window env) ev (Some [v_window env]) (Some (v_document env))
         (w\<lparr>w_events := (w_events w)(ev \<mapsto> e\<lparr>e_trusted := True\<rparr>)\<rparr>) of
       (w1, bits) \<Rightarrow> (w1, Inr (bits AND 1 = 0))))"

end
