(* ===== verification/EvtAbort.thy ===== *)
theory EvtAbort
  imports EvtTargets
begin

text \<open>
  \<open>AbortSignal\<close> and \<open>AbortController\<close> (\<open>10_events.js\<close>, lines 1108--1176): the abort algorithms of a
  signal, dependent signals, and the \<open>abort\<close> event.
\<close>

definition new_signal :: "'p env \<Rightarrow> bool \<Rightarrow> reason \<Rightarrow> 'p world \<Rightarrow> 'p world \<times> nat" where
  "new_signal env aborted reason w = (let s = v_fresh env w in
     (w\<lparr>w_signals := (w_signals w)(s \<mapsto> \<lparr>s_aborted = aborted, s_reason = reason, s_algos = []\<rparr>)\<rparr>, s))"

definition reason_of :: "jsval \<Rightarrow> reason" where
  "reason_of v = (if v = Undef then RDom ''AbortError'' else RVal v)"

definition signal_reason :: "'p world \<Rightarrow> nat \<Rightarrow> reason" where
  "signal_reason w s = (case w_signals w s of None \<Rightarrow> RVal Undef | Some g \<Rightarrow> s_reason g)"

text \<open>A reason that is \<open>undefined\<close> becomes an AbortError, also when it comes from another signal.\<close>

definition settle_reason :: "reason \<Rightarrow> reason" where
  "settle_reason r = (case r of RVal v \<Rightarrow> reason_of v | RDom n \<Rightarrow> RDom n)"

definition throw_if_aborted :: "'p world \<Rightarrow> nat \<Rightarrow> reason option" where
  "throw_if_aborted w s = (if signal_aborted w s then Some (signal_reason w s) else None)"

text \<open>
  \<open>signalAbortInternal\<close>.  A dependent signal is made after its sources, so the chains of dependent
  signals are finite; the fuel bounds their length.
\<close>

fun signal_abort :: "'p env \<Rightarrow> nat \<Rightarrow> nat \<Rightarrow> reason \<Rightarrow> 'p world \<Rightarrow> 'p world"
  and run_algos :: "'p env \<Rightarrow> nat \<Rightarrow> algo list \<Rightarrow> 'p world \<Rightarrow> 'p world" where
  "signal_abort env 0 s r w = w"
| "signal_abort env (Suc n) s r w = (case w_signals w s of
     None \<Rightarrow> w
   | Some g \<Rightarrow>
       if s_aborted g then w
       else let w1 = w\<lparr>w_signals := (w_signals w)(s \<mapsto> \<lparr>s_aborted = True, s_reason = settle_reason r, s_algos = []\<rparr>)\<rparr>;
                w2 = run_algos env n (s_algos g) w1 in
            fst (fire env s (v_fresh env w2) (js ''abort'') Undef True w2))"
| "run_algos env n [] w = w"
| "run_algos env n (a # as) w = run_algos env n as (case a of
     ARemove t i \<Rightarrow> remove_listener t i w
   | ADepend d x \<Rightarrow> signal_abort env n d (signal_reason w x) w
   | AOther f \<Rightarrow> (case v_page env f (v_window env) [] w of (w1, Inl x) \<Rightarrow> report x w1 | (w1, Inr v) \<Rightarrow> w1))"

definition abort_signal :: "'p env \<Rightarrow> jsval \<Rightarrow> 'p world \<Rightarrow> 'p world \<times> nat" where
  "abort_signal env reason w = new_signal env True (reason_of reason) w"

text \<open>\<open>AbortSignal.timeout\<close>: the new signal and the delay after which it is aborted with a TimeoutError.\<close>

definition timeout_signal :: "'p env \<Rightarrow> jsval \<Rightarrow> 'p world \<Rightarrow> 'p world \<times> (nat \<times> jsnum) res" where
  "timeout_signal env ms w = (case new_signal env False (RVal Undef) w of (w1, s) \<Rightarrow>
     (case to_number (v_objs env) ms of
        Inl x \<Rightarrow> (w1, Inl x)
      | Inr d \<Rightarrow> if num_le (Fin 0) d then (w1, Inr (s, d)) else (w1, Inl TypeErr)))"

definition timeout_fires :: "'p env \<Rightarrow> nat \<Rightarrow> nat \<Rightarrow> 'p world \<Rightarrow> 'p world" where
  "timeout_fires env n s w = signal_abort env n s (RDom ''TimeoutError'') w"

fun first_aborted :: "'p world \<Rightarrow> nat list \<Rightarrow> nat option" where
  "first_aborted w [] = None"
| "first_aborted w (x # xs) = (if signal_aborted w x then Some x else first_aborted w xs)"

fun depend_on :: "nat \<Rightarrow> nat list \<Rightarrow> 'p world \<Rightarrow> 'p world" where
  "depend_on s [] w = w"
| "depend_on s (x # xs) w = depend_on s xs (add_algorithm x (ADepend s x) w)"

text \<open>\<open>AbortSignal.any\<close> on the list of an iterable; a member that is not a signal is a type error.\<close>

definition any_signal :: "'p env \<Rightarrow> jsval list \<Rightarrow> 'p world \<Rightarrow> 'p world \<times> nat res" where
  "any_signal env vs w = (case new_signal env False (RVal Undef) w of (w1, s) \<Rightarrow>
     (case those (map (\<lambda>v. case v of Obj i \<Rightarrow> if w_signals w1 i = None then None else Some i | _ \<Rightarrow> None) vs) of
        None \<Rightarrow> (w1, Inl TypeErr)
      | Some xs \<Rightarrow> (case first_aborted w1 xs of
          Some x \<Rightarrow> (w1\<lparr>w_signals := (w_signals w1)(s \<mapsto> \<lparr>s_aborted = True, s_reason = signal_reason w1 x, s_algos = []\<rparr>)\<rparr>, Inr s)
        | None \<Rightarrow> (depend_on s xs w1, Inr s))))"

text \<open>\<open>AbortController.abort\<close>.\<close>

definition controller_abort :: "'p env \<Rightarrow> nat \<Rightarrow> nat \<Rightarrow> jsval \<Rightarrow> 'p world \<Rightarrow> 'p world" where
  "controller_abort env n s reason w = signal_abort env n s (RVal reason) w"

end
