(* ===== verification/EvtLaws.thy ===== *)
theory EvtLaws
  imports EvtAbort
begin

text \<open>
  What a dispatch keeps.  The interface \<open>dispatch_rel\<close> is a relation between states that every update
  of the dispatch respects, and the page's callbacks too; then the whole dispatch respects it.
\<close>

section \<open>Relations that a dispatch respects\<close>

locale dispatch_rel =
  fixes env :: "'p env" and R :: "'p world \<Rightarrow> 'p world \<Rightarrow> bool"
  assumes refl: "R w w"
    and trans: "R a b \<Longrightarrow> R b c \<Longrightarrow> R a c"
    and on_flag: "R w (upd_event ev (set_flag g) w)"
    and on_unpassive: "R w (upd_event ev (clear_flag F_PASSIVE) w)"
    and on_phase: "R w (upd_event ev (\<lambda>e. e\<lparr>e_phase := p, e_current := Some ct\<rparr>) w)"
    and on_prevent: "R w (upd_event ev prevent_default w)"
    and on_unload: "R w (upd_event ev (\<lambda>e. fst (set_before_unload po v e)) w)"
    and on_current: "R w (w\<lparr>w_current := cur\<rparr>)"
    and on_report: "R w (report x w)"
    and on_remove: "R w (remove_listener t i w)"
    and on_hrec: "R w (set_hrec r h w)"
    and on_page: "R w (fst (v_page env f t as w))"
begin

lemma page_step: "v_page env f t as w = (w1, r) \<Longrightarrow> R w w1"
  using on_page [of w f t as] by simp

lemma after_handler_step: "R w (fst (after_handler env ty ev ret w))"
proof -
  let ?w1 = "upd_event ev prevent_default w"
  have p: "R w ?w1" by (rule on_prevent)
  have u: "R w (upd_event ev (\<lambda>e. fst (set_before_unload po v e)) ?w1)" for po v by (rule trans [OF p on_unload])
  show ?thesis unfolding after_handler_def Let_def
    by (simp add: p u refl split: option.split sum.split)
qed

lemma handler_value_step: "R w (fst (handler_value env r w))"
proof -
  have "R w (set_hrec r h (report x w))" for h x by (rule trans [OF on_report on_hrec])
  then show ?thesis by (simp add: handler_value_def Let_def on_hrec refl split: hval.split sum.split)
qed

lemma run_handler_step: "R w (fst (run_handler env r t ev w))"
proof (cases "handler_value env r w")
  case (Pair w1 fo)
  have v: "R w w1" using handler_value_step [of w r] Pair by simp
  show ?thesis
  proof (cases fo)
    case None
    with Pair v show ?thesis by (simp add: run_handler_def)
  next
    case (Some f)
    have "R w1 (fst (case v_page env f t as w1 of
        (w2, Inl x) \<Rightarrow> (w2, Inl x)
      | (w2, Inr ret) \<Rightarrow> (if ret = Bool True then upd_event ev prevent_default w2 else w2, Inr ())))" for as
      using page_step [of f t as w1] on_prevent [of _ ev] by (auto split: prod.splits sum.splits intro: trans)
    moreover have "R w1 (fst (case v_page env f t [Obj ev] w1 of
        (w2, Inl x) \<Rightarrow> (w2, Inl x)
      | (w2, Inr ret) \<Rightarrow> after_handler env ty ev ret w2))" for ty
      using page_step [of f t "[Obj ev]" w1] after_handler_step by (auto split: prod.splits sum.splits intro: trans)
    ultimately show ?thesis
      using v Pair Some by (auto simp: run_handler_def Let_def split: option.splits intro: trans)
  qed
qed

lemma call_listener_step: "R w (fst (call_listener env ct ev cb w))"
  using page_step run_handler_step refl
  by (auto simp: call_listener_def split: callback.splits sum.splits jsval.splits prod.splits)

lemma run_listener_step: "R w (run_listener env ct ev i w)"
proof -
  define w1 where "w1 = (if l_once (lst w i) then remove_listener ct i w else w)"
  define w2 where "w2 = (if l_passive (lst w i) then upd_event ev (set_flag F_PASSIVE) w1 else w1)"
  obtain w3 r where c: "call_listener env ct ev (l_callback (lst w i)) (w2\<lparr>w_current := Some ev\<rparr>) = (w3, r)" by fastforce
  define w4 where "w4 = (case r of Inl x \<Rightarrow> report x (upd_event ev (set_flag F_THREW) w3) | Inr _ \<Rightarrow> w3)"
  have "R w w1" using on_remove refl by (simp add: w1_def)
  moreover have "R w1 w2" using on_flag refl by (simp add: w2_def)
  moreover have "R w2 w3"
    using trans [OF on_current] call_listener_step [of "w2\<lparr>w_current := Some ev\<rparr>" ct ev "l_callback (lst w i)"] c by simp
  moreover have "R w3 w4" using trans [OF on_flag on_report] refl by (simp add: w4_def split: sum.splits)
  moreover have "run_listener env ct ev i w =
      (if l_passive (lst w i) then upd_event ev (clear_flag F_PASSIVE) (w4\<lparr>w_current := w_current w2\<rparr>)
       else w4\<lparr>w_current := w_current w2\<rparr>)"
    unfolding run_listener_def Let_def w1_def [symmetric] w2_def [symmetric] c prod.case w4_def ..
  then have "R w4 (run_listener env ct ev i w)"
    using trans [OF on_current on_unpassive] on_current by simp
  ultimately show ?thesis by (meson trans)
qed

lemma invoke_loop_step: "R w (invoke_loop env ct ev pass ids w)"
proof (induction ids arbitrary: w)
  case (Cons i ids)
  have "R w (run_listener env ct ev i w)" by (rule run_listener_step)
  with Cons show ?case by (auto simp: Let_def intro: trans)
qed (simp add: refl)

lemma invoke_step: "R w (invoke env ct ev phase pass ty w)"
  using trans [OF on_phase invoke_loop_step] refl by (simp add: invoke_def)

lemma invoke_each_step: "R w (invoke_each env ev phase pass ty ts w)"
proof (induction ts arbitrary: w)
  case (Cons t ts)
  then show ?case using invoke_step [of w t ev phase pass ty] refl by (auto intro: trans)
qed (simp add: refl)

lemma run_phases_step: "R w (run_phases env ev ty path w)"
proof -
  have a: "R a (invoke_each env ev p q ty ts b)" if "R a b" for a b p q ts
    using that invoke_each_step by (rule trans)
  show ?thesis unfolding run_phases_def Let_def
    by (simp add: a refl del: invoke_each.simps)
qed

end

text \<open>A relation that also holds over the start and the end of a dispatch.\<close>

locale dispatch_all = dispatch_rel +
  assumes on_start: "R w (upd_event ev (\<lambda>e. (set_flag F_DISPATCH e)\<lparr>e_target := tg, e_path := pth\<rparr>) w)"
    and on_reset: "R w (upd_event ev reset_event w)"
    and on_trust: "R w (upd_event ev (e_trusted_update (\<lambda>_. b)) w)"
    and on_activation: "R w (w\<lparr>w_last_activation := n\<rparr>)"
    and on_discover: "R w (discover_inline env t ty w)"
    and on_begin: "v_begin env = Some bg \<Longrightarrow> R w (fst (bg path ev w))"
    and on_end: "R w (fst (v_end env act ev c w))"
    and on_new_event: "R w (w\<lparr>w_events := (w_events w)(ev := Some e)\<rparr>)"
begin

lemma discover_path_step: "R w (discover_path env ty path w)"
proof -
  have "R w (fold (\<lambda>t. discover_inline env t ty) path w)"
  proof (induction path arbitrary: w)
    case (Cons t path)
    show ?case using trans [OF on_discover Cons] by simp
  qed (simp add: refl)
  then show ?thesis by (simp add: discover_path_def refl)
qed

lemma begin_activation_step: "R w (fst (begin_activation env path ev ty w))"
proof (cases "v_begin env")
  case (Some bg)
  have "R w (fst (bg path ev w))" using on_begin [OF Some] .
  with Some show ?thesis
    using refl [of w] trans [OF _ on_report] by (auto simp: begin_activation_def split: prod.splits sum.splits option.splits)
qed (auto simp: begin_activation_def refl)

lemma end_activation_step: "R w (fst (end_activation env act ev res w))"
proof (cases act)
  case (Some a)
  have "R w (fst (v_end env a ev (res AND 1 \<noteq> 0) w))" by (rule on_end)
  with Some show ?thesis using trans [OF _ on_report] by (auto simp: end_activation_def split: prod.splits sum.splits)
qed (simp add: end_activation_def refl)

lemma dispatch_core_step: "R w (fst (dispatch_core env target ev over tover w))"
proof (cases "w_events w ev")
  case (Some e0)
  define ty where "ty = e_type e0"
  define path where "path = (case over of Some p \<Rightarrow> p | None \<Rightarrow> build_path env ty target)"
  define w1 where "w1 = upd_event ev (\<lambda>e. (set_flag F_DISPATCH e)\<lparr>e_target := Some (case tover of None \<Rightarrow> target | Some t \<Rightarrow> t), e_path := Some path\<rparr>) w"
  define w2 where "w2 = discover_path env ty path w1"
  define w3 where "w3 = (if e_trusted e0 \<and> ty \<in> set activation_types then w2\<lparr>w_last_activation := v_now env\<rparr> else w2)"
  obtain w4 act where b: "begin_activation env path ev ty w3 = (w4, act)" by fastforce
  define w5 where "w5 = run_phases env ev ty path w4"
  have "R w w1" unfolding w1_def by (rule on_start)
  moreover have "R w1 w2" unfolding w2_def by (rule discover_path_step)
  moreover have "R w2 w3" using on_activation refl by (simp add: w3_def)
  moreover have "R w3 w4" using begin_activation_step [of w3 path ev ty] b by simp
  moreover have "R w4 w5" unfolding w5_def by (rule run_phases_step)
  moreover have "dispatch_core env target ev over tover w = end_activation env act ev
      (case w_events w5 ev of None \<Rightarrow> 0 | Some e \<Rightarrow> result_bits e) (upd_event ev reset_event w5)"
    unfolding dispatch_core_def Some option.case Let_def ty_def [symmetric] path_def [symmetric] w1_def [symmetric]
      w2_def [symmetric] w3_def [symmetric] b prod.case w5_def [symmetric] ..
  then have "R w5 (fst (dispatch_core env target ev over tover w))"
    using trans [OF on_reset end_activation_step] by simp
  ultimately show ?thesis by (meson trans)
qed (simp add: dispatch_core_def refl)

lemma dispatch_event_step: "R w (fst (dispatch_event env this evv w))"
  using trans [OF on_trust dispatch_core_step] refl
  by (simp add: dispatch_event_def case_prod_beta split: jsval.split option.split)

lemma dispatch_internal_step: "R w (fst (dispatch_internal env target ev b w))"
  using trans [OF on_trust dispatch_core_step] by (simp add: dispatch_internal_def case_prod_beta)

lemma fire_step: "R w (fst (fire env target ev ty init b w))"
  using trans [OF on_new_event dispatch_internal_step] refl by (simp add: fire_def case_prod_beta split: sum.split)

end


section \<open>Listeners\<close>

text \<open>A listener object never changes, except that it may be removed, which is for ever.\<close>

definition kept :: "'p world \<Rightarrow> 'p world \<Rightarrow> bool" where
  "kept w w' = (length (w_listeners w) \<le> length (w_listeners w') \<and>
     (\<forall>i < length (w_listeners w). lst w' i = (lst w i)\<lparr>l_removed := l_removed (lst w' i)\<rparr> \<and> (l_removed (lst w i) \<longrightarrow> l_removed (lst w' i))))"

text \<open>Callbacks of the page and the activation behaviour respect a relation.\<close>

definition page_respects :: "'p env \<Rightarrow> ('p world \<Rightarrow> 'p world \<Rightarrow> bool) \<Rightarrow> bool" where
  "page_respects env R = ((\<forall>f t as w. R w (fst (v_page env f t as w))) \<and>
     (\<forall>bg path ev w. v_begin env = Some bg \<longrightarrow> R w (fst (bg path ev w))) \<and>
     (\<forall>a ev c w. R w (fst (v_end env a ev c w))))"

lemma kept_refl: "kept w w"
  by (simp add: kept_def)

lemma kept_trans:
  assumes "kept a b" "kept b c"
  shows "kept a c"
  unfolding kept_def
proof (intro conjI allI impI)
  show "length (w_listeners a) \<le> length (w_listeners c)" using assms by (auto simp: kept_def)
next
  fix i assume i: "i < length (w_listeners a)"
  then have i': "i < length (w_listeners b)" using assms(1) by (auto simp: kept_def)
  have b: "lst b i = (lst a i)\<lparr>l_removed := l_removed (lst b i)\<rparr>" using i assms(1) by (auto simp: kept_def)
  have c: "lst c i = (lst b i)\<lparr>l_removed := l_removed (lst c i)\<rparr>" using i' assms(2) by (auto simp: kept_def)
  show "lst c i = (lst a i)\<lparr>l_removed := l_removed (lst c i)\<rparr>" by (subst c, subst b) simp
  show "l_removed (lst a i) \<Longrightarrow> l_removed (lst c i)" using i i' assms by (auto simp: kept_def)
qed

lemma kept_same: "w_listeners w' = w_listeners w \<Longrightarrow> kept w w'"
  by (simp add: kept_def lst_def)

lemma kept_push: "w_listeners w' = w_listeners w @ ls \<Longrightarrow> kept w w'"
  by (simp add: kept_def lst_def nth_append)

lemma kept_mark: "kept w (mark_removed i w)"
proof (cases "i < length (w_listeners w)")
  case True
  then show ?thesis by (auto simp: kept_def mark_removed_def lst_def nth_list_update)
qed (simp add: kept_same mark_removed_def list_update_beyond)

lemma listeners_simps [simp]:
  "w_listeners (upd_event ev f w) = w_listeners w" "w_listeners (report x w) = w_listeners w"
  "w_listeners (set_list t ty l w) = w_listeners w" "w_listeners (set_hrec r h w) = w_listeners w"
  by (simp_all add: upd_event_def report_def set_list_def set_hrec_def)

lemma kept_remove: "kept w (remove_listener t i w)"
  unfolding remove_listener_def Let_def by (rule kept_trans [OF kept_mark [of w i] kept_same]) simp

lemma kept_activate: "kept w (activate r b w)"
  by (simp add: activate_def Let_def push_listener_def prepend_listener_def add_listener_def kept_refl)
     (auto intro!: kept_push)

lemma ensure_hrec_listeners: "w_listeners (fst (ensure_hrec t ty w)) = w_listeners w"
  by (simp add: ensure_hrec_def split: option.splits)

lemma kept_discover: "kept w (discover_inline env t ty w)"
proof -
  have "kept w (activate r b (set_hrec r h (fst (ensure_hrec t ty w))))" for r b h
    by (rule kept_trans [OF kept_same kept_activate]) (simp add: ensure_hrec_listeners)
  then show ?thesis by (auto simp: discover_inline_def kept_refl split: option.splits prod.splits)
qed

interpretation kept: dispatch_all env "\<lambda>w w'. page_respects env kept \<longrightarrow> kept w w'"
  by unfold_locales
     (auto intro: kept_trans kept_same kept_refl kept_remove kept_discover simp: page_respects_def)

section \<open>Abort signals\<close>

definition abort_kept :: "'p world \<Rightarrow> 'p world \<Rightarrow> bool" where
  "abort_kept w w' = (\<forall>s g. w_signals w s = Some g \<longrightarrow> s_aborted g \<longrightarrow>
     (\<exists>g'. w_signals w' s = Some g' \<and> s_aborted g' \<and> s_reason g' = s_reason g))"

lemma abort_kept_trans: "abort_kept a b \<Longrightarrow> abort_kept b c \<Longrightarrow> abort_kept a c"
  unfolding abort_kept_def by metis

lemma abort_kept_same: "w_signals w' = w_signals w \<Longrightarrow> abort_kept w w'"
  by (simp add: abort_kept_def)

lemma signals_simps [simp]:
  "w_signals (upd_event ev f w) = w_signals w" "w_signals (report x w) = w_signals w"
  "w_signals (set_list t ty l w) = w_signals w" "w_signals (set_hrec r h w) = w_signals w"
  "w_signals (mark_removed i w) = w_signals w" "w_signals (remove_listener t i w) = w_signals w"
  by (simp_all add: upd_event_def report_def set_list_def set_hrec_def mark_removed_def remove_listener_def Let_def)

lemma activate_signals [simp]: "w_signals (activate r b w) = w_signals w"
  by (simp add: activate_def Let_def push_listener_def prepend_listener_def add_listener_def)

lemma ensure_hrec_signals: "w_signals (fst (ensure_hrec t ty w)) = w_signals w"
  by (simp add: ensure_hrec_def split: option.splits)

lemma discover_signals [simp]: "w_signals (discover_inline env t ty w) = w_signals w"
  using ensure_hrec_signals [of t ty w] by (auto simp: discover_inline_def split: option.splits prod.splits)

text \<open>While there are finitely many signals, a new object is not one of them.\<close>

definition signals_kept :: "'p world \<Rightarrow> 'p world \<Rightarrow> bool" where
  "signals_kept w w' = (finite (dom (w_signals w)) \<longrightarrow> finite (dom (w_signals w')) \<and> abort_kept w w')"

lemma signals_kept_trans: "signals_kept a b \<Longrightarrow> signals_kept b c \<Longrightarrow> signals_kept a c"
  by (auto simp: signals_kept_def intro: abort_kept_trans)

lemma signals_kept_same: "w_signals w' = w_signals w \<Longrightarrow> signals_kept w w'"
  by (simp add: signals_kept_def abort_kept_same)

lemma signals_kept_set: "\<not> signal_aborted w s \<Longrightarrow> signals_kept w (w\<lparr>w_signals := (w_signals w)(s \<mapsto> g)\<rparr>)"
  by (auto simp: signals_kept_def abort_kept_def signal_aborted_def)

interpretation aborted: dispatch_all env "\<lambda>w w'. page_respects env signals_kept \<longrightarrow> signals_kept w w'"
  by unfold_locales
     (auto intro: signals_kept_trans signals_kept_same simp: page_respects_def)

lemma signal_abort_kept:
  assumes "page_respects env signals_kept"
  shows "signals_kept w (signal_abort env n s r w)" "signals_kept w (run_algos env n as w)"
  using assms
proof (induction env n s r w and env n as w rule: signal_abort_run_algos.induct)
  case (2 env n s r w)
  show ?case
  proof (cases "w_signals w s")
    case (Some g)
    show ?thesis
    proof (cases "s_aborted g")
      case False
      define w1 where "w1 = w\<lparr>w_signals := (w_signals w)(s \<mapsto> \<lparr>s_aborted = True, s_reason = settle_reason r, s_algos = []\<rparr>)\<rparr>"
      define w2 where "w2 = run_algos env n (s_algos g) w1"
      have "signals_kept w w1" unfolding w1_def by (rule signals_kept_set) (simp add: Some False signal_aborted_def)
      moreover have "signals_kept w1 w2" using "2.IH" [OF Some False] "2.prems" by (simp add: w1_def w2_def)
      moreover have "signals_kept w2 (fst (fire env s (v_fresh env w2) (js ''abort'') Undef True w2))"
        using aborted.fire_step [of env w2 s] "2.prems" by blast
      ultimately have "signals_kept w (fst (fire env s (v_fresh env w2) (js ''abort'') Undef True w2))"
        by (meson signals_kept_trans)
      then show ?thesis using Some False by (simp add: w1_def w2_def Let_def)
    qed (simp add: Some signals_kept_same)
  qed (simp add: signals_kept_same)
next
  case (4 env n a as w)
  have p: "signals_kept w (fst (v_page env f t xs w))" for f t xs using "4.prems" by (simp add: page_respects_def)
  have "signals_kept w (case a of
     ARemove t i \<Rightarrow> remove_listener t i w
   | ADepend d x \<Rightarrow> signal_abort env n d (signal_reason w x) w
   | AOther f \<Rightarrow> (case v_page env f (v_window env) [] w of (w1, Inl x) \<Rightarrow> report x w1 | (w1, Inr v) \<Rightarrow> w1))"
  proof (cases a)
    case (AOther f)
    then show ?thesis
      using p [of f "v_window env" "[]"] signals_kept_trans [OF _ signals_kept_same, of w _ "report x _" for x]
      by (auto split: prod.splits sum.splits)
  qed (use "4.IH"(1) "4.prems" in \<open>auto intro: signals_kept_same\<close>)
  with "4.IH"(2) "4.prems" show ?case by (auto intro: signals_kept_trans)
qed (auto intro: signals_kept_same)

section \<open>Page code as calls\<close>

text \<open>
  The fields of a signal are private to its class, so page code reaches them through the methods only.  A program
  of the page makes one act after the other, looking at the whole state in between: a call of a method of this
  file that may touch a signal, or anything else, which is any change of anything but the signals.
\<close>

datatype 'p act =
    Otherwise "'p world \<Rightarrow> 'p world"
  | NewSignal
  | AbortedSignal jsval
  | TimeoutSignal jsval
  | AnySignal "jsval list"
  | AbortAlgorithm nat algo
  | AbortCall nat nat jsval
  | TimeoutFires nat nat
  | AddListener "nat option" jsval jsval jsval
  | DispatchEvent "nat option" jsval

definition do_act :: "'p env \<Rightarrow> 'p act \<Rightarrow> 'p world \<Rightarrow> 'p world" where
  "do_act env a w = (case a of
     Otherwise g \<Rightarrow> (g w)\<lparr>w_signals := w_signals w\<rparr>
   | NewSignal \<Rightarrow> fst (new_signal env False (RVal Undef) w)
   | AbortedSignal v \<Rightarrow> fst (abort_signal env v w)
   | TimeoutSignal ms \<Rightarrow> fst (timeout_signal env ms w)
   | AnySignal vs \<Rightarrow> fst (any_signal env vs w)
   | AbortAlgorithm s al \<Rightarrow> add_algorithm s al w
   | AbortCall n s v \<Rightarrow> controller_abort env n s v w
   | TimeoutFires n s \<Rightarrow> timeout_fires env n s w
   | AddListener t ty cb opts \<Rightarrow> fst (add_event_listener env t ty cb opts w)
   | DispatchEvent t ev \<Rightarrow> fst (dispatch_event env t ev w))"

datatype ('p, 'r) prog = Return 'r | Act "'p act" "'p world \<Rightarrow> ('p, 'r) prog"

primrec run_prog :: "'p env \<Rightarrow> ('p, 'r) prog \<Rightarrow> 'p world \<Rightarrow> 'p world \<times> 'r" where
  "run_prog env (Return r) w = (w, r)"
| "run_prog env (Act a k) w = run_prog env (k (do_act env a w)) (do_act env a w)"

text \<open>
  The functions of the page and the activation behaviour as programs.  Their calls run listeners, which are
  functions of the page again: \<open>page_at k\<close> is the page whose calls nest at most \<open>k\<close> deep, and where the stack
  ends a function throws.
\<close>

record 'p scripts =
  sc_page :: "nat \<Rightarrow> nat \<Rightarrow> jsval list \<Rightarrow> 'p world \<Rightarrow> ('p, jsval res) prog"
  sc_begin :: "(nat list \<Rightarrow> nat \<Rightarrow> 'p world \<Rightarrow> ('p, nat option res) prog) option"
  sc_end :: "nat \<Rightarrow> nat \<Rightarrow> bool \<Rightarrow> 'p world \<Rightarrow> ('p, bool res) prog"

primrec page_at :: "nat \<Rightarrow> 'p scripts \<Rightarrow> 'p env \<Rightarrow> 'p env" where
  "page_at 0 sc env = env\<lparr>v_page := \<lambda>f t as w. (w, Inl RangeErr), v_begin := None, v_end := \<lambda>a ev c w. (w, Inl RangeErr)\<rparr>"
| "page_at (Suc k) sc env = env\<lparr>
     v_page := \<lambda>f t as w. run_prog (page_at k sc env) (sc_page sc f t as w) w,
     v_begin := map_option (\<lambda>b path ev w. run_prog (page_at k sc env) (b path ev w) w) (sc_begin sc),
     v_end := \<lambda>a ev c w. run_prog (page_at k sc env) (sc_end sc a ev c w) w\<rparr>"

definition fresh_signals :: "'p env \<Rightarrow> bool" where
  "fresh_signals env = (\<forall>w. finite (dom (w_signals w)) \<longrightarrow> w_signals w (v_fresh env w) = None)"

lemma page_at_fresh: "fresh_signals (page_at k sc env) = fresh_signals env"
  by (cases k) (simp_all add: fresh_signals_def)

lemma new_signal_kept:
  assumes "fresh_signals env"
  shows "signals_kept w (fst (new_signal env b r w))"
proof -
  have "finite (dom (w_signals w)) \<Longrightarrow> \<not> signal_aborted w (v_fresh env w)"
    using assms by (simp add: fresh_signals_def signal_aborted_def)
  with signals_kept_set show ?thesis by (auto simp: new_signal_def Let_def signals_kept_def)
qed

lemma add_algorithm_kept: "signals_kept w (add_algorithm s a w)"
  by (auto simp: add_algorithm_def signal_aborted_def signals_kept_same intro: signals_kept_set split: option.split)

lemma depend_on_kept: "signals_kept w (depend_on s xs w)"
  by (induction xs arbitrary: w) (auto intro: signals_kept_same signals_kept_trans add_algorithm_kept)

lemma any_signal_kept:
  assumes "fresh_signals env"
  shows "signals_kept w (fst (any_signal env vs w))"
proof -
  obtain w1 s where n: "new_signal env False (RVal Undef) w = (w1, s)" by fastforce
  then have k: "signals_kept w w1" using new_signal_kept [OF assms, of w False "RVal Undef"] by simp
  have "\<not> signal_aborted w1 s" using n by (auto simp: new_signal_def Let_def signal_aborted_def)
  from signals_kept_trans [OF k signals_kept_set [OF this]] signals_kept_trans [OF k depend_on_kept] k
  show ?thesis by (auto simp: any_signal_def n split: option.split)
qed

lemma add_listener_kept: "signals_kept w (fst (add_event_listener env t ty cb opts w))"
proof -
  have l: "w_signals w2 = w_signals w \<Longrightarrow> signals_kept w (case sig of None \<Rightarrow> w2 | Some s \<Rightarrow> add_algorithm s a w2)" for sig a w2
    using signals_kept_trans [OF signals_kept_same add_algorithm_kept, of w2 w] by (cases sig) (auto simp: signals_kept_same)
  have k: "w_signals (add_listener x i (w\<lparr>w_listeners := ls\<rparr>)) = w_signals w" for x i ls by (simp add: add_listener_def)
  show ?thesis using l [OF k]
    by (simp add: add_event_listener_def push_listener_def Let_def signals_kept_same split: jsval.split sum.split prod.split)
qed

lemma do_act_kept:
  assumes "fresh_signals env" "page_respects env signals_kept"
  shows "signals_kept w (do_act env a w)"
  using new_signal_kept [OF assms(1)] any_signal_kept [OF assms(1)] add_algorithm_kept signal_abort_kept(1) [OF assms(2)]
    add_listener_kept aborted.dispatch_event_step [of env] assms(2)
  by (cases a)
     (auto simp: do_act_def signals_kept_same abort_signal_def timeout_signal_def controller_abort_def timeout_fires_def
       case_prod_beta split: sum.split)

lemma run_prog_kept:
  assumes "fresh_signals env" "page_respects env signals_kept"
  shows "signals_kept w (fst (run_prog env p w))"
proof (induction p arbitrary: w)
  case (Act a k)
  then have "signals_kept (do_act env a w) (fst (run_prog env (k (do_act env a w)) (do_act env a w)))" by blast
  with do_act_kept [OF assms, of w a] show ?case by (auto intro: signals_kept_trans)
qed (simp add: signals_kept_same)

theorem page_at_kept: "fresh_signals env \<Longrightarrow> page_respects (page_at k sc env) signals_kept"
proof (induction k)
  case (Suc k)
  then have "fresh_signals (page_at k sc env)" "page_respects (page_at k sc env) signals_kept" by (simp_all add: page_at_fresh)
  then show ?case by (auto simp: page_respects_def intro!: run_prog_kept)
qed (simp add: page_respects_def signals_kept_same)

end
