(* ===== verification/EvtProps.thy ===== *)
theory EvtProps
  imports EvtLaws
begin

text \<open>
  Properties of events: the order in which listeners run, the state after a dispatch, listeners that
  are removed or run once, abort signals, and the numbers of input events.
\<close>

section \<open>The order of listeners\<close>

text \<open>
  A page whose functions record their call, and may stop the event's propagation: not at all, after
  the current target, or at once.
\<close>

datatype stop = GoOn | Stop | StopNow

definition stop_event :: "stop \<Rightarrow> event \<Rightarrow> event" where
  "stop_event s e = (case s of GoOn \<Rightarrow> e | Stop \<Rightarrow> stop_propagation e | StopNow \<Rightarrow> stop_immediate_propagation e)"

definition record_page :: "(nat \<Rightarrow> stop) \<Rightarrow> nat \<Rightarrow> nat \<Rightarrow> jsval list \<Rightarrow> (nat \<times> nat) list world \<Rightarrow> (nat \<times> nat) list world \<times> jsval res" where
  "record_page eff f this as w = (let w1 = w\<lparr>w_page := w_page w @ [(f, this)]\<rparr> in
     (case as of [Obj ev] \<Rightarrow> upd_event ev (stop_event (eff f)) w1 | _ \<Rightarrow> w1, Inr Undef))"

text \<open>The calls that a pass over one target makes, and what is left of them when one stops the event.\<close>

fun cb_fun :: "callback \<Rightarrow> nat" where
  "cb_fun (CbFun f) = f"
| "cb_fun (CbObj f) = f"
| "cb_fun (CbHandler f) = f"

definition calls_at :: "'p world \<Rightarrow> jstr \<Rightarrow> nat \<Rightarrow> nat \<Rightarrow> (nat \<times> nat) list" where
  "calls_at w ty pass ct = map (\<lambda>i. (cb_fun (l_callback (lst w i)), ct)) (filter (\<lambda>i. in_pass pass (lst w i)) (w_lists w ct ty))"

fun until_now :: "(nat \<Rightarrow> stop) \<Rightarrow> (nat \<times> nat) list \<Rightarrow> (nat \<times> nat) list" where
  "until_now eff [] = []"
| "until_now eff (c # cs) = c # (if eff (fst c) = StopNow then [] else until_now eff cs)"

fun until_stop :: "(nat \<Rightarrow> stop) \<Rightarrow> (nat \<times> nat) list list \<Rightarrow> (nat \<times> nat) list" where
  "until_stop eff [] = []"
| "until_stop eff (cs # css) =
     until_now eff cs @ (if list_all (\<lambda>c. eff (fst c) = GoOn) (until_now eff cs) then until_stop eff css else [])"

definition simple_listeners :: "'p world \<Rightarrow> jstr \<Rightarrow> bool" where
  "simple_listeners w ty = (\<forall>t. \<forall>i \<in> set (w_lists w t ty).
     (\<exists>f. l_callback (lst w i) = CbFun f) \<and> \<not> l_once (lst w i) \<and> \<not> l_removed (lst w i))"

text \<open>What the calls leave as it is, and the event's flags.\<close>

definition steady :: "'p world \<Rightarrow> 'p world \<Rightarrow> nat \<Rightarrow> bool" where
  "steady w w' ev = (w_lists w' = w_lists w \<and> w_listeners w' = w_listeners w \<and>
     (\<exists>e e'. w_events w ev = Some e \<and> w_events w' ev = Some e' \<and> e_bubbles e' = e_bubbles e))"

lemma steady_trans: "steady a b ev \<Longrightarrow> steady b c ev \<Longrightarrow> steady a c ev"
  by (auto simp: steady_def)

lemma ev_has_upd [simp]: "ev_has (upd_event ev f w) ev g = (case w_events w ev of None \<Rightarrow> False | Some e \<Rightarrow> has_flag (f e) g)"
  by (simp add: ev_has_def upd_event_def split: option.splits)

lemma other_flags:
  "has_flag (clear_flag F_PASSIVE e) F_STOP = has_flag e F_STOP"
  "has_flag (clear_flag F_PASSIVE e) F_STOP_IMM = has_flag e F_STOP_IMM"
  unfolding flag_clear unfolding has_flag_def flag_values by simp_all

lemma run_listener_record:
  assumes "l_callback (lst w i) = CbFun f" "\<not> l_once (lst w i)" "v_page env = record_page eff" "w_events w ev = Some e"
    and w': "w' = run_listener env ct ev i w"
  shows "steady w w' ev" "w_page w' = w_page w @ [(f, ct)]"
    "ev_has w' ev F_STOP \<longleftrightarrow> ev_has w ev F_STOP \<or> eff f \<noteq> GoOn"
    "ev_has w' ev F_STOP_IMM \<longleftrightarrow> ev_has w ev F_STOP_IMM \<or> eff f = StopNow"
proof -
  note defs = run_listener_def Let_def call_listener_def record_page_def upd_event_def report_def
  show "steady w w' ev" unfolding w' using assms(1-4)
    by (cases "eff f") (simp_all add: defs steady_def stop_event_def stop_propagation_def stop_immediate_propagation_def)
  show "w_page w' = w_page w @ [(f, ct)]" unfolding w' using assms(1-4) by (simp add: defs)
  show "ev_has w' ev F_STOP \<longleftrightarrow> ev_has w ev F_STOP \<or> eff f \<noteq> GoOn" unfolding w' using assms(1-4)
    by (cases "eff f")
       (simp_all add: defs ev_has_def other_flags stop_event_def stop_propagation_def stop_immediate_propagation_def, simp_all add: flag_values)
  show "ev_has w' ev F_STOP_IMM \<longleftrightarrow> ev_has w ev F_STOP_IMM \<or> eff f = StopNow" unfolding w' using assms(1-4)
    by (cases "eff f")
       (simp_all add: defs ev_has_def other_flags stop_event_def stop_propagation_def stop_immediate_propagation_def, simp_all add: flag_values)
qed


lemma steady_refl: "w_events w ev \<noteq> None \<Longrightarrow> steady w w ev"
  by (auto simp: steady_def)

lemma steady_lst: "steady w w' ev \<Longrightarrow> lst w' i = lst w i"
  by (simp add: steady_def lst_def)

lemma steady_calls: "steady w w' ev \<Longrightarrow> calls_at w' ty pass ct = calls_at w ty pass ct"
  by (simp add: calls_at_def steady_lst) (simp add: steady_def)

text \<open>One pass over the listeners of a target.\<close>

lemma invoke_loop_record:
  assumes "v_page env = record_page eff" "\<forall>i \<in> set ids. (\<exists>f. l_callback (lst w i) = CbFun f) \<and> \<not> l_once (lst w i) \<and> \<not> l_removed (lst w i)"
    "w_events w ev \<noteq> None" "\<not> ev_has w ev F_STOP_IMM"
    and w': "w' = invoke_loop env ct ev pass ids w"
    and cs: "cs = until_now eff (map (\<lambda>i. (cb_fun (l_callback (lst w i)), ct)) (filter (\<lambda>i. in_pass pass (lst w i)) ids))"
  shows "steady w w' ev \<and> w_page w' = w_page w @ cs \<and>
    (ev_has w' ev F_STOP \<longleftrightarrow> ev_has w ev F_STOP \<or> \<not> list_all (\<lambda>c. eff (fst c) = GoOn) cs) \<and>
    (\<not> ev_has w' ev F_STOP \<longrightarrow> \<not> ev_has w' ev F_STOP_IMM)"
  using assms(2-4) w' cs
proof (induction ids arbitrary: w w' cs)
  case Nil
  then show ?case by (simp add: steady_refl)
next
  case (Cons i ids)
  show ?case
  proof (cases "in_pass pass (lst w i)")
    case False
    have "w' = invoke_loop env ct ev pass ids w" using False Cons.prems(4) by simp
    from Cons.IH [OF _ Cons.prems(2,3) this refl] False Cons.prems(1,5) show ?thesis by simp
  next
    case True
    obtain f where f: "l_callback (lst w i) = CbFun f" "\<not> l_once (lst w i)" "\<not> l_removed (lst w i)" using Cons.prems(1) by auto
    obtain e where e: "w_events w ev = Some e" using Cons.prems(2) by auto
    define w1 where "w1 = run_listener env ct ev i w"
    note r = run_listener_record [OF f(1,2) assms(1) e w1_def]
    show ?thesis
    proof (cases "eff f = StopNow")
      case True
      with \<open>in_pass pass (lst w i)\<close> f r Cons.prems(4,5) show ?thesis by (simp add: Let_def w1_def [symmetric])
    next
      case False
      then have nimm: "\<not> ev_has w1 ev F_STOP_IMM" using r(4) Cons.prems(3) by simp
      have l: "lst w1 k = lst w k" for k using steady_lst [OF r(1)] .
      have ids: "\<forall>i \<in> set ids. (\<exists>f. l_callback (lst w1 i) = CbFun f) \<and> \<not> l_once (lst w1 i) \<and> \<not> l_removed (lst w1 i)"
        using Cons.prems(1) l by simp
      have e1: "w_events w1 ev \<noteq> None" using r(1) by (auto simp: steady_def)
      note IH = Cons.IH [OF ids e1 nimm refl refl]
      have w': "w' = invoke_loop env ct ev pass ids w1"
        using Cons.prems(4) True f nimm by (simp add: Let_def w1_def)
      show ?thesis
        using IH r False True f Cons.prems(5) steady_trans [OF r(1)]
        unfolding w' by (auto simp: l)
    qed
  qed
qed

lemma invoke_record:
  assumes "v_page env = record_page eff" "simple_listeners w ty" "w_events w ev \<noteq> None" "\<not> ev_has w ev F_STOP_IMM"
    and w': "w' = invoke env ct ev phase pass ty w"
  shows "steady w w' ev \<and> w_page w' = w_page w @ until_now eff (calls_at w ty pass ct) \<and>
    (ev_has w' ev F_STOP \<longleftrightarrow> ev_has w ev F_STOP \<or> \<not> list_all (\<lambda>c. eff (fst c) = GoOn) (until_now eff (calls_at w ty pass ct))) \<and>
    (\<not> ev_has w' ev F_STOP \<longrightarrow> \<not> ev_has w' ev F_STOP_IMM)"
proof (cases "w_lists w ct ty = []")
  case True
  then show ?thesis using assms(3,4) w' by (simp add: invoke_def calls_at_def steady_refl)
next
  case False
  define w1 where "w1 = upd_event ev (\<lambda>e. e\<lparr>e_phase := phase, e_current := Some ct\<rparr>) w"
  have s: "steady w w1 ev" "w_page w1 = w_page w" "ev_has w1 ev g = ev_has w ev g" for g
    using assms(3) by (auto simp: w1_def steady_def upd_event_def ev_has_def has_flag_def split: option.splits)
  have l: "lst w1 k = lst w k" for k using steady_lst [OF s(1)] .
  have ids: "\<forall>i \<in> set (w_lists w ct ty). (\<exists>f. l_callback (lst w1 i) = CbFun f) \<and> \<not> l_once (lst w1 i) \<and> \<not> l_removed (lst w1 i)"
    using assms(2) l by (simp add: simple_listeners_def)
  have e1: "w_events w1 ev \<noteq> None" using s(1) by (auto simp: steady_def)
  have i: "\<not> ev_has w1 ev F_STOP_IMM" using assms(4) s(3) by simp
  have w'': "w' = invoke_loop env ct ev pass (w_lists w ct ty) w1" using w' False by (simp add: invoke_def w1_def)
  from invoke_loop_record [OF assms(1) ids e1 i w'' refl] s show ?thesis
    using steady_trans [OF s(1)] by (auto simp: calls_at_def l)
qed

lemma invoke_each_record:
  assumes "v_page env = record_page eff" "simple_listeners w ty" "w_events w ev \<noteq> None"
    "\<not> ev_has w ev F_STOP \<Longrightarrow> \<not> ev_has w ev F_STOP_IMM"
    and w': "w' = invoke_each env ev phase pass ty ts w"
    and cs: "cs = (if ev_has w ev F_STOP then [] else until_stop eff (map (calls_at w ty pass) ts))"
  shows "steady w w' ev \<and> w_page w' = w_page w @ cs \<and>
    (ev_has w' ev F_STOP \<longleftrightarrow> ev_has w ev F_STOP \<or> \<not> list_all (\<lambda>c. eff (fst c) = GoOn) cs) \<and>
    (\<not> ev_has w' ev F_STOP \<longrightarrow> \<not> ev_has w' ev F_STOP_IMM)"
  using assms(2-4) w' cs
proof (induction ts arbitrary: w w' cs)
  case Nil
  then show ?case by (auto simp: steady_refl)
next
  case (Cons t ts)
  show ?case
  proof (cases "ev_has w ev F_STOP")
    case True
    with Cons.prems show ?thesis by (simp add: steady_refl)
  next
    case False
    define w1 where "w1 = invoke env t ev phase pass ty w"
    note r = invoke_record [OF assms(1) Cons.prems(1,2) Cons.prems(3) [OF False] w1_def]
    have st: "steady w w1 ev" using r by simp
    have "simple_listeners w1 ty" using Cons.prems(1) st steady_lst [OF st] by (simp add: simple_listeners_def steady_def)
    moreover have "w_events w1 ev \<noteq> None" using st by (auto simp: steady_def)
    moreover have "\<not> ev_has w1 ev F_STOP \<Longrightarrow> \<not> ev_has w1 ev F_STOP_IMM" using r by simp
    moreover have w': "w' = invoke_each env ev phase pass ty ts w1" using Cons.prems(4) False by (simp add: w1_def)
    ultimately have IH: "steady w1 w' ev \<and> w_page w' = w_page w1 @ (if ev_has w1 ev F_STOP then [] else until_stop eff (map (calls_at w1 ty pass) ts)) \<and>
      (ev_has w' ev F_STOP \<longleftrightarrow> ev_has w1 ev F_STOP \<or>
         \<not> list_all (\<lambda>c. eff (fst c) = GoOn) (if ev_has w1 ev F_STOP then [] else until_stop eff (map (calls_at w1 ty pass) ts))) \<and>
      (\<not> ev_has w' ev F_STOP \<longrightarrow> \<not> ev_has w' ev F_STOP_IMM)"
      using Cons.IH [OF _ _ _ w' refl] by blast
    have c: "calls_at w1 ty pass = calls_at w ty pass" using steady_calls [OF st] by (simp add: fun_eq_iff)
    show ?thesis
      using IH r False Cons.prems(5) steady_trans [OF st, of w'] unfolding c by auto
  qed
qed


lemma until_stop_append:
  "until_stop eff (xs @ ys) = until_stop eff xs @
     (if list_all (\<lambda>c. eff (fst c) = GoOn) (until_stop eff xs) then until_stop eff ys else [])"
  by (induction xs) auto

section \<open>A concrete page\<close>

definition ev_objs :: objs where
  "ev_objs = \<lparr>obj_num = \<lambda>i. Inr (Fin (of_nat i)), obj_str = \<lambda>i. Inr [], obj_get = \<lambda>i k. Inr Undef, obj_callable = \<lambda>i. True\<rparr>"

text \<open>Window 1, document 2, elements 3 and 4, each the parent of the next.\<close>

definition ev_env :: "(nat \<Rightarrow> stop) \<Rightarrow> (nat \<times> nat) list env" where
  "ev_env eff = \<lparr>v_page = record_page eff, v_objs = ev_objs, v_window = 1, v_document = 2,
     v_is_node = (\<lambda>t. t \<in> {2, 3, 4}), v_name = (\<lambda>t. if t = 3 then js ''html'' else if t = 4 then js ''div'' else []),
     v_ns = \<lambda>t. 0, v_connected = \<lambda>t. True, v_attr = \<lambda>t k. None, v_body = None, v_host = \<lambda>t. None,
     v_parent = (\<lambda>t. if t = 3 then Some 2 else if t = 4 then Some 3 else None), v_depth = 9, v_compile = \<lambda>s e. Inl TypeErr,
     v_now = Fin 5, v_fresh = \<lambda>w. 60, v_begin = None, v_end = \<lambda>a ev c w. (w, Inr False)\<rparr>"

definition ev_event :: event where
  "ev_event = \<lparr>e_type = js ''x'', e_bubbles = True, e_cancelable = True, e_composed = False, e_trusted = False, e_ts = Fin 0,
     e_target = None, e_current = None, e_phase = 0, e_flags = 0, e_path = None, e_related = Null, e_data = DEvent\<rparr>"

definition ev_world :: "(nat \<times> nat) list world" where
  "ev_world = \<lparr>w_events = (\<lambda>i. if i = 50 then Some ev_event else None),
     w_listeners = [new_listener (js ''x'') (CbFun 10) True False False, new_listener (js ''x'') (CbFun 11) False False False,
       new_listener (js ''x'') (CbFun 12) True False False, new_listener (js ''x'') (CbFun 13) False False False],
     w_lists = (\<lambda>t ty. if ty = js ''x'' then (if t = 2 then [0, 3] else if t = 4 then [1, 2] else []) else []),
     w_handlers = [], w_hs = (\<lambda>t ty. None),
     w_signals = (\<lambda>s. if s = 70 then Some \<lparr>s_aborted = False, s_reason = RVal Undef, s_algos = []\<rparr> else None),
     w_current = None, w_reports = [], w_last_activation = Fin 0, w_page = []\<rparr>"

lemma ev_simple: "simple_listeners ev_world (js ''x'')"
  by (auto simp: simple_listeners_def ev_world_def lst_def new_listener_def)

lemma ev_event_flags: "w_events ev_world 50 = Some ev_event" "\<not> has_flag ev_event F_STOP" "\<not> has_flag ev_event F_STOP_IMM"
  by (simp_all add: ev_world_def ev_event_def has_flag_def)

lemma record_page_kept: "page_respects (ev_env eff) kept"
  by (auto simp: page_respects_def ev_env_def record_page_def Let_def kept_refl intro!: kept_same split: list.splits jsval.splits)

text \<open>C11: On a page whose listeners are functions that only record their call and possibly stop the event, a
  dispatch (the phases of dispatchCore) calls exactly: the capturing listeners from the outermost target
  inwards, the capturing and then the other listeners of the target, and, when the event bubbles, the
  non-capturing listeners outwards, each target's listeners in the order of its list; after a call of
  stopPropagation the remaining listeners of that pass still run and nothing after them, and after
  stopImmediatePropagation none.\<close>

theorem listeners_run_in_order:
  assumes "v_page env = record_page eff" "simple_listeners w ty" "w_events w ev = Some e"
    "\<not> has_flag e F_STOP" "\<not> has_flag e F_STOP_IMM"
  shows "w_page (run_phases env ev ty (t # ps) w) = w_page w @ until_stop eff
    (map (calls_at w ty 1) (rev ps) @ [calls_at w ty 1 t, calls_at w ty 2 t] @
     (if e_bubbles e then map (calls_at w ty 2) ps else []))"
proof -
  have keep: "simple_listeners w' ty" "w_events w' ev \<noteq> None" if "steady w w' ev" for w'
    using assms(2) that steady_lst [OF that] by (auto simp: simple_listeners_def steady_def)
  have calls: "calls_at w' ty = calls_at w ty" if "steady w w' ev" for w'
    using steady_calls [OF that] by (simp add: fun_eq_iff)
  define w1 where "w1 = invoke_each env ev 1 1 ty (rev ps) w"
  define w2 where "w2 = invoke_each env ev 2 1 ty [t] w1"
  define w3 where "w3 = invoke_each env ev 2 2 ty [t] w2"
  define w4 where "w4 = (if e_bubbles e then invoke_each env ev 3 2 ty ps w3 else w3)"
  have f0: "\<not> ev_has w ev F_STOP" "\<not> ev_has w ev F_STOP_IMM" "w_events w ev \<noteq> None" using assms(3-5) by (simp_all add: ev_has_def)
  have i0: "\<not> ev_has w ev F_STOP \<Longrightarrow> \<not> ev_has w ev F_STOP_IMM" using f0 by simp
  note r1 = invoke_each_record [OF assms(1,2) f0(3) i0 w1_def refl]
  then have s1: "steady w w1 ev" by blast
  have i1: "\<not> ev_has w1 ev F_STOP \<Longrightarrow> \<not> ev_has w1 ev F_STOP_IMM" using r1 by blast
  note r2 = invoke_each_record [OF assms(1) keep [OF s1] i1 w2_def refl]
  then have s2: "steady w w2 ev" using steady_trans [OF s1] by blast
  have i2: "\<not> ev_has w2 ev F_STOP \<Longrightarrow> \<not> ev_has w2 ev F_STOP_IMM" using r2 by blast
  note r3 = invoke_each_record [OF assms(1) keep [OF s2] i2 w3_def refl]
  then have s3: "steady w w3 ev" using steady_trans [OF s2] by blast
  have i3: "\<not> ev_has w3 ev F_STOP \<Longrightarrow> \<not> ev_has w3 ev F_STOP_IMM" using r3 by blast
  have r4: "w_page w4 = w_page w3 @ (if ev_has w3 ev F_STOP then [] else until_stop eff (if e_bubbles e then map (calls_at w3 ty 2) ps else []))"
    using invoke_each_record [where phase = 3 and pass = 2 and ts = ps, OF assms(1) keep [OF s3] i3 refl refl] by (simp add: w4_def)
  have "(case w_events w3 ev of None \<Rightarrow> False | Some e \<Rightarrow> e_bubbles e) = e_bubbles e" using s3 assms(3) by (auto simp: steady_def)
  then have "run_phases env ev ty (t # ps) w = w4"
    unfolding run_phases_def Let_def list.sel w1_def [symmetric] w2_def [symmetric] w3_def [symmetric] w4_def by simp
  then show ?thesis
    using r1 r2 r3 r4 f0(1) unfolding calls [OF s1] calls [OF s2] calls [OF s3]
    by (auto simp: until_stop_append)
qed


theorem listeners_run_in_order_witness:
  "w_page (run_phases (ev_env (\<lambda>f. if f = 11 then Stop else GoOn)) 50 (js ''x'') [4, 3, 2, 1] ev_world) = [(10, 2), (12, 4), (11, 4)]"
proof -
  let ?eff = "\<lambda>f. if f = (11::nat) then Stop else GoOn"
  have "w_page (run_phases (ev_env ?eff) 50 (js ''x'') [4, 3, 2, 1] ev_world) = w_page ev_world @ until_stop ?eff
      (map (calls_at ev_world (js ''x'') 1) (rev [3, 2, 1]) @ [calls_at ev_world (js ''x'') 1 4, calls_at ev_world (js ''x'') 2 4] @
       (if e_bubbles ev_event then map (calls_at ev_world (js ''x'') 2) [3, 2, 1] else []))"
    by (rule listeners_run_in_order [OF _ ev_simple ev_event_flags]) (simp add: ev_env_def)
  also have "\<dots> = [(10, 2), (12, 4), (11, 4)]" by code_simp
  finally show ?thesis .
qed

section \<open>After a dispatch\<close>

lemma reset_flags:
  "\<not> has_flag (reset_event e) F_DISPATCH" "\<not> has_flag (reset_event e) F_STOP" "\<not> has_flag (reset_event e) F_STOP_IMM"
  "\<not> has_flag (reset_event e) F_THREW" "has_flag (reset_event e) F_CANCELED = has_flag e F_CANCELED"
  unfolding reset_event_def flag_clear unfolding has_flag_def flag_values by simp_all

lemma result_canceled: "result_bits e AND 1 = 0 \<longleftrightarrow> \<not> has_flag e F_CANCELED"
  by (auto simp: result_bits_def bit.conj_disj_distrib2)

lemma no_activation: "v_begin env = None \<Longrightarrow> begin_activation env path ev ty w = (w, None)"
  by (simp add: begin_activation_def)

text \<open>C12: Whatever the listeners do, an event that comes out of dispatchCore (without a click activation) can be
  dispatched again: the dispatch, stop and throw flags are cleared, its phase is NONE, it has no current
  target and an empty path; and the result says it was canceled exactly when its canceled flag is set.\<close>

theorem dispatch_leaves_event_idle:
  assumes "v_begin env = None" "dispatch_core env target ev over tover w = (w', bits)" "w_events w' ev = Some e'"
  shows "\<not> has_flag e' F_DISPATCH \<and> \<not> has_flag e' F_STOP \<and> \<not> has_flag e' F_STOP_IMM \<and> \<not> has_flag e' F_THREW \<and>
    e_phase e' = 0 \<and> e_current e' = None \<and> composed_path e' = [] \<and> (bits AND 1 \<noteq> 0 \<longleftrightarrow> default_prevented e')"
proof -
  obtain e0 where e0: "w_events w ev = Some e0" using assms(2,3) by (cases "w_events w ev") (auto simp: dispatch_core_def)
  obtain w5 where w5: "w' = upd_event ev reset_event w5" "bits = (case w_events w5 ev of None \<Rightarrow> 0 | Some e \<Rightarrow> result_bits e)"
    using assms(2) e0 by (simp add: dispatch_core_def Let_def no_activation [OF assms(1)] end_activation_def) blast
  with assms(3) obtain e5 where e5: "w_events w5 ev = Some e5" "e' = reset_event e5" by (auto simp: upd_event_def)
  have "e_phase e' = 0 \<and> e_current e' = None \<and> e_path e' = Some []" unfolding e5(2) by (simp add: reset_event_def)
  with w5(2) e5 show ?thesis by (simp add: reset_flags result_canceled default_prevented_def composed_path_def)
qed

theorem dispatch_leaves_event_idle_witness:
  "case dispatch_core (ev_env (\<lambda>f. GoOn)) 4 50 None None ev_world of (w', bits) \<Rightarrow>
     (case w_events w' 50 of None \<Rightarrow> False | Some e' \<Rightarrow> \<not> has_flag e' F_DISPATCH \<and> e_phase e' = 0)"
proof -
  obtain w' bits where d: "dispatch_core (ev_env (\<lambda>f. GoOn)) 4 50 None None ev_world = (w', bits)" by fastforce
  have "w_events (fst (dispatch_core (ev_env (\<lambda>f. GoOn)) 4 50 None None ev_world)) 50 \<noteq> None" by code_simp
  then obtain e' where e': "w_events w' 50 = Some e'" using d by auto
  from dispatch_leaves_event_idle [OF _ d e'] d e' show ?thesis by (simp add: ev_env_def)
qed

section \<open>Listeners that run once\<close>

lemma lst_remove: "i < length (w_listeners w) \<Longrightarrow> l_removed (lst (remove_listener t i w) i)"
  by (simp add: remove_listener_def Let_def lst_def) (simp add: mark_removed_def lst_def)

text \<open>A listener added with once is removed before its callback runs and stays removed through that run and
  any later dispatch of any event, so that it is not run a second time; this holds for every page whose
  callbacks change listeners through the interface of event targets only.\<close>

theorem once_listener_stays_removed:
  assumes "page_respects env kept" "i < length (w_listeners w)" "l_once (lst w i)"
  shows "l_removed (lst (run_listener env ct ev i w) i) \<and>
    l_removed (lst (fst (dispatch_core env target ev2 over tover (run_listener env ct ev i w))) i)"
proof -
  define w1 where "w1 = remove_listener ct i w"
  define w2 where "w2 = (if l_passive (lst w i) then upd_event ev (set_flag F_PASSIVE) w1 else w1)"
  obtain w3 r where c: "call_listener env ct ev (l_callback (lst w i)) (w2\<lparr>w_current := Some ev\<rparr>) = (w3, r)" by fastforce
  have w1: "i < length (w_listeners w1)" "l_removed (lst w1 i)"
    using kept_remove [of w ct i] assms(2) lst_remove [OF assms(2)] by (auto simp: w1_def kept_def)
  have "kept w1 w2" by (simp add: w2_def kept_same)
  moreover have "kept w2 w3"
    using kept.call_listener_step [of env "w2\<lparr>w_current := Some ev\<rparr>" ct ev "l_callback (lst w i)"] c assms(1)
      kept_trans [OF kept_same, of "w2\<lparr>w_current := Some ev\<rparr>" w2 w3] by simp
  moreover have "kept w3 (run_listener env ct ev i w)"
    unfolding run_listener_def Let_def if_P [OF assms(3)] w1_def [symmetric] w2_def [symmetric] c prod.case
    by (rule kept_same) (simp split: sum.split)
  ultimately have k: "kept w1 (run_listener env ct ev i w)" by (meson kept_trans)
  moreover have "kept (run_listener env ct ev i w) (fst (dispatch_core env target ev2 over tover (run_listener env ct ev i w)))"
    using kept.dispatch_core_step assms(1) by blast
  ultimately have "kept w1 (fst (dispatch_core env target ev2 over tover (run_listener env ct ev i w)))" by (rule kept_trans)
  with k w1 show ?thesis by (auto simp: kept_def)
qed

definition once_world :: "(nat \<times> nat) list world" where
  "once_world = ev_world\<lparr>w_listeners := [new_listener (js ''x'') (CbFun 10) True True False, new_listener (js ''x'') (CbFun 11) False False False,
       new_listener (js ''x'') (CbFun 12) True False False, new_listener (js ''x'') (CbFun 13) False False False]\<rparr>"

theorem once_listener_stays_removed_witness:
  "l_removed (lst (run_listener (ev_env (\<lambda>f. GoOn)) 2 50 0 once_world) 0) \<and>
   l_removed (lst (fst (dispatch_core (ev_env (\<lambda>f. GoOn)) 4 50 None None (run_listener (ev_env (\<lambda>f. GoOn)) 2 50 0 once_world))) 0)"
  using once_listener_stays_removed [OF record_page_kept, of 0 once_world "\<lambda>f. GoOn" 2 50 4 50 None None]
  by (simp add: once_world_def lst_def new_listener_def)


section \<open>Adding and removing\<close>

definition lists_ok :: "'p world \<Rightarrow> bool" where
  "lists_ok w = (\<forall>t ty. \<forall>i \<in> set (w_lists w t ty). i < length (w_listeners w))"

lemma matches_push:
  "i < length (w_listeners w) \<Longrightarrow> matches cb c (w\<lparr>w_listeners := w_listeners w @ [l], w_lists := ls\<rparr>) i = matches cb c w i"
  by (simp add: matches_def lst_def nth_append)

lemma first_match_append: "\<not> list_ex P xs \<Longrightarrow> first_match P (xs @ [x]) = (if P x then Some x else None)"
  by (induction xs) auto

lemma remove1_last: "x \<notin> set xs \<Longrightarrow> remove1 x (xs @ [x]) = xs"
  by (simp add: remove1_append)

text \<open>Adding a listener and removing it again with the same type, callback and capture flag leaves every
  listener list as it was, provided the target did not have that listener; adding it twice is the same as
  adding it once.\<close>

theorem add_remove_round_trip:
  assumes "lists_ok w" "\<not> list_ex (matches (callback_of (v_objs env) f) c w) (w_lists w t ty)"
    "add_event_listener env (Some t) (Str ty) (Obj f) (Bool c) w = (w1, r1)"
    "remove_event_listener env (Some t) (Str ty) (Obj f) (Bool c) w1 = (w2, r2)"
  shows "r1 = Inr () \<and> r2 = Inr () \<and> w_lists w1 t ty = w_lists w t ty @ [length (w_listeners w)] \<and> w_lists w2 = w_lists w \<and>
    add_event_listener env (Some t) (Str ty) (Obj f) (Bool c) w1 = (w1, Inr ())"
proof -
  define cb where "cb = callback_of (v_objs env) f"
  define l where "l = new_listener ty cb c False (default_passive env t ty)"
  define k where "k = length (w_listeners w)"
  have nm: "\<not> list_ex (matches cb c w) (w_lists w t ty)" using assms(2) by (simp add: cb_def)
  have w1: "w1 = w\<lparr>w_listeners := w_listeners w @ [l], w_lists := (w_lists w)(t := (w_lists w t)(ty := w_lists w t ty @ [k]))\<rparr>" "r1 = Inr ()"
    using assms(2,3)
    by (auto simp: add_event_listener_def to_jstring_def read_options_def truthy_def resolve_target_def Let_def push_listener_def
        add_listener_def set_list_def lst_def l_def k_def cb_def new_listener_def)
  have kl: "\<forall>i \<in> set (w_lists w t ty). i < k" using assms(1) by (simp add: lists_ok_def k_def)
  have m: "matches cb c w1 i = matches cb c w i" if "i \<in> set (w_lists w t ty)" for i
    using that kl matches_push [of i w] by (simp add: w1 k_def)
  have "matches cb c w1 k" by (simp add: matches_def lst_def w1 k_def l_def new_listener_def)
  then have fm: "first_match (matches cb c w1) (w_lists w1 t ty) = Some k"
    using first_match_append [of "matches cb c w1" "w_lists w t ty" k] nm m by (simp add: w1 list_ex_iff)
  have nk: "k \<notin> set (w_lists w t ty)" using kl by auto
  have "w2 = set_list t ty (w_lists w t ty) (mark_removed k w1)" "r2 = Inr ()"
    using assms(4) fm nk
    by (auto simp: remove_event_listener_def nullish_def to_jstring_def flatten_capture_def truthy_def resolve_target_def Let_def
        cb_def [symmetric] mark_removed_def w1 remove1_last)
  moreover have "w_lists (set_list t ty (w_lists w t ty) (mark_removed k w1)) = w_lists w"
    by (auto simp: set_list_def mark_removed_def w1)
  moreover have "add_event_listener env (Some t) (Str ty) (Obj f) (Bool c) w1 = (w1, Inr ())"
    using \<open>matches cb c w1 k\<close>
    by (simp add: add_event_listener_def to_jstring_def read_options_def truthy_def resolve_target_def Let_def cb_def [symmetric])
       (simp add: w1)
  ultimately show ?thesis by (simp add: w1 k_def)
qed

theorem add_remove_round_trip_witness:
  "case add_event_listener (ev_env (\<lambda>f. GoOn)) (Some 4) (Str (js ''x'')) (Obj 20) (Bool True) ev_world of (w1, r1) \<Rightarrow>
   (case remove_event_listener (ev_env (\<lambda>f. GoOn)) (Some 4) (Str (js ''x'')) (Obj 20) (Bool True) w1 of (w2, r2) \<Rightarrow>
      w_lists w1 4 (js ''x'') = [1, 2, 4] \<and> w_lists w2 = w_lists ev_world)"
proof -
  have ok: "lists_ok ev_world" by (auto simp: lists_ok_def ev_world_def)
  have n: "\<not> list_ex (matches (callback_of (v_objs (ev_env (\<lambda>f. GoOn))) 20) True ev_world) (w_lists ev_world 4 (js ''x''))"
    by code_simp
  obtain w1 r1 w2 r2 where w: "add_event_listener (ev_env (\<lambda>f. GoOn)) (Some 4) (Str (js ''x'')) (Obj 20) (Bool True) ev_world = (w1, r1)"
    "remove_event_listener (ev_env (\<lambda>f. GoOn)) (Some 4) (Str (js ''x'')) (Obj 20) (Bool True) w1 = (w2, r2)" by (metis surj_pair)
  from add_remove_round_trip [OF ok n w] w show ?thesis by (simp add: ev_world_def)
qed

section \<open>Abort signals\<close>

lemma abort_keptD:
  assumes "abort_kept w w'" "signal_aborted w x"
  shows "signal_aborted w' x \<and> signal_reason w' x = signal_reason w x"
proof -
  obtain g where "w_signals w x = Some g" "s_aborted g"
    using assms(2) by (cases "w_signals w x") (auto simp: signal_aborted_def)
  with assms(1) show ?thesis unfolding abort_kept_def by (fastforce simp: signal_aborted_def signal_reason_def)
qed

text \<open>C13: An abort is final.  Page code is any program over the methods of this file: its functions may make, abort and
  combine signals, add algorithms and listeners, dispatch events, and change everything but the private fields of
  signals, in calls that nest to any depth \<open>k\<close>.  On every such page a signal that is not aborted becomes aborted by
  signalAbort with the given reason (an AbortError if it is undefined), whatever its algorithms and the listeners of
  its abort event do, even when they abort it themselves with another reason; to abort it again does nothing at all;
  every signal that was aborted before keeps its reason; and so it stays whatever program \<open>p\<close> the page runs
  afterwards.\<close>

theorem abort_is_final:
  assumes "fresh_signals env" "E = page_at k sc env" "finite (dom (w_signals w))" "w_signals w s = Some g" "\<not> s_aborted g"
    and "w' = signal_abort E (Suc n) s r w" "w'' = fst (run_prog E p w')"
  shows "signal_aborted w' s \<and> signal_reason w' s = settle_reason r \<and> signal_abort E m s r2 w' = w' \<and>
    (\<forall>x. signal_aborted w x \<longrightarrow> signal_aborted w' x \<and> signal_reason w' x = signal_reason w x) \<and>
    signal_aborted w'' s \<and> signal_reason w'' s = settle_reason r"
proof -
  have E: "fresh_signals E" "page_respects E signals_kept" using assms(1,2) by (simp_all add: page_at_fresh page_at_kept)
  define w1 where "w1 = w\<lparr>w_signals := (w_signals w)(s \<mapsto> \<lparr>s_aborted = True, s_reason = settle_reason r, s_algos = []\<rparr>)\<rparr>"
  define w2 where "w2 = run_algos E n (s_algos g) w1"
  have w': "w' = fst (fire E s (v_fresh E w2) (js ''abort'') Undef True w2)"
    using assms(4-6) by (simp add: w1_def w2_def Let_def)
  have f: "finite (dom (w_signals w1))" using assms(3) by (simp add: w1_def)
  have "signals_kept w1 w2" unfolding w2_def by (rule signal_abort_kept(2) [OF E(2)])
  moreover have "signals_kept w2 w'" unfolding w' using aborted.fire_step E(2) by blast
  ultimately have k: "signals_kept w1 w'" by (rule signals_kept_trans)
  with f have k1: "abort_kept w1 w'" by (simp add: signals_kept_def)
  have "signals_kept w1 w''" using k run_prog_kept [OF E, of w' p] assms(7) by (auto intro: signals_kept_trans)
  with f have k2: "abort_kept w1 w''" by (simp add: signals_kept_def)
  have a: "signal_aborted w1 s" "signal_reason w1 s = settle_reason r" by (simp_all add: w1_def signal_aborted_def signal_reason_def)
  have s: "signal_aborted w' s" using abort_keptD [OF k1 a(1)] by blast
  then have "signal_abort E m s r2 w' = w'" by (cases m) (auto simp: signal_aborted_def split: option.splits)
  moreover have "signals_kept w w'" unfolding assms(6) by (rule signal_abort_kept(1) [OF E(2)])
  then have "signal_aborted w' x \<and> signal_reason w' x = signal_reason w x" if "signal_aborted w x" for x
    using that assms(3) abort_keptD by (auto simp: signals_kept_def)
  ultimately show ?thesis using abort_keptD [OF k1 a(1)] abort_keptD [OF k2 a(1)] a(2) by simp
qed

text \<open>
  A page whose listeners abort the signal 70 again, with the reason 7, while its abort event is dispatched, and
  which does the same afterwards.
\<close>

definition again_scripts :: "(nat \<times> nat) list scripts" where
  "again_scripts = \<lparr>sc_page = \<lambda>f t as w. Act (AbortCall 3 70 (Num (Fin 7))) (\<lambda>w. Return (Inr Undef)), sc_begin = None, sc_end = \<lambda>a ev c w. Return (Inr False)\<rparr>"

definition again_env :: "(nat \<times> nat) list env" where
  "again_env = (ev_env (\<lambda>f. GoOn))\<lparr>v_fresh := \<lambda>w. Suc (Max (insert 0 (dom (w_signals w))))\<rparr>"

definition again_world :: "(nat \<times> nat) list world" where
  "again_world = ev_world\<lparr>w_lists := \<lambda>t ty. if t = 70 \<and> ty = js ''abort'' then [1] else []\<rparr>"

theorem abort_is_final_witness:
  "let E = page_at 2 again_scripts again_env; w' = signal_abort E 3 70 (RVal Undef) again_world in
   signal_aborted w' 70 \<and> signal_reason w' 70 = RDom ''AbortError'' \<and>
   signal_reason (fst (run_prog E (sc_page again_scripts 1 1 [] w') w')) 70 = RDom ''AbortError''"
proof -
  have "Suc (Max (insert 0 (dom m))) \<notin> dom m" if "finite (dom m)" for m :: "nat \<Rightarrow> signal option"
  proof
    assume "Suc (Max (insert 0 (dom m))) \<in> dom m"
    then have "Suc (Max (insert 0 (dom m))) \<le> Max (insert 0 (dom m))" using that by (intro Max_ge) auto
    then show False by simp
  qed
  then have f: "fresh_signals again_env" by (simp add: fresh_signals_def again_env_def domIff)
  have d: "finite (dom (w_signals again_world))" by (auto simp: again_world_def ev_world_def dom_def)
  have g: "w_signals again_world 70 = Some \<lparr>s_aborted = False, s_reason = RVal Undef, s_algos = []\<rparr>"
    by (simp add: again_world_def ev_world_def)
  let ?E = "page_at 2 again_scripts again_env"
  from abort_is_final [where n = 2 and r = "RVal Undef" and p = "sc_page again_scripts 1 1 [] (signal_abort ?E 3 70 (RVal Undef) again_world)",
      OF f refl [of ?E] d g _ refl refl]
  show ?thesis by (simp add: Let_def settle_reason_def reason_of_def numeral_3_eq_3)
qed

section \<open>Input events\<close>

lemma num_or_zero_real: "num_or_zero n \<noteq> NaN"
  by (simp add: num_or_zero_def)

lemma get_num_real: "get_num po i k = Inr n \<Longrightarrow> n \<noteq> NaN"
  by (auto simp: get_num_def rbind_Inr_iff num_or_zero_real)

definition mouse_ok :: "mouse_data \<Rightarrow> bool" where
  "mouse_ok m = (m_screen_x m \<noteq> NaN \<and> m_screen_y m \<noteq> NaN \<and> m_client_x m \<noteq> NaN \<and> m_client_y m \<noteq> NaN \<and>
     m_movement_x m \<noteq> NaN \<and> m_movement_y m \<noteq> NaN \<and> - 32768 \<le> m_button m \<and> m_button m < 32768 \<and>
     0 \<le> m_buttons m \<and> m_buttons m < 65536)"

lemma native_coords_ok: "native_coords po native i m = Inr m' \<Longrightarrow> mouse_ok m' = mouse_ok m"
  by (auto simp: native_coords_def rbind_Inr_iff mouse_ok_def split: if_splits)

lemma read_mouse_ok: "read_mouse po native mods i = Inr (m, rel) \<Longrightarrow> mouse_ok m"
  using to_int16_range to_uint16_range
  by (auto simp: read_mouse_def rbind_Inr_iff dest!: native_coords_ok get_num_real) (simp add: mouse_ok_def plain_mouse_def)

text \<open>The coordinates of a mouse event are never NaN, whatever the page passes, and button and buttons are
  numbers of 16 bits, signed and unsigned; this holds for every class derived from MouseEvent.\<close>

theorem mouse_numbers_in_range:
  assumes "new_mouse_base po native now ty init = Inr (e, d, u, m)"
  shows "mouse_ok m"
proof -
  have p: "mouse_ok (plain_mouse mods)" for mods by (simp add: mouse_ok_def plain_mouse_def)
  from assms obtain mods rel where "in_dict d (plain_mouse mods, Undef) (read_mouse po native mods) = Inr (m, rel)"
    by (auto simp: new_mouse_base_def rbind_Inr_iff)
  then show ?thesis using p read_mouse_ok by (auto simp: in_dict_def split: option.splits)
qed

definition mouse_objs :: objs where
  "mouse_objs = ev_objs\<lparr>obj_get := (\<lambda>i k. if k = js ''button'' then Inr (Num (Fin 40000)) else Inr Undef)\<rparr>"

theorem mouse_numbers_in_range_witness:
  "case new_mouse_base mouse_objs False (Fin 0) (Some (Str (js ''click''))) (Obj 1) of
     Inl x \<Rightarrow> False | Inr (e, d, u, m) \<Rightarrow> mouse_ok m \<and> m_button m = - 25536"
proof -
  have "(case new_mouse_base mouse_objs False (Fin 0) (Some (Str (js ''click''))) (Obj 1) of
     Inl x \<Rightarrow> False | Inr (e, d, u, m) \<Rightarrow> m_button m = - 25536)" by code_simp
  then show ?thesis
    using mouse_numbers_in_range [of mouse_objs False "Fin 0" "Some (Str (js ''click''))" "Obj 1"]
    by (auto split: sum.splits prod.splits)
qed

section \<open>Events under dispatch\<close>

text \<open>The methods by which a listener can change its event.\<close>

datatype evop = OpStop | OpStopNow | OpCancelBubble jsval | OpPrevent | OpReturnValue jsval | OpInit jsval jsval jsval
  | OpInitUi jsval jsval jsval jsval jsval

fun apply_op :: "objs \<Rightarrow> evop \<Rightarrow> event \<Rightarrow> event" where
  "apply_op po OpStop e = stop_propagation e"
| "apply_op po OpStopNow e = stop_immediate_propagation e"
| "apply_op po (OpCancelBubble v) e = set_cancel_bubble v e"
| "apply_op po OpPrevent e = prevent_default e"
| "apply_op po (OpReturnValue v) e = set_return_value v e"
| "apply_op po (OpInit t b c) e = fst (init_event po t b c e)"
| "apply_op po (OpInitUi t b c v d) e = fst (init_ui_event po t b c v d e)"

definition frozen :: "event \<Rightarrow> event \<Rightarrow> bool" where
  "frozen e e' = (has_flag e' F_DISPATCH \<and> has_flag e' F_PASSIVE \<and> has_flag e' F_CANCELED = has_flag e F_CANCELED \<and>
     e_type e' = e_type e \<and> e_bubbles e' = e_bubbles e \<and> e_cancelable e' = e_cancelable e)"

lemma apply_op_frozen: "frozen e e1 \<Longrightarrow> frozen e (apply_op po op e1)"
  by (cases op)
     (auto simp: frozen_def stop_propagation_def stop_immediate_propagation_def set_cancel_bubble_def prevent_default_def
       set_return_value_def init_event_def init_ui_event_def, simp_all add: flag_values)

text \<open>While an event is dispatched to a passive listener, no sequence of calls of the event's methods changes
  its type, whether it bubbles, whether it can be canceled, or its canceled flag.\<close>

theorem passive_listener_cannot_cancel:
  assumes "has_flag e F_DISPATCH" "has_flag e F_PASSIVE"
  shows "frozen e (fold (apply_op po) ops e)"
proof -
  have "frozen e e1 \<Longrightarrow> frozen e (fold (apply_op po) ops e1)" for e1
    by (induction ops arbitrary: e1) (simp_all add: apply_op_frozen)
  then show ?thesis using assms by (simp add: frozen_def)
qed

theorem passive_listener_cannot_cancel_witness:
  "frozen (set_flag (F_DISPATCH OR F_PASSIVE) ev_event)
     (fold (apply_op ev_objs) [OpPrevent, OpReturnValue (Bool False), OpInit (Str []) Null Null] (set_flag (F_DISPATCH OR F_PASSIVE) ev_event))"
  by (rule passive_listener_cannot_cancel) (simp_all add: flag_values)

text \<open>The legacy initialisers disagree on events that are being dispatched: initUIEvent leaves such an event alone,
  while initCompositionEvent replaces its data.\<close>

theorem composition_data_changes_during_dispatch:
  assumes "has_flag e F_DISPATCH" "e_data e = DComposition u old" "to_jstring po data = Inr s"
  shows "init_ui_event po ty b c view (Num (Fin 0)) e = (e, Inr ()) \<and>
    init_composition_event po ty b c view data e = (e\<lparr>e_data := DComposition u s\<rparr>, Inr ())"
  using assms by (simp add: init_ui_event_def init_composition_event_def)

definition typing_event :: event where
  "typing_event = set_flag F_DISPATCH (ev_event\<lparr>e_data := DComposition \<lparr>ui_view = Null, ui_detail = 0, ui_which = 0\<rparr> (js ''a'')\<rparr>)"

theorem composition_data_changes_during_dispatch_witness:
  "e_data (fst (init_composition_event ev_objs (Str (js ''y'')) (Bool True) (Bool True) Null (Str (js ''b'')) typing_event)) =
   DComposition \<lparr>ui_view = Null, ui_detail = 0, ui_which = 0\<rparr> (js ''b'')"
  using composition_data_changes_during_dispatch [of typing_event "\<lparr>ui_view = Null, ui_detail = 0, ui_which = 0\<rparr>" "js ''a''"
      ev_objs "Str (js ''b'')" "js ''b''" "Str (js ''y'')" "Bool True" "Bool True" Null]
  by (simp add: typing_event_def to_jstring_def flag_values)

end
