(* ===== verification/WebText.thy ===== *)
theory WebText
  imports JsValues
begin

text \<open>
  Text as bytes in \<open>40_webapi.js\<close>: UTF-8 (lines 931--977 and 1345--1367), percent-encoding and the
  \<open>application/x-www-form-urlencoded\<close> format (997--1049), and base64 (1450--1492).  A byte is a number
  from 0 to 255.  The code runs an index over a string; here the rest of the string is consumed.
\<close>

section \<open>UTF-8\<close>

definition high_unit :: "cu \<Rightarrow> bool" where
  "high_unit c = (0xd800 \<le> c \<and> c \<le> 0xdbff)"

definition low_unit :: "cu \<Rightarrow> bool" where
  "low_unit c = (0xdc00 \<le> c \<and> c \<le> 0xdfff)"

text \<open>The code point at the head of \<open>c # r\<close>, and what is left; a lone surrogate counts as U+FFFD.\<close>

definition next_point :: "cu \<Rightarrow> jstr \<Rightarrow> int \<times> jstr" where
  "next_point c r =
     (if high_unit c \<and> r \<noteq> [] then
        (if low_unit (hd r) then (0x10000 + push_bit 10 (c - 0xd800) + (hd r - 0xdc00), tl r) else (0xfffd, r))
      else if high_unit c \<or> low_unit c then (0xfffd, r) else (c, r))"

definition utf8_point :: "int \<Rightarrow> int list" where
  "utf8_point c =
     (if c < 0x80 then [c]
      else if c < 0x800 then [0xc0 OR drop_bit 6 c, 0x80 OR (c AND 63)]
      else if c < 0x10000 then [0xe0 OR drop_bit 12 c, 0x80 OR (drop_bit 6 c AND 63), 0x80 OR (c AND 63)]
      else [0xf0 OR drop_bit 18 c, 0x80 OR (drop_bit 12 c AND 63), 0x80 OR (drop_bit 6 c AND 63), 0x80 OR (c AND 63)])"

lemma next_point_shorter: "next_point c r = (p, r') \<Longrightarrow> length r' \<le> length r"
  by (auto simp: next_point_def split: if_splits)

function utf8_encode :: "jstr \<Rightarrow> int list" where
  "utf8_encode [] = []"
| "utf8_encode (c # r) = (case next_point c r of (p, r') \<Rightarrow> utf8_point p @ utf8_encode r')"
  by pat_completeness auto
termination by (relation "measure length") (auto dest: next_point_shorter [OF sym])

text \<open>The continuation bytes that follow a lead byte: how many were taken, and the bits collected.\<close>

fun take_continuation :: "nat \<Rightarrow> int \<Rightarrow> int list \<Rightarrow> nat \<times> int" where
  "take_continuation 0 cp bs = (0, cp)"
| "take_continuation (Suc n) cp [] = (0, cp)"
| "take_continuation (Suc n) cp (c # bs) =
     (if c AND 0xc0 \<noteq> 0x80 then (0, cp)
      else (case take_continuation n (push_bit 6 cp OR (c AND 0x3f)) bs of (k, x) \<Rightarrow> (Suc k, x)))"

text \<open>A lead byte: the number of bytes that must follow, its bits, and the least code point.\<close>

definition lead_byte :: "int \<Rightarrow> (nat \<times> int \<times> int) option" where
  "lead_byte b =
     (if 0xc2 \<le> b \<and> b \<le> 0xdf then Some (1, b AND 0x1f, 0x80)
      else if 0xe0 \<le> b \<and> b \<le> 0xef then Some (2, b AND 0x0f, 0x800)
      else if 0xf0 \<le> b \<and> b \<le> 0xf4 then Some (3, b AND 0x07, 0x10000)
      else None)"

text \<open>\<open>String.fromCodePoint\<close>.\<close>

definition from_code_point :: "int \<Rightarrow> jstr" where
  "from_code_point p =
     (if p < 0x10000 then [p] else [0xd800 + drop_bit 10 (p - 0x10000), 0xdc00 + ((p - 0x10000) AND 0x3ff)])"

definition bad_point :: "int \<Rightarrow> int \<Rightarrow> bool" where
  "bad_point mn p = (p < mn \<or> p > 0x10ffff \<or> (0xd800 \<le> p \<and> p \<le> 0xdfff))"

function utf8_loop :: "int list \<Rightarrow> jstr" where
  "utf8_loop [] = []"
| "utf8_loop (b # bs) =
     (if b < 0x80 then b # utf8_loop bs
      else (case lead_byte b of
         None \<Rightarrow> 0xfffd # utf8_loop bs
       | Some (need, cp, mn) \<Rightarrow> (case take_continuation need cp bs of
           (k, p) \<Rightarrow> if k < need \<or> bad_point mn p then 0xfffd # utf8_loop (drop k bs)
                     else from_code_point p @ utf8_loop (drop need bs))))"
  by pat_completeness auto
termination by (relation "measure length") auto

text \<open>Long inputs go to the native decoder, unless it throws (\<open>None\<close>).\<close>

definition utf8_decode :: "(int list \<Rightarrow> jstr option) \<Rightarrow> int list \<Rightarrow> jstr" where
  "utf8_decode native bs =
     (if 256 < length bs then (case native bs of Some s \<Rightarrow> s | None \<Rightarrow> utf8_loop bs) else utf8_loop bs)"

text \<open>\<open>toWellFormed\<close>, behind \<open>toUSV\<close>: every lone surrogate becomes U+FFFD.\<close>

function well_formed :: "jstr \<Rightarrow> jstr" where
  "well_formed [] = []"
| "well_formed (c # r) = (case next_point c r of (p, r') \<Rightarrow> from_code_point p @ well_formed r')"
  by pat_completeness auto
termination by (relation "measure length") (auto dest: next_point_shorter [OF sym])

definition to_usv :: "objs \<Rightarrow> jsval \<Rightarrow> jstr res" where
  "to_usv po v = map_sum id well_formed (to_jstring po v)"

text \<open>
  \<open>TextEncoder.encodeInto\<close>: the bytes written to a destination with room for \<open>cap\<close> of them, and the
  number of code units read.
\<close>

function encode_into :: "jstr \<Rightarrow> nat \<Rightarrow> int list \<Rightarrow> nat \<Rightarrow> int list \<times> nat" where
  "encode_into [] cap out units = (out, units)"
| "encode_into (c # r) cap out units =
     (case next_point c r of (p, r') \<Rightarrow>
        if length out + length (utf8_point p) > cap then (out, units)
        else encode_into r' cap (out @ utf8_point p) (units + (length r + 1 - length r')))"
  by pat_completeness auto
termination by (relation "measure (\<lambda>(s, cap, out, units). length s)") (auto dest: next_point_shorter [OF sym])

section \<open>Percent-encoding and forms\<close>

definition hex_unit :: "cu \<Rightarrow> bool" where
  "hex_unit c = ((48 \<le> c \<and> c \<le> 57) \<or> (65 \<le> c \<and> c \<le> 70) \<or> (97 \<le> c \<and> c \<le> 102))"

function percent_decode :: "jstr \<Rightarrow> int list" where
  "percent_decode [] = []"
| "percent_decode (c # r) =
     (if c = 37 \<and> 2 \<le> length r \<and> hex_unit (r ! 0) \<and> hex_unit (r ! 1)
      then (16 * digit_of (r ! 0) + digit_of (r ! 1)) # percent_decode (drop 2 r)
      else if c < 0x80 then c # percent_decode r
      else if high_unit c then utf8_encode (c # take 1 r) @ percent_decode (drop 1 r)
      else utf8_encode [c] @ percent_decode r)"
  by pat_completeness auto
termination by (relation "measure length") auto

definition form_decode :: "(int list \<Rightarrow> jstr option) \<Rightarrow> jstr \<Rightarrow> jstr" where
  "form_decode native s = (if 37 \<notin> set s \<and> 43 \<notin> set s then s
     else utf8_decode native (percent_decode (map (\<lambda>c. if c = 43 then 32 else c) s)))"

definition parse_part :: "(int list \<Rightarrow> jstr option) \<Rightarrow> jstr \<Rightarrow> jstr \<times> jstr" where
  "parse_part native part = (case index_of [61] part of
     None \<Rightarrow> (form_decode native part, form_decode native [])
   | Some i \<Rightarrow> (form_decode native (take i part), form_decode native (drop (i + 1) part)))"

definition parse_query :: "(int list \<Rightarrow> jstr option) \<Rightarrow> jstr \<Rightarrow> (jstr \<times> jstr) list" where
  "parse_query native s = (if s = [] then [] else map (parse_part native) (filter (\<lambda>p. p \<noteq> []) (split_on 38 s)))"

definition form_safe :: "cu \<Rightarrow> bool" where
  "form_safe b = ((0x30 \<le> b \<and> b \<le> 0x39) \<or> (0x41 \<le> b \<and> b \<le> 0x5a) \<or> (0x61 \<le> b \<and> b \<le> 0x7a) \<or>
     b = 0x2a \<or> b = 0x2d \<or> b = 0x2e \<or> b = 0x5f)"

text \<open>A digit of \<open>toString(16).toUpperCase()\<close>; the code pads a single digit with a zero.\<close>

definition hex_digit :: "int \<Rightarrow> cu" where
  "hex_digit d = (if d < 10 then 48 + d else 55 + d)"

definition form_byte :: "int \<Rightarrow> jstr" where
  "form_byte b = (if b = 0x20 then [43] else if form_safe b then [b] else [37, hex_digit (b div 16), hex_digit (b mod 16)])"

definition form_encode :: "jstr \<Rightarrow> jstr" where
  "form_encode s = (if list_all form_safe s then s else concat (map form_byte (utf8_encode s)))"

definition serialize_query :: "(jstr \<times> jstr) list \<Rightarrow> jstr" where
  "serialize_query l = join_with [38] (map (\<lambda>(n, v). form_encode n @ [61] @ form_encode v) l)"

section \<open>Base64\<close>

definition b64_alphabet :: jstr where
  "b64_alphabet = js ''ABCDEFGHIJKLMNOPQRSTUVWXYZabcdefghijklmnopqrstuvwxyz0123456789+/''"

definition b64_digit :: "int \<Rightarrow> cu" where
  "b64_digit n = b64_alphabet ! nat n"

definition b64_index :: "cu \<Rightarrow> int" where
  "b64_index c = (case index_of [c] b64_alphabet of Some i \<Rightarrow> int i | None \<Rightarrow> 0)"

text \<open>One round of \<open>btoa\<close>: up to three units; a missing one counts as zero and leaves a \<open>=\<close>.\<close>

definition b64_group :: "int \<Rightarrow> int option \<Rightarrow> int option \<Rightarrow> jstr" where
  "b64_group a b c = (let n = push_bit 16 a OR push_bit 8 (case b of Some x \<Rightarrow> x | None \<Rightarrow> 0) OR (case c of Some x \<Rightarrow> x | None \<Rightarrow> 0) in
     [b64_digit (drop_bit 18 n AND 63), b64_digit (drop_bit 12 n AND 63),
      if b = None then 61 else b64_digit (drop_bit 6 n AND 63), if c = None then 61 else b64_digit (n AND 63)])"

fun btoa_loop :: "jstr \<Rightarrow> jstr res" where
  "btoa_loop [] = Inr []"
| "btoa_loop [a] = (if a > 255 then Inl (DomErr ''InvalidCharacterError'') else Inr (b64_group a None None))"
| "btoa_loop [a, b] = (if a > 255 \<or> b > 255 then Inl (DomErr ''InvalidCharacterError'') else Inr (b64_group a (Some b) None))"
| "btoa_loop (a # b # c # r) =
     (if a > 255 \<or> b > 255 \<or> c > 255 then Inl (DomErr ''InvalidCharacterError'')
      else rbind (btoa_loop r) (\<lambda>t. Inr (b64_group a (Some b) (Some c) @ t)))"

definition btoa :: "objs \<Rightarrow> jsval \<Rightarrow> jstr res" where
  "btoa po v = rbind (to_jstring po v) btoa_loop"

definition b64_space :: "cu \<Rightarrow> bool" where
  "b64_space c = (c \<in> {9, 10, 12, 13, 32})"

text \<open>\<open>s.replace(/==?$/, '')\<close>.\<close>

definition drop_padding :: "jstr \<Rightarrow> jstr" where
  "drop_padding s = (if s \<noteq> [] \<and> last s = 61 then (if butlast s \<noteq> [] \<and> last (butlast s) = 61 then butlast (butlast s) else butlast s)
     else s)"

text \<open>The loop of \<open>atobBytes\<close>; the shifts work on 32-bit words, so old bits fall out at the top.\<close>

fun atob_loop :: "32 word \<Rightarrow> nat \<Rightarrow> jstr \<Rightarrow> int list" where
  "atob_loop buf bits [] = []"
| "atob_loop buf bits (c # s) =
     (let buf' = push_bit 6 buf OR word_of_int (b64_index c) in
      if 8 \<le> bits + 6 then uint (signed_drop_bit (bits - 2) buf' AND 0xff) # atob_loop buf' (bits - 2) s
      else atob_loop buf' (bits + 6) s)"

definition atob_bytes :: "jstr \<Rightarrow> int list res" where
  "atob_bytes t =
     (let s1 = filter (\<lambda>c. \<not> b64_space c) t;
          s = (if length s1 mod 4 = 0 then drop_padding s1 else s1) in
      if length s mod 4 = 1 \<or> \<not> list_all (\<lambda>c. c \<in> set b64_alphabet) s then Inl (DomErr ''InvalidCharacterError'')
      else Inr (atob_loop 0 0 s))"

definition atob :: "objs \<Rightarrow> jsval \<Rightarrow> jstr res" where
  "atob po v = rbind (to_jstring po v) atob_bytes"

end
