(* ===== verification/WebTextLaws.thy ===== *)
theory WebTextLaws
  imports WebText
begin

text \<open>
  Laws of the text formats: bits of small numbers, decoding of what was encoded, percent-encoding,
  and the groups of base64.
\<close>

section \<open>Bits of small numbers\<close>

lemma and_low: "(c::int) AND 63 = c mod 64" "c AND 31 = c mod 32" "c AND 15 = c mod 16" "c AND 7 = c mod 8" "c AND 0x3ff = c mod 1024"
  using take_bit_eq_mask [of 6 c] take_bit_eq_mask [of 5 c] take_bit_eq_mask [of 4 c] take_bit_eq_mask [of 3 c] take_bit_eq_mask [of 10 c]
  by (simp_all add: mask_eq_exp_minus_1 take_bit_eq_mod)

lemma and_push_low:
  assumes "0 \<le> x" "x < 2 ^ n"
  shows "push_bit n (a::int) AND x = 0" "x AND push_bit n a = 0"
proof -
  have x: "x = take_bit n x" using assms by (simp add: take_bit_int_eq_self)
  show "push_bit n a AND x = 0"
    by (subst x, rule bit_eqI) (auto simp: bit_and_iff bit_push_bit_iff bit_take_bit_iff)
  then show "x AND push_bit n a = 0" by (simp add: and.commute)
qed

lemma or_push_low:
  assumes "0 \<le> x" "x < 2 ^ n"
  shows "push_bit n (a::int) OR x = a * 2 ^ n + x"
  using plus_and_or [of "push_bit n a" x] and_push_low [OF assms, of a] by (simp add: push_bit_eq_mult)

lemma or_6:
  assumes "0 \<le> x" "x < (64::int)"
  shows "push_bit 6 a OR x = a * 64 + x" "0x80 OR x = 0x80 + x" "(0x80 OR x) AND 0xc0 = 0x80" "(0x80 OR x) AND 0x3f = x"
proof -
  show "push_bit 6 a OR x = a * 64 + x" using or_push_low [of x 6 a] assms by simp
  show o: "0x80 OR x = 0x80 + x" using or_push_low [of x 6 2] assms by (simp add: push_bit_eq_mult)
  have "x AND 0xc0 = 0" using and_push_low(2) [of x 6 3] assms by (simp add: push_bit_eq_mult)
  moreover have "(0x80 OR x) AND 0xc0 = (0x80 AND 0xc0) OR (x AND 0xc0)" by (rule bit.conj_disj_distrib2)
  ultimately show "(0x80 OR x) AND 0xc0 = 0x80" by simp
  have "(128 + x) mod 64 = x" using assms mod_mult_self3 [of 2 64 x] by simp
  then show "(0x80 OR x) AND 0x3f = x" by (simp only: o and_low)
qed

section \<open>UTF-8\<close>

definition scalar :: "int \<Rightarrow> bool" where
  "scalar p = (0 \<le> p \<and> p \<le> 0x10ffff \<and> \<not> (0xd800 \<le> p \<and> p \<le> 0xdfff))"

lemma continuation_step:
  assumes "0 \<le> x" "x < 64"
  shows "take_continuation (Suc n) cp ((0x80 OR x) # bs) = (case take_continuation n (cp * 64 + x) bs of (k, y) \<Rightarrow> (Suc k, y))"
  by (simp only: take_continuation.simps or_6(3,4) [OF assms] or_6(1) [OF assms]) simp

lemma lead_small:
  "0 \<le> q \<Longrightarrow> q < 5 \<Longrightarrow> (0xf0 + q) mod 8 = (q::int)" "0 \<le> q \<Longrightarrow> q < 16 \<Longrightarrow> (0xe0 + q) mod 16 = (q::int)"
  "0 \<le> q \<Longrightarrow> q < 32 \<Longrightarrow> (0xc0 + q) mod 32 = (q::int)"
  using mod_mult_self3 [of 30 8 q] mod_mult_self3 [of 14 16 q] mod_mult_self3 [of 6 32 q] by simp_all

lemma lead_2:
  assumes "0x80 \<le> p" "p < 0x800"
  shows "0xc0 OR drop_bit 6 p = 0xc0 + p div 64 \<and> lead_byte (0xc0 + p div 64) = Some (1, p div 64, 0x80)"
proof -
  have "2 \<le> p div 64" "p div 64 < 32" using assms by auto
  then show ?thesis using or_push_low [of "p div 64" 5 6] lead_small(3) [of "p div 64"]
    by (simp add: drop_bit_eq_div push_bit_eq_mult lead_byte_def and_low)
qed

lemma lead_3:
  assumes "0x800 \<le> p" "p < 0x10000"
  shows "0xe0 OR drop_bit 12 p = 0xe0 + p div 4096 \<and> lead_byte (0xe0 + p div 4096) = Some (2, p div 4096, 0x800)"
proof -
  have "0 \<le> p div 4096" "p div 4096 < 16" using assms by auto
  then show ?thesis using or_push_low [of "p div 4096" 4 14] lead_small(2) [of "p div 4096"]
    by (simp add: drop_bit_eq_div push_bit_eq_mult lead_byte_def and_low)
qed

lemma lead_4:
  assumes "0x10000 \<le> p" "p \<le> 0x10ffff"
  shows "0xf0 OR drop_bit 18 p = 0xf0 + p div 262144 \<and> lead_byte (0xf0 + p div 262144) = Some (3, p div 262144, 0x10000)"
proof -
  have "0 \<le> p div 262144" "p div 262144 < 5" using assms by auto
  then show ?thesis using or_push_low [of "p div 262144" 3 30] lead_small(1) [of "p div 262144"]
    by (simp add: drop_bit_eq_div push_bit_eq_mult lead_byte_def and_low)
qed

lemma join_64:
  "(p::int) div 64 * 64 + p mod 64 = p" "p div 4096 * 64 + p div 64 mod 64 = p div 64"
  "p div 262144 * 64 + p div 4096 mod 64 = p div 4096"
  using div_mult_mod_eq [of p 64] div_mult_mod_eq [of "p div 64" 64] div_mult_mod_eq [of "p div 4096" 64]
  by (simp_all only: zdiv_zmult2_eq [symmetric] mult.commute) (simp_all add: zdiv_zmult2_eq [symmetric])

lemma continuations:
  "take_continuation 1 (p div 64) ((0x80 OR p mod 64) # bs) = (1, p)"
  "take_continuation 2 (p div 4096) ((0x80 OR p div 64 mod 64) # (0x80 OR p mod 64) # bs) = (2, p)"
  "take_continuation 3 (p div 262144) ((0x80 OR p div 4096 mod 64) # (0x80 OR p div 64 mod 64) # (0x80 OR p mod 64) # bs) = (3, p)"
  unfolding One_nat_def numeral_2_eq_2 numeral_3_eq_3
  by (simp_all only: continuation_step pos_mod_sign pos_mod_bound zero_less_numeral join_64 take_continuation.simps(1) prod.case)

lemma point_2: "0x80 \<le> p \<Longrightarrow> p < 0x800 \<Longrightarrow> utf8_point p = [0xc0 + p div 64, 0x80 OR p mod 64]"
  using lead_2 [of p] by (simp add: utf8_point_def and_low)

lemma point_3: "0x800 \<le> p \<Longrightarrow> p < 0x10000 \<Longrightarrow> utf8_point p = [0xe0 + p div 4096, 0x80 OR p div 64 mod 64, 0x80 OR p mod 64]"
  using lead_3 [of p] by (simp add: utf8_point_def and_low drop_bit_eq_div)

lemma point_4: "0x10000 \<le> p \<Longrightarrow> p \<le> 0x10ffff \<Longrightarrow>
    utf8_point p = [0xf0 + p div 262144, 0x80 OR p div 4096 mod 64, 0x80 OR p div 64 mod 64, 0x80 OR p mod 64]"
  using lead_4 [of p] by (simp add: utf8_point_def and_low drop_bit_eq_div)

lemma loop_good:
  assumes "lead_byte b = Some (need, cp, mn)" "\<not> b < 0x80" "take_continuation need cp bs = (need, p)" "\<not> bad_point mn p"
  shows "utf8_loop (b # bs) = from_code_point p @ utf8_loop (drop need bs)"
  using assms by simp

lemma decode_point:
  assumes "scalar p"
  shows "utf8_loop (utf8_point p @ bs) = from_code_point p @ utf8_loop bs"
proof -
  consider "p < 0x80" | "0x80 \<le> p" "p < 0x800" | "0x800 \<le> p" "p < 0x10000" | "0x10000 \<le> p" by linarith
  then show ?thesis
  proof cases
    case 1
    then show ?thesis by (simp add: utf8_point_def from_code_point_def)
  next
    case 2
    then have "\<not> 0xc0 + p div 64 < 0x80" "\<not> bad_point 0x80 p" using assms by (auto simp: bad_point_def scalar_def)
    then show ?thesis using loop_good [OF conjunct2 [OF lead_2 [OF 2]] _ continuations(1)] by (simp add: point_2 [OF 2] del: utf8_loop.simps)
  next
    case 3
    then have "\<not> 0xe0 + p div 4096 < 0x80" "\<not> bad_point 0x800 p" using assms by (auto simp: bad_point_def scalar_def)
    then show ?thesis using loop_good [OF conjunct2 [OF lead_3 [OF 3]] _ continuations(2)] by (simp add: point_3 [OF 3] del: utf8_loop.simps)
  next
    case 4
    have p: "p \<le> 0x10ffff" using assms by (simp add: scalar_def)
    then have "\<not> 0xf0 + p div 262144 < 0x80" "\<not> bad_point 0x10000 p" using 4 assms by (auto simp: bad_point_def scalar_def)
    then show ?thesis using loop_good [OF conjunct2 [OF lead_4 [OF 4 p]] _ continuations(3)] by (simp add: point_4 [OF 4 p] del: utf8_loop.simps)
  qed
qed


text \<open>The code points of a string, with U+FFFD for lone surrogates.\<close>

function points :: "jstr \<Rightarrow> int list" where
  "points [] = []"
| "points (c # r) = (case next_point c r of (p, r') \<Rightarrow> p # points r')"
  by pat_completeness auto
termination by (relation "measure length") (auto dest: next_point_shorter [OF sym])

lemma utf8_encode_points: "utf8_encode s = concat (map utf8_point (points s))"
  by (induction s rule: points.induct) (auto split: prod.split)

lemma well_formed_points: "well_formed s = concat (map from_code_point (points s))"
  by (induction s rule: points.induct) (auto split: prod.split)

lemma units_ok_simps [simp]:
  "units_ok []" "units_ok (c # r) \<longleftrightarrow> 0 \<le> c \<and> c < 65536 \<and> units_ok r" "units_ok (r @ t) \<longleftrightarrow> units_ok r \<and> units_ok t"
  by (auto simp: units_ok_def)

lemma next_point_scalar:
  assumes "next_point c r = (p, r')" "units_ok (c # r)"
  shows "scalar p \<and> units_ok r'"
proof -
  have "units_ok (tl r)" using assms(2) by (cases r) auto
  with assms show ?thesis
    by (auto simp: next_point_def high_unit_def low_unit_def scalar_def push_bit_eq_mult split: if_splits)
qed

lemma points_scalar: "units_ok s \<Longrightarrow> p \<in> set (points s) \<Longrightarrow> scalar p"
proof (induction s rule: points.induct)
  case (2 c r)
  then show ?case by (cases "next_point c r") (auto dest: next_point_scalar)
qed simp

lemma decode_points: "\<forall>p \<in> set ps. scalar p \<Longrightarrow> utf8_loop (concat (map utf8_point ps) @ bs) = concat (map from_code_point ps) @ utf8_loop bs"
  by (induction ps) (auto simp: decode_point)

lemma utf8_loop_encode: "units_ok s \<Longrightarrow> utf8_loop (utf8_encode s) = well_formed s"
  using decode_points [of "points s" "[]"] points_scalar [of s] by (simp add: utf8_encode_points well_formed_points)

section \<open>Well-formed strings\<close>

lemma next_from_code_point:
  assumes "scalar p"
  shows "\<exists>c r. from_code_point p = c # r \<and> (\<forall>t. next_point c (r @ t) = (p, t))"
proof (cases "p < 0x10000")
  case True
  then show ?thesis using assms by (auto simp: from_code_point_def next_point_def scalar_def high_unit_def low_unit_def)
next
  case False
  let ?q = "p - 0x10000"
  have q: "0 \<le> ?q div 1024" "?q div 1024 \<le> 0x3ff" "0 \<le> ?q mod 1024" "?q mod 1024 \<le> 0x3ff" using False assms by (auto simp: scalar_def)
  have "?q div 1024 * 1024 + ?q mod 1024 = ?q" by (rule div_mult_mod_eq)
  with q False show ?thesis
    by (simp add: from_code_point_def drop_bit_eq_div and_low next_point_def high_unit_def low_unit_def push_bit_eq_mult)
qed

lemma well_formed_append: "scalar p \<Longrightarrow> well_formed (from_code_point p @ t) = from_code_point p @ well_formed t"
  using next_from_code_point [of p] by auto

lemma well_formed_concat: "\<forall>p \<in> set ps. scalar p \<Longrightarrow> well_formed (concat (map from_code_point ps)) = concat (map from_code_point ps)"
  by (induction ps) (auto simp: well_formed_append)

lemma well_formed_idem: "units_ok s \<Longrightarrow> well_formed (well_formed s) = well_formed s"
  using well_formed_concat [of "points s"] points_scalar [of s] by (simp add: well_formed_points)

lemma take_continuation_bounds:
  "take_continuation n cp bs = (k, x) \<Longrightarrow> 0 \<le> cp \<Longrightarrow> 0 \<le> x"
  by (induction n cp bs arbitrary: k x rule: take_continuation.induct) (auto split: if_splits prod.splits)

lemma utf8_loop_points: "\<forall>b \<in> set bs. 0 \<le> b \<Longrightarrow> \<exists>ps. utf8_loop bs = concat (map from_code_point ps) \<and> (\<forall>p \<in> set ps. scalar p)"
proof (induction bs rule: utf8_loop.induct)
  case 1
  show ?case by (intro exI [of _ "[]"]) simp
next
  case (2 b bs)
  have bad: "from_code_point 0xfffd = [0xfffd]" "scalar 0xfffd" by (simp_all add: from_code_point_def scalar_def)
  have add: "\<exists>ps. from_code_point p @ t = concat (map from_code_point ps) \<and> (\<forall>p \<in> set ps. scalar p)"
    if "scalar p" "\<exists>ps. t = concat (map from_code_point ps) \<and> (\<forall>p \<in> set ps. scalar p)" for p t
    using that by (metis concat.simps(2) list.simps(9) set_ConsD)
  have rest: "\<forall>c \<in> set (drop j bs). 0 \<le> c" for j using "2.prems" by (meson in_set_dropD list.set_intros(2))
  show ?case
  proof (cases "b < 0x80")
    case True
    then have "from_code_point b = [b]" "scalar b" using "2.prems" by (auto simp: from_code_point_def scalar_def)
    with add [of b "utf8_loop bs"] 2 True show ?thesis by simp
  next
    case f: False
    show ?thesis
    proof (cases "lead_byte b")
      case None
      with add [OF bad(2), of "utf8_loop bs"] 2 f show ?thesis by (simp add: bad)
    next
      case (Some x)
      obtain need cp mn where x: "x = (need, cp, mn)" by (cases x)
      obtain k p where k: "take_continuation need cp bs = (k, p)" by fastforce
      show ?thesis
      proof (cases "k < need \<or> bad_point mn p")
        case True
        with add [OF bad(2), of "utf8_loop (drop k bs)"] 2(3) [OF f Some x [symmetric] refl k [symmetric] True rest] f Some x k show ?thesis
          by (simp add: bad)
      next
        case False
        have "0 \<le> cp" using Some x "2.prems" by (auto simp: lead_byte_def split: if_splits)
        then have "scalar p" using take_continuation_bounds [OF k] False by (auto simp: bad_point_def scalar_def)
        with add [of p "utf8_loop (drop need bs)"] 2(4) [OF f Some x [symmetric] refl k [symmetric] False rest] f Some x k False show ?thesis
          by simp
      qed
    qed
  qed
qed

lemma utf8_loop_well_formed: "\<forall>b \<in> set bs. 0 \<le> b \<Longrightarrow> well_formed (utf8_loop bs) = utf8_loop bs"
  using utf8_loop_points [of bs] well_formed_concat by metis


section \<open>Forms\<close>

lemma digit_of_hex: "0 \<le> d \<Longrightarrow> d < 16 \<Longrightarrow> digit_of (hex_digit d) = d \<and> hex_unit (hex_digit d)"
  by (auto simp: digit_of_def hex_digit_def hex_unit_def)

definition plus_space :: "jstr \<Rightarrow> jstr" where
  "plus_space s = map (\<lambda>c. if c = 43 then 32 else c) s"

lemma percent_decode_byte:
  assumes "0 \<le> b" "b < 256"
  shows "percent_decode (plus_space (form_byte b) @ r) = b # percent_decode r"
proof -
  consider "b = 32" | "form_safe b" | "b \<noteq> 32" "\<not> form_safe b" by blast
  then show ?thesis
  proof cases
    case 1
    then show ?thesis by (simp add: form_byte_def plus_space_def)
  next
    case 2
    then have "b \<noteq> 32" "b \<noteq> 37" "b \<noteq> 43" "b < 0x80" by (auto simp: form_safe_def)
    with 2 show ?thesis by (simp add: form_byte_def plus_space_def)
  next
    case 3
    have d: "0 \<le> b div 16" "b div 16 < 16" "0 \<le> b mod 16" "b mod 16 < 16" using assms by auto
    have h: "hex_digit x \<noteq> 43" if "0 \<le> x" "x < 16" for x using that by (auto simp: hex_digit_def)
    have "16 * (b div 16) + b mod 16 = b" by simp
    with 3 show ?thesis using digit_of_hex [OF d(1,2)] digit_of_hex [OF d(3,4)] h [OF d(1,2)] h [OF d(3,4)]
      by (simp add: form_byte_def plus_space_def)
  qed
qed

lemma plus_space_append: "plus_space (s @ t) = plus_space s @ plus_space t"
  by (simp add: plus_space_def)

lemma percent_decode_bytes:
  "\<forall>b \<in> set bs. 0 \<le> b \<and> b < 256 \<Longrightarrow> percent_decode (plus_space (concat (map form_byte bs))) = bs"
proof (induction bs)
  case (Cons b bs)
  then have "percent_decode (plus_space (form_byte b) @ plus_space (concat (map form_byte bs))) = b # bs"
    using percent_decode_byte [of b] by simp
  then show ?case by (simp add: plus_space_append)
qed (simp add: plus_space_def)

lemma utf8_point_bytes:
  assumes "scalar p"
  shows "\<forall>b \<in> set (utf8_point p). 0 \<le> b \<and> b < 256"
proof -
  have low: "0 \<le> 0x80 OR x \<and> 0x80 OR x < 256" if "0 \<le> x" "x < 64" for x :: int
    using or_6(2) [OF that] that by simp
  have m: "0 \<le> x mod 64" "x mod 64 < 64" for x :: int by simp_all
  consider "p < 0x80" | "0x80 \<le> p" "p < 0x800" | "0x800 \<le> p" "p < 0x10000" | "0x10000 \<le> p" by linarith
  then show ?thesis
  proof cases
    case 1
    then show ?thesis using assms by (simp add: utf8_point_def scalar_def)
  next
    case 2
    then have "0 \<le> p div 64" "p div 64 < 32" by auto
    then show ?thesis using low [OF m] by (simp add: point_2 [OF 2] )
  next
    case 3
    then have "0 \<le> p div 4096" "p div 4096 < 16" by auto
    then show ?thesis using low [OF m] by (simp add: point_3 [OF 3])
  next
    case 4
    have p: "p \<le> 0x10ffff" using assms by (simp add: scalar_def)
    then have "0 \<le> p div 262144" "p div 262144 < 5" using 4 by auto
    then show ?thesis using low [OF m] by (simp add: point_4 [OF 4 p])
  qed
qed

lemma utf8_encode_bytes: "units_ok s \<Longrightarrow> b \<in> set (utf8_encode s) \<Longrightarrow> 0 \<le> b \<and> b < 256"
  using utf8_point_bytes points_scalar by (auto simp: utf8_encode_points)

lemma safe_byte: "form_safe b \<Longrightarrow> form_byte b = [b] \<and> b < 0x80 \<and> b \<noteq> 43 \<and> b \<noteq> 37"
  by (auto simp: form_byte_def form_safe_def)

lemma plain_form_byte: "37 \<notin> set (form_byte b) \<Longrightarrow> 43 \<notin> set (form_byte b) \<Longrightarrow> form_safe b \<and> form_byte b = [b]"
  by (auto simp: form_byte_def split: if_splits)

lemma utf8_loop_ascii: "\<forall>b \<in> set bs. b < 0x80 \<Longrightarrow> utf8_loop bs = bs"
  by (induction bs) auto

lemma concat_plain: "37 \<notin> set (concat (map form_byte bs)) \<Longrightarrow> 43 \<notin> set (concat (map form_byte bs)) \<Longrightarrow>
    concat (map form_byte bs) = bs \<and> (\<forall>b \<in> set bs. b < 0x80)"
proof (induction bs)
  case (Cons b bs)
  then have "form_safe b \<and> form_byte b = [b]" by (intro plain_form_byte) auto
  moreover from this have "b < 0x80" by (simp add: safe_byte)
  moreover have "37 \<notin> set (concat (map form_byte bs))" "43 \<notin> set (concat (map form_byte bs))" using Cons.prems by auto
  ultimately show ?case using Cons.IH by simp
qed simp

lemma well_formed_ascii: "list_all form_safe s \<Longrightarrow> well_formed s = s"
  by (induction s) (auto simp: next_point_def form_safe_def high_unit_def low_unit_def from_code_point_def)

text \<open>
  What the layer needs of the native decoder: it decodes the UTF-8 of a string that does not begin with
  a byte order mark, if it does not throw.
\<close>

definition native_decodes :: "(int list \<Rightarrow> jstr option) \<Rightarrow> bool" where
  "native_decodes native = (\<forall>s. units_ok s \<and> (s = [] \<or> hd s \<noteq> 0xfeff) \<longrightarrow> native (utf8_encode s) \<in> {None, Some (well_formed s)})"

definition unmarked :: "jstr \<Rightarrow> bool" where
  "unmarked s = (units_ok s \<and> (s = [] \<or> hd s \<noteq> 0xfeff))"

lemma utf8_decode_encode: "native_decodes native \<Longrightarrow> unmarked s \<Longrightarrow> utf8_decode native (utf8_encode s) = well_formed s"
  by (auto simp: utf8_decode_def native_decodes_def unmarked_def utf8_loop_encode split: option.split)

lemma form_round_trip:
  assumes "native_decodes native" "unmarked s"
  shows "form_decode native (form_encode s) = well_formed s"
proof (cases "list_all form_safe s")
  case True
  then have "37 \<notin> set s" "43 \<notin> set s" by (auto simp: list_all_iff form_safe_def)
  with True show ?thesis by (simp add: form_encode_def form_decode_def well_formed_ascii)
next
  case False
  let ?e = "concat (map form_byte (utf8_encode s))"
  have d: "percent_decode (plus_space ?e) = utf8_encode s"
    by (rule percent_decode_bytes) (use utf8_encode_bytes assms(2) in \<open>auto simp: unmarked_def\<close>)
  have "form_decode native ?e = well_formed s"
  proof (cases "37 \<notin> set ?e \<and> 43 \<notin> set ?e")
    case True
    then have "?e = utf8_encode s" "\<forall>b \<in> set (utf8_encode s). b < 0x80" using concat_plain by blast+
    then have "?e = utf8_loop (utf8_encode s)" by (simp add: utf8_loop_ascii)
    with True assms(2) show ?thesis by (simp add: form_decode_def utf8_loop_encode unmarked_def)
  next
    case False
    then show ?thesis using d utf8_decode_encode [OF assms] by (auto simp: form_decode_def plus_space_def)
  qed
  with False show ?thesis by (simp add: form_encode_def)
qed

section \<open>Queries\<close>

lemma form_units:
  assumes "units_ok s" "c \<in> set (form_encode s)"
  shows "c \<noteq> 38 \<and> c \<noteq> 61"
proof (cases "list_all form_safe s")
  case True
  with assms show ?thesis by (auto simp: form_encode_def list_all_iff form_safe_def)
next
  case False
  with assms obtain b where b: "b \<in> set (utf8_encode s)" "c \<in> set (form_byte b)" by (auto simp: form_encode_def)
  have h: "hex_digit x \<noteq> 38 \<and> hex_digit x \<noteq> 61" if "0 \<le> x" "x < 16" for x using that by (auto simp: hex_digit_def)
  from utf8_encode_bytes [OF assms(1) b(1)] have "0 \<le> b div 16" "b div 16 < 16" "0 \<le> b mod 16" "b mod 16 < 16" by auto
  then have "hex_digit (b div 16) \<noteq> 38 \<and> hex_digit (b div 16) \<noteq> 61" "hex_digit (b mod 16) \<noteq> 38 \<and> hex_digit (b mod 16) \<noteq> 61"
    using h by blast+
  moreover have "form_safe b \<Longrightarrow> b \<noteq> 38 \<and> b \<noteq> 61" by (auto simp: form_safe_def)
  ultimately show ?thesis using b(2) by (auto simp: form_byte_def split: if_splits)
qed

lemma form_separators: "unmarked s \<Longrightarrow> 38 \<notin> set (form_encode s) \<and> 61 \<notin> set (form_encode s)"
  using form_units [of s 38] form_units [of s 61] by (auto simp: unmarked_def)

lemma index_of_first: "d \<notin> set a \<Longrightarrow> index_of [d] (a @ d # b) = Some (length a)"
  by (induction a) auto

lemma parse_part_encoded:
  assumes "native_decodes native" "unmarked n" "unmarked v"
  shows "parse_part native (form_encode n @ [61] @ form_encode v) = (well_formed n, well_formed v)"
proof -
  have "61 \<notin> set (form_encode n)" using form_separators [OF assms(2)] by simp
  then have "index_of [61] (form_encode n @ 61 # form_encode v) = Some (length (form_encode n))" by (rule index_of_first)
  then show ?thesis using form_round_trip [OF assms(1)] assms(2,3) by (simp add: parse_part_def)
qed

lemma parse_serialized:
  assumes "native_decodes native" "\<forall>(n, v) \<in> set l. unmarked n \<and> unmarked v"
  shows "parse_query native (serialize_query l) = map (\<lambda>(n, v). (well_formed n, well_formed v)) l"
proof (cases "l = []")
  case True
  then show ?thesis by (simp add: parse_query_def serialize_query_def)
next
  case False
  let ?f = "\<lambda>(n, v). form_encode n @ [61] @ form_encode v"
  have sep: "\<forall>w \<in> set (map ?f l). 38 \<notin> set w" and ne: "\<forall>w \<in> set (map ?f l). w \<noteq> []"
    using assms(2) form_separators by auto
  have s: "split_on 38 (serialize_query l) = map ?f l"
    unfolding serialize_query_def by (rule split_join) (use False sep in auto)
  have "serialize_query l \<noteq> []"
  proof
    assume "serialize_query l = []"
    with s have "map ?f l = [[]]" by simp
    with ne show False by auto
  qed
  moreover have "filter (\<lambda>p. p \<noteq> []) (map ?f l) = map ?f l" using ne by (simp only: filter_id_conv)
  moreover have "map (parse_part native) (map ?f l) = map (\<lambda>(n, v). (well_formed n, well_formed v)) l"
    using assms parse_part_encoded [OF assms(1)] by auto
  ultimately show ?thesis by (simp only: parse_query_def s if_False)
qed


section \<open>Base64\<close>

text \<open>The decoder on unbounded numbers, that keeps exactly the bits it still needs.\<close>

fun bits_loop :: "int \<Rightarrow> nat \<Rightarrow> jstr \<Rightarrow> int list" where
  "bits_loop acc bits [] = []"
| "bits_loop acc bits (c # s) =
     (let n = acc * 64 + b64_index c in
      if 8 \<le> bits + 6 then n div 2 ^ (bits - 2) # bits_loop (n mod 2 ^ (bits - 2)) (bits - 2) s
      else bits_loop n (bits + 6) s)"

lemma b64_digits: "list_all (\<lambda>i. b64_index (b64_digit (int i)) = int i \<and> b64_digit (int i) \<in> set b64_alphabet) [0..<64]"
  by code_simp

lemma b64_digit_index: "0 \<le> i \<Longrightarrow> i < 64 \<Longrightarrow> b64_index (b64_digit i) = i \<and> b64_digit i \<in> set b64_alphabet"
  using b64_digits by (auto simp: list_all_iff dest!: bspec [of _ _ "nat i"])

lemma digit_in_alphabet: "0 \<le> i \<Longrightarrow> i < 64 \<Longrightarrow> b64_digit i \<in> set b64_alphabet"
  using b64_digit_index by blast

lemma b64_alphabet_facts: "61 \<notin> set b64_alphabet" "list_all (\<lambda>c. \<not> b64_space c) b64_alphabet" "length b64_alphabet = 64"
  by code_simp+

lemma b64_index_range: "c \<in> set b64_alphabet \<Longrightarrow> 0 \<le> b64_index c \<and> b64_index c < 64"
  using index_of_Some [of "[c]" b64_alphabet] b64_alphabet_facts(3) by (auto simp: b64_index_def split: option.split)

lemma word_emit:
  assumes "b \<le> 6"
  shows "uint (signed_drop_bit b (w :: 32 word) AND 0xff) = uint w div 2 ^ b mod 256"
proof -
  have "signed_drop_bit b w AND mask 8 = take_bit 8 (drop_bit b w)"
    by (intro bit_word_eqI) (use assms in \<open>auto simp: bit_simps\<close>)
  moreover have "mask 8 = (0xff :: 32 word)" by (simp add: mask_eq_exp_minus_1)
  ultimately have "uint (signed_drop_bit b w AND 0xff) = take_bit 8 (drop_bit b (take_bit 32 (uint w)))"
    by (simp only: unsigned_take_bit_eq unsigned_drop_bit_eq) simp
  moreover have "take_bit 32 (uint w) = uint w" using uint_lt2p [of w] by (simp add: take_bit_int_eq_self)
  ultimately show ?thesis by (simp add: take_bit_eq_mod drop_bit_eq_div)
qed

lemma word_shift_in:
  assumes "0 \<le> i" "i < 64"
  shows "uint (push_bit 6 (w :: 32 word) OR word_of_int i) = (uint w * 64 + i) mod 2 ^ 32"
proof -
  have "push_bit 6 w OR word_of_int i = word_of_int (push_bit 6 (uint w) OR i)"
    by (simp add: of_int_or_eq push_bit_eq_mult)
  also have "push_bit 6 (uint w) OR i = uint w * 64 + i" using or_push_low [of i 6 "uint w"] assms by simp
  finally show ?thesis by (simp only: uint_word_of_int) simp
qed

lemma byte_above: "(x::int) div 2 ^ k mod 256 = x mod 2 ^ (k + 8) div 2 ^ k"
  by (simp add: power_add zmod_zmult2_eq div_pos_pos_trivial)

lemma low_bits_shift:
  assumes "0 \<le> i" "i < (64::int)"
  shows "(u * 64 + i) mod 2 ^ (b + 6) = u mod 2 ^ b * 64 + i"
proof -
  have "(u * 64 + i) div 64 = u" "(u * 64 + i) mod 64 = i" using assms by auto
  then show ?thesis using zmod_zmult2_eq [of "2 ^ b" "u * 64 + i" 64] by (simp add: power_add mult.commute)
qed

lemma mod_power_mod: "k \<le> m \<Longrightarrow> (x::int) mod 2 ^ m mod 2 ^ k = x mod 2 ^ k"
  by (simp add: mod_mod_cancel le_imp_power_dvd)

text \<open>The word loop computes what the number loop computes: the bits above do not matter.\<close>

lemma atob_loop_bits:
  assumes "bits \<le> 7" "set s \<subseteq> set b64_alphabet"
  shows "atob_loop buf bits s = bits_loop (uint buf mod 2 ^ bits) bits s"
  using assms
proof (induction s arbitrary: buf bits)
  case (Cons c s)
  define w where "w = push_bit 6 buf OR word_of_int (b64_index c)"
  define x where "x = uint buf * 64 + b64_index c"
  have i: "0 \<le> b64_index c" "b64_index c < 64" using b64_index_range [of c] Cons.prems by auto
  have w: "uint w mod 2 ^ m = x mod 2 ^ m" if "m \<le> 32" for m
    using word_shift_in [OF i, of buf] mod_power_mod [OF that, of x] by (simp add: w_def x_def)
  have x: "x mod 2 ^ (bits + 6) = uint buf mod 2 ^ bits * 64 + b64_index c" using low_bits_shift [OF i] by (simp add: x_def)
  have s: "set s \<subseteq> set b64_alphabet" using Cons.prems by simp
  show ?case
  proof (cases "8 \<le> bits + 6")
    case True
    then have b: "bits - 2 \<le> 6" "bits - 2 \<le> 7" "bits - 2 + 8 = bits + 6" "bits - 2 + 8 \<le> 32" "bits - 2 \<le> bits + 6" using Cons.prems by auto
    have "uint (signed_drop_bit (bits - 2) w AND 0xff) = x mod 2 ^ (bits + 6) div 2 ^ (bits - 2)"
      using word_emit [OF b(1), of w] byte_above [of "uint w" "bits - 2"] w [OF b(4)] by (simp only: b(3))
    moreover have "uint w mod 2 ^ (bits - 2) = x mod 2 ^ (bits + 6) mod 2 ^ (bits - 2)"
      using w [of "bits - 2"] mod_power_mod [OF b(5), of x] b(1) by simp
    ultimately show ?thesis using Cons.IH [OF b(2) s, of w] True x by (simp add: Let_def w_def)
  next
    case False
    then have b: "bits + 6 \<le> 7" by simp
    moreover have "uint w mod 2 ^ (bits + 6) = uint buf mod 2 ^ bits * 64 + b64_index c" using w [of "bits + 6"] b x by simp
    ultimately show ?thesis using Cons.IH [of "bits + 6" w] s False by (auto simp: Let_def w_def)
  qed
qed simp


definition latin1 :: "int \<Rightarrow> bool" where
  "latin1 c = (0 \<le> c \<and> c < 256)"

lemma quotient_remainder: "n = q * k + r \<Longrightarrow> 0 \<le> r \<Longrightarrow> r < (k::int) \<Longrightarrow> n div k = q \<and> n mod k = r"
  by (simp add: div_pos_pos_trivial)

lemma bits_group:
  assumes "0 \<le> i" "i < 64" "0 \<le> j" "j < 64"
  shows "bits_loop 0 0 [b64_digit i, b64_digit j] = [(i * 64 + j) div 16]"
    "0 \<le> k \<Longrightarrow> k < 64 \<Longrightarrow> bits_loop 0 0 [b64_digit i, b64_digit j, b64_digit k] = [(i * 64 + j) div 16, (j mod 16 * 64 + k) div 4]"
    "0 \<le> k \<Longrightarrow> k < 64 \<Longrightarrow> 0 \<le> l \<Longrightarrow> l < 64 \<Longrightarrow> bits_loop 0 0 (b64_digit i # b64_digit j # b64_digit k # b64_digit l # s) =
       (i * 64 + j) div 16 # (j mod 16 * 64 + k) div 4 # (k mod 4 * 64 + l) # bits_loop 0 0 s"
proof -
  have j: "(i * 64 + j) mod 16 = j mod 16" using mod_mult_self3 [of "i * 4" 16 j] by (simp add: mult.commute)
  have k: "(x * 64 + k) mod 4 = k mod 4" for x k :: int using mod_mult_self3 [of "x * 16" 4 k] by (simp add: mult.commute)
  show "bits_loop 0 0 [b64_digit i, b64_digit j] = [(i * 64 + j) div 16]"
    using assms by (simp add: b64_digit_index)
  show "0 \<le> k \<Longrightarrow> k < 64 \<Longrightarrow> bits_loop 0 0 [b64_digit i, b64_digit j, b64_digit k] = [(i * 64 + j) div 16, (j mod 16 * 64 + k) div 4]"
    using assms j by (simp add: b64_digit_index)
  show "0 \<le> k \<Longrightarrow> k < 64 \<Longrightarrow> 0 \<le> l \<Longrightarrow> l < 64 \<Longrightarrow> bits_loop 0 0 (b64_digit i # b64_digit j # b64_digit k # b64_digit l # s) =
       (i * 64 + j) div 16 # (j mod 16 * 64 + k) div 4 # (k mod 4 * 64 + l) # bits_loop 0 0 s"
    using assms j k by (simp add: b64_digit_index)
qed

text \<open>A byte is two parts at each of the three places where a group cuts it.\<close>

lemma three_bytes:
  fixes a1 :: int
  assumes "0 \<le> a1" "a1 < 64" "0 \<le> a0" "a0 < 4" "0 \<le> x1" "x1 < 16" "0 \<le> x0" "x0 < 16" "0 \<le> y1" "y1 < 4" "0 \<le> y0" "y0 < 64"
    and n: "n = (a1 * 4 + a0) * 65536 + (x1 * 16 + x0) * 256 + (y1 * 64 + y0)"
  shows "n div 262144 mod 64 = a1" "n div 4096 mod 64 = a0 * 16 + x1" "n div 64 mod 64 = x0 * 4 + y1" "n mod 64 = y0"
proof -
  have "n div 262144 = a1" by (rule quotient_remainder [THEN conjunct1, of _ _ _ "a0 * 65536 + (x1 * 16 + x0) * 256 + (y1 * 64 + y0)"]) (use assms in auto)
  then show "n div 262144 mod 64 = a1" using assms by simp
  have "n div 4096 = (a1 * 4 + a0) * 16 + x1"
    by (rule quotient_remainder [THEN conjunct1, of _ _ _ "x0 * 256 + (y1 * 64 + y0)"]) (use assms in auto)
  moreover have "((a1 * 4 + a0) * 16 + x1) mod 64 = a0 * 16 + x1"
    by (rule quotient_remainder [THEN conjunct2, of _ a1]) (use assms in auto)
  ultimately show "n div 4096 mod 64 = a0 * 16 + x1" by simp
  have "n div 64 = (a1 * 4 + a0) * 1024 + (x1 * 16 + x0) * 4 + y1" by (rule quotient_remainder [THEN conjunct1, of _ _ _ y0]) (use assms in auto)
  moreover have "((a1 * 4 + a0) * 1024 + (x1 * 16 + x0) * 4 + y1) mod 64 = x0 * 4 + y1"
    by (rule quotient_remainder [THEN conjunct2, of _ "(a1 * 4 + a0) * 16 + x1"]) (use assms in auto)
  ultimately show "n div 64 mod 64 = x0 * 4 + y1" by simp
  show "n mod 64 = y0"
    by (rule quotient_remainder [THEN conjunct2, of _ "(a1 * 4 + a0) * 1024 + (x1 * 16 + x0) * 4 + y1"]) (use assms in auto)
qed

lemma three_parts:
  fixes a1 :: int
  assumes "0 \<le> x1" "x1 < 16" "0 \<le> y1" "y1 < 4"
  shows "(a1 * 64 + (a0 * 16 + x1)) div 16 = a1 * 4 + a0" "((a0 * 16 + x1) mod 16 * 64 + (x0 * 4 + y1)) div 4 = x1 * 16 + x0"
    "(x0 * 4 + y1) mod 4 * 64 + y0 = y1 * 64 + y0"
proof -
  show "(a1 * 64 + (a0 * 16 + x1)) div 16 = a1 * 4 + a0" by (rule quotient_remainder [THEN conjunct1, of _ _ _ x1]) (use assms in auto)
  have "(a0 * 16 + x1) mod 16 = x1" by (rule quotient_remainder [THEN conjunct2, of _ a0]) (use assms in auto)
  moreover have "(x1 * 64 + (x0 * 4 + y1)) div 4 = x1 * 16 + x0" by (rule quotient_remainder [THEN conjunct1, of _ _ _ y1]) (use assms in auto)
  ultimately show "((a0 * 16 + x1) mod 16 * 64 + (x0 * 4 + y1)) div 4 = x1 * 16 + x0" by simp
  have "(x0 * 4 + y1) mod 4 = y1" by (rule quotient_remainder [THEN conjunct2, of _ x0]) (use assms in auto)
  then show "(x0 * 4 + y1) mod 4 * 64 + y0 = y1 * 64 + y0" by simp
qed

lemma latin1_parts:
  assumes "latin1 c"
  shows "0 \<le> c div 4" "c div 4 < 64" "0 \<le> c mod 4" "c mod 4 < 4" "0 \<le> c div 16" "c div 16 < 16" "0 \<le> c mod 16" "c mod 16 < 16"
    "0 \<le> c div 64" "c div 64 < 4" "0 \<le> c mod 64" "c mod 64 < 64"
  using assms by (auto simp: latin1_def)

lemma group_bits:
  assumes "latin1 a" "latin1 b" "latin1 c"
  shows "b64_group a (Some b) (Some c) = [b64_digit (a div 4), b64_digit (a mod 4 * 16 + b div 16), b64_digit (b mod 16 * 4 + c div 64), b64_digit (c mod 64)]"
    "b64_group a (Some b) None = [b64_digit (a div 4), b64_digit (a mod 4 * 16 + b div 16), b64_digit (b mod 16 * 4 + 0 div 64), 61]"
    "b64_group a None None = [b64_digit (a div 4), b64_digit (a mod 4 * 16 + 0 div 16), 61, 61]"
proof -
  have n: "push_bit 16 a OR push_bit 8 x OR y = a * 65536 + x * 256 + y" if "latin1 x" "latin1 y" for x y
    using or_push_low [of y 8 x] or_push_low [of "x * 256 + y" 16 a] that by (simp add: latin1_def push_bit_eq_mult)
  have d: "(a * 65536 + x * 256 + y) div 262144 mod 64 = a div 4" "(a * 65536 + x * 256 + y) div 4096 mod 64 = a mod 4 * 16 + x div 16"
    "(a * 65536 + x * 256 + y) div 64 mod 64 = x mod 16 * 4 + y div 64" "(a * 65536 + x * 256 + y) mod 64 = y mod 64" if "latin1 x" "latin1 y" for x y
    by (rule three_bytes [OF latin1_parts(1-4) [OF assms(1)] latin1_parts(5-8) [OF that(1)] latin1_parts(9-12) [OF that(2)]];
        simp only: div_mult_mod_eq)+
  have z: "latin1 0" by (simp add: latin1_def)
  have powers: "(2::int) ^ 18 = 262144" "(2::int) ^ 12 = 4096" "(2::int) ^ 6 = 64" by simp_all
  show "b64_group a (Some b) (Some c) = [b64_digit (a div 4), b64_digit (a mod 4 * 16 + b div 16), b64_digit (b mod 16 * 4 + c div 64), b64_digit (c mod 64)]"
    by (simp only: b64_group_def option.simps n [OF assms(2,3)] Let_def drop_bit_eq_div and_low powers d [OF assms(2,3)]) simp
  show "b64_group a (Some b) None = [b64_digit (a div 4), b64_digit (a mod 4 * 16 + b div 16), b64_digit (b mod 16 * 4 + 0 div 64), 61]"
    by (simp only: b64_group_def option.simps n [OF assms(2) z] Let_def drop_bit_eq_div and_low powers d [OF assms(2) z]) simp
  show "b64_group a None None = [b64_digit (a div 4), b64_digit (a mod 4 * 16 + 0 div 16), 61, 61]"
    by (simp only: b64_group_def option.simps n [OF z z] Let_def drop_bit_eq_div and_low powers d [OF z z]) simp
qed

lemma group_values:
  assumes "latin1 a" "latin1 b" "latin1 c"
  shows "0 \<le> a div 4" "a div 4 < 64" "0 \<le> a mod 4 * 16 + b div 16" "a mod 4 * 16 + b div 16 < 64"
    "0 \<le> b mod 16 * 4 + c div 64" "b mod 16 * 4 + c div 64 < 64" "0 \<le> c mod 64" "c mod 64 < 64"
    "(a div 4 * 64 + (a mod 4 * 16 + b div 16)) div 16 = a" "((a mod 4 * 16 + b div 16) mod 16 * 64 + (b mod 16 * 4 + c div 64)) div 4 = b"
    "(b mod 16 * 4 + c div 64) mod 4 * 64 + c mod 64 = c"
proof -
  have two: "0 \<le> u * m + v \<and> u * m + v < 64" if "0 \<le> u" "u < k" "0 \<le> v" "v < m" "k * m = 64" for u v k m :: int
  proof -
    have "(u + 1) * m \<le> k * m" using that by (intro mult_right_mono) auto
    then show ?thesis using that by (simp add: algebra_simps)
  qed
  note q = latin1_parts(5,6) [OF assms(2)] latin1_parts(9,10) [OF assms(3)]
  have "0 \<le> a mod 4 * 16 + b div 16 \<and> a mod 4 * 16 + b div 16 < 64"
    by (rule two [OF latin1_parts(3,4) [OF assms(1)] latin1_parts(5,6) [OF assms(2)]]) simp
  then show "0 \<le> a mod 4 * 16 + b div 16" "a mod 4 * 16 + b div 16 < 64" by (rule conjunct1 conjunct2)+
  have "0 \<le> b mod 16 * 4 + c div 64 \<and> b mod 16 * 4 + c div 64 < 64"
    by (rule two [OF latin1_parts(7,8) [OF assms(2)] latin1_parts(9,10) [OF assms(3)]]) simp
  then show "0 \<le> b mod 16 * 4 + c div 64" "b mod 16 * 4 + c div 64 < 64" by (rule conjunct1 conjunct2)+
  show "0 \<le> a div 4" "a div 4 < 64" "0 \<le> c mod 64" "c mod 64 < 64"
    by (rule latin1_parts(1,2) [OF assms(1)] latin1_parts(11,12) [OF assms(3)])+
  show "(a div 4 * 64 + (a mod 4 * 16 + b div 16)) div 16 = a"
    using three_parts(1) [OF q, of "a div 4" "a mod 4"] by (simp only: div_mult_mod_eq)
  show "((a mod 4 * 16 + b div 16) mod 16 * 64 + (b mod 16 * 4 + c div 64)) div 4 = b"
    using three_parts(2) [OF q, of "a mod 4" "b mod 16"] by (simp only: div_mult_mod_eq)
  show "(b mod 16 * 4 + c div 64) mod 4 * 64 + c mod 64 = c"
    using three_parts(3) [OF q, of "b mod 16" "c mod 64"] by (simp only: div_mult_mod_eq)
qed

text \<open>What \<open>btoa\<close> gives: digits that decode to the bytes, and up to two signs of padding.\<close>

lemma btoa_digits:
  "\<forall>c \<in> set s. latin1 c \<Longrightarrow> \<exists>d k. btoa_loop s = Inr (d @ replicate k 61) \<and> k \<le> 2 \<and> (length d + k) mod 4 = 0 \<and>
     set d \<subseteq> set b64_alphabet \<and> bits_loop 0 0 d = s"
proof (induction s rule: btoa_loop.induct)
  case 1
  show ?case by (intro exI [of _ "[]"] exI [of _ 0]) simp
next
  case (2 a)
  have z: "latin1 0" by (simp add: latin1_def)
  have a: "latin1 a" using 2 by simp
  note v = group_values [OF a z z]
  let ?d = "[b64_digit (a div 4), b64_digit (a mod 4 * 16 + 0 div 16)]"
  have "bits_loop 0 0 ?d = [a]" by (simp only: bits_group(1) [OF v(1-4)] v(9))
  moreover have "set ?d \<subseteq> set b64_alphabet" 
    using digit_in_alphabet [OF v(1,2)] digit_in_alphabet [OF v(3,4)] by (simp only: list.set empty_subsetI insert_subset simp_thms)
  ultimately show ?case using a group_bits(3) [OF a z z]
    by (intro exI [of _ ?d] exI [of _ 2]) (simp add: latin1_def numeral_2_eq_2 del: bits_loop.simps)
next
  case (3 a b)
  have z: "latin1 0" by (simp add: latin1_def)
  have a: "latin1 a" "latin1 b" using 3 by simp_all
  note v = group_values [OF a z]
  let ?d = "[b64_digit (a div 4), b64_digit (a mod 4 * 16 + b div 16), b64_digit (b mod 16 * 4 + 0 div 64)]"
  have "bits_loop 0 0 ?d = [a, b]" by (simp only: bits_group(2) [OF v(1-6)] v(9,10))
  moreover have "set ?d \<subseteq> set b64_alphabet" 
    using digit_in_alphabet [OF v(1,2)] digit_in_alphabet [OF v(3,4)] digit_in_alphabet [OF v(5,6)]
    by (simp only: list.set empty_subsetI insert_subset simp_thms)
  ultimately show ?case using a group_bits(2) [OF a z]
    by (intro exI [of _ ?d] exI [of _ 1]) (simp add: latin1_def del: bits_loop.simps)
next
  case (4 a b c r)
  have l: "latin1 a" "latin1 b" "latin1 c" using 4 by simp_all
  note v = group_values [OF l]
  have ok: "\<not> (a > 255 \<or> b > 255 \<or> c > 255)" using l by (auto simp: latin1_def)
  obtain d k where r: "btoa_loop r = Inr (d @ replicate k 61)" "k \<le> 2" "(length d + k) mod 4 = 0" "set d \<subseteq> set b64_alphabet"
    "bits_loop 0 0 d = r" using 4(1) [OF ok] 4(2) by auto
  let ?d = "b64_digit (a div 4) # b64_digit (a mod 4 * 16 + b div 16) # b64_digit (b mod 16 * 4 + c div 64) # b64_digit (c mod 64) # d"
  have "bits_loop 0 0 ?d = a # b # c # r" by (simp only: bits_group(3) [OF v(1-8)] v(9-11) r(5))
  moreover have "set ?d \<subseteq> set b64_alphabet" 
    using digit_in_alphabet [OF v(1,2)] digit_in_alphabet [OF v(3,4)] digit_in_alphabet [OF v(5,6)] digit_in_alphabet [OF v(7,8)] r(4)
    by (simp only: list.set insert_subset simp_thms)
  moreover have "(length ?d + k) mod 4 = 0" using r(3) by (simp add: add.assoc)
  ultimately show ?case using r ok group_bits(1) [OF l]
    by (intro exI [of _ ?d] exI [of _ k]) (simp del: bits_loop.simps)
qed

lemma drop_padding_digits: "61 \<notin> set d \<Longrightarrow> k \<le> 2 \<Longrightarrow> drop_padding (d @ replicate k 61) = d"
proof -
  assume d: "61 \<notin> set d" and "k \<le> 2"
  have l: "d \<noteq> [] \<Longrightarrow> last d \<noteq> 61" using d last_in_set by metis
  consider "k = 0" | "k = 1" | "k = 2" using \<open>k \<le> 2\<close> by linarith
  then show "drop_padding (d @ replicate k 61) = d"
  proof cases
    case 1
    then show ?thesis using l by (auto simp: drop_padding_def)
  next
    case 2
    then show ?thesis using l by (auto simp: drop_padding_def)
  next
    case 3
    then show ?thesis by (simp add: drop_padding_def numeral_2_eq_2 butlast_append)
  qed
qed

lemma base64_round_trip: "\<forall>c \<in> set s. latin1 c \<Longrightarrow> rbind (btoa_loop s) atob_bytes = Inr s"
proof -
  assume "\<forall>c \<in> set s. latin1 c"
  from btoa_digits [OF this] obtain d k where d: "btoa_loop s = Inr (d @ replicate k 61)" "k \<le> 2" "(length d + k) mod 4 = 0" "set d \<subseteq> set b64_alphabet"
    "bits_loop 0 0 d = s" by auto
  have "filter (\<lambda>c. \<not> b64_space c) (d @ replicate k 61) = d @ replicate k 61"
    using d(4) b64_alphabet_facts(2) by (auto simp: filter_id_conv list_all_iff b64_space_def)
  moreover have "drop_padding (d @ replicate k 61) = d"
    using d(4) b64_alphabet_facts(1) by (intro drop_padding_digits [OF _ d(2)]) auto
  moreover have "length d mod 4 \<noteq> 1" using d(2,3) by presburger
  moreover have "list_all (\<lambda>c. c \<in> set b64_alphabet) d" using d(4) by (auto simp: list_all_iff)
  moreover have "atob_loop 0 0 d = s" using atob_loop_bits [of 0 d 0] d(4,5) by simp
  ultimately show ?thesis using d(1,3) by (simp add: atob_bytes_def Let_def)
qed

end
