(* ===== verification/WebLists.thy ===== *)
theory WebLists
  imports WebText
begin

text \<open>
  \<open>URLSearchParams\<close> and \<open>Headers\<close> of \<open>40_webapi.js\<close> (lines 1053--1139 and 2009--2128): lists of names
  and values in the order of their insertion.
\<close>

section \<open>URLSearchParams\<close>

text \<open>
  \<open>u_url\<close> is the URL object whose query the parameters are, if any; \<open>set_query\<close> is
  \<open>urlSetQueryFromParams\<close>, which parses the URL again with the native parser.
\<close>

record 'u params =
  u_list :: "(jstr \<times> jstr) list"
  u_url :: "'u option"

definition usp_update :: "('u \<Rightarrow> jstr \<Rightarrow> 'u) \<Rightarrow> 'u params \<Rightarrow> 'u params" where
  "usp_update set_query p = p\<lparr>u_url := map_option (\<lambda>u. set_query u (serialize_query (u_list p))) (u_url p)\<rparr>"

definition with_list :: "('u \<Rightarrow> jstr \<Rightarrow> 'u) \<Rightarrow> ((jstr \<times> jstr) list \<Rightarrow> (jstr \<times> jstr) list) \<Rightarrow> 'u params \<Rightarrow> 'u params" where
  "with_list set_query f p = usp_update set_query (p\<lparr>u_list := f (u_list p)\<rparr>)"

text \<open>
  What the constructor is given: other parameters, pairs (an iterable), the own enumerable string
  properties of an object, or a value that becomes a string.
\<close>

datatype params_init = InitParams "(jstr \<times> jstr) list" | InitPairs "jsval list list" | InitRecord "(jstr \<times> jsval) list" | InitText jsval

definition usv_pair :: "objs \<Rightarrow> jsval list \<Rightarrow> (jstr \<times> jstr) res" where
  "usv_pair po a = (case a of
     [n, v] \<Rightarrow> rbind (to_usv po n) (\<lambda>n'. rbind (to_usv po v) (\<lambda>v'. Inr (n', v')))
   | _ \<Rightarrow> Inl TypeErr)"

definition drop_question :: "jstr \<Rightarrow> jstr" where
  "drop_question s = (case s of c # r \<Rightarrow> if c = 63 then r else s | [] \<Rightarrow> [])"

definition usp_new :: "objs \<Rightarrow> (int list \<Rightarrow> jstr option) \<Rightarrow> params_init \<Rightarrow> (jstr \<times> jstr) list res" where
  "usp_new po native init = (case init of
     InitParams l \<Rightarrow> Inr l
   | InitPairs ps \<Rightarrow> rmap (usv_pair po) ps
   | InitRecord kvs \<Rightarrow> rmap (\<lambda>(k, v). rbind (to_usv po v) (\<lambda>v'. Inr (well_formed k, v'))) kvs
   | InitText v \<Rightarrow> rbind (to_usv po v) (\<lambda>s. Inr (parse_query native (drop_question s))))"

definition usp_append :: "jstr \<Rightarrow> jstr \<Rightarrow> (jstr \<times> jstr) list \<Rightarrow> (jstr \<times> jstr) list" where
  "usp_append n v l = l @ [(n, v)]"

definition usp_delete :: "jstr \<Rightarrow> jstr option \<Rightarrow> (jstr \<times> jstr) list \<Rightarrow> (jstr \<times> jstr) list" where
  "usp_delete n v l = (case v of
     None \<Rightarrow> filter (\<lambda>p. fst p \<noteq> n) l
   | Some v' \<Rightarrow> filter (\<lambda>p. \<not> (fst p = n \<and> snd p = v')) l)"

definition usp_get :: "jstr \<Rightarrow> (jstr \<times> jstr) list \<Rightarrow> jstr option" where
  "usp_get n l = map_option snd (find (\<lambda>p. fst p = n) l)"

definition usp_get_all :: "jstr \<Rightarrow> (jstr \<times> jstr) list \<Rightarrow> jstr list" where
  "usp_get_all n l = map snd (filter (\<lambda>p. fst p = n) l)"

definition usp_has :: "jstr \<Rightarrow> jstr option \<Rightarrow> (jstr \<times> jstr) list \<Rightarrow> bool" where
  "usp_has n v l = list_ex (\<lambda>p. fst p = n \<and> (case v of None \<Rightarrow> True | Some v' \<Rightarrow> snd p = v')) l"

text \<open>Replacing at the first position \<open>findIndex\<close> gives and dropping the later ones with that name.\<close>

fun replace_first :: "('a \<Rightarrow> bool) \<Rightarrow> 'a \<Rightarrow> 'a list \<Rightarrow> 'a list" where
  "replace_first P x [] = [x]"
| "replace_first P x (y # ys) = (if P y then x # filter (\<lambda>z. \<not> P z) ys else y # replace_first P x ys)"

definition usp_set :: "jstr \<Rightarrow> jstr \<Rightarrow> (jstr \<times> jstr) list \<Rightarrow> (jstr \<times> jstr) list" where
  "usp_set n v l = replace_first (\<lambda>p. fst p = n) (n, v) l"

fun insert_pair :: "jstr \<times> jstr \<Rightarrow> (jstr \<times> jstr) list \<Rightarrow> (jstr \<times> jstr) list" where
  "insert_pair p [] = [p]"
| "insert_pair p (q # qs) = (if str_lt (fst q) (fst p) then q # insert_pair p qs else p # q # qs)"

definition usp_sort :: "(jstr \<times> jstr) list \<Rightarrow> (jstr \<times> jstr) list" where
  "usp_sort l = foldr insert_pair l []"

text \<open>The methods, with the conversion of their arguments and the update of the URL.\<close>

definition params_append :: "objs \<Rightarrow> ('u \<Rightarrow> jstr \<Rightarrow> 'u) \<Rightarrow> jsval \<Rightarrow> jsval \<Rightarrow> 'u params \<Rightarrow> 'u params \<times> unit res" where
  "params_append po sq n v p = (case to_usv po n of Inl e \<Rightarrow> (p, Inl e) | Inr n' \<Rightarrow> (case to_usv po v of
     Inl e \<Rightarrow> (p, Inl e) | Inr v' \<Rightarrow> (with_list sq (usp_append n' v') p, Inr ())))"

definition opt_usv :: "objs \<Rightarrow> jsval \<Rightarrow> jstr option res" where
  "opt_usv po v = (if v = Undef then Inr None else map_sum id Some (to_usv po v))"

definition params_delete :: "objs \<Rightarrow> ('u \<Rightarrow> jstr \<Rightarrow> 'u) \<Rightarrow> jsval \<Rightarrow> jsval \<Rightarrow> 'u params \<Rightarrow> 'u params \<times> unit res" where
  "params_delete po sq n v p = (case to_usv po n of Inl e \<Rightarrow> (p, Inl e) | Inr n' \<Rightarrow> (case opt_usv po v of
     Inl e \<Rightarrow> (p, Inl e) | Inr v' \<Rightarrow> (with_list sq (usp_delete n' v') p, Inr ())))"

definition params_get :: "objs \<Rightarrow> jsval \<Rightarrow> 'u params \<Rightarrow> jstr option res" where
  "params_get po n p = map_sum id (\<lambda>n'. usp_get n' (u_list p)) (to_usv po n)"

definition params_get_all :: "objs \<Rightarrow> jsval \<Rightarrow> 'u params \<Rightarrow> jstr list res" where
  "params_get_all po n p = map_sum id (\<lambda>n'. usp_get_all n' (u_list p)) (to_usv po n)"

definition params_has :: "objs \<Rightarrow> jsval \<Rightarrow> jsval \<Rightarrow> 'u params \<Rightarrow> bool res" where
  "params_has po n v p = rbind (to_usv po n) (\<lambda>n'. rbind (opt_usv po v) (\<lambda>v'. Inr (usp_has n' v' (u_list p))))"

definition params_set :: "objs \<Rightarrow> ('u \<Rightarrow> jstr \<Rightarrow> 'u) \<Rightarrow> jsval \<Rightarrow> jsval \<Rightarrow> 'u params \<Rightarrow> 'u params \<times> unit res" where
  "params_set po sq n v p = (case to_usv po n of Inl e \<Rightarrow> (p, Inl e) | Inr n' \<Rightarrow> (case to_usv po v of
     Inl e \<Rightarrow> (p, Inl e) | Inr v' \<Rightarrow> (with_list sq (usp_set n' v') p, Inr ())))"

definition params_sort :: "('u \<Rightarrow> jstr \<Rightarrow> 'u) \<Rightarrow> 'u params \<Rightarrow> 'u params" where
  "params_sort sq p = with_list sq usp_sort p"

definition params_string :: "'u params \<Rightarrow> jstr" where
  "params_string p = serialize_query (u_list p)"

section \<open>Headers\<close>

datatype guard_kind = GNone | GImmutable | GRequest | GResponse

text \<open>An entry is the lower-case name, the value, and the name as it was given.\<close>

record headers =
  h_list :: "(jstr \<times> jstr \<times> jstr) list"
  h_guard :: guard_kind

definition token_unit :: "cu \<Rightarrow> bool" where
  "token_unit c = ((48 \<le> c \<and> c \<le> 57) \<or> (65 \<le> c \<and> c \<le> 90) \<or> (97 \<le> c \<and> c \<le> 122) \<or>
     c \<in> set (js ''!#$%&*+-.^_`|~'') \<or> c = 39)"

definition is_token :: "jstr \<Rightarrow> bool" where
  "is_token s = (s \<noteq> [] \<and> list_all token_unit s)"

definition forbidden_req :: "jstr list" where
  "forbidden_req = map js [''accept-charset'', ''accept-encoding'', ''access-control-request-headers'',
     ''access-control-request-method'', ''connection'', ''content-length'', ''cookie'', ''cookie2'', ''date'', ''dnt'', ''expect'',
     ''host'', ''keep-alive'', ''origin'', ''referer'', ''set-cookie'', ''te'', ''trailer'', ''transfer-encoding'', ''upgrade'', ''via'']"

definition forbidden_request_header :: "jstr \<Rightarrow> bool" where
  "forbidden_request_header n = (n \<in> set forbidden_req \<or> prefix_of (js ''proxy-'') n \<or> prefix_of (js ''sec-'') n)"

definition header_space :: "cu \<Rightarrow> bool" where
  "header_space c = (c = 9 \<or> c = 10 \<or> c = 13 \<or> c = 32)"

definition normalize_header_value :: "jstr \<Rightarrow> jstr" where
  "normalize_header_value s = rev (dropWhile header_space (rev (dropWhile header_space s)))"

definition validate_header :: "jstr \<Rightarrow> jstr \<Rightarrow> unit res" where
  "validate_header n v = (if \<not> is_token n then Inl TypeErr
     else if 0 \<in> set v \<or> 13 \<in> set v \<or> 10 \<in> set v then Inl TypeErr else Inr ())"

definition header_check :: "guard_kind \<Rightarrow> jstr \<Rightarrow> bool res" where
  "header_check g l =
     (if g = GImmutable then Inl TypeErr
      else if g = GRequest \<and> forbidden_request_header l then Inr False
      else if g = GResponse \<and> (l = js ''set-cookie'' \<or> l = js ''set-cookie2'') then Inr False
      else Inr True)"

definition change_headers :: "jstr \<Rightarrow> ((jstr \<times> jstr \<times> jstr) list \<Rightarrow> (jstr \<times> jstr \<times> jstr) list) \<Rightarrow> headers \<Rightarrow> headers \<times> unit res" where
  "change_headers l f h = (case header_check (h_guard h) l of
     Inl e \<Rightarrow> (h, Inl e)
   | Inr ok1 \<Rightarrow> (if ok1 then h\<lparr>h_list := f (h_list h)\<rparr> else h, Inr ()))"

text \<open>A token has only ASCII letters, so \<open>toLowerCase\<close> maps those.\<close>

definition headers_append :: "jstr \<Rightarrow> jstr \<Rightarrow> headers \<Rightarrow> headers \<times> unit res" where
  "headers_append n v h = (let v' = normalize_header_value v in case validate_header n v' of
     Inl e \<Rightarrow> (h, Inl e)
   | Inr _ \<Rightarrow> change_headers (ascii_lower n) (\<lambda>l. l @ [(ascii_lower n, v', n)]) h)"

definition headers_delete :: "jstr \<Rightarrow> headers \<Rightarrow> headers \<times> unit res" where
  "headers_delete n h = (if \<not> is_token n then (h, Inl TypeErr)
     else change_headers (ascii_lower n) (filter (\<lambda>e. fst e \<noteq> ascii_lower n)) h)"

definition header_values :: "jstr \<Rightarrow> headers \<Rightarrow> jstr list" where
  "header_values l h = map (\<lambda>e. fst (snd e)) (filter (\<lambda>e. fst e = l) (h_list h))"

definition headers_get :: "jstr \<Rightarrow> headers \<Rightarrow> jstr option res" where
  "headers_get n h = (if \<not> is_token n then Inl TypeErr
     else let vals = header_values (ascii_lower n) h in Inr (if vals = [] then None else Some (join_with (js '', '') vals)))"

definition headers_get_set_cookie :: "headers \<Rightarrow> jstr list" where
  "headers_get_set_cookie h = header_values (js ''set-cookie'') h"

definition headers_has :: "jstr \<Rightarrow> headers \<Rightarrow> bool res" where
  "headers_has n h = (if \<not> is_token n then Inl TypeErr else Inr (list_ex (\<lambda>e. fst e = ascii_lower n) (h_list h)))"

definition headers_set :: "jstr \<Rightarrow> jstr \<Rightarrow> headers \<Rightarrow> headers \<times> unit res" where
  "headers_set n v h = (let v' = normalize_header_value v in case validate_header n v' of
     Inl e \<Rightarrow> (h, Inl e)
   | Inr _ \<Rightarrow> change_headers (ascii_lower n) (replace_first (\<lambda>e. fst e = ascii_lower n) (ascii_lower n, v', n)) h)"

definition headers_sorted :: "headers \<Rightarrow> (jstr \<times> jstr) list" where
  "headers_sorted h = concat (map (\<lambda>n.
     if n = js ''set-cookie'' then map (\<lambda>v. (n, v)) (header_values n h) else [(n, join_with (js '', '') (header_values n h))])
     (sort_names (remdups (map fst (h_list h)))))"

text \<open>\<open>fillHeaders\<close> from other headers, or from pairs; a failing pair leaves the ones before it.\<close>

fun append_all :: "(jstr \<times> jstr) list \<Rightarrow> headers \<Rightarrow> headers \<times> unit res" where
  "append_all [] h = (h, Inr ())"
| "append_all ((n, v) # ps) h = (case headers_append n v h of
     (h1, Inl e) \<Rightarrow> (h1, Inl e)
   | (h1, Inr _) \<Rightarrow> append_all ps h1)"

definition fill_from_headers :: "headers \<Rightarrow> headers \<Rightarrow> headers \<times> unit res" where
  "fill_from_headers init h = append_all (map (\<lambda>(l, v, n). (n, v)) (h_list init)) h"

definition headers_flat :: "headers \<Rightarrow> jstr list" where
  "headers_flat h = concat (map (\<lambda>(l, v, n). [n, v]) (h_list h))"

fun append_flat :: "jstr list \<Rightarrow> headers \<Rightarrow> headers" where
  "append_flat (n # v # r) h = append_flat r (fst (headers_append n v h))"
| "append_flat _ h = h"

definition headers_from_flat :: "jstr list \<Rightarrow> guard_kind \<Rightarrow> headers" where
  "headers_from_flat flat g = (append_flat flat \<lparr>h_list = [], h_guard = GNone\<rparr>)\<lparr>h_guard := g\<rparr>"

end
