(* ===== verification/WebTextProps.thy ===== *)
theory WebTextProps
  imports WebTextLaws WebLists
begin

text \<open>
  Properties of the text formats and of the lists built on them: round trips, what decoders can give,
  the bounds of \<open>encodeInto\<close>, and header and parameter lists as maps from names to values.
\<close>

section \<open>Round trips\<close>

definition loop_native :: "int list \<Rightarrow> jstr option" where
  "loop_native bs = None"

lemma loop_native_decodes: "native_decodes loop_native"
  by (simp add: native_decodes_def loop_native_def)

text \<open>C21: Query strings: parsing what \<open>serializeQuery\<close> wrote gives the list of pairs again, in order and with
  duplicates, where lone surrogates have become U+FFFD (\<open>URLSearchParams\<close> holds none).  Names and values may be
  empty and may contain any character, the separators, percent signs and plus signs included; they do not begin
  with a byte order mark, which the native decoder would take away from a long one.\<close>

theorem query_round_trip:
  assumes "native_decodes native" "\<forall>(n, v) \<in> set l. unmarked n \<and> unmarked v"
  shows "parse_query native (serialize_query l) = map (\<lambda>(n, v). (well_formed n, well_formed v)) l"
  by (rule parse_serialized [OF assms])

theorem query_round_trip_witness:
  "parse_query loop_native (serialize_query [(js ''a&b='', js ''1 + 2%''), ([], [0xd83d, 0xde00]), (js ''a&b='', [0xd800])]) =
     [(js ''a&b='', js ''1 + 2%''), ([], [0xd83d, 0xde00]), (js ''a&b='', [0xfffd])]"
proof -
  let ?l = "[(js ''a&b='', js ''1 + 2%''), ([], [0xd83d, 0xde00]), (js ''a&b='', [0xd800])]"
  have "\<forall>(n, v) \<in> set ?l. unmarked n \<and> unmarked v" by (simp add: unmarked_def js_def)
  from query_round_trip [OF loop_native_decodes this] show ?thesis
    by (simp add: js_def next_point_def high_unit_def low_unit_def from_code_point_def push_bit_eq_mult drop_bit_eq_div and_low)
qed

definition no_objs :: objs where
  "no_objs = \<lparr>obj_num = \<lambda>i. Inr NaN, obj_str = \<lambda>i. Inr [], obj_get = \<lambda>i k. Inr Undef, obj_callable = \<lambda>i. False\<rparr>"

text \<open>C22: Base64: \<open>atob\<close> gives back every string of Latin-1 characters that \<open>btoa\<close> encoded, for every length, so
  the padding is right and the 32-bit shifts of the decoder lose nothing.\<close>

theorem base64_decodes_what_it_encodes:
  assumes "\<forall>c \<in> set s. latin1 c"
  shows "rbind (btoa po (Str s)) (\<lambda>t. atob po (Str t)) = Inr s"
  using base64_round_trip [OF assms] by (simp add: btoa_def atob_def to_jstring_def)

theorem base64_decodes_what_it_encodes_witness:
  "rbind (btoa no_objs (Str [0, 255, 62, 63])) (\<lambda>t. atob no_objs (Str t)) = Inr [0, 255, 62, 63]"
  by (rule base64_decodes_what_it_encodes) (simp add: latin1_def)

section \<open>Decoders\<close>

text \<open>C23: Whatever bytes \<open>utf8Decode\<close> is given, truncated and overlong sequences included, it returns, and its result is a
  string without lone surrogates, provided the native decoder gives only such strings.\<close>

theorem utf8_decode_gives_well_formed:
  assumes "\<forall>b \<in> set bs. 0 \<le> b" "\<forall>bs s. native bs = Some s \<longrightarrow> well_formed s = s"
  shows "well_formed (utf8_decode native bs) = utf8_decode native bs"
  using utf8_loop_well_formed [OF assms(1)] assms(2) by (simp add: utf8_decode_def split: option.split)

theorem utf8_decode_gives_well_formed_witness:
  "well_formed (utf8_decode loop_native [0xed, 0xa0, 0x80, 0xf0, 0x9f]) = utf8_decode loop_native [0xed, 0xa0, 0x80, 0xf0, 0x9f]"
  by (rule utf8_decode_gives_well_formed) (simp_all add: loop_native_def)

text \<open>A byte order mark is treated differently in short and in long input: the loop of \<open>utf8Decode\<close> keeps it as
  U+FEFF, while longer input goes to the native decoder, which takes it away.\<close>

theorem byte_order_mark_depends_on_length:
  assumes "\<forall>bs. native ([0xef, 0xbb, 0xbf] @ bs) = native bs" "\<forall>bs. native bs \<noteq> None"
  shows "(length bs \<le> 253 \<longrightarrow> utf8_decode native ([0xef, 0xbb, 0xbf] @ bs) = 0xfeff # utf8_decode native bs) \<and>
    (256 < length bs \<longrightarrow> utf8_decode native ([0xef, 0xbb, 0xbf] @ bs) = utf8_decode native bs)"
proof -
  have "utf8_loop ([0xef, 0xbb, 0xbf] @ bs) = 0xfeff # utf8_loop bs"
    by (simp add: lead_byte_def bad_point_def from_code_point_def numeral_2_eq_2 push_bit_eq_mult)
  moreover obtain t where "native bs = Some t" using assms(2) by auto
  ultimately show ?thesis using assms(1) by (simp add: utf8_decode_def del: utf8_loop.simps)
qed

definition mark_native :: "int list \<Rightarrow> jstr option" where
  "mark_native bs = Some (filter (\<lambda>b. b < 0x80) bs)"

theorem byte_order_mark_depends_on_length_witness:
  "utf8_decode mark_native ([0xef, 0xbb, 0xbf] @ replicate 253 65) = 0xfeff # utf8_decode mark_native (replicate 253 65) \<and>
   utf8_decode mark_native ([0xef, 0xbb, 0xbf] @ replicate 257 65) = utf8_decode mark_native (replicate 257 65)"
  using byte_order_mark_depends_on_length [of mark_native "replicate 253 65"]
    byte_order_mark_depends_on_length [of mark_native "replicate 257 65"] by (simp add: mark_native_def)

section \<open>Encoding into a buffer\<close>

lemma next_point_take:
  assumes "next_point c r = (p, r')"
  shows "\<exists>j. r' = drop j r \<and> j \<le> length r \<and> (\<forall>m. next_point c (take (j + m) r) = (p, take m r'))"
proof (cases "high_unit c \<and> r \<noteq> [] \<and> low_unit (hd r)")
  case True
  then obtain d t where r: "r = d # t" by (cases r) auto
  with True assms show ?thesis by (intro exI [of _ 1]) (auto simp: next_point_def)
next
  case False
  have "\<forall>m. next_point c (take m r) = (p, take m r')"
  proof
    fix m
    show "next_point c (take m r) = (p, take m r')"
      using False assms by (cases r; cases m) (auto simp: next_point_def split: if_splits)
  qed
  moreover have "r' = r" using False assms by (auto simp: next_point_def split: if_splits)
  ultimately show ?thesis by (intro exI [of _ 0]) simp
qed

text \<open>Whether a surrogate pair has its first half before the place \<open>m\<close> and its second half after it.\<close>

definition cuts_pair :: "nat \<Rightarrow> jstr \<Rightarrow> bool" where
  "cuts_pair m s = (0 < m \<and> m < length s \<and> high_unit (s ! (m - 1)) \<and> low_unit (s ! m))"

lemma next_point_whole:
  assumes "next_point c r = (p, drop j r)" "j \<le> length r"
  shows "\<not> cuts_pair (Suc j) (c # r)"
proof (cases "high_unit c \<and> r \<noteq> [] \<and> low_unit (hd r)")
  case True
  then obtain d t where r: "r = d # t" by (cases r) auto
  with True assms have "length (drop j r) = length t" by (auto simp: next_point_def)
  with assms(2) r have "j = 1" by simp
  with True r show ?thesis by (auto simp: cuts_pair_def high_unit_def low_unit_def)
next
  case False
  with assms have "drop j r = r" by (auto simp: next_point_def split: if_splits)
  then have "j = 0 \<or> r = []" by (metis assms(2) diff_diff_cancel diff_self_eq_0 length_0_conv length_drop)
  with False assms(2) show ?thesis by (cases r) (auto simp: cuts_pair_def)
qed

lemma encode_into_prefix:
  "encode_into s cap out u = (out', u') \<Longrightarrow> length out \<le> cap \<Longrightarrow>
     \<exists>m \<le> length s. u' = u + m \<and> out' = out @ utf8_encode (take m s) \<and> length out' \<le> cap \<and> \<not> cuts_pair m s \<and>
       utf8_encode s = utf8_encode (take m s) @ utf8_encode (drop m s) \<and>
       (drop m s \<noteq> [] \<longrightarrow> length out' + length (utf8_point (fst (next_point (hd (drop m s)) (tl (drop m s))))) > cap)"
proof (induction s cap out u rule: encode_into.induct)
  case (1 cap out u)
  then show ?case by (simp add: cuts_pair_def)
next
  case (2 c r cap out u)
  obtain p r' where n: "next_point c r = (p, r')" by fastforce
  show ?case
  proof (cases "length out + length (utf8_point p) > cap")
    case True
    with 2 n show ?thesis by (intro exI [of _ 0]) (auto simp: cuts_pair_def)
  next
    case False
    obtain j where j: "r' = drop j r" "j \<le> length r" "\<forall>m. next_point c (take (j + m) r) = (p, take m r')"
      using next_point_take [OF n] by blast
    have u: "length r + 1 - length r' = Suc j" using j(1,2) by simp
    have e: "encode_into r' cap (out @ utf8_point p) (u + (length r + 1 - length r')) = (out', u')" using 2(2) n False by simp
    have "length (out @ utf8_point p) \<le> cap" using False by simp
    from 2(1) [OF n [symmetric] False e this] obtain m where m: "m \<le> length r'" "u' = u + (length r + 1 - length r') + m"
      "out' = (out @ utf8_point p) @ utf8_encode (take m r')" "length out' \<le> cap" "\<not> cuts_pair m r'"
      "utf8_encode r' = utf8_encode (take m r') @ utf8_encode (drop m r')"
      "drop m r' \<noteq> [] \<longrightarrow> length out' + length (utf8_point (fst (next_point (hd (drop m r')) (tl (drop m r'))))) > cap" by blast
    have t: "utf8_encode (take (Suc (j + m)) (c # r)) = utf8_point p @ utf8_encode (take m r')" using j(3) by simp
    have rest: "drop (Suc (j + m)) (c # r) = drop m r'" using j(1) by (simp add: add.commute)
    have "utf8_encode (c # r) = utf8_point p @ utf8_encode r'" using n by simp
    then have whole: "utf8_encode (c # r) = utf8_encode (take (Suc (j + m)) (c # r)) @ utf8_encode (drop (Suc (j + m)) (c # r))"
      unfolding t rest by (subst (asm) m(6)) simp
    have cut: "\<not> cuts_pair (Suc (j + m)) (c # r)"
    proof (cases m)
      case 0
      then show ?thesis using next_point_whole [of c r p j] n j(1,2) by simp
    next
      case (Suc k)
      then show ?thesis using m(5) j(1,2) by (simp add: cuts_pair_def)
    qed
    have place: "Suc (j + m) \<le> length (c # r)" "u' = u + Suc (j + m)" using m(1,2) j(1,2) u by simp_all
    have "out' = out @ utf8_encode (take (Suc (j + m)) (c # r))" unfolding t using m(3) by simp
    then show ?thesis by (intro exI [of _ "Suc (j + m)"] conjI place m(4) cut whole m(7) [folded rest])
  qed
qed

text \<open>C24: \<open>encodeInto\<close> never writes past the destination; what it writes is the UTF-8 of the code units it says it has
  read; no surrogate pair is cut in two, and the UTF-8 of the whole string is what it wrote and the UTF-8 of the rest; and
  it stops only at the end of the string or where the next code point does not fit any more.\<close>

theorem encode_into_fills_the_destination:
  assumes "encode_into s cap [] 0 = (written, read)"
  shows "length written \<le> cap \<and> read \<le> length s \<and> written = utf8_encode (take read s) \<and>
    \<not> cuts_pair read s \<and> utf8_encode s = written @ utf8_encode (drop read s) \<and>
    (read < length s \<longrightarrow> length written + length (utf8_point (fst (next_point (s ! read) (drop (Suc read) s)))) > cap)"
proof -
  have "length ([] :: int list) \<le> cap" by simp
  from encode_into_prefix [OF assms this] obtain m where m: "m \<le> length s" "read = 0 + m" "written = [] @ utf8_encode (take m s)"
    "length written \<le> cap" "\<not> cuts_pair m s" "utf8_encode s = utf8_encode (take m s) @ utf8_encode (drop m s)"
    "drop m s \<noteq> [] \<longrightarrow> length written + length (utf8_point (fst (next_point (hd (drop m s)) (tl (drop m s))))) > cap" by blast
  have "read < length s \<longrightarrow> length written + length (utf8_point (fst (next_point (s ! read) (drop (Suc read) s)))) > cap"
    using m(2,7) by (simp add: hd_drop_conv_nth tl_drop drop_Suc)
  with m(1-6) show ?thesis by simp
qed

theorem encode_into_fills_the_destination_witness:
  "[195, 169] = utf8_encode (take 1 [233, 0xd83d, 0xde00]) \<and> \<not> cuts_pair 1 [233, 0xd83d, 0xde00]"
proof -
  have "encode_into [233, 0xd83d, 0xde00] 5 [] 0 = ([195, 169], 1)"
    by (simp add: next_point_def high_unit_def low_unit_def utf8_point_def push_bit_eq_mult drop_bit_eq_div and_low)
  from encode_into_fills_the_destination [OF this] show ?thesis by simp
qed


section \<open>Header lists\<close>

lemma filter_other: "filter (\<lambda>e. fst e = m) (filter (\<lambda>e. fst e \<noteq> l) xs) = (if m = l then [] else filter (\<lambda>e. fst e = m) xs)"
  by (induction xs) auto

lemma filter_replace_first:
  "filter (\<lambda>e. fst e = m) (replace_first (\<lambda>e. fst e = l) (l, v) xs) = (if m = l then [(l, v)] else filter (\<lambda>e. fst e = m) xs)"
  by (induction xs) (auto simp: filter_other simp del: filter_filter)

text \<open>The header list as the names it has, each with its values in order.\<close>

definition header_map :: "headers \<Rightarrow> jstr \<Rightarrow> jstr list" where
  "header_map h l = header_values l h"

definition header_writable :: "headers \<Rightarrow> jstr \<Rightarrow> bool" where
  "header_writable h n = (header_check (h_guard h) (ascii_lower n) = Inr True)"

text \<open>C25: A \<open>Headers\<close> object is a map from lower-case names to lists of values: where its guard lets it be changed,
  \<open>append\<close> adds one value at the end of the list of its name, \<open>set\<close> makes it the only one, and \<open>delete\<close> leaves none;
  no other name changes.  Names are told apart without regard to case, values lose the white space around them, and
  \<open>get\<close> joins the values with a comma.\<close>

theorem headers_are_a_multimap:
  assumes "is_token n" "validate_header n (normalize_header_value v) = Inr ()" "header_writable h n"
  shows "header_map (fst (headers_append n v h)) = (header_map h)(ascii_lower n := header_map h (ascii_lower n) @ [normalize_header_value v]) \<and>
    header_map (fst (headers_set n v h)) = (header_map h)(ascii_lower n := [normalize_header_value v]) \<and>
    header_map (fst (headers_delete n h)) = (header_map h)(ascii_lower n := []) \<and>
    headers_get n h = Inr (if header_map h (ascii_lower n) = [] then None else Some (join_with (js '', '') (header_map h (ascii_lower n)))) \<and>
    headers_has n h = Inr (header_map h (ascii_lower n) \<noteq> [])"
proof (intro conjI ext)
  note d = header_map_def header_values_def change_headers_def headers_append_def headers_set_def headers_delete_def Let_def
  have c: "header_check (h_guard h) (ascii_lower n) = Inr True" using assms(3) by (simp add: header_writable_def)
  fix m
  show "header_map (fst (headers_append n v h)) m = ((header_map h)(ascii_lower n := header_map h (ascii_lower n) @ [normalize_header_value v])) m"
    using assms(2) c by (simp add: d)
  show "header_map (fst (headers_set n v h)) m = ((header_map h)(ascii_lower n := [normalize_header_value v])) m"
    using assms(2) c by (simp add: d filter_replace_first)
  show "header_map (fst (headers_delete n h)) m = ((header_map h)(ascii_lower n := [])) m"
    using assms(1) c by (auto simp: d filter_other simp del: filter_filter)
  show "headers_get n h = Inr (if header_map h (ascii_lower n) = [] then None else Some (join_with (js '', '') (header_map h (ascii_lower n))))"
    using assms(1) by (simp add: headers_get_def header_map_def Let_def)
  show "headers_has n h = Inr (header_map h (ascii_lower n) \<noteq> [])"
    using assms(1) by (auto simp: headers_has_def d list_ex_iff filter_empty_conv)
qed

definition ex_headers :: headers where
  "ex_headers = \<lparr>h_list = [(js ''accept'', js ''a'', js ''Accept''), (js ''vary'', js ''x'', js ''Vary'')], h_guard = GRequest\<rparr>"

theorem headers_are_a_multimap_witness:
  "headers_get (js ''accept'') (fst (headers_append (js ''ACCEPT'') (js '' b '') ex_headers)) = Inr (Some (js ''a, b''))"
proof -
  let ?h = "fst (headers_append (js ''ACCEPT'') (js '' b '') ex_headers)"
  have a: "is_token (js ''ACCEPT'')" "validate_header (js ''ACCEPT'') (normalize_header_value (js '' b '')) = Inr ()"
    "header_writable ex_headers (js ''ACCEPT'')" by code_simp+
  have h: "is_token (js ''accept'')" "validate_header (js ''accept'') (normalize_header_value (js '' b '')) = Inr ()"
    by code_simp+
  have w: "header_writable ?h (js ''accept'')" by code_simp
  have "((header_map ex_headers)(ascii_lower (js ''ACCEPT'') := header_map ex_headers (ascii_lower (js ''ACCEPT'')) @
      [normalize_header_value (js '' b '')])) (js ''accept'') = [js ''a'', js ''b'']" by code_simp
  then have m: "header_map ?h (js ''accept'') = [js ''a'', js ''b'']"
    using fun_cong [OF conjunct1 [OF headers_are_a_multimap [OF a]], of "js ''accept''"] by (rule trans [rotated])
  from headers_are_a_multimap [OF h w] have "headers_get (js ''accept'') ?h =
      Inr (if header_map ?h (ascii_lower (js ''accept'')) = [] then None else Some (join_with (js '', '') (header_map ?h (ascii_lower (js ''accept'')))))"
    by blast
  moreover have "ascii_lower (js ''accept'') = js ''accept''" by code_simp
  moreover have "join_with (js '', '') [js ''a'', js ''b''] = js ''a, b''" by code_simp
  ultimately show ?thesis using m by simp
qed

section \<open>Sorting parameters\<close>

definition pairs_sorted :: "(jstr \<times> jstr) list \<Rightarrow> bool" where
  "pairs_sorted l = sorted_wrt (\<lambda>p q. \<not> str_lt (fst q) (fst p)) l"

lemma set_insert_pair [simp]: "set (insert_pair p l) = insert p (set l)"
  by (induction l) auto

lemma insert_pair_sorted: "pairs_sorted l \<Longrightarrow> pairs_sorted (insert_pair p l)"
proof (induction l)
  case (Cons q qs)
  show ?case
  proof (cases "str_lt (fst q) (fst p)")
    case True
    then have "\<not> str_lt (fst p) (fst q)" using str_lt_trans str_lt_irrefl by blast
    with Cons True show ?thesis by (auto simp: pairs_sorted_def)
  next
    case False
    have "\<not> str_lt (fst z) (fst p)" if "z \<in> set qs" for z
      using Cons.prems that False str_lt_trans [of "fst z" "fst p" "fst q"] str_lt_total [of "fst p" "fst q"] by (auto simp: pairs_sorted_def)
    with Cons.prems False show ?thesis by (simp add: pairs_sorted_def)
  qed
qed (simp add: pairs_sorted_def)

lemma insert_pair_filter: "filter (\<lambda>q. fst q = n) (insert_pair p l) = filter (\<lambda>q. fst q = n) (p # l)"
  by (induction l) auto

text \<open>\<open>URLSearchParams.sort\<close> orders the pairs by their names, by code units; it keeps every pair, and pairs of one
  name stay in the order they had.\<close>

theorem sort_is_stable:
  "pairs_sorted (usp_sort l) \<and> set (usp_sort l) = set l \<and> usp_get_all n (usp_sort l) = usp_get_all n l"
proof -
  have "pairs_sorted (foldr insert_pair l [])" 
  proof (induction l)
    case Nil
    then show ?case by (simp add: pairs_sorted_def)
  qed (simp add: insert_pair_sorted)
  moreover have "set (foldr insert_pair l []) = set l" by (induction l) auto
  moreover have "filter (\<lambda>q. fst q = n) (foldr insert_pair l []) = filter (\<lambda>q. fst q = n) l"
    by (induction l) (auto simp: insert_pair_filter)
  ultimately show ?thesis by (simp add: usp_sort_def usp_get_all_def)
qed

end
