(* ===== verification/DomTree.thy ===== *)
theory DomTree
  imports XTree "HOL-Library.Sublist"
begin

unbundle bit_operations_syntax

text \<open>
  The natives that change the tree, as the mutation functions of \<open>20_dom.js\<close> use them, and the small
  functions over the tree of lines 4660--4684: lengths, indexes, roots, and the comparison of boundary points.
\<close>

section \<open>Natives that change the tree\<close>

fun edit_tree :: "nat \<Rightarrow> (tree \<Rightarrow> tree) \<Rightarrow> tree \<Rightarrow> tree"
  and edit_trees :: "nat \<Rightarrow> (tree \<Rightarrow> tree) \<Rightarrow> tree list \<Rightarrow> tree list" where
  "edit_tree x f (T i n ks) = (if i = x then f (T i n ks) else T i n (edit_trees x f ks))"
| "edit_trees x f [] = []"
| "edit_trees x f (t # ts) = edit_tree x f t # edit_trees x f ts"

definition edit :: "nat \<Rightarrow> (tree \<Rightarrow> tree) \<Rightarrow> dom \<Rightarrow> dom" where
  "edit x f d = d\<lparr>d_trees := edit_trees x f (d_trees d)\<rparr>"

fun drop_kid :: "nat \<Rightarrow> tree \<Rightarrow> tree" where
  "drop_kid x (T i n ks) = T i n (filter (\<lambda>k. tid k \<noteq> x) ks)"

fun set_kids :: "tree list \<Rightarrow> tree \<Rightarrow> tree" where
  "set_kids ts (T i n ks) = T i n ts"

fun put_kids :: "nat \<Rightarrow> tree list \<Rightarrow> tree \<Rightarrow> tree" where
  "put_kids ref ts (T i n ks) = T i n (takeWhile (\<lambda>k. tid k \<noteq> ref) ks @ ts @ dropWhile (\<lambda>k. tid k \<noteq> ref) ks)"

fun set_data :: "jstr \<Rightarrow> tree \<Rightarrow> tree" where
  "set_data s (T i n ks) = T i (n\<lparr>i_text := s\<rparr>) ks"

definition native_kind :: "dom \<Rightarrow> nat \<Rightarrow> int" where
  "native_kind d x = (case info d x of None \<Rightarrow> 0 | Some n \<Rightarrow> i_nkind n)"

text \<open>\<open>N.removeChild(pid, nid)\<close>: the child stays as a tree of its own.\<close>

definition n_remove_child :: "nat \<Rightarrow> nat \<Rightarrow> dom \<Rightarrow> dom" where
  "n_remove_child p x d = (case node d x of
     None \<Rightarrow> d
   | Some t \<Rightarrow> let d1 = edit p (drop_kid x) d in d1\<lparr>d_trees := d_trees d1 @ [t]\<rparr>)"

text \<open>A node is taken from its parent, or from the detached trees.\<close>

definition detach :: "nat \<Rightarrow> dom \<Rightarrow> dom" where
  "detach x d = (if parent d x = 0 then d\<lparr>d_trees := filter (\<lambda>t. tid t \<noteq> x) (d_trees d)\<rparr>
     else edit (parent d x) (drop_kid x) d)"

text \<open>
  \<open>N.insertBefore(pid, nid, ref)\<close>: the children of a fragment move, any other node moves itself; with
  \<open>ref = 0\<close> they are appended.  The callers have checked that \<open>ref\<close> is a child and that \<open>nid\<close> does not contain
  \<open>pid\<close>.
\<close>

definition n_insert_before :: "nat \<Rightarrow> nat \<Rightarrow> nat \<Rightarrow> dom \<Rightarrow> dom" where
  "n_insert_before p x ref d = (case node d x of
     None \<Rightarrow> d
   | Some t \<Rightarrow> if native_kind d x = 11 then edit p (put_kids ref (tkids t)) (edit x (set_kids []) d)
               else edit p (put_kids ref [t]) (detach x d))"

text \<open>
  What the native refuses (\<open>ensure_pre_insert\<close>, \<open>dom.rs\<close>, lines 387--431) beyond the checks of the callers: into the native document go
  no texts and one element.
\<close>

definition element_count :: "dom \<Rightarrow> nat \<Rightarrow> nat" where
  "element_count d x = (if native_kind d x = 1 then 1
     else if native_kind d x = 11 then length (filter (\<lambda>c. native_kind d c = 1) (child_ids d x)) else 0)"

definition native_refuses :: "dom \<Rightarrow> nat \<Rightarrow> nat \<Rightarrow> bool" where
  "native_refuses d p x =
     (native_kind d p = 9 \<and>
      (native_kind d x = 3 \<or>
       (native_kind d x = 11 \<and> list_ex (\<lambda>c. native_kind d c = 3) (child_ids d x)) \<or>
       element_count d x > 1 \<or>
       (element_count d x = 1 \<and> list_ex (\<lambda>c. c \<noteq> x \<and> native_kind d c = 1) (child_ids d p))))"

definition n_set_text :: "nat \<Rightarrow> jstr \<Rightarrow> dom \<Rightarrow> dom" where
  "n_set_text x s d = edit x (set_data s) d"

definition n_create :: "tree \<Rightarrow> dom \<Rightarrow> dom" where
  "n_create t d = d\<lparr>d_trees := d_trees d @ [t]\<rparr>"

definition text_info :: "jstr \<Rightarrow> ninfo" where
  "text_info s = \<lparr>i_nkind = 3, i_nns = None, i_cached = True, i_kind = 3, i_ns_code = 4, i_ns_other = None, i_prefix = None,
     i_local = [], i_name = [], i_text = s, i_attrs = []\<rparr>"

section \<open>Lengths, indexes and roots\<close>

definition char_kind :: "int \<Rightarrow> bool" where
  "char_kind k = (k = 3 \<or> k = 8 \<or> k = 4 \<or> k = 7)"

definition node_length :: "dom \<Rightarrow> nat \<Rightarrow> nat" where
  "node_length d x = (let t = native_kind d x in
     if t = 10 then 0 else if char_kind t then length (get_text d x) else length (child_ids d x))"

definition index_of_node :: "dom \<Rightarrow> nat \<Rightarrow> nat" where
  "index_of_node d x = (if parent d x = 0 then 0 else pos_in x (child_ids d (parent d x)))"

definition tree_root :: "dom \<Rightarrow> nat \<Rightarrow> nat" where
  "tree_root d x = last (ancestors_self d x)"

definition is_char_data :: "dom \<Rightarrow> nat \<Rightarrow> bool" where
  "is_char_data d x = char_kind (native_kind d x)"

text \<open>
  \<open>N.compareDocumentPosition(a, b)\<close>, all its bits: disconnected (1) and implementation specific (32),
  preceding (2), following (4), contains (8), contained by (16).
\<close>

definition position_bits :: "dom \<Rightarrow> nat \<Rightarrow> nat \<Rightarrow> int" where
  "position_bits d a b =
     (if a = b then 0
      else if tree_root d a \<noteq> tree_root d b then (if b < a then 35 else 37)
      else if contains d b a then 10
      else if contains d a b then 20
      else compare_position d a b)"

text \<open>The child of \<open>a\<close> above \<open>b\<close>: the loop \<open>while (N.parent(child) !== a) child = N.parent(child)\<close>.\<close>

definition child_towards :: "dom \<Rightarrow> nat \<Rightarrow> nat \<Rightarrow> nat" where
  "child_towards d a b = last (takeWhile (\<lambda>x. x \<noteq> a) (ancestors_self d b))"

text \<open>
  \<open>bpCompare\<close>; the code calls itself with the points exchanged, and the second call cannot do so again.
\<close>

definition bp_forward :: "dom \<Rightarrow> nat \<Rightarrow> nat \<Rightarrow> nat \<Rightarrow> nat \<Rightarrow> int" where
  "bp_forward d a oa b ob =
     (if position_bits d a b AND 16 \<noteq> 0 \<and> index_of_node d (child_towards d a b) < oa then 1 else -1)"

definition bp_compare :: "dom \<Rightarrow> nat \<Rightarrow> nat \<Rightarrow> nat \<Rightarrow> nat \<Rightarrow> int" where
  "bp_compare d a oa b ob =
     (if a = b then (if oa = ob then 0 else if oa < ob then -1 else 1)
      else if position_bits d a b AND 2 \<noteq> 0 then - bp_forward d b ob a oa
      else bp_forward d a oa b ob)"

end
