(* ===== verification/DomRanges.thy ===== *)
theory DomRanges
  imports DomTree
begin

text \<open>
  The registry of live ranges (\<open>20_dom.js\<close>, lines 686--822).  The state of a \<open>Range\<close> is shared between the range
  and \<open>rangeIndex\<close>, which has for a container the states anchored in it; here a state is a number,
  \<open>g_states\<close> gives its fields and \<open>g_index\<close> is the index, in insertion order.
\<close>

section \<open>The index\<close>

record rstate =
  r_sc :: nat
  r_so :: nat
  r_ec :: nat
  r_eo :: nat

record registry =
  g_states :: "nat \<Rightarrow> rstate"
  g_index :: "(nat \<times> nat list) list"
  g_next :: nat

fun range_index_add :: "nat \<Rightarrow> nat \<Rightarrow> (nat \<times> nat list) list \<Rightarrow> (nat \<times> nat list) list" where
  "range_index_add c s [] = [(c, [s])]"
| "range_index_add c s ((k, ss) # r) =
     (if k = c then (k, if s \<in> set ss then ss else ss @ [s]) # r else (k, ss) # range_index_add c s r)"

fun range_index_remove :: "nat \<Rightarrow> nat \<Rightarrow> (nat \<times> nat list) list \<Rightarrow> (nat \<times> nat list) list" where
  "range_index_remove c s [] = []"
| "range_index_remove c s ((k, ss) # r) =
     (if k = c then (case filter (\<lambda>x. x \<noteq> s) ss of [] \<Rightarrow> r | ss' \<Rightarrow> (k, ss') # r)
      else (k, ss) # range_index_remove c s r)"

definition upd_index :: "((nat \<times> nat list) list \<Rightarrow> (nat \<times> nat list) list) \<Rightarrow> registry \<Rightarrow> registry" where
  "upd_index f g = g\<lparr>g_index := f (g_index g)\<rparr>"

definition upd_state :: "nat \<Rightarrow> (rstate \<Rightarrow> rstate) \<Rightarrow> registry \<Rightarrow> registry" where
  "upd_state s f g = g\<lparr>g_states := (g_states g)(s := f (g_states g s))\<rparr>"

text \<open>What the finalizer of a collected range does.\<close>

definition reap :: "nat \<Rightarrow> registry \<Rightarrow> registry" where
  "reap s g = (let st = g_states g s; g1 = upd_index (range_index_remove (r_sc st) s) g in
     if r_ec st \<noteq> r_sc st then upd_index (range_index_remove (r_ec st) s) g1 else g1)"

definition new_range_state :: "nat \<Rightarrow> nat \<Rightarrow> nat \<Rightarrow> nat \<Rightarrow> registry \<Rightarrow> registry \<times> nat" where
  "new_range_state sc so ec eo g =
     (let s = g_next g;
          g1 = g\<lparr>g_next := Suc s, g_states := (g_states g)(s := \<lparr>r_sc = sc, r_so = so, r_ec = ec, r_eo = eo\<rparr>)\<rparr>;
          g2 = upd_index (range_index_add sc s) g1 in
      (if ec \<noteq> sc then upd_index (range_index_add ec s) g2 else g2, s))"

definition set_range_state :: "nat \<Rightarrow> nat \<Rightarrow> nat \<Rightarrow> nat \<Rightarrow> nat \<Rightarrow> registry \<Rightarrow> registry" where
  "set_range_state s sc so ec eo g =
     (let oSc = r_sc (g_states g s); oEc = r_ec (g_states g s) in
      upd_state s (\<lambda>_. \<lparr>r_sc = sc, r_so = so, r_ec = ec, r_eo = eo\<rparr>)
        (if sc \<noteq> oSc \<or> ec \<noteq> oEc then
           let g1 = (if oSc \<noteq> sc \<and> oSc \<noteq> ec then upd_index (range_index_remove oSc s) g else g);
               g2 = (if oEc \<noteq> oSc \<and> oEc \<noteq> sc \<and> oEc \<noteq> ec then upd_index (range_index_remove oEc s) g1 else g1);
               g3 = (if sc \<noteq> oSc \<and> sc \<noteq> oEc then upd_index (range_index_add sc s) g2 else g2) in
           if ec \<noteq> sc \<and> ec \<noteq> oSc \<and> ec \<noteq> oEc then upd_index (range_index_add ec s) g3 else g3
         else g))"

definition in_container :: "nat \<Rightarrow> registry \<Rightarrow> nat list" where
  "in_container c g = (case map_of (g_index g) c of None \<Rightarrow> [] | Some ss \<Rightarrow> ss)"

text \<open>\<open>contains\<close> is the native, on the tree as it is when the function runs.\<close>

definition states_inside :: "dom \<Rightarrow> nat \<Rightarrow> nat \<Rightarrow> registry \<Rightarrow> nat list" where
  "states_inside d x skip g =
     first_occurrences [] (concat (map snd (filter (\<lambda>(c, ss). c \<noteq> skip \<and> contains d x c) (g_index g))))"

section \<open>The updates\<close>

definition grow_after :: "nat \<Rightarrow> nat \<Rightarrow> nat \<Rightarrow> rstate \<Rightarrow> rstate" where
  "grow_after p i count st =
     (let st1 = (if r_sc st = p \<and> r_so st > i then st\<lparr>r_so := r_so st + count\<rparr> else st) in
      if r_ec st1 = p \<and> r_eo st1 > i then st1\<lparr>r_eo := r_eo st1 + count\<rparr> else st1)"

definition ranges_on_insert :: "nat \<Rightarrow> nat \<Rightarrow> nat \<Rightarrow> registry \<Rightarrow> registry" where
  "ranges_on_insert p i count g = fold (\<lambda>s. upd_state s (grow_after p i count)) (in_container p g) g"

definition shrink_after :: "nat \<Rightarrow> nat \<Rightarrow> rstate \<Rightarrow> rstate" where
  "shrink_after p i st =
     (let st1 = (if r_sc st = p \<and> r_so st > i then st\<lparr>r_so := r_so st - 1\<rparr> else st) in
      if r_ec st1 = p \<and> r_eo st1 > i then st1\<lparr>r_eo := r_eo st1 - 1\<rparr> else st1)"

definition leave_subtree :: "dom \<Rightarrow> nat \<Rightarrow> nat \<Rightarrow> nat \<Rightarrow> nat \<Rightarrow> registry \<Rightarrow> registry" where
  "leave_subtree d p x i s g =
     (let st = g_states g s; a = contains d x (r_sc st); b = contains d x (r_ec st) in
      set_range_state s (if a then p else r_sc st) (if a then i else r_so st)
        (if b then p else r_ec st) (if b then i else r_eo st) g)"

definition ranges_on_remove :: "dom \<Rightarrow> nat \<Rightarrow> nat \<Rightarrow> nat \<Rightarrow> registry \<Rightarrow> registry" where
  "ranges_on_remove d p x i g =
     (let g1 = fold (leave_subtree d p x i) (states_inside d x p g) g in
      fold (\<lambda>s. upd_state s (shrink_after p i)) (in_container p g1) g1)"

definition in_old :: "dom \<Rightarrow> nat \<Rightarrow> nat list \<Rightarrow> nat \<Rightarrow> bool" where
  "in_old d p kids c = (c = p \<or> list_ex (\<lambda>k. contains d k c) kids)"

definition leave_old :: "dom \<Rightarrow> nat \<Rightarrow> nat list \<Rightarrow> nat \<Rightarrow> registry \<Rightarrow> registry" where
  "leave_old d p kids s g =
     (let st = g_states g s; a = in_old d p kids (r_sc st); b = in_old d p kids (r_ec st) in
      set_range_state s (if a then p else r_sc st) (if a then 0 else r_so st)
        (if b then p else r_ec st) (if b then 0 else r_eo st) g)"

definition ranges_on_replace_all :: "dom \<Rightarrow> nat \<Rightarrow> nat list \<Rightarrow> registry \<Rightarrow> registry" where
  "ranges_on_replace_all d p kids g =
     fold (leave_old d p kids) (first_occurrences [] (in_container p g @ concat (map (\<lambda>k. states_inside d k p g) kids))) g"

definition replaced_offset :: "nat \<Rightarrow> nat \<Rightarrow> nat \<Rightarrow> nat \<Rightarrow> nat" where
  "replaced_offset offset count added o1 =
     (if o1 > offset \<and> o1 \<le> offset + count then offset
      else if o1 > offset + count then o1 + added - count else o1)"

definition replace_offsets :: "nat \<Rightarrow> nat \<Rightarrow> nat \<Rightarrow> nat \<Rightarrow> rstate \<Rightarrow> rstate" where
  "replace_offsets x offset count added st =
     (let st1 = (if r_sc st = x then st\<lparr>r_so := replaced_offset offset count added (r_so st)\<rparr> else st) in
      if r_ec st1 = x then st1\<lparr>r_eo := replaced_offset offset count added (r_eo st1)\<rparr> else st1)"

definition ranges_on_replace_data :: "nat \<Rightarrow> nat \<Rightarrow> nat \<Rightarrow> nat \<Rightarrow> registry \<Rightarrow> registry" where
  "ranges_on_replace_data x offset count added g =
     fold (\<lambda>s. upd_state s (replace_offsets x offset count added)) (in_container x g) g"

definition move_split :: "nat \<Rightarrow> nat \<Rightarrow> nat \<Rightarrow> nat \<Rightarrow> registry \<Rightarrow> registry" where
  "move_split x y offset s g =
     (let st = g_states g s; a = (r_sc st = x \<and> r_so st > offset); b = (r_ec st = x \<and> r_eo st > offset) in
      if a \<or> b then set_range_state s (if a then y else r_sc st) (if a then r_so st - offset else r_so st)
                      (if b then y else r_ec st) (if b then r_eo st - offset else r_eo st) g
      else g)"

definition step_past :: "nat \<Rightarrow> nat \<Rightarrow> rstate \<Rightarrow> rstate" where
  "step_past p i st =
     (let st1 = (if r_sc st = p \<and> r_so st = i then st\<lparr>r_so := r_so st + 1\<rparr> else st) in
      if r_ec st1 = p \<and> r_eo st1 = i then st1\<lparr>r_eo := r_eo st1 + 1\<rparr> else st1)"

definition ranges_on_split :: "nat \<Rightarrow> nat \<Rightarrow> nat \<Rightarrow> nat \<Rightarrow> nat \<Rightarrow> registry \<Rightarrow> registry" where
  "ranges_on_split x y offset p i g =
     (let g1 = fold (move_split x y offset) (in_container x g) g in
      fold (\<lambda>s. upd_state s (step_past p (i + 1))) (in_container p g1) g1)"

definition move_merged :: "nat \<Rightarrow> nat \<Rightarrow> nat \<Rightarrow> nat \<Rightarrow> registry \<Rightarrow> registry" where
  "move_merged x y len s g =
     (let st = g_states g s; a = (r_sc st = y); b = (r_ec st = y) in
      set_range_state s (if a then x else r_sc st) (if a then r_so st + len else r_so st)
        (if b then x else r_ec st) (if b then r_eo st + len else r_eo st) g)"

definition move_between :: "nat \<Rightarrow> nat \<Rightarrow> nat \<Rightarrow> nat \<Rightarrow> nat \<Rightarrow> registry \<Rightarrow> registry" where
  "move_between x p i len s g =
     (let st = g_states g s; a = (r_sc st = p \<and> r_so st = i); b = (r_ec st = p \<and> r_eo st = i) in
      if a \<or> b then set_range_state s (if a then x else r_sc st) (if a then len else r_so st)
                      (if b then x else r_ec st) (if b then len else r_eo st) g
      else g)"

definition ranges_on_merge :: "nat \<Rightarrow> nat \<Rightarrow> nat \<Rightarrow> nat \<Rightarrow> nat \<Rightarrow> registry \<Rightarrow> registry" where
  "ranges_on_merge x y p i len g =
     (let g1 = fold (move_merged x y len) (in_container y g) g in
      fold (move_between x p i len) (in_container p g1) g1)"

end
