(* ===== verification/DomRangeLaws.thy ===== *)
theory DomRangeLaws
  imports DomRanges
begin

text \<open>
  The updates through the index against their descriptions: each moves the two boundary points of every
  live range by one function on points, and keeps the index exact.
\<close>

section \<open>An exact index\<close>

type_synonym point = "nat \<times> nat"

definition range_start :: "rstate \<Rightarrow> point" where
  "range_start st = (r_sc st, r_so st)"

definition range_end :: "rstate \<Rightarrow> point" where
  "range_end st = (r_ec st, r_eo st)"

definition move_points :: "(point \<Rightarrow> point) \<Rightarrow> rstate \<Rightarrow> rstate" where
  "move_points f st = (case (f (range_start st), f (range_end st)) of
     ((sc, so), (ec, eo)) \<Rightarrow> \<lparr>r_sc = sc, r_so = so, r_ec = ec, r_eo = eo\<rparr>)"

definition look :: "(nat \<times> nat list) list \<Rightarrow> nat \<Rightarrow> nat list" where
  "look idx c = (case map_of idx c of None \<Rightarrow> [] | Some ss \<Rightarrow> ss)"

definition index_wf :: "(nat \<times> nat list) list \<Rightarrow> bool" where
  "index_wf idx = (distinct (map fst idx) \<and> (\<forall>(c, ss) \<in> set idx. ss \<noteq> [] \<and> distinct ss))"

text \<open>The live states are indexed under their containers, and nothing else is.\<close>

definition index_ok :: "nat set \<Rightarrow> registry \<Rightarrow> bool" where
  "index_ok live g = (index_wf (g_index g) \<and>
     (\<forall>c s. s \<in> set (look (g_index g) c) \<longleftrightarrow> s \<in> live \<and> (c = r_sc (g_states g s) \<or> c = r_ec (g_states g s))))"

lemma in_container_look: "in_container c g = look (g_index g) c"
  by (simp add: in_container_def look_def)

lemma keys_range_index_add: "fst ` set (range_index_add c s idx) = insert c (fst ` set idx)"
  by (induction c s idx rule: range_index_add.induct) auto

lemma keys_range_index_remove: "fst ` set (range_index_remove c s idx) \<subseteq> fst ` set idx"
  by (induction c s idx rule: range_index_remove.induct) (auto split: list.splits)

lemma index_wf_Cons: "index_wf ((c, ss) # r) \<longleftrightarrow> c \<notin> fst ` set r \<and> ss \<noteq> [] \<and> distinct ss \<and> index_wf r"
  by (auto simp: index_wf_def)

lemma look_Cons: "look ((k, ss) # r) c = (if k = c then ss else look r c)"
  by (simp add: look_def)

lemma look_none: "c \<notin> fst ` set idx \<Longrightarrow> look idx c = []"
  by (auto simp: look_def split: option.split dest: map_of_SomeD) (metis fst_conv image_eqI map_of_SomeD)

lemma index_nil [simp]: "index_wf []" "look [] c = []"
  by (simp_all add: index_wf_def look_def)

lemma index_add_wf: "index_wf idx \<Longrightarrow> index_wf (range_index_add c s idx)"
  by (induction c s idx rule: range_index_add.induct) (auto simp: index_wf_Cons keys_range_index_add)

lemma filter_others: "distinct ss \<Longrightarrow> filter (\<lambda>x. x \<noteq> s) ss = y # ys \<Longrightarrow> distinct (y # ys)"
  by (metis distinct_filter)

lemma index_remove_wf: "index_wf idx \<Longrightarrow> index_wf (range_index_remove c s idx)"
proof (induction c s idx rule: range_index_remove.induct)
  case (2 c s k ss r)
  with keys_range_index_remove [of c s r] show ?case
    by (auto simp: index_wf_Cons split: list.split dest: filter_others)
qed simp

lemma look_index_add:
  "x \<in> set (look (range_index_add c s idx) c') \<longleftrightarrow> (c' = c \<and> x = s) \<or> x \<in> set (look idx c')"
  by (induction c s idx rule: range_index_add.induct) (auto simp: look_Cons)

lemma filter_member: "filter (\<lambda>x. x \<noteq> s) ss = ys \<Longrightarrow> x \<in> set ys \<longleftrightarrow> x \<noteq> s \<and> x \<in> set ss"
  by auto

lemma look_index_remove:
  "index_wf idx \<Longrightarrow> x \<in> set (look (range_index_remove c s idx) c') \<longleftrightarrow> \<not> (c' = c \<and> x = s) \<and> x \<in> set (look idx c')"
proof (induction c s idx rule: range_index_remove.induct)
  case (2 c s k ss r)
  show ?case
  proof (cases "k = c")
    case True
    show ?thesis
    proof (cases "filter (\<lambda>x. x \<noteq> s) ss")
      case Nil
      with True 2(2) filter_member [OF Nil, of x] show ?thesis by (auto simp: index_wf_Cons look_Cons look_none)
    next
      case (Cons y ys)
      with True filter_member [OF Cons, of x] show ?thesis by (auto simp: look_Cons)
    qed
  next
    case False
    with 2 show ?thesis by (simp add: index_wf_Cons look_Cons)
  qed
qed simp

lemma index_ok_look: "index_ok live g \<Longrightarrow> set (in_container c g) = {s \<in> live. c = r_sc (g_states g s) \<or> c = r_ec (g_states g s)}"
  by (auto simp: index_ok_def in_container_look)

lemma index_ok_distinct: "index_ok live g \<Longrightarrow> distinct (in_container c g)"
  by (auto simp: index_ok_def index_wf_def in_container_def split: option.split dest: map_of_SomeD)

section \<open>One state\<close>

lemma upd_state_simps [simp]:
  "g_index (upd_state s f g) = g_index g" "g_next (upd_state s f g) = g_next g"
  "g_states (upd_state s f g) = (g_states g)(s := f (g_states g s))"
  by (simp_all add: upd_state_def)

lemma upd_index_simps [simp]:
  "g_index (upd_index f g) = f (g_index g)" "g_states (upd_index f g) = g_states g" "g_next (upd_index f g) = g_next g"
  by (simp_all add: upd_index_def)

lemma set_range_state_states:
  "g_states (set_range_state s sc so ec eo g) = (g_states g)(s := \<lparr>r_sc = sc, r_so = so, r_ec = ec, r_eo = eo\<rparr>)"
  by (simp add: set_range_state_def Let_def)

lemma set_range_state_next: "g_next (set_range_state s sc so ec eo g) = g_next g"
  by (simp add: set_range_state_def Let_def)

lemma set_range_state_look:
  assumes "index_wf (g_index g)"
  shows "index_wf (g_index (set_range_state s sc so ec eo g))"
    and "x \<noteq> s \<Longrightarrow> x \<in> set (look (g_index (set_range_state s sc so ec eo g)) c) \<longleftrightarrow> x \<in> set (look (g_index g) c)"
    and "(\<And>c. s \<in> set (look (g_index g) c) \<longleftrightarrow> c = r_sc (g_states g s) \<or> c = r_ec (g_states g s)) \<Longrightarrow>
      s \<in> set (look (g_index (set_range_state s sc so ec eo g)) c) \<longleftrightarrow> c = sc \<or> c = ec"
proof -
  define oSc where "oSc = r_sc (g_states g s)"
  define oEc where "oEc = r_ec (g_states g s)"
  define i1 where "i1 = (if oSc \<noteq> sc \<and> oSc \<noteq> ec then range_index_remove oSc s (g_index g) else g_index g)"
  define i2 where "i2 = (if oEc \<noteq> oSc \<and> oEc \<noteq> sc \<and> oEc \<noteq> ec then range_index_remove oEc s i1 else i1)"
  define i3 where "i3 = (if sc \<noteq> oSc \<and> sc \<noteq> oEc then range_index_add sc s i2 else i2)"
  define i4 where "i4 = (if ec \<noteq> sc \<and> ec \<noteq> oSc \<and> ec \<noteq> oEc then range_index_add ec s i3 else i3)"
  have g: "g_index (set_range_state s sc so ec eo g) = (if sc \<noteq> oSc \<or> ec \<noteq> oEc then i4 else g_index g)"
    by (simp add: set_range_state_def Let_def oSc_def oEc_def i1_def i2_def i3_def i4_def)
  have w: "index_wf i1" "index_wf i2" "index_wf i3" "index_wf i4"
    using assms by (auto simp: i1_def i2_def i3_def i4_def intro: index_add_wf index_remove_wf)
  have l1: "y \<in> set (look i1 c) \<longleftrightarrow> \<not> (c = oSc \<and> y = s \<and> oSc \<noteq> sc \<and> oSc \<noteq> ec) \<and> y \<in> set (look (g_index g) c)" for y c
    using look_index_remove [OF assms, of y oSc s c] by (simp add: i1_def) blast
  have l2: "y \<in> set (look i2 c) \<longleftrightarrow> \<not> (c = oEc \<and> y = s \<and> oEc \<noteq> oSc \<and> oEc \<noteq> sc \<and> oEc \<noteq> ec) \<and> y \<in> set (look i1 c)" for y c
    using look_index_remove [OF w(1), of y oEc s c] by (simp add: i2_def) blast
  have l3: "y \<in> set (look i3 c) \<longleftrightarrow> (c = sc \<and> y = s \<and> sc \<noteq> oSc \<and> sc \<noteq> oEc) \<or> y \<in> set (look i2 c)" for y c
    using look_index_add [of y sc s i2 c] by (simp add: i3_def)
  have l4: "y \<in> set (look i4 c) \<longleftrightarrow> (c = ec \<and> y = s \<and> ec \<noteq> sc \<and> ec \<noteq> oSc \<and> ec \<noteq> oEc) \<or> y \<in> set (look i3 c)" for y c
    using look_index_add [of y ec s i3 c] by (simp add: i4_def)
  show "index_wf (g_index (set_range_state s sc so ec eo g))" using g w(4) assms by simp
  show "x \<in> set (look (g_index (set_range_state s sc so ec eo g)) c) \<longleftrightarrow> x \<in> set (look (g_index g) c)" if "x \<noteq> s"
    using that by (simp add: g l1 l2 l3 l4)
  show "s \<in> set (look (g_index (set_range_state s sc so ec eo g)) c) \<longleftrightarrow> c = sc \<or> c = ec"
    if o1: "\<And>c. s \<in> set (look (g_index g) c) \<longleftrightarrow> c = r_sc (g_states g s) \<or> c = r_ec (g_states g s)"
  proof (cases "sc \<noteq> oSc \<or> ec \<noteq> oEc")
    case True
    show ?thesis
      by (simp add: g True l1 l2 l3 l4 o1 oSc_def [symmetric] oEc_def [symmetric]) (use True in blast)
  next
    case False
    with g have "g_index (set_range_state s sc so ec eo g) = g_index g" by simp
    with False o1 show ?thesis by (simp add: oSc_def oEc_def)
  qed
qed

lemma set_range_state_ok:
  assumes "index_ok live g" "s \<in> live"
  shows "index_ok live (set_range_state s sc so ec eo g)"
proof -
  have wf: "index_wf (g_index g)" using assms by (simp add: index_ok_def)
  show ?thesis unfolding index_ok_def
  proof (intro conjI allI)
    show "index_wf (g_index (set_range_state s sc so ec eo g))" by (rule set_range_state_look(1) [OF wf])
    fix c x
    show "x \<in> set (look (g_index (set_range_state s sc so ec eo g)) c) \<longleftrightarrow>
      x \<in> live \<and> (c = r_sc (g_states (set_range_state s sc so ec eo g) x) \<or> c = r_ec (g_states (set_range_state s sc so ec eo g) x))"
    proof (cases "x = s")
      case True
      with set_range_state_look(3) [OF wf, of s sc so ec eo c] assms show ?thesis
        by (simp add: index_ok_def set_range_state_states)
    next
      case False
      with set_range_state_look(2) [OF wf False, of sc so ec eo c] assms show ?thesis
        by (simp add: index_ok_def set_range_state_states)
    qed
  qed
qed

lemma upd_state_ok:
  assumes "index_ok live g" "r_sc (f (g_states g s)) = r_sc (g_states g s)" "r_ec (f (g_states g s)) = r_ec (g_states g s)"
  shows "index_ok live (upd_state s f g)"
  using assms by (auto simp: index_ok_def)

section \<open>Folds over the states of a container\<close>

text \<open>
  The loops of the updates: every round changes one state, by a function of that state alone, and keeps the
  index exact.
\<close>

locale state_loop =
  fixes round1 :: "nat \<Rightarrow> registry \<Rightarrow> registry" and change :: "rstate \<Rightarrow> rstate"
  assumes keeps_index: "index_ok live g \<Longrightarrow> s \<in> live \<Longrightarrow> index_ok live (round1 s g)"
    and one_state: "g_states (round1 s g) = (g_states g)(s := change (g_states g s))"
    and same_next: "g_next (round1 s g) = g_next g"
begin

lemma fold_ok: "index_ok live g \<Longrightarrow> set ss \<subseteq> live \<Longrightarrow> index_ok live (fold round1 ss g)"
  by (induction ss arbitrary: g) (auto intro: keeps_index)

lemma fold_states:
  "distinct ss \<Longrightarrow> g_states (fold round1 ss g) s = (if s \<in> set ss then change (g_states g s) else g_states g s)"
  by (induction ss arbitrary: g) (auto simp: one_state)

lemma fold_next: "g_next (fold round1 ss g) = g_next g"
  by (induction ss arbitrary: g) (auto simp: same_next)

end

lemma grow_after_containers: "r_sc (grow_after p i n st) = r_sc st" "r_ec (grow_after p i n st) = r_ec st"
  by (simp_all add: grow_after_def Let_def)

lemma shrink_after_containers: "r_sc (shrink_after p i st) = r_sc st" "r_ec (shrink_after p i st) = r_ec st"
  by (simp_all add: shrink_after_def Let_def)

lemma replace_offsets_containers: "r_sc (replace_offsets x o1 n m st) = r_sc st" "r_ec (replace_offsets x o1 n m st) = r_ec st"
  by (simp_all add: replace_offsets_def Let_def)

lemma step_past_containers: "r_sc (step_past p i st) = r_sc st" "r_ec (step_past p i st) = r_ec st"
  by (simp_all add: step_past_def Let_def)

interpretation grow: state_loop "\<lambda>s. upd_state s (grow_after p i n)" "grow_after p i n" for p i n
  by unfold_locales (auto intro: upd_state_ok simp: grow_after_containers)

interpretation shrink: state_loop "\<lambda>s. upd_state s (shrink_after p i)" "shrink_after p i" for p i
  by unfold_locales (auto intro: upd_state_ok simp: shrink_after_containers)

interpretation repl: state_loop "\<lambda>s. upd_state s (replace_offsets x o1 n m)" "replace_offsets x o1 n m" for x o1 n m
  by unfold_locales (auto intro: upd_state_ok simp: replace_offsets_containers)

interpretation past: state_loop "\<lambda>s. upd_state s (step_past p i)" "step_past p i" for p i
  by unfold_locales (auto intro: upd_state_ok simp: step_past_containers)

section \<open>Updates as functions on boundary points\<close>

text \<open>The state of every live range has its two points moved by \<open>f\<close>; nothing else changes.\<close>

definition follows :: "nat set \<Rightarrow> (point \<Rightarrow> point) \<Rightarrow> registry \<Rightarrow> registry \<Rightarrow> bool" where
  "follows live f g g' = (index_ok live g' \<and> g_next g' = g_next g \<and>
     (\<forall>s. g_states g' s = (if s \<in> live then move_points f (g_states g s) else g_states g s)))"

lemma move_points_compose: "move_points f (move_points h st) = move_points (f \<circ> h) st"
  by (auto simp: move_points_def range_start_def range_end_def split: prod.splits)

lemma follows_trans: "follows live f g g1 \<Longrightarrow> follows live h g1 g2 \<Longrightarrow> follows live (h \<circ> f) g g2"
  by (auto simp: follows_def move_points_compose)

lemma follows_index: "follows live f g g' \<Longrightarrow> index_ok live g'"
  by (simp add: follows_def)

lemma follows_step: "follows live f g g1 \<Longrightarrow> (index_ok live g1 \<Longrightarrow> follows live h g1 g2) \<Longrightarrow> follows live (h \<circ> f) g g2"
  by (blast intro: follows_trans follows_index)

lemma move_points_same: "f (range_start st) = range_start st \<Longrightarrow> f (range_end st) = range_end st \<Longrightarrow> move_points f st = st"
  by (cases st) (simp add: move_points_def range_start_def range_end_def)

definition pt_grow :: "nat \<Rightarrow> nat \<Rightarrow> nat \<Rightarrow> point \<Rightarrow> point" where
  "pt_grow p i n = (\<lambda>(c, o1). if c = p \<and> o1 > i then (c, o1 + n) else (c, o1))"

definition pt_leave :: "dom \<Rightarrow> nat \<Rightarrow> nat \<Rightarrow> nat \<Rightarrow> point \<Rightarrow> point" where
  "pt_leave d p x i = (\<lambda>(c, o1). if contains d x c then (p, i) else (c, o1))"

definition pt_shrink :: "nat \<Rightarrow> nat \<Rightarrow> point \<Rightarrow> point" where
  "pt_shrink p i = (\<lambda>(c, o1). if c = p \<and> o1 > i then (c, o1 - 1) else (c, o1))"

definition pt_remove :: "dom \<Rightarrow> nat \<Rightarrow> nat \<Rightarrow> nat \<Rightarrow> point \<Rightarrow> point" where
  "pt_remove d p x i = (\<lambda>(c, o1). if contains d x c then (p, i) else if c = p \<and> o1 > i then (c, o1 - 1) else (c, o1))"

definition pt_old :: "dom \<Rightarrow> nat \<Rightarrow> nat list \<Rightarrow> point \<Rightarrow> point" where
  "pt_old d p kids = (\<lambda>(c, o1). if in_old d p kids c then (p, 0) else (c, o1))"

definition pt_replace :: "nat \<Rightarrow> nat \<Rightarrow> nat \<Rightarrow> nat \<Rightarrow> point \<Rightarrow> point" where
  "pt_replace x offset count added = (\<lambda>(c, o1). if c = x then (c, replaced_offset offset count added o1) else (c, o1))"

definition pt_split :: "nat \<Rightarrow> nat \<Rightarrow> nat \<Rightarrow> point \<Rightarrow> point" where
  "pt_split x y offset = (\<lambda>(c, o1). if c = x \<and> o1 > offset then (y, o1 - offset) else (c, o1))"

definition pt_past :: "nat \<Rightarrow> nat \<Rightarrow> point \<Rightarrow> point" where
  "pt_past p i = (\<lambda>(c, o1). if c = p \<and> o1 = i then (c, o1 + 1) else (c, o1))"

definition pt_merged :: "nat \<Rightarrow> nat \<Rightarrow> nat \<Rightarrow> point \<Rightarrow> point" where
  "pt_merged x y len = (\<lambda>(c, o1). if c = y then (x, o1 + len) else (c, o1))"

definition pt_between :: "nat \<Rightarrow> nat \<Rightarrow> nat \<Rightarrow> nat \<Rightarrow> point \<Rightarrow> point" where
  "pt_between x p i len = (\<lambda>(c, o1). if c = p \<and> o1 = i then (x, len) else (c, o1))"

lemmas point_defs = move_points_def range_start_def range_end_def

lemma grow_points: "grow_after p i n = move_points (pt_grow p i n)"
  by (rule ext) (simp add: point_defs grow_after_def pt_grow_def Let_def)

lemma shrink_points: "shrink_after p i = move_points (pt_shrink p i)"
  by (rule ext) (simp add: point_defs shrink_after_def pt_shrink_def Let_def)

lemma replace_points: "replace_offsets x o1 n m = move_points (pt_replace x o1 n m)"
  by (rule ext) (simp add: point_defs replace_offsets_def pt_replace_def Let_def)

lemma past_points: "step_past p i = move_points (pt_past p i)"
  by (rule ext) (simp add: point_defs step_past_def pt_past_def Let_def)

interpretation leave: state_loop "leave_subtree d p x i" "move_points (pt_leave d p x i)" for d p x i
  by unfold_locales (auto simp: leave_subtree_def Let_def set_range_state_states set_range_state_ok set_range_state_next point_defs pt_leave_def)

interpretation old: state_loop "leave_old d p kids" "move_points (pt_old d p kids)" for d p kids
  by unfold_locales (auto simp: leave_old_def Let_def set_range_state_states set_range_state_ok set_range_state_next point_defs pt_old_def)

interpretation merged: state_loop "move_merged x y len" "move_points (pt_merged x y len)" for x y len
  by unfold_locales (auto simp: move_merged_def Let_def set_range_state_states set_range_state_ok set_range_state_next point_defs pt_merged_def)

interpretation between: state_loop "move_between x p i len" "move_points (pt_between x p i len)" for x p i len
  by unfold_locales (auto simp: move_between_def Let_def set_range_state_states set_range_state_ok set_range_state_next point_defs pt_between_def)

interpretation split_loop: state_loop "move_split x y o1" "move_points (pt_split x y o1)" for x y o1
  by unfold_locales (auto simp: move_split_def Let_def set_range_state_states set_range_state_ok set_range_state_next point_defs pt_split_def)

lemma in_container_live: "index_ok live g \<Longrightarrow> set (in_container c g) \<subseteq> live"
  by (auto simp: index_ok_look)

text \<open>A loop over a set of live states that contains every state the function moves; above all, over a container.\<close>

context state_loop
begin

lemma fold_follows:
  assumes "index_ok live g" "set ss \<subseteq> live" "distinct ss" "change = move_points f"
    and "\<And>s. s \<in> live \<Longrightarrow> s \<notin> set ss \<Longrightarrow> f (range_start (g_states g s)) = range_start (g_states g s) \<and> f (range_end (g_states g s)) = range_end (g_states g s)"
  shows "follows live f g (fold round1 ss g)"
  using assms fold_ok [OF assms(1,2)] by (auto simp: follows_def fold_states fold_next move_points_same)

lemma container_follows:
  assumes "index_ok live g" "change = move_points f" "\<And>a o1. a \<noteq> c \<Longrightarrow> f (a, o1) = (a, o1)"
  shows "follows live f g (fold round1 (in_container c g) g)"
  using assms by (intro fold_follows) (auto simp: in_container_live index_ok_distinct index_ok_look range_start_def range_end_def)

end

theorem insert_follows: "index_ok live g \<Longrightarrow> follows live (pt_grow p i n) g (ranges_on_insert p i n g)"
  unfolding ranges_on_insert_def by (erule grow.container_follows) (auto simp: grow_points pt_grow_def)

theorem replace_data_follows: "index_ok live g \<Longrightarrow> follows live (pt_replace x o1 n m) g (ranges_on_replace_data x o1 n m g)"
  unfolding ranges_on_replace_data_def by (erule repl.container_follows) (auto simp: replace_points pt_replace_def)

lemma shrink_follows: "index_ok live g \<Longrightarrow> follows live (pt_shrink p i) g (fold (\<lambda>s. upd_state s (shrink_after p i)) (in_container p g) g)"
  by (erule shrink.container_follows) (auto simp: shrink_points pt_shrink_def)

lemma past_follows: "index_ok live g \<Longrightarrow> follows live (pt_past p i) g (fold (\<lambda>s. upd_state s (step_past p i)) (in_container p g) g)"
  by (erule past.container_follows) (auto simp: past_points pt_past_def)

lemma split_follows: "index_ok live g \<Longrightarrow> follows live (pt_past p (i + 1) \<circ> pt_split x y o1) g (ranges_on_split x y o1 p i g)"
  unfolding ranges_on_split_def Let_def
  by (rule follows_step [OF split_loop.container_follows]) (auto simp: pt_split_def intro: past_follows)

lemma between_follows: "index_ok live g \<Longrightarrow> follows live (pt_between x p i len) g (fold (move_between x p i len) (in_container p g) g)"
  by (erule between.container_follows) (auto simp: pt_between_def)

lemma merge_follows: "index_ok live g \<Longrightarrow> follows live (pt_between x p i len \<circ> pt_merged x y len) g (ranges_on_merge x y p i len g)"
  unfolding ranges_on_merge_def Let_def
  by (rule follows_step [OF merged.container_follows]) (auto simp: pt_merged_def intro: between_follows)

lemma states_inside_iff:
  "index_ok live g \<Longrightarrow> s \<in> set (states_inside d x skip g) \<longleftrightarrow>
     s \<in> live \<and> (\<exists>c. c \<noteq> skip \<and> contains d x c \<and> (c = r_sc (g_states g s) \<or> c = r_ec (g_states g s)))"
proof -
  assume ok1: "index_ok live g"
  have "s \<in> set (states_inside d x skip g) \<longleftrightarrow> (\<exists>c ss. (c, ss) \<in> set (g_index g) \<and> c \<noteq> skip \<and> contains d x c \<and> s \<in> set ss)"
    by (auto simp: states_inside_def set_first_occurrences)
  also have "\<dots> \<longleftrightarrow> (\<exists>c. c \<noteq> skip \<and> contains d x c \<and> s \<in> set (look (g_index g) c))"
    using ok1 by (auto simp: index_ok_def index_wf_def look_def split: option.splits dest: map_of_SomeD)
  finally show ?thesis using ok1 by (auto simp: index_ok_def)
qed

lemma distinct_states_inside: "distinct (states_inside d x skip g)"
  by (simp add: states_inside_def distinct_first_occurrences)

lemma leave_follows:
  assumes "index_ok live g" "\<not> contains d x p"
  shows "follows live (pt_leave d p x i) g (fold (leave_subtree d p x i) (states_inside d x p g) g)"
proof (rule leave.fold_follows [OF assms(1)])
  fix s
  assume "s \<in> live" "s \<notin> set (states_inside d x p g)"
  with assms have "\<not> contains d x (r_sc (g_states g s))" "\<not> contains d x (r_ec (g_states g s))"
    by (metis states_inside_iff)+
  then show "pt_leave d p x i (range_start (g_states g s)) = range_start (g_states g s) \<and>
    pt_leave d p x i (range_end (g_states g s)) = range_end (g_states g s)"
    by (simp add: pt_leave_def range_start_def range_end_def)
qed (use assms in \<open>auto simp: states_inside_iff distinct_states_inside\<close>)

theorem remove_follows:
  assumes "index_ok live g" "\<not> contains d x p"
  shows "follows live (pt_remove d p x i) g (ranges_on_remove d p x i g)"
proof -
  have "pt_shrink p i \<circ> pt_leave d p x i = pt_remove d p x i"
    by (auto simp: pt_shrink_def pt_leave_def pt_remove_def)
  moreover have "follows live (pt_shrink p i \<circ> pt_leave d p x i) g (ranges_on_remove d p x i g)"
    unfolding ranges_on_remove_def Let_def
    using leave_follows [OF assms] shrink_follows by (rule follows_step)
  ultimately show ?thesis by simp
qed

theorem replace_all_follows:
  assumes "index_ok live g"
  shows "follows live (pt_old d p kids) g (ranges_on_replace_all d p kids g)"
  unfolding ranges_on_replace_all_def
proof (rule old.fold_follows [OF assms])
  let ?ss = "first_occurrences [] (in_container p g @ concat (map (\<lambda>k. states_inside d k p g) kids))"
  show "set ?ss \<subseteq> live" using assms by (auto simp: set_first_occurrences states_inside_iff index_ok_look)
  fix s
  assume "s \<in> live" "s \<notin> set ?ss"
  with assms have "\<not> in_old d p kids (r_sc (g_states g s))" "\<not> in_old d p kids (r_ec (g_states g s))"
    by (auto simp: set_first_occurrences states_inside_iff index_ok_look in_old_def list_ex_iff)
  then show "pt_old d p kids (range_start (g_states g s)) = range_start (g_states g s) \<and>
    pt_old d p kids (range_end (g_states g s)) = range_end (g_states g s)"
    by (simp add: pt_old_def range_start_def range_end_def)
qed (simp_all add: distinct_first_occurrences)

end
