(* ===== verification/DomPoints.thy ===== *)
theory DomPoints
  imports DomRangeLaws
begin

text \<open>
  The boundary points of a tree in order, as a list, and the changes of the tree as changes of that list.  A
  live range is well placed when its points are points of one tree, the start before the end or equal to it.
\<close>

section \<open>Order in a list\<close>

fun before :: "'a list \<Rightarrow> 'a \<Rightarrow> 'a \<Rightarrow> bool" where
  "before [] a b = False"
| "before (x # xs) a b = ((a = x \<and> (b = x \<or> b \<in> set xs)) \<or> before xs a b)"

lemma before_in: "before xs a b \<Longrightarrow> a \<in> set xs \<and> b \<in> set xs"
  by (induction xs) auto

lemma before_refl: "a \<in> set xs \<Longrightarrow> before xs a a"
  by (induction xs) auto

lemma before_append: "before (xs @ ys) a b \<longleftrightarrow> before xs a b \<or> before ys a b \<or> (a \<in> set xs \<and> b \<in> set ys)"
  by (induction xs) auto

lemma before_map: "before xs a b \<Longrightarrow> before (map f xs) (f a) (f b)"
  by (induction xs) auto

lemma before_subseq: "subseq xs ys \<Longrightarrow> before xs a b \<Longrightarrow> before ys a b"
  by (induction rule: list_emb.induct) (auto dest: list_emb_set)

lemma before_antisym: "distinct xs \<Longrightarrow> before xs a b \<Longrightarrow> before xs b a \<Longrightarrow> a = b"
  by (induction xs) (auto dest: before_in)

lemma before_total: "a \<in> set xs \<Longrightarrow> b \<in> set xs \<Longrightarrow> before xs a b \<or> before xs b a"
  by (induction xs) auto

lemma before_upt: "before (map (Pair x) [0..<n]) (x, a) (x, b) \<longleftrightarrow> a \<le> b \<and> b < n"
  by (induction n) (auto simp: before_append before.simps)

text \<open>A function carries the points of one list to another when it keeps their order.\<close>

definition carries :: "('a \<Rightarrow> 'a) \<Rightarrow> 'a list \<Rightarrow> 'a list \<Rightarrow> bool" where
  "carries f xs ys = (\<forall>a b. before xs a b \<longrightarrow> before ys (f a) (f b))"

lemma carriesD: "carries f xs ys \<Longrightarrow> before xs a b \<Longrightarrow> before ys (f a) (f b)"
  by (simp add: carries_def)

lemma carries_in: "carries f xs ys \<Longrightarrow> a \<in> set xs \<Longrightarrow> f a \<in> set ys"
  using before_in [of ys "f a" "f a"] by (auto simp: carries_def before_refl)

lemma carries_subseq: "subseq (map f xs) ys \<Longrightarrow> carries f xs ys"
  by (auto simp: carries_def intro: before_subseq before_map)

lemma carries_const: "(\<And>a. a \<in> set xs \<Longrightarrow> f a = z) \<Longrightarrow> z \<in> set ys \<Longrightarrow> carries f xs ys"
  by (auto simp: carries_def before_refl dest: before_in)

lemma carries_same: "(\<And>a. a \<in> set xs \<Longrightarrow> f a = a) \<Longrightarrow> carries f xs xs"
  unfolding carries_def by (metis before_in)

lemma carries_append:
  assumes "carries f xs xs'" "carries f ys ys'"
  shows "carries f (xs @ ys) (xs' @ ys')"
  using assms carries_in [OF assms(1)] carries_in [OF assms(2)] by (auto simp: carries_def before_append)

lemma carries_around:
  assumes "carries f xs ys" "\<And>a. a \<in> set A \<union> set B \<Longrightarrow> f a = a"
  shows "carries f (A @ xs @ B) (A @ ys @ B)"
  using assms by (intro carries_append) (auto intro: carries_same)

text \<open>A block of points that all go to the point after it.\<close>

lemma carries_collapse:
  assumes "\<And>a. a \<in> set ks \<Longrightarrow> f a = z" "carries f ys (z # zs)"
  shows "carries f (ks @ ys) (z # zs)"
proof -
  have "before (z # zs) z (f b)" if "b \<in> set ys" for b
    using carries_in [OF assms(2) that] by (auto simp: before.simps)
  with assms show ?thesis by (auto simp: carries_def before_append before.simps dest!: before_in)
qed

section \<open>The points of a tree\<close>

fun points_tree :: "tree \<Rightarrow> point list"
  and gaps :: "nat \<Rightarrow> nat \<Rightarrow> tree list \<Rightarrow> point list" where
  "points_tree (T i n ks) = (if char_kind (i_nkind n) then map (Pair i) [0..<Suc (length (i_text n))] else gaps i 0 ks)"
| "gaps i o1 [] = [(i, o1)]"
| "gaps i o1 (k # ks) = (i, o1) # points_tree k @ gaps i (Suc o1) ks"

fun pre_gaps :: "nat \<Rightarrow> nat \<Rightarrow> tree list \<Rightarrow> point list" where
  "pre_gaps i o1 [] = []"
| "pre_gaps i o1 (k # ks) = (i, o1) # points_tree k @ pre_gaps i (Suc o1) ks"

lemma gaps_append: "gaps i o1 (ks @ ls) = pre_gaps i o1 ks @ gaps i (o1 + length ks) ls"
  by (induction ks arbitrary: o1) auto

lemma points_containers: "(c, o1) \<in> set (points_tree t) \<Longrightarrow> c \<in> set (pre_tree t)"
  "(c, o1) \<in> set (gaps i j ts) \<Longrightarrow> c = i \<or> c \<in> set (pre_trees ts)"
  by (induction t and i j ts arbitrary: and rule: points_tree_gaps.induct) (auto split: if_splits)

lemma pre_gaps_containers: "(c, o1) \<in> set (pre_gaps i j ts) \<Longrightarrow> (c = i \<and> o1 < j + length ts) \<or> c \<in> set (pre_trees ts)"
proof (induction ts arbitrary: j)
  case (Cons t ts)
  from Cons.prems Cons.IH [of "Suc j"] show ?case by (auto dest: points_containers)
qed simp

section \<open>Editing one node\<close>

definition leaf_kind :: "int \<Rightarrow> bool" where
  "leaf_kind k = (\<not> has_children k)"

lemma leaf_kind_char: "char_kind k \<Longrightarrow> leaf_kind k"
  by (auto simp: leaf_kind_def char_kind_def has_children_def)

text \<open>The type of a wrapper and the native type agree on which nodes are fragments and which have children; a document
  made by a script is a fragment natively.\<close>

definition kinds_agree :: "ninfo \<Rightarrow> bool" where
  "kinds_agree n = (i_cached n \<longrightarrow> (i_kind n = 11 \<longrightarrow> i_nkind n = 11) \<and> (i_nkind n = 11 \<longrightarrow> i_kind n = 11 \<or> i_kind n = 9) \<and> (has_children (i_kind n) \<longleftrightarrow> has_children (i_nkind n)))"

definition leaf_ok :: "tree \<Rightarrow> bool" where
  "leaf_ok u = ((leaf_kind (i_nkind (tinfo u)) \<longrightarrow> tkids u = []) \<and> kinds_agree (tinfo u))"

text \<open>Ids are positive and unique, and only nodes that may have children have some.\<close>

definition forest_ok :: "tree list \<Rightarrow> bool" where
  "forest_ok ts = (distinct (pre_trees ts) \<and> 0 \<notin> set (pre_trees ts) \<and> (\<forall>u \<in> set (subs_list ts). leaf_ok u))"

lemma edit_absent: "x \<notin> set (pre_tree t) \<Longrightarrow> edit_tree x g t = t" "x \<notin> set (pre_trees ts) \<Longrightarrow> edit_trees x g ts = ts"
  by (induction t and ts rule: subs_subs_list.induct) auto

lemma sub_ids: "u \<in> set (subs t) \<Longrightarrow> set (pre_tree u) \<subseteq> set (pre_tree t)"
  "u \<in> set (subs_list ts) \<Longrightarrow> set (pre_tree u) \<subseteq> set (pre_trees ts)"
  using subs_trans by (fastforce simp: pre_subs)+

lemma tid_in_sub: "tid u \<in> set (pre_tree u)"
  by (cases u) simp

lemma edit_pre:
  "distinct (pre_tree t) \<Longrightarrow> u \<in> set (subs t) \<Longrightarrow>
     \<exists>A B. pre_tree t = A @ pre_tree u @ B \<and> (\<forall>g. pre_tree (edit_tree (tid u) g t) = A @ pre_tree (g u) @ B)"
  "distinct (pre_trees ts) \<Longrightarrow> u \<in> set (subs_list ts) \<Longrightarrow>
     \<exists>A B. pre_trees ts = A @ pre_tree u @ B \<and> (\<forall>g. pre_trees (edit_trees (tid u) g ts) = A @ pre_tree (g u) @ B)"
proof (induction t and ts rule: subs_subs_list.induct)
  case (1 i n ks)
  show ?case
  proof (cases "u = T i n ks")
    case True
    then show ?thesis by (intro exI [of _ "[]"]) simp
  next
    case False
    with 1 have u: "u \<in> set (subs_list ks)" by auto
    with 1 obtain A B where "pre_trees ks = A @ pre_tree u @ B" "\<forall>g. pre_trees (edit_trees (tid u) g ks) = A @ pre_tree (g u) @ B"
      by auto
    moreover have "i \<noteq> tid u" using u 1 by (auto simp: pre_subs)
    ultimately show ?thesis by (intro exI [of _ "i # A"] exI [of _ B]) simp
  qed
next
  case (3 t ts)
  show ?case
  proof (cases "u \<in> set (subs t)")
    case True
    with 3 obtain A B where "pre_tree t = A @ pre_tree u @ B" "\<forall>g. pre_tree (edit_tree (tid u) g t) = A @ pre_tree (g u) @ B"
      by auto
    moreover have "tid u \<notin> set (pre_trees ts)" using True 3(3) by (auto simp: pre_subs)
    ultimately show ?thesis by (intro exI [of _ A] exI [of _ "B @ pre_trees ts"]) (simp add: edit_absent)
  next
    case False
    with 3 have u: "u \<in> set (subs_list ts)" by auto
    with 3 obtain A B where "pre_trees ts = A @ pre_tree u @ B" "\<forall>g. pre_trees (edit_trees (tid u) g ts) = A @ pre_tree (g u) @ B"
      by auto
    moreover have "tid u \<notin> set (pre_tree t)" using u 3(3) by (auto simp: pre_subs)
    ultimately show ?thesis by (intro exI [of _ "pre_tree t @ A"] exI [of _ B]) (simp add: edit_absent)
  qed
qed auto

lemma edit_sub:
  "distinct (pre_tree t) \<Longrightarrow> u \<in> set (subs t) \<Longrightarrow> g u \<in> set (subs (edit_tree (tid u) g t))"
  "distinct (pre_trees ts) \<Longrightarrow> u \<in> set (subs_list ts) \<Longrightarrow> g u \<in> set (subs_list (edit_trees (tid u) g ts))"
proof (induction t and ts rule: subs_subs_list.induct)
  case (1 i n ks)
  show ?case
  proof (cases "u = T i n ks")
    case True
    then show ?thesis using subs_self by simp
  next
    case False
    with 1 have "u \<in> set (subs_list ks)" by auto
    moreover from this have "i \<noteq> tid u" using 1(2) by (auto simp: pre_subs)
    ultimately show ?thesis using 1 by simp
  qed
qed auto

lemma edit_points:
  "distinct (pre_tree t) \<Longrightarrow> \<forall>v \<in> set (subs t). leaf_ok v \<Longrightarrow> u \<in> set (subs t) \<Longrightarrow>
     \<exists>A B. points_tree t = A @ points_tree u @ B \<and> (\<forall>g. points_tree (edit_tree (tid u) g t) = A @ points_tree (g u) @ B) \<and>
       (\<forall>(c, o1) \<in> set A \<union> set B. c \<notin> set (pre_tree u))"
  "distinct (pre_trees ts) \<Longrightarrow> \<forall>v \<in> set (subs_list ts). leaf_ok v \<Longrightarrow> u \<in> set (subs_list ts) \<Longrightarrow> i \<notin> set (pre_trees ts) \<Longrightarrow>
     \<exists>A B. gaps i o1 ts = A @ points_tree u @ B \<and> (\<forall>g. gaps i o1 (edit_trees (tid u) g ts) = A @ points_tree (g u) @ B) \<and>
       (\<forall>(c, o1) \<in> set A \<union> set B. c \<notin> set (pre_tree u))"
proof (induction t and ts arbitrary: and i o1 rule: subs_subs_list.induct)
  case (1 j n ks)
  show ?case
  proof (cases "u = T j n ks")
    case True
    then show ?thesis by (intro exI [of _ "[]"]) simp
  next
    case False
    with 1 have u: "u \<in> set (subs_list ks)" by auto
    have "\<exists>A B. gaps j 0 ks = A @ points_tree u @ B \<and> (\<forall>g. gaps j 0 (edit_trees (tid u) g ks) = A @ points_tree (g u) @ B) \<and>
      (\<forall>(c, o1) \<in> set A \<union> set B. c \<notin> set (pre_tree u))"
      by (rule 1(1)) (use u 1 in auto)
    then obtain A B where AB: "gaps j 0 ks = A @ points_tree u @ B" "\<forall>g. gaps j 0 (edit_trees (tid u) g ks) = A @ points_tree (g u) @ B"
      "\<forall>(c, o1) \<in> set A \<union> set B. c \<notin> set (pre_tree u)"
      by blast
    moreover have "j \<noteq> tid u" using u 1 by (auto simp: pre_subs)
    moreover have "\<not> char_kind (i_nkind n)" using u 1(3) by (cases ks) (auto simp: leaf_ok_def leaf_kind_char)
    ultimately show ?thesis by (intro exI [of _ A] exI [of _ B]) simp
  qed
next
  case (3 t ts)
  show ?case
  proof (cases "u \<in> set (subs t)")
    case True
    with 3 obtain A B where AB: "points_tree t = A @ points_tree u @ B" "\<forall>g. points_tree (edit_tree (tid u) g t) = A @ points_tree (g u) @ B"
      "\<forall>(c, o1) \<in> set A \<union> set B. c \<notin> set (pre_tree u)"
      by auto
    moreover have "tid u \<notin> set (pre_trees ts)" using True 3(3) by (auto simp: pre_subs)
    moreover have "c \<notin> set (pre_tree u)" if "(c, o2) \<in> set (gaps i (Suc o1) ts)" for c o2
      using points_containers(2) [OF that] sub_ids(1) [OF True] 3(3,6) by auto
    moreover have "i \<notin> set (pre_tree u)" using sub_ids(1) [OF True] 3(6) by auto
    ultimately show ?thesis
      by (intro exI [of _ "(i, o1) # A"] exI [of _ "B @ gaps i (Suc o1) ts"]) (auto simp: edit_absent)
  next
    case False
    with 3 have u: "u \<in> set (subs_list ts)" by auto
    have "\<exists>A B. gaps i (Suc o1) ts = A @ points_tree u @ B \<and> (\<forall>g. gaps i (Suc o1) (edit_trees (tid u) g ts) = A @ points_tree (g u) @ B) \<and>
      (\<forall>(c, o1) \<in> set A \<union> set B. c \<notin> set (pre_tree u))"
      by (rule 3(2)) (use u 3 in auto)
    then obtain A B where AB: "gaps i (Suc o1) ts = A @ points_tree u @ B" "\<forall>g. gaps i (Suc o1) (edit_trees (tid u) g ts) = A @ points_tree (g u) @ B"
      "\<forall>(c, o1) \<in> set A \<union> set B. c \<notin> set (pre_tree u)"
      by blast
    moreover have "tid u \<notin> set (pre_tree t)" using u 3(3) by (auto simp: pre_subs)
    moreover have "c \<notin> set (pre_tree u)" if "(c, o2) \<in> set (points_tree t)" for c o2
      using points_containers(1) [OF that] sub_ids(2) [OF u] 3(3) by auto
    moreover have "i \<notin> set (pre_tree u)" using sub_ids(2) [OF u] 3(6) by auto
    ultimately show ?thesis
      by (intro exI [of _ "(i, o1) # points_tree t @ A"] exI [of _ B]) (auto simp: edit_absent)
  qed
qed auto

end
