(* ===== verification/DomPlaced.thy ===== *)
theory DomPlaced
  imports DomPoints
begin

text \<open>
  Each change of the tree carries the boundary points of the old tree to points of the new one, by the function
  that the update of the ranges applies.
\<close>

section \<open>Placed ranges\<close>

definition placed :: "tree list \<Rightarrow> rstate \<Rightarrow> bool" where
  "placed ts st = (\<exists>t \<in> set ts. before (points_tree t) (range_start st) (range_end st))"

lemma move_points_sel [simp]:
  "range_start (move_points f st) = f (range_start st)" "range_end (move_points f st) = f (range_end st)"
  by (auto simp: move_points_def range_start_def range_end_def split: prod.splits)

lemma edit_trees_map: "edit_trees x g ts = map (edit_tree x g) ts"
  by (induction ts) auto

lemma placed_mono: "set ts \<subseteq> set ts' \<Longrightarrow> placed ts st \<Longrightarrow> placed ts' st"
  by (auto simp: placed_def)

lemma pre_trees_append [simp]: "pre_trees (ts @ us) = pre_trees ts @ pre_trees us"
  by (induction ts) auto

lemma subs_list_append [simp]: "subs_list (ts @ us) = subs_list ts @ subs_list us"
  by (induction ts) auto

lemma tree_ids: "t \<in> set ts \<Longrightarrow> set (pre_tree t) \<subseteq> set (pre_trees ts)"
  by (induction ts) auto

lemma two_trees:
  assumes "distinct (pre_trees ts)" "t \<in> set ts" "t' \<in> set ts" "x \<in> set (pre_tree t)" "x \<in> set (pre_tree t')"
  shows "t = t'"
  using assms by (induction ts) (auto dest: tree_ids)

lemma sub_tree_of: "u \<in> set (subs_list ts) \<Longrightarrow> \<exists>t \<in> set ts. u \<in> set (subs t)"
  by (rule subs_list_cases)

lemma distinct_tree: "distinct (pre_trees ts) \<Longrightarrow> t \<in> set ts \<Longrightarrow> distinct (pre_tree t)"
  by (induction ts) auto

lemma forest_tree: "forest_ok ts \<Longrightarrow> t \<in> set ts \<Longrightarrow> distinct (pre_tree t) \<and> (\<forall>v \<in> set (subs t). leaf_ok v)"
  using kid_in_subs [of t ts] by (auto simp: forest_ok_def distinct_tree)

lemma point_container: "before (points_tree t) a b \<Longrightarrow> fst a \<in> set (pre_tree t) \<and> fst b \<in> set (pre_tree t)"
  by (cases a; cases b) (auto dest!: before_in points_containers(1))

lemma edit_placed:
  assumes "forest_ok ts" "u \<in> set (subs_list ts)" "carries f (points_tree u) (points_tree (g u))"
    and "\<And>c o1. c \<notin> set (pre_tree u) \<Longrightarrow> f (c, o1) = (c, o1)" "placed ts st"
  shows "placed (edit_trees (tid u) g ts) (move_points f st)"
proof -
  obtain t where t: "t \<in> set ts" "before (points_tree t) (range_start st) (range_end st)"
    using assms(5) by (auto simp: placed_def)
  obtain t' where t': "t' \<in> set ts" "u \<in> set (subs t')" using sub_tree_of [OF assms(2)] by blast
  have "before (points_tree (edit_tree (tid u) g t)) (f (range_start st)) (f (range_end st))"
  proof (cases "t = t'")
    case True
    obtain A B where AB: "points_tree t = A @ points_tree u @ B" "points_tree (edit_tree (tid u) g t) = A @ points_tree (g u) @ B"
      "\<forall>(c, o1) \<in> set A \<union> set B. c \<notin> set (pre_tree u)"
      using edit_points(1) [of t u] forest_tree [OF assms(1) t(1)] t'(2) True by blast
    have "carries f (points_tree t) (points_tree (edit_tree (tid u) g t))"
      using AB(3) assms(4) unfolding AB(1,2) by (intro carries_around [OF assms(3)]) fast
    with t(2) show ?thesis by (rule carriesD [rotated])
  next
    case False
    have d: "x \<notin> set (pre_tree t)" if "x \<in> set (pre_tree u)" for x
      using that two_trees [of ts t t' x] False t(1) t'(1) assms(1) sub_ids(1) [OF t'(2)] by (auto simp: forest_ok_def)
    then have "edit_tree (tid u) g t = t" by (intro edit_absent) (rule d [OF tid_in_sub])
    moreover have "f (range_start st) = range_start st" "f (range_end st) = range_end st"
      using point_container [OF t(2)] d assms(4) by (metis prod.collapse)+
    ultimately show ?thesis using t(2) by simp
  qed
  with t(1) show ?thesis by (auto simp: placed_def edit_trees_map)
qed

section \<open>Gaps\<close>

lemma map_gaps:
  assumes "\<And>j. j \<ge> a \<Longrightarrow> f (p, j) = (p, j + m)" "\<And>c o1. c \<in> set (pre_trees ks) \<Longrightarrow> f (c, o1) = (c, o1)"
  shows "map f (gaps p a ks) = gaps p (a + m) ks"
  using assms
proof (induction ks arbitrary: a)
  case (Cons k ks)
  have "map f (points_tree k) = points_tree k"
    using Cons.prems(2) by (intro map_idI) (auto dest: points_containers)
  with Cons.IH [of "Suc a"] Cons.prems show ?case by simp
qed simp

lemma map_gaps_down:
  assumes "\<And>j. j > a \<Longrightarrow> f (p, j) = (p, j - 1)" "\<And>c o1. c \<in> set (pre_trees ks) \<Longrightarrow> f (c, o1) = (c, o1)"
  shows "map f (gaps p (Suc a) ks) = gaps p a ks"
  using assms
proof (induction ks arbitrary: a)
  case (Cons k ks)
  have "map f (points_tree k) = points_tree k"
    using Cons.prems(2) by (intro map_idI) (auto dest: points_containers)
  with Cons.IH [of "Suc a"] Cons.prems show ?case by simp
qed simp

lemma gaps_head: "gaps p i ks = (p, i) # tl (gaps p i ks)"
  by (cases ks) auto

lemma carries_pre_gaps:
  assumes "carries f xs ys" "\<And>c o1. (c, o1) \<in> set (pre_gaps p 0 ks) \<Longrightarrow> f (c, o1) = (c, o1)"
  shows "carries f (pre_gaps p 0 ks @ xs) (pre_gaps p 0 ks @ ys)"
  using assms by (intro carries_append carries_same) auto

section \<open>The changes\<close>

lemma remove_carries:
  assumes "distinct (p # pre_trees (ks1 @ k # ks2))"
    and "f = (\<lambda>(c, o1). if c \<in> set (pre_tree k) then (p, length ks1) else if c = p \<and> o1 > length ks1 then (c, o1 - 1) else (c, o1))"
  shows "carries f (gaps p 0 (ks1 @ k # ks2)) (gaps p 0 (ks1 @ ks2))"
proof -
  let ?i = "length ks1"
  have "carries f (((p, ?i) # points_tree k) @ gaps p (Suc ?i) ks2) ((p, ?i) # tl (gaps p ?i ks2))"
  proof (rule carries_collapse)
    fix a
    assume "a \<in> set ((p, ?i) # points_tree k)"
    moreover obtain c o1 where "a = (c, o1)" by (cases a)
    ultimately show "f a = (p, ?i)" using assms points_containers(1) [of c o1 k] by auto
  next
    have "map f (gaps p (Suc ?i) ks2) = gaps p ?i ks2"
      by (rule map_gaps_down) (use assms in auto)
    then show "carries f (gaps p (Suc ?i) ks2) ((p, ?i) # tl (gaps p ?i ks2))"
      using gaps_head [of p ?i ks2] by (intro carries_subseq) simp
  qed
  then have "carries f (pre_gaps p 0 ks1 @ ((p, ?i) # points_tree k) @ gaps p (Suc ?i) ks2) (pre_gaps p 0 ks1 @ gaps p ?i ks2)"
    using gaps_head [of p ?i ks2] by (intro carries_pre_gaps) (use assms in \<open>auto dest!: pre_gaps_containers\<close>)
  then show ?thesis by (simp add: gaps_append)
qed

lemma insert_carries:
  assumes "p \<notin> set (pre_trees (ks1 @ ks2))"
  shows "carries (pt_grow p (length ks1) (length ts)) (gaps p 0 (ks1 @ ks2)) (gaps p 0 (ks1 @ ts @ ks2))"
proof -
  let ?i = "length ks1" and ?m = "length ts" and ?f = "pt_grow p (length ks1) (length ts)"
  have same: "?f (c, o1) = (c, o1)" if "c \<noteq> p" for c o1 using that by (simp add: pt_grow_def)
  have "carries ?f (gaps p ?i ks2) (pre_gaps p ?i ts @ gaps p (?i + ?m) ks2)"
  proof (cases ts)
    case Nil
    then show ?thesis by (auto intro: carries_same simp: pt_grow_def)
  next
    case (Cons t r)
    have "map ?f (tl (gaps p ?i ks2)) = tl (gaps p (?i + ?m) ks2)"
    proof (cases ks2)
      case (Cons k ks)
      have "map ?f (points_tree k) = points_tree k"
        using assms Cons by (intro map_idI) (auto intro!: same dest: points_containers)
      moreover have "map ?f (gaps p (Suc ?i) ks) = gaps p (Suc ?i + ?m) ks"
        using assms Cons by (intro map_gaps) (auto simp: pt_grow_def)
      ultimately show ?thesis using Cons by simp
    qed simp
    moreover have "?f (p, ?i) = (p, ?i)" by (simp add: pt_grow_def)
    ultimately have "map ?f (gaps p ?i ks2) = (p, ?i) # tl (gaps p (?i + ?m) ks2)"
      by (subst gaps_head) (simp only: list.map)
    moreover have "subseq ((p, ?i) # tl (gaps p (?i + ?m) ks2)) ((p, ?i) # (points_tree t @ pre_gaps p (Suc ?i) r) @ gaps p (?i + ?m) ks2)"
      by (intro subseq_Cons2 subseq_drop_many) (subst gaps_head [of p "?i + ?m" ks2], rule list_emb_Cons, rule subseq_order.refl)
    ultimately show ?thesis using Cons by (intro carries_subseq) simp
  qed
  then show ?thesis unfolding gaps_append
    using assms by (simp add: gaps_append) (intro carries_pre_gaps, auto simp: pt_grow_def dest!: pre_gaps_containers)
qed

lemma replace_carries:
  assumes "offset + count \<le> n" "n' = n - count + added"
  shows "carries (pt_replace x offset count added) (map (Pair x) [0..<Suc n]) (map (Pair x) [0..<Suc n'])"
  unfolding carries_def
proof (intro allI impI)
  fix a b
  assume ab: "before (map (Pair x) [0..<Suc n]) a b"
  then obtain i j where ij: "a = (x, i)" "b = (x, j)" by (auto dest!: before_in)
  with ab have "i \<le> j" "j < Suc n" using before_upt [of x "Suc n" i j] by auto
  with assms have "replaced_offset offset count added i \<le> replaced_offset offset count added j"
    "replaced_offset offset count added j < Suc n'"
    by (auto simp: replaced_offset_def)
  with ij show "before (map (Pair x) [0..<Suc n']) (pt_replace x offset count added a) (pt_replace x offset count added b)"
    using before_upt [of x "Suc n'"] by (simp add: pt_replace_def del: upt_Suc)
qed

lemma map_pair_shift: "map (\<lambda>o1. (y, o1 - m)) [Suc m..<Suc n] = map (Pair y) [1..<Suc n - m]"
  by (rule nth_equalityI) (auto simp del: upt_Suc simp: Suc_diff_Suc)

lemma split_carries:
  assumes "distinct (p # pre_trees (ks1 @ T x n [] # ks2))" "offset \<le> len"
    and "f = (\<lambda>(c, o1). if c = x \<and> o1 > offset then (y, o1 - offset) else if c = p \<and> o1 > length ks1 then (c, Suc o1) else (c, o1))"
  shows "carries f (pre_gaps p 0 ks1 @ ((p, length ks1) # map (Pair x) [0..<Suc len]) @ gaps p (Suc (length ks1)) ks2)
    (pre_gaps p 0 ks1 @ ((p, length ks1) # map (Pair x) [0..<Suc offset] @ (p, Suc (length ks1)) # map (Pair y) [0..<Suc (len - offset)]) @
      gaps p (Suc (Suc (length ks1))) ks2)"
proof (rule carries_pre_gaps [OF carries_append])
  let ?i = "length ks1"
  have px: "p \<noteq> x" using assms(1) by auto
  have "map (Pair x) [0..<Suc len] = map (Pair x) [0..<Suc offset] @ map (Pair x) [Suc offset..<Suc len]"
    using assms(2) by (metis map_append upt_add_eq_append le_add1 le_add_diff_inverse plus_1_eq_Suc add_Suc le0)
  moreover have "map f (map (Pair x) [0..<Suc offset]) = map (Pair x) [0..<Suc offset]"
    using px by (intro map_idI) (auto simp: assms(3))
  moreover have "map f (map (Pair x) [Suc offset..<Suc len]) = map (\<lambda>o1. (y, o1 - offset)) [Suc offset..<Suc len]"
    by (auto simp: assms(3) simp del: upt_Suc)
  moreover have "Suc len - offset = Suc (len - offset)" using assms(2) by simp
  ultimately have m: "map f ((p, ?i) # map (Pair x) [0..<Suc len]) =
      (p, ?i) # map (Pair x) [0..<Suc offset] @ map (Pair y) [1..<Suc (len - offset)]"
    using px by (simp add: map_pair_shift assms(3) del: upt_Suc)
  have s: "subseq (map (Pair y) [1..<Suc (len - offset)]) ((p, Suc ?i) # map (Pair y) [0..<Suc (len - offset)])"
    by (simp add: upt_conv_Cons [of 0] list_emb_Cons del: upt_Suc)
  show "carries f ((p, ?i) # map (Pair x) [0..<Suc len])
      ((p, ?i) # map (Pair x) [0..<Suc offset] @ (p, Suc ?i) # map (Pair y) [0..<Suc (len - offset)])"
    unfolding append_Cons by (rule carries_subseq, subst m) (use s in \<open>simp add: subseq_append' del: upt_Suc map_append list.map\<close>)
  have "map f (gaps p (Suc ?i) ks2) = gaps p (Suc ?i + 1) ks2"
    by (rule map_gaps) (use assms in auto)
  then show "carries f (gaps p (Suc ?i) ks2) (gaps p (Suc (Suc ?i)) ks2)" by (intro carries_subseq) simp
qed (use assms in \<open>auto dest!: pre_gaps_containers\<close>)

end
