(* ===== verification/DomAncestors.thy ===== *)
theory DomAncestors
  imports DomPlaced
begin

text \<open>
  Parents, ancestors, roots and indexes in a well-formed forest: what the loops over \<open>N.parent\<close> compute.
\<close>

definition dom_ok :: "dom \<Rightarrow> bool" where
  "dom_ok d = forest_ok (d_trees d)"

lemma dom_ok_ids: "dom_ok d \<Longrightarrow> distinct (all_ids d) \<and> 0 \<notin> set (all_ids d)"
  by (simp add: dom_ok_def forest_ok_def all_ids_def)

lemma dom_node: "dom_ok d \<Longrightarrow> u \<in> set (subs_of d) \<Longrightarrow> node d (tid u) = Some u"
  by (simp add: dom_ok_def forest_ok_def node_def subs_of_def find_sub)

lemma dom_node_exists: "dom_ok d \<Longrightarrow> x \<in> set (all_ids d) \<Longrightarrow> \<exists>u. node d x = Some u \<and> u \<in> set (subs_of d) \<and> tid u = x"
  by (auto simp: all_ids_subs dest: dom_node)

lemma dom_child_ids: "dom_ok d \<Longrightarrow> u \<in> set (subs_of d) \<Longrightarrow> child_ids d (tid u) = map tid (tkids u)"
  by (simp add: child_ids_def dom_node)

lemma contains_sub: "dom_ok d \<Longrightarrow> u \<in> set (subs_of d) \<Longrightarrow> contains d (tid u) x \<longleftrightarrow> x \<in> set (pre_tree u)"
  by (simp add: contains_def subtree_ids_def dom_node)

lemma contains_elim: "contains d a x \<Longrightarrow> \<exists>u. node d a = Some u \<and> x \<in> set (pre_tree u)"
  by (cases "node d a") (auto simp: contains_def subtree_ids_def)

lemma contains_known: "contains d a x \<Longrightarrow> a \<in> set (all_ids d) \<and> x \<in> set (all_ids d)"
proof -
  assume "contains d a x"
  then obtain u where u: "node d a = Some u" "x \<in> set (pre_tree u)" using contains_elim by blast
  with node_in [OF u(1)] sub_ids(2) [of u "d_trees d"] show ?thesis
    by (auto simp: all_ids_subs subs_of_def pre_subs)
qed

lemma contains_self: "dom_ok d \<Longrightarrow> x \<in> set (all_ids d) \<Longrightarrow> contains d x x"
  using dom_node_exists [of d x] by (auto simp: contains_sub tid_in_sub)

section \<open>Parents\<close>

lemma parent_absent: "x \<notin> set (pre_tree t) \<Longrightarrow> parent_tree x q t = None" "x \<notin> set (pre_trees ts) \<Longrightarrow> parent_trees x q ts = None"
  by (induction t and ts arbitrary: q and q rule: subs_subs_list.induct) auto

lemma parent_of_root: "distinct (pre_trees ts) \<Longrightarrow> t \<in> set ts \<Longrightarrow> parent_trees (tid t) q ts = Some q"
proof (induction ts)
  case (Cons s ts)
  show ?case
  proof (cases "t = s")
    case True
    then show ?thesis by (cases s) simp
  next
    case False
    with Cons.prems have "t \<in> set ts" by simp
    moreover from this have "tid t \<notin> set (pre_tree s)" using Cons.prems tree_ids [of t ts] tid_in_sub [of t] by auto
    ultimately show ?thesis using Cons by (simp add: parent_absent)
  qed
qed simp

lemma parent_of_kid:
  "distinct (pre_tree t) \<Longrightarrow> u \<in> set (subs t) \<Longrightarrow> k \<in> set (tkids u) \<Longrightarrow> parent_tree (tid k) q t = Some (tid u)"
  "distinct (pre_trees ts) \<Longrightarrow> u \<in> set (subs_list ts) \<Longrightarrow> k \<in> set (tkids u) \<Longrightarrow> parent_trees (tid k) q ts = Some (tid u)"
proof (induction t and ts arbitrary: q and q rule: subs_subs_list.induct)
  case (1 i n ks)
  have ki: "tid k \<noteq> i"
    using 1(2-4) sub_ids(2) [of u ks] kid_in_subs [of k "tkids u"] subs_self [of k]
    by (auto simp: pre_subs subs_kids)
  show ?case
  proof (cases "u = T i n ks")
    case True
    with 1 ki show ?thesis by (auto intro: parent_of_root)
  next
    case False
    with 1 ki show ?thesis by auto
  qed
next
  case (3 t ts)
  have kin: "tid k \<in> set (pre_tree u)" using 3(5) kid_in_subs [of k "tkids u"] subs_self [of k] by (auto simp: pre_subs subs_kids)
  show ?case
  proof (cases "u \<in> set (subs t)")
    case True
    with 3 show ?thesis by auto
  next
    case False
    with 3 have u: "u \<in> set (subs_list ts)" by auto
    then have "tid k \<notin> set (pre_tree t)" using 3(3) sub_ids(2) [OF u] kin by auto
    with 3 u show ?thesis by (auto simp: parent_absent)
  qed
qed auto

lemma parent_root: "dom_ok d \<Longrightarrow> t \<in> set (d_trees d) \<Longrightarrow> parent d (tid t) = 0"
  by (simp add: parent_def dom_ok_def forest_ok_def parent_of_root)

lemma parent_kid: "dom_ok d \<Longrightarrow> u \<in> set (subs_of d) \<Longrightarrow> k \<in> set (tkids u) \<Longrightarrow> parent d (tid k) = tid u"
  by (simp add: parent_def dom_ok_def forest_ok_def subs_of_def parent_of_kid)

lemma parent_unknown: "x \<notin> set (all_ids d) \<Longrightarrow> parent d x = 0"
  by (simp add: parent_def all_ids_def parent_absent)

lemma root_or_kid1: "v \<in> set (subs t) \<Longrightarrow> v = t \<or> (\<exists>u \<in> set (subs t). v \<in> set (tkids u))"
  and root_or_kid: "v \<in> set (subs_list ts) \<Longrightarrow> v \<in> set ts \<or> (\<exists>u \<in> set (subs_list ts). v \<in> set (tkids u))"
  by (induction t and ts rule: subs_subs_list.induct) auto

lemma root_or_child:
  assumes "dom_ok d" "x \<in> set (all_ids d)"
  obtains (root) t where "t \<in> set (d_trees d)" "tid t = x" "parent d x = 0"
    | (kid) u k where "u \<in> set (subs_of d)" "k \<in> set (tkids u)" "tid k = x" "parent d x = tid u" "node d x = Some k"
proof -
  obtain v where v: "v \<in> set (subs_of d)" "tid v = x" using assms by (auto simp: all_ids_subs)
  with root_or_kid [of v "d_trees d"] show thesis
    using root [of v] kid [of _ v] parent_root [OF assms(1)] parent_kid [OF assms(1)] dom_node [OF assms(1) v(1)]
    by (auto simp: subs_of_def)
qed

lemma parent_nonzero:
  assumes "dom_ok d" "parent d x \<noteq> 0"
  obtains u k where "u \<in> set (subs_of d)" "k \<in> set (tkids u)" "tid k = x" "parent d x = tid u" "node d x = Some k"
  using assms parent_unknown [of x d] by (metis root_or_child)

lemma parent_in_dom: "dom_ok d \<Longrightarrow> parent d x \<noteq> 0 \<Longrightarrow> parent d x \<in> set (all_ids d)"
  by (auto elim!: parent_nonzero simp: all_ids_subs)

section \<open>Ancestors\<close>

text \<open>A node contains another exactly when it is the node itself or contains its parent.\<close>

lemma contains_step:
  assumes "dom_ok d" "x \<in> set (all_ids d)"
  shows "contains d a x \<longleftrightarrow> a = x \<or> (parent d x \<noteq> 0 \<and> contains d a (parent d x))"
proof -
  have z: "0 \<notin> set (all_ids d)" using dom_ok_ids [OF assms(1)] by simp
  show ?thesis using assms
  proof (cases rule: root_or_child)
    case (root t)
    have "a = x" if c: "contains d a x"
    proof (rule ccontr)
      assume "a \<noteq> x"
      obtain u where u: "node d a = Some u" "x \<in> set (pre_tree u)"
        using contains_elim [OF c] by blast
      then have u': "u \<in> set (subs_of d)" "tid u = a" using node_in by auto
      from \<open>a \<noteq> x\<close> u(2) u'(2) have "x \<in> set (pre_trees (tkids u))" by (cases u) auto
      then obtain v where "v \<in> set (subs_list (tkids u))" "tid v = x" by (auto simp: pre_subs)
      then obtain w where "w \<in> set (subs u)" "v \<in> set (tkids w)"
        using root_or_kid [of v "tkids u"] by (auto simp: subs_kids)
      moreover from this have "w \<in> set (subs_of d)" using u'(1) subs_trans(2) by (auto simp: subs_of_def)
      ultimately have "parent d x = tid w" using parent_kid [OF assms(1)] \<open>tid v = x\<close> by blast
      with \<open>w \<in> set (subs_of d)\<close> z root(3) show False by (auto simp: all_ids_subs)
    qed
    with root assms show ?thesis by (auto intro: contains_self)
  next
    case (kid u k)
    have "contains d a x" if c: "contains d a (tid u)"
    proof -
      obtain v where v: "v \<in> set (subs_of d)" "tid v = a" using contains_known [OF c] by (auto simp: all_ids_subs)
      then have "tid u \<in> set (pre_tree v)" using c contains_sub [OF assms(1) v(1)] by simp
      then obtain u2 where "u2 \<in> set (subs v)" "tid u2 = tid u" by (auto simp: pre_subs)
      moreover from this have "u2 \<in> set (subs_of d)" using v(1) subs_trans(2) by (auto simp: subs_of_def)
      ultimately have "u \<in> set (subs v)" using dom_node [OF assms(1)] kid(1) by (metis option.inject)
      then have "x \<in> set (pre_tree v)"
        using kid(2,3) subs_trans(1) [of u v] kid_in_subs [of k "tkids u"] subs_self [of k] by (auto simp: pre_subs subs_kids)
      with v contains_sub [OF assms(1) v(1)] show ?thesis by simp
    qed
    moreover have "contains d a (tid u)" if c: "contains d a x" "a \<noteq> x"
    proof -
      obtain v where v: "v \<in> set (subs_of d)" "tid v = a" using contains_known [OF c(1)] by (auto simp: all_ids_subs)
      then have "x \<in> set (pre_tree v)" using c contains_sub [OF assms(1) v(1)] by simp
      with c v have "x \<in> set (pre_trees (tkids v))" by (cases v) auto
      then obtain y where "y \<in> set (subs_list (tkids v))" "tid y = x" by (auto simp: pre_subs)
      then obtain w where w: "w \<in> set (subs v)" "y \<in> set (tkids w)"
        using root_or_kid [of y "tkids v"] by (auto simp: subs_kids)
      moreover from this have "w \<in> set (subs_of d)" using v(1) subs_trans(2) by (auto simp: subs_of_def)
      ultimately have "parent d x = tid w" using parent_kid [OF assms(1)] \<open>tid y = x\<close> by blast
      with kid(4) w(1) have "tid u \<in> set (pre_tree v)" by (metis image_eqI pre_subs(1) set_map)
      with v contains_sub [OF assms(1) v(1)] show ?thesis by simp
    qed
    moreover have "tid u \<noteq> 0" using kid(1) z by (auto simp: all_ids_subs)
    ultimately show ?thesis using kid(4) assms by (auto intro: contains_self)
  qed
qed

definition subtree_size :: "dom \<Rightarrow> nat \<Rightarrow> nat" where
  "subtree_size d x = length (subtree_ids d x)"

lemma subtree_size_le: "dom_ok d \<Longrightarrow> x \<in> set (all_ids d) \<Longrightarrow> subtree_size d x \<le> length (all_ids d) \<and> 0 < subtree_size d x"
proof -
  assume d: "dom_ok d" "x \<in> set (all_ids d)"
  obtain u where u: "node d x = Some u" "u \<in> set (subs_of d)" using dom_node_exists [OF d] by blast
  have "distinct (pre_tree u)"
    using u(2) d(1) edit_pre(2) [of "d_trees d" u] by (auto simp: subs_of_def dom_ok_def forest_ok_def)
  moreover have "set (pre_tree u) \<subseteq> set (all_ids d)" using sub_ids(2) u(2) by (simp add: subs_of_def all_ids_def)
  ultimately have "length (pre_tree u) \<le> length (all_ids d)"
    using dom_ok_ids [OF d(1)] by (metis card_mono distinct_card List.finite_set)
  with u show ?thesis by (cases u) (simp add: subtree_size_def subtree_ids_def)
qed

lemma pre_tree_length: "k \<in> set ks \<Longrightarrow> length (pre_tree k) \<le> length (pre_trees ks)"
  by (induction ks) auto

lemma subtree_size_parent: "dom_ok d \<Longrightarrow> parent d x \<noteq> 0 \<Longrightarrow> subtree_size d x < subtree_size d (parent d x)"
proof -
  assume d: "dom_ok d" "parent d x \<noteq> 0"
  then obtain u k where u: "u \<in> set (subs_of d)" "k \<in> set (tkids u)" "tid k = x" "parent d x = tid u" "node d x = Some k"
    by (rule parent_nonzero)
  have "length (pre_tree k) \<le> length (pre_trees (tkids u))" using u(2) by (rule pre_tree_length)
  then show ?thesis using u dom_node [OF d(1) u(1)] by (cases u) (simp add: subtree_size_def subtree_ids_def)
qed

lemma up_ancestors:
  assumes "dom_ok d" "x \<in> set (all_ids d)" "length (all_ids d) < n + subtree_size d x"
  shows "set (up d n x) = {a. contains d a x} \<and> up d n x \<noteq> [] \<and> parent d (last (up d n x)) = 0 \<and> distinct (up d n x) \<and>
    (\<forall>a \<in> set (up d n x). subtree_size d x \<le> subtree_size d a)"
  using assms(2,3)
proof (induction n arbitrary: x)
  case 0
  with subtree_size_le [OF assms(1) 0(1)] show ?case by simp
next
  case (Suc n)
  have x: "x \<noteq> 0" using Suc.prems(1) dom_ok_ids [OF assms(1)] by metis
  show ?case
  proof (cases "parent d x = 0")
    case True
    have "up d n 0 = []" by (cases n) auto
    then have "up d (Suc n) x = [x]" using x True by simp
    with True show ?thesis using contains_step [OF assms(1) Suc.prems(1)] by auto
  next
    case False
    have p: "parent d x \<in> set (all_ids d)" using parent_in_dom [OF assms(1) False] .
    have less: "subtree_size d x < subtree_size d (parent d x)" using subtree_size_parent [OF assms(1) False] .
    with Suc.prems(2) Suc.IH [OF p] have IH: "set (up d n (parent d x)) = {a. contains d a (parent d x)}" "up d n (parent d x) \<noteq> []"
      "parent d (last (up d n (parent d x))) = 0" "distinct (up d n (parent d x))"
      "\<forall>a \<in> set (up d n (parent d x)). subtree_size d (parent d x) \<le> subtree_size d a"
      by auto
    have "up d (Suc n) x = x # up d n (parent d x)" using x by simp
    with IH less False show ?thesis
      using contains_step [OF assms(1) Suc.prems(1)] by (auto simp del: up.simps)
  qed
qed

lemma ancestors_contain:
  assumes "dom_ok d" "x \<in> set (all_ids d)"
  shows "set (ancestors_self d x) = {a. contains d a x}" "ancestors_self d x \<noteq> []" "distinct (ancestors_self d x)"
    "parent d (tree_root d x) = 0"
proof -
  have "length (all_ids d) < Suc (length (all_ids d)) + subtree_size d x" by simp
  note up_ancestors [OF assms this]
  then show "set (ancestors_self d x) = {a. contains d a x}" "ancestors_self d x \<noteq> []" "distinct (ancestors_self d x)"
    "parent d (tree_root d x) = 0"
    by (simp_all add: ancestors_self_def tree_root_def del: up.simps)
qed

lemma tree_root_of:
  assumes "dom_ok d" "t \<in> set (d_trees d)" "x \<in> set (pre_tree t)"
  shows "tree_root d x = tid t"
proof -
  have t: "t \<in> set (subs_of d)" using assms(2) kid_in_subs [of t "d_trees d"] subs_self [of t] by (auto simp: subs_of_def)
  then have x: "x \<in> set (all_ids d)" using contains_sub [OF assms(1) t, of x] assms(3) contains_known by blast
  have "tree_root d x \<in> set (ancestors_self d x)" using ancestors_contain(2) [OF assms(1) x] by (simp add: tree_root_def)
  then have c: "contains d (tree_root d x) x" using ancestors_contain(1) [OF assms(1) x] by simp
  then have r: "tree_root d x \<in> set (all_ids d)" using contains_known by blast
  then obtain t' where t': "t' \<in> set (d_trees d)" "tid t' = tree_root d x"
    using ancestors_contain(4) [OF assms(1) x] dom_ok_ids [OF assms(1)] assms(1)
    by (cases rule: root_or_child [OF assms(1) r]) (auto simp: all_ids_subs)
  have "t' \<in> set (subs_of d)" using t'(1) kid_in_subs [of t' "d_trees d"] subs_self [of t'] by (auto simp: subs_of_def)
  with c t'(2) have "x \<in> set (pre_tree t')" using contains_sub [OF assms(1)] by metis
  then have "t' = t" using two_trees [of "d_trees d" t' t x] t'(1) assms by (auto simp: dom_ok_def forest_ok_def)
  with t'(2) show ?thesis by simp
qed

section \<open>Children\<close>

lemma pos_in_map: "pos_in x (map f xs) = length (takeWhile (\<lambda>y. f y \<noteq> x) xs)"
  by (induction xs) auto

lemma split_at_kid:
  assumes "distinct (map tid (ks1 @ k # ks2))"
  shows "takeWhile (\<lambda>y. tid y \<noteq> tid k) (ks1 @ k # ks2) = ks1" "dropWhile (\<lambda>y. tid y \<noteq> tid k) (ks1 @ k # ks2) = k # ks2"
    "filter (\<lambda>y. tid y \<noteq> tid k) (ks1 @ k # ks2) = ks1 @ ks2"
proof -
  have "\<forall>y \<in> set ks1. tid y \<noteq> tid k" "\<forall>y \<in> set ks2. tid y \<noteq> tid k" using assms by (auto, (metis image_eqI)+)
  then show "takeWhile (\<lambda>y. tid y \<noteq> tid k) (ks1 @ k # ks2) = ks1" "dropWhile (\<lambda>y. tid y \<noteq> tid k) (ks1 @ k # ks2) = k # ks2"
    "filter (\<lambda>y. tid y \<noteq> tid k) (ks1 @ k # ks2) = ks1 @ ks2"
    by (auto simp: takeWhile_append dropWhile_append intro: filter_True)
qed

lemma distinct_kid_ids: "distinct (pre_trees ks) \<Longrightarrow> distinct (map tid ks)"
proof (induction ks)
  case (Cons k ks)
  have "tid k \<notin> set (map tid ks)"
    using Cons.prems tid_in_sub tree_ids by fastforce
  with Cons show ?case by simp
qed simp

lemma distinct_sub:
  assumes "forest_ok ts" "u \<in> set (subs_list ts)"
  shows "distinct (pre_tree u)" "leaf_ok u"
  using assms edit_pre(2) [of ts u] by (auto simp: forest_ok_def)

text \<open>A node with a parent, in its place among the children.\<close>

lemma kid_place:
  assumes "dom_ok d" "parent d x \<noteq> 0"
  obtains n ks1 k ks2 where "T (parent d x) n (ks1 @ k # ks2) \<in> set (subs_of d)" "tid k = x" "node d x = Some k"
    "index_of_node d x = length ks1" "distinct (parent d x # pre_trees (ks1 @ k # ks2))"
    "\<And>c. contains d x c \<longleftrightarrow> c \<in> set (pre_tree k)"
proof -
  obtain u k where u: "u \<in> set (subs_of d)" "k \<in> set (tkids u)" "tid k = x" "parent d x = tid u" "node d x = Some k"
    using assms by (rule parent_nonzero)
  obtain n where un: "u = T (tid u) n (tkids u)" by (cases u) auto
  obtain ks1 ks2 where ks: "tkids u = ks1 @ k # ks2" using u(2) by (meson split_list)
  have d: "distinct (pre_tree u)" using distinct_sub(1) assms(1) u(1) by (auto simp: dom_ok_def subs_of_def)
  then have dk: "distinct (map tid (ks1 @ k # ks2))" using un ks distinct_kid_ids by (metis distinct.simps(2) pre_tree.simps)
  have "child_ids d (parent d x) = map tid (ks1 @ k # ks2)" using dom_child_ids [OF assms(1) u(1)] u(4) ks by simp
  moreover have "pos_in x (map tid (ks1 @ k # ks2)) = length ks1"
    using split_at_kid(1) [OF dk] u(3) unfolding pos_in_map by simp
  ultimately have "index_of_node d x = length ks1" using assms(2) by (simp add: index_of_node_def)
  moreover have "k \<in> set (subs_of d)" using u(5) node_in by blast
  then have "contains d x c \<longleftrightarrow> c \<in> set (pre_tree k)" for c using contains_sub [OF assms(1)] u(3) by blast
  moreover have "distinct (parent d x # pre_trees (ks1 @ k # ks2))" using d un ks u(4) by (metis pre_tree.simps)
  moreover have "T (parent d x) n (ks1 @ k # ks2) \<in> set (subs_of d)" using u(1,4) un ks by metis
  ultimately show thesis using that u(3,5) by blast
qed

end
