(* ===== verification/DomObservers.thy ===== *)
theory DomObservers
  imports DomTree
begin

text \<open>
  Mutation observers (\<open>20_dom.js\<close>, lines 455--527 and 4278--4338): the registrations by node, the search for the
  interested observers, and the queues of records.  An observer is known by its \<open>#order\<close>, the number
  of its construction.
\<close>

record mo_opts =
  o_child_list :: bool
  o_attributes :: bool
  o_character_data :: bool
  o_subtree :: bool
  o_attr_old :: bool
  o_cdata_old :: bool
  o_filter :: "jstr list option"

datatype mo_type = MAttributes | MCharacterData | MChildList

record mo_record =
  m_type :: mo_type
  m_target :: nat
  m_name :: "jstr option"
  m_old :: "jstr option"
  m_added :: "nat list option"
  m_removed :: "nat list option"
  m_prev :: nat
  m_next :: nat

text \<open>\<open>b_queued\<close> is \<open>moObservers\<close>, \<open>b_pending\<close> tells that the microtask which delivers is scheduled.\<close>

record observers =
  b_regs :: "(nat \<times> (nat \<times> mo_opts) list) list"
  b_count :: nat
  b_pending :: bool
  b_queued :: "nat list"
  b_records :: "nat \<Rightarrow> mo_record list"
  b_targets :: "nat \<Rightarrow> nat list"
  b_next :: nat

section \<open>Observing\<close>

text \<open>
  The members of the options that matter, as \<open>None\<close> when undefined and otherwise by their truth; the
  filter as the strings of its elements.
\<close>

record mo_init =
  n_child_list :: "bool option"
  n_attributes :: "bool option"
  n_character_data :: "bool option"
  n_subtree :: "bool option"
  n_attr_old :: "bool option"
  n_cdata_old :: "bool option"
  n_filter :: "jstr list option"

definition truthy_opt :: "bool option \<Rightarrow> bool" where
  "truthy_opt b = (b = Some True)"

definition normalize_mo_options :: "mo_init \<Rightarrow> mo_opts res" where
  "normalize_mo_options i =
     (let attributes = truthy_opt (if n_attributes i = None \<and> (n_attr_old i \<noteq> None \<or> n_filter i \<noteq> None) then Some True else n_attributes i);
          cdata = truthy_opt (if n_character_data i = None \<and> n_cdata_old i \<noteq> None then Some True else n_character_data i);
          child_list = truthy_opt (n_child_list i) in
      if \<not> child_list \<and> \<not> attributes \<and> \<not> cdata then Inl TypeErr
      else if truthy_opt (n_attr_old i) \<and> \<not> attributes then Inl TypeErr
      else if n_filter i \<noteq> None \<and> \<not> attributes then Inl TypeErr
      else if truthy_opt (n_cdata_old i) \<and> \<not> cdata then Inl TypeErr
      else Inr \<lparr>o_child_list = child_list, o_attributes = attributes, o_character_data = cdata, o_subtree = truthy_opt (n_subtree i),
             o_attr_old = truthy_opt (n_attr_old i), o_cdata_old = truthy_opt (n_cdata_old i), o_filter = n_filter i\<rparr>)"

definition new_observer :: "observers \<Rightarrow> observers \<times> nat" where
  "new_observer b = (b\<lparr>b_next := Suc (b_next b), b_records := (b_records b)(b_next b := []), b_targets := (b_targets b)(b_next b := [])\<rparr>, b_next b)"

fun map_put :: "'k \<Rightarrow> 'v \<Rightarrow> ('k \<times> 'v) list \<Rightarrow> ('k \<times> 'v) list" where
  "map_put k v [] = [(k, v)]"
| "map_put k v ((k', v') # r) = (if k' = k then (k, v) # r else (k', v') # map_put k v r)"

definition map_delete :: "'k \<Rightarrow> ('k \<times> 'v) list \<Rightarrow> ('k \<times> 'v) list" where
  "map_delete k xs = filter (\<lambda>p. fst p \<noteq> k) xs"

definition regs_of :: "nat \<Rightarrow> (nat \<times> (nat \<times> mo_opts) list) list \<Rightarrow> (nat \<times> mo_opts) list" where
  "regs_of x rs = (case map_of rs x of None \<Rightarrow> [] | Some l \<Rightarrow> l)"

definition observe :: "nat \<Rightarrow> nat \<Rightarrow> mo_init \<Rightarrow> observers \<Rightarrow> observers \<times> unit res" where
  "observe ob x i b = (case normalize_mo_options i of
     Inl e \<Rightarrow> (b, Inl e)
   | Inr opts \<Rightarrow> (let regs = regs_of x (b_regs b) in
       if list_ex (\<lambda>r. fst r = ob) regs
       then (b\<lparr>b_regs := map_put x (map_put ob opts regs) (b_regs b)\<rparr>, Inr ())
       else (b\<lparr>b_regs := map_put x (regs @ [(ob, opts)]) (b_regs b),
               b_targets := (b_targets b)(ob := if x \<in> set (b_targets b ob) then b_targets b ob else b_targets b ob @ [x]),
               b_count := Suc (b_count b)\<rparr>, Inr ())))"

definition drop_target :: "nat \<Rightarrow> nat \<Rightarrow> observers \<Rightarrow> observers" where
  "drop_target ob x b = (case map_of (b_regs b) x of
     None \<Rightarrow> b
   | Some regs \<Rightarrow> let rest = filter (\<lambda>r. fst r \<noteq> ob) regs in
       b\<lparr>b_count := b_count b - (length regs - length rest),
         b_regs := if rest \<noteq> [] then map_put x rest (b_regs b) else map_delete x (b_regs b)\<rparr>)"

definition disconnect :: "nat \<Rightarrow> observers \<Rightarrow> observers" where
  "disconnect ob b = (let b1 = fold (drop_target ob) (b_targets b ob) b in
     b1\<lparr>b_targets := (b_targets b1)(ob := []), b_records := (b_records b1)(ob := [])\<rparr>)"

definition take_records :: "nat \<Rightarrow> observers \<Rightarrow> observers \<times> mo_record list" where
  "take_records ob b = (b\<lparr>b_records := (b_records b)(ob := [])\<rparr>, b_records b ob)"

section \<open>Interested observers\<close>

definition reg_wants :: "mo_type \<Rightarrow> jstr option \<Rightarrow> bool \<Rightarrow> mo_opts \<Rightarrow> bool" where
  "reg_wants ty name same o1 =
     (if \<not> same \<and> \<not> o_subtree o1 then False
      else (case ty of
        MAttributes \<Rightarrow> o_attributes o1 \<and> (case o_filter o1 of None \<Rightarrow> True | Some fs \<Rightarrow> (case name of None \<Rightarrow> False | Some n \<Rightarrow> n \<in> set fs))
      | MCharacterData \<Rightarrow> o_character_data o1
      | MChildList \<Rightarrow> o_child_list o1))"

definition asks_old :: "mo_type \<Rightarrow> mo_opts \<Rightarrow> bool" where
  "asks_old ty o1 = ((ty = MAttributes \<and> o_attr_old o1) \<or> (ty = MCharacterData \<and> o_cdata_old o1))"

type_synonym interest = "(nat \<times> jstr option) list"

definition note_interest :: "bool \<Rightarrow> jstr option \<Rightarrow> nat \<Rightarrow> interest \<Rightarrow> interest" where
  "note_interest asks old ob acc = (let acc1 = (if map_of acc ob = None then acc @ [(ob, None)] else acc) in
     if asks then map_put ob old acc1 else acc1)"

fun consider_regs :: "mo_type \<Rightarrow> jstr option \<Rightarrow> jstr option \<Rightarrow> bool \<Rightarrow> (nat \<times> mo_opts) list \<Rightarrow> interest \<Rightarrow> interest" where
  "consider_regs ty name old same [] acc = acc"
| "consider_regs ty name old same ((ob, o1) # r) acc =
     consider_regs ty name old same r (if reg_wants ty name same o1 then note_interest (asks_old ty o1) old ob acc else acc)"

definition scan_entry :: "dom \<Rightarrow> mo_type \<Rightarrow> nat \<Rightarrow> jstr option \<Rightarrow> jstr option \<Rightarrow> nat \<times> (nat \<times> mo_opts) list \<Rightarrow> interest \<Rightarrow> interest" where
  "scan_entry d ty tgt name old e acc = (case e of (x, regs) \<Rightarrow>
     if x \<noteq> tgt \<and> (\<not> list_ex (\<lambda>r. o_subtree (snd r)) regs \<or> \<not> contains d x tgt) then acc
     else consider_regs ty name old (x = tgt) regs acc)"

definition interested_scan :: "dom \<Rightarrow> mo_type \<Rightarrow> nat \<Rightarrow> jstr option \<Rightarrow> jstr option \<Rightarrow> observers \<Rightarrow> interest" where
  "interested_scan d ty tgt name old b = fold (scan_entry d ty tgt name old) (b_regs b) []"

definition walk_entry :: "mo_type \<Rightarrow> nat \<Rightarrow> jstr option \<Rightarrow> jstr option \<Rightarrow> observers \<Rightarrow> nat \<Rightarrow> interest \<Rightarrow> interest" where
  "walk_entry ty tgt name old b x acc = (case map_of (b_regs b) x of
     None \<Rightarrow> acc
   | Some regs \<Rightarrow> consider_regs ty name old (x = tgt) regs acc)"

definition interested_walk :: "dom \<Rightarrow> mo_type \<Rightarrow> nat \<Rightarrow> jstr option \<Rightarrow> jstr option \<Rightarrow> observers \<Rightarrow> interest" where
  "interested_walk d ty tgt name old b = fold (walk_entry ty tgt name old b) (ancestors_self d tgt) []"

definition push_record :: "mo_record \<Rightarrow> nat \<times> jstr option \<Rightarrow> observers \<Rightarrow> observers" where
  "push_record r e b = (case e of (ob, old) \<Rightarrow>
     b\<lparr>b_records := (b_records b)(ob := b_records b ob @ [r\<lparr>m_old := old\<rparr>]),
       b_queued := if ob \<in> set (b_queued b) then b_queued b else b_queued b @ [ob]\<rparr>)"

definition queue_mutation ::
  "dom \<Rightarrow> mo_type \<Rightarrow> nat \<Rightarrow> jstr option \<Rightarrow> jstr option \<Rightarrow> nat list option \<Rightarrow> nat list option \<Rightarrow> nat \<Rightarrow> nat \<Rightarrow> observers \<Rightarrow> observers" where
  "queue_mutation d ty tgt name old added removed prev next b =
     (if b_count b = 0 then b
      else let i = (if length (b_regs b) \<le> 8 then interested_scan d ty tgt name old b else interested_walk d ty tgt name old b) in
        if i = [] then b
        else (fold (push_record \<lparr>m_type = ty, m_target = tgt, m_name = name, m_old = None, m_added = added, m_removed = removed,
                      m_prev = prev, m_next = next\<rparr>) i b)\<lparr>b_pending := True\<rparr>)"

section \<open>Delivery\<close>

text \<open>
  The callback gets the records of the observer and may change everything, the queues of the observers behind
  it included; \<open>get\<close> and \<open>put\<close> are the observers within the state of the page.
\<close>

fun deliver_loop :: "('w \<Rightarrow> observers) \<Rightarrow> (observers \<Rightarrow> 'w \<Rightarrow> 'w) \<Rightarrow> (nat \<Rightarrow> mo_record list \<Rightarrow> 'w \<Rightarrow> 'w) \<Rightarrow> nat list \<Rightarrow> 'w \<Rightarrow> 'w" where
  "deliver_loop get put page [] w = w"
| "deliver_loop get put page (ob # obs) w =
     (case take_records ob (get w) of (b1, recs) \<Rightarrow>
        deliver_loop get put page obs (if recs = [] then put b1 w else page ob recs (put b1 w)))"

definition deliver_mutations :: "('w \<Rightarrow> observers) \<Rightarrow> (observers \<Rightarrow> 'w \<Rightarrow> 'w) \<Rightarrow> (nat \<Rightarrow> mo_record list \<Rightarrow> 'w \<Rightarrow> 'w) \<Rightarrow> 'w \<Rightarrow> 'w" where
  "deliver_mutations get put page w =
     (let b = get w in deliver_loop get put page (sort (b_queued b)) (put (b\<lparr>b_pending := False, b_queued := []\<rparr>) w))"

end
