(* ===== verification/DomMutate.thy ===== *)
theory DomMutate
  imports DomRanges DomObservers
begin

text \<open>
  The mutation functions of \<open>20_dom.js\<close> (lines 824--1180, 1204--1221, 1504--1534, 2733--2890): insertion, removal and
  replacement with the updates of the live ranges and the mutation records, character data, and normalizing.
  Shadow trees, templates and nodes of other realms are left out.
\<close>

section \<open>The state\<close>

record dworld =
  v_dom :: dom
  v_ranges :: registry
  v_mo :: observers
  v_fresh :: nat

text \<open>
  What runs at the end of an insertion, a removal and so on belongs to other parts of the layer and to the
  page: reactions of custom elements, scripts, the title, observers of the layout.
\<close>

record dom_hooks =
  h_moved :: "nat \<Rightarrow> dworld \<Rightarrow> dworld"
  h_inserted :: "nat \<Rightarrow> nat list \<Rightarrow> dworld \<Rightarrow> dworld"
  h_removed :: "nat \<Rightarrow> nat \<Rightarrow> dworld \<Rightarrow> dworld"
  h_replaced :: "nat \<Rightarrow> dworld \<Rightarrow> dworld"
  h_data :: "nat \<Rightarrow> dworld \<Rightarrow> dworld"

definition upd_dom :: "(dom \<Rightarrow> dom) \<Rightarrow> dworld \<Rightarrow> dworld" where
  "upd_dom f w = w\<lparr>v_dom := f (v_dom w)\<rparr>"

definition upd_ranges :: "(registry \<Rightarrow> registry) \<Rightarrow> dworld \<Rightarrow> dworld" where
  "upd_ranges f w = w\<lparr>v_ranges := f (v_ranges w)\<rparr>"

text \<open>The updates of the ranges and of the observers, behind the tests \<open>liveRanges.size !== 0\<close> and \<open>moRegCount !== 0\<close>.\<close>

definition live_ranges :: "(dom \<Rightarrow> registry \<Rightarrow> registry) \<Rightarrow> dworld \<Rightarrow> dworld" where
  "live_ranges f w = (if g_index (v_ranges w) \<noteq> [] then upd_ranges (f (v_dom w)) w else w)"

definition queue_child_list :: "nat \<Rightarrow> nat list option \<Rightarrow> nat list option \<Rightarrow> nat \<Rightarrow> nat \<Rightarrow> dworld \<Rightarrow> dworld" where
  "queue_child_list p added removed pr nx w =
     w\<lparr>v_mo := queue_mutation (v_dom w) MChildList p None None added removed pr nx (v_mo w)\<rparr>"

section \<open>Insertion and removal\<close>

definition leave_fragment :: "nat \<Rightarrow> dworld \<Rightarrow> dworld" where
  "leave_fragment x w = (let added = child_ids (v_dom w) x in
     live_ranges (\<lambda>d. fold (\<lambda>c. ranges_on_remove d x c 0) added) (queue_child_list x None (Some added) 0 0 w))"

definition leave_parent :: "nat \<Rightarrow> dworld \<Rightarrow> dworld" where
  "leave_parent x w = (let p = parent (v_dom w) x in
     if p \<noteq> 0 then live_ranges (\<lambda>d. ranges_on_remove d p x (index_of_node d x)) w else w)"

definition insert_fragment :: "dom_hooks \<Rightarrow> nat \<Rightarrow> nat \<Rightarrow> nat \<Rightarrow> dworld \<Rightarrow> dworld" where
  "insert_fragment h p x ref w =
     (let added = child_ids (v_dom w) x in
      if added = [] then w
      else let
        w3 = upd_dom (n_insert_before p x ref) (leave_fragment x w);
        w4 = live_ranges (\<lambda>d. ranges_on_insert p (index_of_node d (hd added)) (length added)) w3;
        w5 = queue_child_list p (Some added) None (prev_sibling (v_dom w4) (hd added)) (next_sibling (v_dom w4) (last added)) w4
      in h_inserted h p added w5)"

definition insert_node :: "dom_hooks \<Rightarrow> nat \<Rightarrow> nat \<Rightarrow> nat \<Rightarrow> dworld \<Rightarrow> dworld" where
  "insert_node h p x ref w =
     (let
        d = v_dom w; oldParent = parent d x; oldPrev = prev_sibling d x; oldNext = next_sibling d x;
        w2 = upd_dom (n_insert_before p x ref) (leave_parent x w);
        w3 = live_ranges (\<lambda>d. ranges_on_insert p (index_of_node d x) 1) w2;
        w4 = (if oldParent \<noteq> 0 then queue_child_list oldParent None (Some [x]) oldPrev oldNext w3 else w3);
        w5 = queue_child_list p (Some [x]) None (prev_sibling (v_dom w4) x) (next_sibling (v_dom w4) x) w4;
        w6 = (if oldParent \<noteq> 0 then h_moved h x w5 else w5)
      in h_inserted h p [x] w6)"

text \<open>When the native throws, what the ranges and the records have been told stays.\<close>

definition insert_core :: "dom_hooks \<Rightarrow> nat \<Rightarrow> nat \<Rightarrow> nat \<Rightarrow> dworld \<Rightarrow> dworld \<times> unit res" where
  "insert_core h p x ref w =
     (if kind_of (v_dom w) x = 11 then
        (if child_ids (v_dom w) x \<noteq> [] \<and> native_refuses (v_dom w) p x then (leave_fragment x w, Inl (DomErr ''HierarchyRequestError''))
         else (insert_fragment h p x ref w, Inr ()))
      else if native_refuses (v_dom w) p x then (leave_parent x w, Inl (DomErr ''HierarchyRequestError''))
      else (insert_node h p x ref w, Inr ()))"

text \<open>A removed tree keeps the document it was in (\<open>nodeDocs\<close>), when there are other documents than the page's.\<close>

definition keep_document :: "nat \<Rightarrow> nat \<Rightarrow> dom \<Rightarrow> dom" where
  "keep_document p x d =
     (if d_detached d \<noteq> 0 \<and> (case info d x of Some n \<Rightarrow> i_cached n | None \<Rightarrow> False)
      then let od = owner_document_of d p in
        d\<lparr>d_node_docs := (if od \<noteq> d_document d then map_put x od (d_node_docs d) else map_delete x (d_node_docs d))\<rparr>
      else d)"

definition remove_core :: "dom_hooks \<Rightarrow> nat \<Rightarrow> nat \<Rightarrow> dworld \<Rightarrow> dworld" where
  "remove_core h p x w =
     (let
        d = v_dom w; pr = prev_sibling d x; nx = next_sibling d x;
        w1 = live_ranges (\<lambda>d. ranges_on_remove d p x (index_of_node d x)) w;
        w2 = upd_dom (\<lambda>d. keep_document p x (n_remove_child p x d)) w1;
        w3 = queue_child_list p None (Some [x]) pr nx w2
      in h_removed h p x w3)"

text \<open>\<open>mutate\<close> is the native call that gives \<open>p\<close> its new children.\<close>

definition replace_all_core :: "dom_hooks \<Rightarrow> nat \<Rightarrow> (dom \<Rightarrow> dom) \<Rightarrow> dworld \<Rightarrow> dworld" where
  "replace_all_core h p mutate w =
     (let
        removed = child_ids (v_dom w) p;
        lr = g_index (v_ranges w) \<noteq> [];
        w1 = upd_dom mutate w;
        w2 = (if lr then upd_ranges (ranges_on_replace_all (v_dom w1) p removed) w1 else w1);
        added = child_ids (v_dom w2) p;
        w3 = (if removed \<noteq> [] \<or> added \<noteq> [] then queue_child_list p (Some added) (Some removed) 0 0 w2 else w2)
      in h_replaced h p w3)"

text \<open>\<open>N.setTextContent(id, s)\<close> on a node with children: they are taken out, and a text is put in.\<close>

definition n_set_text_content :: "nat \<Rightarrow> nat \<Rightarrow> jstr \<Rightarrow> dom \<Rightarrow> dom" where
  "n_set_text_content p y s d = (case node d p of
     None \<Rightarrow> d
   | Some t \<Rightarrow> let d1 = edit p (set_kids (if s = [] then [] else [T y (text_info s) []])) d in
       d1\<lparr>d_trees := d_trees d1 @ tkids t\<rparr>)"

section \<open>Character data\<close>

text \<open>\<open>part\<close> is the replaced segment: offset, count, and length of what was added; by default, all of the data.\<close>

definition set_data_core :: "dom_hooks \<Rightarrow> nat \<Rightarrow> jstr \<Rightarrow> (nat \<times> nat \<times> nat) option \<Rightarrow> dworld \<Rightarrow> dworld" where
  "set_data_core h x s part w =
     (let
        old = get_text (v_dom w) x;
        w1 = live_ranges (\<lambda>_. case part of
            None \<Rightarrow> ranges_on_replace_data x 0 (length old) (length s)
          | Some (offset, count, added) \<Rightarrow> ranges_on_replace_data x offset count added) w;
        w2 = upd_dom (n_set_text x s) w1;
        w3 = w2\<lparr>v_mo := queue_mutation (v_dom w2) MCharacterData x None (Some old) None None 0 0 (v_mo w2)\<rparr>
      in h_data h x w3)"

definition index_size :: "nat \<Rightarrow> nat \<Rightarrow> unit res" where
  "index_size len offset = (if offset > len then Inl (DomErr ''IndexSizeError'') else Inr ())"

definition substring_data :: "nat \<Rightarrow> nat \<Rightarrow> nat \<Rightarrow> dworld \<Rightarrow> jstr res" where
  "substring_data x offset count w = (let s = get_text (v_dom w) x in
     rbind (index_size (length s) offset) (\<lambda>_. Inr (take count (drop offset s))))"

definition append_data :: "dom_hooks \<Rightarrow> nat \<Rightarrow> jstr \<Rightarrow> dworld \<Rightarrow> dworld" where
  "append_data h x s w = (let d = get_text (v_dom w) x in set_data_core h x (d @ s) (Some (length d, 0, length s)) w)"

definition replace_data :: "dom_hooks \<Rightarrow> nat \<Rightarrow> nat \<Rightarrow> nat \<Rightarrow> jstr \<Rightarrow> dworld \<Rightarrow> dworld \<times> unit res" where
  "replace_data h x offset count s w =
     (let d = get_text (v_dom w) x in case index_size (length d) offset of
        Inl e \<Rightarrow> (w, Inl e)
      | Inr _ \<Rightarrow> let n = min count (length d - offset) in
          (set_data_core h x (take offset d @ s @ drop (offset + n) d) (Some (offset, n, length s)) w, Inr ()))"

definition insert_data :: "dom_hooks \<Rightarrow> nat \<Rightarrow> nat \<Rightarrow> jstr \<Rightarrow> dworld \<Rightarrow> dworld \<times> unit res" where
  "insert_data h x offset s w =
     (let d = get_text (v_dom w) x in case index_size (length d) offset of
        Inl e \<Rightarrow> (w, Inl e)
      | Inr _ \<Rightarrow> (set_data_core h x (take offset d @ s @ drop offset d) (Some (offset, 0, length s)) w, Inr ()))"

definition delete_data :: "dom_hooks \<Rightarrow> nat \<Rightarrow> nat \<Rightarrow> nat \<Rightarrow> dworld \<Rightarrow> dworld \<times> unit res" where
  "delete_data h x offset count w =
     (let d = get_text (v_dom w) x in case index_size (length d) offset of
        Inl e \<Rightarrow> (w, Inl e)
      | Inr _ \<Rightarrow> let n = min count (length d - offset) in
          (set_data_core h x (take offset d @ drop (offset + n) d) (Some (offset, n, 0)) w, Inr ()))"

definition create_text :: "jstr \<Rightarrow> dworld \<Rightarrow> dworld \<times> nat" where
  "create_text s w = (upd_dom (n_create (T (v_fresh w) (text_info s) [])) w\<lparr>v_fresh := Suc (v_fresh w)\<rparr>, v_fresh w)"

definition split_text :: "dom_hooks \<Rightarrow> nat \<Rightarrow> nat \<Rightarrow> dworld \<Rightarrow> dworld \<times> nat res" where
  "split_text h x offset w =
     (let s = get_text (v_dom w) x in
      if offset > length s then (w, Inl (DomErr ''IndexSizeError''))
      else case create_text (drop offset s) w of (w1, y) \<Rightarrow>
        let p = parent (v_dom w1) x;
            i = index_of_node (v_dom w1) x;
            (w2, r) = (if p \<noteq> 0 then
              (case insert_core h p y (next_sibling (v_dom w1) x) w1 of
                 (w3, Inl e) \<Rightarrow> (w3, Inl e)
               | (w3, Inr _) \<Rightarrow> (live_ranges (\<lambda>_. ranges_on_split x y offset p i) w3, Inr ()))
              else (w1, Inr ())) in
        (case r of
           Inl e \<Rightarrow> (w2, Inl e)
         | Inr _ \<Rightarrow> (set_data_core h x (take offset s) (Some (offset, length s - offset, 0)) w2, Inr y)))"

section \<open>Normalizing\<close>

text \<open>The siblings after \<open>c\<close>, and the texts that follow it without a gap.\<close>

definition later_siblings :: "dom \<Rightarrow> nat \<Rightarrow> nat list" where
  "later_siblings d c = tl (dropWhile (\<lambda>x. x \<noteq> c) (siblings d c))"

definition text_run :: "dom \<Rightarrow> nat \<Rightarrow> nat list" where
  "text_run d c = takeWhile (\<lambda>x. native_kind d x = 3) (later_siblings d c)"

fun merge_texts :: "dom_hooks \<Rightarrow> nat \<Rightarrow> nat \<Rightarrow> nat \<Rightarrow> nat list \<Rightarrow> dworld \<Rightarrow> dworld" where
  "merge_texts h p c len [] w = w"
| "merge_texts h p c len (m # ms) w =
     (let w1 = live_ranges (\<lambda>d. ranges_on_merge c m p (index_of_node d m) len) w;
          len1 = len + length (get_text (v_dom w1) m) in
      merge_texts h p c len1 ms (remove_core h p m w1))"

text \<open>The fuel bounds the nodes visited: one for every child, and those below the children.\<close>

fun normalize_from :: "nat \<Rightarrow> dom_hooks \<Rightarrow> nat \<Rightarrow> nat \<Rightarrow> dworld \<Rightarrow> dworld" where
  "normalize_from 0 h p c w = w"
| "normalize_from (Suc n) h p c w =
     (if c = 0 then w
      else let d = v_dom w; nx = next_sibling d c; t = native_kind d c in
        if t = 3 then
          (let data = get_text d c in
           if data = [] then normalize_from n h p nx (remove_core h p c w)
           else let
               run = text_run d c;
               merged = data @ concat (map (get_text d) run);
               s = (case drop (length run) (later_siblings d c) of [] \<Rightarrow> 0 | y # _ \<Rightarrow> y);
               w1 = (if merged \<noteq> data then set_data_core h c merged (Some (length data, 0, length merged - length data)) w else w)
             in normalize_from n h p s (merge_texts h p c (length data) run w1))
        else normalize_from n h p nx
          (if t = 1 then normalize_from n h c (case child_ids d c of [] \<Rightarrow> 0 | y # _ \<Rightarrow> y) w else w))"

definition normalize_node :: "dom_hooks \<Rightarrow> nat \<Rightarrow> dworld \<Rightarrow> dworld" where
  "normalize_node h p w = normalize_from (Suc (length (all_ids (v_dom w)))) h p (case child_ids (v_dom w) p of [] \<Rightarrow> 0 | y # _ \<Rightarrow> y) w"

section \<open>The methods of nodes\<close>

definition first_child :: "dom \<Rightarrow> nat \<Rightarrow> nat" where
  "first_child d x = (case child_ids d x of [] \<Rightarrow> 0 | y # _ \<Rightarrow> y)"

definition child_elements :: "dom \<Rightarrow> nat \<Rightarrow> nat list" where
  "child_elements d x = filter (\<lambda>c. native_kind d c = 1) (child_ids d x)"

definition doc_element :: "dom \<Rightarrow> nat \<Rightarrow> nat" where
  "doc_element d x = (case child_elements d x of [] \<Rightarrow> 0 | y # _ \<Rightarrow> y)"

definition hier :: "'a res" where
  "hier = Inl (DomErr ''HierarchyRequestError'')"

definition ensure_pre_insert :: "dom \<Rightarrow> nat \<Rightarrow> nat \<Rightarrow> nat \<Rightarrow> unit res" where
  "ensure_pre_insert d p x ref =
     (let pt = kind_of d p; nt = kind_of d x in
      if pt \<noteq> 9 \<and> pt \<noteq> 11 \<and> pt \<noteq> 1 then hier
      else if x = p \<or> (nt \<noteq> 3 \<and> nt \<noteq> 8 \<and> first_child d x \<noteq> 0 \<and> contains d x p) then hier
      else if ref \<noteq> 0 \<and> parent d ref \<noteq> p then Inl (DomErr ''NotFoundError'')
      else if nt = 9 \<or> nt = 2 then hier
      else if (nt = 3 \<and> pt = 9) \<or> (nt = 10 \<and> pt \<noteq> 9) then hier
      else if pt = 9 \<and> (nt = 1 \<or> nt = 11) \<and>
        (let els = (if nt = 1 then 1 else length (child_elements d x)) in
         els > 1 \<or> (els = 1 \<and> doc_element d p \<noteq> 0 \<and> doc_element d p \<noteq> x)) then hier
      else Inr ())"

definition pre_insert :: "dom_hooks \<Rightarrow> nat \<Rightarrow> nat \<Rightarrow> nat \<Rightarrow> dworld \<Rightarrow> dworld \<times> nat res" where
  "pre_insert h p x child w = (case ensure_pre_insert (v_dom w) p x child of
     Inl e \<Rightarrow> (w, Inl e)
   | Inr _ \<Rightarrow> (case insert_core h p x (if child = x then next_sibling (v_dom w) x else child) w of
       (w1, Inl e) \<Rightarrow> (w1, Inl e)
     | (w1, Inr _) \<Rightarrow> (w1, Inr x)))"

definition remove_child :: "dom_hooks \<Rightarrow> nat \<Rightarrow> nat \<Rightarrow> dworld \<Rightarrow> dworld \<times> nat res" where
  "remove_child h p x w =
     (if parent (v_dom w) x \<noteq> p then (w, Inl (DomErr ''NotFoundError'')) else (remove_core h p x w, Inr x))"

definition remove_self :: "dom_hooks \<Rightarrow> nat \<Rightarrow> dworld \<Rightarrow> dworld" where
  "remove_self h x w = (let p = parent (v_dom w) x in if p = 0 then w else remove_core h p x w)"

definition set_text_content :: "dom_hooks \<Rightarrow> nat \<Rightarrow> jstr \<Rightarrow> dworld \<Rightarrow> dworld" where
  "set_text_content h x s w =
     (let t = kind_of (v_dom w) x in
      if t = 1 \<or> t = 11 then replace_all_core h x (n_set_text_content x (v_fresh w) s) (w\<lparr>v_fresh := Suc (v_fresh w)\<rparr>)
      else if char_kind t then set_data_core h x s None w else w)"

text \<open>
  \<open>N.replaceChild(pid, nid, cid)\<close>, and \<open>replaceChildImpl\<close>, which queues the records but does not touch the live
  ranges.
\<close>

fun put_instead :: "nat \<Rightarrow> tree list \<Rightarrow> tree \<Rightarrow> tree" where
  "put_instead c ts (T i n ks) = T i n (concat (map (\<lambda>k. if tid k = c then ts else [k]) ks))"

definition n_replace_child :: "nat \<Rightarrow> nat \<Rightarrow> nat \<Rightarrow> dom \<Rightarrow> dom" where
  "n_replace_child p x c d = (case (node d x, node d c) of
     (Some t, Some old) \<Rightarrow>
       (let d1 = (if native_kind d x = 11 then edit p (put_instead c (tkids t)) (edit x (set_kids []) d)
                  else edit p (put_instead c [t]) (detach x d)) in
        d1\<lparr>d_trees := d_trees d1 @ [old]\<rparr>)
   | _ \<Rightarrow> d)"

definition native_refuses_replace :: "dom \<Rightarrow> nat \<Rightarrow> nat \<Rightarrow> nat \<Rightarrow> bool" where
  "native_refuses_replace d p x c =
     (native_kind d p = 9 \<and>
      (native_kind d x = 3 \<or> ((native_kind d x = 1 \<or> native_kind d x = 11) \<and> list_ex (\<lambda>y. y \<noteq> c \<and> y \<noteq> x \<and> native_kind d y = 1) (child_ids d p))))"

definition replace_child :: "dom_hooks \<Rightarrow> nat \<Rightarrow> nat \<Rightarrow> nat \<Rightarrow> dworld \<Rightarrow> dworld \<times> nat res" where
  "replace_child h p x c w =
     (let d = v_dom w; pt = kind_of d p; nt = kind_of d x in
      if pt \<noteq> 9 \<and> pt \<noteq> 11 \<and> pt \<noteq> 1 then (w, hier)
      else if x = p \<or> (first_child d x \<noteq> 0 \<and> contains d x p) then (w, hier)
      else if parent d c \<noteq> p then (w, Inl (DomErr ''NotFoundError''))
      else if nt = 9 \<or> (nt = 3 \<and> pt = 9) \<or> (nt = 10 \<and> pt \<noteq> 9) then (w, hier)
      else if x = c then (w, Inr c)
      else if native_refuses_replace d p x c then (w, hier)
      else let
          nx = (if next_sibling d c = x then next_sibling d x else next_sibling d c);
          pr = (if prev_sibling d c = x then prev_sibling d x else prev_sibling d c);
          frag = (nt = 11);
          added = (if frag then child_ids d x else [x]);
          oldParent = (if frag then 0 else parent d x);
          w1 = upd_dom (n_replace_child p x c) w;
          w2 = (if oldParent \<noteq> 0 \<and> oldParent \<noteq> p
            then queue_child_list oldParent None (Some [x]) (prev_sibling d x) (next_sibling d x) w1 else w1);
          w3 = queue_child_list p (Some added) (Some [c]) pr nx w2;
          w4 = h_removed h p c w3;
          w5 = (if oldParent \<noteq> 0 then h_moved h x w4 else w4)
        in (h_inserted h p added w5, Inr c))"

end
