(* ===== verification/DomKeep.thy ===== *)
theory DomKeep
  imports DomAncestors DomMutate "HOL-Library.Multiset"
begin

text \<open>
  The changes of the tree keep it well-formed, and keep placed ranges placed: removal, insertion, new data, new
  children.
\<close>

section \<open>Well-formedness\<close>

lemma edit_mset:
  assumes "distinct (pre_trees ts)" "u \<in> set (subs_list ts)"
  shows "mset (pre_trees (edit_trees (tid u) g ts)) + mset (pre_tree u) = mset (pre_trees ts) + mset (pre_tree (g u))"
proof -
  obtain A B where "pre_trees ts = A @ pre_tree u @ B" "pre_trees (edit_trees (tid u) g ts) = A @ pre_tree (g u) @ B"
    using edit_pre(2) [OF assms] by blast
  then show ?thesis by simp
qed

lemma edit_subs:
  "v \<in> set (subs (edit_tree x g t)) \<Longrightarrow>
     (\<exists>w \<in> set (subs t). tid w = x \<and> v \<in> set (subs (g w))) \<or> (\<exists>w \<in> set (subs t). tinfo v = tinfo w \<and> (tkids w = [] \<longrightarrow> tkids v = []))"
  "v \<in> set (subs_list (edit_trees x g ts)) \<Longrightarrow>
     (\<exists>w \<in> set (subs_list ts). tid w = x \<and> v \<in> set (subs (g w))) \<or> (\<exists>w \<in> set (subs_list ts). tinfo v = tinfo w \<and> (tkids w = [] \<longrightarrow> tkids v = []))"
proof (induction t and ts rule: subs_subs_list.induct)
  case (1 i n ks)
  show ?case
  proof (cases "i = x")
    case True
    with 1(2) show ?thesis by auto
  next
    case False
    with 1(2) have "v = T i n (edit_trees x g ks) \<or> v \<in> set (subs_list (edit_trees x g ks))" by simp
    with 1(1) show ?thesis by (fastforce simp: edit_trees_map)
  qed
next
  case (3 t ts)
  then have "v \<in> set (subs (edit_tree x g t)) \<or> v \<in> set (subs_list (edit_trees x g ts))" by simp
  with 3(1,2) show ?case by fastforce
qed simp

lemma edit_leaf_ok:
  assumes "forest_ok ts" "u \<in> set (subs_list ts)" "\<forall>v \<in> set (subs (g u)). leaf_ok v"
  shows "\<forall>v \<in> set (subs_list (edit_trees (tid u) g ts)). leaf_ok v"
proof
  fix v
  assume "v \<in> set (subs_list (edit_trees (tid u) g ts))"
  from edit_subs(2) [OF this] show "leaf_ok v"
  proof
    assume "\<exists>w \<in> set (subs_list ts). tid w = tid u \<and> v \<in> set (subs (g w))"
    then obtain w where w: "w \<in> set (subs_list ts)" "tid w = tid u" "v \<in> set (subs (g w))" by blast
    have "find_trees (tid u) ts = Some u" "find_trees (tid u) ts = Some w"
      using find_sub(2) [of ts u] find_sub(2) [of ts w] assms(1,2) w(1,2) by (auto simp: forest_ok_def)
    then have "w = u" by simp
    with w assms(3) show ?thesis by simp
  next
    assume "\<exists>w \<in> set (subs_list ts). tinfo v = tinfo w \<and> (tkids w = [] \<longrightarrow> tkids v = [])"
    then obtain w where "w \<in> set (subs_list ts)" "tinfo v = tinfo w" "tkids w = [] \<longrightarrow> tkids v = []" by blast
    moreover from this have "leaf_ok w" using assms(1) by (simp add: forest_ok_def)
    ultimately show ?thesis by (simp add: leaf_ok_def)
  qed
qed

text \<open>A forest stays well-formed when its ids are rearranged.\<close>

lemma forest_ok_mset:
  assumes "forest_ok ts" "mset (pre_trees ts') = mset (pre_trees ts)" "\<forall>v \<in> set (subs_list ts'). leaf_ok v"
  shows "forest_ok ts'"
  using assms(1,3) mset_eq_imp_distinct_iff [OF assms(2)] mset_eq_setD [OF assms(2)] by (simp add: forest_ok_def)

lemma sub_leaf_ok: "forest_ok ts \<Longrightarrow> u \<in> set (subs_list ts) \<Longrightarrow> v \<in> set (subs u) \<Longrightarrow> leaf_ok v"
  using subs_trans(2) [of u ts] by (auto simp: forest_ok_def)

lemma leaf_ok_T: "leaf_ok (T i n ks) \<longleftrightarrow> (leaf_kind (i_nkind n) \<longrightarrow> ks = []) \<and> kinds_agree n"
  by (simp add: leaf_ok_def)

lemma edit_same_kinds:
  assumes "forest_ok ts" "T p n ks \<in> set (subs_list ts)" "g (T p n ks) = T p n' ks'"
    "\<forall>v \<in> set (subs_list ks'). leaf_ok v" "leaf_kind (i_nkind n') \<longrightarrow> ks' = []" "kinds_agree n'"
  shows "\<forall>v \<in> set (subs_list (edit_trees p g ts)). leaf_ok v"
  using edit_leaf_ok [OF assms(1,2), of g] assms(3-6) by (simp add: leaf_ok_T)

lemma kids_leaf_ok: "forest_ok ts \<Longrightarrow> T p n ks \<in> set (subs_list ts) \<Longrightarrow> \<forall>v \<in> set (subs_list ks). leaf_ok v"
  using sub_leaf_ok by fastforce

lemma points_inner: "ks \<noteq> [] \<Longrightarrow> leaf_ok (T p n ks) \<Longrightarrow> points_tree (T p n ks) = gaps p 0 ks"
  by (auto simp: leaf_ok_T leaf_kind_char)

lemma own_agree: "forest_ok ts \<Longrightarrow> T p n ks \<in> set (subs_list ts) \<Longrightarrow> kinds_agree n"
  using sub_leaf_ok [of ts "T p n ks" "T p n ks"] by (simp add: leaf_ok_T)

section \<open>Removal\<close>

lemma remove_mset:
  assumes "forest_ok ts" "T p n (ks1 @ k # ks2) \<in> set (subs_list ts)" "tid k = x" "distinct (p # pre_trees (ks1 @ k # ks2))"
  shows "mset (pre_trees (edit_trees p (drop_kid x) ts @ [k])) = mset (pre_trees ts)"
proof -
  let ?u = "T p n (ks1 @ k # ks2)" and ?u' = "T p n (ks1 @ ks2)"
  have dk: "distinct (map tid (ks1 @ k # ks2))" using assms(4) by (intro distinct_kid_ids) simp
  have g: "drop_kid x ?u = ?u'" using split_at_kid(3) [OF dk] assms(3) by simp
  have "mset (pre_trees (edit_trees (tid ?u) (drop_kid x) ts)) + mset (pre_tree ?u) = mset (pre_trees ts) + mset (pre_tree ?u')"
    using edit_mset [OF _ assms(2), of "drop_kid x"] assms(1) unfolding g by (simp only: forest_ok_def)
  then show ?thesis by simp
qed

lemma remove_forest:
  assumes "forest_ok ts" "T p n (ks1 @ k # ks2) \<in> set (subs_list ts)" "tid k = x"
    "distinct (p # pre_trees (ks1 @ k # ks2))"
  shows "forest_ok (edit_trees p (drop_kid x) ts @ [k])"
    and "placed ts st \<Longrightarrow> f = (\<lambda>(c, o1). if c \<in> set (pre_tree k) then (p, length ks1) else if c = p \<and> o1 > length ks1 then (c, o1 - 1) else (c, o1)) \<Longrightarrow>
      placed (edit_trees p (drop_kid x) ts @ [k]) (move_points f st)"
proof -
  let ?u = "T p n (ks1 @ k # ks2)" and ?u' = "T p n (ks1 @ ks2)"
  have dk: "distinct (map tid (ks1 @ k # ks2))" using assms(4) by (intro distinct_kid_ids) simp
  have g: "drop_kid x ?u = ?u'" using split_at_kid(3) [OF dk] assms(3) by simp
  have leaf: "leaf_ok ?u" using sub_leaf_ok [OF assms(1,2)] subs_self by blast
  have kids: "\<forall>v \<in> set (subs_list (ks1 @ k # ks2)). leaf_ok v" using kids_leaf_ok [OF assms(1,2)] .
  have "mset (pre_trees (edit_trees p (drop_kid x) ts @ [k])) = mset (pre_trees ts)" by (rule remove_mset [OF assms])
  moreover have "\<forall>v \<in> set (subs_list (edit_trees p (drop_kid x) ts)). leaf_ok v"
    by (rule edit_same_kinds [OF assms(1,2), where g = "drop_kid x", OF g]) (use leaf kids in \<open>auto simp: leaf_ok_T\<close>)
  ultimately show "forest_ok (edit_trees p (drop_kid x) ts @ [k])"
    using kids by (intro forest_ok_mset [OF assms(1)]) auto
  assume pl: "placed ts st" and f: "f = (\<lambda>(c, o1). if c \<in> set (pre_tree k) then (p, length ks1) else if c = p \<and> o1 > length ks1 then (c, o1 - 1) else (c, o1))"
  have pts: "points_tree ?u = gaps p 0 (ks1 @ k # ks2)" "points_tree ?u' = gaps p 0 (ks1 @ ks2)"
    using leaf by (auto simp: leaf_ok_T leaf_kind_char)
  have "placed (edit_trees (tid ?u) (drop_kid x) ts) (move_points f st)"
  proof (rule edit_placed [OF assms(1,2) _ _ pl])
    show "carries f (points_tree ?u) (points_tree (drop_kid x ?u))"
      unfolding g pts using assms(4) f by (rule remove_carries)
    show "f (c, o1) = (c, o1)" if "c \<notin> set (pre_tree ?u)" for c o1 using that f by simp
  qed
  then show "placed (edit_trees p (drop_kid x) ts @ [k]) (move_points f st)" by (auto intro: placed_mono)
qed

lemma keep_document_trees [simp]: "d_trees (keep_document p x d) = d_trees d"
  by (simp add: keep_document_def Let_def)

theorem removal_keeps:
  assumes "dom_ok d" "parent d x \<noteq> 0"
  shows "dom_ok (n_remove_child (parent d x) x d)"
    and "placed (d_trees d) st \<Longrightarrow>
      placed (d_trees (n_remove_child (parent d x) x d)) (move_points (pt_remove d (parent d x) x (index_of_node d x)) st)"
proof -
  obtain n ks1 k ks2 where u: "T (parent d x) n (ks1 @ k # ks2) \<in> set (subs_of d)" "tid k = x" "node d x = Some k"
    "index_of_node d x = length ks1" "distinct (parent d x # pre_trees (ks1 @ k # ks2))"
    "\<And>c. contains d x c \<longleftrightarrow> c \<in> set (pre_tree k)"
    using kid_place [OF assms] by blast
  have t: "d_trees (n_remove_child (parent d x) x d) = edit_trees (parent d x) (drop_kid x) (d_trees d) @ [k]"
    by (simp add: n_remove_child_def u(3) edit_def Let_def)
  note rf = remove_forest [OF assms(1) [unfolded dom_ok_def] u(1) [unfolded subs_of_def] u(2,5)]
  show "dom_ok (n_remove_child (parent d x) x d)" using rf(1) by (simp add: dom_ok_def t)
  assume "placed (d_trees d) st"
  from rf(2) [OF this refl] show "placed (d_trees (n_remove_child (parent d x) x d)) (move_points (pt_remove d (parent d x) x (index_of_node d x)) st)"
    by (simp add: t pt_remove_def u(4,6))
qed

section \<open>Insertion\<close>

lemma pt_grow_other: "fst a \<noteq> p \<Longrightarrow> pt_grow p i m a = a"
  by (cases a) (simp add: pt_grow_def)

text \<open>New trees \<open>us\<close>, with ids of their own, as children at a place.\<close>

lemma insert_forest:
  assumes "forest_ok (ts @ us)" "T p n (ks1 @ ks2) \<in> set (subs_list ts)" "\<not> leaf_kind (i_nkind n)"
    and g: "g (T p n (ks1 @ ks2)) = T p n (ks1 @ us @ ks2)"
  shows "forest_ok (edit_trees p g ts)"
    and "placed (ts @ us) st \<Longrightarrow> placed (edit_trees p g ts) (move_points (pt_grow p (length ks1) (length us)) st)"
proof -
  let ?u = "T p n (ks1 @ ks2)" and ?u' = "T p n (ks1 @ us @ ks2)" and ?f = "pt_grow p (length ks1) (length us)"
  have ts: "forest_ok ts" using assms(1) by (auto simp: forest_ok_def)
  have kids: "\<forall>v \<in> set (subs_list (ks1 @ us @ ks2)). leaf_ok v"
    using kids_leaf_ok [OF ts assms(2)] assms(1) by (auto simp: forest_ok_def)
  have "mset (pre_trees (edit_trees (tid ?u) g ts)) + mset (pre_tree ?u) = mset (pre_trees ts) + mset (pre_tree ?u')"
    using edit_mset [OF _ assms(2), of g] ts unfolding g by (simp only: forest_ok_def)
  then have "mset (pre_trees (edit_trees p g ts)) = mset (pre_trees (ts @ us))" by simp
  moreover have "\<forall>v \<in> set (subs_list (edit_trees p g ts)). leaf_ok v"
    by (rule edit_same_kinds [OF ts assms(2), where g = g, OF g kids]) (use assms(3) own_agree [OF ts assms(2)] in simp_all)
  ultimately show "forest_ok (edit_trees p g ts)" by (rule forest_ok_mset [OF assms(1)])
  have pts: "points_tree ?u = gaps p 0 (ks1 @ ks2)" "points_tree ?u' = gaps p 0 (ks1 @ us @ ks2)"
    using assms(3) by (auto simp: leaf_kind_char)
  have du: "distinct (pre_tree ?u)" by (rule distinct_sub(1) [OF ts assms(2)])
  assume "placed (ts @ us) st"
  then consider "placed ts st" | t where "t \<in> set us" "before (points_tree t) (range_start st) (range_end st)"
    by (auto simp: placed_def)
  then show "placed (edit_trees p g ts) (move_points ?f st)"
  proof cases
    case 1
    have "placed (edit_trees (tid ?u) g ts) (move_points ?f st)"
    proof (rule edit_placed [OF ts assms(2) _ _ 1])
      show "carries ?f (points_tree ?u) (points_tree (g ?u))"
        unfolding g pts by (rule insert_carries) (use du in simp)
      show "?f (c, o1) = (c, o1)" if "c \<notin> set (pre_tree ?u)" for c o1 using that by (simp add: pt_grow_def)
    qed
    then show ?thesis by simp
  next
    case (2 t)
    obtain r where r: "r \<in> set ts" "?u \<in> set (subs r)" using sub_tree_of [OF assms(2)] by blast
    obtain A B where "points_tree (edit_tree p g r) = A @ points_tree ?u' @ B"
      using edit_points(1) [of r ?u] forest_tree [OF ts r(1)] r(2) g by (metis tree.sel(1))
    moreover obtain us1 us2 where "us = us1 @ t # us2" using 2(1) by (meson split_list)
    then have "points_tree ?u' = pre_gaps p 0 ks1 @ pre_gaps p (length ks1) us1 @ (p, length ks1 + length us1) # points_tree t @ gaps p (Suc (length ks1 + length us1)) (us2 @ ks2)"
      unfolding pts by (simp add: gaps_append)
    ultimately have "before (points_tree (edit_tree p g r)) (range_start st) (range_end st)"
      using 2(2) by (simp add: before_append)
    moreover have "p \<notin> set (pre_tree t)"
      using assms(1) tree_ids [OF 2(1)] sub_ids(2) [OF assms(2)] by (auto simp: forest_ok_def)
    then have "?f (range_start st) = range_start st" "?f (range_end st) = range_end st"
      using point_container [OF 2(2)] by (auto intro!: pt_grow_other)
    ultimately show ?thesis using r(1) by (auto simp: placed_def edit_trees_map)
  qed
qed

section \<open>New data\<close>

lemma data_forest:
  assumes "forest_ok ts" "T x n [] \<in> set (subs_list ts)" "char_kind (i_nkind n)" "offset + cnt \<le> length (i_text n)"
    "length s = length (i_text n) - cnt + added"
  shows "forest_ok (edit_trees x (set_data s) ts)"
    and "placed ts st \<Longrightarrow> placed (edit_trees x (set_data s) ts) (move_points (pt_replace x offset cnt added) st)"
proof -
  let ?u = "T x n []" and ?f = "pt_replace x offset cnt added"
  have "mset (pre_trees (edit_trees (tid ?u) (set_data s) ts)) + mset (pre_tree ?u) = mset (pre_trees ts) + mset (pre_tree (set_data s ?u))"
    using edit_mset [OF _ assms(2), of "set_data s"] assms(1) by (simp only: forest_ok_def)
  then have "mset (pre_trees (edit_trees x (set_data s) ts)) = mset (pre_trees ts)" by simp
  moreover have "\<forall>v \<in> set (subs_list (edit_trees x (set_data s) ts)). leaf_ok v"
    by (rule edit_same_kinds [OF assms(1,2), where g = "set_data s" and n' = "n\<lparr>i_text := s\<rparr>" and ks' = "[]"])
      (use own_agree [OF assms(1,2)] in \<open>simp_all add: kinds_agree_def\<close>)
  ultimately show "forest_ok (edit_trees x (set_data s) ts)" by (rule forest_ok_mset [OF assms(1)])
  assume "placed ts st"
  have "placed (edit_trees (tid ?u) (set_data s) ts) (move_points ?f st)"
  proof (rule edit_placed [OF assms(1,2) _ _ \<open>placed ts st\<close>])
    show "carries ?f (points_tree ?u) (points_tree (set_data s ?u))"
      using replace_carries [OF assms(4,5), of x] assms(3) by (simp del: upt_Suc)
    show "?f (c, o1) = (c, o1)" if "c \<notin> set (pre_tree ?u)" for c o1 using that by (simp add: pt_replace_def)
  qed
  then show "placed (edit_trees x (set_data s) ts) (move_points ?f st)" by simp
qed

section \<open>New children\<close>

lemma clear_forest:
  assumes "forest_ok ts" "T p n ks \<in> set (subs_list ts)" "\<not> leaf_kind (i_nkind n)" "forest_ok (ts @ us)"
    "f = (\<lambda>(c, o1). if c \<in> set (pre_tree (T p n ks)) then (p, 0) else (c, o1))"
  shows "forest_ok (edit_trees p (set_kids us) ts @ ks)"
    and "placed ts st \<Longrightarrow> placed (edit_trees p (set_kids us) ts @ ks) (move_points f st)"
proof -
  let ?u = "T p n ks" and ?u' = "T p n us"
  have g: "set_kids us ?u = ?u'" by simp
  have "mset (pre_trees (edit_trees (tid ?u) (set_kids us) ts)) + mset (pre_tree ?u) = mset (pre_trees ts) + mset (pre_tree ?u')"
    using edit_mset [OF _ assms(2), of "set_kids us"] assms(1) unfolding g by (simp only: forest_ok_def)
  then have "mset (pre_trees (edit_trees p (set_kids us) ts @ ks)) = mset (pre_trees (ts @ us))" by simp
  moreover have us: "\<forall>v \<in> set (subs_list us). leaf_ok v" using assms(4) by (auto simp: forest_ok_def)
  then have "\<forall>v \<in> set (subs_list (edit_trees p (set_kids us) ts)). leaf_ok v"
    by (intro edit_same_kinds [OF assms(1,2), where g = "set_kids us", OF g]) (use assms(3) own_agree [OF assms(1,2)] in auto)
  with kids_leaf_ok [OF assms(1,2)] have "\<forall>v \<in> set (subs_list (edit_trees p (set_kids us) ts @ ks)). leaf_ok v" by auto
  ultimately show "forest_ok (edit_trees p (set_kids us) ts @ ks)" by (rule forest_ok_mset [OF assms(4)])
  assume "placed ts st"
  have "placed (edit_trees (tid ?u) (set_kids us) ts) (move_points f st)"
  proof (rule edit_placed [OF assms(1,2) _ _ \<open>placed ts st\<close>])
    have "(p, 0) \<in> set (points_tree ?u')" using assms(3) gaps_head [of p 0 us] by (auto simp: leaf_kind_char) (metis list.set_intros(1))
    then show "carries f (points_tree ?u) (points_tree (set_kids us ?u))"
      unfolding g by (rule carries_const [rotated]) (use assms(5) points_containers(1) [of _ _ ?u] in \<open>auto simp del: points_tree.simps\<close>)
    show "f (c, o1) = (c, o1)" if "c \<notin> set (pre_tree ?u)" for c o1 using that assms(5) by simp
  qed
  then show "placed (edit_trees p (set_kids us) ts @ ks) (move_points f st)" by (auto intro: placed_mono)
qed

end
