(* ===== verification/DomWorld.thy ===== *)
theory DomWorld
  imports DomKeep
begin

text \<open>
  The mutation functions on the whole state: the tree stays well-formed, the index of the ranges stays exact, and
  every live range stays placed.
\<close>

section \<open>Infos of nodes\<close>

definition infos :: "tree list \<Rightarrow> (nat \<times> ninfo) list" where
  "infos ts = map (\<lambda>u. (tid u, tinfo u)) (subs_list ts)"

lemma infos_simps [simp]:
  "infos [] = []" "infos (T i n ks # ts) = (i, n) # infos ks @ infos ts" "infos (ts @ us) = infos ts @ infos us"
  by (simp_all add: infos_def)

lemma infos_Cons: "infos (t # ts) = infos [t] @ infos ts"
  by (simp add: infos_def)

lemma infos_filter: "set (infos (filter P ts)) \<subseteq> set (infos ts)"
  by (induction ts) (auto simp: infos_def)

lemma infos_edit:
  assumes "\<And>i n ks. set (infos [g (T i n ks)]) \<subseteq> set (infos [T i n ks])"
  shows "set (infos [edit_tree x g t]) \<subseteq> set (infos [t])" "set (infos (edit_trees x g ts)) \<subseteq> set (infos ts)"
proof (induction t and ts rule: subs_subs_list.induct)
  case (1 i n ks)
  with assms [of i n ks] show ?case by auto
next
  case (3 t ts)
  then show ?case using infos_Cons [of t ts] infos_Cons [of "edit_tree x g t" "edit_trees x g ts"] by auto
qed simp

lemma infos_drop: "set (infos (edit_trees x (drop_kid y) ts)) \<subseteq> set (infos ts)"
  using infos_filter by (intro infos_edit(2)) auto

lemma infos_clear: "set (infos (edit_trees x (set_kids []) ts)) \<subseteq> set (infos ts)"
  by (intro infos_edit(2)) auto

lemma infos_node: "(x, n) \<in> set (infos ts) \<longleftrightarrow> (\<exists>ks. T x n ks \<in> set (subs_list ts))"
proof
  assume "(x, n) \<in> set (infos ts)"
  then obtain u where "u \<in> set (subs_list ts)" "tid u = x" "tinfo u = n" by (auto simp: infos_def)
  then show "\<exists>ks. T x n ks \<in> set (subs_list ts)" by (metis tree.collapse)
qed (force simp: infos_def)

lemma infos_ids: "fst ` set (infos ts) = set (pre_trees ts)"
  by (force simp: infos_def pre_subs)

lemma infos_unique: "forest_ok ts \<Longrightarrow> (x, n) \<in> set (infos ts) \<Longrightarrow> (x, m) \<in> set (infos ts) \<Longrightarrow> n = m"
  using find_sub(2) [of ts] by (auto simp: infos_node forest_ok_def) (metis option.inject tree.inject tree.sel(1))

lemma info_infos: "dom_ok d \<Longrightarrow> x \<in> set (all_ids d) \<Longrightarrow> \<exists>n. info d x = Some n \<and> (x, n) \<in> set (infos (d_trees d))"
proof -
  assume "dom_ok d" "x \<in> set (all_ids d)"
  then obtain u where "node d x = Some u" "u \<in> set (subs_of d)" "tid u = x" using dom_node_exists by blast
  then show ?thesis by (auto simp: info_def infos_def subs_of_def)
qed

section \<open>The insertion of trees that stand alone\<close>

text \<open>The forest \<open>F\<close> with the trees \<open>us\<close> taken out, and \<open>us\<close> put before \<open>ref\<close> into \<open>p\<close>.\<close>

lemma insert_at:
  assumes "forest_ok (F @ us)" "(p, n) \<in> set (infos F)" "\<not> leaf_kind (i_nkind n)" "us \<noteq> []"
    and d': "d_trees d' = edit_trees p (put_kids ref us) F"
  shows "dom_ok d'" "\<exists>i. index_of_node d' (tid (hd us)) = i \<and>
    (\<forall>st. placed (F @ us) st \<longrightarrow> placed (d_trees d') (move_points (pt_grow p i (length us)) st))"
proof -
  obtain ks where u: "T p n ks \<in> set (subs_list F)" using assms(2) by (auto simp: infos_node)
  define ks1 where "ks1 = takeWhile (\<lambda>k. tid k \<noteq> ref) ks"
  define ks2 where "ks2 = dropWhile (\<lambda>k. tid k \<noteq> ref) ks"
  have ks: "ks = ks1 @ ks2" by (simp add: ks1_def ks2_def)
  have g: "put_kids ref us (T p n (ks1 @ ks2)) = T p n (ks1 @ us @ ks2)"
    using ks by (simp add: ks1_def ks2_def)
  note ins = insert_forest [OF assms(1) u [unfolded ks] assms(3), where g = "put_kids ref us", OF g]
  show ok1: "dom_ok d'" using ins(1) d' by (simp add: dom_ok_def)
  have F: "forest_ok F" using assms(1) by (auto simp: forest_ok_def)
  have "T p n (ks1 @ us @ ks2) \<in> set (subs_list (d_trees d'))"
  proof -
    obtain r where r: "r \<in> set F" "T p n ks \<in> set (subs r)" using sub_tree_of [OF u] by blast
    have "put_kids ref us (T p n ks) \<in> set (subs (edit_tree p (put_kids ref us) r))"
      using edit_sub(1) [of r "T p n ks" "put_kids ref us"] forest_tree [OF F r(1)] r(2) by simp
    then show ?thesis using r(1) kid_in_subs [of "edit_tree p (put_kids ref us) r" "d_trees d'"] g ks
      by (auto simp: d' edit_trees_map)
  qed
  then have u': "T p n (ks1 @ us @ ks2) \<in> set (subs_of d')" by (simp add: subs_of_def)
  have "parent d' (tid (hd us)) = p" using parent_kid [OF ok1 u', of "hd us"] assms(4) by simp
  moreover have "p \<in> set (all_ids d')" using imageI [OF u', of tid] by (simp add: all_ids_subs)
  then have "p \<noteq> 0" using dom_ok_ids [OF ok1] by metis
  moreover have "child_ids d' p = map tid (ks1 @ us @ ks2)" using dom_child_ids [OF ok1 u'] by simp
  moreover obtain y ys where us: "us = y # ys" using assms(4) by (cases us) auto
  have "distinct (pre_tree (T p n (ks1 @ us @ ks2)))"
    by (rule distinct_sub(1) [of "d_trees d'"]) (use ok1 u' in \<open>simp_all add: dom_ok_def subs_of_def\<close>)
  then have "distinct (map tid (ks1 @ y # ys @ ks2))" using us by (intro distinct_kid_ids) simp
  then have "pos_in (tid y) (map tid (ks1 @ y # ys @ ks2)) = length ks1"
    unfolding pos_in_map by (subst split_at_kid(1)) simp_all
  ultimately have "index_of_node d' (tid (hd us)) = length ks1" using us by (simp add: index_of_node_def)
  then show "\<exists>i. index_of_node d' (tid (hd us)) = i \<and>
    (\<forall>st. placed (F @ us) st \<longrightarrow> placed (d_trees d') (move_points (pt_grow p i (length us)) st))"
    using ins(2) d' by simp
qed

section \<open>A node that moves\<close>

text \<open>Where the ranges are after the removal of \<open>x\<close> from its parent, if it has one.\<close>

definition pt_taken :: "dom \<Rightarrow> nat \<Rightarrow> point \<Rightarrow> point" where
  "pt_taken d x = (if parent d x \<noteq> 0 then pt_remove d (parent d x) x (index_of_node d x) else id)"

lemma move_points_id [simp]: "move_points id st = st"
  by (simp add: move_points_def range_start_def range_end_def)

lemma native_kind_info: "info d x = Some n \<Longrightarrow> native_kind d x = i_nkind n"
  by (simp add: native_kind_def)

lemma filter_root:
  assumes "forest_ok (A @ t # B)"
  shows "filter (\<lambda>r. tid r \<noteq> tid t) (A @ t # B) = A @ B"
  using assms distinct_kid_ids [of "A @ t # B"] split_at_kid(3) by (simp add: forest_ok_def del: filter_append)

lemma detach_forest:
  assumes "dom_ok d" "x \<in> set (all_ids d)" "p \<in> set (all_ids d)" "\<not> contains d x p" "info d p = Some n"
  obtains t where "node d x = Some t" "tid t = x" "forest_ok (d_trees (detach x d) @ [t])" "(p, n) \<in> set (infos (d_trees (detach x d)))"
    "\<And>st. placed (d_trees d) st \<Longrightarrow> placed (d_trees (detach x d) @ [t]) (move_points (pt_taken d x) st)"
proof -
  obtain t where t: "node d x = Some t" "t \<in> set (subs_of d)" "tid t = x" using dom_node_exists [OF assms(1,2)] by blast
  have pt: "p \<notin> set (pre_tree t)" using contains_sub [OF assms(1) t(2)] t(3) assms(4) by simp
  have pn: "(p, n) \<in> set (infos (d_trees d))" using info_infos [OF assms(1,3)] assms(5) by auto
  have keep: "(p, n) \<in> set (infos F)" if F: "mset (pre_trees (F @ [t])) = mset (pre_trees (d_trees d))" "set (infos F) \<subseteq> set (infos (d_trees d))" for F
  proof -
    have "p \<in> set (pre_trees F)" using mset_eq_setD [OF F(1)] assms(3) pt by (auto simp: all_ids_def)
    then obtain m where "(p, m) \<in> set (infos F)" using infos_ids [of F] by force
    moreover from this F(2) have "m = n" using infos_unique [of "d_trees d"] assms(1) pn by (auto simp: dom_ok_def)
    ultimately show ?thesis by simp
  qed
  show thesis
  proof (cases "parent d x = 0")
    case True
    from assms(1,2) True obtain r where r: "r \<in> set (d_trees d)" "tid r = x"
      using dom_ok_ids [OF assms(1)] by (cases rule: root_or_child) (auto simp: all_ids_subs)
    have "r \<in> set (subs_of d)" using r(1) kid_in_subs [of r "d_trees d"] subs_self by (auto simp: subs_of_def)
    then have "r = t" using dom_node [OF assms(1)] r(2) t(1) by (metis option.inject)
    then obtain A B where AB: "d_trees d = A @ t # B" using r(1) by (meson split_list)
    have ok1: "forest_ok (A @ t # B)" using assms(1) AB by (simp add: dom_ok_def)
    have F: "d_trees (detach x d) = A @ B" using filter_root [OF ok1] True t(3) by (simp add: detach_def AB)
    have m: "mset (pre_trees ((A @ B) @ [t])) = mset (pre_trees (d_trees d))" using AB by simp
    have "forest_ok ((A @ B) @ [t])" using ok1 by (intro forest_ok_mset [OF ok1]) (auto simp: forest_ok_def)
    moreover have "(p, n) \<in> set (infos (A @ B))" by (rule keep [OF m]) (use AB infos_Cons [of t B] in auto)
    moreover have "placed ((A @ B) @ [t]) (move_points (pt_taken d x) st)" if "placed (d_trees d) st" for st
      using that True AB by (auto simp: pt_taken_def placed_def)
    ultimately show thesis using that t(1,3) F by simp
  next
    case False
    have tr: "d_trees (n_remove_child (parent d x) x d) = d_trees (detach x d) @ [t]"
      using t(1) False by (simp add: n_remove_child_def detach_def Let_def)
    note rk = removal_keeps [OF assms(1) False, unfolded dom_ok_def tr]
    obtain n1 ks1 k ks2 where u: "T (parent d x) n1 (ks1 @ k # ks2) \<in> set (subs_of d)" "tid k = x" "node d x = Some k"
      "distinct (parent d x # pre_trees (ks1 @ k # ks2))"
      using kid_place [OF assms(1) False] by metis
    have "mset (pre_trees (d_trees (detach x d) @ [t])) = mset (pre_trees (d_trees d))"
      using remove_mset [of "d_trees d" "parent d x" n1 ks1 k ks2 x] assms(1) u t(1) False
      by (simp add: detach_def edit_def dom_ok_def subs_of_def)
    from keep [OF this] have "(p, n) \<in> set (infos (d_trees (detach x d)))"
      using infos_drop False by (simp add: detach_def edit_def)
    with rk show thesis using that t(1,3) False by (simp add: pt_taken_def)
  qed
qed

theorem insertion_keeps:
  assumes "dom_ok d" "x \<in> set (all_ids d)" "p \<in> set (all_ids d)" "\<not> contains d x p" "native_kind d x \<noteq> 11"
    "has_children (native_kind d p)" and d'_def: "d' = n_insert_before p x ref d"
  shows "dom_ok d'" "placed (d_trees d) st \<Longrightarrow>
    placed (d_trees d') (move_points (pt_grow p (index_of_node d' x) 1 \<circ> pt_taken d x) st)"
proof -
  obtain n where n: "info d p = Some n" using info_infos [OF assms(1,3)] by blast
  then have leaf: "\<not> leaf_kind (i_nkind n)" using assms(6) by (simp add: leaf_kind_def native_kind_info)
  obtain t where t: "node d x = Some t" "tid t = x" "forest_ok (d_trees (detach x d) @ [t])" "(p, n) \<in> set (infos (d_trees (detach x d)))"
    "\<And>st. placed (d_trees d) st \<Longrightarrow> placed (d_trees (detach x d) @ [t]) (move_points (pt_taken d x) st)"
    using detach_forest [OF assms(1-4) n] by blast
  have d': "d_trees d' = edit_trees p (put_kids ref [t]) (d_trees (detach x d))"
    using t(1) assms(5) by (simp add: d'_def n_insert_before_def edit_def)
  note ia = insert_at [OF t(3,4) leaf _ d']
  show "dom_ok d'" using ia(1) by simp
  assume "placed (d_trees d) st"
  from t(5) [OF this] ia(2) t(2) show "placed (d_trees d') (move_points (pt_grow p (index_of_node d' x) 1 \<circ> pt_taken d x) st)"
    by (simp add: move_points_compose [symmetric])
qed

section \<open>The children of a fragment\<close>

text \<open>Every point of the fragment goes to its start.\<close>

definition pt_emptied :: "dom \<Rightarrow> nat \<Rightarrow> point \<Rightarrow> point" where
  "pt_emptied d x = (\<lambda>(c, o1). if contains d x c then (x, 0) else (c, o1))"

theorem fragment_keeps:
  assumes "dom_ok d" "x \<in> set (all_ids d)" "p \<in> set (all_ids d)" "\<not> contains d x p" "native_kind d x = 11"
    "has_children (native_kind d p)" "child_ids d x \<noteq> []" and d'_def: "d' = n_insert_before p x ref d"
  shows "dom_ok d'" "placed (d_trees d) st \<Longrightarrow>
    placed (d_trees d') (move_points (pt_grow p (index_of_node d' (hd (child_ids d x))) (length (child_ids d x)) \<circ> pt_emptied d x) st)"
proof -
  obtain u where u: "node d x = Some u" "u \<in> set (subs_of d)" "tid u = x" using dom_node_exists [OF assms(1,2)] by blast
  obtain nx ks where ux: "u = T x nx ks" using u(3) by (cases u) auto
  have kids: "child_ids d x = map tid ks" using dom_child_ids [OF assms(1) u(2)] ux by simp
  have ts: "forest_ok (d_trees d)" using assms(1) by (simp add: dom_ok_def)
  have "\<not> leaf_kind (i_nkind nx)" using assms(5) u ux by (simp add: native_kind_def info_def leaf_kind_def has_children_def)
  note cf = clear_forest [OF ts _ this, where us = "[]" and p = x and ks = ks and f = "pt_emptied d x"]
  have emp: "pt_emptied d x = (\<lambda>(c, o1). if c \<in> set (pre_tree (T x nx ks)) then (x, 0) else (c, o1))"
    using contains_sub [OF assms(1) u(2)] ux unfolding pt_emptied_def by auto
  have in1: "T x nx ks \<in> set (subs_list (d_trees d))" using u(2) ux by (simp add: subs_of_def)
  have ts0: "forest_ok (d_trees d @ [])" using ts by simp
  note cf = cf [OF in1 ts0 emp]
  define F where "F = edit_trees x (set_kids []) (d_trees d)"
  obtain n where n: "info d p = Some n" "(p, n) \<in> set (infos (d_trees d))" using info_infos [OF assms(1,3)] by blast
  then have leaf: "\<not> leaf_kind (i_nkind n)" using assms(6) by (simp add: leaf_kind_def native_kind_info)
  have "p \<notin> set (pre_trees ks)" using assms(4) contains_sub [OF assms(1) u(2)] ux by auto
  moreover have "set (pre_trees (F @ ks)) = set (pre_trees (d_trees d))"
    using edit_mset [OF _ in1, of "set_kids []"] ts unfolding F_def
    by (intro mset_eq_setD) (simp add: forest_ok_def)
  ultimately have "p \<in> set (pre_trees F)" using assms(3) by (auto simp: all_ids_def)
  then obtain m where m: "(p, m) \<in> set (infos F)" using infos_ids [of F] by force
  moreover have "m = n" using m infos_clear [of x "d_trees d"] infos_unique [OF ts, of p m n] n(2) by (auto simp: F_def)
  ultimately have pn: "(p, n) \<in> set (infos F)" by simp
  have d': "d_trees d' = edit_trees p (put_kids ref ks) F"
    using u(1) ux assms(5) by (simp add: d'_def n_insert_before_def edit_def F_def)
  have ne: "ks \<noteq> []" using assms(7) kids by simp
  note ia = insert_at [OF cf(1) [folded F_def] pn leaf ne d']
  show "dom_ok d'" using ia(1) .
  assume "placed (d_trees d) st"
  from cf(2) [OF this] ia(2) kids ne
  show "placed (d_trees d') (move_points (pt_grow p (index_of_node d' (hd (child_ids d x))) (length (child_ids d x)) \<circ> pt_emptied d x) st)"
    by (simp add: move_points_compose [symmetric] F_def [symmetric] hd_map)
qed

section \<open>Data and text content\<close>

lemma leaf_node:
  assumes "dom_ok d" "x \<in> set (all_ids d)" "char_kind (native_kind d x)"
  obtains n where "T x n [] \<in> set (subs_list (d_trees d))" "info d x = Some n" "i_text n = get_text d x" "char_kind (i_nkind n)"
proof -
  obtain u where u: "node d x = Some u" "u \<in> set (subs_of d)" "tid u = x" using dom_node_exists [OF assms(1,2)] by blast
  obtain n ks where un: "u = T x n ks" using u(3) by (cases u) auto
  have "leaf_ok u" using u(2) assms(1) by (simp add: dom_ok_def forest_ok_def subs_of_def)
  with un u assms(3) that [of n] show thesis
    by (auto simp: leaf_ok_T leaf_kind_char native_kind_def info_def get_text_def subs_of_def)
qed

theorem data_keeps:
  assumes "dom_ok d" "x \<in> set (all_ids d)" "char_kind (native_kind d x)" "offset + cnt \<le> length (get_text d x)"
    "length s = length (get_text d x) - cnt + added"
  shows "dom_ok (n_set_text x s d)"
    "placed (d_trees d) st \<Longrightarrow> placed (d_trees (n_set_text x s d)) (move_points (pt_replace x offset cnt added) st)"
proof -
  obtain n where n: "T x n [] \<in> set (subs_list (d_trees d))" "i_text n = get_text d x" "char_kind (i_nkind n)"
    using leaf_node [OF assms(1-3)] by metis
  note df = data_forest [OF assms(1) [unfolded dom_ok_def] n(1,3), unfolded n(2), OF assms(4,5)]
  show "dom_ok (n_set_text x s d)" using df(1) by (simp add: dom_ok_def n_set_text_def edit_def)
  assume "placed (d_trees d) st"
  from df(2) [OF this] show "placed (d_trees (n_set_text x s d)) (move_points (pt_replace x offset cnt added) st)"
    by (simp add: n_set_text_def edit_def)
qed

section \<open>Ids\<close>

lemma pre_edit:
  assumes "\<And>i n ks. set (pre_tree (g (T i n ks))) \<subseteq> insert i (set (pre_trees ks)) \<union> E"
  shows "set (pre_tree (edit_tree x g t)) \<subseteq> set (pre_tree t) \<union> E" "set (pre_trees (edit_trees x g ts)) \<subseteq> set (pre_trees ts) \<union> E"
proof (induction t and ts rule: subs_subs_list.induct)
  case (1 i n ks)
  with assms [of i n ks] show ?case by auto
qed auto

lemma pre_filter: "set (pre_trees (filter P ts)) \<subseteq> set (pre_trees ts)"
  by (induction ts) auto

lemma pre_parts: "set (pre_trees (takeWhile P ts)) \<subseteq> set (pre_trees ts)" "set (pre_trees (dropWhile P ts)) \<subseteq> set (pre_trees ts)"
  by (induction ts) auto

lemma pre_drop: "set (pre_trees (edit_trees x (drop_kid y) ts)) \<subseteq> set (pre_trees ts)"
  using pre_edit(2) [of "drop_kid y" "{}" x ts] pre_filter by auto

lemma pre_put: "set (pre_trees (edit_trees x (put_kids ref us) ts)) \<subseteq> set (pre_trees ts) \<union> set (pre_trees us)"
  by (rule pre_edit(2)) (auto dest: subsetD [OF pre_parts(1)] subsetD [OF pre_parts(2)])

lemma pre_set: "set (pre_trees (edit_trees x (set_kids us) ts)) \<subseteq> set (pre_trees ts) \<union> set (pre_trees us)"
  by (rule pre_edit(2)) auto

lemma pre_data: "set (pre_trees (edit_trees x (set_data s) ts)) \<subseteq> set (pre_trees ts)"
  using pre_edit(2) [of "set_data s" "{}" x ts] by auto

lemma pre_node: "node d x = Some t \<Longrightarrow> set (pre_tree t) \<subseteq> set (all_ids d)"
  using node_in sub_ids(2) by (fastforce simp: all_ids_def subs_of_def)

lemma pre_kids: "node d x = Some t \<Longrightarrow> set (pre_trees (tkids t)) \<subseteq> set (all_ids d)"
  using pre_node [of d x t] by (cases t) auto

lemma remove_ids: "set (all_ids (n_remove_child p x d)) \<subseteq> set (all_ids d)"
  using pre_node [of d x] pre_drop [of p x "d_trees d"]
  by (auto simp: n_remove_child_def all_ids_def edit_def Let_def split: option.splits)

lemma detach_ids: "set (all_ids (detach x d)) \<subseteq> set (all_ids d)"
  using pre_drop pre_filter by (auto simp: detach_def all_ids_def edit_def)

lemma insert_ids: "set (all_ids (n_insert_before p x ref d)) \<subseteq> set (all_ids d)"
proof (cases "node d x")
  case (Some t)
  have "set (pre_trees (edit_trees p (put_kids ref [t]) (d_trees (detach x d)))) \<subseteq> set (all_ids d)"
    using pre_put [of p ref "[t]"] pre_node [OF Some] detach_ids [of x d] by (fastforce simp: all_ids_def)
  moreover have "set (pre_trees (edit_trees p (put_kids ref (tkids t)) (edit_trees x (set_kids []) (d_trees d)))) \<subseteq> set (all_ids d)"
    using pre_put [of p ref "tkids t"] pre_kids [OF Some] pre_set [of x "[]" "d_trees d"] by (fastforce simp: all_ids_def)
  ultimately show ?thesis using Some by (simp add: n_insert_before_def all_ids_def edit_def)
qed (simp add: n_insert_before_def)

section \<open>Well-formed states\<close>

definition indexed :: "registry \<Rightarrow> nat set" where
  "indexed g = set (concat (map snd (g_index g)))"

definition ranges_ok :: "dom \<Rightarrow> registry \<Rightarrow> bool" where
  "ranges_ok d g = (index_ok (indexed g) g \<and> (\<forall>s \<in> indexed g. s < g_next g \<and> placed (d_trees d) (g_states g s)))"

definition world_ok :: "dworld \<Rightarrow> bool" where
  "world_ok w = (dom_ok (v_dom w) \<and> (\<forall>x \<in> set (all_ids (v_dom w)). x < v_fresh w) \<and> ranges_ok (v_dom w) (v_ranges w))"

lemma indexed_live: "index_ok live g \<Longrightarrow> indexed g = live"
proof -
  assume ok1: "index_ok live g"
  have "s \<in> indexed g \<longleftrightarrow> (\<exists>c. s \<in> set (look (g_index g) c))" for s
  proof
    assume "s \<in> indexed g"
    then obtain c ss where "(c, ss) \<in> set (g_index g)" "s \<in> set ss" by (auto simp: indexed_def)
    moreover from this ok1 have "map_of (g_index g) c = Some ss" by (simp add: index_ok_def index_wf_def)
    ultimately show "\<exists>c. s \<in> set (look (g_index g) c)" by (intro exI [of _ c]) (simp add: look_def)
  next
    assume "\<exists>c. s \<in> set (look (g_index g) c)"
    then obtain c where c: "s \<in> set (look (g_index g) c)" by blast
    then obtain ss where "map_of (g_index g) c = Some ss" "s \<in> set ss" by (cases "map_of (g_index g) c") (auto simp: look_def)
    then have "(c, ss) \<in> set (g_index g)" "s \<in> set ss" by (simp_all add: map_of_SomeD)
    then show "s \<in> indexed g" unfolding indexed_def by force
  qed
  with ok1 show ?thesis by (auto simp: index_ok_def)
qed

lemma ranges_follow:
  assumes "ranges_ok d g" "follows (indexed g) f g g'"
    and "\<And>st. placed (d_trees d) st \<Longrightarrow> placed (d_trees d') (move_points f st)"
  shows "ranges_ok d' g'" "indexed g' = indexed g"
proof -
  show i: "indexed g' = indexed g" using assms(2) indexed_live by (auto simp: follows_def)
  show "ranges_ok d' g'" using assms by (auto simp: ranges_ok_def i follows_def)
qed

lemma follows_id: "index_ok live g \<Longrightarrow> follows live id g g"
  by (simp add: follows_def)

lemma world_sel [simp]:
  "v_dom (upd_dom f w) = f (v_dom w)" "v_ranges (upd_dom f w) = v_ranges w" "v_fresh (upd_dom f w) = v_fresh w"
  "v_dom (live_ranges r w) = v_dom w" "v_fresh (live_ranges r w) = v_fresh w"
  "v_dom (queue_child_list p a b c e w) = v_dom w" "v_ranges (queue_child_list p a b c e w) = v_ranges w"
  "v_fresh (queue_child_list p a b c e w) = v_fresh w"
  by (simp_all add: upd_dom_def live_ranges_def upd_ranges_def queue_child_list_def)

lemma live_ranges_follow:
  assumes "index_ok live (v_ranges w)" "\<And>g. index_ok live g \<Longrightarrow> follows live f g (r (v_dom w) g)"
  shows "follows live f (v_ranges w) (v_ranges (live_ranges r w))"
proof (cases "g_index (v_ranges w) = []")
  case True
  then have "live = {}" using indexed_live [OF assms(1)] by (simp add: indexed_def)
  with True assms(1) show ?thesis by (simp add: live_ranges_def follows_def)
next
  case False
  with assms show ?thesis by (simp add: live_ranges_def upd_ranges_def)
qed

text \<open>What the functions behind the hooks do keeps the state well-formed.\<close>

definition hooks_keep :: "dom_hooks \<Rightarrow> bool" where
  "hooks_keep h = (\<forall>w p x ids. world_ok w \<longrightarrow> world_ok (h_moved h x w) \<and> world_ok (h_inserted h p ids w) \<and> world_ok (h_removed h p x w) \<and>
     world_ok (h_replaced h p w) \<and> world_ok (h_data h x w))"

section \<open>Removal and insertion\<close>

lemma remove_follows_world:
  assumes "world_ok w" "parent (v_dom w) x = p" "p \<noteq> 0"
  shows "follows (indexed (v_ranges w)) (pt_remove (v_dom w) p x (index_of_node (v_dom w) x)) (v_ranges w)
    (v_ranges (live_ranges (\<lambda>d. ranges_on_remove d p x (index_of_node d x)) w))"
proof (rule live_ranges_follow)
  show "index_ok (indexed (v_ranges w)) (v_ranges w)" using assms(1) by (simp add: world_ok_def ranges_ok_def)
  fix g
  assume "index_ok (indexed (v_ranges w)) g"
  moreover have "dom_ok (v_dom w)" "parent (v_dom w) x \<noteq> 0" using assms by (auto simp: world_ok_def)
  then have "\<not> contains (v_dom w) x (parent (v_dom w) x)" by (rule kid_place) simp
  with assms(2) have "\<not> contains (v_dom w) x p" by simp
  ultimately show "follows (indexed (v_ranges w)) (pt_remove (v_dom w) p x (index_of_node (v_dom w) x)) g
      (ranges_on_remove (v_dom w) p x (index_of_node (v_dom w) x) g)"
    by (rule remove_follows)
qed

theorem remove_core_ok:
  assumes "hooks_keep h" "world_ok w" "parent (v_dom w) x = p" "p \<noteq> 0"
  shows "world_ok (remove_core h p x w)"
proof -
  define w1 where "w1 = live_ranges (\<lambda>d. ranges_on_remove d p x (index_of_node d x)) w"
  define w2 where "w2 = upd_dom (\<lambda>d. keep_document p x (n_remove_child p x d)) w1"
  have d2: "d_trees (v_dom w2) = d_trees (n_remove_child p x (v_dom w))" by (simp add: w2_def w1_def)
  have "dom_ok (v_dom w)" "parent (v_dom w) x \<noteq> 0" using assms by (auto simp: world_ok_def)
  note rk = removal_keeps [OF this, unfolded assms(3)]
  have "ranges_ok (v_dom w2) (v_ranges w1)"
  proof (rule ranges_follow(1))
    show "ranges_ok (v_dom w) (v_ranges w)" using assms(2) by (simp add: world_ok_def)
    show "follows (indexed (v_ranges w)) (pt_remove (v_dom w) p x (index_of_node (v_dom w) x)) (v_ranges w) (v_ranges w1)"
      unfolding w1_def by (rule remove_follows_world [OF assms(2-4)])
  qed (simp add: d2 rk(2))
  moreover have "set (all_ids (v_dom w2)) \<subseteq> set (all_ids (v_dom w))"
    using remove_ids [of p x "v_dom w"] d2 by (simp add: all_ids_def)
  ultimately have "world_ok w2" using assms(2) rk(1) d2 by (auto simp: world_ok_def dom_ok_def w1_def w2_def)
  then have "world_ok (queue_child_list p None (Some [x]) (prev_sibling (v_dom w) x) (next_sibling (v_dom w) x) w2)"
    by (simp add: world_ok_def)
  with assms(1) show ?thesis
    by (simp add: remove_core_def Let_def w1_def [symmetric] w2_def [symmetric] hooks_keep_def)
qed

lemma insert_node_ok:
  assumes "hooks_keep h" "world_ok w" "x \<in> set (all_ids (v_dom w))" "p \<in> set (all_ids (v_dom w))" "\<not> contains (v_dom w) x p"
    "native_kind (v_dom w) x \<noteq> 11" "has_children (native_kind (v_dom w) p)"
  shows "world_ok (insert_node h p x ref w)"
proof -
  define q where "q = parent (v_dom w) x"
  define w1 where "w1 = (if q \<noteq> 0 then live_ranges (\<lambda>d. ranges_on_remove d q x (index_of_node d x)) w else w)"
  define w2 where "w2 = upd_dom (n_insert_before p x ref) w1"
  define w3 where "w3 = live_ranges (\<lambda>d. ranges_on_insert p (index_of_node d x) 1) w2"
  have d: "v_dom w1 = v_dom w" "v_dom w3 = n_insert_before p x ref (v_dom w)" "v_fresh w3 = v_fresh w" "v_dom w2 = n_insert_before p x ref (v_dom w)"
    by (simp_all add: w1_def w2_def w3_def)
  have dok: "dom_ok (v_dom w)" and iok: "index_ok (indexed (v_ranges w)) (v_ranges w)" using assms(2) by (simp_all add: world_ok_def ranges_ok_def)
  note ik = insertion_keeps [OF dok assms(3-7) refl, where ref = ref]
  have f1: "follows (indexed (v_ranges w)) (pt_taken (v_dom w) x) (v_ranges w) (v_ranges w1)"
    using remove_follows_world [OF assms(2) q_def [symmetric]] follows_id [OF iok] by (auto simp: pt_taken_def w1_def q_def)
  have "follows (indexed (v_ranges w)) (pt_grow p (index_of_node (v_dom w2) x) 1) (v_ranges w2) (v_ranges w3)"
    unfolding w3_def using f1 by (intro live_ranges_follow insert_follows) (auto simp: w2_def follows_def)
  with f1 have f2: "follows (indexed (v_ranges w)) (pt_grow p (index_of_node (v_dom w3) x) 1 \<circ> pt_taken (v_dom w) x) (v_ranges w) (v_ranges w3)"
    unfolding d by (intro follows_trans [OF f1]) (simp add: w2_def)
  have "ranges_ok (v_dom w3) (v_ranges w3)"
  proof (rule ranges_follow(1) [OF _ f2])
    show "ranges_ok (v_dom w) (v_ranges w)" using assms(2) by (simp add: world_ok_def)
  qed (unfold d, rule ik(2))
  with ik(1) insert_ids [of p x ref "v_dom w"] assms(2) have "world_ok w3" by (auto simp: world_ok_def d)
  then have q3: "world_ok (queue_child_list p a b c e w3)" "world_ok (queue_child_list p a b c e (queue_child_list p' a' b' c' e' w3))" for p a b c e p' a' b' c' e'
    by (simp_all add: world_ok_def)
  have "\<exists>a b c e. insert_node h p x ref w = h_inserted h p [x] (if q \<noteq> 0
      then h_moved h x (queue_child_list p (Some [x]) None a b (queue_child_list q None (Some [x]) c e w3))
      else queue_child_list p (Some [x]) None a b w3)"
    by (simp add: insert_node_def leave_parent_def Let_def q_def w1_def w2_def w3_def del: world_sel) blast
  with assms(1) q3 show ?thesis by (auto simp: hooks_keep_def)
qed

section \<open>Fragments\<close>

text \<open>A point of the forest in the subtree of a node is a point of that subtree.\<close>

lemma point_below:
  assumes "forest_ok ts" "u \<in> set (subs_list ts)" "t \<in> set ts" "(c, o1) \<in> set (points_tree t)" "c \<in> set (pre_tree u)"
  shows "(c, o1) \<in> set (points_tree u)"
proof -
  obtain t' where t': "t' \<in> set ts" "u \<in> set (subs t')" using sub_tree_of [OF assms(2)] by blast
  have "c \<in> set (pre_tree t)" "c \<in> set (pre_tree t')" using points_containers(1) [OF assms(4)] sub_ids(1) [OF t'(2)] assms(5) by auto
  then have "t = t'" using two_trees [of ts t t' c] assms(1,3) t'(1) by (simp add: forest_ok_def)
  obtain A B where "points_tree t = A @ points_tree u @ B" "\<forall>(c, o1) \<in> set A \<union> set B. c \<notin> set (pre_tree u)"
    using edit_points(1) [of t u] forest_tree [OF assms(1,3)] t'(2) \<open>t = t'\<close> by blast
  with assms(4,5) show ?thesis by auto
qed

lemma gaps_own: "(p, o1) \<in> set (gaps p j ks) \<Longrightarrow> p \<notin> set (pre_trees ks) \<Longrightarrow> j \<le> o1 \<and> o1 \<le> j + length ks"
proof (induction ks arbitrary: j)
  case (Cons k ks)
  then have "(p, o1) = (p, j) \<or> (p, o1) \<in> set (gaps p (Suc j) ks)" by (auto dest: points_containers(1))
  with Cons.IH [of "Suc j"] Cons.prems(2) show ?case by auto
qed simp

lemma placed_points: "placed ts st \<Longrightarrow> \<exists>t \<in> set ts. range_start st \<in> set (points_tree t) \<and> range_end st \<in> set (points_tree t)"
  by (auto simp: placed_def dest: before_in)

fun pt_emptying :: "dom \<Rightarrow> nat \<Rightarrow> nat list \<Rightarrow> point \<Rightarrow> point" where
  "pt_emptying d x [] = id"
| "pt_emptying d x (c # cs) = pt_emptying d x cs \<circ> pt_remove d x c 0"

lemma emptying_follows:
  "index_ok live g \<Longrightarrow> \<forall>c \<in> set cs. \<not> contains d c x \<Longrightarrow> follows live (pt_emptying d x cs) g (fold (\<lambda>c. ranges_on_remove d x c 0) cs g)"
proof (induction cs arbitrary: g)
  case (Cons c cs)
  have r: "follows live (pt_remove d x c 0) g (ranges_on_remove d x c 0 g)" using Cons.prems by (intro remove_follows) auto
  have "follows live (pt_emptying d x cs) (ranges_on_remove d x c 0 g) (fold (\<lambda>c. ranges_on_remove d x c 0) cs (ranges_on_remove d x c 0 g))"
    using Cons.prems follows_index [OF r] by (intro Cons.IH) auto
  from follows_trans [OF r this] show ?case by (simp add: comp_def)
qed (simp add: follows_id)

lemma emptying_point:
  "\<forall>c \<in> set cs. \<not> contains d c x \<Longrightarrow>
    pt_emptying d x cs (c0, o1) = (if \<exists>c \<in> set cs. contains d c c0 then (x, 0) else if c0 = x then (x, o1 - length cs) else (c0, o1))"
  by (induction cs arbitrary: c0 o1) (auto simp: pt_remove_def)

lemma pre_trees_kids: "c \<in> set (pre_trees ks) \<longleftrightarrow> (\<exists>k \<in> set ks. c \<in> set (pre_tree k))"
  by (induction ks) auto

lemma emptied_point:
  assumes "dom_ok d" "T x nx ks \<in> set (subs_of d)" "\<not> leaf_kind (i_nkind nx)" "t \<in> set (d_trees d)" "a \<in> set (points_tree t)"
  shows "pt_emptying d x (map tid ks) a = pt_emptied d x a"
proof -
  obtain c o1 where a: "a = (c, o1)" by (cases a)
  have du: "distinct (pre_tree (T x nx ks))"
    by (rule distinct_sub(1) [of "d_trees d"]) (use assms(1,2) in \<open>simp_all add: dom_ok_def subs_of_def\<close>)
  have cu: "contains d x y \<longleftrightarrow> y = x \<or> y \<in> set (pre_trees ks)" for y using contains_sub [OF assms(1,2)] by auto
  have ck: "contains d (tid k) y \<longleftrightarrow> y \<in> set (pre_tree k)" if "k \<in> set ks" for k y
    using contains_sub [OF assms(1) kid_in_subs_of [OF assms(2)], of k] that by simp
  have "\<forall>k \<in> set (map tid ks). \<not> contains d k x" using ck du tree_ids by fastforce
  from emptying_point [OF this] have e: "pt_emptying d x (map tid ks) (c, o1) =
      (if \<exists>k \<in> set (map tid ks). contains d k c then (x, 0) else if c = x then (x, o1 - length ks) else (c, o1))" by simp
  have "(\<exists>k \<in> set (map tid ks). contains d k c) \<longleftrightarrow> c \<in> set (pre_trees ks)"
    using ck by (simp add: pre_trees_kids)
  moreover have "\<not> char_kind (i_nkind nx)" using assms(3) leaf_kind_char by blast
  then have "o1 \<le> length ks" if "c = x"
    using point_below [of "d_trees d" "T x nx ks" t c o1] gaps_own [of x o1 0 ks] assms a that du
    by (auto simp: dom_ok_def subs_of_def leaf_kind_char)
  ultimately show ?thesis using e a cu by (auto simp: pt_emptied_def)
qed

lemma follows_eq:
  assumes "follows live f g g'" "\<And>s. s \<in> live \<Longrightarrow> f (range_start (g_states g s)) = f' (range_start (g_states g s)) \<and> f (range_end (g_states g s)) = f' (range_end (g_states g s))"
  shows "follows live f' g g'"
  using assms by (auto simp: follows_def move_points_def)

lemma emptied_follows:
  assumes "world_ok w" "x \<in> set (all_ids (v_dom w))" "native_kind (v_dom w) x = 11"
  shows "follows (indexed (v_ranges w)) (pt_emptied (v_dom w) x) (v_ranges w)
    (v_ranges (live_ranges (\<lambda>d. fold (\<lambda>c. ranges_on_remove d x c 0) (child_ids (v_dom w) x)) w))"
proof -
  let ?d = "v_dom w"
  have dok: "dom_ok ?d" and rok: "ranges_ok ?d (v_ranges w)" using assms(1) by (simp_all add: world_ok_def)
  obtain u where u: "node ?d x = Some u" "u \<in> set (subs_of ?d)" "tid u = x" using dom_node_exists [OF dok assms(2)] by blast
  obtain nx ks where ux: "u = T x nx ks" using u(3) by (cases u) auto
  have kids: "child_ids ?d x = map tid ks" using dom_child_ids [OF dok u(2)] ux by simp
  have du: "distinct (pre_tree u)" using distinct_sub(1) dok u(2) by (simp add: dom_ok_def subs_of_def)
  have nc: "\<forall>c \<in> set (child_ids ?d x). \<not> contains ?d c x"
  proof
    fix c
    assume "c \<in> set (child_ids ?d x)"
    then obtain k where k: "k \<in> set ks" "c = tid k" using kids by auto
    then have "contains ?d c x \<longleftrightarrow> x \<in> set (pre_tree k)" using contains_sub [OF dok kid_in_subs_of [OF u(2)], of k] ux by simp
    with du ux tree_ids [OF k(1)] show "\<not> contains ?d c x" by auto
  qed
  have "\<not> leaf_kind (i_nkind nx)" using assms(3) u ux by (simp add: native_kind_def info_def leaf_kind_def has_children_def)
  note ep = emptied_point [OF dok u(2) [unfolded ux] this]
  have "follows (indexed (v_ranges w)) (pt_emptying ?d x (child_ids ?d x)) (v_ranges w)
    (v_ranges (live_ranges (\<lambda>d. fold (\<lambda>c. ranges_on_remove d x c 0) (child_ids ?d x)) w))"
    using rok nc by (intro live_ranges_follow emptying_follows) (auto simp: ranges_ok_def)
  then show ?thesis
  proof (rule follows_eq)
    fix s
    assume "s \<in> indexed (v_ranges w)"
    then have "placed (d_trees ?d) (g_states (v_ranges w) s)" using rok by (simp add: ranges_ok_def)
    from placed_points [OF this] obtain t where "t \<in> set (d_trees ?d)" "range_start (g_states (v_ranges w) s) \<in> set (points_tree t)"
      "range_end (g_states (v_ranges w) s) \<in> set (points_tree t)" by blast
    then show "pt_emptying ?d x (child_ids ?d x) (range_start (g_states (v_ranges w) s)) = pt_emptied ?d x (range_start (g_states (v_ranges w) s)) \<and>
        pt_emptying ?d x (child_ids ?d x) (range_end (g_states (v_ranges w) s)) = pt_emptied ?d x (range_end (g_states (v_ranges w) s))"
      unfolding kids by (simp only: ep)
  qed
qed

lemma insert_fragment_ok:
  assumes "hooks_keep h" "world_ok w" "x \<in> set (all_ids (v_dom w))" "p \<in> set (all_ids (v_dom w))" "\<not> contains (v_dom w) x p"
    "native_kind (v_dom w) x = 11" "has_children (native_kind (v_dom w) p)"
  shows "world_ok (insert_fragment h p x ref w)"
proof (cases "child_ids (v_dom w) x = []")
  case True
  with assms(2) show ?thesis by (simp add: insert_fragment_def)
next
  case False
  define added where "added = child_ids (v_dom w) x"
  define w1 where "w1 = queue_child_list x None (Some added) 0 0 w"
  define w2 where "w2 = live_ranges (\<lambda>d. fold (\<lambda>c. ranges_on_remove d x c 0) added) w1"
  define w3 where "w3 = upd_dom (n_insert_before p x ref) w2"
  define w4 where "w4 = live_ranges (\<lambda>d. ranges_on_insert p (index_of_node d (hd added)) (length added)) w3"
  have d: "v_dom w1 = v_dom w" "v_dom w4 = n_insert_before p x ref (v_dom w)" "v_fresh w4 = v_fresh w" "v_dom w3 = n_insert_before p x ref (v_dom w)"
    "v_ranges w1 = v_ranges w" "v_ranges w3 = v_ranges w2"
    by (simp_all add: w1_def w2_def w3_def w4_def)
  have dok: "dom_ok (v_dom w)" using assms(2) by (simp add: world_ok_def)
  have w1: "world_ok w1" using assms(2) by (simp add: world_ok_def w1_def)
  note fk = fragment_keeps [OF dok assms(3-7) False refl, where ref = ref]
  have f1: "follows (indexed (v_ranges w)) (pt_emptied (v_dom w) x) (v_ranges w) (v_ranges w2)"
    using emptied_follows [OF w1, of x] assms(3,6) by (simp add: d w2_def added_def)
  have "follows (indexed (v_ranges w)) (pt_grow p (index_of_node (v_dom w3) (hd added)) (length added)) (v_ranges w3) (v_ranges w4)"
    unfolding w4_def using f1 by (intro live_ranges_follow insert_follows) (auto simp: d follows_def)
  then have f2: "follows (indexed (v_ranges w)) (pt_grow p (index_of_node (v_dom w4) (hd added)) (length added) \<circ> pt_emptied (v_dom w) x) (v_ranges w) (v_ranges w4)"
    unfolding d by (rule follows_trans [OF f1])
  have "ranges_ok (v_dom w4) (v_ranges w4)"
  proof (rule ranges_follow(1) [OF _ f2])
    show "ranges_ok (v_dom w) (v_ranges w)" using assms(2) by (simp add: world_ok_def)
  qed (unfold d added_def, rule fk(2))
  with fk(1) insert_ids [of p x ref "v_dom w"] assms(2) have "world_ok w4" by (auto simp: world_ok_def d)
  then have q4: "world_ok (queue_child_list p a b c e w4)" for a b c e by (simp add: world_ok_def)
  have "\<exists>a b c e. insert_fragment h p x ref w = h_inserted h p added (queue_child_list p a b c e w4)"
    using False by (simp add: insert_fragment_def leave_fragment_def Let_def added_def w1_def w2_def w3_def w4_def del: world_sel) blast
  with assms(1) q4 show ?thesis by (auto simp: hooks_keep_def)
qed

section \<open>The methods of nodes\<close>

lemma kinds_known:
  assumes "dom_ok d" "x \<in> set (all_ids d)"
  shows "kind_of d x \<noteq> 9 \<Longrightarrow> kind_of d x = 11 \<longleftrightarrow> native_kind d x = 11" "has_children (kind_of d x) \<longleftrightarrow> has_children (native_kind d x)"
proof -
  obtain n where n: "info d x = Some n" "(x, n) \<in> set (infos (d_trees d))" using info_infos [OF assms] by blast
  then obtain ks where "T x n ks \<in> set (subs_list (d_trees d))" by (auto simp: infos_node)
  then have "kinds_agree n" using own_agree assms(1) by (auto simp: dom_ok_def)
  with n(1) show "kind_of d x \<noteq> 9 \<Longrightarrow> kind_of d x = 11 \<longleftrightarrow> native_kind d x = 11" "has_children (kind_of d x) \<longleftrightarrow> has_children (native_kind d x)"
    by (auto simp: kind_of_def native_kind_def kinds_agree_def)
qed

lemma has_first_child:
  assumes "dom_ok d" "contains d x p" "x \<noteq> p"
  shows "first_child d x \<noteq> 0" "has_children (native_kind d x)"
proof -
  have x: "x \<in> set (all_ids d)" using contains_known [OF assms(2)] by simp
  obtain u where u: "node d x = Some u" "u \<in> set (subs_of d)" "tid u = x" using dom_node_exists [OF assms(1) x] by blast
  obtain n ks where un: "u = T x n ks" using u(3) by (cases u) auto
  have "p \<in> set (pre_tree u)" using contains_sub [OF assms(1) u(2)] assms(2) u(3) by simp
  with assms(3) un have ne: "ks \<noteq> []" by auto
  then obtain k ks' where k: "ks = k # ks'" by (cases ks) auto
  have "k \<in> set (subs_of d)" using kid_in_subs_of [OF u(2), of k] un k by simp
  then have "tid k \<noteq> 0" using imageI [of k "set (subs_of d)" tid] dom_ok_ids [OF assms(1)] by (metis all_ids_subs set_map)
  then show "first_child d x \<noteq> 0" using dom_child_ids [OF assms(1) u(2)] un k by (simp add: first_child_def)
  have "leaf_ok u" using u(2) assms(1) by (simp add: dom_ok_def forest_ok_def subs_of_def)
  with un ne u(1) show "has_children (native_kind d x)" by (auto simp: leaf_ok_T leaf_kind_def native_kind_def info_def)
qed

lemma ensure_ok:
  assumes "dom_ok d" "x \<in> set (all_ids d)" "p \<in> set (all_ids d)" "ensure_pre_insert d p x ref = Inr ()"
  shows "\<not> contains d x p" "has_children (native_kind d p)" "kind_of d x \<noteq> 9"
proof -
  show "kind_of d x \<noteq> 9" using assms(4) by (auto simp: ensure_pre_insert_def Let_def hier_def split: if_splits)
  from assms(4) have e: "has_children (kind_of d p)" "x \<noteq> p" "\<not> (kind_of d x \<noteq> 3 \<and> kind_of d x \<noteq> 8 \<and> first_child d x \<noteq> 0 \<and> contains d x p)"
    by (auto simp: ensure_pre_insert_def Let_def hier_def has_children_def split: if_splits)
  show "has_children (native_kind d p)" using e(1) kinds_known(2) [OF assms(1,3)] by simp
  show "\<not> contains d x p"
  proof
    assume c: "contains d x p"
    have "has_children (kind_of d x)" using has_first_child(2) [OF assms(1) c e(2)] kinds_known(2) [OF assms(1,2)] by simp
    then have "kind_of d x \<noteq> 3" "kind_of d x \<noteq> 8" by (auto simp: has_children_def)
    with e(3) c has_first_child(1) [OF assms(1) c e(2)] show False by simp
  qed
qed

lemma insert_core_ok:
  assumes "hooks_keep h" "world_ok w" "x \<in> set (all_ids (v_dom w))" "p \<in> set (all_ids (v_dom w))" "\<not> contains (v_dom w) x p"
    "has_children (native_kind (v_dom w) p)" "kind_of (v_dom w) x \<noteq> 9" "\<not> native_refuses (v_dom w) p x"
  shows "world_ok (fst (insert_core h p x ref w))"
  using insert_node_ok [OF assms(1-5)] insert_fragment_ok [OF assms(1-5)] assms(2,3,6-8) kinds_known(1) [of "v_dom w" x]
  by (auto simp: insert_core_def world_ok_def)

theorem pre_insert_ok:
  assumes "hooks_keep h" "world_ok w" "x \<in> set (all_ids (v_dom w))" "p \<in> set (all_ids (v_dom w))" "\<not> native_refuses (v_dom w) p x"
  shows "world_ok (fst (pre_insert h p x ref w))"
proof (cases "ensure_pre_insert (v_dom w) p x ref")
  case (Inr r)
  have "dom_ok (v_dom w)" using assms(2) by (simp add: world_ok_def)
  note e = ensure_ok [OF this assms(3,4)]
  have "world_ok (fst (insert_core h p x (if ref = x then next_sibling (v_dom w) x else ref) w))"
    using Inr insert_core_ok [OF assms(1-4) _ _ _ assms(5)] e [of ref] by simp
  with Inr show ?thesis by (auto simp: pre_insert_def split: prod.split sum.split)
qed (use assms in \<open>simp add: pre_insert_def\<close>)

theorem remove_child_ok:
  assumes "hooks_keep h" "world_ok w" "p \<noteq> 0"
  shows "world_ok (fst (remove_child h p x w))"
  using remove_core_ok [OF assms(1,2) _ assms(3)] assms(2) by (simp add: remove_child_def)

lemma remove_self_ok: "hooks_keep h \<Longrightarrow> world_ok w \<Longrightarrow> world_ok (remove_self h x w)"
  using remove_core_ok [of h w x] by (simp add: remove_self_def Let_def)

section \<open>Character data and text content\<close>

lemma set_data_ok:
  assumes "hooks_keep h" "world_ok w" "x \<in> set (all_ids (v_dom w))" "char_kind (native_kind (v_dom w) x)"
    "case part of None \<Rightarrow> True | Some (offset, cnt, added) \<Rightarrow> offset + cnt \<le> length (get_text (v_dom w) x) \<and>
      length s = length (get_text (v_dom w) x) - cnt + added"
  shows "world_ok (set_data_core h x s part w)"
proof -
  let ?old = "get_text (v_dom w) x"
  obtain offset cnt added where part: "offset + cnt \<le> length ?old" "length s = length ?old - cnt + added"
    "(case part of None \<Rightarrow> ranges_on_replace_data x 0 (length ?old) (length s)
      | Some (offset, cnt, added) \<Rightarrow> ranges_on_replace_data x offset cnt added) = ranges_on_replace_data x offset cnt added"
  proof (cases part)
    case None
    then show thesis using that [of 0 "length ?old" "length s"] by simp
  qed (use assms(5) that in \<open>auto split: prod.splits\<close>)
  define w1 where "w1 = live_ranges (\<lambda>_. ranges_on_replace_data x offset cnt added) w"
  define w2 where "w2 = upd_dom (n_set_text x s) w1"
  have d: "v_dom w2 = n_set_text x s (v_dom w)" "v_ranges w2 = v_ranges w1" "v_fresh w2 = v_fresh w" by (simp_all add: w2_def w1_def)
  have dok: "dom_ok (v_dom w)" and iok: "index_ok (indexed (v_ranges w)) (v_ranges w)" using assms(2) by (simp_all add: world_ok_def ranges_ok_def)
  note dk = data_keeps [OF dok assms(3,4) part(1,2)]
  have f: "follows (indexed (v_ranges w)) (pt_replace x offset cnt added) (v_ranges w) (v_ranges w2)"
    unfolding d w1_def by (intro live_ranges_follow iok replace_data_follows)
  have "ranges_ok (v_dom w2) (v_ranges w2)"
  proof (rule ranges_follow(1) [OF _ f])
    show "ranges_ok (v_dom w) (v_ranges w)" using assms(2) by (simp add: world_ok_def)
  qed (unfold d, rule dk(2))
  moreover have "set (all_ids (v_dom w2)) \<subseteq> set (all_ids (v_dom w))"
    using pre_data [of x s "d_trees (v_dom w)"] by (simp add: d n_set_text_def edit_def all_ids_def)
  ultimately have "world_ok w2" using assms(2) dk(1) d by (auto simp: world_ok_def)
  then have "world_ok (w2\<lparr>v_mo := b\<rparr>)" for b by (simp add: world_ok_def)
  with assms(1) show ?thesis
    by (simp add: set_data_core_def Let_def part(3) w1_def [symmetric] w2_def [symmetric] hooks_keep_def)
qed

theorem replace_data_ok:
  assumes "hooks_keep h" "world_ok w" "x \<in> set (all_ids (v_dom w))" "char_kind (native_kind (v_dom w) x)"
  shows "world_ok (append_data h x s w)" "world_ok (fst (insert_data h x offset s w))"
    "world_ok (fst (delete_data h x offset cnt w))" "world_ok (fst (replace_data h x offset cnt s w))"
  using assms
  by (auto simp: append_data_def insert_data_def delete_data_def replace_data_def index_size_def Let_def intro!: set_data_ok)

lemma text_forest: "forest_ok ts \<Longrightarrow> \<forall>x \<in> set (pre_trees ts). x < y \<Longrightarrow> y \<noteq> 0 \<Longrightarrow> forest_ok (ts @ [T y (text_info s) []])"
  by (auto simp: forest_ok_def leaf_ok_T kinds_agree_def text_info_def has_children_def)

theorem text_content_keeps:
  assumes "dom_ok d" "p \<in> set (all_ids d)" "has_children (native_kind d p)" "\<forall>x \<in> set (all_ids d). x < y" "y \<noteq> 0"
    and d'_def: "d' = n_set_text_content p y s d"
  shows "dom_ok d'" "set (all_ids d') \<subseteq> insert y (set (all_ids d))"
    "placed (d_trees d) st \<Longrightarrow> placed (d_trees d') (move_points (pt_old d' p (child_ids d p)) st)"
proof -
  let ?us = "if s = [] then [] else [T y (text_info s) []]"
  obtain u where u: "node d p = Some u" "u \<in> set (subs_of d)" "tid u = p" using dom_node_exists [OF assms(1,2)] by blast
  obtain n ks where un: "u = T p n ks" using u(3) by (cases u) auto
  have kids: "child_ids d p = map tid ks" using dom_child_ids [OF assms(1) u(2)] un by simp
  have ts: "forest_ok (d_trees d)" using assms(1) by (simp add: dom_ok_def)
  have in1: "T p n ks \<in> set (subs_list (d_trees d))" using u(2) un by (simp add: subs_of_def)
  have leaf: "\<not> leaf_kind (i_nkind n)" using assms(3) u un by (simp add: native_kind_def info_def leaf_kind_def)
  have us: "forest_ok (d_trees d @ ?us)" using text_forest [OF ts _ assms(5)] assms(4) ts by (simp add: all_ids_def)
  note cf = clear_forest [OF ts in1 leaf us refl]
  have d': "d_trees d' = edit_trees p (set_kids ?us) (d_trees d) @ ks"
    using u(1) un by (simp add: d'_def n_set_text_content_def edit_def Let_def)
  show ok1: "dom_ok d'" using cf(1) by (simp add: dom_ok_def d')
  show "set (all_ids d') \<subseteq> insert y (set (all_ids d))"
    using pre_set [of p ?us "d_trees d"] pre_kids [OF u(1)] un by (auto simp: all_ids_def d' split: if_splits)
  have root: "contains d' (tid k) c \<longleftrightarrow> c \<in> set (pre_tree k)" if "k \<in> set ks" for k c
  proof -
    have "k \<in> set (subs_of d')" using that kid_in_subs [of k "d_trees d'"] subs_self [of k] by (auto simp: subs_of_def d')
    then show ?thesis by (rule contains_sub [OF ok1])
  qed
  have "in_old d' p (child_ids d p) c \<longleftrightarrow> c \<in> set (pre_tree (T p n ks))" for c
    using root by (auto simp: in_old_def kids list_ex_iff pre_trees_kids)
  then have f: "pt_old d' p (child_ids d p) = (\<lambda>(c, o1). if c \<in> set (pre_tree (T p n ks)) then (p, 0) else (c, o1))"
    by (simp add: pt_old_def)
  assume "placed (d_trees d) st"
  from cf(2) [OF this] show "placed (d_trees d') (move_points (pt_old d' p (child_ids d p)) st)" unfolding d' f .
qed

theorem set_text_content_ok:
  assumes "hooks_keep h" "world_ok w" "p \<in> set (all_ids (v_dom w))"
    "char_kind (kind_of (v_dom w) p) \<longrightarrow> char_kind (native_kind (v_dom w) p)"
  shows "world_ok (set_text_content h p s w)"
proof -
  let ?k = "kind_of (v_dom w) p"
  have dok: "dom_ok (v_dom w)" and rok: "ranges_ok (v_dom w) (v_ranges w)" using assms(2) by (simp_all add: world_ok_def)
  have fresh: "\<forall>x \<in> set (all_ids (v_dom w)). x < v_fresh w" using assms(2) by (simp add: world_ok_def)
  then have pos: "v_fresh w \<noteq> 0" using assms(3) by auto
  consider (kids) "?k = 1 \<or> ?k = 11" | (data) "\<not> (?k = 1 \<or> ?k = 11)" "char_kind ?k" | (none) "\<not> (?k = 1 \<or> ?k = 11)" "\<not> char_kind ?k" by blast
  then show ?thesis
  proof cases
    case kids
    define w0 where "w0 = w\<lparr>v_fresh := Suc (v_fresh w)\<rparr>"
    define w1 where "w1 = upd_dom (n_set_text_content p (v_fresh w) s) w0"
    define removed where "removed = child_ids (v_dom w) p"
    define w2 where "w2 = (if g_index (v_ranges w) \<noteq> [] then upd_ranges (ranges_on_replace_all (v_dom w1) p removed) w1 else w1)"
    have d: "v_dom w1 = n_set_text_content p (v_fresh w) s (v_dom w)" "v_ranges w1 = v_ranges w" "v_dom w2 = v_dom w1" "v_fresh w2 = Suc (v_fresh w)"
      by (simp_all add: w1_def w0_def w2_def upd_ranges_def upd_dom_def)
    have w2: "w2 = live_ranges (\<lambda>d. ranges_on_replace_all d p removed) w1" by (simp add: w2_def live_ranges_def d)
    have "has_children ?k" using kids by (auto simp: has_children_def)
    then have hc: "has_children (native_kind (v_dom w) p)" using kinds_known(2) [OF dok assms(3)] by simp
    note tk = text_content_keeps [OF dok assms(3) hc fresh pos d(1)]
    have f: "follows (indexed (v_ranges w)) (pt_old (v_dom w1) p removed) (v_ranges w) (v_ranges w2)"
      using rok unfolding w2 by (subst d(2) [symmetric], intro live_ranges_follow replace_all_follows) (simp add: d ranges_ok_def)
    have "ranges_ok (v_dom w2) (v_ranges w2)"
      by (rule ranges_follow(1) [OF rok f]) (use tk(3) in \<open>simp add: d removed_def\<close>)
    then have "world_ok w2" using tk(1,2) fresh by (fastforce simp: world_ok_def d)
    then have q: "world_ok (queue_child_list p a b c e w2)" for a b c e by (simp add: world_ok_def)
    have "\<exists>a b c e. set_text_content h p s w = h_replaced h p (queue_child_list p a b c e w2) \<or> set_text_content h p s w = h_replaced h p w2"
      using kids by (simp add: set_text_content_def replace_all_core_def Let_def w0_def [symmetric] w1_def [symmetric]) (auto simp: w2_def w0_def removed_def)
    with assms(1) q \<open>world_ok w2\<close> show ?thesis by (auto simp: hooks_keep_def)
  next
    case data
    with assms show ?thesis by (auto simp: set_text_content_def Let_def intro: set_data_ok)
  next
    case none
    with assms(2) show ?thesis by (auto simp: set_text_content_def Let_def)
  qed
qed

end
