(* ===== verification/DomCompare.thy ===== *)
theory DomCompare
  imports DomWorld
begin

text \<open>
  \<open>bpCompare\<close> against the list of boundary points: it tells which of two points of a tree comes first.
\<close>

section \<open>The list of points\<close>

lemma gaps_own_iff: "p \<notin> set (pre_trees ks) \<Longrightarrow> (p, o1) \<in> set (gaps p j ks) \<longleftrightarrow> j \<le> o1 \<and> o1 \<le> j + length ks"
proof (induction ks arbitrary: j)
  case (Cons k ks)
  have "(p, o1) \<notin> set (points_tree k)" using Cons.prems points_containers(1) [of p o1 k] by auto
  moreover have "(p, o1) \<in> set (gaps p (Suc j) ks) \<longleftrightarrow> Suc j \<le> o1 \<and> o1 \<le> Suc j + length ks"
    using Cons.IH [of "Suc j"] Cons.prems by simp
  ultimately have "(p, o1) \<in> set (gaps p j (k # ks)) \<longleftrightarrow> o1 = j \<or> (Suc j \<le> o1 \<and> o1 \<le> Suc j + length ks)" by simp
  then show ?case by (simp, arith)
qed (simp, arith)

lemma before_gaps_own:
  "p \<notin> set (pre_trees ks) \<Longrightarrow> before (gaps p j ks) (p, i) (p, i') \<longleftrightarrow> j \<le> i \<and> i \<le> i' \<and> i' \<le> j + length ks"
proof (induction ks arbitrary: j)
  case (Cons k ks)
  have np: "(p, o1) \<notin> set (points_tree k)" for o1 using Cons.prems points_containers(1) [of p o1 k] by auto
  then have "\<not> before (points_tree k) (p, i) (p, i')" using before_in by fast
  with Cons np show ?case by (auto simp: before_append gaps_own_iff)
qed auto

lemma gaps_middle:
  "gaps p 0 (ks1 @ k # ks2) = pre_gaps p 0 ks1 @ (p, length ks1) # points_tree k @ gaps p (Suc (length ks1)) ks2"
  by (simp add: gaps_append)

lemma before_middle: "distinct xs \<Longrightarrow> xs = A @ U @ B \<Longrightarrow> a \<in> set U \<Longrightarrow> b \<in> set U \<Longrightarrow> before xs a b \<longleftrightarrow> before U a b"
  by (auto simp: before_append dest: before_in)

lemma distinct_points:
  "distinct (pre_tree t) \<Longrightarrow> distinct (points_tree t)"
  "distinct (pre_trees ts) \<Longrightarrow> i \<notin> set (pre_trees ts) \<Longrightarrow> distinct (gaps i j ts)"
proof (induction t and ts arbitrary: and i j rule: subs_subs_list.induct)
  case (1 m n ks)
  then show ?case by (auto simp: distinct_map inj_on_def simp del: upt_Suc)
next
  case (3 t ts)
  have "(i, j) \<notin> set (gaps i (Suc j) ts)" using gaps_own [of i j "Suc j" ts] 3(4) by auto
  moreover have "(i, j) \<notin> set (points_tree t)" using points_containers(1) [of i j t] 3(4) by auto
  moreover have "set (points_tree t) \<inter> set (gaps i (Suc j) ts) = {}"
  proof (rule ccontr)
    assume "\<not> ?thesis"
    then obtain c o1 where c: "(c, o1) \<in> set (points_tree t)" "(c, o1) \<in> set (gaps i (Suc j) ts)" by auto
    with points_containers(1) [OF c(1)] points_containers(2) [OF c(2)] 3(3,4) show False by auto
  qed
  ultimately show ?case using 3 by auto
qed simp

lemma tree_points:
  assumes "dom_ok d" "t \<in> set (d_trees d)"
  shows "distinct (points_tree t)" "distinct (pre_tree t)" "\<forall>v \<in> set (subs t). leaf_ok v"
  using assms forest_tree [of "d_trees d" t] by (auto simp: dom_ok_def intro: distinct_points(1))

lemma sub_of_tree: "t \<in> set (d_trees d) \<Longrightarrow> u \<in> set (subs t) \<Longrightarrow> u \<in> set (subs_of d)"
  using kid_in_subs [of t "d_trees d"] by (auto simp: subs_of_def)

text \<open>Points of a subtree keep their order.\<close>

lemma before_sub:
  assumes "dom_ok d" "t \<in> set (d_trees d)" "u \<in> set (subs t)" "a \<in> set (points_tree u)" "b \<in> set (points_tree u)"
  shows "before (points_tree t) a b \<longleftrightarrow> before (points_tree u) a b"
proof -
  obtain A B where "points_tree t = A @ points_tree u @ B" using edit_points(1) [OF tree_points(2,3) [OF assms(1,2)] assms(3)] by blast
  from before_middle [OF tree_points(1) [OF assms(1,2)] this assms(4,5)] show ?thesis .
qed

lemma tree_of_container:
  assumes "dom_ok d" "t \<in> set (d_trees d)" "u \<in> set (subs_of d)" "tid u \<in> set (pre_tree t)"
  shows "u \<in> set (subs t)"
proof -
  obtain t' where t': "t' \<in> set (d_trees d)" "u \<in> set (subs t')" using sub_tree_of assms(3) by (auto simp: subs_of_def)
  then have "tid u \<in> set (pre_tree t')" by (auto simp: pre_subs)
  then have "t = t'" using two_trees [of "d_trees d" t t' "tid u"] assms t'(1) by (simp add: dom_ok_def forest_ok_def)
  with t'(2) show ?thesis by simp
qed

lemma point_of_sub:
  assumes "dom_ok d" "t \<in> set (d_trees d)" "u \<in> set (subs_of d)" "(c, o1) \<in> set (points_tree t)" "c \<in> set (pre_tree u)"
  shows "(c, o1) \<in> set (points_tree u)"
  using point_below [of "d_trees d" u t c o1] assms by (simp add: dom_ok_def subs_of_def)

section \<open>One container\<close>

lemma same_container:
  assumes "dom_ok d" "t \<in> set (d_trees d)" "(c, i) \<in> set (points_tree t)" "(c, j) \<in> set (points_tree t)"
  shows "before (points_tree t) (c, i) (c, j) \<longleftrightarrow> i \<le> j"
proof -
  have c: "c \<in> set (pre_tree t)" using points_containers(1) [OF assms(3)] .
  then obtain u where u: "u \<in> set (subs t)" "tid u = c" by (auto simp: pre_subs)
  then have us: "u \<in> set (subs_of d)" using sub_of_tree [OF assms(2)] by blast
  obtain n ks where un: "u = T c n ks" using u(2) by (cases u) auto
  have in1: "(c, i) \<in> set (points_tree u)" "(c, j) \<in> set (points_tree u)"
    using point_of_sub [OF assms(1,2) us] assms(3,4) un by auto
  have du: "distinct (pre_tree u)" by (rule distinct_sub(1) [of "d_trees d"]) (use assms(1) us in \<open>simp_all add: dom_ok_def subs_of_def\<close>)
  have "before (points_tree u) (c, i) (c, j) \<longleftrightarrow> i \<le> j"
  proof (cases "char_kind (i_nkind n)")
    case True
    with un have pu: "points_tree u = map (Pair c) [0..<Suc (length (i_text n))]" by (simp del: upt_Suc)
    show ?thesis using in1 unfolding pu before_upt by auto
  next
    case False
    with un have pu: "points_tree u = gaps c 0 ks" by simp
    show ?thesis using in1 du un gaps_own [of c _ 0 ks] unfolding pu by (simp add: before_gaps_own)
  qed
  with before_sub [OF assms(1,2) u(1) in1] show ?thesis by simp
qed

section \<open>One container above the other\<close>

lemma up_chain:
  "a \<in> set (up d n x) \<Longrightarrow> x \<noteq> a \<Longrightarrow>
     last (takeWhile (\<lambda>y. y \<noteq> a) (up d n x)) \<in> set (up d n x) \<and> parent d (last (takeWhile (\<lambda>y. y \<noteq> a) (up d n x))) = a"
proof (induction n arbitrary: x)
  case (Suc n)
  then have x: "x \<noteq> 0" and a: "a \<in> set (up d n (parent d x))" by (auto split: if_splits)
  show ?case
  proof (cases "parent d x = a")
    case True
    then obtain r where "up d n a = a # r" using a by (cases n) (auto split: if_splits)
    with True x Suc.prems(2) show ?thesis by simp
  next
    case False
    have "takeWhile (\<lambda>y. y \<noteq> a) (up d n (parent d x)) \<noteq> []"
      using a False by (cases n) (auto split: if_splits)
    with Suc.IH [OF a False] x Suc.prems(2) show ?thesis by simp
  qed
qed simp

lemma child_towards_kid:
  assumes "dom_ok d" "contains d a b" "a \<noteq> b"
  obtains n ks1 k ks2 where "T a n (ks1 @ k # ks2) \<in> set (subs_of d)" "tid k = child_towards d a b" "b \<in> set (pre_tree k)"
    "index_of_node d (child_towards d a b) = length ks1" "distinct (a # pre_trees (ks1 @ k # ks2))"
proof -
  define y where "y = child_towards d a b"
  have b: "b \<in> set (all_ids d)" "a \<in> set (all_ids d)" using contains_known [OF assms(2)] by auto
  have anc: "set (ancestors_self d b) = {a. contains d a b}" using ancestors_contain(1) [OF assms(1) b(1)] .
  then have "a \<in> set (ancestors_self d b)" using assms(2) by simp
  then have y: "y \<in> set (ancestors_self d b)" "parent d y = a"
    using up_chain [of a d "Suc (length (all_ids d))" b] assms(3) by (auto simp: y_def child_towards_def ancestors_self_def simp del: up.simps)
  have "parent d y \<noteq> 0" using y(2) b(2) dom_ok_ids [OF assms(1)] by metis
  from kid_place [OF assms(1) this] obtain n ks1 k ks2 where k: "T (parent d y) n (ks1 @ k # ks2) \<in> set (subs_of d)" "tid k = y"
    "index_of_node d y = length ks1" "distinct (parent d y # pre_trees (ks1 @ k # ks2))" "\<And>c. contains d y c \<longleftrightarrow> c \<in> set (pre_tree k)"
    by metis
  have "contains d y b" using y(1) anc by auto
  then have "b \<in> set (pre_tree k)" using k(5) by simp
  with that [of n ks1 k ks2] k(1-4) y(2) show thesis by (simp add: y_def)
qed

lemma ancestor_points:
  assumes "dom_ok d" "t \<in> set (d_trees d)" "(a, oa) \<in> set (points_tree t)" "(b, ob) \<in> set (points_tree t)" "contains d a b" "a \<noteq> b"
  shows "before (points_tree t) (a, oa) (b, ob) \<longleftrightarrow> oa \<le> index_of_node d (child_towards d a b)"
    "before (points_tree t) (b, ob) (a, oa) \<longleftrightarrow> index_of_node d (child_towards d a b) < oa"
proof -
  obtain n ks1 k ks2 where k: "T a n (ks1 @ k # ks2) \<in> set (subs_of d)" "b \<in> set (pre_tree k)"
    "index_of_node d (child_towards d a b) = length ks1" "distinct (a # pre_trees (ks1 @ k # ks2))"
    using child_towards_kid [OF assms(1,5,6)] by metis
  let ?u = "T a n (ks1 @ k # ks2)" and ?i = "length ks1"
  have ut: "?u \<in> set (subs t)" using tree_of_container [OF assms(1,2) k(1)] points_containers(1) [OF assms(3)] by simp
  have in1: "(a, oa) \<in> set (points_tree ?u)" "(b, ob) \<in> set (points_tree ?u)"
    using point_of_sub [OF assms(1,2) k(1)] assms(3,4) k(2) by auto
  have "leaf_ok ?u" using tree_points(3) [OF assms(1,2)] ut by blast
  then have pu: "points_tree ?u = pre_gaps a 0 ks1 @ (a, ?i) # points_tree k @ gaps a (Suc ?i) ks2"
    using points_inner [of "ks1 @ k # ks2" a n] by (simp add: gaps_middle)
  have "k \<in> set (subs ?u)" using kid_in_subs [of k "ks1 @ k # ks2"] subs_self [of k] by auto
  then have "k \<in> set (subs_of d)" using sub_of_tree [OF assms(2)] subs_trans(1) [OF ut] by blast
  then have bk: "(b, ob) \<in> set (points_tree k)" using point_of_sub [OF assms(1,2) _ assms(4) k(2)] by simp
  have bn: "(b, ob) \<notin> set (pre_gaps a 0 ks1)" "(b, ob) \<notin> set (gaps a (Suc ?i) ks2)" "(b, ob) \<noteq> (a, ?i)"
    using k(2,4) by (auto dest!: pre_gaps_containers points_containers(2))
  have ak: "(a, oa) \<notin> set (points_tree k)" using points_containers(1) [of a oa k] k(4) by auto
  have a1: "(a, oa) \<in> set (pre_gaps a 0 ks1) \<Longrightarrow> oa < ?i" using pre_gaps_containers [of a oa a 0 ks1] k(4) by auto
  have a2: "(a, oa) \<in> set (gaps a (Suc ?i) ks2) \<Longrightarrow> ?i < oa" using gaps_own [of a oa "Suc ?i" ks2] k(4) by auto
  have mem: "(a, oa) \<in> set (pre_gaps a 0 ks1) \<or> oa = ?i \<or> (a, oa) \<in> set (gaps a (Suc ?i) ks2)"
    using in1(1) ak unfolding pu by auto
  have nb: "\<not> before (pre_gaps a 0 ks1) x y" "\<not> before (gaps a (Suc ?i) ks2) x y" if "x = (b, ob) \<or> y = (b, ob)" for x y
    using that bn before_in by fast+
  have nk: "\<not> before (points_tree k) x y" if "x = (a, oa) \<or> y = (a, oa)" for x y
    using that ak before_in by fast
  have "before (points_tree ?u) (a, oa) (b, ob) \<longleftrightarrow> oa \<le> ?i"
    unfolding pu using mem bk bn ak a1 a2 nb nk by (auto simp: before_append)
  moreover have "before (points_tree ?u) (b, ob) (a, oa) \<longleftrightarrow> ?i < oa"
    unfolding pu using mem bk bn ak a1 a2 nb nk by (auto simp: before_append)
  ultimately show "before (points_tree t) (a, oa) (b, ob) \<longleftrightarrow> oa \<le> index_of_node d (child_towards d a b)"
    "before (points_tree t) (b, ob) (a, oa) \<longleftrightarrow> index_of_node d (child_towards d a b) < oa"
    using before_sub [OF assms(1,2) ut in1] before_sub [OF assms(1,2) ut in1(2,1)] k(3) by simp_all
qed

section \<open>Neither container above the other\<close>

lemma pos_in_append: "pos_in x (xs @ ys) = (if x \<in> set xs then pos_in x xs else length xs + pos_in x ys)"
  by (induction xs) auto

lemma pos_in_bound: "x \<in> set xs \<Longrightarrow> pos_in x xs < length xs"
  by (induction xs) auto

lemma pos_in_inj: "a \<in> set xs \<Longrightarrow> b \<in> set xs \<Longrightarrow> pos_in a xs = pos_in b xs \<Longrightarrow> a = b"
  by (induction xs) (auto split: if_splits)

lemma subs_list_length: "u \<in> set (subs t) \<Longrightarrow> length (subs u) \<le> length (subs t)"
  "u \<in> set (subs_list ts) \<Longrightarrow> length (subs u) \<le> length (subs_list ts)"
  by (induction t and ts rule: subs_subs_list.induct) auto

definition apart :: "tree list \<Rightarrow> nat \<Rightarrow> nat \<Rightarrow> bool" where
  "apart us ca cb = (\<forall>u \<in> set us. \<not> (tid u = ca \<and> cb \<in> set (pre_tree u)) \<and> \<not> (tid u = cb \<and> ca \<in> set (pre_tree u)))"

lemma apart_order:
  "distinct (pre_tree t) \<Longrightarrow> \<forall>v \<in> set (subs t). leaf_ok v \<Longrightarrow> apart (subs t) ca cb \<Longrightarrow>
     (ca, oa) \<in> set (points_tree t) \<Longrightarrow> (cb, ob) \<in> set (points_tree t) \<Longrightarrow>
     before (points_tree t) (ca, oa) (cb, ob) \<longleftrightarrow> pos_in ca (pre_tree t) < pos_in cb (pre_tree t)"
  "distinct (pre_trees ts) \<Longrightarrow> \<forall>v \<in> set (subs_list ts). leaf_ok v \<Longrightarrow> apart (subs_list ts) ca cb \<Longrightarrow> ca \<noteq> i \<Longrightarrow> cb \<noteq> i \<Longrightarrow>
     (ca, oa) \<in> set (gaps i j ts) \<Longrightarrow> (cb, ob) \<in> set (gaps i j ts) \<Longrightarrow>
     before (gaps i j ts) (ca, oa) (cb, ob) \<longleftrightarrow> pos_in ca (pre_trees ts) < pos_in cb (pre_trees ts)"
proof (induction t and ts arbitrary: and i j rule: subs_subs_list.induct)
  case (1 m n ks)
  have c: "ca \<in> set (pre_tree (T m n ks))" "cb \<in> set (pre_tree (T m n ks))"
    using points_containers(1) [OF 1(5)] points_containers(1) [OF 1(6)] by auto
  then have ne: "ca \<noteq> m" "cb \<noteq> m" using 1(4) by (auto simp: apart_def)
  with c(1) have "ks \<noteq> []" by auto
  moreover have "leaf_ok (T m n ks)" using 1(3) by simp
  ultimately have p: "points_tree (T m n ks) = gaps m 0 ks" by (rule points_inner)
  have "before (gaps m 0 ks) (ca, oa) (cb, ob) \<longleftrightarrow> pos_in ca (pre_trees ks) < pos_in cb (pre_trees ks)"
    using 1(2-4) 1(5,6) ne unfolding p by (intro 1(1)) (auto simp: apart_def)
  with ne p show ?case by simp
next
  case (3 t ts)
  have ids: "set (pre_tree t) \<inter> set (pre_trees ts) = {}" using 3(3) by simp
  have pt: "(c, o1) \<in> set (gaps i j (t # ts)) \<Longrightarrow> c \<noteq> i \<Longrightarrow>
      (c \<in> set (pre_tree t) \<and> (c, o1) \<in> set (points_tree t) \<and> (c, o1) \<notin> set (gaps i (Suc j) ts)) \<or>
      (c \<in> set (pre_trees ts) \<and> c \<notin> set (pre_tree t) \<and> (c, o1) \<notin> set (points_tree t) \<and> (c, o1) \<in> set (gaps i (Suc j) ts))" for c o1
    using points_containers(1) [of c o1 t] points_containers(2) [of c o1 i "Suc j" ts] ids by auto
  from pt [OF 3(8,6)] pt [OF 3(9,7)] show ?case
  proof (elim disjE conjE)
    assume h: "ca \<in> set (pre_tree t)" "(ca, oa) \<in> set (points_tree t)" "(ca, oa) \<notin> set (gaps i (Suc j) ts)"
      "cb \<in> set (pre_tree t)" "(cb, ob) \<in> set (points_tree t)" "(cb, ob) \<notin> set (gaps i (Suc j) ts)"
    have "before (points_tree t) (ca, oa) (cb, ob) \<longleftrightarrow> pos_in ca (pre_tree t) < pos_in cb (pre_tree t)"
      using 3(3-5) h by (intro 3(1)) (auto simp: apart_def)
    moreover have "\<not> before (gaps i (Suc j) ts) (ca, oa) (cb, ob)" using h before_in by fast
    ultimately show ?case using h 3(6) by (simp add: before_append pos_in_append)
  next
    assume h: "ca \<in> set (pre_tree t)" "(ca, oa) \<in> set (points_tree t)" "(ca, oa) \<notin> set (gaps i (Suc j) ts)"
      "cb \<in> set (pre_trees ts)" "cb \<notin> set (pre_tree t)" "(cb, ob) \<notin> set (points_tree t)" "(cb, ob) \<in> set (gaps i (Suc j) ts)"
    then show ?case using 3(6) pos_in_bound [OF h(1)] by (simp add: before_append pos_in_append)
  next
    assume h: "ca \<in> set (pre_trees ts)" "ca \<notin> set (pre_tree t)" "(ca, oa) \<notin> set (points_tree t)" "(ca, oa) \<in> set (gaps i (Suc j) ts)"
      "cb \<in> set (pre_tree t)" "(cb, ob) \<in> set (points_tree t)" "(cb, ob) \<notin> set (gaps i (Suc j) ts)"
    moreover have "\<not> before (points_tree t) (ca, oa) (cb, ob)" "\<not> before (gaps i (Suc j) ts) (ca, oa) (cb, ob)" using h before_in by fast+
    ultimately show ?case using 3(6) pos_in_bound [OF h(5)] by (simp add: before_append pos_in_append)
  next
    assume h: "ca \<in> set (pre_trees ts)" "ca \<notin> set (pre_tree t)" "(ca, oa) \<notin> set (points_tree t)" "(ca, oa) \<in> set (gaps i (Suc j) ts)"
      "cb \<in> set (pre_trees ts)" "cb \<notin> set (pre_tree t)" "(cb, ob) \<notin> set (points_tree t)" "(cb, ob) \<in> set (gaps i (Suc j) ts)"
    have "before (gaps i (Suc j) ts) (ca, oa) (cb, ob) \<longleftrightarrow> pos_in ca (pre_trees ts) < pos_in cb (pre_trees ts)"
      using 3(3-7) h by (intro 3(2)) (auto simp: apart_def)
    moreover have "\<not> before (points_tree t) (ca, oa) (cb, ob)" using h before_in by fast
    ultimately show ?case using 3(6) h by (simp add: before_append pos_in_append)
  qed
qed auto

section \<open>Comparing points\<close>

lemma doc_pos_tree:
  assumes "dom_ok d" "t \<in> set (d_trees d)"
  obtains n where "\<And>x. x \<in> set (pre_tree t) \<Longrightarrow> doc_pos d x = n + pos_in x (pre_tree t)"
proof -
  obtain A B where AB: "d_trees d = A @ t # B" using assms(2) by (meson split_list)
  have "doc_pos d x = length (pre_trees A) + pos_in x (pre_tree t)" if "x \<in> set (pre_tree t)" for x
    using that dom_ok_ids [OF assms(1)] by (auto simp: doc_pos_def all_ids_def AB pos_in_append)
  then show thesis by (rule that)
qed

theorem bp_compare_order:
  assumes "dom_ok d" "t \<in> set (d_trees d)" "(a, oa) \<in> set (points_tree t)" "(b, ob) \<in> set (points_tree t)"
  shows "bp_compare d a oa b ob =
    (if (a, oa) = (b, ob) then 0 else if before (points_tree t) (a, oa) (b, ob) then -1 else 1)"
proof (cases "a = b")
  case True
  with same_container [OF assms(1-3)] assms(4) show ?thesis by (auto simp: bp_compare_def)
next
  case False
  have r: "tree_root d a = tree_root d b"
    using tree_root_of [OF assms(1,2)] points_containers(1) [OF assms(3)] points_containers(1) [OF assms(4)] by simp
  consider (above) "contains d a b" | (below) "\<not> contains d a b" "contains d b a" | (apart) "\<not> contains d a b" "\<not> contains d b a" by blast
  then show ?thesis
  proof cases
    case above
    have "\<not> contains d b a"
    proof
      assume c: "contains d b a"
      obtain ua where ua: "ua \<in> set (subs_of d)" "tid ua = a" using contains_known [OF above] by (auto simp: all_ids_subs)
      obtain ub where ub: "ub \<in> set (subs_of d)" "tid ub = b" using contains_known [OF c] by (auto simp: all_ids_subs)
      have "b \<in> set (pre_tree ua)" "a \<in> set (pre_tree ub)"
        using contains_sub [OF assms(1) ua(1)] contains_sub [OF assms(1) ub(1)] above c ua(2) ub(2) by simp_all
      then obtain vb va where v: "vb \<in> set (subs ua)" "tid vb = b" "va \<in> set (subs ub)" "tid va = a" by (auto simp: pre_subs)
      then have "vb \<in> set (subs_of d)" "va \<in> set (subs_of d)" using ua(1) ub(1) subs_trans(2) by (auto simp: subs_of_def)
      then have "vb = ub" "va = ua" using dom_node [OF assms(1)] v ua ub by (metis option.inject)+
      with v False ua(2) ub(2) have "ub \<in> set (subs_list (tkids ua))" "ua \<in> set (subs_list (tkids ub))" by (auto simp: subs_kids)
      then have "length (subs ub) \<le> length (subs_list (tkids ua))" "length (subs ua) \<le> length (subs_list (tkids ub))"
        by (auto simp: subs_list_length)
      then show False by (simp add: subs_kids)
    qed
    then have "position_bits d a b = 20" using above False r by (simp add: position_bits_def)
    with False ancestor_points(1) [OF assms above False] show ?thesis by (auto simp: bp_compare_def bp_forward_def)
  next
    case below
    then have "position_bits d a b = 10" "position_bits d b a = 20" using False r by (simp_all add: position_bits_def)
    with False ancestor_points(2) [OF assms(1,2,4,3) below(2)] show ?thesis by (auto simp: bp_compare_def bp_forward_def)
  next
    case apart
    obtain n where n: "\<And>x. x \<in> set (pre_tree t) \<Longrightarrow> doc_pos d x = n + pos_in x (pre_tree t)" using doc_pos_tree [OF assms(1,2)] by blast
    have c: "a \<in> set (pre_tree t)" "b \<in> set (pre_tree t)" using points_containers(1) assms(3,4) by blast+
    have "apart (subs t) a b"
      using apart contains_sub [OF assms(1) sub_of_tree [OF assms(2)]] by (auto simp: apart_def)
    then have "before (points_tree t) (a, oa) (b, ob) \<longleftrightarrow> doc_pos d a < doc_pos d b"
      using apart_order(1) [OF tree_points(2,3) [OF assms(1,2)] _ assms(3,4)] n [OF c(1)] n [OF c(2)] by simp
    moreover have "doc_pos d a \<noteq> doc_pos d b"
      using n [OF c(1)] n [OF c(2)] c False pos_in_inj [of a "pre_tree t" b] by auto
    moreover have "position_bits d a b = compare_position d a b" "position_bits d b a = compare_position d b a"
      using apart False r by (simp_all add: position_bits_def)
    ultimately show ?thesis using False by (auto simp: bp_compare_def bp_forward_def compare_position_def)
  qed
qed

end
