(* ===== verification/DomRangeApi.thy ===== *)
theory DomRangeApi
  imports DomMutate JsNum
begin

text \<open>
  \<open>Range\<close>, \<open>StaticRange\<close> and \<open>Selection\<close> (\<open>20_dom.js\<close>, lines 4685--4814, 4866--4876, 5021--5112).  A range is the
  number of its state; an offset is the value of \<open>offset >>> 0\<close>.
\<close>

unbundle bit_operations_syntax

section \<open>Range objects\<close>

definition new_range :: "dworld \<Rightarrow> dworld \<times> nat" where
  "new_range w = (let x = d_document (v_dom w) in case new_range_state x 0 x 0 (v_ranges w) of
     (g, s) \<Rightarrow> (w\<lparr>v_ranges := g\<rparr>, s))"

definition range_get :: "dworld \<Rightarrow> nat \<Rightarrow> rstate" where
  "range_get w s = g_states (v_ranges w) s"

definition range_set :: "nat \<Rightarrow> nat \<Rightarrow> nat \<Rightarrow> nat \<Rightarrow> nat \<Rightarrow> dworld \<Rightarrow> dworld" where
  "range_set s sc so ec eo w = upd_ranges (set_range_state s sc so ec eo) w"

definition collapsed :: "rstate \<Rightarrow> bool" where
  "collapsed st = (r_sc st = r_ec st \<and> r_so st = r_eo st)"

definition common_ancestor :: "dworld \<Rightarrow> nat \<Rightarrow> nat" where
  "common_ancestor w s = (let st = range_get w s in
     case find (\<lambda>a. contains (v_dom w) a (r_ec st)) (ancestors_self (v_dom w) (r_sc st)) of None \<Rightarrow> 0 | Some a \<Rightarrow> a)"

abbreviation "invalid_node_type \<equiv> Inl (DomErr ''InvalidNodeTypeError'')"

definition set_boundary :: "nat \<Rightarrow> nat \<Rightarrow> nat \<Rightarrow> bool \<Rightarrow> dworld \<Rightarrow> dworld \<times> unit res" where
  "set_boundary s x off start w =
     (let d = v_dom w; st = range_get w s in
      if kind_of d x = 10 then (w, invalid_node_type)
      else if off > node_length d x then (w, Inl (DomErr ''IndexSizeError''))
      else if start then
        (if tree_root d x \<noteq> tree_root d (r_ec st) \<or> bp_compare d x off (r_ec st) (r_eo st) > 0
         then range_set s x off x off w else range_set s x off (r_ec st) (r_eo st) w, Inr ())
      else
        (if tree_root d x \<noteq> tree_root d (r_sc st) \<or> bp_compare d x off (r_sc st) (r_so st) < 0
         then range_set s x off x off w else range_set s (r_sc st) (r_so st) x off w, Inr ()))"

definition set_start :: "nat \<Rightarrow> nat \<Rightarrow> nat \<Rightarrow> dworld \<Rightarrow> dworld \<times> unit res" where
  "set_start s x off w = set_boundary s x off True w"

definition set_end :: "nat \<Rightarrow> nat \<Rightarrow> nat \<Rightarrow> dworld \<Rightarrow> dworld \<times> unit res" where
  "set_end s x off w = set_boundary s x off False w"

definition parent_of :: "dom \<Rightarrow> nat \<Rightarrow> (nat \<times> nat) res" where
  "parent_of d x = (if parent d x = 0 then invalid_node_type else Inr (parent d x, index_of_node d x))"

text \<open>\<open>setStartBefore\<close>, \<open>setStartAfter\<close>, \<open>setEndBefore\<close>, \<open>setEndAfter\<close>: \<open>by1\<close> is 0 or 1.\<close>

definition set_beside :: "nat \<Rightarrow> nat \<Rightarrow> nat \<Rightarrow> bool \<Rightarrow> dworld \<Rightarrow> dworld \<times> unit res" where
  "set_beside s x by1 start w = (case parent_of (v_dom w) x of
     Inl e \<Rightarrow> (w, Inl e)
   | Inr (p, i) \<Rightarrow> set_boundary s p (i + by1) start w)"

definition collapse_range :: "nat \<Rightarrow> bool \<Rightarrow> dworld \<Rightarrow> dworld" where
  "collapse_range s to_start w = (let st = range_get w s in
     if to_start then range_set s (r_sc st) (r_so st) (r_sc st) (r_so st) w
     else range_set s (r_ec st) (r_eo st) (r_ec st) (r_eo st) w)"

definition select_node :: "nat \<Rightarrow> nat \<Rightarrow> dworld \<Rightarrow> dworld \<times> unit res" where
  "select_node s x w = (case parent_of (v_dom w) x of
     Inl e \<Rightarrow> (w, Inl e)
   | Inr (p, i) \<Rightarrow> (range_set s p i p (i + 1) w, Inr ()))"

definition select_node_contents :: "nat \<Rightarrow> nat \<Rightarrow> dworld \<Rightarrow> dworld \<times> unit res" where
  "select_node_contents s x w =
     (if kind_of (v_dom w) x = 10 then (w, invalid_node_type)
      else (range_set s x 0 x (node_length (v_dom w) x) w, Inr ()))"

definition clone_range :: "nat \<Rightarrow> dworld \<Rightarrow> dworld \<times> nat" where
  "clone_range s w = (case new_range w of (w1, r) \<Rightarrow> let st = range_get w1 s in
     (range_set r (r_sc st) (r_so st) (r_ec st) (r_eo st) w1, r))"

section \<open>Comparisons\<close>

text \<open>The WebIDL conversion of the first argument to an unsigned short.\<close>

definition to_ushort :: "jsnum \<Rightarrow> int" where
  "to_ushort n = (case num_trunc n of Fin q \<Rightarrow> floor q mod 65536 | _ \<Rightarrow> 0)"

definition compare_boundary_points :: "jsnum \<Rightarrow> nat \<Rightarrow> nat \<Rightarrow> dworld \<Rightarrow> int res" where
  "compare_boundary_points how s r w =
     (let d = v_dom w; st = range_get w s; src = range_get w r; h = to_ushort how in
      if h \<notin> {0, 1, 2, 3} then Inl (DomErr ''NotSupportedError'')
      else if tree_root d (r_sc st) \<noteq> tree_root d (r_sc src) then Inl (DomErr ''WrongDocumentError'')
      else Inr (if h = 0 then bp_compare d (r_sc st) (r_so st) (r_sc src) (r_so src)
        else if h = 1 then bp_compare d (r_ec st) (r_eo st) (r_sc src) (r_so src)
        else if h = 2 then bp_compare d (r_ec st) (r_eo st) (r_ec src) (r_eo src)
        else bp_compare d (r_sc st) (r_so st) (r_ec src) (r_eo src)))"

definition compare_point :: "nat \<Rightarrow> nat \<Rightarrow> nat \<Rightarrow> dworld \<Rightarrow> int res" where
  "compare_point s x off w =
     (let d = v_dom w; st = range_get w s in
      if tree_root d x \<noteq> tree_root d (r_sc st) then Inl (DomErr ''WrongDocumentError'')
      else if kind_of d x = 10 then invalid_node_type
      else if off > node_length d x then Inl (DomErr ''IndexSizeError'')
      else if bp_compare d x off (r_sc st) (r_so st) < 0 then Inr (-1)
      else if bp_compare d x off (r_ec st) (r_eo st) > 0 then Inr 1
      else Inr 0)"

definition is_point_in_range :: "nat \<Rightarrow> nat \<Rightarrow> nat \<Rightarrow> dworld \<Rightarrow> bool res" where
  "is_point_in_range s x off w =
     (let d = v_dom w; st = range_get w s in
      if tree_root d x \<noteq> tree_root d (r_sc st) then Inr False
      else if kind_of d x = 10 then invalid_node_type
      else if off > node_length d x then Inl (DomErr ''IndexSizeError'')
      else Inr (bp_compare d x off (r_sc st) (r_so st) \<ge> 0 \<and> bp_compare d x off (r_ec st) (r_eo st) \<le> 0))"

definition intersects_node :: "nat \<Rightarrow> nat \<Rightarrow> dworld \<Rightarrow> bool" where
  "intersects_node s x w =
     (let d = v_dom w; st = range_get w s; p = parent d x; i = index_of_node d x in
      if tree_root d x \<noteq> tree_root d (r_sc st) then False
      else if p = 0 then True
      else bp_compare d p i (r_ec st) (r_eo st) < 0 \<and> bp_compare d p (i + 1) (r_sc st) (r_so st) > 0)"

definition range_contains :: "dom \<Rightarrow> rstate \<Rightarrow> nat \<Rightarrow> bool" where
  "range_contains d st x =
     (if tree_root d x \<noteq> tree_root d (r_sc st) then False
      else bp_compare d x 0 (r_sc st) (r_so st) > 0 \<and> bp_compare d x (node_length d x) (r_ec st) (r_eo st) < 0)"

definition partially_contained :: "dom \<Rightarrow> rstate \<Rightarrow> nat \<Rightarrow> bool" where
  "partially_contained d st x = (contains d x (r_sc st) \<noteq> contains d x (r_ec st))"

section \<open>The text of a range\<close>

definition following_in_root :: "dom \<Rightarrow> nat \<Rightarrow> nat \<Rightarrow> nat" where
  "following_in_root d x rt =
     (if first_child d x \<noteq> 0 then first_child d x
      else case find (\<lambda>n. next_sibling d n \<noteq> 0) (takeWhile (\<lambda>n. n \<noteq> rt) (ancestors_self d x)) of
        None \<Rightarrow> 0 | Some n \<Rightarrow> next_sibling d n)"

definition preceding_in_root :: "dom \<Rightarrow> nat \<Rightarrow> nat \<Rightarrow> nat" where
  "preceding_in_root d x rt =
     (if x = rt then 0
      else if prev_sibling d x \<noteq> 0 then last (subtree_ids d (prev_sibling d x))
      else parent d x)"

text \<open>The loop over the following nodes; it visits each node of the tree at most once, which bounds it.\<close>

fun text_between :: "nat \<Rightarrow> dom \<Rightarrow> nat \<Rightarrow> rstate \<Rightarrow> nat \<Rightarrow> jstr" where
  "text_between 0 d rt st n = []"
| "text_between (Suc fuel) d rt st n =
     (if n = 0 \<or> n = r_ec st then []
      else (if native_kind d n = 3 \<and> range_contains d st n then get_text d n else []) @
        (if bp_compare d n 0 (r_ec st) (r_eo st) \<ge> 0 then [] else text_between fuel d rt st (following_in_root d n rt)))"

definition range_to_string :: "nat \<Rightarrow> dworld \<Rightarrow> jstr" where
  "range_to_string s w =
     (let d = v_dom w; st = range_get w s; sc = r_sc st; so = r_so st; ec = r_ec st; eo = r_eo st in
      if sc = ec \<and> native_kind d sc = 3 then drop so (take eo (get_text d sc))
      else let rt = tree_root d sc in
        (if native_kind d sc = 3 then drop so (get_text d sc) else []) @
        text_between (Suc (length (all_ids d))) d rt st (following_in_root d sc rt) @
        (if native_kind d ec = 3 \<and> ec \<noteq> sc then take eo (get_text d ec) else []))"

section \<open>Deleting contents\<close>

fun collect_contained :: "dom \<Rightarrow> rstate \<Rightarrow> tree \<Rightarrow> nat list"
  and collect_contained_list :: "dom \<Rightarrow> rstate \<Rightarrow> tree list \<Rightarrow> nat list" where
  "collect_contained d st (T i n ks) = collect_contained_list d st ks"
| "collect_contained_list d st [] = []"
| "collect_contained_list d st (k # ks) =
     (if range_contains d st (tid k) then [tid k]
      else if contains d (tid k) (r_sc st) \<or> contains d (tid k) (r_ec st) then collect_contained d st k else []) @
     collect_contained_list d st ks"

text \<open>The loop \<open>while (N.parent(ref) !== 0 && !N.contains(N.parent(ref), ec)) ref = N.parent(ref)\<close>.\<close>

definition highest_before :: "dom \<Rightarrow> nat \<Rightarrow> nat \<Rightarrow> nat" where
  "highest_before d sc ec = last (sc # takeWhile (\<lambda>a. \<not> contains d a ec) (tl (ancestors_self d sc)))"

definition end_point :: "dom \<Rightarrow> rstate \<Rightarrow> nat \<times> nat" where
  "end_point d st = (if contains d (r_sc st) (r_ec st) then (r_sc st, r_so st)
     else let ref = highest_before d (r_sc st) (r_ec st) in (parent d ref, index_of_node d ref + 1))"

definition delete_contents :: "dom_hooks \<Rightarrow> nat \<Rightarrow> dworld \<Rightarrow> dworld" where
  "delete_contents h s w =
     (let d = v_dom w; st = range_get w s; sc = r_sc st; so = r_so st; ec = r_ec st; eo = r_eo st in
      if sc = ec \<and> so = eo then w
      else if sc = ec \<and> is_char_data d sc then
        (let t = get_text d sc in set_data_core h sc (take so t @ drop eo t) (Some (so, eo - so, 0)) w)
      else let
        ca = (case find (\<lambda>a. contains d a ec) (ancestors_self d sc) of None \<Rightarrow> 0 | Some a \<Rightarrow> a);
        remove = (case node d ca of None \<Rightarrow> [] | Some t \<Rightarrow> collect_contained d st t);
        np = end_point d st;
        w1 = (if is_char_data d sc then (let t = get_text d sc in set_data_core h sc (take so t) (Some (so, length t - so, 0)) w) else w);
        w2 = fold (\<lambda>c w. if parent (v_dom w) c \<noteq> 0 then remove_core h (parent (v_dom w) c) c w else w) remove w1;
        w3 = (if is_char_data (v_dom w2) ec \<and> ec \<noteq> sc
          then (let t = get_text (v_dom w2) ec in set_data_core h ec (drop eo t) (Some (0, eo, 0)) w2) else w2)
      in range_set s (fst np) (snd np) (fst np) (snd np) w3)"

section \<open>StaticRange\<close>

definition new_static_range :: "dom \<Rightarrow> nat \<Rightarrow> nat \<Rightarrow> nat \<Rightarrow> nat \<Rightarrow> rstate res" where
  "new_static_range d sc so ec eo =
     (if kind_of d sc \<in> {10, 2} \<or> kind_of d ec \<in> {10, 2} then invalid_node_type
      else Inr \<lparr>r_sc = sc, r_so = so, r_ec = ec, r_eo = eo\<rparr>)"

section \<open>The selection\<close>

text \<open>\<open>e_change\<close> tells that the task that fires \<open>selectionchange\<close> is queued.\<close>

record selection =
  e_range :: "nat option"
  e_backward :: bool
  e_change :: bool

definition select_range :: "nat option \<Rightarrow> bool \<Rightarrow> selection \<Rightarrow> selection" where
  "select_range r back e = e\<lparr>e_range := r, e_backward := back, e_change := True\<rparr>"

definition anchor :: "selection \<Rightarrow> dworld \<Rightarrow> (nat \<times> nat) option" where
  "anchor e w = map_option (\<lambda>r. let st = range_get w r in if e_backward e then (r_ec st, r_eo st) else (r_sc st, r_so st)) (e_range e)"

definition focus :: "selection \<Rightarrow> dworld \<Rightarrow> (nat \<times> nat) option" where
  "focus e w = map_option (\<lambda>r. let st = range_get w r in if e_backward e then (r_sc st, r_so st) else (r_ec st, r_eo st)) (e_range e)"

definition add_range :: "nat \<Rightarrow> selection \<Rightarrow> selection" where
  "add_range r e = (if e_range e \<noteq> None then e else select_range (Some r) False e)"

definition remove_range :: "nat \<Rightarrow> selection \<Rightarrow> selection \<times> unit res" where
  "remove_range r e = (if e_range e \<noteq> Some r then (e, Inl (DomErr ''NotFoundError'')) else (e\<lparr>e_range := None, e_change := True\<rparr>, Inr ()))"

definition remove_all_ranges :: "selection \<Rightarrow> selection" where
  "remove_all_ranges e = (if e_range e \<noteq> None then e\<lparr>e_range := None, e_change := True\<rparr> else e)"

definition selection_collapse :: "nat option \<Rightarrow> nat \<Rightarrow> selection \<Rightarrow> dworld \<Rightarrow> (selection \<times> dworld) \<times> unit res" where
  "selection_collapse x off e w = (case x of
     None \<Rightarrow> ((remove_all_ranges e, w), Inr ())
   | Some n \<Rightarrow> (case new_range w of (w1, r) \<Rightarrow> case set_start r n off w1 of
       (w2, Inl ex) \<Rightarrow> ((e, w2), Inl ex)
     | (w2, Inr _) \<Rightarrow> ((select_range (Some r) False e, collapse_range r True w2), Inr ())))"

text \<open>\<open>collapseToStart\<close> and \<open>collapseToEnd\<close>, which leave the direction as it was.\<close>

definition collapse_to :: "bool \<Rightarrow> selection \<Rightarrow> dworld \<Rightarrow> (selection \<times> dworld) \<times> unit res" where
  "collapse_to to_start e w = (case e_range e of
     None \<Rightarrow> ((e, w), Inl (DomErr ''InvalidStateError''))
   | Some r \<Rightarrow> (case clone_range r w of (w1, r1) \<Rightarrow>
       ((select_range (Some r1) (e_backward e) e, collapse_range r1 to_start w1), Inr ())))"

definition set_base_and_extent :: "nat \<Rightarrow> nat \<Rightarrow> nat \<Rightarrow> nat \<Rightarrow> selection \<Rightarrow> dworld \<Rightarrow> (selection \<times> dworld) \<times> unit res" where
  "set_base_and_extent a ao f fo e w =
     (case new_range w of (w1, r) \<Rightarrow>
       let forward = bp_compare (v_dom w1) a ao f fo \<le> 0;
           (sn, so) = (if forward then (a, ao) else (f, fo)); (en, eo) = (if forward then (f, fo) else (a, ao)) in
       case set_start r sn so w1 of
         (w2, Inl ex) \<Rightarrow> ((e, w2), Inl ex)
       | (w2, Inr _) \<Rightarrow> (case set_end r en eo w2 of
           (w3, Inl ex) \<Rightarrow> ((e, w3), Inl ex)
         | (w3, Inr _) \<Rightarrow> ((select_range (Some r) (\<not> forward) e, w3), Inr ())))"

definition selection_extend :: "nat \<Rightarrow> nat \<Rightarrow> selection \<Rightarrow> dworld \<Rightarrow> (selection \<times> dworld) \<times> unit res" where
  "selection_extend x off e w = (case anchor e w of
     None \<Rightarrow> ((e, w), Inl (DomErr ''InvalidStateError''))
   | Some (a, ao) \<Rightarrow> set_base_and_extent a ao x off e w)"

definition select_all_children :: "nat \<Rightarrow> selection \<Rightarrow> dworld \<Rightarrow> (selection \<times> dworld) \<times> unit res" where
  "select_all_children x e w = (case new_range w of (w1, r) \<Rightarrow> case select_node_contents r x w1 of
     (w2, Inl ex) \<Rightarrow> ((e, w2), Inl ex)
   | (w2, Inr _) \<Rightarrow> ((select_range (Some r) False e, w2), Inr ()))"

definition contains_node :: "nat \<Rightarrow> bool \<Rightarrow> selection \<Rightarrow> dworld \<Rightarrow> bool" where
  "contains_node x partial e w = (case e_range e of
     None \<Rightarrow> False
   | Some r \<Rightarrow> if partial then intersects_node r x w else range_contains (v_dom w) (range_get w r) x)"

end
