(* ===== verification/DomRangeInv.thy ===== *)
theory DomRangeInv
  imports DomCompare DomRangeApi
begin

text \<open>
  The methods of \<open>Range\<close> keep the live ranges valid, and the steps of a page that uses the tree and its
  ranges.
\<close>

section \<open>Points of known nodes\<close>

lemma own_point:
  assumes "dom_ok d" "x \<in> set (all_ids d)" "off \<le> node_length d x"
  obtains t where "t \<in> set (d_trees d)" "(x, off) \<in> set (points_tree t)" "x \<in> set (pre_tree t)"
proof -
  obtain u where u: "node d x = Some u" "u \<in> set (subs_of d)" "tid u = x" using dom_node_exists [OF assms(1,2)] by blast
  obtain n ks where un: "u = T x n ks" using u(3) by (cases u) auto
  have du: "distinct (pre_tree u)" by (rule distinct_sub(1) [of "d_trees d"]) (use assms(1) u in \<open>simp_all add: dom_ok_def subs_of_def\<close>)
  have k: "native_kind d x = i_nkind n" "get_text d x = i_text n" "child_ids d x = map tid ks"
    using u(1) un by (simp_all add: native_kind_def info_def get_text_def child_ids_def)
  have "(x, off) \<in> set (points_tree u)"
  proof (cases "char_kind (i_nkind n)")
    case True
    then have "i_nkind n \<noteq> 10" by (auto simp: char_kind_def)
    with True assms(3) k have "off < Suc (length (i_text n))" by (simp add: node_length_def Let_def)
    with True un show ?thesis by (simp del: upt_Suc)
  next
    case False
    with assms(3) k have "off \<le> length ks" by (auto simp: node_length_def Let_def split: if_splits)
    with False un du show ?thesis using gaps_own_iff [of x ks off 0] by simp
  qed
  moreover obtain t where t: "t \<in> set (d_trees d)" "u \<in> set (subs t)" using sub_tree_of u(2) by (auto simp: subs_of_def)
  moreover obtain A B where "points_tree t = A @ points_tree u @ B"
    using edit_points(1) [OF tree_points(2,3) [OF assms(1) t(1)] t(2)] by blast
  ultimately show thesis using that [of t] points_containers(1) [of x off t] by auto
qed

lemma same_tree:
  assumes "dom_ok d" "t \<in> set (d_trees d)" "t' \<in> set (d_trees d)" "x \<in> set (pre_tree t)" "y \<in> set (pre_tree t')"
    "tree_root d x = tree_root d y"
  shows "t = t'"
proof -
  have "tid t = tid t'" using tree_root_of [OF assms(1,2,4)] tree_root_of [OF assms(1,3,5)] assms(6) by simp
  then show ?thesis using two_trees [of "d_trees d" t t' "tid t"] assms(1-3) tid_in_sub [of t] tid_in_sub [of t']
    by (simp add: dom_ok_def forest_ok_def)
qed

definition state_of :: "point \<Rightarrow> point \<Rightarrow> rstate" where
  "state_of a b = \<lparr>r_sc = fst a, r_so = snd a, r_ec = fst b, r_eo = snd b\<rparr>"

lemma state_of_sel [simp]: "range_start (state_of a b) = a" "range_end (state_of a b) = b"
  by (simp_all add: state_of_def range_start_def range_end_def)

lemma placed_collapsed:
  assumes "dom_ok d" "x \<in> set (all_ids d)" "off \<le> node_length d x"
  shows "placed (d_trees d) (state_of (x, off) (x, off))"
proof (rule own_point [OF assms])
  fix t
  assume "t \<in> set (d_trees d)" "(x, off) \<in> set (points_tree t)"
  then show ?thesis by (auto simp: placed_def intro: before_refl)
qed

lemma placed_in_node:
  assumes "dom_ok d" "x \<in> set (all_ids d)" "i \<le> j" "j \<le> node_length d x"
  shows "placed (d_trees d) (state_of (x, i) (x, j))"
proof (rule own_point [OF assms(1,2,4)])
  fix t
  assume t: "t \<in> set (d_trees d)" "(x, j) \<in> set (points_tree t)"
  obtain t' where t': "t' \<in> set (d_trees d)" "(x, i) \<in> set (points_tree t')" using own_point [OF assms(1,2)] assms(3,4) by (metis le_trans)
  then have "t = t'" using two_trees [of "d_trees d" t t' x] t assms(1) points_containers(1) by (metis dom_ok_def forest_ok_def)
  with t' t same_container [OF assms(1) t(1), of x i j] assms(3) show ?thesis by (auto simp: placed_def)
qed

lemma placed_ends: "placed ts (state_of a b) \<Longrightarrow> placed ts (state_of a a) \<and> placed ts (state_of b b)"
  by (auto simp: placed_def dest!: before_in intro: before_refl)

text \<open>A new boundary point beside an old one of the same tree, on the right side of it.\<close>

lemma placed_compare:
  assumes "dom_ok d" "placed (d_trees d) (state_of b b)" "x \<in> set (all_ids d)" "off \<le> node_length d x" "tree_root d x = tree_root d (fst b)"
  shows "bp_compare d x off (fst b) (snd b) \<le> 0 \<Longrightarrow> placed (d_trees d) (state_of (x, off) b)"
    and "0 \<le> bp_compare d x off (fst b) (snd b) \<Longrightarrow> placed (d_trees d) (state_of b (x, off))"
proof -
  obtain t where t: "t \<in> set (d_trees d)" "(x, off) \<in> set (points_tree t)" "x \<in> set (pre_tree t)" using own_point [OF assms(1,3,4)] by blast
  obtain t' where t': "t' \<in> set (d_trees d)" "b \<in> set (points_tree t')" using assms(2) by (auto simp: placed_def dest: before_in)
  have "fst b \<in> set (pre_tree t')" using points_containers(1) [of "fst b" "snd b" t'] t'(2) by simp
  then have "t = t'" using same_tree [OF assms(1) t(1) t'(1) t(3)] assms(5) by simp
  then have b: "(fst b, snd b) \<in> set (points_tree t)" using t'(2) by simp
  note c = bp_compare_order [OF assms(1) t(1,2) b]
  show "placed (d_trees d) (state_of (x, off) b)" if "bp_compare d x off (fst b) (snd b) \<le> 0"
    using that c t b by (auto simp: placed_def split: if_splits intro: before_refl)
  show "placed (d_trees d) (state_of b (x, off))" if "0 \<le> bp_compare d x off (fst b) (snd b)"
    using that c t b before_total [OF t(2) b] by (auto simp: placed_def split: if_splits intro: before_refl)
qed

section \<open>The methods\<close>

lemma range_set_ok:
  assumes "world_ok w" "s \<in> indexed (v_ranges w)" "placed (d_trees (v_dom w)) (state_of a b)"
  shows "world_ok (range_set s (fst a) (snd a) (fst b) (snd b) w)" "indexed (v_ranges (range_set s (fst a) (snd a) (fst b) (snd b) w)) = indexed (v_ranges w)"
proof -
  let ?g = "set_range_state s (fst a) (snd a) (fst b) (snd b) (v_ranges w)"
  have "index_ok (indexed (v_ranges w)) ?g" using set_range_state_ok assms(1,2) by (simp add: world_ok_def ranges_ok_def)
  moreover from indexed_live [OF this] have i: "indexed ?g = indexed (v_ranges w)" .
  ultimately have "ranges_ok (v_dom w) ?g"
    using assms by (auto simp: world_ok_def ranges_ok_def set_range_state_states set_range_state_next state_of_def)
  with assms(1) show "world_ok (range_set s (fst a) (snd a) (fst b) (snd b) w)" by (simp add: world_ok_def range_set_def upd_ranges_def)
  show "indexed (v_ranges (range_set s (fst a) (snd a) (fst b) (snd b) w)) = indexed (v_ranges w)" using i by (simp add: range_set_def upd_ranges_def)
qed

lemma range_placed:
  assumes "world_ok w" "s \<in> indexed (v_ranges w)"
  shows "placed (d_trees (v_dom w)) (state_of (r_sc (range_get w s), r_so (range_get w s)) (r_ec (range_get w s), r_eo (range_get w s)))"
proof -
  have "state_of (r_sc st, r_so st) (r_ec st, r_eo st) = st" for st by (cases st) (simp add: state_of_def)
  with assms show ?thesis by (simp add: world_ok_def ranges_ok_def range_get_def)
qed

theorem set_boundary_ok:
  assumes "world_ok w" "s \<in> indexed (v_ranges w)" "x \<in> set (all_ids (v_dom w))"
  shows "world_ok (fst (set_boundary s x off start w))" "indexed (v_ranges (fst (set_boundary s x off start w))) = indexed (v_ranges w)"
proof -
  let ?d = "v_dom w" and ?st = "range_get w s"
  have dok: "dom_ok ?d" using assms(1) by (simp add: world_ok_def)
  note pl = placed_ends [OF range_placed [OF assms(1,2)]]
  have "world_ok (fst (set_boundary s x off start w)) \<and> indexed (v_ranges (fst (set_boundary s x off start w))) = indexed (v_ranges w)"
  proof (cases "kind_of ?d x = 10 \<or> off > node_length ?d x")
    case True
    with assms(1) show ?thesis by (auto simp: set_boundary_def Let_def)
  next
    case False
    then have off: "off \<le> node_length ?d x" by simp
    note c = range_set_ok [OF assms(1,2) placed_collapsed [OF dok assms(3) off]]
    show ?thesis
    proof (cases start)
      case True
      show ?thesis
      proof (cases "tree_root ?d x \<noteq> tree_root ?d (r_ec ?st) \<or> bp_compare ?d x off (r_ec ?st) (r_eo ?st) > 0")
        case t: True
        with c True False show ?thesis by (simp add: set_boundary_def Let_def)
      next
        case f: False
        with pl have "placed (d_trees ?d) (state_of (x, off) (r_ec ?st, r_eo ?st))"
          by (intro placed_compare(1) [OF dok _ assms(3) off]) auto
        from range_set_ok [OF assms(1,2) this] f True False show ?thesis by (simp add: set_boundary_def Let_def)
      qed
    next
      case e: False
      show ?thesis
      proof (cases "tree_root ?d x \<noteq> tree_root ?d (r_sc ?st) \<or> bp_compare ?d x off (r_sc ?st) (r_so ?st) < 0")
        case t: True
        with c e False show ?thesis by (simp add: set_boundary_def Let_def)
      next
        case f: False
        with pl have "placed (d_trees ?d) (state_of (r_sc ?st, r_so ?st) (x, off))"
          by (intro placed_compare(2) [OF dok _ assms(3) off]) auto
        from range_set_ok [OF assms(1,2) this] f e False show ?thesis by (simp add: set_boundary_def Let_def)
      qed
    qed
  qed
  then show "world_ok (fst (set_boundary s x off start w))" "indexed (v_ranges (fst (set_boundary s x off start w))) = indexed (v_ranges w)" by simp_all
qed

lemma parent_index:
  assumes "dom_ok d" "parent d x \<noteq> 0"
  shows "parent d x \<in> set (all_ids d)" "index_of_node d x < node_length d (parent d x)"
proof -
  obtain n ks1 k ks2 where k: "T (parent d x) n (ks1 @ k # ks2) \<in> set (subs_of d)" "index_of_node d x = length ks1" using kid_place [OF assms] by metis
  show p: "parent d x \<in> set (all_ids d)" using imageI [OF k(1), of tid] by (simp add: all_ids_subs)
  have "leaf_ok (T (parent d x) n (ks1 @ k # ks2))" using assms(1) k(1) by (simp add: dom_ok_def forest_ok_def subs_of_def)
  then have h: "has_children (i_nkind n)" by (auto simp: leaf_ok_T leaf_kind_def)
  have nd: "node d (parent d x) = Some (T (parent d x) n (ks1 @ k # ks2))" using dom_node [OF assms(1) k(1)] by simp
  then have nk: "native_kind d (parent d x) = i_nkind n" by (simp add: native_kind_def info_def)
  have "child_ids d (parent d x) = map tid (ks1 @ k # ks2)" using nd by (simp add: child_ids_def)
  with nk h k(2) show "index_of_node d x < node_length d (parent d x)"
    by (auto simp: node_length_def Let_def has_children_def char_kind_def)
qed

theorem set_beside_ok:
  assumes "world_ok w" "s \<in> indexed (v_ranges w)"
  shows "world_ok (fst (set_beside s x by1 start w))"
  using set_boundary_ok(1) [OF assms] parent_index(1) [of "v_dom w" x] assms(1)
  by (auto simp: set_beside_def parent_of_def world_ok_def)

theorem collapse_range_ok: "world_ok w \<Longrightarrow> s \<in> indexed (v_ranges w) \<Longrightarrow> world_ok (collapse_range s b w)"
  using range_set_ok(1) [of w s] placed_ends [OF range_placed] by (fastforce simp: collapse_range_def Let_def)

theorem select_node_ok:
  assumes "world_ok w" "s \<in> indexed (v_ranges w)"
  shows "world_ok (fst (select_node s x w))"
proof (cases "parent (v_dom w) x = 0")
  case False
  have dok: "dom_ok (v_dom w)" using assms(1) by (simp add: world_ok_def)
  let ?p = "parent (v_dom w) x" and ?i = "index_of_node (v_dom w) x"
  have "placed (d_trees (v_dom w)) (state_of (?p, ?i) (?p, ?i + 1))"
    using parent_index [OF dok False] by (intro placed_in_node [OF dok]) auto
  from range_set_ok(1) [OF assms this] False show ?thesis by (simp add: select_node_def parent_of_def)
qed (use assms in \<open>simp add: select_node_def parent_of_def\<close>)

theorem select_contents_ok:
  assumes "world_ok w" "s \<in> indexed (v_ranges w)" "x \<in> set (all_ids (v_dom w))"
  shows "world_ok (fst (select_node_contents s x w))"
proof -
  have dok: "dom_ok (v_dom w)" using assms(1) by (simp add: world_ok_def)
  have "placed (d_trees (v_dom w)) (state_of (x, 0) (x, node_length (v_dom w) x))" by (rule placed_in_node [OF dok assms(3)]) auto
  from range_set_ok(1) [OF assms(1,2) this] assms(1) show ?thesis by (simp add: select_node_contents_def)
qed

lemma new_range_ok:
  assumes "world_ok w" "d_document (v_dom w) \<in> set (all_ids (v_dom w))"
  shows "world_ok (fst (new_range w))" "snd (new_range w) \<in> indexed (v_ranges (fst (new_range w)))" "v_dom (fst (new_range w)) = v_dom w"
    "indexed (v_ranges w) \<subseteq> indexed (v_ranges (fst (new_range w)))"
    "s \<in> indexed (v_ranges w) \<Longrightarrow> range_get (fst (new_range w)) s = range_get w s"
proof -
  let ?x = "d_document (v_dom w)" and ?g = "v_ranges w" and ?s = "g_next (v_ranges w)"
  let ?g' = "fst (new_range_state ?x 0 ?x 0 ?g)"
  have g': "g_index ?g' = range_index_add ?x ?s (g_index ?g)" "g_next ?g' = Suc ?s" "snd (new_range_state ?x 0 ?x 0 ?g) = ?s"
    "g_states ?g' = (g_states ?g)(?s := state_of (?x, 0) (?x, 0))"
    by (simp_all add: new_range_state_def Let_def upd_index_def state_of_def)
  have rok: "ranges_ok (v_dom w) ?g" and dok: "dom_ok (v_dom w)" using assms(1) by (simp_all add: world_ok_def)
  have fresh: "?s \<notin> indexed ?g" using rok by (auto simp: ranges_ok_def)
  have iok: "index_ok (insert ?s (indexed ?g)) ?g'"
    using rok fresh by (auto simp: index_ok_def ranges_ok_def g' index_add_wf look_index_add state_of_def)
  then have i: "indexed ?g' = insert ?s (indexed ?g)" by (rule indexed_live)
  have "placed (d_trees (v_dom w)) (state_of (?x, 0) (?x, 0))" by (rule placed_collapsed [OF dok assms(2)]) simp
  with rok fresh iok have "ranges_ok (v_dom w) ?g'" by (auto simp: ranges_ok_def i g')
  moreover have n: "new_range w = (w\<lparr>v_ranges := ?g'\<rparr>, ?s)" by (simp add: new_range_def Let_def g'(3) split: prod.split) (metis fst_conv g'(3) snd_conv)
  ultimately show "world_ok (fst (new_range w))" using assms(1) by (simp add: world_ok_def)
  show "snd (new_range w) \<in> indexed (v_ranges (fst (new_range w)))" "v_dom (fst (new_range w)) = v_dom w"
    "indexed (v_ranges w) \<subseteq> indexed (v_ranges (fst (new_range w)))"
    "s \<in> indexed (v_ranges w) \<Longrightarrow> range_get (fst (new_range w)) s = range_get w s"
    using n i fresh by (auto simp: range_get_def g')
qed

lemma reap_ok:
  assumes "world_ok w" "s \<in> indexed (v_ranges w)"
  shows "world_ok (upd_ranges (reap s) w)"
proof -
  let ?g = "v_ranges w" and ?g' = "reap s (v_ranges w)"
  have rok: "ranges_ok (v_dom w) ?g" using assms(1) by (simp add: world_ok_def)
  then have iok: "index_ok (indexed ?g) ?g" by (simp add: ranges_ok_def)
  then have wf: "index_wf (g_index ?g)" by (simp add: index_ok_def)
  have st: "g_states ?g' = g_states ?g" "g_next ?g' = g_next ?g" by (simp_all add: reap_def Let_def)
  have "index_ok (indexed ?g - {s}) ?g'"
    using iok wf index_remove_wf by (auto simp: index_ok_def st) (auto simp: reap_def Let_def look_index_remove index_remove_wf split: if_splits)
  moreover from indexed_live [OF this] have "indexed ?g' = indexed ?g - {s}" .
  ultimately have "ranges_ok (v_dom w) ?g'" using rok st by (auto simp: ranges_ok_def)
  with assms(1) show ?thesis by (simp add: world_ok_def upd_ranges_def)
qed

end
