(* ===== verification/DomSplit.thy ===== *)
theory DomSplit
  imports DomRangeInv
begin

text \<open>
  \<open>splitText\<close> and the merging of \<open>normalize\<close>: here a single update of the ranges does not keep them placed, the
  whole method does.  The hooks must leave the tree alone while the method runs.
\<close>

definition hooks_quiet :: "dom_hooks \<Rightarrow> bool" where
  "hooks_quiet h = (\<forall>w p x ids. \<forall>w' \<in> {h_moved h x w, h_inserted h p ids w, h_removed h p x w, h_replaced h p w, h_data h x w}.
     v_dom w' = v_dom w \<and> v_ranges w' = v_ranges w \<and> v_fresh w' = v_fresh w)"

lemma quiet_sel:
  assumes "hooks_quiet h"
  shows "v_dom (h_moved h x w) = v_dom w" "v_ranges (h_moved h x w) = v_ranges w" "v_fresh (h_moved h x w) = v_fresh w"
    "v_dom (h_inserted h p ids w) = v_dom w" "v_ranges (h_inserted h p ids w) = v_ranges w" "v_fresh (h_inserted h p ids w) = v_fresh w"
    "v_dom (h_removed h p x w) = v_dom w" "v_ranges (h_removed h p x w) = v_ranges w" "v_fresh (h_removed h p x w) = v_fresh w"
    "v_dom (h_replaced h p w) = v_dom w" "v_ranges (h_replaced h p w) = v_ranges w" "v_fresh (h_replaced h p w) = v_fresh w"
    "v_dom (h_data h x w) = v_dom w" "v_ranges (h_data h x w) = v_ranges w" "v_fresh (h_data h x w) = v_fresh w"
  using assms by (auto simp: hooks_quiet_def)

lemma quiet_keep: "hooks_quiet h \<Longrightarrow> hooks_keep h"
  by (auto simp: hooks_keep_def world_ok_def quiet_sel)

section \<open>Edits inside edits\<close>

lemma edit_within:
  "distinct (pre_tree t) \<Longrightarrow> u \<in> set (subs t) \<Longrightarrow> x \<in> set (pre_tree u) \<Longrightarrow> edit_tree x f t = edit_tree (tid u) (edit_tree x f) t"
  "distinct (pre_trees ts) \<Longrightarrow> u \<in> set (subs_list ts) \<Longrightarrow> x \<in> set (pre_tree u) \<Longrightarrow> edit_trees x f ts = edit_trees (tid u) (edit_tree x f) ts"
proof (induction t and ts rule: subs_subs_list.induct)
  case (1 i n ks)
  show ?case
  proof (cases "u = T i n ks")
    case False
    then have u: "u \<in> set (subs_list ks)" using 1(3) by auto
    then have "x \<in> set (pre_trees ks)" "tid u \<in> set (pre_trees ks)" using sub_ids(2) [OF u] 1(4) tid_in_sub [of u] by auto
    then have "i \<noteq> x" "i \<noteq> tid u" using 1(2) by auto
    with 1 u show ?thesis by simp
  qed simp
next
  case (3 t ts)
  show ?case
  proof (cases "u \<in> set (subs t)")
    case True
    then have "x \<notin> set (pre_trees ts)" "tid u \<notin> set (pre_trees ts)" using sub_ids(1) [OF True] 3(3,5) tid_in_sub [of u] by auto
    with 3 True show ?thesis by (simp add: edit_absent)
  next
    case False
    then have u: "u \<in> set (subs_list ts)" using 3(4) by auto
    then have "x \<notin> set (pre_tree t)" "tid u \<notin> set (pre_tree t)" using sub_ids(2) [OF u] 3(3,5) tid_in_sub [of u] by auto
    with 3 u show ?thesis by (simp add: edit_absent)
  qed
qed auto

lemma edit_twice:
  assumes "\<And>u. tid u = p \<Longrightarrow> tid (g u) = p"
  shows "edit_tree p f (edit_tree p g t) = edit_tree p (f \<circ> g) t" "edit_trees p f (edit_trees p g ts) = edit_trees p (f \<circ> g) ts"
proof (induction t and ts rule: subs_subs_list.induct)
  case (1 i n ks)
  show ?case
  proof (cases "i = p")
    case True
    obtain i' n' ks' where g: "g (T i n ks) = T i' n' ks'" by (cases "g (T i n ks)") auto
    with assms [of "T i n ks"] True have "i' = p" by simp
    with True g show ?thesis by simp
  qed (use 1 in simp)
qed auto

lemma edit_kids:
  assumes "distinct (pre_trees (ks1 @ k # ks2))"
  shows "edit_trees (tid k) f (ks1 @ k # ks2) = ks1 @ f k # ks2"
proof -
  have a: "edit_trees x f (as @ bs) = edit_trees x f as @ edit_trees x f bs" for x as bs by (induction as) auto
  have "tid k \<notin> set (pre_trees ks1)" "tid k \<notin> set (pre_trees ks2)" using assms tid_in_sub [of k] by auto
  moreover have "edit_tree (tid k) f k = f k" by (cases k) simp
  ultimately show ?thesis by (simp add: a edit_absent)
qed

section \<open>The place of the new text\<close>

lemma after_middle: "distinct (as @ x # bs) \<Longrightarrow> after x (as @ x # bs) = (case bs of [] \<Rightarrow> 0 | b # _ \<Rightarrow> b)"
proof (induction as)
  case Nil
  then show ?case by (cases bs) auto
next
  case (Cons a as)
  then show ?case by (cases as) auto
qed

lemma put_after:
  assumes "distinct (pre_trees (ks1 @ k # ks2))" "0 \<notin> set (pre_trees (ks1 @ k # ks2))"
    and nx: "nx = (case ks2 of [] \<Rightarrow> 0 | b # _ \<Rightarrow> tid b)"
  shows "put_kids nx us (T p n (ks1 @ k # ks2)) = T p n (ks1 @ k # us @ ks2)"
proof (cases ks2)
  case Nil
  have "\<forall>y \<in> set (ks1 @ [k]). tid y \<noteq> 0"
  proof
    fix y
    assume "y \<in> set (ks1 @ [k])"
    then have "tid y \<in> set (pre_trees (ks1 @ k # ks2))" using Nil pre_trees_kids tid_in_sub by fast
    with assms(2) show "tid y \<noteq> 0" by metis
  qed
  then have "takeWhile (\<lambda>y. tid y \<noteq> 0) (ks1 @ [k]) = ks1 @ [k]" "dropWhile (\<lambda>y. tid y \<noteq> 0) (ks1 @ [k]) = []" by auto
  with Nil nx show ?thesis by simp
next
  case (Cons b bs)
  have "distinct (map tid ((ks1 @ [k]) @ b # bs))" using distinct_kid_ids [OF assms(1)] Cons by simp
  from split_at_kid(1,2) [OF this] Cons nx show ?thesis by simp
qed

lemma find_append: "find_trees x (ts @ us) = (case find_trees x ts of Some u \<Rightarrow> Some u | None \<Rightarrow> find_trees x us)"
  by (induction ts) (auto split: option.split)

section \<open>Splitting\<close>

lemma split_forest:
  assumes "forest_ok ts" "T p n (ks1 @ T x m [] # ks2) \<in> set (subs_list ts)" "char_kind (i_nkind m)"
    "off \<le> length (i_text m)" "y \<notin> set (pre_trees ts)"
    and g: "g (T p n (ks1 @ T x m [] # ks2)) = T p n (ks1 @ T x (m\<lparr>i_text := take off (i_text m)\<rparr>) [] # T y (text_info (drop off (i_text m))) [] # ks2)"
    and f: "f = (\<lambda>(c, o1). if c = x \<and> o1 > off then (y, o1 - off) else if c = p \<and> o1 > length ks1 then (c, Suc o1) else (c, o1))"
    and pl: "placed ts st"
  shows "placed (edit_trees p g ts) (move_points f st)"
proof -
  let ?u = "T p n (ks1 @ T x m [] # ks2)"
  have leaf: "leaf_ok ?u" using sub_leaf_ok [OF assms(1,2)] subs_self by blast
  have du: "distinct (p # pre_trees (ks1 @ T x m [] # ks2))" using distinct_sub(1) [OF assms(1,2)] by simp
  have nc: "\<not> char_kind (i_nkind n)" using leaf by (auto simp: leaf_ok_T leaf_kind_char)
  have l: "length (take off (i_text m)) = off" using assms(4) by simp
  have ti: "char_kind (i_nkind (text_info s))" "i_text (text_info s) = s" for s by (simp_all add: text_info_def char_kind_def)
  have "placed (edit_trees (tid ?u) g ts) (move_points f st)"
  proof (rule edit_placed [OF assms(1,2) _ _ pl])
    show "carries f (points_tree ?u) (points_tree (g ?u))"
      using split_carries [OF du assms(4) f] nc assms(3) ti l unfolding g by (simp add: gaps_append del: upt_Suc length_take)
    show "f (c, o1) = (c, o1)" if "c \<notin> set (pre_tree ?u)" for c o1 using that f by simp
  qed
  then show ?thesis by simp
qed

text \<open>The trees after the insertion of the new text and the cut of the old one, as one edit of the parent.\<close>

lemma tid_in_kids: "k \<in> set ks \<Longrightarrow> tid k \<in> set (pre_trees ks)"
  using tree_ids tid_in_sub by blast

lemma tid_put_kids: "tid (put_kids r us u) = tid u"
  by (cases u) simp

lemma split_trees:
  assumes "dom_ok d" "T p n (ks1 @ T x m [] # ks2) \<in> set (subs_of d)" "\<forall>z \<in> set (all_ids d). z < y"
    "d1 = n_create (T y (text_info back) []) d" "nx = next_sibling d1 x"
  shows "d_trees (n_set_text x front (n_insert_before p y nx d1)) =
      edit_trees p (edit_tree x (set_data front) \<circ> put_kids nx [T y (text_info back) []]) (d_trees d)"
    "(edit_tree x (set_data front) \<circ> put_kids nx [T y (text_info back) []]) (T p n (ks1 @ T x m [] # ks2)) =
      T p n (ks1 @ T x (m\<lparr>i_text := front\<rparr>) [] # T y (text_info back) [] # ks2)"
    "dom_ok d1" "parent d1 x = p" "index_of_node d1 x = length ks1" "parent d1 y = 0" "index_of_node (n_insert_before p y nx d1) y = Suc (length ks1)"
    "dom_ok (n_insert_before p y nx d1)" "T x m [] \<in> set (subs_of (n_insert_before p y nx d1))"
proof -
  let ?Y = "T y (text_info back) []" and ?u = "T p n (ks1 @ T x m [] # ks2)" and ?g = "put_kids nx [T y (text_info back) []]"
  have ts: "forest_ok (d_trees d)" using assms(1) by (simp add: dom_ok_def)
  have u: "?u \<in> set (subs_list (d_trees d))" using assms(2) by (simp add: subs_of_def)
  have du: "distinct (pre_tree ?u)" by (rule distinct_sub(1) [OF ts u])
  have ids: "set (pre_tree ?u) \<subseteq> set (all_ids d)" using sub_ids(2) [OF u] by (simp add: all_ids_def)
  have z: "0 \<notin> set (all_ids d)" "y \<notin> set (all_ids d)" using dom_ok_ids [OF assms(1)] assms(3) by auto
  have "x \<in> set (all_ids d)" using ids by auto
  then have y0: "y \<noteq> 0" using assms(3) by auto
  have d1: "d_trees d1 = d_trees d @ [?Y]" by (simp add: assms(4) n_create_def)
  show ok1: "dom_ok d1" using text_forest [OF ts _ y0] assms(3) by (simp add: dom_ok_def d1 all_ids_def)
  have u1: "?u \<in> set (subs_of d1)" using u by (simp add: subs_of_def d1)
  show px: "parent d1 x = p" using parent_kid [OF ok1 u1, of "T x m []"] by simp
  have "p \<in> set (all_ids d)" using ids by auto
  then have p0: "p \<noteq> 0" using z(1) by metis
  have ch: "child_ids d1 p = map tid (ks1 @ T x m [] # ks2)" using dom_child_ids [OF ok1 u1] by simp
  have dk: "distinct (map tid (ks1 @ T x m [] # ks2))" using du by (intro distinct_kid_ids) simp
  have sp: "takeWhile (\<lambda>k. tid k \<noteq> x) (ks1 @ T x m [] # ks2) = ks1" using split_at_kid(1) [of ks1 "T x m []" ks2] dk by simp
  have "pos_in x (map tid (ks1 @ T x m [] # ks2)) = length ks1" unfolding pos_in_map sp ..
  then show "index_of_node d1 x = length ks1" using px p0 ch by (simp add: index_of_node_def)
  have "nx = after x (map tid ks1 @ x # map tid ks2)" using assms(5) px p0 ch by (simp add: next_sibling_def siblings_def)
  also have "\<dots> = (case ks2 of [] \<Rightarrow> 0 | b # _ \<Rightarrow> tid b)"
    using after_middle [of "map tid ks1" x "map tid ks2"] dk by (simp split: list.split)
  finally have nx: "nx = (case ks2 of [] \<Rightarrow> 0 | b # _ \<Rightarrow> tid b)" .
  have "0 \<notin> set (pre_trees (ks1 @ T x m [] # ks2))" using ids z(1) by (metis insert_iff list.simps(15) pre_tree.simps subsetD)
  then have g: "?g ?u = T p n (ks1 @ T x m [] # ?Y # ks2)"
    using put_after [OF _ _ nx, of ks1 "T x m []" "[?Y]" p n] du by simp
  have "distinct (pre_trees (ks1 @ T x m [] # ?Y # ks2))" "x \<noteq> p" using du z(2) ids by auto
  then show g2: "(edit_tree x (set_data front) \<circ> ?g) ?u = T p n (ks1 @ T x (m\<lparr>i_text := front\<rparr>) [] # ?Y # ks2)"
    using edit_kids [of ks1 "T x m []" "?Y # ks2" "set_data front"] g by simp
  have ny: "node d1 y = Some ?Y" using dom_node [OF ok1, of ?Y] by (simp add: subs_of_def d1)
  have yr: "?Y \<in> set (d_trees d1)" by (simp add: d1)
  show py: "parent d1 y = 0" using parent_root [OF ok1 yr] by simp
  have "\<forall>t \<in> set (d_trees d). tid t \<noteq> y" using tree_ids tid_in_sub z(2) by (fastforce simp: all_ids_def)
  then have dt: "d_trees (detach y d1) = d_trees d" using py by (simp add: detach_def d1)
  have "native_kind d1 y = 3" using ny by (simp add: native_kind_def info_def text_info_def)
  then have d2: "d_trees (n_insert_before p y nx d1) = edit_trees p ?g (d_trees d)"
    using ny dt by (simp add: n_insert_before_def edit_def)
  have "leaf_ok ?u" using sub_leaf_ok [OF ts u] subs_self by blast
  then have leaf: "\<not> leaf_kind (i_nkind n)" by (simp add: leaf_ok_T)
  have pn: "(p, n) \<in> set (infos (d_trees d))" using u infos_node by blast
  have fo: "forest_ok (d_trees d @ [?Y])" using ok1 by (simp add: dom_ok_def d1)
  note ia = insert_at [OF fo pn leaf _ d2]
  show ok2: "dom_ok (n_insert_before p y nx d1)" using ia(1) by simp
  have u2: "T p n (ks1 @ T x m [] # ?Y # ks2) \<in> set (subs_list (edit_trees p ?g (d_trees d)))"
    using edit_sub(2) [of "d_trees d" ?u ?g] ts u unfolding g by (simp add: forest_ok_def)
  then have u2': "T p n (ks1 @ T x m [] # ?Y # ks2) \<in> set (subs_of (n_insert_before p y nx d1))" by (simp add: subs_of_def d2)
  show "T x m [] \<in> set (subs_of (n_insert_before p y nx d1))" using kid_in_subs_of [OF u2', of "T x m []"] by simp
  show "index_of_node (n_insert_before p y nx d1) y = Suc (length ks1)"
  proof -
    have yk: "y \<notin> set (map tid (ks1 @ T x m [] # ks2))" using z(2) ids tid_in_kids by fastforce
    have "parent (n_insert_before p y nx d1) y = p" using parent_kid [OF ok2 u2', of ?Y] by simp
    moreover have "child_ids (n_insert_before p y nx d1) p = map tid ((ks1 @ [T x m []]) @ ?Y # ks2)" using dom_child_ids [OF ok2 u2'] by simp
    moreover have "distinct (map tid ((ks1 @ [T x m []]) @ ?Y # ks2))"
      using dk yk by simp
    then have "pos_in y (map tid ((ks1 @ [T x m []]) @ ?Y # ks2)) = Suc (length ks1)"
      unfolding pos_in_map using split_at_kid(1) [of "ks1 @ [T x m []]" ?Y ks2] by simp
    ultimately show ?thesis using p0 by (simp add: index_of_node_def)
  qed
  have "edit_trees x (set_data front) (edit_trees p ?g (d_trees d)) = edit_trees p (edit_tree x (set_data front)) (edit_trees p ?g (d_trees d))"
    using edit_within(2) [OF _ u2, of x "set_data front"] ok2 by (simp add: dom_ok_def forest_ok_def d2)
  also have "\<dots> = edit_trees p (edit_tree x (set_data front) \<circ> ?g) (d_trees d)"
    by (rule edit_twice(2)) (simp add: tid_put_kids)
  finally show "d_trees (n_set_text x front (n_insert_before p y nx d1)) = edit_trees p (edit_tree x (set_data front) \<circ> ?g) (d_trees d)"
    by (simp add: n_set_text_def edit_def d2)
qed

lemma insert_node_quiet:
  assumes "hooks_quiet h" "parent (v_dom w) y = 0"
  shows "v_dom (insert_node h p y ref w) = n_insert_before p y ref (v_dom w)" "v_fresh (insert_node h p y ref w) = v_fresh w"
    "v_ranges (insert_node h p y ref w) =
      v_ranges (live_ranges (\<lambda>d. ranges_on_insert p (index_of_node d y) 1) (upd_dom (n_insert_before p y ref) w))"
  using assms(2) by (simp_all add: insert_node_def leave_parent_def Let_def quiet_sel [OF assms(1)])

lemma set_data_quiet:
  assumes "hooks_quiet h"
  shows "v_dom (set_data_core h x s (Some (off, cnt, add)) w) = n_set_text x s (v_dom w)"
    "v_fresh (set_data_core h x s (Some (off, cnt, add)) w) = v_fresh w"
    "v_ranges (set_data_core h x s (Some (off, cnt, add)) w) = v_ranges (live_ranges (\<lambda>_. ranges_on_replace_data x off cnt add) w)"
  by (simp_all add: set_data_core_def Let_def quiet_sel [OF assms])

lemma live_ranges_again: "v_ranges w = v_ranges w' \<Longrightarrow> v_ranges (live_ranges (\<lambda>_. r) w) = v_ranges (live_ranges (\<lambda>_. r) w')"
  by (simp add: live_ranges_def upd_ranges_def)

lemma placed_known:
  assumes "placed ts st"
  shows "fst (range_start st) \<in> set (pre_trees ts)" "fst (range_end st) \<in> set (pre_trees ts)"
proof -
  obtain t where t: "t \<in> set ts" "range_start st \<in> set (points_tree t)" "range_end st \<in> set (points_tree t)"
    using placed_points [OF assms] by blast
  then have "fst (range_start st) \<in> set (pre_tree t)" "fst (range_end st) \<in> set (pre_tree t)"
    by (metis points_containers(1) prod.collapse)+
  with t(1) show "fst (range_start st) \<in> set (pre_trees ts)" "fst (range_end st) \<in> set (pre_trees ts)"
    by (auto simp: pre_trees_kids)
qed

lemma create_text_ok:
  assumes "world_ok w" "v_fresh w \<noteq> 0"
  shows "world_ok (fst (create_text s w))"
proof -
  let ?d = "v_dom w" and ?y = "v_fresh w" and ?w = "fst (create_text s w)"
  have d: "d_trees (v_dom ?w) = d_trees ?d @ [T ?y (text_info s) []]" "v_ranges ?w = v_ranges w" "v_fresh ?w = Suc ?y"
    by (simp_all add: create_text_def upd_dom_def n_create_def)
  have fresh: "\<forall>z \<in> set (all_ids ?d). z < ?y" and dok: "dom_ok ?d" and rok: "ranges_ok ?d (v_ranges w)" using assms(1) by (simp_all add: world_ok_def)
  have "dom_ok (v_dom ?w)" using text_forest [of "d_trees ?d" ?y] dok fresh assms(2) by (simp add: dom_ok_def d all_ids_def)
  moreover have "ranges_ok (v_dom ?w) (v_ranges w)" using rok placed_mono [of "d_trees ?d" "d_trees (v_dom ?w)"] by (auto simp: ranges_ok_def d)
  ultimately show ?thesis using fresh by (auto simp: world_ok_def d all_ids_def)
qed

text \<open>The three updates of the ranges in a split, and what they amount to for the points outside the new text.\<close>

lemma split_ranges:
  assumes "hooks_quiet h" "parent (v_dom w) y = 0" "index_ok live (v_ranges w)" "index_of_node (n_insert_before p y nx (v_dom w)) y = Suc i"
  shows "follows live (pt_replace x off n 0 \<circ> ((pt_past p (i + 1) \<circ> pt_split x y off) \<circ> pt_grow p (Suc i) 1)) (v_ranges w)
    (v_ranges (set_data_core h x s (Some (off, n, 0)) (live_ranges (\<lambda>_. ranges_on_split x y off p i) (insert_node h p y nx w))))"
proof -
  let ?w3 = "insert_node h p y nx w" and ?w4 = "live_ranges (\<lambda>_. ranges_on_split x y off p i) (insert_node h p y nx w)"
  have "follows live (pt_grow p (Suc i) 1) (v_ranges w) (v_ranges ?w3)"
    unfolding insert_node_quiet(3) [OF assms(1,2)]
    by (subst world_sel(2) [symmetric], rule live_ranges_follow) (use assms(3,4) insert_follows in auto)
  moreover have "follows live (pt_past p (i + 1) \<circ> pt_split x y off) (v_ranges ?w3) (v_ranges ?w4)"
    by (rule live_ranges_follow [OF follows_index [OF calculation] split_follows])
  moreover have "follows live (pt_replace x off n 0) (v_ranges ?w4) (v_ranges (set_data_core h x s (Some (off, n, 0)) ?w4))"
    unfolding set_data_quiet(3) [OF assms(1)]
    by (rule live_ranges_follow [OF follows_index [OF calculation(2)] replace_data_follows])
  ultimately show ?thesis by (metis follows_trans)
qed

lemma split_points:
  assumes "x \<noteq> p" "x \<noteq> y" "p \<noteq> y" "fst a \<noteq> y" "off + n = len"
  shows "(pt_replace x off n 0 \<circ> ((pt_past p (i + 1) \<circ> pt_split x y off) \<circ> pt_grow p (Suc i) 1)) a =
    (\<lambda>(c, o1). if c = x \<and> o1 > off then (y, o1 - off) else if c = p \<and> o1 > i then (c, Suc o1) else (c, o1)) a"
  using assms by (cases a) (auto simp: pt_replace_def pt_past_def pt_split_def pt_grow_def replaced_offset_def)

theorem split_text_ok:
  assumes "hooks_quiet h" "world_ok w" "x \<in> set (all_ids (v_dom w))" "char_kind (native_kind (v_dom w) x)"
  shows "world_ok (fst (split_text h x off w))"
proof -
  let ?d = "v_dom w" and ?s = "get_text (v_dom w) x" and ?y = "v_fresh w"
  have dok: "dom_ok ?d" and rok: "ranges_ok ?d (v_ranges w)" and fresh: "\<forall>z \<in> set (all_ids ?d). z < ?y" using assms(2) by (simp_all add: world_ok_def)
  define d1 where "d1 = n_create (T ?y (text_info (drop off ?s)) []) ?d"
  define w1 where "w1 = fst (create_text (drop off ?s) w)"
  have w1: "v_dom w1 = d1" "v_ranges w1 = v_ranges w" "v_fresh w1 = Suc ?y" "create_text (drop off ?s) w = (w1, ?y)"
    by (simp_all add: w1_def d1_def create_text_def upd_dom_def)
  have d1t: "d_trees d1 = d_trees ?d @ [T ?y (text_info (drop off ?s)) []]" by (simp add: d1_def n_create_def)
  have "?y \<noteq> 0" using fresh assms(3) by auto
  then have W1: "world_ok w1" using create_text_ok [OF assms(2)] by (simp add: w1_def)
  then have ok1: "dom_ok d1" by (simp add: world_ok_def w1(1))
  have x1: "x \<in> set (all_ids d1)" using assms(3) by (simp add: all_ids_def d1t)
  have nd: "node d1 x = node ?d x" using dom_node_exists [OF dok assms(3)] by (auto simp: node_def d1t find_append)
  then have k1: "char_kind (native_kind d1 x)" "get_text d1 x = ?s" using assms(4) by (simp_all add: native_kind_def get_text_def info_def)
  show ?thesis
  proof (cases "off > length ?s")
    case True
    with assms(2) show ?thesis by (simp add: split_text_def)
  next
    case le: False
    show ?thesis
    proof (cases "parent ?d x = 0")
      case True
      from dok assms(3) True obtain t where "t \<in> set (d_trees ?d)" "tid t = x"
        using dom_ok_ids [OF dok] by (cases rule: root_or_child) (auto simp: all_ids_subs)
      then have "parent d1 x = 0" using parent_root [OF ok1, of t] by (simp add: d1t)
      moreover have "world_ok (set_data_core h x (take off ?s) (Some (off, length ?s - off, 0)) w1)"
        by (rule set_data_ok [OF quiet_keep [OF assms(1)] W1]) (use x1 k1 le w1(1) in simp_all)
      ultimately show ?thesis using le w1 by (simp add: split_text_def Let_def)
    next
      case False
      define p where "p = parent ?d x"
      obtain n ks1 k ks2 where k: "T p n (ks1 @ k # ks2) \<in> set (subs_of ?d)" "tid k = x" "node ?d x = Some k"
        using kid_place [OF dok False] by (metis p_def)
      obtain m where m: "info ?d x = Some m" "i_text m = ?s" "char_kind (i_nkind m)" "T x m [] \<in> set (subs_of ?d)"
        using leaf_node [OF dok assms(3,4)] by (metis subs_of_def)
      then have "k = T x m []" using dom_node [OF dok m(4)] k(3) by simp
      then have u: "T p n (ks1 @ T x m [] # ks2) \<in> set (subs_of ?d)" using k(1) by simp
      define nx where "nx = next_sibling d1 x"
      note st = split_trees [OF dok u fresh d1_def nx_def]
      define d2 where "d2 = n_insert_before p ?y nx d1"
      define d3 where "d3 = n_set_text x (take off ?s) d2"
      define f where "f = (\<lambda>(c, o1). if c = x \<and> o1 > off then (?y, o1 - off) else if c = p \<and> o1 > length ks1 then (c, Suc o1) else (c, o1))"
      have ts: "forest_ok (d_trees ?d)" using dok by (simp add: dom_ok_def)
      have ids: "set (pre_tree (T p n (ks1 @ T x m [] # ks2))) \<subseteq> set (all_ids ?d)" using sub_ids(2) [OF u [unfolded subs_of_def]] unfolding all_ids_def .
      have y: "?y \<notin> set (all_ids ?d)" using fresh by auto
      have pl: "placed (d_trees d3) (move_points f s0)" if "placed (d_trees ?d) s0" for s0
        unfolding d3_def d2_def st(1)
        by (rule split_forest [OF ts _ m(3) _ _ _ f_def that]) (use u m(2) le y st(2) in \<open>auto simp: subs_of_def all_ids_def\<close>)
      define i where "i = length ks1"
      define w3 where "w3 = insert_node h p ?y nx w1"
      define w4 where "w4 = live_ranges (\<lambda>_. ranges_on_split x ?y off p i) w3"
      define w5 where "w5 = set_data_core h x (take off ?s) (Some (off, length ?s - off, 0)) w4"
      have "kind_of d1 ?y = 3" using dom_node [OF ok1, of "T ?y (text_info (drop off ?s)) []"]
        by (simp add: subs_of_def d1t kind_of_def info_def text_info_def)
      then have s: "fst (split_text h x off w) = (if native_refuses d1 p ?y then leave_parent ?y w1 else w5)"
        using le False st(4,5) by (simp add: split_text_def Let_def w1(1,4) insert_core_def w3_def w4_def w5_def i_def nx_def p_def)
      have "leave_parent ?y w1 = w1" using st(6) by (simp add: leave_parent_def w1(1))
      with W1 have left: "world_ok (leave_parent ?y w1)" by simp
      have v5: "v_dom w5 = d3" "v_fresh w5 = Suc ?y"
        using insert_node_quiet(1,2) [OF assms(1), of w1 ?y p nx] st(6) set_data_quiet(1,2) [OF assms(1)]
        by (simp_all add: w5_def w4_def w3_def w1 d3_def d2_def)
      moreover have "ranges_ok d3 (v_ranges w5)"
      proof (rule ranges_follow(1) [OF rok _ pl])
        have "follows (indexed (v_ranges w)) (pt_replace x off (length ?s - off) 0 \<circ> ((pt_past p (i + 1) \<circ> pt_split x ?y off) \<circ> pt_grow p (Suc i) 1))
            (v_ranges w) (v_ranges w5)"
          using split_ranges [OF assms(1) st(6) [folded w1(1)] _ st(7) [folded w1(1) i_def], of "indexed (v_ranges w)" x off] rok
          by (simp add: w1(2) w3_def w4_def w5_def ranges_ok_def)
        then show "follows (indexed (v_ranges w)) f (v_ranges w) (v_ranges w5)"
        proof (rule follows_eq)
          fix s0
          assume "s0 \<in> indexed (v_ranges w)"
          then have "placed (d_trees ?d) (g_states (v_ranges w) s0)" using rok by (simp add: ranges_ok_def)
          then have c: "fst (range_start (g_states (v_ranges w) s0)) \<noteq> ?y" "fst (range_end (g_states (v_ranges w) s0)) \<noteq> ?y"
            using placed_known y by (metis all_ids_def)+
          have "x \<noteq> p" "x \<noteq> ?y" "p \<noteq> ?y" using distinct_sub(1) [OF ts, of "T p n (ks1 @ T x m [] # ks2)"] u ids y by (auto simp: subs_of_def)
          then show "(pt_replace x off (length ?s - off) 0 \<circ> ((pt_past p (i + 1) \<circ> pt_split x ?y off) \<circ> pt_grow p (Suc i) 1)) (range_start (g_states (v_ranges w) s0)) = f (range_start (g_states (v_ranges w) s0)) \<and>
            (pt_replace x off (length ?s - off) 0 \<circ> ((pt_past p (i + 1) \<circ> pt_split x ?y off) \<circ> pt_grow p (Suc i) 1)) (range_end (g_states (v_ranges w) s0)) = f (range_end (g_states (v_ranges w) s0))"
            using split_points [OF _ _ _ c(1), of x p off] split_points [OF _ _ _ c(2), of x p off] le unfolding f_def i_def by simp
        qed
      qed
      moreover have "set (all_ids d3) \<subseteq> insert ?y (set (all_ids ?d))"
        using pre_data [of x "take off ?s" "d_trees d2"] insert_ids [of p ?y nx d1] by (auto simp: d3_def n_set_text_def edit_def all_ids_def d2_def d1t)
      moreover have "dom_ok d3" unfolding d3_def d2_def
      proof (rule data_keeps(1) [OF st(8)])
        have "node (n_insert_before p ?y nx d1) x = Some (T x m [])" using dom_node [OF st(8) st(9)] by simp
        with m(2,3) show "char_kind (native_kind (n_insert_before p ?y nx d1) x)" "off + (length ?s - off) \<le> length (get_text (n_insert_before p ?y nx d1) x)"
          "length (take off ?s) = length (get_text (n_insert_before p ?y nx d1) x) - (length ?s - off) + 0"
          using le by (simp_all add: native_kind_def get_text_def info_def)
        show "x \<in> set (all_ids (n_insert_before p ?y nx d1))" using imageI [OF st(9), of tid] by (simp add: all_ids_subs)
      qed
      ultimately have "world_ok w5" using fresh by (auto simp: world_ok_def less_Suc_eq)
      with s left show ?thesis by simp
    qed
  qed
qed

end
