(* ===== verification/DomSteps.thy ===== *)
theory DomSteps
  imports DomSplit
begin

text \<open>
  The methods that change the tree, the character data or the live ranges, as one step relation, and what
  every reachable state has.
\<close>

inductive dom_step :: "dom_hooks \<Rightarrow> dworld \<Rightarrow> dworld \<Rightarrow> bool" for h :: dom_hooks where
  Insert: "x \<in> set (all_ids (v_dom w)) \<Longrightarrow> p \<in> set (all_ids (v_dom w)) \<Longrightarrow> \<not> native_refuses (v_dom w) p x \<Longrightarrow> dom_step h w (fst (pre_insert h p x ref w))"
| Remove: "p \<noteq> 0 \<Longrightarrow> dom_step h w (fst (remove_child h p x w))"
| RemoveSelf: "dom_step h w (remove_self h x w)"
| CreateText: "v_fresh w \<noteq> 0 \<Longrightarrow> dom_step h w (fst (create_text s w))"
| AppendData: "x \<in> set (all_ids (v_dom w)) \<Longrightarrow> is_char_data (v_dom w) x \<Longrightarrow> dom_step h w (append_data h x s w)"
| InsertData: "x \<in> set (all_ids (v_dom w)) \<Longrightarrow> is_char_data (v_dom w) x \<Longrightarrow> dom_step h w (fst (insert_data h x off s w))"
| DeleteData: "x \<in> set (all_ids (v_dom w)) \<Longrightarrow> is_char_data (v_dom w) x \<Longrightarrow> dom_step h w (fst (delete_data h x off n w))"
| ReplaceData: "x \<in> set (all_ids (v_dom w)) \<Longrightarrow> is_char_data (v_dom w) x \<Longrightarrow> dom_step h w (fst (replace_data h x off n s w))"
| SplitText: "x \<in> set (all_ids (v_dom w)) \<Longrightarrow> is_char_data (v_dom w) x \<Longrightarrow> dom_step h w (fst (split_text h x off w))"
| TextContent: "x \<in> set (all_ids (v_dom w)) \<Longrightarrow> char_kind (kind_of (v_dom w) x) \<longrightarrow> is_char_data (v_dom w) x \<Longrightarrow>
    dom_step h w (set_text_content h x s w)"
| NewRange: "d_document (v_dom w) \<in> set (all_ids (v_dom w)) \<Longrightarrow> dom_step h w (fst (new_range w))"
| SetBoundary: "s \<in> indexed (v_ranges w) \<Longrightarrow> x \<in> set (all_ids (v_dom w)) \<Longrightarrow> dom_step h w (fst (set_boundary s x off start w))"
| SetBeside: "s \<in> indexed (v_ranges w) \<Longrightarrow> dom_step h w (fst (set_beside s x i start w))"
| Collapse: "s \<in> indexed (v_ranges w) \<Longrightarrow> dom_step h w (collapse_range s b w)"
| SelectNode: "s \<in> indexed (v_ranges w) \<Longrightarrow> dom_step h w (fst (select_node s x w))"
| SelectContents: "s \<in> indexed (v_ranges w) \<Longrightarrow> x \<in> set (all_ids (v_dom w)) \<Longrightarrow> dom_step h w (fst (select_node_contents s x w))"
| Reap: "s \<in> indexed (v_ranges w) \<Longrightarrow> dom_step h w (upd_ranges (reap s) w)"

inductive dom_run :: "dom_hooks \<Rightarrow> dworld \<Rightarrow> dworld \<Rightarrow> bool" for h :: dom_hooks where
  Stay: "dom_run h w w"
| More: "dom_run h w w1 \<Longrightarrow> dom_step h w1 w2 \<Longrightarrow> dom_run h w w2"

inductive_cases dom_runE: "dom_run h w w'"

lemma step_ok: "dom_step h w w' \<Longrightarrow> hooks_quiet h \<Longrightarrow> world_ok w \<Longrightarrow> world_ok w'"
proof (induction rule: dom_step.induct)
  case (SetBoundary s w x off start)
  then show ?case by (intro set_boundary_ok(1))
qed (simp_all add: quiet_keep is_char_data_def pre_insert_ok remove_child_ok remove_self_ok create_text_ok replace_data_ok split_text_ok
    set_text_content_ok new_range_ok(1) set_beside_ok collapse_range_ok select_node_ok select_contents_ok reap_ok)

lemma run_ok: "dom_run h w w' \<Longrightarrow> hooks_quiet h \<Longrightarrow> world_ok w \<Longrightarrow> world_ok w'"
  by (induction rule: dom_run.induct) (auto intro: step_ok)

section \<open>What a placed range is, in the terms of the layer\<close>

lemma point_length:
  assumes "dom_ok d" "t \<in> set (d_trees d)" "(c, o1) \<in> set (points_tree t)"
  shows "c \<in> set (all_ids d)" "o1 \<le> node_length d c"
proof -
  have ts: "forest_ok (d_trees d)" using assms(1) by (simp add: dom_ok_def)
  show c: "c \<in> set (all_ids d)" using points_containers(1) [OF assms(3)] tree_ids [OF assms(2)] by (auto simp: all_ids_def)
  obtain u where u: "node d c = Some u" "u \<in> set (subs_of d)" "tid u = c" using dom_node_exists [OF assms(1) c] by blast
  obtain n ks where un: "u = T c n ks" using u(3) by (cases u) auto
  have u': "u \<in> set (subs_list (d_trees d))" using u(2) by (simp add: subs_of_def)
  have in1: "(c, o1) \<in> set (points_tree u)" using point_below [OF ts u' assms(2,3)] un by simp
  have leaf: "leaf_ok u" using sub_leaf_ok [OF ts u'] subs_self by blast
  have du: "distinct (pre_tree u)" by (rule distinct_sub(1) [OF ts u'])
  have k: "native_kind d c = i_nkind n" "get_text d c = i_text n" "child_ids d c = map tid ks"
    using u(1) un by (simp_all add: native_kind_def info_def get_text_def child_ids_def)
  show "o1 \<le> node_length d c"
  proof (cases "char_kind (i_nkind n)")
    case True
    then have "i_nkind n \<noteq> 10" by (auto simp: char_kind_def)
    with True k un in1 show ?thesis by (auto simp: node_length_def Let_def simp del: upt_Suc)
  next
    case False
    with in1 un du gaps_own [of c o1 0 ks] have l: "o1 \<le> length ks" by simp
    have "ks = []" if "i_nkind n = 10" using leaf un that by (simp add: leaf_ok_T leaf_kind_def has_children_def)
    with False k l show ?thesis by (auto simp: node_length_def Let_def)
  qed
qed

theorem placed_valid:
  assumes "world_ok w" "s \<in> indexed (v_ranges w)"
  shows "let d = v_dom w; st = range_get w s in
    r_sc st \<in> set (all_ids d) \<and> r_so st \<le> node_length d (r_sc st) \<and> r_ec st \<in> set (all_ids d) \<and> r_eo st \<le> node_length d (r_ec st) \<and>
    tree_root d (r_sc st) = tree_root d (r_ec st) \<and> bp_compare d (r_sc st) (r_so st) (r_ec st) (r_eo st) \<le> 0"
proof -
  let ?d = "v_dom w" and ?st = "range_get w s"
  have dok: "dom_ok ?d" using assms(1) by (simp add: world_ok_def)
  have "placed (d_trees ?d) ?st" using assms by (simp add: world_ok_def ranges_ok_def range_get_def)
  then obtain t where t: "t \<in> set (d_trees ?d)" "before (points_tree t) (range_start ?st) (range_end ?st)" by (auto simp: placed_def)
  then have p: "(r_sc ?st, r_so ?st) \<in> set (points_tree t)" "(r_ec ?st, r_eo ?st) \<in> set (points_tree t)"
    using before_in [OF t(2)] by (simp_all add: range_start_def range_end_def)
  moreover have "tree_root ?d (r_sc ?st) = tree_root ?d (r_ec ?st)"
    using tree_root_of [OF dok t(1)] points_containers(1) [OF p(1)] points_containers(1) [OF p(2)] by simp
  ultimately show ?thesis
    using point_length [OF dok t(1)] bp_compare_order [OF dok t(1) p] t(2) by (simp add: Let_def range_start_def range_end_def)
qed

end
