(* ===== verification/DomObserverLaws.thy ===== *)
theory DomObserverLaws
  imports DomObservers DomAncestors
begin

text \<open>
  What the machinery of the mutation observers promises: a record goes to the observers with an interested
  registration on the target or, for the subtree, above it, with the old value when one of them asks for it;
  the counter of registrations is exact; and a disconnected observer has no registration left.
\<close>

section \<open>The interested observers\<close>

text \<open>What the standard asks for: the interested registrations, by observer.\<close>

definition wanting :: "dom \<Rightarrow> mo_type \<Rightarrow> nat \<Rightarrow> jstr option \<Rightarrow> observers \<Rightarrow> nat \<Rightarrow> mo_opts set" where
  "wanting d ty tgt name b ob =
     {o1. \<exists>x. contains d x tgt \<and> (ob, o1) \<in> set (regs_of x (b_regs b)) \<and> reg_wants ty name (x = tgt) o1}"

definition verdict :: "mo_type \<Rightarrow> jstr option \<Rightarrow> mo_opts set \<Rightarrow> jstr option option" where
  "verdict ty old rs = (if rs = {} then None else if \<exists>o1 \<in> rs. asks_old ty o1 then Some old else Some None)"

text \<open>The interest gathered for a set of registrations, whatever their order.\<close>

definition gathered :: "mo_type \<Rightarrow> jstr option \<Rightarrow> interest \<Rightarrow> (nat \<Rightarrow> mo_opts set) \<Rightarrow> bool" where
  "gathered ty old acc rs = (distinct (map fst acc) \<and> (\<forall>ob. map_of acc ob = verdict ty old (rs ob)))"

lemma map_put_keys: "fst ` set (map_put k v xs) = insert k (fst ` set xs)"
  by (induction k v xs rule: map_put.induct) auto

lemma map_put_distinct: "distinct (map fst xs) \<Longrightarrow> distinct (map fst (map_put k v xs))"
  by (induction k v xs rule: map_put.induct) (auto simp: map_put_keys)

lemma map_put_map [simp]: "map_of (map_put k v xs) = (map_of xs)(k \<mapsto> v)"
  by (induction k v xs rule: map_put.induct) auto

lemma gathered_nil: "gathered ty old [] (\<lambda>_. {})"
  by (simp add: gathered_def verdict_def)

lemma note_interest_map:
  "map_of (note_interest asks old ob acc) = (map_of acc)(ob \<mapsto> if asks then old else case map_of acc ob of None \<Rightarrow> None | Some v \<Rightarrow> v)"
  by (rule ext) (auto simp: note_interest_def Let_def map_add_def split: option.split)

lemma note_interest_distinct: "distinct (map fst acc) \<Longrightarrow> distinct (map fst (note_interest asks old ob acc))"
  by (auto simp: note_interest_def Let_def map_of_eq_None_iff intro!: map_put_distinct)

lemma verdict_none: "verdict ty old rs = None \<longleftrightarrow> rs = {}"
  by (simp add: verdict_def)

lemma verdict_insert:
  "verdict ty old (insert o1 rs) = Some (if asks_old ty o1 then old else case verdict ty old rs of None \<Rightarrow> None | Some v \<Rightarrow> v)"
  by (auto simp: verdict_def)

lemma gathered_note:
  assumes "gathered ty old acc rs"
  shows "gathered ty old (note_interest (asks_old ty o1) old ob acc) (rs(ob := insert o1 (rs ob)))"
  using assms by (auto simp: gathered_def note_interest_map note_interest_distinct verdict_insert)

lemma gathered_regs:
  "gathered ty old acc rs \<Longrightarrow>
    gathered ty old (consider_regs ty name old same regs acc) (\<lambda>ob. rs ob \<union> {o1. (ob, o1) \<in> set regs \<and> reg_wants ty name same o1})"
proof (induction ty name old same regs acc arbitrary: rs rule: consider_regs.induct)
  case (2 ty name old same ob o1 r acc)
  let ?rs = "if reg_wants ty name same o1 then rs(ob := insert o1 (rs ob)) else rs"
  have "gathered ty old (if reg_wants ty name same o1 then note_interest (asks_old ty o1) old ob acc else acc) ?rs"
    using 2(2) gathered_note by simp
  note ih = 2(1) [OF this]
  have "(\<lambda>ob'. ?rs ob' \<union> {o1. (ob', o1) \<in> set r \<and> reg_wants ty name same o1}) =
      (\<lambda>ob'. rs ob' \<union> {o2. (ob', o2) \<in> set ((ob, o1) # r) \<and> reg_wants ty name same o2})"
    by (rule ext) auto
  with ih show ?case by simp
qed simp

text \<open>The two ways to look for them, over the registrations and up from the target.\<close>

lemma scan_gathers:
  "gathered ty old acc rs \<Longrightarrow>
    gathered ty old (fold (scan_entry d ty tgt name old) es acc)
      (\<lambda>ob. rs ob \<union> {o1. \<exists>(x, regs) \<in> set es. (x = tgt \<or> contains d x tgt) \<and> (ob, o1) \<in> set regs \<and> reg_wants ty name (x = tgt) o1})"
proof (induction es arbitrary: acc rs)
  case (Cons e es)
  obtain x regs where e: "e = (x, regs)" by (cases e)
  let ?new = "\<lambda>ob. {o1. (x = tgt \<or> contains d x tgt) \<and> (ob, o1) \<in> set regs \<and> reg_wants ty name (x = tgt) o1}"
  have "gathered ty old (scan_entry d ty tgt name old e acc) (\<lambda>ob. rs ob \<union> ?new ob)"
  proof (cases "x \<noteq> tgt \<and> (\<not> list_ex (\<lambda>r. o_subtree (snd r)) regs \<or> \<not> contains d x tgt)")
    case True
    then have "?new ob = {}" for ob by (auto simp: reg_wants_def list_ex_iff)
    then have "(\<lambda>ob. rs ob \<union> ?new ob) = rs" by (simp only: Un_empty_right)
    with True Cons.prems show ?thesis by (simp only: scan_entry_def e prod.case if_True simp_thms)
  next
    case False
    then have "x = tgt \<or> contains d x tgt" by blast
    moreover have "scan_entry d ty tgt name old e acc = consider_regs ty name old (x = tgt) regs acc"
      unfolding scan_entry_def e prod.case using False by (rule if_not_P)
    ultimately show ?thesis using gathered_regs [OF Cons.prems, of name "x = tgt" regs] by simp
  qed
  from Cons.IH [OF this] show ?case by (simp add: e Un_assoc Collect_disj_eq [symmetric])
qed simp

lemma walk_gathers:
  "gathered ty old acc rs \<Longrightarrow>
    gathered ty old (fold (walk_entry ty tgt name old b) xs acc)
      (\<lambda>ob. rs ob \<union> {o1. \<exists>x \<in> set xs. (ob, o1) \<in> set (regs_of x (b_regs b)) \<and> reg_wants ty name (x = tgt) o1})"
proof (induction xs arbitrary: acc rs)
  case (Cons x xs)
  have "gathered ty old (walk_entry ty tgt name old b x acc)
      (\<lambda>ob. rs ob \<union> {o1. (ob, o1) \<in> set (regs_of x (b_regs b)) \<and> reg_wants ty name (x = tgt) o1})"
    using Cons.prems gathered_regs [OF Cons.prems] by (auto simp: walk_entry_def regs_of_def split: option.split)
  from Cons.IH [OF this] show ?case by (simp add: Un_assoc Collect_disj_eq [symmetric])
qed simp

theorem interested_gathers:
  assumes "dom_ok d" "tgt \<in> set (all_ids d)" "distinct (map fst (b_regs b))"
  shows "gathered ty old (interested_scan d ty tgt name old b) (wanting d ty tgt name b)"
    "gathered ty old (interested_walk d ty tgt name old b) (wanting d ty tgt name b)"
proof -
  have self: "contains d tgt tgt" by (rule contains_self [OF assms(1,2)])
  have in1: "(\<exists>(x, regs) \<in> set (b_regs b). P x regs) \<longleftrightarrow> (\<exists>x. map_of (b_regs b) x \<noteq> None \<and> P x (regs_of x (b_regs b)))" for P
    using assms(3) by (force simp: regs_of_def)
  have "{o1. \<exists>(x, regs) \<in> set (b_regs b). (x = tgt \<or> contains d x tgt) \<and> (ob, o1) \<in> set regs \<and> reg_wants ty name (x = tgt) o1} =
      wanting d ty tgt name b ob" for ob
  proof (rule set_eqI)
    fix o1
    have "map_of (b_regs b) x \<noteq> None \<or> (ob, o1) \<notin> set (regs_of x (b_regs b))" for x by (auto simp: regs_of_def)
    then show "o1 \<in> {o1. \<exists>(x, regs) \<in> set (b_regs b). (x = tgt \<or> contains d x tgt) \<and> (ob, o1) \<in> set regs \<and> reg_wants ty name (x = tgt) o1} \<longleftrightarrow>
        o1 \<in> wanting d ty tgt name b ob"
      unfolding in1 wanting_def using self by blast
  qed
  with scan_gathers [OF gathered_nil, of ty old d tgt name "b_regs b"] show "gathered ty old (interested_scan d ty tgt name old b) (wanting d ty tgt name b)"
    by (simp add: interested_scan_def)
  have "{o1. \<exists>x \<in> set (ancestors_self d tgt). (ob, o1) \<in> set (regs_of x (b_regs b)) \<and> reg_wants ty name (x = tgt) o1} =
      wanting d ty tgt name b ob" for ob
    unfolding ancestors_contain(1) [OF assms(1,2)] wanting_def by auto
  with walk_gathers [OF gathered_nil, of ty old tgt name b "ancestors_self d tgt"] show "gathered ty old (interested_walk d ty tgt name old b) (wanting d ty tgt name b)"
    by (simp add: interested_walk_def)
qed

section \<open>Queueing\<close>

text \<open>The counter is exact, so that a count of 0 means that there is nothing to look for.\<close>

definition reg_total :: "(nat \<times> (nat \<times> mo_opts) list) list \<Rightarrow> nat" where
  "reg_total rs = sum_list (map (length \<circ> snd) rs)"

definition mo_ok :: "observers \<Rightarrow> bool" where
  "mo_ok b = (distinct (map fst (b_regs b)) \<and> b_count b = reg_total (b_regs b) \<and>
     (\<forall>x ob. ob \<in> fst ` set (regs_of x (b_regs b)) \<longrightarrow> x \<in> set (b_targets b ob)))"

lemma no_regs: "reg_total rs = 0 \<Longrightarrow> regs_of x rs = []"
  by (force simp: reg_total_def regs_of_def split: option.split dest: map_of_SomeD)

lemma push_records:
  "distinct (map fst i) \<Longrightarrow> b_records (fold (push_record r) i b) ob =
     b_records b ob @ (case map_of i ob of None \<Rightarrow> [] | Some old \<Rightarrow> [r\<lparr>m_old := old\<rparr>])"
proof (induction i arbitrary: b)
  case (Cons e i)
  obtain x old where e: "e = (x, old)" by (cases e)
  with Cons have n: "x = ob \<Longrightarrow> map_of i ob = None" by (auto simp: map_of_eq_None_iff)
  from Cons.prems have "distinct (map fst i)" by simp
  from Cons.IH [OF this] n show ?case by (auto simp: e push_record_def)
qed simp

lemma push_others [simp]: "b_regs (fold (push_record r) i b) = b_regs b" "b_count (fold (push_record r) i b) = b_count b"
  "b_targets (fold (push_record r) i b) = b_targets b"
  by (induction i arbitrary: b) (auto simp: push_record_def split: prod.splits)

lemma push_queued: "set (b_queued (fold (push_record r) i b)) = set (b_queued b) \<union> fst ` set i"
  by (induction i arbitrary: b) (auto simp: push_record_def split: prod.splits)

lemma queue_interested:
  assumes "dom_ok d" "tgt \<in> set (all_ids d)" "mo_ok b"
  shows "\<exists>i. gathered ty old i (wanting d ty tgt name b) \<and> queue_mutation d ty tgt name old added removed pr nx b =
    (if i = [] then b else (fold (push_record \<lparr>m_type = ty, m_target = tgt, m_name = name, m_old = None, m_added = added, m_removed = removed,
                      m_prev = pr, m_next = nx\<rparr>) i b)\<lparr>b_pending := True\<rparr>)"
proof (cases "b_count b = 0")
  case True
  then have "wanting d ty tgt name b = (\<lambda>_. {})" using no_regs [of "b_regs b"] assms(3) by (auto simp: wanting_def mo_ok_def fun_eq_iff)
  with True gathered_nil show ?thesis by (intro exI [of _ "[]"]) (simp add: queue_mutation_def)
next
  case False
  have "distinct (map fst (b_regs b))" using assms(3) by (simp add: mo_ok_def)
  note g = interested_gathers [OF assms(1,2) this]
  show ?thesis
    by (rule exI [of _ "if length (b_regs b) \<le> 8 then interested_scan d ty tgt name old b else interested_walk d ty tgt name old b"])
      (use False g in \<open>auto simp: queue_mutation_def Let_def\<close>)
qed

theorem queue_records:
  assumes "dom_ok d" "tgt \<in> set (all_ids d)" "mo_ok b"
    and b': "b' = queue_mutation d ty tgt name old added removed pr nx b"
  shows "b_records b' ob = b_records b ob @
      (if wanting d ty tgt name b ob = {} then [] else [\<lparr>m_type = ty, m_target = tgt, m_name = name,
         m_old = (if \<exists>o1 \<in> wanting d ty tgt name b ob. asks_old ty o1 then old else None),
         m_added = added, m_removed = removed, m_prev = pr, m_next = nx\<rparr>])"
    "set (b_queued b') = set (b_queued b) \<union> {ob. wanting d ty tgt name b ob \<noteq> {}}"
proof -
  obtain i where i: "gathered ty old i (wanting d ty tgt name b)" and q: "queue_mutation d ty tgt name old added removed pr nx b =
    (if i = [] then b else (fold (push_record \<lparr>m_type = ty, m_target = tgt, m_name = name, m_old = None, m_added = added, m_removed = removed,
                      m_prev = pr, m_next = nx\<rparr>) i b)\<lparr>b_pending := True\<rparr>)"
    using queue_interested [OF assms(1-3)] by metis
  from i have d: "distinct (map fst i)" and v: "map_of i ob = verdict ty old (wanting d ty tgt name b ob)" for ob by (auto simp: gathered_def)
  show "b_records b' ob = b_records b ob @
      (if wanting d ty tgt name b ob = {} then [] else [\<lparr>m_type = ty, m_target = tgt, m_name = name,
         m_old = (if \<exists>o1 \<in> wanting d ty tgt name b ob. asks_old ty o1 then old else None),
         m_added = added, m_removed = removed, m_prev = pr, m_next = nx\<rparr>])"
    using v [of ob] push_records [OF d] by (cases "i = []") (simp_all add: b' q verdict_def split: if_splits)
  have "fst ` set i = {ob. map_of i ob \<noteq> None}" by (auto simp: map_of_eq_None_iff)
  then show "set (b_queued b') = set (b_queued b) \<union> {ob. wanting d ty tgt name b ob \<noteq> {}}"
    using v by (auto simp: b' q push_queued verdict_none)
qed

section \<open>The registrations\<close>

lemma regs_put: "regs_of y (map_put x rs m) = (if y = x then rs else regs_of y m)"
  by (simp add: regs_of_def)

lemma regs_delete: "regs_of y (map_delete x m) = (if y = x then [] else regs_of y m)"
  by (induction m) (auto simp: regs_of_def map_delete_def)

lemma total_Cons [simp]: "reg_total (e # rs) = length (snd e) + reg_total rs"
  by (simp add: reg_total_def)

lemma total_put:
  "distinct (map fst m) \<Longrightarrow> reg_total (map_put x rs m) + length (regs_of x m) = reg_total m + length rs"
proof (induction x rs m rule: map_put.induct)
  case (2 k v k' v' r)
  then have "k' = k \<Longrightarrow> regs_of k r = []" by (force simp: regs_of_def split: option.split dest: map_of_SomeD)
  with 2 show ?case by (auto simp: regs_of_def)
qed (simp add: regs_of_def reg_total_def)

lemma total_delete: "distinct (map fst m) \<Longrightarrow> reg_total (map_delete x m) + length (regs_of x m) = reg_total m"
proof (induction m)
  case (Cons e m)
  obtain k v where e: "e = (k, v)" by (cases e)
  have "k = x \<Longrightarrow> filter (\<lambda>p. fst p \<noteq> x) m = m" "k = x \<Longrightarrow> regs_of x m = []"
    using Cons.prems e by (force simp: filter_id_conv regs_of_def split: option.split dest: map_of_SomeD)+
  with Cons e show ?case by (auto simp: map_delete_def regs_of_def)
qed (simp add: map_delete_def regs_of_def)

lemma delete_distinct: "distinct (map fst m) \<Longrightarrow> distinct (map fst (map_delete x m))"
  by (simp add: map_delete_def distinct_map_filter)

lemma put_length: "ob \<in> fst ` set m \<Longrightarrow> length (map_put ob v m) = length m"
  by (induction ob v m rule: map_put.induct) auto

theorem observe_ok:
  assumes "mo_ok b"
  shows "mo_ok (fst (observe ob x i b))"
proof (cases "normalize_mo_options i")
  case (Inr o1)
  let ?regs = "regs_of x (b_regs b)"
  have d: "distinct (map fst (b_regs b))" and c: "b_count b = reg_total (b_regs b)" using assms by (simp_all add: mo_ok_def)
  show ?thesis
  proof (cases "list_ex (\<lambda>r. fst r = ob) ?regs")
    case True
    then have "ob \<in> fst ` set ?regs" by (force simp: list_ex_iff)
    with total_put [OF d, of x "map_put ob o1 ?regs"] put_length [of ob ?regs o1] assms True Inr show ?thesis
      by (auto simp: mo_ok_def observe_def regs_put map_put_keys map_put_distinct split: if_splits)
  next
    case False
    with total_put [OF d, of x "?regs @ [(ob, o1)]"] assms Inr show ?thesis
      by (auto simp: mo_ok_def observe_def Let_def regs_put map_put_distinct split: if_splits)
  qed
qed (use assms in \<open>simp add: observe_def\<close>)

lemma drop_target_regs:
  assumes "mo_ok b"
  shows "regs_of y (b_regs (drop_target ob x b)) = (if y = x then filter (\<lambda>r. fst r \<noteq> ob) (regs_of y (b_regs b)) else regs_of y (b_regs b))"
    "mo_ok (drop_target ob x b)" "b_targets (drop_target ob x b) = b_targets b"
proof -
  have d: "distinct (map fst (b_regs b))" and c: "b_count b = reg_total (b_regs b)" using assms by (simp_all add: mo_ok_def)
  show r: "regs_of y (b_regs (drop_target ob x b)) = (if y = x then filter (\<lambda>r. fst r \<noteq> ob) (regs_of y (b_regs b)) else regs_of y (b_regs b))" for y
    by (auto simp: drop_target_def Let_def regs_put regs_delete split: option.split) (auto simp: regs_of_def)
  show "b_targets (drop_target ob x b) = b_targets b" by (simp add: drop_target_def Let_def split: option.split)
  moreover have "distinct (map fst (b_regs (drop_target ob x b)))" using d
    by (auto simp: drop_target_def Let_def map_put_distinct delete_distinct split: option.split)
  moreover have "b_count (drop_target ob x b) = reg_total (b_regs (drop_target ob x b))"
  proof (cases "map_of (b_regs b) x")
    case (Some regs)
    let ?rest = "filter (\<lambda>r. fst r \<noteq> ob) regs"
    have l: "length ?rest \<le> length regs" "regs_of x (b_regs b) = regs" using Some by (simp_all add: regs_of_def)
    show ?thesis using Some l c total_put [OF d, of x ?rest] total_delete [OF d, of x]
      by (cases "?rest = []") (auto simp: drop_target_def Let_def)
  qed (use c in \<open>simp add: drop_target_def\<close>)
  ultimately show "mo_ok (drop_target ob x b)" using assms r by (auto simp: mo_ok_def split: if_splits)
qed

lemma drop_targets:
  "mo_ok b \<Longrightarrow> mo_ok (fold (drop_target ob) xs b) \<and> b_targets (fold (drop_target ob) xs b) = b_targets b \<and>
    (\<forall>y. regs_of y (b_regs (fold (drop_target ob) xs b)) =
      (if y \<in> set xs then filter (\<lambda>r. fst r \<noteq> ob) (regs_of y (b_regs b)) else regs_of y (b_regs b)))"
  by (induction xs arbitrary: b) (auto simp: drop_target_regs)

theorem disconnect_regs:
  assumes "mo_ok b"
  shows "mo_ok (disconnect ob b)" "regs_of x (b_regs (disconnect ob b)) = filter (\<lambda>r. fst r \<noteq> ob) (regs_of x (b_regs b))"
proof -
  note dt = drop_targets [OF assms, of ob "b_targets b ob"]
  have own: "x \<notin> set (b_targets b ob) \<Longrightarrow> filter (\<lambda>r. fst r \<noteq> ob) (regs_of x (b_regs b)) = regs_of x (b_regs b)" for x
    using assms by (fastforce simp: mo_ok_def filter_id_conv)
  show r: "regs_of x (b_regs (disconnect ob b)) = filter (\<lambda>r. fst r \<noteq> ob) (regs_of x (b_regs b))" for x
    using dt own [of x] by (simp add: disconnect_def Let_def)
  show "mo_ok (disconnect ob b)" using dt assms r by (auto simp: mo_ok_def disconnect_def Let_def)
qed

lemma queue_ok: "mo_ok b \<Longrightarrow> mo_ok (queue_mutation d ty tgt name old added removed pr nx b)"
  by (simp add: queue_mutation_def Let_def mo_ok_def)

lemma take_ok: "mo_ok b \<Longrightarrow> mo_ok (fst (take_records ob b))"
  by (simp add: take_records_def mo_ok_def)

end
