(* ===== verification/DomProps.thy ===== *)
theory DomProps
  imports DomSteps DomObserverLaws
begin

text \<open>
  The properties of live ranges, boundary points and mutation observers, with a small document to apply them to.
\<close>

section \<open>A small document\<close>

definition quiet_hooks :: dom_hooks where
  "quiet_hooks = \<lparr>h_moved = \<lambda>_ w. w, h_inserted = \<lambda>_ _ w. w, h_removed = \<lambda>_ _ w. w, h_replaced = \<lambda>_ w. w, h_data = \<lambda>_ w. w\<rparr>"

definition kind_info :: "int \<Rightarrow> ninfo" where
  "kind_info k = (text_info [])\<lparr>i_nkind := k, i_kind := k\<rparr>"

text \<open>A document 1 with an element 2, which has a text 3 of three characters and an empty element 4.\<close>

definition small_dom :: dom where
  "small_dom = \<lparr>d_trees = [T 1 (kind_info 9) [T 2 (kind_info 1) [T 3 (text_info [97, 98, 99]) [], T 4 (kind_info 1) []]]],
     d_document = 1, d_html = [], d_detached = 0, d_node_docs = []\<rparr>"

definition no_observers :: observers where
  "no_observers = \<lparr>b_regs = [], b_count = 0, b_pending = False, b_queued = [], b_records = \<lambda>_. [], b_targets = \<lambda>_. [], b_next = 0\<rparr>"

definition small_world :: dworld where
  "small_world = \<lparr>v_dom = small_dom, v_ranges = \<lparr>g_states = \<lambda>_. \<lparr>r_sc = 0, r_so = 0, r_ec = 0, r_eo = 0\<rparr>, g_index = [], g_next = 0\<rparr>,
     v_mo = no_observers, v_fresh = 5\<rparr>"

lemma quiet_hooks_quiet: "hooks_quiet quiet_hooks"
  by (auto simp: hooks_quiet_def quiet_hooks_def)

lemma small_dom_ok: "dom_ok small_dom"
  by (simp add: dom_ok_def forest_ok_def small_dom_def leaf_ok_T kinds_agree_def kind_info_def text_info_def leaf_kind_def has_children_def)

lemma small_ids: "all_ids small_dom = [1, 2, 3, 4]"
  by (simp add: all_ids_def small_dom_def)


definition small_ranged :: dworld where
  "small_ranged = small_world\<lparr>v_ranges := \<lparr>g_states = (\<lambda>_. \<lparr>r_sc = 0, r_so = 0, r_ec = 0, r_eo = 0\<rparr>)(0 := \<lparr>r_sc = 2, r_so = 1, r_ec = 2, r_eo = 2\<rparr>),
     g_index = [(2, [0])], g_next = 1\<rparr>\<rparr>"




section \<open>Live ranges\<close>





text \<open>C26: \<open>bpCompare\<close> is the order of boundary points.  Between two points of a tree it gives 0 when they are the same, -1 when
  the first is met first in a walk over the tree, and 1 otherwise.
\<close>

theorem boundary_points_compare_in_order:
  assumes "dom_ok d" "t \<in> set (d_trees d)" "(a, oa) \<in> set (points_tree t)" "(b, ob) \<in> set (points_tree t)"
  shows "bp_compare d a oa b ob = (if (a, oa) = (b, ob) then 0 else if before (points_tree t) (a, oa) (b, ob) then -1 else 1)"
  by (rule bp_compare_order [OF assms])

theorem boundary_points_compare_in_order_witness: "bp_compare small_dom 3 1 2 1 = -1"
proof -
  let ?t = "T 1 (kind_info 9) [T 2 (kind_info 1) [T 3 (text_info [97, 98, 99]) [], T 4 (kind_info 1) []]]"
  have t: "?t \<in> set (d_trees small_dom)" by (simp add: small_dom_def)
  have p: "points_tree ?t = [(1, 0), (2, 0), (3, 0), (3, 1), (3, 2), (3, 3), (2, 1), (4, 0), (2, 2), (1, 1)]"
    by (simp add: kind_info_def text_info_def char_kind_def upt_rec)
  then show ?thesis using boundary_points_compare_in_order [OF small_dom_ok t, of 3 1 2 1] by simp
qed

lemma replace_text_quiet:
  assumes "hooks_quiet h" "kind_of (v_dom w) p = 1" "kind_of (v_dom w) x = 3" "first_child (v_dom w) x = 0" "parent (v_dom w) c = p" "x \<noteq> p" "x \<noteq> c" "native_kind (v_dom w) p = 1"
  shows "snd (replace_child h p x c w) = Inr c" "v_dom (fst (replace_child h p x c w)) = n_replace_child p x c (v_dom w)"
    "v_ranges (fst (replace_child h p x c w)) = v_ranges w"
  using assms(2-8) by (simp_all add: replace_child_def native_refuses_replace_def Let_def quiet_sel [OF assms(1)])

text \<open>\<open>replaceChild\<close> does not adjust the live ranges.  A range that ends after the last child of an element still ends
  there when one child has taken the place of another, although the element has fewer children now.
\<close>

theorem replace_child_leaves_ranges_behind:
  "let w = fst (replace_child quiet_hooks 2 3 4 small_ranged); st = range_get w 0 in
    snd (replace_child quiet_hooks 2 3 4 small_ranged) = Inr 4 \<and> st = range_get small_ranged 0 \<and>
    r_eo (range_get small_ranged 0) \<le> node_length (v_dom small_ranged) 2 \<and> r_ec st = 2 \<and> node_length (v_dom w) 2 < r_eo st"
proof -
  have k: "kind_of small_dom 2 = 1" "kind_of small_dom 3 = 3" "first_child small_dom 3 = 0" "parent small_dom 4 = 2"
    by (simp_all add: kind_of_def info_def node_def small_dom_def kind_info_def text_info_def first_child_def child_ids_def parent_def)
  have w: "v_dom small_ranged = small_dom" by (simp add: small_ranged_def small_world_def)
  have "n_replace_child 2 3 4 small_dom = small_dom\<lparr>d_trees := [T 1 (kind_info 9) [T 2 (kind_info 1) [T 3 (text_info [97, 98, 99]) []]], T 4 (kind_info 1) []]\<rparr>"
    by (simp add: n_replace_child_def node_def small_dom_def native_kind_def info_def text_info_def detach_def parent_def edit_def)
  moreover have "native_kind (v_dom small_ranged) 2 = 1" by (simp add: w native_kind_def info_def node_def small_dom_def kind_info_def)
  note r = replace_text_quiet [OF quiet_hooks_quiet k [folded w] _ _ this, unfolded w]
  ultimately show ?thesis
    by (simp add: Let_def r range_get_def w node_length_def native_kind_def info_def node_def child_ids_def kind_info_def char_kind_def small_dom_def)
      (simp add: small_ranged_def)
qed

section \<open>Mutation observers\<close>

text \<open>C15: a mutation is recorded for exactly the interested observers.  Whether it scans the registrations or walks up
  from the target, \<open>queueMutation\<close> adds one record to the queue of an observer when one of its registrations, on the
  target or for the subtree above it, asks for such mutations, with the old value when one of them asks for it, and nothing otherwise.
\<close>

theorem mutations_reach_interested_observers:
  assumes "dom_ok d" "tgt \<in> set (all_ids d)" "mo_ok b"
  shows "b_records (queue_mutation d ty tgt name old added removed pr nx b) ob = b_records b ob @
      (let rs = {o1. \<exists>x. contains d x tgt \<and> (ob, o1) \<in> set (regs_of x (b_regs b)) \<and> reg_wants ty name (x = tgt) o1} in
       if rs = {} then [] else [\<lparr>m_type = ty, m_target = tgt, m_name = name,
         m_old = (if \<exists>o1 \<in> rs. asks_old ty o1 then old else None), m_added = added, m_removed = removed, m_prev = pr, m_next = nx\<rparr>])"
  using queue_records(1) [OF assms refl] by (simp add: wanting_def Let_def)

definition text_observer :: observers where
  "text_observer = no_observers\<lparr>b_regs := [(2, [(7, \<lparr>o_child_list = False, o_attributes = False, o_character_data = True, o_subtree = True,
     o_attr_old = False, o_cdata_old = True, o_filter = None\<rparr>)])], b_count := 1, b_targets := (\<lambda>_. [])(7 := [2])\<rparr>"

lemma text_observer_ok: "mo_ok text_observer"
  by (auto simp: mo_ok_def text_observer_def reg_total_def regs_of_def)

theorem mutations_reach_interested_observers_witness:
  "map m_old (b_records (queue_mutation small_dom MCharacterData 3 None (Some [97]) None None 0 0 text_observer) 7) = [Some [97]]"
proof -
  let ?rs = "{o1. \<exists>x. contains small_dom x 3 \<and> (7, o1) \<in> set (regs_of x (b_regs text_observer)) \<and> reg_wants MCharacterData None (x = 3) o1}"
  have c: "contains small_dom 2 3" by (simp add: contains_def subtree_ids_def node_def small_dom_def)
  have "?rs = snd ` set (regs_of 2 (b_regs text_observer))"
    using c by (auto simp: regs_of_def text_observer_def reg_wants_def)
  moreover have "\<exists>o1 \<in> snd ` set (regs_of 2 (b_regs text_observer)). asks_old MCharacterData o1" "b_records text_observer 7 = []"
    by (simp_all add: regs_of_def text_observer_def asks_old_def no_observers_def)
  ultimately show ?thesis
    using mutations_reach_interested_observers [OF small_dom_ok _ text_observer_ok, of 3 MCharacterData None "Some [97]" None None 0 0 7]
    by (auto simp: Let_def small_ids)
qed

text \<open>a disconnected observer hears nothing more.  After \<open>disconnect\<close> its queue is empty and stays empty whatever is
  mutated, and the other registrations, their order and the counter are as they should be.
\<close>

theorem disconnected_observers_hear_nothing:
  assumes "dom_ok d" "tgt \<in> set (all_ids d)" "mo_ok b"
  shows "b_records (queue_mutation d ty tgt name old added removed pr nx (disconnect ob b)) ob = [] \<and>
    mo_ok (disconnect ob b) \<and> (\<forall>x. regs_of x (b_regs (disconnect ob b)) = filter (\<lambda>r. fst r \<noteq> ob) (regs_of x (b_regs b)))"
proof -
  note dc = disconnect_regs [OF assms(3), where ob = ob]
  have "wanting d ty tgt name (disconnect ob b) ob = {}" by (auto simp: wanting_def dc(2))
  moreover have "b_records (disconnect ob b) ob = []" by (simp add: disconnect_def Let_def)
  ultimately show ?thesis using dc queue_records(1) [OF assms(1,2) dc(1) refl] by simp
qed

theorem disconnected_observers_hear_nothing_witness:
  "b_records (queue_mutation small_dom MCharacterData 3 None (Some [97]) None None 0 0 (disconnect 7 text_observer)) 7 = []"
  using disconnected_observers_hear_nothing [OF small_dom_ok _ text_observer_ok, of 3] by (simp add: small_ids)

end
