(* ===== verification/LoopState.thy ===== *)
theory LoopState
  imports JsNum
begin

text \<open>
  The event loop of a page (\<open>40_webapi.js\<close>, lines 13--170), message ports and broadcast channels
  (302--427), over the native timers of the host (\<open>timers.rs\<close>).  Handlers, callbacks and messages are known by
  numbers; times are microseconds of the clock.
\<close>

section \<open>The state\<close>

text \<open>\<open>handler\<close>, \<open>repeat\<close>, \<open>delay\<close> and \<open>nesting\<close> of a timer of the page.\<close>

record timer =
  m_handler :: nat
  m_repeat :: bool
  m_delay :: jsnum
  m_nesting :: nat

text \<open>The functions given to \<open>internalTimeout\<close>: the task pump, an idle callback, or another part of the layer.\<close>

datatype ifun = RunOneTask | RunIdle nat nat | OtherFn nat

type_synonym msg = "nat \<times> nat list"

text \<open>The functions given to \<open>postTask\<close>.\<close>

datatype ltask = OtherTask nat | DeliverPort nat | DeliverBroadcast nat nat

text \<open>A port posts to its peer \<open>p_other\<close>, or over \<open>p_link\<close>; a port that was transferred hands on to \<open>p_fwd\<close>.\<close>

record port =
  p_other :: "nat option"
  p_link :: "nat option"
  p_fwd :: "nat option"
  p_queue :: "msg list"
  p_started :: bool
  p_closed :: bool

record channel =
  c_name :: jstr
  c_closed :: bool

text \<open>
  What can be seen of a loop: the runs of page code, and what leaves for other realms.  The log also has when a
  task is posted and started, when a message is put into the queue of a port, and when a timer of the page that is
  still known is cleared.
\<close>

datatype loop_event =
    RanTimer nat nat
  | RanTask nat
  | RanInternal nat
  | RanFrame nat nat
  | RanFrameHook nat
  | RanIdle nat nat
  | Message nat msg
  | BroadcastMessage nat nat
  | SentOver nat msg
  | ClosedLink nat
  | Posted ltask
  | Started ltask
  | Queued nat msg
  | Cleared nat

record loop =
  l_now :: nat
  l_native :: "(nat \<times> nat \<times> nat) list"
  l_seq :: nat
  l_next :: nat
  l_page :: "nat \<Rightarrow> timer option"
  l_internal :: "nat \<Rightarrow> ifun option"
  l_nesting :: nat
  l_tasks :: "ltask list"
  l_task_timer :: nat
  l_raf_id :: nat
  l_raf :: "(nat \<times> nat) list"
  l_frame :: bool
  l_idle_id :: nat
  l_idle :: "nat \<Rightarrow> nat option"
  l_ports :: "nat \<Rightarrow> port"
  l_nports :: nat
  l_chans :: "nat \<Rightarrow> channel"
  l_nchans :: nat
  l_parts :: "jstr \<Rightarrow> nat list"
  l_log :: "loop_event list"

definition logged :: "loop_event \<Rightarrow> loop \<Rightarrow> loop" where
  "logged e w = w\<lparr>l_log := l_log w @ [e]\<rparr>"

section \<open>Native timers\<close>

text \<open>
  An entry is id, deadline and sequence number; the map of the host orders by deadline, then number.  A delay
  is cut to whole microseconds.
\<close>

definition delay_micros :: "jsnum \<Rightarrow> nat" where
  "delay_micros d = (case d of
     Fin q \<Rightarrow> if q > 0 then (case num_mul (Fin (min q 2147483647)) (Fin 1000) of Fin m \<Rightarrow> nat \<lfloor>m\<rfloor> | _ \<Rightarrow> 0) else 0
   | _ \<Rightarrow> 0)"

definition native_clear :: "nat \<Rightarrow> loop \<Rightarrow> loop" where
  "native_clear x w = w\<lparr>l_native := filter (\<lambda>e. fst e \<noteq> x) (l_native w)\<rparr>"

fun native_insert :: "nat \<times> nat \<times> nat \<Rightarrow> (nat \<times> nat \<times> nat) list \<Rightarrow> (nat \<times> nat \<times> nat) list" where
  "native_insert e [] = [e]"
| "native_insert (x, dl, sq) ((x', dl', sq') # r) =
     (if dl < dl' \<or> (dl = dl' \<and> sq < sq') then (x, dl, sq) # (x', dl', sq') # r else (x', dl', sq') # native_insert (x, dl, sq) r)"

definition native_set :: "nat \<Rightarrow> jsnum \<Rightarrow> loop \<Rightarrow> loop" where
  "native_set x d w = (let w1 = native_clear x w; sq = Suc (l_seq w1) in
     w1\<lparr>l_seq := sq, l_native := native_insert (x, l_now w1 + delay_micros d, sq) (l_native w1)\<rparr>)"

definition take_due :: "loop \<Rightarrow> loop \<times> nat list" where
  "take_due w =
     (w\<lparr>l_native := dropWhile (\<lambda>(x, dl, sq). dl \<le> l_now w) (l_native w)\<rparr>,
      map fst (takeWhile (\<lambda>(x, dl, sq). dl \<le> l_now w) (l_native w)))"

section \<open>Timers\<close>

definition norm_delay :: "jsnum \<Rightarrow> jsnum" where
  "norm_delay t = (let d = (if num_lt (Fin 0) t then t else Fin 0) in if num_lt (Fin 2147483647) d then Fin 1 else d)"

definition clamp_nested :: "nat \<Rightarrow> jsnum \<Rightarrow> jsnum" where
  "clamp_nested n d = (if n > 5 \<and> num_lt d (Fin 4) then Fin 4 else d)"

definition add_timer :: "nat \<Rightarrow> jsnum \<Rightarrow> bool \<Rightarrow> loop \<Rightarrow> loop \<times> nat" where
  "add_timer f timeout rep w =
     (let x = l_next w; d = norm_delay timeout;
          w1 = w\<lparr>l_next := Suc x, l_page := (l_page w)(x \<mapsto> \<lparr>m_handler = f, m_repeat = rep, m_delay = d, m_nesting = l_nesting w + 1\<rparr>)\<rparr>
      in (native_set x (clamp_nested (l_nesting w) d) w1, x))"

text \<open>The key of a map that a number is, when it is one.\<close>

definition id_of_num :: "jsnum \<Rightarrow> nat option" where
  "id_of_num n = (case n of
     Fin q \<Rightarrow> if q \<ge> 0 \<and> of_int \<lfloor>q\<rfloor> = q then Some (nat \<lfloor>q\<rfloor>) else None
   | NZero \<Rightarrow> Some 0
   | _ \<Rightarrow> None)"

definition clear_timer :: "jsnum \<Rightarrow> loop \<Rightarrow> loop" where
  "clear_timer n w = (case id_of_num n of
     None \<Rightarrow> w
   | Some x \<Rightarrow> if l_page w x \<noteq> None then logged (Cleared x) (native_clear x (w\<lparr>l_page := (l_page w)(x := None)\<rparr>)) else w)"

definition internal_timeout :: "ifun \<Rightarrow> jsnum \<Rightarrow> loop \<Rightarrow> loop \<times> nat" where
  "internal_timeout f d w =
     (let x = l_next w; w1 = w\<lparr>l_next := Suc x, l_internal := (l_internal w)(x \<mapsto> f)\<rparr>
      in (native_set x (norm_delay d) w1, x))"

definition clear_internal :: "nat \<Rightarrow> loop \<Rightarrow> loop" where
  "clear_internal x w =
     (if l_internal w x \<noteq> None then native_clear x (w\<lparr>l_internal := (l_internal w)(x := None)\<rparr>) else w)"

section \<open>Tasks\<close>

definition arm_tasks :: "loop \<Rightarrow> loop" where
  "arm_tasks w = (case internal_timeout RunOneTask (Fin 0) w of (w1, x) \<Rightarrow> w1\<lparr>l_task_timer := x\<rparr>)"

definition post_task :: "ltask \<Rightarrow> loop \<Rightarrow> loop" where
  "post_task t w = (let w1 = logged (Posted t) (w\<lparr>l_tasks := l_tasks w @ [t]\<rparr>) in if l_task_timer w1 = 0 then arm_tasks w1 else w1)"

section \<open>Frames and idle callbacks\<close>

definition request_frame :: "loop \<Rightarrow> loop" where
  "request_frame w = (if l_frame w then w else w\<lparr>l_frame := True\<rparr>)"

definition request_animation_frame :: "nat \<Rightarrow> loop \<Rightarrow> loop \<times> nat" where
  "request_animation_frame f w =
     (let x = Suc (l_raf_id w) in (request_frame (w\<lparr>l_raf_id := x, l_raf := l_raf w @ [(x, f)]\<rparr>), x))"

definition cancel_animation_frame :: "jsnum \<Rightarrow> loop \<Rightarrow> loop" where
  "cancel_animation_frame n w = w\<lparr>l_raf := filter (\<lambda>e. Some (fst e) \<noteq> id_of_num n) (l_raf w)\<rparr>"

definition request_idle_callback :: "nat \<Rightarrow> loop \<Rightarrow> loop \<times> nat" where
  "request_idle_callback f w =
     (let x = Suc (l_idle_id w) in
      case internal_timeout (RunIdle x f) (Fin 1) (w\<lparr>l_idle_id := x\<rparr>) of
        (w1, tid) \<Rightarrow> (w1\<lparr>l_idle := (l_idle w1)(x \<mapsto> tid)\<rparr>, x))"

definition cancel_idle_callback :: "jsnum \<Rightarrow> loop \<Rightarrow> loop" where
  "cancel_idle_callback n w = (case id_of_num n of
     None \<Rightarrow> w
   | Some x \<Rightarrow> (case l_idle w x of
       None \<Rightarrow> w
     | Some tid \<Rightarrow> clear_internal tid (w\<lparr>l_idle := (l_idle w)(x := None)\<rparr>)))"

section \<open>Message ports\<close>

definition upd_port :: "nat \<Rightarrow> (port \<Rightarrow> port) \<Rightarrow> loop \<Rightarrow> loop" where
  "upd_port p f w = w\<lparr>l_ports := (l_ports w)(p := f (l_ports w p))\<rparr>"

definition new_port :: "loop \<Rightarrow> loop \<times> nat" where
  "new_port w = (let p = l_nports w in
     (upd_port p (\<lambda>_. \<lparr>p_other = None, p_link = None, p_fwd = None, p_queue = [], p_started = False, p_closed = False\<rparr>)
        (w\<lparr>l_nports := Suc p\<rparr>), p))"

definition entangle :: "nat \<Rightarrow> nat \<Rightarrow> loop \<Rightarrow> loop" where
  "entangle a b w = upd_port b (\<lambda>q. q\<lparr>p_other := Some a\<rparr>) (upd_port a (\<lambda>q. q\<lparr>p_other := Some b\<rparr>) w)"

definition new_message_channel :: "loop \<Rightarrow> loop" where
  "new_message_channel w = (case new_port w of (w1, a) \<Rightarrow> case new_port w1 of (w2, b) \<Rightarrow> entangle a b w2)"

definition port_enqueue :: "nat \<Rightarrow> msg \<Rightarrow> loop \<Rightarrow> loop" where
  "port_enqueue p m w =
     (let q = l_ports w p in
      if p_closed q then w
      else case p_fwd q of
        Some r \<Rightarrow> logged (SentOver r m) w
      | None \<Rightarrow> let w1 = logged (Queued p m) (upd_port p (\<lambda>q. q\<lparr>p_queue := p_queue q @ [m]\<rparr>) w) in
          if p_started q then post_task (DeliverPort p) w1 else w1)"

definition port_start :: "nat \<Rightarrow> loop \<Rightarrow> loop" where
  "port_start p w =
     (let q = l_ports w p in
      if p_started q then w
      else fold (\<lambda>_. post_task (DeliverPort p)) (p_queue q) (upd_port p (\<lambda>q. q\<lparr>p_started := True\<rparr>) w))"

definition port_send :: "nat \<Rightarrow> msg \<Rightarrow> loop \<Rightarrow> loop" where
  "port_send p m w = (case p_other (l_ports w p) of
     Some r \<Rightarrow> port_enqueue r m w
   | None \<Rightarrow> (case p_link (l_ports w p) of Some r \<Rightarrow> logged (SentOver r m) w | None \<Rightarrow> w))"

definition port_link :: "nat \<Rightarrow> nat \<Rightarrow> loop \<Rightarrow> loop" where
  "port_link p r = upd_port p (\<lambda>q. q\<lparr>p_other := None, p_link := Some r\<rparr>)"

definition port_unlink :: "nat \<Rightarrow> loop \<Rightarrow> loop" where
  "port_unlink p = upd_port p (\<lambda>q. q\<lparr>p_link := None\<rparr>)"

text \<open>Transfer to another realm: what was not delivered leaves with the port.\<close>

definition port_detach :: "nat \<Rightarrow> nat \<Rightarrow> loop \<Rightarrow> loop \<times> msg list \<times> bool" where
  "port_detach p r w = (let q = l_ports w p in
     (upd_port p (\<lambda>q. q\<lparr>p_queue := [], p_fwd := Some r\<rparr>) w, p_queue q, p_closed q))"

text \<open>\<open>portPeerClosed\<close> and \<open>close\<close>; a port that was transferred cannot be closed by its page.\<close>

definition port_peer_closed :: "nat \<Rightarrow> loop \<Rightarrow> loop" where
  "port_peer_closed p w =
     (if p_closed (l_ports w p) then w
      else let w1 = upd_port p (\<lambda>q. q\<lparr>p_closed := True, p_link := None\<rparr>) w in
        (case p_link (l_ports w p) of None \<Rightarrow> w1 | Some r \<Rightarrow> logged (ClosedLink r) w1))"

definition port_close :: "nat \<Rightarrow> loop \<Rightarrow> loop" where
  "port_close p w = (if p_fwd (l_ports w p) \<noteq> None then w else port_peer_closed p w)"

text \<open>\<open>transferables\<close>, for the ports of a transfer list.\<close>

fun check_ports :: "nat \<Rightarrow> loop \<Rightarrow> nat list \<Rightarrow> nat list \<Rightarrow> unit res" where
  "check_ports self w seen [] = Inr ()"
| "check_ports self w seen (p # ps) =
     (if p \<in> set seen \<or> p = self \<or> p_fwd (l_ports w p) \<noteq> None then Inl (DomErr ''DataCloneError'')
      else check_ports self w (p # seen) ps)"

definition post_message :: "nat \<Rightarrow> nat \<Rightarrow> nat list \<Rightarrow> loop \<Rightarrow> loop \<times> unit res" where
  "post_message p dat ps w =
     (let q = l_ports w p in
      if p_closed q \<or> p_fwd q \<noteq> None \<or> (p_other q = None \<and> p_link q = None) then (w, Inr ())
      else case check_ports p w [] ps of
        Inl e \<Rightarrow> (w, Inl e)
      | Inr _ \<Rightarrow> (port_send p (dat, ps) w, Inr ()))"

section \<open>Broadcast channels\<close>

definition new_broadcast :: "jstr \<Rightarrow> loop \<Rightarrow> loop \<times> nat" where
  "new_broadcast name w = (let c = l_nchans w in
     (w\<lparr>l_nchans := Suc c, l_chans := (l_chans w)(c := \<lparr>c_name = name, c_closed = False\<rparr>),
        l_parts := (l_parts w)(name := l_parts w name @ [c])\<rparr>, c))"

definition broadcast_post :: "nat \<Rightarrow> nat \<Rightarrow> loop \<Rightarrow> loop \<times> unit res" where
  "broadcast_post c dat w =
     (if c_closed (l_chans w c) then (w, Inl (DomErr ''InvalidStateError''))
      else (fold (\<lambda>r. post_task (DeliverBroadcast r dat)) (filter (\<lambda>r. r \<noteq> c) (l_parts w (c_name (l_chans w c)))) w, Inr ()))"

definition broadcast_close :: "nat \<Rightarrow> loop \<Rightarrow> loop" where
  "broadcast_close c w = (let name = c_name (l_chans w c) in
     w\<lparr>l_chans := (l_chans w)(c := \<lparr>c_name = name, c_closed = True\<rparr>),
       l_parts := (l_parts w)(name := filter (\<lambda>r. r \<noteq> c) (l_parts w name))\<rparr>)"

section \<open>Calls of the page\<close>

datatype call =
    SetTimeout nat jsnum
  | SetInterval nat jsnum
  | ClearTimer jsnum
  | PostTask nat
  | InternalTimeout nat jsnum
  | RequestFrame nat
  | CancelFrame jsnum
  | RequestIdle nat
  | CancelIdle jsnum
  | NewChannel
  | PostMessage nat nat "nat list"
  | StartPort nat
  | ClosePort nat
  | DetachPort nat nat
  | LinkedPort nat
  | Arrives nat msg
  | PeerClosed nat
  | NewBroadcast jstr
  | PostBroadcast nat nat
  | CloseBroadcast nat

text \<open>
  \<open>DetachPort\<close>, \<open>LinkedPort\<close>, \<open>Arrives\<close> and \<open>PeerClosed\<close> are what the envelopes of other realms do with ports; a
  port that arrives is new, and its queue arrives with it, message by message.  A call names a port that exists.
\<close>

definition with_port :: "nat \<Rightarrow> (loop \<Rightarrow> loop) \<Rightarrow> loop \<Rightarrow> loop" where
  "with_port p f w = (if p < l_nports w then f w else w)"

definition do_call :: "call \<Rightarrow> loop \<Rightarrow> loop" where
  "do_call c w = (case c of
     SetTimeout f d \<Rightarrow> fst (add_timer f d False w)
   | SetInterval f d \<Rightarrow> fst (add_timer f d True w)
   | ClearTimer n \<Rightarrow> clear_timer n w
   | PostTask f \<Rightarrow> post_task (OtherTask f) w
   | InternalTimeout f d \<Rightarrow> fst (internal_timeout (OtherFn f) d w)
   | RequestFrame f \<Rightarrow> fst (request_animation_frame f w)
   | CancelFrame n \<Rightarrow> cancel_animation_frame n w
   | RequestIdle f \<Rightarrow> fst (request_idle_callback f w)
   | CancelIdle n \<Rightarrow> cancel_idle_callback n w
   | NewChannel \<Rightarrow> new_message_channel w
   | PostMessage p dat ps \<Rightarrow> with_port p (\<lambda>w. fst (post_message p dat ps w)) w
   | StartPort p \<Rightarrow> with_port p (port_start p) w
   | ClosePort p \<Rightarrow> with_port p (port_close p) w
   | DetachPort p r \<Rightarrow> with_port p (\<lambda>w. fst (port_detach p r w)) w
   | LinkedPort r \<Rightarrow> (case new_port w of (w1, p) \<Rightarrow> port_link p r w1)
   | Arrives p m \<Rightarrow> with_port p (port_enqueue p m) w
   | PeerClosed p \<Rightarrow> with_port p (port_peer_closed p) w
   | NewBroadcast name \<Rightarrow> fst (new_broadcast name w)
   | PostBroadcast c dat \<Rightarrow> fst (broadcast_post c dat w)
   | CloseBroadcast c \<Rightarrow> broadcast_close c w)"

text \<open>
  Page code runs: it sees the state and makes calls, whatever it likes.  What it throws is reported and changes
  nothing.
\<close>

type_synonym page = "loop_event \<Rightarrow> loop \<Rightarrow> call list"

definition emit :: "page \<Rightarrow> loop_event \<Rightarrow> loop \<Rightarrow> loop" where
  "emit page e w = (let w1 = logged e w in fold do_call (page e w1) w1)"

section \<open>Turns of the loop\<close>

definition port_deliver :: "page \<Rightarrow> nat \<Rightarrow> loop \<Rightarrow> loop" where
  "port_deliver page p w =
     (let q = l_ports w p in
      if p_closed q then w
      else case p_queue q of
        [] \<Rightarrow> w
      | m # ms \<Rightarrow> emit page (Message p m) (upd_port p (\<lambda>q. q\<lparr>p_queue := ms\<rparr>) w))"

definition run_ltask :: "page \<Rightarrow> ltask \<Rightarrow> loop \<Rightarrow> loop" where
  "run_ltask page t w = (case t of
     OtherTask f \<Rightarrow> emit page (RanTask f) w
   | DeliverPort p \<Rightarrow> port_deliver page p w
   | DeliverBroadcast c dat \<Rightarrow> if c_closed (l_chans w c) then w else emit page (BroadcastMessage c dat) w)"

definition run_one_task :: "page \<Rightarrow> loop \<Rightarrow> loop" where
  "run_one_task page w =
     (let w1 = w\<lparr>l_task_timer := 0\<rparr> in
      case l_tasks w1 of
        [] \<Rightarrow> w1
      | t # ts \<Rightarrow> let w2 = logged (Started t) (w1\<lparr>l_tasks := ts\<rparr>); w3 = (if ts \<noteq> [] then arm_tasks w2 else w2) in run_ltask page t w3)"

definition run_internal :: "page \<Rightarrow> ifun \<Rightarrow> loop \<Rightarrow> loop" where
  "run_internal page f w = (case f of
     RunOneTask \<Rightarrow> run_one_task page w
   | RunIdle x g \<Rightarrow> if l_idle w x = None then w else emit page (RanIdle x g) (w\<lparr>l_idle := (l_idle w)(x := None)\<rparr>)
   | OtherFn g \<Rightarrow> emit page (RanInternal g) w)"

definition on_timer :: "page \<Rightarrow> nat \<Rightarrow> loop \<Rightarrow> loop" where
  "on_timer page x w = (case l_internal w x of
     Some f \<Rightarrow> run_internal page f (w\<lparr>l_internal := (l_internal w)(x := None)\<rparr>)
   | None \<Rightarrow> (case l_page w x of
       None \<Rightarrow> w
     | Some t \<Rightarrow> let
           w1 = (if m_repeat t then w else w\<lparr>l_page := (l_page w)(x := None)\<rparr>);
           prev = l_nesting w1;
           w2 = emit page (RanTimer x (m_handler t)) (w1\<lparr>l_nesting := m_nesting t\<rparr>);
           w3 = w2\<lparr>l_nesting := prev\<rparr>
         in if m_repeat t \<and> l_page w3 x \<noteq> None
            then native_set x (clamp_nested (m_nesting t) (m_delay t)) (w3\<lparr>l_page := (l_page w3)(x \<mapsto> t\<lparr>m_nesting := m_nesting t + 1\<rparr>)\<rparr>)
            else w3))"

text \<open>The host takes the timers that are due and runs them one by one.\<close>

definition run_due :: "page \<Rightarrow> loop \<Rightarrow> loop" where
  "run_due page w = (case take_due w of (w1, due) \<Rightarrow> fold (on_timer page) due w1)"

text \<open>
  A frame: the animations, the callbacks requested before it, the observers.  The loop over the map takes entries
  out as it goes, so that it meets exactly the entries there were at its start, less those that were cancelled
  meanwhile.
\<close>

definition run_frame_callback :: "page \<Rightarrow> nat \<Rightarrow> loop \<Rightarrow> loop" where
  "run_frame_callback page x w = (case map_of (l_raf w) x of
     None \<Rightarrow> w
   | Some f \<Rightarrow> emit page (RanFrame x f) (w\<lparr>l_raf := filter (\<lambda>e. fst e \<noteq> x) (l_raf w)\<rparr>))"

definition on_frame :: "page \<Rightarrow> loop \<Rightarrow> loop" where
  "on_frame page w =
     (let w1 = emit page (RanFrameHook 0) (w\<lparr>l_frame := False\<rparr>);
          w2 = fold (run_frame_callback page) (map fst (l_raf w1)) w1;
          w3 = emit page (RanFrameHook 1) w2
      in if l_raf w3 \<noteq> [] then request_frame w3 else w3)"

datatype host = Tick nat | Frame | Script "call list"

text \<open>A step of the host: time passes and timers run, a frame is drawn, or a script of the page runs.\<close>

definition host_step :: "page \<Rightarrow> host \<Rightarrow> loop \<Rightarrow> loop" where
  "host_step page s w = (case s of
     Tick n \<Rightarrow> run_due page (w\<lparr>l_now := l_now w + n\<rparr>)
   | Frame \<Rightarrow> on_frame page w
   | Script cs \<Rightarrow> fold do_call cs w)"

definition run_loop :: "page \<Rightarrow> host list \<Rightarrow> loop \<Rightarrow> loop" where
  "run_loop page ss w = fold (host_step page) ss w"

definition start_loop :: loop where
  "start_loop = \<lparr>l_now = 0, l_native = [], l_seq = 0, l_next = 1, l_page = (\<lambda>_. None), l_internal = (\<lambda>_. None), l_nesting = 0,
     l_tasks = [], l_task_timer = 0, l_raf_id = 0, l_raf = [], l_frame = False, l_idle_id = 0, l_idle = (\<lambda>_. None),
     l_ports = (\<lambda>_. \<lparr>p_other = None, p_link = None, p_fwd = None, p_queue = [], p_started = False, p_closed = False\<rparr>), l_nports = 0,
     l_chans = (\<lambda>_. \<lparr>c_name = [], c_closed = False\<rparr>), l_nchans = 0, l_parts = (\<lambda>_. []), l_log = []\<rparr>"

end
