(* ===== verification/LoopLaws.thy ===== *)
theory LoopLaws
  imports LoopState "HOL-Library.Sublist"
begin

text \<open>
  The invariant of the event loop: timer ids are never shared or used again, the pump of the task queue is armed
  whenever there is a task, tasks start in the order in which they were posted, and what is put into the queue of a
  port comes out in order.
\<close>

section \<open>The history\<close>

definition posted :: "loop \<Rightarrow> ltask list" where
  "posted w = concat (map (\<lambda>e. case e of Posted t \<Rightarrow> [t] | _ \<Rightarrow> []) (l_log w))"

definition started :: "loop \<Rightarrow> ltask list" where
  "started w = concat (map (\<lambda>e. case e of Started t \<Rightarrow> [t] | _ \<Rightarrow> []) (l_log w))"

definition queued :: "nat \<Rightarrow> loop \<Rightarrow> msg list" where
  "queued p w = concat (map (\<lambda>e. case e of Queued q m \<Rightarrow> if q = p then [m] else [] | _ \<Rightarrow> []) (l_log w))"

definition received :: "nat \<Rightarrow> loop \<Rightarrow> msg list" where
  "received p w = concat (map (\<lambda>e. case e of Message q m \<Rightarrow> if q = p then [m] else [] | _ \<Rightarrow> []) (l_log w))"

lemma logged_sel [simp]:
  "l_log (logged e w) = l_log w @ [e]" "l_now (logged e w) = l_now w" "l_native (logged e w) = l_native w" "l_seq (logged e w) = l_seq w"
  "l_next (logged e w) = l_next w" "l_page (logged e w) = l_page w" "l_internal (logged e w) = l_internal w" "l_tasks (logged e w) = l_tasks w"
  "l_task_timer (logged e w) = l_task_timer w" "l_idle (logged e w) = l_idle w" "l_ports (logged e w) = l_ports w" "l_nports (logged e w) = l_nports w"
  by (simp_all add: logged_def)

lemma history_logged:
  "posted (logged e w) = posted w @ (case e of Posted t \<Rightarrow> [t] | _ \<Rightarrow> [])"
  "started (logged e w) = started w @ (case e of Started t \<Rightarrow> [t] | _ \<Rightarrow> [])"
  "queued p (logged e w) = queued p w @ (case e of Queued q m \<Rightarrow> if q = p then [m] else [] | _ \<Rightarrow> [])"
  "received p (logged e w) = received p w @ (case e of Message q m \<Rightarrow> if q = p then [m] else [] | _ \<Rightarrow> [])"
  by (auto simp: posted_def started_def queued_def received_def split: loop_event.split)

lemma history_same:
  assumes "l_log w' = l_log w"
  shows "posted w' = posted w" "started w' = started w" "queued p w' = queued p w" "received p w' = received p w"
  using assms by (simp_all add: posted_def started_def queued_def received_def)

section \<open>The parts of the invariant\<close>

text \<open>
  \<open>due\<close> are the timers that the host has taken from its queue and is about to run.
\<close>

definition ids_ok :: "loop \<Rightarrow> bool" where
  "ids_ok w = (0 < l_next w \<and> dom (l_page w) \<subseteq> {..<l_next w} \<and> dom (l_internal w) \<subseteq> {..<l_next w} \<and> dom (l_page w) \<inter> dom (l_internal w) = {} \<and>
     (\<forall>tid \<in> ran (l_idle w). tid < l_next w \<and> l_internal w tid \<noteq> Some RunOneTask))"

definition native_ok :: "loop \<Rightarrow> bool" where
  "native_ok w = sorted (map (\<lambda>(x, dl, sq). dl) (l_native w))"

text \<open>The pump is armed: its timer is about to run, or has a deadline that has come.\<close>

definition armed :: "nat list \<Rightarrow> nat \<Rightarrow> nat \<Rightarrow> (nat \<times> nat \<times> nat) list \<Rightarrow> bool" where
  "armed due x now es = (x \<in> set due \<or> (\<exists>dl sq. (x, dl, sq) \<in> set es \<and> dl \<le> now))"

definition pumps :: "(nat \<Rightarrow> ifun option) \<Rightarrow> nat set" where
  "pumps m = {x. m x = Some RunOneTask}"

definition pump_ok :: "nat list \<Rightarrow> loop \<Rightarrow> bool" where
  "pump_ok due w =
     ((l_tasks w \<noteq> [] \<longrightarrow> l_task_timer w \<noteq> 0) \<and> pumps (l_internal w) = (if l_task_timer w = 0 then {} else {l_task_timer w}) \<and>
      (l_task_timer w \<noteq> 0 \<longrightarrow> armed due (l_task_timer w) (l_now w) (l_native w)))"

definition fifo_ok :: "loop \<Rightarrow> bool" where
  "fifo_ok w = (posted w = started w @ l_tasks w)"

text \<open>
  A port: what was put into its queue, what came out as messages, how many tasks will deliver to it, and whether
  it is not made yet.
\<close>

definition port_ok :: "port \<Rightarrow> msg list \<Rightarrow> msg list \<Rightarrow> nat \<Rightarrow> bool \<Rightarrow> bool" where
  "port_ok q qu re n new =
     ((p_fwd q = None \<longrightarrow> qu = re @ p_queue q) \<and> (p_fwd q \<noteq> None \<longrightarrow> p_queue q = [] \<and> prefix re qu) \<and>
      (p_started q \<and> \<not> p_closed q \<longrightarrow> length (p_queue q) \<le> n) \<and> (new \<longrightarrow> qu = [] \<and> re = [] \<and> p_queue q = [] \<and> \<not> p_started q))"

definition deliveries :: "nat \<Rightarrow> ltask list \<Rightarrow> nat" where
  "deliveries p ts = length (filter (\<lambda>t. t = DeliverPort p) ts)"

definition ports_ok :: "loop \<Rightarrow> bool" where
  "ports_ok w = (\<forall>p. port_ok (l_ports w p) (queued p w) (received p w) (deliveries p (l_tasks w)) (l_nports w \<le> p))"

section \<open>A turn, up to the page code\<close>

text \<open>What a task and a timer do before page code runs, and the event that runs it.\<close>

definition task_event :: "ltask \<Rightarrow> loop \<Rightarrow> loop \<times> loop_event option" where
  "task_event t w = (case t of
     OtherTask f \<Rightarrow> (w, Some (RanTask f))
   | DeliverPort p \<Rightarrow> (let q = l_ports w p in
       if p_closed q then (w, None)
       else case p_queue q of [] \<Rightarrow> (w, None) | m # ms \<Rightarrow> (upd_port p (\<lambda>q. q\<lparr>p_queue := ms\<rparr>) w, Some (Message p m)))
   | DeliverBroadcast c dat \<Rightarrow> if c_closed (l_chans w c) then (w, None) else (w, Some (BroadcastMessage c dat)))"

definition pump_event :: "loop \<Rightarrow> loop \<times> loop_event option" where
  "pump_event w =
     (let w1 = w\<lparr>l_task_timer := 0\<rparr> in
      case l_tasks w1 of
        [] \<Rightarrow> (w1, None)
      | t # ts \<Rightarrow> let w2 = logged (Started t) (w1\<lparr>l_tasks := ts\<rparr>) in task_event t (if ts \<noteq> [] then arm_tasks w2 else w2))"

definition internal_event :: "ifun \<Rightarrow> loop \<Rightarrow> loop \<times> loop_event option" where
  "internal_event f w = (case f of
     RunOneTask \<Rightarrow> pump_event w
   | RunIdle x g \<Rightarrow> if l_idle w x = None then (w, None) else (w\<lparr>l_idle := (l_idle w)(x := None)\<rparr>, Some (RanIdle x g))
   | OtherFn g \<Rightarrow> (w, Some (RanInternal g)))"

definition continue_with :: "page \<Rightarrow> loop \<times> loop_event option \<Rightarrow> loop" where
  "continue_with page r = (case r of (w, None) \<Rightarrow> w | (w, Some e) \<Rightarrow> emit page e w)"

lemma run_ltask_event: "run_ltask page t w = continue_with page (task_event t w)"
  by (auto simp: run_ltask_def task_event_def continue_with_def port_deliver_def Let_def split: ltask.split list.split prod.split)

lemma run_internal_event: "run_internal page f w = continue_with page (internal_event f w)"
  by (auto simp: run_internal_def internal_event_def run_one_task_def pump_event_def run_ltask_event Let_def continue_with_def split: ifun.split list.split)

text \<open>
  A property of states that every call keeps, and every step of the loop around page code; \<open>due\<close> is what the host
  still has to run.
\<close>

locale loop_prop =
  fixes P :: "nat list \<Rightarrow> loop \<Rightarrow> bool"
  assumes p_call: "P due w \<Longrightarrow> P due (do_call c w)"
    and p_nest: "P due w \<Longrightarrow> P due (w\<lparr>l_nesting := n\<rparr>)"
    and p_frame: "P due w \<Longrightarrow> P due (w\<lparr>l_raf := raf, l_frame := wanted\<rparr>)"
    and p_hook: "P due w \<Longrightarrow> e = RanFrameHook k \<or> e = RanFrame a b \<Longrightarrow> P due (logged e w)"
    and p_tick: "P [] w \<Longrightarrow> P [] (w\<lparr>l_now := l_now w + n\<rparr>)"
    and p_due: "P [] w \<Longrightarrow> take_due w = (w', due) \<Longrightarrow> P due w'"
    and p_internal: "P (x # due) w \<Longrightarrow> l_internal w x = Some f \<Longrightarrow>
        internal_event f (w\<lparr>l_internal := (l_internal w)(x := None)\<rparr>) = (w', oe) \<Longrightarrow> P due (case oe of None \<Rightarrow> w' | Some e \<Rightarrow> logged e w')"
    and p_nothing: "P (x # due) w \<Longrightarrow> l_internal w x = None \<Longrightarrow> l_page w x = None \<Longrightarrow> P due w"
    and p_timer: "P (x # due) w \<Longrightarrow> l_internal w x = None \<Longrightarrow> l_page w x = Some t \<Longrightarrow>
        P due (logged (RanTimer x (m_handler t)) (if m_repeat t then w else w\<lparr>l_page := (l_page w)(x := None)\<rparr>))"
    and p_rearm: "P due w \<Longrightarrow> l_page w x \<noteq> None \<Longrightarrow> P due (native_set x d (w\<lparr>l_page := (l_page w)(x \<mapsto> t)\<rparr>))"
begin

lemma p_calls: "P due w \<Longrightarrow> P due (fold do_call cs w)"
  by (induction cs arbitrary: w) (auto intro: p_call)

lemma p_emit: "P due (logged e w) \<Longrightarrow> P due (emit page e w)"
  by (simp add: emit_def Let_def p_calls)

lemma logged_nesting: "logged e (w\<lparr>l_nesting := n\<rparr>) = (logged e w)\<lparr>l_nesting := n\<rparr>"
  by (simp add: logged_def)

lemma p_on_timer: "P (x # due) w \<Longrightarrow> P due (on_timer page x w)"
proof (cases "l_internal w x")
  case (Some f)
  assume p: "P (x # due) w"
  obtain w' e where e: "internal_event f (w\<lparr>l_internal := (l_internal w)(x := None)\<rparr>) = (w', e)" by fastforce
  from p_internal [OF p Some e] show ?thesis
    by (cases e) (simp_all add: on_timer_def Some run_internal_event e continue_with_def p_emit)
next
  case None
  assume p: "P (x # due) w"
  show ?thesis
  proof (cases "l_page w x")
    case (Some t)
    define w1 where "w1 = (if m_repeat t then w else w\<lparr>l_page := (l_page w)(x := None)\<rparr>)"
    define w3 where "w3 = (emit page (RanTimer x (m_handler t)) (w1\<lparr>l_nesting := m_nesting t\<rparr>))\<lparr>l_nesting := l_nesting w1\<rparr>"
    have "P due (logged (RanTimer x (m_handler t)) w1)" unfolding w1_def by (rule p_timer [OF p None Some])
    then have "P due w3" unfolding w3_def by (intro p_nest p_emit) (simp add: logged_nesting p_nest)
    moreover from this have "P due (native_set x d (w3\<lparr>l_page := (l_page w3)(x \<mapsto> t')\<rparr>))" if "l_page w3 x \<noteq> None" for d t'
      using that by (rule p_rearm)
    moreover have "on_timer page x w = (if m_repeat t \<and> l_page w3 x \<noteq> None
        then native_set x (clamp_nested (m_nesting t) (m_delay t)) (w3\<lparr>l_page := (l_page w3)(x \<mapsto> t\<lparr>m_nesting := m_nesting t + 1\<rparr>)\<rparr>) else w3)"
      using None Some by (simp add: on_timer_def Let_def w1_def w3_def)
    ultimately show ?thesis by simp
  qed (use p None in \<open>simp add: on_timer_def p_nothing\<close>)
qed

lemma p_timers: "P due w \<Longrightarrow> P [] (fold (on_timer page) due w)"
  by (induction due arbitrary: w) (auto intro: p_on_timer)

lemma p_run_due: "P [] w \<Longrightarrow> P [] (run_due page w)"
  by (auto simp: run_due_def split: prod.split intro: p_timers p_due)

lemma p_raf: "P due w \<Longrightarrow> P due (w\<lparr>l_raf := r\<rparr>)" and p_flag: "P due w \<Longrightarrow> P due (w\<lparr>l_frame := f\<rparr>)"
  using p_frame [where due = due and w = w and raf = r and wanted = "l_frame w"] p_frame [where due = due and w = w and raf = "l_raf w" and wanted = f] by simp_all

lemma p_frame_callbacks: "P due w \<Longrightarrow> P due (fold (run_frame_callback page) xs w)"
proof (induction xs arbitrary: w)
  case (Cons x xs)
  have "P due (run_frame_callback page x w)"
    using Cons.prems by (auto simp: run_frame_callback_def split: option.split intro!: p_emit p_hook p_raf)
  with Cons.IH show ?case by simp
qed simp

lemma p_on_frame: "P due w \<Longrightarrow> P due (on_frame page w)"
  by (simp add: on_frame_def Let_def request_frame_def p_flag p_emit p_hook p_frame_callbacks)

theorem p_step: "P [] w \<Longrightarrow> P [] (host_step page s w)"
  by (cases s) (simp_all add: host_step_def p_run_due p_tick p_on_frame p_calls)

theorem p_run: "P [] w \<Longrightarrow> P [] (run_loop page ss w)"
  by (induction ss arbitrary: w) (auto simp: run_loop_def p_step)

end

section \<open>The invariant and the elementary operations\<close>

lemma native_insert_set [simp]: "set (native_insert e es) = insert e (set es)"
  by (induction e es rule: native_insert.induct) auto

lemma native_insert_sorted: "sorted (map (\<lambda>(x, dl, sq). dl) es) \<Longrightarrow> sorted (map (\<lambda>(x, dl, sq). dl) (native_insert e es))"
  by (induction e es rule: native_insert.induct) auto

lemma sorted_filter_key: "sorted (map f xs) \<Longrightarrow> sorted (map f (filter P xs))"
  by (induction xs) auto

lemma native_clear_sel [simp]:
  "l_native (native_clear x w) = filter (\<lambda>e. fst e \<noteq> x) (l_native w)" "l_now (native_clear x w) = l_now w" "l_seq (native_clear x w) = l_seq w"
  "l_next (native_clear x w) = l_next w" "l_page (native_clear x w) = l_page w" "l_internal (native_clear x w) = l_internal w"
  "l_tasks (native_clear x w) = l_tasks w" "l_task_timer (native_clear x w) = l_task_timer w" "l_idle (native_clear x w) = l_idle w"
  "l_ports (native_clear x w) = l_ports w" "l_nports (native_clear x w) = l_nports w" "l_log (native_clear x w) = l_log w"
  by (simp_all add: native_clear_def)

lemma native_set_sel [simp]:
  "set (l_native (native_set x d w)) = insert (x, l_now w + delay_micros d, Suc (l_seq w)) {e \<in> set (l_native w). fst e \<noteq> x}" "l_now (native_set x d w) = l_now w"
  "l_next (native_set x d w) = l_next w" "l_page (native_set x d w) = l_page w" "l_internal (native_set x d w) = l_internal w"
  "l_tasks (native_set x d w) = l_tasks w" "l_task_timer (native_set x d w) = l_task_timer w" "l_idle (native_set x d w) = l_idle w"
  "l_ports (native_set x d w) = l_ports w" "l_nports (native_set x d w) = l_nports w" "l_log (native_set x d w) = l_log w"
  by (auto simp: native_set_def Let_def)

lemma native_kept: "native_ok w \<Longrightarrow> native_ok (native_clear x w)" "native_ok w \<Longrightarrow> native_ok (native_set x d w)"
  by (simp_all add: native_ok_def sorted_filter_key native_set_def native_insert_sorted Let_def)

definition core_ok :: "nat list \<Rightarrow> loop \<Rightarrow> bool" where
  "core_ok due w = (ids_ok w \<and> native_ok w \<and> pump_ok due w)"

text \<open>What the core reads.\<close>

lemma core_same:
  assumes "l_next w' = l_next w" "l_page w' = l_page w" "l_internal w' = l_internal w" "l_idle w' = l_idle w" "l_native w' = l_native w"
    "l_tasks w' = l_tasks w" "l_task_timer w' = l_task_timer w" "l_now w' = l_now w"
  shows "core_ok due w' = core_ok due w"
  using assms by (simp add: core_ok_def ids_ok_def native_ok_def pump_ok_def)

lemma core_logged [simp]: "core_ok due (logged e w) = core_ok due w"
  by (rule core_same) simp_all

lemma pumps_iff [simp]: "x \<in> pumps m \<longleftrightarrow> m x = Some RunOneTask"
  by (simp add: pumps_def)

lemma pumps_upd: "pumps (m(x := None)) = pumps m - {x}" "pumps (m(x \<mapsto> f)) = (if f = RunOneTask then insert x (pumps m) else pumps m - {x})"
  by (auto simp: pumps_def)

lemma pump_there: "pump_ok due w \<Longrightarrow> l_task_timer w \<noteq> 0 \<Longrightarrow> l_internal w (l_task_timer w) = Some RunOneTask"
  using pumps_iff [of "l_task_timer w" "l_internal w"] by (simp add: pump_ok_def)

lemma pump_only: "pump_ok due w \<Longrightarrow> l_internal w x = Some RunOneTask \<Longrightarrow> l_task_timer w \<noteq> 0 \<and> x = l_task_timer w"
  using pumps_iff [of x "l_internal w"] by (auto simp: pump_ok_def split: if_splits)

lemma pump_below: "core_ok due w \<Longrightarrow> l_task_timer w < l_next w"
  using pump_there [of due w] by (cases "l_task_timer w = 0") (auto simp: core_ok_def ids_ok_def)

lemma pump_not: "core_ok due w \<Longrightarrow> l_internal w x \<noteq> Some RunOneTask \<Longrightarrow> l_task_timer w = 0 \<or> x \<noteq> l_task_timer w"
  using pump_there [of due w] by (auto simp: core_ok_def)

lemma page_not_internal: "core_ok due w \<Longrightarrow> l_page w x \<noteq> None \<Longrightarrow> l_internal w x = None"
  by (auto simp: core_ok_def ids_ok_def dom_def)

lemma armed_clear: "armed due x now es \<Longrightarrow> y \<noteq> x \<Longrightarrow> armed due x now (filter (\<lambda>e. fst e \<noteq> y) es)"
  by (auto simp: armed_def)

lemma armed_mono:
  assumes "armed due x now es" "\<And>e. e \<in> set es \<Longrightarrow> fst e = x \<Longrightarrow> e \<in> set es'"
  shows "armed due x now es'"
proof (cases "x \<in> set due")
  case False
  with assms(1) obtain dl sq where e: "(x, dl, sq) \<in> set es" "dl \<le> now" by (auto simp: armed_def)
  with assms(2) [of "(x, dl, sq)"] have "(x, dl, sq) \<in> set es'" by simp
  with e(2) show ?thesis unfolding armed_def by blast
qed (simp add: armed_def)

lemma core_native:
  assumes "core_ok due w" "l_task_timer w = 0 \<or> x \<noteq> l_task_timer w"
  shows "core_ok due (native_clear x w)" "core_ok due (native_set x d w)"
proof -
  have "l_task_timer w \<noteq> 0 \<Longrightarrow> armed due (l_task_timer w) (l_now w) (l_native (native_set x d w))"
    by (rule armed_mono [of due _ _ "l_native w"]) (use assms in \<open>auto simp: core_ok_def pump_ok_def\<close>)
  with assms show "core_ok due (native_clear x w)" "core_ok due (native_set x d w)"
    by (auto simp: core_ok_def ids_ok_def pump_ok_def native_kept armed_clear)
qed

lemma core_page:
  assumes "core_ok due w" "l_page w x \<noteq> None"
  shows "core_ok due (w\<lparr>l_page := (l_page w)(x := None)\<rparr>)" "core_ok due (w\<lparr>l_page := (l_page w)(x \<mapsto> t)\<rparr>)"
  using assms by (auto simp: core_ok_def ids_ok_def pump_ok_def native_ok_def)

lemma core_internal:
  assumes "core_ok due w" "l_internal w x \<noteq> Some RunOneTask"
  shows "core_ok due (w\<lparr>l_internal := (l_internal w)(x := None)\<rparr>)"
proof -
  have "pumps (l_internal w) - {x} = pumps (l_internal w)" using assms(2) by auto
  with assms(1) show ?thesis by (auto simp: core_ok_def ids_ok_def pump_ok_def native_ok_def pumps_upd)
qed

lemma core_idle:
  assumes "core_ok due w"
  shows "core_ok due (w\<lparr>l_idle := (l_idle w)(x := None)\<rparr>)"
    "tid < l_next w \<Longrightarrow> l_internal w tid \<noteq> Some RunOneTask \<Longrightarrow> core_ok due (w\<lparr>l_idle := (l_idle w)(x \<mapsto> tid)\<rparr>)"
  using assms by (auto simp: core_ok_def ids_ok_def pump_ok_def native_ok_def ran_def)

lemma core_new_page:
  assumes "core_ok due w"
  shows "core_ok due (w\<lparr>l_next := Suc (l_next w), l_page := (l_page w)(l_next w \<mapsto> t)\<rparr>)"
proof -
  have "l_next w \<notin> dom (l_internal w)" using assms by (auto simp: core_ok_def ids_ok_def)
  with assms show ?thesis by (auto simp: core_ok_def ids_ok_def pump_ok_def native_ok_def)
qed

lemma core_new_internal:
  assumes "core_ok due w" "f \<noteq> RunOneTask"
  shows "core_ok due (w\<lparr>l_next := Suc (l_next w), l_internal := (l_internal w)(l_next w \<mapsto> f)\<rparr>)"
proof -
  have "l_next w \<notin> dom (l_page w)" "l_next w \<notin> dom (l_internal w)" using assms by (auto simp: core_ok_def ids_ok_def)
  moreover from this have "pumps (l_internal w) - {l_next w} = pumps (l_internal w)" by auto
  ultimately show ?thesis using assms by (auto simp: core_ok_def ids_ok_def pump_ok_def native_ok_def pumps_upd)
qed

lemma add_timer_core: "core_ok due w \<Longrightarrow> core_ok due (fst (add_timer f d r w))"
  using pump_below [of due w] core_new_page [of due w] by (simp add: add_timer_def Let_def core_native(2))

lemma clear_timer_core:
  assumes "core_ok due w"
  shows "core_ok due (clear_timer n w)"
proof (cases "\<exists>x. id_of_num n = Some x \<and> l_page w x \<noteq> None")
  case True
  then obtain x where x: "id_of_num n = Some x" "l_page w x \<noteq> None" by blast
  have "l_internal w x \<noteq> Some RunOneTask" using page_not_internal [OF assms x(2)] by simp
  from pump_not [OF assms this] core_page(1) [OF assms x(2)] x show ?thesis by (auto simp: clear_timer_def intro!: core_native(1))
qed (use assms in \<open>auto simp: clear_timer_def split: option.split\<close>)

lemma internal_timeout_core: "core_ok due w \<Longrightarrow> f \<noteq> RunOneTask \<Longrightarrow> core_ok due (fst (internal_timeout f d w))"
  using pump_below [of due w] core_new_internal [of due w f] by (simp add: internal_timeout_def Let_def core_native(2))

lemma clear_internal_core: "core_ok due w \<Longrightarrow> l_internal w x \<noteq> Some RunOneTask \<Longrightarrow> core_ok due (clear_internal x w)"
  using pump_not [of due w x] by (auto simp: clear_internal_def intro!: core_native(1) core_internal)

lemma arm_tasks_sel:
  "l_tasks (arm_tasks w) = l_tasks w" "l_log (arm_tasks w) = l_log w" "l_ports (arm_tasks w) = l_ports w" "l_nports (arm_tasks w) = l_nports w"
  "l_page (arm_tasks w) = l_page w" "l_next (arm_tasks w) = Suc (l_next w)" "l_internal (arm_tasks w) = (l_internal w)(l_next w \<mapsto> RunOneTask)"
  by (simp_all add: arm_tasks_def internal_timeout_def Let_def)

lemma arm_tasks_core:
  assumes "ids_ok w" "native_ok w" "pumps (l_internal w) = {}"
  shows "core_ok due (arm_tasks w)"
proof -
  have d: "delay_micros (norm_delay (Fin 0)) = 0" by (simp add: norm_delay_def delay_micros_def)
  have "0 < l_next w" "l_next w \<notin> dom (l_page w)" using assms(1) by (auto simp: ids_ok_def)
  moreover have "ids_ok (arm_tasks w)" using assms(1) calculation
    by (auto simp: arm_tasks_def internal_timeout_def Let_def ids_ok_def ran_def)
  moreover have "native_ok (arm_tasks w)" using native_kept(2) [of "w\<lparr>l_next := Suc (l_next w), l_internal := (l_internal w)(l_next w \<mapsto> RunOneTask)\<rparr>"] assms(2)
    by (simp add: arm_tasks_def internal_timeout_def Let_def native_ok_def)
  ultimately show ?thesis using assms(3) d
    by (simp add: core_ok_def pump_ok_def arm_tasks_def internal_timeout_def Let_def pumps_upd armed_def)
qed

lemma post_task_sel [simp]:
  "l_tasks (post_task t w) = l_tasks w @ [t]" "l_log (post_task t w) = l_log w @ [Posted t]" "l_ports (post_task t w) = l_ports w" "l_nports (post_task t w) = l_nports w"
  "l_page (post_task t w) = l_page w"
  by (simp_all add: post_task_def Let_def arm_tasks_sel)

lemma post_task_core:
  assumes "core_ok due w"
  shows "core_ok due (post_task t w)"
proof (cases "l_task_timer w = 0")
  case True
  with assms have "core_ok due (arm_tasks (logged (Posted t) (w\<lparr>l_tasks := l_tasks w @ [t]\<rparr>)))"
    by (intro arm_tasks_core) (auto simp: core_ok_def ids_ok_def native_ok_def pump_ok_def)
  with True show ?thesis by (simp add: post_task_def Let_def)
next
  case False
  with assms show ?thesis by (auto simp: post_task_def Let_def core_ok_def ids_ok_def native_ok_def pump_ok_def)
qed

lemma posts_core: "core_ok due w \<Longrightarrow> core_ok due (fold (\<lambda>x. post_task (f x)) xs w)"
  by (induction xs arbitrary: w) (auto intro: post_task_core)

lemma posts_sel: "l_tasks (fold (\<lambda>x. post_task (f x)) xs w) = l_tasks w @ map f xs" "l_log (fold (\<lambda>x. post_task (f x)) xs w) = l_log w @ map (Posted \<circ> f) xs"
  "l_ports (fold (\<lambda>x. post_task (f x)) xs w) = l_ports w" "l_nports (fold (\<lambda>x. post_task (f x)) xs w) = l_nports w" "l_page (fold (\<lambda>x. post_task (f x)) xs w) = l_page w"
  by (induction xs arbitrary: w) auto

lemma upd_port_core [simp]: "core_ok due (upd_port p f w) = core_ok due w"
  by (rule core_same) (simp_all add: upd_port_def)

lemma upd_port_sel [simp]: "l_tasks (upd_port p f w) = l_tasks w" "l_log (upd_port p f w) = l_log w" "l_ports (upd_port p f w) = (l_ports w)(p := f (l_ports w p))"
  "l_nports (upd_port p f w) = l_nports w" "l_page (upd_port p f w) = l_page w" "l_next (upd_port p f w) = l_next w" "l_internal (upd_port p f w) = l_internal w"
  by (simp_all add: upd_port_def)

lemma port_enqueue_core: "core_ok due w \<Longrightarrow> core_ok due (port_enqueue p m w)"
  by (auto simp: port_enqueue_def Let_def intro!: post_task_core split: option.split)

lemma core_upd [simp]:
  "core_ok due (w\<lparr>l_nports := a1\<rparr>) = core_ok due w" "core_ok due (w\<lparr>l_raf := a2\<rparr>) = core_ok due w" "core_ok due (w\<lparr>l_frame := a3\<rparr>) = core_ok due w"
  "core_ok due (w\<lparr>l_raf_id := a4\<rparr>) = core_ok due w" "core_ok due (w\<lparr>l_idle_id := a5\<rparr>) = core_ok due w" "core_ok due (w\<lparr>l_nchans := a6\<rparr>) = core_ok due w"
  "core_ok due (w\<lparr>l_chans := a7\<rparr>) = core_ok due w" "core_ok due (w\<lparr>l_parts := a8\<rparr>) = core_ok due w" "core_ok due (w\<lparr>l_nesting := a9\<rparr>) = core_ok due w"
  "core_ok due (w\<lparr>l_raf_id := a4, l_raf := a2\<rparr>) = core_ok due w" "core_ok due (w\<lparr>l_raf := a2, l_frame := a3\<rparr>) = core_ok due w"
  "core_ok due (w\<lparr>l_nchans := a6, l_chans := a7, l_parts := a8\<rparr>) = core_ok due w" "core_ok due (w\<lparr>l_chans := a7, l_parts := a8\<rparr>) = core_ok due w"
  "core_ok due (w\<lparr>l_raf_id := a4, l_raf := a2, l_frame := a3\<rparr>) = core_ok due w"
  by (simp_all add: core_ok_def ids_ok_def native_ok_def pump_ok_def)

lemma frames_core: "core_ok due (fst (request_animation_frame f w)) = core_ok due w" "core_ok due (cancel_animation_frame n w) = core_ok due w"
  by (simp_all add: request_animation_frame_def request_frame_def Let_def cancel_animation_frame_def)

lemma channels_core: "core_ok due w \<Longrightarrow> core_ok due (fst (new_broadcast s w))" "core_ok due w \<Longrightarrow> core_ok due (fst (broadcast_post c a w))"
  "core_ok due w \<Longrightarrow> core_ok due (broadcast_close c w)"
  by (simp_all add: new_broadcast_def broadcast_post_def broadcast_close_def Let_def posts_core)

lemma ports_core:
  assumes "core_ok due w"
  shows "core_ok due (new_message_channel w)" "core_ok due (fst (post_message p a ps w))" "core_ok due (port_start p w)" "core_ok due (port_close p w)"
    "core_ok due (fst (port_detach p r w))" "core_ok due (case new_port w of (w1, p) \<Rightarrow> port_link p r w1)" "core_ok due (port_peer_closed p w)"
proof -
  show pc: "core_ok due (port_peer_closed p w)" using assms by (auto simp: port_peer_closed_def Let_def split: option.split)
  show "core_ok due (port_close p w)" using assms pc by (simp add: port_close_def)
  show "core_ok due (new_message_channel w)" using assms by (simp add: new_message_channel_def new_port_def entangle_def Let_def)
  have "core_ok due (port_send p m w)" for m
    using assms by (auto simp: port_send_def port_enqueue_core split: option.split)
  then show "core_ok due (fst (post_message p a ps w))" using assms by (auto simp: post_message_def Let_def split: sum.split)
  show "core_ok due (port_start p w)" using assms by (simp add: port_start_def Let_def posts_core [where f = "\<lambda>_. DeliverPort p"])
  show "core_ok due (fst (port_detach p r w))" using assms by (simp add: port_detach_def Let_def)
  show "core_ok due (case new_port w of (w1, p) \<Rightarrow> port_link p r w1)" using assms by (simp add: new_port_def port_link_def Let_def)
qed

theorem do_call_core: "core_ok due w \<Longrightarrow> core_ok due (do_call c w)"
proof (cases c)
  case (InternalTimeout f d)
  assume "core_ok due w"
  then show ?thesis using InternalTimeout by (simp add: do_call_def internal_timeout_core)
next
  case (RequestIdle f)
  assume a: "core_ok due w"
  let ?x = "Suc (l_idle_id w)"
  let ?w = "w\<lparr>l_idle_id := ?x\<rparr>"
  have c: "core_ok due ?w" using a by simp
  obtain w1 tid where r: "internal_timeout (RunIdle ?x f) (Fin 1) ?w = (w1, tid)" by fastforce
  have "core_ok due w1" using internal_timeout_core [OF c, of "RunIdle ?x f" "Fin 1"] r by simp
  moreover have "tid < l_next w1" "l_internal w1 tid \<noteq> Some RunOneTask" using r by (auto simp: internal_timeout_def Let_def)
  ultimately show ?thesis using RequestIdle core_idle(2) by (simp add: do_call_def request_idle_callback_def Let_def r)
next
  case (CancelIdle n)
  assume a: "core_ok due w"
  have "l_internal w tid \<noteq> Some RunOneTask" if "l_idle w x = Some tid" for x tid
    using a that by (auto simp: core_ok_def ids_ok_def ran_def)
  with a show ?thesis
    using CancelIdle by (auto simp: do_call_def cancel_idle_callback_def split: option.split intro!: clear_internal_core core_idle(1))
qed (simp_all add: do_call_def with_port_def add_timer_core clear_timer_core post_task_core frames_core channels_core ports_core port_enqueue_core)

section \<open>The order of tasks and messages\<close>

text \<open>What the order reads: the log, the tasks and the ports.\<close>

lemma order_same:
  assumes "l_log w' = l_log w" "l_tasks w' = l_tasks w" "l_ports w' = l_ports w" "l_nports w' = l_nports w"
  shows "fifo_ok w' = fifo_ok w" "ports_ok w' = ports_ok w"
  using assms by (simp_all add: fifo_ok_def ports_ok_def posted_def started_def queued_def received_def)

definition plain :: "loop_event \<Rightarrow> bool" where
  "plain e = (case e of Posted t \<Rightarrow> False | Started t \<Rightarrow> False | Queued p m \<Rightarrow> False | Message p m \<Rightarrow> False | _ \<Rightarrow> True)"

lemma order_plain: "plain e \<Longrightarrow> fifo_ok (logged e w) = fifo_ok w" "plain e \<Longrightarrow> ports_ok (logged e w) = ports_ok w"
  by (cases e; simp add: plain_def fifo_ok_def ports_ok_def history_logged)+

lemma post_history:
  "posted (post_task t w) = posted w @ [t]" "started (post_task t w) = started w" "queued p (post_task t w) = queued p w" "received p (post_task t w) = received p w"
  by (simp_all add: posted_def started_def queued_def received_def)

lemma post_order:
  assumes "fifo_ok w"
  shows "fifo_ok (post_task t w)"
  using assms by (simp add: fifo_ok_def post_history)

lemma port_ok_more: "port_ok q qu re n new \<Longrightarrow> n \<le> n' \<Longrightarrow> port_ok q qu re n' new"
  by (auto simp: port_ok_def)

lemma deliveries_append [simp]: "deliveries p (ts @ us) = deliveries p ts + deliveries p us" "deliveries p [] = 0"
  "deliveries p [t] = (if t = DeliverPort p then 1 else 0)" "deliveries p (t # us) = (if t = DeliverPort p then 1 else 0) + deliveries p us"
  by (simp_all add: deliveries_def)

lemma post_ports:
  assumes "ports_ok w"
  shows "ports_ok (post_task t w)"
  unfolding ports_ok_def post_history post_task_sel
  using assms by (auto simp: ports_ok_def intro: port_ok_more)

lemma posts_order: "fifo_ok w \<Longrightarrow> fifo_ok (fold (\<lambda>x. post_task (f x)) xs w)" "ports_ok w \<Longrightarrow> ports_ok (fold (\<lambda>x. post_task (f x)) xs w)"
  by (induction xs arbitrary: w) (auto intro: post_order post_ports)

lemma upd_port_history [simp]:
  "posted (upd_port p f w) = posted w" "started (upd_port p f w) = started w" "queued q (upd_port p f w) = queued q w" "received q (upd_port p f w) = received q w"
  by (simp_all add: upd_port_def posted_def started_def queued_def received_def)

lemma fifo_port [simp]: "fifo_ok (upd_port p f w) = fifo_ok w"
  by (simp add: fifo_ok_def)

lemma enqueue_order:
  assumes "fifo_ok w"
  shows "fifo_ok (port_enqueue p m w)"
  using assms by (auto simp: port_enqueue_def Let_def post_order fifo_ok_def post_history history_logged split: option.split)

lemma enqueue_ports:
  assumes "ports_ok w" "p < l_nports w"
  shows "ports_ok (port_enqueue p m w)"
proof (cases "p_closed (l_ports w p) \<or> p_fwd (l_ports w p) \<noteq> None")
  case True
  with assms(1) show ?thesis by (auto simp: port_enqueue_def Let_def order_plain plain_def)
next
  case False
  then have e: "port_enqueue p m w = (let w1 = logged (Queued p m) (upd_port p (\<lambda>q. q\<lparr>p_queue := p_queue q @ [m]\<rparr>) w) in
      if p_started (l_ports w p) then post_task (DeliverPort p) w1 else w1)"
    by (simp add: port_enqueue_def Let_def)
  have n: "port_ok (l_ports w r) (queued r w) (received r w) (deliveries r (l_tasks w)) (l_nports w \<le> r)" for r
    using assms(1) by (simp add: ports_ok_def)
  have f: "p_fwd (l_ports w p) = None" using False by simp
  have "port_ok (l_ports (port_enqueue p m w) r) (queued r (port_enqueue p m w)) (received r (port_enqueue p m w))
      (deliveries r (l_tasks (port_enqueue p m w))) (l_nports (port_enqueue p m w) \<le> r)" for r
    using n [of r] f assms(2) by (cases "r = p") (auto simp: e Let_def post_history history_logged port_ok_def)
  then show ?thesis by (simp add: ports_ok_def)
qed

lemma start_ports:
  assumes "ports_ok w" "p < l_nports w"
  shows "ports_ok (port_start p w)"
proof (cases "p_started (l_ports w p)")
  case False
  let ?w = "upd_port p (\<lambda>q. q\<lparr>p_started := True\<rparr>) w"
  have h: "queued r (port_start p w) = queued r w" "received r (port_start p w) = received r w" for r
    using False by (simp_all add: port_start_def Let_def queued_def received_def posts_sel comp_def map_replicate_const)
  have s: "port_start p w = fold (\<lambda>_. post_task (DeliverPort p)) (p_queue (l_ports w p)) ?w" using False by (simp add: port_start_def)
  have n: "port_ok (l_ports w r) (queued r w) (received r w) (deliveries r (l_tasks w)) (l_nports w \<le> r)" for r
    using assms(1) by (simp add: ports_ok_def)
  have d: "deliveries p (map (\<lambda>_. DeliverPort p) ms) = length ms" for ms :: "msg list" by (simp add: deliveries_def)
  show ?thesis unfolding ports_ok_def h
  proof
    fix r
    show "port_ok (l_ports (port_start p w) r) (queued r w) (received r w) (deliveries r (l_tasks (port_start p w))) (l_nports (port_start p w) \<le> r)"
      unfolding s posts_sel using n [of r] assms(2) d by (cases "r = p") (auto simp: port_ok_def)
  qed
qed (use assms(1) in \<open>simp add: port_start_def\<close>)

lemma port_fields:
  assumes "ports_ok w" "\<And>q. p_fwd (f q) = p_fwd q \<and> p_queue (f q) = p_queue q \<and> p_started (f q) = p_started q \<and> (p_closed q \<longrightarrow> p_closed (f q))"
  shows "ports_ok (upd_port p f w)"
proof -
  have "port_ok q qu re n new \<Longrightarrow> port_ok (f q) qu re n new" for q qu re n new
    using assms(2) [of q] by (auto simp: port_ok_def)
  with assms(1) show ?thesis by (auto simp: ports_ok_def)
qed

lemma new_port_ports: "ports_ok w \<Longrightarrow> ports_ok (fst (new_port w))"
proof -
  assume a: "ports_ok w"
  have n: "port_ok (l_ports w r) (queued r w) (received r w) (deliveries r (l_tasks w)) (l_nports w \<le> r)" for r
    using a by (simp add: ports_ok_def)
  have "port_ok (l_ports (fst (new_port w)) r) (queued r w) (received r w) (deliveries r (l_tasks w)) (Suc (l_nports w) \<le> r)" for r
    using n [of r] by (cases "r = l_nports w") (auto simp: new_port_def Let_def port_ok_def)
  moreover have "queued r (fst (new_port w)) = queued r w" "received r (fst (new_port w)) = received r w" for r
    by (simp_all add: new_port_def Let_def queued_def received_def)
  ultimately show ?thesis by (simp add: ports_ok_def new_port_def Let_def)
qed

lemma detach_ports: "ports_ok w \<Longrightarrow> ports_ok (fst (port_detach p r w))"
proof -
  assume a: "ports_ok w"
  have "port_ok q qu re n new \<Longrightarrow> port_ok (q\<lparr>p_queue := [], p_fwd := Some r\<rparr>) qu re n new" for q qu re n new
    by (cases "p_fwd q") (auto simp: port_ok_def)
  with a show ?thesis by (auto simp: ports_ok_def port_detach_def Let_def)
qed

text \<open>The peer of a port exists.\<close>

definition peers_ok :: "loop \<Rightarrow> bool" where
  "peers_ok w = (\<forall>p r. p_other (l_ports w p) = Some r \<longrightarrow> r < l_nports w)"

lemma peers_port: "peers_ok w \<Longrightarrow> (\<And>r. p_other (f (l_ports w p)) = Some r \<Longrightarrow> r < l_nports w) \<Longrightarrow> peers_ok (upd_port p f w)"
  by (auto simp: peers_ok_def)

lemma peer_exists: "peers_ok w \<Longrightarrow> p_other (l_ports w p) = Some r \<Longrightarrow> r < l_nports w"
  by (auto simp: peers_ok_def)

lemma peers_same: "l_ports w' = l_ports w \<Longrightarrow> l_nports w' = l_nports w \<Longrightarrow> peers_ok w' = peers_ok w"
  by (simp add: peers_ok_def)

lemma peers_new: "peers_ok w \<Longrightarrow> peers_ok (fst (new_port w))"
  by (fastforce simp: peers_ok_def new_port_def Let_def)

definition order_ok :: "loop \<Rightarrow> bool" where
  "order_ok w = (fifo_ok w \<and> ports_ok w \<and> peers_ok w)"

lemma order_kept:
  assumes "order_ok w" "l_log w' = l_log w" "l_tasks w' = l_tasks w" "l_ports w' = l_ports w" "l_nports w' = l_nports w"
  shows "order_ok w'"
  using assms order_same [OF assms(2-5)] peers_same [OF assms(4,5)] by (simp add: order_ok_def)

lemma order_upd [simp]:
  "order_ok (w\<lparr>l_raf := a2\<rparr>) = order_ok w" "order_ok (w\<lparr>l_frame := a3\<rparr>) = order_ok w" "order_ok (w\<lparr>l_nesting := a9\<rparr>) = order_ok w"
  "order_ok (w\<lparr>l_nchans := a6\<rparr>) = order_ok w" "order_ok (w\<lparr>l_nchans := a6, l_chans := a7, l_parts := a8\<rparr>) = order_ok w" "order_ok (w\<lparr>l_chans := a7, l_parts := a8\<rparr>) = order_ok w"
  "order_ok (w\<lparr>l_raf := a2, l_frame := a3\<rparr>) = order_ok w" "order_ok (w\<lparr>l_internal := b\<rparr>) = order_ok w" "order_ok (w\<lparr>l_page := b1\<rparr>) = order_ok w"
  "order_ok (w\<lparr>l_idle := b2\<rparr>) = order_ok w" "order_ok (w\<lparr>l_native := b3\<rparr>) = order_ok w" "order_ok (w\<lparr>l_now := b4\<rparr>) = order_ok w"
  "order_ok (w\<lparr>l_task_timer := b5\<rparr>) = order_ok w" "order_ok (native_clear x w) = order_ok w" "order_ok (native_set x d w) = order_ok w"
  by (simp_all add: order_ok_def native_set_def native_clear_def Let_def fifo_ok_def ports_ok_def peers_ok_def posted_def started_def queued_def received_def)

lemma timers_order:
  assumes "order_ok w"
  shows "order_ok (fst (add_timer f d r w))" "order_ok (fst (internal_timeout g d w))" "order_ok (clear_internal x w)"
    "order_ok (fst (request_animation_frame f w))" "order_ok (cancel_animation_frame n w)" "order_ok (fst (request_idle_callback f w))" "order_ok (cancel_idle_callback n w)"
    "order_ok (arm_tasks w)"
  by (rule order_kept [OF assms];
      simp add: add_timer_def internal_timeout_def clear_internal_def request_animation_frame_def request_frame_def cancel_animation_frame_def
        request_idle_callback_def cancel_idle_callback_def arm_tasks_def Let_def split: option.split)+

lemma order_task: "order_ok w \<Longrightarrow> order_ok (post_task t w)" "order_ok w \<Longrightarrow> order_ok (fold (\<lambda>x. post_task (g x)) xs w)"
  by (auto simp: order_ok_def post_order post_ports posts_order peers_ok_def posts_sel)

lemma order_plain_log: "plain e \<Longrightarrow> order_ok (logged e w) = order_ok w"
  by (simp add: order_ok_def order_plain peers_ok_def)

lemma clear_order: "order_ok w \<Longrightarrow> order_ok (clear_timer n w)"
  by (auto simp: clear_timer_def order_plain_log plain_def split: option.split)

lemma channels_order: "order_ok w \<Longrightarrow> order_ok (fst (new_broadcast s w))" "order_ok w \<Longrightarrow> order_ok (fst (broadcast_post c a w))"
  "order_ok w \<Longrightarrow> order_ok (broadcast_close c w)"
  by (simp_all add: new_broadcast_def broadcast_post_def broadcast_close_def Let_def order_task)

lemma order_port:
  assumes "order_ok w" "\<And>q. p_fwd (f q) = p_fwd q \<and> p_queue (f q) = p_queue q \<and> p_started (f q) = p_started q \<and> (p_closed q \<longrightarrow> p_closed (f q))"
    "\<And>q r. p_other (f q) = Some r \<Longrightarrow> p_other q = Some r \<or> r < l_nports w"
  shows "order_ok (upd_port p f w)"
proof -
  have "peers_ok (upd_port p f w)"
    by (rule peers_port) (use assms(1) assms(3) [of "l_ports w p"] peer_exists [of w p] in \<open>auto simp: order_ok_def\<close>)
  with assms(1,2) show ?thesis by (simp add: order_ok_def port_fields)
qed

lemma new_port_order: "order_ok w \<Longrightarrow> order_ok (fst (new_port w))"
  by (simp add: order_ok_def new_port_ports peers_new) (simp add: new_port_def Let_def fifo_ok_def posted_def started_def)

lemma entangle_order: "order_ok w \<Longrightarrow> a < l_nports w \<Longrightarrow> b < l_nports w \<Longrightarrow> order_ok (entangle a b w)"
  unfolding entangle_def by (rule order_port, rule order_port) auto

lemma ports_order:
  assumes "order_ok w"
  shows "order_ok (new_message_channel w)" "p < l_nports w \<Longrightarrow> order_ok (port_start p w)" "order_ok (port_peer_closed p w)" "order_ok (port_close p w)"
    "order_ok (fst (port_detach p r w))" "order_ok (case new_port w of (w1, p) \<Rightarrow> port_link p r w1)"
    "p < l_nports w \<Longrightarrow> order_ok (port_enqueue p m w)" "order_ok (port_send p m w)" "order_ok (fst (post_message p a ps w))"
proof -
  have o1: "fifo_ok w" "ports_ok w" "peers_ok w" using assms by (simp_all add: order_ok_def)
  obtain w1 a1 where n1: "new_port w = (w1, a1)" by fastforce
  obtain w2 b1 where n2: "new_port w1 = (w2, b1)" by fastforce
  have k1: "order_ok w1" using new_port_order [OF assms] n1 by simp
  have k2: "order_ok w2" using new_port_order [OF k1] n2 by simp
  have "a1 < l_nports w2" "b1 < l_nports w2" using n1 n2 by (auto simp: new_port_def Let_def)
  then show "order_ok (new_message_channel w)" using entangle_order [OF k2] by (simp add: new_message_channel_def n1 n2)
  show "order_ok (case new_port w of (w1, p) \<Rightarrow> port_link p r w1)" using k1 by (auto simp: n1 port_link_def intro: order_port)
  have "peers_ok (fst (port_detach p r w))" using o1(3) by (auto simp: port_detach_def Let_def peers_ok_def)
  then show "order_ok (fst (port_detach p r w))" using o1 detach_ports by (simp add: order_ok_def) (simp add: port_detach_def Let_def)
  have pl: "plain (ClosedLink k)" "plain (SentOver k m)" for k m by (simp_all add: plain_def)
  have "order_ok (upd_port p (\<lambda>q. q\<lparr>p_closed := True, p_link := None\<rparr>) w)" by (rule order_port [OF assms]) auto
  then show "order_ok (port_peer_closed p w)"
    using assms by (auto simp: port_peer_closed_def Let_def order_plain_log [OF pl(1)] split: option.split)
  then show "order_ok (port_close p w)" using assms by (simp add: port_close_def)
  have q: "peers_ok (port_enqueue p m w)" if "p < l_nports w" for p m
  proof -
    have "peers_ok (upd_port p (\<lambda>q. q\<lparr>p_queue := p_queue q @ [m]\<rparr>) w)" using o1(3) by (auto simp: peers_ok_def)
    with o1(3) show ?thesis by (simp add: port_enqueue_def Let_def peers_ok_def split: option.split)
  qed
  have e: "p < l_nports w \<Longrightarrow> order_ok (port_enqueue p m w)" for p m using o1 q by (simp add: order_ok_def enqueue_order enqueue_ports)
  then show "p < l_nports w \<Longrightarrow> order_ok (port_enqueue p m w)" by blast
  have "p_other (l_ports w p) = Some k \<Longrightarrow> order_ok (port_enqueue k m w)" for k m by (rule e) (rule peer_exists [OF o1(3)])
  then have s: "order_ok (port_send p m w)" for m
    using assms by (auto simp: port_send_def order_plain_log [OF pl(2)] split: option.split)
  then show "order_ok (port_send p m w)" by blast
  show "order_ok (fst (post_message p a ps w))" using assms s by (auto simp: post_message_def Let_def split: sum.split)
  assume p: "p < l_nports w"
  have "fifo_ok (port_start p w)" "peers_ok (port_start p w)"
    using o1 posts_order(1) [where f = "\<lambda>_. DeliverPort p" and xs = "p_queue (l_ports w p)" and w = "upd_port p (\<lambda>q. q\<lparr>p_started := True\<rparr>) w"]
    by (auto simp: port_start_def Let_def peers_ok_def posts_sel)
  with start_ports [OF o1(2) p] show "order_ok (port_start p w)" by (simp add: order_ok_def)
qed

theorem do_call_order: "order_ok w \<Longrightarrow> order_ok (do_call c w)"
  by (cases c) (simp_all add: do_call_def with_port_def timers_order clear_order order_task channels_order ports_order)

end
