(* ===== verification/LoopInv.thy ===== *)
theory LoopInv
  imports LoopLaws
begin

text \<open>
  The invariant of the event loop holds after every step of the host, whatever page code calls.
\<close>

section \<open>The invariant of the loop\<close>

definition loop_ok :: "nat list \<Rightarrow> loop \<Rightarrow> bool" where
  "loop_ok due w = (core_ok due w \<and> order_ok w)"

lemma core_later: "core_ok [] w \<Longrightarrow> core_ok [] (w\<lparr>l_now := l_now w + n\<rparr>)"
  by (fastforce simp: core_ok_def ids_ok_def native_ok_def pump_ok_def armed_def)

lemma core_due:
  assumes "core_ok [] w" "take_due w = (w', due)"
  shows "core_ok due w'"
proof -
  let ?P = "\<lambda>(x, dl, sq). dl \<le> l_now w"
  have w': "w' = w\<lparr>l_native := dropWhile ?P (l_native w)\<rparr>" and due: "due = map fst (takeWhile ?P (l_native w))"
    using assms(2) by (simp_all add: take_due_def)
  have "sorted (map (\<lambda>(x, dl, sq). dl) (dropWhile ?P es))" if "sorted (map (\<lambda>(x, dl, sq). dl) es)" for es
    using that by (induction es) auto
  moreover have "armed due y (l_now w) (dropWhile ?P (l_native w))" if a: "armed [] y (l_now w) (l_native w)" for y
  proof -
    obtain dl sq where "(y, dl, sq) \<in> set (l_native w)" "dl \<le> l_now w" using a unfolding armed_def by auto
    then have "(y, dl, sq) \<in> set (takeWhile ?P (l_native w)) \<or> (y, dl, sq) \<in> set (dropWhile ?P (l_native w))"
      by (metis (no_types, lifting) Un_iff set_append takeWhile_dropWhile_id)
    with \<open>dl \<le> l_now w\<close> show ?thesis unfolding armed_def due by force
  qed
  ultimately have "native_ok w'" "pump_ok due w'" using assms(1) by (auto simp: w' core_ok_def native_ok_def pump_ok_def)
  with assms(1) show ?thesis by (simp add: w' core_ok_def ids_ok_def)
qed

text \<open>A task is started: it leaves the queue, and what it delivers leaves the queue of its port.\<close>

lemma port_ok_deliver:
  assumes "port_ok q qu re n new" "q' = (if p_closed q then q else q\<lparr>p_queue := tl (p_queue q)\<rparr>)"
  shows "port_ok q' qu (if p_closed q then re else re @ take 1 (p_queue q)) (n - 1) new"
proof (cases "p_queue q")
  case (Cons m ms)
  with assms show ?thesis by (cases "p_fwd q") (auto simp: port_ok_def)
qed (use assms in \<open>auto simp: port_ok_def\<close>)

lemma started_ports:
  assumes "ports_ok w" "l_tasks w = t # ts" "l_log w3 = l_log w @ [Started t]" "l_tasks w3 = ts" "l_ports w3 = l_ports w" "l_nports w3 = l_nports w"
    "task_event t w3 = (w', oe)"
  shows "ports_ok (case oe of None \<Rightarrow> w' | Some e \<Rightarrow> logged e w')"
proof -
  have q: "queued p w3 = queued p w" "received p w3 = received p w" for p using assms(3) by (simp_all add: queued_def received_def)
  have n: "port_ok (l_ports w p) (queued p w) (received p w) (deliveries p (t # ts)) (l_nports w \<le> p)" for p
    using assms(1,2) by (simp add: ports_ok_def)
  have less: "port_ok x qu re (Suc k) new \<Longrightarrow> p_closed x \<or> p_queue x = [] \<Longrightarrow> port_ok x qu re k new" for x qu re k new
    by (auto simp: port_ok_def)
  show ?thesis
  proof (cases "\<exists>p m ms. t = DeliverPort p \<and> \<not> p_closed (l_ports w p) \<and> p_queue (l_ports w p) = m # ms")
    case True
    then obtain p m ms where t: "t = DeliverPort p" "\<not> p_closed (l_ports w p)" "p_queue (l_ports w p) = m # ms" by blast
    then have e: "w' = upd_port p (\<lambda>q. q\<lparr>p_queue := ms\<rparr>) w3" "oe = Some (Message p m)" using assms(5,7) by (simp_all add: task_event_def Let_def)
    have "port_ok ((l_ports w p)\<lparr>p_queue := ms\<rparr>) (queued p w) (received p w @ [m]) (deliveries p ts) (l_nports w \<le> p)"
      using port_ok_deliver [OF n [of p] refl] t by simp
    moreover have "port_ok (l_ports w r) (queued r w) (received r w) (deliveries r ts) (l_nports w \<le> r)" if "r \<noteq> p" for r
      using n [of r] that t(1) by simp
    ultimately show ?thesis by (auto simp: ports_ok_def e assms(4-6) q history_logged)
  next
    case False
    have "port_ok (l_ports w r) (queued r w) (received r w) (deliveries r ts) (l_nports w \<le> r)" for r
    proof (cases "t = DeliverPort r")
      case True
      then have "p_closed (l_ports w r) \<or> p_queue (l_ports w r) = []" using False by (cases "p_queue (l_ports w r)") auto
      with less n [of r] True show ?thesis by simp
    qed (use n [of r] in simp)
    then have "ports_ok w3" by (simp add: ports_ok_def assms(4-6) q)
    moreover have "w' = w3 \<and> (oe = None \<or> (\<exists>e. oe = Some e \<and> plain e))"
      using assms(7,5) False by (auto simp: task_event_def Let_def plain_def split: ltask.splits if_splits list.splits)
    ultimately show ?thesis by (auto simp: order_plain)
  qed
qed

lemma peers_logged: "peers_ok (logged e w) = peers_ok w"
  by (simp add: peers_ok_def)

lemma peers_queue: "peers_ok (upd_port p (\<lambda>q. q\<lparr>p_queue := ms\<rparr>) w) = peers_ok w"
proof -
  have "p_other ((l_ports (upd_port p (\<lambda>q. q\<lparr>p_queue := ms\<rparr>) w)) r) = p_other (l_ports w r)" for r by simp
  then show ?thesis unfolding peers_ok_def by simp
qed

lemma fifo_message: "fifo_ok (logged (Message p m) w) = fifo_ok w"
  by (simp add: fifo_ok_def history_logged)

lemma pump_order:
  assumes "order_ok w" "pump_event w = (w', oe)"
  shows "order_ok (case oe of None \<Rightarrow> w' | Some e \<Rightarrow> logged e w')"
proof (cases "l_tasks w")
  case Nil
  with assms show ?thesis by (auto simp: pump_event_def Let_def)
next
  case (Cons t ts)
  define w2 where "w2 = logged (Started t) (w\<lparr>l_task_timer := 0, l_tasks := ts\<rparr>)"
  define w3 where "w3 = (if ts \<noteq> [] then arm_tasks w2 else w2)"
  have w3: "l_log w3 = l_log w @ [Started t]" "l_tasks w3 = ts" "l_ports w3 = l_ports w" "l_nports w3 = l_nports w"
    by (simp_all add: w3_def w2_def arm_tasks_sel)
  have e: "task_event t w3 = (w', oe)" using assms(2) Cons unfolding pump_event_def Let_def w2_def w3_def by simp
  have o1: "fifo_ok w" "ports_ok w" "peers_ok w" using assms(1) by (simp_all add: order_ok_def)
  have "fifo_ok w3" using o1(1) Cons w3(1,2) by (simp add: fifo_ok_def posted_def started_def)
  moreover have "peers_ok w3" using o1(3) w3 by (simp add: peers_ok_def)
  moreover have "w' = w3 \<or> (\<exists>p ms. w' = upd_port p (\<lambda>q. q\<lparr>p_queue := ms\<rparr>) w3)" "\<forall>x. oe = Some x \<longrightarrow> plain x \<or> (\<exists>p m. x = Message p m)"
    using e by (auto simp: task_event_def Let_def plain_def split: ltask.splits if_splits list.splits)
  ultimately have "fifo_ok (case oe of None \<Rightarrow> w' | Some e \<Rightarrow> logged e w')" "peers_ok (case oe of None \<Rightarrow> w' | Some e \<Rightarrow> logged e w')"
    by (auto simp: peers_logged order_plain fifo_message peers_queue split: option.split)
  with started_ports [OF o1(2) Cons w3 e] show ?thesis by (simp add: order_ok_def)
qed

lemma task_event_core:
  assumes "core_ok due w" "task_event t w = (w', oe)"
  shows "core_ok due w'"
  using assms by (auto simp: task_event_def Let_def split: ltask.splits if_splits list.splits)

lemma ids_internal: "ids_ok w \<Longrightarrow> ids_ok (w\<lparr>l_internal := (l_internal w)(x := None)\<rparr>)"
  by (auto simp: ids_ok_def)

lemma pump_core:
  assumes "core_ok (x # due) w" "l_internal w x = Some RunOneTask" "pump_event (w\<lparr>l_internal := (l_internal w)(x := None)\<rparr>) = (w', oe)"
  shows "core_ok due w'"
proof -
  have k: "pump_ok (x # due) w" using assms(1) by (simp add: core_ok_def)
  from pump_only [OF this assms(2)] have t: "l_task_timer w = x" "l_task_timer w \<noteq> 0" by (simp_all only: simp_thms)
  have "pumps (l_internal w) = (if l_task_timer w = 0 then {} else {l_task_timer w})" using k by (simp add: pump_ok_def)
  then have "pumps (l_internal w) = {x}" using t by simp
  then have p: "pumps ((l_internal w)(x := None)) = {}" by (simp add: pumps_upd)
  have i: "ids_ok w" "native_ok w" using assms(1) by (simp_all add: core_ok_def)
  define w1 where "w1 = w\<lparr>l_internal := (l_internal w)(x := None), l_task_timer := 0\<rparr>"
  have w1: "ids_ok (w1\<lparr>l_tasks := ts\<rparr>)" "native_ok (w1\<lparr>l_tasks := ts\<rparr>)" "pumps (l_internal (w1\<lparr>l_tasks := ts\<rparr>)) = {}"
    "l_task_timer (w1\<lparr>l_tasks := ts\<rparr>) = 0" for ts
    using ids_internal [OF i(1), of x] i(2) p by (simp_all add: ids_ok_def native_ok_def w1_def)
  have none: "core_ok due (w1\<lparr>l_tasks := []\<rparr>)" unfolding core_ok_def pump_ok_def using w1 [of "[]"] by simp
  show ?thesis
  proof (cases "l_tasks w")
    case Nil
    then have "w1\<lparr>l_tasks := []\<rparr> = w1" by (simp add: w1_def)
    with none assms(3) Nil show ?thesis by (simp add: pump_event_def Let_def w1_def)
  next
    case (Cons t ts)
    define w2 where "w2 = logged (Started t) (w1\<lparr>l_tasks := ts\<rparr>)"
    have "core_ok due (arm_tasks w2)"
      by (rule arm_tasks_core) (use w1 [of ts] in \<open>simp_all add: w2_def ids_ok_def native_ok_def\<close>)
    then have "core_ok due (if ts \<noteq> [] then arm_tasks w2 else w2)"
      using none by (simp add: w2_def)
    moreover have "task_event t (if ts \<noteq> [] then arm_tasks w2 else w2) = (w', oe)"
      using assms(3) Cons unfolding pump_event_def Let_def w2_def w1_def by simp
    ultimately show ?thesis by (rule task_event_core)
  qed
qed

lemma core_drop:
  assumes "core_ok (x # due) w" "l_internal w x \<noteq> Some RunOneTask"
  shows "core_ok due w"
proof -
  have "l_task_timer w = 0 \<or> x \<noteq> l_task_timer w" by (rule pump_not [OF assms])
  then have "armed due (l_task_timer w) (l_now w) (l_native w)" if "armed (x # due) (l_task_timer w) (l_now w) (l_native w)" "l_task_timer w \<noteq> 0"
    using that unfolding armed_def by auto
  with assms(1) show ?thesis unfolding core_ok_def pump_ok_def by blast
qed

theorem core_internal_event:
  assumes "core_ok (x # due) w" "l_internal w x = Some f" "internal_event f (w\<lparr>l_internal := (l_internal w)(x := None)\<rparr>) = (w', oe)"
  shows "core_ok due w'"
proof (cases "f = RunOneTask")
  case True
  with assms show ?thesis by (simp add: internal_event_def pump_core)
next
  case False
  have "core_ok due w" by (rule core_drop [OF assms(1)]) (use assms(2) False in simp)
  then have c: "core_ok due (w\<lparr>l_internal := (l_internal w)(x := None)\<rparr>)" by (rule core_internal) (use assms(2) False in simp)
  from assms(3) False show ?thesis
    by (cases f) (use c core_idle(1) [OF c] in \<open>auto simp: internal_event_def split: if_splits\<close>)
qed

theorem order_internal_event:
  assumes "order_ok w" "internal_event f (w\<lparr>l_internal := m\<rparr>) = (w', oe)"
  shows "order_ok (case oe of None \<Rightarrow> w' | Some e \<Rightarrow> logged e w')"
proof (cases f)
  case RunOneTask
  with assms(2) show ?thesis by (intro pump_order [of "w\<lparr>l_internal := m\<rparr>"]) (simp_all add: assms(1) internal_event_def)
qed (use assms in \<open>auto simp: internal_event_def order_plain_log plain_def split: if_splits\<close>)

interpretation loop_order: loop_prop loop_ok
proof unfold_locales
  fix due w w' x f oe
  assume "loop_ok (x # due) w" "l_internal w x = Some f" "internal_event f (w\<lparr>l_internal := (l_internal w)(x := None)\<rparr>) = (w', oe)"
  then show "loop_ok due (case oe of None \<Rightarrow> w' | Some e \<Rightarrow> logged e w')"
    using core_internal_event [of x due w f w' oe] order_internal_event [of w f "(l_internal w)(x := None)" w' oe]
    by (cases oe) (simp_all add: loop_ok_def)
next
  fix due w' w
  assume "loop_ok [] w" "take_due w = (w', due)"
  then show "loop_ok due w'" using core_due [of w w' due] by (auto simp: loop_ok_def take_due_def)
next
  fix due w x
  assume "loop_ok (x # due) w" "l_internal w x = None" "l_page w x = None"
  then show "loop_ok due w" using core_drop [of x due w] by (simp add: loop_ok_def)
next
  fix due w x t
  assume "loop_ok (x # due) w" "l_internal w x = None" "l_page w x = Some t"
  then show "loop_ok due (logged (RanTimer x (m_handler t)) (if m_repeat t then w else w\<lparr>l_page := (l_page w)(x := None)\<rparr>))"
    using core_drop [of x due w] core_page(1) [of due w x] by (simp add: loop_ok_def order_plain_log plain_def)
next
  fix due w x d t
  assume a: "loop_ok due w" "l_page w x \<noteq> None"
  then have c: "core_ok due w" by (simp add: loop_ok_def)
  have "l_task_timer w = 0 \<or> x \<noteq> l_task_timer w" by (rule pump_not [OF c]) (simp add: page_not_internal [OF c a(2)])
  then have "core_ok due (native_set x d (w\<lparr>l_page := (l_page w)(x \<mapsto> t)\<rparr>))"
    using core_native(2) [OF core_page(2) [OF c a(2)]] by simp
  then show "loop_ok due (native_set x d (w\<lparr>l_page := (l_page w)(x \<mapsto> t)\<rparr>))" using a(1) by (simp add: loop_ok_def)
qed (auto simp: loop_ok_def do_call_core do_call_order order_plain_log plain_def core_later)

lemma start_ok: "loop_ok [] start_loop"
  by (simp add: loop_ok_def core_ok_def ids_ok_def native_ok_def pump_ok_def order_ok_def fifo_ok_def ports_ok_def peers_ok_def start_loop_def
      posted_def started_def queued_def received_def port_ok_def pumps_def)

theorem loop_run_ok: "loop_ok [] (run_loop page ss start_loop)"
  by (rule loop_order.p_run) (rule start_ok)

section \<open>Timers that are gone\<close>

text \<open>Since a timer of the page was cleared, it has not run, and no part of the loop knows it.\<close>

definition quiet_after :: "nat \<Rightarrow> loop_event list \<Rightarrow> bool" where
  "quiet_after x es = (\<forall>f. RanTimer x f \<notin> set (tl (dropWhile (\<lambda>e. e \<noteq> Cleared x) es)))"

lemma quiet_after_later:
  assumes "quiet_after x es" "e = Cleared x \<or> Cleared x \<notin> set es \<or> (\<forall>f. e \<noteq> RanTimer x f)"
  shows "quiet_after x (es @ [e])"
proof (cases "Cleared x \<in> set es")
  case True
  then have "dropWhile (\<lambda>e. e \<noteq> Cleared x) (es @ [e]) = dropWhile (\<lambda>e. e \<noteq> Cleared x) es @ [e]" "dropWhile (\<lambda>e. e \<noteq> Cleared x) es \<noteq> []"
    by (simp_all add: dropWhile_append1)
  with assms True show ?thesis by (auto simp: quiet_after_def)
next
  case False
  then have "dropWhile (\<lambda>e. e \<noteq> Cleared x) es = []" by auto
  then show ?thesis by (auto simp: quiet_after_def dropWhile_append)
qed

lemma quiet_after_last:
  assumes "quiet_after x (before @ Cleared x # after)"
  shows "RanTimer x f \<notin> set after"
proof -
  have "set after \<subseteq> set (tl (dropWhile (\<lambda>e. e \<noteq> Cleared x) (before @ Cleared x # after)))"
    by (induction before) auto
  with assms show ?thesis unfolding quiet_after_def by blast
qed

definition dead :: "nat \<Rightarrow> loop \<Rightarrow> bool" where
  "dead x w = ((Cleared x \<in> set (l_log w) \<longrightarrow> x < l_next w \<and> l_page w x = None \<and> l_internal w x = None) \<and> quiet_after x (l_log w))"

lemma dead_same:
  assumes "l_next w' = l_next w" "l_page w' = l_page w" "l_internal w' = l_internal w" "l_log w' = l_log w"
  shows "dead x w' = dead x w"
  using assms by (simp add: dead_def)

lemma dead_upd [simp]:
  "dead x (native_clear y w) = dead x w" "dead x (native_set y d w) = dead x w" "dead x (upd_port p f w) = dead x w"
  "dead x (w\<lparr>l_nports := a1\<rparr>) = dead x w" "dead x (w\<lparr>l_raf := a2\<rparr>) = dead x w" "dead x (w\<lparr>l_frame := a3\<rparr>) = dead x w"
  "dead x (w\<lparr>l_raf_id := a4, l_raf := a2\<rparr>) = dead x w" "dead x (w\<lparr>l_raf := a2, l_frame := a3\<rparr>) = dead x w" "dead x (w\<lparr>l_idle_id := a5\<rparr>) = dead x w"
  "dead x (w\<lparr>l_nchans := a6, l_chans := a7, l_parts := a8\<rparr>) = dead x w" "dead x (w\<lparr>l_chans := a7, l_parts := a8\<rparr>) = dead x w"
  "dead x (w\<lparr>l_raf_id := a4, l_raf := a2, l_frame := a3\<rparr>) = dead x w" "dead x (w\<lparr>l_nesting := a9\<rparr>) = dead x w" "dead x (w\<lparr>l_idle := b1\<rparr>) = dead x w"
  "dead x (w\<lparr>l_tasks := b2\<rparr>) = dead x w" "dead x (w\<lparr>l_now := b3\<rparr>) = dead x w" "dead x (w\<lparr>l_native := b4\<rparr>) = dead x w"
  "dead x (w\<lparr>l_task_timer := b5\<rparr>) = dead x w" "dead x (w\<lparr>l_raf_id := a4\<rparr>) = dead x w" "dead x (w\<lparr>l_nchans := a6\<rparr>) = dead x w"
  by (simp_all add: dead_def)

lemma dead_removed:
  assumes "dead x w"
  shows "dead x (w\<lparr>l_page := (l_page w)(y := None)\<rparr>)" "dead x (w\<lparr>l_internal := (l_internal w)(y := None)\<rparr>)"
    "dead x (w\<lparr>l_next := Suc (l_next w), l_page := (l_page w)(l_next w \<mapsto> t)\<rparr>)" "dead x (w\<lparr>l_next := Suc (l_next w), l_internal := (l_internal w)(l_next w \<mapsto> f)\<rparr>)"
  using assms by (auto simp: dead_def)

lemma dead_logged: "dead x w \<Longrightarrow> e \<noteq> Cleared x \<Longrightarrow> (\<And>f. e \<noteq> RanTimer x f) \<Longrightarrow> dead x (logged e w)"
  by (auto simp: dead_def intro: quiet_after_later)

lemma dead_clear:
  assumes "core_ok due w" "dead x w"
  shows "dead x (clear_timer k w)"
proof -
  have "dead x (logged (Cleared y) (native_clear y (w\<lparr>l_page := (l_page w)(y := None)\<rparr>)))" if "l_page w y \<noteq> None" for y
    using assms that page_not_internal [OF assms(1) that]
    by (cases "y = x") (auto simp: dead_def core_ok_def ids_ok_def intro: quiet_after_later)
  with assms(2) show ?thesis by (auto simp: clear_timer_def split: option.split)
qed

lemma dead_ops:
  assumes "dead x w"
  shows "dead x (fst (add_timer f d r w))" "dead x (fst (internal_timeout g d w))" "dead x (clear_internal y w)" "dead x (arm_tasks w)"
    "dead x (fst (request_animation_frame f w))" "dead x (cancel_animation_frame k w)"
    "dead x (fst (new_broadcast s w))" "dead x (broadcast_close y w)" "dead x (new_message_channel w)"
    "dead x (fst (port_detach y z w))" "dead x (case new_port w of (w1, p) \<Rightarrow> port_link p z w1)" "dead x (port_peer_closed y w)" "dead x (port_close y w)"
  using assms
  by (auto simp: add_timer_def internal_timeout_def clear_internal_def arm_tasks_def request_animation_frame_def request_frame_def cancel_animation_frame_def
      new_broadcast_def broadcast_close_def new_message_channel_def new_port_def entangle_def port_detach_def port_link_def port_peer_closed_def port_close_def Let_def
      dead_removed dead_logged split: option.split)

lemma dead_post: "dead x w \<Longrightarrow> dead x (post_task t w)"
  by (simp add: post_task_def Let_def dead_logged dead_ops(4))

lemma dead_posts: "dead x w \<Longrightarrow> dead x (fold (\<lambda>y. post_task (f y)) ys w)"
  by (induction ys arbitrary: w) (simp_all add: dead_post)

lemma dead_enqueue: "dead x w \<Longrightarrow> dead x (port_enqueue p m w)"
  by (auto simp: port_enqueue_def Let_def dead_logged dead_post split: option.split)

lemma dead_send: "dead x w \<Longrightarrow> dead x (port_send p m w)"
  by (auto simp: port_send_def dead_logged dead_enqueue split: option.split)

lemma dead_call: "core_ok due w \<Longrightarrow> dead x w \<Longrightarrow> dead x (do_call c w)"
proof (cases c)
  case (RequestIdle f)
  assume d: "dead x w"
  obtain w1 tid where r: "internal_timeout (RunIdle (Suc (l_idle_id w)) f) (Fin 1) (w\<lparr>l_idle_id := Suc (l_idle_id w)\<rparr>) = (w1, tid)" by fastforce
  with d dead_ops(2) [of x "w\<lparr>l_idle_id := Suc (l_idle_id w)\<rparr>" "RunIdle (Suc (l_idle_id w)) f" "Fin 1"] RequestIdle show ?thesis
    by (simp add: do_call_def request_idle_callback_def Let_def)
qed (auto simp: do_call_def with_port_def dead_clear dead_ops dead_post dead_posts dead_enqueue dead_send port_start_def Let_def cancel_idle_callback_def
      post_message_def broadcast_post_def dead_posts [where f = "\<lambda>_. DeliverPort p" for p] split: option.split sum.split)

lemma dead_internal_event:
  assumes "dead x w" "internal_event f (w\<lparr>l_internal := (l_internal w)(y := None)\<rparr>) = (w', oe)"
  shows "dead x (case oe of None \<Rightarrow> w' | Some e \<Rightarrow> logged e w')"
proof -
  have task: "dead x (case oe of None \<Rightarrow> w' | Some e \<Rightarrow> logged e w')" if "dead x w" "task_event t w = (w', oe)" for w t
    using that by (auto simp: task_event_def Let_def dead_logged split: ltask.splits if_splits list.splits)
  have "dead x (case oe of None \<Rightarrow> w' | Some e \<Rightarrow> logged e w')" if "dead x w" "pump_event w = (w', oe)" for w
  proof (cases "l_tasks w")
    case Nil
    with that show ?thesis by (auto simp: pump_event_def)
  next
    case (Cons t ts)
    define w2 where "w2 = logged (Started t) (w\<lparr>l_task_timer := 0, l_tasks := ts\<rparr>)"
    have "dead x (if ts \<noteq> [] then arm_tasks w2 else w2)" using that(1) by (simp add: w2_def dead_logged dead_ops(4))
    moreover have "task_event t (if ts \<noteq> [] then arm_tasks w2 else w2) = (w', oe)"
      using that(2) Cons unfolding pump_event_def Let_def w2_def by simp
    ultimately show ?thesis by (rule task)
  qed
  with assms dead_removed(2) [OF assms(1), of y] show ?thesis
    by (cases f) (auto simp: internal_event_def dead_logged split: if_splits)
qed

interpretation loop_dead: loop_prop "\<lambda>due w. loop_ok due w \<and> dead x w" for x
proof unfold_locales
  fix due w w' y f oe
  assume "loop_ok (y # due) w \<and> dead x w" "l_internal w y = Some f" "internal_event f (w\<lparr>l_internal := (l_internal w)(y := None)\<rparr>) = (w', oe)"
  then show "loop_ok due (case oe of None \<Rightarrow> w' | Some e \<Rightarrow> logged e w') \<and> dead x (case oe of None \<Rightarrow> w' | Some e \<Rightarrow> logged e w')"
    using loop_order.p_internal [of y due w f w' oe] dead_internal_event [of x w f y w' oe] by blast
next
  fix due w y t
  assume a: "loop_ok (y # due) w \<and> dead x w" "l_internal w y = None" "l_page w y = Some t"
  let ?w = "if m_repeat t then w else w\<lparr>l_page := (l_page w)(y := None)\<rparr>"
  have "dead x ?w" using a(1) dead_removed(1) [of x w y] by simp
  moreover have "y = x \<Longrightarrow> Cleared x \<notin> set (l_log ?w)" using a by (auto simp: dead_def)
  ultimately have "dead x (logged (RanTimer y (m_handler t)) ?w)"
    using quiet_after_later [of x "l_log ?w" "RanTimer y (m_handler t)"] by (cases "y = x") (simp_all add: dead_def del: if_split)
  with a loop_order.p_timer [of y due w t]
  show "loop_ok due (logged (RanTimer y (m_handler t)) ?w) \<and> dead x (logged (RanTimer y (m_handler t)) ?w)" by blast
next
  fix due w y d t
  assume a: "loop_ok due w \<and> dead x w" "l_page w y \<noteq> None"
  with loop_order.p_rearm [of due w y d t]
  show "loop_ok due (native_set y d (w\<lparr>l_page := (l_page w)(y \<mapsto> t)\<rparr>)) \<and> dead x (native_set y d (w\<lparr>l_page := (l_page w)(y \<mapsto> t)\<rparr>))"
    by (auto simp: dead_def)
next
  fix due w c
  assume "loop_ok due w \<and> dead x w"
  then show "loop_ok due (do_call c w) \<and> dead x (do_call c w)" using loop_order.p_call [of due w c] dead_call [of due w x c] by (auto simp: loop_ok_def)
next
  fix due w k
  assume "loop_ok due w \<and> dead x w"
  then show "loop_ok due (w\<lparr>l_nesting := k\<rparr>) \<and> dead x (w\<lparr>l_nesting := k\<rparr>)" by (simp add: loop_order.p_nest)
next
  fix due w r k
  assume "loop_ok due w \<and> dead x w"
  then show "loop_ok due (w\<lparr>l_raf := r, l_frame := k\<rparr>) \<and> dead x (w\<lparr>l_raf := r, l_frame := k\<rparr>)" by (simp add: loop_order.p_frame)
next
  fix due w e k a b
  assume "loop_ok due w \<and> dead x w" "e = RanFrameHook k \<or> e = RanFrame a b"
  then show "loop_ok due (logged e w) \<and> dead x (logged e w)"
    using loop_order.p_hook [of due w e k a b] dead_logged [of x w e] by auto
next
  fix w k
  assume "loop_ok [] w \<and> dead x w"
  then show "loop_ok [] (w\<lparr>l_now := l_now w + k\<rparr>) \<and> dead x (w\<lparr>l_now := l_now w + k\<rparr>)" by (simp add: loop_order.p_tick)
next
  fix due w w'
  assume a: "loop_ok [] w \<and> dead x w" "take_due w = (w', due)"
  then have "dead x w'" by (auto simp: take_due_def)
  with a show "loop_ok due w' \<and> dead x w'" using loop_order.p_due [of w w' due] by blast
next
  fix due w y
  assume "loop_ok (y # due) w \<and> dead x w" "l_internal w y = None" "l_page w y = None"
  then show "loop_ok due w \<and> dead x w" using loop_order.p_nothing [of y due w] by blast
qed

lemma run_dead: "dead x (run_loop page ss start_loop)"
proof -
  have "loop_ok [] start_loop \<and> dead x start_loop" using start_ok by (simp add: dead_def quiet_after_def start_loop_def)
  from loop_dead.p_run [OF this] show ?thesis by simp
qed

end
