(* ===== verification/LoopProps.thy ===== *)
theory LoopProps
  imports LoopInv
begin

text \<open>
  What the event loop promises: tasks run in the order in which they were posted, a queue of tasks is worked off,
  messages come out of a port in order, and a timer that was cleared does not run.
\<close>

section \<open>Progress\<close>

text \<open>Either the pump \<open>x\<close> is still among the timers that are due, or a task has started meanwhile.\<close>

definition pumping :: "nat \<Rightarrow> nat \<Rightarrow> nat list \<Rightarrow> loop \<Rightarrow> bool" where
  "pumping x n due w = (n < length (started w) \<or> (x \<noteq> 0 \<and> l_task_timer w = x \<and> l_tasks w \<noteq> [] \<and> x \<in> set due \<and> length (started w) = n))"

lemma pumping_same:
  assumes "l_task_timer w' = l_task_timer w" "l_tasks w' = l_tasks w" "l_log w' = l_log w"
  shows "pumping x n due w' = pumping x n due w"
  using assms by (simp add: pumping_def started_def)

lemma pumping_upd [simp]:
  "pumping x n due (native_clear y w) = pumping x n due w" "pumping x n due (native_set y d w) = pumping x n due w" "pumping x n due (w\<lparr>l_nports := a1\<rparr>) = pumping x n due w"
  "pumping x n due (w\<lparr>l_raf := a2\<rparr>) = pumping x n due w" "pumping x n due (w\<lparr>l_frame := a3\<rparr>) = pumping x n due w" "pumping x n due (w\<lparr>l_raf_id := a4\<rparr>) = pumping x n due w"
  "pumping x n due (w\<lparr>l_raf_id := a4, l_raf := a2\<rparr>) = pumping x n due w" "pumping x n due (w\<lparr>l_raf := a2, l_frame := a3\<rparr>) = pumping x n due w"
  "pumping x n due (w\<lparr>l_idle_id := a5\<rparr>) = pumping x n due w" "pumping x n due (w\<lparr>l_nchans := a6\<rparr>) = pumping x n due w"
  "pumping x n due (w\<lparr>l_nchans := a6, l_chans := a7, l_parts := a8\<rparr>) = pumping x n due w" "pumping x n due (w\<lparr>l_chans := a7, l_parts := a8\<rparr>) = pumping x n due w"
  "pumping x n due (w\<lparr>l_raf_id := a4, l_raf := a2, l_frame := a3\<rparr>) = pumping x n due w" "pumping x n due (w\<lparr>l_nesting := a9\<rparr>) = pumping x n due w"
  "pumping x n due (w\<lparr>l_idle := b1\<rparr>) = pumping x n due w" "pumping x n due (w\<lparr>l_now := b3\<rparr>) = pumping x n due w" "pumping x n due (w\<lparr>l_native := b4\<rparr>) = pumping x n due w"
  "pumping x n due (w\<lparr>l_page := b5\<rparr>) = pumping x n due w" "pumping x n due (w\<lparr>l_internal := b6\<rparr>) = pumping x n due w"
  "pumping x n due (w\<lparr>l_next := b7, l_page := b5\<rparr>) = pumping x n due w" "pumping x n due (w\<lparr>l_next := b7, l_internal := b6\<rparr>) = pumping x n due w"
  "pumping x n due (upd_port p f w) = pumping x n due w" "pumping x n due (w\<lparr>l_next := b7\<rparr>) = pumping x n due w"
  by (simp_all add: pumping_def native_clear_def native_set_def Let_def started_def upd_port_def)

lemma pumping_logged: "(\<And>t. e \<noteq> Started t) \<Longrightarrow> pumping x n due (logged e w) = pumping x n due w"
  by (cases e) (auto simp: pumping_def history_logged)

lemma pumping_post: "pumping x n due w \<Longrightarrow> pumping x n due (post_task t w)"
  by (auto simp: pumping_def post_history) (auto simp: post_task_def Let_def)

lemma pumping_posts: "pumping x n due w \<Longrightarrow> pumping x n due (fold (\<lambda>y. post_task (f y)) ys w)"
  by (induction ys arbitrary: w) (simp_all add: pumping_post)

lemma pumping_ops:
  assumes "pumping x n due w"
  shows "pumping x n due (fst (add_timer f d r w))" "pumping x n due (clear_timer k w)" "pumping x n due (fst (internal_timeout g d w))" "pumping x n due (clear_internal y w)"
    "pumping x n due (fst (request_animation_frame f w))" "pumping x n due (cancel_animation_frame k w)"
    "pumping x n due (fst (new_broadcast s w))" "pumping x n due (broadcast_close y w)" "pumping x n due (new_message_channel w)"
    "pumping x n due (fst (port_detach y z w))" "pumping x n due (case new_port w of (w1, p) \<Rightarrow> port_link p z w1)" "pumping x n due (port_peer_closed y w)" "pumping x n due (port_close y w)"
  using assms
  by (auto simp: add_timer_def clear_timer_def internal_timeout_def clear_internal_def request_animation_frame_def request_frame_def cancel_animation_frame_def
      new_broadcast_def broadcast_close_def new_message_channel_def new_port_def entangle_def port_detach_def port_link_def port_peer_closed_def port_close_def Let_def
      pumping_logged split: option.split)

lemma pumping_enqueue: "pumping x n due w \<Longrightarrow> pumping x n due (port_enqueue p m w)"
  by (auto simp: port_enqueue_def Let_def pumping_logged pumping_post split: option.split)

lemma pumping_send: "pumping x n due w \<Longrightarrow> pumping x n due (port_send p m w)"
  by (auto simp: port_send_def pumping_logged pumping_enqueue split: option.split)

lemma pumping_call: "pumping x n due w \<Longrightarrow> pumping x n due (do_call c w)"
proof (cases c)
  case (RequestIdle f)
  assume d: "pumping x n due w"
  obtain w1 tid where r: "internal_timeout (RunIdle (Suc (l_idle_id w)) f) (Fin 1) (w\<lparr>l_idle_id := Suc (l_idle_id w)\<rparr>) = (w1, tid)" by fastforce
  with d pumping_ops(3) [of x n due "w\<lparr>l_idle_id := Suc (l_idle_id w)\<rparr>" "RunIdle (Suc (l_idle_id w)) f" "Fin 1"] RequestIdle show ?thesis
    by (simp add: do_call_def request_idle_callback_def Let_def)
qed (auto simp: do_call_def with_port_def pumping_ops pumping_post pumping_posts pumping_enqueue pumping_send port_start_def Let_def cancel_idle_callback_def
      post_message_def broadcast_post_def pumping_posts [where f = "\<lambda>_. DeliverPort p" for p] split: option.split sum.split)

text \<open>What the pump does is a task started; what another timer does leaves the pump alone.\<close>

lemma pump_starts:
  assumes "pump_event w = (w', oe)" "l_tasks w \<noteq> []"
  shows "length (started (case oe of None \<Rightarrow> w' | Some e \<Rightarrow> logged e w')) = Suc (length (started w))"
proof -
  have task: "started (case oe of None \<Rightarrow> w' | Some e \<Rightarrow> logged e w') = started w" if "task_event t w = (w', oe)" for t w
    using that by (auto simp: task_event_def Let_def history_logged split: ltask.splits if_splits list.splits)
  obtain t ts where t: "l_tasks w = t # ts" using assms(2) by (cases "l_tasks w") auto
  define w2 where "w2 = logged (Started t) (w\<lparr>l_task_timer := 0, l_tasks := ts\<rparr>)"
  have "task_event t (if ts \<noteq> [] then arm_tasks w2 else w2) = (w', oe)"
    using assms(1) t unfolding pump_event_def Let_def w2_def by simp
  then show ?thesis
    unfolding task [OF \<open>task_event t (if ts \<noteq> [] then arm_tasks w2 else w2) = (w', oe)\<close>]
    by (simp add: w2_def started_def arm_tasks_sel)
qed

lemma pumping_drop:
  assumes "loop_ok (y # due) w" "pumping x n (y # due) w" "l_internal w y \<noteq> Some RunOneTask"
  shows "pumping x n due w"
proof -
  have "l_task_timer w \<noteq> 0 \<Longrightarrow> l_internal w (l_task_timer w) = Some RunOneTask"
    using assms(1) pump_there [of "y # due" w] by (simp add: loop_ok_def core_ok_def)
  with assms(3) have "l_task_timer w \<noteq> 0 \<Longrightarrow> l_task_timer w \<noteq> y" by auto
  with assms(2) show ?thesis by (auto simp: pumping_def)
qed

lemma pumping_internal:
  assumes "loop_ok (y # due) w" "pumping x n (y # due) w" "l_internal w y = Some f"
    "internal_event f (w\<lparr>l_internal := (l_internal w)(y := None)\<rparr>) = (w', oe)"
  shows "pumping x n due (case oe of None \<Rightarrow> w' | Some e \<Rightarrow> logged e w')"
proof (cases "f = RunOneTask")
  case False
  then have "pumping x n due w" by (intro pumping_drop [OF assms(1,2)]) (simp add: assms(3))
  with assms(4) False show ?thesis by (cases f) (auto simp: internal_event_def pumping_logged split: if_splits)
next
  case True
  have e: "pump_event (w\<lparr>l_internal := (l_internal w)(y := None)\<rparr>) = (w', oe)" using assms(4) True by (simp add: internal_event_def)
  have l: "length (started (w\<lparr>l_internal := m\<rparr>)) = length (started w)" for m by (simp add: started_def)
  show ?thesis
  proof (cases "l_tasks w = []")
    case True
    with assms(2) have "n < length (started w)" by (simp add: pumping_def)
    moreover have "started w' = started w" "oe = None" using e True by (auto simp: pump_event_def started_def)
    ultimately show ?thesis by (simp add: pumping_def)
  next
    case False
    then have "length (started (case oe of None \<Rightarrow> w' | Some e \<Rightarrow> logged e w')) = Suc (length (started w))"
      using pump_starts [OF e] l by simp
    moreover have "n \<le> length (started w)" using assms(2) by (auto simp: pumping_def)
    ultimately show ?thesis by (simp add: pumping_def)
  qed
qed

interpretation loop_live: loop_prop "\<lambda>due w. loop_ok due w \<and> pumping x n due w" for x n
proof unfold_locales
  fix due w w' y f oe
  assume "loop_ok (y # due) w \<and> pumping x n (y # due) w" "l_internal w y = Some f" "internal_event f (w\<lparr>l_internal := (l_internal w)(y := None)\<rparr>) = (w', oe)"
  then show "loop_ok due (case oe of None \<Rightarrow> w' | Some e \<Rightarrow> logged e w') \<and> pumping x n due (case oe of None \<Rightarrow> w' | Some e \<Rightarrow> logged e w')"
    using loop_order.p_internal [of y due w f w' oe] pumping_internal [of y due w x n f w' oe] by blast
next
  fix due w y t
  assume a: "loop_ok (y # due) w \<and> pumping x n (y # due) w" "l_internal w y = None" "l_page w y = Some t"
  with pumping_drop [of y due w x n] loop_order.p_timer [of y due w t]
  show "loop_ok due (logged (RanTimer y (m_handler t)) (if m_repeat t then w else w\<lparr>l_page := (l_page w)(y := None)\<rparr>)) \<and>
      pumping x n due (logged (RanTimer y (m_handler t)) (if m_repeat t then w else w\<lparr>l_page := (l_page w)(y := None)\<rparr>))"
    by (simp add: pumping_logged)
next
  fix due w y d t
  assume a: "loop_ok due w \<and> pumping x n due w" "l_page w y \<noteq> None"
  with loop_order.p_rearm [of due w y d t]
  show "loop_ok due (native_set y d (w\<lparr>l_page := (l_page w)(y \<mapsto> t)\<rparr>)) \<and> pumping x n due (native_set y d (w\<lparr>l_page := (l_page w)(y \<mapsto> t)\<rparr>))" by simp
next
  fix due w c
  assume "loop_ok due w \<and> pumping x n due w"
  then show "loop_ok due (do_call c w) \<and> pumping x n due (do_call c w)" by (simp add: loop_order.p_call pumping_call)
next
  fix due w k
  assume "loop_ok due w \<and> pumping x n due w"
  then show "loop_ok due (w\<lparr>l_nesting := k\<rparr>) \<and> pumping x n due (w\<lparr>l_nesting := k\<rparr>)" by (simp add: loop_order.p_nest)
next
  fix due w r k
  assume "loop_ok due w \<and> pumping x n due w"
  then show "loop_ok due (w\<lparr>l_raf := r, l_frame := k\<rparr>) \<and> pumping x n due (w\<lparr>l_raf := r, l_frame := k\<rparr>)" by (simp add: loop_order.p_frame)
next
  fix due w e k a b
  assume "loop_ok due w \<and> pumping x n due w" "e = RanFrameHook k \<or> e = RanFrame a b"
  then show "loop_ok due (logged e w) \<and> pumping x n due (logged e w)"
    using loop_order.p_hook [of due w e k a b] pumping_logged [of e x n due w] by auto
next
  fix w k
  assume "loop_ok [] w \<and> pumping x n [] w"
  then show "loop_ok [] (w\<lparr>l_now := l_now w + k\<rparr>) \<and> pumping x n [] (w\<lparr>l_now := l_now w + k\<rparr>)" by (simp add: loop_order.p_tick)
next
  fix due w w'
  assume a: "loop_ok [] w \<and> pumping x n [] w" "take_due w = (w', due)"
  then have "pumping x n due w'" by (auto simp: take_due_def pumping_def started_def)
  with a show "loop_ok due w' \<and> pumping x n due w'" using loop_order.p_due [of w w' due] by blast
next
  fix due w y
  assume "loop_ok (y # due) w \<and> pumping x n (y # due) w" "l_internal w y = None" "l_page w y = None"
  then show "loop_ok due w \<and> pumping x n due w" using loop_order.p_nothing [of y due w] pumping_drop [of y due w x n] by simp
qed

lemma due_pump:
  assumes "loop_ok [] w" "l_tasks w \<noteq> []" "take_due w = (w', due)"
  shows "l_task_timer w \<noteq> 0" "l_task_timer w \<in> set due"
proof -
  have p: "pump_ok [] w" "native_ok w" using assms(1) by (simp_all add: loop_ok_def core_ok_def)
  then show t: "l_task_timer w \<noteq> 0" using assms(2) by (simp add: pump_ok_def)
  with p(1) obtain dl sq where e: "(l_task_timer w, dl, sq) \<in> set (l_native w)" "dl \<le> l_now w" by (auto simp: pump_ok_def armed_def)
  have "(x, dl, sq) \<in> set (takeWhile (\<lambda>(x, dl, sq). dl \<le> now) es)"
    if "sorted (map (\<lambda>(x, dl, sq). dl) es)" "(x, dl, sq) \<in> set es" "dl \<le> now" for x dl sq now and es :: "(nat \<times> nat \<times> nat) list"
    using that by (induction es) fastforce+
  from this [OF _ e] p(2) assms(3) show "l_task_timer w \<in> set due" by (force simp: native_ok_def take_due_def)
qed

section \<open>Properties\<close>

text \<open>C27: Tasks start in the order in which they were posted: whatever page code does, and in whatever order the host
  lets time pass, draws frames and runs scripts, the tasks posted so far are those that were started followed by
  those in the queue, so that none is lost, started twice or overtaken.\<close>

theorem tasks_start_in_order: "posted (run_loop page ss start_loop) = started (run_loop page ss start_loop) @ l_tasks (run_loop page ss start_loop)"
  using loop_run_ok [of page ss] by (simp add: loop_ok_def order_ok_def fifo_ok_def)

text \<open>C6: The queue of tasks is worked off: when there is a task, the pump is armed, so that the next time the host
  runs its timers at least one task starts, whatever timers run before the pump and whatever page code calls.\<close>

theorem tasks_make_progress:
  assumes "l_tasks (run_loop page ss start_loop) \<noteq> []"
  shows "length (started (run_loop page ss start_loop)) < length (started (run_loop page (ss @ [Tick n]) start_loop))"
proof -
  define w where "w = run_loop page ss start_loop"
  define w0 where "w0 = w\<lparr>l_now := l_now w + n\<rparr>"
  obtain w1 due where d: "take_due w0 = (w1, due)" by fastforce
  have ok: "loop_ok [] w0" unfolding w0_def w_def by (rule loop_order.p_tick [OF loop_run_ok])
  have k: "l_tasks w0 \<noteq> []" using assms by (simp add: w0_def w_def)
  have s: "l_task_timer w1 = l_task_timer w0" "l_tasks w1 = l_tasks w0" "started w1 = started w" using d by (auto simp: take_due_def w0_def started_def)
  have "loop_ok due w1 \<and> pumping (l_task_timer w0) (length (started w)) due w1"
    using loop_order.p_due [OF ok d] due_pump [OF ok k d] k s by (simp add: pumping_def)
  from loop_live.p_timers [OF this, of page] have "length (started w) < length (started (fold (on_timer page) due w1))" by (simp add: pumping_def)
  then show ?thesis by (simp add: run_loop_def host_step_def run_due_def d w_def [unfolded run_loop_def, symmetric] w0_def [symmetric])
qed

theorem tasks_make_progress_witness:
  "length (started (run_loop (\<lambda>_ _. []) [Script [PostTask 7, PostTask 8]] start_loop))
     < length (started (run_loop (\<lambda>_ _. []) ([Script [PostTask 7, PostTask 8]] @ [Tick 0]) start_loop))"
  by (rule tasks_make_progress) (simp add: run_loop_def host_step_def do_call_def)

text \<open>C28: Messages come out of a port in the order in which they were put in, each once: what a port has received is a
  prefix of what was put into its queue; unless the port was transferred the rest is its queue; and once a port that
  is started and open has nothing waiting in the task queue, it has received all of it.\<close>

theorem port_messages_in_order:
  assumes "w = run_loop page ss start_loop"
  shows "prefix (received p w) (queued p w) \<and> (p_fwd (l_ports w p) = None \<longrightarrow> queued p w = received p w @ p_queue (l_ports w p)) \<and>
    (p_fwd (l_ports w p) = None \<and> p_started (l_ports w p) \<and> \<not> p_closed (l_ports w p) \<and> DeliverPort p \<notin> set (l_tasks w) \<longrightarrow> received p w = queued p w)"
proof -
  have "port_ok (l_ports w p) (queued p w) (received p w) (deliveries p (l_tasks w)) (l_nports w \<le> p)"
    using loop_run_ok [of page ss] assms by (simp add: loop_ok_def order_ok_def ports_ok_def)
  moreover have "deliveries p (l_tasks w) = 0" if "DeliverPort p \<notin> set (l_tasks w)"
    using that by (auto simp: deliveries_def filter_empty_conv)
  ultimately show ?thesis by (cases "p_fwd (l_ports w p)") (auto simp: port_ok_def)
qed

theorem port_messages_in_order_witness:
  "let w = run_loop (\<lambda>_ _. []) [Script [NewChannel, StartPort 1, PostMessage 0 7 [], PostMessage 0 8 []], Tick 0, Tick 0] start_loop in
   received 1 w = [(7, []), (8, [])] \<and> prefix (received 1 w) (queued 1 w) \<and> queued 1 w = received 1 w @ p_queue (l_ports w 1) \<and> received 1 w = queued 1 w"
proof -
  let ?w = "run_loop (\<lambda>_ _. []) [Script [NewChannel, StartPort 1, PostMessage 0 7 [], PostMessage 0 8 []], Tick 0, Tick 0] start_loop"
  have "received 1 ?w = [(7, []), (8, [])]" by code_simp
  moreover have "p_fwd (l_ports ?w 1) = None" "p_started (l_ports ?w 1)" "\<not> p_closed (l_ports ?w 1)" "DeliverPort 1 \<notin> set (l_tasks ?w)" by code_simp+
  ultimately show ?thesis using port_messages_in_order [of ?w "\<lambda>_ _. []", OF refl, of 1] unfolding Let_def by blast
qed

text \<open>C5: A timer of the page that is cleared never runs again.  The log has each clearing of a timer that the page
  still has, wherever page code asks for it: in a script, in a task, in the callback of another timer, even of one
  that the host took from its queue in the same turn, or in the callback of the timer itself, when it is an interval
  that would be set again.  Whatever page code calls and whatever the host does, the log has no run of the timer after
  its clearing.\<close>

theorem cleared_timer_never_runs:
  assumes "l_log (run_loop page ss start_loop) = before @ Cleared x # after"
  shows "RanTimer x f \<notin> set after"
proof -
  have "quiet_after x (before @ Cleared x # after)" using run_dead [of x page ss] assms by (simp add: dead_def)
  then show ?thesis by (rule quiet_after_last)
qed

text \<open>
  A page whose first callback clears the timer 2, which is due in the same turn; and whose interval 3 clears itself in
  its second run.
\<close>

definition clearing_page :: page where
  "clearing_page e w = (case e of
     RanTimer x f \<Rightarrow> if x = 1 then [ClearTimer (Fin 2)] else if x = 3 \<and> Suc 0 < length (filter (\<lambda>e. e = RanTimer 3 7) (l_log w)) then [ClearTimer (Fin 3)] else []
   | _ \<Rightarrow> [])"

theorem cleared_timer_never_runs_witness:
  "let es = l_log (run_loop clearing_page [Script [SetTimeout 5 (Fin 0), SetTimeout 6 (Fin 0), SetInterval 7 (Fin 0)], Tick 9, Tick 9000, Tick 9000] start_loop) in
   es = [RanTimer 1 5, Cleared 2, RanTimer 3 7, RanTimer 3 7, Cleared 3] \<and> RanTimer 2 6 \<notin> set (drop 2 es) \<and> RanTimer 3 7 \<notin> set (drop 5 es)"
proof -
  let ?r = "run_loop clearing_page [Script [SetTimeout 5 (Fin 0), SetTimeout 6 (Fin 0), SetInterval 7 (Fin 0)], Tick 9, Tick 9000, Tick 9000] start_loop"
  have es: "l_log ?r = [RanTimer 1 5, Cleared 2, RanTimer 3 7, RanTimer 3 7, Cleared 3]" by code_simp
  then have "l_log ?r = [RanTimer 1 5] @ Cleared 2 # [RanTimer 3 7, RanTimer 3 7, Cleared 3]"
    "l_log ?r = [RanTimer 1 5, Cleared 2, RanTimer 3 7, RanTimer 3 7] @ Cleared 3 # []" by simp_all
  from cleared_timer_never_runs [OF this(1), of 6] cleared_timer_never_runs [OF this(2), of 7] es show ?thesis by (simp add: Let_def)
qed

end
