(* ===== verification/WebLocks.thy ===== *)
theory WebLocks
  imports JsPrelude
begin

text \<open>
  Web Locks (\<open>40_webapi.js\<close>, \<open>LockManager\<close> and \<open>processLocks\<close>).  A request is known by a number; what callbacks
  compute and when their promises settle is up to the page, and comes as steps.
\<close>

section \<open>The state\<close>

datatype lock_mode = Shared | Exclusive

record lock_request =
  q_id :: nat
  q_mode :: lock_mode

text \<open>An entry \<open>h\<close> of \<open>held\<close> is an object of its own; it is known by the number of the request it was made for.\<close>

record lock_state =
  k_held :: "lock_request list"
  k_queue :: "lock_request list"

datatype lock_task = RunLock jstr lock_request | RunNull nat

text \<open>What the page sees: its callbacks run, with a lock or with null, and the promises of its requests settle.\<close>

datatype lock_event = WithLock nat lock_mode | WithNull nat | Resolved nat nat | Rejected nat exn

record lock_options =
  o_shared :: bool
  o_if_available :: bool
  o_signal :: "exn option"

text \<open>
  \<open>lockState\<close> is a map in the order of insertion.  \<open>l_tasks\<close> are the microtasks, \<open>l_open\<close> the callbacks that have returned a
  promise (or thrown) and whose end is awaited.  \<open>l_asked\<close> and \<open>l_granted\<close> keep what was queued and granted, in order.
\<close>

record lock_world =
  w_states :: "(jstr \<times> lock_state) list"
  w_micro :: "lock_task list"
  w_open :: "(jstr \<times> lock_request \<times> exn option) list"
  w_next :: nat
  w_asked :: "(jstr \<times> nat) list"
  w_granted :: "(jstr \<times> nat) list"
  w_seen :: "lock_event list"

definition no_lock_state :: lock_state where
  "no_lock_state = \<lparr>k_held = [], k_queue = []\<rparr>"

definition lock_state_of :: "jstr \<Rightarrow> lock_world \<Rightarrow> lock_state" where
  "lock_state_of n w = (case map_of (w_states w) n of None \<Rightarrow> no_lock_state | Some st \<Rightarrow> st)"

fun put_state :: "jstr \<Rightarrow> lock_state \<Rightarrow> (jstr \<times> lock_state) list \<Rightarrow> (jstr \<times> lock_state) list" where
  "put_state n st [] = [(n, st)]"
| "put_state n st ((m, s) # r) = (if m = n then (n, st) # r else (m, s) # put_state n st r)"

section \<open>Granting\<close>

definition lock_fits :: "lock_mode \<Rightarrow> lock_request list \<Rightarrow> bool" where
  "lock_fits m held = (held = [] \<or> (m = Shared \<and> list_all (\<lambda>h. q_mode h = Shared) held))"

text \<open>The loop of \<open>processLocks\<close>: what is held, what still waits, and the requests that were granted.\<close>

fun process_queue :: "lock_request list \<Rightarrow> lock_request list \<Rightarrow> lock_request list \<times> lock_request list \<times> lock_request list" where
  "process_queue held [] = (held, [], [])"
| "process_queue held (q # qs) =
     (if lock_fits (q_mode q) held
      then (case process_queue (held @ [q]) qs of (h, r, g) \<Rightarrow> (h, r, q # g))
      else (held, q # qs, []))"

definition process_locks :: "jstr \<Rightarrow> lock_world \<Rightarrow> lock_world" where
  "process_locks n w = (let st = lock_state_of n w in
     case process_queue (k_held st) (k_queue st) of
       (h, r, g) \<Rightarrow> w\<lparr>w_states := put_state n \<lparr>k_held = h, k_queue = r\<rparr> (w_states w),
         w_micro := w_micro w @ map (RunLock n) g, w_granted := w_granted w @ map (\<lambda>q. (n, q_id q)) g\<rparr>)"

definition saw :: "lock_event \<Rightarrow> lock_world \<Rightarrow> lock_world" where
  "saw e w = w\<lparr>w_seen := w_seen w @ [e]\<rparr>"

text \<open>The request \<open>navigator.locks.request\<close>, with a callback or with something else in its place.\<close>

definition lock_request_method :: "jstr \<Rightarrow> lock_options \<Rightarrow> bool \<Rightarrow> lock_world \<Rightarrow> lock_world" where
  "lock_request_method n opts callable w =
     (let x = w_next w; m = (if o_shared opts then Shared else Exclusive); w0 = w\<lparr>w_next := Suc x\<rparr> in
      if \<not> callable then saw (Rejected x TypeErr) w0
      else if n \<noteq> [] \<and> hd n = 45 then saw (Rejected x (DomErr ''NotSupportedError'')) w0
      else
        let st = lock_state_of n w0;
            w1 = (if map_of (w_states w0) n = None then w0\<lparr>w_states := w_states w0 @ [(n, no_lock_state)]\<rparr> else w0);
            q = \<lparr>q_id = x, q_mode = m\<rparr>
        in if o_if_available opts \<and> \<not> (k_queue st = [] \<and> lock_fits m (k_held st)) then w1\<lparr>w_micro := w_micro w1 @ [RunNull x]\<rparr>
           else case o_signal opts of
             Some e \<Rightarrow> saw (Rejected x e) w1
           | None \<Rightarrow> process_locks n (w1\<lparr>w_states := put_state n (st\<lparr>k_queue := k_queue st @ [q]\<rparr>) (w_states w1), w_asked := w_asked w1 @ [(n, x)]\<rparr>))"

text \<open>The microtasks; \<open>out\<close> is what the callback returns or throws.\<close>

definition run_lock_task :: "lock_task \<Rightarrow> nat res \<Rightarrow> lock_world \<Rightarrow> lock_world" where
  "run_lock_task t out w = (case t of
     RunNull x \<Rightarrow> (case out of Inr v \<Rightarrow> saw (Resolved x v) (saw (WithNull x) w) | Inl e \<Rightarrow> saw (Rejected x e) (saw (WithNull x) w))
   | RunLock n q \<Rightarrow> (let w1 = saw (WithLock (q_id q) (q_mode q)) w in
       w1\<lparr>w_open := w_open w1 @ [(n, q, case out of Inr v \<Rightarrow> None | Inl e \<Rightarrow> Some e)]\<rparr>))"

definition lock_release :: "jstr \<Rightarrow> lock_request \<Rightarrow> lock_world \<Rightarrow> lock_world" where
  "lock_release n q w = (let st = lock_state_of n w in
     process_locks n (w\<lparr>w_states := put_state n (st\<lparr>k_held := filter (\<lambda>h. q_id h \<noteq> q_id q) (k_held st)\<rparr>) (w_states w)\<rparr>))"

text \<open>The promise of a callback settles, as \<open>out\<close> unless the callback threw.\<close>

definition settle_lock :: "nat \<Rightarrow> nat res \<Rightarrow> lock_world \<Rightarrow> lock_world" where
  "settle_lock i out w =
     (if i < length (w_open w) then (case w_open w ! i of (n, q, thrown) \<Rightarrow>
        let w1 = lock_release n q (w\<lparr>w_open := take i (w_open w) @ drop (Suc i) (w_open w)\<rparr>) in
        case thrown of
          Some e \<Rightarrow> saw (Rejected (q_id q) e) w1
        | None \<Rightarrow> (case out of Inr v \<Rightarrow> saw (Resolved (q_id q) v) w1 | Inl e \<Rightarrow> saw (Rejected (q_id q) e) w1))
      else w)"

text \<open>\<open>query\<close>: what is held and what waits, over all names.\<close>

definition lock_query :: "lock_world \<Rightarrow> (jstr \<times> lock_mode) list \<times> (jstr \<times> lock_mode) list" where
  "lock_query w = (concat (map (\<lambda>(n, st). map (\<lambda>h. (n, q_mode h)) (k_held st)) (w_states w)),
     concat (map (\<lambda>(n, st). map (\<lambda>q. (n, q_mode q)) (k_queue st)) (w_states w)))"

section \<open>Steps\<close>

datatype lock_step = Request jstr lock_options bool | Microtask "nat res" | Settle nat "nat res"

definition lock_do :: "lock_step \<Rightarrow> lock_world \<Rightarrow> lock_world" where
  "lock_do s w = (case s of
     Request n opts callable \<Rightarrow> lock_request_method n opts callable w
   | Microtask out \<Rightarrow> (case w_micro w of [] \<Rightarrow> w | t # ts \<Rightarrow> run_lock_task t out (w\<lparr>w_micro := ts\<rparr>))
   | Settle i out \<Rightarrow> settle_lock i out w)"

definition start_locks :: lock_world where
  "start_locks = \<lparr>w_states = [], w_micro = [], w_open = [], w_next = 0, w_asked = [], w_granted = [], w_seen = []\<rparr>"

inductive lock_reach :: "lock_world \<Rightarrow> bool" where
  lock_start: "lock_reach start_locks"
| lock_step: "lock_reach w \<Longrightarrow> lock_reach (lock_do s w)"

end
