(* ===== verification/WebLockProps.thy ===== *)
theory WebLockProps
  imports WebLocks "HOL-Library.Multiset"
begin

text \<open>
  The discipline of Web Locks: an exclusive lock is held alone, requests for a name are granted in their order, and
  whoever waits, waits for a holder whose callback is still to end.
\<close>

section \<open>Granting\<close>

definition compatible :: "lock_request list \<Rightarrow> bool" where
  "compatible held = (length held \<le> 1 \<or> list_all (\<lambda>h. q_mode h = Shared) held)"

lemma fits_compatible: "lock_fits (q_mode q) held \<Longrightarrow> compatible (held @ [q])"
  by (auto simp: lock_fits_def compatible_def)

lemma compatible_filter: "compatible held \<Longrightarrow> compatible (filter P held)"
  using length_filter_le [of P held] unfolding compatible_def list_all_iff by (meson filter_is_subset le_trans subsetD)

lemma process_queue_spec:
  "process_queue held qs = (h, r, g) \<Longrightarrow>
     h = held @ g \<and> qs = g @ r \<and> (r \<noteq> [] \<longrightarrow> \<not> lock_fits (q_mode (hd r)) h) \<and> (compatible held \<longrightarrow> compatible h)"
proof (induction held qs arbitrary: h r g rule: process_queue.induct)
  case (2 held q qs)
  show ?case
  proof (cases "lock_fits (q_mode q) held")
    case True
    obtain g' where g: "process_queue (held @ [q]) qs = (h, r, g')" "g = q # g'"
      using 2(2) True by (cases "process_queue (held @ [q]) qs") simp
    from 2(1) [OF True g(1)] fits_compatible [OF True] have
      "h = held @ q # g'" "qs = g' @ r" "r \<noteq> [] \<longrightarrow> \<not> lock_fits (q_mode (hd r)) h" "compatible h" by auto
    then show ?thesis by (simp add: g(2))
  next
    case False
    with 2(2) show ?thesis by auto
  qed
qed simp

lemma state_put: "lock_state_of m (w\<lparr>w_states := put_state n st ss\<rparr>) = (if m = n then st else lock_state_of m (w\<lparr>w_states := ss\<rparr>))"
  by (induction ss) (auto simp: lock_state_of_def)

lemma state_put_full: "lock_state_of n (w\<lparr>w_states := put_state n st ss, w_micro := ms, w_granted := gs\<rparr>) = st"
  by (induction ss) (auto simp: lock_state_of_def)

lemma state_new: "map_of ss n = None \<Longrightarrow> lock_state_of m (w\<lparr>w_states := ss @ [(n, no_lock_state)]\<rparr>) = lock_state_of m (w\<lparr>w_states := ss\<rparr>)"
  by (auto simp: lock_state_of_def map_add_def split: option.split)

lemma saw_sel [simp]:
  "w_states (saw e w) = w_states w" "w_micro (saw e w) = w_micro w" "w_open (saw e w) = w_open w" "w_next (saw e w) = w_next w"
  "w_asked (saw e w) = w_asked w" "w_granted (saw e w) = w_granted w" "lock_state_of n (saw e w) = lock_state_of n w"
  by (simp_all add: saw_def lock_state_of_def)

section \<open>The invariant\<close>

definition of_name :: "jstr \<Rightarrow> (jstr \<times> nat) list \<Rightarrow> nat list" where
  "of_name n xs = map snd (filter (\<lambda>x. fst x = n) xs)"

text \<open>The requests for a name whose callbacks are about to run, or have not ended.\<close>

definition awaited :: "jstr \<Rightarrow> lock_world \<Rightarrow> lock_request multiset" where
  "awaited n w = mset (concat (map (\<lambda>t. case t of RunLock m q \<Rightarrow> if m = n then [q] else [] | RunNull x \<Rightarrow> []) (w_micro w))) +
     mset (concat (map (\<lambda>(m, q, t). if m = n then [q] else []) (w_open w)))"

definition name_pre :: "lock_state \<Rightarrow> nat list \<Rightarrow> nat list \<Rightarrow> lock_request multiset \<Rightarrow> bool" where
  "name_pre st asked granted aw =
     (compatible (k_held st) \<and> asked = granted @ map q_id (k_queue st) \<and> mset (k_held st) = aw \<and>
      q_id ` set (k_held st) \<subseteq> set granted \<and> distinct (map q_id (k_held st)))"

text \<open>And who waits does not fit.\<close>

definition blocked :: "lock_state \<Rightarrow> bool" where
  "blocked st = (k_queue st \<noteq> [] \<longrightarrow> \<not> lock_fits (q_mode (hd (k_queue st))) (k_held st))"

definition name_ok :: "jstr \<Rightarrow> lock_world \<Rightarrow> bool" where
  "name_ok n w = (name_pre (lock_state_of n w) (of_name n (w_asked w)) (of_name n (w_granted w)) (awaited n w) \<and> blocked (lock_state_of n w))"

definition ids_fresh :: "lock_world \<Rightarrow> bool" where
  "ids_fresh w = (distinct (map snd (w_asked w)) \<and> (\<forall>x \<in> set (w_asked w). snd x < w_next w))"

definition locks_ok :: "lock_world \<Rightarrow> bool" where
  "locks_ok w = (ids_fresh w \<and> (\<forall>n. name_ok n w))"

lemma of_name_simps [simp]: "of_name n [] = []" "of_name n (xs @ ys) = of_name n xs @ of_name n ys" "of_name n ((m, x) # xs) = (if m = n then [x] else []) @ of_name n xs"
  "of_name n (map (\<lambda>q. (m, f q)) qs) = (if m = n then map f qs else [])"
  by (induction qs) (auto simp: of_name_def)

lemma of_name_distinct: "distinct (map snd xs) \<Longrightarrow> distinct (of_name n xs)"
  by (induction xs) (auto simp: of_name_def)

lemma of_name_in: "x \<in> set (of_name n xs) \<Longrightarrow> x \<in> snd ` set xs"
  by (auto simp: of_name_def)

lemma name_process:
  assumes "name_pre st asked granted aw" "distinct asked" "process_queue (k_held st) (k_queue st) = (h, r, g)"
  shows "name_pre \<lparr>k_held = h, k_queue = r\<rparr> asked (granted @ map q_id g) (aw + mset g) \<and> blocked \<lparr>k_held = h, k_queue = r\<rparr>"
proof -
  have s: "h = k_held st @ g" "k_queue st = g @ r" "r \<noteq> [] \<longrightarrow> \<not> lock_fits (q_mode (hd r)) h" "compatible (k_held st) \<longrightarrow> compatible h"
    using process_queue_spec [OF assms(3)] by blast+
  have d: "distinct (granted @ map q_id g @ map q_id r)" using assms(1,2) s(2) by (simp add: name_pre_def)
  then have "set granted \<inter> q_id ` set g = {}" "distinct (map q_id g)" by auto
  with assms(1) have "distinct (map q_id h)" by (auto simp: s(1) name_pre_def)
  with assms(1) s show ?thesis by (auto simp: name_pre_def blocked_def)
qed

lemma awaited_micro: "awaited n (w\<lparr>w_micro := w_micro w @ map (RunLock m) g\<rparr>) = awaited n w + (if m = n then mset g else {#})"
  by (induction g) (auto simp: awaited_def)

text \<open>A step that prepares a name, then grants what fits.\<close>

lemma process_locks_ok:
  assumes "ids_fresh w" "name_pre (lock_state_of n w) (of_name n (w_asked w)) (of_name n (w_granted w)) (awaited n w)"
    "\<And>m. m \<noteq> n \<Longrightarrow> name_ok m w"
  shows "locks_ok (process_locks n w)"
proof -
  obtain h r g where p: "process_queue (k_held (lock_state_of n w)) (k_queue (lock_state_of n w)) = (h, r, g)" by (metis prod_cases3)
  let ?w = "process_locks n w"
  have w: "?w = w\<lparr>w_states := put_state n \<lparr>k_held = h, k_queue = r\<rparr> (w_states w), w_micro := w_micro w @ map (RunLock n) g,
      w_granted := w_granted w @ map (\<lambda>q. (n, q_id q)) g\<rparr>"
    by (simp add: process_locks_def Let_def p)
  have st: "lock_state_of m ?w = (if m = n then \<lparr>k_held = h, k_queue = r\<rparr> else lock_state_of m w)" for m
    using state_put [where m = m and n = n and ss = "w_states w" and w = "w\<lparr>w_micro := w_micro w @ map (RunLock n) g, w_granted := w_granted w @ map (\<lambda>q. (n, q_id q)) g\<rparr>"]
    by (simp add: w lock_state_of_def)
  have aw: "awaited m ?w = awaited m w + (if m = n then mset g else {#})" for m
    using awaited_micro [of m w n g] by (auto simp: w awaited_def)
  have "distinct (of_name n (w_asked w))" using assms(1) by (simp add: ids_fresh_def of_name_distinct)
  from name_process [OF assms(2) this p] have "name_ok n ?w" by (simp add: name_ok_def st aw) (simp add: w)
  moreover have "name_ok m ?w" if "m \<noteq> n" for m using assms(3) [OF that] that by (simp add: name_ok_def st aw) (simp add: w)
  moreover have "ids_fresh ?w" using assms(1) by (simp add: ids_fresh_def w)
  ultimately show ?thesis unfolding locks_ok_def by metis
qed

lemma locks_ok_saw [simp]: "locks_ok (saw e w) = locks_ok w"
  by (simp add: locks_ok_def ids_fresh_def name_ok_def awaited_def)

text \<open>What the invariant reads.\<close>

lemma locks_ok_same:
  assumes "locks_ok w" "w_asked w' = w_asked w" "w_granted w' = w_granted w" "w_next w \<le> w_next w'"
    "\<And>n. lock_state_of n w' = lock_state_of n w" "\<And>n. awaited n w' = awaited n w"
  shows "locks_ok w'"
  using assms by (fastforce simp: locks_ok_def name_ok_def ids_fresh_def)

section \<open>The steps\<close>

lemma request_ok:
  assumes "locks_ok w"
  shows "locks_ok (lock_request_method n opts callable w)"
proof -
  define w0 where "w0 = w\<lparr>w_next := Suc (w_next w)\<rparr>"
  define w1 where "w1 = (if map_of (w_states w0) n = None then w0\<lparr>w_states := w_states w0 @ [(n, no_lock_state)]\<rparr> else w0)"
  have st: "lock_state_of m w1 = lock_state_of m w" for m
    using state_new [where ss = "w_states w0" and n = n and m = m and w = w0] by (simp add: w1_def w0_def lock_state_of_def)
  have sel: "w_asked w1 = w_asked w" "w_granted w1 = w_granted w" "w_next w1 = Suc (w_next w)" "w_micro w1 = w_micro w" "w_open w1 = w_open w"
    by (simp_all add: w1_def w0_def)
  have aw: "awaited m w1 = awaited m w" for m by (simp add: awaited_def sel)
  have o0: "locks_ok w0" by (rule locks_ok_same [OF assms]) (simp_all add: w0_def lock_state_of_def awaited_def)
  have o1: "locks_ok w1" by (rule locks_ok_same [OF assms]) (simp_all add: sel st aw)
  have o2: "locks_ok (w1\<lparr>w_micro := w_micro w1 @ [RunNull x]\<rparr>)" for x by (rule locks_ok_same [OF o1]) (simp_all add: lock_state_of_def awaited_def)
  define q where "q = \<lparr>q_id = w_next w, q_mode = (if o_shared opts then Shared else Exclusive)\<rparr>"
  define w2 where "w2 = w1\<lparr>w_states := put_state n ((lock_state_of n w)\<lparr>k_queue := k_queue (lock_state_of n w) @ [q]\<rparr>) (w_states w1), w_asked := w_asked w1 @ [(n, w_next w)]\<rparr>"
  have st2: "lock_state_of m w2 = (if m = n then (lock_state_of n w)\<lparr>k_queue := k_queue (lock_state_of n w) @ [q]\<rparr> else lock_state_of m w)" for m
    using state_put [where m = m and n = n and ss = "w_states w1" and w = w1] st [of m] by (simp add: w2_def lock_state_of_def)
  have sel2: "w_asked w2 = w_asked w @ [(n, w_next w)]" "w_granted w2 = w_granted w" "w_next w2 = Suc (w_next w)" "w_micro w2 = w_micro w" "w_open w2 = w_open w"
    by (simp_all add: w2_def sel)
  have aw2: "awaited m w2 = awaited m w" for m by (simp add: awaited_def sel2)
  have "ids_fresh w" "\<And>m. name_ok m w" using assms by (simp_all add: locks_ok_def)
  then have "ids_fresh w2" "\<And>m. m \<noteq> n \<Longrightarrow> name_ok m w2"
    "name_pre (lock_state_of n w2) (of_name n (w_asked w2)) (of_name n (w_granted w2)) (awaited n w2)"
    by (fastforce simp: ids_fresh_def sel2, simp add: name_ok_def sel2 st2 aw2, simp add: name_ok_def name_pre_def sel2 st2 aw2 q_def)
  then have o3: "locks_ok (process_locks n w2)" by (intro process_locks_ok)
  have st0: "lock_state_of n w0 = lock_state_of n w" by (simp add: w0_def lock_state_of_def)
  have "lock_request_method n opts callable w =
      (if \<not> callable then saw (Rejected (w_next w) TypeErr) w0
       else if n \<noteq> [] \<and> hd n = 45 then saw (Rejected (w_next w) (DomErr ''NotSupportedError'')) w0
       else if o_if_available opts \<and> \<not> (k_queue (lock_state_of n w) = [] \<and> lock_fits (if o_shared opts then Shared else Exclusive) (k_held (lock_state_of n w)))
         then w1\<lparr>w_micro := w_micro w1 @ [RunNull (w_next w)]\<rparr>
       else (case o_signal opts of Some e \<Rightarrow> saw (Rejected (w_next w) e) w1 | None \<Rightarrow> process_locks n w2))"
    unfolding lock_request_method_def Let_def w0_def [symmetric] w1_def [symmetric] st0 q_def [symmetric] w2_def [symmetric] by (rule refl)
  then show ?thesis using o0 o1 o2 o3 by (auto split: option.split)
qed

lemma release_ok:
  assumes "locks_ok w" "w_open w = os1 @ (n, q, t) # os2"
  shows "locks_ok (lock_release n q (w\<lparr>w_open := os1 @ os2\<rparr>))"
proof -
  define st where "st = lock_state_of n w"
  define w1 where "w1 = w\<lparr>w_open := os1 @ os2, w_states := put_state n (st\<lparr>k_held := filter (\<lambda>h. q_id h \<noteq> q_id q) (k_held st)\<rparr>) (w_states w)\<rparr>"
  have r: "lock_release n q (w\<lparr>w_open := os1 @ os2\<rparr>) = process_locks n w1"
    by (simp add: lock_release_def Let_def w1_def st_def lock_state_of_def)
  have ok: "name_ok m w" "ids_fresh w" for m using assms(1) by (simp_all add: locks_ok_def)
  have p: "name_pre st (of_name n (w_asked w)) (of_name n (w_granted w)) (awaited n w)" using ok(1) [of n] by (simp add: name_ok_def st_def)
  have aw: "awaited m w = awaited m (w\<lparr>w_open := os1 @ os2\<rparr>) + (if m = n then {#q#} else {#})" for m
    by (simp add: awaited_def assms(2))
  have "q \<in># awaited n w" using aw [of n] by simp
  moreover have "mset (k_held st) = awaited n w" using p by (simp add: name_pre_def)
  ultimately have q: "q \<in> set (k_held st)" by (metis set_mset_mset)
  have st1: "lock_state_of m w1 = (if m = n then st\<lparr>k_held := filter (\<lambda>h. q_id h \<noteq> q_id q) (k_held st)\<rparr> else lock_state_of m w)" for m
    using state_put [where m = m and n = n and ss = "w_states w" and w = "w\<lparr>w_open := os1 @ os2\<rparr>"] by (simp add: w1_def lock_state_of_def)
  have aw1: "awaited m w1 = awaited m (w\<lparr>w_open := os1 @ os2\<rparr>)" for m by (simp add: awaited_def w1_def)
  have "filter (\<lambda>h. q_id h \<noteq> q_id q) hs = remove1 q hs" if "q \<in> set hs" "distinct (map q_id hs)" for hs
    using that
  proof (induction hs)
    case (Cons h hs)
    show ?case
    proof (cases "h = q")
      case True
      with Cons.prems(2) have "\<forall>x \<in> set hs. q_id x \<noteq> q_id q" by (metis distinct.simps(2) image_eqI list.simps(9) set_map)
      with True show ?thesis by (simp add: filter_id_conv)
    next
      case False
      with Cons.prems have "q \<in> set hs" "q_id h \<noteq> q_id q" by (auto simp: image_iff)
      with False Cons show ?thesis by simp
    qed
  qed simp
  then have "mset (filter (\<lambda>h. q_id h \<noteq> q_id q) hs) = mset hs - {#q#}" if "q \<in> set hs" "distinct (map q_id hs)" for hs
    using that by (simp del: mset_filter)
  then have "mset (filter (\<lambda>h. q_id h \<noteq> q_id q) (k_held st)) = awaited n w1" using p q aw [of n] aw1 [of n] by (simp add: name_pre_def del: mset_filter)
  moreover have "distinct (map q_id (filter P hs))" if "distinct (map q_id hs)" for P hs using that by (induction hs) auto
  ultimately have "name_pre (lock_state_of n w1) (of_name n (w_asked w)) (of_name n (w_granted w)) (awaited n w1)"
    using p by (auto simp: st1 name_pre_def compatible_filter simp del: mset_filter)
  moreover have "name_ok m w1" if "m \<noteq> n" for m using ok(1) [of m] that aw [of m] by (simp add: name_ok_def st1 aw1) (simp add: w1_def)
  moreover have "ids_fresh w1" using ok(2) by (simp add: ids_fresh_def w1_def)
  ultimately show ?thesis unfolding r by (intro process_locks_ok) (simp_all add: w1_def)
qed

lemma settle_ok: "locks_ok w \<Longrightarrow> locks_ok (settle_lock i out w)"
proof (cases "i < length (w_open w)")
  case True
  assume a: "locks_ok w"
  obtain n q t where o1: "w_open w ! i = (n, q, t)" by (metis prod_cases3)
  then have "w_open w = take i (w_open w) @ (n, q, t) # drop (Suc i) (w_open w)" using True by (metis id_take_nth_drop)
  from release_ok [OF a this] show ?thesis by (simp add: settle_lock_def True o1 Let_def split: option.split sum.split)
qed (simp add: settle_lock_def)

lemma micro_ok:
  assumes "locks_ok w" "w_micro w = t # ts"
  shows "locks_ok (run_lock_task t out (w\<lparr>w_micro := ts\<rparr>))"
proof (cases t)
  case (RunNull x)
  have "locks_ok (w\<lparr>w_micro := ts\<rparr>)" by (rule locks_ok_same [OF assms(1)]) (simp_all add: lock_state_of_def awaited_def assms(2) RunNull)
  then show ?thesis by (simp add: run_lock_task_def RunNull split: sum.split)
next
  case (RunLock n q)
  show ?thesis by (rule locks_ok_same [OF assms(1)]) (auto simp: run_lock_task_def RunLock Let_def lock_state_of_def awaited_def assms(2))
qed

theorem lock_do_ok: "locks_ok w \<Longrightarrow> locks_ok (lock_do s w)"
  by (cases s) (auto simp: lock_do_def request_ok settle_ok micro_ok split: list.split)

lemma start_locks_ok: "locks_ok start_locks"
  by (simp add: locks_ok_def ids_fresh_def name_ok_def name_pre_def blocked_def lock_state_of_def start_locks_def no_lock_state_def awaited_def compatible_def)

lemma reach_ok: "lock_reach w \<Longrightarrow> locks_ok w"
  by (induction rule: lock_reach.induct) (simp_all add: start_locks_ok lock_do_ok)

lemma reach_name: "lock_reach w \<Longrightarrow> name_pre (lock_state_of n w) (of_name n (w_asked w)) (of_name n (w_granted w)) (awaited n w) \<and> blocked (lock_state_of n w)"
  using reach_ok [of w] by (simp add: locks_ok_def name_ok_def)

section \<open>Properties\<close>

text \<open>C29: An exclusive lock is held alone: in every state that requests, callbacks and settling promises can reach, two
  locks that are held for the same name are both shared.\<close>

theorem exclusive_locks_exclude:
  assumes "lock_reach w" "h1 \<in> set (k_held (lock_state_of n w))" "h2 \<in> set (k_held (lock_state_of n w))" "h1 \<noteq> h2"
  shows "q_mode h1 = Shared \<and> q_mode h2 = Shared"
proof -
  have c: "compatible (k_held (lock_state_of n w))" using reach_name [OF assms(1)] by (simp add: name_pre_def)
  have "\<not> length (k_held (lock_state_of n w)) \<le> 1"
    using assms(2-4) by (cases "k_held (lock_state_of n w)"; cases "tl (k_held (lock_state_of n w))") auto
  with c assms(2,3) show ?thesis by (auto simp: compatible_def list_all_iff)
qed

text \<open>C30: Requests for a name are granted in the order in which they were made, each once, and none is forgotten:
  the requests queued so far are those granted followed by those waiting; and whoever waits, waits for a
  lock whose callback is still to run or has not ended.\<close>

theorem locks_are_granted_in_order:
  assumes "lock_reach w"
  shows "of_name n (w_asked w) = of_name n (w_granted w) @ map q_id (k_queue (lock_state_of n w)) \<and> distinct (of_name n (w_granted w)) \<and>
    (k_queue (lock_state_of n w) \<noteq> [] \<longrightarrow> (\<exists>q. RunLock n q \<in> set (w_micro w) \<or> (\<exists>t. (n, q, t) \<in> set (w_open w))))"
proof -
  note r = reach_name [OF assms, of n]
  have d: "distinct (of_name n (w_asked w))" using reach_ok [OF assms] by (simp add: locks_ok_def ids_fresh_def of_name_distinct)
  have "\<exists>q. q \<in># awaited n w" if "k_queue (lock_state_of n w) \<noteq> []"
  proof -
    have "k_held (lock_state_of n w) \<noteq> []" using r that by (auto simp: blocked_def lock_fits_def)
    then show ?thesis using r by (metis multiset_nonemptyE mset_zero_iff name_pre_def)
  qed
  then have "k_queue (lock_state_of n w) \<noteq> [] \<Longrightarrow> \<exists>q. RunLock n q \<in> set (w_micro w) \<or> (\<exists>t. (n, q, t) \<in> set (w_open w))"
    by (fastforce simp: awaited_def split: lock_task.splits if_splits)
  with r d show ?thesis by (auto simp: name_pre_def)
qed

text \<open>When the last holder of a name ends, whatever the outcome of its callback, the first request that waits is
  granted in the same step and its callback is due as a microtask.\<close>

theorem release_grants_next:
  assumes "lock_reach w" "i < length (w_open w)" "w_open w ! i = (n, h, t)" "k_held (lock_state_of n w) = [h]" "k_queue (lock_state_of n w) = q # qs"
  shows "q \<in> set (k_held (lock_state_of n (lock_do (Settle i out) w))) \<and> RunLock n q \<in> set (w_micro (lock_do (Settle i out) w))"
proof -
  define w1 where "w1 = w\<lparr>w_open := take i (w_open w) @ drop (Suc i) (w_open w),
      w_states := put_state n ((lock_state_of n w)\<lparr>k_held := filter (\<lambda>x. q_id x \<noteq> q_id h) (k_held (lock_state_of n w))\<rparr>) (w_states w)\<rparr>"
  have r: "lock_release n h (w\<lparr>w_open := take i (w_open w) @ drop (Suc i) (w_open w)\<rparr>) = process_locks n w1"
    by (simp add: lock_release_def Let_def w1_def lock_state_of_def)
  have st: "lock_state_of n w1 = \<lparr>k_held = [], k_queue = q # qs\<rparr>"
    using state_put [where m = n and n = n and ss = "w_states w" and w = "w\<lparr>w_open := take i (w_open w) @ drop (Suc i) (w_open w)\<rparr>"] assms(4,5)
    by (simp add: w1_def)
  obtain hs rs gs where p: "process_queue [q] qs = (hs, rs, gs)" by (metis prod_cases3)
  then have f: "process_queue [] (q # qs) = (hs, rs, q # gs)" by (simp add: lock_fits_def)
  have "q \<in> set hs" using process_queue_spec [OF p] by simp
  then have "q \<in> set (k_held (lock_state_of n (process_locks n w1)))" by (simp add: process_locks_def Let_def st f state_put_full del: process_queue.simps)
  moreover have "RunLock n q \<in> set (w_micro (process_locks n w1))" by (simp add: process_locks_def Let_def st f del: process_queue.simps)
  ultimately have g: "q \<in> set (k_held (lock_state_of n (process_locks n w1))) \<and> RunLock n q \<in> set (w_micro (process_locks n w1))" ..
  show ?thesis using g by (simp add: lock_do_def settle_lock_def assms(2,3) r Let_def split: option.split sum.split)
qed

section \<open>A run\<close>

text \<open>An exclusive lock is held, another is asked for; the first ends.\<close>

definition one_holds :: lock_world where
  "one_holds = lock_do (Microtask (Inr 0)) (lock_do (Request [97] \<lparr>o_shared = False, o_if_available = False, o_signal = None\<rparr> True)
     (lock_do (Request [97] \<lparr>o_shared = False, o_if_available = False, o_signal = None\<rparr> True) start_locks))"

definition two_share :: lock_world where
  "two_share = lock_do (Request [97] \<lparr>o_shared = True, o_if_available = False, o_signal = None\<rparr> True)
     (lock_do (Request [97] \<lparr>o_shared = True, o_if_available = False, o_signal = None\<rparr> True) start_locks)"

lemma runs_reached: "lock_reach one_holds" "lock_reach two_share"
  unfolding one_holds_def two_share_def by (intro lock_step lock_start)+

theorem exclusive_locks_exclude_witness:
  "\<exists>h1 h2. h1 \<in> set (k_held (lock_state_of [97] two_share)) \<and> h2 \<in> set (k_held (lock_state_of [97] two_share)) \<and> h1 \<noteq> h2 \<and>
     q_mode h1 = Shared \<and> q_mode h2 = Shared"
proof -
  let ?h1 = "\<lparr>q_id = 0, q_mode = Shared\<rparr>" and ?h2 = "\<lparr>q_id = 1, q_mode = Shared\<rparr>"
  have "?h1 \<in> set (k_held (lock_state_of [97] two_share))" by code_simp
  moreover have "?h2 \<in> set (k_held (lock_state_of [97] two_share))" by code_simp
  moreover have "?h1 \<noteq> ?h2" by simp
  ultimately show ?thesis using exclusive_locks_exclude [OF runs_reached(2), of ?h1 "[97]" ?h2] by blast
qed

theorem locks_are_granted_in_order_witness:
  "k_queue (lock_state_of [97] one_holds) \<noteq> [] \<and>
   of_name [97] (w_asked one_holds) = of_name [97] (w_granted one_holds) @ map q_id (k_queue (lock_state_of [97] one_holds)) \<and>
   distinct (of_name [97] (w_granted one_holds)) \<and>
   (\<exists>q. RunLock [97] q \<in> set (w_micro one_holds) \<or> (\<exists>t. ([97], q, t) \<in> set (w_open one_holds)))"
proof -
  have "k_queue (lock_state_of [97] one_holds) \<noteq> []" by code_simp
  with locks_are_granted_in_order [OF runs_reached(1), of "[97]"] show ?thesis by blast
qed

theorem release_grants_next_witness:
  "\<lparr>q_id = 1, q_mode = Exclusive\<rparr> \<in> set (k_held (lock_state_of [97] (lock_do (Settle 0 (Inl TypeErr)) one_holds))) \<and>
   RunLock [97] \<lparr>q_id = 1, q_mode = Exclusive\<rparr> \<in> set (w_micro (lock_do (Settle 0 (Inl TypeErr)) one_holds))"
proof (rule release_grants_next)
  show "lock_reach one_holds" by (rule runs_reached(1))
  show "0 < length (w_open one_holds)" by code_simp
  show "w_open one_holds ! 0 = ([97], \<lparr>q_id = 0, q_mode = Exclusive\<rparr>, None)" by code_simp
  show "k_held (lock_state_of [97] one_holds) = [\<lparr>q_id = 0, q_mode = Exclusive\<rparr>]" by code_simp
  show "k_queue (lock_state_of [97] one_holds) = [\<lparr>q_id = 1, q_mode = Exclusive\<rparr>]" by code_simp
qed

end
