(* ===== verification/DomTraverse.thy ===== *)
theory DomTraverse
  imports DomRangeApi JsValues
begin

text \<open>
  \<open>TreeWalker\<close> and \<open>NodeIterator\<close> (\<open>20_dom.js\<close>, lines 4478--4655).  The filter is page code: it may change the tree and
  the walker, and throw.  A loop of the code may then go on for ever; a method is \<open>None\<close> when it does.
\<close>

section \<open>The state\<close>

text \<open>
  \<open>k_active\<close> is the mark in \<open>traversalActive\<close>; \<open>k_cur\<close> is \<open>#cur\<close> of a walker and \<open>#ref\<close> of an iterator, \<open>k_before\<close> its
  \<open>#before\<close>.  The fields that never change are those of \<open>traversal\<close>; \<open>t_filter\<close> runs the filter and takes the number of
  its result.
\<close>

record traveller =
  k_dom :: dom
  k_cur :: nat
  k_before :: bool
  k_active :: bool

type_synonym node_filter = "nat \<Rightarrow> traveller \<Rightarrow> traveller \<times> jsnum res"

record traversal =
  t_root :: nat
  t_what :: int
  t_filter :: "node_filter option"

text \<open>\<open>createTreeWalker\<close> and \<open>createNodeIterator\<close>.\<close>

definition new_traversal :: "nat \<Rightarrow> jsnum \<Rightarrow> node_filter option \<Rightarrow> traversal" where
  "new_traversal r what f = \<lparr>t_root = r, t_what = to_uint32 what, t_filter = f\<rparr>"

definition new_walk :: "dom \<Rightarrow> nat \<Rightarrow> traveller" where
  "new_walk d r = \<lparr>k_dom = d, k_cur = r, k_before = True, k_active = False\<rparr>"

text \<open>\<open>runFilter\<close>: 1 accepts, 2 rejects, 3 skips.\<close>

definition run_filter :: "traversal \<Rightarrow> nat \<Rightarrow> traveller \<Rightarrow> traveller \<times> int res" where
  "run_filter tr x w =
     (if k_active w then (w, Inl (DomErr ''InvalidStateError''))
      else if \<not> bit (t_what tr) (nat (kind_of (k_dom w) x - 1)) then (w, Inr 3)
      else case t_filter tr of
        None \<Rightarrow> (w, Inr 1)
      | Some f \<Rightarrow> (case f x (w\<lparr>k_active := True\<rparr>) of
          (w1, Inl e) \<Rightarrow> (w1\<lparr>k_active := False\<rparr>, Inl e)
        | (w1, Inr n) \<Rightarrow> (w1\<lparr>k_active := False\<rparr>, Inr (to_uint32 n))))"

type_synonym travelled = "(traveller \<times> nat option res) option"

definition found :: "nat \<Rightarrow> traveller \<Rightarrow> travelled" where
  "found x w = Some (w\<lparr>k_cur := x\<rparr>, Inr (Some x))"

definition nothing :: "traveller \<Rightarrow> travelled" where
  "nothing w = Some (w, Inr None)"

definition last_child :: "dom \<Rightarrow> nat \<Rightarrow> nat" where
  "last_child d x = (case child_ids d x of [] \<Rightarrow> 0 | y # ys \<Rightarrow> last (y # ys))"

definition end_child :: "bool \<Rightarrow> dom \<Rightarrow> nat \<Rightarrow> nat" where
  "end_child fwd d x = (if fwd then first_child d x else last_child d x)"

definition sibling :: "bool \<Rightarrow> dom \<Rightarrow> nat \<Rightarrow> nat" where
  "sibling fwd d x = (if fwd then next_sibling d x else prev_sibling d x)"

section \<open>Tree walkers\<close>

partial_function (option) parent_loop :: "traversal \<Rightarrow> nat \<Rightarrow> traveller \<Rightarrow> travelled" where
  "parent_loop tr x w =
     (if x = 0 \<or> x = t_root tr then nothing w
      else let p = parent (k_dom w) x in
        if p = 0 then nothing w
        else case run_filter tr p w of
          (w1, Inl e) \<Rightarrow> Some (w1, Inl e)
        | (w1, Inr r) \<Rightarrow> if r = 1 then found p w1 else parent_loop tr p w1)"

definition tw_parent_node :: "traversal \<Rightarrow> traveller \<Rightarrow> travelled" where
  "tw_parent_node tr w = parent_loop tr (k_cur w) w"

text \<open>The way up of \<open>#children\<close>, on the chain of ancestors: the next sibling on the way, unless the walk leaves the current node.\<close>

fun children_climb :: "bool \<Rightarrow> nat \<Rightarrow> nat \<Rightarrow> dom \<Rightarrow> nat list \<Rightarrow> nat" where
  "children_climb fwd rt cur d [] = 0"
| "children_climb fwd rt cur d (x # xs) =
     (if sibling fwd d x \<noteq> 0 then sibling fwd d x
      else if parent d x = 0 \<or> parent d x = rt \<or> parent d x = cur then 0
      else children_climb fwd rt cur d xs)"

partial_function (option) children_loop :: "bool \<Rightarrow> traversal \<Rightarrow> nat \<Rightarrow> traveller \<Rightarrow> travelled" where
  "children_loop fwd tr x w =
     (if x = 0 then nothing w
      else case run_filter tr x w of
        (w1, Inl e) \<Rightarrow> Some (w1, Inl e)
      | (w1, Inr r) \<Rightarrow>
          if r = 1 then found x w1
          else if r = 3 \<and> end_child fwd (k_dom w1) x \<noteq> 0 then children_loop fwd tr (end_child fwd (k_dom w1) x) w1
          else children_loop fwd tr (children_climb fwd (t_root tr) (k_cur w1) (k_dom w1) (ancestors_self (k_dom w1) x)) w1)"

definition tw_children :: "bool \<Rightarrow> traversal \<Rightarrow> traveller \<Rightarrow> travelled" where
  "tw_children fwd tr w = children_loop fwd tr (end_child fwd (k_dom w) (k_cur w)) w"

text \<open>\<open>#siblings\<close>: \<open>sib\<close> is the node the inner loop looks at, 0 when that loop has ended.\<close>

partial_function (option) siblings_loop :: "bool \<Rightarrow> traversal \<Rightarrow> nat \<Rightarrow> nat \<Rightarrow> traveller \<Rightarrow> travelled" where
  "siblings_loop fwd tr x sib w =
     (if sib \<noteq> 0 then
        (case run_filter tr sib w of
           (w1, Inl e) \<Rightarrow> Some (w1, Inl e)
         | (w1, Inr r) \<Rightarrow>
             if r = 1 then found sib w1
             else let c = end_child fwd (k_dom w1) sib in
               siblings_loop fwd tr sib (if r = 2 \<or> c = 0 then sibling fwd (k_dom w1) sib else c) w1)
      else let p = parent (k_dom w) x in
        if p = 0 \<or> p = t_root tr then nothing w
        else case run_filter tr p w of
          (w1, Inl e) \<Rightarrow> Some (w1, Inl e)
        | (w1, Inr r) \<Rightarrow> if r = 1 then nothing w1 else siblings_loop fwd tr p (sibling fwd (k_dom w1) p) w1)"

definition tw_siblings :: "bool \<Rightarrow> traversal \<Rightarrow> traveller \<Rightarrow> travelled" where
  "tw_siblings fwd tr w =
     (if k_cur w = t_root tr then nothing w else siblings_loop fwd tr (k_cur w) (sibling fwd (k_dom w) (k_cur w)) w)"

text \<open>
  \<open>previousNode\<close>: \<open>Outer\<close> is the head of the outer loop, \<open>Inner\<close> that of the loop over siblings, \<open>Down\<close> that of the way down
  with the last answer of the filter.
\<close>

datatype previous_at = Outer | Inner | Down int

partial_function (option) previous_loop :: "traversal \<Rightarrow> previous_at \<Rightarrow> nat \<Rightarrow> traveller \<Rightarrow> travelled" where
  "previous_loop tr pm x w = (case pm of
     Outer \<Rightarrow> if x = t_root tr then nothing w else previous_loop tr Inner x w
   | Inner \<Rightarrow>
       (let s = prev_sibling (k_dom w) x in
        if s \<noteq> 0 then
          (case run_filter tr s w of
             (w1, Inl e) \<Rightarrow> Some (w1, Inl e)
           | (w1, Inr r) \<Rightarrow> previous_loop tr (Down r) s w1)
        else if x = t_root tr then nothing w
        else let p = parent (k_dom w) x in
          if p = 0 then nothing w
          else case run_filter tr p w of
            (w1, Inl e) \<Rightarrow> Some (w1, Inl e)
          | (w1, Inr r) \<Rightarrow> if r = 1 then found p w1 else previous_loop tr Outer p w1)
   | Down r \<Rightarrow>
       if r \<noteq> 2 \<and> first_child (k_dom w) x \<noteq> 0 then
         (let c = last_child (k_dom w) x in
          case run_filter tr c w of
            (w1, Inl e) \<Rightarrow> Some (w1, Inl e)
          | (w1, Inr r1) \<Rightarrow> previous_loop tr (Down r1) c w1)
       else if r = 1 then found x w
       else previous_loop tr Inner x w)"

definition tw_previous_node :: "traversal \<Rightarrow> traveller \<Rightarrow> travelled" where
  "tw_previous_node tr w = previous_loop tr Outer (k_cur w) w"

text \<open>\<open>nextNode\<close>: the way up, on the chain of ancestors; 0 when it meets the root or runs out.\<close>

fun next_climb :: "nat \<Rightarrow> dom \<Rightarrow> nat list \<Rightarrow> nat" where
  "next_climb rt d [] = 0"
| "next_climb rt d (x # xs) = (if x = rt then 0 else if next_sibling d x \<noteq> 0 then next_sibling d x else next_climb rt d xs)"

partial_function (option) next_loop :: "traversal \<Rightarrow> int \<Rightarrow> nat \<Rightarrow> traveller \<Rightarrow> travelled" where
  "next_loop tr r x w =
     (let d = k_dom w; down = (r \<noteq> 2 \<and> first_child d x \<noteq> 0);
          y = (if down then first_child d x else next_climb (t_root tr) d (ancestors_self d x))
      in if y = 0 then nothing w
         else case run_filter tr y w of
           (w1, Inl e) \<Rightarrow> Some (w1, Inl e)
         | (w1, Inr r1) \<Rightarrow> if r1 = 1 then found y w1 else next_loop tr r1 y w1)"

definition tw_next_node :: "traversal \<Rightarrow> traveller \<Rightarrow> travelled" where
  "tw_next_node tr w = next_loop tr 1 (k_cur w) w"

section \<open>Node iterators\<close>

partial_function (option) iterator_loop :: "bool \<Rightarrow> traversal \<Rightarrow> nat \<Rightarrow> bool \<Rightarrow> traveller \<Rightarrow> travelled" where
  "iterator_loop fwd tr x before w =
     (let move = (fwd \<noteq> before); y = (if move then (if fwd then following_in_root (k_dom w) x (t_root tr) else preceding_in_root (k_dom w) x (t_root tr)) else x)
      in if move \<and> y = 0 then nothing w
         else case run_filter tr y w of
           (w1, Inl e) \<Rightarrow> Some (w1, Inl e)
         | (w1, Inr r) \<Rightarrow> if r = 1 then Some (w1\<lparr>k_cur := y, k_before := \<not> fwd\<rparr>, Inr (Some y)) else iterator_loop fwd tr y (\<not> fwd) w1)"

definition ni_traverse :: "bool \<Rightarrow> traversal \<Rightarrow> traveller \<Rightarrow> travelled" where
  "ni_traverse fwd tr w = iterator_loop fwd tr (k_cur w) (k_before w) w"

end
