(* ===== verification/DomTraverseProps.thy ===== *)
theory DomTraverseProps
  imports DomTraverse DomAncestors
begin

text \<open>
  What a tree walker and a node iterator visit, for a filter that leaves the tree and the walker alone: the nodes it
  accepts, in document order, without those below a node that a walker's filter rejects.
\<close>

section \<open>Places in a tree\<close>

text \<open>
  A subtree \<open>u\<close> of \<open>t\<close>, with the siblings that follow it, those that follow its parent, and so on.
\<close>

inductive tree_focus :: "tree \<Rightarrow> tree \<Rightarrow> tree list list \<Rightarrow> bool" for t where
  focus_root: "tree_focus t t []"
| focus_kid: "tree_focus t u rss \<Longrightarrow> tkids u = ls @ k # rs \<Longrightarrow> tree_focus t k (rs # rss)"

fun upcoming :: "tree list list \<Rightarrow> tree option" where
  "upcoming [] = None"
| "upcoming ([] # rss) = upcoming rss"
| "upcoming ((s # rs) # rss) = Some s"

fun moved_on :: "tree list list \<Rightarrow> tree list list" where
  "moved_on [] = []"
| "moved_on ([] # rss) = moved_on rss"
| "moved_on ((s # rs) # rss) = rs # rss"

lemma upcoming_none: "upcoming rss = None \<longleftrightarrow> concat rss = []"
  by (induction rss rule: upcoming.induct) auto

lemma focus_sub: "tree_focus t u rss \<Longrightarrow> u \<in> set (subs t)"
proof (induction rule: tree_focus.induct)
  case (focus_kid u rss ls k rs)
  then have "k \<in> set (subs_list (tkids u))" using kid_in_subs [of k "tkids u"] subs_self [of k] by auto
  with subs_trans(1) [OF focus_kid.IH] show ?case by (auto simp: subs_kids [of u])
qed (rule subs_self)

lemma focus_upcoming: "tree_focus t u rss \<Longrightarrow> upcoming rss = Some s \<Longrightarrow> tree_focus t s (moved_on rss)"
proof (induction rule: tree_focus.induct)
  case (focus_kid u rss ls k rs)
  show ?case
  proof (cases rs)
    case Nil
    with focus_kid show ?thesis by simp
  next
    case (Cons s' rs')
    with focus_kid.prems have "s' = s" by simp
    with focus_kid.hyps Cons have "tree_focus t s (rs' # rss)" by (intro tree_focus.focus_kid [of t u rss "ls @ [k]"]) auto
    with Cons \<open>s' = s\<close> show ?thesis by simp
  qed
qed simp

lemma focus_first_kid: "tree_focus t u rss \<Longrightarrow> upcoming (tkids u # rss) = Some s \<Longrightarrow> tree_focus t s (moved_on (tkids u # rss))"
  using focus_upcoming [of t u rss s] tree_focus.focus_kid [of t u rss "[]"] by (cases "tkids u") auto

section \<open>What the natives see there\<close>

definition tid_of :: "tree option \<Rightarrow> nat" where
  "tid_of u = (case u of None \<Rightarrow> 0 | Some t \<Rightarrow> tid t)"

lemma after_kid: "distinct (map tid (ls @ k # rs)) \<Longrightarrow> after (tid k) (map tid (ls @ k # rs)) = tid_of (upcoming [rs])"
proof (induction ls)
  case Nil
  then show ?case by (cases rs) (auto simp: tid_of_def)
next
  case (Cons l ls)
  then show ?case by (cases ls) auto
qed

lemma distinct_kids: "distinct (pre_tree u) \<Longrightarrow> distinct (map tid (tkids u))"
proof -
  have "distinct (pre_trees ks) \<Longrightarrow> distinct (map tid ks)" for ks
  proof (induction ks)
    case (Cons k ks)
    have "tid k \<in> set (pre_tree k)" by (rule tid_in_sub)
    moreover have "tid ` set ks \<subseteq> set (pre_trees ks)" using tree_ids [of _ ks] tid_in_sub by blast
    ultimately show ?case using Cons by auto
  qed simp
  then show "distinct (pre_tree u) \<Longrightarrow> distinct (map tid (tkids u))" by (cases u) simp
qed

lemma sub_distinct: "dom_ok d \<Longrightarrow> u \<in> set (subs_of d) \<Longrightarrow> distinct (pre_tree u)"
  using edit_pre(2) [of "d_trees d" u] by (auto simp: subs_of_def dom_ok_def forest_ok_def)

lemma focus_known: "t \<in> set (subs_of d) \<Longrightarrow> tree_focus t u rss \<Longrightarrow> u \<in> set (subs_of d)"
  using focus_sub [of t u rss] subs_trans(2) [of t "d_trees d"] by (auto simp: subs_of_def)

lemma first_child_focus: "dom_ok d \<Longrightarrow> u \<in> set (subs_of d) \<Longrightarrow> first_child d (tid u) = tid_of (upcoming [tkids u])"
  by (cases "tkids u") (simp_all add: first_child_def dom_child_ids tid_of_def)

lemma kid_natives:
  assumes "dom_ok d" "u \<in> set (subs_of d)" "tkids u = ls @ k # rs"
  shows "parent d (tid k) = tid u" "next_sibling d (tid k) = tid_of (upcoming [rs])" "tid u \<noteq> 0"
proof -
  show p: "parent d (tid k) = tid u" by (rule parent_kid [OF assms(1,2)]) (simp add: assms(3))
  show z: "tid u \<noteq> 0" using assms(1,2) dom_ok_ids [of d] by (auto simp: all_ids_subs)
  have "distinct (map tid (ls @ k # rs))" using distinct_kids [OF sub_distinct [OF assms(1,2)]] assms(3) by simp
  with p z show "next_sibling d (tid k) = tid_of (upcoming [rs])"
    using after_kid [of ls k rs] by (simp add: next_sibling_def siblings_def dom_child_ids [OF assms(1,2)] assms(3))
qed

lemma kid_not_root:
  assumes "dom_ok d" "t \<in> set (subs_of d)" "tree_focus t u rss" "tkids u = ls @ k # rs"
  shows "tid k \<noteq> tid t"
proof -
  have "k \<in> set (subs_list (tkids u))" using assms(4) kid_in_subs [of k "tkids u"] subs_self [of k] by auto
  moreover have "set (subs_list (tkids u)) \<subseteq> set (subs_list (tkids t))"
    using focus_sub [OF assms(3)] subs_trans(2) [of u "tkids t"] by (auto simp: subs_kids [of t] subs_kids [of u])
  ultimately have "tid k \<in> set (pre_trees (tkids t))" by (auto simp: pre_subs)
  with sub_distinct [OF assms(1,2)] show ?thesis by (cases t) auto
qed

text \<open>The way up finds the next of the siblings that are still to come.\<close>

lemma climb_up:
  assumes "dom_ok d" "t \<in> set (subs_of d)" "tree_focus t u rss" "length (all_ids d) < n + subtree_size d (tid u)"
  shows "next_climb (tid t) d (up d n (tid u)) = tid_of (upcoming rss)"
  using assms(3,4)
proof (induction arbitrary: n rule: tree_focus.induct)
  case focus_root
  have "tid t \<in> set (all_ids d)" using assms(2) by (auto simp: all_ids_subs)
  with focus_root subtree_size_le [OF assms(1)] dom_ok_ids [OF assms(1)] have "n \<noteq> 0" "tid t \<noteq> 0" by (fastforce, metis)
  then show ?case by (cases n) (simp_all add: tid_of_def)
next
  case (focus_kid u rss ls k rs)
  have u: "u \<in> set (subs_of d)" using focus_known [OF assms(2)] focus_kid.hyps(1) by simp
  note nat = kid_natives [OF assms(1) u focus_kid.hyps(2)]
  have k: "tid k \<in> set (all_ids d)" using kid_in_subs_of [OF u, of k] focus_kid.hyps(2) by (auto simp: all_ids_subs)
  have "n \<noteq> 0" using focus_kid.prems subtree_size_le [OF assms(1) k] by auto
  then obtain m where m: "n = Suc m" by (cases n) auto
  have "tid k \<noteq> 0" using k dom_ok_ids [OF assms(1)] by metis
  moreover have "length (all_ids d) < m + subtree_size d (tid u)"
    using focus_kid.prems m subtree_size_parent [OF assms(1), of "tid k"] nat(1,3) by simp
  moreover have "tid s \<noteq> 0" if "s \<in> set rs" for s
    using that kid_in_subs_of [OF u, of s] focus_kid.hyps(2) dom_ok_ids [OF assms(1)] by (auto simp: all_ids_subs)
  ultimately show ?case
    using focus_kid.IH [of m] nat kid_not_root [OF assms(1,2) focus_kid.hyps(1,2)] m
    by (cases rs) (auto simp: tid_of_def)
qed

text \<open>The next place of a walk from a place \<open>u\<close>, into its children or past them.\<close>

definition ahead :: "bool \<Rightarrow> tree \<Rightarrow> tree list list \<Rightarrow> tree list list" where
  "ahead down u rss = (if down then tkids u # rss else rss)"

lemma focus_nonzero: "dom_ok d \<Longrightarrow> t \<in> set (subs_of d) \<Longrightarrow> tree_focus t u rss \<Longrightarrow> tid u \<noteq> 0"
  using focus_known [of t d u rss] dom_ok_ids [of d] by (auto simp: all_ids_subs)

lemma focus_ahead: "tree_focus t u rss \<Longrightarrow> upcoming (ahead down u rss) = Some s \<Longrightarrow> tree_focus t s (moved_on (ahead down u rss))"
  using focus_first_kid [of t u rss s] focus_upcoming [of t u rss s] by (simp add: ahead_def split: if_splits)

lemma climb_focus:
  assumes "dom_ok d" "t \<in> set (subs_of d)" "tree_focus t u rss"
  shows "next_climb (tid t) d (ancestors_self d (tid u)) = tid_of (upcoming rss)"
  using climb_up [OF assms, of "Suc (length (all_ids d))"] by (simp add: ancestors_self_def del: up.simps)

lemma step_ahead:
  assumes "dom_ok d" "t \<in> set (subs_of d)" "tree_focus t u rss"
  shows "(if down \<and> first_child d (tid u) \<noteq> 0 then first_child d (tid u) else next_climb (tid t) d (ancestors_self d (tid u))) =
    tid_of (upcoming (ahead down u rss))"
proof -
  have u: "u \<in> set (subs_of d)" by (rule focus_known [OF assms(2,3)])
  have "first_child d (tid u) = tid_of (upcoming [tkids u])" by (rule first_child_focus [OF assms(1) u])
  moreover have "tid k \<noteq> 0" if "k \<in> set (tkids u)" for k
    using that kid_in_subs_of [OF u, of k] dom_ok_ids [OF assms(1)] by (auto simp: all_ids_subs)
  ultimately show ?thesis using climb_focus [OF assms]
    by (cases "tkids u") (auto simp: ahead_def tid_of_def)
qed

lemma find_climb:
  "next_climb rt d xs = (case find (\<lambda>n. next_sibling d n \<noteq> 0) (takeWhile (\<lambda>n. n \<noteq> rt) xs) of None \<Rightarrow> 0 | Some n \<Rightarrow> next_sibling d n)"
  by (induction xs) auto

lemma following_ahead:
  assumes "dom_ok d" "t \<in> set (subs_of d)" "tree_focus t u rss"
  shows "following_in_root d (tid u) (tid t) = tid_of (upcoming (ahead True u rss))"
  unfolding following_in_root_def find_climb [symmetric] using step_ahead [OF assms, of True] by simp

section \<open>Filters that answer\<close>

text \<open>A filter that leaves all alone and gives the number \<open>g x\<close>; what \<open>runFilter\<close> makes of it.\<close>

definition answers :: "traversal \<Rightarrow> (nat \<Rightarrow> int) \<Rightarrow> bool" where
  "answers tr g = (\<forall>f x w. t_filter tr = Some f \<longrightarrow> (\<exists>n. f x w = (w, Inr n) \<and> to_uint32 n = g x))"

definition verdict :: "traversal \<Rightarrow> (nat \<Rightarrow> int) \<Rightarrow> dom \<Rightarrow> nat \<Rightarrow> int" where
  "verdict tr g d x = (if \<not> bit (t_what tr) (nat (kind_of d x - 1)) then 3 else if t_filter tr = None then 1 else g x)"

lemma run_filter_answers: "answers tr g \<Longrightarrow> \<not> k_active w \<Longrightarrow> run_filter tr x w = (w, Inr (verdict tr g (k_dom w) x))"
proof -
  assume a: "answers tr g" "\<not> k_active w"
  have e: "w\<lparr>k_active := True\<rparr>\<lparr>k_active := False\<rparr> = w" using a(2) by simp
  show ?thesis
  proof (cases "t_filter tr")
    case (Some f)
    then obtain n where "f x (w\<lparr>k_active := True\<rparr>) = (w\<lparr>k_active := True\<rparr>, Inr n)" "to_uint32 n = g x"
      using a(1) unfolding answers_def by blast
    with Some a(2) e show ?thesis by (simp add: run_filter_def verdict_def)
  qed (use a(2) in \<open>simp add: run_filter_def verdict_def\<close>)
qed

section \<open>Tree walkers\<close>

text \<open>The nodes of a tree that a walker shows: those accepted, without what is below a rejected one.\<close>

fun shown :: "(nat \<Rightarrow> int) \<Rightarrow> tree \<Rightarrow> nat list"
  and shown_list :: "(nat \<Rightarrow> int) \<Rightarrow> tree list \<Rightarrow> nat list" where
  "shown v (T i n ks) = (if v i = 2 then [] else (if v i = 1 then [i] else []) @ shown_list v ks)"
| "shown_list v [] = []"
| "shown_list v (t # ts) = shown v t @ shown_list v ts"

definition shown_ahead :: "(nat \<Rightarrow> int) \<Rightarrow> tree list list \<Rightarrow> nat list" where
  "shown_ahead v rss = concat (map (shown_list v) rss)"

definition ahead_size :: "tree list list \<Rightarrow> nat" where
  "ahead_size rss = length (concat (map pre_trees rss))"

lemma shown_none: "upcoming rss = None \<Longrightarrow> shown_ahead v rss = []"
  by (induction rss rule: upcoming.induct) (auto simp: shown_ahead_def)

lemma shown_some:
  "upcoming rss = Some s \<Longrightarrow> shown_ahead v rss = (if v (tid s) = 1 then [tid s] else []) @ shown_ahead v (ahead (v (tid s) \<noteq> 2) s (moved_on rss))"
proof (induction rss rule: upcoming.induct)
  case (3 s' rs rss)
  then show ?case by (cases s) (auto simp: shown_ahead_def ahead_def)
qed (auto simp: shown_ahead_def)

lemma size_some: "upcoming rss = Some s \<Longrightarrow> ahead_size (ahead down s (moved_on rss)) < ahead_size rss"
proof (induction rss rule: upcoming.induct)
  case (3 s' rs rss)
  then show ?case by (cases s) (auto simp: ahead_size_def ahead_def)
qed (auto simp: ahead_size_def ahead_def)

text \<open>The loop of \<open>nextNode\<close> finds the first of the nodes that are still shown, and ends.\<close>

lemma next_loop_finds:
  assumes "dom_ok (k_dom w)" "t \<in> set (subs_of (k_dom w))" "answers tr g" "t_root tr = tid t" "\<not> k_active w" "tree_focus t u rss"
  defines "v \<equiv> verdict tr g (k_dom w)"
  shows "case shown_ahead v (ahead (r \<noteq> 2) u rss) of
      [] \<Rightarrow> next_loop tr r (tid u) w = nothing w
    | x # xs \<Rightarrow> next_loop tr r (tid u) w = found x w \<and> (\<exists>s rss'. tree_focus t s rss' \<and> tid s = x \<and> xs = shown_ahead v (ahead True s rss'))"
  using assms(6)
proof (induction "ahead_size (ahead (r \<noteq> 2) u rss)" arbitrary: r u rss rule: less_induct)
  case less
  define d where "d = k_dom w"
  let ?y = "if r \<noteq> 2 \<and> first_child d (tid u) \<noteq> 0 then first_child d (tid u) else next_climb (t_root tr) d (ancestors_self d (tid u))"
  have y: "?y = tid_of (upcoming (ahead (r \<noteq> 2) u rss))"
    unfolding d_def assms(4) by (rule step_ahead [OF assms(1,2) less.prems])
  have unfold: "next_loop tr r (tid u) w = (if ?y = 0 then nothing w
      else if v ?y = 1 then found ?y w else next_loop tr (v ?y) ?y w)"
    by (subst next_loop.simps) (simp add: Let_def run_filter_answers [OF assms(3,5)] d_def v_def)
  show ?case
  proof (cases "upcoming (ahead (r \<noteq> 2) u rss)")
    case None
    then show ?thesis using unfold y shown_none [OF None] by (simp add: tid_of_def)
  next
    case (Some s)
    have f: "tree_focus t s (moved_on (ahead (r \<noteq> 2) u rss))" by (rule focus_ahead [OF less.prems Some])
    have s: "?y = tid s" "tid s \<noteq> 0" using y Some focus_nonzero [OF assms(1,2) f] by (simp_all add: tid_of_def)
    note sh = shown_some [OF Some, of v]
    show ?thesis
    proof (cases "v (tid s) = 1")
      case True
      then show ?thesis using unfold s sh f by auto
    next
      case False
      have e: "next_loop tr r (tid u) w = next_loop tr (v (tid s)) (tid s) w" using unfold s False by simp
      have sh': "shown_ahead v (ahead (r \<noteq> 2) u rss) = shown_ahead v (ahead (v (tid s) \<noteq> 2) s (moved_on (ahead (r \<noteq> 2) u rss)))"
        using sh False by simp
      show ?thesis unfolding sh' e by (rule less.hyps [OF size_some [OF Some] f])
    qed
  qed
qed

text \<open>The method called \<open>n\<close> times, and what it gave each time; \<open>None\<close> when a call does not return.\<close>

fun call_repeatedly :: "(traveller \<Rightarrow> travelled) \<Rightarrow> nat \<Rightarrow> traveller \<Rightarrow> (traveller \<times> nat option res list) option" where
  "call_repeatedly m 0 w = Some (w, [])"
| "call_repeatedly m (Suc n) w = (case m w of
     None \<Rightarrow> None
   | Some (w1, r) \<Rightarrow> (case call_repeatedly m n w1 of None \<Rightarrow> None | Some (w2, rs) \<Rightarrow> Some (w2, r # rs)))"

lemma next_nodes:
  assumes "dom_ok d" "t \<in> set (subs_of d)" "answers tr g" "t_root tr = tid t"
    "k_dom w = d" "\<not> k_active w" "k_cur w = tid u" "tree_focus t u rss"
  shows "\<exists>w'. call_repeatedly (tw_next_node tr) (Suc (length (shown_ahead (verdict tr g d) (ahead True u rss)))) w =
    Some (w', map (\<lambda>x. Inr (Some x)) (shown_ahead (verdict tr g d) (ahead True u rss)) @ [Inr None])"
  using assms(5-8)
proof (induction "shown_ahead (verdict tr g d) (ahead True u rss)" arbitrary: w u rss)
  case Nil
  have "next_loop tr 1 (tid u) w = nothing w"
    using next_loop_finds [of w t tr g u rss 1] assms(1-4) Nil by simp
  with Nil show ?case by (simp add: tw_next_node_def nothing_def)
next
  case (Cons x xs)
  have L: "shown_ahead (verdict tr g d) (ahead True u rss) = x # xs" using Cons.hyps(2) by simp
  obtain s rss' where n: "next_loop tr 1 (tid u) w = found x w" "tree_focus t s rss'" "tid s = x" "xs = shown_ahead (verdict tr g d) (ahead True s rss')"
    using next_loop_finds [of w t tr g u rss 1] assms(1-4) Cons.prems L by auto
  from Cons.hyps(1) [of s rss' "w\<lparr>k_cur := x\<rparr>"] n Cons.prems obtain w' where
    "call_repeatedly (tw_next_node tr) (Suc (length xs)) (w\<lparr>k_cur := x\<rparr>) = Some (w', map (\<lambda>x. Inr (Some x)) xs @ [Inr None])"
    by auto
  then show ?case using n(1) Cons.prems(3) unfolding L by (simp add: tw_next_node_def found_def)
qed

section \<open>Node iterators\<close>

definition all_ahead :: "tree list list \<Rightarrow> nat list" where
  "all_ahead rss = concat (map pre_trees rss)"

lemma all_none: "upcoming rss = None \<Longrightarrow> all_ahead rss = []"
  by (induction rss rule: upcoming.induct) (auto simp: all_ahead_def)

lemma all_some: "upcoming rss = Some s \<Longrightarrow> all_ahead rss = tid s # all_ahead (ahead True s (moved_on rss))"
proof (induction rss rule: upcoming.induct)
  case (3 s' rs rss)
  then show ?case by (cases s) (auto simp: all_ahead_def ahead_def)
qed (auto simp: all_ahead_def)

text \<open>The loop that goes on from a node finds the next node that is accepted.\<close>

lemma iterator_finds:
  assumes "dom_ok (k_dom w)" "t \<in> set (subs_of (k_dom w))" "answers tr g" "t_root tr = tid t" "\<not> k_active w" "tree_focus t u rss"
  defines "v \<equiv> verdict tr g (k_dom w)"
  shows "case filter (\<lambda>x. v x = 1) (all_ahead (ahead True u rss)) of
      [] \<Rightarrow> iterator_loop True tr (tid u) False w = nothing w
    | x # xs \<Rightarrow> iterator_loop True tr (tid u) False w = Some (w\<lparr>k_cur := x, k_before := False\<rparr>, Inr (Some x)) \<and>
        (\<exists>s rss'. tree_focus t s rss' \<and> tid s = x \<and> xs = filter (\<lambda>x. v x = 1) (all_ahead (ahead True s rss')))"
  using assms(6)
proof (induction "ahead_size (ahead True u rss)" arbitrary: u rss rule: less_induct)
  case less
  let ?y = "tid_of (upcoming (ahead True u rss))"
  have y: "following_in_root (k_dom w) (tid u) (t_root tr) = ?y"
    unfolding assms(4) by (rule following_ahead [OF assms(1,2) less.prems])
  have unfold: "iterator_loop True tr (tid u) False w = (if ?y = 0 then nothing w
      else if v ?y = 1 then Some (w\<lparr>k_cur := ?y, k_before := False\<rparr>, Inr (Some ?y)) else iterator_loop True tr ?y False w)"
    by (subst iterator_loop.simps) (simp add: Let_def run_filter_answers [OF assms(3,5)] v_def y)
  show ?case
  proof (cases "upcoming (ahead True u rss)")
    case None
    then show ?thesis using unfold all_none [OF None] by (simp add: tid_of_def)
  next
    case (Some s)
    have f: "tree_focus t s (moved_on (ahead True u rss))" by (rule focus_ahead [OF less.prems Some])
    have s: "?y = tid s" "tid s \<noteq> 0" using Some focus_nonzero [OF assms(1,2) f] by (simp_all add: tid_of_def)
    note al = all_some [OF Some]
    show ?thesis
    proof (cases "v (tid s) = 1")
      case True
      then show ?thesis using unfold s al f by auto
    next
      case False
      have e: "iterator_loop True tr (tid u) False w = iterator_loop True tr (tid s) False w" using unfold s False by simp
      have al': "filter (\<lambda>x. v x = 1) (all_ahead (ahead True u rss)) = filter (\<lambda>x. v x = 1) (all_ahead (ahead True s (moved_on (ahead True u rss))))"
        using al False by simp
      show ?thesis unfolding al' e by (rule less.hyps [OF size_some [OF Some] f])
    qed
  qed
qed

lemma iterated_nodes:
  assumes "dom_ok d" "t \<in> set (subs_of d)" "answers tr g" "t_root tr = tid t"
    "k_dom w = d" "\<not> k_active w" "k_cur w = tid u" "\<not> k_before w" "tree_focus t u rss"
  defines "L \<equiv> \<lambda>u rss. filter (\<lambda>x. verdict tr g d x = 1) (all_ahead (ahead True u rss))"
  shows "\<exists>w'. call_repeatedly (ni_traverse True tr) (Suc (length (L u rss))) w = Some (w', map (\<lambda>x. Inr (Some x)) (L u rss) @ [Inr None])"
  using assms(5-9)
proof (induction "L u rss" arbitrary: w u rss)
  case Nil
  have "iterator_loop True tr (tid u) False w = nothing w"
    using iterator_finds [of w t tr g u rss] assms(1-4) Nil by (simp add: L_def)
  with Nil show ?case by (simp add: ni_traverse_def nothing_def)
next
  case (Cons x xs)
  have L: "L u rss = x # xs" using Cons.hyps(2) by simp
  let ?w = "w\<lparr>k_cur := x, k_before := False\<rparr>"
  obtain s rss' where n: "iterator_loop True tr (tid u) False w = Some (?w, Inr (Some x))"
    "tree_focus t s rss'" "tid s = x" "xs = L s rss'"
    using iterator_finds [of w t tr g u rss] assms(1-4) Cons.prems L by (auto simp: L_def)
  from Cons.hyps(1) [of s rss' ?w] n Cons.prems obtain w' where
    "call_repeatedly (ni_traverse True tr) (Suc (length xs)) ?w = Some (w', map (\<lambda>x. Inr (Some x)) xs @ [Inr None])"
    by auto
  then show ?case using n(1) Cons.prems(3,4) unfolding L by (simp add: ni_traverse_def)
qed

section \<open>Properties\<close>

text \<open>C31: \<open>nextNode\<close> of a tree walker, called again and again from the root, always returns, and gives the nodes below
  the root that the filter accepts, without those below a node that it rejects, each once and in document order, and
  then null.\<close>

theorem walker_visits_what_is_shown:
  assumes "dom_ok d" "t \<in> set (subs_of d)" "answers (new_traversal (tid t) what f) g"
  defines "tr \<equiv> new_traversal (tid t) what f"
  defines "seen \<equiv> shown_list (verdict tr g d) (tkids t)"
  shows "\<exists>w. call_repeatedly (tw_next_node tr) (Suc (length seen)) (new_walk d (tid t)) = Some (w, map (\<lambda>x. Inr (Some x)) seen @ [Inr None])"
proof -
  have "shown_ahead (verdict tr g d) (ahead True t []) = seen" by (simp add: seen_def shown_ahead_def ahead_def)
  then show ?thesis
    using next_nodes [of d t tr g "new_walk d (tid t)" t "[]"] assms(1-3) focus_root [of t]
    by (simp add: tr_def new_traversal_def new_walk_def)
qed

text \<open>C32: \<open>nextNode\<close> of a node iterator, called again and again, always returns, and gives the nodes of the tree of its root,
  the root included, that the filter accepts, each once and in document order, and then null.\<close>

theorem iterator_visits_what_is_accepted:
  assumes "dom_ok d" "t \<in> set (subs_of d)" "answers (new_traversal (tid t) what f) g"
  defines "tr \<equiv> new_traversal (tid t) what f"
  defines "seen \<equiv> filter (\<lambda>x. verdict tr g d x = 1) (pre_tree t)"
  shows "\<exists>w. call_repeatedly (ni_traverse True tr) (Suc (length seen)) (new_walk d (tid t)) = Some (w, map (\<lambda>x. Inr (Some x)) seen @ [Inr None])"
proof -
  let ?w = "new_walk d (tid t)"
  let ?v = "verdict tr g d"
  have w: "k_dom ?w = d" "\<not> k_active ?w" "k_cur ?w = tid t" "k_before ?w" by (simp_all add: new_walk_def)
  have a: "answers tr g" "t_root tr = tid t" using assms(3) by (simp_all add: tr_def new_traversal_def)
  let ?L = "filter (\<lambda>x. ?v x = 1) (all_ahead (ahead True t []))"
  have s: "seen = (if ?v (tid t) = 1 then [tid t] else []) @ ?L" unfolding seen_def by (cases t) (simp add: all_ahead_def ahead_def)
  have first: "ni_traverse True tr ?w = (if ?v (tid t) = 1 then Some (?w\<lparr>k_before := False\<rparr>, Inr (Some (tid t))) else iterator_loop True tr (tid t) False ?w)"
    unfolding ni_traverse_def w(3) using w(4)
    by (subst iterator_loop.simps) (simp add: Let_def run_filter_answers [OF a(1) w(2)] w(1), simp add: new_walk_def)
  obtain w1 where r: "call_repeatedly (ni_traverse True tr) (Suc (length ?L)) (?w\<lparr>k_before := False\<rparr>) = Some (w1, map (\<lambda>x. Inr (Some x)) ?L @ [Inr None])"
    using iterated_nodes [of d t tr g "?w\<lparr>k_before := False\<rparr>" t "[]"] assms(1,2) a w focus_root [of t] by auto
  show ?thesis
  proof (cases "?v (tid t) = 1")
    case True
    then show ?thesis using r s first by simp
  next
    case False
    then have f: "ni_traverse True tr ?w = iterator_loop True tr (tid t) False ?w" using first by simp
    note finds = iterator_finds [of ?w t tr g t "[]", unfolded w(1), OF assms(1,2) a w(2) focus_root]
    show ?thesis
    proof (cases ?L)
      case Nil
      then have "iterator_loop True tr (tid t) False ?w = nothing ?w" using finds by simp
      with Nil s f False show ?thesis by (simp add: nothing_def)
    next
      case (Cons x xs)
      then obtain u rss where n: "iterator_loop True tr (tid t) False ?w = Some (?w\<lparr>k_cur := x, k_before := False\<rparr>, Inr (Some x))"
        "tree_focus t u rss" "tid u = x" "xs = filter (\<lambda>x. ?v x = 1) (all_ahead (ahead True u rss))"
        using finds by auto
      obtain w2 where "call_repeatedly (ni_traverse True tr) (Suc (length xs)) (?w\<lparr>k_cur := x, k_before := False\<rparr>) =
          Some (w2, map (\<lambda>x. Inr (Some x)) xs @ [Inr None])"
        using iterated_nodes [of d t tr g "?w\<lparr>k_cur := x, k_before := False\<rparr>" u rss] assms(1,2) a w n by auto
      then show ?thesis using Cons s f n(1) False by simp
    qed
  qed
qed

section \<open>A walk\<close>

text \<open>A division with a paragraph that holds one more, and another after it; the filter rejects the first paragraph.\<close>

definition element_info :: ninfo where
  "element_info = \<lparr>i_nkind = 1, i_nns = None, i_cached = False, i_kind = 1, i_ns_code = 0, i_ns_other = None, i_prefix = None,
     i_local = [], i_name = [], i_text = [], i_attrs = []\<rparr>"

definition walk_tree :: tree where
  "walk_tree = T 1 element_info [T 2 element_info [T 3 element_info []], T 4 element_info []]"

definition walk_dom :: dom where
  "walk_dom = \<lparr>d_trees = [walk_tree], d_document = 1, d_html = [], d_detached = 0, d_node_docs = []\<rparr>"

definition walk_filter :: node_filter where
  "walk_filter x w = (w, Inr (if x = 2 then Fin 2 else Fin 1))"

lemma walk_ok: "dom_ok walk_dom" "walk_tree \<in> set (subs_of walk_dom)" "answers (new_traversal (tid walk_tree) (Fin 1) (Some walk_filter)) (\<lambda>x. if x = 2 then 2 else 1)"
  by (auto simp: dom_ok_def forest_ok_def leaf_ok_def leaf_kind_def kinds_agree_def has_children_def walk_dom_def walk_tree_def element_info_def subs_of_def answers_def new_traversal_def walk_filter_def
      to_uint32_def to_word32_def num_int_def)

lemma walk_verdicts: "x \<in> {1, 2, 3, 4} \<Longrightarrow> verdict (new_traversal (tid walk_tree) (Fin 1) (Some walk_filter)) (\<lambda>x. if x = 2 then 2 else 1) walk_dom x = (if x = 2 then 2 else 1)"
  by (auto simp: verdict_def new_traversal_def kind_of_def info_def node_def walk_dom_def walk_tree_def element_info_def to_uint32_def to_word32_def num_int_def)

lemma walk_shown:
  "shown_list (verdict (new_traversal (tid walk_tree) (Fin 1) (Some walk_filter)) (\<lambda>x. if x = 2 then 2 else 1) walk_dom) (tkids walk_tree) = [4]"
  "filter (\<lambda>x. verdict (new_traversal (tid walk_tree) (Fin 1) (Some walk_filter)) (\<lambda>x. if x = 2 then 2 else 1) walk_dom x = 1) (pre_tree walk_tree) = [1, 3, 4]"
proof -
  define v where "v = verdict (new_traversal (tid walk_tree) (Fin 1) (Some walk_filter)) (\<lambda>x. if x = 2 then 2 else 1) walk_dom"
  have "v 1 = 1" "v 2 = 2" "v 3 = 1" "v 4 = 1" using walk_verdicts [of 1] walk_verdicts [of 2] walk_verdicts [of 3] walk_verdicts [of 4] unfolding v_def by simp_all
  then have "shown_list v (tkids walk_tree) = [4]" "filter (\<lambda>x. v x = 1) (pre_tree walk_tree) = [1, 3, 4]" by (simp_all add: walk_tree_def)
  then show "shown_list (verdict (new_traversal (tid walk_tree) (Fin 1) (Some walk_filter)) (\<lambda>x. if x = 2 then 2 else 1) walk_dom) (tkids walk_tree) = [4]"
    "filter (\<lambda>x. verdict (new_traversal (tid walk_tree) (Fin 1) (Some walk_filter)) (\<lambda>x. if x = 2 then 2 else 1) walk_dom x = 1) (pre_tree walk_tree) = [1, 3, 4]"
    by (simp_all only: v_def)
qed

theorem walker_visits_what_is_shown_witness:
  "\<exists>w. call_repeatedly (tw_next_node (new_traversal (tid walk_tree) (Fin 1) (Some walk_filter))) (Suc (length [4::nat])) (new_walk walk_dom (tid walk_tree)) =
     Some (w, map (\<lambda>x. Inr (Some x)) [4] @ [Inr None])"
  using walker_visits_what_is_shown [OF walk_ok] unfolding walk_shown .

theorem iterator_visits_what_is_accepted_witness:
  "\<exists>w. call_repeatedly (ni_traverse True (new_traversal (tid walk_tree) (Fin 1) (Some walk_filter))) (Suc (length [1, 3, 4::nat])) (new_walk walk_dom (tid walk_tree)) =
     Some (w, map (\<lambda>x. Inr (Some x)) [1, 3, 4] @ [Inr None])"
  using iterator_visits_what_is_accepted [OF walk_ok] unfolding walk_shown .

end
