(* ===== verification/WebStreams.thy ===== *)
theory WebStreams
  imports JsNum
begin

text \<open>
  \<open>ReadableStream\<close>, its controller and its reader (\<open>40_webapi.js\<close>, lines 1783--1881 and 1926--1941).  Chunks and readers are
  known by numbers.  After it calls \<open>start\<close>, \<open>pull\<close> or \<open>cancel\<close> of the underlying source the code does nothing more in that
  turn, so that the calls the source makes there are steps of their own, and so is the settling of its promises.
\<close>

section \<open>The state\<close>

datatype stream_state = Readable | Closed | Errored exn

text \<open>What can be seen: the source is called, chunks come in, and the promises of \<open>read\<close> settle (they are numbered).\<close>

datatype stream_event = PullCalled | PullEnded | CancelCalled exn | Enqueued nat | ReadValue nat nat | ReadDone nat | ReadRejected nat exn

record rstream =
  r_queue :: "nat list"
  r_state :: stream_state
  r_reader :: "nat option"
  r_waiting :: "nat list"
  r_has_pull :: bool
  r_pulling :: bool
  r_hwm :: jsnum
  r_starting :: bool
  r_readers :: nat
  r_reads :: nat
  r_log :: "stream_event list"

definition rs_logged :: "stream_event list \<Rightarrow> rstream \<Rightarrow> rstream" where
  "rs_logged es s = s\<lparr>r_log := r_log s @ es\<rparr>"

text \<open>
  The queue holds less than the high water mark, \<open>length < hwm\<close>, and \<open>length >= hwm\<close>; both fail for NaN.  The length of
  an array is a number that a double represents exactly.
\<close>

definition queue_length :: "rstream \<Rightarrow> jsnum" where
  "queue_length s = Fin (of_nat (length (r_queue s)))"

definition below_mark :: "rstream \<Rightarrow> bool" where
  "below_mark s = num_lt (queue_length s) (r_hwm s)"

definition at_mark :: "rstream \<Rightarrow> bool" where
  "at_mark s = num_le (r_hwm s) (queue_length s)"

section \<open>The stream\<close>

text \<open>\<open>strategy\<close> gives the mark, 1 by default; after \<open>start\<close> the first pull comes as a microtask.\<close>

definition new_stream :: "bool \<Rightarrow> jsnum option \<Rightarrow> rstream" where
  "new_stream has_pull hwm = \<lparr>r_queue = [], r_state = Readable, r_reader = None, r_waiting = [], r_has_pull = has_pull, r_pulling = False,
     r_hwm = (case hwm of None \<Rightarrow> Fin 1 | Some n \<Rightarrow> n), r_starting = True, r_readers = 0, r_reads = 0, r_log = []\<rparr>"

definition rs_enqueue :: "nat \<Rightarrow> rstream \<Rightarrow> rstream \<times> unit res" where
  "rs_enqueue v s =
     (if r_state s \<noteq> Readable then (s, Inl TypeErr)
      else (case r_waiting s of
        x # xs \<Rightarrow> (rs_logged [Enqueued v, ReadValue x v] (s\<lparr>r_waiting := xs\<rparr>), Inr ())
      | [] \<Rightarrow> (rs_logged [Enqueued v] (s\<lparr>r_queue := r_queue s @ [v]\<rparr>), Inr ())))"

definition done_waiting :: "rstream \<Rightarrow> rstream" where
  "done_waiting s = rs_logged (map ReadDone (r_waiting s)) (s\<lparr>r_waiting := []\<rparr>)"

definition rs_close :: "rstream \<Rightarrow> rstream" where
  "rs_close s =
     (if r_state s \<noteq> Readable then s
      else let s1 = s\<lparr>r_state := Closed\<rparr> in if r_queue s1 = [] then done_waiting s1 else s1)"

definition rs_error :: "exn \<Rightarrow> rstream \<Rightarrow> rstream" where
  "rs_error e s =
     (if r_state s \<noteq> Readable then s
      else rs_logged (map (\<lambda>x. ReadRejected x e) (r_waiting s)) (s\<lparr>r_state := Errored e, r_queue := [], r_waiting := []\<rparr>))"

definition rs_desired :: "rstream \<Rightarrow> jsnum option" where
  "rs_desired s = (case r_state s of
     Readable \<Rightarrow> Some (num_sub (r_hwm s) (queue_length s))
   | Closed \<Rightarrow> Some (Fin 0)
   | Errored e \<Rightarrow> None)"

definition rs_pull :: "rstream \<Rightarrow> rstream" where
  "rs_pull s =
     (if r_pulling s \<or> r_state s \<noteq> Readable \<or> \<not> r_has_pull s \<or> (at_mark s \<and> r_waiting s = []) then s
      else rs_logged [PullCalled] (s\<lparr>r_pulling := True\<rparr>))"

definition rs_read :: "rstream \<Rightarrow> rstream" where
  "rs_read s0 =
     (let x = r_reads s0; s = s0\<lparr>r_reads := Suc x\<rparr> in
      case r_queue s of
        v # vs \<Rightarrow>
          (let s1 = s\<lparr>r_queue := vs\<rparr>;
               s2 = (if vs = [] \<and> r_state s1 = Closed then done_waiting s1 else s1)
           in rs_logged [ReadValue x v] (rs_pull s2))
      | [] \<Rightarrow> (case r_state s of
          Closed \<Rightarrow> rs_logged [ReadDone x] s
        | Errored e \<Rightarrow> rs_logged [ReadRejected x e] s
        | Readable \<Rightarrow> rs_pull (s\<lparr>r_waiting := r_waiting s @ [x]\<rparr>)))"

definition rs_cancel :: "exn \<Rightarrow> rstream \<Rightarrow> rstream" where
  "rs_cancel reason s = rs_logged [CancelCalled reason] (rs_close (s\<lparr>r_queue := []\<rparr>))"

text \<open>The promise of \<open>start\<close> settles, or the microtask after a \<open>start\<close> without promise runs; then that of \<open>pull\<close>.\<close>

definition start_settles :: "exn option \<Rightarrow> rstream \<Rightarrow> rstream" where
  "start_settles out s =
     (if r_starting s then (case out of None \<Rightarrow> rs_pull (s\<lparr>r_starting := False\<rparr>) | Some e \<Rightarrow> rs_error e (s\<lparr>r_starting := False\<rparr>)) else s)"

definition pull_settles :: "exn option \<Rightarrow> rstream \<Rightarrow> rstream" where
  "pull_settles out s =
     (if \<not> r_pulling s then s
      else let s1 = rs_logged [PullEnded] (s\<lparr>r_pulling := False\<rparr>) in
        (case out of
           None \<Rightarrow> if r_waiting s1 \<noteq> [] \<or> below_mark s1 then rs_pull s1 else s1
         | Some e \<Rightarrow> rs_error e s1))"

section \<open>Readers\<close>

text \<open>A reader has the stream for itself until it is released; then \<open>read\<close> rejects.\<close>

definition get_reader :: "bool \<Rightarrow> rstream \<Rightarrow> rstream \<times> nat res" where
  "get_reader byob s =
     (if byob \<or> r_reader s \<noteq> None then (s, Inl TypeErr)
      else (s\<lparr>r_reader := Some (r_readers s), r_readers := Suc (r_readers s)\<rparr>, Inr (r_readers s)))"

definition reader_read :: "nat \<Rightarrow> rstream \<Rightarrow> rstream \<times> unit res" where
  "reader_read k s = (if r_reader s \<noteq> Some k then (s, Inl TypeErr) else (rs_read s, Inr ()))"

definition release_lock :: "nat \<Rightarrow> rstream \<Rightarrow> rstream" where
  "release_lock k s = (if r_reader s = Some k then s\<lparr>r_reader := None\<rparr> else s)"

definition reader_cancel :: "nat \<Rightarrow> exn \<Rightarrow> rstream \<Rightarrow> rstream" where
  "reader_cancel k reason s = (if r_reader s = Some k then rs_cancel reason s else s)"

definition stream_cancel :: "exn \<Rightarrow> rstream \<Rightarrow> rstream \<times> unit res" where
  "stream_cancel reason s = (if r_reader s \<noteq> None then (s, Inl TypeErr) else (rs_cancel reason s, Inr ()))"

text \<open>\<open>return\<close> of an iterator over the values.\<close>

definition values_return :: "nat \<Rightarrow> bool \<Rightarrow> exn \<Rightarrow> rstream \<Rightarrow> rstream" where
  "values_return k prevent v s = release_lock k (if prevent then s else reader_cancel k v s)"

section \<open>Steps\<close>

datatype stream_step =
    Enqueue nat
  | CloseStream
  | ErrorStream exn
  | GetReader bool
  | ReadBy nat
  | Release nat
  | CancelBy nat exn
  | CancelStream exn
  | Return nat bool exn
  | StartSettles "exn option"
  | PullSettles "exn option"

definition stream_do :: "stream_step \<Rightarrow> rstream \<Rightarrow> rstream" where
  "stream_do c s = (case c of
     Enqueue v \<Rightarrow> fst (rs_enqueue v s)
   | CloseStream \<Rightarrow> rs_close s
   | ErrorStream e \<Rightarrow> rs_error e s
   | GetReader byob \<Rightarrow> fst (get_reader byob s)
   | ReadBy k \<Rightarrow> fst (reader_read k s)
   | Release k \<Rightarrow> release_lock k s
   | CancelBy k e \<Rightarrow> reader_cancel k e s
   | CancelStream e \<Rightarrow> fst (stream_cancel e s)
   | Return k p e \<Rightarrow> values_return k p e s
   | StartSettles out \<Rightarrow> start_settles out s
   | PullSettles out \<Rightarrow> pull_settles out s)"

inductive stream_reach :: "bool \<Rightarrow> jsnum option \<Rightarrow> rstream \<Rightarrow> bool" for has_pull hwm where
  stream_new: "stream_reach has_pull hwm (new_stream has_pull hwm)"
| stream_step: "stream_reach has_pull hwm s \<Longrightarrow> stream_reach has_pull hwm (stream_do c s)"

end
