(* ===== verification/WebStreamProps.thy ===== *)
theory WebStreamProps
  imports WebStreams "HOL-Library.Sublist"
begin

text \<open>
  What a readable stream promises: the reads get the chunks in their order, each read is answered once, the source is
  asked for more whenever there is demand, and never while it still works on the last call.
\<close>

section \<open>The history\<close>

definition enqueued :: "rstream \<Rightarrow> nat list" where
  "enqueued s = concat (map (\<lambda>e. case e of Enqueued v \<Rightarrow> [v] | _ \<Rightarrow> []) (r_log s))"

definition got_values :: "rstream \<Rightarrow> (nat \<times> nat) list" where
  "got_values s = concat (map (\<lambda>e. case e of ReadValue x v \<Rightarrow> [(x, v)] | _ \<Rightarrow> []) (r_log s))"

definition got_nothing :: "rstream \<Rightarrow> nat list" where
  "got_nothing s = concat (map (\<lambda>e. case e of ReadDone x \<Rightarrow> [x] | ReadRejected x r \<Rightarrow> [x] | _ \<Rightarrow> []) (r_log s))"

definition pulls_called :: "rstream \<Rightarrow> nat" where
  "pulls_called s = length (filter (\<lambda>e. e = PullCalled) (r_log s))"

definition pulls_ended :: "rstream \<Rightarrow> nat" where
  "pulls_ended s = length (filter (\<lambda>e. e = PullEnded) (r_log s))"

definition cancelled :: "rstream \<Rightarrow> bool" where
  "cancelled s = (\<exists>e \<in> set (r_log s). case e of CancelCalled r \<Rightarrow> True | _ \<Rightarrow> False)"

lemma rs_logged_sel [simp]:
  "r_queue (rs_logged es s) = r_queue s" "r_state (rs_logged es s) = r_state s" "r_reader (rs_logged es s) = r_reader s" "r_waiting (rs_logged es s) = r_waiting s"
  "r_has_pull (rs_logged es s) = r_has_pull s" "r_pulling (rs_logged es s) = r_pulling s" "r_hwm (rs_logged es s) = r_hwm s" "r_starting (rs_logged es s) = r_starting s"
  "r_reads (rs_logged es s) = r_reads s" "r_log (rs_logged es s) = r_log s @ es" "below_mark (rs_logged es s) = below_mark s" "at_mark (rs_logged es s) = at_mark s"
  by (simp_all add: rs_logged_def below_mark_def at_mark_def queue_length_def)

section \<open>The parts of the invariant\<close>

text \<open>
  The chunks: \<open>en\<close> came in, \<open>got\<close> went to reads, \<open>q\<close> waits; \<open>ids\<close> are the reads that have got one, \<open>no\<close> those that ended
  without, \<open>w\<close> those that wait, \<open>n\<close> the number of reads.
\<close>

definition chunks_ok :: "stream_state \<Rightarrow> bool \<Rightarrow> nat list \<Rightarrow> (nat \<times> nat) list \<Rightarrow> nat list \<Rightarrow> bool" where
  "chunks_ok st dropped en got q =
     ((\<not> dropped \<and> (\<forall>e. st \<noteq> Errored e) \<longrightarrow> en = map snd got @ q) \<and> (dropped \<or> (\<exists>e. st = Errored e) \<longrightarrow> prefix (map snd got) en \<and> q = [] \<and> st \<noteq> Readable))"

definition reads_ok :: "stream_state \<Rightarrow> (nat \<times> nat) list \<Rightarrow> nat list \<Rightarrow> nat list \<Rightarrow> nat list \<Rightarrow> nat \<Rightarrow> bool" where
  "reads_ok st got no w q n =
     (map fst got @ no @ w = [0..<n] \<and> (q \<noteq> [] \<longrightarrow> w = []) \<and> (st \<noteq> Readable \<longrightarrow> w = []) \<and> (no \<noteq> [] \<longrightarrow> st \<noteq> Readable \<and> q = []))"

definition pulls_ok :: "rstream \<Rightarrow> bool" where
  "pulls_ok s = (pulls_called s = pulls_ended s + (if r_pulling s then 1 else 0))"

definition demand_ok :: "rstream \<Rightarrow> bool" where
  "demand_ok s = (r_state s = Readable \<and> \<not> r_starting s \<and> r_has_pull s \<and> (r_waiting s \<noteq> [] \<or> below_mark s) \<longrightarrow> r_pulling s)"

definition stream_ok :: "rstream \<Rightarrow> bool" where
  "stream_ok s = (chunks_ok (r_state s) (cancelled s) (enqueued s) (got_values s) (r_queue s) \<and>
     reads_ok (r_state s) (got_values s) (got_nothing s) (r_waiting s) (r_queue s) (r_reads s))"

lemma history_logged_stream:
  "enqueued (rs_logged es s) = enqueued s @ concat (map (\<lambda>e. case e of Enqueued v \<Rightarrow> [v] | _ \<Rightarrow> []) es)"
  "got_values (rs_logged es s) = got_values s @ concat (map (\<lambda>e. case e of ReadValue x v \<Rightarrow> [(x, v)] | _ \<Rightarrow> []) es)"
  "got_nothing (rs_logged es s) = got_nothing s @ concat (map (\<lambda>e. case e of ReadDone x \<Rightarrow> [x] | ReadRejected x r \<Rightarrow> [x] | _ \<Rightarrow> []) es)"
  "pulls_called (rs_logged es s) = pulls_called s + length (filter (\<lambda>e. e = PullCalled) es)"
  "pulls_ended (rs_logged es s) = pulls_ended s + length (filter (\<lambda>e. e = PullEnded) es)"
  "cancelled (rs_logged es s) = (cancelled s \<or> (\<exists>e \<in> set es. case e of CancelCalled r \<Rightarrow> True | _ \<Rightarrow> False))"
  by (auto simp: enqueued_def got_values_def got_nothing_def pulls_called_def pulls_ended_def cancelled_def)

text \<open>A change of fields other than the log leaves the history alone.\<close>

lemma history_kept:
  assumes "r_log s' = r_log s"
  shows "enqueued s' = enqueued s" "got_values s' = got_values s" "got_nothing s' = got_nothing s" "pulls_called s' = pulls_called s" "pulls_ended s' = pulls_ended s"
    "cancelled s' = cancelled s"
  using assms by (simp_all add: enqueued_def got_values_def got_nothing_def pulls_called_def pulls_ended_def cancelled_def)

lemma history_upd [simp]:
  "enqueued (s\<lparr>r_waiting := a\<rparr>) = enqueued s" "got_values (s\<lparr>r_waiting := a\<rparr>) = got_values s" "got_nothing (s\<lparr>r_waiting := a\<rparr>) = got_nothing s" "cancelled (s\<lparr>r_waiting := a\<rparr>) = cancelled s"
  "enqueued (s\<lparr>r_queue := b\<rparr>) = enqueued s" "got_values (s\<lparr>r_queue := b\<rparr>) = got_values s" "got_nothing (s\<lparr>r_queue := b\<rparr>) = got_nothing s" "cancelled (s\<lparr>r_queue := b\<rparr>) = cancelled s"
  "enqueued (s\<lparr>r_state := c\<rparr>) = enqueued s" "got_values (s\<lparr>r_state := c\<rparr>) = got_values s" "got_nothing (s\<lparr>r_state := c\<rparr>) = got_nothing s" "cancelled (s\<lparr>r_state := c\<rparr>) = cancelled s"
  "enqueued (s\<lparr>r_pulling := d\<rparr>) = enqueued s" "got_values (s\<lparr>r_pulling := d\<rparr>) = got_values s" "got_nothing (s\<lparr>r_pulling := d\<rparr>) = got_nothing s" "cancelled (s\<lparr>r_pulling := d\<rparr>) = cancelled s"
  "enqueued (s\<lparr>r_starting := d\<rparr>) = enqueued s" "got_values (s\<lparr>r_starting := d\<rparr>) = got_values s" "got_nothing (s\<lparr>r_starting := d\<rparr>) = got_nothing s" "cancelled (s\<lparr>r_starting := d\<rparr>) = cancelled s"
  "enqueued (s\<lparr>r_reads := n\<rparr>) = enqueued s" "got_values (s\<lparr>r_reads := n\<rparr>) = got_values s" "got_nothing (s\<lparr>r_reads := n\<rparr>) = got_nothing s" "cancelled (s\<lparr>r_reads := n\<rparr>) = cancelled s"
  "enqueued (s\<lparr>r_state := c, r_queue := b, r_waiting := a\<rparr>) = enqueued s" "got_values (s\<lparr>r_state := c, r_queue := b, r_waiting := a\<rparr>) = got_values s"
  "got_nothing (s\<lparr>r_state := c, r_queue := b, r_waiting := a\<rparr>) = got_nothing s" "cancelled (s\<lparr>r_state := c, r_queue := b, r_waiting := a\<rparr>) = cancelled s"
  by (simp_all add: enqueued_def got_values_def got_nothing_def cancelled_def)

section \<open>The operations keep it\<close>

lemma pull_ok [simp]: "stream_ok (rs_pull s) = stream_ok s"
  by (simp add: rs_pull_def stream_ok_def history_logged_stream)

lemma concat_ids: "concat (map (\<lambda>e. case e of ReadDone x \<Rightarrow> [x] | ReadRejected x r \<Rightarrow> [x] | _ \<Rightarrow> []) (map ReadDone xs)) = xs"
  "concat (map (\<lambda>e. case e of ReadDone x \<Rightarrow> [x] | ReadRejected x r \<Rightarrow> [x] | _ \<Rightarrow> []) (map (\<lambda>x. ReadRejected x y) xs)) = xs"
  "concat (map (\<lambda>e. case e of ReadValue x v \<Rightarrow> [(x, v)] | _ \<Rightarrow> []) (map ReadDone xs)) = []"
  "concat (map (\<lambda>e. case e of ReadValue x v \<Rightarrow> [(x, v)] | _ \<Rightarrow> []) (map (\<lambda>x. ReadRejected x y) xs)) = []"
  "concat (map (\<lambda>e. case e of Enqueued v \<Rightarrow> [v] | _ \<Rightarrow> []) (map ReadDone xs)) = []"
  "concat (map (\<lambda>e. case e of Enqueued v \<Rightarrow> [v] | _ \<Rightarrow> []) (map (\<lambda>x. ReadRejected x y) xs)) = []"
  by (induction xs) auto

lemmas concat_ids_map = concat_ids [unfolded map_map]

lemma enqueue_ok: "stream_ok s \<Longrightarrow> stream_ok (fst (rs_enqueue v s))"
proof -
  assume ok: "stream_ok s"
  show ?thesis
  proof (cases "r_state s = Readable")
    case True
    with ok have c: "enqueued s = map snd (got_values s) @ r_queue s" "got_nothing s = []" "\<not> cancelled s"
      by (auto simp: stream_ok_def chunks_ok_def reads_ok_def)
    show ?thesis
    proof (cases "r_waiting s")
      case Nil
      with ok True c show ?thesis
        by (simp add: rs_enqueue_def stream_ok_def history_logged_stream chunks_ok_def reads_ok_def)
    next
      case (Cons x xs)
      with ok have q: "r_queue s = []" by (auto simp: stream_ok_def reads_ok_def)
      from ok True c Cons q show ?thesis
        by (simp add: rs_enqueue_def stream_ok_def history_logged_stream chunks_ok_def reads_ok_def)
    qed
  qed (use ok in \<open>simp add: rs_enqueue_def\<close>)
qed

lemma close_ok: "stream_ok s \<Longrightarrow> stream_ok (rs_close s)"
  by (auto simp: rs_close_def Let_def done_waiting_def stream_ok_def history_logged_stream concat_ids_map chunks_ok_def reads_ok_def)

lemma error_ok: "stream_ok s \<Longrightarrow> stream_ok (rs_error e s)"
  by (auto simp: rs_error_def Let_def stream_ok_def history_logged_stream concat_ids_map chunks_ok_def reads_ok_def)

lemma read_ok: "stream_ok s \<Longrightarrow> stream_ok (rs_read s)"
proof -
  assume ok: "stream_ok s"
  let ?s = "s\<lparr>r_reads := Suc (r_reads s)\<rparr>"
  show ?thesis
  proof (cases "r_queue s")
    case (Cons v vs)
    with ok have w: "r_waiting s = []" "got_nothing s = []" by (auto simp: stream_ok_def reads_ok_def)
    let ?s1 = "?s\<lparr>r_queue := vs\<rparr>"
    have "done_waiting (?s\<lparr>r_queue := []\<rparr>) = ?s\<lparr>r_queue := []\<rparr>" using w by (simp add: done_waiting_def rs_logged_def)
    then have e: "rs_read s = rs_logged [ReadValue (r_reads s) v] (rs_pull ?s1)" using Cons by (simp add: rs_read_def Let_def)
    have p: "rs_pull ?s1 = ?s1 \<or> rs_pull ?s1 = rs_logged [PullCalled] (?s1\<lparr>r_pulling := True\<rparr>)" by (simp add: rs_pull_def)
    have "stream_ok (rs_logged [ReadValue (r_reads s) v] ?s1)"
      using ok Cons w by (auto simp: stream_ok_def history_logged_stream chunks_ok_def reads_ok_def)
    with p e show ?thesis by (auto simp: stream_ok_def history_logged_stream)
  next
    case Nil
    show ?thesis
    proof (cases "r_state s")
      case Readable
      with ok Nil have "got_nothing s = []" by (auto simp: stream_ok_def reads_ok_def)
      with ok Nil Readable have "stream_ok (?s\<lparr>r_waiting := r_waiting s @ [r_reads s]\<rparr>)"
        by (auto simp: stream_ok_def chunks_ok_def reads_ok_def)
      with Nil Readable show ?thesis by (simp add: rs_read_def Let_def)
    qed (use ok Nil in \<open>auto simp: rs_read_def Let_def stream_ok_def history_logged_stream chunks_ok_def reads_ok_def\<close>)
  qed
qed

lemma cancel_ok: "stream_ok s \<Longrightarrow> stream_ok (rs_cancel reason s)"
  by (auto simp: rs_cancel_def rs_close_def Let_def done_waiting_def stream_ok_def history_logged_stream concat_ids_map chunks_ok_def reads_ok_def)

lemma fields_ok [simp]:
  "stream_ok (s\<lparr>r_starting := b\<rparr>) = stream_ok s" "stream_ok (s\<lparr>r_pulling := b\<rparr>) = stream_ok s" "stream_ok (s\<lparr>r_reader := c\<rparr>) = stream_ok s"
  "stream_ok (s\<lparr>r_reader := c, r_readers := n\<rparr>) = stream_ok s"
  by (simp_all add: stream_ok_def enqueued_def got_values_def got_nothing_def cancelled_def)

lemma logged_ok: "stream_ok (rs_logged [PullEnded] s) = stream_ok s"
  by (simp add: stream_ok_def history_logged_stream)

theorem stream_do_ok: "stream_ok s \<Longrightarrow> stream_ok (stream_do c s)"
  by (cases c) (auto simp: stream_do_def enqueue_ok close_ok error_ok read_ok cancel_ok get_reader_def reader_read_def release_lock_def reader_cancel_def
      stream_cancel_def values_return_def start_settles_def pull_settles_def Let_def logged_ok split: option.split)

lemma new_ok: "stream_ok (new_stream has_pull hwm)"
  by (simp add: stream_ok_def chunks_ok_def reads_ok_def new_stream_def enqueued_def got_values_def got_nothing_def cancelled_def)

lemma reach_stream_ok: "stream_reach has_pull hwm s \<Longrightarrow> stream_ok s"
  by (induction rule: stream_reach.induct) (simp_all add: new_ok stream_do_ok)

section \<open>Demand\<close>

lemma marks: "at_mark s \<Longrightarrow> \<not> below_mark s"
  by (cases "r_hwm s") (auto simp: at_mark_def below_mark_def num_le_def queue_length_def)

lemma below_more: "below_mark (s\<lparr>r_queue := r_queue s @ [v]\<rparr>) \<Longrightarrow> below_mark s"
  by (cases "r_hwm s") (auto simp: below_mark_def queue_length_def)

lemma demand_pull: "demand_ok (rs_pull s)"
  using marks [of s] by (auto simp: rs_pull_def demand_ok_def)

lemma demand_idle: "r_state s \<noteq> Readable \<Longrightarrow> demand_ok s"
  by (simp add: demand_ok_def)

lemma not_readable: "r_state (rs_close s) \<noteq> Readable" "r_state (rs_error e s) \<noteq> Readable"
  by (auto simp: rs_close_def Let_def done_waiting_def rs_error_def)

lemma demand_logged [simp]: "demand_ok (rs_logged es s) = demand_ok s"
  by (simp add: demand_ok_def)

lemma demand_read: "demand_ok s \<Longrightarrow> demand_ok (rs_read s)"
  by (cases "r_queue s"; cases "r_state s") (auto simp: rs_read_def Let_def demand_pull demand_idle)

theorem demand_do: "demand_ok s \<Longrightarrow> demand_ok (stream_do c s)"
proof (cases c)
  case (Enqueue v)
  assume "demand_ok s"
  then show ?thesis using Enqueue below_more [of s v]
    by (auto simp: stream_do_def rs_enqueue_def demand_ok_def below_mark_def queue_length_def split: list.split)
next
  case (PullSettles out)
  assume "demand_ok s"
  then show ?thesis using PullSettles
    by (auto simp: stream_do_def pull_settles_def Let_def demand_pull demand_idle not_readable split: option.split) (simp add: demand_ok_def)
qed (auto simp: stream_do_def demand_idle not_readable demand_read demand_pull get_reader_def reader_read_def release_lock_def reader_cancel_def rs_cancel_def
      stream_cancel_def values_return_def start_settles_def split: option.split, auto simp: demand_ok_def below_mark_def queue_length_def not_readable)

section \<open>Calls of the source\<close>

lemma pulls_same: "r_pulling s' = r_pulling s \<Longrightarrow> pulls_called s' = pulls_called s \<Longrightarrow> pulls_ended s' = pulls_ended s \<Longrightarrow> pulls_ok s' = pulls_ok s"
  by (simp add: pulls_ok_def)

lemma pulls_pull: "pulls_ok s \<Longrightarrow> pulls_ok (rs_pull s)"
  by (simp add: rs_pull_def pulls_ok_def pulls_called_def pulls_ended_def)

lemma no_pull_events: "filter (\<lambda>e. e = PullCalled) (map ReadDone xs) = []" "filter (\<lambda>e. e = PullEnded) (map ReadDone xs) = []"
  "filter (\<lambda>e. e = PullCalled) (map (\<lambda>x. ReadRejected x r) xs) = []" "filter (\<lambda>e. e = PullEnded) (map (\<lambda>x. ReadRejected x r) xs) = []"
  by (induction xs) auto

lemma pulls_fields [simp]: "pulls_ok (s\<lparr>r_reader := c\<rparr>) = pulls_ok s" "pulls_ok (s\<lparr>r_reader := c, r_readers := n\<rparr>) = pulls_ok s"
  by (simp_all add: pulls_ok_def pulls_called_def pulls_ended_def)

lemma pulls_close: "pulls_ok (rs_close s) = pulls_ok s" "pulls_ok (rs_error e s) = pulls_ok s" "pulls_ok (rs_cancel e s) = pulls_ok s" "pulls_ok (fst (rs_enqueue v s)) = pulls_ok s"
  by (auto simp: pulls_ok_def rs_close_def rs_error_def rs_cancel_def rs_enqueue_def done_waiting_def Let_def pulls_called_def pulls_ended_def no_pull_events split: list.split)

lemma pulls_read: "pulls_ok s \<Longrightarrow> pulls_ok (rs_read s)"
proof -
  assume p: "pulls_ok s"
  have same: "pulls_ok (s\<lparr>r_reads := a, r_queue := b\<rparr>)" "pulls_ok (s\<lparr>r_reads := a\<rparr>)" "pulls_ok (s\<lparr>r_reads := a, r_waiting := b\<rparr>)" for a b
    using p by (simp_all add: pulls_ok_def pulls_called_def pulls_ended_def)
  have "pulls_ok (done_waiting s1) = pulls_ok s1" for s1
    by (rule pulls_same) (simp_all add: done_waiting_def pulls_called_def pulls_ended_def no_pull_events)
  moreover have "pulls_ok (rs_logged [e] s1) = pulls_ok s1" if "e \<noteq> PullCalled" "e \<noteq> PullEnded" for e s1
    by (rule pulls_same) (use that in \<open>simp_all add: pulls_called_def pulls_ended_def\<close>)
  ultimately show ?thesis
    by (auto simp: rs_read_def Let_def same pulls_pull split: list.split stream_state.split)
qed

theorem pulls_do: "pulls_ok s \<Longrightarrow> pulls_ok (stream_do c s)"
proof (cases c)
  case (PullSettles out)
  assume p: "pulls_ok s"
  have "pulls_ok (rs_logged [PullEnded] (s\<lparr>r_pulling := False\<rparr>))" if "r_pulling s"
    using p that by (simp add: pulls_ok_def pulls_called_def pulls_ended_def)
  with p show ?thesis using PullSettles
    by (auto simp: stream_do_def pull_settles_def Let_def pulls_pull pulls_close split: option.split)
next
  case (StartSettles out)
  assume p: "pulls_ok s"
  then have "pulls_ok (s\<lparr>r_starting := False\<rparr>)" by (simp add: pulls_ok_def pulls_called_def pulls_ended_def)
  with p show ?thesis using StartSettles by (auto simp: stream_do_def start_settles_def pulls_pull pulls_close split: option.split)
qed (auto simp: stream_do_def pulls_read pulls_close get_reader_def reader_read_def release_lock_def reader_cancel_def stream_cancel_def values_return_def)

lemma reach_pulls: "stream_reach has_pull hwm s \<Longrightarrow> pulls_ok s \<and> demand_ok s"
proof (induction rule: stream_reach.induct)
  case stream_new
  show ?case by (simp add: pulls_ok_def demand_ok_def new_stream_def pulls_called_def pulls_ended_def)
qed (simp add: pulls_do demand_do)

section \<open>Properties\<close>

text \<open>C33: The reads of a stream get its chunks in order: the i-th read that was ever made gets the i-th chunk that was put in,
  no chunk is lost or read twice while the stream has neither failed nor been cancelled, and every read is
  either answered once or waits, which it only does while the stream is readable and its queue is empty.\<close>

theorem reads_get_chunks_in_order:
  assumes "stream_reach has_pull hwm s"
  shows "got_values s = zip [0..<length (got_values s)] (take (length (got_values s)) (enqueued s)) \<and>
    (\<not> cancelled s \<and> (\<forall>e. r_state s \<noteq> Errored e) \<longrightarrow> r_queue s = drop (length (got_values s)) (enqueued s)) \<and>
    map fst (got_values s) @ got_nothing s @ r_waiting s = [0..<r_reads s] \<and> (r_waiting s \<noteq> [] \<longrightarrow> r_state s = Readable \<and> r_queue s = [])"
proof -
  have ok: "stream_ok s" by (rule reach_stream_ok [OF assms])
  let ?n = "length (got_values s)"
  have pre: "prefix (map snd (got_values s)) (enqueued s)" using ok by (auto simp: stream_ok_def chunks_ok_def)
  have all: "map fst (got_values s) @ got_nothing s @ r_waiting s = [0..<r_reads s]" using ok by (simp add: stream_ok_def reads_ok_def)
  have "map fst (got_values s) = take ?n [0..<r_reads s]" using all by (metis append_eq_conv_conj length_map)
  moreover have "?n \<le> r_reads s" using arg_cong [OF all, of length] by simp
  ultimately have ids: "map fst (got_values s) = [0..<?n]" by simp
  have "map snd (got_values s) = take ?n (enqueued s)" using pre by (metis length_map prefix_def append_eq_conv_conj)
  with ids have "got_values s = zip [0..<?n] (take ?n (enqueued s))" by (metis zip_map_fst_snd)
  moreover have "r_queue s = drop ?n (enqueued s)" if "\<not> cancelled s" "\<forall>e. r_state s \<noteq> Errored e"
    using ok that by (simp add: stream_ok_def chunks_ok_def)
  ultimately show ?thesis using all ok by (auto simp: stream_ok_def reads_ok_def)
qed

theorem reads_get_chunks_in_order_witness:
  "let s = fold stream_do [GetReader False, ReadBy 0, Enqueue 7, Enqueue 8, ReadBy 0, ReadBy 0] (new_stream True None) in
   got_values s = [(0, 7), (1, 8)] \<and> r_waiting s = [2] \<and>
   got_values s = zip [0..<length (got_values s)] (take (length (got_values s)) (enqueued s)) \<and>
   r_queue s = drop (length (got_values s)) (enqueued s) \<and>
   map fst (got_values s) @ got_nothing s @ r_waiting s = [0..<r_reads s] \<and> r_state s = Readable"
proof -
  let ?s = "fold stream_do [GetReader False, ReadBy 0, Enqueue 7, Enqueue 8, ReadBy 0, ReadBy 0] (new_stream True None)"
  have r: "stream_reach True None ?s" by (simp add: stream_new stream_step)
  have "got_values ?s = [(0, 7), (1, 8)]" "r_waiting ?s = [2]" "\<not> cancelled ?s" by code_simp+
  moreover have "r_state ?s = Readable" by code_simp
  ultimately show ?thesis using reads_get_chunks_in_order [OF r] unfolding Let_def by (metis stream_state.distinct(3))
qed

text \<open>C34: Demand reaches the source: a stream that is readable, has started and has a read waiting or less in its queue than its
  mark, has a call of \<open>pull\<close> under way; and there is never more than one.\<close>

theorem demand_reaches_the_source:
  assumes "stream_reach has_pull hwm s"
  shows "(r_state s = Readable \<and> \<not> r_starting s \<and> r_has_pull s \<and> (r_waiting s \<noteq> [] \<or> below_mark s) \<longrightarrow> r_pulling s) \<and>
    pulls_called s = pulls_ended s + (if r_pulling s then 1 else 0)"
  using reach_pulls [OF assms] by (simp add: demand_ok_def pulls_ok_def)

theorem demand_reaches_the_source_witness:
  "let s = fold stream_do [StartSettles None, Enqueue 3, PullSettles None, GetReader False, ReadBy 0] (new_stream True None) in
   r_pulling s \<and> pulls_called s = pulls_ended s + 1"
proof -
  let ?s = "fold stream_do [StartSettles None, Enqueue 3, PullSettles None, GetReader False, ReadBy 0] (new_stream True None)"
  have r: "stream_reach True None ?s" by (simp add: stream_new stream_step)
  have d: "r_state ?s = Readable" "\<not> r_starting ?s" "r_has_pull ?s" "below_mark ?s" by code_simp+
  from demand_reaches_the_source [OF r] d have "r_pulling ?s" by blast
  with demand_reaches_the_source [OF r] show ?thesis by (simp add: Let_def)
qed

text \<open>A source whose \<open>pull\<close> returns before it has a chunk is called again at once, and so on for ever: in a stream below its
  mark the end of a call of \<open>pull\<close> always starts the next, with no chunk in between, so that a source that waits for
  something else never lets the page go on.\<close>

theorem pull_spins:
  assumes "r_state s = Readable" "r_has_pull s" "r_pulling s" "below_mark s"
  shows "r_pulling (fold (\<lambda>_. stream_do (PullSettles None)) [0..<n] s) \<and>
    pulls_called (fold (\<lambda>_. stream_do (PullSettles None)) [0..<n] s) = pulls_called s + n \<and>
    enqueued (fold (\<lambda>_. stream_do (PullSettles None)) [0..<n] s) = enqueued s"
proof -
  define t where "t n = fold (\<lambda>_. stream_do (PullSettles None)) [0..<n] s" for n
  have "r_state (t n) = Readable \<and> r_has_pull (t n) \<and> r_pulling (t n) \<and> below_mark (t n) \<and> pulls_called (t n) = pulls_called s + n \<and> enqueued (t n) = enqueued s"
  proof (induction n)
    case (Suc n)
    have e: "t (Suc n) = stream_do (PullSettles None) (t n)" by (simp add: t_def)
    let ?u = "rs_logged [PullEnded] ((t n)\<lparr>r_pulling := False\<rparr>)"
    have b: "below_mark ?u" using Suc.IH by (simp add: below_mark_def queue_length_def)
    then have "t (Suc n) = rs_logged [PullCalled] (?u\<lparr>r_pulling := True\<rparr>)"
      using Suc.IH marks [of ?u] by (auto simp: e stream_do_def pull_settles_def rs_pull_def Let_def)
    with Suc.IH show ?case
      by (simp add: below_mark_def queue_length_def history_logged_stream) (simp add: pulls_called_def enqueued_def)
  qed (use assms in \<open>simp add: t_def\<close>)
  then show ?thesis by (simp add: t_def)
qed

theorem pull_spins_witness:
  "let s = stream_do (StartSettles None) (new_stream True None) in
   r_pulling (fold (\<lambda>_. stream_do (PullSettles None)) [0..<1000] s) \<and>
   pulls_called (fold (\<lambda>_. stream_do (PullSettles None)) [0..<1000] s) = pulls_called s + 1000 \<and>
   enqueued (fold (\<lambda>_. stream_do (PullSettles None)) [0..<1000] s) = enqueued s"
  unfolding Let_def
proof (rule pull_spins)
  show "r_state (stream_do (StartSettles None) (new_stream True None)) = Readable" by code_simp
  show "r_has_pull (stream_do (StartSettles None) (new_stream True None))" by code_simp
  show "r_pulling (stream_do (StartSettles None) (new_stream True None))" by code_simp
  show "below_mark (stream_do (StartSettles None) (new_stream True None))" by code_simp
qed

end
