(* ===== verification/WebSha.thy ===== *)
theory WebSha
  imports "HOL-Library.Word"
begin

text \<open>
  The digests of \<open>40_webapi.js\<close> (lines 3451--3561): padding of a message, SHA-256, SHA-1, SHA-512 and SHA-384.  Sums of
  doubles that \<open>>>> 0\<close> cuts to 32 bits, elements of \<open>Uint32Array\<close> and big integers under the mask \<open>M\<close> are sums of machine
  words: no sum of the code reaches \<open>2 ^ 53\<close>, where doubles stop being exact.
\<close>

unbundle bit_operations_syntax

type_synonym bytes = "8 word list"

section \<open>Bytes and words\<close>

text \<open>\<open>setUint32\<close>, \<open>setBigUint64\<close>, \<open>getUint32\<close>, \<open>getBigUint64\<close> of a \<open>DataView\<close>, which are big endian.\<close>

definition be_bytes :: "nat \<Rightarrow> 'a::len word \<Rightarrow> bytes" where
  "be_bytes n x = map (\<lambda>j. ucast (drop_bit (8 * j) x)) (rev [0..<n])"

definition set_bytes :: "nat \<Rightarrow> bytes \<Rightarrow> bytes \<Rightarrow> bytes" where
  "set_bytes off bs buf = take off buf @ bs @ drop (off + length bs) buf"

definition get_uint32 :: "bytes \<Rightarrow> nat \<Rightarrow> 32 word" where
  "get_uint32 buf off = word_rcat (take 4 (drop off buf))"

definition get_uint64 :: "bytes \<Rightarrow> nat \<Rightarrow> 64 word" where
  "get_uint64 buf off = word_rcat (take 8 (drop off buf))"

text \<open>\<open>Math.ceil((l + 1 + lenBytes) / block) * block\<close> is the total.\<close>

definition pad_message :: "bytes \<Rightarrow> nat \<Rightarrow> bytes" where
  "pad_message msg len_bytes =
     (let l = length msg;
          block = (if len_bytes = 16 then 128 else 64);
          total = (l + 1 + len_bytes + (block - 1)) div block * block;
          buf = (msg @ replicate (total - l) 0)[l := 0x80];
          bits = l * 8
      in set_bytes (total - 8) (be_bytes 4 (word_of_nat (bits div 4294967296) :: 32 word))
           (set_bytes (total - 4) (be_bytes 4 (word_of_nat bits :: 32 word)) buf))"

section \<open>SHA-256\<close>

definition rotr :: "32 word \<Rightarrow> nat \<Rightarrow> 32 word" where
  "rotr x n = drop_bit n x OR push_bit (32 - n) x"

text \<open>The constants are written as their hexadecimal digits (for SHA-512 the code does so, too).\<close>

definition hex_char :: "char \<Rightarrow> int" where
  "hex_char c = (let n = of_char c in if n < 58 then n - 48 else n - 87)"

definition hex_word :: "string \<Rightarrow> 'a::len word" where
  "hex_word h = word_of_int (fold (\<lambda>c n. 16 * n + hex_char c) h 0)"

definition k256 :: "32 word list" where
  "k256 = map hex_word [
     ''428a2f98'', ''71374491'', ''b5c0fbcf'', ''e9b5dba5'', ''3956c25b'', ''59f111f1'', ''923f82a4'', ''ab1c5ed5'',
     ''d807aa98'', ''12835b01'', ''243185be'', ''550c7dc3'', ''72be5d74'', ''80deb1fe'', ''9bdc06a7'', ''c19bf174'',
     ''e49b69c1'', ''efbe4786'', ''0fc19dc6'', ''240ca1cc'', ''2de92c6f'', ''4a7484aa'', ''5cb0a9dc'', ''76f988da'',
     ''983e5152'', ''a831c66d'', ''b00327c8'', ''bf597fc7'', ''c6e00bf3'', ''d5a79147'', ''06ca6351'', ''14292967'',
     ''27b70a85'', ''2e1b2138'', ''4d2c6dfc'', ''53380d13'', ''650a7354'', ''766a0abb'', ''81c2c92e'', ''92722c85'',
     ''a2bfe8a1'', ''a81a664b'', ''c24b8b70'', ''c76c51a3'', ''d192e819'', ''d6990624'', ''f40e3585'', ''106aa070'',
     ''19a4c116'', ''1e376c08'', ''2748774c'', ''34b0bcb5'', ''391c0cb3'', ''4ed8aa4a'', ''5b9cca4f'', ''682e6ff3'',
     ''748f82ee'', ''78a5636f'', ''84c87814'', ''8cc70208'', ''90befffa'', ''a4506ceb'', ''bef9a3f7'', ''c67178f2'']"

definition init256 :: "32 word list" where
  "init256 = [0x6a09e667, 0xbb67ae85, 0x3c6ef372, 0xa54ff53a, 0x510e527f, 0x9b05688c, 0x1f83d9ab, 0x5be0cd19]"

text \<open>The array \<open>W\<close>, filled from its beginning.\<close>

definition extend256 :: "32 word list \<Rightarrow> 32 word list" where
  "extend256 w =
     (let i = length w;
          s0 = rotr (w ! (i - 15)) 7 XOR rotr (w ! (i - 15)) 18 XOR drop_bit 3 (w ! (i - 15));
          s1 = rotr (w ! (i - 2)) 17 XOR rotr (w ! (i - 2)) 19 XOR drop_bit 10 (w ! (i - 2))
      in w @ [w ! (i - 16) + s0 + w ! (i - 7) + s1])"

definition schedule256 :: "bytes \<Rightarrow> nat \<Rightarrow> 32 word list" where
  "schedule256 dv off = (extend256 ^^ 48) (map (\<lambda>i. get_uint32 dv (off + i * 4)) [0..<16])"

fun round256 :: "32 word list \<Rightarrow> nat \<Rightarrow> 32 word list \<Rightarrow> 32 word list" where
  "round256 w i [a, b, c, d, e, f, g, h] =
     (let t1 = h + (rotr e 6 XOR rotr e 11 XOR rotr e 25) + ((e AND f) XOR (NOT e AND g)) + k256 ! i + w ! i;
          t2 = (rotr a 2 XOR rotr a 13 XOR rotr a 22) + ((a AND b) XOR (a AND c) XOR (b AND c))
      in [t1 + t2, a, b, c, d + t1, e, f, g])"
| "round256 w i s = s"

definition block256 :: "bytes \<Rightarrow> nat \<Rightarrow> 32 word list \<Rightarrow> 32 word list" where
  "block256 dv off hs = map2 (+) hs (fold (round256 (schedule256 dv off)) [0..<64] hs)"

definition sha256 :: "bytes \<Rightarrow> bytes" where
  "sha256 msg = (let dv = pad_message msg 8 in
     concat (map (be_bytes 4) (fold (\<lambda>j. block256 dv (64 * j)) [0..<length dv div 64] init256)))"

section \<open>SHA-1\<close>

definition extend1 :: "32 word list \<Rightarrow> 32 word list" where
  "extend1 w = (let i = length w; x = w ! (i - 3) XOR w ! (i - 8) XOR w ! (i - 14) XOR w ! (i - 16)
     in w @ [push_bit 1 x OR drop_bit 31 x])"

definition schedule1 :: "bytes \<Rightarrow> nat \<Rightarrow> 32 word list" where
  "schedule1 dv off = (extend1 ^^ 64) (map (\<lambda>i. get_uint32 dv (off + i * 4)) [0..<16])"

fun round1 :: "32 word list \<Rightarrow> nat \<Rightarrow> 32 word list \<Rightarrow> 32 word list" where
  "round1 w i [a, b, c, d, e] =
     (let (f, k) = (if i < 20 then ((b AND c) OR (NOT b AND d), 0x5a827999)
                    else if i < 40 then (b XOR c XOR d, 0x6ed9eba1)
                    else if i < 60 then ((b AND c) OR (b AND d) OR (c AND d), 0x8f1bbcdc)
                    else (b XOR c XOR d, 0xca62c1d6));
          t = (push_bit 5 a OR drop_bit 27 a) + f + e + k + w ! i
      in [t, a, push_bit 30 b OR drop_bit 2 b, c, d])"
| "round1 w i s = s"

definition block1 :: "bytes \<Rightarrow> nat \<Rightarrow> 32 word list \<Rightarrow> 32 word list" where
  "block1 dv off hs = map2 (+) hs (fold (round1 (schedule1 dv off)) [0..<80] hs)"

definition sha1 :: "bytes \<Rightarrow> bytes" where
  "sha1 msg = (let dv = pad_message msg 8 in
     concat (map (be_bytes 4) (fold (\<lambda>j. block1 dv (64 * j)) [0..<length dv div 64]
       [0x67452301, 0xefcdab89, 0x98badcfe, 0x10325476, 0xc3d2e1f0])))"

section \<open>SHA-512 and SHA-384\<close>

definition rot64 :: "64 word \<Rightarrow> nat \<Rightarrow> 64 word" where
  "rot64 x n = drop_bit n x OR push_bit (64 - n) x"

definition k512 :: "64 word list" where
  "k512 = map hex_word [
     ''428a2f98d728ae22'', ''7137449123ef65cd'', ''b5c0fbcfec4d3b2f'', ''e9b5dba58189dbbc'', ''3956c25bf348b538'',
     ''59f111f1b605d019'', ''923f82a4af194f9b'', ''ab1c5ed5da6d8118'', ''d807aa98a3030242'', ''12835b0145706fbe'',
     ''243185be4ee4b28c'', ''550c7dc3d5ffb4e2'', ''72be5d74f27b896f'', ''80deb1fe3b1696b1'', ''9bdc06a725c71235'',
     ''c19bf174cf692694'', ''e49b69c19ef14ad2'', ''efbe4786384f25e3'', ''0fc19dc68b8cd5b5'', ''240ca1cc77ac9c65'',
     ''2de92c6f592b0275'', ''4a7484aa6ea6e483'', ''5cb0a9dcbd41fbd4'', ''76f988da831153b5'', ''983e5152ee66dfab'',
     ''a831c66d2db43210'', ''b00327c898fb213f'', ''bf597fc7beef0ee4'', ''c6e00bf33da88fc2'', ''d5a79147930aa725'',
     ''06ca6351e003826f'', ''142929670a0e6e70'', ''27b70a8546d22ffc'', ''2e1b21385c26c926'', ''4d2c6dfc5ac42aed'',
     ''53380d139d95b3df'', ''650a73548baf63de'', ''766a0abb3c77b2a8'', ''81c2c92e47edaee6'', ''92722c851482353b'',
     ''a2bfe8a14cf10364'', ''a81a664bbc423001'', ''c24b8b70d0f89791'', ''c76c51a30654be30'', ''d192e819d6ef5218'',
     ''d69906245565a910'', ''f40e35855771202a'', ''106aa07032bbd1b8'', ''19a4c116b8d2d0c8'', ''1e376c085141ab53'',
     ''2748774cdf8eeb99'', ''34b0bcb5e19b48a8'', ''391c0cb3c5c95a63'', ''4ed8aa4ae3418acb'', ''5b9cca4f7763e373'',
     ''682e6ff3d6b2b8a3'', ''748f82ee5defb2fc'', ''78a5636f43172f60'', ''84c87814a1f0ab72'', ''8cc702081a6439ec'',
     ''90befffa23631e28'', ''a4506cebde82bde9'', ''bef9a3f7b2c67915'', ''c67178f2e372532b'', ''ca273eceea26619c'',
     ''d186b8c721c0c207'', ''eada7dd6cde0eb1e'', ''f57d4f7fee6ed178'', ''06f067aa72176fba'', ''0a637dc5a2c898a6'',
     ''113f9804bef90dae'', ''1b710b35131c471b'', ''28db77f523047d84'', ''32caab7b40c72493'', ''3c9ebe0a15c9bebc'',
     ''431d67c49c100d4c'', ''4cc5d4becb3e42b6'', ''597f299cfc657e2a'', ''5fcb6fab3ad6faec'', ''6c44198c4a475817'']"

definition init512 :: "bool \<Rightarrow> 64 word list" where
  "init512 is384 = (if is384
     then [0xcbbb9d5dc1059ed8, 0x629a292a367cd507, 0x9159015a3070dd17, 0x152fecd8f70e5939, 0x67332667ffc00b31, 0x8eb44a8768581511, 0xdb0c2e0d64f98fa7, 0x47b5481dbefa4fa4]
     else [0x6a09e667f3bcc908, 0xbb67ae8584caa73b, 0x3c6ef372fe94f82b, 0xa54ff53a5f1d36f1, 0x510e527fade682d1, 0x9b05688c2b3e6c1f, 0x1f83d9abfb41bd6b, 0x5be0cd19137e2179])"

definition extend512 :: "64 word list \<Rightarrow> 64 word list" where
  "extend512 w =
     (let i = length w;
          s0 = rot64 (w ! (i - 15)) 1 XOR rot64 (w ! (i - 15)) 8 XOR drop_bit 7 (w ! (i - 15));
          s1 = rot64 (w ! (i - 2)) 19 XOR rot64 (w ! (i - 2)) 61 XOR drop_bit 6 (w ! (i - 2))
      in w @ [w ! (i - 16) + s0 + w ! (i - 7) + s1])"

definition schedule512 :: "bytes \<Rightarrow> nat \<Rightarrow> 64 word list" where
  "schedule512 dv off = (extend512 ^^ 64) (map (\<lambda>i. get_uint64 dv (off + i * 8)) [0..<16])"

fun round512 :: "64 word list \<Rightarrow> nat \<Rightarrow> 64 word list \<Rightarrow> 64 word list" where
  "round512 w i [a, b, c, d, e, f, g, h] =
     (let t1 = h + (rot64 e 14 XOR rot64 e 18 XOR rot64 e 41) + ((e AND f) XOR (NOT e AND g)) + k512 ! i + w ! i;
          t2 = (rot64 a 28 XOR rot64 a 34 XOR rot64 a 39) + ((a AND b) XOR (a AND c) XOR (b AND c))
      in [t1 + t2, a, b, c, d + t1, e, f, g])"
| "round512 w i s = s"

definition block512 :: "bytes \<Rightarrow> nat \<Rightarrow> 64 word list \<Rightarrow> 64 word list" where
  "block512 dv off hs = map2 (+) hs (fold (round512 (schedule512 dv off)) [0..<80] hs)"

definition sha512 :: "bytes \<Rightarrow> bool \<Rightarrow> bytes" where
  "sha512 msg is384 = (let dv = pad_message msg 16 in
     concat (map (be_bytes 8) (take (if is384 then 6 else 8) (fold (\<lambda>j. block512 dv (128 * j)) [0..<length dv div 128] (init512 is384)))))"

end
