(* ===== verification/WebShaProps.thy ===== *)
theory WebShaProps
  imports WebSha
begin

text \<open>
  The digests are those of the standard (FIPS 180-4), given here in its own terms: padding with the least number of zero
  bytes, the message cut into blocks of sixteen words, a schedule by recursion, rotations of words.
\<close>

unbundle bit_operations_syntax

section \<open>The standard\<close>

fun split_every :: "nat \<Rightarrow> 'a list \<Rightarrow> 'a list list" where
  "split_every n xs = (if n = 0 \<or> xs = [] then [] else take n xs # split_every n (drop n xs))"

declare split_every.simps [simp del]

text \<open>A message, the byte \<open>80\<close>, zero bytes, and the number of its bits in \<open>n\<close> bytes; a block has \<open>8 * n\<close> bytes.\<close>

definition std_zeros :: "nat \<Rightarrow> nat \<Rightarrow> nat" where
  "std_zeros n l = (LEAST z. (l + 1 + z + n) mod (8 * n) = 0)"

definition std_pad :: "nat \<Rightarrow> bytes \<Rightarrow> bytes" where
  "std_pad n msg = msg @ 0x80 # replicate (std_zeros n (length msg)) 0 @ be_bytes n (word_of_nat (8 * length msg) :: 128 word)"

definition chosen :: "'a::len word \<Rightarrow> 'a word \<Rightarrow> 'a word \<Rightarrow> 'a word" where
  "chosen x y z = (x AND y) XOR (NOT x AND z)"

definition majority :: "'a::len word \<Rightarrow> 'a word \<Rightarrow> 'a word \<Rightarrow> 'a word" where
  "majority x y z = (x AND y) XOR (x AND z) XOR (y AND z)"

definition parity :: "'a::len word \<Rightarrow> 'a word \<Rightarrow> 'a word \<Rightarrow> 'a word" where
  "parity x y z = x XOR y XOR z"

text \<open>The functions \<open>\<Sigma>\<close> and \<open>\<sigma>\<close>: three rotations, or two and a shift.\<close>

definition rot3 :: "nat \<times> nat \<times> nat \<Rightarrow> 'a::len word \<Rightarrow> 'a word" where
  "rot3 ks x = (case ks of (i, j, k) \<Rightarrow> word_rotr i x XOR word_rotr j x XOR word_rotr k x)"

definition rot2_shift :: "nat \<times> nat \<times> nat \<Rightarrow> 'a::len word \<Rightarrow> 'a word" where
  "rot2_shift ks x = (case ks of (i, j, k) \<Rightarrow> word_rotr i x XOR word_rotr j x XOR drop_bit k x)"

text \<open>The numbers of one of the functions: \<open>\<Sigma>0\<close>, \<open>\<Sigma>1\<close>, \<open>\<sigma>0\<close>, \<open>\<sigma>1\<close>.\<close>

record sha2 =
  big0 :: "nat \<times> nat \<times> nat"
  big1 :: "nat \<times> nat \<times> nat"
  small0 :: "nat \<times> nat \<times> nat"
  small1 :: "nat \<times> nat \<times> nat"

function std_schedule :: "sha2 \<Rightarrow> 'a::len word list \<Rightarrow> nat \<Rightarrow> 'a word" where
  "std_schedule p m t = (if t < 16 then m ! t
     else rot2_shift (small1 p) (std_schedule p m (t - 2)) + std_schedule p m (t - 7) + rot2_shift (small0 p) (std_schedule p m (t - 15)) + std_schedule p m (t - 16))"
  by pat_completeness auto
termination by (relation "measure (\<lambda>(p, m, t). t)") auto

declare std_schedule.simps [simp del]

fun std_round :: "sha2 \<Rightarrow> 'a::len word list \<Rightarrow> 'a word list \<Rightarrow> nat \<Rightarrow> 'a word list \<Rightarrow> 'a word list" where
  "std_round p ks m t [a, b, c, d, e, f, g, h] =
     (let t1 = h + rot3 (big1 p) e + chosen e f g + ks ! t + std_schedule p m t;
          t2 = rot3 (big0 p) a + majority a b c
      in [t1 + t2, a, b, c, d + t1, e, f, g])"
| "std_round p ks m t s = s"

definition std_block :: "sha2 \<Rightarrow> 'a::len word list \<Rightarrow> 'a word list \<Rightarrow> 'a word list \<Rightarrow> 'a word list" where
  "std_block p ks m hs = map2 (+) hs (fold (std_round p ks m) [0..<length ks] hs)"

text \<open>Words of \<open>n div 2\<close> bytes: a block holds sixteen of them.\<close>

definition std_blocks :: "nat \<Rightarrow> bytes \<Rightarrow> 'a::len word list list" where
  "std_blocks n msg = split_every 16 (map word_rcat (split_every (n div 2) (std_pad n msg)))"

definition std_sha2 :: "sha2 \<Rightarrow> nat \<Rightarrow> 'a::len word list \<Rightarrow> 'a word list \<Rightarrow> bytes \<Rightarrow> 'a word list" where
  "std_sha2 p n ks init msg = fold (std_block p ks) (std_blocks n msg) init"

definition params256 :: sha2 where
  "params256 = \<lparr>big0 = (2, 13, 22), big1 = (6, 11, 25), small0 = (7, 18, 3), small1 = (17, 19, 10)\<rparr>"

definition params512 :: sha2 where
  "params512 = \<lparr>big0 = (28, 34, 39), big1 = (14, 18, 41), small0 = (1, 8, 7), small1 = (19, 61, 6)\<rparr>"

function std_schedule1 :: "32 word list \<Rightarrow> nat \<Rightarrow> 32 word" where
  "std_schedule1 m t = (if t < 16 then m ! t
     else word_rotl 1 (std_schedule1 m (t - 3) XOR std_schedule1 m (t - 8) XOR std_schedule1 m (t - 14) XOR std_schedule1 m (t - 16)))"
  by pat_completeness auto
termination by (relation "measure (\<lambda>(m, t). t)") auto

declare std_schedule1.simps [simp del]

definition std_f :: "nat \<Rightarrow> 32 word \<Rightarrow> 32 word \<Rightarrow> 32 word \<Rightarrow> 32 word" where
  "std_f t = (if t < 20 then chosen else if t < 40 then parity else if t < 60 then majority else parity)"

definition std_k :: "nat \<Rightarrow> 32 word" where
  "std_k t = (if t < 20 then 0x5a827999 else if t < 40 then 0x6ed9eba1 else if t < 60 then 0x8f1bbcdc else 0xca62c1d6)"

fun std_round1 :: "32 word list \<Rightarrow> nat \<Rightarrow> 32 word list \<Rightarrow> 32 word list" where
  "std_round1 m t [a, b, c, d, e] = [word_rotl 5 a + std_f t b c d + e + std_k t + std_schedule1 m t, a, word_rotl 30 b, c, d]"
| "std_round1 m t s = s"

definition std_sha1 :: "bytes \<Rightarrow> 32 word list" where
  "std_sha1 msg = fold (\<lambda>m hs. map2 (+) hs (fold (std_round1 m) [0..<80] hs)) (std_blocks 8 msg)
     [0x67452301, 0xefcdab89, 0x98badcfe, 0x10325476, 0xc3d2e1f0]"

section \<open>Rotations\<close>

lemma rotation:
  fixes x :: "'a::len word"
  assumes "0 < k" "k < LENGTH('a)"
  shows "drop_bit k x OR push_bit (LENGTH('a) - k) x = word_rotr k x"
proof (rule bit_word_eqI)
  fix n
  assume n: "n < LENGTH('a)"
  show "bit (drop_bit k x OR push_bit (LENGTH('a) - k) x) n = bit (word_rotr k x) n"
  proof (cases "n + k < LENGTH('a)")
    case True
    with n assms show ?thesis by (auto simp: bit_simps ac_simps)
  next
    case False
    then have m: "(n + k) mod LENGTH('a) = n - (LENGTH('a) - k)" using n assms by (simp add: mod_if)
    have "\<not> bit x (n + k)" using False bit_imp_le_length [of x "n + k"] by auto
    with m n assms False show ?thesis by (auto simp: bit_simps ac_simps)
  qed
qed

lemma rotr_rot: "0 < k \<Longrightarrow> k < 32 \<Longrightarrow> rotr x k = word_rotr k x"
  using rotation [of k x] by (simp add: rotr_def)

lemma rot64_rot: "0 < k \<Longrightarrow> k < 64 \<Longrightarrow> rot64 x k = word_rotr k x"
  using rotation [of k x] by (simp add: rot64_def)

lemma rotl_rot: "0 < k \<Longrightarrow> k < 32 \<Longrightarrow> push_bit k x OR drop_bit (32 - k) x = (word_rotl k x :: 32 word)"
  using rotation [of "32 - k" x] by (simp add: word_rotl_eq_word_rotr or.commute)

lemma chosen_or: "(b AND c) OR (NOT b AND d) = chosen b c d"
  unfolding chosen_def by (rule bit_word_eqI) (auto simp: bit_simps)

lemma majority_or: "(b AND c) OR (b AND d) OR (c AND d) = majority b c d"
  unfolding majority_def by (rule bit_word_eqI) (auto simp: bit_simps)

section \<open>Cutting\<close>

lemma split_every_nth:
  assumes "0 < n"
  shows "length xs = n * k \<Longrightarrow> split_every n xs = map (\<lambda>i. take n (drop (n * i) xs)) [0..<k]"
proof (induction k arbitrary: xs)
  case 0
  then show ?case by (simp add: split_every.simps)
next
  case (Suc k)
  then have "xs \<noteq> []" "length (drop n xs) = n * k" using assms by auto
  with Suc.IH [of "drop n xs"] assms show ?case
    by (simp add: split_every.simps [of n xs] map_upt_Suc add.commute del: upt_Suc)
qed

lemma cut_words:
  assumes "0 < n" "length dv = 16 * n * k"
  shows "split_every 16 (map f (split_every n dv)) = map (\<lambda>j. map (\<lambda>i. f (take n (drop (16 * n * j + i * n) dv))) [0..<16]) [0..<k]"
proof -
  have "split_every n dv = map (\<lambda>i. take n (drop (n * i) dv)) [0..<16 * k]"
    using assms by (intro split_every_nth) simp_all
  then have "split_every 16 (map f (split_every n dv)) = map (\<lambda>j. take 16 (drop (16 * j) (map (\<lambda>i. f (take n (drop (n * i) dv))) [0..<16 * k]))) [0..<k]"
    using split_every_nth [of 16 "map f (split_every n dv)" k] by (simp add: comp_def)
  also have "\<dots> = map (\<lambda>j. map (\<lambda>i. f (take n (drop (16 * n * j + i * n) dv))) [0..<16]) [0..<k]"
  proof (rule map_cong [OF refl])
    fix j
    assume "j \<in> set [0..<k]"
    then have j: "16 * j + 16 \<le> 16 * k" by simp
    have "take 16 (drop (16 * j) [0..<16 * k]) = [16 * j..<16 * j + 16]" using j by simp
    also have "\<dots> = map (\<lambda>i. i + 16 * j) [0..<16]" using map_add_upt [of "16 * j" 16] by (simp add: add.commute)
    finally show "take 16 (drop (16 * j) (map (\<lambda>i. f (take n (drop (n * i) dv))) [0..<16 * k])) =
        map (\<lambda>i. f (take n (drop (16 * n * j + i * n) dv))) [0..<16]"
      by (simp add: take_map drop_map comp_def algebra_simps del: take_upt drop_upt upt_Suc)
  qed
  finally show ?thesis .
qed

section \<open>Padding\<close>

lemma byte_of_number:
  assumes "8 * j + 8 \<le> LENGTH('a)"
  shows "(ucast (drop_bit (8 * j) (word_of_nat n :: 'a::len word)) :: 8 word) = word_of_nat (n div 2 ^ (8 * j))"
proof (rule bit_word_eqI)
  fix i
  assume "i < LENGTH(8)"
  then have "i < 8" by simp
  with assms show "bit (ucast (drop_bit (8 * j) (word_of_nat n :: 'a word)) :: 8 word) i = bit (word_of_nat (n div 2 ^ (8 * j)) :: 8 word) i"
    by (simp add: bit_simps drop_bit_eq_div [symmetric] ac_simps)
qed

lemma be_bytes_number:
  assumes "8 * k \<le> LENGTH('a)"
  shows "be_bytes k (word_of_nat n :: 'a::len word) = map (\<lambda>j. word_of_nat (n div 2 ^ (8 * j))) (rev [0..<k])"
  unfolding be_bytes_def by (rule map_cong [OF refl]) (use assms in \<open>auto intro!: byte_of_number\<close>)

lemma be_bytes_length [simp]: "length (be_bytes k x) = k"
  by (simp add: be_bytes_def)

definition number_bytes :: "nat \<Rightarrow> nat \<Rightarrow> bytes" where
  "number_bytes k n = map (\<lambda>j. word_of_nat (n div 2 ^ (8 * j))) (rev [0..<k])"

lemma number_bytes_append: "number_bytes (a + b) n = number_bytes a (n div 2 ^ (8 * b)) @ number_bytes b n"
proof -
  have "[0..<a + b] = [0..<b] @ map (\<lambda>i. i + b) [0..<a]"
    using upt_add_eq_append [of 0 b a] map_add_upt [of b a] by (simp add: add.commute)
  moreover have "n div 2 ^ (8 * (j + b)) = n div 2 ^ (8 * b) div 2 ^ (8 * j)" for j
    by (simp add: div_mult2_eq [symmetric] power_add [symmetric] algebra_simps)
  ultimately show ?thesis by (simp add: number_bytes_def rev_map [symmetric] comp_def)
qed

lemma number_bytes_zero: "number_bytes k 0 = replicate k 0"
  by (induction k) (simp_all add: number_bytes_def)

text \<open>The two halves of the number of bits.\<close>

lemma halves8: "be_bytes 4 (word_of_nat (n div 4294967296) :: 32 word) @ be_bytes 4 (word_of_nat n :: 32 word) = be_bytes 8 (word_of_nat n :: 128 word)"
  using number_bytes_append [of 4 4 n] by (simp add: be_bytes_number number_bytes_def [symmetric])

lemma halves16:
  assumes "n < 2 ^ 64"
  shows "replicate 8 0 @ be_bytes 4 (word_of_nat (n div 4294967296) :: 32 word) @ be_bytes 4 (word_of_nat n :: 32 word) = be_bytes 16 (word_of_nat n :: 128 word)"
  using number_bytes_append [of 8 8 n] assms number_bytes_append [of 4 4 n] number_bytes_zero [of 8]
  by (simp add: be_bytes_number number_bytes_def [symmetric])

text \<open>The number of zero bytes.\<close>

lemma zeros:
  assumes "0 < n"
  shows "(l + 1 + n + (8 * n - 1)) div (8 * n) * (8 * n) = l + 1 + std_zeros n l + n"
proof -
  let ?b = "8 * n" and ?x = "l + 1 + n"
  define t where "t = (?x + (?b - 1)) div ?b * ?b"
  define z where "z = t - ?x"
  have b: "0 < ?b" using assms by simp
  have "?x \<le> t" "t < ?x + ?b"
    using b div_mult_mod_eq [of "?x + (?b - 1)" ?b] mod_less_divisor [OF b, of "?x + (?b - 1)"] unfolding t_def by linarith+
  then have z: "?x + z = t" "z < ?b" unfolding z_def by linarith+
  have "std_zeros n l = z"
    unfolding std_zeros_def
  proof (rule Least_equality)
    have "?x + z = l + 1 + z + n" by simp
    with z(1) show "(l + 1 + z + n) mod ?b = 0" by (metis mod_mult_self2_is_0 t_def)
  next
    fix y
    assume y: "(l + 1 + y + n) mod ?b = 0"
    show "z \<le> y"
    proof (rule ccontr)
      assume "\<not> z \<le> y"
      then have "0 < z - y" "z - y < ?b" using z(2) by auto
      moreover have "?b dvd t" "?b dvd ?x + y" using y by (auto simp: t_def mod_eq_0_iff_dvd ac_simps)
      then have "?b dvd t - (?x + y)" by (rule dvd_diff_nat)
      then have "?b dvd z - y" using z(1) by auto
      ultimately show False using nat_dvd_not_less by blast
    qed
  qed
  with z(1) show ?thesis by (simp add: t_def)
qed

lemma set_bytes_middle: "length xs = off \<Longrightarrow> length ys = length bs \<Longrightarrow> set_bytes off bs (xs @ ys @ zs) = xs @ bs @ zs"
  by (simp add: set_bytes_def)

lemma pad_is_standard:
  assumes "n = 8 \<or> n = 16" "length msg < 2 ^ 61"
  shows "pad_message msg n = std_pad n msg"
proof -
  define l where "l = length msg"
  define hi where "hi = be_bytes 4 (word_of_nat (l * 8 div 4294967296) :: 32 word)"
  define lo where "lo = be_bytes 4 (word_of_nat (l * 8) :: 32 word)"
  define t where "t = l + 1 + std_zeros n l + n"
  define z where "z = std_zeros n l + n - 8"
  have h: "length hi = 4" "length lo = 4" by (simp_all add: hi_def lo_def)
  have n: "8 \<le> n" using assms(1) by auto
  have "(if n = 16 then 128 else 64) = 8 * n" using assms(1) by auto
  then have total: "(l + 1 + n + ((if n = 16 then 128 else 64) - 1)) div (if n = 16 then 128 else 64) * (if n = 16 then 128 else 64) = t"
    using zeros [of n l] n by (simp add: t_def)
  have "replicate (t - l) (0 :: 8 word) = 0 # replicate z 0 @ replicate 4 0 @ replicate 4 0"
    using n by (simp add: t_def z_def replicate_add [symmetric] flip: replicate_Suc)
  then have buf: "(msg @ replicate (t - l) 0)[l := 0x80] = (msg @ 0x80 # replicate z 0 @ replicate 4 0) @ replicate 4 0 @ []"
    by (simp add: l_def list_update_append)
  have rest: "replicate z 0 @ hi @ lo = replicate (std_zeros n l) 0 @ be_bytes n (word_of_nat (8 * l) :: 128 word)"
    using assms(1)
  proof
    assume "n = 8"
    then show ?thesis using halves8 [of "l * 8"] by (simp add: z_def hi_def lo_def mult.commute)
  next
    assume "n = 16"
    then have "replicate z (0 :: 8 word) = replicate (std_zeros n l) 0 @ replicate 8 0" by (simp add: z_def replicate_add [symmetric])
    moreover have "l * 8 < 2 ^ 64" using assms(2) by (simp add: l_def)
    ultimately show ?thesis using halves16 [of "l * 8"] \<open>n = 16\<close>
      by (simp add: hi_def lo_def mult.commute)
  qed
  have "pad_message msg n = set_bytes (t - 8) hi (set_bytes (t - 4) lo ((msg @ 0x80 # replicate z 0 @ replicate 4 0) @ replicate 4 0 @ []))"
    unfolding pad_message_def Let_def l_def [symmetric] total buf hi_def lo_def ..
  also have "set_bytes (t - 4) lo ((msg @ 0x80 # replicate z 0 @ replicate 4 0) @ replicate 4 0 @ []) = (msg @ 0x80 # replicate z 0 @ replicate 4 0) @ lo @ []"
    by (rule set_bytes_middle) (use n h in \<open>simp_all add: t_def z_def l_def\<close>)
  also have "\<dots> = (msg @ 0x80 # replicate z 0) @ replicate 4 0 @ lo" by simp
  also have "set_bytes (t - 8) hi ((msg @ 0x80 # replicate z 0) @ replicate 4 0 @ lo) = (msg @ 0x80 # replicate z 0) @ hi @ lo"
    by (rule set_bytes_middle) (use n h in \<open>simp_all add: t_def z_def l_def\<close>)
  also have "\<dots> = std_pad n msg" using rest by (simp add: std_pad_def l_def)
  finally show ?thesis .
qed

lemma std_pad_length:
  assumes "n = 8 \<or> n = 16"
  obtains k where "length (std_pad n msg) = 8 * n * k"
proof -
  have "length (std_pad n msg) = length msg + 1 + std_zeros n (length msg) + n" by (simp add: std_pad_def)
  also have "\<dots> = 8 * n * ((length msg + 1 + n + (8 * n - 1)) div (8 * n))" using zeros [of n "length msg"] assms by auto
  finally show thesis by (rule that)
qed

section \<open>Schedules and rounds\<close>

lemma extended:
  assumes "\<And>w. 16 \<le> length w \<Longrightarrow> w = map (std_schedule p m) [0..<length w] \<Longrightarrow> ext w = w @ [std_schedule p m (length w)]" "length m = 16"
  shows "(ext ^^ k) m = map (std_schedule p m) [0..<16 + k]"
proof (induction k)
  case 0
  show ?case by (rule nth_equalityI) (simp_all add: assms(2) std_schedule.simps)
next
  case (Suc k)
  have u: "[0..<16 + Suc k] = [0..<16 + k] @ [16 + k]" by (simp only: add_Suc_right upt_Suc_append le0)
  show ?case unfolding u using assms(1) [of "(ext ^^ k) m"] Suc by simp
qed

lemma schedule256_standard:
  assumes "length m = 16"
  shows "(extend256 ^^ 48) m = map (std_schedule params256 m) [0..<64]"
proof -
  have "extend256 w = w @ [std_schedule params256 m (length w)]" if w: "16 \<le> length w" "w = map (std_schedule params256 m) [0..<length w]" for w
  proof -
    have "w ! i = std_schedule params256 m i" if "i < length w" for i using that w(2) by (metis add_0 diff_zero nth_map_upt)
    then show ?thesis using w(1) std_schedule.simps [of params256 m "length w"]
      by (simp add: extend256_def Let_def rotr_rot rot2_shift_def params256_def add.commute add.left_commute)
  qed
  from extended [OF this assms, of 48] show ?thesis by simp
qed

lemma schedule512_standard:
  assumes "length m = 16"
  shows "(extend512 ^^ 64) m = map (std_schedule params512 m) [0..<80]"
proof -
  have "extend512 w = w @ [std_schedule params512 m (length w)]" if w: "16 \<le> length w" "w = map (std_schedule params512 m) [0..<length w]" for w
  proof -
    have "w ! i = std_schedule params512 m i" if "i < length w" for i using that w(2) by (metis add_0 diff_zero nth_map_upt)
    then show ?thesis using w(1) std_schedule.simps [of params512 m "length w"]
      by (simp add: extend512_def Let_def rot64_rot rot2_shift_def params512_def add.commute add.left_commute)
  qed
  from extended [OF this assms, of 64] show ?thesis by simp
qed

lemma schedule1_standard:
  assumes "length m = 16"
  shows "(extend1 ^^ 64) m = map (std_schedule1 m) [0..<80]"
proof -
  have "(extend1 ^^ k) m = map (std_schedule1 m) [0..<16 + k]" for k
  proof (induction k)
    case 0
    show ?case by (rule nth_equalityI) (simp_all add: assms std_schedule1.simps)
  next
    case (Suc k)
    define w where "w = map (std_schedule1 m) [0..<16 + k]"
    have n: "w ! i = std_schedule1 m i" if "i < 16 + k" for i using that by (simp add: w_def)
    have "extend1 w = w @ [std_schedule1 m (16 + k)]"
      using rotl_rot [of 1] std_schedule1.simps [of m "16 + k"]
      by (simp add: extend1_def Let_def n) (simp add: w_def n)
    moreover have u: "[0..<16 + Suc k] = [0..<16 + k] @ [16 + k]" by (simp only: add_Suc_right upt_Suc_append le0)
    ultimately show ?case unfolding u using Suc by (simp add: w_def)
  qed
  from this [of 64] show ?thesis by simp
qed

lemma round256_standard: "t < 64 \<Longrightarrow> round256 (map (std_schedule params256 m) [0..<64]) t s = std_round params256 k256 m t s"
  by (cases "(map (std_schedule params256 m) [0..<64], t, s)" rule: round256.cases)
    (simp_all add: Let_def rotr_rot rot3_def params256_def chosen_def majority_def)

lemma round512_standard: "t < 80 \<Longrightarrow> round512 (map (std_schedule params512 m) [0..<80]) t s = std_round params512 k512 m t s"
  by (cases "(map (std_schedule params512 m) [0..<80], t, s)" rule: round512.cases)
    (simp_all add: Let_def rot64_rot rot3_def params512_def chosen_def majority_def)

lemma round1_standard: "t < 80 \<Longrightarrow> round1 (map (std_schedule1 m) [0..<80]) t s = std_round1 m t s"
  using rotl_rot [of 5] rotl_rot [of 30]
  by (cases "(map (std_schedule1 m) [0..<80], t, s)" rule: round1.cases)
    (simp_all add: Let_def std_f_def std_k_def chosen_or majority_or parity_def)

section \<open>Properties\<close>

lemma fold_blocks:
  assumes "length dv = 16 * n * k" "0 < n"
    "\<And>j hs. j < k \<Longrightarrow> blk dv (16 * n * j) hs = std (map (\<lambda>i. word_rcat (take n (drop (16 * n * j + i * n) dv))) [0..<16]) hs"
  shows "fold (\<lambda>j. blk dv (16 * n * j)) [0..<length dv div (16 * n)] init = fold std (split_every 16 (map word_rcat (split_every n dv))) init"
proof -
  have "length dv div (16 * n) = k" using assms(1,2) by simp
  then have "fold (\<lambda>j. blk dv (16 * n * j)) [0..<length dv div (16 * n)] init =
      fold (\<lambda>j. std (map (\<lambda>i. word_rcat (take n (drop (16 * n * j + i * n) dv))) [0..<16])) [0..<k] init"
    using assms(3) by (intro fold_cong) (auto simp del: upt_Suc)
  then show ?thesis unfolding cut_words [OF assms(2,1)] by (simp add: fold_map comp_def)
qed

lemma block256_standard:
  "block256 dv (16 * 4 * j) hs = std_block params256 k256 (map (\<lambda>i. word_rcat (take 4 (drop (16 * 4 * j + i * 4) dv))) [0..<16]) hs"
proof -
  define m :: "32 word list" where "m = map (\<lambda>i. word_rcat (take 4 (drop (16 * 4 * j + i * 4) dv))) [0..<16]"
  have "schedule256 dv (16 * 4 * j) = map (std_schedule params256 m) [0..<64]"
    using schedule256_standard [of m] by (simp add: schedule256_def get_uint32_def m_def del: upt_Suc)
  moreover have "length k256 = 64" by (simp add: k256_def)
  moreover have "fold (round256 (map (std_schedule params256 m) [0..<64])) [0..<64] hs = fold (std_round params256 k256 m) [0..<64] hs"
    by (rule fold_cong) (auto intro!: ext simp: round256_standard simp del: upt_Suc)
  ultimately show ?thesis by (simp add: block256_def std_block_def m_def del: upt_Suc)
qed

lemma block512_standard:
  "block512 dv (16 * 8 * j) hs = std_block params512 k512 (map (\<lambda>i. word_rcat (take 8 (drop (16 * 8 * j + i * 8) dv))) [0..<16]) hs"
proof -
  define m :: "64 word list" where "m = map (\<lambda>i. word_rcat (take 8 (drop (16 * 8 * j + i * 8) dv))) [0..<16]"
  have "schedule512 dv (16 * 8 * j) = map (std_schedule params512 m) [0..<80]"
    using schedule512_standard [of m] by (simp add: schedule512_def get_uint64_def m_def del: upt_Suc)
  moreover have "length k512 = 80" by (simp add: k512_def)
  moreover have "fold (round512 (map (std_schedule params512 m) [0..<80])) [0..<80] hs = fold (std_round params512 k512 m) [0..<80] hs"
    by (rule fold_cong) (auto intro!: ext simp: round512_standard simp del: upt_Suc)
  ultimately show ?thesis by (simp add: block512_def std_block_def m_def del: upt_Suc)
qed

lemma block1_standard:
  "block1 dv (16 * 4 * j) hs = (\<lambda>m hs. map2 (+) hs (fold (std_round1 m) [0..<80] hs)) (map (\<lambda>i. word_rcat (take 4 (drop (16 * 4 * j + i * 4) dv))) [0..<16]) hs"
proof -
  define m :: "32 word list" where "m = map (\<lambda>i. word_rcat (take 4 (drop (16 * 4 * j + i * 4) dv))) [0..<16]"
  have "schedule1 dv (16 * 4 * j) = map (std_schedule1 m) [0..<80]"
    using schedule1_standard [of m] by (simp add: schedule1_def get_uint32_def m_def del: upt_Suc)
  moreover have "fold (round1 (map (std_schedule1 m) [0..<80])) [0..<80] hs = fold (std_round1 m) [0..<80] hs"
    by (rule fold_cong) (auto intro!: ext simp: round1_standard simp del: upt_Suc)
  ultimately show ?thesis by (simp add: block1_def m_def del: upt_Suc)
qed

lemma std_round_length: "length (std_round p ks m t s) = length s"
  by (cases "(p, ks, m, t, s)" rule: std_round.cases) (simp_all add: Let_def)

lemma std_sha2_length: "length (std_sha2 p n ks init msg) = length init"
proof -
  have "length (fold (std_round p ks m) ts hs) = length hs" for m ts hs
    by (induction ts arbitrary: hs) (simp_all add: std_round_length)
  then have "length (std_block p ks m hs) = length hs" for m hs by (simp add: std_block_def)
  then have "length (fold (std_block p ks) ms hs) = length hs" for ms hs by (induction ms arbitrary: hs) simp_all
  then show ?thesis by (simp add: std_sha2_def)
qed

text \<open>C35: The digests are those of FIPS 180-4 for every message a buffer can hold: SHA-256, SHA-1, SHA-512 and SHA-384 (the first six
  words, from another start), with the padding, blocks, schedules and rounds as the standard gives them.\<close>

theorem digests_are_standard:
  assumes "length msg < 2 ^ 61"
  shows "sha256 msg = concat (map (be_bytes 4) (std_sha2 params256 8 k256 init256 msg)) \<and>
    sha1 msg = concat (map (be_bytes 4) (std_sha1 msg)) \<and>
    sha512 msg False = concat (map (be_bytes 8) (std_sha2 params512 16 k512 (init512 False) msg)) \<and>
    sha512 msg True = concat (map (be_bytes 8) (take 6 (std_sha2 params512 16 k512 (init512 True) msg)))"
proof -
  have p8: "pad_message msg 8 = std_pad 8 msg" and p16: "pad_message msg 16 = std_pad 16 msg" using pad_is_standard [OF _ assms] by simp_all
  obtain k8 where k8: "length (std_pad 8 msg) = 16 * 4 * k8" using std_pad_length [of 8 msg] by fastforce
  obtain k16 where k16: "length (std_pad 16 msg) = 16 * 8 * k16" using std_pad_length [of 16 msg] by fastforce
  have "sha256 msg = concat (map (be_bytes 4) (std_sha2 params256 8 k256 init256 msg))"
    using fold_blocks [OF k8, of block256 "std_block params256 k256" init256] block256_standard
    by (simp add: sha256_def p8 std_sha2_def std_blocks_def)
  moreover have "sha1 msg = concat (map (be_bytes 4) (std_sha1 msg))"
    using fold_blocks [OF k8, of block1 "\<lambda>m hs. map2 (+) hs (fold (std_round1 m) [0..<80] hs)" "[0x67452301, 0xefcdab89, 0x98badcfe, 0x10325476, 0xc3d2e1f0]"] block1_standard
    by (simp add: sha1_def p8 std_sha1_def std_blocks_def)
  moreover have "fold (\<lambda>j. block512 (std_pad 16 msg) (128 * j)) [0..<length (std_pad 16 msg) div 128] (init512 b) = std_sha2 params512 16 k512 (init512 b) msg" for b
    using fold_blocks [OF k16, of block512 "std_block params512 k512" "init512 b"] block512_standard
    by (simp add: std_sha2_def std_blocks_def)
  moreover have "length (init512 False) = 8" by (simp add: init512_def)
  ultimately show ?thesis using std_sha2_length [of params512 16 k512 "init512 False" msg] by (simp add: sha512_def p16)
qed

text \<open>The message ``abc''.\<close>

theorem digests_are_standard_witness:
  "sha256 [0x61, 0x62, 0x63] = concat (map (be_bytes 4) (std_sha2 params256 8 k256 init256 [0x61, 0x62, 0x63])) \<and>
   sha1 [0x61, 0x62, 0x63] = concat (map (be_bytes 4) (std_sha1 [0x61, 0x62, 0x63])) \<and>
   sha512 [0x61, 0x62, 0x63] False = concat (map (be_bytes 8) (std_sha2 params512 16 k512 (init512 False) [0x61, 0x62, 0x63])) \<and>
   sha512 [0x61, 0x62, 0x63] True = concat (map (be_bytes 8) (take 6 (std_sha2 params512 16 k512 (init512 True) [0x61, 0x62, 0x63])))"
  by (rule digests_are_standard) simp

end
