(* ===== verification/GlslText.thy ===== *)
theory GlslText
  imports JsValues "HOL-Library.Signed_Division"
begin

text \<open>
  The text side of the GLSL front end (\<open>33_glsl_front.js\<close>, lines 9--186): errors, comments, the two regular
  expressions of numbers and names, expansion of macros, and the conditions of \<open>#if\<close>.
\<close>

unbundle bit_operations_syntax

section \<open>Errors\<close>

text \<open>
  A \<open>GlslError\<close> with its line, token and message; the \<open>TypeError\<close> of reading a property of \<open>undefined\<close>; and the
  end of the fuel of the parser's model, which is shown not to happen.
\<close>

datatype glsl_fail = GlslError nat jstr jstr | ReadOfUndefined | NoFuel

type_synonym 'a gres = "glsl_fail + 'a"

definition glsl_err :: "nat \<Rightarrow> jstr \<Rightarrow> string \<Rightarrow> 'a gres" where
  "glsl_err line tok msg = Inl (GlslError line tok (js msg))"

lemma rbind_cong [fundef_cong]:
  "r = r' \<Longrightarrow> (\<And>x. r' = Inr x \<Longrightarrow> f x = f' x) \<Longrightarrow> rbind r f = rbind r' f'"
  by (cases r') auto

lemma rmap_cong [fundef_cong]:
  "xs = ys \<Longrightarrow> (\<And>x. x \<in> set ys \<Longrightarrow> f x = g x) \<Longrightarrow> rmap f xs = rmap g ys"
  by (induction xs arbitrary: ys) (auto simp: rbind_def split: sum.splits)

section \<open>Comments\<close>

text \<open>After \<open>/*\<close>: the newlines up to \<open>*/\<close>, and what follows it.\<close>

fun block_comment :: "jstr \<Rightarrow> jstr \<times> jstr" where
  "block_comment [] = ([], [])"
| "block_comment (c # s) =
     (if c = 42 \<and> s \<noteq> [] \<and> hd s = 47 then ([], tl s)
      else let (nl, r) = block_comment s in (if c = 10 then 10 # nl else nl, r))"

lemma block_comment_shrinks: "length (snd (block_comment s)) \<le> length s"
  by (induction s) (auto split: prod.splits)

function strip_comments :: "jstr \<Rightarrow> jstr" where
  "strip_comments s = (case s of
     [] \<Rightarrow> []
   | c # r \<Rightarrow>
       if c = 47 \<and> r \<noteq> [] \<and> hd r = 47 then strip_comments (dropWhile (\<lambda>x. x \<noteq> 10) r)
       else if c = 47 \<and> r \<noteq> [] \<and> hd r = 42
         then (let p = block_comment (tl r) in 32 # fst p @ strip_comments (snd p))
       else c # strip_comments r)"
  by auto
termination
  by (relation "measure length")
    (auto intro: le_less_trans [OF length_dropWhile_le] le_less_trans [OF block_comment_shrinks])

declare strip_comments.simps [simp del]

section \<open>Numbers and names\<close>

definition word_char :: "cu \<Rightarrow> bool" where
  "word_char c = ((48 \<le> c \<and> c \<le> 57) \<or> (65 \<le> c \<and> c \<le> 90) \<or> c = 95 \<or> (97 \<le> c \<and> c \<le> 122))"

definition id_start :: "cu \<Rightarrow> bool" where
  "id_start c = ((65 \<le> c \<and> c \<le> 90) \<or> c = 95 \<or> (97 \<le> c \<and> c \<le> 122))"

definition is_hex :: "cu \<Rightarrow> bool" where
  "is_hex c = ((48 \<le> c \<and> c \<le> 57) \<or> (65 \<le> c \<and> c \<le> 70) \<or> (97 \<le> c \<and> c \<le> 102))"

text \<open>\<open>\<w>*\<close> after the start of a name, and \<open>ID_RE\<close> at the start of a text that begins with one.\<close>

definition id_re :: "jstr \<Rightarrow> jstr" where
  "id_re s = takeWhile word_char s"

definition one_of :: "cu set \<Rightarrow> jstr \<Rightarrow> jstr" where
  "one_of cs s = (case s of [] \<Rightarrow> [] | c # _ \<Rightarrow> if c \<in> cs then [c] else [])"

text \<open>The parts of \<open>NUM_RE\<close>: the digits with the point, and the exponent.\<close>

definition mantissa_re :: "jstr \<Rightarrow> jstr option" where
  "mantissa_re s = (let i = takeWhile is_digit s; r = dropWhile is_digit s;
       f = (if r \<noteq> [] then takeWhile is_digit (tl r) else []) in
     if i \<noteq> [] \<and> r \<noteq> [] \<and> hd r = 46 then Some (i @ 46 # f)
     else if i = [] \<and> r \<noteq> [] \<and> hd r = 46 \<and> f \<noteq> [] then Some (46 # f)
     else if i \<noteq> [] then Some i else None)"

definition exponent_re :: "jstr \<Rightarrow> jstr" where
  "exponent_re s = (case s of
     [] \<Rightarrow> []
   | c # r \<Rightarrow> (let sg = one_of {43, 45} r; ds = takeWhile is_digit (drop (length sg) r) in
       if (c = 101 \<or> c = 69) \<and> ds \<noteq> [] then c # sg @ ds else []))"

definition hex_start :: "jstr \<Rightarrow> bool" where
  "hex_start s = (case s of a # b # _ \<Rightarrow> a = 48 \<and> (b = 120 \<or> b = 88) | _ \<Rightarrow> False)"

definition num_re :: "jstr \<Rightarrow> jstr option" where
  "num_re s =
     (let hs = takeWhile is_hex (drop 2 s) in
      if hex_start s \<and> hs \<noteq> []
        then Some (take 2 s @ hs @ one_of {117, 85} (drop (2 + length hs) s))
      else case mantissa_re s of
          None \<Rightarrow> None
        | Some m \<Rightarrow> (let ex = exponent_re (drop (length m) s);
              u = one_of {102, 70, 117, 85} (drop (length m + length ex) s)
            in Some (m @ ex @ u)))"

definition starts_number :: "jstr \<Rightarrow> bool" where
  "starts_number s = (case s of [] \<Rightarrow> False | c # r \<Rightarrow> is_digit c \<or> (c = 46 \<and> r \<noteq> [] \<and> is_digit (hd r)))"

definition num_text :: "jstr \<Rightarrow> jstr" where
  "num_text s = (case num_re s of Some m \<Rightarrow> m | None \<Rightarrow> take 1 s)"

text \<open>\<open>parseInt\<close> with a radix: the digits the text begins with.\<close>

definition parse_int :: "int \<Rightarrow> jstr \<Rightarrow> int" where
  "parse_int r s = radix_val r 0 (takeWhile (\<lambda>c. digit_of c < r) s)"

text \<open>How the front end reads an integer: hexadecimal, octal after a leading zero, or decimal.\<close>

definition int_literal :: "jstr \<Rightarrow> int" where
  "int_literal s =
     (if hex_start s then parse_int 16 (drop 2 s)
      else if length s \<ge> 2 \<and> hd s = 48 \<and> is_digit (s ! 1) then parse_int 8 s
      else parse_int 10 s)"

section \<open>Macros\<close>

text \<open>
  An entry of \<open>macros\<close>: \<open>__LINE__\<close>, a macro without parameters, or one with a list of them.  The \<open>Map\<close> is only read,
  written and deleted from by name.
\<close>

datatype macro = Dyn | Plain jstr | Params "jstr list" jstr

type_synonym macros = "jstr \<rightharpoonup> macro"

definition initial_macros :: macros where
  "initial_macros = [js ''GL_ES'' \<mapsto> Plain (js ''1''), js ''__LINE__'' \<mapsto> Dyn, js ''__FILE__'' \<mapsto> Plain (js ''0''),
     js ''__VERSION__'' \<mapsto> Plain (js ''100''), js ''GL_FRAGMENT_PRECISION_HIGH'' \<mapsto> Plain (js ''1'')]"

text \<open>
  The arguments of a macro call, after its parenthesis: the pieces between commas of the same level, the last piece,
  and what follows the closing parenthesis.
\<close>

fun collect_args :: "nat \<Rightarrow> jstr \<Rightarrow> jstr list \<Rightarrow> jstr \<Rightarrow> (jstr list \<times> jstr \<times> jstr) option" where
  "collect_args lvl cur args [] = None"
| "collect_args lvl cur args (ch # s) =
     (if ch = 40 then collect_args (Suc lvl) (cur @ [ch]) args s
      else if ch = 41 then
        (if lvl = 0 then Some (args, cur, s) else collect_args (lvl - 1) (cur @ [ch]) args s)
      else if ch = 44 \<and> lvl = 0 then collect_args lvl [] (args @ [cur]) s
      else collect_args lvl (cur @ [ch]) args s)"

lemma collect_args_shrinks: "collect_args lvl cur args s = Some (a, c, r) \<Longrightarrow> length r < length s"
  by (induction lvl cur args s rule: collect_args.induct) (fastforce split: if_splits)+

definition macro_args :: "jstr list \<Rightarrow> jstr list \<Rightarrow> jstr \<Rightarrow> jstr list" where
  "macro_args params args cur = (if args \<noteq> [] \<or> js_trim cur \<noteq> [] \<or> params \<noteq> [] then args @ [cur] else args)"

text \<open>The body with the expanded arguments in place of the parameters.\<close>

definition param_value :: "jstr list \<Rightarrow> jstr list \<Rightarrow> jstr \<Rightarrow> jstr" where
  "param_value params vals x = (case map_of (zip params vals) x of Some v \<Rightarrow> v | None \<Rightarrow> x)"

lemma id_re_shrinks: "id_start c \<Longrightarrow> Suc (length s) - length (id_re (c # s)) < Suc (length s)"
  by (auto simp: id_re_def id_start_def word_char_def)

lemma num_text_pos: "s \<noteq> [] \<Longrightarrow> num_text s \<noteq> []"
  by (auto simp: num_text_def num_re_def mantissa_re_def Let_def split: option.splits if_splits)

lemma num_text_shrinks: "Suc (length s) - length (num_text (c # s)) < Suc (length s)"
  using num_text_pos [of "c # s"] by (cases "num_text (c # s)") auto

function substitute :: "jstr list \<Rightarrow> jstr list \<Rightarrow> jstr \<Rightarrow> jstr" where
  "substitute params vals s = (case s of
     [] \<Rightarrow> []
   | c # r \<Rightarrow>
       if id_start c then (let x = id_re s in param_value params vals x @ substitute params vals (drop (length x) s))
       else if is_digit c then (let x = num_text s in x @ substitute params vals (drop (length x) s))
       else c # substitute params vals r)"
  by auto
termination
  by (relation "measure (\<lambda>(params, vals, s). length s)") (auto simp: id_re_shrinks num_text_shrinks)

declare substitute.simps [simp del]

definition prepend :: "jstr \<Rightarrow> jstr gres \<Rightarrow> jstr gres" where
  "prepend out r = rbind r (\<lambda>t. Inr (out @ t))"

lemma args_shrink:
  assumes "collect_args 0 [] [] (tl (dropWhile js_space (drop n s))) = Some (a, c, r)" "dropWhile js_space (drop n s) \<noteq> []"
  shows "length r < length s"
proof -
  have "length r < length (tl (dropWhile js_space (drop n s)))" using assms(1) by (rule collect_args_shrinks)
  also have "\<dots> \<le> length s" using length_dropWhile_le [of js_space "drop n s"] by simp
  finally show ?thesis .
qed

text \<open>
  \<open>expand\<close>; \<open>lo\<close> is the line.  The text before the position has been given out, so that the function works on what is
  left.  At depth 65 the text stays as it is.
\<close>

function expand_macros :: "macros \<Rightarrow> nat \<Rightarrow> nat \<Rightarrow> jstr set \<Rightarrow> jstr \<Rightarrow> jstr gres" where
  "expand_macros ms lo depth off s =
     (if 64 < depth then Inr s else case s of
       [] \<Rightarrow> Inr []
     | c # r \<Rightarrow>
         if starts_number s then (let x = num_text s in prepend x (expand_macros ms lo depth off (drop (length x) s)))
         else if \<not> id_start c then prepend [c] (expand_macros ms lo depth off r)
         else
           (let x = id_re s; after = drop (length x) s in
            case (if x \<in> off then None else ms x) of
              None \<Rightarrow> prepend x (expand_macros ms lo depth off after)
            | Some Dyn \<Rightarrow> prepend (digits_of (int lo)) (expand_macros ms lo depth off after)
            | Some (Plain body) \<Rightarrow>
                rbind (expand_macros ms lo (Suc depth) (insert x off) body) (\<lambda>b.
                  prepend b (expand_macros ms lo depth off after))
            | Some (Params params body) \<Rightarrow>
                (let call = dropWhile js_space after in
                 if call = [] \<or> hd call \<noteq> 40 then prepend x (expand_macros ms lo depth off after)
                 else case collect_args 0 [] [] (tl call) of
                     None \<Rightarrow> glsl_err lo x ''unterminated macro invocation''
                   | Some (args, cur, rest) \<Rightarrow>
                       (let given = macro_args params args cur in
                        if length given \<noteq> length params then glsl_err lo x ''Invalid number of macro arguments''
                        else rbind (rmap (\<lambda>a. expand_macros ms lo (Suc depth) off (js_trim a)) given) (\<lambda>vals.
                             rbind (expand_macros ms lo (Suc depth) (insert x off) (substitute params vals body)) (\<lambda>b.
                               prepend b (expand_macros ms lo depth off rest)))))))"
  by auto
termination
  by (relation "measures [\<lambda>(ms, lo, depth, off, s). 65 - depth, \<lambda>(ms, lo, depth, off, s). length s]")
    (auto simp: id_re_shrinks num_text_shrinks dest!: args_shrink)

declare expand_macros.simps [simp del]

section \<open>Conditions\<close>

text \<open>After the word \<open>defined\<close>: the name it asks for, with or without parentheses, and what follows.\<close>

definition defined_name :: "jstr \<Rightarrow> (jstr \<times> jstr) option" where
  "defined_name s =
     (let r = dropWhile js_space s; r1 = dropWhile js_space (tl r); x1 = id_re r1;
          r2 = dropWhile js_space (drop (length x1) r1) in
      if r \<noteq> [] \<and> hd r = 40 \<and> r1 \<noteq> [] \<and> id_start (hd r1) \<and> r2 \<noteq> [] \<and> hd r2 = 41 then Some (x1, tl r2)
      else if s \<noteq> [] \<and> js_space (hd s) \<and> r \<noteq> [] \<and> id_start (hd r) then Some (id_re r, drop (length (id_re r)) r)
      else None)"

lemma defined_name_shrinks:
  assumes "defined_name s = Some (x, r)"
  shows "length r \<le> length s"
proof -
  define q where "q = dropWhile js_space s"
  define r1 where "r1 = dropWhile js_space (tl q)"
  define r2 where "r2 = dropWhile js_space (drop (length (id_re r1)) r1)"
  have l: "length q \<le> length s" "length r1 \<le> length q" "length r2 \<le> length r1"
    using length_dropWhile_le [of js_space s] length_dropWhile_le [of js_space "tl q"]
      length_dropWhile_le [of js_space "drop (length (id_re r1)) r1"]
    by (simp_all add: q_def r1_def r2_def)
  have "r = tl r2 \<or> r = drop (length (id_re q)) q"
    using assms by (auto simp add: defined_name_def Let_def q_def [symmetric] r1_def [symmetric] r2_def [symmetric] split: if_splits)
  then show ?thesis using l by auto
qed

text \<open>\<open>inw\<close> says that the character before is one of a word, where \<open>\<b>\<close> does not match.\<close>

function replace_defined :: "macros \<Rightarrow> bool \<Rightarrow> jstr \<Rightarrow> jstr" where
  "replace_defined ms inw s = (case s of
     [] \<Rightarrow> []
   | c # r \<Rightarrow>
       (case (if \<not> inw \<and> prefix_of (js ''defined'') s then defined_name (drop 7 s) else None) of
          Some (x, rest) \<Rightarrow> js (if ms x \<noteq> None then '' 1 '' else '' 0 '') @ replace_defined ms False rest
        | None \<Rightarrow> c # replace_defined ms (word_char c) r))"
  by auto
termination
  by (relation "measure (\<lambda>(ms, inw, s). length s)")
    (auto dest!: defined_name_shrinks split: if_splits)

declare replace_defined.simps [simp del]

datatype ctok = CNum "32 word" | CPunct jstr

definition two_char_ops :: "jstr list" where
  "two_char_ops = map js [''&&'', ''||'', ''=='', ''!='', ''<='', ''>='', ''<<'', ''>>'']"

function cond_toks :: "jstr \<Rightarrow> ctok list" where
  "cond_toks s = (case s of
     [] \<Rightarrow> []
   | c # r \<Rightarrow>
       if js_space c then cond_toks r
       else if is_digit c then CNum (to_word32 (num_of_int (int_literal (num_text s)))) # cond_toks (drop (length (num_text s)) s)
       else if id_start c then CNum 0 # cond_toks (drop (length (id_re s)) s)
       else if take 2 s \<in> set two_char_ops then CPunct (take 2 s) # cond_toks (tl r)
       else CPunct [c] # cond_toks r)"
  by auto
termination
  by (relation "measure length") (auto simp: id_re_shrinks num_text_shrinks)

declare cond_toks.simps [simp del]

text \<open>The operators, on 32 bits; division and remainder go towards zero, shifts use five bits of the count.\<close>

definition of_bool32 :: "bool \<Rightarrow> 32 word" where
  "of_bool32 b = (if b then 1 else 0)"

definition shift_count :: "32 word \<Rightarrow> nat" where
  "shift_count r = unat (r AND 31)"

definition cond_op :: "nat \<Rightarrow> jstr \<Rightarrow> 32 word \<Rightarrow> 32 word \<Rightarrow> (32 word) gres" where
  "cond_op lo op v r =
     (if op = js ''*'' then Inr (v * r)
      else if op = js ''/'' then
        (if r = 0 then glsl_err lo op ''Division by zero in preprocessor expression'' else Inr (word_of_int (sint v sdiv sint r)))
      else if op = js ''%'' then
        (if r = 0 then glsl_err lo op ''Division by zero in preprocessor expression'' else Inr (word_of_int (sint v smod sint r)))
      else if op = js ''+'' then Inr (v + r)
      else if op = js ''-'' then Inr (v - r)
      else if op = js ''<<'' then Inr (push_bit (shift_count r) v)
      else if op = js ''>>'' then Inr (signed_drop_bit (shift_count r) v)
      else if op = js ''<'' then Inr (of_bool32 (v <s r))
      else if op = js ''>'' then Inr (of_bool32 (r <s v))
      else if op = js ''<='' then Inr (of_bool32 (v \<le>s r))
      else if op = js ''>='' then Inr (of_bool32 (r \<le>s v))
      else if op = js ''=='' then Inr (of_bool32 (v = r))
      else if op = js ''!='' then Inr (of_bool32 (v \<noteq> r))
      else if op = js ''&'' then Inr (v AND r)
      else if op = js ''^'' then Inr (v XOR r)
      else if op = js ''|'' then Inr (v OR r)
      else if op = js ''&&'' then Inr (of_bool32 (v \<noteq> 0 \<and> r \<noteq> 0))
      else Inr (of_bool32 (v \<noteq> 0 \<or> r \<noteq> 0)))"

type_synonym ceval = "ctok list \<Rightarrow> (32 word \<times> ctok list) gres"

text \<open>\<open>prim\<close>; after a parenthesised expression the code skips one token, whatever it is.\<close>

fun cond_prim :: "nat \<Rightarrow> ceval \<Rightarrow> ceval" where
  "cond_prim lo lor [] = glsl_err lo [] ''invalid preprocessor expression''"
| "cond_prim lo lor (CNum v # ts) = Inr (v, ts)"
| "cond_prim lo lor (CPunct x # ts) =
     (if x = js ''('' then rbind (lor ts) (\<lambda>(v, r). Inr (v, tl r))
      else if x = js ''!'' then rbind (cond_prim lo lor ts) (\<lambda>(v, r). Inr (of_bool32 (v = 0), r))
      else if x = js ''-'' then rbind (cond_prim lo lor ts) (\<lambda>(v, r). Inr (- v, r))
      else if x = js ''+'' then cond_prim lo lor ts
      else if x = js ''~'' then rbind (cond_prim lo lor ts) (\<lambda>(v, r). Inr (NOT v, r))
      else glsl_err lo x ''invalid preprocessor expression'')"

definition next_op :: "jstr list \<Rightarrow> ctok list \<Rightarrow> jstr option" where
  "next_op ops ts = (case ts of CPunct x # _ \<Rightarrow> if x \<in> set ops then Some x else None | _ \<Rightarrow> None)"

text \<open>The loop of \<open>bin\<close>, with at most \<open>n\<close> rounds.\<close>

fun cond_loop :: "nat \<Rightarrow> ceval \<Rightarrow> jstr list \<Rightarrow> nat \<Rightarrow> 32 word \<Rightarrow> ceval" where
  "cond_loop lo operand ops 0 v ts = Inl NoFuel"
| "cond_loop lo operand ops (Suc n) v ts = (case next_op ops ts of
     None \<Rightarrow> Inr (v, ts)
   | Some op \<Rightarrow> rbind (operand (tl ts)) (\<lambda>(r, ts1). rbind (cond_op lo op v r) (\<lambda>v1. cond_loop lo operand ops n v1 ts1)))"

definition cond_levels :: "jstr list list" where
  "cond_levels = map (map js) [[''||''], [''&&''], [''|''], [''^''], [''&''], [''=='', ''!=''],
     [''<'', ''>'', ''<='', ''>=''], [''<<'', ''>>''], [''+'', ''-''], [''*'', ''/'', ''%'']]"

fun cond_bin :: "nat \<Rightarrow> ceval \<Rightarrow> jstr list list \<Rightarrow> ceval" where
  "cond_bin lo lor [] ts = cond_prim lo lor ts"
| "cond_bin lo lor (ops # levels) ts =
     rbind (cond_bin lo lor levels ts) (\<lambda>(v, ts1). cond_loop lo (cond_bin lo lor levels) ops (Suc (length ts1)) v ts1)"

fun cond_or :: "nat \<Rightarrow> nat \<Rightarrow> ceval" where
  "cond_or lo 0 ts = Inl NoFuel"
| "cond_or lo (Suc n) ts = cond_bin lo (cond_or lo n) cond_levels ts"

definition ctok_text :: "ctok \<Rightarrow> jstr" where
  "ctok_text t = (case t of CNum w \<Rightarrow> num_to_string (Fin (of_int (sint w))) | CPunct x \<Rightarrow> x)"

definition eval_cond :: "macros \<Rightarrow> nat \<Rightarrow> jstr \<Rightarrow> bool gres" where
  "eval_cond ms lo text = rbind (expand_macros ms lo 0 {} (replace_defined ms False text)) (\<lambda>t.
     let ts = cond_toks t in rbind (cond_or lo (Suc (length ts)) ts) (\<lambda>(v, r).
       if r \<noteq> [] then glsl_err lo (ctok_text (hd r)) ''invalid preprocessor expression'' else Inr (v \<noteq> 0)))"

lemma takeWhile_take: "take (length (takeWhile P s)) s = takeWhile P s"
  by (metis takeWhile_eq_take)

lemma one_of_prefix: "take (length (one_of cs s)) s = one_of cs s"
  by (auto simp: one_of_def split: list.splits)

end
