(* ===== verification/GlslPre.thy ===== *)
theory GlslPre
  imports GlslText
begin

text \<open>
  The preprocessor of \<open>33_glsl_front.js\<close> (\<open>preprocess\<close>, lines 42--57 and 188--262): the lines of a shader, its
  directives, and the stack of conditionals.
\<close>

section \<open>The forms of directives\<close>

text \<open>\<open>.\<close> matches no line terminator; a line holds none but the two separators of Unicode.\<close>

definition no_terminator :: "jstr \<Rightarrow> bool" where
  "no_terminator s = list_all (\<lambda>c. c \<notin> {10, 13, 8232, 8233}) s"

text \<open>The name after \<open>#\<close>, and the rest of the line.\<close>

definition directive :: "jstr \<Rightarrow> (jstr \<times> jstr) option" where
  "directive line = (case dropWhile js_space line of
     [] \<Rightarrow> None
   | c # r \<Rightarrow>
       (let r1 = dropWhile js_space r; d = takeWhile word_char r1; rest = dropWhile js_space (drop (length d) r1) in
        if c = 35 \<and> no_terminator rest then Some (d, rest) else None))"

text \<open>Name, parameters and body of a \<open>#define\<close>.\<close>

definition define_parts :: "jstr \<Rightarrow> (jstr \<times> jstr option \<times> jstr) option" where
  "define_parts s =
     (let x = id_re s; after = drop (length x) s in
      if s = [] \<or> \<not> id_start (hd s) then None
      else if after \<noteq> [] \<and> hd after = 40 \<and> 41 \<in> set after
        then Some (x, Some (takeWhile (\<lambda>c. c \<noteq> 41) (tl after)), tl (dropWhile (\<lambda>c. c \<noteq> 41) after))
      else Some (x, None, after))"

definition defined_macro :: "jstr option \<Rightarrow> jstr \<Rightarrow> macro" where
  "defined_macro ps body = (case ps of
     None \<Rightarrow> Plain (js_trim body)
   | Some p \<Rightarrow> Params (filter (\<lambda>x. x \<noteq> []) (map js_trim (split_on 44 p))) (js_trim body))"

definition reserved_macro :: "jstr \<Rightarrow> bool" where
  "reserved_macro x = (prefix_of (js ''GL_'') x \<or> str_contains x (js ''__''))"

definition version_parts :: "jstr \<Rightarrow> (jstr \<times> jstr option) option" where
  "version_parts s =
     (let ds = takeWhile is_digit s; r = drop (length ds) s; w = dropWhile js_space r in
      if ds = [] then None
      else if r = [] then Some (ds, None)
      else if js_space (hd r) \<and> w \<noteq> [] \<and> list_all word_char w then Some (ds, Some w)
      else None)"

definition extension_parts :: "jstr \<Rightarrow> (jstr \<times> jstr) option" where
  "extension_parts s =
     (let x = takeWhile word_char s; r = dropWhile js_space (drop (length x) s); b = dropWhile js_space (tl r) in
      if x \<noteq> [] \<and> r \<noteq> [] \<and> hd r = 58 \<and> b \<noteq> [] \<and> list_all word_char b then Some (x, b) else None)"

section \<open>The state\<close>

text \<open>An entry of \<open>stack\<close>: whether the code around the conditional is active, and whether a branch was taken.\<close>

record cond_frame =
  f_par :: bool
  f_taken :: bool

record pre_state =
  g_macros :: macros
  g_exts :: "jstr list"
  g_version :: int
  g_out :: "jstr list"
  g_stack :: "cond_frame list"
  g_active :: bool
  g_saw_code :: bool

definition initial_pre :: pre_state where
  "initial_pre = \<lparr>g_macros = initial_macros, g_exts = [], g_version = 100, g_out = [], g_stack = [], g_active = True,
     g_saw_code = False\<rparr>"

section \<open>Directives\<close>

definition version_directive :: "nat \<Rightarrow> jstr \<Rightarrow> pre_state \<Rightarrow> pre_state gres" where
  "version_directive lo rest w =
     (if g_saw_code w
        then glsl_err lo (js ''#version'') ''#version directive must occur before anything else, except for comments and white space''
      else case version_parts (js_trim rest) of
        None \<Rightarrow> glsl_err lo (js ''#version'') ''invalid version directive''
      | Some (ds, profile) \<Rightarrow>
          (let v = parse_int 10 ds in
           if v = 300 \<and> profile \<noteq> Some (js ''es'') then glsl_err lo (js ''#version'') ''invalid version directive''
           else if v \<noteq> 100 \<and> v \<noteq> 300
             then Inl (GlslError lo (js ''#version'') (js ''version number not supported: '' @ num_to_string (num_of_int v)))
           else if v = 100 \<and> profile \<noteq> None \<and> profile \<noteq> Some (js ''es'')
             then glsl_err lo (js ''#version'') ''invalid version directive''
           else Inr (w\<lparr>g_version := v, g_macros := (g_macros w)(js ''__VERSION__'' \<mapsto> Plain (digits_of v))\<rparr>)))"

definition define_directive :: "nat \<Rightarrow> jstr \<Rightarrow> pre_state \<Rightarrow> pre_state gres" where
  "define_directive lo rest w =
     (if \<not> g_active w then Inr w
      else case define_parts rest of
        None \<Rightarrow> glsl_err lo (js ''#define'') ''Invalid macro definition''
      | Some (x, ps, body) \<Rightarrow>
          if reserved_macro x then glsl_err lo x ''Macro name is reserved''
          else Inr (w\<lparr>g_macros := (g_macros w)(x \<mapsto> defined_macro ps body)\<rparr>))"

definition push_cond :: "bool \<Rightarrow> pre_state \<Rightarrow> pre_state" where
  "push_cond v w = w\<lparr>g_stack := \<lparr>f_par = g_active w, f_taken = v\<rparr> # g_stack w, g_active := (g_active w \<and> v)\<rparr>"

definition if_directive :: "nat \<Rightarrow> jstr \<Rightarrow> pre_state \<Rightarrow> pre_state gres" where
  "if_directive lo rest w =
     rbind (if g_active w then eval_cond (g_macros w) lo rest else Inr False) (\<lambda>v. Inr (push_cond v w))"

definition elif_directive :: "nat \<Rightarrow> jstr \<Rightarrow> pre_state \<Rightarrow> pre_state gres" where
  "elif_directive lo rest w = (case g_stack w of
     [] \<Rightarrow> glsl_err lo (js ''#elif'') ''unexpected #elif''
   | s # st \<Rightarrow>
       if f_taken s then Inr (w\<lparr>g_active := False\<rparr>)
       else rbind (if f_par s then eval_cond (g_macros w) lo rest else Inr False) (\<lambda>v.
         Inr (w\<lparr>g_stack := s\<lparr>f_taken := v\<rparr> # st, g_active := (f_par s \<and> v)\<rparr>)))"

definition else_directive :: "nat \<Rightarrow> pre_state \<Rightarrow> pre_state gres" where
  "else_directive lo w = (case g_stack w of
     [] \<Rightarrow> glsl_err lo (js ''#else'') ''unexpected #else''
   | s # st \<Rightarrow> Inr (w\<lparr>g_stack := s\<lparr>f_taken := True\<rparr> # st, g_active := (f_par s \<and> \<not> f_taken s)\<rparr>))"

definition endif_directive :: "nat \<Rightarrow> pre_state \<Rightarrow> pre_state gres" where
  "endif_directive lo w = (case g_stack w of
     [] \<Rightarrow> glsl_err lo (js ''#endif'') ''unexpected #endif''
   | s # st \<Rightarrow> Inr (w\<lparr>g_stack := st, g_active := f_par s\<rparr>))"

text \<open>\<open>supported\<close> is the option \<open>extensions\<close>: the names whose value is \<open>true\<close>.\<close>

definition extension_directive :: "(jstr \<Rightarrow> bool) \<Rightarrow> nat \<Rightarrow> jstr \<Rightarrow> pre_state \<Rightarrow> pre_state gres" where
  "extension_directive supported lo rest w =
     (if \<not> g_active w then Inr w
      else case extension_parts (js_trim rest) of
        None \<Rightarrow> glsl_err lo (js ''#extension'') ''invalid extension directive''
      | Some (x, b) \<Rightarrow>
          (let known = (x = js ''all'' \<or> supported x) in
           if b \<notin> {js ''enable'', js ''require'', js ''warn'', js ''disable''} then glsl_err lo b ''invalid extension behavior''
           else if \<not> known \<and> b = js ''require'' then glsl_err lo x ''extension is not supported''
           else if known \<and> x \<noteq> js ''all'' then
             (if b \<noteq> js ''disable'' then Inr (w\<lparr>g_exts := g_exts w @ [x], g_macros := (g_macros w)(x \<mapsto> Plain (js ''1''))\<rparr>)
              else Inr (w\<lparr>g_macros := (g_macros w)(x := None)\<rparr>))
           else Inr w))"

definition run_directive :: "(jstr \<Rightarrow> bool) \<Rightarrow> nat \<Rightarrow> jstr \<Rightarrow> jstr \<Rightarrow> pre_state \<Rightarrow> pre_state gres" where
  "run_directive supported lo d rest w =
     (if d = js ''version'' then version_directive lo rest w
      else if d = js ''define'' then define_directive lo rest w
      else if d = js ''undef'' then Inr (if g_active w then w\<lparr>g_macros := (g_macros w)(js_trim rest := None)\<rparr> else w)
      else if d = js ''if'' then if_directive lo rest w
      else if d = js ''ifdef'' then Inr (push_cond (g_macros w (js_trim rest) \<noteq> None) w)
      else if d = js ''ifndef'' then Inr (push_cond (g_macros w (js_trim rest) = None) w)
      else if d = js ''elif'' then elif_directive lo rest w
      else if d = js ''else'' then else_directive lo w
      else if d = js ''endif'' then endif_directive lo w
      else if d = js ''extension'' then extension_directive supported lo rest w
      else if d = js ''error'' then (if g_active w then Inl (GlslError lo (js ''#error'') (js_trim rest)) else Inr w)
      else if d \<in> {js ''pragma'', js ''line'', []} then Inr w
      else if g_active w then glsl_err lo (35 # d) ''invalid directive name'' else Inr w)"

section \<open>Lines\<close>

definition push_line :: "jstr \<Rightarrow> pre_state \<Rightarrow> pre_state" where
  "push_line s w = w\<lparr>g_out := g_out w @ [s]\<rparr>"

definition pre_line :: "(jstr \<Rightarrow> bool) \<Rightarrow> nat \<Rightarrow> jstr \<Rightarrow> pre_state \<Rightarrow> pre_state gres" where
  "pre_line supported lo line w = (case directive line of
     Some (d, rest) \<Rightarrow> run_directive supported lo d rest (push_line [] w)
   | None \<Rightarrow>
       if \<not> g_active w then Inr (push_line [] w)
       else rbind (expand_macros (g_macros w) lo 0 {} line) (\<lambda>t.
         Inr (push_line t (w\<lparr>g_saw_code := (g_saw_code w \<or> js_trim line \<noteq> [])\<rparr>))))"

fun pre_lines :: "(jstr \<Rightarrow> bool) \<Rightarrow> nat \<Rightarrow> jstr list \<Rightarrow> pre_state \<Rightarrow> pre_state gres" where
  "pre_lines supported lo [] w = Inr w"
| "pre_lines supported lo (l # ls) w = rbind (pre_line supported lo l w) (pre_lines supported (Suc lo) ls)"

text \<open>The two replacements on the source: line ends become newlines, and a backslash before one joins two lines.\<close>

fun unify_newlines :: "jstr \<Rightarrow> jstr" where
  "unify_newlines [] = []"
| "unify_newlines (c # s) =
     (if c = 13 then 10 # (case s of [] \<Rightarrow> [] | d # r \<Rightarrow> if d = 10 then unify_newlines r else unify_newlines s)
      else c # unify_newlines s)"

fun join_lines :: "jstr \<Rightarrow> jstr" where
  "join_lines [] = []"
| "join_lines [c] = [c]"
| "join_lines (c # d # s) = (if c = 92 \<and> d = 10 then 32 # join_lines s else c # join_lines (d # s))"

definition source_lines :: "jstr \<Rightarrow> jstr list" where
  "source_lines src = split_on 10 (strip_comments (join_lines (unify_newlines src)))"

record preprocessed =
  o_text :: jstr
  o_version :: int
  o_exts :: "jstr list"

definition preprocess :: "(jstr \<Rightarrow> bool) \<Rightarrow> jstr \<Rightarrow> preprocessed gres" where
  "preprocess supported src =
     (let lines = source_lines src in rbind (pre_lines supported 1 lines initial_pre) (\<lambda>w.
        if g_stack w \<noteq> [] then glsl_err (length lines) (js ''#if'') ''unexpected end of file found in conditional block''
        else Inr \<lparr>o_text = join_with [10] (g_out w), o_version = g_version w, o_exts = g_exts w\<rparr>))"

end
