(* ===== verification/GlslTextLaws.thy ===== *)
theory GlslTextLaws
  imports GlslPre
begin

text \<open>
  What the text side of the GLSL front end keeps: newlines through comments, macros and directives; and that the
  evaluation of a condition always comes to an end.
\<close>

section \<open>Newlines\<close>

definition newlines :: "jstr \<Rightarrow> nat" where
  "newlines s = count_list s 10"

lemma newlines_simps [simp]:
  "newlines [] = 0" "newlines (c # s) = (if c = 10 then Suc (newlines s) else newlines s)"
  "newlines (s @ t) = newlines s + newlines t"
  by (simp_all add: newlines_def)

lemma newlines_0_iff: "newlines s = 0 \<longleftrightarrow> 10 \<notin> set s"
  by (simp add: newlines_def count_list_0_iff)

lemma newlines_dropWhile [simp]: "newlines (dropWhile (\<lambda>x. x \<noteq> 10) s) = newlines s"
  by (induction s) auto

lemma newlines_block_comment: "newlines (fst (block_comment s)) + newlines (snd (block_comment s)) = newlines s"
proof (induction s)
  case (Cons c s)
  then show ?case by (cases s) (auto split: prod.splits)
qed simp

lemmas strip_comments_Cons = strip_comments.simps [of "c # r" for c r, simplified list.case]

lemma newlines_strip_comments [simp]: "newlines (strip_comments s) = newlines s"
proof (induction s rule: strip_comments.induct)
  case (1 s)
  show ?case
  proof (cases s)
    case (Cons c r)
    consider "c = 47 \<and> r \<noteq> [] \<and> hd r = 47" | "\<not> (c = 47 \<and> r \<noteq> [] \<and> hd r = 47)" "c = 47 \<and> r \<noteq> [] \<and> hd r = 42"
      | "\<not> (c = 47 \<and> r \<noteq> [] \<and> hd r = 47)" "\<not> (c = 47 \<and> r \<noteq> [] \<and> hd r = 42)" by blast
    then show ?thesis
    proof cases
      case 1
      then show ?thesis using "1.IH"(1) [OF Cons] Cons by (simp add: strip_comments_Cons)
    next
      case 2
      then obtain r2 where r: "r = 42 # r2" by (cases r) auto
      then show ?thesis using "1.IH"(2) [OF Cons 2 refl] newlines_block_comment [of r2] 2 Cons
        by (simp add: strip_comments_Cons Let_def)
    next
      case 3
      then show ?thesis using "1.IH"(3) [OF Cons 3] Cons by (auto simp add: strip_comments_Cons)
    qed
  qed (simp add: strip_comments.simps)
qed

lemma split_on_no_delim: "x \<in> set (split_on d s) \<Longrightarrow> d \<notin> set x"
proof (induction s arbitrary: x)
  case (Cons c s)
  then show ?case by (cases "split_on d s") (auto split: if_splits)
qed simp

lemma length_split_on: "length (split_on d s) = Suc (count_list s d)"
proof (induction s)
  case (Cons c s)
  then show ?case by (cases "split_on d s") auto
qed simp

lemma length_source_lines: "length (source_lines src) = Suc (newlines (join_lines (unify_newlines src)))"
  unfolding source_lines_def length_split_on newlines_def [symmetric] by simp

lemma source_line_no_newline: "l \<in> set (source_lines src) \<Longrightarrow> 10 \<notin> set l"
  unfolding source_lines_def by (rule split_on_no_delim)

lemma newlines_join_with: "ls \<noteq> [] \<Longrightarrow> (\<forall>l \<in> set ls. 10 \<notin> set l) \<Longrightarrow> Suc (newlines (join_with [10] ls)) = length ls"
  by (induction "[10::int]" ls rule: join_with.induct) (auto simp: newlines_0_iff)

section \<open>Macros keep to a line\<close>

definition one_line_macros :: "macros \<Rightarrow> bool" where
  "one_line_macros ms = (\<forall>x m. ms x = Some m \<longrightarrow> (case m of Dyn \<Rightarrow> True | Plain b \<Rightarrow> 10 \<notin> set b | Params ps b \<Rightarrow> 10 \<notin> set b))"

lemma set_js_trim: "x \<in> set (js_trim s) \<Longrightarrow> x \<in> set s"
  unfolding js_trim_def set_rev by (metis set_dropWhileD set_rev)

lemma collect_args_set:
  "collect_args lvl cur args s = Some (a, c, r) \<Longrightarrow>
     \<Union> (set (map set a)) \<union> set c \<union> set r \<subseteq> \<Union> (set (map set args)) \<union> set cur \<union> set s"
proof (induction lvl cur args s rule: collect_args.induct)
  case (2 lvl cur args ch s)
  consider "ch = 40" | "ch = 41" "lvl = 0" | "ch = 41" "lvl \<noteq> 0" | "ch = 44" "lvl = 0" | "ch \<noteq> 40" "ch \<noteq> 41" "\<not> (ch = 44 \<and> lvl = 0)"
    by blast
  then show ?case
  proof cases
    case 1
    then show ?thesis using 2 by simp
  next
    case 2
    then show ?thesis using "2.prems" by auto
  next
    case 3
    then show ?thesis using "2.IH"(2) "2.prems" by simp
  next
    case 4
    then show ?thesis using "2.IH"(3) "2.prems" by simp blast
  next
    case 5
    then show ?thesis using "2.IH"(4) "2.prems" by (simp split: if_splits)
  qed
qed simp

lemma macro_args_set: "x \<in> set (macro_args ps a c) \<Longrightarrow> x \<in> set a \<or> x = c"
  by (auto simp: macro_args_def split: if_splits)

lemma set_id_re: "set (id_re s) \<subseteq> set s"
  by (auto simp: id_re_def dest: set_takeWhileD)

section \<open>A match is the beginning of its text\<close>

definition begins :: "jstr \<Rightarrow> jstr \<Rightarrow> bool" where
  "begins m s = (take (length m) s = m)"

lemma begins_set: "begins m s \<Longrightarrow> set m \<subseteq> set s"
  by (metis begins_def set_take_subset)

lemma begins_append: "begins m s \<Longrightarrow> begins x (drop (length m) s) \<Longrightarrow> begins (m @ x) s"
  by (simp add: begins_def take_add)

lemma begins_split: "begins m s \<Longrightarrow> s = m @ drop (length m) s"
  by (metis append_take_drop_id begins_def)

lemma begins_nil [simp]: "begins [] s"
  by (simp add: begins_def)

lemma begins_Cons [simp]: "begins (c # m) (d # s) \<longleftrightarrow> c = d \<and> begins m s" "begins (c # m) [] \<longleftrightarrow> False"
  by (auto simp: begins_def)

lemma begins_takeWhile [simp]: "begins (takeWhile P s) s"
  by (simp add: begins_def takeWhile_eq_take [symmetric])

lemma begins_one_of [simp]: "begins (one_of cs s) s"
  by (auto simp: one_of_def begins_def split: list.splits)

lemma begins_id_re [simp]: "begins (id_re s) s"
  by (simp add: id_re_def)

lemma begins_mantissa: "mantissa_re s = Some m \<Longrightarrow> begins m s"
proof -
  assume m: "mantissa_re s = Some m"
  obtain i r where ir: "takeWhile is_digit s = i" "dropWhile is_digit s = r" by blast
  then have s: "s = i @ r" using takeWhile_dropWhile_id [of is_digit s] by simp
  have "begins (46 # takeWhile is_digit (tl r)) r" if "r \<noteq> []" "hd r = 46"
    using that by (cases r) auto
  then show ?thesis
    using m unfolding mantissa_re_def ir Let_def
    by (auto simp: s split: if_splits) (auto simp: begins_def)
qed

lemma begins_exponent [simp]: "begins (exponent_re s) s"
proof (cases s)
  case (Cons c r)
  have "begins (one_of {43, 45} r @ takeWhile is_digit (drop (length (one_of {43, 45} r)) r)) r"
    by (intro begins_append) auto
  then show ?thesis using Cons by (simp add: exponent_re_def Let_def)
qed (simp add: exponent_re_def)

lemma begins_num_re: "num_re s = Some m \<Longrightarrow> begins m s"
proof -
  assume m: "num_re s = Some m"
  let ?hs = "takeWhile is_hex (drop 2 s)"
  show ?thesis
  proof (cases "hex_start s \<and> ?hs \<noteq> []")
    case True
    then have "length (take 2 s) = 2" by (auto simp: hex_start_def split: list.splits)
    moreover from this have "begins (take 2 s @ ?hs @ one_of {117, 85} (drop (2 + length ?hs) s)) s"
      by (intro begins_append) (auto simp: begins_def [of "take 2 s"] add.commute)
    ultimately show ?thesis using m True by (simp add: num_re_def Let_def)
  next
    case False
    then obtain k where k: "mantissa_re s = Some k" using m by (auto simp: num_re_def Let_def split: option.splits)
    have "begins (k @ exponent_re (drop (length k) s) @ one_of {102, 70, 117, 85} (drop (length k + length (exponent_re (drop (length k) s))) s)) s"
      using begins_mantissa [OF k] by (intro begins_append) (auto simp: add.commute)
    then show ?thesis using m False k by (simp add: num_re_def Let_def)
  qed
qed

lemma begins_num_text [simp]: "begins (num_text s) s"
  using begins_num_re [of s] by (cases s) (auto simp: num_text_def begins_def split: option.splits)

section \<open>Expansion keeps to a line\<close>

lemma digits_of_set: "0 \<le> n \<Longrightarrow> x \<in> set (digits_of n) \<Longrightarrow> 48 \<le> x"
proof (induction n rule: digits_of.induct)
  case (1 n)
  show ?case using 1 by (subst (asm) digits_of.simps [of n]) (auto split: if_splits)
qed

lemmas substitute_Cons = substitute.simps [of params vals "c # r" for params vals c r, simplified list.case]

lemma param_value_set: "10 \<notin> set x \<Longrightarrow> \<forall>v \<in> set vals. 10 \<notin> set v \<Longrightarrow> 10 \<notin> set (param_value ps vals x)"
  by (auto simp: param_value_def split: option.splits dest!: map_of_SomeD set_zip_rightD)

lemma substitute_one_line: "\<forall>v \<in> set vals. 10 \<notin> set v \<Longrightarrow> 10 \<notin> set s \<Longrightarrow> 10 \<notin> set (substitute ps vals s)"
proof (induction ps vals s rule: substitute.induct)
  case (1 ps vals s)
  have b: "10 \<notin> set m" "10 \<notin> set (drop (length m) s)" if "begins m s" for m
    using begins_set [OF that] 1(5) by (auto dest: in_set_dropD)
  show ?case
  proof (cases s)
    case (Cons c r)
    consider "id_start c" | "\<not> id_start c" "is_digit c" | "\<not> id_start c" "\<not> is_digit c" by blast
    then show ?thesis
    proof cases
      case 1
      then show ?thesis using "1.IH"(1) [OF Cons 1 refl] "1.prems" Cons b [of "id_re s"] param_value_set
        by (auto simp: substitute_Cons Let_def)
    next
      case 2
      then show ?thesis using "1.IH"(2) [OF Cons 2 refl] "1.prems" Cons b [of "num_text s"]
        by (auto simp: substitute_Cons Let_def)
    next
      case 3
      then show ?thesis using "1.IH"(3) [OF Cons 3] "1.prems" Cons by (auto simp: substitute_Cons)
    qed
  qed (simp add: substitute.simps)
qed

lemmas expand_Cons = expand_macros.simps [of ms lo depth off "c # r" for ms lo depth off c r, simplified list.case]

text \<open>What \<open>expand\<close> does at a name, for each kind of macro.\<close>

definition usable :: "macros \<Rightarrow> jstr set \<Rightarrow> jstr \<Rightarrow> macro option" where
  "usable ms off x = (if x \<in> off then None else ms x)"

definition at_name :: "nat \<Rightarrow> jstr \<Rightarrow> bool" where
  "at_name depth s = (\<not> 64 < depth \<and> s \<noteq> [] \<and> \<not> starts_number s \<and> id_start (hd s))"

lemma expand_at_name:
  assumes "at_name depth s" "x = id_re s" "after = drop (length x) s"
  shows expand_other: "usable ms off x = None \<Longrightarrow> expand_macros ms lo depth off s = prepend x (expand_macros ms lo depth off after)"
    and expand_line: "usable ms off x = Some Dyn \<Longrightarrow> expand_macros ms lo depth off s = prepend (digits_of (int lo)) (expand_macros ms lo depth off after)"
    and expand_plain: "usable ms off x = Some (Plain body) \<Longrightarrow> expand_macros ms lo depth off s =
      rbind (expand_macros ms lo (Suc depth) (insert x off) body) (\<lambda>b. prepend b (expand_macros ms lo depth off after))"
    and expand_params: "usable ms off x = Some (Params ps body) \<Longrightarrow> call = dropWhile js_space after \<Longrightarrow> expand_macros ms lo depth off s =
      (if call = [] \<or> hd call \<noteq> 40 then prepend x (expand_macros ms lo depth off after)
       else case collect_args 0 [] [] (tl call) of
           None \<Rightarrow> glsl_err lo x ''unterminated macro invocation''
         | Some (args, cur, rest) \<Rightarrow>
             (let given = macro_args ps args cur in
              if length given \<noteq> length ps then glsl_err lo x ''Invalid number of macro arguments''
              else rbind (rmap (\<lambda>a. expand_macros ms lo (Suc depth) off (js_trim a)) given) (\<lambda>vals.
                   rbind (expand_macros ms lo (Suc depth) (insert x off) (substitute ps vals body)) (\<lambda>b.
                     prepend b (expand_macros ms lo depth off rest)))))"
proof -
  obtain c r where s: "s = c # r" using assms(1) by (cases s) (auto simp: at_name_def)
  have c: "id_start c" "\<not> starts_number (c # r)" "\<not> 64 < depth" using assms(1) by (auto simp: at_name_def s)
  note eq = expand_Cons [of ms lo depth off c r, unfolded Let_def, simplified c if_False not_True_eq_False, folded s]
  show "usable ms off x = None \<Longrightarrow> expand_macros ms lo depth off s = prepend x (expand_macros ms lo depth off after)"
    unfolding usable_def assms(2,3) by (simp only: eq option.case)
  show "usable ms off x = Some Dyn \<Longrightarrow> expand_macros ms lo depth off s = prepend (digits_of (int lo)) (expand_macros ms lo depth off after)"
    unfolding usable_def assms(2,3) by (simp only: eq option.case macro.case)
  show "usable ms off x = Some (Plain body) \<Longrightarrow> expand_macros ms lo depth off s =
      rbind (expand_macros ms lo (Suc depth) (insert x off) body) (\<lambda>b. prepend b (expand_macros ms lo depth off after))"
    unfolding usable_def assms(2,3) by (simp only: eq option.case macro.case)
  show "usable ms off x = Some (Params ps body) \<Longrightarrow> call = dropWhile js_space after \<Longrightarrow> expand_macros ms lo depth off s =
      (if call = [] \<or> hd call \<noteq> 40 then prepend x (expand_macros ms lo depth off after)
       else case collect_args 0 [] [] (tl call) of
           None \<Rightarrow> glsl_err lo x ''unterminated macro invocation''
         | Some (args, cur, rest) \<Rightarrow>
             (let given = macro_args ps args cur in
              if length given \<noteq> length ps then glsl_err lo x ''Invalid number of macro arguments''
              else rbind (rmap (\<lambda>a. expand_macros ms lo (Suc depth) off (js_trim a)) given) (\<lambda>vals.
                   rbind (expand_macros ms lo (Suc depth) (insert x off) (substitute ps vals body)) (\<lambda>b.
                     prepend b (expand_macros ms lo depth off rest)))))"
    unfolding usable_def assms(2,3) Let_def by (simp only: eq option.case macro.case)
qed

lemma prepend_Inr: "prepend x r = Inr t \<longleftrightarrow> (\<exists>u. r = Inr u \<and> t = x @ u)"
  by (auto simp: prepend_def rbind_Inr_iff)

lemma rmap_Inr_set: "rmap f xs = Inr ys \<Longrightarrow> y \<in> set ys \<Longrightarrow> \<exists>x \<in> set xs. f x = Inr y"
  by (induction xs arbitrary: ys) (auto simp: rbind_Inr_iff)

text \<open>Induction on what is left of the depth, and then on the text.\<close>

lemma expand_induct [case_names Step]:
  assumes step: "\<And>depth off s. (\<And>off' s'. \<not> 64 < depth \<Longrightarrow> P (Suc depth) off' s') \<Longrightarrow>
     (\<And>s'. length s' < length s \<Longrightarrow> P depth off s') \<Longrightarrow> P depth off s"
  shows "P (depth :: nat) (off :: jstr set) (s :: jstr)"
proof (induction "65 - depth" arbitrary: depth off s rule: less_induct)
  case outer: (less depth off s)
  have deeper: "P (Suc depth) off' s'" if "\<not> 64 < depth" for off' s'
    using that by (intro outer) simp
  show ?case
  proof (induction s rule: measure_induct_rule [of length])
    case (less s)
    show ?case using deeper less by (rule step)
  qed
qed

lemma expand_one_line:
  assumes ms: "one_line_macros ms"
  shows "10 \<notin> set s \<Longrightarrow> expand_macros ms lo depth off s = Inr t \<Longrightarrow> 10 \<notin> set t"
proof (induction depth off s arbitrary: t rule: expand_induct)
  case (Step depth off s)
  note deeper = Step(1) and shorter = Step(2) and s = Step(3) and t = Step(4)
  consider "64 < depth" | "\<not> 64 < depth" "s = []" | c r where "\<not> 64 < depth" "s = c # r" by (cases s) auto
  then show ?case
  proof cases
    case 1
    then show ?thesis using s t by (simp add: expand_macros.simps [of ms lo depth off s])
  next
    case 2
    then show ?thesis using t by (simp add: expand_macros.simps [of ms lo depth off "[]"])
  next
    case (3 c r)
    have b: "10 \<notin> set m" "10 \<notin> set (drop (length m) s)" if "begins m s" for m
      using begins_set [OF that] s by (auto dest: in_set_dropD)
    note x = b [OF begins_id_re] b [OF begins_num_text]
    have cut: "length (drop (length (num_text s)) s) < length s" "id_start c \<Longrightarrow> length (drop (length (id_re s)) s) < length s"
      using num_text_shrinks [of r c] id_re_shrinks [of c r] 3 by simp_all
    note eq = t [unfolded 3(2) expand_Cons, folded 3(2)]
    consider "starts_number s" | "\<not> starts_number s" "\<not> id_start c" | "\<not> starts_number s" "id_start c" by blast
    then show ?thesis
    proof cases
      case 1
      then obtain u where "expand_macros ms lo depth off (drop (length (num_text s)) s) = Inr u" "t = num_text s @ u"
        using eq 3(1) by (auto simp: prepend_Inr Let_def)
      then show ?thesis using x shorter [OF cut(1)] by simp
    next
      case 2
      then show ?thesis using eq 3 s shorter [of r] by (auto simp: prepend_Inr)
    next
      case 3
      define x where "x = id_re s"
      define after where "after = drop (length x) s"
      have at: "at_name depth s" using 3 \<open>\<not> 64 < depth\<close> \<open>s = c # r\<close> by (simp add: at_name_def)
      have l: "length after < length s" and n: "10 \<notin> set after" "10 \<notin> set x"
        using cut(2) 3(2) b [OF begins_id_re] by (simp_all add: after_def x_def)
      have out: "10 \<notin> set t" if "prepend p (expand_macros ms lo depth off rest) = Inr t" "10 \<notin> set p" "length rest < length s" "10 \<notin> set rest" for p rest
        using that shorter [of rest] by (auto simp: prepend_Inr)
      have body: "10 \<notin> set bd" if "usable ms off x = Some (Plain bd) \<or> usable ms off x = Some (Params ps bd)" for ps bd
        using ms that unfolding one_line_macros_def usable_def by (fastforce split: if_splits)
      consider "usable ms off x = None" | "usable ms off x = Some Dyn" | bd where "usable ms off x = Some (Plain bd)"
        | ps bd where "usable ms off x = Some (Params ps bd)"
        by (metis macro.exhaust option.exhaust)
      then show ?thesis
      proof cases
        case 1
        then show ?thesis using out [OF _ n(2) l n(1)] t expand_other [OF at x_def after_def] by simp
      next
        case 2
        then show ?thesis using out [OF _ _ l n(1)] t expand_line [OF at x_def after_def] digits_of_set [of "int lo" 10] by fastforce
      next
        case (3 bd)
        then obtain b where "expand_macros ms lo (Suc depth) (insert x off) bd = Inr b" "prepend b (expand_macros ms lo depth off after) = Inr t"
          using t expand_plain [OF at x_def after_def] by (auto simp: rbind_Inr_iff)
        then show ?thesis using out [OF _ _ l n(1)] deeper [OF \<open>\<not> 64 < depth\<close>] body 3 by blast
      next
        case (4 ps bd)
        define call where "call = dropWhile js_space after"
        note eq = t [unfolded expand_params [OF at x_def after_def 4 call_def]]
        show ?thesis
        proof (cases "call = [] \<or> hd call \<noteq> 40")
          case True
          then show ?thesis using out [OF _ n(2) l n(1)] eq by simp
        next
          case False
          then obtain args cur rest where c: "collect_args 0 [] [] (tl call) = Some (args, cur, rest)"
            using eq by (auto simp: glsl_err_def split: option.splits)
          have "10 \<notin> set (tl call)"
            using n(1) False by (metis call_def list.set_sel(2) set_dropWhileD)
          then have nl: "10 \<notin> set cur" "10 \<notin> set rest" "\<And>a. a \<in> set args \<Longrightarrow> 10 \<notin> set a"
            using collect_args_set [OF c] by auto
          have "length rest < length s" using args_shrink [of "length x" s args cur rest] c False by (simp add: call_def after_def)
          moreover obtain vals b where v: "rmap (\<lambda>a. expand_macros ms lo (Suc depth) off (js_trim a)) (macro_args ps args cur) = Inr vals"
              "expand_macros ms lo (Suc depth) (insert x off) (substitute ps vals bd) = Inr b" "prepend b (expand_macros ms lo depth off rest) = Inr t"
            using eq False c by (auto simp: Let_def glsl_err_def rbind_Inr_iff split: if_splits)
          moreover have "10 \<notin> set y" if y: "y \<in> set vals" for y
          proof -
            obtain a where a: "a \<in> set (macro_args ps args cur)" "expand_macros ms lo (Suc depth) off (js_trim a) = Inr y"
              using rmap_Inr_set [OF v(1) y] by auto
            have "10 \<notin> set (js_trim a)" using macro_args_set [OF a(1)] nl set_js_trim by blast
            then show ?thesis using deeper [OF \<open>\<not> 64 < depth\<close>] a(2) by blast
          qed
          then have "10 \<notin> set b"
            using deeper [OF \<open>\<not> 64 < depth\<close> _ v(2)] substitute_one_line body 4 by blast
          ultimately show ?thesis using out nl(2) by blast
        qed
      qed
    qed
  qed
qed

section \<open>Lines of the preprocessor\<close>

definition pre_ok :: "pre_state \<Rightarrow> bool" where
  "pre_ok w = (one_line_macros (g_macros w) \<and> (\<forall>l \<in> set (g_out w). 10 \<notin> set l))"

lemma one_line_initial: "one_line_macros initial_macros"
  by (auto simp: one_line_macros_def initial_macros_def js_def split: if_splits)

lemma one_line_update:
  "one_line_macros ms \<Longrightarrow> (case m of None \<Rightarrow> True | Some Dyn \<Rightarrow> True | Some (Plain b) \<Rightarrow> 10 \<notin> set b | Some (Params ps b) \<Rightarrow> 10 \<notin> set b) \<Longrightarrow>
   one_line_macros (ms(x := m))"
  by (auto simp: one_line_macros_def split: option.splits)

lemma define_parts_set: "define_parts s = Some (x, ps, b) \<Longrightarrow> set b \<subseteq> set s"
  unfolding define_parts_def Let_def
  by (auto split: if_splits dest: in_set_dropD set_dropWhileD list.set_sel(2) [rotated])
    (metis in_set_dropD list.sel(2) list.set_sel(2) set_dropWhileD)

lemma directive_set: "directive l = Some (d, rest) \<Longrightarrow> set rest \<subseteq> set l"
proof -
  assume d: "directive l = Some (d, rest)"
  then obtain c r where l: "dropWhile js_space l = c # r" by (auto simp: directive_def split: list.splits)
  then have "set r \<subseteq> set l" by (metis set_dropWhileD set_subset_Cons subset_iff)
  moreover have "set rest \<subseteq> set r" using d l
    by (auto simp: directive_def Let_def split: if_splits dest!: set_dropWhileD in_set_dropD)
  ultimately show ?thesis by blast
qed

definition keeps_lines :: "pre_state \<Rightarrow> pre_state gres \<Rightarrow> bool" where
  "keeps_lines w r = (\<forall>w1. r = Inr w1 \<longrightarrow> pre_ok w1 \<and> length (g_out w1) = length (g_out w))"

lemma keeps_lines_simps [simp]:
  "keeps_lines w (Inl e)" "keeps_lines w (glsl_err lo x m)"
  "keeps_lines w (Inr w1) \<longleftrightarrow> pre_ok w1 \<and> length (g_out w1) = length (g_out w)"
  by (auto simp: keeps_lines_def glsl_err_def)

lemma keeps_lines_bind: "(\<And>x. r = Inr x \<Longrightarrow> keeps_lines w (f x)) \<Longrightarrow> keeps_lines w (rbind r f)"
  by (cases r) auto

lemma keeps_lines_if: "(b \<Longrightarrow> keeps_lines w p) \<Longrightarrow> (\<not> b \<Longrightarrow> keeps_lines w q) \<Longrightarrow> keeps_lines w (if b then p else q)"
  by simp

lemma keeps_lines_directive:
  assumes w: "pre_ok w" and r: "10 \<notin> set rest"
  shows "keeps_lines w (run_directive known lo d rest w)"
proof -
  have up: "pre_ok (w\<lparr>g_macros := (g_macros w)(x := m)\<rparr>)"
    if "case m of None \<Rightarrow> True | Some Dyn \<Rightarrow> True | Some (Plain b) \<Rightarrow> 10 \<notin> set b | Some (Params ps b) \<Rightarrow> 10 \<notin> set b" for x m
    using w that by (simp add: pre_ok_def one_line_update)
  have tr: "10 \<notin> set (js_trim b)" if "set b \<subseteq> set rest" for b
    using that r set_js_trim by blast
  have "pre_ok (w\<lparr>g_macros := (g_macros w)(x \<mapsto> defined_macro ps b)\<rparr>)" if "define_parts rest = Some (x, ps, b)" for x ps b
    using tr [OF define_parts_set [OF that]] by (intro up) (auto simp: defined_macro_def split: option.splits)
  then have "keeps_lines w (define_directive lo rest w)"
    using w by (auto simp: define_directive_def split: option.splits)
  moreover have "keeps_lines w (version_directive lo rest w)"
  proof -
    have "10 \<notin> set (digits_of v)" if "v = 100 \<or> v = 300" for v using that digits_of_set [of v 10] by auto
    then have "pre_ok (w\<lparr>g_version := v, g_macros := (g_macros w)(x \<mapsto> Plain (digits_of v))\<rparr>)" if "v = 100 \<or> v = 300" for v x
      using that w by (simp add: pre_ok_def one_line_update)
    then show ?thesis unfolding version_directive_def Let_def
      by (simp only: keeps_lines_simps split: option.split prod.split if_split) (simp add: pre_ok_def)
  qed
  moreover have "keeps_lines w (extension_directive known lo rest w)"
  proof -
    have "10 \<notin> set (js ''1'')" by (simp add: js_def)
    then have "pre_ok (w\<lparr>g_exts := es, g_macros := (g_macros w)(x \<mapsto> Plain (js ''1''))\<rparr>)" for es x
      using w by (simp add: pre_ok_def one_line_update)
    then show ?thesis unfolding extension_directive_def Let_def
      using w up [of None] by (simp add: keeps_lines_simps split: option.split prod.split)
  qed
  moreover have "keeps_lines w (if_directive lo rest w)" "keeps_lines w (elif_directive lo rest w)"
      "keeps_lines w (else_directive lo w)" "keeps_lines w (endif_directive lo w)"
    using w by (auto simp: if_directive_def elif_directive_def else_directive_def endif_directive_def push_cond_def pre_ok_def
        split: list.splits intro!: keeps_lines_bind)
  moreover have "keeps_lines w (Inr (push_cond v w))" for v using w by (simp add: push_cond_def pre_ok_def)
  moreover have "keeps_lines w (Inr (w\<lparr>g_macros := (g_macros w)(x := None)\<rparr>))" for x using w up [of None] by simp
  ultimately show ?thesis using w unfolding run_directive_def by (intro keeps_lines_if) simp_all
qed

lemma pre_line_ok:
  assumes "pre_ok w" "10 \<notin> set l" "pre_line known lo l w = Inr w1"
  shows "pre_ok w1 \<and> length (g_out w1) = Suc (length (g_out w))"
proof (cases "directive l")
  case (Some p)
  then obtain d rest where d: "directive l = Some (d, rest)" by (cases p) auto
  have "pre_ok (push_line [] w)" using assms(1) by (auto simp: push_line_def pre_ok_def)
  moreover have "10 \<notin> set rest" using directive_set [OF d] assms(2) by blast
  ultimately show ?thesis
    using keeps_lines_directive [of "push_line [] w" rest known lo d] assms(3) d by (simp add: pre_line_def keeps_lines_def push_line_def)
next
  case None
  then show ?thesis using assms expand_one_line [of "g_macros w" l lo 0 "{}"]
    by (auto simp: pre_line_def push_line_def pre_ok_def rbind_Inr_iff split: if_splits)
qed

lemma pre_lines_ok:
  "pre_ok w \<Longrightarrow> \<forall>l \<in> set ls. 10 \<notin> set l \<Longrightarrow> pre_lines known lo ls w = Inr w1 \<Longrightarrow>
   pre_ok w1 \<and> length (g_out w1) = length ls + length (g_out w)"
proof (induction ls arbitrary: lo w)
  case (Cons l ls)
  then obtain w2 where w2: "pre_line known lo l w = Inr w2" "pre_lines known (Suc lo) ls w2 = Inr w1"
    by (auto simp: rbind_Inr_iff)
  from pre_line_ok [OF Cons.prems(1) _ w2(1)] Cons.prems(2) have "pre_ok w2" "length (g_out w2) = Suc (length (g_out w))" by auto
  with Cons.IH [OF this(1) _ w2(2)] Cons.prems(2) show ?case by simp
qed simp

section \<open>Conditions come to an end\<close>

definition consumes :: "ceval \<Rightarrow> ctok list \<Rightarrow> bool" where
  "consumes f ts = (f ts \<noteq> Inl NoFuel \<and> (\<forall>v r. f ts = Inr (v, r) \<longrightarrow> length r < length ts))"

lemma cond_op_fuel: "cond_op lo op v r \<noteq> Inl NoFuel"
  by (simp add: cond_op_def glsl_err_def)

lemma consumesD: "consumes f ts \<Longrightarrow> f ts = Inr (v, r) \<Longrightarrow> length r < length ts"
  by (simp add: consumes_def)

lemma rbind_fuel: "rbind r f = Inl NoFuel \<longleftrightarrow> r = Inl NoFuel \<or> (\<exists>x. r = Inr x \<and> f x = Inl NoFuel)"
  by (cases r) auto

definition leaves :: "nat \<Rightarrow> (32 word \<times> ctok list) gres \<Rightarrow> bool" where
  "leaves k q = (q \<noteq> Inl NoFuel \<and> (\<forall>v r. q = Inr (v, r) \<longrightarrow> length r < k))"

lemma consumes_leaves: "consumes f ts \<longleftrightarrow> leaves (length ts) (f ts)"
  by (simp add: consumes_def leaves_def)

lemma leaves_bind:
  "leaves k q \<Longrightarrow> (\<And>v r. length r < k \<Longrightarrow> length (h v r) \<le> length r) \<Longrightarrow> leaves (Suc k) (rbind q (\<lambda>(v, r). Inr (g v, h v r)))"
  by (auto simp: leaves_def rbind_fuel rbind_Inr_iff less_Suc_eq) (meson le_less_trans)

lemma leaves_err: "leaves k (glsl_err lo x m)"
  by (simp add: leaves_def glsl_err_def)

lemma leaves_mono: "leaves k q \<Longrightarrow> leaves (Suc k) q"
  by (fastforce simp: leaves_def)

lemma cond_prim_consumes:
  assumes "\<And>us. length us < length ts \<Longrightarrow> consumes lor us"
  shows "consumes (cond_prim lo lor) ts"
  using assms
proof (induction ts)
  case (Cons t ts)
  have r: "leaves (length ts) (cond_prim lo lor ts)" using Cons by (simp add: consumes_leaves)
  have l: "leaves (length ts) (lor ts)" using Cons.prems by (simp add: consumes_leaves)
  show ?case
  proof (cases t)
    case (CPunct x)
    have "leaves (Suc (length ts)) (rbind (lor ts) (\<lambda>(v, r). Inr (v, tl r)))" using leaves_bind [OF l] by simp
    moreover have "leaves (Suc (length ts)) (rbind (cond_prim lo lor ts) (\<lambda>(v, r). Inr (g v, r)))" for g
      using leaves_bind [OF r] by simp
    ultimately show ?thesis using leaves_mono [OF r] leaves_err by (simp add: consumes_leaves CPunct)
  qed (simp add: consumes_def)
qed (simp add: consumes_def glsl_err_def)

lemma cond_loop_consumes:
  assumes "\<And>us. length us \<le> k \<Longrightarrow> consumes operand us" "length ts \<le> k" "length ts < n"
  shows "cond_loop lo operand ops n v ts \<noteq> Inl NoFuel \<and> (\<forall>u r. cond_loop lo operand ops n v ts = Inr (u, r) \<longrightarrow> length r \<le> length ts)"
  using assms(2,3)
proof (induction n arbitrary: v ts)
  case (Suc n)
  show ?case
  proof (cases "next_op ops ts")
    case (Some op)
    then obtain t us where ts: "ts = t # us" by (cases ts) (auto simp: next_op_def)
    have c: "consumes operand us" using assms(1) Suc.prems ts by simp
    have IH: "cond_loop lo operand ops n v1 r \<noteq> Inl NoFuel \<and> (\<forall>u r'. cond_loop lo operand ops n v1 r = Inr (u, r') \<longrightarrow> length r' \<le> length r)"
      if "length r < length us" for v1 r using Suc.IH [of r] Suc.prems ts that by simp
    show ?thesis using c unfolding consumes_def
      by (auto simp: Some [unfolded ts] ts rbind_fuel rbind_Inr_iff cond_op_fuel dest: IH) (meson IH le_SucI less_imp_le_nat order_trans)
  qed auto
qed simp

lemma cond_bin_consumes:
  assumes "\<And>us. length us < k \<Longrightarrow> consumes lor us" "length ts \<le> k"
  shows "consumes (cond_bin lo lor levels) ts"
  using assms(2)
proof (induction levels arbitrary: ts)
  case Nil
  then show ?case using cond_prim_consumes [of ts lor lo] assms(1) by (auto simp: consumes_def)
next
  case (Cons ops levels)
  note c = Cons.IH [OF Cons.prems]
  have loop: "cond_loop lo (cond_bin lo lor levels) ops (Suc (length r)) v r \<noteq> Inl NoFuel \<and>
      (\<forall>u r'. cond_loop lo (cond_bin lo lor levels) ops (Suc (length r)) v r = Inr (u, r') \<longrightarrow> length r' \<le> length r)"
    if "length r < length ts" for v r
    using Cons that by (intro cond_loop_consumes [where k = k]) auto
  show ?case using c loop unfolding consumes_def
    by (auto simp: rbind_fuel rbind_Inr_iff simp del: cond_loop.simps) (meson le_less_trans)
qed

lemma cond_or_consumes: "length ts < n \<Longrightarrow> consumes (cond_or lo n) ts"
proof (induction n arbitrary: ts)
  case (Suc n)
  then have "consumes (cond_bin lo (cond_or lo n) cond_levels) ts" by (intro cond_bin_consumes [where k = n]) auto
  then show ?case by (simp add: consumes_def)
qed simp

lemma rmap_fuel: "(\<And>x. x \<in> set xs \<Longrightarrow> f x \<noteq> Inl NoFuel) \<Longrightarrow> rmap f xs \<noteq> Inl NoFuel"
  by (induction xs) (auto simp: rbind_fuel)

lemma prepend_fuel [simp]: "prepend x r = Inl NoFuel \<longleftrightarrow> r = Inl NoFuel"
  by (auto simp: prepend_def rbind_fuel)

lemma expand_fuel: "expand_macros ms lo depth off s \<noteq> Inl NoFuel"
proof (induction depth off s rule: expand_induct)
  case (Step depth off s)
  note deeper = Step(1) and shorter = Step(2)
  consider "64 < depth \<or> s = []" | c r where "\<not> 64 < depth" "s = c # r" by (cases s) auto
  then show ?case
  proof cases
    case 1
    then show ?thesis by (auto simp: expand_macros.simps [of ms lo depth off s] split: list.split)
  next
    case (2 c r)
    have cut: "length (drop (length (num_text s)) s) < length s" "id_start c \<Longrightarrow> length (drop (length (id_re s)) s) < length s"
      using num_text_shrinks [of r c] id_re_shrinks [of c r] 2 by simp_all
    consider "starts_number s" | "\<not> starts_number s" "\<not> id_start c" | "\<not> starts_number s" "id_start c" by blast
    then show ?thesis
    proof cases
      case 1
      then show ?thesis using 2 shorter [OF cut(1)] by (simp add: expand_Cons Let_def)
    next
      case 2
      then show ?thesis using \<open>s = c # r\<close> \<open>\<not> 64 < depth\<close> shorter [of r] by (simp add: expand_Cons)
    next
      case 3
      define x where "x = id_re s"
      define after where "after = drop (length x) s"
      have at: "at_name depth s" using 3 2 by (simp add: at_name_def)
      have l: "length after < length s" using cut(2) 3(2) by (simp add: after_def x_def)
      note deep = deeper [OF 2(1)] and eqs = expand_other [OF at x_def after_def] expand_line [OF at x_def after_def] expand_plain [OF at x_def after_def]
      consider "usable ms off x = None" | "usable ms off x = Some Dyn" | bd where "usable ms off x = Some (Plain bd)"
        | ps bd where "usable ms off x = Some (Params ps bd)"
        by (metis macro.exhaust option.exhaust)
      then show ?thesis
      proof cases
        case (4 ps bd)
        define call where "call = dropWhile js_space after"
        have "length rest < length s" if "collect_args 0 [] [] (tl call) = Some (args, cur, rest)" "call \<noteq> []" for args cur rest
          using args_shrink [of "length x" s args cur rest] that by (simp add: call_def after_def)
        then show ?thesis
          unfolding expand_params [OF at x_def after_def 4 call_def] using shorter l deep
          by (auto simp: glsl_err_def Let_def rbind_fuel rmap_fuel split: option.split)
      qed (use shorter [OF l] deep eqs in \<open>auto simp: rbind_fuel\<close>)
    qed
  qed
qed

lemma eval_cond_fuel: "eval_cond ms lo s \<noteq> Inl NoFuel"
  unfolding eval_cond_def Let_def using expand_fuel cond_or_consumes [of ts "Suc (length ts)" lo for ts]
  by (fastforce simp: rbind_fuel consumes_def glsl_err_def simp del: cond_or.simps split: if_splits)

lemma js_inject [simp]: "js a = js b \<longleftrightarrow> a = b"
  by (auto simp: js_def inj_map_eq_map inj_def)

end
