(* ===== verification/GlslLex.thy ===== *)
theory GlslLex
  imports GlslText
begin

text \<open>
  The lexer of \<open>33_glsl_front.js\<close> (lines 264--309): from the preprocessed text to tokens with their lines.
\<close>

section \<open>Tokens\<close>

datatype num_kind = IntLit | UintLit | FloatLit

text \<open>The fields \<open>v\<close>, \<open>type\<close>, \<open>line\<close> and \<open>s\<close> of the tokens; the value of the last token is the text \<open><EOF>\<close>.\<close>

datatype gtok = TNum jsnum num_kind nat jstr | TId jstr nat | TPunct jstr nat | TEof nat

fun tok_line :: "gtok \<Rightarrow> nat" where
  "tok_line (TNum v k l s) = l" | "tok_line (TId x l) = l" | "tok_line (TPunct x l) = l" | "tok_line (TEof l) = l"

definition punct3 :: "jstr list" where
  "punct3 = map js [''<<='', ''>>='']"

definition punct2 :: "jstr list" where
  "punct2 = map js [''++'', ''--'', ''+='', ''-='', ''*='', ''/='', ''%='', ''<<'', ''>>'', ''<='', ''>='', ''=='', ''!='',
     ''&&'', ''||'', ''^^'', ''&='', ''|='', ''^='']"

definition punct1 :: jstr where
  "punct1 = js ''{}()[];,.+-*/%<>=!&|^~?:''"

section \<open>Number literals\<close>

text \<open>\<open>s\<close> is the text that \<open>NUM_RE\<close> matched; \<open>/[.eE]/.test(s)\<close> and the suffixes decide the type.\<close>

definition is_uint_lit :: "jstr \<Rightarrow> bool" where
  "is_uint_lit s = (last s \<in> {117, 85})"

definition is_float_lit :: "jstr \<Rightarrow> bool" where
  "is_float_lit s = (\<not> hex_start s \<and> \<not> is_uint_lit s \<and> (set s \<inter> {46, 101, 69} \<noteq> {} \<or> last s \<in> {102, 70}))"

definition without_suffix :: "jstr \<Rightarrow> jstr" where
  "without_suffix s = (if last s \<in> (if hex_start s then {117, 85} else {117, 85, 102, 70}) then butlast s else s)"

definition lex_number :: "nat \<Rightarrow> jstr \<Rightarrow> gtok gres" where
  "lex_number line m =
     (let s = without_suffix m in
      if is_float_lit m then Inr (TNum (decimal_literal False s) FloatLit line s)
      else let v = int_literal s; u = is_uint_lit m in
        if \<not> u \<and> 2147483647 < v \<and> v \<le> 4294967295 then glsl_err line s ''Integer overflow''
        else if 4294967295 < v then glsl_err line s ''Integer overflow''
        else Inr (TNum (Fin (of_int v)) (if u then UintLit else IntLit) line s))"

section \<open>The loop\<close>

definition lex_space :: "cu \<Rightarrow> bool" where
  "lex_space c = (c \<in> {32, 9, 13, 12, 11})"

definition punct_at :: "jstr \<Rightarrow> jstr option" where
  "punct_at s =
     (if take 3 s \<in> set punct3 then Some (take 3 s)
      else if take 2 s \<in> set punct2 then Some (take 2 s)
      else if s \<noteq> [] \<and> hd s \<in> set punct1 then Some (take 1 s) else None)"

lemma punct_shrinks: "punct_at (c # r) = Some x \<Longrightarrow> Suc (length r) - length x < Suc (length r)"
  by (auto simp: punct_at_def split: if_splits)

function lex_from :: "nat \<Rightarrow> jstr \<Rightarrow> gtok list gres" where
  "lex_from line s = (case s of
     [] \<Rightarrow> Inr [TEof line]
   | c # r \<Rightarrow>
       if c = 10 then lex_from (Suc line) r
       else if lex_space c then lex_from line r
       else if starts_number s
         then (let m = num_text s in rbind (lex_number line m) (\<lambda>t.
           rbind (lex_from line (drop (length m) s)) (\<lambda>ts. Inr (t # ts))))
       else if id_start c
         then (let x = id_re s in rbind (lex_from line (drop (length x) s)) (\<lambda>ts. Inr (TId x line # ts)))
       else (case punct_at s of
           None \<Rightarrow> glsl_err line [c] ''Illegal character''
         | Some x \<Rightarrow> rbind (lex_from line (drop (length x) s)) (\<lambda>ts. Inr (TPunct x line # ts))))"
  by auto
termination
  by (relation "measure (\<lambda>(line, s). length s)")
    (auto simp: id_re_shrinks num_text_shrinks punct_shrinks)

declare lex_from.simps [simp del]

definition glsl_lex :: "jstr \<Rightarrow> gtok list gres" where
  "glsl_lex src = lex_from 1 src"

end
