(* ===== verification/GlslParse.thy ===== *)
theory GlslParse
  imports GlslLex
begin

text \<open>
  The parser of \<open>33_glsl_front.js\<close> (lines 311--664), recursive descent over the tokens.  The functions of the code call
  each other in circles; here they take the record \<open>gparsers\<close> of the functions they call back, and \<open>parsers_at\<close> closes
  the circle with a bound on the depth.
\<close>

section \<open>Abstract syntax\<close>

text \<open>The field \<open>v\<close> of a token: a number or a text.\<close>

datatype tok_value = NumValue jsnum | TextValue jstr

fun tok_v :: "gtok \<Rightarrow> tok_value" where
  "tok_v (TNum v k l s) = NumValue v" | "tok_v (TId x l) = TextValue x" | "tok_v (TPunct x l) = TextValue x"
| "tok_v (TEof l) = TextValue (js ''<EOF>'')"

text \<open>
  Nodes carry the line the code gives them.  A type is a name, an array \<open>{arr, len}\<close>, or, in a field of a structure, the
  definition of a structure in place (\<open>{structDef, name}\<close>).
\<close>

datatype gexpr =
    GNum jsnum num_kind nat
  | GBool bool nat
  | GCtor gtype "gexpr list" nat
  | GCall jstr "gexpr list" nat
  | GId jstr nat
  | GIndex gexpr gexpr nat
  | GLength gexpr nat
  | GField gexpr jstr nat
  | GPost jstr gexpr nat
  | GPre jstr gexpr nat
  | GUn jstr gexpr nat
  | GBin jstr gexpr gexpr nat
  | GCond gexpr gexpr gexpr nat
  | GAssign jstr gexpr gexpr nat
  | GComma gexpr gexpr nat
and gtype = TyName jstr | TyArr gtype gexpr | TyDef gstruct
and gstruct = GStruct jstr "(jstr \<times> gtype) list" nat

record gquals =
  q_flags :: "jstr list"
  q_precision :: "jstr option"
  q_layout :: "(jstr \<rightharpoonup> jsnum option) option"
  q_any :: bool

datatype gdecl = DStruct gstruct | DVar gquals gtype jstr "gexpr option" nat

datatype gstmt =
    SEmpty nat
  | SBlock "gstmt list" nat
  | SIf gexpr gstmt "gstmt option" nat
  | SFor "gstmt option" "gexpr option" "gexpr option" gstmt nat
  | SWhile "gdecl list + gexpr" gstmt nat
  | SDoWhile gexpr gstmt nat
  | SReturn "gexpr option" nat
  | SBreak nat
  | SContinue nat
  | SDiscard nat
  | SSwitch gexpr "(gexpr option \<times> gstmt list) list" nat
  | SDecl "gdecl list" nat
  | SExpr gexpr nat

record gparam =
  a_name :: "jstr option"
  a_type :: gtype
  a_dir :: jstr
  a_line :: nat

datatype gtop = TopDecl gdecl | TopPrecision tok_value gtype nat | TopFunc gtype jstr "gparam list" "gstmt option" nat

fun struct_name :: "gstruct \<Rightarrow> jstr" where
  "struct_name (GStruct x fs l) = x"

text \<open>\<open>typeName\<close>.\<close>

fun type_name :: "gtype \<Rightarrow> gtype" where
  "type_name (TyDef d) = TyName (struct_name d)"
| "type_name t = t"

section \<open>Words\<close>

definition basic_types :: "jstr list" where
  "basic_types = map js [''void'', ''bool'', ''int'', ''uint'', ''float'']"

text \<open>The words that \<open>TYPE_RE\<close> matches.\<close>

definition regex_types :: "jstr list" where
  "regex_types =
     [p @ js ''vec'' @ [d]. p \<leftarrow> [[], js ''i'', js ''b'', js ''u''], d \<leftarrow> js ''234''] @
     [js ''mat'' @ [d]. d \<leftarrow> js ''234''] @
     [js ''mat'' @ [d] @ js ''x'' @ [e]. d \<leftarrow> js ''234'', e \<leftarrow> js ''234''] @
     [p @ js ''sampler'' @ js k. p \<leftarrow> [[], js ''i'', js ''u''],
        k \<leftarrow> [''2D'', ''3D'', ''Cube'', ''2DArray'', ''2DShadow'', ''CubeShadow'', ''2DArrayShadow'']]"

definition keywords_glsl :: "jstr list" where
  "keywords_glsl = map js [''break'', ''continue'', ''do'', ''for'', ''while'', ''switch'', ''case'', ''default'', ''if'', ''else'',
     ''discard'', ''return'', ''struct'', ''const'', ''in'', ''out'', ''inout'', ''attribute'', ''varying'', ''uniform'', ''layout'',
     ''centroid'', ''flat'', ''smooth'', ''invariant'', ''highp'', ''mediump'', ''lowp'', ''precision'', ''true'', ''false'']"

definition reserved_words :: "jstr list" where
  "reserved_words = map js [''asm'', ''class'', ''union'', ''enum'', ''typedef'', ''template'', ''this'', ''packed'', ''goto'', ''inline'',
     ''noinline'', ''volatile'', ''public'', ''static'', ''extern'', ''external'', ''interface'', ''long'', ''short'', ''double'', ''half'',
     ''fixed'', ''unsigned'', ''superp'', ''input'', ''output'', ''hvec2'', ''hvec3'', ''hvec4'', ''dvec2'', ''dvec3'', ''dvec4'', ''fvec2'',
     ''fvec3'', ''fvec4'', ''sampler1D'', ''sampler1DShadow'', ''sampler2DRect'', ''sampler2DRectShadow'', ''sizeof'', ''cast'',
     ''namespace'', ''using'']"

section \<open>The state of the parser\<close>

text \<open>The tokens from \<open>p\<close> on, \<open>p\<close> itself, the structures by name, and whether the version is 300.\<close>

record parse_state =
  p_rest :: "gtok list"
  p_pos :: nat
  p_structs :: "jstr \<rightharpoonup> gstruct"
  p_es3 :: bool

type_synonym 'a gp = "parse_state \<Rightarrow> ('a \<times> parse_state) gres"

definition pret :: "'a \<Rightarrow> 'a gp" where
  "pret x = (\<lambda>w. Inr (x, w))"

definition pbind :: "'a gp \<Rightarrow> ('a \<Rightarrow> 'b gp) \<Rightarrow> 'b gp" where
  "pbind m f = (\<lambda>w. case m w of Inl e \<Rightarrow> Inl e | Inr (x, w1) \<Rightarrow> f x w1)"

abbreviation pthen :: "'a gp \<Rightarrow> 'b gp \<Rightarrow> 'b gp" where
  "pthen m k \<equiv> pbind m (\<lambda>_. k)"

text \<open>\<open>peek(o)\<close>, used at once, so that a position after the last token is the \<open>TypeError\<close>; \<open>p++\<close>.\<close>

definition peek_at :: "nat \<Rightarrow> gtok gp" where
  "peek_at k = (\<lambda>w. case nth_opt (p_rest w) k of None \<Rightarrow> Inl ReadOfUndefined | Some t \<Rightarrow> Inr (t, w))"

abbreviation peek_tok :: "gtok gp" where
  "peek_tok \<equiv> peek_at 0"

definition skip_tok :: "unit gp" where
  "skip_tok = (\<lambda>w. Inr ((), w\<lparr>p_rest := tl (p_rest w), p_pos := Suc (p_pos w)\<rparr>))"

definition syntax_err :: "gtok \<Rightarrow> jstr \<Rightarrow> 'a gp" where
  "syntax_err t msg = (\<lambda>w. Inl (GlslError (tok_line t)
     (case t of TNum v k l s \<Rightarrow> s | TId x l \<Rightarrow> x | TPunct x l \<Rightarrow> x | TEof l \<Rightarrow> js ''<EOF>'') msg))"

definition is_punct :: "string \<Rightarrow> gtok \<Rightarrow> bool" where
  "is_punct v t = (case t of TPunct x l \<Rightarrow> x = js v | _ \<Rightarrow> False)"

definition is_word :: "string \<Rightarrow> gtok \<Rightarrow> bool" where
  "is_word v t = (case t of TId x l \<Rightarrow> x = js v | _ \<Rightarrow> False)"

definition is_name_tok :: "gtok \<Rightarrow> bool" where
  "is_name_tok t = (case t of TId x l \<Rightarrow> True | _ \<Rightarrow> False)"

definition is_eof :: "gtok \<Rightarrow> bool" where
  "is_eof t = (case t of TEof l \<Rightarrow> True | _ \<Rightarrow> False)"

text \<open>\<open>isP\<close>, \<open>isId\<close>, \<open>eatP\<close>, \<open>expectP\<close>.\<close>

definition at_p :: "string \<Rightarrow> bool gp" where
  "at_p v = pbind peek_tok (\<lambda>t. pret (is_punct v t))"

definition at_id :: "string \<Rightarrow> bool gp" where
  "at_id v = pbind peek_tok (\<lambda>t. pret (is_word v t))"

definition eat_p :: "string \<Rightarrow> bool gp" where
  "eat_p v = pbind peek_tok (\<lambda>t. if is_punct v t then pthen skip_tok (pret True) else pret False)"

definition unexpected :: "gtok \<Rightarrow> jstr \<Rightarrow> 'a gp" where
  "unexpected t msg = syntax_err t (if is_eof t then js ''syntax error, unexpected end of file'' else msg)"

definition expect_p :: "string \<Rightarrow> unit gp" where
  "expect_p v = pbind peek_tok (\<lambda>t. if is_punct v t then skip_tok
     else unexpected t (js ''syntax error, expected '' @ [39] @ js v @ [39]))"

definition known_type :: "parse_state \<Rightarrow> jstr \<Rightarrow> bool" where
  "known_type w x = (x \<in> set basic_types \<or> x \<in> set regex_types \<or> p_structs w x \<noteq> None)"

definition is_type_tok :: "gtok \<Rightarrow> bool gp" where
  "is_type_tok t = (\<lambda>w. Inr ((case t of TId x l \<Rightarrow> known_type w x | _ \<Rightarrow> False), w))"

definition ident_p :: "jstr gp" where
  "ident_p = pbind peek_tok (\<lambda>t. case t of
     TId x l \<Rightarrow>
       if x \<in> set keywords_glsl then syntax_err t (js ''syntax error'')
       else if x \<in> set reserved_words then syntax_err t (js ''reserved word'')
       else if prefix_of (js ''gl_'') x then syntax_err t (js ''identifiers starting with \"gl_\" are reserved'')
       else pthen skip_tok (pret x)
   | _ \<Rightarrow> syntax_err t (js ''syntax error''))"

section \<open>Loops\<close>

text \<open>A loop runs at most once for each token that is left.\<close>

definition with_fuel :: "(nat \<Rightarrow> 'a gp) \<Rightarrow> 'a gp" where
  "with_fuel f = (\<lambda>w. f (Suc (length (p_rest w))) w)"

definition out_of_fuel :: "'a gp" where
  "out_of_fuel = (\<lambda>w. Inl NoFuel)"

text \<open>\<open>do x while (eatP(','))\<close>: the list of what \<open>x\<close> gives.\<close>

fun commas_loop :: "'a gp \<Rightarrow> nat \<Rightarrow> 'a list gp" where
  "commas_loop x 0 = out_of_fuel"
| "commas_loop x (Suc n) = pbind x (\<lambda>a. pbind (eat_p '','') (\<lambda>more.
     if more then pbind (commas_loop x n) (\<lambda>as. pret (a # as)) else pret [a]))"

definition commas :: "'a gp \<Rightarrow> 'a list gp" where
  "commas x = with_fuel (commas_loop x)"

text \<open>\<open>while (!isP(v)) x\<close>: the list of what \<open>x\<close> gives.\<close>

fun until_loop :: "string \<Rightarrow> 'a gp \<Rightarrow> nat \<Rightarrow> 'a list gp" where
  "until_loop v x 0 = out_of_fuel"
| "until_loop v x (Suc n) = pbind (at_p v) (\<lambda>stop.
     if stop then pret [] else pbind x (\<lambda>a. pbind (until_loop v x n) (\<lambda>as. pret (a # as))))"

definition until_p :: "string \<Rightarrow> 'a gp \<Rightarrow> 'a list gp" where
  "until_p v x = with_fuel (until_loop v x)"

definition is_precision :: "gtok \<Rightarrow> bool" where
  "is_precision t = (is_word ''highp'' t \<or> is_word ''mediump'' t \<or> is_word ''lowp'' t)"

fun skip_precision_loop :: "nat \<Rightarrow> unit gp" where
  "skip_precision_loop 0 = out_of_fuel"
| "skip_precision_loop (Suc n) = pbind peek_tok (\<lambda>t. if is_precision t then pthen skip_tok (skip_precision_loop n) else pret ())"

definition skip_precision :: "unit gp" where
  "skip_precision = with_fuel skip_precision_loop"

section \<open>Types\<close>

record gparsers =
  r_assign :: "gexpr gp"
  r_expr :: "gexpr gp"
  r_unary :: "gexpr gp"
  r_type :: "gtype gp"
  r_stmt :: "gstmt gp"

text \<open>A dimension in brackets, \<open>[e]\<close>, after its first token was seen.\<close>

definition dimension :: "gparsers \<Rightarrow> gexpr gp" where
  "dimension r = pthen skip_tok (pbind (r_assign r) (\<lambda>e. pthen (expect_p '']'') (pret e)))"

definition struct_field :: "gparsers \<Rightarrow> gtype \<Rightarrow> (jstr \<times> gtype) gp" where
  "struct_field r ft = pbind ident_p (\<lambda>x. pbind (eat_p ''['') (\<lambda>arr.
     if arr then pbind (r_assign r) (\<lambda>e. pthen (expect_p '']'') (pret (x, TyArr ft e))) else pret (x, ft)))"

definition struct_fields :: "gparsers \<Rightarrow> (jstr \<times> gtype) list gp" where
  "struct_fields r = pthen skip_precision (pbind (r_type r) (\<lambda>ft.
     pbind (commas (struct_field r ft)) (\<lambda>fs. pthen (expect_p '';'') (pret fs))))"

definition add_struct :: "jstr option \<Rightarrow> (jstr \<times> gtype) list \<Rightarrow> nat \<Rightarrow> gtype gp" where
  "add_struct name fs line = (\<lambda>w.
     let x = (case name of Some x \<Rightarrow> x | None \<Rightarrow> js ''anon_struct_'' @ digits_of (int (p_pos w)));
         d = GStruct x fs line
     in Inr (TyDef d, w\<lparr>p_structs := (p_structs w)(x \<mapsto> d)\<rparr>))"

definition type_specifier :: "gparsers \<Rightarrow> gtype gp" where
  "type_specifier r = pbind peek_tok (\<lambda>t.
     if is_word ''struct'' t then
       pthen skip_tok (pbind peek_tok (\<lambda>t1.
       pbind (if is_name_tok t1 then pbind ident_p (\<lambda>x. pret (Some x)) else pret None) (\<lambda>name.
       pthen (expect_p ''{'') (pbind (until_p ''}'' (struct_fields r)) (\<lambda>fss.
       pthen (expect_p ''}'') (add_struct name (concat fss) (tok_line t)))))))
     else pbind (is_type_tok t) (\<lambda>ty.
       case t of TId x l \<Rightarrow> (if ty then pthen skip_tok (pret (TyName x)) else syntax_err t (js ''syntax error''))
       | _ \<Rightarrow> syntax_err t (js ''syntax error'')))"

section \<open>Expressions\<close>

definition at_void_list :: "bool gp" where
  "at_void_list = pbind (at_id ''void'') (\<lambda>v. if v then pbind (peek_at 1) (\<lambda>t. pret (is_punct '')'' t)) else pret False)"

definition arg_list :: "gparsers \<Rightarrow> gexpr list gp" where
  "arg_list r = pbind at_void_list (\<lambda>v.
     if v then pthen skip_tok (pthen skip_tok (pret []))
     else pbind (eat_p '')'') (\<lambda>empty.
       if empty then pret [] else pbind (commas (r_assign r)) (\<lambda>as. pthen (expect_p '')'') (pret as))))"

text \<open>The length in brackets after the type of an array constructor.\<close>

definition ctor_type :: "gparsers \<Rightarrow> gtype \<Rightarrow> gtype gp" where
  "ctor_type r ty = pbind (at_p ''['') (\<lambda>arr.
     if arr then pbind (dimension r) (\<lambda>e. pret (TyArr ty e)) else pret ty)"

definition primary :: "gparsers \<Rightarrow> gexpr gp" where
  "primary r = pbind peek_tok (\<lambda>t. case t of
     TNum v k l s \<Rightarrow> pthen skip_tok (pret (GNum v k l))
   | TId x l \<Rightarrow>
       if x = js ''true'' \<or> x = js ''false'' then pthen skip_tok (pret (GBool (x = js ''true'') l))
       else pbind (is_type_tok t) (\<lambda>ty.
         if ty then
           pbind (type_specifier r) (\<lambda>ts. pbind (ctor_type r (type_name ts)) (\<lambda>ct.
           pthen (expect_p ''('') (pbind (arg_list r) (\<lambda>as. pret (GCtor ct as l)))))
         else if x \<in> set keywords_glsl then syntax_err t (js ''syntax error'')
         else pthen skip_tok (pbind (eat_p ''('') (\<lambda>call.
           if call then pbind (arg_list r) (\<lambda>as. pret (GCall x as l)) else pret (GId x l))))
   | TPunct x l \<Rightarrow>
       if x = js ''('' then pthen skip_tok (pbind (r_expr r) (\<lambda>e. pthen (expect_p '')'') (pret e)))
       else syntax_err t (js ''syntax error'')
   | TEof l \<Rightarrow> syntax_err t (js ''syntax error, unexpected end of file''))"

text \<open>After a dot: a field, or the call of \<open>length\<close>.\<close>

definition member :: "gexpr \<Rightarrow> nat \<Rightarrow> gexpr gp" where
  "member e line = pbind peek_tok (\<lambda>nt. case nt of
     TId x l \<Rightarrow> pthen skip_tok (pbind (if x = js ''length'' then eat_p ''('' else pret False) (\<lambda>call.
       if call then pthen (expect_p '')'') (pret (GLength e line)) else pret (GField e x line)))
   | _ \<Rightarrow> syntax_err nt (js ''syntax error''))"

fun postfix_loop :: "gparsers \<Rightarrow> nat \<Rightarrow> gexpr \<Rightarrow> gexpr gp" where
  "postfix_loop r 0 e = out_of_fuel"
| "postfix_loop r (Suc n) e = pbind peek_tok (\<lambda>t. case t of
     TPunct x l \<Rightarrow>
       if x = js ''['' then
         pthen skip_tok (pbind (r_expr r) (\<lambda>i. pthen (expect_p '']'') (postfix_loop r n (GIndex e i l))))
       else if x = js ''.'' then pthen skip_tok (pbind (member e l) (postfix_loop r n))
       else if x = js ''++'' \<or> x = js ''--'' then pthen skip_tok (postfix_loop r n (GPost x e l))
       else pret e
   | _ \<Rightarrow> pret e)"

definition postfix :: "gparsers \<Rightarrow> gexpr gp" where
  "postfix r = pbind (primary r) (\<lambda>e. with_fuel (\<lambda>n. postfix_loop r n e))"

definition unary_ops :: "jstr list" where
  "unary_ops = map js [''+'', ''-'', ''!'', ''~'', ''++'', ''--'']"

definition unary :: "gparsers \<Rightarrow> gexpr gp" where
  "unary r = pbind peek_tok (\<lambda>t. case t of
     TPunct x l \<Rightarrow>
       if x \<in> set unary_ops then
         pthen skip_tok (pbind (r_unary r) (\<lambda>e. pret (if x = js ''++'' \<or> x = js ''--'' then GPre x e l else GUn x e l)))
       else postfix r
   | _ \<Rightarrow> postfix r)"

definition op_levels :: "jstr list list" where
  "op_levels = map (map js) [[''||''], [''^^''], [''&&''], [''|''], [''^''], [''&''], [''=='', ''!=''],
     [''<'', ''>'', ''<='', ''>=''], [''<<'', ''>>''], [''+'', ''-''], [''*'', ''/'', ''%'']]"

text \<open>The loop of \<open>binary\<close> over the operators of a level.\<close>

fun binary_loop :: "gexpr gp \<Rightarrow> jstr list \<Rightarrow> nat \<Rightarrow> gexpr \<Rightarrow> gexpr gp" where
  "binary_loop operand ops 0 l = out_of_fuel"
| "binary_loop operand ops (Suc n) l = pbind peek_tok (\<lambda>t. case t of
     TPunct x line \<Rightarrow>
       if x \<in> set ops then pthen skip_tok (pbind operand (\<lambda>e. binary_loop operand ops n (GBin x l e line)))
       else pret l
   | _ \<Rightarrow> pret l)"

text \<open>\<open>binary(level)\<close>, for the levels from \<open>level\<close> on.\<close>

fun binary :: "gparsers \<Rightarrow> jstr list list \<Rightarrow> gexpr gp" where
  "binary r [] = unary r"
| "binary r (ops # levels) = pbind (binary r levels) (\<lambda>l. with_fuel (\<lambda>n. binary_loop (binary r levels) ops n l))"

definition conditional :: "gparsers \<Rightarrow> gexpr gp" where
  "conditional r = pbind (binary r op_levels) (\<lambda>c. pbind peek_tok (\<lambda>t.
     if is_punct ''?'' t then
       pthen skip_tok (pbind (r_expr r) (\<lambda>a. pthen (expect_p '':'') (pbind (r_assign r) (\<lambda>b. pret (GCond c a b (tok_line t))))))
     else pret c))"

definition assign_ops :: "jstr list" where
  "assign_ops = map js [''='', ''+='', ''-='', ''*='', ''/='', ''%='', ''<<='', ''>>='', ''&='', ''|='', ''^='']"

definition assignment :: "gparsers \<Rightarrow> gexpr gp" where
  "assignment r = pbind (conditional r) (\<lambda>l. pbind peek_tok (\<lambda>t. case t of
     TPunct x line \<Rightarrow>
       if x \<in> set assign_ops then pthen skip_tok (pbind (r_assign r) (\<lambda>e. pret (GAssign x l e line))) else pret l
   | _ \<Rightarrow> pret l))"

fun comma_loop :: "gexpr gp \<Rightarrow> nat \<Rightarrow> gexpr \<Rightarrow> gexpr gp" where
  "comma_loop operand 0 e = out_of_fuel"
| "comma_loop operand (Suc n) e = pbind peek_tok (\<lambda>t.
     if is_punct '','' t then pthen skip_tok (pbind operand (\<lambda>e2. comma_loop operand n (GComma e e2 (tok_line t)))) else pret e)"

definition expression :: "gparsers \<Rightarrow> gexpr gp" where
  "expression r = pbind (assignment r) (\<lambda>e. with_fuel (\<lambda>n. comma_loop (assignment r) n e))"

section \<open>Declarations\<close>

definition plain_quals :: "jstr list" where
  "plain_quals = map js [''const'', ''uniform'', ''in'', ''out'', ''inout'', ''centroid'', ''flat'', ''smooth'', ''invariant'']"

definition no_quals :: gquals where
  "no_quals = \<lparr>q_flags = [], q_precision = None, q_layout = None, q_any = False\<rparr>"

text \<open>An entry of \<open>layout(...)\<close>: its key, as the name of a property, and its number or \<open>true\<close>.\<close>

definition layout_key :: "gtok \<Rightarrow> jstr" where
  "layout_key t = (case tok_v t of NumValue v \<Rightarrow> num_to_string v | TextValue x \<Rightarrow> x)"

definition layout_item :: "(jstr \<times> jsnum option) gp" where
  "layout_item = pbind peek_tok (\<lambda>idt. pthen skip_tok (pbind (eat_p ''='') (\<lambda>eq.
     if eq then pbind peek_tok (\<lambda>nt. case nt of
         TNum v k l s \<Rightarrow> pthen skip_tok (pret (layout_key idt, Some v))
       | _ \<Rightarrow> syntax_err nt (js ''syntax error''))
     else pret (layout_key idt, None))))"

text \<open>Setting \<open>__proto__\<close> to a number or to \<open>true\<close> changes nothing.\<close>

definition layout_map :: "(jstr \<times> jsnum option) list \<Rightarrow> jstr \<rightharpoonup> jsnum option" where
  "layout_map kvs = fold (\<lambda>(k, v) m. if k = js ''__proto__'' then m else m(k \<mapsto> v)) kvs Map.empty"

definition add_flag :: "jstr \<Rightarrow> gquals \<Rightarrow> gquals" where
  "add_flag x q = q\<lparr>q_flags := List.insert x (q_flags q), q_any := True\<rparr>"

definition illegal_word :: "jstr \<Rightarrow> jstr" where
  "illegal_word x = [39] @ x @ [39] @ js '' : Illegal use of reserved word''"

definition es3_p :: "bool gp" where
  "es3_p = (\<lambda>w. Inr (p_es3 w, w))"

fun qualifiers_loop :: "nat \<Rightarrow> gquals \<Rightarrow> gquals gp" where
  "qualifiers_loop 0 q = out_of_fuel"
| "qualifiers_loop (Suc n) q = pbind peek_tok (\<lambda>t. case t of
     TId x l \<Rightarrow>
       if x \<in> set plain_quals then pthen skip_tok (qualifiers_loop n (add_flag x q))
       else if x = js ''attribute'' \<or> x = js ''varying'' then
         pbind es3_p (\<lambda>es3. if es3 then syntax_err t (illegal_word x) else pthen skip_tok (qualifiers_loop n (add_flag x q)))
       else if is_precision t then pthen skip_tok (qualifiers_loop n (q\<lparr>q_precision := Some x, q_any := True\<rparr>))
       else if x = js ''layout'' then
         pthen skip_tok (pthen (expect_p ''('') (pbind (commas layout_item) (\<lambda>kvs. pthen (expect_p '')'')
           (qualifiers_loop n (q\<lparr>q_layout := Some (layout_map kvs), q_any := True\<rparr>)))))
       else pret q
   | _ \<Rightarrow> pret q)"

definition qualifiers :: "gquals gp" where
  "qualifiers = with_fuel (\<lambda>n. qualifiers_loop n no_quals)"

text \<open>A dimension that may follow a name.\<close>

definition dimensioned :: "gparsers \<Rightarrow> gtype \<Rightarrow> gtype gp" where
  "dimensioned r ty = pbind (at_p ''['') (\<lambda>arr. if arr then pbind (dimension r) (\<lambda>e. pret (TyArr ty e)) else pret ty)"

definition declarator :: "gparsers \<Rightarrow> gquals \<Rightarrow> gtype \<Rightarrow> gdecl gp" where
  "declarator r q ty = pbind peek_tok (\<lambda>nt. pbind ident_p (\<lambda>x. pbind (dimensioned r ty) (\<lambda>ty1.
     pbind (eat_p ''='') (\<lambda>eq. if eq then pbind (assignment r) (\<lambda>e. pret (DVar q ty1 x (Some e) (tok_line nt)))
       else pret (DVar q ty1 x None (tok_line nt))))))"

definition declarators :: "gparsers \<Rightarrow> gquals \<Rightarrow> gtype \<Rightarrow> gdecl list gp" where
  "declarators r q ty = commas (declarator r q ty)"

fun param_dir_loop :: "nat \<Rightarrow> jstr \<Rightarrow> jstr gp" where
  "param_dir_loop 0 d = out_of_fuel"
| "param_dir_loop (Suc n) d = pbind peek_tok (\<lambda>t. case t of
     TId x l \<Rightarrow>
       if x = js ''const'' then pthen skip_tok (param_dir_loop n d)
       else if x \<in> {js ''in'', js ''out'', js ''inout''} then pthen skip_tok (param_dir_loop n x)
       else if is_precision t then pthen skip_tok (param_dir_loop n d)
       else pret d
   | _ \<Rightarrow> pret d)"

definition func_param :: "gparsers \<Rightarrow> gparam gp" where
  "func_param r = pbind (with_fuel (\<lambda>n. param_dir_loop n (js ''in''))) (\<lambda>d. pbind (type_specifier r) (\<lambda>ts.
     pbind peek_tok (\<lambda>t. pbind (if is_name_tok t then pbind ident_p (\<lambda>x. pret (Some x)) else pret None) (\<lambda>name.
     pbind (dimensioned r (type_name ts)) (\<lambda>ty. pbind peek_tok (\<lambda>t2.
       pret \<lparr>a_name = name, a_type = ty, a_dir = d, a_line = tok_line t2\<rparr>))))))"

definition func_params :: "gparsers \<Rightarrow> gparam list gp" where
  "func_params r = pbind at_void_list (\<lambda>v.
     if v then pthen skip_tok (pthen skip_tok (pret []))
     else pbind (eat_p '')'') (\<lambda>empty.
       if empty then pret [] else pbind (commas (func_param r)) (\<lambda>ps. pthen (expect_p '')'') (pret ps))))"

definition struct_decls :: "gtype \<Rightarrow> gdecl list" where
  "struct_decls ts = (case ts of TyDef d \<Rightarrow> [DStruct d] | _ \<Rightarrow> [])"

definition declaration_statement :: "gparsers \<Rightarrow> gdecl list gp" where
  "declaration_statement r = pbind peek_tok (\<lambda>t0. pbind qualifiers (\<lambda>q. pbind (type_specifier r) (\<lambda>ts.
     pbind (at_p '';'') (\<lambda>done. if done then pret (struct_decls ts)
       else pbind (dimensioned r (type_name ts)) (\<lambda>ty. pbind (declarators r q ty) (\<lambda>ds. pret (struct_decls ts @ ds)))))))"

section \<open>Statements\<close>

definition block_item :: "gparsers \<Rightarrow> gstmt gp" where
  "block_item r = pbind peek_tok (\<lambda>t.
     if is_eof t then syntax_err t (js ''syntax error, unexpected end of file'') else r_stmt r)"

definition block_p :: "gparsers \<Rightarrow> gstmt gp" where
  "block_p r = pbind peek_tok (\<lambda>t. pthen (expect_p ''{'') (pbind (until_p ''}'' (block_item r)) (\<lambda>body.
     pthen skip_tok (pret (SBlock body (tok_line t))))))"

text \<open>\<open>starts_decl\<close>: a qualifier that begins a local declaration.\<close>

definition starts_decl :: "gtok \<Rightarrow> bool" where
  "starts_decl t = (is_word ''const'' t \<or> is_precision t)"

definition if_statement :: "gparsers \<Rightarrow> nat \<Rightarrow> gstmt gp" where
  "if_statement r line = pthen skip_tok (pthen (expect_p ''('') (pbind (expression r) (\<lambda>c. pthen (expect_p '')'')
     (pbind (r_stmt r) (\<lambda>a. pbind (at_id ''else'') (\<lambda>els.
        if els then pthen skip_tok (pbind (r_stmt r) (\<lambda>b. pret (SIf c a (Some b) line)))
        else pret (SIf c a None line)))))))"

definition for_init :: "gparsers \<Rightarrow> nat \<Rightarrow> gstmt option gp" where
  "for_init r line = pbind (eat_p '';'') (\<lambda>none.
     if none then pret None
     else pbind peek_tok (\<lambda>t. pbind (is_type_tok t) (\<lambda>ty.
       if ty \<or> starts_decl t then pbind (declaration_statement r) (\<lambda>d. pthen (expect_p '';'') (pret (Some (SDecl d line))))
       else pbind (expression r) (\<lambda>e. pthen (expect_p '';'') (pret (Some (SExpr e line)))))))"

definition unless_at :: "string \<Rightarrow> gparsers \<Rightarrow> gexpr option gp" where
  "unless_at v r = pbind (at_p v) (\<lambda>none. if none then pret None else pbind (expression r) (\<lambda>e. pret (Some e)))"

definition for_statement :: "gparsers \<Rightarrow> nat \<Rightarrow> gstmt gp" where
  "for_statement r line = pthen skip_tok (pthen (expect_p ''('') (pbind (for_init r line) (\<lambda>i.
     pbind (unless_at '';'' r) (\<lambda>c. pthen (expect_p '';'') (pbind (unless_at '')'' r) (\<lambda>it. pthen (expect_p '')'')
     (pbind (r_stmt r) (\<lambda>body. pret (SFor i c it body line)))))))))"

definition while_cond :: "gparsers \<Rightarrow> (gdecl list + gexpr) gp" where
  "while_cond r = pbind peek_tok (\<lambda>t. pbind (is_type_tok t) (\<lambda>ty.
     if ty then pbind (declaration_statement r) (\<lambda>d. pret (Inl d)) else pbind (expression r) (\<lambda>e. pret (Inr e))))"

definition while_statement :: "gparsers \<Rightarrow> nat \<Rightarrow> gstmt gp" where
  "while_statement r line = pthen skip_tok (pthen (expect_p ''('') (pbind (while_cond r) (\<lambda>c. pthen (expect_p '')'')
     (pbind (r_stmt r) (\<lambda>body. pret (SWhile c body line))))))"

definition do_statement :: "gparsers \<Rightarrow> nat \<Rightarrow> gstmt gp" where
  "do_statement r line = pthen skip_tok (pbind (r_stmt r) (\<lambda>body. pbind peek_tok (\<lambda>t.
     if \<not> is_word ''while'' t then syntax_err t (js ''syntax error'')
     else pthen skip_tok (pthen (expect_p ''('') (pbind (expression r) (\<lambda>c. pthen (expect_p '')'') (pthen (expect_p '';'')
       (pret (SDoWhile c body line)))))))))"

definition return_statement :: "gparsers \<Rightarrow> nat \<Rightarrow> gstmt gp" where
  "return_statement r line = pthen skip_tok (pbind (unless_at '';'' r) (\<lambda>e. pthen (expect_p '';'') (pret (SReturn e line))))"

definition add_stmt :: "(gexpr option \<times> gstmt list) list \<Rightarrow> gstmt \<Rightarrow> (gexpr option \<times> gstmt list) list" where
  "add_stmt cases s = butlast cases @ [(fst (last cases), snd (last cases) @ [s])]"

text \<open>\<open>cur\<close> of the code is the last of \<open>cases\<close>, or \<open>null\<close> before the first.\<close>

fun switch_loop :: "gparsers \<Rightarrow> nat \<Rightarrow> (gexpr option \<times> gstmt list) list \<Rightarrow> (gexpr option \<times> gstmt list) list gp" where
  "switch_loop r 0 cases = out_of_fuel"
| "switch_loop r (Suc n) cases = pbind peek_tok (\<lambda>t.
     if is_punct ''}'' t then pret cases
     else if is_word ''case'' t then
       pthen skip_tok (pbind (expression r) (\<lambda>v. pthen (expect_p '':'') (switch_loop r n (cases @ [(Some v, [])]))))
     else if is_word ''default'' t then pthen skip_tok (pthen (expect_p '':'') (switch_loop r n (cases @ [(None, [])])))
     else if cases = [] then syntax_err t (js ''syntax error'')
     else pbind (r_stmt r) (\<lambda>s. switch_loop r n (add_stmt cases s)))"

definition switch_statement :: "gparsers \<Rightarrow> gtok \<Rightarrow> gstmt gp" where
  "switch_statement r t = pbind es3_p (\<lambda>es3.
     if \<not> es3 then syntax_err t (js ''switch statements are not supported in GLSL ES 1.00'')
     else pthen skip_tok (pthen (expect_p ''('') (pbind (expression r) (\<lambda>e. pthen (expect_p '')'') (pthen (expect_p ''{'')
       (pbind (with_fuel (\<lambda>n. switch_loop r n [])) (\<lambda>cases. pthen (expect_p ''}'') (pret (SSwitch e cases (tok_line t))))))))))"

definition simple_statement :: "gstmt \<Rightarrow> gstmt gp" where
  "simple_statement s = pthen skip_tok (pthen (expect_p '';'') (pret s))"

text \<open>Whether a statement is a declaration; a type before a parenthesis is a constructor.\<close>

definition at_declaration :: "gtok \<Rightarrow> bool gp" where
  "at_declaration t = pbind (is_type_tok t) (\<lambda>ty.
     pbind (if ty then pbind (peek_at 1) (\<lambda>t1. pret (\<not> is_punct ''('' t1)) else pret False) (\<lambda>d. pret (d \<or> starts_decl t)))"

definition other_statement :: "gparsers \<Rightarrow> gtok \<Rightarrow> gstmt gp" where
  "other_statement r t = pbind (at_declaration t) (\<lambda>d.
     if d then pbind (declaration_statement r) (\<lambda>ds. pthen (expect_p '';'') (pret (SDecl ds (tok_line t))))
     else pbind (expression r) (\<lambda>e. pthen (expect_p '';'') (pret (SExpr e (tok_line t)))))"

definition statement :: "gparsers \<Rightarrow> gstmt gp" where
  "statement r = pbind peek_tok (\<lambda>t. let line = tok_line t in
     if is_punct ''{'' t then block_p r
     else if is_punct '';'' t then pthen skip_tok (pret (SEmpty line))
     else if is_word ''if'' t then if_statement r line
     else if is_word ''for'' t then for_statement r line
     else if is_word ''while'' t then while_statement r line
     else if is_word ''do'' t then do_statement r line
     else if is_word ''return'' t then return_statement r line
     else if is_word ''break'' t then simple_statement (SBreak line)
     else if is_word ''continue'' t then simple_statement (SContinue line)
     else if is_word ''discard'' t then simple_statement (SDiscard line)
     else if is_word ''switch'' t then switch_statement r t
     else other_statement r t)"

text \<open>The functions as they call each other, at most \<open>n\<close> deep.\<close>

definition parsers_over :: "gparsers \<Rightarrow> gparsers" where
  "parsers_over r = \<lparr>r_assign = assignment r, r_expr = expression r, r_unary = unary r, r_type = type_specifier r,
     r_stmt = statement r\<rparr>"

primrec parsers_at :: "nat \<Rightarrow> gparsers" where
  "parsers_at 0 = \<lparr>r_assign = out_of_fuel, r_expr = out_of_fuel, r_unary = out_of_fuel, r_type = out_of_fuel, r_stmt = out_of_fuel\<rparr>"
| "parsers_at (Suc n) = parsers_over (parsers_at n)"

section \<open>The translation unit\<close>

definition precision_decl :: "gparsers \<Rightarrow> nat \<Rightarrow> gtop list gp" where
  "precision_decl r line = pthen skip_tok (pbind peek_tok (\<lambda>t. pthen skip_tok (pbind (type_specifier r) (\<lambda>ty.
     pthen (expect_p '';'') (pret [TopPrecision (tok_v t) (type_name ty) line])))))"

definition function_decl :: "gparsers \<Rightarrow> gtype \<Rightarrow> nat \<Rightarrow> gtop gp" where
  "function_decl r ty line = pbind ident_p (\<lambda>x. pthen (expect_p ''('') (pbind (func_params r) (\<lambda>ps.
     pbind (eat_p '';'') (\<lambda>proto. if proto then pret (TopFunc ty x ps None line)
       else pbind peek_tok (\<lambda>t. if \<not> is_punct ''{'' t then syntax_err t (js ''syntax error'')
         else pbind (block_p r) (\<lambda>b. pret (TopFunc ty x ps (Some b) line)))))))"

definition top_decl :: "gparsers \<Rightarrow> gtop list gp" where
  "top_decl r = pbind peek_tok (\<lambda>t.
     if is_word ''precision'' t then precision_decl r (tok_line t)
     else pbind qualifiers (\<lambda>q. pbind (type_specifier r) (\<lambda>ts. let sd = map TopDecl (struct_decls ts) in
       pbind (eat_p '';'') (\<lambda>end1. if end1 then pret sd
       else pbind peek_tok (\<lambda>nt. pbind (if is_name_tok nt then pbind (peek_at 1) (\<lambda>t1. pret (is_punct ''('' t1)) else pret False) (\<lambda>fn.
         if fn then pbind (function_decl r (type_name ts) (tok_line nt)) (\<lambda>f. pret (sd @ [f]))
         else pbind (declarators r q (type_name ts)) (\<lambda>ds. pthen (expect_p '';'') (pret (sd @ map TopDecl ds)))))))))"

fun top_loop :: "gparsers \<Rightarrow> nat \<Rightarrow> gtop list gp" where
  "top_loop r 0 = out_of_fuel"
| "top_loop r (Suc n) = pbind peek_tok (\<lambda>t. if is_eof t then pret []
     else pbind (top_decl r) (\<lambda>ds. pbind (top_loop r n) (\<lambda>rest. pret (ds @ rest))))"

definition initial_parse :: "gtok list \<Rightarrow> int \<Rightarrow> parse_state" where
  "initial_parse ts version = \<lparr>p_rest = ts, p_pos = 0, p_structs = Map.empty, p_es3 = (version = 300)\<rparr>"

definition glsl_parse :: "gtok list \<Rightarrow> int \<Rightarrow> (gtop list \<times> (jstr \<rightharpoonup> gstruct)) gres" where
  "glsl_parse ts version = (case with_fuel (top_loop (parsers_at (Suc (length ts)))) (initial_parse ts version) of
     Inl e \<Rightarrow> Inl e | Inr (ds, w) \<Rightarrow> Inr (ds, p_structs w))"

end
