(* ===== verification/GlslParseLaws.thy ===== *)
theory GlslParseLaws
  imports GlslParse
begin

text \<open>
  The parser of the GLSL front end always comes back: each of its functions uses up tokens or fails, so that the number of
  tokens bounds the depth of the calls and the rounds of the loops.
\<close>

section \<open>What holds after a parser has run\<close>

text \<open>\<open>m\<close> does not run out of fuel, and \<open>Q\<close> holds of its result.\<close>

definition after_run :: "'a gp \<Rightarrow> parse_state \<Rightarrow> ('a \<Rightarrow> parse_state \<Rightarrow> bool) \<Rightarrow> bool" where
  "after_run m w Q = (case m w of Inl e \<Rightarrow> e \<noteq> NoFuel | Inr (x, w1) \<Rightarrow> Q x w1)"

definition left_over :: "parse_state \<Rightarrow> nat" where
  "left_over w = length (p_rest w)"

named_theorems runs

lemma after_ret [runs]: "Q x w \<Longrightarrow> after_run (pret x) w Q"
  by (simp add: after_run_def pret_def)

lemma after_bind [runs]: "after_run m w (\<lambda>x w1. after_run (f x) w1 Q) \<Longrightarrow> after_run (pbind m f) w Q"
  by (auto simp: after_run_def pbind_def split: sum.splits prod.splits)

lemma after_mono: "after_run m w P \<Longrightarrow> (\<And>x w1. P x w1 \<Longrightarrow> Q x w1) \<Longrightarrow> after_run m w Q"
  by (auto simp: after_run_def split: sum.splits prod.splits)

lemma after_err [runs]: "after_run (syntax_err t msg) w Q"
  by (simp add: after_run_def syntax_err_def)

lemma after_unexpected [runs]: "after_run (unexpected t msg) w Q"
  by (simp add: unexpected_def after_err)

lemma after_if [runs]: "(b \<Longrightarrow> after_run m w Q) \<Longrightarrow> (\<not> b \<Longrightarrow> after_run k w Q) \<Longrightarrow> after_run (if b then m else k) w Q"
  by simp

lemma after_tok [runs]:
  "(\<And>v k l s. t = TNum v k l s \<Longrightarrow> after_run (a v k l s) w Q) \<Longrightarrow> (\<And>x l. t = TId x l \<Longrightarrow> after_run (b x l) w Q) \<Longrightarrow>
   (\<And>x l. t = TPunct x l \<Longrightarrow> after_run (c x l) w Q) \<Longrightarrow> (\<And>l. t = TEof l \<Longrightarrow> after_run (d l) w Q) \<Longrightarrow>
   after_run (case t of TNum v k l s \<Rightarrow> a v k l s | TId x l \<Rightarrow> b x l | TPunct x l \<Rightarrow> c x l | TEof l \<Rightarrow> d l) w Q"
  by (cases t) auto

lemma after_peek [runs]: "(\<And>t. k < left_over w \<Longrightarrow> Q t w) \<Longrightarrow> after_run (peek_at k) w Q"
  by (auto simp: after_run_def peek_at_def nth_opt_def left_over_def)

text \<open>A token that was seen can be skipped, and then fewer are left.\<close>

lemma after_skip [runs]: "(\<And>w1. left_over w1 = left_over w - 1 \<Longrightarrow> Q () w1) \<Longrightarrow> after_run skip_tok w Q"
  by (simp add: after_run_def skip_tok_def left_over_def)

lemma after_ret_bool: "Q True w \<Longrightarrow> Q False w \<Longrightarrow> after_run (pret b) w Q"
  by (cases b) (auto intro: after_ret)

lemma after_at [runs]:
  "(0 < left_over w \<Longrightarrow> Q True w) \<Longrightarrow> (0 < left_over w \<Longrightarrow> Q False w) \<Longrightarrow> after_run (at_p v) w Q"
  "(0 < left_over w \<Longrightarrow> Q True w) \<Longrightarrow> (0 < left_over w \<Longrightarrow> Q False w) \<Longrightarrow> after_run (at_id v) w Q"
  unfolding at_p_def at_id_def by (auto intro!: after_bind after_peek after_ret_bool)

lemma after_eat [runs]:
  "(\<And>w1. left_over w1 < left_over w \<Longrightarrow> Q True w1) \<Longrightarrow> Q False w \<Longrightarrow> after_run (eat_p v) w Q"
  unfolding eat_p_def by (intro runs) auto

lemma after_expect [runs]: "(\<And>w1. left_over w1 < left_over w \<Longrightarrow> Q () w1) \<Longrightarrow> after_run (expect_p v) w Q"
  unfolding expect_p_def by (intro runs) auto

lemma after_ident [runs]: "(\<And>x w1. left_over w1 < left_over w \<Longrightarrow> Q x w1) \<Longrightarrow> after_run ident_p w Q"
  unfolding ident_p_def by (intro runs) auto

lemma after_is_type [runs]: "(\<And>b. Q b w) \<Longrightarrow> after_run (is_type_tok t) w Q"
  by (simp add: after_run_def is_type_tok_def)

lemma after_es3 [runs]: "(\<And>b. Q b w) \<Longrightarrow> after_run es3_p w Q"
  by (simp add: after_run_def es3_p_def)

lemma after_add_struct [runs]: "(\<And>d w1. left_over w1 = left_over w \<Longrightarrow> Q d w1) \<Longrightarrow> after_run (add_struct name fs line) w Q"
  by (simp add: after_run_def add_struct_def Let_def left_over_def)

lemma after_with_fuel [runs]: "after_run (f (Suc (left_over w))) w Q \<Longrightarrow> after_run (with_fuel f) w Q"
  by (simp add: after_run_def with_fuel_def left_over_def)

section \<open>Loops\<close>

lemma commas_loop_runs:
  assumes x: "\<And>w1. left_over w1 \<le> k \<Longrightarrow> after_run x w1 (\<lambda>_ w2. left_over w2 < left_over w1)"
  shows "left_over w \<le> k \<Longrightarrow> left_over w < n \<Longrightarrow> after_run (commas_loop x n) w (\<lambda>_ w1. left_over w1 < left_over w)"
proof (induction n arbitrary: w)
  case (Suc n)
  have more: "after_run (commas_loop x n) w2 (\<lambda>_ w3. left_over w3 < left_over w)" if "left_over w2 < left_over w" for w2
    using Suc.prems that by (intro after_mono [OF Suc.IH]) auto
  show ?case unfolding commas_loop.simps
    by (intro runs after_mono [OF x] Suc.prems) (auto intro!: runs after_mono [OF more])
qed simp

lemma after_commas [runs]:
  assumes "\<And>w1. left_over w1 \<le> left_over w \<Longrightarrow> after_run x w1 (\<lambda>_ w2. left_over w2 < left_over w1)"
    and "\<And>xs w1. left_over w1 < left_over w \<Longrightarrow> Q xs w1"
  shows "after_run (commas x) w Q"
  unfolding commas_def using assms by (auto intro!: after_with_fuel after_mono [OF commas_loop_runs [of "left_over w" x w]])

lemma until_loop_runs:
  assumes x: "\<And>w1. left_over w1 \<le> k \<Longrightarrow> after_run x w1 (\<lambda>_ w2. left_over w2 < left_over w1)"
  shows "left_over w \<le> k \<Longrightarrow> left_over w < n \<Longrightarrow> after_run (until_loop v x n) w (\<lambda>_ w1. left_over w1 \<le> left_over w)"
proof (induction n arbitrary: w)
  case (Suc n)
  have more: "after_run (until_loop v x n) w2 (\<lambda>_ w3. left_over w3 \<le> left_over w)" if "left_over w2 < left_over w" for w2
    using Suc.prems that by (intro after_mono [OF Suc.IH]) auto
  show ?case unfolding until_loop.simps
    by (intro runs after_mono [OF x] Suc.prems) (auto intro!: runs after_mono [OF more])
qed simp

lemma after_until [runs]:
  assumes "\<And>w1. left_over w1 \<le> left_over w \<Longrightarrow> after_run x w1 (\<lambda>_ w2. left_over w2 < left_over w1)"
    and "\<And>xs w1. left_over w1 \<le> left_over w \<Longrightarrow> Q xs w1"
  shows "after_run (until_p v x) w Q"
  unfolding until_p_def using assms by (auto intro!: after_with_fuel after_mono [OF until_loop_runs [of "left_over w" x w]])

lemma skip_precision_runs: "left_over w < n \<Longrightarrow> after_run (skip_precision_loop n) w (\<lambda>_ w1. left_over w1 \<le> left_over w)"
proof (induction n arbitrary: w)
  case (Suc n)
  have "after_run (skip_precision_loop n) w2 (\<lambda>_ w3. left_over w3 \<le> left_over w)" if "left_over w2 < left_over w" for w2
    using Suc.prems that by (intro after_mono [OF Suc.IH]) auto
  then show ?case unfolding skip_precision_loop.simps by (intro runs) auto
qed simp

lemma after_skip_precision [runs]: "(\<And>w1. left_over w1 \<le> left_over w \<Longrightarrow> Q () w1) \<Longrightarrow> after_run skip_precision w Q"
  unfolding skip_precision_def by (auto intro!: after_with_fuel after_mono [OF skip_precision_runs])

section \<open>Types and expressions\<close>

text \<open>The functions that are called back come back, when fewer than \<open>n\<close> tokens are left.\<close>

definition eats :: "nat \<Rightarrow> 'a gp \<Rightarrow> bool" where
  "eats n m = (\<forall>w. left_over w < n \<longrightarrow> after_run m w (\<lambda>_ w1. left_over w1 < left_over w))"

definition back_ok :: "nat \<Rightarrow> gparsers \<Rightarrow> bool" where
  "back_ok n r = (eats n (r_assign r) \<and> eats n (r_expr r) \<and> eats n (r_unary r) \<and> eats n (r_type r) \<and> eats n (r_stmt r))"

lemma eatsD: "eats n m \<Longrightarrow> left_over w < n \<Longrightarrow> (\<And>x w1. left_over w1 < left_over w \<Longrightarrow> Q x w1) \<Longrightarrow> after_run m w Q"
  unfolding eats_def by (auto intro: after_mono)

lemma eatsI: "(\<And>w. left_over w < n \<Longrightarrow> after_run m w (\<lambda>_ w1. left_over w1 < left_over w)) \<Longrightarrow> eats n m"
  by (simp add: eats_def)

named_theorems calls

lemma back_calls [calls]:
  assumes "back_ok n r" "left_over w < n" "\<And>x w1. left_over w1 < left_over w \<Longrightarrow> Q x w1"
  shows "after_run (r_assign r) w Q" "after_run (r_expr r) w Q" "after_run (r_unary r) w Q"
  using assms by (auto simp: back_ok_def intro: eatsD)

lemma back_calls2 [calls]:
  assumes "back_ok n r" "left_over w < n" 
  shows "(\<And>x w1. left_over w1 < left_over w \<Longrightarrow> Q x w1) \<Longrightarrow> after_run (r_type r) w Q"
    "(\<And>x w1. left_over w1 < left_over w \<Longrightarrow> P x w1) \<Longrightarrow> after_run (r_stmt r) w P"
  using assms by (auto simp: back_ok_def intro: eatsD)

lemma after_dimension [calls]:
  "back_ok n r \<Longrightarrow> 0 < left_over w \<Longrightarrow> left_over w \<le> n \<Longrightarrow> (\<And>x w1. left_over w1 < left_over w \<Longrightarrow> Q x w1) \<Longrightarrow> after_run (dimension r) w Q"
  unfolding dimension_def by (intro runs calls [of n]) auto

lemma after_struct_fields [calls]:
  "back_ok n r \<Longrightarrow> left_over w < n \<Longrightarrow> (\<And>x w1. left_over w1 < left_over w \<Longrightarrow> Q x w1) \<Longrightarrow> after_run (struct_fields r) w Q"
  unfolding struct_fields_def struct_field_def by (intro runs calls [of n]) auto

lemma after_type [calls]:
  "back_ok n r \<Longrightarrow> left_over w \<le> n \<Longrightarrow> (\<And>x w1. left_over w1 < left_over w \<Longrightarrow> Q x w1) \<Longrightarrow> after_run (type_specifier r) w Q"
  unfolding type_specifier_def by (intro runs calls [of n]) auto

lemma after_void_list [runs]:
  "(1 < left_over w \<Longrightarrow> Q True w) \<Longrightarrow> Q False w \<Longrightarrow> after_run at_void_list w Q"
  unfolding at_void_list_def by (intro after_bind after_at after_if after_peek) (auto intro: after_ret after_ret_bool)

lemma after_args [calls]:
  "back_ok n r \<Longrightarrow> left_over w < n \<Longrightarrow> (\<And>x w1. left_over w1 < left_over w \<Longrightarrow> Q x w1) \<Longrightarrow> after_run (arg_list r) w Q"
  unfolding arg_list_def by (intro runs calls [of n]) auto

lemma after_ctor_type [calls]:
  "back_ok n r \<Longrightarrow> left_over w \<le> n \<Longrightarrow> (\<And>x w1. left_over w1 \<le> left_over w \<Longrightarrow> Q x w1) \<Longrightarrow> after_run (ctor_type r ty) w Q"
  unfolding ctor_type_def by (intro runs calls [of n]) auto

lemma after_primary [calls]:
  "back_ok n r \<Longrightarrow> left_over w \<le> n \<Longrightarrow> (\<And>x w1. left_over w1 < left_over w \<Longrightarrow> Q x w1) \<Longrightarrow> after_run (primary r) w Q"
  unfolding primary_def by (intro runs calls [of n]) auto

lemma after_member [runs]: "(\<And>x w1. left_over w1 < left_over w \<Longrightarrow> Q x w1) \<Longrightarrow> after_run (member e line) w Q"
  unfolding member_def by (intro runs) auto

lemma postfix_loop_runs:
  assumes r: "back_ok n r"
  shows "left_over w \<le> n \<Longrightarrow> left_over w < k \<Longrightarrow> after_run (postfix_loop r k e) w (\<lambda>_ w1. left_over w1 \<le> left_over w)"
proof (induction k arbitrary: w e)
  case (Suc k)
  have more: "after_run (postfix_loop r k e1) w2 (\<lambda>_ w3. left_over w3 \<le> left_over w)" if "left_over w2 < left_over w" for w2 e1
    using Suc.prems that by (intro after_mono [OF Suc.IH]) auto
  show ?case unfolding postfix_loop.simps
    by (intro runs calls [OF r] more) (use Suc.prems in auto)
qed simp

lemma after_postfix [calls]:
  assumes "back_ok n r" "left_over w \<le> n" "\<And>x w1. left_over w1 < left_over w \<Longrightarrow> Q x w1"
  shows "after_run (postfix r) w Q"
  unfolding postfix_def
  by (intro runs calls [OF assms(1)] after_mono [OF postfix_loop_runs [OF assms(1)]]) (use assms in auto)

lemma after_unary [calls]:
  "back_ok n r \<Longrightarrow> left_over w \<le> n \<Longrightarrow> (\<And>x w1. left_over w1 < left_over w \<Longrightarrow> Q x w1) \<Longrightarrow> after_run (unary r) w Q"
  unfolding unary_def by (intro runs calls [of n]) auto

lemma binary_loop_runs:
  assumes x: "\<And>w1. left_over w1 \<le> n \<Longrightarrow> after_run operand w1 (\<lambda>_ w2. left_over w2 < left_over w1)"
  shows "left_over w \<le> n \<Longrightarrow> left_over w < k \<Longrightarrow> after_run (binary_loop operand ops k e) w (\<lambda>_ w1. left_over w1 \<le> left_over w)"
proof (induction k arbitrary: w e)
  case (Suc k)
  have more: "after_run (binary_loop operand ops k e1) w2 (\<lambda>_ w3. left_over w3 \<le> left_over w)" if "left_over w2 < left_over w" for w2 e1
    using Suc.prems that by (intro after_mono [OF Suc.IH]) auto
  show ?case unfolding binary_loop.simps
    by (intro runs after_mono [OF x] more) (use Suc.prems in auto)
qed simp

lemma binary_runs:
  "back_ok n r \<Longrightarrow> left_over w \<le> n \<Longrightarrow> after_run (binary r levels) w (\<lambda>_ w1. left_over w1 < left_over w)"
proof (induction levels arbitrary: w)
  case Nil
  then show ?case unfolding binary.simps by (intro calls [of n]) auto
next
  case (Cons ops levels)
  note x = Cons.IH [OF Cons.prems(1)]
  show ?case unfolding binary.simps
    by (intro runs after_mono [OF x] after_mono [OF binary_loop_runs [OF x, of n]]) (use Cons.prems in auto)
qed

lemma after_binary [calls]:
  "back_ok n r \<Longrightarrow> left_over w \<le> n \<Longrightarrow> (\<And>x w1. left_over w1 < left_over w \<Longrightarrow> Q x w1) \<Longrightarrow> after_run (binary r levels) w Q"
  by (rule after_mono [OF binary_runs]) auto

lemma after_conditional [calls]:
  "back_ok n r \<Longrightarrow> left_over w \<le> n \<Longrightarrow> (\<And>x w1. left_over w1 < left_over w \<Longrightarrow> Q x w1) \<Longrightarrow> after_run (conditional r) w Q"
  unfolding conditional_def by (intro runs calls [of n]) auto

lemma after_assignment [calls]:
  "back_ok n r \<Longrightarrow> left_over w \<le> n \<Longrightarrow> (\<And>x w1. left_over w1 < left_over w \<Longrightarrow> Q x w1) \<Longrightarrow> after_run (assignment r) w Q"
  unfolding assignment_def by (intro runs calls [of n]) auto

lemma comma_loop_runs:
  assumes r: "back_ok n r"
  shows "left_over w \<le> n \<Longrightarrow> left_over w < k \<Longrightarrow> after_run (comma_loop (assignment r) k e) w (\<lambda>_ w1. left_over w1 \<le> left_over w)"
proof (induction k arbitrary: w e)
  case (Suc k)
  have more: "after_run (comma_loop (assignment r) k e1) w2 (\<lambda>_ w3. left_over w3 \<le> left_over w)" if "left_over w2 < left_over w" for w2 e1
    using Suc.prems that by (intro after_mono [OF Suc.IH]) auto
  show ?case unfolding comma_loop.simps
    by (intro runs calls [OF r] more) (use Suc.prems in auto)
qed simp

lemma after_expression [calls]:
  assumes "back_ok n r" "left_over w \<le> n" "\<And>x w1. left_over w1 < left_over w \<Longrightarrow> Q x w1"
  shows "after_run (expression r) w Q"
  unfolding expression_def
  by (intro runs calls [OF assms(1)] after_mono [OF comma_loop_runs [OF assms(1)]]) (use assms in auto)

section \<open>Declarations and statements\<close>

lemma after_layout_item [runs]: "(\<And>x w1. left_over w1 < left_over w \<Longrightarrow> Q x w1) \<Longrightarrow> after_run layout_item w Q"
  unfolding layout_item_def by (intro runs) auto

lemma qualifiers_loop_runs: "left_over w < k \<Longrightarrow> after_run (qualifiers_loop k q) w (\<lambda>_ w1. left_over w1 \<le> left_over w)"
proof (induction k arbitrary: w q)
  case (Suc k)
  have more: "after_run (qualifiers_loop k q1) w2 (\<lambda>_ w3. left_over w3 \<le> left_over w)" if "left_over w2 < left_over w" for w2 q1
    using Suc.prems that by (intro after_mono [OF Suc.IH]) auto
  show ?case unfolding qualifiers_loop.simps by (intro runs more) auto
qed simp

lemma after_qualifiers [runs]: "(\<And>x w1. left_over w1 \<le> left_over w \<Longrightarrow> Q x w1) \<Longrightarrow> after_run qualifiers w Q"
  unfolding qualifiers_def by (intro runs after_mono [OF qualifiers_loop_runs]) auto

lemma param_dir_loop_runs: "left_over w < k \<Longrightarrow> after_run (param_dir_loop k d) w (\<lambda>_ w1. left_over w1 \<le> left_over w)"
proof (induction k arbitrary: w d)
  case (Suc k)
  have more: "after_run (param_dir_loop k d1) w2 (\<lambda>_ w3. left_over w3 \<le> left_over w)" if "left_over w2 < left_over w" for w2 d1
    using Suc.prems that by (intro after_mono [OF Suc.IH]) auto
  show ?case unfolding param_dir_loop.simps by (intro runs more) auto
qed simp

lemma after_param_dir [runs]:
  "(\<And>x w1. left_over w1 \<le> left_over w \<Longrightarrow> Q x w1) \<Longrightarrow> after_run (with_fuel (\<lambda>n. param_dir_loop n d)) w Q"
  by (intro after_with_fuel after_mono [OF param_dir_loop_runs]) auto

lemma after_dimensioned [calls]:
  "back_ok n r \<Longrightarrow> left_over w \<le> n \<Longrightarrow> (\<And>x w1. left_over w1 \<le> left_over w \<Longrightarrow> Q x w1) \<Longrightarrow> after_run (dimensioned r ty) w Q"
  unfolding dimensioned_def by (intro runs calls [of n]) auto

lemma after_declarator [calls]:
  "back_ok n r \<Longrightarrow> left_over w \<le> n \<Longrightarrow> (\<And>x w1. left_over w1 < left_over w \<Longrightarrow> Q x w1) \<Longrightarrow> after_run (declarator r q ty) w Q"
  unfolding declarator_def by (intro runs calls [of n]) auto

lemma after_declarators [calls]:
  "back_ok n r \<Longrightarrow> left_over w \<le> n \<Longrightarrow> (\<And>x w1. left_over w1 < left_over w \<Longrightarrow> Q x w1) \<Longrightarrow> after_run (declarators r q ty) w Q"
  unfolding declarators_def by (intro runs calls [of n]) auto

lemma after_param [calls]:
  "back_ok n r \<Longrightarrow> left_over w \<le> n \<Longrightarrow> (\<And>x w1. left_over w1 < left_over w \<Longrightarrow> Q x w1) \<Longrightarrow> after_run (func_param r) w Q"
  unfolding func_param_def by (intro runs calls [of n]) auto

lemma after_params [calls]:
  "back_ok n r \<Longrightarrow> left_over w \<le> n \<Longrightarrow> (\<And>x w1. left_over w1 < left_over w \<Longrightarrow> Q x w1) \<Longrightarrow> after_run (func_params r) w Q"
  unfolding func_params_def by (intro runs calls [of n]) auto

lemma after_declaration [calls]:
  "back_ok n r \<Longrightarrow> left_over w \<le> n \<Longrightarrow> (\<And>x w1. left_over w1 < left_over w \<Longrightarrow> Q x w1) \<Longrightarrow> after_run (declaration_statement r) w Q"
  unfolding declaration_statement_def by (intro runs calls [of n]) auto

lemma after_block_item [calls]:
  "back_ok n r \<Longrightarrow> left_over w < n \<Longrightarrow> (\<And>x w1. left_over w1 < left_over w \<Longrightarrow> Q x w1) \<Longrightarrow> after_run (block_item r) w Q"
  unfolding block_item_def by (intro runs calls [of n]) auto

lemma after_block [calls]:
  "back_ok n r \<Longrightarrow> left_over w \<le> n \<Longrightarrow> (\<And>x w1. left_over w1 < left_over w \<Longrightarrow> Q x w1) \<Longrightarrow> after_run (block_p r) w Q"
  unfolding block_p_def by (intro runs calls [of n]) auto

lemma after_if_statement [calls]:
  "back_ok n r \<Longrightarrow> left_over w \<le> n \<Longrightarrow> 0 < left_over w \<Longrightarrow> (\<And>x w1. left_over w1 < left_over w \<Longrightarrow> Q x w1) \<Longrightarrow> after_run (if_statement r line) w Q"
  unfolding if_statement_def by (intro runs calls [of n]) auto

lemma after_for_init [calls]:
  "back_ok n r \<Longrightarrow> left_over w \<le> n \<Longrightarrow> (\<And>x w1. left_over w1 < left_over w \<Longrightarrow> Q x w1) \<Longrightarrow> after_run (for_init r line) w Q"
  unfolding for_init_def by (intro runs calls [of n]) auto

lemma after_unless [calls]:
  "back_ok n r \<Longrightarrow> left_over w \<le> n \<Longrightarrow> (\<And>x w1. left_over w1 \<le> left_over w \<Longrightarrow> Q x w1) \<Longrightarrow> after_run (unless_at v r) w Q"
  unfolding unless_at_def by (intro runs calls [of n]) auto

lemma after_for_statement [calls]:
  "back_ok n r \<Longrightarrow> left_over w \<le> n \<Longrightarrow> 0 < left_over w \<Longrightarrow> (\<And>x w1. left_over w1 < left_over w \<Longrightarrow> Q x w1) \<Longrightarrow> after_run (for_statement r line) w Q"
  unfolding for_statement_def by (intro runs calls [of n]) auto

lemma after_while_cond [calls]:
  "back_ok n r \<Longrightarrow> left_over w \<le> n \<Longrightarrow> (\<And>x w1. left_over w1 < left_over w \<Longrightarrow> Q x w1) \<Longrightarrow> after_run (while_cond r) w Q"
  unfolding while_cond_def by (intro runs calls [of n]) auto

lemma after_while [calls]:
  "back_ok n r \<Longrightarrow> left_over w \<le> n \<Longrightarrow> 0 < left_over w \<Longrightarrow> (\<And>x w1. left_over w1 < left_over w \<Longrightarrow> Q x w1) \<Longrightarrow> after_run (while_statement r line) w Q"
  unfolding while_statement_def by (intro runs calls [of n]) auto

lemma after_do [calls]:
  "back_ok n r \<Longrightarrow> left_over w \<le> n \<Longrightarrow> 0 < left_over w \<Longrightarrow> (\<And>x w1. left_over w1 < left_over w \<Longrightarrow> Q x w1) \<Longrightarrow> after_run (do_statement r line) w Q"
  unfolding do_statement_def by (intro runs calls [of n]) auto

lemma after_return [calls]:
  "back_ok n r \<Longrightarrow> left_over w \<le> n \<Longrightarrow> 0 < left_over w \<Longrightarrow> (\<And>x w1. left_over w1 < left_over w \<Longrightarrow> Q x w1) \<Longrightarrow> after_run (return_statement r line) w Q"
  unfolding return_statement_def by (intro runs calls [of n]) auto

lemma switch_loop_runs:
  assumes r: "back_ok n r"
  shows "left_over w < n \<Longrightarrow> left_over w < k \<Longrightarrow> after_run (switch_loop r k cases) w (\<lambda>_ w1. left_over w1 \<le> left_over w)"
proof (induction k arbitrary: w cases)
  case (Suc k)
  have more: "after_run (switch_loop r k cs) w2 (\<lambda>_ w3. left_over w3 \<le> left_over w)" if "left_over w2 < left_over w" for w2 cs
    using Suc.prems that by (intro after_mono [OF Suc.IH]) auto
  show ?case unfolding switch_loop.simps
    by (intro runs calls [OF r] more) (use Suc.prems in auto)
qed simp

lemma after_switch [calls]:
  assumes "back_ok n r" "0 < left_over w" "left_over w \<le> n" "\<And>x w1. left_over w1 < left_over w \<Longrightarrow> Q x w1"
  shows "after_run (switch_statement r t) w Q"
  unfolding switch_statement_def
  by (intro runs calls [OF assms(1)] after_mono [OF switch_loop_runs [OF assms(1)]]) (use assms in auto)

lemma after_simple [runs]:
  "0 < left_over w \<Longrightarrow> (\<And>x w1. left_over w1 < left_over w \<Longrightarrow> Q x w1) \<Longrightarrow> after_run (simple_statement s) w Q"
  unfolding simple_statement_def by (intro runs) auto

lemma after_at_declaration [runs]:
  "Q True w \<Longrightarrow> Q False w \<Longrightarrow> after_run (at_declaration t) w Q"
  unfolding at_declaration_def by (intro after_bind after_is_type after_if after_peek) (auto intro: after_ret after_ret_bool)

lemma after_other [calls]:
  "back_ok n r \<Longrightarrow> left_over w \<le> n \<Longrightarrow> (\<And>x w1. left_over w1 < left_over w \<Longrightarrow> Q x w1) \<Longrightarrow> after_run (other_statement r t) w Q"
  unfolding other_statement_def by (intro runs calls [of n]) auto

lemma after_statement [calls]:
  "back_ok n r \<Longrightarrow> left_over w \<le> n \<Longrightarrow> (\<And>x w1. left_over w1 < left_over w \<Longrightarrow> Q x w1) \<Longrightarrow> after_run (statement r) w Q"
  unfolding statement_def Let_def by (intro runs calls [of n]) auto

lemma back_ok_parsers: "back_ok n (parsers_at n)"
proof (induction n)
  case 0
  then show ?case by (simp add: back_ok_def eats_def)
next
  case (Suc n)
  have "eats (Suc n) (assignment (parsers_at n))" "eats (Suc n) (expression (parsers_at n))" "eats (Suc n) (unary (parsers_at n))"
    "eats (Suc n) (type_specifier (parsers_at n))" "eats (Suc n) (statement (parsers_at n))"
    by (intro eatsI calls [OF Suc]; simp)+
  then show ?case by (simp add: back_ok_def parsers_over_def)
qed

section \<open>The translation unit\<close>

lemma after_precision [calls]:
  "back_ok n r \<Longrightarrow> left_over w \<le> n \<Longrightarrow> 0 < left_over w \<Longrightarrow> (\<And>x w1. left_over w1 < left_over w \<Longrightarrow> Q x w1) \<Longrightarrow> after_run (precision_decl r line) w Q"
  unfolding precision_decl_def by (intro runs calls [of n]) auto

lemma after_function [calls]:
  "back_ok n r \<Longrightarrow> left_over w \<le> n \<Longrightarrow> (\<And>x w1. left_over w1 < left_over w \<Longrightarrow> Q x w1) \<Longrightarrow> after_run (function_decl r ty line) w Q"
  unfolding function_decl_def by (intro runs calls [of n]) auto

lemma after_top_decl [calls]:
  "back_ok n r \<Longrightarrow> left_over w \<le> n \<Longrightarrow> (\<And>x w1. left_over w1 < left_over w \<Longrightarrow> Q x w1) \<Longrightarrow> after_run (top_decl r) w Q"
  unfolding top_decl_def Let_def by (intro runs calls [of n]) auto

lemma top_loop_runs:
  assumes r: "back_ok n r"
  shows "left_over w \<le> n \<Longrightarrow> left_over w < k \<Longrightarrow> after_run (top_loop r k) w (\<lambda>_ w1. True)"
proof (induction k arbitrary: w)
  case (Suc k)
  have more: "after_run (top_loop r k) w2 Q" if "left_over w2 < left_over w" "\<And>x w1. Q x w1" for w2 Q
    using Suc.prems that by (intro after_mono [OF Suc.IH]) auto
  show ?case unfolding top_loop.simps
    by (intro runs calls [OF r] more) (use Suc.prems in auto)
qed simp

lemma parse_returns: "glsl_parse ts version \<noteq> Inl NoFuel"
proof -
  have "after_run (with_fuel (top_loop (parsers_at (Suc (length ts))))) (initial_parse ts version) (\<lambda>_ _. True)"
    by (intro after_with_fuel top_loop_runs [OF back_ok_parsers]) (simp_all add: initial_parse_def left_over_def)
  then show ?thesis by (auto simp: glsl_parse_def after_run_def split: sum.splits)
qed

end
