(* ===== verification/GlslProps.thy ===== *)
theory GlslProps
  imports GlslTextLaws GlslParseLaws
begin

text \<open>
  What the GLSL front end promises: its lines are those of the source, code that a conditional leaves out has no effect,
  tokens are the text with its blanks left out, and it always comes back.
\<close>

section \<open>Lines\<close>

text \<open>C36: the preprocessed text has as many lines as the source once its continued lines are joined, so that the line
  of every later message is one of those lines: comments, directives, skipped code and macros neither add nor remove one.\<close>

theorem preprocess_keeps_lines:
  assumes "preprocess known src = Inr r"
  shows "newlines (o_text r) = newlines (join_lines (unify_newlines src))"
proof -
  obtain w where w: "pre_lines known 1 (source_lines src) initial_pre = Inr w" "o_text r = join_with [10] (g_out w)"
    using assms by (auto simp: preprocess_def Let_def rbind_Inr_iff glsl_err_def split: if_splits)
  have "pre_ok initial_pre" by (simp add: pre_ok_def initial_pre_def one_line_initial)
  with pre_lines_ok [OF this _ w(1)] source_line_no_newline
  have ok: "pre_ok w" "length (g_out w) = length (source_lines src)" by (auto simp: initial_pre_def)
  then have "g_out w \<noteq> []" by (auto simp: length_source_lines)
  with ok newlines_join_with [of "g_out w"] show ?thesis by (simp add: w(2) pre_ok_def length_source_lines)
qed

definition lines_source :: jstr where
  "lines_source = js ''#define F(x) x+x'' @ [13, 10] @ js ''#if 0'' @ [10] @ js ''no'' @ [10] @ js ''#endif'' @ [10] @ js ''F(a) /*'' @ [10] @ js ''*/ b''"

definition lines_result :: preprocessed where
  "lines_result = \<lparr>o_text = [10, 10, 10, 10] @ js ''a+a  '' @ [10] @ js '' b'', o_version = 100, o_exts = []\<rparr>"

lemma lines_example: "preprocess (\<lambda>x. False) lines_source = Inr lines_result"
  by code_simp

theorem preprocess_keeps_lines_witness: "newlines (o_text lines_result) = newlines (join_lines (unify_newlines lines_source))"
  by (rule preprocess_keeps_lines [OF lines_example])

section \<open>Skipped code\<close>

text \<open>Lines in which the conditionals close: \<open>d\<close> of them are open before the first.\<close>

fun closes :: "nat \<Rightarrow> jstr list \<Rightarrow> bool" where
  "closes d [] = (d = 0)"
| "closes d (l # ls) = (case directive l of
     None \<Rightarrow> closes d ls
   | Some (x, rest) \<Rightarrow>
       if x \<in> {js ''if'', js ''ifdef'', js ''ifndef''} then closes (Suc d) ls
       else if x = js ''endif'' then 0 < d \<and> closes (d - 1) ls
       else if x \<in> {js ''elif'', js ''else''} then 0 < d \<and> closes d ls
       else x \<noteq> js ''version'' \<and> closes d ls)"

lemma run_conditionals:
  "run_directive known lo (js ''if'') rest w = if_directive lo rest w"
  "run_directive known lo (js ''ifdef'') rest w = Inr (push_cond (g_macros w (js_trim rest) \<noteq> None) w)"
  "run_directive known lo (js ''ifndef'') rest w = Inr (push_cond (g_macros w (js_trim rest) = None) w)"
  "run_directive known lo (js ''endif'') rest w = endif_directive lo w"
  "run_directive known lo (js ''elif'') rest w = elif_directive lo rest w"
  "run_directive known lo (js ''else'') rest w = else_directive lo w"
  by (simp_all add: run_directive_def)

definition out_of_reach :: "pre_state \<Rightarrow> cond_frame list \<Rightarrow> cond_frame list \<Rightarrow> bool" where
  "out_of_reach w fs st = (\<not> g_active w \<and> g_stack w = fs @ st \<and> (\<forall>f \<in> set fs. \<not> f_par f))"

lemma skipped_open:
  assumes "out_of_reach w fs st" "x \<in> {js ''if'', js ''ifdef'', js ''ifndef''}"
  shows "\<exists>f. run_directive known lo x rest w = Inr (w\<lparr>g_stack := f # g_stack w\<rparr>) \<and> \<not> f_par f"
proof -
  have p: "push_cond v w = w\<lparr>g_stack := \<lparr>f_par = False, f_taken = v\<rparr> # g_stack w\<rparr>" for v
    using assms(1) by (simp add: push_cond_def out_of_reach_def)
  from assms(2) consider "x = js ''if''" | "x = js ''ifdef''" | "x = js ''ifndef''" by blast
  then show ?thesis
  proof cases
    case 1
    have "if_directive lo rest w = Inr (push_cond False w)" using assms(1) by (simp add: if_directive_def out_of_reach_def)
    then show ?thesis unfolding 1 run_conditionals by (auto simp: p)
  next
    case 2
    then show ?thesis unfolding 2 run_conditionals by (auto simp: p)
  next
    case 3
    then show ?thesis unfolding 3 run_conditionals by (auto simp: p)
  qed
qed

lemma skipped_branch:
  assumes "out_of_reach w (f # fs) st" "x \<in> {js ''elif'', js ''else''}"
  shows "\<exists>g. run_directive known lo x rest w = Inr (w\<lparr>g_stack := g # fs @ st\<rparr>) \<and> \<not> f_par g"
proof -
  have w: "g_stack w = f # fs @ st" "\<not> g_active w" "\<not> f_par f" using assms(1) by (simp_all add: out_of_reach_def)
  have a: "w\<lparr>g_active := False\<rparr> = w" "w\<lparr>g_stack := f # fs @ st\<rparr> = w" using w by simp_all
  from assms(2) consider "x = js ''elif''" | "x = js ''else''" by blast
  then show ?thesis
  proof cases
    case 1
    show ?thesis
    proof (cases "f_taken f")
      case True
      then have "elif_directive lo rest w = Inr (w\<lparr>g_active := False\<rparr>)" by (simp add: elif_directive_def w)
      then show ?thesis unfolding 1 run_conditionals using a w(3) by metis
    next
      case False
      then have "elif_directive lo rest w = Inr (w\<lparr>g_stack := f\<lparr>f_taken := False\<rparr> # fs @ st, g_active := False\<rparr>)"
        by (simp add: elif_directive_def w)
      moreover have "w\<lparr>g_stack := s, g_active := False\<rparr> = w\<lparr>g_stack := s\<rparr>" for s using w by simp
      ultimately show ?thesis unfolding 1 run_conditionals using w(3) by (intro exI [of _ "f\<lparr>f_taken := False\<rparr>"]) simp
    qed
  next
    case 2
    have "else_directive lo w = Inr (w\<lparr>g_stack := f\<lparr>f_taken := True\<rparr> # fs @ st, g_active := False\<rparr>)"
      by (simp add: else_directive_def w)
    moreover have "w\<lparr>g_stack := s, g_active := False\<rparr> = w\<lparr>g_stack := s\<rparr>" for s using w by simp
    ultimately show ?thesis unfolding 2 run_conditionals using w(3) by (intro exI [of _ "f\<lparr>f_taken := True\<rparr>"]) simp
  qed
qed

lemma skipped_close:
  assumes "out_of_reach w (f # fs) st"
  shows "run_directive known lo (js ''endif'') rest w = Inr (w\<lparr>g_stack := fs @ st\<rparr>)"
  using assms unfolding run_conditionals by (simp add: endif_directive_def out_of_reach_def)

lemma skipped_other:
  assumes "\<not> g_active w" "x \<notin> {js ''if'', js ''ifdef'', js ''ifndef'', js ''endif'', js ''elif'', js ''else'', js ''version''}"
  shows "run_directive known lo x rest w = Inr w"
  using assms by (simp add: run_directive_def define_directive_def extension_directive_def)

lemma skipped_line:
  assumes "out_of_reach w fs st" "closes (length fs) (l # ls)"
  shows "\<exists>gs. pre_line known lo l w = Inr (w\<lparr>g_out := g_out w @ [[]], g_stack := gs @ st\<rparr>) \<and> (\<forall>f \<in> set gs. \<not> f_par f) \<and> closes (length gs) ls"
proof (cases "directive l")
  case None
  then have "pre_line known lo l w = Inr (w\<lparr>g_out := g_out w @ [[]], g_stack := fs @ st\<rparr>)"
    using assms(1) by (simp add: pre_line_def push_line_def out_of_reach_def)
  then show ?thesis using assms None by (auto simp: out_of_reach_def)
next
  case (Some p)
  then obtain x rest where d: "directive l = Some (x, rest)" by (cases p) auto
  define v where "v = push_line [] w"
  have v: "out_of_reach v fs st" and stack: "v\<lparr>g_stack := s\<rparr> = w\<lparr>g_out := g_out w @ [[]], g_stack := s\<rparr>" for s
    using assms(1) by (simp_all add: v_def push_line_def out_of_reach_def)
  have line: "pre_line known lo l w = run_directive known lo x rest v" by (simp add: pre_line_def d v_def)
  have par: "\<forall>f \<in> set fs. \<not> f_par f" and vs: "g_stack v = fs @ st" and na: "\<not> g_active v" using v by (simp_all add: out_of_reach_def)
  consider (open_) "x \<in> {js ''if'', js ''ifdef'', js ''ifndef''}" | (close_) "x = js ''endif''" | (branch) "x \<in> {js ''elif'', js ''else''}"
    | (other) "x \<notin> {js ''if'', js ''ifdef'', js ''ifndef'', js ''endif'', js ''elif'', js ''else''}" by blast
  then show ?thesis
  proof cases
    case open_
    from skipped_open [OF v open_, of known lo rest] obtain f where f: "run_directive known lo x rest v = Inr (v\<lparr>g_stack := (f # fs) @ st\<rparr>)" "\<not> f_par f"
      by (auto simp: vs)
    moreover have "closes (length (f # fs)) ls" using assms(2) d open_ by auto
    ultimately show ?thesis using par unfolding line stack by (intro exI [of _ "f # fs"]) simp
  next
    case close_
    then obtain f gs where f: "fs = f # gs" using assms(2) d by (cases fs) auto
    then have "run_directive known lo x rest v = Inr (v\<lparr>g_stack := gs @ st\<rparr>)" using skipped_close v close_ by simp
    moreover have "closes (length gs) ls" using assms(2) d close_ f by simp
    ultimately show ?thesis using par f unfolding line stack by (intro exI [of _ gs]) simp
  next
    case branch
    then obtain f gs where f: "fs = f # gs" using assms(2) d by (cases fs) auto
    from skipped_branch [OF v [unfolded f] branch, of known lo rest] obtain g where
      g: "run_directive known lo x rest v = Inr (v\<lparr>g_stack := (g # gs) @ st\<rparr>)" "\<not> f_par g" by auto
    moreover have "closes (length (g # gs)) ls" using assms(2) d branch f by auto
    ultimately show ?thesis using par f unfolding line stack by (intro exI [of _ "g # gs"]) simp
  next
    case other
    moreover have x: "x \<noteq> js ''version''" "closes (length fs) ls" using other assms(2) d by auto
    ultimately have "run_directive known lo x rest v = Inr v" using na by (intro skipped_other) auto
    moreover have "v = v\<lparr>g_stack := fs @ st\<rparr>" using vs by simp
    ultimately show ?thesis using par x(2) unfolding line by (intro exI [of _ fs]) (metis stack)
  qed
qed

lemma skipped_lines:
  "out_of_reach w fs st \<Longrightarrow> closes (length fs) ls \<Longrightarrow>
   pre_lines known lo ls w = Inr (w\<lparr>g_out := g_out w @ replicate (length ls) [], g_stack := st\<rparr>)"
proof (induction ls arbitrary: w fs lo)
  case Nil
  then show ?case by (simp add: out_of_reach_def)
next
  case (Cons l ls)
  from skipped_line [OF Cons.prems] obtain gs where
    l: "pre_line known lo l w = Inr (w\<lparr>g_out := g_out w @ [[]], g_stack := gs @ st\<rparr>)" "\<forall>f \<in> set gs. \<not> f_par f" "closes (length gs) ls"
    by blast
  then have "out_of_reach (w\<lparr>g_out := g_out w @ [[]], g_stack := gs @ st\<rparr>) gs st" using Cons.prems(1) by (simp add: out_of_reach_def)
  from Cons.IH [OF this l(3)] l(1) show ?case by simp
qed

text \<open>C37: code that a conditional leaves out has no effect but its empty lines: whatever directives it holds, errors and
  broken conditions among them, macros, extensions and the stack are as before.  A \<open>#version\<close> is the exception, which
  \<open>closes\<close> leaves out: the code obeys it even there.\<close>

theorem skipped_code_is_ignored:
  assumes "\<not> g_active w" "closes 0 ls"
  shows "pre_lines known lo ls w = Inr (w\<lparr>g_out := g_out w @ replicate (length ls) []\<rparr>)"
  using skipped_lines [of w "[]" "g_stack w" ls known lo] assms by (simp add: out_of_reach_def)

definition skipped_example :: "jstr list" where
  "skipped_example = map js [''#if )'', ''#error x'', ''#else'', ''#bogus'', ''#endif'', ''x'']"

lemma closes_example: "closes 0 skipped_example"
  by code_simp

theorem skipped_code_is_ignored_witness:
  "pre_lines (\<lambda>x. False) 1 skipped_example (initial_pre\<lparr>g_active := False\<rparr>) =
     Inr (initial_pre\<lparr>g_active := False, g_out := g_out initial_pre @ replicate (length skipped_example) []\<rparr>)"
  using skipped_code_is_ignored [OF _ closes_example, of "initial_pre\<lparr>g_active := False\<rparr>" "\<lambda>x. False" 1] by simp

section \<open>Tokens\<close>

definition blank :: "jstr \<Rightarrow> bool" where
  "blank g = list_all (\<lambda>c. c = 10 \<or> lex_space c) g"

text \<open>The text of a token, and tokens laid out in a text: each has a gap of blanks before it.\<close>

definition spells :: "gtok \<Rightarrow> jstr \<Rightarrow> bool" where
  "spells t x = (case t of
     TNum v k l s \<Rightarrow> starts_number x \<and> lex_number l x = Inr t
   | TId y l \<Rightarrow> x = y \<and> x \<noteq> [] \<and> id_start (hd x) \<and> list_all word_char x
   | TPunct y l \<Rightarrow> x = y \<and> punct_at x = Some x
   | TEof l \<Rightarrow> x = [])"

fun laid_out :: "nat \<Rightarrow> (jstr \<times> jstr) list \<Rightarrow> gtok list \<Rightarrow> bool" where
  "laid_out line ((g, x) # ps) (t # ts) = (blank g \<and> spells t x \<and> tok_line t = line + newlines g \<and>
     (if is_eof t then ps = [] \<and> ts = [] else laid_out (line + newlines g) ps ts))"
| "laid_out line ps ts = False"

lemma blank_simps [simp]: "blank []" "blank (c # g) \<longleftrightarrow> (c = 10 \<or> lex_space c) \<and> blank g"
  by (simp_all add: blank_def)

definition laid :: "nat \<Rightarrow> jstr \<Rightarrow> gtok list \<Rightarrow> bool" where
  "laid line s ts = (\<exists>ps. s = concat (map (\<lambda>(g, x). g @ x) ps) \<and> laid_out line ps ts)"

lemma laid_blank:
  assumes "laid (if c = 10 then Suc line else line) r ts" "c = 10 \<or> lex_space c"
  shows "laid line (c # r) ts"
proof -
  obtain ps where r: "r = concat (map (\<lambda>(g, x). g @ x) ps)" "laid_out (if c = 10 then Suc line else line) ps ts"
    using assms(1) by (auto simp: laid_def)
  then obtain g x ps1 t ts1 where p: "ps = (g, x) # ps1" "ts = t # ts1" by (cases ps; cases ts) auto
  have "laid_out line ((c # g, x) # ps1) ts" using r(2) assms(2) by (auto simp: p split: if_splits)
  then show ?thesis using r(1) p by (auto simp: laid_def intro!: exI [of _ "(c # g, x) # ps1"])
qed

lemma laid_token:
  assumes "laid line (drop (length x) s) ts" "begins x s" "spells t x" "tok_line t = line" "\<not> is_eof t"
  shows "laid line s (t # ts)"
proof -
  obtain ps where ps: "drop (length x) s = concat (map (\<lambda>(g, x). g @ x) ps)" "laid_out line ps ts"
    using assms(1) by (auto simp: laid_def)
  then have "laid_out line (([], x) # ps) (t # ts)" using assms by simp
  moreover have "s = concat (map (\<lambda>(g, x). g @ x) (([], x) # ps))" using begins_split [OF assms(2)] ps(1) by simp
  ultimately show ?thesis unfolding laid_def by (intro exI [of _ "([], x) # ps"] conjI)
qed

lemmas lex_Cons = lex_from.simps [of line "c # r" for line c r, simplified list.case]

lemma lex_number_line: "lex_number l x = Inr t \<Longrightarrow> tok_line t = l \<and> (\<exists>v k y. t = TNum v k l y)"
  by (auto simp: lex_number_def Let_def glsl_err_def split: if_splits)

lemma starts_num_text: "starts_number s \<Longrightarrow> starts_number (num_text s)"
proof -
  assume st: "starts_number s"
  then obtain c r where s: "s = c # r" by (cases s) (auto simp: starts_number_def)
  obtain y ys where y: "num_text s = y # ys" using num_text_pos [of s] s by (cases "num_text s") auto
  have "begins (y # ys) s" using begins_num_text [of s] by (simp add: y)
  then have yc: "y = c" by (simp add: s)
  show ?thesis
  proof (cases "is_digit c")
    case True
    then show ?thesis by (simp add: y yc starts_number_def)
  next
    case False
    then obtain d q where d: "c = 46" "r = d # q" "is_digit d" using st by (cases r) (auto simp: s starts_number_def)
    have "mantissa_re s = Some (46 # takeWhile is_digit r)" using False d by (simp add: s mantissa_re_def is_digit_def)
    then show ?thesis using d by (simp add: s num_text_def num_re_def hex_start_def Let_def starts_number_def)
  qed
qed

lemma spells_id_re:
  assumes "id_start c"
  shows "spells (TId (id_re (c # r)) l) (id_re (c # r))"
proof -
  have "word_char c" using assms by (auto simp: id_start_def word_char_def)
  moreover have "list_all word_char (takeWhile word_char r)" by (auto simp: list_all_iff dest: set_takeWhileD)
  ultimately show ?thesis using assms by (simp add: spells_def id_re_def)
qed

lemma punct_at_idem: "punct_at s = Some x \<Longrightarrow> begins x s \<and> punct_at x = Some x"
  by (auto simp: punct_at_def begins_def min_def split: if_splits)

lemma lex_laid: "lex_from line s = Inr ts \<Longrightarrow> laid line s ts"
proof (induction "length s" arbitrary: line s ts rule: less_induct)
  case less
  note IH = less.hyps
  show ?case
  proof (cases s)
    case Nil
    then have "ts = [TEof line]" using less.prems by (simp add: lex_from.simps)
    moreover have "laid_out line [([], [])] [TEof line]" by (simp add: spells_def is_eof_def)
    ultimately show ?thesis using Nil by (auto simp: laid_def intro!: exI [of _ "[([], [])]"])
  next
    case (Cons c r)
    note eq = less.prems [unfolded Cons lex_Cons, folded Cons]
    consider "c = 10 \<or> lex_space c" | "c \<noteq> 10" "\<not> lex_space c" "starts_number s"
      | "c \<noteq> 10" "\<not> lex_space c" "\<not> starts_number s" "id_start c" | "c \<noteq> 10" "\<not> lex_space c" "\<not> starts_number s" "\<not> id_start c" by blast
    then show ?thesis
    proof cases
      case 1
      then have "lex_from (if c = 10 then Suc line else line) r = Inr ts" using eq by (auto split: if_splits)
      then show ?thesis using IH [of r] laid_blank 1 Cons by simp
    next
      case 2
      let ?x = "num_text s"
      obtain t us where t: "lex_number line ?x = Inr t" "lex_from line (drop (length ?x) s) = Inr us" "ts = t # us"
        using eq 2 by (auto simp: Let_def rbind_Inr_iff)
      have "length (drop (length ?x) s) < length s" using num_text_shrinks [of r c] Cons by simp
      moreover obtain v k y where n: "t = TNum v k line y" using lex_number_line [OF t(1)] by auto
      ultimately show ?thesis
        using IH [OF _ t(2)] t(1) starts_num_text [OF 2(3)] unfolding t(3) n
        by (intro laid_token) (auto simp: spells_def is_eof_def)
    next
      case 3
      let ?x = "id_re s"
      obtain us where t: "lex_from line (drop (length ?x) s) = Inr us" "ts = TId ?x line # us"
        using eq 3 by (auto simp: Let_def rbind_Inr_iff)
      have "length (drop (length ?x) s) < length s" using id_re_shrinks [of c r] 3 Cons by simp
      from IH [OF this t(1)] show ?thesis
        using spells_id_re [OF 3(4), of r line] unfolding t(2) by (intro laid_token) (auto simp: is_eof_def Cons)
    next
      case 4
      then obtain x us where t: "punct_at s = Some x" "lex_from line (drop (length x) s) = Inr us" "ts = TPunct x line # us"
        using eq by (auto simp: glsl_err_def rbind_Inr_iff split: option.splits)
      have "length (drop (length x) s) < length s" using punct_shrinks [of c r x] t(1) Cons by simp
      from IH [OF this t(2)] show ?thesis
        using punct_at_idem [OF t(1)] unfolding t(3) by (intro laid_token) (auto simp: spells_def is_eof_def)
    qed
  qed
qed

text \<open>C38: the tokens are the text: it is cut, in order and without a rest, into blanks and the texts of the tokens, where
  every token has the line its text begins on; the last token, and only that, is the end of the file.\<close>

theorem tokens_are_the_text:
  assumes "glsl_lex src = Inr ts"
  shows "\<exists>ps. src = concat (map (\<lambda>(g, x). g @ x) ps) \<and> laid_out 1 ps ts"
  using lex_laid assms unfolding glsl_lex_def laid_def by blast

definition token_source :: jstr where
  "token_source = js ''x=.5f+0x1Fu;'' @ [10] @ js ''y''"

definition token_list :: "gtok list" where
  "token_list = [TId (js ''x'') 1, TPunct (js ''='') 1, TNum (Fin (1/2)) FloatLit 1 (js ''.5''), TPunct (js ''+'') 1,
     TNum (Fin 31) UintLit 1 (js ''0x1F''), TPunct (js '';'') 1, TId (js ''y'') 2, TEof 2]"

lemma token_example: "glsl_lex token_source = Inr token_list"
  by code_simp

theorem tokens_are_the_text_witness:
  "\<exists>ps. token_source = concat (map (\<lambda>(g, x). g @ x) ps) \<and> laid_out 1 ps token_list"
  by (rule tokens_are_the_text [OF token_example])

section \<open>The front end\<close>

text \<open>\<open>compile\<close> up to the generator (\<open>34_glsl_gen.js\<close>): preprocessor, lexer, parser.\<close>

definition glsl_front :: "(jstr \<Rightarrow> bool) \<Rightarrow> jstr \<Rightarrow> (gtop list \<times> (jstr \<rightharpoonup> gstruct)) gres" where
  "glsl_front known src = rbind (preprocess known src) (\<lambda>pp. rbind (glsl_lex (o_text pp)) (\<lambda>ts. glsl_parse ts (o_version pp)))"

lemma lex_fuel: "lex_from line s \<noteq> Inl NoFuel"
proof (induction "length s" arbitrary: line s rule: less_induct)
  case less
  show ?case
  proof (cases s)
    case (Cons c r)
    have n: "lex_number l x \<noteq> Inl NoFuel" for l x by (simp add: lex_number_def Let_def glsl_err_def)
    have "lex_from l (drop (length (num_text s)) s) \<noteq> Inl NoFuel" for l
      using num_text_shrinks [of r c] Cons by (intro less) simp
    moreover have "lex_from l (drop (length (id_re s)) s) \<noteq> Inl NoFuel" if "id_start c" for l
      using id_re_shrinks [OF that, of r] Cons by (intro less) simp
    moreover have "lex_from l (drop (length x) s) \<noteq> Inl NoFuel" if "punct_at s = Some x" for l x
      using punct_shrinks [of c r x] that Cons by (intro less) simp
    moreover have "lex_from l r \<noteq> Inl NoFuel" for l using Cons by (intro less) simp
    ultimately show ?thesis using n unfolding Cons lex_Cons
      by (auto simp: rbind_fuel glsl_err_def Let_def split: option.split)
  qed (simp add: lex_from.simps)
qed

lemma fuel_if: "(b \<Longrightarrow> p \<noteq> Inl NoFuel) \<Longrightarrow> (\<not> b \<Longrightarrow> q \<noteq> Inl NoFuel) \<Longrightarrow> (if b then p else q) \<noteq> Inl NoFuel"
  by simp

lemma directive_fuel: "run_directive known lo x rest w \<noteq> Inl NoFuel"
proof -
  have "version_directive lo rest w \<noteq> Inl NoFuel" "define_directive lo rest w \<noteq> Inl NoFuel" "extension_directive known lo rest w \<noteq> Inl NoFuel"
    "else_directive lo w \<noteq> Inl NoFuel" "endif_directive lo w \<noteq> Inl NoFuel"
    unfolding version_directive_def define_directive_def extension_directive_def else_directive_def endif_directive_def Let_def glsl_err_def
    by (simp_all split: option.split prod.split list.split)
  moreover have "if_directive lo rest w \<noteq> Inl NoFuel" "elif_directive lo rest w \<noteq> Inl NoFuel"
    unfolding if_directive_def elif_directive_def glsl_err_def
    by (simp_all add: rbind_fuel eval_cond_fuel split: list.split)
  ultimately show ?thesis unfolding run_directive_def by (intro fuel_if) (simp_all add: glsl_err_def)
qed

lemma pre_lines_fuel: "pre_lines known lo ls w \<noteq> Inl NoFuel"
proof (induction ls arbitrary: lo w)
  case (Cons l ls)
  have "pre_line known lo l w \<noteq> Inl NoFuel"
    by (simp add: pre_line_def directive_fuel rbind_fuel expand_fuel split: option.split prod.split)
  then show ?case using Cons by (simp add: rbind_fuel)
qed simp

text \<open>C40: the front end always comes back, with declarations or with an error of the code: neither the expansion of
  macros, nor the evaluation of conditions, nor the loops and the nested calls of the parser run out of the fuel that is given
  from the length of the text.\<close>

theorem front_end_returns: "glsl_front known src \<noteq> Inl NoFuel"
  using parse_returns lex_fuel pre_lines_fuel
  by (auto simp: glsl_front_def glsl_lex_def preprocess_def rbind_fuel Let_def glsl_err_def split: if_splits)

end
