(* ===== verification/GlslRound.thy ===== *)
theory GlslRound
  imports GlslTextLaws GlslParseLaws
begin

text \<open>
  Expressions as tokens: a printer that sets parentheses only where the levels of the grammar ask for them.  What it
  prints, the parser reads back, by induction on the expression: at each level of the grammar the parser reads what the
  printer shows at that level.
\<close>

section \<open>The printer\<close>

text \<open>Levels: 0 comma, 1 assignment, and so a conditional, whose third operand is one, 2 conditional, 3 to 13 the binary operators, 14 unary, 15 postfix, 16 primary.\<close>

definition op_level :: "jstr \<Rightarrow> nat" where
  "op_level x = 3 + length (takeWhile (\<lambda>ops. x \<notin> set ops) op_levels)"

fun prec :: "gexpr \<Rightarrow> nat" where
  "prec (GComma a b l) = 0"
| "prec (GAssign x a b l) = 1"
| "prec (GCond a b c l) = 1"
| "prec (GBin x a b l) = op_level x"
| "prec (GUn x a l) = 14"
| "prec (GPre x a l) = 14"
| "prec (GIndex a b l) = 15"
| "prec (GLength a l) = 15"
| "prec (GField a x l) = 15"
| "prec (GPost x a l) = 15"
| "prec _ = 16"

definition wrap :: "bool \<Rightarrow> gtok list \<Rightarrow> gtok list" where
  "wrap b ts = (if b then TPunct (js ''('') 0 # ts @ [TPunct (js '')'') 0] else ts)"

fun args_with :: "gtok list list \<Rightarrow> gtok list" where
  "args_with [] = []"
| "args_with [a] = a"
| "args_with (a # as) = a @ TPunct (js '','') 0 # args_with as"

definition in_parens :: "gtok list \<Rightarrow> gtok list" where
  "in_parens ts = TPunct (js ''('') 0 # ts @ [TPunct (js '')'') 0]"

fun raw :: "gexpr \<Rightarrow> gtok list" where
  "raw (GNum v k l) = [TNum v k l []]"
| "raw (GBool b l) = [TId (if b then js ''true'' else js ''false'') l]"
| "raw (GCtor (TyName x) as l) = TId x l # in_parens (args_with (map (\<lambda>a. wrap (prec a < 1) (raw a)) as))"
| "raw (GCtor (TyArr (TyName x) e) as l) = TId x l # TPunct (js ''['') 0 # wrap (prec e < 1) (raw e) @ TPunct (js '']'') 0 #
     in_parens (args_with (map (\<lambda>a. wrap (prec a < 1) (raw a)) as))"
| "raw (GCtor _ as l) = []"
| "raw (GCall x as l) = TId x l # in_parens (args_with (map (\<lambda>a. wrap (prec a < 1) (raw a)) as))"
| "raw (GId x l) = [TId x l]"
| "raw (GIndex a i l) = wrap (prec a < 15) (raw a) @ TPunct (js ''['') l # raw i @ [TPunct (js '']'') 0]"
| "raw (GLength a l) = wrap (prec a < 15) (raw a) @ [TPunct (js ''.'') l, TId (js ''length'') 0, TPunct (js ''('') 0, TPunct (js '')'') 0]"
| "raw (GField a x l) = wrap (prec a < 15) (raw a) @ [TPunct (js ''.'') l, TId x 0]"
| "raw (GPost x a l) = wrap (prec a < 15) (raw a) @ [TPunct x l]"
| "raw (GPre x a l) = TPunct x l # wrap (prec a < 14) (raw a)"
| "raw (GUn x a l) = TPunct x l # wrap (prec a < 14) (raw a)"
| "raw (GBin x a b l) = wrap (prec a < op_level x) (raw a) @ TPunct x l # wrap (prec b < Suc (op_level x)) (raw b)"
| "raw (GCond c a b l) = wrap (prec c < 3) (raw c) @ TPunct (js ''?'') l # raw a @ TPunct (js '':'') 0 # wrap (prec b < 1) (raw b)"
| "raw (GAssign x a b l) = wrap (prec a < 3) (raw a) @ TPunct x l # wrap (prec b < 1) (raw b)"
| "raw (GComma a b l) = raw a @ TPunct (js '','') l # wrap (prec b < 1) (raw b)"

definition shown_at :: "nat \<Rightarrow> gexpr \<Rightarrow> gtok list" where
  "shown_at k e = wrap (prec e < k) (raw e)"

lemma shown_0: "shown_at 0 e = raw e"
  by (simp add: shown_at_def wrap_def)

lemmas raw_shown = raw.simps [folded shown_at_def]

text \<open>The expressions that can be written, where \<open>types\<close> are the names of types.\<close>

definition step_ops :: "jstr set" where
  "step_ops = {js ''++'', js ''--''}"

fun writable :: "(jstr \<Rightarrow> bool) \<Rightarrow> gexpr \<Rightarrow> bool" where
  "writable ty (GNum v k l) = True"
| "writable ty (GBool b l) = True"
| "writable ty (GCtor (TyName x) as l) = (ty x \<and> x \<notin> set keywords_glsl \<and> x \<noteq> js ''void'' \<and> list_all (writable ty) as)"
| "writable ty (GCtor (TyArr (TyName x) e) as l) = (ty x \<and> x \<notin> set keywords_glsl \<and> x \<noteq> js ''void'' \<and> writable ty e \<and> list_all (writable ty) as)"
| "writable ty (GCtor _ as l) = False"
| "writable ty (GCall x as l) = (\<not> ty x \<and> x \<notin> set keywords_glsl \<and> list_all (writable ty) as)"
| "writable ty (GId x l) = (\<not> ty x \<and> x \<notin> set keywords_glsl)"
| "writable ty (GIndex a i l) = (writable ty a \<and> writable ty i)"
| "writable ty (GLength a l) = writable ty a"
| "writable ty (GField a x l) = writable ty a"
| "writable ty (GPost x a l) = (x \<in> step_ops \<and> writable ty a)"
| "writable ty (GPre x a l) = (x \<in> step_ops \<and> writable ty a)"
| "writable ty (GUn x a l) = (x \<in> set unary_ops - step_ops \<and> writable ty a)"
| "writable ty (GBin x a b l) = (x \<in> set (concat op_levels) \<and> writable ty a \<and> writable ty b)"
| "writable ty (GCond c a b l) = (writable ty c \<and> writable ty a \<and> writable ty b)"
| "writable ty (GAssign x a b l) = (x \<in> set assign_ops \<and> writable ty a \<and> writable ty b)"
| "writable ty (GComma a b l) = (writable ty a \<and> writable ty b)"

section \<open>Steps of the parser\<close>

definition adv :: "nat \<Rightarrow> parse_state \<Rightarrow> parse_state" where
  "adv n w = w\<lparr>p_rest := drop n (p_rest w), p_pos := p_pos w + n\<rparr>"

lemma adv_0 [simp]: "adv 0 w = w"
  by (simp add: adv_def)

lemma adv_adv [simp]: "adv m (adv n w) = adv (n + m) w"
  by (simp add: adv_def add.commute add.left_commute)

lemma rest_adv [simp]: "p_rest (adv n w) = drop n (p_rest w)" "p_structs (adv n w) = p_structs w"
  by (simp_all add: adv_def)

lemma known_adv [simp]: "known_type (adv n w) = known_type w"
  by (simp add: known_type_def fun_eq_iff)

lemma pbind_assoc: "pbind (pbind m f) g = pbind m (\<lambda>x. pbind (f x) g)"
  by (auto simp: pbind_def fun_eq_iff split: sum.splits)

lemma pbind_ret [simp]: "pbind (pret x) f = f x"
  by (simp add: pbind_def pret_def fun_eq_iff)

lemma pbind_if: "pbind (if b then m else k) f = (if b then pbind m f else pbind k f)"
  by simp

lemma run_ret [simp]: "pret x w = Inr (x, w)"
  by (simp add: pret_def)

lemma run_bind: "m w = Inr (x, w1) \<Longrightarrow> pbind m f w = f x w1"
  by (simp add: pbind_def)

lemma run_skip [simp]: "skip_tok w = Inr ((), adv (Suc 0) w)"
  by (simp add: skip_tok_def adv_def drop_Suc)

lemma run_then_skip [simp]: "pbind skip_tok f w = f () (adv (Suc 0) w)"
  by (rule run_bind) simp

lemma run_peek: "p_rest w = t # ts \<Longrightarrow> peek_tok w = Inr (t, w)"
  by (simp add: peek_at_def nth_opt_def)

lemma run_then_peek: "p_rest w = t # ts \<Longrightarrow> pbind peek_tok f w = f t w"
  by (rule run_bind) (rule run_peek)

lemma run_at: "p_rest w = t # ts \<Longrightarrow> at_p v w = Inr (is_punct v t, w)"
  by (simp add: at_p_def run_then_peek)

lemma run_then_at: "p_rest w = t # ts \<Longrightarrow> pbind (at_p v) f w = f (is_punct v t) w"
  by (rule run_bind) (rule run_at)

lemma run_then_eat: "p_rest w = t # ts \<Longrightarrow> pbind (eat_p v) f w = (if is_punct v t then f True (adv (Suc 0) w) else f False w)"
  by (simp add: eat_p_def run_then_peek pbind_assoc pbind_if)

lemma run_then_expect: "p_rest w = TPunct (js v) l # ts \<Longrightarrow> pbind (expect_p v) f w = f () (adv (Suc 0) w)"
  by (rule run_bind) (simp add: expect_p_def run_then_peek is_punct_def)

lemma run_eat: "p_rest w = t # ts \<Longrightarrow> eat_p v w = (if is_punct v t then Inr (True, adv (Suc 0) w) else Inr (False, w))"
  by (simp add: eat_p_def run_then_peek)

lemma run_expect: "p_rest w = TPunct (js v) l # ts \<Longrightarrow> expect_p v w = Inr ((), adv (Suc 0) w)"
  by (simp add: expect_p_def run_then_peek is_punct_def)

lemma pbind_run: "pbind m f w = (case m w of Inl e \<Rightarrow> Inl e | Inr (x, w1) \<Rightarrow> f x w1)"
  by (simp add: pbind_def)

lemma run_type: "is_type_tok t w = Inr (case t of TId x l \<Rightarrow> known_type w x | _ \<Rightarrow> False, w)"
  by (simp add: is_type_tok_def)

lemmas run = pbind_run run_peek run_eat run_expect run_at run_type

lemma run_then_type: "pbind (is_type_tok t) f w = f (case t of TId x l \<Rightarrow> known_type w x | _ \<Rightarrow> False) w"
  by (rule run_bind) (simp add: is_type_tok_def)

lemma is_punct_js [simp]: "is_punct v (TPunct x l) \<longleftrightarrow> x = js v" "\<not> is_punct v (TId x l)" "\<not> is_punct v (TNum n k l s)" "\<not> is_punct v (TEof l)"
  by (auto simp: is_punct_def)

section \<open>Where an expression ends\<close>

text \<open>The level at which a token goes on with an expression before it.\<close>

definition goes_on :: "gtok \<Rightarrow> nat option" where
  "goes_on t = (case t of TPunct x l \<Rightarrow>
      if x = js ''('' then Some 16
      else if x \<in> {js ''['', js ''.'', js ''++'', js ''--''} then Some 15
      else if x \<in> set (concat op_levels) then Some (op_level x)
      else if x = js ''?'' then Some 2
      else if x \<in> set assign_ops then Some 1
      else if x = js '','' then Some 0 else None
    | _ \<Rightarrow> None)"

definition stops :: "nat \<Rightarrow> gtok list \<Rightarrow> bool" where
  "stops k ts = (ts \<noteq> [] \<and> (case goes_on (hd ts) of None \<Rightarrow> True | Some j \<Rightarrow> j < k))"

lemma stops_mono: "stops k ts \<Longrightarrow> k \<le> j \<Longrightarrow> stops j ts"
  by (auto simp: stops_def split: option.splits)

text \<open>The parser of a level, and its loop.\<close>

definition at_level :: "gparsers \<Rightarrow> nat \<Rightarrow> gexpr gp" where
  "at_level r k = (if k = 0 then expression r else if k = 1 then assignment r else if k = 2 then conditional r
     else if k < 14 then binary r (drop (k - 3) op_levels) else if k = 14 then unary r else if k = 15 then postfix r else primary r)"

definition level_loop :: "gparsers \<Rightarrow> nat \<Rightarrow> nat \<Rightarrow> gexpr \<Rightarrow> gexpr gp" where
  "level_loop r k n e = (if k = 0 then comma_loop (assignment r) n e
     else if k < 14 then binary_loop (at_level r (Suc k)) (op_levels ! (k - 3)) n e else postfix_loop r n e)"

definition looping :: "nat \<Rightarrow> bool" where
  "looping k = (k = 0 \<or> (3 \<le> k \<and> k < 14) \<or> k = 15)"

lemma length_op_levels: "length op_levels = 11"
  by (simp add: op_levels_def)

lemma at_level_loop:
  assumes "looping k"
  shows "at_level r k = pbind (at_level r (Suc k)) (\<lambda>e. with_fuel (\<lambda>n. level_loop r k n e))"
proof -
  consider "k = 0" | "3 \<le> k" "k < 14" | "k = 15" using assms by (auto simp: looping_def)
  then show ?thesis
  proof cases
    case 2
    have "Suc k - 3 = Suc (k - 3)" "k - 3 < length op_levels" using 2 by (simp_all add: length_op_levels)
    then have d: "drop (k - 3) op_levels = (op_levels ! (k - 3)) # drop (Suc k - 3) op_levels"
      by (simp only: Cons_nth_drop_Suc)
    have s: "at_level r (Suc k) = binary r (drop (Suc k - 3) op_levels)"
      using 2 by (auto simp: at_level_def length_op_levels)
    have "at_level r k = binary r (drop (k - 3) op_levels)" using 2 by (simp add: at_level_def)
    then show ?thesis using 2 by (simp add: d s level_loop_def)
  qed (simp_all add: at_level_def level_loop_def expression_def postfix_def)
qed

lemma op_level_table: "list_all (\<lambda>x. 3 \<le> op_level x \<and> op_level x < 14 \<and> x \<in> set (op_levels ! (op_level x - 3))) (concat op_levels)"
  by code_simp

lemma op_level_range: "x \<in> set (concat op_levels) \<Longrightarrow> 3 \<le> op_level x \<and> op_level x < 14 \<and> x \<in> set (op_levels ! (op_level x - 3))"
  using op_level_table by (auto simp: list_all_iff)

lemma op_level_rows: "list_all (\<lambda>i. list_all (\<lambda>x. op_level x = 3 + i) (op_levels ! i)) [0..<11]"
  by code_simp

lemma op_level_of: "i < 11 \<Longrightarrow> x \<in> set (op_levels ! i) \<Longrightarrow> op_level x = 3 + i"
  using op_level_rows by (simp add: list_all_iff)

lemma op_in_levels: "i < 11 \<Longrightarrow> x \<in> set (op_levels ! i) \<Longrightarrow> x \<in> set (concat op_levels)"
  using nth_mem [of i op_levels] by (auto simp: length_op_levels)

text \<open>The kinds of tokens keep apart.\<close>

lemma ops_apart:
  "set (concat op_levels) \<inter> ({js ''('', js ''['', js ''.'', js ''++'', js ''--'', js ''?'', js '',''} \<union> set assign_ops) = {}"
  "set assign_ops \<inter> {js ''('', js ''['', js ''.'', js ''++'', js ''--'', js ''?'', js '',''} = {}"
  by code_simp+

section \<open>Going down the levels\<close>

text \<open>No loop takes a token that stops its level.\<close>

lemma goes_on_op: "x \<in> set (concat op_levels) \<Longrightarrow> goes_on (TPunct x l) = Some (op_level x)"
  using ops_apart(1) by (auto simp: goes_on_def)

lemma goes_on_assign: "x \<in> set assign_ops \<Longrightarrow> goes_on (TPunct x l) = Some 1"
  using ops_apart by (auto simp: goes_on_def)

lemma goes_on_simps [simp]:
  "goes_on (TPunct (js ''('') l) = Some 16" "goes_on (TPunct (js '')'') l) = None" "goes_on (TPunct (js ''['') l) = Some 15"
  "goes_on (TPunct (js '']'') l) = None" "goes_on (TPunct (js ''.'') l) = Some 15" "goes_on (TPunct (js ''?'') l) = Some 2"
  "goes_on (TPunct (js '':'') l) = None" "goes_on (TPunct (js '','') l) = Some 0"
  by (simp_all add: goes_on_def op_levels_def assign_ops_def)

lemma goes_on_step: "x \<in> step_ops \<Longrightarrow> goes_on (TPunct x l) = Some 15"
  by (auto simp: goes_on_def step_ops_def)

lemma loop_stops:
  assumes "looping k" "stops k (p_rest w)"
  shows "level_loop r k (Suc n) e w = Inr (e, w)"
proof -
  obtain t ts where w: "p_rest w = t # ts" using assms(2) by (cases "p_rest w") (auto simp: stops_def)
  have g: "case goes_on t of None \<Rightarrow> True | Some j \<Rightarrow> j < k" using assms(2) by (simp add: stops_def w)
  consider "k = 0" | "3 \<le> k" "k < 14" | "k = 15" using assms(1) by (auto simp: looping_def)
  then show ?thesis
  proof cases
    case 1
    then have "\<not> is_punct '','' t" using g by (cases t) (auto simp: goes_on_def split: option.splits if_splits)
    then show ?thesis using 1 by (simp add: level_loop_def run_then_peek [OF w])
  next
    case 2
    have "x \<notin> set (op_levels ! (k - 3))" if "t = TPunct x l" for x l
    proof
      assume x: "x \<in> set (op_levels ! (k - 3))"
      have "k - 3 < 11" using 2 by simp
      from op_level_of [OF this x] op_in_levels [OF this x] have "goes_on t = Some k" using 2 that goes_on_op by simp
      then show False using g by simp
    qed
    then show ?thesis using 2 by (cases t) (auto simp: level_loop_def run_then_peek [OF w])
  next
    case 3
    then show ?thesis using g by (cases t) (auto simp: level_loop_def run_then_peek [OF w] goes_on_def split: option.splits if_splits)
  qed
qed

definition unary_start :: "gtok list \<Rightarrow> bool" where
  "unary_start ts = (case ts of TPunct x l # _ \<Rightarrow> x \<in> set unary_ops | _ \<Rightarrow> False)"

lemma down_one:
  assumes "at_level r (Suc k) w = Inr (e, w1)" "stops k (p_rest w1)" "k < 16" "k = 14 \<Longrightarrow> p_rest w \<noteq> [] \<and> \<not> unary_start (p_rest w)"
  shows "at_level r k w = Inr (e, w1)"
proof (cases "looping k")
  case True
  then show ?thesis using assms(1,2) loop_stops [OF True] by (simp add: at_level_loop run_bind with_fuel_def)
next
  case False
  then consider "k = 1" | "k = 2" | "k = 14" using assms(3) by (auto simp: looping_def) linarith
  then show ?thesis
  proof cases
    case 1
    obtain t ts where t: "p_rest w1 = t # ts" using assms(2) by (cases "p_rest w1") (auto simp: stops_def)
    have "case t of TPunct x l \<Rightarrow> x \<notin> set assign_ops | _ \<Rightarrow> True"
      using assms(2) goes_on_assign by (cases t) (auto simp: stops_def t 1)
    then show ?thesis using assms(1) 1
      by (cases t) (auto simp: at_level_def assignment_def run_bind run_then_peek [OF t] numeral_2_eq_2)
  next
    case 2
    obtain t ts where t: "p_rest w1 = t # ts" using assms(2) by (cases "p_rest w1") (auto simp: stops_def)
    have "\<not> is_punct ''?'' t" using assms(2) by (cases t) (auto simp: stops_def t 2)
    then show ?thesis using assms(1) 2 by (simp add: at_level_def conditional_def run_bind run_then_peek [OF t])
  next
    case 3
    then obtain t ts where t: "p_rest w = t # ts" using assms(4) by (cases "p_rest w") auto
    have "at_level r 14 w = postfix r w" using assms(4) 3
      by (cases t) (auto simp: at_level_def unary_def run_then_peek [OF t] unary_start_def t)
    then show ?thesis using assms(1) 3 by (simp add: at_level_def)
  qed
qed

lemma down_levels:
  assumes "at_level r j w = Inr (e, w1)" "k \<le> j" "j \<le> 16" "stops k (p_rest w1)" "p_rest w \<noteq> []" "j \<le> 14 \<or> \<not> unary_start (p_rest w)"
  shows "at_level r k w = Inr (e, w1)"
  using assms(2)
proof (induction rule: inc_induct)
  case base
  show ?case by (rule assms(1))
next
  case (step i)
  show ?case using step assms(3-6) by (intro down_one [OF step(3)]) (auto intro: stops_mono [OF assms(4)])
qed

declare One_nat_def [simp del]

section \<open>Fuel of the loops\<close>

lemma pbind_more:
  "pbind m f w \<noteq> Inl NoFuel \<Longrightarrow> (\<And>x w1. m w = Inr (x, w1) \<Longrightarrow> f x w1 \<noteq> Inl NoFuel \<Longrightarrow> g x w1 = f x w1) \<Longrightarrow> pbind m g w = pbind m f w"
  by (auto simp: pbind_def split: sum.splits)

lemma comma_loop_more:
  "comma_loop operand n e w \<noteq> Inl NoFuel \<Longrightarrow> n \<le> m \<Longrightarrow> comma_loop operand m e w = comma_loop operand n e w"
proof (induction n arbitrary: m e w)
  case 0
  then show ?case by (simp add: out_of_fuel_def)
next
  case (Suc n)
  then obtain k where m: "m = Suc k" "n \<le> k" by (cases m) auto
  show ?case using Suc.prems(1) unfolding m(1) comma_loop.simps
    by (elim pbind_more) (auto elim!: pbind_more simp: Suc.IH [OF _ m(2)] split: if_splits)
qed

lemma binary_loop_more:
  "binary_loop operand ops n e w \<noteq> Inl NoFuel \<Longrightarrow> n \<le> m \<Longrightarrow> binary_loop operand ops m e w = binary_loop operand ops n e w"
proof (induction n arbitrary: m e w)
  case 0
  then show ?case by (simp add: out_of_fuel_def)
next
  case (Suc n)
  then obtain k where m: "m = Suc k" "n \<le> k" by (cases m) auto
  show ?case using Suc.prems(1) unfolding m(1) binary_loop.simps
    by (elim pbind_more) (auto elim!: pbind_more simp: Suc.IH [OF _ m(2)] split: if_splits gtok.splits)
qed

lemma postfix_loop_more:
  "postfix_loop r n e w \<noteq> Inl NoFuel \<Longrightarrow> n \<le> m \<Longrightarrow> postfix_loop r m e w = postfix_loop r n e w"
proof (induction n arbitrary: m e w)
  case 0
  then show ?case by (simp add: out_of_fuel_def)
next
  case (Suc n)
  then obtain k where m: "m = Suc k" "n \<le> k" by (cases m) auto
  show ?case using Suc.prems(1) unfolding m(1) postfix_loop.simps
    by (elim pbind_more) (auto elim!: pbind_more simp: Suc.IH [OF _ m(2)] split: if_splits gtok.splits)
qed

lemma level_loop_more:
  "level_loop r k n e w \<noteq> Inl NoFuel \<Longrightarrow> n \<le> m \<Longrightarrow> level_loop r k m e w = level_loop r k n e w"
  unfolding level_loop_def by (auto intro: comma_loop_more binary_loop_more postfix_loop_more split: if_splits)

lemma at_level_runs:
  "back_ok n r \<Longrightarrow> left_over w \<le> n \<Longrightarrow> after_run (at_level r k) w (\<lambda>_ w1. left_over w1 < left_over w)"
  unfolding at_level_def by (intro after_if calls [of n]) auto

lemma level_loop_fuel:
  assumes "back_ok n r" "left_over w \<le> n"
  shows "level_loop r k (Suc (left_over w)) e w \<noteq> Inl NoFuel"
proof -
  have "after_run (comma_loop (assignment r) (Suc (left_over w)) e) w (\<lambda>_ w1. left_over w1 \<le> left_over w)"
    by (rule comma_loop_runs [OF assms]) simp
  moreover have "after_run (binary_loop (at_level r (Suc k)) ops (Suc (left_over w)) e) w (\<lambda>_ w1. left_over w1 \<le> left_over w)" for ops
    by (rule binary_loop_runs [where n = n]) (use assms in \<open>auto intro: at_level_runs\<close>)
  moreover have "after_run (postfix_loop r (Suc (left_over w)) e) w (\<lambda>_ w1. left_over w1 \<le> left_over w)"
    by (rule postfix_loop_runs [OF assms]) simp
  ultimately have "after_run (level_loop r k (Suc (left_over w)) e) w (\<lambda>_ w1. left_over w1 \<le> left_over w)"
    unfolding level_loop_def by (intro after_if)
  then show ?thesis by (auto simp: after_run_def)
qed

text \<open>The rounds that are left do not matter, as long as there are enough.\<close>

lemma level_loop_enough:
  assumes "left_over w \<le> n" "left_over w < m"
  shows "level_loop (parsers_at n) k m e w = level_loop (parsers_at n) k (Suc (left_over w)) e w"
  by (rule level_loop_more [OF level_loop_fuel [OF back_ok_parsers assms(1)]]) (use assms(2) in simp)

section \<open>What is read\<close>

definition reads :: "(jstr \<Rightarrow> bool) \<Rightarrow> gexpr \<Rightarrow> bool" where
  "reads ty e = (\<forall>n w rest k. known_type w = ty \<longrightarrow> k \<le> 16 \<longrightarrow> p_rest w = shown_at k e @ rest \<longrightarrow> length (p_rest w) \<le> n \<longrightarrow>
     stops k rest \<longrightarrow> at_level (parsers_at n) k w = Inr (e, adv (length (shown_at k e)) w))"

definition loops :: "(jstr \<Rightarrow> bool) \<Rightarrow> gexpr \<Rightarrow> bool" where
  "loops ty e = (\<forall>n w rest j. known_type w = ty \<longrightarrow> looping j \<longrightarrow> p_rest w = shown_at j e @ rest \<longrightarrow> length (p_rest w) \<le> n \<longrightarrow>
     stops (Suc j) rest \<longrightarrow>
     at_level (parsers_at n) j w = level_loop (parsers_at n) j (Suc (length rest)) e (adv (length (shown_at j e)) w))"

lemma readsD:
  "reads ty e \<Longrightarrow> known_type w = ty \<Longrightarrow> p_rest w = shown_at k e @ rest \<Longrightarrow> k \<le> 16 \<Longrightarrow> length (p_rest w) \<le> n \<Longrightarrow> stops k rest \<Longrightarrow>
   at_level (parsers_at n) k w = Inr (e, adv (length (shown_at k e)) w)"
  by (simp add: reads_def)

lemma loopsD:
  "loops ty e \<Longrightarrow> known_type w = ty \<Longrightarrow> p_rest w = shown_at j e @ rest \<Longrightarrow> looping j \<Longrightarrow> length (p_rest w) \<le> n \<Longrightarrow> stops (Suc j) rest \<Longrightarrow>
   at_level (parsers_at n) j w = level_loop (parsers_at n) j (Suc (length rest)) e (adv (length (shown_at j e)) w)"
  by (simp add: loops_def)

lemma looping_le: "looping j \<Longrightarrow> j \<le> 15"
  by (auto simp: looping_def)

lemma loops_other:
  assumes "reads ty e" "known_type w = ty" "looping j" "p_rest w = shown_at j e @ rest" "length (p_rest w) \<le> n" "stops (Suc j) rest" "prec e \<noteq> j"
  shows "at_level (parsers_at n) j w = level_loop (parsers_at n) j (Suc (length rest)) e (adv (length (shown_at j e)) w)"
proof -
  have s: "shown_at (Suc j) e = shown_at j e" using assms(7) by (simp add: shown_at_def less_Suc_eq)
  have "at_level (parsers_at n) (Suc j) w = Inr (e, adv (length (shown_at j e)) w)"
    using readsD [OF assms(1,2), of "Suc j" rest n] assms(4-6) looping_le [OF assms(3)] by (simp add: s)
  then show ?thesis using assms(4) by (simp add: at_level_loop [OF assms(3)] run_bind with_fuel_def)
qed

lemma r_parsers [simp]:
  "r_expr (parsers_over r) = at_level r 0" "r_assign (parsers_over r) = at_level r 1" "r_unary (parsers_over r) = at_level r 14"
  by (simp_all add: parsers_over_def at_level_def)

lemma reads_intro:
  assumes top: "\<And>n w rest. known_type w = ty \<Longrightarrow> p_rest w = raw e @ rest \<Longrightarrow> length (p_rest w) \<le> n \<Longrightarrow> stops (prec e) rest \<Longrightarrow>
      at_level (parsers_at n) (prec e) w = Inr (e, adv (length (raw e)) w)"
    and first: "raw e \<noteq> []" "15 \<le> prec e \<Longrightarrow> \<not> unary_start (raw e)" and p: "prec e \<le> 16"
  shows "reads ty e"
proof -
  have low: "at_level (parsers_at n) k w = Inr (e, adv (length (raw e)) w)"
    if "known_type w = ty" "p_rest w = raw e @ rest" "length (p_rest w) \<le> n" "stops k rest" "k \<le> prec e" for n w rest k
  proof (rule down_levels [OF top [OF that(1-3)]])
    show "stops (prec e) rest" using that(4,5) by (rule stops_mono)
    show "prec e \<le> 14 \<or> \<not> unary_start (p_rest w)" using first that(2) by (cases "raw e") (auto simp: unary_start_def)
  qed (use that p first in auto)
  have high: "at_level (parsers_at n) k w = Inr (e, adv (length (shown_at k e)) w)"
    if w: "known_type w = ty" "p_rest w = shown_at k e @ rest" "length (p_rest w) \<le> n" "stops k rest" and k: "prec e < k" "k \<le> 16" for n w rest k
  proof -
    have r: "p_rest w = TPunct (js ''('') 0 # raw e @ TPunct (js '')'') 0 # rest" using w(2) k(1) by (simp add: shown_at_def wrap_def)
    then obtain m where n: "n = Suc m" using w(3) by (cases n) auto
    have "at_level (parsers_at m) 0 (adv (Suc 0) w) = Inr (e, adv (length (raw e)) (adv (Suc 0) w))"
      using w(1,3) by (intro low [where rest = "TPunct (js '')'') 0 # rest"]) (auto simp: r n stops_def)
    then have "primary (parsers_at n) w = Inr (e, adv (length (shown_at k e)) w)"
      using k(1) by (simp add: primary_def run_then_peek [OF r] n run_bind run_then_expect [of _ "'')''" 0 rest] r shown_at_def wrap_def)
    then have "at_level (parsers_at n) 16 w = Inr (e, adv (length (shown_at k e)) w)" by (simp add: at_level_def)
    moreover have "p_rest w \<noteq> []" "\<not> unary_start (p_rest w)" by (simp_all add: r unary_start_def unary_ops_def)
    moreover have "stops k (p_rest (adv (length (shown_at k e)) w))" using w(2,4) by simp
    ultimately show ?thesis using k(2) by (auto intro: down_levels)
  qed
  show ?thesis unfolding reads_def
  proof (intro allI impI)
    fix n w rest k
    assume a: "known_type w = ty" "k \<le> 16" "p_rest w = shown_at k e @ rest" "length (p_rest w) \<le> n" "stops k rest"
    show "at_level (parsers_at n) k w = Inr (e, adv (length (shown_at k e)) w)"
      using low [OF a(1) _ a(4,5)] high [OF a(1,3,4,5) _ a(2)] a(3) by (cases "prec e < k") (auto simp: shown_at_def wrap_def)
  qed
qed

section \<open>The first token\<close>

lemma first_token:
  "writable ty e \<Longrightarrow> ty (js ''void'') \<Longrightarrow> raw e \<noteq> [] \<and> \<not> is_word ''void'' (hd (raw e)) \<and> \<not> is_punct '')'' (hd (raw e)) \<and> (15 \<le> prec e \<longrightarrow> \<not> unary_start (raw e))"
proof (induction ty e rule: writable.induct)
qed (auto simp: wrap_def in_parens_def is_word_def unary_start_def unary_ops_def step_ops_def dest: op_level_range split: list.splits gtok.splits)

declare raw.simps [simp del]

lemma shown_first:
  assumes "writable ty e" "ty (js ''void'')"
  shows "shown_at k e \<noteq> []" "\<not> is_word ''void'' (hd (shown_at k e))" "\<not> is_punct '')'' (hd (shown_at k e))"
  using first_token [OF assms] by (auto simp: shown_at_def wrap_def is_word_def)

section \<open>Arguments\<close>

lemma stops_simps [simp]:
  "stops k (TPunct (js '')'') l # ts)" "stops k (TPunct (js '']'') l # ts)" "stops k (TPunct (js '':'') l # ts)"
  "stops k (TPunct (js '','') l # ts) \<longleftrightarrow> 0 < k"
  by (simp_all add: stops_def)

lemma commas_read:
  "as \<noteq> [] \<Longrightarrow> list_all (reads ty) as \<Longrightarrow> known_type w = ty \<Longrightarrow> p_rest w = args_with (map (shown_at 1) as) @ TPunct (js '')'') 0 # rest \<Longrightarrow>
   length (p_rest w) \<le> n \<Longrightarrow> length as \<le> m \<Longrightarrow>
   commas_loop (at_level (parsers_at n) 1) m w = Inr (as, adv (length (args_with (map (shown_at 1) as))) w)"
proof (induction as arbitrary: w m)
  case (Cons a as)
  obtain k where m: "m = Suc k" "length as \<le> k" using Cons.prems(6) by (cases m) auto
  have a: "reads ty a" "list_all (reads ty) as" using Cons.prems(2) by auto
  show ?case
  proof (cases as)
    case Nil
    then have r: "p_rest w = shown_at 1 a @ TPunct (js '')'') 0 # rest" using Cons.prems(4) by simp
    have "at_level (parsers_at n) 1 w = Inr (a, adv (length (shown_at 1 a)) w)"
      using readsD [OF a(1) Cons.prems(3) r] Cons.prems(5) by simp
    then show ?thesis using Nil r by (simp add: m run)
  next
    case c: (Cons b bs)
    then have r: "p_rest w = shown_at 1 a @ TPunct (js '','') 0 # args_with (map (shown_at 1) as) @ TPunct (js '')'') 0 # rest"
      using Cons.prems(4) by simp
    have x: "at_level (parsers_at n) 1 w = Inr (a, adv (length (shown_at 1 a)) w)"
      using readsD [OF a(1) Cons.prems(3) r] Cons.prems(5) by simp
    have "commas_loop (at_level (parsers_at n) 1) k (adv (Suc (length (shown_at 1 a))) w) =
        Inr (as, adv (length (args_with (map (shown_at 1) as))) (adv (Suc (length (shown_at 1 a))) w))"
      using Cons.prems(3,5) c by (intro Cons.IH [OF _ a(2)] m) (auto simp: r)
    then show ?thesis using c r by (simp add: m run x)
  qed
qed simp

lemma args_length: "length as \<le> Suc (length (args_with as))" 
  by (induction as rule: args_with.induct) auto

lemma arg_list_read:
  assumes "list_all (reads ty) as" "list_all (writable ty) as" "known_type w = ty" "ty (js ''void'')"
    "p_rest w = args_with (map (shown_at 1) as) @ TPunct (js '')'') 0 # rest" "length (p_rest w) \<le> n"
  shows "arg_list (parsers_over (parsers_at n)) w = Inr (as, adv (Suc (length (args_with (map (shown_at 1) as)))) w)"
proof (cases as)
  case Nil
  then have r: "p_rest w = TPunct (js '')'') 0 # rest" using assms(5) by simp
  have "at_void_list w = Inr (False, w)" by (simp add: at_void_list_def at_id_def pbind_assoc run_then_peek [OF r] is_word_def)
  then show ?thesis using Nil by (simp add: arg_list_def run r)
next
  case (Cons a bs)
  obtain t ts where t: "p_rest w = t # ts" "\<not> is_word ''void'' t" "\<not> is_punct '')'' t"
  proof -
    have "shown_at 1 a \<noteq> []" "\<not> is_word ''void'' (hd (shown_at 1 a))" "\<not> is_punct '')'' (hd (shown_at 1 a))" using shown_first Cons assms(2,4) by auto
    moreover have "hd (p_rest w) = hd (shown_at 1 a)" "p_rest w \<noteq> []" using calculation(1) assms(5) Cons by (cases bs; simp)+
    ultimately show ?thesis by (cases "p_rest w") (auto intro: that)
  qed
  have "at_void_list w = Inr (False, w)" using t(2) by (simp add: at_void_list_def at_id_def pbind_assoc run_then_peek [OF t(1)])
  moreover have "commas (at_level (parsers_at n) 1) w = Inr (as, adv (length (args_with (map (shown_at 1) as))) w)"
  proof -
    have "length as \<le> Suc (length (p_rest w))" using args_length [of "map (shown_at 1) as"] assms(5) by simp
    then show ?thesis unfolding commas_def with_fuel_def using Cons assms by (intro commas_read) simp_all
  qed
  moreover have "eat_p '')'' w = Inr (False, w)" using t(3) by (simp add: run_eat [OF t(1)])
  ultimately show ?thesis using assms(5) by (simp add: arg_list_def pbind_run run_expect)
qed

section \<open>Primary expressions\<close>

lemma stops_cases:
  assumes "stops k ts"
  obtains t us where "ts = t # us" "case goes_on t of None \<Rightarrow> True | Some j \<Rightarrow> j < k"
  using assms by (cases ts) (auto simp: stops_def)

lemma top_primary: "at_level r 16 = primary r"
  by (simp add: at_level_def)

lemma reads_num: "reads ty (GNum v k l)"
  by (intro reads_intro) (auto simp: top_primary primary_def run unary_start_def raw_shown)

lemma reads_bool: "reads ty (GBool b l)"
  by (intro reads_intro) (auto simp: top_primary primary_def run unary_start_def raw_shown)

lemma keyword_bools: "x \<notin> set keywords_glsl \<Longrightarrow> x \<noteq> js ''true'' \<and> x \<noteq> js ''false'' \<and> x \<noteq> js ''struct''"
  by (auto simp: keywords_glsl_def)

lemma reads_id:
  assumes "\<not> ty x" "x \<notin> set keywords_glsl"
  shows "reads ty (GId x l)"
proof (intro reads_intro)
  fix n w rest
  assume w: "known_type w = ty" "p_rest w = raw (GId x l) @ rest" "stops (prec (GId x l)) rest"
  from w(3) obtain t us where t: "rest = t # us" "case goes_on t of None \<Rightarrow> True | Some j \<Rightarrow> j < prec (GId x l)"
    by (elim stops_cases)
  then have np: "\<not> is_punct ''('' t" by (cases t) auto
  have r: "p_rest w = TId x l # t # us" using w(2) t(1) by (simp add: raw_shown)
  show "at_level (parsers_at n) (prec (GId x l)) w = Inr (GId x l, adv (length (raw (GId x l))) w)"
    using assms keyword_bools [OF assms(2)] w(1) np
    by (simp add: top_primary primary_def run r raw_shown)
qed (simp_all add: unary_start_def raw_shown)

lemma reads_call:
  assumes "\<not> ty x" "x \<notin> set keywords_glsl" "list_all (reads ty) as" "list_all (writable ty) as" "ty (js ''void'')"
  shows "reads ty (GCall x as l)"
proof (intro reads_intro)
  fix n w rest
  assume w: "known_type w = ty" "p_rest w = raw (GCall x as l) @ rest" "length (p_rest w) \<le> n"
  have r: "p_rest w = TId x l # TPunct (js ''('') 0 # args_with (map (shown_at 1) as) @ TPunct (js '')'') 0 # rest"
    using w(2) by (simp add: raw_shown in_parens_def)
  then obtain m where n: "n = Suc m" using w(3) by (cases n) auto
  have "arg_list (parsers_over (parsers_at m)) (adv (Suc (Suc 0)) w) =
      Inr (as, adv (Suc (length (args_with (map (shown_at 1) as)))) (adv (Suc (Suc 0)) w))"
    using assms w(1,3) by (intro arg_list_read [where ty = ty and rest = rest]) (auto simp: r n)
  then show "at_level (parsers_at n) (prec (GCall x as l)) w = Inr (GCall x as l, adv (length (raw (GCall x as l))) w)"
    using assms keyword_bools [OF assms(2)] w(1)
    by (simp add: top_primary primary_def run r n raw_shown in_parens_def)
qed (simp_all add: unary_start_def raw_shown)

lemma type_read:
  assumes "p_rest w = TId x l # ts" "known_type w x" "x \<notin> set keywords_glsl"
  shows "type_specifier r w = Inr (TyName x, adv (Suc 0) w)"
  using assms keyword_bools [OF assms(3)] by (simp add: type_specifier_def run is_word_def)

lemma reads_ctor:
  assumes "ty x" "x \<notin> set keywords_glsl" "list_all (reads ty) as" "list_all (writable ty) as" "ty (js ''void'')"
  shows "reads ty (GCtor (TyName x) as l)"
proof (intro reads_intro)
  fix n w rest
  assume w: "known_type w = ty" "p_rest w = raw (GCtor (TyName x) as l) @ rest" "length (p_rest w) \<le> n"
  have r: "p_rest w = TId x l # TPunct (js ''('') 0 # args_with (map (shown_at 1) as) @ TPunct (js '')'') 0 # rest"
    using w(2) by (simp add: raw_shown in_parens_def)
  then obtain m where n: "n = Suc m" using w(3) by (cases n) auto
  have "arg_list (parsers_over (parsers_at m)) (adv (Suc (Suc 0)) w) =
      Inr (as, adv (Suc (length (args_with (map (shown_at 1) as)))) (adv (Suc (Suc 0)) w))"
    using assms w(1,3) by (intro arg_list_read [where ty = ty and rest = rest]) (auto simp: r n)
  then show "at_level (parsers_at n) (prec (GCtor (TyName x) as l)) w = Inr (GCtor (TyName x) as l, adv (length (raw (GCtor (TyName x) as l))) w)"
    using assms keyword_bools [OF assms(2)] w(1) type_read [OF r, of "parsers_over (parsers_at m)"]
    by (simp add: top_primary primary_def ctor_type_def run r n raw_shown in_parens_def)
qed (simp_all add: unary_start_def raw_shown)

lemma reads_array_ctor:
  assumes "ty x" "x \<notin> set keywords_glsl" "reads ty e" "list_all (reads ty) as" "list_all (writable ty) as" "ty (js ''void'')"
  shows "reads ty (GCtor (TyArr (TyName x) e) as l)"
proof (intro reads_intro)
  let ?e = "GCtor (TyArr (TyName x) e) as l"
  fix n w rest
  assume w: "known_type w = ty" "p_rest w = raw ?e @ rest" "length (p_rest w) \<le> n"
  have r: "p_rest w = TId x l # TPunct (js ''['') 0 # shown_at 1 e @ TPunct (js '']'') 0 # TPunct (js ''('') 0 #
      args_with (map (shown_at 1) as) @ TPunct (js '')'') 0 # rest"
    using w(2) by (simp add: raw_shown in_parens_def)
  then obtain m where n: "n = Suc m" using w(3) by (cases n) auto
  let ?k = "Suc (Suc (Suc (Suc (length (shown_at 1 e)))))"
  have "at_level (parsers_at m) 1 (adv (Suc (Suc 0)) w) = Inr (e, adv (length (shown_at 1 e)) (adv (Suc (Suc 0)) w))"
    using assms w(1,3) by (intro readsD [where ty = ty and rest = "TPunct (js '']'') 0 # rs" for rs]) (auto simp: r n)
  moreover have "arg_list (parsers_over (parsers_at m)) (adv ?k w) = Inr (as, adv (Suc (length (args_with (map (shown_at 1) as)))) (adv ?k w))"
    using assms w(1,3) by (intro arg_list_read [where ty = ty and rest = rest]) (auto simp: r n)
  ultimately show "at_level (parsers_at n) (prec ?e) w = Inr (?e, adv (length (raw ?e)) w)"
    using assms keyword_bools [OF assms(2)] w(1) type_read [OF r, of "parsers_over (parsers_at m)"]
    by (simp add: top_primary primary_def ctor_type_def dimension_def run r n raw_shown in_parens_def)
qed (simp_all add: unary_start_def raw_shown)

section \<open>Expressions with a loop\<close>

definition good_expr :: "(jstr \<Rightarrow> bool) \<Rightarrow> gexpr \<Rightarrow> bool" where
  "good_expr ty e = (reads ty e \<and> loops ty e)"

lemma good_no_loop: "reads ty e \<Longrightarrow> \<not> looping (prec e) \<Longrightarrow> good_expr ty e"
  using loops_other unfolding good_expr_def loops_def by blast

lemma left_over_adv [simp]: "left_over (adv k w) = left_over w - k"
  by (simp add: left_over_def)

lemma good_loop:
  assumes a: "loops ty a" and j: "prec e = j" "looping j" and e: "raw e = shown_at j a @ sfx" "sfx \<noteq> []"
    and stop: "\<And>rest. stops (Suc j) rest \<Longrightarrow> stops (Suc j) (sfx @ rest)"
    and go: "\<And>n m w rest. known_type w = ty \<Longrightarrow> p_rest w = sfx @ rest \<Longrightarrow> length (p_rest w) \<le> n \<Longrightarrow> stops (Suc j) rest \<Longrightarrow>
      level_loop (parsers_at n) j (Suc m) a w = level_loop (parsers_at n) j m e (adv (length sfx) w)"
    and first: "raw e \<noteq> []" "15 \<le> prec e \<Longrightarrow> \<not> unary_start (raw e)"
  shows "good_expr ty e"
proof -
  have own: "at_level (parsers_at n) j w = level_loop (parsers_at n) j (Suc (length rest)) e (adv (length (raw e)) w)"
    if w: "known_type w = ty" "p_rest w = raw e @ rest" "length (p_rest w) \<le> n" "stops (Suc j) rest" for n w rest
  proof -
    let ?w1 = "adv (length (shown_at j a)) w"
    have r: "p_rest w = shown_at j a @ (sfx @ rest)" using w(2) e(1) by simp
    have "at_level (parsers_at n) j w = level_loop (parsers_at n) j (Suc (length (sfx @ rest))) a ?w1"
      using loopsD [OF a w(1) r j(2) w(3) stop [OF w(4)]] .
    also have "\<dots> = level_loop (parsers_at n) j (length (sfx @ rest)) e (adv (length sfx) ?w1)"
      using w r by (intro go) auto
    also have "\<dots> = level_loop (parsers_at n) j (Suc (length rest)) e (adv (length sfx) ?w1)"
      using level_loop_enough [of "adv (length sfx) ?w1" n "length (sfx @ rest)" j e] w(3) r e(2) by (simp add: left_over_def)
    finally show ?thesis by (simp add: e(1))
  qed
  have "reads ty e"
  proof (rule reads_intro)
    fix n w rest
    assume w: "known_type w = ty" "p_rest w = raw e @ rest" "length (p_rest w) \<le> n" "stops (prec e) rest"
    have "stops (Suc j) rest" using stops_mono [OF w(4)] j(1) by simp
    from own [OF w(1-3) this] show "at_level (parsers_at n) (prec e) w = Inr (e, adv (length (raw e)) w)"
      using loop_stops [OF j(2)] w(2,4) j(1) by simp
  qed (use first looping_le [OF j(2)] j(1) in auto)
  moreover from this have "loops ty e"
    unfolding loops_def using own j(1) loops_other by (metis less_irrefl shown_at_def wrap_def)
  ultimately show ?thesis by (simp add: good_expr_def)
qed

lemma good_bin:
  assumes "good_expr ty a" "good_expr ty b" "x \<in> set (concat op_levels)" "shown_at (op_level x) a \<noteq> []"
  shows "good_expr ty (GBin x a b l)"
proof (rule good_loop [where j = "op_level x" and a = a and sfx = "TPunct x l # shown_at (Suc (op_level x)) b"])
  note x = op_level_range [OF assms(3)]
  show "looping (op_level x)" using x by (simp add: looping_def)
  show "loops ty a" using assms(1) by (simp add: good_expr_def)
  show "raw (GBin x a b l) = shown_at (op_level x) a @ TPunct x l # shown_at (Suc (op_level x)) b" by (simp add: raw_shown)
  show "stops (Suc (op_level x)) ((TPunct x l # shown_at (Suc (op_level x)) b) @ rest)" for rest
    using goes_on_op [OF assms(3)] by (simp add: stops_def)
  show "15 \<le> prec (GBin x a b l) \<Longrightarrow> \<not> unary_start (raw (GBin x a b l))" using x by simp
  fix n m w rest
  assume w: "known_type w = ty" "p_rest w = (TPunct x l # shown_at (Suc (op_level x)) b) @ rest" "length (p_rest w) \<le> n" "stops (Suc (op_level x)) rest"
  have "at_level (parsers_at n) (Suc (op_level x)) (adv (Suc 0) w) = Inr (b, adv (length (shown_at (Suc (op_level x)) b)) (adv (Suc 0) w))"
    using assms(2) w x by (intro readsD [where ty = ty and rest = rest]) (simp_all add: good_expr_def)
  then show "level_loop (parsers_at n) (op_level x) (Suc m) a w =
      level_loop (parsers_at n) (op_level x) m (GBin x a b l) (adv (length (TPunct x l # shown_at (Suc (op_level x)) b)) w)"
    using x w(2) by (simp add: level_loop_def run)
qed (use assms(4) in \<open>simp_all add: raw_shown\<close>)

lemma good_comma:
  assumes "good_expr ty a" "good_expr ty b" "raw a \<noteq> []"
  shows "good_expr ty (GComma a b l)"
proof (rule good_loop [where j = 0 and a = a and sfx = "TPunct (js '','') l # shown_at 1 b"])
  show "loops ty a" using assms(1) by (simp add: good_expr_def)
  show "raw (GComma a b l) = shown_at 0 a @ TPunct (js '','') l # shown_at 1 b" by (simp add: raw_shown shown_0)
  fix n m w rest
  assume w: "known_type w = ty" "p_rest w = (TPunct (js '','') l # shown_at 1 b) @ rest" "length (p_rest w) \<le> n" "stops (Suc 0) rest"
  have "at_level (parsers_at n) 1 (adv (Suc 0) w) = Inr (b, adv (length (shown_at 1 b)) (adv (Suc 0) w))"
    using assms(2) w by (intro readsD [where ty = ty and rest = rest]) (simp_all add: good_expr_def One_nat_def)
  then show "level_loop (parsers_at n) 0 (Suc m) a w =
      level_loop (parsers_at n) 0 m (GComma a b l) (adv (length (TPunct (js '','') l # shown_at 1 b)) w)"
    using w(2) by (simp add: level_loop_def run at_level_def)
qed (use assms(3) in \<open>simp_all add: raw_shown looping_def\<close>)

lemma postfix_first: "raw a \<noteq> [] \<Longrightarrow> (15 \<le> prec a \<Longrightarrow> \<not> unary_start (raw a)) \<Longrightarrow> shown_at 15 a \<noteq> [] \<and> \<not> unary_start (shown_at 15 a @ ts)"
  by (cases "raw a") (auto simp: shown_at_def wrap_def unary_start_def unary_ops_def)

lemma good_postfix:
  assumes "good_expr ty a" "raw a \<noteq> []" "15 \<le> prec a \<Longrightarrow> \<not> unary_start (raw a)"
    and e: "prec e = 15" "raw e = shown_at 15 a @ t # sfx" "goes_on t = Some 15"
    and go: "\<And>n m w rest. known_type w = ty \<Longrightarrow> p_rest w = t # sfx @ rest \<Longrightarrow> length (p_rest w) \<le> n \<Longrightarrow> stops 16 rest \<Longrightarrow>
      postfix_loop (parsers_at n) (Suc m) a w = postfix_loop (parsers_at n) m e (adv (Suc (length sfx)) w)"
  shows "good_expr ty e"
proof (rule good_loop [where j = 15 and a = a and sfx = "t # sfx"])
  show "loops ty a" using assms(1) by (simp add: good_expr_def)
  show "raw e = shown_at 15 a @ t # sfx" by (rule e(2))
  show "raw e \<noteq> []" "\<not> unary_start (raw e)" using postfix_first [OF assms(2,3), of "t # sfx"] by (simp_all add: e(2))
qed (use e(1,3) go in \<open>simp_all add: stops_def looping_def level_loop_def\<close>)

lemma good_index:
  assumes "good_expr ty a" "raw a \<noteq> []" "15 \<le> prec a \<Longrightarrow> \<not> unary_start (raw a)" "good_expr ty i"
  shows "good_expr ty (GIndex a i l)"
proof (rule good_postfix [OF assms(1-3), where t = "TPunct (js ''['') l" and sfx = "raw i @ [TPunct (js '']'') 0]"])
  fix n m w rest
  assume w: "known_type w = ty" "p_rest w = TPunct (js ''['') l # (raw i @ [TPunct (js '']'') 0]) @ rest" "length (p_rest w) \<le> n"
  then obtain k where n: "n = Suc k" by (cases n) auto
  have "at_level (parsers_at k) 0 (adv (Suc 0) w) = Inr (i, adv (length (shown_at 0 i)) (adv (Suc 0) w))"
    using assms(4) w n by (intro readsD [where ty = ty and rest = "TPunct (js '']'') 0 # rest"]) (simp_all add: good_expr_def shown_0)
  then show "postfix_loop (parsers_at n) (Suc m) a w =
      postfix_loop (parsers_at n) m (GIndex a i l) (adv (Suc (length (raw i @ [TPunct (js '']'') 0]))) w)"
    using w(2) by (simp add: run n shown_0)
qed (simp_all add: raw_shown)

lemma good_length:
  assumes "good_expr ty a" "raw a \<noteq> []" "15 \<le> prec a \<Longrightarrow> \<not> unary_start (raw a)"
  shows "good_expr ty (GLength a l)"
  by (rule good_postfix [OF assms, where t = "TPunct (js ''.'') l" and sfx = "[TId (js ''length'') 0, TPunct (js ''('') 0, TPunct (js '')'') 0]"])
    (simp_all add: raw_shown run member_def)

lemma good_field:
  assumes "good_expr ty a" "raw a \<noteq> []" "15 \<le> prec a \<Longrightarrow> \<not> unary_start (raw a)"
  shows "good_expr ty (GField a x l)"
proof (rule good_postfix [OF assms, where t = "TPunct (js ''.'') l" and sfx = "[TId x 0]"])
  fix n m and w :: parse_state and rest
  assume w: "p_rest w = TPunct (js ''.'') l # [TId x 0] @ rest" "stops 16 rest"
  from w(2) obtain t us where t: "rest = t # us" "case goes_on t of None \<Rightarrow> True | Some j \<Rightarrow> j < 16" by (elim stops_cases)
  then have "\<not> is_punct ''('' t" by (cases t) auto
  then show "postfix_loop (parsers_at n) (Suc m) a w = postfix_loop (parsers_at n) m (GField a x l) (adv (Suc (length [TId x 0])) w)"
    using w(1) t(1) by (simp add: run member_def)
qed (simp_all add: raw_shown)

lemma good_post:
  assumes "good_expr ty a" "raw a \<noteq> []" "15 \<le> prec a \<Longrightarrow> \<not> unary_start (raw a)" "x \<in> step_ops"
  shows "good_expr ty (GPost x a l)"
  by (rule good_postfix [OF assms(1-3), where t = "TPunct x l" and sfx = "[]"])
    (use assms(4) goes_on_step in \<open>auto simp: raw_shown run step_ops_def\<close>)

section \<open>The other expressions\<close>

lemma unary_read:
  assumes "good_expr ty a" "x \<in> set unary_ops" "known_type w = ty" "p_rest w = TPunct x l # shown_at 14 a @ rest" "length (p_rest w) \<le> n" "stops 14 rest"
  shows "unary (parsers_at n) w = Inr (if x \<in> step_ops then GPre x a l else GUn x a l, adv (Suc (length (shown_at 14 a))) w)"
proof -
  obtain k where n: "n = Suc k" using assms(4,5) by (cases n) auto
  have "at_level (parsers_at k) 14 (adv (Suc 0) w) = Inr (a, adv (length (shown_at 14 a)) (adv (Suc 0) w))"
    using assms n by (intro readsD [where ty = ty and rest = rest]) (simp_all add: good_expr_def)
  then show ?thesis using assms(2,4) by (simp add: unary_def run n step_ops_def)
qed

lemma good_pre:
  assumes "good_expr ty a" "x \<in> set unary_ops" "x \<in> step_ops"
  shows "good_expr ty (GPre x a l)"
proof (rule good_no_loop [OF reads_intro])
  fix n w rest
  assume w: "known_type w = ty" "p_rest w = raw (GPre x a l) @ rest" "length (p_rest w) \<le> n" "stops (prec (GPre x a l)) rest"
  show "at_level (parsers_at n) (prec (GPre x a l)) w = Inr (GPre x a l, adv (length (raw (GPre x a l))) w)"
    using unary_read [OF assms(1,2) w(1) _ w(3), of l rest] w(2,4) assms(3) by (simp add: at_level_def raw_shown)
qed (simp_all add: raw_shown looping_def)

lemma good_un:
  assumes "good_expr ty a" "x \<in> set unary_ops" "x \<notin> step_ops"
  shows "good_expr ty (GUn x a l)"
proof (rule good_no_loop [OF reads_intro])
  fix n w rest
  assume w: "known_type w = ty" "p_rest w = raw (GUn x a l) @ rest" "length (p_rest w) \<le> n" "stops (prec (GUn x a l)) rest"
  show "at_level (parsers_at n) (prec (GUn x a l)) w = Inr (GUn x a l, adv (length (raw (GUn x a l))) w)"
    using unary_read [OF assms(1,2) w(1) _ w(3), of l rest] w(2,4) assms(3) by (simp add: at_level_def raw_shown)
qed (simp_all add: raw_shown looping_def)

lemma good_cond:
  assumes "good_expr ty c" "good_expr ty a" "good_expr ty b" "raw c \<noteq> []"
  shows "good_expr ty (GCond c a b l)"
proof (rule good_no_loop [OF reads_intro])
  let ?e = "GCond c a b l"
  fix n w rest
  assume w: "known_type w = ty" "p_rest w = raw ?e @ rest" "length (p_rest w) \<le> n" "stops (prec ?e) rest"
  let ?c = "length (shown_at 3 c)" and ?a = "length (raw a)" and ?b = "length (shown_at 1 b)"
  let ?k = "Suc (Suc (?c + ?a))"
  have r: "p_rest w = shown_at 3 c @ TPunct (js ''?'') l # raw a @ TPunct (js '':'') 0 # shown_at 1 b @ rest" using w(2) by (simp add: raw_shown)
  then obtain k where n: "n = Suc k" using w(3) by (cases n) auto
  have "at_level (parsers_at n) 3 w = Inr (c, adv ?c w)"
    using assms(1) w by (intro readsD [OF _ w(1) r]) (simp_all add: good_expr_def stops_def)
  then have x: "binary (parsers_at n) op_levels w = Inr (c, adv ?c w)" by (simp add: at_level_def)
  have y: "at_level (parsers_at k) 0 (adv (Suc ?c) w) = Inr (a, adv ?a (adv (Suc ?c) w))"
    using readsD [of ty a "adv (Suc ?c) w" 0 "TPunct (js '':'') 0 # shown_at 1 b @ rest" k] assms(2) w(1,3) n
    by (simp add: good_expr_def shown_0 r)
  have z: "at_level (parsers_at k) 1 (adv ?k w) = Inr (b, adv ?b (adv ?k w))"
    using readsD [of ty b "adv ?k w" 1 rest k] assms(3) w(1,3,4) n by (simp add: good_expr_def r)
  have "at_level (parsers_at n) (Suc 1) w = Inr (?e, adv (length (raw ?e)) w)"
    using x y z by (simp add: at_level_def conditional_def run r n raw_shown add.assoc)
  from down_one [OF this] show "at_level (parsers_at n) (prec ?e) w = Inr (?e, adv (length (raw ?e)) w)"
    using w(2,4) by simp
qed (use assms(4) in \<open>simp_all add: raw_shown looping_def shown_at_def wrap_def\<close>)

lemma good_assign:
  assumes "good_expr ty a" "good_expr ty b" "x \<in> set assign_ops" "raw a \<noteq> []"
  shows "good_expr ty (GAssign x a b l)"
proof (rule good_no_loop [OF reads_intro])
  let ?e = "GAssign x a b l"
  fix n w rest
  assume w: "known_type w = ty" "p_rest w = raw ?e @ rest" "length (p_rest w) \<le> n" "stops (prec ?e) rest"
  let ?a = "length (shown_at 3 a)" and ?b = "length (shown_at 1 b)"
  have r: "p_rest w = shown_at 3 a @ TPunct x l # shown_at 1 b @ rest" using w(2) by (simp add: raw_shown)
  then obtain k where n: "n = Suc k" using w(3) by (cases n) auto
  have st: "stops k (TPunct x l # ts)" if "1 < k" for k ts using goes_on_assign [OF assms(3)] that by (simp add: stops_def)
  have "at_level (parsers_at n) (Suc 2) w = Inr (a, adv ?a w)"
    using readsD [OF _ w(1) r _ w(3)] assms(1) st by (simp add: good_expr_def)
  from down_one [OF this] have "at_level (parsers_at n) 2 w = Inr (a, adv ?a w)"
    using st r by simp
  then have x: "conditional (parsers_at n) w = Inr (a, adv ?a w)" by (simp add: at_level_def)
  have y: "at_level (parsers_at k) 1 (adv (Suc ?a) w) = Inr (b, adv ?b (adv (Suc ?a) w))"
    using readsD [of ty b "adv (Suc ?a) w" 1 rest k] assms(2) w(1,3,4) n by (simp add: good_expr_def r)
  have "assignment (parsers_at n) w = Inr (?e, adv (length (raw ?e)) w)"
    using assms(3) x y by (simp add: assignment_def run r n raw_shown)
  then show "at_level (parsers_at n) (prec ?e) w = Inr (?e, adv (length (raw ?e)) w)"
    by (simp add: at_level_def)
qed (use assms(4) in \<open>simp_all add: raw_shown looping_def shown_at_def wrap_def\<close>)

section \<open>All expressions\<close>

lemma good_writable: "writable ty e \<Longrightarrow> ty (js ''void'') \<Longrightarrow> good_expr ty e"
proof (induction ty e rule: writable.induct)
  case (1 ty v k l)
  show ?case by (rule good_no_loop [OF reads_num]) (simp add: looping_def)
next
  case (2 ty b l)
  show ?case by (rule good_no_loop [OF reads_bool]) (simp add: looping_def)
next
  case (3 ty x as l)
  then have "list_all (reads ty) as" by (auto simp: list_all_iff good_expr_def)
  then show ?case using 3 by (intro good_no_loop reads_ctor) (auto simp: looping_def)
next
  case (4 ty x e as l)
  then have "list_all (reads ty) as" "reads ty e" by (auto simp: list_all_iff good_expr_def)
  then show ?case using 4 by (intro good_no_loop reads_array_ctor) (auto simp: looping_def)
next
  case (6 ty x as l)
  then have "list_all (reads ty) as" by (auto simp: list_all_iff good_expr_def)
  then show ?case using 6 by (intro good_no_loop reads_call) (auto simp: looping_def)
next
  case (7 ty x l)
  then show ?case by (intro good_no_loop reads_id) (auto simp: looping_def)
next
  case (8 ty a i l)
  then show ?case using first_token [of ty a] by (intro good_index) auto
next
  case (9 ty a l)
  then show ?case using first_token [of ty a] by (intro good_length) auto
next
  case (10 ty a x l)
  then show ?case using first_token [of ty a] by (intro good_field) auto
next
  case (11 ty x a l)
  then show ?case using first_token [of ty a] by (intro good_post) auto
next
  case (12 ty x a l)
  then show ?case by (intro good_pre) (auto simp: step_ops_def unary_ops_def)
next
  case (13 ty x a l)
  then show ?case by (intro good_un) auto
next
  case (14 ty x a b l)
  then show ?case using shown_first(1) [of ty a] by (intro good_bin) auto
next
  case (15 ty c a b l)
  then show ?case using first_token [of ty c] by (intro good_cond) auto
next
  case (16 ty x a b l)
  then show ?case using first_token [of ty a] by (intro good_assign) auto
next
  case (17 ty a b l)
  then show ?case using first_token [of ty a] by (intro good_comma) auto
qed auto

lemma known_void: "known_type w (js ''void'')"
  by (simp add: known_type_def basic_types_def)

text \<open>C39: an expression that is written as tokens, with parentheses only where the levels of the grammar need them, is
  parsed back as it was, and no more than its tokens are read: precedence, association, calls, constructors, members and
  conditional expressions come out as the printer means them, whatever follows that does not go on with the expression.\<close>

theorem expressions_parse_back:
  assumes "writable (known_type w) e" "p_rest w = raw e @ rest" "length (p_rest w) \<le> n" "stops 0 rest"
  shows "expression (parsers_at n) w = Inr (e, w\<lparr>p_rest := rest, p_pos := p_pos w + length (raw e)\<rparr>)"
proof -
  have "reads (known_type w) e" using good_writable [OF assms(1) known_void] by (simp add: good_expr_def)
  from readsD [OF this refl, of 0 rest n] assms(2-4) show ?thesis by (simp add: at_level_def shown_0 adv_def)
qed

text \<open>\<open>a.x += (b, -c[k]) * (d - (e - f)) ? vec2(g, f())++ : h = i\<close> before a semicolon.\<close>

definition example_expr :: gexpr where
  "example_expr = (let v = \<lambda>x. GId (js x) 1 in
     GAssign (js ''+='') (GField (v ''a'') (js ''x'') 1)
       (GCond (GBin (js ''*'') (GComma (v ''b'') (GUn (js ''-'') (GIndex (v ''c'') (v ''k'') 1) 1) 1)
           (GBin (js ''-'') (v ''d'') (GBin (js ''-'') (v ''e'') (v ''f'') 1) 1) 1)
         (GPost (js ''++'') (GCtor (TyName (js ''vec2'')) [v ''g'', GCall (js ''f'') [] 1] 1) 1)
         (GAssign (js ''='') (v ''h'') (v ''i'') 1) 1) 1)"

definition example_state :: parse_state where
  "example_state = initial_parse (raw example_expr @ [TPunct (js '';'') 1, TEof 1]) 300"

lemma expressions_parse_back_witness:
  "expression (parsers_at 40) example_state =
     Inr (example_expr, example_state\<lparr>p_rest := [TPunct (js '';'') 1, TEof 1], p_pos := p_pos example_state + length (raw example_expr)\<rparr>)"
proof (rule expressions_parse_back)
  show "writable (known_type example_state) example_expr" by code_simp
  show "p_rest example_state = raw example_expr @ [TPunct (js '';'') 1, TEof 1]" by (simp add: example_state_def initial_parse_def)
  show "length (p_rest example_state) \<le> 40" by code_simp
  show "stops 0 [TPunct (js '';'') 1, TEof 1]" by code_simp
qed

end
