(* ===== verification/Spec2Isabelle.thy ===== *)
theory Spec2Isabelle
  imports IdbStoreProps IdbTxProps XProps EvtProps WebTextProps DomProps LoopProps WebLockProps DomTraverseProps
    WebStreamProps WebShaProps GlslProps GlslRound
begin

text \<open>
  A model of the script layer of the browser (\<open>src/crates/script/js\<close>): the JavaScript that implements
  the web platform's interfaces for pages, over natives of the engine.  These parts are
  modelled, each with its own theories: IndexedDB (\<open>45_indexeddb.js\<close>); XPath (\<open>25_xpath.js\<close>); events with their
  targets (\<open>10_events.js\<close>); of \<open>20_dom.js\<close> the mutation of the tree with live ranges and observers, and its traversal;
  of \<open>40_webapi.js\<close> the event loop, locks, readable streams, the text formats and lists, and the digests; and the front
  end of the shading language (\<open>33_glsl_front.js\<close>).  IndexedDB and
  the abort signals meet in the dispatch of events: both fire events, whose listeners are page code that may call anything.

  \<^bold>\<open>Shared theories.\<close>

  \<^item> \<open>JsPrelude\<close>: strings as lists of UTF-16 code units, splitting and searching, results with
    exceptions (\<open>res\<close>: \<open>Inl\<close> is what was thrown), list edits.
  \<^item> \<open>JsNum\<close>: the numbers of the language; a finite double is its rational value.
  \<^item> \<open>JsValues\<close>: the values of the page, their conversions to numbers, strings and booleans, and what
    the layer asks of the page's objects.
  \<^item> \<open>KeyOrder\<close>: the \<open>comparator\<close> interface (a total preorder), sorted lists, and binary search.

  \<^bold>\<open>IndexedDB.\<close>  The code keeps the data of each database (\<open>DbData\<close>, \<open>StoreData\<close>, \<open>IndexData\<close>, sorted
  arrays of rows) apart from the transient side (connections, transactions, requests, cursors).

  \<^item> \<open>IdbKeys\<close> (lines 81--239): keys from page values with the cycle check, \<open>cmpKeys\<close>, key paths.
  \<^item> \<open>IdbRows\<close> (241--365): key ranges, the two binary searches, spans, and \<open>collect\<close>.
  \<^item> \<open>IdbStore\<close> (366--488): the undo log, rows, indexes, \<open>storeDelete\<close>, the key generator,
    \<open>storeRecord\<close>.  An undo closure is a value of \<open>undo\<close>, and \<open>apply_undo\<close> is its body.
  \<^item> \<open>IdbStoreLaws\<close>, \<open>IdbStoreProps\<close>: what these promise: records can be read back, a failed request
    leaves nothing behind, indexes follow the records, queries select what the range says.
  \<^item> \<open>IdbWorld\<close>: the transient side.  An object of the code is a number, a table gives its fields
    (\<open>i_txs\<close>, \<open>i_conns\<close>, \<open>i_reqs\<close>, ...); a closure given to \<open>execute\<close> is a value of \<open>idb_op\<close>, one
    given to \<open>later\<close> a \<open>task\<close>.  The page is the parameter \<open>idb_env\<close>: listeners, timers and getters
    may change the whole state, and a persistent backend may refuse a commit.
  \<^item> \<open>IdbCursor\<close> (902--997): \<open>iterate\<close> and the work of each queued request.
  \<^item> \<open>IdbTx\<close> (507--727): the connection queue, \<open>canStart\<close>, \<open>step\<close>, \<open>runItem\<close>, \<open>commitTx\<close>, \<open>abortTx\<close>.
  \<^item> \<open>IdbOpen\<close> (732--839): opening, upgrading and deleting databases, and \<open>run_task\<close>.
  \<^item> \<open>IdbHandles\<close>, \<open>IdbApi\<close> (38--48, 177--182, 845--1556): the methods of the interfaces, and the
    steps of the whole (\<open>idb_step\<close>): the next task, or a call of the page.
  \<^item> \<open>IdbCursorLaws\<close>, \<open>IdbCursorProps\<close>: a cursor visits what \<open>getAll\<close> collects (through the interface
    \<open>row_scan\<close>), \<open>advance\<close> is repeated \<open>continue\<close>.
  \<^item> \<open>IdbTxLaws\<close> states the interfaces \<open>idb_rel\<close> and \<open>idb_page_rel\<close> (a relation between states that every
    elementary change respects) and proves once that all methods and tasks respect it;
    \<open>IdbTxInv\<close> gives two instances, \<open>IdbTxLive\<close> the progress of a transaction, and \<open>IdbTxProps\<close>
    the properties: conflicting transactions do not mix, a finished transaction keeps its outcome,
    an undisturbed one finishes, and a request placed after its transaction was aborted is lost.

  \<^bold>\<open>XPath.\<close>  Source text goes through the lexer, the parser and the compiler's closures.

  \<^item> \<open>XDom\<close>: the native tree and the access functions over it; \<open>XConv\<close>: values, conversions,
    comparisons; \<open>XLex\<close>, \<open>XParse\<close>: tokens and recursive descent; \<open>XFuns\<close>: the function library;
    \<open>XEval\<close>: node tests, axes, predicates, merged steps, evaluation (the closures that \<open>compile\<close>
    builds are the value of \<open>eval\<close> on the compiled expression); \<open>XApi\<close>: resolvers and \<open>XPathResult\<close>.
  \<^item> \<open>XOrder\<close>, \<open>XLaws\<close>, \<open>XSteps\<close>, \<open>XProps\<close>: document order, what a step selects, merging of \<open>//\<close>,
    the comparisons with node-sets, the possible errors, and that parsing always returns.

  \<^bold>\<open>Events.\<close>

  \<^item> \<open>EvtEvents\<close>: the event classes, constructors, accessors and legacy initialisers;
    \<open>EvtTargets\<close>: listener lists, handler attributes and \<open>dispatchCore\<close>; \<open>EvtAbort\<close>: abort signals.
    Page callbacks are a parameter that may change the whole state.
  \<^item> \<open>EvtLaws\<close>: the interface \<open>dispatch_rel\<close>, relations that a dispatch respects; \<open>EvtProps\<close>: the order of
    listeners, the state after a dispatch, once and passive listeners, abort, ranges of numbers.

  \<^bold>\<open>Text formats, query strings, headers.\<close>

  \<^item> \<open>WebText\<close> (\<open>40_webapi.js\<close> 931--1049, 1345--1367, 1450--1486): UTF-8 both ways, percent-encoding and
    the form format, base64.  The native decoder for long input is the parameter \<open>native\<close>; its
    documented behaviour is \<open>native_decodes\<close>: well-formed input without a mark comes back as it was.
  \<^item> \<open>WebLists\<close> (1053--1139, 2008--2126): \<open>URLSearchParams\<close> and \<open>Headers\<close> as lists in insertion order.
  \<^item> \<open>WebTextLaws\<close>, \<open>WebTextProps\<close>: round trips of queries and base64, decoded text is well-formed, the
    treatment of byte order marks, \<open>encodeInto\<close> stays in its destination, headers as a multimap.

  \<^bold>\<open>Tree mutation, live ranges, observers\<close> (\<open>20_dom.js\<close>).  A state (\<open>dworld\<close>) is the native tree, the registry of
  live ranges, the mutation observers and the next fresh node.

  \<^item> \<open>XTree\<close>, \<open>DomTree\<close> (4660--4684 and the natives of \<open>dom.rs\<close>, 366--556): subtrees, the natives that change the
    tree and what they refuse, lengths, indexes, \<open>bpCompare\<close>.
  \<^item> \<open>DomRanges\<close> (690--822): \<open>rangeIndex\<close> and the updates of the ranges; \<open>DomObservers\<close> (455--527, 4278--4338): registrations,
    \<open>queueMutation\<close>, delivery; \<open>DomMutate\<close> (824--1180, 1204--1221, 1327--1339, 1504--1534, 2798--2880): insertion, removal,
    replacement, character data, normalizing; \<open>DomRangeApi\<close> (4603--4620, 4686--5112): \<open>Range\<close>, \<open>StaticRange\<close>, \<open>Selection\<close>.
  \<^item> \<open>DomRangeLaws\<close>: the updates through the index are functions on boundary points, as the standard gives them
    (interface \<open>state_loop\<close>: a loop over indexed states that keeps the index exact).
  \<^item> \<open>DomPoints\<close>, \<open>DomPlaced\<close>, \<open>DomAncestors\<close>, \<open>DomKeep\<close>, \<open>DomWorld\<close>, \<open>DomSplit\<close>: the boundary points of a tree in the
    order of a walk, what an edit does to that order, and that each method keeps every range in place;
    \<open>DomCompare\<close>: \<open>bpCompare\<close> is that order; \<open>DomRangeInv\<close>: the setters of ranges; \<open>DomSteps\<close>: all of them as
    one step relation; \<open>DomObserverLaws\<close>: who hears of a mutation; \<open>DomProps\<close>: the properties.

  Reactions of custom elements, scripts and layout observers at the end of a mutation are the hooks \<open>dom_hooks\<close>; the
  properties ask that they leave tree and ranges alone while the method runs (\<open>hooks_quiet\<close>).  \<open>normalize\<close> and
  \<open>deleteContents\<close> are modelled but not among the steps of the invariant, and \<open>replaceChild\<close> breaks it.

  \<^bold>\<open>The event loop\<close> (\<open>40_webapi.js\<close> 13--171, 205--410, over the native timers of \<open>timers.rs\<close>).

  \<^item> \<open>LoopState\<close>: timers of the page and of the layer, the task queue with its pump, frames, idle callbacks, message
    ports and broadcast channels.  Page code (\<open>page\<close>) sees the state and makes calls; a log has what can be seen.
  \<^item> \<open>LoopLaws\<close>, \<open>LoopInv\<close>: the invariant (ids never come again, the pump is armed, tasks and messages are in order), in
    the interface \<open>loop_prop\<close>: a property that every call and every elementary step keeps holds in every run.
  \<^item> \<open>LoopProps\<close>: tasks start in order and the queue makes progress, ports deliver in order, a cleared timer is dead.

  \<^bold>\<open>Locks, streams, digests\<close> (\<open>40_webapi.js\<close>).

  \<^item> \<open>WebLocks\<close>, \<open>WebLockProps\<close> (4636--4696): \<open>LockManager\<close> and \<open>processLocks\<close>; an exclusive lock excludes every other
    holder of its name, and requests of a name are granted in the order they were made.
  \<^item> \<open>WebStreams\<close>, \<open>WebStreamProps\<close> (1783--1941): \<open>ReadableStream\<close>, its controller and reader as steps of the page and of the
    underlying source; reads get the chunks in order, demand reaches the source, and \<open>pull\<close> is called again and again.
  \<^item> \<open>WebSha\<close>, \<open>WebShaProps\<close> (3451--3561): SHA-1, SHA-256, SHA-384, SHA-512 on machine words, equal to the standard's
    definitions (padding by least number of zeros, schedule by recursion).

  \<^bold>\<open>Traversal\<close> (\<open>20_dom.js\<close> 4478--4655).  \<open>DomTraverse\<close>: \<open>TreeWalker\<close> and \<open>NodeIterator\<close>; a filter is page code that may change
  tree and walker, so the loops are partial functions.  \<open>DomTraverseProps\<close>: with a filter that only answers, repeated
  \<open>nextNode\<close> returns exactly the nodes the standard's description selects, in tree order, and then null.

  \<^bold>\<open>The front end of the shading language\<close> (\<open>33_glsl_front.js\<close>; \<open>compile\<close> of \<open>34_glsl_gen.js\<close> composes it).

  \<^item> \<open>GlslText\<close> (9--186): comments, the regular expressions of numbers and names, macros and \<open>expand\<close>, the conditions of
    \<open>#if\<close> on 32-bit words; \<open>GlslPre\<close> (42--57, 188--262): directives, the stack of conditionals, the lines.
  \<^item> \<open>GlslLex\<close> (264--309): tokens; \<open>GlslParse\<close> (311--664): the syntax and the parser, whose functions take the record
    \<open>gparsers\<close> of those they call back, closed by \<open>parsers_at\<close> at a depth.
  \<^item> \<open>GlslTextLaws\<close>, \<open>GlslParseLaws\<close>: newlines through each stage, induction on depth and text of an expansion, and what
    each parser leaves of its tokens (rules \<open>runs\<close> and \<open>calls\<close>); \<open>GlslProps\<close>: lines are kept, skipped code has no effect,
    tokens are the text, the front end returns.
  \<^item> \<open>GlslRound\<close>: a printer of expressions that sets parentheses only where a level asks for them
    (\<open>raw\<close>, \<open>shown_at\<close>), and that the parser reads back what it prints.

  \<^bold>\<open>Bounds and fuel.\<close>  Recursion over heaps of page objects (\<open>to_key\<close>) carries the list of arrays on the path,
  which is the code's own cycle check and bounds the depth by the number of objects.  The walks over
  a tree and the parser use the length of what is left as their measure.  \<open>run_tasks\<close> takes the
  number of tasks to run: the properties quantify over it, and the progress theorem gives a number
  that is enough, four turns per queued request and three to commit.  Nested dispatches
  of abort signals take a depth; the property about them holds for every depth.  The walks of \<open>normalize\<close> and of the
  text of a range visit a node of the tree at most once, so that the number of nodes bounds them.  The parser of shaders
  gets one more than the number of its tokens, as depth and as rounds of each loop (\<open>front_end_returns\<close>: it is enough).

  \<^bold>\<open>Not modelled.\<close>  Messages of exceptions, argument counts and brand checks; caching of arrays (the key
  path an interface reports); iterables other than arrays where the code calls \<open>Array.from\<close>; a getter that stores
  again while a value is being cloned; the order of microtasks, which appear as calls of the page between
  tasks; the cloning algorithm itself (\<open>structuredClone\<close>) and the natives of the tree, which are
  parameters or tree operations.  Of the DOM: shadow trees, templates, nodes of other realms, several arguments of
  \<open>append\<close> and its kin, extraction and cloning of the contents of ranges, client rectangles.  Of the
  web interfaces: envelopes of messages between realms, \<open>tee\<close>, \<open>pipeTo\<close>, writable and transform streams.  Of the
  shading language: the type checker and the generator of code.  The rest
  of the layer (DOM wrappers, HTML elements, WebGL, Web Audio) consists largely of calls of
  natives and of numeric code.
\<close>

end
